(* ===== verification/Prelude.thy ===== *)
theory Prelude
  imports Main "HOL-Library.List_Lexorder" "HOL-Library.Char_ord" "HOL-Library.Sublist"
    "HOL-Library.Product_Lexorder"
begin

text \<open>
  What every component theory shares.

  A Go \<^verbatim>\<open>string\<close> is a sequence of bytes, so it is a HOL \<open>string\<close> (a list of
  \<open>char\<close>, which are bytes); \<open>length\<close> is Go's \<^verbatim>\<open>len\<close> and the order \<open><\<close> of
  List\_Lexorder over Char\_ord is Go's byte-wise string order. The functions below are
  what the sources use of Go's \<^verbatim>\<open>strings\<close>, \<^verbatim>\<open>strconv\<close> and
  \<^verbatim>\<open>unicode/utf8\<close> packages. An index that Go reports as -1 is \<open>None\<close>.
  A \<^verbatim>\<open>time.Time\<close> is the number of nanoseconds since the Unix epoch and a
  \<^verbatim>\<open>time.Duration\<close> a number of nanoseconds, both as \<open>int\<close>; \<open>wrap64\<close> is written out
  where a 64-bit operation of the code can overflow.
\<close>

named_theorems go_string \<open>facts about the string functions\<close>
named_theorems invariants \<open>preservation lemmas of the components' invariants\<close>

section \<open>Machine integers and time\<close>

type_synonym time = int
type_synonym duration = int

definition wrap64 :: "int \<Rightarrow> int" where
  "wrap64 i = (i + 2 ^ 63) mod 2 ^ 64 - 2 ^ 63"

abbreviation max_int64 :: int where "max_int64 \<equiv> 2 ^ 63 - 1"
abbreviation min_int64 :: int where "min_int64 \<equiv> - (2 ^ 63)"

lemma wrap64_id [simp]: "min_int64 \<le> i \<Longrightarrow> i \<le> max_int64 \<Longrightarrow> wrap64 i = i"
  by (simp add: wrap64_def)

lemma wrap64_range: "min_int64 \<le> wrap64 i \<and> wrap64 i \<le> max_int64"
proof -
  have "0 \<le> (i + 2 ^ 63) mod 2 ^ 64" "(i + 2 ^ 63) mod 2 ^ 64 < 2 ^ 64"
    by simp_all
  then show ?thesis by (simp add: wrap64_def)
qed

abbreviation millisecond :: duration where "millisecond \<equiv> 1000000"
abbreviation second :: duration where "second \<equiv> 1000000000"
abbreviation minute :: duration where "minute \<equiv> 60000000000"
abbreviation hour :: duration where "hour \<equiv> 3600000000000"

text \<open>\<^verbatim>\<open>Time.Sub\<close>: the difference, saturated to the range of a \<^verbatim>\<open>Duration\<close>.\<close>

definition time_sub :: "time \<Rightarrow> time \<Rightarrow> duration" where
  "time_sub a b = max min_int64 (min max_int64 (a - b))"

text \<open>Go's zero \<^verbatim>\<open>time.Time\<close>: midnight of 1 January of the year 1, UTC.\<close>

definition zero_time :: time where
  "zero_time = -62135596800 * second"

section \<open>Strings\<close>

abbreviation has_prefix :: "string \<Rightarrow> string \<Rightarrow> bool" where
  "has_prefix s p \<equiv> prefix p s"

abbreviation has_suffix :: "string \<Rightarrow> string \<Rightarrow> bool" where
  "has_suffix s p \<equiv> suffix p s"

definition trim_prefix :: "string \<Rightarrow> string \<Rightarrow> string" where
  "trim_prefix s p = (if has_prefix s p then drop (length p) s else s)"

definition trim_suffix :: "string \<Rightarrow> string \<Rightarrow> string" where
  "trim_suffix s p = (if has_suffix s p then take (length s - length p) s else s)"

fun index_byte :: "string \<Rightarrow> char \<Rightarrow> nat option" where
  "index_byte [] c = None"
| "index_byte (x # xs) c = (if x = c then Some 0 else map_option Suc (index_byte xs c))"

fun index_str :: "string \<Rightarrow> string \<Rightarrow> nat option" where
  "index_str [] p = (if p = [] then Some 0 else None)"
| "index_str (x # xs) p =
     (if has_prefix (x # xs) p then Some 0 else map_option Suc (index_str xs p))"

fun last_index_str :: "string \<Rightarrow> string \<Rightarrow> nat option" where
  "last_index_str [] p = (if p = [] then Some 0 else None)"
| "last_index_str (x # xs) p =
     (case last_index_str xs p of
        Some i \<Rightarrow> Some (Suc i)
      | None \<Rightarrow> (if has_prefix (x # xs) p then Some 0 else None))"

definition contains_str :: "string \<Rightarrow> string \<Rightarrow> bool" where
  "contains_str s p \<longleftrightarrow> index_str s p \<noteq> None"

definition contains_any :: "string \<Rightarrow> string \<Rightarrow> bool" where
  "contains_any s cs \<longleftrightarrow> list_ex (\<lambda>c. c \<in> set cs) s"

text \<open>\<^verbatim>\<open>strings.Count\<close> for a non-empty needle (occurrences that do not overlap).\<close>

function count_str :: "string \<Rightarrow> string \<Rightarrow> nat" where
  "count_str [] p = 0"
| "count_str (x # xs) p =
     (if p \<noteq> [] \<and> has_prefix (x # xs) p then Suc (count_str (drop (length p) (x # xs)) p)
      else count_str xs p)"
  by pat_completeness auto
termination
  by (relation "measure (\<lambda>(s, p). length s)") auto

fun split_on :: "char \<Rightarrow> string \<Rightarrow> string list" where
  "split_on c [] = [[]]"
| "split_on c (x # xs) =
     (if x = c then [] # split_on c xs
      else (case split_on c xs of [] \<Rightarrow> [[x]] | w # ws \<Rightarrow> (x # w) # ws))"

fun join_with :: "string \<Rightarrow> string list \<Rightarrow> string" where
  "join_with sep [] = []"
| "join_with sep [w] = w"
| "join_with sep (w # v # ws) = w @ sep @ join_with sep (v # ws)"

text \<open>
  \<^verbatim>\<open>strings.SplitN(s, sep, n)\<close> for a one-byte separator: at most \<open>n\<close> pieces, the last
  one unsplit.
\<close>

fun split_n :: "nat \<Rightarrow> char \<Rightarrow> string \<Rightarrow> string list" where
  "split_n 0 c s = []"
| "split_n (Suc 0) c s = [s]"
| "split_n (Suc (Suc n)) c s =
     (case index_byte s c of
        None \<Rightarrow> [s]
      | Some i \<Rightarrow> take i s # split_n (Suc n) c (drop (Suc i) s))"

text \<open>\<^verbatim>\<open>strings.ReplaceAll\<close> of a text that is not empty.\<close>

function replace_str :: "string \<Rightarrow> string \<Rightarrow> string \<Rightarrow> string" where
  "replace_str old new s =
     (if old = [] \<or> s = [] then s
      else if prefix old s then new @ replace_str old new (drop (length old) s)
      else hd s # replace_str old new (tl s))"
  by pat_completeness auto
termination
  by (relation "measure (\<lambda>(old, new, s). length s)") (auto simp: less_Suc_eq_le)

declare replace_str.simps [simp del]

definition trim_left :: "string \<Rightarrow> string \<Rightarrow> string" where
  "trim_left s cs = dropWhile (\<lambda>c. c \<in> set cs) s"

definition trim_right :: "string \<Rightarrow> string \<Rightarrow> string" where
  "trim_right s cs = rev (dropWhile (\<lambda>c. c \<in> set cs) (rev s))"

definition trim_chars :: "string \<Rightarrow> string \<Rightarrow> string" where
  "trim_chars s cs = trim_right (trim_left s cs) cs"

subsection \<open>White space\<close>

definition bytes :: "nat list \<Rightarrow> string" where
  "bytes ns = map char_of ns"

text \<open>
  The UTF-8 encodings of the code points for which \<^verbatim>\<open>unicode.IsSpace\<close> holds. Their first
  byte never continues another rune, so scanning for them byte by byte finds exactly the
  runes Go's decoder finds.
\<close>

definition space_encodings :: "string list" where
  "space_encodings =
     map bytes ([[9], [10], [11], [12], [13], [32], [194, 133], [194, 160], [225, 154, 128],
       [226, 128, 168], [226, 128, 169], [226, 128, 175], [226, 129, 159], [227, 128, 128]]
       @ map (\<lambda>n. [226, 128, n]) [128..<139])"

definition space_at :: "string \<Rightarrow> nat option" where
  "space_at s = map_option length (List.find (\<lambda>e. has_prefix s e) space_encodings)"

definition space_before_end :: "string \<Rightarrow> nat option" where
  "space_before_end s = map_option length (List.find (\<lambda>e. has_suffix s e) space_encodings)"

text \<open>Every encoding is non-empty, which is why the trimming loops stop.\<close>

lemma space_encodings_ne: "[] \<notin> set space_encodings"
  by (auto simp: space_encodings_def bytes_def)

lemma find_SomeD: "List.find P xs = Some x \<Longrightarrow> x \<in> set xs \<and> P x"
  by (induction xs) (auto split: if_splits)

lemma space_at_pos: "space_at s = Some n \<Longrightarrow> 0 < n \<and> n \<le> length s"
  using space_encodings_ne by (auto simp: space_at_def dest!: find_SomeD prefix_length_le)

lemma space_before_end_pos: "space_before_end s = Some n \<Longrightarrow> 0 < n \<and> n \<le> length s"
  using space_encodings_ne by (auto simp: space_before_end_def dest!: find_SomeD suffix_length_le)

function trim_space_left :: "string \<Rightarrow> string" where
  "trim_space_left s =
     (case space_at s of None \<Rightarrow> s | Some n \<Rightarrow> trim_space_left (drop n s))"
  by pat_completeness auto
termination
  by (relation "measure length") (auto dest: space_at_pos)

function trim_space_right :: "string \<Rightarrow> string" where
  "trim_space_right s =
     (case space_before_end s of
        None \<Rightarrow> s | Some n \<Rightarrow> trim_space_right (take (length s - n) s))"
  by pat_completeness auto
termination
  by (relation "measure length") (force dest: space_before_end_pos)+

declare trim_space_left.simps [simp del] trim_space_right.simps [simp del]

definition trim_space :: "string \<Rightarrow> string" where
  "trim_space s = trim_space_right (trim_space_left s)"

text \<open>\<^verbatim>\<open>strings.Fields\<close>: the maximal pieces between runs of white space.\<close>

function fields_from :: "string \<Rightarrow> string \<Rightarrow> string list" where
  "fields_from cur s =
     (case space_at s of
        Some n \<Rightarrow> (if cur = [] then [] else [rev cur]) @ fields_from [] (drop n s)
      | None \<Rightarrow> (case s of
          [] \<Rightarrow> (if cur = [] then [] else [rev cur])
        | x # xs \<Rightarrow> fields_from (x # cur) xs))"
  by pat_completeness auto
termination
  by (relation "measure (\<lambda>(cur, s). length s)") (auto dest: space_at_pos)

declare fields_from.simps [simp del]

definition fields :: "string \<Rightarrow> string list" where
  "fields s = fields_from [] s"

subsection \<open>Case, numbers, runes\<close>

text \<open>
  \<^verbatim>\<open>strings.ToLower\<close> on ASCII letters; bytes of other runes stay as they are.
\<close>

definition lower_char :: "char \<Rightarrow> char" where
  "lower_char c = (if 65 \<le> (of_char c :: nat) \<and> (of_char c :: nat) \<le> 90
                   then char_of ((of_char c :: nat) + 32) else c)"

definition to_lower :: "string \<Rightarrow> string" where
  "to_lower s = map lower_char s"

definition is_digit :: "char \<Rightarrow> bool" where
  "is_digit c \<longleftrightarrow> 48 \<le> (of_char c :: nat) \<and> (of_char c :: nat) \<le> 57"

definition digit_val :: "char \<Rightarrow> int" where
  "digit_val c = int (of_char c) - 48"

definition digits_val :: "string \<Rightarrow> int" where
  "digits_val s = foldl (\<lambda>n c. 10 * n + digit_val c) 0 s"

text \<open>
  \<^verbatim>\<open>strconv.Atoi\<close> on a 64-bit platform: an optional sign, at least one digit, and a value
  that fits; \<open>None\<close> is the error.
\<close>

definition atoi :: "string \<Rightarrow> int option" where
  "atoi s =
     (let (neg, ds) = (case s of
             [] \<Rightarrow> (False, [])
           | c # cs \<Rightarrow> (if c = CHR ''-'' then (True, cs)
                        else if c = CHR ''+'' then (False, cs) else (False, s)))
      in if ds = [] \<or> \<not> list_all is_digit ds then None
         else let v = (if neg then - digits_val ds else digits_val ds)
              in if min_int64 \<le> v \<and> v \<le> max_int64 then Some v else None)"

fun itoa_nat :: "nat \<Rightarrow> string" where
  "itoa_nat n = (if n < 10 then [char_of (48 + n)] else itoa_nat (n div 10) @ [char_of (48 + n mod 10)])"

declare itoa_nat.simps [simp del]

definition itoa :: "int \<Rightarrow> string" where
  "itoa i = (if i < 0 then CHR ''-'' # itoa_nat (nat (- i)) else itoa_nat (nat i))"

definition rune_start :: "char \<Rightarrow> bool" where
  "rune_start c \<longleftrightarrow> \<not> (128 \<le> (of_char c :: nat) \<and> (of_char c :: nat) < 192)"

text \<open>The loop that steps a cut position back to the start of a rune.\<close>

fun back_to_rune :: "string \<Rightarrow> nat \<Rightarrow> nat" where
  "back_to_rune s 0 = 0"
| "back_to_rune s (Suc n) = (if rune_start (s ! Suc n) then Suc n else back_to_rune s n)"

definition ellipsis :: string where
  "ellipsis = bytes [226, 128, 166]"

section \<open>Lemmas the components share\<close>

lemma split_on_ne [simp, go_string]: "split_on c s \<noteq> []"
  by (induction s) (auto split: list.splits)

lemma join_with_Cons: "ws \<noteq> [] \<Longrightarrow> join_with sep (w # ws) = w @ sep @ join_with sep ws"
  by (cases ws) auto

lemma join_with_ConsC: "join_with sep ((x # w) # ws) = x # join_with sep (w # ws)"
  by (cases ws) auto

lemma join_split [simp, go_string]: "join_with [c] (split_on c s) = s"
proof (induction s)
  case (Cons x xs)
  then show ?case
    by (cases "split_on c xs") (auto simp: join_with_Cons join_with_ConsC)
qed simp

lemma split_on_no_sep: "w \<in> set (split_on c s) \<Longrightarrow> c \<notin> set w"
  by (induction s arbitrary: w) (auto split: list.splits if_splits)

lemma split_on_subset: "w \<in> set (split_on c s) \<Longrightarrow> set w \<subseteq> set s"
proof (induction s arbitrary: w)
  case (Cons x xs)
  then show ?case
    by (cases "split_on c xs") (fastforce split: if_splits)+
qed simp

lemma split_on_id: "c \<notin> set s \<Longrightarrow> split_on c s = [s]"
  by (induction s) auto

lemma split_on_append:
  "c \<notin> set u \<Longrightarrow> split_on c (u @ c # v) = u # split_on c v"
  by (induction u) auto

lemma split_join:
  "ws \<noteq> [] \<Longrightarrow> \<forall>w \<in> set ws. c \<notin> set w \<Longrightarrow> split_on c (join_with [c] ws) = ws"
  by (induction "[c]" ws rule: join_with.induct) (auto simp: split_on_id split_on_append)

lemma back_to_rune_le [simp, go_string]: "back_to_rune s n \<le> n"
  by (induction n) auto

lemma back_to_rune_start: "0 < back_to_rune s n \<Longrightarrow> rune_start (s ! back_to_rune s n)"
  by (induction n) auto

lemma index_byte_SomeD:
  "index_byte s c = Some i \<Longrightarrow> i < length s \<and> s ! i = c \<and> c \<notin> set (take i s)"
  by (induction s arbitrary: i) (auto split: if_splits)

lemma index_byte_None: "index_byte s c = None \<longleftrightarrow> c \<notin> set s"
  by (induction s) auto

lemma index_byte_append: "c \<notin> set u \<Longrightarrow> index_byte (u @ c # v) c = Some (length u)"
  by (induction u) auto

lemma index_byte_absent [simp]: "c \<notin> set s \<Longrightarrow> index_byte s c = None"
  by (simp add: index_byte_None)

lemma index_str_SomeD: "index_str s p = Some i \<Longrightarrow> i \<le> length s \<and> prefix p (drop i s)"
  by (induction s arbitrary: i) (auto split: if_splits)

lemma contains_str_subset:
  assumes "contains_str s p"
  shows "set p \<subseteq> set s"
proof -
  obtain i where "index_str s p = Some i" using assms by (auto simp: contains_str_def)
  then have "prefix p (drop i s)" using index_str_SomeD by blast
  then show ?thesis by (meson set_mono_prefix set_drop_subset subset_trans)
qed

lemma last_index_str_SomeD: "last_index_str s p = Some i \<Longrightarrow> i \<le> length s \<and> prefix p (drop i s)"
  by (induction s arbitrary: i) (auto split: if_splits option.splits)

lemma last_index_str_lt: "last_index_str s p = Some i \<Longrightarrow> p \<noteq> [] \<Longrightarrow> i < length s"
  by (induction s arbitrary: i) (auto split: if_splits option.splits)

lemma trim_prefix_append [simp, go_string]: "trim_prefix (p @ s) p = s"
  by (simp add: trim_prefix_def)

lemma trim_prefix_Cons:
  "trim_prefix (x # xs) (y # ys) =
     (if x = y \<and> has_prefix xs ys then drop (length ys) xs else x # xs)"
  by (simp add: trim_prefix_def)

lemma trim_prefix_self [simp, go_string]: "\<not> prefix p s \<Longrightarrow> trim_prefix s p = s"
  by (simp add: trim_prefix_def)

lemma length_trim_prefix: "length (trim_prefix s p) \<le> length s"
  by (simp add: trim_prefix_def)

lemma length_trim_space_left: "length (trim_space_left s) \<le> length s"
proof (induction s rule: trim_space_left.induct)
  case (1 s)
  then show ?case
    by (subst trim_space_left.simps) (auto split: option.splits)
qed

lemma length_trim_space_right: "length (trim_space_right s) \<le> length s"
proof (induction s rule: trim_space_right.induct)
  case (1 s)
  then show ?case
    by (subst trim_space_right.simps) (auto split: option.splits)
qed

lemma length_trim_space: "length (trim_space s) \<le> length s"
  using length_trim_space_left length_trim_space_right le_trans
  unfolding trim_space_def by blast

lemma trim_prefix_same_length: "length (trim_prefix s p) = length s \<Longrightarrow> trim_prefix s p = s"
  by (cases p) (auto simp: trim_prefix_def dest: prefix_length_le split: if_splits)

lemma trim_space_left_same_length:
  "length (trim_space_left s) = length s \<Longrightarrow> trim_space_left s = s"
proof (cases "space_at s")
  case (Some n)
  then have "trim_space_left s = trim_space_left (drop n s)"
    by (subst trim_space_left.simps) simp
  then have "length (trim_space_left s) < length s"
    using length_trim_space_left [of "drop n s"] space_at_pos [OF Some] by auto
  then show "length (trim_space_left s) = length s \<Longrightarrow> trim_space_left s = s" by simp
qed (simp add: trim_space_left.simps)

lemma trim_space_right_same_length:
  "length (trim_space_right s) = length s \<Longrightarrow> trim_space_right s = s"
proof (cases "space_before_end s")
  case (Some n)
  then have "trim_space_right s = trim_space_right (take (length s - n) s)"
    by (subst trim_space_right.simps) simp
  then have "length (trim_space_right s) < length s"
    using length_trim_space_right [of "take (length s - n) s"] space_before_end_pos [OF Some] by auto
  then show "length (trim_space_right s) = length s \<Longrightarrow> trim_space_right s = s" by simp
qed (simp add: trim_space_right.simps)

lemma trim_space_same_length: "length (trim_space s) = length s \<Longrightarrow> trim_space s = s"
  unfolding trim_space_def
  by (metis length_trim_space_left length_trim_space_right order_antisym
      trim_space_left_same_length trim_space_right_same_length)

text \<open>A string that begins and ends with a visible ASCII character is left alone.\<close>

definition visible :: "char \<Rightarrow> bool" where
  "visible c \<longleftrightarrow> 32 < (of_char c :: nat) \<and> (of_char c :: nat) < 128"

lemma space_encodings_visible:
  "e \<in> set space_encodings \<Longrightarrow> \<not> visible (hd e) \<and> \<not> visible (last e)"
  by (auto simp: space_encodings_def bytes_def visible_def)

lemma find_None_iff_all: "List.find P xs = None \<longleftrightarrow> (\<forall>x \<in> set xs. \<not> P x)"
  by (induction xs) auto

lemma space_at_visible: "s \<noteq> [] \<Longrightarrow> visible (hd s) \<Longrightarrow> space_at s = None"
  using space_encodings_visible space_encodings_ne
  by (cases s) (force simp: space_at_def find_None_iff_all prefix_Cons)+

lemma space_before_end_visible:
  assumes "s \<noteq> []" "visible (last s)"
  shows "space_before_end s = None"
proof -
  have "\<not> suffix e s" if "e \<in> set space_encodings" for e
  proof
    assume "suffix e s"
    then obtain zs where "s = zs @ e" by (auto simp: suffix_def)
    moreover have "e \<noteq> []" using that space_encodings_ne by auto
    ultimately have "last s = last e" by simp
    with that assms space_encodings_visible show False by simp
  qed
  then show ?thesis by (simp add: space_before_end_def find_None_iff_all)
qed

lemma trim_space_visible:
  "s \<noteq> [] \<Longrightarrow> visible (hd s) \<Longrightarrow> visible (last s) \<Longrightarrow> trim_space s = s"
  by (simp add: trim_space_def trim_space_left.simps [of s] trim_space_right.simps [of s]
      space_at_visible space_before_end_visible)

text \<open>Trimming never takes a visible character away.\<close>

lemma space_encodings_invisible: "e \<in> set space_encodings \<Longrightarrow> visible c \<Longrightarrow> c \<notin> set e"
  by (auto simp: space_encodings_def bytes_def visible_def)

lemma trim_space_left_keeps: "visible c \<Longrightarrow> c \<in> set s \<Longrightarrow> c \<in> set (trim_space_left s)"
proof (induction s rule: trim_space_left.induct)
  case (1 s)
  show ?case
  proof (cases "space_at s")
    case (Some n)
    then obtain e where e: "e \<in> set space_encodings" "prefix e s" "n = length e"
      by (auto simp: space_at_def dest!: find_SomeD)
    then have "c \<in> set (drop n s)" using 1(2,3) space_encodings_invisible [OF e(1) 1(2)] by (auto simp: prefix_def)
    then show ?thesis using 1(1) [OF Some 1(2)] Some by (subst trim_space_left.simps) simp
  qed (use 1 in \<open>simp add: trim_space_left.simps [of s]\<close>)
qed

lemma trim_space_right_keeps: "visible c \<Longrightarrow> c \<in> set s \<Longrightarrow> c \<in> set (trim_space_right s)"
proof (induction s rule: trim_space_right.induct)
  case (1 s)
  show ?case
  proof (cases "space_before_end s")
    case (Some n)
    then obtain e where e: "e \<in> set space_encodings" "suffix e s" "n = length e"
      by (auto simp: space_before_end_def dest!: find_SomeD)
    then have "c \<in> set (take (length s - n) s)" using 1(2,3) space_encodings_invisible [OF e(1) 1(2)] by (auto simp: suffix_def)
    then show ?thesis using 1(1) [OF Some 1(2)] Some by (subst trim_space_right.simps) simp
  qed (use 1 in \<open>simp add: trim_space_right.simps [of s]\<close>)
qed

lemma trim_space_keeps: "visible c \<Longrightarrow> c \<in> set s \<Longrightarrow> c \<in> set (trim_space s)"
  by (simp add: trim_space_def trim_space_left_keeps trim_space_right_keeps)

lemma trim_space_Nil [simp]: "trim_space [] = []"
  using length_trim_space [of "[]"] by simp

lemma is_digit_visible: "is_digit c \<Longrightarrow> visible c"
  by (simp add: is_digit_def visible_def)

subsection \<open>Decimal numbers read back\<close>

lemma of_char_digit: "n < 10 \<Longrightarrow> (of_char (char_of (48 + n) :: char) :: nat) = 48 + n"
  by simp

lemma digits_val_snoc [simp]: "digits_val (s @ [c]) = 10 * digits_val s + digit_val c"
  by (simp add: digits_val_def)

lemma digits_val_itoa_nat: "digits_val (itoa_nat n) = int n"
proof (induction n rule: itoa_nat.induct)
  case (1 n)
  show ?case
  proof (cases "n < 10")
    case True
    then show ?thesis
      by (simp add: itoa_nat.simps [of n] digits_val_def digit_val_def)
  next
    case False
    then have IH: "digits_val (itoa_nat (n div 10)) = int (n div 10)"
      using "1.IH" by simp
    have "n mod 10 < 10" by simp
    then have "digit_val (char_of (48 + n mod 10)) = int (n mod 10)"
      unfolding digit_val_def by simp
    with False IH show ?thesis
      by (simp add: itoa_nat.simps [of n] zdiv_int zmod_int)
  qed
qed

lemma itoa_nat_inj: "itoa_nat n = itoa_nat m \<longleftrightarrow> n = m"
  using digits_val_itoa_nat of_nat_eq_iff by metis

lemma itoa_nat_digits: "list_all is_digit (itoa_nat n)"
proof (induction n rule: itoa_nat.induct)
  case (1 n)
  have "is_digit (char_of (48 + k))" if "k < 10" for k :: nat
    using that by (simp add: is_digit_def)
  moreover have "n mod 10 < 10" by simp
  ultimately show ?case
    using "1.IH" by (subst itoa_nat.simps) auto
qed

lemma itoa_nat_ne [simp]: "itoa_nat n \<noteq> []"
  by (subst itoa_nat.simps) simp

lemma is_digit_sign [simp]: "\<not> is_digit CHR ''-''" "\<not> is_digit CHR ''+''" "\<not> is_digit CHR ''.''"
  by (simp_all add: is_digit_def)

lemma atoi_itoa:
  assumes "min_int64 \<le> i" "i \<le> max_int64"
  shows "atoi (itoa i) = Some i"
proof (cases "i < 0")
  case True
  then show ?thesis
    using assms by (simp add: atoi_def itoa_def digits_val_itoa_nat itoa_nat_digits)
next
  case False
  obtain c cs where cs: "itoa_nat (nat i) = c # cs"
    by (cases "itoa_nat (nat i)") simp_all
  have "is_digit c" using itoa_nat_digits [of "nat i"] cs by simp
  then have "c \<noteq> CHR ''-''" "c \<noteq> CHR ''+''" by auto
  then show ?thesis
    using False assms cs itoa_nat_digits [of "nat i"] digits_val_itoa_nat [of "nat i"]
    by (simp add: atoi_def itoa_def)
qed

lemma digits_val_nonneg: "list_all is_digit s \<Longrightarrow> 0 \<le> digits_val s"
  by (induction s rule: rev_induct) (auto simp: digits_val_def is_digit_def digit_val_def)

lemma char_digits [simp]:
  "char_of (48::nat) = CHR ''0''" "char_of (49::nat) = CHR ''1''" "char_of (50::nat) = CHR ''2''"
  "char_of (51::nat) = CHR ''3''" "char_of (52::nat) = CHR ''4''" "char_of (53::nat) = CHR ''5''"
  "char_of (54::nat) = CHR ''6''" "char_of (55::nat) = CHR ''7''" "char_of (56::nat) = CHR ''8''"
  "char_of (57::nat) = CHR ''9''"
  by (simp_all add: char_of_def bit_iff_odd)

end
