(* ===== verification/Versions.thy ===== *)
theory Versions
  imports Prelude "HOL-Library.More_List"
begin

text \<open>
  Comparison of declared dependency versions: \<^verbatim>\<open>internal/manifest/version.go\<close>.

  A declaration such as \<^verbatim>\<open>^1.2.3\<close> is read as a \<open>bound\<close> (\<open>parseDeclared\<close>), versions are
  ordered by \<open>version_compare\<close>, and \<open>below\<close> answers an advisory ("fixed in 2.17.1"), where
  \<open>None\<close> stands for the second Go result being false (undecided). The locale \<open>three_way\<close>
  is the contract of a three-way comparison; the numeric, identifier and version
  comparisons of the code are its interpretations, and the soundness of \<open>below\<close> rests on it.
\<close>

section \<open>Data\<close>

datatype boundKind = BoundExact | BoundFloor | BoundBelow | BoundAtMost

datatype ceilingRule = CeilingNone | CeilingCaret | CeilingTilde

datatype version = Version (numbers: "int list") (prerelease: string)

record bound =
  bound_version :: version
  bound_kind :: boundKind
  bound_ceiling :: version
  bound_bounded :: bool

section \<open>Comparison\<close>

definition three_way_int :: "int \<Rightarrow> int \<Rightarrow> int" where
  "three_way_int a b = (if a < b then -1 else if b < a then 1 else 0)"

function compare_numbers :: "int list \<Rightarrow> int list \<Rightarrow> int" where
  "compare_numbers ls rs =
     (if ls = [] \<and> rs = [] then 0
      else let left = (case ls of [] \<Rightarrow> 0 | l # _ \<Rightarrow> l);
               right = (case rs of [] \<Rightarrow> 0 | r # _ \<Rightarrow> r)
           in if left \<noteq> right then (if left < right then -1 else 1)
              else compare_numbers (tl ls) (tl rs))"
  by pat_completeness auto
termination
  by (relation "measure (\<lambda>(ls, rs). length ls + length rs)") (auto simp: neq_Nil_conv)

declare compare_numbers.simps [simp del]

definition numericIdentifier :: "string \<Rightarrow> int option" where
  "numericIdentifier value =
     (if value = [] then None
      else if \<not> list_all is_digit value then None
      else atoi value)"

definition compareIdentifier :: "string \<Rightarrow> string \<Rightarrow> int" where
  "compareIdentifier left right =
     (case (numericIdentifier left, numericIdentifier right) of
        (Some l, Some r) \<Rightarrow> (if l < r then -1 else if l > r then 1 else 0)
      | (Some l, None) \<Rightarrow> -1
      | (None, Some r) \<Rightarrow> 1
      | (None, None) \<Rightarrow> (if left < right then -1 else if left > right then 1 else 0))"

text \<open>
  The loop over two lists of fields: the first field that differs decides, and when one
  list runs out the longer one wins.
\<close>

fun lex_compare :: "('a \<Rightarrow> 'a \<Rightarrow> int) \<Rightarrow> 'a list \<Rightarrow> 'a list \<Rightarrow> int" where
  "lex_compare cmp [] [] = 0"
| "lex_compare cmp [] (y # ys) = -1"
| "lex_compare cmp (x # xs) [] = 1"
| "lex_compare cmp (x # xs) (y # ys) =
     (let order = cmp x y in if order \<noteq> 0 then order else lex_compare cmp xs ys)"

definition comparePrerelease :: "string \<Rightarrow> string \<Rightarrow> int" where
  "comparePrerelease left right =
     lex_compare compareIdentifier (split_on CHR ''.'' left) (split_on CHR ''.'' right)"

definition compare_tails :: "string \<Rightarrow> string \<Rightarrow> int" where
  "compare_tails left right =
     (if left = [] \<and> right = [] then 0
      else if left = [] then 1
      else if right = [] then -1
      else comparePrerelease left right)"

definition version_compare :: "version \<Rightarrow> version \<Rightarrow> int" where
  "version_compare v other =
     (let order = compare_numbers (numbers v) (numbers other)
      in if order \<noteq> 0 then order else compare_tails (prerelease v) (prerelease other))"

section \<open>Reading a declaration\<close>

text \<open>
  \<^verbatim>\<open>numbers[:index+1]\<close> with its last entry raised by one; the increment is a 64-bit one.
\<close>

definition first_nonzero :: "int list \<Rightarrow> nat" where
  "first_nonzero ns =
     (case List.find (\<lambda>i. ns ! i \<noteq> 0) [0..<length ns] of
        Some i \<Rightarrow> i | None \<Rightarrow> length ns - 1)"

definition ceiling_index :: "ceilingRule \<Rightarrow> int list \<Rightarrow> nat" where
  "ceiling_index rule ns =
     (if 3 \<le> length ns
      then (case rule of CeilingCaret \<Rightarrow> first_nonzero ns | CeilingTilde \<Rightarrow> 1 | CeilingNone \<Rightarrow> 0)
      else 0)"

definition raise_last :: "int list \<Rightarrow> int list" where
  "raise_last ns = butlast ns @ [wrap64 (last ns + 1)]"

definition rangeCeiling :: "ceilingRule \<Rightarrow> int list \<Rightarrow> version option" where
  "rangeCeiling rule ns =
     (if rule = CeilingNone \<or> ns = [] then None
      else Some (Version (raise_last (take (Suc (ceiling_index rule ns)) ns)) []))"

definition undecidable_words :: "string list" where
  "undecidable_words = [''latest'', ''*'', ''x'', ''main'', ''master'', ''file:'', ''git+'',
     ''http'', ''workspace:'', ''link:'']"

definition rangeOperators :: "string list" where
  "rangeOperators = [''>='', ''<='', ''=='', ''~='', ''^'', ''~'', ''>'', ''<'', ''='', ''v'']"

definition operator_rules :: "(string \<times> boundKind \<times> ceilingRule) list" where
  "operator_rules =
     [(''^'', BoundFloor, CeilingCaret), (''~='', BoundFloor, CeilingTilde),
      (''~'', BoundFloor, CeilingTilde), (''>='', BoundFloor, CeilingNone),
      (''>'', BoundFloor, CeilingNone), (''<='', BoundAtMost, CeilingNone),
      (''<'', BoundBelow, CeilingNone)]"

definition operator_of :: "string \<Rightarrow> boundKind \<times> ceilingRule" where
  "operator_of value =
     (case List.find (\<lambda>(p, _). has_prefix value p) operator_rules of
        Some (_, k, c) \<Rightarrow> (k, c) | None \<Rightarrow> (BoundExact, CeilingNone))"

text \<open>One round of the loop that strips operators, and the loop.\<close>

definition strip_round :: "string \<Rightarrow> string" where
  "strip_round value = trim_space (foldl trim_prefix value rangeOperators)"

lemma length_foldl_trim: "length (foldl trim_prefix s ps) \<le> length s"
  by (induction ps arbitrary: s) (auto intro: order_trans length_trim_prefix)

lemma foldl_trim_same_length:
  "length (foldl trim_prefix s ps) = length s \<Longrightarrow> foldl trim_prefix s ps = s"
proof (induction ps arbitrary: s)
  case (Cons p ps)
  have "length (foldl trim_prefix (trim_prefix s p) ps) \<le> length (trim_prefix s p)"
    by (rule length_foldl_trim)
  with Cons.prems length_trim_prefix [of s p]
  have "length (trim_prefix s p) = length s" by simp
  then have "trim_prefix s p = s" by (rule trim_prefix_same_length)
  with Cons show ?case by simp
qed simp

lemma strip_round_shrinks: "strip_round s \<noteq> s \<Longrightarrow> length (strip_round s) < length s"
  unfolding strip_round_def
  using length_trim_space [of "foldl trim_prefix s rangeOperators"]
    length_foldl_trim [of s rangeOperators]
    trim_space_same_length [of "foldl trim_prefix s rangeOperators"]
    foldl_trim_same_length [of s rangeOperators]
  by (metis le_neq_implies_less le_trans order_antisym)

function strip_operators :: "string \<Rightarrow> string" where
  "strip_operators value =
     (let trimmed = strip_round value
      in if trimmed = value then value else strip_operators trimmed)"
  by pat_completeness auto
termination
  by (relation "measure length") (auto intro: strip_round_shrinks)

declare strip_operators.simps [simp del]

fun parse_numbers :: "string list \<Rightarrow> int list option" where
  "parse_numbers [] = Some []"
| "parse_numbers (part # parts) =
     (if part = [] then None
      else case atoi part of
             None \<Rightarrow> None
           | Some n \<Rightarrow> map_option ((#) n) (parse_numbers parts))"

text \<open>Build metadata is dropped first, then the tail after the first hyphen split off.\<close>

definition cut_build :: "string \<Rightarrow> string" where
  "cut_build core = (case index_byte core CHR ''+'' of None \<Rightarrow> core | Some at \<Rightarrow> take at core)"

definition cut_prerelease :: "string \<Rightarrow> string \<times> string" where
  "cut_prerelease core =
     (case index_byte core CHR ''-'' of
        None \<Rightarrow> (core, []) | Some at \<Rightarrow> (take at core, drop (Suc at) core))"

definition parseDeclared :: "string \<Rightarrow> bound option" where
  "parseDeclared declared =
     (let value = trim_space declared in
      if value = [] then None
      else if contains_any value '',|'' \<or> contains_str value '' - '' then None
      else if list_ex (\<lambda>w. has_prefix (to_lower value) w) undecidable_words then None
      else let (k, rule) = operator_of value; rest = strip_operators value in
      if rest = [] then None
      else let (core, tail) = cut_prerelease (cut_build rest) in
      (case parse_numbers (split_on CHR ''.'' core) of
         None \<Rightarrow> None
       | Some ns \<Rightarrow>
           if ns = [] then None
           else Some \<lparr>bound_version = Version ns tail, bound_kind = k,
                  bound_ceiling = (case rangeCeiling rule ns of Some c \<Rightarrow> c | None \<Rightarrow> Version [] []),
                  bound_bounded = (rangeCeiling rule ns \<noteq> None)\<rparr>))"

definition parseVersion :: "string \<Rightarrow> version option" where
  "parseVersion declared = map_option bound_version (parseDeclared declared)"

definition comparable :: "string \<Rightarrow> bool" where
  "comparable declared \<longleftrightarrow> parseVersion declared \<noteq> None"

definition compare_declared :: "string \<Rightarrow> string \<Rightarrow> int option" where
  "compare_declared left right =
     (case parseVersion left of
        None \<Rightarrow> None
      | Some first \<Rightarrow> (case parseVersion right of
          None \<Rightarrow> None
        | Some second' \<Rightarrow> Some (version_compare first second')))"

definition below_bound :: "bound \<Rightarrow> version \<Rightarrow> bool option" where
  "below_bound left right =
     (let order = version_compare (bound_version left) right in
      case bound_kind left of
        BoundExact \<Rightarrow> Some (order < 0)
      | BoundFloor \<Rightarrow>
          (if 0 \<le> order then Some False
           else if bound_bounded left \<and> version_compare (bound_ceiling left) right \<le> 0 then Some True
           else None)
      | _ \<Rightarrow>
          (if order < 0 \<or> (bound_kind left = BoundBelow \<and> order = 0) then Some True
           else None))"

definition below :: "string \<Rightarrow> string \<Rightarrow> bool option" where
  "below declared fixed =
     (case parseDeclared declared of
        None \<Rightarrow> None
      | Some left \<Rightarrow> (case parseDeclared fixed of
          None \<Rightarrow> None
        | Some right \<Rightarrow> below_bound left (bound_version right)))"

section \<open>The contract of a three-way comparison\<close>

text \<open>
  The sign of the result orders the two arguments: a total preorder, stated on the integer
  the Go comparisons return.
\<close>

locale three_way =
  fixes cmp :: "'a \<Rightarrow> 'a \<Rightarrow> int"
  assumes cmp_refl: "cmp x x = 0"
    and cmp_antisym: "cmp y x = - cmp x y"
    and cmp_trans: "cmp x y \<le> 0 \<Longrightarrow> cmp y z \<le> 0 \<Longrightarrow> cmp x z \<le> 0"
begin

lemma cmp_ge_iff: "0 \<le> cmp x y \<longleftrightarrow> cmp y x \<le> 0"
  using cmp_antisym [of x y] by simp

lemma cmp_gt_iff: "0 < cmp x y \<longleftrightarrow> cmp y x < 0"
  using cmp_antisym [of x y] by simp

lemma cmp_eq_sym: "cmp x y = 0 \<Longrightarrow> cmp y x = 0"
  using cmp_antisym [of x y] by simp

lemma cmp_less_le_trans:
  assumes "cmp x y < 0" "cmp y z \<le> 0"
  shows "cmp x z < 0"
proof (rule ccontr)
  assume "\<not> cmp x z < 0"
  then have "cmp z x \<le> 0" using cmp_ge_iff [of x z] by simp
  with assms(2) have "cmp y x \<le> 0" by (rule cmp_trans)
  then show False using assms(1) cmp_ge_iff [of x y] by simp
qed

lemma cmp_le_less_trans:
  assumes "cmp x y \<le> 0" "cmp y z < 0"
  shows "cmp x z < 0"
proof (rule ccontr)
  assume "\<not> cmp x z < 0"
  then have "cmp z x \<le> 0" using cmp_ge_iff [of x z] by simp
  then have "cmp z y \<le> 0" using assms(1) by (rule cmp_trans)
  then show False using assms(2) cmp_ge_iff [of y z] by simp
qed

lemma cmp_less_trans: "cmp x y < 0 \<Longrightarrow> cmp y z < 0 \<Longrightarrow> cmp x z < 0"
  using cmp_less_le_trans [of x y z] by simp

lemma cmp_eq_less: "cmp x y = 0 \<Longrightarrow> cmp y z < 0 \<Longrightarrow> cmp x z < 0"
  using cmp_le_less_trans [of x y z] by simp

lemma cmp_less_eq: "cmp x y < 0 \<Longrightarrow> cmp y z = 0 \<Longrightarrow> cmp x z < 0"
  using cmp_less_le_trans [of x y z] by simp

lemma cmp_eq_trans: "cmp x y = 0 \<Longrightarrow> cmp y z = 0 \<Longrightarrow> cmp x z = 0"
  using cmp_trans [of x y z] cmp_trans [of z y x] cmp_eq_sym [of x y] cmp_eq_sym [of y z]
    cmp_ge_iff [of x z] by simp

end

text \<open>Ways to build one comparison from others: by a key, one after the other, on lists.\<close>

lemma three_way_key: "three_way cmp \<Longrightarrow> three_way (\<lambda>x y. cmp (f x) (f y))"
  unfolding three_way_def by blast

lemma three_way_then:
  assumes "three_way c" "three_way d"
  shows "three_way (\<lambda>x y. if c x y \<noteq> 0 then c x y else d x y)"
proof (unfold_locales, goal_cases)
  case (1 x)
  then show ?case using assms by (simp add: three_way.cmp_refl)
next
  case (2 y x)
  then show ?case
    using three_way.cmp_antisym [OF assms(1), of y x] three_way.cmp_antisym [OF assms(2), of y x]
    by simp
next
  case (3 x y z)
  then consider "c x y < 0" "c y z \<le> 0" | "c x y = 0" "c y z < 0"
    | "c x y = 0" "c y z = 0" "d x y \<le> 0" "d y z \<le> 0"
    by (force split: if_splits)
  then show ?case
  proof cases
    case 1
    then have "c x z < 0" by (rule three_way.cmp_less_le_trans [OF assms(1)])
    then show ?thesis by simp
  next
    case 2
    then have "c x z < 0" by (rule three_way.cmp_eq_less [OF assms(1)])
    then show ?thesis by simp
  next
    case 3
    then have "c x z = 0" "d x z \<le> 0"
      using three_way.cmp_eq_trans [OF assms(1)] three_way.cmp_trans [OF assms(2)] by blast+
    then show ?thesis by simp
  qed
qed

lemma lex_compare_refl: "three_way cmp \<Longrightarrow> lex_compare cmp xs xs = 0"
  by (induction xs) (simp_all add: three_way.cmp_refl)

lemma lex_compare_antisym:
  "three_way cmp \<Longrightarrow> lex_compare cmp ys xs = - lex_compare cmp xs ys"
proof (induction xs arbitrary: ys)
  case Nil
  then show ?case by (cases ys) simp_all
next
  case (Cons x xs)
  show ?case
  proof (cases ys)
    case (Cons y zs)
    then show ?thesis
      using Cons.IH [OF Cons.prems, of zs] three_way.cmp_antisym [OF Cons.prems, of y x]
      by (simp add: Let_def)
  qed simp
qed

lemma lex_compare_trans:
  assumes "three_way cmp"
  shows "lex_compare cmp xs ys \<le> 0 \<Longrightarrow> lex_compare cmp ys zs \<le> 0 \<Longrightarrow> lex_compare cmp xs zs \<le> 0"
proof (induction xs arbitrary: ys zs)
  case Nil
  then show ?case by (cases zs) simp_all
next
  case (Cons x xs)
  from Cons.prems obtain y ys' where ys: "ys = y # ys'" by (cases ys) auto
  with Cons.prems obtain z zs' where zs: "zs = z # zs'" by (cases zs) auto
  consider "cmp x y < 0" "cmp y z \<le> 0" | "cmp x y = 0" "cmp y z < 0"
    | "cmp x y = 0" "cmp y z = 0" "lex_compare cmp xs ys' \<le> 0" "lex_compare cmp ys' zs' \<le> 0"
    using Cons.prems ys zs by (force simp: Let_def split: if_splits)
  then show ?case
  proof cases
    case 1
    then have "cmp x z < 0" by (rule three_way.cmp_less_le_trans [OF assms])
    then show ?thesis by (simp add: zs)
  next
    case 2
    then have "cmp x z < 0" by (rule three_way.cmp_eq_less [OF assms])
    then show ?thesis by (simp add: zs)
  next
    case 3
    then show ?thesis
      using Cons.IH [of ys' zs'] three_way.cmp_eq_trans [OF assms, of x y z] by (simp add: zs)
  qed
qed

text \<open>A comparison of single fields gives one of dotted lists of fields.\<close>

locale field_order = three_way

sublocale field_order \<subseteq> field_list: three_way "lex_compare cmp"
  by unfold_locales
    (auto intro: lex_compare_refl lex_compare_antisym lex_compare_trans three_way_axioms)

lemma three_way_linorder:
  "three_way (\<lambda>x y::'a::linorder. if x < y then -1 else if y < x then 1 else (0::int))"
  by unfold_locales (auto split: if_splits)

section \<open>The code's comparisons meet it\<close>

text \<open>
  A field is ordered by a key: numbers before text, numbers by value, text byte-wise.
\<close>

definition identifier_key :: "string \<Rightarrow> nat \<times> int \<times> string" where
  "identifier_key s = (case numericIdentifier s of Some n \<Rightarrow> (0, n, []) | None \<Rightarrow> (1, 0, s))"

lemma compareIdentifier_key:
  "compareIdentifier l r =
     (if identifier_key l < identifier_key r then -1
      else if identifier_key r < identifier_key l then 1 else 0)"
  by (auto simp: compareIdentifier_def identifier_key_def less_prod_def split: option.splits)

interpretation ident: field_order compareIdentifier
  unfolding field_order_def
  using three_way_key [OF three_way_linorder, of identifier_key]
  by (simp add: compareIdentifier_key [abs_def])

lemma compare_numbers_Nil [simp]: "compare_numbers [] [] = 0"
  by (simp add: compare_numbers.simps)

text \<open>One step of the comparison, reading a missing component as 0.\<close>

definition head0 :: "int list \<Rightarrow> int" where
  "head0 ns = (case ns of [] \<Rightarrow> 0 | n # _ \<Rightarrow> n)"

lemma head0_simps [simp]: "head0 [] = 0" "head0 (n # ns) = n"
  by (simp_all add: head0_def)

lemma compare_numbers_step:
  "ls \<noteq> [] \<or> rs \<noteq> [] \<Longrightarrow> compare_numbers ls rs =
     (if head0 ls < head0 rs then -1 else if head0 rs < head0 ls then 1
      else compare_numbers (tl ls) (tl rs))"
  by (subst compare_numbers.simps) (auto simp: head0_def Let_def)

lemma compare_numbers_refl: "compare_numbers ns ns = 0"
  by (induction ns) (auto simp: compare_numbers_step)

lemma compare_numbers_antisym: "compare_numbers rs ls = - compare_numbers ls rs"
proof (induction ls rs rule: compare_numbers.induct)
  case (1 ls rs)
  show ?case
  proof (cases "ls = [] \<and> rs = []")
    case False
    then show ?thesis
      using "1.IH" [OF False refl refl]
      by (auto simp: compare_numbers_step [of ls rs] compare_numbers_step [of rs ls] head0_def)
  qed simp
qed

lemma compare_numbers_trans:
  "compare_numbers xs ys \<le> 0 \<Longrightarrow> compare_numbers ys zs \<le> 0 \<Longrightarrow> compare_numbers xs zs \<le> 0"
proof (induction "length xs + length ys + length zs" arbitrary: xs ys zs rule: less_induct)
  case less
  show ?case
  proof (cases "xs = [] \<and> ys = [] \<and> zs = []")
    case False
    have x: "head0 xs \<le> head0 ys" "head0 xs = head0 ys \<Longrightarrow> compare_numbers (tl xs) (tl ys) \<le> 0"
      using less.prems(1) compare_numbers_step [of xs ys]
      by (cases "xs = [] \<and> ys = []"; force split: if_splits)+
    have y: "head0 ys \<le> head0 zs" "head0 ys = head0 zs \<Longrightarrow> compare_numbers (tl ys) (tl zs) \<le> 0"
      using less.prems(2) compare_numbers_step [of ys zs]
      by (cases "ys = [] \<and> zs = []"; force split: if_splits)+
    have "length (tl xs) + length (tl ys) + length (tl zs) < length xs + length ys + length zs"
      using False by (cases xs; cases ys; cases zs) auto
    then have "head0 xs = head0 ys \<Longrightarrow> head0 ys = head0 zs \<Longrightarrow> compare_numbers (tl xs) (tl zs) \<le> 0"
      using less.hyps x(2) y(2) by blast
    with x(1) y(1) show ?thesis
      using compare_numbers_step [of xs zs] by (cases "xs = [] \<and> zs = []") auto
  qed simp
qed

interpretation nums: three_way compare_numbers
  by unfold_locales
    (auto intro: compare_numbers_refl compare_numbers_antisym compare_numbers_trans)

interpretation tails: three_way compare_tails
proof
  fix x y z
  show "compare_tails x x = 0"
    by (simp add: compare_tails_def comparePrerelease_def ident.field_list.cmp_refl)
  show "compare_tails y x = - compare_tails x y"
    using ident.field_list.cmp_antisym [of "split_on CHR ''.'' y" "split_on CHR ''.'' x"]
    by (simp add: compare_tails_def comparePrerelease_def)
  show "compare_tails x y \<le> 0 \<Longrightarrow> compare_tails y z \<le> 0 \<Longrightarrow> compare_tails x z \<le> 0"
    using ident.field_list.cmp_trans [of "split_on CHR ''.'' x" "split_on CHR ''.'' y" "split_on CHR ''.'' z"]
    by (auto simp: compare_tails_def comparePrerelease_def split: if_splits)
qed

interpretation vers: three_way version_compare
  using three_way_then [OF three_way_key [OF nums.three_way_axioms, of numbers]
      three_way_key [OF tails.three_way_axioms, of prerelease]]
  by (simp add: version_compare_def [abs_def] Let_def)

text \<open>The release order as the library's preorder.\<close>

instantiation version :: preorder
begin

definition less_eq_version :: "version \<Rightarrow> version \<Rightarrow> bool" where
  "v \<le> w \<longleftrightarrow> version_compare v w \<le> 0"

definition less_version :: "version \<Rightarrow> version \<Rightarrow> bool" where
  "v < w \<longleftrightarrow> version_compare v w < 0"

instance
proof
  fix u v w :: version
  show "u \<le> u" by (simp add: less_eq_version_def vers.cmp_refl)
  show "u < v \<longleftrightarrow> u \<le> v \<and> \<not> v \<le> u"
    using vers.cmp_antisym [of u v] by (auto simp: less_eq_version_def less_version_def)
  show "u \<le> v \<Longrightarrow> v \<le> w \<Longrightarrow> u \<le> w"
    by (auto simp: less_eq_version_def intro: vers.cmp_trans)
qed

end

section \<open>What an advisory answer means\<close>

text \<open>
  The releases a declaration can resolve to, the reading the comments of the source give:
  an exact pin, everything from a floor up to an exclusive ceiling, everything below.
\<close>

definition admits :: "bound \<Rightarrow> version \<Rightarrow> bool" where
  "admits b v \<longleftrightarrow>
     (case bound_kind b of
        BoundExact \<Rightarrow> version_compare v (bound_version b) = 0
      | BoundFloor \<Rightarrow> bound_version b \<le> v \<and> (bound_bounded b \<longrightarrow> v < bound_ceiling b)
      | BoundBelow \<Rightarrow> v < bound_version b
      | BoundAtMost \<Rightarrow> v \<le> bound_version b)"

lemmas version_order = less_eq_version_def less_version_def

lemma version_compare_le: "version_compare v w \<le> 0 \<longleftrightarrow> v \<le> w"
  by (simp add: version_order)

lemma version_compare_less: "version_compare v w < 0 \<longleftrightarrow> v < w"
  by (simp add: version_order)

lemma version_compare_eq: "version_compare v w = 0 \<longleftrightarrow> v \<le> w \<and> w \<le> v"
  using vers.cmp_antisym [of v w] by (auto simp: version_order)

lemma version_compare_ge: "0 \<le> version_compare v w \<longleftrightarrow> w \<le> v"
  using vers.cmp_ge_iff by (simp add: version_order)

lemma version_linear: "\<not> (v::version) < w \<Longrightarrow> w \<le> v"
  using version_compare_ge version_compare_less not_less by blast

lemma version_not_le: "\<not> (v::version) \<le> w \<longleftrightarrow> w < v"
  using version_linear less_le_not_le by blast

lemmas version_compare_order =
  version_compare_le version_compare_less version_compare_eq version_compare_ge

lemma below_bound_sound:
  assumes "below_bound b f = Some a" "admits b v"
  shows "(v < f) = a"
proof (cases "bound_kind b")
  case BoundExact
  with assms show ?thesis
    by (auto simp: below_bound_def admits_def version_compare_order
        intro: le_less_trans order_le_less_trans)
next
  case BoundFloor
  with assms show ?thesis
    by (auto simp: below_bound_def admits_def version_compare_order Let_def split: if_splits
        dest: order.strict_trans2 order.strict_trans1 order_trans less_le_not_le [THEN iffD1])
next
  case BoundBelow
  with assms show ?thesis
    by (auto simp: below_bound_def admits_def version_compare_order Let_def split: if_splits
        dest: order.strict_trans2 less_trans)
next
  case BoundAtMost
  with assms show ?thesis
    by (auto simp: below_bound_def admits_def version_compare_order Let_def split: if_splits
        dest: order.strict_trans1)
qed

lemma below_boundD:
  "below declared fixed = Some a \<Longrightarrow> parseDeclared declared = Some b \<Longrightarrow>
   parseVersion fixed = Some f \<Longrightarrow> below_bound b f = Some a"
  by (auto simp: below_def parseVersion_def)

text \<open>
  C12: No false all-clear and no false alarm. When \<open>Below\<close> decides an advisory, every
  release the declaration can resolve to agrees with the verdict: all of them are strictly
  below the fixed release if it answered "affected", none of them if it answered "safe".
\<close>

theorem below_sound:
  assumes "below declared fixed = Some affected"
    and "parseDeclared declared = Some b" and "parseVersion fixed = Some f"
    and "admits b v"
  shows "(version_compare v f < 0) = affected"
  using below_bound_sound [OF below_boundD [OF assms(1-3)] assms(4)]
  by (simp add: version_compare_less)

text \<open>
  An undecided floor really is open: if \<open>Below\<close> refuses to decide a caret, tilde or
  "at least" declaration whose two sides can be read, the declaration can resolve both to a
  release that lacks the fix and to one that carries it.
\<close>

theorem below_undecided_floor_open:
  assumes "parseDeclared declared = Some b" and "parseVersion fixed = Some f"
    and "bound_kind b = BoundFloor" and "below declared fixed = None"
  shows "(\<exists>v. admits b v \<and> version_compare v f < 0) \<and>
         (\<exists>v. admits b v \<and> \<not> version_compare v f < 0)"
proof -
  have "below_bound b f = None"
    using assms by (auto simp: below_def parseVersion_def)
  then have low: "bound_version b < f" and high: "bound_bounded b \<Longrightarrow> f < bound_ceiling b"
    using assms(3)
    by (auto simp: below_bound_def version_compare_order version_not_le split: if_splits)
  from low high have "bound_bounded b \<Longrightarrow> bound_version b < bound_ceiling b"
    by (blast intro: less_trans)
  with low high assms(3) have "admits b (bound_version b)" "admits b f"
    by (simp_all add: admits_def less_imp_le)
  then show ?thesis
    using low vers.cmp_refl by (auto simp: version_compare_less)
qed

section \<open>The ceiling of a caret range\<close>

lemma compare_numbers_nonneg_Nil:
  "\<forall>x \<in> set vs. 0 \<le> x \<Longrightarrow> 0 \<le> compare_numbers vs []"
  by (induction vs) (auto simp: compare_numbers_step)

lemma raise_last_Cons: "ns \<noteq> [] \<Longrightarrow> raise_last (n # ns) = n # raise_last ns"
  by (simp add: raise_last_def)

lemma raise_last_single: "raise_last [n] = [wrap64 (n + 1)]"
  by (simp add: raise_last_def)

lemma head0_nth_default: "head0 vs = nth_default 0 vs 0"
  by (cases vs) simp_all

lemma nth_default_tl: "nth_default 0 (tl vs) i = nth_default 0 vs (Suc i)"
  by (cases vs) simp_all

text \<open>
  A list of components between \<open>ns\<close> and \<open>ns\<close> cut after position \<open>k\<close> and raised there has the
  components of \<open>ns\<close> up to \<open>k\<close>.
\<close>

lemma between_floor_and_raised:
  assumes "k < length ns" "\<forall>x \<in> set vs. 0 \<le> x" "0 \<le> ns ! k" "ns ! k < max_int64"
    and "compare_numbers ns vs \<le> 0"
    and "compare_numbers vs (raise_last (take (Suc k) ns)) < 0"
  shows "\<forall>i \<le> k. nth_default 0 vs i = ns ! i"
  using assms
proof (induction k arbitrary: ns vs)
  case 0
  then obtain n ns' where ns: "ns = n # ns'" by (cases ns) auto
  have "\<not> compare_numbers (tl vs) [] < 0"
    using compare_numbers_nonneg_Nil [of "tl vs"] "0.prems"(2)
    by (metis list.set_sel(2) not_less tl_Nil)
  then have "head0 vs = n"
    using "0.prems" ns by (auto simp: compare_numbers_step raise_last_single split: if_splits)
  then show ?case by (simp add: ns head0_nth_default)
next
  case (Suc k)
  then obtain n ns' where ns: "ns = n # ns'" and ne: "ns' \<noteq> []"
    by (cases ns; cases "tl ns") auto
  have raised: "raise_last (take (Suc (Suc k)) ns) = n # raise_last (take (Suc k) ns')"
    using ns ne by (simp add: raise_last_Cons)
  have below_raised: "compare_numbers vs (n # raise_last (take (Suc k) ns')) < 0"
    using Suc.prems(6) by (simp only: raised)
  have head: "head0 vs = n" and tail: "compare_numbers ns' (tl vs) \<le> 0"
      "compare_numbers (tl vs) (raise_last (take (Suc k) ns')) < 0"
    using Suc.prems(5) below_raised ns by (auto simp: compare_numbers_step split: if_splits)
  have "\<forall>x \<in> set (tl vs). 0 \<le> x"
    using Suc.prems(2) by (metis list.set_sel(2) tl_Nil)
  then have "\<forall>i \<le> k. nth_default 0 (tl vs) i = ns' ! i"
    using Suc.IH [of ns' "tl vs"] Suc.prems ns tail by simp
  then show ?case
    using head by (auto simp: ns nth_default_tl head0_nth_default nth_Cons split: nat.splits)
qed

lemma first_nonzero_less: "ns \<noteq> [] \<Longrightarrow> first_nonzero ns < length ns"
  by (auto simp: first_nonzero_def split: option.splits dest: find_SomeD)

lemma ceiling_index_less: "ns \<noteq> [] \<Longrightarrow> ceiling_index rule ns < length ns"
  using first_nonzero_less by (auto simp: ceiling_index_def split: ceilingRule.splits)

text \<open>
  A caret or tilde range keeps what its operator keeps. A release whose components lie
  between the declared ones and the computed ceiling agrees with the declaration on every
  component up to the one the rule raises: the leftmost non-zero one for a caret over three
  or more components, major and minor for a tilde, the major alone for a shorter one.
\<close>

theorem range_keeps_leading_components:
  assumes "rangeCeiling rule ns = Some c"
    and "\<forall>x \<in> set ns. 0 \<le> x" and "ns ! ceiling_index rule ns < max_int64"
    and "\<forall>x \<in> set vs. 0 \<le> x"
    and "compare_numbers ns vs \<le> 0" and "compare_numbers vs (numbers c) < 0"
  shows "\<forall>i \<le> ceiling_index rule ns. nth_default 0 vs i = ns ! i"
proof -
  have ne: "ns \<noteq> []" and c: "numbers c = raise_last (take (Suc (ceiling_index rule ns)) ns)"
    using assms(1) by (auto simp: rangeCeiling_def split: if_splits)
  show ?thesis
    using between_floor_and_raised [OF ceiling_index_less [OF ne] assms(4) _ assms(3,5)]
      assms(2,6) ceiling_index_less [OF ne] c by simp
qed

lemma range_keeps_leading_components_witness:
  "\<exists>c. rangeCeiling CeilingCaret [0, 2, 3] = Some c \<and> compare_numbers [0, 2, 9] (numbers c) < 0 \<and>
     (\<forall>i \<le> ceiling_index CeilingCaret [0, 2, 3]. nth_default 0 [0, 2, 9] i = ([0, 2, 3] :: int list) ! i)"
proof -
  have idx: "ceiling_index CeilingCaret [0, 2, 3] = 1"
    by (simp add: ceiling_index_def first_nonzero_def upt_rec)
  have c: "rangeCeiling CeilingCaret [0, 2, 3] = Some (Version [0, 3] [])"
    by (simp add: rangeCeiling_def idx raise_last_def)
  have floor: "compare_numbers [0, 2, 3] [0, 2, 9] \<le> 0"
    and ceil: "compare_numbers [0, 2, 9] (numbers (Version [0, 3] [])) < 0"
    by (simp_all add: compare_numbers_step)
  show ?thesis
    using range_keeps_leading_components [OF c _ _ _ floor ceil] c ceil by (simp add: idx)
qed

section \<open>What the parser reads\<close>

lemma parse_numbers_length: "parse_numbers ps = Some ns \<Longrightarrow> length ns = length ps"
  by (induction ps arbitrary: ns) (auto split: if_splits option.splits)

lemma atoi_unsigned:
  "atoi s = Some n \<Longrightarrow> CHR ''-'' \<notin> set s \<Longrightarrow> 0 \<le> n \<and> n \<le> max_int64"
  using digits_val_nonneg
  by (auto simp: atoi_def Let_def split: if_splits list.splits)

lemma parse_numbers_nonneg:
  "parse_numbers ps = Some ns \<Longrightarrow> \<forall>p \<in> set ps. CHR ''-'' \<notin> set p \<Longrightarrow>
   \<forall>n \<in> set ns. 0 \<le> n \<and> n \<le> max_int64"
  by (induction ps arbitrary: ns) (fastforce split: if_splits option.splits dest: atoi_unsigned)+

lemma cut_prerelease_core: "cut_prerelease s = (core, tail) \<Longrightarrow> CHR ''-'' \<notin> set core"
  by (auto simp: cut_prerelease_def index_byte_None dest: index_byte_SomeD split: option.splits)

text \<open>
  What is read is a release. A declaration that is read at all names at least one
  component, and every component is a number from 0 to the largest 64-bit integer; the
  answers never rest on a negative or an overflowed component.
\<close>

theorem parsed_numbers_in_range:
  assumes "parseDeclared declared = Some b"
  shows "numbers (bound_version b) \<noteq> [] \<and>
         (\<forall>n \<in> set (numbers (bound_version b)). 0 \<le> n \<and> n \<le> max_int64)"
proof -
  obtain k rule core tail ns where
    core: "cut_prerelease (cut_build (strip_operators (trim_space declared))) = (core, tail)" and
    ns: "parse_numbers (split_on CHR ''.'' core) = Some ns" "numbers (bound_version b) = ns" "ns \<noteq> []"
    using assms
    by (auto simp: parseDeclared_def Let_def split: if_splits option.splits prod.splits)
  have "\<forall>p \<in> set (split_on CHR ''.'' core). CHR ''-'' \<notin> set p"
    using cut_prerelease_core [OF core] split_on_subset by blast
  with ns show ?thesis using parse_numbers_nonneg by blast
qed

section \<open>A rendered declaration reads back\<close>

definition render_release :: "int list \<Rightarrow> string" where
  "render_release ns = join_with ''.'' (map itoa ns)"

definition render_tail :: "string \<Rightarrow> string \<Rightarrow> string" where
  "render_tail pre meta =
     (if pre = [] then [] else CHR ''-'' # pre) @ (if meta = [] then [] else CHR ''+'' # meta)"

definition plain_char :: "char \<Rightarrow> bool" where
  "plain_char c \<longleftrightarrow> visible c \<and> c \<noteq> CHR '','' \<and> c \<noteq> CHR ''|''"

definition pin_operators :: "(string \<times> boundKind \<times> ceilingRule) list" where
  "pin_operators = [([], BoundExact, CeilingNone), (''v'', BoundExact, CeilingNone),
     (''='', BoundExact, CeilingNone), (''=='', BoundExact, CeilingNone)]"

lemma is_digit_not:
  "is_digit c \<Longrightarrow> c \<noteq> CHR ''='' \<and> c \<noteq> CHR ''>'' \<and> c \<noteq> CHR ''<'' \<and> c \<noteq> CHR ''~'' \<and> c \<noteq> CHR ''^'' \<and>
     c \<noteq> CHR ''v'' \<and> c \<noteq> CHR ''l'' \<and> c \<noteq> CHR ''*'' \<and> c \<noteq> CHR ''x'' \<and> c \<noteq> CHR ''m'' \<and>
     c \<noteq> CHR ''f'' \<and> c \<noteq> CHR ''g'' \<and> c \<noteq> CHR ''h'' \<and> c \<noteq> CHR ''w'' \<and> c \<noteq> CHR ''.'' \<and>
     c \<noteq> CHR ''+'' \<and> c \<noteq> CHR ''-'' \<and> c \<noteq> CHR '','' \<and> c \<noteq> CHR ''|''"
  by (auto simp: is_digit_def)

lemma is_digit_not_sym:
  "is_digit c \<Longrightarrow> CHR ''='' \<noteq> c \<and> CHR ''>'' \<noteq> c \<and> CHR ''<'' \<noteq> c \<and> CHR ''~'' \<noteq> c \<and> CHR ''^'' \<noteq> c \<and>
     CHR ''v'' \<noteq> c"
  by (auto simp: is_digit_def)

lemma is_digit_lower [simp]: "is_digit c \<Longrightarrow> lower_char c = c"
  by (simp add: is_digit_def lower_char_def)

lemma plain_digit: "is_digit c \<Longrightarrow> plain_char c"
  using is_digit_not is_digit_visible by (simp add: plain_char_def)

lemma plain_dot: "plain_char CHR ''.''"
  by (simp add: plain_char_def visible_def)

lemma plain_space: "\<not> plain_char CHR '' ''"
  by (simp add: plain_char_def visible_def)

lemma plain_sign: "plain_char CHR ''-''" "plain_char CHR ''+''"
  by (simp_all add: plain_char_def visible_def)

lemma itoa_digits: "0 \<le> n \<Longrightarrow> c \<in> set (itoa n) \<Longrightarrow> is_digit c"
  using itoa_nat_digits [of "nat n"] by (simp add: itoa_def list_all_iff)

lemma itoa_ne [simp]: "itoa n \<noteq> []"
  by (simp add: itoa_def)

lemma set_join_with: "set (join_with sep ws) \<subseteq> set sep \<union> (\<Union>w \<in> set ws. set w)"
  by (induction sep ws rule: join_with.induct) auto

lemma render_release_chars:
  assumes "\<forall>n \<in> set ns. 0 \<le> n" "c \<in> set (render_release ns)"
  shows "is_digit c \<or> c = CHR ''.''"
  using assms set_join_with [of "''.''" "map itoa ns"] itoa_digits
  by (fastforce simp: render_release_def)

lemma render_release_hd:
  assumes "ns \<noteq> []" "\<forall>n \<in> set ns. 0 \<le> n"
  obtains d ds where "render_release ns = d # ds" "is_digit d"
proof -
  obtain n ns' where ns: "ns = n # ns'" using assms by (cases ns) auto
  obtain d ds where d: "itoa n = d # ds" by (cases "itoa n") simp_all
  have "\<exists>ds'. render_release ns = d # ds'"
    using d ns by (cases ns') (simp_all add: render_release_def)
  moreover have "is_digit d" using itoa_digits [of n d] d assms ns by simp
  ultimately show thesis using that by blast
qed

lemma parse_numbers_itoa:
  "\<forall>n \<in> set ns. 0 \<le> n \<and> n \<le> max_int64 \<Longrightarrow> parse_numbers (map itoa ns) = Some ns"
  by (induction ns) (auto simp: atoi_itoa)

lemma strip_round_digit:
  assumes "is_digit d" "visible (last (d # ds))"
  shows "strip_round (d # ds) = d # ds"
proof -
  have "foldl trim_prefix (d # ds) rangeOperators = d # ds"
    using is_digit_not [OF assms(1)] by (simp add: rangeOperators_def trim_prefix_Cons)
  then show ?thesis
    using trim_space_visible [of "d # ds"] is_digit_visible assms by (simp add: strip_round_def)
qed

lemma strip_operators_round: "strip_operators (strip_round s) = strip_operators s"
  by (cases "strip_round s = s") (simp_all add: strip_operators.simps [of s])

lemma strip_operators_digit:
  "is_digit d \<Longrightarrow> visible (last (d # ds)) \<Longrightarrow> strip_operators (d # ds) = d # ds"
  by (simp add: strip_operators.simps [of "d # ds"] strip_round_digit)

lemma operators_before_digit:
  assumes "(p, k, rule) \<in> set (pin_operators @ operator_rules)" "is_digit d"
  shows "operator_of (p @ d # ds) = (k, rule)"
    and "foldl trim_prefix (p @ d # ds) rangeOperators = d # ds"
    and "\<not> list_ex (\<lambda>w. has_prefix (to_lower (p @ d # ds)) w) undecidable_words"
proof -
  note d = is_digit_not [OF assms(2)] is_digit_not_sym [OF assms(2)]
  have p: "p \<in> set [[], ''v'', ''='', ''=='', ''^'', ''~='', ''~'', ''>='', ''>'', ''<='', ''<'']"
    using assms(1) by (auto simp: pin_operators_def operator_rules_def)
  show "operator_of (p @ d # ds) = (k, rule)"
    using assms(1) unfolding pin_operators_def operator_rules_def set_append list.set Un_iff
      insert_iff empty_iff prod.inject
    by (elim disjE conjE FalseE) (simp_all add: operator_of_def operator_rules_def d)
  show "foldl trim_prefix (p @ d # ds) rangeOperators = d # ds"
    using p unfolding list.set insert_iff empty_iff
    by (elim disjE FalseE) (simp_all add: rangeOperators_def trim_prefix_Cons d)
  obtain h t where ht: "p @ d # ds = h # t" "h = d \<or> h \<in> set ''v=^~><''"
    using p by (cases p) auto
  have hs: "\<forall>c \<in> set ''l*xmfghw''. c \<noteq> h \<and> h \<noteq> c"
    using ht(2) is_digit_not [OF assms(2)] by (elim disjE) auto
  have "to_lower (p @ d # ds) = h # to_lower t"
    unfolding ht(1) using ht(2) is_digit_lower [OF assms(2)]
    by (auto simp: to_lower_def) (simp_all add: lower_char_def)
  then show "\<not> list_ex (\<lambda>w. has_prefix (to_lower (p @ d # ds)) w) undecidable_words"
    using hs by (simp add: undecidable_words_def)
qed

lemma cut_build_meta:
  "CHR ''+'' \<notin> set u \<Longrightarrow> cut_build (u @ (if meta = [] then [] else CHR ''+'' # meta)) = u"
  by (simp add: cut_build_def index_byte_append)

lemma cut_render:
  assumes "CHR ''-'' \<notin> set r" "CHR ''+'' \<notin> set r" "CHR ''+'' \<notin> set pre"
  shows "cut_prerelease (cut_build (r @ render_tail pre meta)) = (r, pre)"
proof -
  let ?u = "r @ (if pre = [] then [] else CHR ''-'' # pre)"
  have "CHR ''+'' \<notin> set ?u" using assms by simp
  from cut_build_meta [OF this, of meta]
  have "cut_build (r @ render_tail pre meta) = ?u"
    unfolding render_tail_def append_assoc .
  then show ?thesis
    using index_byte_append [of "CHR ''-''" r pre] assms(1) by (simp add: cut_prerelease_def)
qed

lemma parse_rendered:
  assumes "(p, k, rule) \<in> set (pin_operators @ operator_rules)"
    and "ns \<noteq> []" and "\<forall>n \<in> set ns. 0 \<le> n \<and> n \<le> max_int64"
    and "\<forall>c \<in> set pre \<union> set meta. plain_char c" and "CHR ''+'' \<notin> set pre"
  shows "parseDeclared (p @ render_release ns @ render_tail pre meta) =
    Some \<lparr>bound_version = Version ns pre, bound_kind = k,
          bound_ceiling = (case rangeCeiling rule ns of Some c \<Rightarrow> c | None \<Rightarrow> Version [] []),
          bound_bounded = (rangeCeiling rule ns \<noteq> None)\<rparr>"
proof -
  let ?r = "render_release ns"
  have nonneg: "\<forall>n \<in> set ns. 0 \<le> n" using assms(3) by simp
  obtain d ds where r: "?r = d # ds" and d: "is_digit d"
    using render_release_hd [OF assms(2) nonneg] by blast
  let ?v = "?r @ render_tail pre meta"
  obtain es where v: "?v = d # es" using r by simp
  have r_chars: "CHR ''-'' \<notin> set ?r" "CHR ''+'' \<notin> set ?r"
    using render_release_chars [OF nonneg] is_digit_sign by blast+
  have "\<forall>c \<in> set ?r. plain_char c"
    using render_release_chars [OF nonneg] plain_digit plain_dot by blast
  then have plain_v: "\<forall>c \<in> set ?v. plain_char c"
    using assms(4) by (auto simp: render_tail_def plain_sign)
  have plain_p: "\<forall>c \<in> set p. plain_char c"
    using assms(1) by (auto simp: pin_operators_def operator_rules_def plain_char_def visible_def)
  let ?s = "p @ ?v"
  have plain: "\<forall>c \<in> set ?s. plain_char c" using plain_p plain_v by auto
  have ne: "?s \<noteq> []" "?v \<noteq> []" using v by simp_all
  have ends: "?s \<noteq> []" "visible (hd ?s)" "visible (last ?s)" "visible (last (d # es))"
    using plain plain_v v ne hd_in_set [OF ne(1)] last_in_set [OF ne(1)] last_in_set [OF ne(2)]
    unfolding plain_char_def by metis+
  have trimmed: "trim_space ?s = ?s" by (rule trim_space_visible [OF ends(1-3)])
  have no_commas: "\<not> contains_any ?s '',|''"
    using plain by (auto simp: contains_any_def list_ex_iff plain_char_def)
  have "CHR '' '' \<notin> set ?s" using plain plain_space by blast
  then have no_dash: "\<not> contains_str ?s '' - ''"
    using contains_str_subset [of ?s "'' - ''"] by fastforce
  have ops: "operator_of ?s = (k, rule)" "foldl trim_prefix ?s rangeOperators = d # es"
    "\<not> list_ex (\<lambda>w. has_prefix (to_lower ?s) w) undecidable_words"
    unfolding v using operators_before_digit [OF assms(1) d] by blast+
  have "strip_round ?s = d # es"
    using trim_space_visible [of "d # es"] ends(4) is_digit_visible [OF d]
    by (simp add: strip_round_def ops(2))
  then have strip: "strip_operators ?s = ?v"
    using strip_operators_digit [OF d ends(4)] strip_operators_round [of ?s] v by simp
  have split: "split_on CHR ''.'' ?r = map itoa ns"
    using split_join [of "map itoa ns" "CHR ''.''"] assms(2) itoa_digits nonneg is_digit_not
    by (fastforce simp: render_release_def)
  show ?thesis
    unfolding parseDeclared_def trimmed Let_def ops(1) strip
      cut_render [OF r_chars assms(5)] prod.case split parse_numbers_itoa [OF assms(3)] option.case
    using ends(1) no_commas no_dash ops(3) assms(2) v by simp
qed

text \<open>
  C31: Parsing inverts printing. Any of the operators the platform knows, in front of a
  dotted release with an optional pre-release tail and optional build metadata, is read as
  that release, that tail, that operator's direction and that operator's ceiling; the build
  metadata (such as Go's "+incompatible") plays no part.
\<close>

theorem parse_rendered_declaration:
  assumes "(p, k, rule) \<in> set (pin_operators @ operator_rules)"
    and "ns \<noteq> []" and "\<forall>n \<in> set ns. 0 \<le> n \<and> n \<le> max_int64"
    and "\<forall>c \<in> set pre \<union> set meta. plain_char c" and "CHR ''+'' \<notin> set pre"
  shows "parseDeclared (p @ render_release ns @ render_tail pre meta) =
    Some \<lparr>bound_version = Version ns pre, bound_kind = k,
          bound_ceiling = (case rangeCeiling rule ns of Some c \<Rightarrow> c | None \<Rightarrow> Version [] []),
          bound_bounded = (rangeCeiling rule ns \<noteq> None)\<rparr>"
  by (rule parse_rendered [OF assms])

lemma parse_rendered_declaration_witness:
  "parseDeclared (''^'' @ render_release [1, 2, 3] @ render_tail ''rc.1'' ''incompatible'') =
     Some \<lparr>bound_version = Version [1, 2, 3] ''rc.1'', bound_kind = BoundFloor,
           bound_ceiling = Version [2] [], bound_bounded = True\<rparr>"
proof -
  have op: "(''^'', BoundFloor, CeilingCaret) \<in> set (pin_operators @ operator_rules)"
    by (simp add: operator_rules_def)
  have plain: "\<forall>c \<in> set ''rc.1'' \<union> set ''incompatible''. plain_char c"
    by (simp add: plain_char_def visible_def)
  have c: "rangeCeiling CeilingCaret [1, 2, 3] = Some (Version [2] [])"
    by (simp add: rangeCeiling_def ceiling_index_def first_nonzero_def raise_last_def upt_rec)
  show ?thesis
    using parse_rendered_declaration [OF op _ _ plain, of "[1, 2, 3]"] c by simp
qed

lemma rendered_literals:
  "''~'' @ render_release [2, 14, 0] @ render_tail [] [] = ''~2.14.0''"
  "[] @ render_release [2, 17, 1] @ render_tail [] [] = ''2.17.1''"
  "''>='' @ render_release [2, 14, 0] @ render_tail [] [] = ''>=2.14.0''"
  by (simp_all add: render_release_def render_tail_def itoa_def itoa_nat.simps)

lemma parse_literals:
  "parseDeclared ''~2.14.0'' = Some \<lparr>bound_version = Version [2, 14, 0] [],
     bound_kind = BoundFloor, bound_ceiling = Version [2, 15] [], bound_bounded = True\<rparr>"
  "parseDeclared ''2.17.1'' = Some \<lparr>bound_version = Version [2, 17, 1] [],
     bound_kind = BoundExact, bound_ceiling = Version [] [], bound_bounded = False\<rparr>"
  "parseDeclared ''>=2.14.0'' = Some \<lparr>bound_version = Version [2, 14, 0] [],
     bound_kind = BoundFloor, bound_ceiling = Version [] [], bound_bounded = False\<rparr>"
  using parse_rendered [of "''~''" BoundFloor CeilingTilde "[2, 14, 0]" "[]" "[]"]
    parse_rendered [of "[]" BoundExact CeilingNone "[2, 17, 1]" "[]" "[]"]
    parse_rendered [of "''>=''" BoundFloor CeilingNone "[2, 14, 0]" "[]" "[]"]
  unfolding rendered_literals
  by (simp_all add: operator_rules_def pin_operators_def rangeCeiling_def ceiling_index_def
      raise_last_def numeral_eq_Suc)

lemma below_sound_witness:
  "below ''~2.14.0'' ''2.17.1'' = Some True \<and>
   (version_compare (Version [2, 14, 9] []) (Version [2, 17, 1] []) < 0) = True"
proof -
  have ans: "below ''~2.14.0'' ''2.17.1'' = Some True"
    by (simp add: below_def parse_literals below_bound_def version_compare_def compare_numbers_step)
  have adm: "admits \<lparr>bound_version = Version [2, 14, 0] [], bound_kind = BoundFloor,
      bound_ceiling = Version [2, 15] [], bound_bounded = True\<rparr> (Version [2, 14, 9] [])"
    by (simp add: admits_def version_order version_compare_def compare_numbers_step)
  show ?thesis
    using below_sound [OF ans parse_literals(1) _ adm] ans
    by (simp add: parseVersion_def parse_literals)
qed

lemma below_undecided_floor_open_witness:
  "below ''>=2.14.0'' ''2.17.1'' = None \<and>
   (\<exists>b v. parseDeclared ''>=2.14.0'' = Some b \<and> admits b v \<and>
      \<not> version_compare v (Version [2, 17, 1] []) < 0)"
proof -
  have ans: "below ''>=2.14.0'' ''2.17.1'' = None"
    by (simp add: below_def parse_literals below_bound_def version_compare_def compare_numbers_step)
  show ?thesis
    using below_undecided_floor_open [OF parse_literals(3) _ _ ans] ans
    by (auto simp: parseVersion_def parse_literals)
qed

lemma parsed_numbers_in_range_witness:
  "\<exists>b. parseDeclared ''~2.14.0'' = Some b \<and> numbers (bound_version b) \<noteq> [] \<and>
     (\<forall>n \<in> set (numbers (bound_version b)). 0 \<le> n \<and> n \<le> max_int64)"
  using parsed_numbers_in_range [OF parse_literals(1)] parse_literals(1) by blast

section \<open>Pre-release tails\<close>

lemma numericIdentifier_itoa:
  assumes "0 \<le> n" "n \<le> max_int64"
  shows "numericIdentifier (itoa n) = Some n"
  using assms atoi_itoa [of n] itoa_digits [of n] by (simp add: numericIdentifier_def list_all_iff)

lemma lex_compare_common:
  "(\<And>x. cmp x x = 0) \<Longrightarrow> lex_compare cmp (ws @ us) (ws @ vs) = lex_compare cmp us vs"
  by (induction ws) simp_all

text \<open>
  Pre-release fields compare as semantic versioning says. Behind any common fields and
  in front of any further ones, two numeric fields decide by value (so rc.9 precedes
  rc.10), a numeric field precedes a textual one, and a tail that continues follows the
  tail that stops.
\<close>

theorem prerelease_fields_by_value:
  assumes "0 \<le> m" and "m < n" and "n \<le> max_int64"
    and "\<forall>w \<in> set (ws @ us @ vs @ [t]). CHR ''.'' \<notin> set w" and "numericIdentifier t = None"
  shows "comparePrerelease (join_with ''.'' (ws @ itoa m # us)) (join_with ''.'' (ws @ itoa n # vs)) = -1 \<and>
    comparePrerelease (join_with ''.'' (ws @ itoa m # us)) (join_with ''.'' (ws @ t # vs)) = -1 \<and>
    comparePrerelease (join_with ''.'' (ws @ [t])) (join_with ''.'' (ws @ t # itoa n # vs)) = -1"
proof -
  have dots: "CHR ''.'' \<notin> set (itoa m)" "CHR ''.'' \<notin> set (itoa n)"
    using itoa_digits [of m] itoa_digits [of n] assms(1,2) is_digit_sign(3)
    by (meson order.strict_implies_order order_trans)+
  have num: "numericIdentifier (itoa m) = Some m" "numericIdentifier (itoa n) = Some n"
    using assms(1-3) by (simp_all add: numericIdentifier_itoa)
  have splits: "\<And>xs. xs \<noteq> [] \<Longrightarrow> set xs \<subseteq> set (itoa m # itoa n # t # ws @ us @ vs) \<Longrightarrow>
      split_on CHR ''.'' (join_with ''.'' xs) = xs"
    using assms(4) dots by (intro split_join) auto
  show ?thesis
    unfolding comparePrerelease_def
    using assms(2,5) num
    by (simp add: splits subset_iff lex_compare_common ident.cmp_refl compareIdentifier_def)
qed

lemma prerelease_fields_by_value_witness:
  "comparePrerelease ''rc.9'' ''rc.10'' = -1"
proof -
  have "\<forall>w \<in> set ([''rc''] @ [] @ [] @ [''x'']). CHR ''.'' \<notin> set w" by simp
  moreover have "numericIdentifier ''x'' = None"
    by (simp add: numericIdentifier_def is_digit_def)
  ultimately show ?thesis
    using prerelease_fields_by_value [of 9 10 "[''rc'']" "[]" "[]" "''x''"]
    by (simp add: itoa_def itoa_nat.simps)
qed

end
