(* ===== verification/GoErrors.thy ===== *)
theory GoErrors
  imports Prelude
begin

text \<open>
  Error values and their chains: \<^verbatim>\<open>internal/netclient/status.go\<close> and the error predicates of
  \<^verbatim>\<open>internal/source/transport.go\<close>.

  A Go error is a value with a message and possibly a cause; \<^verbatim>\<open>errors.Is\<close> and
  \<^verbatim>\<open>errors.As\<close> walk the chain of causes. \<open>Wrap pre e post\<close> is what
  \<^verbatim>\<open>fmt.Errorf("pre%wpost", e)\<close> builds and \<open>Plain\<close> any error without a cause.
\<close>

section \<open>Values\<close>

record api_error =
  api_Source :: string
  api_StatusCode :: int
  api_Status :: string
  api_Body :: string
  api_RetryAfter :: duration

datatype go_error =
    ErrNotConfigured
  | Canceled
  | DeadlineExceeded
  | ApiError api_error
  | HttpStatusError int go_error
  | Wrap string go_error string
  | Plain string

definition APIError_Error :: "api_error \<Rightarrow> string" where
  "APIError_Error e = api_Source e @ '' API '' @ api_Status e @ '': '' @ api_Body e"

fun error_message :: "go_error \<Rightarrow> string" where
  "error_message ErrNotConfigured = ''source is not configured''"
| "error_message Canceled = ''context canceled''"
| "error_message DeadlineExceeded = ''context deadline exceeded''"
| "error_message (ApiError e) = APIError_Error e"
| "error_message (HttpStatusError code cause) = error_message cause"
| "error_message (Wrap pre e post) = pre @ error_message e @ post"
| "error_message (Plain s) = s"

definition NewHTTPStatusError :: "int \<Rightarrow> go_error option \<Rightarrow> go_error" where
  "NewHTTPStatusError statusCode cause =
     HttpStatusError statusCode
       (case cause of None \<Rightarrow> Plain (''HTTP '' @ itoa statusCode) | Some e \<Rightarrow> e)"

fun unwrap_error :: "go_error \<Rightarrow> go_error option" where
  "unwrap_error (HttpStatusError code cause) = Some cause"
| "unwrap_error (Wrap pre e post) = Some e"
| "unwrap_error _ = None"

section \<open>Walking the chain\<close>

fun errors_is :: "go_error \<Rightarrow> go_error \<Rightarrow> bool" where
  "errors_is (HttpStatusError code cause) target \<longleftrightarrow>
     HttpStatusError code cause = target \<or> errors_is cause target"
| "errors_is (Wrap pre e post) target \<longleftrightarrow> Wrap pre e post = target \<or> errors_is e target"
| "errors_is e target \<longleftrightarrow> e = target"

fun as_api_error :: "go_error \<Rightarrow> api_error option" where
  "as_api_error (ApiError e) = Some e"
| "as_api_error (HttpStatusError code cause) = as_api_error cause"
| "as_api_error (Wrap pre e post) = as_api_error e"
| "as_api_error _ = None"

text \<open>The first error of the chain with a \<^verbatim>\<open>Status() int\<close> method.\<close>

fun as_status :: "go_error \<Rightarrow> int option" where
  "as_status (HttpStatusError code cause) = Some code"
| "as_status (Wrap pre e post) = as_status e"
| "as_status _ = None"

definition StatusOf :: "go_error \<Rightarrow> int" where
  "StatusOf err =
     (case as_api_error err of
        Some api \<Rightarrow> api_StatusCode api
      | None \<Rightarrow> (case as_status err of Some code \<Rightarrow> code | None \<Rightarrow> 0))"

definition IsAuthFailure :: "go_error \<Rightarrow> bool" where
  "IsAuthFailure err \<longleftrightarrow> StatusOf err = 401 \<or> StatusOf err = 403"

definition IsNotFound :: "go_error \<Rightarrow> bool" where
  "IsNotFound err \<longleftrightarrow> StatusOf err = 404"

definition IsRateLimited :: "go_error \<Rightarrow> bool" where
  "IsRateLimited err \<longleftrightarrow> StatusOf err = 429"

definition RetryableStatus :: "int \<Rightarrow> bool" where
  "RetryableStatus status \<longleftrightarrow> status \<in> {429, 500, 502, 503, 504}"

section \<open>Lemmas\<close>

text \<open>Wrapping hides neither a sentinel nor a status.\<close>

lemma StatusOf_Wrap [simp]: "StatusOf (Wrap pre e post) = StatusOf e"
  by (simp add: StatusOf_def split: option.split)

lemma predicates_Wrap [simp]:
  "IsAuthFailure (Wrap pre e post) = IsAuthFailure e"
  "IsNotFound (Wrap pre e post) = IsNotFound e"
  "IsRateLimited (Wrap pre e post) = IsRateLimited e"
  by (simp_all add: IsAuthFailure_def IsNotFound_def IsRateLimited_def)

lemma StatusOf_sentinels [simp]:
  "StatusOf ErrNotConfigured = 0" "StatusOf Canceled = 0" "StatusOf DeadlineExceeded = 0"
  "StatusOf (Plain s) = 0" "StatusOf (ApiError e) = api_StatusCode e"
  by (simp_all add: StatusOf_def)

lemma StatusOf_HttpStatusError:
  "as_api_error cause = None \<Longrightarrow> StatusOf (HttpStatusError code cause) = code"
  by (simp add: StatusOf_def)

lemma errors_is_Wrap_sentinel [simp]:
  "errors_is (Wrap pre e post) Canceled = errors_is e Canceled"
  "errors_is (Wrap pre e post) DeadlineExceeded = errors_is e DeadlineExceeded"
  "errors_is (Wrap pre e post) ErrNotConfigured = errors_is e ErrNotConfigured"
  by simp_all

lemma errors_is_refl [simp]: "errors_is e e"
  by (cases e) simp_all

end
