(* ===== verification/Breaker.thy ===== *)
theory Breaker
  imports GoErrors
begin

text \<open>
  The circuit breaker of a source server and the registry of breakers:
  \<^verbatim>\<open>internal/source/transport.go\<close>, and \<^verbatim>\<open>Allow\<close>/\<^verbatim>\<open>Report\<close> of
  \<^verbatim>\<open>internal/app/auth.go\<close>, which the search and the indexing worker call.

  A breaker is a record with the fields of the Go struct; a nil \<^verbatim>\<open>*Breaker\<close> is \<open>None\<close>.
  The injectable clock is an argument of the operations that read it. The mutex makes every
  method one step, so an interleaving of callers is a list of events.
\<close>

section \<open>State\<close>

record breaker =
  failures :: int
  openedAt :: time
  retryAt :: time
  lastError :: string
  probing :: bool
  probeAt :: time
  Threshold :: int
  OpenDuration :: duration

record breaker_state =
  st_Source :: string
  st_State :: string
  st_Failures :: int
  st_OpenedAt :: time
  st_RetryAt :: time
  st_LastError :: string

definition defaultBreakerThreshold :: int where
  "defaultBreakerThreshold = 4"

definition defaultBreakerOpen :: duration where
  "defaultBreakerOpen = 30 * second"

definition probeTimeout :: duration where
  "probeTimeout = 60 * second"

text \<open>\<^verbatim>\<open>&Breaker{}\<close>: every field has its zero value.\<close>

definition new_breaker :: breaker where
  "new_breaker = \<lparr>failures = 0, openedAt = zero_time, retryAt = zero_time, lastError = [],
     probing = False, probeAt = zero_time, Threshold = 0, OpenDuration = 0\<rparr>"

definition threshold :: "breaker \<Rightarrow> int" where
  "threshold b = (if 0 < Threshold b then Threshold b else defaultBreakerThreshold)"

definition openDuration :: "breaker \<Rightarrow> duration" where
  "openDuration b = (if 0 < OpenDuration b then OpenDuration b else defaultBreakerOpen)"

section \<open>Messages\<close>

text \<open>
  \<^verbatim>\<open>%.0f\<close> of \<^verbatim>\<open>Duration.Seconds()\<close>: seconds rounded to the nearest whole number, ties to
  even (exact in a float64 for the durations a breaker waits).
\<close>

definition seconds_rounded :: "duration \<Rightarrow> int" where
  "seconds_rounded d =
     (let s = d div second; r = d mod second
      in if 2 * r < second \<or> (2 * r = second \<and> even s) then s else s + 1)"

definition paused_message :: "int \<Rightarrow> string \<Rightarrow> duration \<Rightarrow> string" where
  "paused_message n err left =
     bytes [236, 151, 176, 235, 143, 153, 236, 157, 180, 32, 236, 157, 188, 236, 139, 156, 32,
       236, 164, 145, 235, 139, 168, 235, 144, 152, 236, 151, 136, 236, 138, 181, 235, 139, 136,
       235, 139, 164, 40, 236, 151, 176, 236, 134, 141, 32, 236, 139, 164, 237, 140, 168, 32]
     @ itoa n @ bytes [237, 154, 140, 58, 32] @ err @ ''). '' @ itoa (seconds_rounded left)
     @ bytes [236, 180, 136, 32, 237, 155, 132, 32, 236, 158, 144, 235, 143, 153, 236, 156, 188,
       235, 161, 156, 32, 235, 139, 164, 236, 139, 156, 32, 236, 139, 156, 235, 143, 132, 237,
       149, 169, 235, 139, 136, 235, 139, 164, 46]"

definition probing_message :: string where
  "probing_message =
     bytes [236, 151, 176, 235, 143, 153, 32, 235, 179, 181, 234, 181, 172, 235, 165, 188, 32,
       237, 153, 149, 236, 157, 184, 237, 149, 152, 235, 138, 148, 32, 236, 164, 145, 236, 158,
       133, 235, 139, 136, 235, 139, 164, 46, 32, 236, 157, 180, 235, 178, 136, 32, 236, 154,
       148, 236, 178, 173, 236, 157, 128, 32, 236, 131, 137, 236, 157, 184, 235, 144, 156, 32,
       234, 178, 176, 234, 179, 188, 235, 167, 140, 32, 236, 130, 172, 236, 154, 169, 237, 149,
       169, 235, 139, 136, 235, 139, 164, 46]"

definition truncateError :: "string \<Rightarrow> string" where
  "truncateError value =
     (if length value \<le> 200 then value else take (back_to_rune value 200) value @ ellipsis)"

section \<open>Operations\<close>

definition breaker_Allow :: "time \<Rightarrow> breaker \<Rightarrow> (bool \<times> string) \<times> breaker" where
  "breaker_Allow now b =
     (if openedAt b = zero_time then ((True, []), b)
      else if now < retryAt b then
        ((False, paused_message (failures b) (lastError b) (time_sub (retryAt b) now)), b)
      else if probing b \<and> time_sub now (probeAt b) < probeTimeout then
        ((False, probing_message), b)
      else ((True, []), b\<lparr>probing := True, probeAt := now\<rparr>))"

definition breaker_Success :: "breaker \<Rightarrow> breaker" where
  "breaker_Success b = b\<lparr>failures := 0, openedAt := zero_time, retryAt := zero_time,
     lastError := [], probing := False, probeAt := zero_time\<rparr>"

text \<open>Outcomes that are not the server's fault: \<^verbatim>\<open>errors.Is(err, context.Canceled) || IsNotFound(err)\<close>.\<close>

definition not_server_fault :: "go_error \<Rightarrow> bool" where
  "not_server_fault err \<longleftrightarrow> errors_is err Canceled \<or> IsNotFound err"

definition breaker_Failure :: "time \<Rightarrow> go_error option \<Rightarrow> breaker \<Rightarrow> breaker" where
  "breaker_Failure now e b =
     (case e of
        None \<Rightarrow> b
      | Some err \<Rightarrow>
          if not_server_fault err then b
          else let b1 = b\<lparr>probing := False, failures := failures b + 1,
                          lastError := truncateError (error_message err)\<rparr>
               in if threshold b1 \<le> failures b1 \<or> IsAuthFailure err
                  then b1\<lparr>openedAt := (if openedAt b1 = zero_time then now else openedAt b1),
                          retryAt := now + openDuration b1\<rparr>
                  else b1)"

definition breaker_Reset :: "breaker \<Rightarrow> breaker" where
  "breaker_Reset b = breaker_Success b"

definition breaker_State :: "time \<Rightarrow> string \<Rightarrow> breaker \<Rightarrow> breaker_state" where
  "breaker_State now name b =
     (let state = \<lparr>st_Source = name, st_State = ''closed'', st_Failures = failures b,
            st_OpenedAt = zero_time, st_RetryAt = zero_time, st_LastError = lastError b\<rparr>
      in if openedAt b \<noteq> zero_time then
           state\<lparr>st_OpenedAt := openedAt b, st_RetryAt := retryAt b,
                 st_State := (if \<not> now < retryAt b then ''half-open'' else ''open'')\<rparr>
         else if 0 < failures b then state\<lparr>st_State := ''degraded''\<rparr>
         else state)"

text \<open>The nil receiver: it allows everything and records nothing.\<close>

definition Allow_nilsafe :: "time \<Rightarrow> breaker option \<Rightarrow> (bool \<times> string) \<times> breaker option" where
  "Allow_nilsafe now b =
     (case b of None \<Rightarrow> ((True, []), None)
      | Some b \<Rightarrow> (let (r, b') = breaker_Allow now b in (r, Some b')))"

definition State_nilsafe :: "time \<Rightarrow> string \<Rightarrow> breaker option \<Rightarrow> breaker_state" where
  "State_nilsafe now name b =
     (case b of
        None \<Rightarrow> \<lparr>st_Source = name, st_State = ''closed'', st_Failures = 0, st_OpenedAt = zero_time,
                 st_RetryAt = zero_time, st_LastError = []\<rparr>
      | Some b \<Rightarrow> breaker_State now name b)"

section \<open>The registry\<close>

text \<open>
  One breaker per source type, created on first use. The order in which
  \<^verbatim>\<open>States\<close> ranges over the Go map is the argument \<open>names\<close>.
\<close>

type_synonym breakers = "string \<rightharpoonup> breaker"

definition NewBreakers :: breakers where
  "NewBreakers = Map.empty"

definition breakers_Get :: "breakers \<Rightarrow> string \<Rightarrow> breaker \<times> breakers" where
  "breakers_Get r sourceType =
     (case r sourceType of
        Some b \<Rightarrow> (b, r)
      | None \<Rightarrow> (new_breaker, r(sourceType \<mapsto> new_breaker)))"

definition breakers_States :: "time \<Rightarrow> string list \<Rightarrow> breakers \<Rightarrow> breaker_state list" where
  "breakers_States now names r = map (\<lambda>name. breaker_State now name (fst (breakers_Get r name))) names"

definition app_Allow :: "time \<Rightarrow> string \<Rightarrow> breakers \<Rightarrow> (bool \<times> string) \<times> breakers" where
  "app_Allow now sourceType r =
     (let (b, r1) = breakers_Get r sourceType; (answer, b') = breaker_Allow now b
      in (answer, r1(sourceType \<mapsto> b')))"

definition app_Report :: "time \<Rightarrow> string \<Rightarrow> go_error option \<Rightarrow> breakers \<Rightarrow> breakers" where
  "app_Report now sourceType err r =
     (let (b, r1) = breakers_Get r sourceType
      in r1(sourceType \<mapsto> (case err of None \<Rightarrow> breaker_Success b | Some e \<Rightarrow> breaker_Failure now err b)))"

section \<open>Invariant\<close>

text \<open>
  What holds between the fields: a closed breaker carries no wait and no probe and has
  counted fewer failures than its threshold; an open one has counted some; the stored text
  is bounded.
\<close>

definition breaker_ok :: "breaker \<Rightarrow> bool" where
  "breaker_ok b \<longleftrightarrow>
     0 \<le> failures b \<and> length (lastError b) \<le> 203 \<and>
     (openedAt b = zero_time \<longrightarrow> retryAt b = zero_time \<and> \<not> probing b \<and> failures b < threshold b) \<and>
     (openedAt b \<noteq> zero_time \<longrightarrow> 0 < failures b)"

lemma threshold_pos [simp]: "0 < threshold b"
  by (simp add: threshold_def defaultBreakerThreshold_def)

lemma openDuration_pos [simp]: "0 < openDuration b"
  by (simp add: openDuration_def defaultBreakerOpen_def)

lemma config_updates [simp]:
  "threshold (b\<lparr>probing := p\<rparr>) = threshold b" "threshold (b\<lparr>probeAt := t\<rparr>) = threshold b"
  "threshold (b\<lparr>failures := n\<rparr>) = threshold b" "threshold (b\<lparr>lastError := s\<rparr>) = threshold b"
  "threshold (b\<lparr>openedAt := t\<rparr>) = threshold b" "threshold (b\<lparr>retryAt := t\<rparr>) = threshold b"
  "openDuration (b\<lparr>probing := p\<rparr>) = openDuration b" "openDuration (b\<lparr>failures := n\<rparr>) = openDuration b"
  "openDuration (b\<lparr>lastError := s\<rparr>) = openDuration b" "openDuration (b\<lparr>openedAt := t\<rparr>) = openDuration b"
  by (simp_all add: threshold_def openDuration_def)

lemma length_ellipsis [simp]: "length ellipsis = 3"
  by (simp add: ellipsis_def bytes_def)

lemma length_truncateError: "length (truncateError s) \<le> 203"
  using min.coboundedI2 [OF back_to_rune_le [of s 200], of "length s"]
  by (simp add: truncateError_def)

lemma new_breaker_ok [invariants]: "breaker_ok new_breaker"
  by (simp add: breaker_ok_def new_breaker_def threshold_def defaultBreakerThreshold_def)

lemma breaker_Allow_ok [invariants]: "breaker_ok b \<Longrightarrow> breaker_ok (snd (breaker_Allow now b))"
  by (auto simp: breaker_ok_def breaker_Allow_def)

lemma breaker_Success_ok [invariants]: "breaker_ok (breaker_Success b)"
  by (simp add: breaker_ok_def breaker_Success_def threshold_def defaultBreakerThreshold_def)

lemma breaker_Failure_ok [invariants]:
  "breaker_ok b \<Longrightarrow> now \<noteq> zero_time \<Longrightarrow> breaker_ok (breaker_Failure now e b)"
  using length_truncateError
  by (auto simp: breaker_ok_def breaker_Failure_def Let_def not_le split: option.splits)

section \<open>Callers interleaved\<close>

datatype breaker_event = Call time | Succeeded | Failed time go_error | Retried

fun breaker_step :: "breaker \<Rightarrow> breaker_event \<Rightarrow> breaker" where
  "breaker_step b (Call now) = snd (breaker_Allow now b)"
| "breaker_step b Succeeded = breaker_Success b"
| "breaker_step b (Failed now e) = breaker_Failure now (Some e) b"
| "breaker_step b Retried = breaker_Reset b"

text \<open>Every breaker a server run can build, with any configuration and any order of calls.\<close>

inductive breaker_reachable :: "breaker \<Rightarrow> bool" where
  created: "breaker_reachable (new_breaker\<lparr>Threshold := n, OpenDuration := d\<rparr>)"
| called: "breaker_reachable b \<Longrightarrow> breaker_reachable (breaker_step b (Call now))"
| succeeded: "breaker_reachable b \<Longrightarrow> breaker_reachable (breaker_step b Succeeded)"
| failed: "breaker_reachable b \<Longrightarrow> now \<noteq> zero_time \<Longrightarrow>
    breaker_reachable (breaker_step b (Failed now e))"
| retried: "breaker_reachable b \<Longrightarrow> breaker_reachable (breaker_step b Retried)"

lemma configured_breaker_ok: "breaker_ok (new_breaker\<lparr>Threshold := n, OpenDuration := d\<rparr>)"
  using threshold_pos [of "new_breaker\<lparr>Threshold := n, OpenDuration := d\<rparr>"]
  by (simp add: breaker_ok_def new_breaker_def)

lemma reachable_breaker_ok: "breaker_reachable b \<Longrightarrow> breaker_ok b"
  by (induction rule: breaker_reachable.induct)
    (auto intro: configured_breaker_ok invariants simp: breaker_Reset_def)

text \<open>
  The breaker's fields stay consistent under every interleaving of callers, outcomes
  and administrator resets: a closed breaker holds no wait and no probe and has counted
  fewer consecutive failures than its threshold, an open one has counted at least one, and
  the stored error text never exceeds 203 bytes.
\<close>

theorem breaker_fields_consistent:
  assumes "breaker_reachable b"
  shows "0 \<le> failures b \<and> length (lastError b) \<le> 203 \<and>
    (openedAt b = zero_time \<longrightarrow> retryAt b = zero_time \<and> \<not> probing b \<and> failures b < threshold b) \<and>
    (openedAt b \<noteq> zero_time \<longrightarrow> 0 < failures b)"
  using reachable_breaker_ok [OF assms] by (simp add: breaker_ok_def)

lemma breaker_fields_consistent_witness:
  "breaker_reachable (breaker_step new_breaker (Failed 1 (ApiError \<lparr>api_Source = ''gitlab'',
      api_StatusCode = 401, api_Status = ''401'', api_Body = [], api_RetryAfter = 0\<rparr>))) \<and>
   0 < failures (breaker_step new_breaker (Failed 1 (ApiError \<lparr>api_Source = ''gitlab'',
      api_StatusCode = 401, api_Status = ''401'', api_Body = [], api_RetryAfter = 0\<rparr>)))"
  (is "breaker_reachable ?b \<and> _")
proof -
  have "breaker_reachable (new_breaker\<lparr>Threshold := 0, OpenDuration := 0\<rparr>)"
    by (rule breaker_reachable.created)
  then have start: "breaker_reachable new_breaker" by (simp add: new_breaker_def)
  have r: "breaker_reachable ?b"
    by (rule breaker_reachable.failed [OF start]) (simp add: zero_time_def)
  have "openedAt ?b \<noteq> zero_time"
    by (simp add: breaker_Failure_def new_breaker_def not_server_fault_def IsNotFound_def
        IsAuthFailure_def zero_time_def)
  then show ?thesis using breaker_fields_consistent [OF r] r by blast
qed

section \<open>Opening\<close>

text \<open>A failure the breaker counts without opening at once.\<close>

definition counted_failure :: "go_error \<Rightarrow> bool" where
  "counted_failure e \<longleftrightarrow> \<not> not_server_fault e \<and> \<not> IsAuthFailure e"

definition fail_all :: "(time \<times> go_error) list \<Rightarrow> breaker \<Rightarrow> breaker" where
  "fail_all fs b = foldl (\<lambda>b (now, e). breaker_step b (Failed now e)) b fs"

lemma fail_all_closed:
  assumes "openedAt b = zero_time" "\<forall>(now, e) \<in> set fs. now \<noteq> zero_time \<and> counted_failure e"
    and "failures b < threshold b"
  shows "failures (fail_all fs b) = failures b + int (length fs) \<and>
    threshold (fail_all fs b) = threshold b \<and>
    (openedAt (fail_all fs b) \<noteq> zero_time \<longleftrightarrow> threshold b \<le> failures b + int (length fs))"
  using assms(2)
proof (induction fs rule: rev_induct)
  case Nil
  then show ?case using assms by (simp add: fail_all_def)
next
  case (snoc f fs)
  obtain now e where f: "f = (now, e)" by force
  have "fail_all (fs @ [f]) b = breaker_Failure now (Some e) (fail_all fs b)"
    by (simp add: fail_all_def f)
  moreover have "now \<noteq> zero_time" "counted_failure e" using snoc.prems f by auto
  ultimately show ?case
    using snoc by (auto simp: breaker_Failure_def counted_failure_def Let_def)
qed

text \<open>
  C34: From a closed breaker with no failures counted, a run of consecutive failures of the
  server opens it exactly when the run reaches the threshold; one credential failure opens
  it at once.
\<close>

theorem opens_at_threshold:
  assumes "openedAt b = zero_time" and "failures b = 0"
    and "\<forall>(now, e) \<in> set fs. now \<noteq> zero_time \<and> counted_failure e"
    and "now \<noteq> zero_time" and "IsAuthFailure auth" and "\<not> errors_is auth Canceled"
  shows "(openedAt (fail_all fs b) \<noteq> zero_time \<longleftrightarrow> threshold b \<le> int (length fs)) \<and>
    openedAt (breaker_step b (Failed now auth)) \<noteq> zero_time"
  using fail_all_closed [OF assms(1,3)] assms
  by (auto simp: breaker_Failure_def not_server_fault_def Let_def IsNotFound_def IsAuthFailure_def)

lemma opens_at_threshold_witness:
  "openedAt (fail_all (replicate 4 (7, Plain ''connection refused'')) new_breaker) \<noteq> zero_time"
  using opens_at_threshold [of new_breaker "replicate 4 (7, Plain ''connection refused'')" 7
      "ApiError \<lparr>api_Source = [], api_StatusCode = 403, api_Status = [], api_Body = [],
        api_RetryAfter = 0\<rparr>"]
  by (simp add: new_breaker_def counted_failure_def not_server_fault_def IsNotFound_def
      IsAuthFailure_def threshold_def defaultBreakerThreshold_def zero_time_def)

section \<open>Waiting and probing\<close>

fun calls_admitted :: "breaker \<Rightarrow> time list \<Rightarrow> bool list" where
  "calls_admitted b [] = []"
| "calls_admitted b (now # ts) =
     fst (fst (breaker_Allow now b)) # calls_admitted (breaker_step b (Call now)) ts"

lemma outstanding_probe_blocks:
  assumes "openedAt b \<noteq> zero_time" "probing b"
    and "\<forall>t \<in> set ts. time_sub t (probeAt b) < probeTimeout"
  shows "calls_admitted b ts = replicate (length ts) False"
  using assms(3)
proof (induction ts)
  case (Cons t ts)
  then have "breaker_Allow t b = (fst (breaker_Allow t b), b)" "fst (fst (breaker_Allow t b)) = False"
    using assms(1,2) by (simp_all add: breaker_Allow_def)
  then have "breaker_step b (Call t) = b" by (metis breaker_step.simps(1) snd_conv)
  with Cons show ?case using \<open>fst (fst (breaker_Allow t b)) = False\<close> by simp
qed simp

text \<open>
  One probe at a time. Once an open breaker has admitted a call at \<open>now\<close>, every further
  call of a fan-out made less than the probe timeout later is refused for as long as no
  outcome is reported, whatever their number and order.
\<close>

theorem one_probe_at_a_time:
  assumes "openedAt b \<noteq> zero_time" and "fst (fst (breaker_Allow now b))"
    and "\<forall>t \<in> set ts. now \<le> t \<and> t < now + probeTimeout"
  shows "calls_admitted (breaker_step b (Call now)) ts = replicate (length ts) False"
proof -
  have b': "breaker_step b (Call now) = b\<lparr>probing := True, probeAt := now\<rparr>"
    using assms(1,2) by (auto simp: breaker_Allow_def split: if_splits)
  have "\<forall>t \<in> set ts. time_sub t now < probeTimeout"
    using assms(3) by (auto simp: time_sub_def probeTimeout_def)
  then show ?thesis
    unfolding b' using assms(1) by (intro outstanding_probe_blocks) simp_all
qed

lemma one_probe_at_a_time_witness:
  "calls_admitted (breaker_step (new_breaker\<lparr>failures := 4, openedAt := 1, retryAt := 2\<rparr>) (Call 5)) [5, 6, 7]
     = [False, False, False]"
  using one_probe_at_a_time [of "new_breaker\<lparr>failures := 4, openedAt := 1, retryAt := 2\<rparr>" 5 "[5, 6, 7]"]
  by (simp add: breaker_Allow_def new_breaker_def zero_time_def probeTimeout_def numeral_eq_Suc)

text \<open>When a caller or an outcome reads the clock; a success and a reset do not.\<close>

fun event_by :: "time \<Rightarrow> breaker_event \<Rightarrow> bool" where
  "event_by T (Call t) \<longleftrightarrow> t \<le> T"
| "event_by T (Failed t e) \<longleftrightarrow> t \<le> T"
| "event_by T Succeeded \<longleftrightarrow> True"
| "event_by T Retried \<longleftrightarrow> True"

text \<open>What was decided up to a moment: the wait ends an open duration behind it, the probe began before.\<close>

definition settled_by :: "time \<Rightarrow> duration \<Rightarrow> breaker \<Rightarrow> bool" where
  "settled_by T d b \<longleftrightarrow> openDuration b = d \<and> (openedAt b \<noteq> zero_time \<longrightarrow> retryAt b \<le> T + d) \<and> (probing b \<longrightarrow> probeAt b \<le> T)"

lemma settled_step: "settled_by T d b \<Longrightarrow> event_by T e \<Longrightarrow> settled_by T d (breaker_step b e)"
proof (cases e)
  case (Call t)
  assume "settled_by T d b" "event_by T e"
  then show ?thesis using Call by (auto simp: settled_by_def breaker_Allow_def openDuration_def)
next
  case (Failed t err)
  assume b: "settled_by T d b" and "event_by T e"
  then have t: "t \<le> T" using Failed by simp
  have config: "openDuration (breaker_Failure t (Some err) b) = openDuration b"
    by (simp add: breaker_Failure_def Let_def openDuration_def)
  show ?thesis using b t config Failed by (auto simp: settled_by_def breaker_Failure_def Let_def)
qed (auto simp: settled_by_def breaker_Reset_def breaker_Success_def openDuration_def)

lemma settled_history:
  "settled_by T d b \<Longrightarrow> \<forall>e \<in> set hs. event_by T e \<Longrightarrow> settled_by T d (foldl breaker_step b hs)"
  by (induction hs arbitrary: b) (simp_all add: settled_step)

lemma settled_admits:
  assumes "settled_by T d b" "T + max d probeTimeout \<le> now"
  shows "fst (fst (breaker_Allow now b))"
  using assms by (auto simp: settled_by_def breaker_Allow_def time_sub_def probeTimeout_def)

text \<open>A refused call changes nothing, so callers that keep asking do not put off the next try.\<close>

lemma refused_call_keeps: "\<not> fst (fst (breaker_Allow t b)) \<Longrightarrow> breaker_step b (Call t) = b"
  by (auto simp: breaker_Allow_def split: if_splits)

lemma refused_then_admitted:
  "fst (fst (breaker_Allow now b)) \<Longrightarrow> True \<in> set (calls_admitted b (ts @ [now]))"
proof (induction ts)
  case (Cons t ts)
  then show ?case by (cases "fst (fst (breaker_Allow t b))") (simp_all add: refused_call_keeps del: breaker_step.simps)
qed simp

text \<open>
  C33: no breaker stays shut for good. Take a breaker with any configuration and any history of calls,
  outcomes and resets up to a moment, probes whose outcome was never reported included, and then
  callers that only ask, at any times and however often. By the time the wait and the probe timeout
  have passed since that moment, one of them has been let through to the server.
\<close>

theorem breaker_recovers:
  assumes "b = new_breaker\<lparr>Threshold := n, OpenDuration := d\<rparr>" "\<forall>e \<in> set hs. event_by T e"
    and "T + max (openDuration b) probeTimeout \<le> now"
  shows "True \<in> set (calls_admitted (foldl breaker_step b hs) (ts @ [now]))"
proof -
  have "settled_by T (openDuration b) b" by (simp add: settled_by_def assms(1) new_breaker_def)
  then have "settled_by T (openDuration b) (foldl breaker_step b hs)" using assms(2) by (rule settled_history)
  then show ?thesis using assms(3) by (intro refused_then_admitted settled_admits)
qed

lemma breaker_recovers_witness:
  "True \<in> set (calls_admitted (foldl breaker_step (new_breaker\<lparr>Threshold := 1, OpenDuration := 0\<rparr>)
     [Failed 5 (Plain ''connection refused''), Call (40 * second)]) ([41 * second, 50 * second] @ [100 * second]))"
  by (rule breaker_recovers [where T = "40 * second", OF refl])
    (simp_all add: probeTimeout_def openDuration_def defaultBreakerOpen_def)

text \<open>
  What the administration screen shows is what callers get. At any moment the reported
  state is "open" exactly when calls are refused because the wait has not elapsed; in a
  "closed" or "degraded" state they are admitted; "half-open" admits one unless a probe is
  outstanding.
\<close>

theorem state_agrees_with_allow:
  "(st_State (breaker_State now name b) = ''open'' \<longleftrightarrow>
      openedAt b \<noteq> zero_time \<and> now < retryAt b) \<and>
   (st_State (breaker_State now name b) = ''open'' \<longrightarrow> \<not> fst (fst (breaker_Allow now b))) \<and>
   (st_State (breaker_State now name b) \<in> {''closed'', ''degraded''} \<longrightarrow>
      fst (fst (breaker_Allow now b))) \<and>
   (st_State (breaker_State now name b) = ''half-open'' \<longrightarrow>
      (fst (fst (breaker_Allow now b)) \<longleftrightarrow>
       \<not> (probing b \<and> time_sub now (probeAt b) < probeTimeout)))"
  by (auto simp: breaker_State_def breaker_Allow_def Let_def)

lemma state_agrees_with_allow_witness:
  "st_State (breaker_State 5 ''gitlab'' (new_breaker\<lparr>openedAt := 1, retryAt := 9\<rparr>)) = ''open'' \<and>
   \<not> fst (fst (breaker_Allow 5 (new_breaker\<lparr>openedAt := 1, retryAt := 9\<rparr>)))"
  using state_agrees_with_allow [of 5 "''gitlab''" "new_breaker\<lparr>openedAt := 1, retryAt := 9\<rparr>"]
  by (simp add: zero_time_def)

section \<open>The interface the indexing worker uses\<close>

text \<open>
  What a client may rely on of \<^verbatim>\<open>SourceHealth\<close>: a paused source refuses calls and says
  why; asking never resumes or pauses anything; a report about one source leaves the others
  alone; a success resumes the source; an outcome that is not the server's fault changes
  nothing; a credential failure pauses it at once.
\<close>

locale source_health =
  fixes allow :: "time \<Rightarrow> string \<Rightarrow> 'h \<Rightarrow> (bool \<times> string) \<times> 'h"
    and report :: "time \<Rightarrow> string \<Rightarrow> go_error option \<Rightarrow> 'h \<Rightarrow> 'h"
    and paused :: "'h \<Rightarrow> string \<Rightarrow> time \<Rightarrow> bool"
  assumes allow_paused: "paused h src now \<Longrightarrow> fst (allow now src h) = (False, reason) \<Longrightarrow> reason \<noteq> []"
    and refuse_paused: "paused h src now \<Longrightarrow> \<not> fst (fst (allow now src h))"
    and allow_keeps: "paused (snd (allow now src h)) src' t = paused h src' t"
    and report_other: "src' \<noteq> src \<Longrightarrow> paused (report now src outcome h) src' t = paused h src' t"
    and report_success: "\<not> paused (report now src None h) src t"
    and report_ignored: "not_server_fault e \<Longrightarrow> paused (report now src (Some e) h) src' t = paused h src' t"
    and report_auth: "IsAuthFailure e \<Longrightarrow> \<not> errors_is e Canceled \<Longrightarrow> now \<noteq> zero_time \<Longrightarrow>
          paused (report now src (Some e) h) src now"

definition breaker_paused :: "breakers \<Rightarrow> string \<Rightarrow> time \<Rightarrow> bool" where
  "breaker_paused r src now \<longleftrightarrow>
     (case r src of None \<Rightarrow> False | Some b \<Rightarrow> openedAt b \<noteq> zero_time \<and> now < retryAt b)"

lemma breakers_Get_same: "snd (breakers_Get r src) src = Some (fst (breakers_Get r src))"
  by (simp add: breakers_Get_def split: option.split)

lemma breakers_Get_other: "src' \<noteq> src \<Longrightarrow> snd (breakers_Get r src) src' = r src'"
  by (simp add: breakers_Get_def split: option.split)

lemma paused_message_ne: "paused_message n e d \<noteq> []"
  by (simp add: paused_message_def bytes_def)

lemma Allow_refused_reason:
  "breaker_Allow now b = ((False, reason), b') \<Longrightarrow> reason \<noteq> [] \<and> b' = b"
  using paused_message_ne
  by (auto simp: breaker_Allow_def probing_message_def bytes_def split: if_splits)

lemma app_Allow_def2:
  "app_Allow now src r =
     (let b = (case r src of None \<Rightarrow> new_breaker | Some b \<Rightarrow> b)
      in (fst (breaker_Allow now b), r(src \<mapsto> snd (breaker_Allow now b))))"
  by (simp add: app_Allow_def breakers_Get_def Let_def split: option.split prod.split)

lemma app_Report_def2:
  "app_Report now src e r =
     (let b = (case r src of None \<Rightarrow> new_breaker | Some b \<Rightarrow> b)
      in r(src \<mapsto> (case e of None \<Rightarrow> breaker_Success b | Some _ \<Rightarrow> breaker_Failure now e b)))"
  by (simp add: app_Report_def breakers_Get_def Let_def split: option.split)

interpretation breakers: source_health app_Allow app_Report breaker_paused
proof
  fix h src src' now t outcome reason
  show "breaker_paused h src now \<Longrightarrow> fst (app_Allow now src h) = (False, reason) \<Longrightarrow> reason \<noteq> []"
    using Allow_refused_reason [of now _ reason]
    by (auto simp: app_Allow_def2 Let_def breaker_paused_def split: option.splits)
      (metis prod.collapse)+
  show "breaker_paused h src now \<Longrightarrow> \<not> fst (fst (app_Allow now src h))"
    by (auto simp: app_Allow_def2 Let_def breaker_paused_def breaker_Allow_def split: option.splits)
  show "breaker_paused (snd (app_Allow now src h)) src' t = breaker_paused h src' t"
    by (auto simp: app_Allow_def2 Let_def breaker_paused_def breaker_Allow_def new_breaker_def
        split: option.splits)
  show "src' \<noteq> src \<Longrightarrow> breaker_paused (app_Report now src outcome h) src' t = breaker_paused h src' t"
    by (simp add: app_Report_def2 Let_def breaker_paused_def)
  show "\<not> breaker_paused (app_Report now src None h) src t"
    by (simp add: app_Report_def2 Let_def breaker_paused_def breaker_Success_def)
next
  fix h :: breakers and src src' now t e
  show "not_server_fault e \<Longrightarrow>
      breaker_paused (app_Report now src (Some e) h) src' t = breaker_paused h src' t"
    by (auto simp: app_Report_def2 Let_def breaker_paused_def breaker_Failure_def new_breaker_def
        split: option.splits)
  show "IsAuthFailure e \<Longrightarrow> \<not> errors_is e Canceled \<Longrightarrow> now \<noteq> zero_time \<Longrightarrow>
      breaker_paused (app_Report now src (Some e) h) src now"
    by (auto simp: app_Report_def2 Let_def breaker_paused_def breaker_Failure_def not_server_fault_def
        IsAuthFailure_def IsNotFound_def)
qed

end
