(* ===== verification/NetClient.thy ===== *)
theory NetClient
  imports GoErrors
begin

text \<open>
  Retry windows and endpoint paths of the shared HTTP layer:
  \<^verbatim>\<open>internal/netclient/retry.go\<close>, \<^verbatim>\<open>endpoint.go\<close> and the bound on attempts of
  \<^verbatim>\<open>internal/source/transport.go\<close>. A response header is the function that
  \<^verbatim>\<open>http.Header.Get\<close> computes (the empty string for an absent field);
  \<^verbatim>\<open>http.ParseTime\<close>, which reads an HTTP date, is the argument \<open>parse_time\<close>.
\<close>

section \<open>Retry delay\<close>

type_synonym http_header = "string \<Rightarrow> string"

definition MaxRetryHint :: duration where
  "MaxRetryHint = 30 * second"

definition epochSeconds :: int where
  "epochSeconds = 1000000000"

definition MaxAttempts :: int where
  "MaxAttempts = 3"

definition remaining :: "time \<Rightarrow> time \<Rightarrow> duration" where
  "remaining now when = (if 0 < time_sub when now then time_sub when now else 0)"

definition resetHint :: "(string \<Rightarrow> time option) \<Rightarrow> http_header \<Rightarrow> time \<Rightarrow> duration option" where
  "resetHint parse_time header now =
     (let retry = trim_space (header ''Retry-After'');
          reset = trim_space (header ''RateLimit-Reset'');
          reset_time = trim_space (header ''RateLimit-ResetTime'');
          from_retry =
            (if retry = [] then None
             else case atoi retry of
                    Some seconds \<Rightarrow>
                      if 0 \<le> seconds then Some (wrap64 (seconds * second))
                      else map_option (remaining now) (parse_time retry)
                  | None \<Rightarrow> map_option (remaining now) (parse_time retry));
          from_reset =
            (if reset = [] then None
             else case atoi reset of
                    Some seconds \<Rightarrow>
                      if 0 \<le> seconds then
                        Some (if epochSeconds < seconds then remaining now (seconds * second)
                              else wrap64 (seconds * second))
                      else None
                  | None \<Rightarrow> None)
      in case from_retry of
           Some d \<Rightarrow> Some d
         | None \<Rightarrow> (case from_reset of
             Some d \<Rightarrow> Some d
           | None \<Rightarrow> (if reset_time = [] then None
                      else map_option (remaining now) (parse_time reset_time))))"

text \<open>
  \<^verbatim>\<open>time.Duration(math.Pow(2, float64(attempt)))\<close>: a power below 1 is truncated to 0; from
  2^63 on the conversion leaves the range and yields the smallest integer on amd64.
\<close>

definition pow2_duration :: "int \<Rightarrow> duration" where
  "pow2_duration attempt =
     (if attempt < 0 then 0 else if attempt < 63 then 2 ^ nat attempt else min_int64)"

definition backoff :: "int \<Rightarrow> duration" where
  "backoff attempt =
     (let d = wrap64 (pow2_duration attempt * (250 * millisecond))
      in if 5 * second < d then 5 * second else d)"

definition RetryDelay ::
  "(string \<Rightarrow> time option) \<Rightarrow> time \<Rightarrow> http_header option \<Rightarrow> int \<Rightarrow> duration" where
  "RetryDelay parse_time now response attempt =
     (case response of
        None \<Rightarrow> backoff attempt
      | Some header \<Rightarrow>
          (case resetHint parse_time header now of
             None \<Rightarrow> backoff attempt
           | Some hint \<Rightarrow>
               if hint \<le> backoff attempt then backoff attempt
               else if MaxRetryHint < hint then MaxRetryHint
               else hint))"

lemma small_product: "1 \<le> p \<Longrightarrow> p \<le> 1048576 \<Longrightarrow> wrap64 (p * 250000000) = p * 250000000"
  by (intro wrap64_id) simp_all

lemma backoff_bounds:
  assumes "0 \<le> attempt" "attempt \<le> 20"
  shows "250 * millisecond \<le> backoff attempt \<and> backoff attempt \<le> 5 * second"
proof -
  have "(1::int) \<le> 2 ^ nat attempt" by simp
  moreover have "(2::int) ^ nat attempt \<le> 2 ^ 20"
    using assms by (intro power_increasing) simp_all
  ultimately have p: "(1::int) \<le> 2 ^ nat attempt" "(2::int) ^ nat attempt \<le> 2 ^ 20"
    by blast+
  then have "wrap64 (2 ^ nat attempt * 250000000) = 2 ^ nat attempt * 250000000"
    by (intro small_product) simp_all
  then show ?thesis
    using assms p by (simp add: backoff_def pow2_duration_def Let_def)
qed

text \<open>
  The wait before the next attempt is bounded. For every attempt number the adapters
  use, and whatever the server's headers say, it is at least a quarter of a second and at
  most 30 seconds, and without a usable header it is the local backoff.
\<close>

theorem RetryDelay_bounds:
  assumes "0 \<le> attempt" and "attempt \<le> MaxAttempts"
  shows "250 * millisecond \<le> RetryDelay parse_time now response attempt \<and>
    RetryDelay parse_time now response attempt \<le> MaxRetryHint \<and>
    RetryDelay parse_time now None attempt = backoff attempt"
  using backoff_bounds [of attempt] assms
  by (auto simp: RetryDelay_def MaxRetryHint_def MaxAttempts_def split: option.splits)

lemma RetryDelay_bounds_witness:
  "250 * millisecond \<le> RetryDelay (\<lambda>_. None) 0 (Some (\<lambda>_. ''60'')) 2"
  using RetryDelay_bounds [of 2 "\<lambda>_. None" 0 "Some (\<lambda>_. ''60'')"] by (simp add: MaxAttempts_def)

text \<open>
  A window the server names is honoured. If Retry-After is a number of seconds of at
  most 30 the wait is never shorter than it, and if it is larger, up to the largest delay a
  64-bit Duration can hold, the wait is the cap.
\<close>

theorem RetryDelay_honours_retry_after:
  assumes "0 \<le> attempt" and "attempt \<le> MaxAttempts"
    and "trim_space (header ''Retry-After'') \<noteq> []"
    and "atoi (trim_space (header ''Retry-After'')) = Some s" and "0 \<le> s" and "s * second \<le> max_int64"
  shows "(s \<le> 30 \<longrightarrow> s * second \<le> RetryDelay parse_time now (Some header) attempt) \<and>
    (30 < s \<longrightarrow> RetryDelay parse_time now (Some header) attempt = MaxRetryHint)"
proof -
  have "wrap64 (s * second) = s * second" using assms(5,6) by (intro wrap64_id) simp_all
  then have "resetHint parse_time header now = Some (s * second)"
    using assms(3-5) by (simp add: resetHint_def)
  then show ?thesis
    using backoff_bounds [of attempt] assms(1,2)
    by (simp add: RetryDelay_def MaxRetryHint_def MaxAttempts_def)
qed

lemma RetryDelay_honours_retry_after_witness:
  "RetryDelay (\<lambda>_. None) 0 (Some (\<lambda>_. ''45'')) 0 = MaxRetryHint"
proof -
  have "trim_space ''45'' = ''45''"
    by (rule trim_space_visible) (simp_all add: visible_def)
  moreover have "atoi ''45'' = Some 45"
    by (simp add: atoi_def is_digit_def digits_val_def digit_val_def)
  ultimately show ?thesis
    using RetryDelay_honours_retry_after [of 0 "\<lambda>_. ''45''" 45] by (simp add: MaxAttempts_def)
qed

text \<open>
  The cap does not cover a number that overflows. A Retry-After of 9223372037 seconds
  is a valid integer, but multiplied into a 64-bit Duration it wraps to a negative hint, so
  the client waits only its local backoff instead of the 30 second cap.
\<close>

theorem retry_after_overflow:
  "RetryDelay parse_time now (Some (\<lambda>k. if k = ''Retry-After'' then itoa 9223372037 else [])) 0
     = 250 * millisecond"
proof -
  have digits: "itoa 9223372037 = ''9223372037''"
    by (simp add: itoa_def itoa_nat.simps)
  have "trim_space ''9223372037'' = ''9223372037''"
    by (rule trim_space_visible) (simp_all add: visible_def)
  moreover have "atoi ''9223372037'' = Some 9223372037"
    using atoi_itoa [of 9223372037] by (simp add: digits)
  ultimately have "resetHint parse_time
      (\<lambda>k. if k = ''Retry-After'' then itoa 9223372037 else []) now
      = Some (wrap64 (9223372037 * second))"
    by (simp add: resetHint_def digits)
  then show ?thesis
    by (simp add: RetryDelay_def backoff_def pow2_duration_def wrap64_def)
qed

section \<open>Endpoint paths\<close>

text \<open>
  The loop tries ever longer prefixes of the path's segments; \<open>done\<close> are the segments
  already tried, \<open>rest\<close> those to come.
\<close>

fun join_from :: "string \<Rightarrow> string list \<Rightarrow> string list \<Rightarrow> string option" where
  "join_from trimmed done [] = None"
| "join_from trimmed done (seg # rest) =
     (if has_suffix trimmed (''/'' @ join_with ''/'' (done @ [seg]))
      then Some (if rest = [] then trimmed else trimmed @ ''/'' @ join_with ''/'' rest)
      else join_from trimmed (done @ [seg]) rest)"

definition JoinAPIPath :: "string \<Rightarrow> string \<Rightarrow> string" where
  "JoinAPIPath base path =
     (let trimmed = trim_suffix (trim_space base) ''/'';
          segments = split_on CHR ''/'' (trim_chars path ''/'')
      in case join_from trimmed [] segments of
           Some url \<Rightarrow> url
         | None \<Rightarrow> trimmed @ ''/'' @ join_with ''/'' segments)"

lemma join_with_append:
  "xs \<noteq> [] \<Longrightarrow> ys \<noteq> [] \<Longrightarrow> join_with sep (xs @ ys) = join_with sep xs @ sep @ join_with sep ys"
proof (induction xs)
  case (Cons x xs)
  then show ?case by (cases "xs = []") (simp_all add: join_with_Cons)
qed simp

lemma join_from_suffix:
  assumes "join_from trimmed done rest = Some url"
  shows "has_suffix url (''/'' @ join_with ''/'' (done @ rest))"
  using assms
proof (induction trimmed "done" rest rule: join_from.induct)
  case (2 trimmed done' seg rest)
  show ?case
  proof (cases "has_suffix trimmed (''/'' @ join_with ''/'' (done' @ [seg]))")
    case True
    then obtain pre where pre: "trimmed = pre @ ''/'' @ join_with ''/'' (done' @ [seg])"
      by (auto simp: suffix_def)
    show ?thesis
    proof (cases "rest = []")
      case False
      then have "join_with ''/'' (done' @ seg # rest) =
          join_with ''/'' (done' @ [seg]) @ ''/'' @ join_with ''/'' rest"
        using join_with_append [of "done' @ [seg]" rest "''/''"] by simp
      then show ?thesis using 2 True False pre by (auto simp: suffix_def)
    qed (use 2 True in auto)
  qed (use 2 in auto)
qed simp

text \<open>
  The resulting URL always ends in the whole API path, whichever part of it the operator
  had already typed into the base URL: no path segment is lost.
\<close>

theorem JoinAPIPath_ends_in_path:
  "has_suffix (JoinAPIPath base path) (''/'' @ trim_chars path ''/'')"
proof -
  let ?segs = "split_on CHR ''/'' (trim_chars path ''/'')"
  have "join_with ''/'' ?segs = trim_chars path ''/''" by simp
  then show ?thesis
    using join_from_suffix [of "trim_suffix (trim_space base) ''/''" "[]" ?segs]
    by (auto simp: JoinAPIPath_def Let_def suffix_def split: option.split)
qed

text \<open>
  A segment that was already typed is not repeated. If the trimmed base URL ends in the
  first segments of the path, and no shorter run of first segments ends it, only the rest
  of the path is appended.
\<close>

theorem JoinAPIPath_no_repeat:
  assumes "split_on CHR ''/'' (trim_chars path ''/'') = xs @ ys" and "xs \<noteq> []" and "ys \<noteq> []"
    and "has_suffix (trim_suffix (trim_space base) ''/'') (''/'' @ join_with ''/'' xs)"
    and "\<forall>k. 0 < k \<and> k < length xs \<longrightarrow>
      \<not> has_suffix (trim_suffix (trim_space base) ''/'') (''/'' @ join_with ''/'' (take k xs))"
  shows "JoinAPIPath base path = trim_suffix (trim_space base) ''/'' @ ''/'' @ join_with ''/'' ys"
proof -
  let ?t = "trim_suffix (trim_space base) ''/''"
  have step: "join_from ?t done' (rest @ ys) = Some (?t @ ''/'' @ join_with ''/'' ys)"
    if "xs = done' @ rest" "rest \<noteq> []" for done' rest
    using that
  proof (induction rest arbitrary: done')
    case (Cons seg rest)
    show ?case
    proof (cases "rest = []")
      case True
      then show ?thesis using Cons.prems assms(3,4) by simp
    next
      case False
      then have k: "length (done' @ [seg]) < length xs" "take (length (done' @ [seg])) xs = done' @ [seg]"
        using Cons.prems by simp_all
      then have "\<not> has_suffix ?t (''/'' @ join_with ''/'' (done' @ [seg]))"
        using assms(5) by (metis length_greater_0_conv snoc_eq_iff_butlast)
      then show ?thesis using Cons.IH [of "done' @ [seg]"] Cons.prems False by simp
    qed
  qed simp
  show ?thesis
    using step [of "[]" xs] assms(1,2) by (simp add: JoinAPIPath_def)
qed

theorem JoinAPIPath_no_repeat_witness:
  "JoinAPIPath ''h/api'' ''/api/v3'' = trim_suffix (trim_space ''h/api'') ''/'' @ ''/''
     @ join_with ''/'' [''v3'']"
proof (rule JoinAPIPath_no_repeat [where xs = "[''api'']"])
  have "trim_space ''h/api'' = ''h/api''" by (rule trim_space_visible) (simp_all add: visible_def)
  then show "has_suffix (trim_suffix (trim_space ''h/api'') ''/'')
      (''/'' @ join_with ''/'' [''api''])"
    by (simp add: trim_suffix_def suffix_def)
qed (simp_all add: trim_chars_def trim_left_def trim_right_def)

end
