(* ===== verification/ResponseBudget.thy ===== *)
theory ResponseBudget
  imports Prelude
begin

text \<open>
  Cutting a tool answer to its byte budget: \<^verbatim>\<open>internal/mcp/budget.go\<close>, with
  \<^verbatim>\<open>runeSafeCut\<close> of \<^verbatim>\<open>internal/mcp/audit.go\<close>. A visit function called on every line is
  the list of the lines with the offset of the newline before each one (-1 for the first).
\<close>

section \<open>Lines and fences\<close>

definition newline :: char where
  "newline = CHR 0x0A"

definition backtick :: char where
  "backtick = CHR ''`''"

fun lines_from :: "int \<Rightarrow> string list \<Rightarrow> (int \<times> string) list" where
  "lines_from start [] = []"
| "lines_from start (line # ls) = (start - 1, line) # lines_from (start + int (length line) + 1) ls"

definition eachLine :: "string \<Rightarrow> (int \<times> string) list" where
  "eachLine text = lines_from 0 (split_on newline text)"

definition lineFence :: "nat \<Rightarrow> string \<Rightarrow> nat" where
  "lineFence fence line =
     (let trimmed = trim_left line '' '' in
      if 3 < length line - length trimmed then fence
      else let run = length (takeWhile (\<lambda>c. c = backtick) trimmed) in
      if fence = 0 then
        (if 3 \<le> run \<and> \<not> contains_str (drop run trimmed) [backtick] then run else 0)
      else if fence \<le> run \<and> trim_chars (drop run trimmed) ('' '' @ [CHR 0x09, CHR 0x0D]) = [] then 0
      else fence)"

fun unfenced_from :: "nat \<Rightarrow> (int \<times> string) list \<Rightarrow> (int \<times> string) list" where
  "unfenced_from fence [] = []"
| "unfenced_from fence ((at, line) # ls) =
     (if fence = 0 \<and> 0 \<le> at then [(at, line)] else []) @ unfenced_from (lineFence fence line) ls"

definition unfencedLines :: "string \<Rightarrow> (int \<times> string) list" where
  "unfencedLines text = unfenced_from 0 (eachLine text)"

definition countUnfenced :: "string \<Rightarrow> string \<Rightarrow> nat" where
  "countUnfenced text p = length (filter (\<lambda>entry. has_prefix (snd entry) p) (unfencedLines text))"

definition lastUnfenced :: "string \<Rightarrow> string \<Rightarrow> int" where
  "lastUnfenced text p =
     foldl (\<lambda>found entry. if has_prefix (snd entry) p then fst entry else found) (-1) (unfencedLines text)"

definition closeOpenFence :: "string \<Rightarrow> string" where
  "closeOpenFence text =
     (let fence = foldl lineFence 0 (split_on newline text)
      in if 0 < fence then text @ [newline] @ replicate fence backtick else text)"

section \<open>Sections\<close>

definition fencesContent :: "string \<Rightarrow> bool" where
  "fencesContent tool \<longleftrightarrow> tool = ''read-file'' \<or> tool = ''get-symbol-context''"

definition codeSearchHits :: "string \<Rightarrow> nat option" where
  "codeSearchHits text =
     (if \<not> has_prefix text (''## Code Search'' @ [newline]) then None
      else index_str text ([newline] @ ''### Source Matches (''))"

definition sectionCount :: "string \<Rightarrow> string \<Rightarrow> nat" where
  "sectionCount tool text =
     (let hits = (case codeSearchHits text of
                    None \<Rightarrow> 0 | Some at \<Rightarrow> count_str (drop at text) ([newline] @ ''#### ''))
      in if 0 < hits then hits
         else if \<not> fencesContent tool then
           (let count = count_str text ([newline] @ ''### '')
            in if 0 < count then count else count_str text ([newline] @ ''- ''))
         else (let count = countUnfenced text ''### ''
               in if 0 < count then count else countUnfenced text ''- ''))"

text \<open>The pair is the last heading and the last Notes heading seen.\<close>

fun notes_visit :: "int \<times> int \<Rightarrow> int \<times> string \<Rightarrow> int \<times> int" where
  "notes_visit (latest, found) (at, line) =
     (if \<not> has_prefix line ''### '' then (latest, found)
      else (at, if line = ''### Notes'' then at else found))"

definition notesSection :: "string \<Rightarrow> string \<Rightarrow> int" where
  "notesSection tool text =
     (let (latest, found) = foldl notes_visit (-1, -1)
            (if fencesContent tool then unfencedLines text
             else filter (\<lambda>entry. 0 \<le> fst entry) (eachLine text))
      in if 0 \<le> found \<and> found = latest then found else -1)"

section \<open>Cutting\<close>

definition runeSafeCut :: "string \<Rightarrow> int \<Rightarrow> string" where
  "runeSafeCut value limit =
     (if limit \<le> 0 then []
      else if int (length value) \<le> limit then value
      else take (back_to_rune value (nat limit)) value)"

definition enough :: "int \<Rightarrow> int \<Rightarrow> bool" where
  "enough limit at \<longleftrightarrow> 0 < at \<and> limit * 6 \<le> at * 10"

definition index_or_minus1 :: "nat option \<Rightarrow> int" where
  "index_or_minus1 i = (case i of None \<Rightarrow> -1 | Some n \<Rightarrow> int n)"

text \<open>The candidate boundaries in the order the code tries them.\<close>

definition hit_boundary :: "string \<Rightarrow> int" where
  "hit_boundary window =
     (case codeSearchHits window of
        None \<Rightarrow> -1
      | Some hits \<Rightarrow> (case last_index_str (drop hits window) ([newline] @ ''#### '') of
          None \<Rightarrow> -1 | Some at \<Rightarrow> int (hits + at)))"

definition section_boundary :: "string \<Rightarrow> string \<Rightarrow> int" where
  "section_boundary tool window =
     (if fencesContent tool then lastUnfenced window ''### ''
      else index_or_minus1 (last_index_str window ([newline] @ ''### '')))"

definition boundaries :: "string \<Rightarrow> string \<Rightarrow> int list" where
  "boundaries tool window =
     [hit_boundary window, section_boundary tool window,
      index_or_minus1 (last_index_str window [newline, newline]),
      index_or_minus1 (last_index_str window [newline])]"

definition cutAtBoundary :: "string \<Rightarrow> string \<Rightarrow> int \<Rightarrow> string" where
  "cutAtBoundary tool text limit =
     (if int (length text) \<le> limit then text
      else case List.find (enough limit) (boundaries tool (take (nat limit) text)) of
             Some at \<Rightarrow> take (nat at) text
           | None \<Rightarrow> runeSafeCut text limit)"

section \<open>The answer\<close>

definition MinResponseBytes :: int where
  "MinResponseBytes = 2000"

definition MaxResponseBytes :: int where
  "MaxResponseBytes = 262144"

definition DefaultResponseBytes :: int where
  "DefaultResponseBytes = 24576"

definition responseNoticeBytes :: int where
  "responseNoticeBytes = 320"

fun commas :: "string \<Rightarrow> string" where
  "commas [] = []"
| "commas [d] = [d]"
| "commas (d # ds) = (if length ds mod 3 = 0 then d # CHR '','' # commas ds else d # commas ds)"

definition thousands :: "int \<Rightarrow> string" where
  "thousands value = commas (itoa value)"

definition truncation_notice :: "int \<Rightarrow> nat \<Rightarrow> nat \<Rightarrow> nat \<Rightarrow> string" where
  "truncation_notice budget produced shown entries =
     [newline, newline] @ ''### Truncated'' @ [newline]
     @ ''- This answer was cut to the '' @ thousands budget @ '' byte budget of this tool; ''
     @ thousands (int produced) @ '' bytes were produced.'' @ [newline]
     @ (if 0 < entries then
          ''- '' @ itoa (int shown) @ '' of '' @ itoa (int entries)
          @ '' result sections are included. The rest are not lost, only unsent.'' @ [newline]
        else [])
     @ ''- Narrow the next call instead of retrying the same one: add libraryId or path, lower limit, or read a line range with read-file.''
     @ [newline]"

text \<open>The body and the Notes tail that keeps its reservation.\<close>

definition split_notes :: "string \<Rightarrow> string \<Rightarrow> int \<Rightarrow> string \<times> string" where
  "split_notes tool text budget =
     (let at = notesSection tool text;
          (body, notes) = (if 0 \<le> at then (take (nat at) text, drop (nat at) text) else (text, []))
      in if budget div 3 < int (length notes) then (text, []) else (body, notes))"

definition body_room :: "int \<Rightarrow> string \<Rightarrow> int" where
  "body_room budget notes =
     (let room = budget - int (length notes) - responseNoticeBytes
      in if room < MinResponseBytes div 2 then budget div 2 else room)"

definition clampResponse :: "string \<Rightarrow> string \<Rightarrow> int \<Rightarrow> string" where
  "clampResponse tool text budget =
     (if budget \<le> 0 \<or> int (length text) \<le> budget then text
      else let (body, notes) = split_notes tool text budget;
               entries = sectionCount tool body;
               kept = cutAtBoundary tool body (body_room budget notes);
               shown = sectionCount tool kept
           in closeOpenFence (trim_right kept [newline])
              @ truncation_notice budget (length text) shown entries @ notes)"

section \<open>Facts about lines\<close>

lemma hd_split_prefix: "prefix (hd (split_on c s)) s"
  by (induction s) (auto split: list.splits)

lemma split_on_append_seps:
  "split_on c (u @ v) = butlast (split_on c u)
     @ (last (split_on c u) @ hd (split_on c v)) # tl (split_on c v)"
proof (induction u)
  case Nil
  then show ?case by (cases "split_on c v") auto
next
  case (Cons x xs)
  have "split_on c xs \<noteq> []" by simp
  then obtain w ws where w: "split_on c xs = w # ws" by (cases "split_on c xs") auto
  then show ?case using Cons by (cases ws) auto
qed

text \<open>Every line but the first follows a newline at the offset it is visited with.\<close>

lemma lines_from_tl:
  assumes "(at, line) \<in> set (tl (lines_from start (split_on c s)))"
  shows "start \<le> at \<and> nat (at - start) < length s \<and> s ! nat (at - start) = c
         \<and> prefix line (drop (Suc (nat (at - start))) s)"
  using assms
proof (induction s arbitrary: start)
  case (Cons x xs)
  obtain w ws where w: "split_on c xs = w # ws" by (cases "split_on c xs") auto
  have shift: ?case if "(at, line) \<in> set (tl (lines_from (start + 1) (split_on c xs)))"
  proof -
    from Cons.IH [OF that]
    have le: "start + 1 \<le> at" and rest: "nat (at - (start + 1)) < length xs"
      "xs ! nat (at - (start + 1)) = c" "prefix line (drop (Suc (nat (at - (start + 1)))) xs)"
      by blast+
    have "nat (at - start) = Suc (nat (at - (start + 1)))" using le by linarith
    with le rest show ?thesis by simp
  qed
  show ?case
  proof (cases "x = c")
    case True
    with Cons.prems w consider "at = start" "line = w"
      | "(at, line) \<in> set (tl (lines_from (start + 1) (split_on c xs)))" by auto
    then show ?thesis
    proof cases
      case 1
      then show ?thesis using True hd_split_prefix [of c xs] w by simp
    qed (rule shift)
  next
    case False
    with Cons.prems w show ?thesis by (intro shift) (simp add: add.assoc algebra_simps)
  qed
qed simp

lemma eachLine_at:
  assumes "(at, line) \<in> set (eachLine s)" "0 \<le> at"
  shows "nat at < length s \<and> s ! nat at = newline \<and> prefix (newline # line) (drop (nat at) s)"
proof -
  obtain w ws where w: "split_on newline s = w # ws" by (cases "split_on newline s") auto
  then have "(at, line) \<in> set (tl (lines_from 0 (split_on newline s)))"
    using assms by (auto simp: eachLine_def)
  from lines_from_tl [OF this]
  have "nat at < length s" "s ! nat at = newline" "prefix line (drop (Suc (nat at)) s)" by auto
  moreover from this have "drop (nat at) s = newline # drop (Suc (nat at)) s"
    by (metis Cons_nth_drop_Suc)
  ultimately show ?thesis by simp
qed

lemma unfenced_subset: "e \<in> set (unfenced_from f ls) \<Longrightarrow> e \<in> set ls \<and> 0 \<le> fst e"
  by (induction f ls rule: unfenced_from.induct) (auto split: if_splits)

lemma unfencedLines_at:
  "(at, line) \<in> set (unfencedLines s) \<Longrightarrow>
     nat at < length s \<and> s ! nat at = newline \<and> prefix (newline # line) (drop (nat at) s)"
  using unfenced_subset [of "(at, line)"] eachLine_at by (fastforce simp: unfencedLines_def)

lemma foldl_found:
  "foldl (\<lambda>found entry. if P entry then f entry else found) d xs \<in> insert d (f ` set (filter P xs))"
  by (induction xs arbitrary: d) (auto split: if_splits)

lemma notes_visit_fold:
  assumes "foldl notes_visit (a, b) es = (latest, found)"
  shows "found = b \<or> (found, ''### Notes'') \<in> set es"
  using assms
proof (induction es arbitrary: a b)
  case (Cons e es)
  obtain at line where e: "e = (at, line)" by force
  show ?case using Cons.prems Cons.IH by (fastforce simp: e split: if_splits)
qed simp

lemma notesSection_at:
  assumes "0 \<le> notesSection tool s"
  shows "prefix (newline # ''### Notes'') (drop (nat (notesSection tool s)) s)"
proof -
  let ?es = "if fencesContent tool then unfencedLines s
             else filter (\<lambda>entry. 0 \<le> fst entry) (eachLine s)"
  obtain latest found where f: "foldl notes_visit (-1, -1) ?es = (latest, found)" by force
  with assms have n: "notesSection tool s = found" "0 \<le> found"
    by (auto simp: notesSection_def split: if_splits)
  then have "(found, ''### Notes'') \<in> set ?es" using notes_visit_fold [OF f] by auto
  then show ?thesis
    using n eachLine_at [of found "''### Notes''" s] unfencedLines_at [of found "''### Notes''" s]
    by (auto split: if_splits)
qed

section \<open>Where a cut lands\<close>

lemma index_or_minus1_pos: "0 < index_or_minus1 i \<Longrightarrow> i = Some (nat (index_or_minus1 i))"
  by (auto simp: index_or_minus1_def split: option.splits)

lemma prefix_newline_nth: "prefix (newline # p) (drop n s) \<Longrightarrow> n < length s \<and> s ! n = newline"
  by (metis Cons_eq_appendI drop_eq_Nil hd_drop_conv_nth linorder_not_le list.discI list.sel(1)
      prefixE)

lemma boundary_newline:
  assumes "b \<in> set (boundaries tool w)" "0 < b"
  shows "nat b < length w \<and> w ! nat b = newline"
proof -
  consider "b = hit_boundary w" | "b = section_boundary tool w"
    | p where "last_index_str w (newline # p) = Some (nat b)"
    using assms index_or_minus1_pos by (auto simp: boundaries_def)
  then show ?thesis
  proof cases
    case 1
    then obtain hits at where "last_index_str (drop hits w) (newline # ''#### '') = Some at"
      "nat b = hits + at"
      using assms(2) by (auto simp: hit_boundary_def split: option.splits)
    then show ?thesis
      using last_index_str_SomeD [of "drop hits w"] prefix_newline_nth [of _ "hits + at" w]
      by (metis add.commute drop_drop)
  next
    case 2
    show ?thesis
    proof (cases "fencesContent tool")
      case True
      with 2 assms(2) have "b \<in> fst ` set (unfencedLines w)"
        using foldl_found [of "\<lambda>entry. has_prefix (snd entry) ''### ''" fst "-1" "unfencedLines w"]
        by (auto simp: section_boundary_def lastUnfenced_def)
      then show ?thesis using unfencedLines_at by fastforce
    next
      case False
      with 2 have "b = index_or_minus1 (last_index_str w (newline # ''### ''))"
        by (simp add: section_boundary_def)
      then have "last_index_str w (newline # ''### '') = Some (nat b)"
        using assms(2) index_or_minus1_pos by simp
      then show ?thesis using last_index_str_SomeD prefix_newline_nth by blast
    qed
  next
    case 3
    then show ?thesis using last_index_str_SomeD prefix_newline_nth by blast
  qed
qed

lemma runeSafeCut_take:
  "runeSafeCut s n = take (length (runeSafeCut s n)) s \<and>
   (0 \<le> n \<longrightarrow> int (length (runeSafeCut s n)) \<le> n)"
proof -
  have le: "back_to_rune s (nat n) \<le> nat n" by simp
  then have "int (back_to_rune s (nat n)) \<le> n" if "0 < n" using that by linarith
  moreover have "back_to_rune s (nat n) \<le> length s" if "\<not> int (length s) \<le> n"
    using le that by linarith
  ultimately show ?thesis by (auto simp: runeSafeCut_def)
qed

lemma find_enough:
  assumes "List.find (enough limit) bs = Some at"
  shows "at \<in> set bs \<and> 0 < at \<and> limit * 6 \<le> at * 10"
  using find_SomeD [OF assms] by (simp add: enough_def)

lemma cut_cases:
  assumes "0 \<le> limit"
  obtains (whole) "cutAtBoundary tool s limit = s" "int (length s) \<le> limit"
  | (seam) at where "cutAtBoundary tool s limit = take at s" "0 < at" "int at < limit"
      "at < length s" "s ! at = newline" "limit * 6 \<le> int at * 10"
  | (rune) "cutAtBoundary tool s limit = runeSafeCut s limit" "limit < int (length s)"
proof (cases "int (length s) \<le> limit")
  case False
  let ?w = "take (nat limit) s"
  show ?thesis
  proof (cases "List.find (enough limit) (boundaries tool ?w)")
    case None
    then show ?thesis using False rune by (simp add: cutAtBoundary_def)
  next
    case (Some b)
    from find_enough [OF Some] boundary_newline [of b tool ?w]
    have b: "0 < b" "limit * 6 \<le> b * 10" "nat b < length ?w" "?w ! nat b = newline" by auto
    moreover from b False have "nat b < length s" "int (nat b) < limit" by auto
    ultimately show ?thesis using Some False seam [of "nat b"] by (simp add: cutAtBoundary_def)
  qed
qed (use whole in \<open>auto simp: cutAtBoundary_def\<close>)

lemma cut_le:
  assumes "0 \<le> limit"
  shows "prefix (cutAtBoundary tool s limit) s \<and> int (length (cutAtBoundary tool s limit)) \<le> limit"
  using assms
proof (cases rule: cut_cases [of limit tool s])
  case rune
  then show ?thesis using assms runeSafeCut_take [of s limit] by (metis take_is_prefix)
qed (auto simp: take_is_prefix)

lemma split_notes_parts:
  assumes "split_notes tool s budget = (body, notes)"
  shows "body @ notes = s \<and> (notes = [] \<or> prefix (newline # ''### Notes'') notes)
         \<and> (0 \<le> budget \<longrightarrow> 3 * int (length notes) \<le> budget)"
proof -
  have third: "3 * n \<le> budget" if "\<not> budget div 3 < n" for n :: int
    using that by linarith
  show ?thesis
    using assms notesSection_at [of tool s] third [of "int (length notes)"]
    by (auto simp: split_notes_def Let_def split: if_splits)
qed

text \<open>A body room is never negative, and never more than what the notes leave.\<close>

lemma body_room_bounds:
  assumes "0 < budget" "3 * int (length notes) \<le> budget"
  shows "0 \<le> body_room budget notes"
    and "MinResponseBytes \<le> budget \<Longrightarrow>
         body_room budget notes = budget - int (length notes) - responseNoticeBytes"
  using assms by (auto simp: body_room_def Let_def MinResponseBytes_def responseNoticeBytes_def)

section \<open>Closing the fence\<close>

lemma lineFence_opened:
  "lineFence f line \<noteq> 0 \<Longrightarrow> lineFence f line = f \<or> 3 \<le> lineFence f line"
  by (auto simp: lineFence_def Let_def split: if_splits)

lemma open_fence_ge3: "foldl lineFence f ls \<noteq> 0 \<Longrightarrow> f = 0 \<or> 3 \<le> f \<Longrightarrow> 3 \<le> foldl lineFence f ls"
proof (induction ls arbitrary: f)
  case (Cons l ls)
  then show ?case using lineFence_opened [of f l] by (metis foldl_Cons)
qed simp

lemma lineFence_closes: "0 < n \<Longrightarrow> lineFence n (replicate n backtick) = 0"
  by (cases n) (simp_all add: lineFence_def trim_left_def trim_chars_def trim_right_def
      takeWhile_replicate backtick_def del: replicate_Suc)

lemma split_on_snoc_line:
  "c \<notin> set v \<Longrightarrow> split_on c (u @ c # v) = split_on c u @ [v]"
  using split_on_append_seps [of c u "c # v"] by (simp add: split_on_id)

lemma closeOpenFence_cases:
  obtains "closeOpenFence s = s" "foldl lineFence 0 (split_on newline s) = 0"
  | n where "3 \<le> n" "n = foldl lineFence 0 (split_on newline s)"
      "closeOpenFence s = s @ newline # replicate n backtick"
  using open_fence_ge3 [of 0 "split_on newline s"]
  by (auto simp: closeOpenFence_def Let_def split: if_splits)

lemma closed_state: "foldl lineFence 0 (split_on newline (closeOpenFence s)) = 0"
proof (cases rule: closeOpenFence_cases [of s])
  case (2 n)
  have "newline \<notin> set (replicate n backtick)" by (simp add: newline_def backtick_def)
  then show ?thesis using 2 lineFence_closes [of n] by (simp add: split_on_snoc_line)
qed simp

text \<open>Whatever follows a closed text on a line of its own is read outside every fence.\<close>

lemma closed_then:
  "foldl lineFence 0 (split_on newline (closeOpenFence s @ newline # t))
     = foldl lineFence 0 (split_on newline t)"
proof -
  let ?a = "split_on newline (closeOpenFence s)" and ?b = "split_on newline t"
  have "split_on newline (closeOpenFence s @ newline # t) = ?a @ ?b"
    using split_on_append_seps [of newline "closeOpenFence s" "newline # t"] by simp
  then show ?thesis by (simp add: closed_state)
qed

section \<open>Lengths\<close>

lemma clamp_parts:
  assumes "0 < budget" "budget < int (length s)"
  obtains body rest kept where "s = body @ rest"
    "rest = [] \<or> prefix (newline # ''### Notes'') rest" "3 * int (length rest) \<le> budget"
    "kept = cutAtBoundary tool body (body_room budget rest)"
    "prefix kept body" "int (length kept) \<le> body_room budget rest"
    "clampResponse tool s budget = closeOpenFence (trim_right kept [newline])
       @ truncation_notice budget (length s) (sectionCount tool kept) (sectionCount tool body) @ rest"
proof -
  obtain body rest where bn: "split_notes tool s budget = (body, rest)" by force
  from split_notes_parts [OF bn] assms
  have parts: "body @ rest = s" "rest = [] \<or> prefix (newline # ''### Notes'') rest"
    "3 * int (length rest) \<le> budget" by auto
  let ?kept = "cutAtBoundary tool body (body_room budget rest)"
  have room: "0 \<le> body_room budget rest" using body_room_bounds(1) assms(1) parts(3) by blast
  from cut_le [OF room, of tool body]
  have "prefix ?kept body" "int (length ?kept) \<le> body_room budget rest" by auto
  moreover have "clampResponse tool s budget = closeOpenFence (trim_right ?kept [newline])
       @ truncation_notice budget (length s) (sectionCount tool ?kept) (sectionCount tool body) @ rest"
    using assms bn by (simp add: clampResponse_def Let_def)
  ultimately show ?thesis using that [of body rest ?kept] parts by simp
qed

lemma length_itoa_nat: "n < 10 ^ k \<Longrightarrow> 0 < k \<Longrightarrow> length (itoa_nat n) \<le> k"
proof (induction n arbitrary: k rule: itoa_nat.induct)
  case (1 n)
  show ?case
  proof (cases "n < 10")
    case False
    then obtain j where k: "k = Suc (Suc j)" using 1(2) by (metis One_nat_def Suc_pred not0_implies_Suc
          power_0 power_Suc0_right less_one neq0_conv 1(3) less_irrefl)
    then have "n div 10 < 10 ^ Suc j" using 1(2) by (simp add: less_mult_imp_div_less mult.commute)
    then have "length (itoa_nat (n div 10)) \<le> Suc j" using 1(1) False by blast
    then show ?thesis using False k by (subst itoa_nat.simps) simp
  qed (use 1 in \<open>subst itoa_nat.simps, simp\<close>)
qed

lemma length_itoa: "n < 10 ^ k \<Longrightarrow> 0 < k \<Longrightarrow> length (itoa (int n)) \<le> k"
  by (simp add: itoa_def length_itoa_nat)

lemma length_commas: "length (commas ds) = length ds + (length ds - 1) div 3"
proof (induction ds rule: commas.induct)
  case (3 d e ds)
  have "(length ds + 1) div 3 = length ds div 3 + (if (length ds + 1) mod 3 = 0 then 1 else 0)"
    by presburger
  then show ?case using 3 by auto
qed auto

lemma length_thousands:
  assumes "n < 10 ^ k" "0 < k"
  shows "length (thousands (int n)) \<le> k + (k - 1) div 3"
  using length_itoa [OF assms] by (simp add: thousands_def length_commas add_mono div_le_mono)

lemma length_notice:
  "length (truncation_notice budget produced shown entries)
     \<le> 297 + length (thousands budget) + length (thousands (int produced))
        + length (itoa (int shown)) + length (itoa (int entries))"
  "150 \<le> length (truncation_notice budget produced shown entries)"
  by (simp_all add: truncation_notice_def)

lemma count_str_le: "p \<noteq> [] \<Longrightarrow> count_str s p \<le> length s"
proof (induction s p rule: count_str.induct)
  case (2 x xs p)
  then show ?case by (cases p) auto
qed simp

lemma length_split_on: "length (split_on c s) \<le> Suc (length s)"
  by (induction s) (auto split: list.splits)

lemma length_unfencedLines: "length (unfencedLines s) \<le> Suc (length s)"
proof -
  have "length (unfenced_from f ls) \<le> length ls" for f ls
    by (induction f ls rule: unfenced_from.induct) auto
  moreover have "length (lines_from k ls) = length ls" for k ls
    by (induction k ls rule: lines_from.induct) auto
  ultimately show ?thesis
    using length_split_on [of newline s] by (metis eachLine_def unfencedLines_def le_trans)
qed

lemma countUnfenced_le: "countUnfenced s p \<le> Suc (length s)"
  using length_unfencedLines [of s] by (simp add: countUnfenced_def le_trans [OF length_filter_le])

lemma sectionCount_le: "sectionCount tool s \<le> Suc (length s)"
proof -
  have "count_str (drop at s) p \<le> Suc (length s)" if "p \<noteq> []" for at p
    using count_str_le [OF that, of "drop at s"] by simp
  moreover have "count_str s p \<le> Suc (length s)" if "p \<noteq> []" for p
    using count_str_le [OF that, of s] by simp
  ultimately show ?thesis
    using countUnfenced_le [of s] by (simp add: sectionCount_def Let_def split: option.split)
qed

section \<open>No fence without three backticks\<close>

lemma split_on_sublist: "w \<in> set (split_on c s) \<Longrightarrow> sublist w s"
proof (induction s arbitrary: w)
  case (Cons x xs)
  obtain v vs where v: "split_on c xs = v # vs" by (cases "split_on c xs") auto
  have "prefix (x # v) (x # xs)" using hd_split_prefix [of c xs] v by simp
  then have head: "sublist (x # v) (x # xs)" by (rule prefix_imp_sublist)
  have "sublist u (x # xs)" if "u \<in> set (v # vs)" for u
    using Cons.IH that v sublist_Cons_right by metis
  then show ?case using Cons.prems v head by (auto split: if_splits)
qed simp

lemma takeWhile_run:
  assumes "n \<le> length (takeWhile (\<lambda>c. c = x) s)"
  shows "prefix (replicate n x) s"
proof -
  have "takeWhile (\<lambda>c. c = x) s = replicate (length (takeWhile (\<lambda>c. c = x) s)) x"
    by (metis (mono_tags) replicate_length_same set_takeWhileD)
  then have "prefix (replicate n x) (takeWhile (\<lambda>c. c = x) s)"
    using assms by (metis min.absorb1 take_is_prefix take_replicate)
  then show ?thesis using prefix_order.trans takeWhile_is_prefix by blast
qed

lemma lineFence_opens_sublist:
  assumes "lineFence 0 line \<noteq> 0"
  shows "sublist (replicate 3 backtick) line"
proof -
  have "3 \<le> length (takeWhile (\<lambda>c. c = backtick) (trim_left line '' ''))"
    using assms by (auto simp: lineFence_def Let_def split: if_splits)
  from takeWhile_run [OF this] have "sublist (replicate 3 backtick) (trim_left line '' '')"
    by (rule prefix_imp_sublist)
  moreover have "sublist (trim_left line '' '') line"
    by (simp add: trim_left_def suffix_imp_sublist suffix_dropWhile)
  ultimately show ?thesis using sublist_order.order_trans by blast
qed

lemma no_fence_fold:
  assumes "\<And>l. l \<in> set ls \<Longrightarrow> \<not> sublist (replicate 3 backtick) l"
  shows "foldl lineFence 0 ls = 0"
  using assms
proof (induction ls)
  case (Cons l ls)
  then have "lineFence 0 l = 0" using lineFence_opens_sublist by force
  then show ?case using Cons by simp
qed simp

lemma closeOpenFence_no_fence:
  assumes "\<not> sublist (replicate 3 backtick) s"
  shows "closeOpenFence s = s"
proof -
  have "foldl lineFence 0 (split_on newline s) = 0"
    using assms split_on_sublist sublist_order.order_trans by (blast intro: no_fence_fold)
  then show ?thesis by (simp add: closeOpenFence_def)
qed

lemma trim_right_prefix: "prefix (trim_right s cs) s"
  by (simp add: trim_right_def prefix_def) (metis rev_append rev_rev_ident takeWhile_dropWhile_id)

section \<open>The unfenced lines of an answer\<close>



section \<open>Properties\<close>

text \<open>
  An answer over its budget becomes a prefix of its body (with an open fence closed), the
  truncation notice with the true numbers, and the Notes block of the answer unchanged; the
  kept prefix and the Notes together stay within the budget, and the Notes block is empty or
  really is the text from its heading on.
\<close>

theorem clamp_structure:
  assumes "0 < budget" "budget < int (length s)"
  shows "\<exists>body tail kept. s = body @ tail \<and> (tail = [] \<or> prefix (newline # ''### Notes'') tail)
    \<and> prefix kept body \<and> int (length kept) + int (length tail) \<le> budget
    \<and> clampResponse tool s budget = closeOpenFence (trim_right kept [newline])
        @ truncation_notice budget (length s) (sectionCount tool kept) (sectionCount tool body)
        @ tail"
proof -
  obtain body rest kept where p: "s = body @ rest"
    "rest = [] \<or> prefix (newline # ''### Notes'') rest" "3 * int (length rest) \<le> budget"
    "prefix kept body" "int (length kept) \<le> body_room budget rest"
    "clampResponse tool s budget = closeOpenFence (trim_right kept [newline])
       @ truncation_notice budget (length s) (sectionCount tool kept) (sectionCount tool body) @ rest"
    using clamp_parts [OF assms] by metis
  have "body_room budget rest + int (length rest) \<le> budget"
    using p(3) assms(1) unfolding body_room_def Let_def responseNoticeBytes_def by auto
  with p show ?thesis by (smt (verit))
qed

theorem clamp_structure_witness:
  "\<exists>body tail kept. replicate 3000 CHR ''a'' = body @ tail
    \<and> (tail = [] \<or> prefix (newline # ''### Notes'') tail)
    \<and> prefix kept body \<and> int (length kept) + int (length tail) \<le> 2000
    \<and> clampResponse ''query-docs'' (replicate 3000 CHR ''a'') 2000
        = closeOpenFence (trim_right kept [newline])
        @ truncation_notice 2000 (length (replicate 3000 CHR ''a''))
            (sectionCount ''query-docs'' kept) (sectionCount ''query-docs'' body)
        @ tail"
  by (rule clamp_structure, simp, subst length_replicate, simp)

lemma back_to_rune_near:
  "\<exists>j \<le> n. n - j \<le> m \<and> rune_start (s ! j) \<Longrightarrow> n - back_to_rune s n \<le> m"
proof (induction n arbitrary: m)
  case (Suc n)
  then obtain j where j: "j \<le> Suc n" "Suc n - j \<le> m" "rune_start (s ! j)" by blast
  show ?case
  proof (cases "rune_start (s ! Suc n)")
    case False
    with j have "j \<le> n" "0 < m" "n - j \<le> m - 1" by (auto simp: le_Suc_eq)
    with j(3) Suc.IH [of "m - 1"] have "n - back_to_rune s n \<le> m - 1" by blast
    then show ?thesis using False \<open>0 < m\<close> by simp
  qed simp
qed simp

text \<open>
  A cut is never a sliver. Where the text is UTF-8 (a rune starts within any four bytes),
  what is kept fits the limit, keeps at least six tenths of it, and ends before a newline or
  at the start of a rune.
\<close>

theorem cut_keeps_most:
  assumes "8 \<le> limit" "limit < int (length s)"
    and utf8: "\<forall>i < length s. \<exists>j \<le> i. i - j \<le> 3 \<and> rune_start (s ! j)"
  shows "let kept = cutAtBoundary tool s limit; n = length kept
         in kept = take n s \<and> int n \<le> limit \<and> limit * 6 \<le> int n * 10
            \<and> (s ! n = newline \<or> rune_start (s ! n))"
proof -
  have "0 \<le> limit" using assms(1) by simp
  then show ?thesis
  proof (cases rule: cut_cases [of limit tool s])
    case whole
    then show ?thesis using assms(2) by simp
  next
    case (seam at)
    then show ?thesis by (simp add: Let_def min_def)
  next
    case rune
    let ?n = "back_to_rune s (nat limit)"
    have lt: "nat limit < length s" using assms by linarith
    then have near: "nat limit - ?n \<le> 3" using utf8 back_to_rune_near by blast
    have le: "?n \<le> nat limit" by simp
    have "rune_start (s ! ?n)" using near assms(1) back_to_rune_start [of s "nat limit"] by linarith
    moreover have "cutAtBoundary tool s limit = take ?n s"
      using rune assms by (simp add: runeSafeCut_def)
    moreover have "length (take ?n s) = ?n" using le_trans [OF le] lt by (simp add: min_absorb2)
    moreover have "int ?n \<le> limit" "limit * 6 \<le> int ?n * 10" using near le assms(1) by linarith+
    ultimately show ?thesis by (simp add: Let_def)
  qed
qed

theorem cut_keeps_most_witness:
  "let kept = cutAtBoundary ''read-file'' (replicate 9 CHR ''a'') 8; n = length kept
   in kept = take n (replicate 9 CHR ''a'') \<and> int n \<le> 8 \<and> 8 * 6 \<le> int n * 10
      \<and> (replicate 9 CHR ''a'' ! n = newline \<or> rune_start (replicate 9 CHR ''a'' ! n))"
proof (rule cut_keeps_most)
  show "\<forall>i < length (replicate 9 CHR ''a''). \<exists>j \<le> i. i - j \<le> 3
    \<and> rune_start (replicate 9 CHR ''a'' ! j)"
    by (intro allI impI, rule_tac x = i in exI) (simp add: rune_start_def)
qed auto



text \<open>
  With a budget an operator may set (2,000 to 262,144 bytes), an answer of fewer than
  99,999 bytes without a run of three backticks comes back within its budget, notice included.
\<close>

theorem clamp_within_budget:
  assumes "MinResponseBytes \<le> budget" "budget \<le> MaxResponseBytes" "length s < 99999"
    and fence: "\<not> sublist (replicate 3 backtick) s"
  shows "int (length (clampResponse tool s budget)) \<le> budget"
proof (cases "budget < int (length s)")
  case False
  then show ?thesis by (simp add: clampResponse_def)
next
  case True
  have pos: "0 < budget" using assms(1) by (simp add: MinResponseBytes_def)
  obtain body rest kept where p: "s = body @ rest" "3 * int (length rest) \<le> budget"
    "prefix kept body" "int (length kept) \<le> body_room budget rest"
    "clampResponse tool s budget = closeOpenFence (trim_right kept [newline])
       @ truncation_notice budget (length s) (sectionCount tool kept) (sectionCount tool body) @ rest"
    using clamp_parts [OF pos True] by metis
  let ?cut = "trim_right kept [newline]"
  have cut: "prefix ?cut kept" by (rule trim_right_prefix)
  then have "prefix ?cut s" using p(1,3) by (meson prefix_order.trans prefix_prefix)
  then have "closeOpenFence ?cut = ?cut"
    using fence closeOpenFence_no_fence prefix_imp_sublist sublist_order.order_trans by metis
  moreover have "int (length ?cut) \<le> budget - int (length rest) - responseNoticeBytes"
    using prefix_length_le [OF cut] p(4) body_room_bounds(2) [OF pos p(2) assms(1)] by simp
  moreover have "length (truncation_notice budget (length s) (sectionCount tool kept)
      (sectionCount tool body)) \<le> 297 + 7 + 6 + 5 + 5"
  proof -
    have "length kept < 99999" "length body < 99999"
      using p(1,3) assms(3) by (auto dest: prefix_length_le)
    then have "sectionCount tool kept < 10 ^ 5" "sectionCount tool body < 10 ^ 5"
      using sectionCount_le [of tool kept] sectionCount_le [of tool body] by simp_all
    then have "length (itoa (int (sectionCount tool kept))) \<le> 5"
      "length (itoa (int (sectionCount tool body))) \<le> 5" by (simp_all add: length_itoa)
    moreover have "length (thousands (int (length s))) \<le> 6"
      using length_thousands [of "length s" 5] assms(3) by simp
    moreover have "length (thousands budget) \<le> 7"
      using length_thousands [of "nat budget" 6] pos assms(2) by (simp add: MaxResponseBytes_def)
    ultimately show ?thesis
      using length_notice(1) [of budget "length s" "sectionCount tool kept" "sectionCount tool body"]
      by linarith
  qed
  ultimately show ?thesis using p(5) by (simp add: responseNoticeBytes_def)
qed

theorem clamp_within_budget_witness:
  "int (length (clampResponse ''query-docs'' (replicate 3000 CHR ''a'') 2000)) \<le> 2000"
proof (rule clamp_within_budget)
  show "\<not> sublist (replicate 3 backtick) (replicate 3000 CHR ''a'')"
  proof
    assume "sublist (replicate 3 backtick) (replicate 3000 CHR ''a'')"
    then have "set (replicate 3 backtick) \<subseteq> set (replicate 3000 CHR ''a'')" by (rule set_mono_sublist)
    then have "backtick \<in> set (replicate 3000 CHR ''a'')" by (auto simp: numeral_3_eq_3)
    then show False by (simp only: set_replicate_conv_if, simp add: backtick_def)
  qed
  show "length (replicate 3000 CHR ''a'') < 99999" by (subst length_replicate, simp)
qed (simp_all add: MinResponseBytes_def MaxResponseBytes_def)

text \<open>
  A file opened by a long fence: nothing in it is a boundary worth cutting at, the cut lands
  inside the block, and closing the block repeats the whole fence.
\<close>

definition fenced_file :: "nat \<Rightarrow> nat \<Rightarrow> string" where
  "fenced_file f n = replicate f backtick @ newline # replicate n CHR ''a''"

lemma fenced_newline:
  "fenced_file f n ! i = newline \<Longrightarrow> i < length (fenced_file f n) \<Longrightarrow> i = f"
proof -
  have "newline \<noteq> backtick" "newline \<noteq> CHR ''a''" by (simp_all add: newline_def backtick_def)
  then show "fenced_file f n ! i = newline \<Longrightarrow> i < length (fenced_file f n) \<Longrightarrow> i = f"
    by (cases "i < f"; cases "i - f") (auto simp: fenced_file_def nth_append)
qed

lemma fenced_no_notes: "notesSection tool (fenced_file f n) < 0"
proof (rule ccontr)
  let ?i = "nat (notesSection tool (fenced_file f n))"
  assume "\<not> notesSection tool (fenced_file f n) < 0"
  then have at: "prefix (newline # ''### Notes'') (drop ?i (fenced_file f n))"
    using notesSection_at [of tool "fenced_file f n"] by simp
  then have "?i = f" using prefix_newline_nth fenced_newline by blast
  with at have "prefix ''### Notes'' (replicate n CHR ''a'')" by (simp add: fenced_file_def)
  then show False by (cases n) auto
qed

lemma fenced_cut:
  assumes "int f < limit" "int f * 10 < limit * 6" "limit \<le> int (f + n)"
  shows "cutAtBoundary tool (fenced_file f n) limit = fenced_file f (nat limit - f - 1)"
proof -
  have "0 \<le> limit" using assms(1) by linarith
  then show ?thesis
  proof (cases rule: cut_cases [of limit tool "fenced_file f n"])
    case whole
    then show ?thesis using assms(3) by (simp add: fenced_file_def)
  next
    case (seam at)
    then show ?thesis using fenced_newline [of f n at] assms(2) by simp
  next
    case rune
    obtain m where m: "nat limit = Suc (f + m)" using assms(1)
      by (metis add_Suc_right less_iff_Suc_add zless_nat_eq_int_zless)
    then have "fenced_file f n ! nat limit = CHR ''a''"
      using assms(3) by (simp add: fenced_file_def nth_append)
    then have "back_to_rune (fenced_file f n) (nat limit) = nat limit"
      using m by (simp add: rune_start_def)
    then show ?thesis using rune assms m
      by (simp add: runeSafeCut_def fenced_file_def min_def)
  qed
qed

lemma lineFence_opens: "3 \<le> n \<Longrightarrow> lineFence 0 (replicate n backtick) = n"
  by (cases n) (simp_all add: lineFence_def trim_left_def takeWhile_replicate backtick_def
      contains_str_def del: replicate_Suc)

lemma lineFence_keeps: "0 < f \<Longrightarrow> lineFence f (replicate n CHR ''a'') = f"
  by (cases n) (simp_all add: lineFence_def trim_left_def takeWhile_replicate backtick_def
      del: replicate_Suc)

lemma trim_right_visible: "s \<noteq> [] \<Longrightarrow> last s \<notin> set cs \<Longrightarrow> trim_right s cs = s"
  by (cases s rule: rev_cases) (simp_all add: trim_right_def)

text \<open>
  The room reserved for the notice does not cover what is appended: a read-file answer
  whose content opens with a 400-backtick fence and is cut comes back over its budget, since
  closing the block repeats the fence after the cut was sized without it.
\<close>

theorem clamp_can_exceed_budget:
  "\<exists>s budget. MinResponseBytes \<le> budget \<and> budget \<le> MaxResponseBytes
     \<and> budget < int (length (clampResponse ''read-file'' s budget))"
proof (intro exI conjI)
  let ?s = "fenced_file 400 3000"
  let ?kept = "fenced_file 400 1279"
  have len: "length ?s = 3401" by (simp add: fenced_file_def)
  have "split_notes ''read-file'' ?s 2000 = (?s, [])"
    using fenced_no_notes [of "''read-file''" 400 3000] by (simp add: split_notes_def Let_def)
  moreover have "body_room 2000 [] = 1680"
    by (simp add: body_room_def responseNoticeBytes_def MinResponseBytes_def)
  moreover have "cutAtBoundary ''read-file'' ?s 1680 = ?kept"
    using fenced_cut [of 400 1680 3000 "''read-file''"] by simp
  moreover have "trim_right ?kept [newline] = ?kept"
    by (rule trim_right_visible) (simp_all add: fenced_file_def newline_def)
  ultimately have answer: "clampResponse ''read-file'' ?s 2000 = closeOpenFence ?kept
      @ truncation_notice 2000 3401 (sectionCount ''read-file'' ?kept)
          (sectionCount ''read-file'' ?s)"
    using len by (simp add: clampResponse_def Let_def)
  have split: "split_on newline ?kept = [replicate 400 backtick, replicate 1279 CHR ''a'']"
    by (simp add: fenced_file_def split_on_append split_on_id newline_def backtick_def
       )
  have "closeOpenFence ?kept = ?kept @ newline # replicate 400 backtick"
    by (simp add: closeOpenFence_def split lineFence_opens lineFence_keeps)
  then show "2000 < int (length (clampResponse ''read-file'' ?s 2000))"
    using length_notice(2) [where budget = 2000 and produced = 3401
        and shown = "sectionCount ''read-file'' ?kept" and entries = "sectionCount ''read-file'' ?s"]
    by (simp add: answer) (simp add: fenced_file_def)
qed (simp_all add: MinResponseBytes_def MaxResponseBytes_def)

end
