(* ===== verification/ToolCatalog.thy ===== *)
theory ToolCatalog
  imports Prelude
begin

text \<open>
  The tool names that may be granted to an API key:
  \<^verbatim>\<open>internal/toolcatalog/catalog.go\<close>. The Go map of the supported names is the set of
  the list it is built from.
\<close>

definition tool_names :: "string list" where
  "tool_names =
     [''resolve-library-id'', ''query-docs'', ''search-repositories'', ''search-source'',
      ''search-code'', ''find-file'', ''read-file'', ''search-semantic'', ''find-dependents'',
      ''search-merge-requests'', ''get-file-history'', ''list-directory'', ''get-repository-map'',
      ''find-symbol'', ''get-symbol-context'', ''trace-dependencies'', ''compare-refs'',
      ''get-change-impact'', ''get-context-pack'', ''find-runbook'', ''export-context'',
      ''explain-search-result'', ''build-context'', ''find-code-owner'', ''find-tests'',
      ''find-dependency-usage'', ''get-architecture-map'', ''assess-change-risk'',
      ''get-repository-health'', ''get-platform-status'', ''list-index-jobs'',
      ''reindex-repository'']"

definition tool_Supports :: "string \<Rightarrow> bool" where
  "tool_Supports name \<longleftrightarrow> name \<in> set tool_names"

text \<open>The store keeps scopes as one comma separated text, so no name may hold a comma.\<close>

lemma tool_name_plain: "tool_Supports name \<Longrightarrow> CHR '','' \<notin> set name \<and> name \<noteq> []"
  unfolding tool_Supports_def tool_names_def set_simps insert_iff empty_iff
  by (elim disjE) (simp_all)

end
