(* ===== verification/ApiKeys.thy ===== *)
theory ApiKeys
  imports ToolCatalog
begin

text \<open>
  API keys: \<^verbatim>\<open>internal/apikey/service.go\<close>. The tables of the database are fields of one
  record: rows of \<^verbatim>\<open>api_keys\<close> in insertion order, \<^verbatim>\<open>api_key_restrictions\<close> and
  \<^verbatim>\<open>api_key_usage_buckets\<close> as maps on their primary keys, the notifications this
  service writes. A statement that fails is a value of the argument \<open>faulty\<close>; the constraints
  of the schema (primary key and unique prefix) are checked by the insert. The keyed hash, the
  address parser and the random draws are arguments. One operation reads the clock once:
  \<open>now\<close> stands for the readings of \<^verbatim>\<open>time.Now\<close> of one call.
\<close>

section \<open>Data\<close>

record Restrictions =
  AllowedCIDRs :: "string list"
  AllowedRepositories :: "string list"
  RatePerMinute :: int
  RatePerHour :: int
  RatePerDay :: int

record Key =
  key_ID :: string
  key_Name :: string
  key_Prefix :: string
  key_Scopes :: "string list"
  key_Restrictions :: Restrictions
  key_ExpiresAt :: "time option"
  key_CreatedAt :: time
  key_LastUsedAt :: "time option"
  key_Status :: string
  key_ReplacedBy :: string

record AuthInfo =
  info_UserID :: string
  info_KeyID :: string
  info_Prefix :: string
  info_Scopes :: "string list"
  info_Restrictions :: Restrictions

datatype key_error =
    NameRequired | NoScope | UnsupportedScope string | DuplicateScope string
  | InvalidCIDR string | RepositoryForm string | NegativeRate
  | InvalidKey | InactiveKey | IPNotAllowed | RateLimit duration
  | OverlapRange | OnlyActiveRotates | ActiveKeyNotFound | UnsupportedStatus
  | NoRows | RandomFault | StatementFault

text \<open>The tables.\<close>

record key_row =
  row_id :: string
  row_user :: string
  row_name :: string
  row_prefix :: string
  row_hash :: string
  row_scopes :: string
  row_expires :: "time option"
  row_disabled :: "time option"
  row_revoked :: "time option"
  row_used :: "time option"
  row_created :: time
  row_replaced :: "string option"

record restriction_row =
  row_cidrs :: string
  row_repos :: string
  row_minute :: int
  row_hour :: int
  row_day :: int

record notice_row =
  notice_id :: string
  notice_user :: string
  notice_resource :: string
  notice_message :: string

record key_store =
  api_keys :: "key_row list"
  restriction_table :: "string \<rightharpoonup> restriction_row"
  usage_buckets :: "(string \<times> string \<times> time) \<rightharpoonup> int"
  notices :: "notice_row list"
  lastUsed :: "(string \<times> time) list"

text \<open>The statements that can fail.\<close>

datatype key_statement =
    BeginCreate | InsertKey | InsertRestrictions | CommitCreate | UpdateScopesStmt
  | SelectKey | CountCall string | InsertNotice | TouchKey | ListKeys
  | SelectForRotate | UpdateRotated | UpdateStatus

type_synonym faults = "key_statement \<Rightarrow> bool"

text \<open>
  What the service is given: HMAC-SHA256 under its pepper, \<^verbatim>\<open>netip.ParseAddr\<close> and
  \<^verbatim>\<open>netip.ParsePrefix\<close> (a prefix as the test of the addresses it contains), the formatter
  of a window in a notification id, and the alert setting's loader.
\<close>

record key_env =
  mac :: "string \<Rightarrow> string"
  parse_addr :: "string \<Rightarrow> nat option"
  parse_prefix :: "string \<Rightarrow> (nat \<Rightarrow> bool) option"
  format_minute :: "time \<Rightarrow> string"
  alert_loader :: "bool option"

section \<open>Validation\<close>

definition comma :: char where "comma = CHR '',''"

definition split_text :: "string \<Rightarrow> string list" where
  "split_text s = (if s = [] then [] else split_on comma s)"

fun scopes_check :: "string list \<Rightarrow> string list \<Rightarrow> key_error option" where
  "scopes_check seen [] = None"
| "scopes_check seen (scope # scopes) =
     (if \<not> tool_Supports scope then Some (UnsupportedScope scope)
      else if scope \<in> set seen then Some (DuplicateScope scope)
      else scopes_check (scope # seen) scopes)"

definition ValidateScopes :: "string list \<Rightarrow> key_error option" where
  "ValidateScopes scopes = (if scopes = [] then Some NoScope else scopes_check [] scopes)"

definition repository_form :: "string \<Rightarrow> bool" where
  "repository_form repo =
     (case split_on CHR ''/'' (trim_prefix repo ''/'') of
        [project, slug] \<Rightarrow> project \<noteq> [] \<and> slug \<noteq> []
      | _ \<Rightarrow> False)"

definition validateRestrictions :: "key_env \<Rightarrow> Restrictions \<Rightarrow> key_error option" where
  "validateRestrictions env r =
     (case List.find (\<lambda>cidr. parse_prefix env cidr = None) (AllowedCIDRs r) of
        Some cidr \<Rightarrow> Some (InvalidCIDR cidr)
      | None \<Rightarrow> (case List.find (\<lambda>repo. \<not> repository_form repo) (AllowedRepositories r) of
          Some repo \<Rightarrow> Some (RepositoryForm repo)
        | None \<Rightarrow> (if RatePerMinute r < 0 \<or> RatePerHour r < 0 \<or> RatePerDay r < 0
                   then Some NegativeRate else None)))"

definition validateIP :: "key_env \<Rightarrow> string \<Rightarrow> string list \<Rightarrow> key_error option" where
  "validateIP env raw cidrs =
     (if cidrs = [] then None
      else case parse_addr env raw of
             None \<Rightarrow> Some IPNotAllowed
           | Some ip \<Rightarrow>
               (if list_ex (\<lambda>cidr. case parse_prefix env cidr of
                                     None \<Rightarrow> False | Some p \<Rightarrow> p ip) cidrs
                then None else Some IPNotAllowed))"

section \<open>The shape of a key\<close>

definition PlainPrefix :: string where
  "PlainPrefix = ''bctx_live_''"

definition Looks :: "string \<Rightarrow> bool" where
  "Looks raw \<longleftrightarrow> has_prefix raw PlainPrefix"

definition PrefixOf :: "string \<Rightarrow> string" where
  "PrefixOf raw =
     (case split_n 4 CHR ''_'' raw of
        [a, b, p, rest] \<Rightarrow> (if a \<noteq> ''bctx'' \<or> b \<noteq> ''live'' then [] else p)
      | _ \<Rightarrow> [])"

definition hex_digit :: "nat \<Rightarrow> char" where
  "hex_digit n = ''0123456789abcdef'' ! n"

definition upper_hex_digit :: "nat \<Rightarrow> char" where
  "upper_hex_digit n = ''0123456789ABCDEF'' ! n"

definition hex_encode :: "(nat \<Rightarrow> char) \<Rightarrow> nat list \<Rightarrow> string" where
  "hex_encode d bs = concat (map (\<lambda>b. [d (b div 16), d (b mod 16)]) bs)"

definition base64_digit :: "nat \<Rightarrow> char" where
  "base64_digit n = ''ABCDEFGHIJKLMNOPQRSTUVWXYZabcdefghijklmnopqrstuvwxyz0123456789-_'' ! n"

fun raw_url_base64 :: "nat list \<Rightarrow> string" where
  "raw_url_base64 [] = []"
| "raw_url_base64 [a] = map base64_digit [a div 4, a mod 4 * 16]"
| "raw_url_base64 [a, b] = map base64_digit [a div 4, a mod 4 * 16 + b div 16, b mod 16 * 4]"
| "raw_url_base64 (a # b # c # rest) =
     map base64_digit [a div 4, a mod 4 * 16 + b div 16, b mod 16 * 4 + c div 64, c mod 64]
     @ raw_url_base64 rest"

text \<open>The draws of the random source: the bytes of the id, the prefix and the secret.\<close>

type_synonym draws = "nat list option \<times> nat list option \<times> nat list option"

definition plain_key :: "nat list \<Rightarrow> nat list \<Rightarrow> string" where
  "plain_key pbytes secret =
     PlainPrefix @ hex_encode upper_hex_digit pbytes @ ''_'' @ raw_url_base64 secret"

section \<open>Creating a key\<close>

definition no_restrictions :: Restrictions where
  "no_restrictions = \<lparr>AllowedCIDRs = [], AllowedRepositories = [], RatePerMinute = 0,
     RatePerHour = 0, RatePerDay = 0\<rparr>"

definition new_key_row ::
    "key_env \<Rightarrow> time \<Rightarrow> string \<Rightarrow> string \<Rightarrow> string \<Rightarrow> string \<Rightarrow> string \<Rightarrow> string list \<Rightarrow> time option \<Rightarrow> key_row" where
  "new_key_row env now kid user name pre plain scopes expires =
     \<lparr>row_id = kid, row_user = user, row_name = name, row_prefix = pre,
      row_hash = mac env plain, row_scopes = join_with [comma] scopes, row_expires = expires,
      row_disabled = None, row_revoked = None, row_used = None, row_created = now,
      row_replaced = None\<rparr>"

definition restriction_texts :: "Restrictions \<Rightarrow> restriction_row" where
  "restriction_texts r =
     \<lparr>row_cidrs = join_with [comma] (AllowedCIDRs r),
      row_repos = join_with [comma] (AllowedRepositories r),
      row_minute = RatePerMinute r, row_hour = RatePerHour r, row_day = RatePerDay r\<rparr>"

text \<open>The transaction: both rows are inserted, or neither.\<close>

definition insert_key :: "faults \<Rightarrow> key_row \<Rightarrow> restriction_row \<Rightarrow> key_store \<Rightarrow> key_store option" where
  "insert_key faulty row limits db =
     (if faulty BeginCreate \<or> faulty InsertKey
         \<or> list_ex (\<lambda>k. row_id k = row_id row \<or> row_prefix k = row_prefix row) (api_keys db)
         \<or> faulty InsertRestrictions \<or> restriction_table db (row_id row) \<noteq> None
         \<or> faulty CommitCreate
      then None
      else Some (db\<lparr>api_keys := api_keys db @ [row],
                    restriction_table := (restriction_table db)(row_id row \<mapsto> limits)\<rparr>))"

definition default_scopes :: "string list \<Rightarrow> string list" where
  "default_scopes scopes = (if scopes = [] then [''resolve-library-id'', ''query-docs''] else scopes)"

definition CreateWithRestrictions ::
    "key_env \<Rightarrow> faults \<Rightarrow> time \<Rightarrow> draws \<Rightarrow> string \<Rightarrow> string \<Rightarrow> string list \<Rightarrow> time option \<Rightarrow> Restrictions
     \<Rightarrow> key_store \<Rightarrow> (key_error + Key \<times> string) \<times> key_store" where
  "CreateWithRestrictions env faulty now draws user name requested expires r db =
     (if name = [] \<or> 100 < length name then (Inl NameRequired, db)
      else let scopes = default_scopes requested in
      case ValidateScopes scopes of Some e \<Rightarrow> (Inl e, db)
      | None \<Rightarrow> (case validateRestrictions env r of Some e \<Rightarrow> (Inl e, db)
      | None \<Rightarrow> (case draws of
          (Some ibytes, Some pbytes, Some sbytes) \<Rightarrow>
            (let kid = hex_encode hex_digit ibytes;
                 pre = hex_encode upper_hex_digit pbytes;
                 plain = plain_key pbytes sbytes in
             case insert_key faulty (new_key_row env now kid user name pre plain scopes expires)
                    (restriction_texts r) db of
               None \<Rightarrow> (Inl StatementFault, db)
             | Some db' \<Rightarrow>
                 (Inr (\<lparr>key_ID = kid, key_Name = name, key_Prefix = pre, key_Scopes = scopes,
                        key_Restrictions = r, key_ExpiresAt = expires, key_CreatedAt = now,
                        key_LastUsedAt = None, key_Status = ''active'', key_ReplacedBy = []\<rparr>,
                       plain), db'))
        | _ \<Rightarrow> (Inl RandomFault, db))))"

definition Create ::
    "key_env \<Rightarrow> faults \<Rightarrow> time \<Rightarrow> draws \<Rightarrow> string \<Rightarrow> string \<Rightarrow> string list \<Rightarrow> time option
     \<Rightarrow> key_store \<Rightarrow> (key_error + Key \<times> string) \<times> key_store" where
  "Create env faulty now draws user name scopes expires db =
     CreateWithRestrictions env faulty now draws user name scopes expires no_restrictions db"

section \<open>Scopes\<close>

text \<open>An UPDATE: every row that satisfies the condition is changed; their number is returned.\<close>

definition update_rows ::
    "(key_row \<Rightarrow> bool) \<Rightarrow> (key_row \<Rightarrow> key_row) \<Rightarrow> key_store \<Rightarrow> nat \<times> key_store" where
  "update_rows P f db =
     (length (filter P (api_keys db)),
      db\<lparr>api_keys := map (\<lambda>row. if P row then f row else row) (api_keys db)\<rparr>)"

definition updateScopes ::
    "faults \<Rightarrow> string \<Rightarrow> string \<Rightarrow> string list \<Rightarrow> bool \<Rightarrow> key_store \<Rightarrow> key_error option \<times> key_store" where
  "updateScopes faulty user kid scopes administrator db =
     (case ValidateScopes scopes of Some e \<Rightarrow> (Some e, db)
      | None \<Rightarrow>
          if faulty UpdateScopesStmt then (Some StatementFault, db)
          else let (affected, db') = update_rows
                 (\<lambda>row. row_id row = kid \<and> row_revoked row = None
                        \<and> (administrator \<or> row_user row = user))
                 (\<lambda>row. row\<lparr>row_scopes := join_with [comma] scopes\<rparr>) db
               in if affected = 0 then (Some ActiveKeyNotFound, db') else (None, db'))"

definition UpdateScopes ::
    "faults \<Rightarrow> string \<Rightarrow> string \<Rightarrow> string list \<Rightarrow> key_store \<Rightarrow> key_error option \<times> key_store" where
  "UpdateScopes faulty user kid scopes db = updateScopes faulty user kid scopes False db"

definition UpdateScopesAdmin ::
    "faults \<Rightarrow> string \<Rightarrow> string list \<Rightarrow> key_store \<Rightarrow> key_error option \<times> key_store" where
  "UpdateScopesAdmin faulty kid scopes db = updateScopes faulty [] kid scopes True db"

section \<open>Rate limits\<close>

definition day :: duration where
  "day = 24 * hour"

text \<open>The start of the window of the given length that holds \<open>now\<close>, in UTC.\<close>

definition window_start :: "duration \<Rightarrow> time \<Rightarrow> time" where
  "window_start width now = now - now mod width"

definition rate_checks :: "time \<Rightarrow> Restrictions \<Rightarrow> (string \<times> time \<times> int \<times> duration) list" where
  "rate_checks now r =
     map (\<lambda>(kind, width, limit).
            (kind, window_start width now, limit, window_start width now + width - now))
       [(''minute'', minute, RatePerMinute r), (''hour'', hour, RatePerHour r),
        (''day'', day, RatePerDay r)]"

definition usage_count :: "key_store \<Rightarrow> string \<times> string \<times> time \<Rightarrow> int" where
  "usage_count db bucket = (case usage_buckets db bucket of None \<Rightarrow> 0 | Some n \<Rightarrow> n)"

definition notifyRateLimit ::
    "key_env \<Rightarrow> faults \<Rightarrow> string \<Rightarrow> string \<Rightarrow> time \<Rightarrow> key_store \<Rightarrow> key_store" where
  "notifyRateLimit env faulty key kind start db =
     (if faulty InsertNotice then db
      else let resource = key @ '':'' @ kind in
        db\<lparr>notices := foldl (\<lambda>ns row.
             if row_id row \<noteq> key
                \<or> list_ex (\<lambda>n. notice_user n = row_user row \<and> notice_resource n = resource) ns
             then ns
             else ns @ [\<lparr>notice_id = ''rate:'' @ key @ '':'' @ kind @ '':'' @ format_minute env start,
                         notice_user = row_user row, notice_resource = resource,
                         notice_message = ''The '' @ kind
                           @ '' call limit was exceeded for an MCP API key.''\<rparr>])
           (notices db) (api_keys db)\<rparr>)"

fun run_checks ::
    "key_env \<Rightarrow> faults \<Rightarrow> string \<Rightarrow> (string \<times> time \<times> int \<times> duration) list \<Rightarrow> key_store
     \<Rightarrow> key_error option \<times> key_store" where
  "run_checks env faulty key [] db = (None, db)"
| "run_checks env faulty key ((kind, start, limit, retry) # checks) db =
     (if limit \<le> 0 then run_checks env faulty key checks db
      else if faulty (CountCall kind) then (Some StatementFault, db)
      else let count = usage_count db (key, kind, start) + 1;
               db' = db\<lparr>usage_buckets := (usage_buckets db)((key, kind, start) \<mapsto> count)\<rparr>
           in if limit < count
              then (Some (RateLimit retry),
                    if alert_loader env \<noteq> Some False
                    then notifyRateLimit env faulty key kind start db' else db')
              else run_checks env faulty key checks db')"

definition applyRateLimits ::
    "key_env \<Rightarrow> faults \<Rightarrow> time \<Rightarrow> string \<Rightarrow> Restrictions \<Rightarrow> key_store \<Rightarrow> key_error option \<times> key_store" where
  "applyRateLimits env faulty now key r db = run_checks env faulty key (rate_checks now r) db"

section \<open>Authentication\<close>

definition no_texts :: restriction_row where
  "no_texts = \<lparr>row_cidrs = [], row_repos = [], row_minute = 0, row_hour = 0, row_day = 0\<rparr>"

definition restrictions_of :: "key_store \<Rightarrow> string \<Rightarrow> Restrictions" where
  "restrictions_of db key =
     (let t = (case restriction_table db key of None \<Rightarrow> no_texts | Some t \<Rightarrow> t)
      in \<lparr>AllowedCIDRs = split_text (row_cidrs t), AllowedRepositories = split_text (row_repos t),
          RatePerMinute = row_minute t, RatePerHour = row_hour t, RatePerDay = row_day t\<rparr>)"

definition expired :: "time \<Rightarrow> key_row \<Rightarrow> bool" where
  "expired now row \<longleftrightarrow> (case row_expires row of None \<Rightarrow> False | Some t \<Rightarrow> t < now)"

definition inactive :: "time \<Rightarrow> key_row \<Rightarrow> bool" where
  "inactive now row \<longleftrightarrow> row_disabled row \<noteq> None \<or> row_revoked row \<noteq> None \<or> expired now row"

definition lastUsedInterval :: duration where
  "lastUsedInterval = minute"

text \<open>Putting one entry into the in-memory map.\<close>

fun put :: "string \<Rightarrow> time \<Rightarrow> (string \<times> time) list \<Rightarrow> (string \<times> time) list" where
  "put k v [] = [(k, v)]"
| "put k v ((k', v') # rest) = (if k = k' then (k, v) # rest else (k', v') # put k v rest)"

definition touch :: "faults \<Rightarrow> time \<Rightarrow> string \<Rightarrow> key_store \<Rightarrow> key_store" where
  "touch faulty now key db =
     (if (case map_of (lastUsed db) key of
            None \<Rightarrow> False | Some previous \<Rightarrow> time_sub now previous < lastUsedInterval)
      then db
      else let seen = put key now (lastUsed db);
               db' = db\<lparr>lastUsed := (if 10000 < length seen then [(key, now)] else seen)\<rparr>
           in if faulty TouchKey then db'
              else snd (update_rows
                     (\<lambda>row. row_id row = key
                        \<and> (case row_used row of None \<Rightarrow> True | Some t \<Rightarrow> t < now))
                     (\<lambda>row. row\<lparr>row_used := Some now\<rparr>) db'))"

definition admit_key ::
    "key_env \<Rightarrow> faults \<Rightarrow> time \<Rightarrow> string \<Rightarrow> string \<Rightarrow> key_row \<Rightarrow> key_store \<Rightarrow> (key_error + AuthInfo) \<times> key_store" where
  "admit_key env faulty now raw ip row db =
     (if row_hash row \<noteq> mac env raw then (Inl InvalidKey, db)
      else if inactive now row then (Inl InactiveKey, db)
      else let r = restrictions_of db (row_id row) in
        case validateIP env ip (AllowedCIDRs r) of Some e \<Rightarrow> (Inl e, db)
        | None \<Rightarrow> (case applyRateLimits env faulty now (row_id row) r db of
            (Some e, db') \<Rightarrow> (Inl e, db')
          | (None, db') \<Rightarrow>
              (Inr \<lparr>info_UserID = row_user row, info_KeyID = row_id row, info_Prefix = row_prefix row,
                    info_Scopes = split_text (row_scopes row), info_Restrictions = r\<rparr>,
               touch faulty now (row_id row) db')))"

definition AuthenticateRequest ::
    "key_env \<Rightarrow> faults \<Rightarrow> time \<Rightarrow> string \<Rightarrow> string \<Rightarrow> key_store \<Rightarrow> (key_error + AuthInfo) \<times> key_store" where
  "AuthenticateRequest env faulty now raw ip db =
     (case split_n 4 CHR ''_'' raw of
        [a, b, p, rest] \<Rightarrow>
          (if a \<noteq> ''bctx'' \<or> b \<noteq> ''live'' then (Inl InvalidKey, db)
           else case (if faulty SelectKey then None
                      else List.find (\<lambda>row. row_prefix row = p) (api_keys db)) of
             None \<Rightarrow> (Inl InvalidKey, db)
           | Some row \<Rightarrow> admit_key env faulty now raw ip row db)
      | _ \<Rightarrow> (Inl InvalidKey, db))"

section \<open>Listing, rotation, status\<close>

definition key_status :: "time \<Rightarrow> key_row \<Rightarrow> string" where
  "key_status now row =
     (if expired now row then ''expired''
      else if row_revoked row \<noteq> None then ''revoked''
      else if row_disabled row \<noteq> None then ''disabled'' else ''active'')"

definition listed_key :: "time \<Rightarrow> key_store \<Rightarrow> key_row \<Rightarrow> Key" where
  "listed_key now db row =
     \<lparr>key_ID = row_id row, key_Name = row_name row, key_Prefix = row_prefix row,
      key_Scopes = split_text (row_scopes row), key_Restrictions = restrictions_of db (row_id row),
      key_ExpiresAt = row_expires row, key_CreatedAt = row_created row,
      key_LastUsedAt = row_used row, key_Status = key_status now row,
      key_ReplacedBy = (case row_replaced row of None \<Rightarrow> [] | Some k \<Rightarrow> k)\<rparr>"

definition ListKeys_op :: "faults \<Rightarrow> time \<Rightarrow> string \<Rightarrow> key_store \<Rightarrow> key_error + Key list" where
  "ListKeys_op faulty now user db =
     (if faulty ListKeys then Inl StatementFault
      else Inr (map (listed_key now db)
             (sort_key (\<lambda>row. - row_created row)
               (filter (\<lambda>row. row_user row = user) (api_keys db)))))"

definition overlap_end :: "time \<Rightarrow> duration \<Rightarrow> time option \<Rightarrow> time" where
  "overlap_end now overlap expires =
     (case expires of None \<Rightarrow> now + overlap | Some t \<Rightarrow> min t (now + overlap))"

definition Rotate ::
    "key_env \<Rightarrow> faults \<Rightarrow> time \<Rightarrow> draws \<Rightarrow> string \<Rightarrow> string \<Rightarrow> duration \<Rightarrow> key_store
     \<Rightarrow> (key_error + Key \<times> string) \<times> key_store" where
  "Rotate env faulty now draws user kid overlap db =
     (if overlap < 0 \<or> 24 * hour < overlap then (Inl OverlapRange, db)
      else if faulty SelectForRotate then (Inl StatementFault, db)
      else case List.find (\<lambda>row. row_id row = kid \<and> row_user row = user) (api_keys db) of
        None \<Rightarrow> (Inl NoRows, db)
      | Some row \<Rightarrow>
          (if inactive now row then (Inl OnlyActiveRotates, db)
           else case CreateWithRestrictions env faulty now draws user (row_name row @ '' (rotated)'')
                       (split_text (row_scopes row)) (row_expires row)
                       (restrictions_of db kid) db of
             (Inl e, db') \<Rightarrow> (Inl e, db')
           | (Inr (next_key, plain), db') \<Rightarrow>
               (let oldEnd = overlap_end now overlap (row_expires row)
                in if faulty UpdateRotated then (Inl StatementFault, db')
                   else (Inr (next_key, plain),
                         snd (update_rows (\<lambda>row. row_id row = kid \<and> row_user row = user)
                           (\<lambda>row. row\<lparr>row_expires := Some oldEnd,
                                     row_replaced := Some (key_ID next_key)\<rparr>) db')))))"

definition SetStatus ::
    "faults \<Rightarrow> time \<Rightarrow> string \<Rightarrow> string \<Rightarrow> string \<Rightarrow> key_store \<Rightarrow> key_error option \<times> key_store" where
  "SetStatus faulty now user kid status db =
     (let change = (\<lambda>P f.
            if faulty UpdateStatus then (Some StatementFault, db)
            else let (n, db') = update_rows
                   (\<lambda>row. row_id row = kid \<and> row_user row = user \<and> P row) f db
                 in if n = 0 then (Some NoRows, db') else (None, db'))
      in if status = ''disabled'' then
           change (\<lambda>row. row_revoked row = None) (\<lambda>row. row\<lparr>row_disabled := Some now\<rparr>)
         else if status = ''enabled'' then
           change (\<lambda>row. row_revoked row = None
                         \<and> (case row_expires row of None \<Rightarrow> True | Some t \<Rightarrow> now < t))
             (\<lambda>row. row\<lparr>row_disabled := None\<rparr>)
         else if status = ''revoked'' then
           change (\<lambda>row. True) (\<lambda>row. row\<lparr>row_revoked := Some now\<rparr>)
         else (Some UnsupportedStatus, db))"

section \<open>Histories of the service\<close>

datatype key_op =
    OpCreate draws string string "string list" "time option" Restrictions
  | OpAuthenticate string string
  | OpScopes string string "string list" bool
  | OpRotate draws string string duration
  | OpStatus string string string

fun key_step :: "key_env \<Rightarrow> key_store \<Rightarrow> faults \<times> time \<times> key_op \<Rightarrow> key_store" where
  "key_step env db (faulty, now, OpCreate draws user name scopes expires r) =
     snd (CreateWithRestrictions env faulty now draws user name scopes expires r db)"
| "key_step env db (faulty, now, OpAuthenticate raw ip) =
     snd (AuthenticateRequest env faulty now raw ip db)"
| "key_step env db (faulty, now, OpScopes user kid scopes admin) =
     snd (updateScopes faulty user kid scopes admin db)"
| "key_step env db (faulty, now, OpRotate draws user kid overlap) =
     snd (Rotate env faulty now draws user kid overlap db)"
| "key_step env db (faulty, now, OpStatus user kid status) =
     snd (SetStatus faulty now user kid status db)"

text \<open>What no statement of the service changes of a row.\<close>

definition valid_scopes :: "key_row \<Rightarrow> bool" where
  "valid_scopes row \<longleftrightarrow> ValidateScopes (split_text (row_scopes row)) = None"

definition same_key :: "key_row \<Rightarrow> key_row \<Rightarrow> bool" where
  "same_key a b \<longleftrightarrow> row_id b = row_id a \<and> row_prefix b = row_prefix a \<and> row_hash b = row_hash a
     \<and> row_user b = row_user a \<and> (row_revoked a \<noteq> None \<longrightarrow> row_revoked b \<noteq> None)
     \<and> (valid_scopes a \<longrightarrow> valid_scopes b)"

lemma scopes_check_None:
  "scopes_check seen scopes = None \<longleftrightarrow>
     (\<forall>s \<in> set scopes. tool_Supports s) \<and> distinct scopes \<and> set scopes \<inter> set seen = {}"
  by (induction seen scopes rule: scopes_check.induct) auto

lemma ValidateScopes_None:
  "ValidateScopes scopes = None \<longleftrightarrow>
     scopes \<noteq> [] \<and> (\<forall>s \<in> set scopes. tool_Supports s) \<and> distinct scopes"
  by (auto simp: ValidateScopes_def scopes_check_None)

lemma join_ne: "ws \<noteq> [] \<Longrightarrow> \<forall>w \<in> set ws. w \<noteq> [] \<Longrightarrow> join_with sep ws \<noteq> []"
  by (cases ws; cases "tl ws") auto

lemma split_join_text:
  "\<forall>w \<in> set ws. comma \<notin> set w \<and> w \<noteq> [] \<Longrightarrow> split_text (join_with [comma] ws) = ws"
  using split_join [of ws comma] join_ne [of ws "[comma]"] by (cases "ws = []") (auto simp: split_text_def)

lemma scopes_text: "ValidateScopes scopes = None \<Longrightarrow> split_text (join_with [comma] scopes) = scopes"
  using tool_name_plain by (intro split_join_text) (auto simp: ValidateScopes_None comma_def)

lemma join_split_text: "join_with [comma] (split_text t) = t"
  by (simp add: split_text_def)

text \<open>
  The contract between the statements and whatever is claimed of the rows for good: inserts
  bring rows with a fresh id and a fresh prefix, updates keep each row's identity.
\<close>

locale row_invariant =
  fixes holds :: "key_row list \<Rightarrow> bool"
  assumes insert_row:
      "holds rows \<Longrightarrow> \<forall>k \<in> set rows. row_id k \<noteq> row_id row \<and> row_prefix k \<noteq> row_prefix row
       \<Longrightarrow> valid_scopes row \<Longrightarrow> holds (rows @ [row])"
    and update_row: "holds rows \<Longrightarrow> \<forall>row. same_key row (f row) \<Longrightarrow> holds (map f rows)"
begin

lemma update_rows_keeps:
  assumes "holds (api_keys db)" "\<And>row. P row \<Longrightarrow> same_key row (f row)"
  shows "holds (api_keys (snd (update_rows P f db)))"
proof -
  have "same_key row (if P row then f row else row)" for row
    using assms(2) by (simp add: same_key_def)
  then show ?thesis using assms(1) by (simp add: update_rows_def update_row)
qed

lemma insert_key_keeps:
  assumes "holds (api_keys db)" "insert_key faulty row limits db = Some db'" "valid_scopes row"
  shows "holds (api_keys db')"
  using assms insert_row [of "api_keys db" row]
  by (auto simp: insert_key_def list_ex_iff split: if_splits)

lemma create_keeps:
  assumes "holds (api_keys db)"
  shows "holds (api_keys (snd (CreateWithRestrictions env faulty now draws user name scopes expires r db)))"
proof -
  have "valid_scopes (new_key_row env now kid user name pre plain ss expires)"
    if "ValidateScopes ss = None" for kid pre plain ss
    using that scopes_text [OF that] by (simp add: valid_scopes_def new_key_row_def)
  then show ?thesis using assms
    by (auto simp: CreateWithRestrictions_def Let_def insert_key_keeps split: option.split prod.split)
qed

lemma status_keeps:
  assumes "holds (api_keys db)"
  shows "holds (api_keys (snd (SetStatus faulty now user kid status db)))"
proof -
  have keeps: "holds (api_keys (snd (update_rows P (\<lambda>row. row\<lparr>row_disabled := d\<rparr>) db)))"
    "holds (api_keys (snd (update_rows P (\<lambda>row. row\<lparr>row_revoked := Some now\<rparr>) db)))" for P d
    using update_rows_keeps [OF assms] by (simp_all add: same_key_def valid_scopes_def)
  show ?thesis
    using assms keeps by (simp add: SetStatus_def Let_def case_prod_unfold)
qed

lemma scopes_keeps:
  assumes "holds (api_keys db)"
  shows "holds (api_keys (snd (updateScopes faulty user kid scopes admin db)))"
proof (cases "ValidateScopes scopes")
  case None
  then have "holds (api_keys (snd (update_rows P
      (\<lambda>row. row\<lparr>row_scopes := join_with [comma] scopes\<rparr>) db)))" for P
    using update_rows_keeps [OF assms] scopes_text [OF None]
    by (simp add: same_key_def valid_scopes_def)
  then show ?thesis using assms None by (simp add: updateScopes_def Let_def case_prod_unfold)
qed (use assms in \<open>simp add: updateScopes_def\<close>)

lemma rotate_keeps:
  assumes "holds (api_keys db)"
  shows "holds (api_keys (snd (Rotate env faulty now draws user kid overlap db)))"
proof -
  have upd: "holds (api_keys (snd (update_rows P
      (\<lambda>row. row\<lparr>row_expires := e, row_replaced := x\<rparr>) db')))" if "holds (api_keys db')" for P e x db'
    using update_rows_keeps [OF that] by (simp add: same_key_def valid_scopes_def)
  show ?thesis
  proof (cases "List.find (\<lambda>row. row_id row = kid \<and> row_user row = user) (api_keys db)")
    case (Some row)
    obtain res db' where c: "CreateWithRestrictions env faulty now draws user
        (row_name row @ '' (rotated)'') (split_text (row_scopes row)) (row_expires row)
        (restrictions_of db kid) db = (res, db')" by force
    with create_keeps [OF assms] have kept: "holds (api_keys db')" by (metis snd_conv)
    show ?thesis
      by (cases res) (simp_all add: Rotate_def Some c Let_def assms kept upd split: prod.split)
  qed (simp add: Rotate_def assms)
qed

lemma run_checks_rows: "api_keys (snd (run_checks env faulty key checks db)) = api_keys db"
  by (induction env faulty key checks db rule: run_checks.induct)
    (simp_all add: Let_def notifyRateLimit_def)

lemma touch_keeps:
  assumes "holds (api_keys db)"
  shows "holds (api_keys (touch faulty now key db))"
proof -
  have "holds (api_keys (snd (update_rows P (\<lambda>row. row\<lparr>row_used := Some now\<rparr>) (db\<lparr>lastUsed := l\<rparr>))))"
    for P l using update_rows_keeps [of "db\<lparr>lastUsed := l\<rparr>" P] assms
    by (simp add: same_key_def valid_scopes_def)
  then show ?thesis using assms by (simp add: touch_def Let_def)
qed

lemma admit_keeps:
  assumes "holds (api_keys db)"
  shows "holds (api_keys (snd (admit_key env faulty now raw ip row db)))"
proof -
  let ?r = "restrictions_of db (row_id row)"
  obtain e db1 where rates: "applyRateLimits env faulty now (row_id row) ?r db = (e, db1)" by force
  then have "api_keys db1 = api_keys db" using run_checks_rows by (metis applyRateLimits_def snd_conv)
  with rates assms show ?thesis
    by (cases e) (simp_all add: admit_key_def Let_def touch_keeps split: option.split)
qed

lemma authenticate_keeps:
  "holds (api_keys db) \<Longrightarrow> holds (api_keys (snd (AuthenticateRequest env faulty now raw ip db)))"
  by (auto simp: AuthenticateRequest_def admit_keeps split: list.split option.split)

lemma step_keeps: "holds (api_keys db) \<Longrightarrow> holds (api_keys (key_step env db step))"
  by (cases "(env, db, step)" rule: key_step.cases)
    (auto intro: create_keeps authenticate_keeps scopes_keeps rotate_keeps status_keeps)

lemma history_keeps: "holds (api_keys db) \<Longrightarrow> holds (api_keys (foldl (key_step env) db steps))"
  by (induction steps arbitrary: db) (auto intro: step_keeps)

end

text \<open>A key id all of whose rows are revoked, and the constraints of the table.\<close>

definition revoked_id :: "string \<Rightarrow> key_row list \<Rightarrow> bool" where
  "revoked_id kid rows \<longleftrightarrow> (\<exists>row \<in> set rows. row_id row = kid)
     \<and> (\<forall>row \<in> set rows. row_id row = kid \<longrightarrow> row_revoked row \<noteq> None)"

definition key_table_ok :: "key_row list \<Rightarrow> bool" where
  "key_table_ok rows \<longleftrightarrow> distinct (map row_id rows) \<and> distinct (map row_prefix rows)
     \<and> (\<forall>row \<in> set rows. valid_scopes row)"

interpretation revoked: row_invariant "revoked_id kid" for kid
  by unfold_locales (auto simp: revoked_id_def same_key_def)

interpretation table: row_invariant key_table_ok
proof
  show "key_table_ok rows \<Longrightarrow> \<forall>k \<in> set rows. row_id k \<noteq> row_id row \<and> row_prefix k \<noteq> row_prefix row
      \<Longrightarrow> valid_scopes row \<Longrightarrow> key_table_ok (rows @ [row])" for rows row
    by (auto simp: key_table_ok_def)
  show "key_table_ok (map f rows)" if "key_table_ok rows" "\<forall>row. same_key row (f row)" for rows f
  proof -
    have eq: "map row_id (map f rows) = map row_id rows"
      "map row_prefix (map f rows) = map row_prefix rows"
      using that(2) by (simp_all add: same_key_def)
    have "\<forall>row \<in> set (map f rows). valid_scopes row"
      using that by (simp add: key_table_ok_def same_key_def)
    then show ?thesis using that(1) unfolding key_table_ok_def eq by blast
  qed
qed

section \<open>Who is let in\<close>

lemma split4_cases:
  "(case ws of [a, b, p, rest] \<Rightarrow> f a b p rest | _ \<Rightarrow> d)
     = (if length ws = 4 then f (ws ! 0) (ws ! 1) (ws ! 2) (ws ! 3) else d)"
  by (auto split: list.split simp: numeral_eq_Suc)

lemma admit_key_cases:
  assumes "admit_key env faulty now raw ip row db = (Inr info, db')"
  obtains db1 where "row_hash row = mac env raw" "\<not> inactive now row"
    "info = \<lparr>info_UserID = row_user row, info_KeyID = row_id row, info_Prefix = row_prefix row,
       info_Scopes = split_text (row_scopes row), info_Restrictions = restrictions_of db (row_id row)\<rparr>"
    "validateIP env ip (AllowedCIDRs (restrictions_of db (row_id row))) = None"
    "applyRateLimits env faulty now (row_id row) (restrictions_of db (row_id row)) db = (None, db1)"
    "db' = touch faulty now (row_id row) db1"
proof -
  let ?r = "restrictions_of db (row_id row)"
  obtain e db1 where "applyRateLimits env faulty now (row_id row) ?r db = (e, db1)" by force
  with assms that show ?thesis
    by (cases "row_hash row = mac env raw"; cases "inactive now row";
        cases "validateIP env ip (AllowedCIDRs ?r)"; cases e) (simp_all add: admit_key_def Let_def)
qed

lemma authenticate_row:
  assumes "AuthenticateRequest env faulty now raw ip db = (Inr info, db')"
  obtains row where "row \<in> set (api_keys db)" "row_prefix row = PrefixOf raw"
    "admit_key env faulty now raw ip row db = (Inr info, db')"
proof -
  let ?ws = "split_n 4 CHR ''_'' raw"
  from assms have ws: "length ?ws = 4" "?ws ! 0 = ''bctx''" "?ws ! 1 = ''live''"
    by (auto simp: AuthenticateRequest_def split4_cases split: if_splits)
  then have p: "PrefixOf raw = ?ws ! 2" by (simp add: PrefixOf_def split4_cases)
  obtain row where row: "List.find (\<lambda>row. row_prefix row = ?ws ! 2) (api_keys db) = Some row"
    "admit_key env faulty now raw ip row db = (Inr info, db')"
    using assms ws by (auto simp: AuthenticateRequest_def split4_cases split: if_splits option.splits)
  then show ?thesis using that find_SomeD [OF row(1)] p by auto
qed

text \<open>The counters of a request that is let in.\<close>

lemma usage_notify [simp]: "usage_count (notifyRateLimit env faulty key kind start db) b = usage_count db b"
  by (simp add: usage_count_def notifyRateLimit_def Let_def)

lemma run_checks_mono: "usage_count db b \<le> usage_count (snd (run_checks env faulty key checks db)) b"
proof (induction env faulty key checks db rule: run_checks.induct)
  case (2 env faulty key kind start limit retry checks db)
  let ?n = "usage_count db (key, kind, start) + 1"
  have "usage_count db b \<le> usage_count (db\<lparr>usage_buckets := (usage_buckets db)((key, kind, start) \<mapsto> ?n)\<rparr>) b"
    by (simp add: usage_count_def)
  then show ?case using 2 by (auto simp: Let_def intro: order_trans)
qed simp

lemma run_checks_counts:
  assumes "run_checks env faulty key checks db = (None, db')" "distinct (map fst checks)"
    "(kind, start, limit, retry) \<in> set checks" "0 < limit"
  shows "usage_count db (key, kind, start) + 1 \<le> usage_count db' (key, kind, start)"
    and "usage_count db (key, kind, start) + 1 \<le> limit"
proof -
  have "usage_count db (key, kind, start) + 1 \<le> usage_count db' (key, kind, start)
        \<and> usage_count db (key, kind, start) + 1 \<le> limit"
    using assms
  proof (induction env faulty key checks db rule: run_checks.induct)
    case (2 env faulty key kind' start' limit' retry' checks db)
    show ?case
    proof (cases "limit' \<le> 0")
      case True
      then show ?thesis using 2 by auto
    next
      case False
      let ?n = "usage_count db (key, kind', start') + 1"
      let ?db = "db\<lparr>usage_buckets := (usage_buckets db)((key, kind', start') \<mapsto> ?n)\<rparr>"
      have go: "?n \<le> limit'" "run_checks env faulty key checks ?db = (None, db')"
        using 2(3) False by (auto simp: Let_def split: if_splits)
      have mono: "usage_count ?db b \<le> usage_count db' b" for b
        using run_checks_mono [of ?db b env faulty key checks] go(2) by simp
      show ?thesis
      proof (cases "kind = kind'")
        case True
        then have eq: "start = start'" "limit = limit'" using 2(4,5) by force+
        have "usage_count ?db (key, kind', start') = ?n" by (simp add: usage_count_def)
        then show ?thesis using mono [of "(key, kind', start')"] go(1) True eq by simp
      next
        case no: False
        have "usage_count ?db (key, kind, start) = usage_count db (key, kind, start)"
          using no by (simp add: usage_count_def)
        moreover have "\<not> faulty (CountCall kind')" using 2(3) False by (auto split: if_splits)
        ultimately show ?thesis
          using 2(2) [of ?n ?db] go 2(4,5,6) False no by (auto simp: Let_def)
      qed
    qed
  qed simp
  then show "usage_count db (key, kind, start) + 1 \<le> usage_count db' (key, kind, start)"
    and "usage_count db (key, kind, start) + 1 \<le> limit" by simp_all
qed

lemma usage_touch [simp]: "usage_count (touch faulty now key db) b = usage_count db b"
  by (simp add: usage_count_def touch_def Let_def update_rows_def)

lemma restrictions_same:
  "restriction_table db' = restriction_table db \<Longrightarrow> restrictions_of db' key = restrictions_of db key"
  by (simp add: restrictions_of_def)

lemma run_checks_restrictions:
  "restriction_table (snd (run_checks env faulty key checks db)) = restriction_table db"
  by (induction env faulty key checks db rule: run_checks.induct)
    (simp_all add: Let_def notifyRateLimit_def)

lemma authenticate_frame:
  "usage_count db b \<le> usage_count (snd (AuthenticateRequest env faulty now raw ip db)) b"
  "restriction_table (snd (AuthenticateRequest env faulty now raw ip db)) = restriction_table db"
proof -
  have admit: "usage_count db b \<le> usage_count (snd (admit_key env faulty now raw ip row db)) b
      \<and> restriction_table (snd (admit_key env faulty now raw ip row db)) = restriction_table db" for row
  proof -
    let ?r = "restrictions_of db (row_id row)"
    obtain e db1 where rates: "applyRateLimits env faulty now (row_id row) ?r db = (e, db1)" by force
    then have "usage_count db b \<le> usage_count db1 b" "restriction_table db1 = restriction_table db"
      using run_checks_mono [of db b] run_checks_restrictions by (metis applyRateLimits_def snd_conv)+
    moreover have "restriction_table (touch faulty now key d) = restriction_table d" for key d
      by (simp add: touch_def Let_def update_rows_def)
    ultimately show ?thesis
      using rates by (cases e) (simp_all add: admit_key_def Let_def split: option.split)
  qed
  show "usage_count db b \<le> usage_count (snd (AuthenticateRequest env faulty now raw ip db)) b"
    "restriction_table (snd (AuthenticateRequest env faulty now raw ip db)) = restriction_table db"
    using admit by (auto simp: AuthenticateRequest_def split: list.split option.split)
qed

section \<open>Properties\<close>

text \<open>
  C14: a revoked key stays revoked. Whatever sequence of operations follows (creations,
  authentications, scope changes, rotations, status changes, with any statements failing), no
  request is ever let in under that key's id again.
\<close>

theorem revoked_key_never_returns:
  assumes "row \<in> set (api_keys db)" "row_revoked row \<noteq> None"
    and "\<forall>other \<in> set (api_keys db). row_id other = row_id row \<longrightarrow> other = row"
    and "AuthenticateRequest env faulty now raw ip (foldl (key_step env) db steps) = (Inr info, db')"
  shows "info_KeyID info \<noteq> row_id row"
proof
  assume id: "info_KeyID info = row_id row"
  have "revoked_id (row_id row) (api_keys db)" using assms(1-3) by (auto simp: revoked_id_def)
  then have dead: "revoked_id (row_id row) (api_keys (foldl (key_step env) db steps))"
    by (rule revoked.history_keeps)
  obtain r where r: "r \<in> set (api_keys (foldl (key_step env) db steps))"
    "admit_key env faulty now raw ip r (foldl (key_step env) db steps) = (Inr info, db')"
    using authenticate_row [OF assms(4)] by metis
  then have "\<not> inactive now r" "row_id r = info_KeyID info"
    by (auto elim: admit_key_cases)
  with dead r(1) id show False by (auto simp: revoked_id_def inactive_def)
qed

text \<open>
  The key table stays well formed: after any sequence of operations no two keys share an
  id or a prefix, and the scopes stored for every key are distinct names of catalogue tools,
  at least one of them.
\<close>

theorem key_table_invariant:
  assumes "key_table_ok (api_keys db)"
  shows "key_table_ok (api_keys (foldl (key_step env) db steps))"
  using assms by (rule table.history_keeps)

fun auth_run ::
    "key_env \<Rightarrow> (faults \<times> time \<times> string \<times> string) list \<Rightarrow> key_store
     \<Rightarrow> (key_error + AuthInfo) list" where
  "auth_run env [] db = []"
| "auth_run env ((faulty, now, raw, ip) # requests) db =
     (let (res, db') = AuthenticateRequest env faulty now raw ip db
      in res # auth_run env requests db')"

definition admitted_as :: "string \<Rightarrow> key_error + AuthInfo \<Rightarrow> bool" where
  "admitted_as key res \<longleftrightarrow> (case res of Inl e \<Rightarrow> False | Inr info \<Rightarrow> info_KeyID info = key)"

definition window_limits :: "Restrictions \<Rightarrow> (string \<times> duration \<times> int) set" where
  "window_limits r = {(''minute'', minute, RatePerMinute r), (''hour'', hour, RatePerHour r),
     (''day'', day, RatePerDay r)}"

lemma admitted_counts:
  assumes "AuthenticateRequest env faulty now raw ip db = (Inr info, db')"
    "(kind, width, limit) \<in> window_limits (restrictions_of db (info_KeyID info))" "0 < limit"
  shows "usage_count db (info_KeyID info, kind, window_start width now) + 1
           \<le> min limit (usage_count db' (info_KeyID info, kind, window_start width now))"
proof -
  obtain row where row: "admit_key env faulty now raw ip row db = (Inr info, db')"
    using authenticate_row [OF assms(1)] by metis
  obtain db1 where db1: "row_id row = info_KeyID info" "db' = touch faulty now (row_id row) db1"
    "run_checks env faulty (row_id row) (rate_checks now (restrictions_of db (row_id row))) db
       = (None, db1)"
    using row by (elim admit_key_cases) (auto simp: applyRateLimits_def)
  let ?checks = "rate_checks now (restrictions_of db (row_id row))"
  have "(kind, window_start width now, limit, window_start width now + width - now) \<in> set ?checks"
    using assms(2) db1(1) by (auto simp: window_limits_def rate_checks_def)
  moreover have "distinct (map fst ?checks)" by (simp add: rate_checks_def)
  ultimately show ?thesis
    using run_checks_counts [OF db1(3), of kind _ limit] assms(3) db1(1,2) by force
qed

text \<open>
  C17: a rate limit is never exceeded. Of any requests that fall into one window, at most the
  limit's number are let in under a key, the ones counted before included (or none at all, if
  the window was already over the limit).
\<close>

theorem rate_limit_holds:
  assumes "(kind, width, limit) \<in> window_limits (restrictions_of db key)" "0 < limit"
    and "\<forall>(faulty, now, raw, ip) \<in> set requests. window_start width now = start"
  shows "int (length (filter (admitted_as key) (auth_run env requests db)))
           + usage_count db (key, kind, start)
         \<le> max limit (usage_count db (key, kind, start))"
  using assms
proof (induction requests arbitrary: db)
  case (Cons req requests)
  obtain faulty now raw ip where req: "req = (faulty, now, raw, ip)" by (cases req) auto
  obtain res db' where auth: "AuthenticateRequest env faulty now raw ip db = (res, db')" by force
  have db': "db' = snd (AuthenticateRequest env faulty now raw ip db)" using auth by simp
  have frame: "restrictions_of db' key = restrictions_of db key"
    "usage_count db (key, kind, start) \<le> usage_count db' (key, kind, start)"
    unfolding db' by (rule restrictions_same [OF authenticate_frame(2)], rule authenticate_frame(1))
  have window: "window_start width now = start"
    "\<forall>(faulty, now, raw, ip) \<in> set requests. window_start width now = start"
    using Cons.prems(3) req by auto
  have IH: "int (length (filter (admitted_as key) (auth_run env requests db')))
           + usage_count db' (key, kind, start) \<le> max limit (usage_count db' (key, kind, start))"
    by (rule Cons.IH) (use Cons.prems(1,2) window(2) in \<open>simp_all only: frame(1)\<close>)
  show ?case
  proof (cases "admitted_as key res")
    case True
    then obtain info where "res = Inr info" "info_KeyID info = key"
      by (auto simp: admitted_as_def split: sum.splits)
    with admitted_counts [of env faulty now raw ip db info db' kind width limit] auth Cons.prems
    have "usage_count db (key, kind, start) + 1 \<le> min limit (usage_count db' (key, kind, start))"
      using window by simp
    then show ?thesis using IH True req auth by (auto simp: max_def split: if_splits)
  next
    case False
    then show ?thesis using IH frame(2) req auth by (auto simp: max_def split: if_splits)
  qed
qed simp

text \<open>What a successful creation did.\<close>

lemma create_cases:
  assumes "CreateWithRestrictions env faulty now (Some ib, Some pb, Some sb) user name requested
      expires r db = (Inr (k, plain), db')"
  shows "plain = plain_key pb sb" "key_ID k = hex_encode hex_digit ib"
    "key_Prefix k = hex_encode upper_hex_digit pb" "key_Scopes k = default_scopes requested"
    "key_ExpiresAt k = expires" "ValidateScopes (key_Scopes k) = None"
    "validateRestrictions env r = None" "length name \<le> 100"
    "insert_key faulty (new_key_row env now (key_ID k) user name (key_Prefix k) plain
       (key_Scopes k) expires) (restriction_texts r) db = Some db'"
  using assms by (auto simp: CreateWithRestrictions_def Let_def split: if_splits option.splits)

lemma insert_key_cases:
  assumes "insert_key faulty row limits db = Some db'"
  shows "api_keys db' = api_keys db @ [row]"
    "restriction_table db' = (restriction_table db)(row_id row \<mapsto> limits)"
    "\<forall>k \<in> set (api_keys db). row_id k \<noteq> row_id row \<and> row_prefix k \<noteq> row_prefix row"
  using assms by (auto simp: insert_key_def list_ex_iff split: if_splits)

lemma repository_form_ne: "repository_form repo \<Longrightarrow> repo \<noteq> []"
  by (auto simp: repository_form_def trim_prefix_def split: if_splits)

lemma restriction_texts_back:
  assumes "validateRestrictions env r = None"
    and "\<forall>c. parse_prefix env c \<noteq> None \<longrightarrow> comma \<notin> set c \<and> c \<noteq> []"
    and "\<forall>repo \<in> set (AllowedRepositories r). comma \<notin> set repo"
    and "restriction_table db key = Some (restriction_texts r)"
  shows "restrictions_of db key = r"
proof -
  have "parse_prefix env c \<noteq> None" if "c \<in> set (AllowedCIDRs r)" for c
    using assms(1) that by (auto simp: validateRestrictions_def find_None_iff_all split: option.splits)
  then have "split_text (join_with [comma] (AllowedCIDRs r)) = AllowedCIDRs r"
    using assms(2) by (intro split_join_text) blast
  moreover have "repository_form repo" if "repo \<in> set (AllowedRepositories r)" for repo
    using assms(1) that by (auto simp: validateRestrictions_def find_None_iff_all split: option.splits)
  then have "split_text (join_with [comma] (AllowedRepositories r)) = AllowedRepositories r"
    using assms(3) repository_form_ne by (intro split_join_text) blast
  ultimately show ?thesis using assms(4) by (simp add: restrictions_of_def restriction_texts_def)
qed

lemma upper_hex_no_underscore:
  assumes "\<forall>b \<in> set bs. b < 256"
  shows "CHR ''_'' \<notin> set (hex_encode upper_hex_digit bs)"
proof -
  have "set (''0123456789ABCDEF'') \<inter> {CHR ''_''} = {}" by simp
  moreover have "upper_hex_digit n \<in> set (''0123456789ABCDEF'')" if "n < 16" for n
    using that unfolding upper_hex_digit_def by (intro nth_mem) simp
  ultimately have "upper_hex_digit n \<noteq> CHR ''_''" if "n < 16" for n using that by blast
  then have "upper_hex_digit (b div 16) \<noteq> CHR ''_''" "upper_hex_digit (b mod 16) \<noteq> CHR ''_''"
    if "b \<in> set bs" for b
    using assms that by (simp_all add: less_mult_imp_div_less)
  then show ?thesis by (fastforce simp: hex_encode_def)
qed

lemma plain_key_parts:
  assumes "\<forall>b \<in> set pb. b < 256"
  shows "split_n 4 CHR ''_'' (plain_key pb sb)
    = [''bctx'', ''live'', hex_encode upper_hex_digit pb, raw_url_base64 sb]"
  using upper_hex_no_underscore [OF assms]
  by (simp add: plain_key_def PlainPrefix_def numeral_eq_Suc index_byte_append)

lemma find_appended:
  "\<forall>x \<in> set xs. \<not> P x \<Longrightarrow> P y \<Longrightarrow> List.find P (xs @ [y]) = Some y"
  by (induction xs) auto

text \<open>
  An issued key works. The text handed out by a creation is let in under that key's id,
  with exactly the scopes and restrictions it was created with, by any later request from an
  allowed address before the expiry and within the rate limits. (The address parser is assumed
  not to accept an empty text or one with a comma as a prefix.)
\<close>

theorem created_key_authenticates:
  assumes "CreateWithRestrictions env faulty now (Some ib, Some pb, Some sb) user name requested
      expires r db = (Inr (k, plain), db1)"
    and "\<forall>b \<in> set pb. b < 256"
    and "\<forall>c. parse_prefix env c \<noteq> None \<longrightarrow> comma \<notin> set c \<and> c \<noteq> []"
    and "\<forall>repo \<in> set (AllowedRepositories r). comma \<notin> set repo"
    and "\<not> faulty' SelectKey" "\<forall>t. expires = Some t \<longrightarrow> later \<le> t"
    and "validateIP env ip (AllowedCIDRs r) = None"
    and "applyRateLimits env faulty' later (key_ID k) r db1 = (None, db2)"
  shows "AuthenticateRequest env faulty' later plain ip db1
    = (Inr \<lparr>info_UserID = user, info_KeyID = key_ID k, info_Prefix = key_Prefix k,
            info_Scopes = key_Scopes k, info_Restrictions = r\<rparr>,
       touch faulty' later (key_ID k) db2)"
proof -
  note created = create_cases [OF assms(1)]
  let ?row = "new_key_row env now (key_ID k) user name (key_Prefix k) plain (key_Scopes k) expires"
  note stored = insert_key_cases [OF created(9)]
  have "restriction_table db1 (key_ID k) = Some (restriction_texts r)"
    using stored(2) by (simp add: new_key_row_def)
  then have r: "restrictions_of db1 (key_ID k) = r"
    using restriction_texts_back created(7) assms(3,4) by blast
  have "List.find (\<lambda>row. row_prefix row = key_Prefix k) (api_keys db1) = Some ?row"
    unfolding stored(1) by (rule find_appended) (use stored(3) in \<open>auto simp: new_key_row_def\<close>)
  then have "AuthenticateRequest env faulty' later plain ip db1
      = admit_key env faulty' later plain ip ?row db1"
    using plain_key_parts [OF assms(2), of sb] created(1,3) assms(5)
    by (simp add: AuthenticateRequest_def)
  moreover have "\<not> inactive later ?row"
    using assms(6) by (auto simp: inactive_def expired_def new_key_row_def split: option.split)
  ultimately show ?thesis
    using r assms(7,8) scopes_text [OF created(6)]
    by (simp add: admit_key_def Let_def new_key_row_def)
qed

lemma rotate_cases:
  assumes "Rotate env faulty now draws user kid overlap db = (Inr (k, plain), db')"
  obtains old db1 where "old \<in> set (api_keys db)" "row_id old = kid" "row_user old = user"
    "\<not> inactive now old"
    "CreateWithRestrictions env faulty now draws user (row_name old @ '' (rotated)'')
       (split_text (row_scopes old)) (row_expires old) (restrictions_of db kid) db
       = (Inr (k, plain), db1)"
    "db' = snd (update_rows (\<lambda>row. row_id row = kid \<and> row_user row = user)
       (\<lambda>row. row\<lparr>row_expires := Some (overlap_end now overlap (row_expires old)),
                 row_replaced := Some (key_ID k)\<rparr>) db1)"
proof -
  from assms obtain old where
    old: "List.find (\<lambda>row. row_id row = kid \<and> row_user row = user) (api_keys db) = Some old"
    "\<not> inactive now old"
    by (auto simp: Rotate_def split: if_splits option.splits)
  obtain res db1 where c: "CreateWithRestrictions env faulty now draws user
      (row_name old @ '' (rotated)'') (split_text (row_scopes old)) (row_expires old)
      (restrictions_of db kid) db = (res, db1)" by force
  show ?thesis
  proof (cases res)
    case (Inl e)
    then show ?thesis using assms old c by (simp add: Rotate_def split: if_splits)
  next
    case (Inr kp)
    obtain k' plain' where "kp = (k', plain')" by force
    let ?upd = "\<lambda>x. snd (update_rows (\<lambda>row. row_id row = kid \<and> row_user row = user)
       (\<lambda>row. row\<lparr>row_expires := Some (overlap_end now overlap (row_expires old)),
                 row_replaced := Some (key_ID x)\<rparr>) db1)"
    have "(Inr (k', plain'), ?upd k') = (Inr (k, plain) :: key_error + Key \<times> string, db')"
      using Inr \<open>kp = (k', plain')\<close> assms old c
      by (simp add: Rotate_def Let_def split: if_splits) (elim conjE, simp)
    then have eq: "k' = k" "plain' = plain" "db' = ?upd k" by auto
    with c Inr \<open>kp = (k', plain')\<close>
    have create: "CreateWithRestrictions env faulty now draws user (row_name old @ '' (rotated)'')
      (split_text (row_scopes old)) (row_expires old) (restrictions_of db kid) db
      = (Inr (k, plain), db1)" by simp
    show ?thesis
      by (rule that [OF _ _ _ old(2) create eq(3)]) (use find_SomeD [OF old(1)] in simp_all)
  qed
qed

lemma update_rows_mem:
  "row \<in> set (api_keys db) \<Longrightarrow>
     (if P row then f row else row) \<in> set (api_keys (snd (update_rows P f db)))"
  by (simp add: update_rows_def image_eqI del: if_image_distrib)

text \<open>
  Rotation changes nothing but the secret. The new key has the scopes, the restrictions
  and the expiry of the rotated one, and the old key stops working at the end of the overlap,
  or earlier if that is when it expired anyway.
\<close>

theorem rotate_carries_over:
  assumes "Rotate env faulty now (Some ib, Some pb, Some sb) user kid overlap db
      = (Inr (k, plain), db')"
    and "key_table_ok (api_keys db)"
  shows "\<exists>old \<in> set (api_keys db). row_id old = kid \<and> \<not> inactive now old
    \<and> key_Scopes k = split_text (row_scopes old) \<and> key_ExpiresAt k = row_expires old
    \<and> restrictions_of db' (key_ID k) = restrictions_of db kid
    \<and> (\<exists>row \<in> set (api_keys db'). row_id row = key_ID k \<and> row_prefix row = key_Prefix k
         \<and> row_scopes row = row_scopes old \<and> row_expires row = row_expires old)
    \<and> (\<exists>row \<in> set (api_keys db'). row_id row = kid \<and> row_replaced row = Some (key_ID k)
         \<and> row_expires row = Some (overlap_end now overlap (row_expires old)))"
proof -
  obtain old db1 where old: "old \<in> set (api_keys db)" "row_id old = kid" "row_user old = user"
    "\<not> inactive now old"
    and create: "CreateWithRestrictions env faulty now (Some ib, Some pb, Some sb) user
      (row_name old @ '' (rotated)'') (split_text (row_scopes old)) (row_expires old)
      (restrictions_of db kid) db = (Inr (k, plain), db1)"
    and db': "db' = snd (update_rows (\<lambda>row. row_id row = kid \<and> row_user row = user)
       (\<lambda>row. row\<lparr>row_expires := Some (overlap_end now overlap (row_expires old)),
                 row_replaced := Some (key_ID k)\<rparr>) db1)"
    by (rule rotate_cases [OF assms(1)])
  note created = create_cases [OF create]
  note stored = insert_key_cases [OF created(9)]
  have "split_text (row_scopes old) \<noteq> []"
    using assms(2) old(1) by (auto simp: key_table_ok_def valid_scopes_def ValidateScopes_None)
  then have scopes: "key_Scopes k = split_text (row_scopes old)"
    using created(4) by (simp add: default_scopes_def)
  have fresh: "key_ID k \<noteq> kid" using stored(3) old(1,2) by (auto simp: new_key_row_def)
  have "restriction_table db' (key_ID k) = Some (restriction_texts (restrictions_of db kid))"
    using stored(2) db' by (simp add: update_rows_def new_key_row_def)
  then have limits: "restrictions_of db' (key_ID k) = restrictions_of db kid"
    by (simp add: restrictions_of_def restriction_texts_def join_split_text Let_def)
  let ?new = "new_key_row env now (key_ID k) user (row_name old @ '' (rotated)'') (key_Prefix k)
    plain (key_Scopes k) (row_expires old)"
  have new: "?new \<in> set (api_keys db')"
    using fresh db' stored(1) by (simp add: update_rows_def new_key_row_def)
  have fields: "row_id ?new = key_ID k" "row_prefix ?new = key_Prefix k"
    "row_scopes ?new = row_scopes old" "row_expires ?new = row_expires old"
    by (simp_all add: new_key_row_def scopes join_split_text)
  have ended: "\<exists>row \<in> set (api_keys db'). row_id row = kid \<and> row_replaced row = Some (key_ID k)
      \<and> row_expires row = Some (overlap_end now overlap (row_expires old))"
  proof (rule bexI)
    have "old \<in> set (api_keys db1)" using old(1) stored(1) by simp
    from update_rows_mem [OF this] old(2,3)
    show "old\<lparr>row_expires := Some (overlap_end now overlap (row_expires old)),
        row_replaced := Some (key_ID k)\<rparr> \<in> set (api_keys db')"
      unfolding db' by (metis (mono_tags, lifting))
  qed (simp_all add: old(2))
  show ?thesis
    by (rule bexI [OF _ old(1)], intro conjI old(2,4) scopes created(5) limits ended bexI [OF _ new] fields)
qed

lemma create_name:
  "CreateWithRestrictions env faulty now draws user name requested expires r db = (Inr kp, db')
   \<Longrightarrow> length name \<le> 100"
  by (auto simp: CreateWithRestrictions_def split: if_splits)

text \<open>
  A key whose name has more than 90 bytes cannot be rotated: the suffix added to the name
  of the replacement runs into the creation's own length check. A name grows by ten bytes with
  every rotation, so every key reaches this point after at most ten of them.
\<close>

theorem rotate_long_name_fails:
  assumes "\<forall>row \<in> set (api_keys db). row_id row = kid \<longrightarrow> 90 < length (row_name row)"
  shows "\<exists>e. fst (Rotate env faulty now draws user kid overlap db) = Inl e"
proof (rule ccontr)
  assume "\<not> ?thesis"
  then obtain k plain db' where "Rotate env faulty now draws user kid overlap db = (Inr (k, plain), db')"
    by (cases "Rotate env faulty now draws user kid overlap db"; cases "fst (Rotate env faulty now draws user kid overlap db)")
      auto
  then obtain old db1 where "old \<in> set (api_keys db)" "row_id old = kid"
    "CreateWithRestrictions env faulty now draws user (row_name old @ '' (rotated)'')
       (split_text (row_scopes old)) (row_expires old) (restrictions_of db kid) db
       = (Inr (k, plain), db1)" by (rule rotate_cases)
  with create_name [OF this(3)] assms show False by auto
qed

section \<open>Witnesses\<close>

definition demo_env :: key_env where
  "demo_env = \<lparr>mac = (\<lambda>s. s), parse_addr = (\<lambda>s. Some 1),
     parse_prefix = (\<lambda>s. if s = [] \<or> comma \<in> set s then None else Some (\<lambda>n. True)),
     format_minute = (\<lambda>t. []), alert_loader = None\<rparr>"

definition demo_row :: "string \<Rightarrow> string \<Rightarrow> time option \<Rightarrow> key_row" where
  "demo_row kid pre revoked_at =
     \<lparr>row_id = kid, row_user = ''u'', row_name = ''agent'', row_prefix = pre,
      row_hash = ''bctx_live_'' @ pre @ ''_s'', row_scopes = ''query-docs'', row_expires = None,
      row_disabled = None, row_revoked = revoked_at, row_used = None, row_created = 0,
      row_replaced = None\<rparr>"

definition demo_store :: key_store where
  "demo_store = \<lparr>api_keys = [demo_row ''k1'' ''AA'' (Some 5), demo_row ''k2'' ''BB'' None],
     restriction_table = [''k2'' \<mapsto> \<lparr>row_cidrs = [], row_repos = [], row_minute = 5, row_hour = 0,
       row_day = 0\<rparr>], usage_buckets = Map.empty, notices = [], lastUsed = []\<rparr>"

abbreviation no_fault :: faults where "no_fault \<equiv> \<lambda>stmt. False"

lemma demo_parts: "split_n 4 CHR ''_'' ''bctx_live_BB_s'' = [''bctx'', ''live'', ''BB'', ''s'']"
  by (simp add: numeral_eq_Suc)

lemma demo_authenticates:
  "\<exists>info db'. AuthenticateRequest demo_env no_fault 7 ''bctx_live_BB_s'' [] demo_store = (Inr info, db')"
  by (simp add: AuthenticateRequest_def admit_key_def demo_env_def demo_row_def demo_store_def
      demo_parts inactive_def expired_def validateIP_def restrictions_of_def split_text_def
      applyRateLimits_def rate_checks_def usage_count_def comma_def Let_def)

theorem revoked_key_never_returns_witness:
  "\<exists>info db'. AuthenticateRequest demo_env no_fault 7 ''bctx_live_BB_s'' []
       (foldl (key_step demo_env) demo_store []) = (Inr info, db')
     \<and> info_KeyID info \<noteq> row_id (demo_row ''k1'' ''AA'' (Some 5))"
proof -
  obtain info db' where auth: "AuthenticateRequest demo_env no_fault 7 ''bctx_live_BB_s'' []
       (foldl (key_step demo_env) demo_store []) = (Inr info, db')"
    using demo_authenticates by auto
  have "demo_row ''k1'' ''AA'' (Some 5) \<in> set (api_keys demo_store)"
    "row_revoked (demo_row ''k1'' ''AA'' (Some 5)) \<noteq> None"
    "\<forall>other \<in> set (api_keys demo_store). row_id other = row_id (demo_row ''k1'' ''AA'' (Some 5))
       \<longrightarrow> other = demo_row ''k1'' ''AA'' (Some 5)"
    by (simp_all add: demo_store_def demo_row_def)
  from revoked_key_never_returns [OF this auth] auth show ?thesis by blast
qed

lemma demo_table_ok: "key_table_ok (api_keys demo_store)"
  by (simp add: key_table_ok_def demo_store_def demo_row_def valid_scopes_def ValidateScopes_None
      split_text_def comma_def tool_Supports_def tool_names_def)

theorem key_table_invariant_witness:
  "key_table_ok (api_keys (foldl (key_step demo_env) demo_store
     [(no_fault, 9, OpStatus ''u'' ''k2'' ''revoked''),
      (no_fault, 10, OpAuthenticate ''bctx_live_BB_s'' [])]))"
  by (rule key_table_invariant) (rule demo_table_ok)

theorem rate_limit_holds_witness:
  "int (length (filter (admitted_as ''k2'')
       (auth_run demo_env [(no_fault, 7, ''bctx_live_BB_s'', [])] demo_store)))
     + usage_count demo_store (''k2'', ''minute'', 0)
   \<le> max 5 (usage_count demo_store (''k2'', ''minute'', 0))"
proof (rule rate_limit_holds)
  show "(''minute'', minute, 5) \<in> window_limits (restrictions_of demo_store ''k2'')"
    by (simp add: window_limits_def restrictions_of_def demo_store_def)
qed (simp_all add: window_start_def)

theorem rotate_long_name_fails_witness:
  "\<exists>e. fst (Rotate demo_env no_fault 7 (Some [1], Some [2], Some [3]) ''u'' ''k1'' 0
     (demo_store\<lparr>api_keys := [demo_row ''k1'' ''AA'' None\<lparr>row_name := replicate 91 CHR ''x''\<rparr>]\<rparr>)) = Inl e"
  by (rule rotate_long_name_fails) simp

text \<open>An issued key and its rotation.\<close>

definition empty_store :: key_store where
  "empty_store = \<lparr>api_keys = [], restriction_table = Map.empty, usage_buckets = Map.empty,
     notices = [], lastUsed = []\<rparr>"

lemma demo_create:
  assumes "\<forall>k \<in> set (api_keys db). row_id k \<noteq> ''01'' \<and> row_prefix k \<noteq> ''AB''"
    "restriction_table db ''01'' = None" "0 < length name" "length name \<le> 100"
  shows "\<exists>k db1. CreateWithRestrictions demo_env no_fault now (Some [1], Some [171], Some [0]) ''u''
      name [''query-docs''] None no_restrictions db = (Inr (k, plain_key [171] [0]), db1)"
  using assms
  by (auto simp: CreateWithRestrictions_def default_scopes_def ValidateScopes_def tool_Supports_def
      tool_names_def validateRestrictions_def no_restrictions_def insert_key_def new_key_row_def
      hex_encode_def hex_digit_def upper_hex_digit_def list_ex_iff Let_def)

theorem created_key_authenticates_witness:
  "\<exists>k db1 db2. CreateWithRestrictions demo_env no_fault 3 (Some [1], Some [171], Some [0]) ''u''
      ''agent'' [''query-docs''] None no_restrictions empty_store = (Inr (k, plain_key [171] [0]), db1)
    \<and> AuthenticateRequest demo_env no_fault 4 (plain_key [171] [0]) [] db1
      = (Inr \<lparr>info_UserID = ''u'', info_KeyID = key_ID k, info_Prefix = key_Prefix k,
            info_Scopes = key_Scopes k, info_Restrictions = no_restrictions\<rparr>,
         touch no_fault 4 (key_ID k) db2)"
proof -
  obtain k db1 where c: "CreateWithRestrictions demo_env no_fault 3 (Some [1], Some [171], Some [0]) ''u''
      ''agent'' [''query-docs''] None no_restrictions empty_store = (Inr (k, plain_key [171] [0]), db1)"
    using demo_create [where db = empty_store and name = "''agent''" and now = 3]
    by (force simp: empty_store_def)
  have "applyRateLimits demo_env no_fault 4 (key_ID k) no_restrictions db1 = (None, db1)"
    by (simp add: applyRateLimits_def rate_checks_def no_restrictions_def)
  with created_key_authenticates [OF c, of no_fault 4 "[]" db1] c show ?thesis
    by (auto simp: demo_env_def no_restrictions_def validateIP_def)
qed

theorem rotate_carries_over_witness:
  "\<exists>k plain db'. Rotate demo_env no_fault 7 (Some [1], Some [171], Some [0]) ''u'' ''k2'' 5
       (demo_store\<lparr>restriction_table := Map.empty\<rparr>) = (Inr (k, plain), db')
     \<and> key_Scopes k = [''query-docs''] \<and> key_ExpiresAt k = None
     \<and> (\<exists>row \<in> set (api_keys db'). row_id row = ''k2'' \<and> row_expires row = Some 12)"
proof -
  let ?db = "demo_store\<lparr>restriction_table := Map.empty\<rparr>"
  obtain k db1 where c: "CreateWithRestrictions demo_env no_fault 7 (Some [1], Some [171], Some [0]) ''u''
      (''agent'' @ '' (rotated)'') [''query-docs''] None no_restrictions ?db = (Inr (k, plain_key [171] [0]), db1)"
    using demo_create [where db = ?db and name = "''agent'' @ '' (rotated)''" and now = 7]
    by (force simp: demo_store_def demo_row_def)
  have r: "restrictions_of ?db ''k2'' = no_restrictions"
    by (simp add: restrictions_of_def no_restrictions_def no_texts_def split_text_def)
  obtain db' where rot: "Rotate demo_env no_fault 7 (Some [1], Some [171], Some [0]) ''u'' ''k2'' 5 ?db
      = (Inr (k, plain_key [171] [0]), db')"
    using c r by (simp add: Rotate_def demo_store_def demo_row_def inactive_def expired_def
        split_text_def comma_def Let_def)
  have "key_table_ok (api_keys ?db)" using demo_table_ok by simp
  from rotate_carries_over [OF rot this] rot show ?thesis
    by (auto simp: demo_store_def demo_row_def split_text_def comma_def overlap_end_def)
qed

end
