(* ===== verification/JobQueue.thy ===== *)
theory JobQueue
  imports Breaker
begin

text \<open>
  The indexing worker: \<^verbatim>\<open>internal/worker/worker.go\<close>. The rows of \<^verbatim>\<open>index_jobs\<close>,
  \<^verbatim>\<open>repositories\<close> and \<^verbatim>\<open>repository_ref_states\<close> and the notifications are the fields
  of one record. The circuit breaker is reached through the interface \<open>source_health\<close> of
  theory Breaker; the source adapters, the embedding provider and the indexer that a job calls
  are arguments. A statement that fails is a value of \<open>fault\<close>. Replicas share the tables, so
  the histories at the end interleave the steps of any number of workers.
\<close>

section \<open>Rows\<close>

record index_job =
  job_id :: string
  job_repo :: string
  job_ref :: string
  job_status :: string
  job_attempts :: int
  job_next :: time
  job_created :: time
  job_started :: "time option"
  job_completed :: "time option"
  job_error :: string
  job_outage :: "time option"
  job_claimed :: string

record repo_row =
  repo_library :: string
  repo_source :: string
  repo_external :: string
  repo_project :: string
  repo_slug :: string
  repo_default :: string
  repo_enabled :: bool

record queue =
  index_jobs :: "index_job list"
  repositories :: "string \<rightharpoonup> repo_row"
  ref_embedding :: "(string \<times> string) \<rightharpoonup> (string \<times> string)"
  alerts :: "(string \<times> string) \<rightharpoonup> (string \<times> string)"

text \<open>A claimed job, as the worker holds it in memory.\<close>

record claimed =
  c_ID :: string
  c_Repo :: string
  c_Ref :: string
  c_Attempts :: int
  c_StartedAt :: time

record worker =
  w_maxAttempts :: int
  w_lease :: duration
  w_timeout :: duration
  w_poll :: duration
  w_identity :: string

datatype job_statement =
    ClaimJob | RecoverJobs | CompleteJob | RetryJob | PauseJob | ReadWarning | WriteWarning
  | WriteRefState | CommitWarning | ReadOutage | WriteAlert | ReadSource | LoadRepository
  | ReadLibrary

type_synonym job_faults = "job_statement \<Rightarrow> go_error option"

section \<open>Configuration\<close>

definition jobTimeout :: duration where
  "jobTimeout = 30 * minute"

definition JobLeaseDuration :: duration where
  "JobLeaseDuration = jobTimeout + 5 * minute"

definition DefaultPollInterval :: duration where
  "DefaultPollInterval = 2 * second"

definition OutageReportedAfter :: duration where
  "OutageReportedAfter = hour"

definition pausedRequeueDelay :: duration where
  "pausedRequeueDelay = 45 * second"

definition new_worker :: "string \<Rightarrow> worker" where
  "new_worker identity = \<lparr>w_maxAttempts = 5, w_lease = JobLeaseDuration, w_timeout = jobTimeout,
     w_poll = DefaultPollInterval, w_identity = identity\<rparr>"

definition SetPollInterval :: "duration \<Rightarrow> worker \<Rightarrow> worker" where
  "SetPollInterval d w = (if 0 < d then w\<lparr>w_poll := d\<rparr> else w)"

definition SetIdentity :: "string \<Rightarrow> worker \<Rightarrow> worker" where
  "SetIdentity name w = (if trim_space name \<noteq> [] then w\<lparr>w_identity := name\<rparr> else w)"

definition truncate_bytes :: "string \<Rightarrow> nat \<Rightarrow> string" where
  "truncate_bytes s n = (if n < length s then take n s else s)"

section \<open>Claiming\<close>

text \<open>ORDER BY created_at LIMIT 1: the first of the oldest rows that match.\<close>

fun oldest :: "index_job list \<Rightarrow> index_job option" where
  "oldest [] = None"
| "oldest (j # js) =
     (case oldest js of
        None \<Rightarrow> Some j
      | Some k \<Rightarrow> Some (if job_created j \<le> job_created k then j else k))"

definition due :: "time \<Rightarrow> index_job \<Rightarrow> bool" where
  "due now j \<longleftrightarrow> job_status j = ''pending'' \<and> job_next j \<le> now"

definition update_jobs :: "(index_job \<Rightarrow> bool) \<Rightarrow> (index_job \<Rightarrow> index_job) \<Rightarrow> queue \<Rightarrow> nat \<times> queue" where
  "update_jobs P f q =
     (length (filter P (index_jobs q)),
      q\<lparr>index_jobs := map (\<lambda>j. if P j then f j else j) (index_jobs q)\<rparr>)"

definition claimed_of :: "time \<Rightarrow> index_job \<Rightarrow> claimed" where
  "claimed_of now j = \<lparr>c_ID = job_id j, c_Repo = job_repo j, c_Ref = job_ref j,
     c_Attempts = job_attempts j + 1, c_StartedAt = now\<rparr>"

definition claim :: "job_faults \<Rightarrow> worker \<Rightarrow> time \<Rightarrow> queue \<Rightarrow> (go_error + claimed option) \<times> queue" where
  "claim fault w now q =
     (case fault ClaimJob of
        Some e \<Rightarrow> (Inl e, q)
      | None \<Rightarrow> (case oldest (filter (due now) (index_jobs q)) of
          None \<Rightarrow> (Inr None, q)
        | Some j \<Rightarrow>
            (Inr (Some (claimed_of now j)),
             snd (update_jobs (\<lambda>k. job_id k = job_id j)
               (\<lambda>k. k\<lparr>job_status := ''running'', job_attempts := job_attempts k + 1,
                      job_started := Some now, job_claimed := w_identity w\<rparr>) q))))"

definition owned :: "claimed \<Rightarrow> index_job \<Rightarrow> bool" where
  "owned c j \<longleftrightarrow> job_id j = c_ID c \<and> job_status j = ''running'' \<and> job_started j = Some (c_StartedAt c)"

definition errJobLeaseLost :: go_error where
  "errJobLeaseLost = Plain ''index job lease is no longer owned by this worker''"

definition requireOwnedLease :: "nat \<Rightarrow> go_error option" where
  "requireOwnedLease affected = (if affected \<noteq> 1 then Some errJobLeaseLost else None)"

text \<open>An update guarded by the lease, and the error it reports.\<close>

definition lease_update ::
    "job_faults \<Rightarrow> job_statement \<Rightarrow> claimed \<Rightarrow> (index_job \<Rightarrow> index_job) \<Rightarrow> queue \<Rightarrow> go_error option \<times> queue" where
  "lease_update fault stmt c f q =
     (case fault stmt of
        Some e \<Rightarrow> (Some e, q)
      | None \<Rightarrow> (let (n, q') = update_jobs (owned c) f q in (requireOwnedLease n, q')))"

definition effective_lease :: "worker \<Rightarrow> duration" where
  "effective_lease w = (if w_lease w \<le> 0 then JobLeaseDuration else w_lease w)"

definition RecoverStaleJobs ::
    "job_faults \<Rightarrow> worker \<Rightarrow> time \<Rightarrow> queue \<Rightarrow> (go_error + nat) \<times> queue" where
  "RecoverStaleJobs fault w now q =
     (let lease = effective_lease w in
      case fault RecoverJobs of
        Some e \<Rightarrow> (Inl e, q)
      | None \<Rightarrow>
          (let (n, q') = update_jobs
             (\<lambda>j. job_status j = ''running''
                  \<and> (case job_started j of None \<Rightarrow> False | Some t \<Rightarrow> t < now - lease))
             (\<lambda>j. j\<lparr>job_status := ''pending'', job_next := now,
                    job_error := ''Requeued automatically: the previous run stopped without finishing (service restart or stalled source call).''\<rparr>) q
           in (Inr n, q')))"

section \<open>What a failure means\<close>

definition outage_markers :: "string list" where
  "outage_markers = [''connection refused'', ''no such host'', ''connection reset'',
     ''i/o timeout'', ''eof'', ''tls handshake'']"

definition sourceOutage :: "go_error option \<Rightarrow> bool" where
  "sourceOutage err =
     (case err of
        None \<Rightarrow> False
      | Some e \<Rightarrow>
          (if errors_is e ErrNotConfigured then False
           else if errors_is e Canceled \<or> StatusOf e = 401 then True
           else if 0 < StatusOf e then RetryableStatus (StatusOf e)
           else if errors_is e DeadlineExceeded then True
           else list_ex (contains_str (to_lower (error_message e))) outage_markers))"

definition outageOnly :: "go_error option \<Rightarrow> go_error option" where
  "outageOnly err = (if sourceOutage err then err else None)"

definition repositorySource :: "job_faults \<Rightarrow> queue \<Rightarrow> string \<Rightarrow> string \<times> bool" where
  "repositorySource fault q repo =
     (case (if fault ReadSource = None then repositories q repo else None) of
        None \<Rightarrow> ([], False) | Some r \<Rightarrow> (repo_source r, repo_source r \<noteq> []))"

definition library_of :: "job_faults \<Rightarrow> queue \<Rightarrow> string \<Rightarrow> string" where
  "library_of fault q repo =
     (case (if fault ReadLibrary = None then repositories q repo else None) of
        None \<Rightarrow> repo | Some r \<Rightarrow> repo_library r)"

definition missingRepositoryHint :: "go_error \<Rightarrow> repo_row \<Rightarrow> string \<Rightarrow> go_error" where
  "missingRepositoryHint err r external =
     (if StatusOf err \<noteq> 404 then err
      else Wrap (''no repository at this path ('' @ repo_source r @ '' id '' @ external
          @ ''): renamed, deleted, or the account's access withdrawn '' @ bytes [226, 128, 148]
          @ '' both sources answer 404, not 403, for a repository an account may not see. ''
          @ ''Register it again under its current name to update this entry in place. '') err [])"

section \<open>Running a job\<close>

text \<open>
  What a job calls: formatting of the standard library, the connector factory, the branch and
  tag listings of a repository, the retrieval mode setting (\<open>None\<close> if no loader is
  installed), the embedding provider (\<open>None\<close> if no factory is installed, else the error of
  opening and of probing it), the indexer's run under the job's lease and the projection.
\<close>

record job_env =
  quote_string :: "string \<Rightarrow> string"
  format_duration :: "duration \<Rightarrow> string"
  format_rfc3339 :: "time \<Rightarrow> string"
  open_source :: "string \<Rightarrow> go_error option"
  list_branches :: "repo_row \<Rightarrow> go_error + string list"
  list_tags :: "repo_row \<Rightarrow> go_error + string list"
  retrieval_mode :: "string option"
  embedding_factory :: "(go_error option \<times> go_error option) option"
  apply_pending :: "bool \<Rightarrow> claimed \<Rightarrow> repo_row \<Rightarrow> string \<Rightarrow> queue \<Rightarrow> go_error option \<times> queue"
  projection :: "(string \<Rightarrow> string \<Rightarrow> go_error option) option"

definition NormalizeRetrievalMode :: "string \<Rightarrow> string" where
  "NormalizeRetrievalMode mode =
     (let m = to_lower (trim_space mode) in
      if m = ''keyword-only'' then ''keyword-only''
      else if m = ''hybrid-required'' then ''hybrid-required'' else ''hybrid-fallback'')"

definition job_mode :: "job_env \<Rightarrow> string" where
  "job_mode env =
     (case retrieval_mode env of
        Some m \<Rightarrow> NormalizeRetrievalMode m
      | None \<Rightarrow> (if embedding_factory env = None then ''hybrid-fallback'' else ''hybrid-required''))"

definition repo_path :: "repo_row \<Rightarrow> string" where
  "repo_path r = repo_project r @ ''/'' @ repo_slug r"

text \<open>The ref is looked for among the branches, and among the tags only if it is no branch.\<close>

definition select_ref :: "job_env \<Rightarrow> repo_row \<Rightarrow> string \<Rightarrow> go_error + string" where
  "select_ref env r refName =
     (case list_branches env r of
        Inl e \<Rightarrow> Inl (Wrap (''list branches for '' @ repo_path r @ '': '')
                        (missingRepositoryHint e r (repo_external r)) [])
      | Inr branches \<Rightarrow>
          (if refName \<in> set branches then Inr refName
           else case list_tags env r of
             Inl e \<Rightarrow> Inl (Wrap (''list tags for '' @ repo_path r @ '': '') e [])
           | Inr tags \<Rightarrow>
               (if refName \<in> set tags then Inr refName
                else Inl (Plain (''source ref '' @ quote_string env refName @ '' does not exist in ''
                  @ repo_path r @ ''; available refs include ''
                  @ join_with '', '' (take 8 (branches @ tags)))))))"

text \<open>
  Whether embeddings are used, and the warning of a run that goes on without them; an error
  if the mode requires them.
\<close>

definition open_embedding :: "job_env \<Rightarrow> go_error + bool \<times> string" where
  "open_embedding env =
     (case embedding_factory env of
        None \<Rightarrow> Inr (retrieval_mode env = None, [])
      | Some (open_err, probe_err) \<Rightarrow>
          (if job_mode env = ''keyword-only'' then Inr (False, [])
           else case open_err of
             Some e \<Rightarrow>
               (if job_mode env = ''hybrid-required''
                then Inl (Wrap ''embedding provider: '' e '' (check the model setting)'')
                else Inr (False, ''Embedding provider unavailable; completed as keyword-only: ''
                                 @ truncate_bytes (error_message e) 240))
           | None \<Rightarrow> (case probe_err of
               Some e \<Rightarrow>
                 (if job_mode env = ''hybrid-required''
                  then Inl (Wrap ''embedding endpoint rejected a probe request: '' e
                              '' (model setting: run the connection test)'')
                  else Inr (False, ''Embedding probe failed; completed as keyword-only: ''
                                   @ truncate_bytes (error_message e) 240))
             | None \<Rightarrow> Inr (True, []))))"

definition recordEmbeddingWarning ::
    "job_faults \<Rightarrow> claimed \<Rightarrow> string \<Rightarrow> string \<Rightarrow> queue \<Rightarrow> go_error option \<times> queue" where
  "recordEmbeddingWarning fault c refName warning q =
     (case fault ReadWarning of Some e \<Rightarrow> (Some e, q)
      | None \<Rightarrow> (case List.find (owned c) (index_jobs q) of
          None \<Rightarrow> (Some errJobLeaseLost, q)
        | Some j \<Rightarrow>
            (let current = (if job_error j \<noteq> [] then job_error j @ ''; '' else []) in
             case lease_update fault WriteWarning c
                    (\<lambda>k. k\<lparr>job_error := truncate_bytes (current @ warning) 1000\<rparr>) q of
               (Some e, q') \<Rightarrow> (Some e, q)
             | (None, q') \<Rightarrow> (case fault WriteRefState of Some e \<Rightarrow> (Some e, q)
                 | None \<Rightarrow> (case fault CommitWarning of Some e \<Rightarrow> (Some e, q)
                     | None \<Rightarrow>
                         (None, q'\<lparr>ref_embedding := (\<lambda>key.
                            if key = (c_Repo c, refName) \<and> ref_embedding q' key \<noteq> None
                            then Some (''degraded'', truncate_bytes warning 1000)
                            else ref_embedding q' key)\<rparr>))))))"

definition load_repository :: "job_faults \<Rightarrow> queue \<Rightarrow> string \<Rightarrow> go_error + repo_row" where
  "load_repository fault q repo =
     (case fault LoadRepository of
        Some e \<Rightarrow> Inl e
      | None \<Rightarrow> (case repositories q repo of
          None \<Rightarrow> Inl (Plain ''sql: no rows in result set'')
        | Some r \<Rightarrow> (if repo_enabled r then Inr r else Inl (Plain ''sql: no rows in result set''))))"

definition execute :: "job_env \<Rightarrow> job_faults \<Rightarrow> claimed \<Rightarrow> queue \<Rightarrow> go_error option \<times> queue" where
  "execute env fault c q =
     (case load_repository fault q (c_Repo c) of
        Inl e \<Rightarrow> (Some (Wrap ''load repository: '' e []), q)
      | Inr r \<Rightarrow>
          (case open_source env (repo_source r) of
             Some e \<Rightarrow> (Some (Wrap (repo_source r @ '' connector: '') e
                                ('' (check the '' @ repo_source r @ '' setting)'')), q)
           | None \<Rightarrow>
               (case select_ref env r (if c_Ref c = [] then repo_default r else c_Ref c) of
                  Inl e \<Rightarrow> (Some e, q)
                | Inr selected \<Rightarrow>
                    (case open_embedding env of
                       Inl e \<Rightarrow> (Some e, q)
                     | Inr (embeds, warning) \<Rightarrow>
                         (case apply_pending env embeds c r selected q of
                            (Some e, q1) \<Rightarrow>
                              (Some (Wrap (''index '' @ repo_path r @ ''@'' @ selected @ '': '') e []), q1)
                          | (None, q1) \<Rightarrow>
                              (case (if warning = [] then (None, q1)
                                     else recordEmbeddingWarning fault c selected warning q1) of
                                 (Some e, q2) \<Rightarrow> (Some e, q2)
                               | (None, q2) \<Rightarrow>
                                   (case projection env of
                                      None \<Rightarrow> (None, q2)
                                    | Some project \<Rightarrow>
                                        (case project (c_Repo c) selected of
                                           Some e \<Rightarrow> (Some (Wrap ''search projection: '' e []), q2)
                                         | None \<Rightarrow> (None, q2)))))))))"

section \<open>Recording an outcome\<close>

definition write_alert ::
    "job_faults \<Rightarrow> string \<Rightarrow> claimed \<Rightarrow> string \<Rightarrow> string \<Rightarrow> queue \<Rightarrow> queue" where
  "write_alert fault kind c title message q =
     (if fault WriteAlert = None
      then q\<lparr>alerts := (alerts q)((kind, c_Repo c @ '':'' @ c_Ref c) \<mapsto> (title, message))\<rparr>
      else q)"

definition notifyFailure :: "job_faults \<Rightarrow> claimed \<Rightarrow> go_error \<Rightarrow> queue \<Rightarrow> queue" where
  "notifyFailure fault c cause q =
     write_alert fault ''index_job_failed'' c ''Repository indexing failed''
       (library_of fault q (c_Repo c) @ '' ('' @ c_Ref c @ '') stopped after '' @ itoa (c_Attempts c)
        @ '' attempts: '' @ truncate_bytes (error_message cause) 400) q"

definition notifyPersistentOutage ::
    "job_env \<Rightarrow> job_faults \<Rightarrow> time \<Rightarrow> claimed \<Rightarrow> go_error \<Rightarrow> queue \<Rightarrow> queue" where
  "notifyPersistentOutage env fault now c cause q =
     (case (if fault ReadOutage = None then List.find (\<lambda>j. job_id j = c_ID c) (index_jobs q) else None) of
        None \<Rightarrow> q
      | Some j \<Rightarrow> (case job_outage j of
          None \<Rightarrow> q
        | Some since \<Rightarrow>
            (if time_sub now since < OutageReportedAfter then q
             else write_alert fault ''index_source_outage'' c ''Repository has not indexed for hours''
               (library_of fault q (c_Repo c) @ '' ('' @ c_Ref c @ '') has been retrying since ''
                @ format_rfc3339 env since @ '' because its source keeps failing: ''
                @ truncate_bytes (error_message cause) 300
                @ ''. Indexing is not giving up, but the answers about this repository are as old as that.'')
               q)))"

text \<open>The Korean text of the waiting message, in UTF-8.\<close>

definition paused_label :: string where
  "paused_label = bytes [236, 134, 140, 236, 138, 164, 32, 236, 151, 176, 235, 143, 153, 32,
     236, 157, 188, 236, 139, 156, 32, 236, 164, 145, 235, 139, 168, 236, 156, 188, 235, 161, 156,
     32, 235, 140, 128, 234, 184, 176, 32, 236, 164, 145, 58, 32]"

definition returned_attempt :: "int \<Rightarrow> int" where
  "returned_attempt n = (if 0 < n then n - 1 else n)"

definition requeuePaused ::
    "job_faults \<Rightarrow> time \<Rightarrow> claimed \<Rightarrow> string \<Rightarrow> queue \<Rightarrow> go_error option \<times> queue" where
  "requeuePaused fault now c reason q =
     lease_update fault PauseJob c
       (\<lambda>j. j\<lparr>job_status := ''pending'', job_attempts := returned_attempt (c_Attempts c),
              job_error := truncate_bytes (paused_label @ reason) 1000,
              job_next := now + pausedRequeueDelay\<rparr>) q"

definition retry_delay :: "int \<Rightarrow> go_error \<Rightarrow> duration" where
  "retry_delay attempts e =
     (let delay = 2 ^ nat (min attempts 8) * second
      in if \<not> sourceOutage (Some e) then delay
         else if errors_is e Canceled then 0
         else if delay < 30 * second then 30 * second else delay)"

definition complete_job :: "job_faults \<Rightarrow> time \<Rightarrow> claimed \<Rightarrow> queue \<Rightarrow> go_error option \<times> queue" where
  "complete_job fault now c q =
     lease_update fault CompleteJob c
       (\<lambda>j. j\<lparr>job_status := ''completed'', job_completed := Some now, job_outage := None\<rparr>) q"

definition retry_job ::
    "job_env \<Rightarrow> job_faults \<Rightarrow> worker \<Rightarrow> time \<Rightarrow> claimed \<Rightarrow> go_error \<Rightarrow> queue \<Rightarrow> go_error option \<times> queue" where
  "retry_job env fault w now c e q =
     (let outage = sourceOutage (Some e);
          attempts = (if outage then returned_attempt (c_Attempts c) else c_Attempts c);
          failed = (\<not> outage \<and> w_maxAttempts w \<le> attempts)
      in case lease_update fault RetryJob c
           (\<lambda>j. j\<lparr>job_status := (if failed then ''failed'' else ''pending''), job_attempts := attempts,
                  job_error := truncate_bytes (error_message e) 1000,
                  job_next := now + retry_delay (c_Attempts c) e,
                  job_completed := (if failed then Some now else None),
                  job_outage := (if \<not> outage then None
                                 else case job_outage j of None \<Rightarrow> Some now | Some t \<Rightarrow> Some t)\<rparr>) q of
           (Some err, q') \<Rightarrow> (Some err, q')
         | (None, q') \<Rightarrow>
             (Some e, if failed then notifyFailure fault (c\<lparr>c_Attempts := attempts\<rparr>) e q'
                      else if outage then notifyPersistentOutage env fault now c e q' else q'))"

text \<open>A run that exceeded its time limit says so; the wrapped error keeps its cause.\<close>

definition explain_timeout :: "job_env \<Rightarrow> worker \<Rightarrow> go_error option \<Rightarrow> go_error option" where
  "explain_timeout env w err =
     (case err of
        Some e \<Rightarrow>
          (if errors_is e DeadlineExceeded
           then Some (Wrap (''index job exceeded the ''
                  @ format_duration env (if w_timeout w \<le> 0 then jobTimeout else w_timeout w)
                  @ '' limit; check source server responsiveness, repository size and the embedding endpoint: '') e [])
           else Some e)
      | None \<Rightarrow> None)"

definition record_outcome ::
    "job_env \<Rightarrow> job_faults \<Rightarrow> worker \<Rightarrow> time \<Rightarrow> claimed \<Rightarrow> go_error option \<Rightarrow> queue \<Rightarrow> go_error option \<times> queue" where
  "record_outcome env fault w now c err q =
     (case explain_timeout env w err of
        None \<Rightarrow> complete_job fault now c q
      | Some e \<Rightarrow> retry_job env fault w now c e q)"

text \<open>
  One turn of the loop: \<open>started\<close> is the time of the claim and \<open>ended\<close> the time the run ended;
  \<open>allow\<close> and \<open>report\<close> are the methods of the installed \<^verbatim>\<open>SourceHealth\<close>.
\<close>

definition RunOnce ::
    "(time \<Rightarrow> string \<Rightarrow> 'h \<Rightarrow> (bool \<times> string) \<times> 'h) \<Rightarrow> (time \<Rightarrow> string \<Rightarrow> go_error option \<Rightarrow> 'h \<Rightarrow> 'h)
     \<Rightarrow> job_env \<Rightarrow> job_faults \<Rightarrow> worker \<Rightarrow> time \<Rightarrow> time \<Rightarrow> queue \<Rightarrow> 'h
     \<Rightarrow> (bool \<times> go_error option) \<times> queue \<times> 'h" where
  "RunOnce allow report env fault w started ended q h =
     (case claim fault w started q of
        (Inl e, q1) \<Rightarrow> ((False, Some e), q1, h)
      | (Inr None, q1) \<Rightarrow> ((False, None), q1, h)
      | (Inr (Some c), q1) \<Rightarrow>
          (let (src, has) = repositorySource fault q1 (c_Repo c);
               ((allowed, reason), h1) = (if has then allow started src h else ((True, []), h))
           in if \<not> allowed then
                (let (e, q2) = requeuePaused fault started c reason q1 in ((True, e), q2, h1))
              else
                (let (err, q2) = execute env fault c q1;
                     h2 = (if has then report ended src (outageOnly err) h1 else h1);
                     (e, q3) = record_outcome env fault w ended c err q2
                 in ((True, e), q3, h2))))"

section \<open>Histories: any number of workers on one queue\<close>

text \<open>
  The queue, the claims held in the memories of the workers, and the clock. A worker that
  stops without recording an outcome drops its claim.
\<close>

record system =
  sys_queue :: queue
  sys_held :: "claimed list"
  sys_now :: time

definition job_ids_unique :: "queue \<Rightarrow> bool" where
  "job_ids_unique q \<longleftrightarrow> distinct (map job_id (index_jobs q))"

text \<open>A running row says when it was claimed, and that is not in the future.\<close>

definition running_started :: "time \<Rightarrow> queue \<Rightarrow> bool" where
  "running_started now q \<longleftrightarrow> (\<forall>j \<in> set (index_jobs q). job_status j = ''running'' \<longrightarrow>
     (\<exists>t \<le> now. job_started j = Some t))"

inductive system_step :: "worker \<Rightarrow> system \<Rightarrow> system \<Rightarrow> bool" for w where
  tick: "sys_now s \<le> now \<Longrightarrow> system_step w s (s\<lparr>sys_now := now\<rparr>)"
| claims: "claim fault (w\<lparr>w_identity := who\<rparr>) (sys_now s) (sys_queue s) = (Inr (Some c), q) \<Longrightarrow>
     system_step w s (s\<lparr>sys_queue := q, sys_held := c # sys_held s\<rparr>)"
| recovers: "RecoverStaleJobs fault w (sys_now s) (sys_queue s) = (r, q) \<Longrightarrow>
     system_step w s (s\<lparr>sys_queue := q\<rparr>)"
| pauses: "c \<in> set (sys_held s) \<Longrightarrow> requeuePaused fault (sys_now s) c reason (sys_queue s) = (r, q) \<Longrightarrow>
     system_step w s (s\<lparr>sys_queue := q, sys_held := remove1 c (sys_held s)\<rparr>)"
| warns: "c \<in> set (sys_held s) \<Longrightarrow>
     recordEmbeddingWarning fault c ref warning (sys_queue s) = (r, q) \<Longrightarrow>
     system_step w s (s\<lparr>sys_queue := q\<rparr>)"
| finishes: "c \<in> set (sys_held s) \<Longrightarrow>
     record_outcome env fault w (sys_now s) c err (sys_queue s) = (r, q) \<Longrightarrow>
     system_step w s (s\<lparr>sys_queue := q, sys_held := remove1 c (sys_held s)\<rparr>)"
| stops: "c \<in> set (sys_held s) \<Longrightarrow> system_step w s (s\<lparr>sys_held := remove1 c (sys_held s)\<rparr>)"

inductive system_reachable :: "worker \<Rightarrow> queue \<Rightarrow> system \<Rightarrow> bool" for w q0 where
  start: "job_ids_unique q0 \<Longrightarrow> running_started now q0 \<Longrightarrow>
     system_reachable w q0 \<lparr>sys_queue = q0, sys_held = [], sys_now = now\<rparr>"
| step: "system_reachable w q0 s \<Longrightarrow> system_step w s s' \<Longrightarrow> system_reachable w q0 s'"

text \<open>
  Every write to the queue is one of four kinds of update of the rows: what a claim does to a
  due row, what a recovery does to an expired one, and what a lease holder does to the row it
  owns.
\<close>

definition release :: "claimed \<Rightarrow> (index_job \<Rightarrow> index_job) \<Rightarrow> queue \<Rightarrow> queue \<Rightarrow> bool" where
  "release c f q q' \<longleftrightarrow> index_jobs q' = map (\<lambda>j. if owned c j then f j else j) (index_jobs q)"

lemma lease_update_cases:
  assumes "lease_update fault stmt c f q = (r, q')"
  shows "q' = q \<or> release c f q q'"
  using assms by (auto simp: lease_update_def update_jobs_def release_def split: option.splits)

lemma write_alert_jobs [simp]: "index_jobs (write_alert fault kind c title message q) = index_jobs q"
  by (simp add: write_alert_def)

lemma notify_jobs [simp]:
  "index_jobs (notifyFailure fault c e q) = index_jobs q"
  "index_jobs (notifyPersistentOutage env fault now c e q) = index_jobs q"
  by (simp_all add: notifyFailure_def notifyPersistentOutage_def split: option.split)

definition keeps_identity :: "(index_job \<Rightarrow> index_job) \<Rightarrow> bool" where
  "keeps_identity f \<longleftrightarrow> (\<forall>j. job_id (f j) = job_id j \<and> job_repo (f j) = job_repo j \<and> job_ref (f j) = job_ref j)"

lemma outcome_release:
  assumes "record_outcome env fault w now c err q = (r, q')"
  obtains "index_jobs q' = index_jobs q"
  | f where "release c f q q'" "keeps_identity f" "\<forall>j. job_status (f j) \<noteq> ''running''"
proof -
  consider "explain_timeout env w err = None" | e where "explain_timeout env w err = Some e" by auto
  then show ?thesis
  proof cases
    case 1
    then have "complete_job fault now c q = (r, q')" using assms by (simp add: record_outcome_def)
    from lease_update_cases [OF this [unfolded complete_job_def]] that show ?thesis
      by (auto simp: keeps_identity_def)
  next
    case (2 e)
    let ?f = "\<lambda>j. j\<lparr>job_status := (if \<not> sourceOutage (Some e) \<and> w_maxAttempts w \<le> c_Attempts c
          then ''failed'' else ''pending''),
        job_attempts := (if sourceOutage (Some e) then returned_attempt (c_Attempts c) else c_Attempts c),
        job_error := truncate_bytes (error_message e) 1000,
        job_next := now + retry_delay (c_Attempts c) e,
        job_completed := (if \<not> sourceOutage (Some e) \<and> w_maxAttempts w \<le> c_Attempts c
          then Some now else None),
        job_outage := (if \<not> sourceOutage (Some e) then None
          else case job_outage j of None \<Rightarrow> Some now | Some t \<Rightarrow> Some t)\<rparr>"
    obtain r1 q1 where u: "lease_update fault RetryJob c ?f q = (r1, q1)" by force
    have "retry_job env fault w now c e q = (r, q')" using assms 2 by (simp add: record_outcome_def)
    then have "index_jobs q' = index_jobs q1"
      using u by (cases "sourceOutage (Some e)"; cases r1) (auto simp: retry_job_def Let_def)
    with lease_update_cases [OF u] have "index_jobs q' = index_jobs q \<or> release c ?f q q'"
      by (auto simp: release_def)
    moreover have "keeps_identity ?f" "\<forall>j. job_status (?f j) \<noteq> ''running''"
      by (simp_all add: keeps_identity_def)
    ultimately show ?thesis using that by blast
  qed
qed

section \<open>The lease\<close>

definition claim_ok :: "time \<Rightarrow> queue \<Rightarrow> claimed \<Rightarrow> bool" where
  "claim_ok now q c \<longleftrightarrow> c_StartedAt c \<le> now \<and> (\<forall>j \<in> set (index_jobs q). job_id j = c_ID c \<longrightarrow>
     (if job_status j = ''running''
      then \<exists>t. job_started j = Some t \<and> c_StartedAt c \<le> t
               \<and> (t = c_StartedAt c \<longrightarrow> job_attempts j = c_Attempts c)
      else c_StartedAt c < now))"

definition system_ok :: "system \<Rightarrow> bool" where
  "system_ok s \<longleftrightarrow> job_ids_unique (sys_queue s) \<and> running_started (sys_now s) (sys_queue s)
     \<and> (\<forall>c \<in> set (sys_held s). claim_ok (sys_now s) (sys_queue s) c)
     \<and> distinct (map (\<lambda>c. (c_ID c, c_StartedAt c)) (sys_held s))"

lemma unique_map:
  "job_ids_unique q \<Longrightarrow> index_jobs q' = map g (index_jobs q) \<Longrightarrow> \<forall>j. job_id (g j) = job_id j
   \<Longrightarrow> job_ids_unique q'"
  by (simp add: job_ids_unique_def comp_def)

lemma same_jobs_ok:
  "index_jobs q' = index_jobs q \<Longrightarrow>
   job_ids_unique q' = job_ids_unique q \<and> running_started t q' = running_started t q
   \<and> claim_ok t q' c = claim_ok t q c"
  by (simp add: job_ids_unique_def running_started_def claim_ok_def)

lemma oldest_member: "oldest js = Some j \<Longrightarrow> j \<in> set js"
  by (induction js arbitrary: j) (auto split: option.splits if_splits)

lemma claim_cases:
  assumes "claim fault w now q = (Inr (Some c), q')"
  obtains j where "j \<in> set (index_jobs q)" "due now j" "c = claimed_of now j"
    "q' = snd (update_jobs (\<lambda>k. job_id k = job_id j)
       (\<lambda>k. k\<lparr>job_status := ''running'', job_attempts := job_attempts k + 1,
              job_started := Some now, job_claimed := w_identity w\<rparr>) q)"
  using assms oldest_member by (fastforce simp: claim_def split: option.splits)

lemma unique_ids_eq:
  "job_ids_unique q \<Longrightarrow> j \<in> set (index_jobs q) \<Longrightarrow> k \<in> set (index_jobs q) \<Longrightarrow> job_id j = job_id k \<Longrightarrow> j = k"
  unfolding job_ids_unique_def by (metis distinct_map inj_on_def)

lemma claim_keeps_ok:
  assumes ok: "system_ok s" and c: "claim fault w (sys_now s) (sys_queue s) = (Inr (Some c), q')"
  shows "system_ok (s\<lparr>sys_queue := q', sys_held := c # sys_held s\<rparr>)"
proof -
  let ?q = "sys_queue s" and ?now = "sys_now s"
  obtain j where j: "j \<in> set (index_jobs ?q)" "due ?now j" "c = claimed_of ?now j"
    and q': "q' = snd (update_jobs (\<lambda>k. job_id k = job_id j)
       (\<lambda>k. k\<lparr>job_status := ''running'', job_attempts := job_attempts k + 1,
              job_started := Some ?now, job_claimed := w_identity w\<rparr>) ?q)"
    using claim_cases [OF c] by blast
  let ?g = "\<lambda>k. if job_id k = job_id j then k\<lparr>job_status := ''running'',
      job_attempts := job_attempts k + 1, job_started := Some ?now, job_claimed := w_identity w\<rparr> else k"
  have jobs: "index_jobs q' = map ?g (index_jobs ?q)" by (simp add: q' update_jobs_def)
  have unique: "job_ids_unique ?q" and rows: "running_started ?now ?q"
    and held: "\<And>d. d \<in> set (sys_held s) \<Longrightarrow> claim_ok ?now ?q d"
    and dist: "distinct (map (\<lambda>c. (c_ID c, c_StartedAt c)) (sys_held s))"
    using ok by (auto simp: system_ok_def)
  have "job_ids_unique q'" by (rule unique_map [OF unique jobs]) simp
  moreover have "running_started ?now q'"
    using rows by (auto simp: running_started_def jobs)
  moreover have older: "c_StartedAt d < ?now" if "d \<in> set (sys_held s)" "c_ID d = job_id j" for d
    using held [OF that(1)] j(1,2) that(2) by (auto simp: claim_ok_def due_def)
  then have "claim_ok ?now q' d" if "d \<in> set (sys_held s)" for d
    using held [OF that] older [OF that] by (cases "c_ID d = job_id j") (auto simp: claim_ok_def jobs)
  moreover have "claim_ok ?now q' c"
  proof -
    have only: "job_id k = job_id j \<longleftrightarrow> k = j" if "k \<in> set (index_jobs ?q)" for k
      using unique_ids_eq [OF unique that j(1)] by auto
    show ?thesis by (auto simp: claim_ok_def jobs j(3) claimed_of_def only)
  qed
  moreover have "(c_ID c, c_StartedAt c) \<notin> (\<lambda>c. (c_ID c, c_StartedAt c)) ` set (sys_held s)"
    using older by (force simp: j(3) claimed_of_def)
  ultimately show ?thesis using dist by (simp add: system_ok_def)
qed

text \<open>Giving back running rows whose claim lies in the past keeps the invariant.\<close>

lemma requeue_keeps_ok:
  assumes ok: "system_ok s" and jobs: "index_jobs q' = map g (index_jobs (sys_queue s))"
    and g: "\<And>j. job_id (g j) = job_id j" "\<And>j. \<not> P j \<Longrightarrow> g j = j"
      "\<And>j. P j \<Longrightarrow> job_status (g j) = ''pending''"
    and P: "\<And>j. P j \<Longrightarrow> job_status j = ''running'' \<and> (\<exists>t. job_started j = Some t \<and> t < sys_now s)"
  shows "system_ok (s\<lparr>sys_queue := q'\<rparr>)"
proof -
  let ?q = "sys_queue s" and ?now = "sys_now s"
  have "job_ids_unique q'" using ok g(1) by (auto simp: system_ok_def intro: unique_map [OF _ jobs])
  moreover have "running_started ?now q'"
  proof -
    have "\<exists>t \<le> ?now. job_started (g j) = Some t"
      if "j \<in> set (index_jobs ?q)" "job_status (g j) = ''running''" for j
      using ok that g(2) [of j] g(3) [of j] by (cases "P j") (auto simp: system_ok_def running_started_def)
    then show ?thesis by (auto simp: running_started_def jobs)
  qed
  moreover have "claim_ok ?now q' d" if d: "d \<in> set (sys_held s)" for d
  proof -
    have old: "claim_ok ?now ?q d" using ok d by (simp add: system_ok_def)
    have "if job_status (g j) = ''running''
      then \<exists>t. job_started (g j) = Some t \<and> c_StartedAt d \<le> t
               \<and> (t = c_StartedAt d \<longrightarrow> job_attempts (g j) = c_Attempts d)
      else c_StartedAt d < ?now" if "j \<in> set (index_jobs ?q)" "job_id j = c_ID d" for j
    proof (cases "P j")
      case True
      then have "c_StartedAt d < ?now" using old that P [OF True] by (auto simp: claim_ok_def)
      then show ?thesis using g(3) [OF True] by simp
    next
      case False
      then show ?thesis using old that g(2) by (simp add: claim_ok_def)
    qed
    then show ?thesis using old by (simp add: claim_ok_def jobs g(1))
  qed
  ultimately show ?thesis using ok by (simp add: system_ok_def)
qed

text \<open>The rows whose lease of length \<open>d\<close> has run out.\<close>

definition lapsed :: "time \<Rightarrow> duration \<Rightarrow> index_job \<Rightarrow> bool" where
  "lapsed now d j \<longleftrightarrow> job_status j = ''running''
     \<and> (case job_started j of None \<Rightarrow> False | Some t \<Rightarrow> t < now - d)"

lemma lapsed_started:
  "0 < d \<Longrightarrow> lapsed now d j \<Longrightarrow> job_status j = ''running'' \<and> (\<exists>t. job_started j = Some t \<and> t < now)"
  by (auto simp: lapsed_def split: option.splits)

lemma recover_keeps_ok:
  assumes ok: "system_ok s" and r: "RecoverStaleJobs fault w (sys_now s) (sys_queue s) = (r, q')"
  shows "system_ok (s\<lparr>sys_queue := q'\<rparr>)"
proof (cases "fault RecoverJobs")
  case (Some e)
  then show ?thesis using r ok by (auto simp: RecoverStaleJobs_def Let_def)
next
  case None
  have lease: "0 < effective_lease w" by (simp add: effective_lease_def JobLeaseDuration_def jobTimeout_def)
  let ?P = "lapsed (sys_now s) (effective_lease w)"
  let ?f = "\<lambda>j. j\<lparr>job_status := ''pending'', job_next := sys_now s, job_error :=
    ''Requeued automatically: the previous run stopped without finishing (service restart or stalled source call).''\<rparr>"
  have jobs: "index_jobs q' = map (\<lambda>j. if ?P j then ?f j else j) (index_jobs (sys_queue s))"
    using r None by (auto simp: RecoverStaleJobs_def update_jobs_def Let_def lapsed_def)
  show ?thesis
    by (rule requeue_keeps_ok [OF ok jobs, where P = ?P]) (use lapsed_started [OF lease] in simp_all)
qed

lemma release_keeps_ok:
  assumes ok: "system_ok s" and c: "c \<in> set (sys_held s)"
    and r: "release c f (sys_queue s) q'" "keeps_identity f" "\<forall>j. job_status (f j) \<noteq> ''running''"
  shows "system_ok (s\<lparr>sys_queue := q', sys_held := remove1 c (sys_held s)\<rparr>)"
proof -
  let ?q = "sys_queue s" and ?now = "sys_now s"
  have jobs: "index_jobs q' = map (\<lambda>j. if owned c j then f j else j) (index_jobs ?q)"
    and fid: "job_id (f j) = job_id j" for j
    using r by (simp_all add: release_def keeps_identity_def)
  have held: "claim_ok ?now ?q d" if "d \<in> set (sys_held s)" for d
    using ok that by (simp add: system_ok_def)
  have dist: "distinct (map (\<lambda>c. (c_ID c, c_StartedAt c)) (sys_held s))"
    using ok by (simp add: system_ok_def)
  have "job_ids_unique q'"
    using ok fid by (auto simp: system_ok_def intro!: unique_map [OF _ jobs])
  moreover have "running_started ?now q'"
    using ok r(3) by (auto simp: system_ok_def running_started_def jobs)
  moreover have "claim_ok ?now q' d" if d: "d \<in> set (remove1 c (sys_held s))" for d
  proof -
    have dh: "d \<in> set (sys_held s)" "d \<noteq> c"
      using d dist by (auto simp: distinct_map dest: notin_set_remove1 split: if_splits)
    have ne: "(c_ID d, c_StartedAt d) \<noteq> (c_ID c, c_StartedAt c)"
      using dh c dist unfolding distinct_map inj_on_def by blast
    have "c_StartedAt d < ?now" if "j \<in> set (index_jobs ?q)" "owned c j" "job_id j = c_ID d" for j
    proof -
      have "c_StartedAt d \<le> c_StartedAt c" "c_StartedAt c \<le> ?now"
        using held [OF dh(1)] held [OF c] that by (auto simp: claim_ok_def owned_def)
      then show ?thesis using ne that by (auto simp: owned_def)
    qed
    then show ?thesis using held [OF dh(1)] r(3) by (auto simp: claim_ok_def jobs fid)
  qed
  moreover have "distinct (map (\<lambda>c. (c_ID c, c_StartedAt c)) (remove1 c (sys_held s)))"
    using dist by (auto simp: distinct_map inj_on_def dest: notin_set_remove1)
  ultimately show ?thesis using ok by (simp add: system_ok_def)
qed

lemma drop_keeps_ok:
  assumes "system_ok s"
  shows "system_ok (s\<lparr>sys_held := remove1 c (sys_held s)\<rparr>)"
proof -
  have "distinct (map (\<lambda>c. (c_ID c, c_StartedAt c)) (remove1 c (sys_held s)))"
    using assms by (auto simp: system_ok_def distinct_map inj_on_def dest: notin_set_remove1)
  then show ?thesis using assms by (auto simp: system_ok_def dest: notin_set_remove1)
qed

lemma same_queue_ok:
  assumes "system_ok s" "index_jobs q' = index_jobs (sys_queue s)"
  shows "system_ok (s\<lparr>sys_queue := q'\<rparr>)"
  using assms same_jobs_ok [OF assms(2)] by (simp add: system_ok_def)

lemma warn_rows:
  assumes "recordEmbeddingWarning fault c ref warning q = (r, q')"
  shows "\<exists>f. release c f q q' \<and> (\<forall>j. f j = j\<lparr>job_error := job_error (f j)\<rparr>)"
proof (cases "index_jobs q' = index_jobs q")
  case True
  then have "release c (\<lambda>j. j) q q'" by (simp add: release_def)
  then show ?thesis by (intro exI [of _ "\<lambda>j. j"]) simp
next
  case False
  then obtain j where "List.find (owned c) (index_jobs q) = Some j" "fault ReadWarning = None"
    using assms by (auto simp: recordEmbeddingWarning_def split: option.splits)
  with False assms obtain t q1 where
    u: "lease_update fault WriteWarning c (\<lambda>k. k\<lparr>job_error := t\<rparr>) q = (None, q1)"
    "index_jobs q' = index_jobs q1"
    by (auto simp: recordEmbeddingWarning_def Let_def split: option.splits prod.splits)
  then show ?thesis
    using lease_update_cases [OF u(1)] False
    by (intro exI [of _ "\<lambda>k. k\<lparr>job_error := t\<rparr>"]) (auto simp: release_def)
qed

lemma warn_keeps_ok:
  assumes ok: "system_ok s" and r: "recordEmbeddingWarning fault c ref warning (sys_queue s) = (r, q')"
  shows "system_ok (s\<lparr>sys_queue := q'\<rparr>)"
proof -
  obtain f where f: "release c f (sys_queue s) q'" "\<And>j. f j = j\<lparr>job_error := job_error (f j)\<rparr>"
    using warn_rows [OF r] by blast
  let ?g = "\<lambda>j. if owned c j then f j else j"
  have g: "index_jobs q' = map ?g (index_jobs (sys_queue s))" "\<And>j. job_id (?g j) = job_id j"
    "\<And>j. job_status (?g j) = job_status j" "\<And>j. job_started (?g j) = job_started j"
    "\<And>j. job_attempts (?g j) = job_attempts j"
    using f(1) by (simp add: release_def) (simp, subst f(2), simp)+
  have "job_ids_unique q'"
    using ok g(2) by (auto simp only: system_ok_def intro: unique_map [OF _ g(1)])
  then show ?thesis
    using ok by (simp add: system_ok_def running_started_def claim_ok_def g(1) g(2-5) del: if_image_distrib)
qed

lemma pause_release:
  assumes "requeuePaused fault now c reason q = (r, q')"
  obtains "index_jobs q' = index_jobs q"
  | f where "release c f q q'" "keeps_identity f" "\<forall>j. job_status (f j) \<noteq> ''running''"
  using lease_update_cases [OF assms [unfolded requeuePaused_def]] by (auto simp: keeps_identity_def)

lemma finish_keeps_ok:
  assumes ok: "system_ok s" and c: "c \<in> set (sys_held s)"
    and r: "index_jobs q' = index_jobs (sys_queue s) \<or>
      (\<exists>f. release c f (sys_queue s) q' \<and> keeps_identity f \<and> (\<forall>j. job_status (f j) \<noteq> ''running''))"
  shows "system_ok (s\<lparr>sys_queue := q', sys_held := remove1 c (sys_held s)\<rparr>)"
  using r
proof
  assume "index_jobs q' = index_jobs (sys_queue s)"
  from drop_keeps_ok [OF same_queue_ok [OF ok this], of c] show ?thesis by simp
next
  assume "\<exists>f. release c f (sys_queue s) q' \<and> keeps_identity f \<and> (\<forall>j. job_status (f j) \<noteq> ''running'')"
  then show ?thesis using release_keeps_ok [OF ok c] by blast
qed

lemma step_keeps_ok: "system_step w s s' \<Longrightarrow> system_ok s \<Longrightarrow> system_ok s'"
proof (induction rule: system_step.induct)
  case (tick s now)
  then show ?case
    by (auto simp: system_ok_def running_started_def claim_ok_def) (smt (verit) order_trans)+
next
  case (pauses c s fault reason r q)
  show ?case by (rule finish_keeps_ok [OF pauses(3,1)]) (rule pause_release [OF pauses(2)]; blast)
next
  case (finishes c s fault env err r q)
  show ?case by (rule finish_keeps_ok [OF finishes(3,1)]) (rule outcome_release [OF finishes(2)]; blast)
qed (auto intro: claim_keeps_ok recover_keeps_ok warn_keeps_ok drop_keeps_ok)

lemma reachable_ok: "system_reachable w q0 s \<Longrightarrow> system_ok s"
proof (induction rule: system_reachable.induct)
  case (step s s')
  then show ?case using step_keeps_ok by blast
qed (simp add: system_ok_def)

section \<open>The accounts of one turn\<close>

lemma claimed_owned:
  "owned (claimed_of now j) (k\<lparr>job_status := ''running'', job_attempts := n, job_started := Some now,
     job_claimed := who\<rparr>) \<longleftrightarrow> job_id k = job_id j"
  by (simp add: owned_def claimed_of_def)

lemma sourceOutage_explained:
  "explain_timeout env w (Some e) = Some e' \<Longrightarrow> sourceOutage (Some e') = sourceOutage (Some e)
   \<and> errors_is e' Canceled = errors_is e Canceled"
proof -
  assume e': "explain_timeout env w (Some e) = Some e'"
  show ?thesis
  proof (cases "errors_is e DeadlineExceeded")
    case True
    then obtain pre where "e' = Wrap pre e []" using e' by (auto simp: explain_timeout_def)
    with True show ?thesis by (simp add: sourceOutage_def)
  next
    case False
    then have "e' = e" using e' by (simp add: explain_timeout_def)
    then show ?thesis by simp
  qed
qed

text \<open>The row that a claim took, and the rows after an update by its owner.\<close>

lemma claim_owner:
  assumes "job_ids_unique q" "oldest (filter (due now) (index_jobs q)) = Some j" "fault ClaimJob = None"
  obtains j1 q1 where "claim fault w now q = (Inr (Some (claimed_of now j)), q1)"
    "j1 \<in> set (index_jobs q1)" "job_ids_unique q1" "repositories q1 = repositories q"
    "j1 = j\<lparr>job_status := ''running'', job_attempts := job_attempts j + 1,
            job_started := Some now, job_claimed := w_identity w\<rparr>"
    "\<forall>k \<in> set (index_jobs q1). owned (claimed_of now j) k \<longleftrightarrow> k = j1"
proof -
  let ?f = "\<lambda>k. k\<lparr>job_status := ''running'', job_attempts := job_attempts k + 1,
              job_started := Some now, job_claimed := w_identity w\<rparr>"
  let ?q1 = "snd (update_jobs (\<lambda>k. job_id k = job_id j) ?f q)"
  have j: "j \<in> set (index_jobs q)" using oldest_member [OF assms(2)] by simp
  have jobs: "index_jobs ?q1 = map (\<lambda>k. if job_id k = job_id j then ?f k else k) (index_jobs q)"
    by (simp add: update_jobs_def)
  have only: "job_id k = job_id j \<longleftrightarrow> k = j" if "k \<in> set (index_jobs q)" for k
    using unique_ids_eq [OF assms(1) that j] by auto
  have "claim fault w now q = (Inr (Some (claimed_of now j)), ?q1)"
    using assms(2,3) by (simp add: claim_def)
  moreover have "?f j \<in> set (index_jobs ?q1)" using j by (auto simp: jobs)
  moreover have "job_ids_unique ?q1" by (rule unique_map [OF assms(1) jobs]) simp
  moreover have "repositories ?q1 = repositories q" by (simp add: update_jobs_def)
  moreover have "\<forall>k \<in> set (index_jobs ?q1). owned (claimed_of now j) k \<longleftrightarrow> k = ?f j"
    using only by (auto simp: jobs owned_def claimed_of_def)
  ultimately show ?thesis using that by blast
qed

lemma filter_one:
  "distinct xs \<Longrightarrow> x \<in> set xs \<Longrightarrow> \<forall>k \<in> set xs. P k \<longleftrightarrow> k = x \<Longrightarrow> length (filter P xs) = 1"
proof (induction xs)
  case (Cons y ys)
  show ?case
  proof (cases "y = x")
    case True
    then have "filter P ys = []" using Cons.prems by (auto simp: filter_empty_conv)
    then show ?thesis using Cons.prems True by simp
  qed (use Cons in auto)
qed simp

lemma owner_update:
  assumes "j1 \<in> set (index_jobs q)" "job_ids_unique q" "\<forall>k \<in> set (index_jobs q). owned c k \<longleftrightarrow> k = j1"
    "fault stmt = None"
  shows "\<exists>q'. lease_update fault stmt c f q = (None, q') \<and> f j1 \<in> set (index_jobs q')
           \<and> repositories q' = repositories q"
proof -
  have "distinct (index_jobs q)" using assms(2) by (simp add: job_ids_unique_def distinct_map)
  then have "length (filter (owned c) (index_jobs q)) = 1"
    using filter_one [OF _ assms(1), of "owned c"] assms(3) by simp
  moreover have "f j1 \<in> set (index_jobs (snd (update_jobs (owned c) f q)))"
  proof -
    have "(if owned c j1 then f j1 else j1) \<in> set (index_jobs (snd (update_jobs (owned c) f q)))"
      unfolding update_jobs_def using assms(1) by (simp del: if_image_distrib)
    then show ?thesis using assms(1,3) by simp
  qed
  moreover have "repositories (snd (update_jobs (owned c) f q)) = repositories q"
    by (simp add: update_jobs_def)
  moreover have "fst (update_jobs (owned c) f q) = length (filter (owned c) (index_jobs q))"
    by (simp add: update_jobs_def)
  ultimately show ?thesis
    using assms(4) by (simp add: lease_update_def case_prod_unfold requireOwnedLease_def)
qed

lemma repositorySource_same:
  "repositories q' = repositories q \<Longrightarrow> repositorySource fault q' r = repositorySource fault q r"
  by (simp add: repositorySource_def)

lemma RunOnce_runs:
  assumes "claim fault w started q = (Inr (Some c), q1)"
    "repositorySource fault q1 (c_Repo c) = (src, has)"
    "has \<Longrightarrow> fst (fst (allow started src h))"
    "execute env fault c q1 = (err, q2)"
    "record_outcome env fault w ended c err q2 = (e, q3)"
  shows "RunOnce allow report env fault w started ended q h =
    ((True, e), q3, if has then report ended src (outageOnly err) (snd (allow started src h)) else h)"
  using assms by (cases "allow started src h"; cases has)
    (auto simp: RunOnce_def Let_def split: prod.split)

lemma RunOnce_pauses:
  assumes "claim fault w started q = (Inr (Some c), q1)"
    "repositorySource fault q1 (c_Repo c) = (src, True)"
    "allow started src h = ((False, reason), h1)"
    "requeuePaused fault started c reason q1 = (e, q2)"
  shows "RunOnce allow report env fault w started ended q h = ((True, e), q2, h1)"
  using assms by (simp add: RunOnce_def Let_def)

section \<open>Properties\<close>

text \<open>
  The lease is exclusive. However the steps of any number of workers interleave (claims,
  recoveries of expired jobs, pauses, warnings, outcomes, crashes), at most one of the claims
  held in the workers' memories owns a job's row, so no stale worker can overwrite the outcome
  of the one that took over; and the owner's attempt count is the row's.
\<close>

theorem lease_exclusive:
  assumes "system_reachable w q0 s" "c \<in> set (sys_held s)" "c' \<in> set (sys_held s)"
    "j \<in> set (index_jobs (sys_queue s))" "owned c j" "owned c' j"
  shows "c = c' \<and> job_attempts j = c_Attempts c"
proof -
  have ok: "system_ok s" using assms(1) by (rule reachable_ok)
  then have "inj_on (\<lambda>c. (c_ID c, c_StartedAt c)) (set (sys_held s))"
    by (simp add: system_ok_def distinct_map)
  moreover have "(c_ID c, c_StartedAt c) = (c_ID c', c_StartedAt c')"
    using assms(5,6) by (simp add: owned_def)
  ultimately have "c = c'" using assms(2,3) by (blast dest: inj_onD)
  moreover have "claim_ok (sys_now s) (sys_queue s) c" using ok assms(2) by (simp add: system_ok_def)
  then have "job_attempts j = c_Attempts c" using assms(4,5) by (auto simp: claim_ok_def owned_def)
  ultimately show ?thesis by simp
qed

text \<open>
  C19: an outage never costs a repository its retry budget, and a real failure always does.
  When the oldest due job is run and its run fails, the row afterwards has the attempts it had
  before the claim and is pending if the failure is an outage of the source (then it waits at
  least thirty seconds unless the worker was shut down); for any other failure one more attempt
  is counted, and the job is failed exactly when the budget is spent.
\<close>

theorem failure_accounting:
  assumes "job_ids_unique q" "oldest (filter (due started) (index_jobs q)) = Some j"
    "0 \<le> job_attempts j" "\<forall>stmt. fault stmt = None"
    "repositorySource fault q (job_repo j) = (src, has)"
    "has \<longrightarrow> fst (fst (allow started src h))"
    "execute env fault (claimed_of started j) (snd (claim fault w started q))
       = (Some e, snd (claim fault w started q))"
  shows "\<exists>k \<in> set (index_jobs (fst (snd (RunOnce allow report env fault w started ended q h)))).
    job_id k = job_id j
    \<and> job_attempts k = (if sourceOutage (Some e) then job_attempts j else job_attempts j + 1)
    \<and> job_status k = (if \<not> sourceOutage (Some e) \<and> w_maxAttempts w \<le> job_attempts j + 1
                     then ''failed'' else ''pending'')
    \<and> (sourceOutage (Some e) \<and> \<not> errors_is e Canceled \<longrightarrow> ended + 30 * second \<le> job_next k)"
proof -
  let ?c = "claimed_of started j"
  have nofault: "fault ClaimJob = None" "fault RetryJob = None" using assms(4) by simp_all
  obtain j1 q1 where claim: "claim fault w started q = (Inr (Some ?c), q1)"
    "j1 \<in> set (index_jobs q1)" "job_ids_unique q1" "repositories q1 = repositories q"
    "j1 = j\<lparr>job_status := ''running'', job_attempts := job_attempts j + 1,
            job_started := Some started, job_claimed := w_identity w\<rparr>"
    "\<forall>k \<in> set (index_jobs q1). owned ?c k \<longleftrightarrow> k = j1"
    by (rule claim_owner [where fault = fault and w = w, OF assms(1,2) nofault(1)])
  obtain e' where e': "explain_timeout env w (Some e) = Some e'"
    by (cases "errors_is e DeadlineExceeded") (simp_all add: explain_timeout_def)
  note same = sourceOutage_explained [OF e']
  let ?out = "sourceOutage (Some e')"
  define f where "f = (\<lambda>j. j\<lparr>job_status := (if \<not> ?out \<and> w_maxAttempts w \<le> c_Attempts ?c
        then ''failed'' else ''pending''),
      job_attempts := (if ?out then returned_attempt (c_Attempts ?c) else c_Attempts ?c),
      job_error := truncate_bytes (error_message e') 1000,
      job_next := ended + retry_delay (c_Attempts ?c) e',
      job_completed := (if \<not> ?out \<and> w_maxAttempts w \<le> c_Attempts ?c then Some ended else None),
      job_outage := (if \<not> ?out then None
        else case job_outage j of None \<Rightarrow> Some ended | Some t \<Rightarrow> Some t)\<rparr> :: index_job)"
  obtain q2 where u: "lease_update fault RetryJob ?c f q1 = (None, q2)" "f j1 \<in> set (index_jobs q2)"
    using owner_update [where fault = fault and f = f, OF claim(2,3,6) nofault(2)] by metis
  have "index_jobs (snd (record_outcome env fault w ended ?c (Some e) q1)) = index_jobs q2"
    using u(1) by (cases ?out) (simp_all add: record_outcome_def e' retry_job_def Let_def f_def)
  moreover have "fst (snd (RunOnce allow report env fault w started ended q h))
      = snd (record_outcome env fault w ended ?c (Some e) q1)"
  proof -
    have src: "repositorySource fault q1 (c_Repo ?c) = (src, has)"
      using assms(5) repositorySource_same [OF claim(4)] by (simp add: claimed_of_def)
    have run: "execute env fault ?c q1 = (Some e, q1)" using assms(7) claim(1) by simp
    obtain r q3 where rec: "record_outcome env fault w ended ?c (Some e) q1 = (r, q3)" by force
    have allowed: "has \<Longrightarrow> fst (fst (allow started src h))" using assms(6) by simp
    show ?thesis
      using RunOnce_runs [where report = report and allow = allow and fault = fault and h = h and env = env,
          OF claim(1) src allowed run rec] rec by simp
  qed
  moreover have "job_id (f j1) = job_id j" by (simp add: f_def claim(5))
  moreover have "job_attempts (f j1) = (if sourceOutage (Some e) then job_attempts j else job_attempts j + 1)"
    using assms(3) same by (simp add: f_def claimed_of_def returned_attempt_def)
  moreover have "job_status (f j1) = (if \<not> sourceOutage (Some e) \<and> w_maxAttempts w \<le> job_attempts j + 1
                     then ''failed'' else ''pending'')"
    using same by (simp add: f_def claimed_of_def)
  moreover have "ended + 30 * second \<le> job_next (f j1)" if "sourceOutage (Some e)" "\<not> errors_is e Canceled"
    using same that by (simp add: f_def retry_delay_def Let_def)
  ultimately show ?thesis using u(2) by (intro bexI [of _ "f j1"]) auto
qed

lemma finished_kept:
  assumes "index_jobs q' = index_jobs q \<or> (\<exists>f. release c f q q')"
    "j \<in> set (index_jobs q)" "job_status j \<noteq> ''running''"
  shows "j \<in> set (index_jobs q')"
proof -
  have "\<not> owned c j" using assms(3) by (simp add: owned_def)
  then show ?thesis using assms(1,2) by (auto simp: release_def image_iff intro!: bexI [of _ j])
qed

lemma step_keeps_finished:
  assumes "system_step w s s'" "j \<in> set (index_jobs (sys_queue s))"
    "job_status j \<noteq> ''running''" "job_status j \<noteq> ''pending''"
    "job_ids_unique (sys_queue s)"
  shows "j \<in> set (index_jobs (sys_queue s'))"
  using assms
proof (induction rule: system_step.induct)
  case (claims fault who s c q)
  obtain k where k: "k \<in> set (index_jobs (sys_queue s))" "due (sys_now s) k"
    "q = snd (update_jobs (\<lambda>i. job_id i = job_id k)
       (\<lambda>i. i\<lparr>job_status := ''running'', job_attempts := job_attempts i + 1,
              job_started := Some (sys_now s), job_claimed := w_identity (w\<lparr>w_identity := who\<rparr>)\<rparr>)
       (sys_queue s))"
    using claim_cases [OF claims(1)] by blast
  then have "job_id j \<noteq> job_id k"
    using unique_ids_eq [OF claims(5) claims(2) k(1)] claims(4) by (auto simp: due_def)
  then show ?case using claims(2) k(3) by (auto simp: update_jobs_def image_iff intro!: bexI [of _ j])
next
  case (recovers fault s r q)
  then show ?case
    by (auto simp: RecoverStaleJobs_def update_jobs_def Let_def image_iff split: option.splits
        intro!: bexI [of _ j])
next
  case (pauses c s fault reason r q)
  from finished_kept [of q "sys_queue s" c j] pauses show ?case
    by (auto elim: pause_release)
next
  case (warns c s fault ref warning r q)
  from finished_kept [of q "sys_queue s" c j] warns warn_rows [OF warns(2)] show ?case by auto
next
  case (finishes c s fault env err r q)
  from finished_kept [of q "sys_queue s" c j] finishes show ?case
    by (auto elim: outcome_release)
qed simp_all

inductive system_steps :: "worker \<Rightarrow> system \<Rightarrow> system \<Rightarrow> bool" for w where
  none: "system_steps w s s"
| more: "system_steps w s s' \<Longrightarrow> system_step w s' s'' \<Longrightarrow> system_steps w s s''"

text \<open>
  A finished job is never touched again: once its row says completed or failed, no step of
  any worker changes it.
\<close>

theorem finished_jobs_stay:
  assumes "system_reachable w q0 s" "system_steps w s s'" "j \<in> set (index_jobs (sys_queue s))"
    "job_status j = ''completed'' \<or> job_status j = ''failed''"
  shows "j \<in> set (index_jobs (sys_queue s'))"
  using assms(2,1,3)
proof (induction rule: system_steps.induct)
  case (more s s' s'')
  have "system_reachable w q0 s'" using more.hyps(1) more.prems(1)
    by (induction rule: system_steps.induct) (auto intro: system_reachable.step)
  then have "job_ids_unique (sys_queue s')" using reachable_ok by (auto simp: system_ok_def)
  then show ?case using more step_keeps_finished [of w s' s'' j] assms(4) by auto
qed

section \<open>The breaker's client\<close>

context source_health
begin

lemma paused_turn:
  assumes "job_ids_unique q" "oldest (filter (due started) (index_jobs q)) = Some j"
    "0 \<le> job_attempts j" "\<forall>stmt. fault stmt = None"
    "repositorySource fault q (job_repo j) = (src, True)" "paused h src started"
  shows "(\<exists>k \<in> set (index_jobs (fst (snd (RunOnce allow report env fault w started ended q h)))).
      job_id k = job_id j \<and> job_attempts k = job_attempts j \<and> job_status k = ''pending''
      \<and> job_next k = started + pausedRequeueDelay)
    \<and> paused (snd (snd (RunOnce allow report env fault w started ended q h))) src' t = paused h src' t"
proof -
  let ?c = "claimed_of started j"
  have nofault: "fault ClaimJob = None" "fault PauseJob = None" using assms(4) by simp_all
  obtain j1 q1 where claim: "claim fault w started q = (Inr (Some ?c), q1)"
    "j1 \<in> set (index_jobs q1)" "job_ids_unique q1" "repositories q1 = repositories q"
    "j1 = j\<lparr>job_status := ''running'', job_attempts := job_attempts j + 1,
            job_started := Some started, job_claimed := w_identity w\<rparr>"
    "\<forall>k \<in> set (index_jobs q1). owned ?c k \<longleftrightarrow> k = j1"
    by (rule claim_owner [where fault = fault and w = w, OF assms(1,2) nofault(1)])
  obtain reason h1 where allow: "allow started src h = ((False, reason), h1)"
    using refuse_paused [OF assms(6)] by (metis prod.collapse)
  have src: "repositorySource fault q1 (c_Repo ?c) = (src, True)"
    using assms(5) repositorySource_same [OF claim(4)] by (simp add: claimed_of_def)
  define f where "f = (\<lambda>j. j\<lparr>job_status := ''pending'', job_attempts := returned_attempt (c_Attempts ?c),
      job_error := truncate_bytes (paused_label @ reason) 1000,
      job_next := started + pausedRequeueDelay\<rparr> :: index_job)"
  obtain q2 where u: "lease_update fault PauseJob ?c f q1 = (None, q2)" "f j1 \<in> set (index_jobs q2)"
    using owner_update [where fault = fault and f = f, OF claim(2,3,6) nofault(2)] by metis
  then have "requeuePaused fault started ?c reason q1 = (None, q2)"
    by (simp add: requeuePaused_def f_def)
  from RunOnce_pauses [where report = report and allow = allow and env = env, OF claim(1) src allow this]
  have run: "RunOnce allow report env fault w started ended q h = ((True, None), q2, h1)" .
  have "paused h1 src' t = paused h src' t" using allow_keeps [of started src h src' t] allow by simp
  moreover have "job_id (f j1) = job_id j" "job_attempts (f j1) = job_attempts j"
    "job_status (f j1) = ''pending''" "job_next (f j1) = started + pausedRequeueDelay"
    using assms(3) by (simp_all add: f_def claim(5) claimed_of_def returned_attempt_def)
  ultimately show ?thesis using u(2) by (auto simp: run)
qed

end

text \<open>
  While the breaker of a source is open, a job of that source is put back untouched: its
  attempts are what they were, it is pending again forty-five seconds later, and no breaker is
  paused or resumed by the turn.
\<close>

theorem paused_source_keeps_budget:
  assumes "job_ids_unique q" "oldest (filter (due started) (index_jobs q)) = Some j"
    "0 \<le> job_attempts j" "\<forall>stmt. fault stmt = None"
    "repositorySource fault q (job_repo j) = (src, True)" "breaker_paused h src started"
  shows "(\<exists>k \<in> set (index_jobs (fst (snd (RunOnce app_Allow app_Report env fault w started ended q h)))).
      job_id k = job_id j \<and> job_attempts k = job_attempts j \<and> job_status k = ''pending''
      \<and> job_next k = started + pausedRequeueDelay)
    \<and> breaker_paused (snd (snd (RunOnce app_Allow app_Report env fault w started ended q h))) src' t
        = breaker_paused h src' t"
  using assms by (rule breakers.paused_turn)

text \<open>
  A failure that has nothing to do with the server closes the server's breaker. Whenever a
  run fails with an error that is no outage (a connector that cannot be built, a repository
  that cannot be loaded, a policy that indexes nothing), the breaker of the source ends closed
  with its count of consecutive failures at zero, whatever it was before.
\<close>

theorem unrelated_failure_resets_breaker:
  assumes "claim fault w started q = (Inr (Some c), q1)"
    "repositorySource fault q1 (c_Repo c) = (src, True)"
    "fst (fst (app_Allow started src h))"
    "execute env fault c q1 = (Some e, q2)" "\<not> sourceOutage (Some e)"
  shows "\<exists>b. snd (snd (RunOnce app_Allow app_Report env fault w started ended q h)) src = Some b
    \<and> failures b = 0 \<and> openedAt b = zero_time"
proof -
  obtain r q3 where rec: "record_outcome env fault w ended c (Some e) q2 = (r, q3)" by force
  from RunOnce_runs [where report = app_Report and allow = app_Allow and env = env and h = h and fault = fault,
      OF assms(1,2) assms(3) assms(4) rec]
  have "snd (snd (RunOnce app_Allow app_Report env fault w started ended q h))
      = app_Report ended src (outageOnly (Some e)) (snd (app_Allow started src h))" by simp
  then show ?thesis using assms(5)
    by (simp add: outageOnly_def app_Report_def2 Let_def breaker_Success_def)
qed

section \<open>Witnesses\<close>

definition demo_job :: "string \<Rightarrow> string \<Rightarrow> index_job" where
  "demo_job i status = \<lparr>job_id = i, job_repo = ''r'', job_ref = ''main'', job_status = status,
     job_attempts = 4, job_next = 0, job_created = 0, job_started = None, job_completed = None,
     job_error = [], job_outage = None, job_claimed = []\<rparr>"

definition demo_queue :: queue where
  "demo_queue = \<lparr>index_jobs = [demo_job ''a'' ''completed'', demo_job ''b'' ''pending''],
     repositories = [''r'' \<mapsto> \<lparr>repo_library = ''/p/s'', repo_source = ''gitlab'', repo_external = ''7'',
       repo_project = ''p'', repo_slug = ''s'', repo_default = ''main'', repo_enabled = True\<rparr>],
     ref_embedding = Map.empty, alerts = Map.empty\<rparr>"

definition demo_env :: "go_error option \<Rightarrow> job_env" where
  "demo_env e = \<lparr>quote_string = (\<lambda>s. s), format_duration = (\<lambda>d. []), format_rfc3339 = (\<lambda>t. []),
     open_source = (\<lambda>src. e), list_branches = (\<lambda>r. Inr [''main'']), list_tags = (\<lambda>r. Inr []),
     retrieval_mode = None, embedding_factory = None,
     apply_pending = (\<lambda>embeds c r selected q. (None, q)), projection = None\<rparr>"

definition no_faults :: job_faults where
  "no_faults = (\<lambda>stmt. None)"

lemma demo_facts:
  "job_ids_unique demo_queue" "running_started 9 demo_queue"
  "oldest (filter (due 9) (index_jobs demo_queue)) = Some (demo_job ''b'' ''pending'')"
  "repositorySource no_faults demo_queue ''r'' = (''gitlab'', True)"
  "demo_job ''a'' ''completed'' \<in> set (index_jobs demo_queue)"
  by (simp_all add: job_ids_unique_def running_started_def demo_queue_def demo_job_def due_def
      repositorySource_def no_faults_def)

lemma demo_reachable:
  "system_reachable (new_worker ''w'') demo_queue \<lparr>sys_queue = demo_queue, sys_held = [], sys_now = 9\<rparr>"
  by (rule system_reachable.start) (rule demo_facts)+

theorem lease_exclusive_witness:
  "\<exists>s c j. system_reachable (new_worker ''w'') demo_queue s \<and> c \<in> set (sys_held s)
     \<and> j \<in> set (index_jobs (sys_queue s)) \<and> owned c j \<and> job_attempts j = c_Attempts c"
proof -
  let ?w = "new_worker ''w''\<lparr>w_identity := ''other''\<rparr>" and ?c = "claimed_of 9 (demo_job ''b'' ''pending'')"
  have nofault: "no_faults ClaimJob = None" by (simp add: no_faults_def)
  obtain j1 q1 where claim: "claim no_faults ?w 9 demo_queue = (Inr (Some ?c), q1)"
    "j1 \<in> set (index_jobs q1)" "\<forall>k \<in> set (index_jobs q1). owned ?c k \<longleftrightarrow> k = j1"
    by (rule claim_owner [where fault = no_faults and w = ?w, OF demo_facts(1,3) nofault]) blast
  let ?s = "\<lparr>sys_queue = q1, sys_held = [?c], sys_now = 9\<rparr> :: system"
  have step: "system_step (new_worker ''w'') \<lparr>sys_queue = demo_queue, sys_held = [], sys_now = 9\<rparr> ?s"
    using system_step.claims [where fault = no_faults and w = "new_worker ''w''" and who = "''other''"
        and s = "\<lparr>sys_queue = demo_queue, sys_held = [], sys_now = 9\<rparr>" and c = ?c and q = q1] claim(1)
    by simp
  have reach: "system_reachable (new_worker ''w'') demo_queue ?s"
    using system_reachable.step [OF demo_reachable step] .
  have "owned ?c j1" using claim(2,3) by simp
  then show ?thesis using lease_exclusive [OF reach, of ?c ?c j1] claim(2) reach
    by (intro exI [of _ ?s] exI [of _ ?c] exI [of _ j1]) simp
qed

theorem finished_jobs_stay_witness:
  "demo_job ''a'' ''completed'' \<in> set (index_jobs (sys_queue
     \<lparr>sys_queue = demo_queue, sys_held = [], sys_now = 11\<rparr>))"
proof (rule finished_jobs_stay [OF demo_reachable])
  have "system_step (new_worker ''w'') \<lparr>sys_queue = demo_queue, sys_held = [], sys_now = 9\<rparr>
      \<lparr>sys_queue = demo_queue, sys_held = [], sys_now = 11\<rparr>"
    using system_step.tick [of "\<lparr>sys_queue = demo_queue, sys_held = [], sys_now = 9\<rparr>" 11] by simp
  then show "system_steps (new_worker ''w'') \<lparr>sys_queue = demo_queue, sys_held = [], sys_now = 9\<rparr>
      \<lparr>sys_queue = demo_queue, sys_held = [], sys_now = 11\<rparr>"
    using system_steps.more [OF system_steps.none] by blast
qed (simp_all add: demo_facts(5), simp add: demo_job_def)

lemma demo_execute:
  "execute (demo_env (Some e)) no_faults (claimed_of 9 (demo_job ''b'' ''pending''))
     (snd (claim no_faults (new_worker ''w'') 9 demo_queue))
   = (Some (Wrap ''gitlab connector: '' e '' (check the gitlab setting)''),
      snd (claim no_faults (new_worker ''w'') 9 demo_queue))"
  by (simp add: execute_def load_repository_def no_faults_def claim_def demo_facts(3) update_jobs_def
      demo_env_def claimed_of_def demo_job_def) (simp add: demo_queue_def)

theorem failure_accounting_witness:
  "\<exists>k \<in> set (index_jobs (fst (snd (RunOnce app_Allow app_Report (demo_env (Some (Plain ''bad key'')))
       no_faults (new_worker ''w'') 9 20 demo_queue NewBreakers)))).
     job_id k = ''b'' \<and> job_attempts k = 5 \<and> job_status k = ''failed''"
proof -
  have out: "\<not> sourceOutage (Some (Wrap ''gitlab connector: '' (Plain ''bad key'') '' (check the gitlab setting)''))"
    by (simp add: sourceOutage_def outage_markers_def contains_str_def to_lower_def lower_char_def)
  have has: "True \<longrightarrow> fst (fst (app_Allow 9 ''gitlab'' NewBreakers))"
    by (simp add: app_Allow_def2 Let_def NewBreakers_def breaker_Allow_def new_breaker_def)
  have repo: "repositorySource no_faults demo_queue (job_repo (demo_job ''b'' ''pending'')) = (''gitlab'', True)"
    using demo_facts(4) by (simp add: demo_job_def)
  have pos: "0 \<le> job_attempts (demo_job ''b'' ''pending'')" by (simp add: demo_job_def)
  have nofault: "\<forall>stmt. no_faults stmt = None" by (simp add: no_faults_def)
  from failure_accounting [where allow = app_Allow and report = app_Report and ended = 20,
      OF demo_facts(1,3) pos nofault repo has demo_execute [of "Plain ''bad key''"]]
  obtain k where "k \<in> set (index_jobs (fst (snd (RunOnce app_Allow app_Report
      (demo_env (Some (Plain ''bad key''))) no_faults (new_worker ''w'') 9 20 demo_queue NewBreakers))))"
    "job_id k = ''b'' \<and> job_attempts k = 5 \<and> job_status k = ''failed''"
    using out by (auto simp: demo_job_def new_worker_def simp del: sum.case)
  then show ?thesis by blast
qed

theorem paused_source_keeps_budget_witness:
  "\<exists>k \<in> set (index_jobs (fst (snd (RunOnce app_Allow app_Report (demo_env None) no_faults (new_worker ''w'')
       9 20 demo_queue [''gitlab'' \<mapsto> new_breaker\<lparr>openedAt := 1, retryAt := 50\<rparr>])))).
     job_id k = ''b'' \<and> job_attempts k = 4 \<and> job_status k = ''pending''"
proof -
  have repo: "repositorySource no_faults demo_queue (job_repo (demo_job ''b'' ''pending'')) = (''gitlab'', True)"
    using demo_facts(4) by (simp add: demo_job_def)
  have pos: "0 \<le> job_attempts (demo_job ''b'' ''pending'')" by (simp add: demo_job_def)
  have nofault: "\<forall>stmt. no_faults stmt = None" by (simp add: no_faults_def)
  have paused: "breaker_paused [''gitlab'' \<mapsto> new_breaker\<lparr>openedAt := 1, retryAt := 50\<rparr>] ''gitlab'' 9"
    by (simp add: breaker_paused_def zero_time_def)
  from paused_source_keeps_budget [where env = "demo_env None" and w = "new_worker ''w''" and ended = 20,
      OF demo_facts(1,3) pos nofault repo paused]
  show ?thesis by (auto simp: demo_job_def)
qed

theorem unrelated_failure_resets_breaker_witness:
  "\<exists>b. snd (snd (RunOnce app_Allow app_Report (demo_env (Some ErrNotConfigured)) no_faults (new_worker ''w'')
       9 20 demo_queue [''gitlab'' \<mapsto> new_breaker\<lparr>failures := 3\<rparr>])) ''gitlab'' = Some b
     \<and> failures b = 0 \<and> openedAt b = zero_time"
proof -
  let ?c = "claimed_of 9 (demo_job ''b'' ''pending'')"
  let ?q1 = "snd (claim no_faults (new_worker ''w'') 9 demo_queue)"
  have claim: "claim no_faults (new_worker ''w'') 9 demo_queue = (Inr (Some ?c), ?q1)"
    by (simp add: claim_def no_faults_def demo_facts(3))
  have repo: "repositorySource no_faults ?q1 (c_Repo ?c) = (''gitlab'', True)"
    by (simp add: repositorySource_def no_faults_def claim_def demo_facts(3) update_jobs_def
        claimed_of_def demo_job_def) (simp add: demo_queue_def)
  have allow: "fst (fst (app_Allow 9 ''gitlab'' [''gitlab'' \<mapsto> new_breaker\<lparr>failures := 3\<rparr>]))"
    by (simp add: app_Allow_def2 Let_def breaker_Allow_def new_breaker_def)
  have "\<not> sourceOutage (Some (Wrap ''gitlab connector: '' ErrNotConfigured '' (check the gitlab setting)''))"
    by (simp add: sourceOutage_def)
  from unrelated_failure_resets_breaker [where ended = 20, OF claim repo allow demo_execute this]
  show ?thesis .
qed

end
