(* ===== verification/ToolCache.thy ===== *)
theory ToolCache
  imports ResponseBudget "HOL-Library.AList"
begin

text \<open>
  The tool answer cache, the MCP sessions and the per-tool policy:
  \<^verbatim>\<open>internal/mcp/cache.go\<close>, \<^verbatim>\<open>session.go\<close>, \<^verbatim>\<open>policy.go\<close>, the principal of a
  request (\<^verbatim>\<open>internal/auth/principal.go\<close>) and the access rules of
  \<^verbatim>\<open>internal/search/service.go\<close> they use. The in-process maps are association lists with
  distinct keys; a mutex makes each operation one step. The digest of revision rows, the
  session hash and the JSON text of the arguments are arguments of the definitions.
\<close>

section \<open>Who is asking\<close>

record Principal =
  p_UserID :: string
  p_ACLPrincipal :: string
  p_ACLPrincipals :: "string list"
  p_Roles :: "string list"
  p_KeyID :: string
  p_Scopes :: "string list"
  p_AllowedRepositories :: "string list"

definition HasRole :: "Principal \<Rightarrow> string \<Rightarrow> bool" where
  "HasRole p role \<longleftrightarrow> list_ex (\<lambda>item. item = role \<or> item = ''platform-admin'') (p_Roles p)"

definition UnrestrictedPrincipal :: string where
  "UnrestrictedPrincipal = ''git-ctx:unrestricted''"

definition unrestrictedSearchRoles :: "string list" where
  "unrestrictedSearchRoles = [''platform-admin'', ''source-admin'', ''search-admin'']"

definition GrantsUnrestrictedSearch :: "string list \<Rightarrow> bool" where
  "GrantsUnrestrictedSearch roles \<longleftrightarrow> list_ex (\<lambda>role. role \<in> set unrestrictedSearchRoles) roles"

definition WithUnrestricted :: "string list \<Rightarrow> string list \<Rightarrow> string list" where
  "WithUnrestricted principals roles =
     (if GrantsUnrestrictedSearch roles then principals @ [UnrestrictedPrincipal] else principals)"

definition Unrestricted :: "string list \<Rightarrow> bool" where
  "Unrestricted principals \<longleftrightarrow> UnrestrictedPrincipal \<in> set principals"

definition principalACLs :: "Principal \<Rightarrow> string list" where
  "principalACLs p =
     WithUnrestricted
       (if 0 < length (p_ACLPrincipals p) then p_ACLPrincipals p
        else if p_ACLPrincipal p \<noteq> [] then [p_ACLPrincipal p] else [])
       (p_Roles p)"

text \<open>\<^verbatim>\<open>strings.EqualFold\<close> on the ASCII letters of a library id.\<close>

definition LibraryAllowed :: "string \<Rightarrow> string list \<Rightarrow> bool" where
  "LibraryAllowed libraryID allowed \<longleftrightarrow> allowed = [] \<or>
     (case split_on CHR ''/'' (trim_prefix (to_lower libraryID) ''/'') of
        project # slug # rest \<Rightarrow>
          list_ex (\<lambda>item. to_lower item = ''/'' @ project @ ''/'' @ slug) allowed
      | _ \<Rightarrow> False)"

definition baseLibraryID :: "string \<Rightarrow> string" where
  "baseLibraryID i =
     (case split_on CHR ''/'' (trim_prefix (to_lower (trim_space i)) ''/'') of
        project # slug # rest \<Rightarrow> ''/'' @ project @ ''/'' @ slug
      | _ \<Rightarrow> [])"

definition filterLibraries :: "(string \<times> 'a) list \<Rightarrow> string list \<Rightarrow> (string \<times> 'a) list" where
  "filterLibraries items allowed = filter (\<lambda>item. LibraryAllowed (fst item) allowed) items"

section \<open>Policy\<close>

text \<open>A row of \<^verbatim>\<open>mcp_tools\<close>, and the registry's entry of a tool.\<close>

record tool_row =
  tr_enabled :: int
  tr_timeout_ms :: int
  tr_max_bytes :: int
  tr_cache_seconds :: int

record tool_entry =
  te_name :: string
  te_core :: bool
  te_adminRoles :: "string list"

definition entry_allowed :: "tool_entry \<Rightarrow> Principal \<Rightarrow> bool" where
  "entry_allowed entry p \<longleftrightarrow> te_adminRoles entry = []
     \<or> (p_KeyID p \<noteq> [] \<and> list_ex (HasRole p) (te_adminRoles entry))"

type_synonym tool_table = "string \<Rightarrow> tool_row option"

definition toolEnabled :: "tool_table \<Rightarrow> string \<Rightarrow> bool" where
  "toolEnabled tools name = (case tools name of None \<Rightarrow> True | Some row \<Rightarrow> tr_enabled row = 1)"

definition toolVisible :: "tool_table \<Rightarrow> bool \<Rightarrow> Principal \<Rightarrow> tool_entry \<Rightarrow> bool" where
  "toolVisible tools strict p entry =
     (if strict \<and> \<not> te_core entry then False
      else if \<not> toolEnabled tools (te_name entry) then False
      else if \<not> entry_allowed entry p then False
      else p_KeyID p = [] \<or> te_name entry \<in> set (p_Scopes p))"

definition toolTimeout :: "tool_table \<Rightarrow> string \<Rightarrow> duration" where
  "toolTimeout tools name =
     (case tools name of
        None \<Rightarrow> 30 * second
      | Some row \<Rightarrow> (if tr_timeout_ms row < 100 then 30 * second
                     else wrap64 (tr_timeout_ms row * millisecond)))"

definition responseBudget :: "tool_table \<Rightarrow> string \<Rightarrow> int" where
  "responseBudget tools name =
     (case tools name of
        None \<Rightarrow> DefaultResponseBytes
      | Some row \<Rightarrow> (if tr_max_bytes row \<le> 0 then DefaultResponseBytes
                     else min (max (tr_max_bytes row) MinResponseBytes) MaxResponseBytes))"

section \<open>The cache\<close>

record cache_entry =
  ce_text :: string
  ce_expires :: time

type_synonym tool_cache = "(string \<times> cache_entry) list"

definition maxToolCacheEntries :: nat where
  "maxToolCacheEntries = 10000"

text \<open>
  The two revisions folded into a key. A query that fails is \<open>None\<close>; \<open>hash\<close> is SHA-256 in
  hexadecimal. The rows of \<^verbatim>\<open>repository_permissions\<close> come with the time their repository was indexed,
  as text, empty for \<^verbatim>\<open>NULL\<close>.
\<close>

record acl_row =
  ac_repo :: string
  ac_principal :: string
  ac_permission :: string
  ac_indexed :: string

record setting_version =
  sv_category :: string
  sv_version :: int

definition acl_listed :: "string list \<Rightarrow> acl_row list \<Rightarrow> acl_row list" where
  "acl_listed principals rows =
     sort_key (\<lambda>r. (ac_repo r, ac_principal r))
       (filter (\<lambda>r. ac_principal r \<in> set principals \<or> ac_principal r = ''*'') rows)"

definition acl_line :: "acl_row \<Rightarrow> string" where
  "acl_line r = ac_repo r @ [CHR 0x00] @ ac_principal r @ [CHR 0x00] @ ac_permission r @ [CHR 0x00] @ ac_indexed r @ [CHR 0x0A]"

definition acl_text :: "string list \<Rightarrow> acl_row list \<Rightarrow> string" where
  "acl_text principals rows = concat (map acl_line (acl_listed principals rows))"

definition aclRevision :: "(string \<Rightarrow> string) \<Rightarrow> acl_row list option \<Rightarrow> string list \<Rightarrow> string" where
  "aclRevision hash acl principals =
     (if principals = [] then ''none''
      else case acl of None \<Rightarrow> ''unavailable'' | Some rows \<Rightarrow> hash (acl_text principals rows))"

definition searchCategories :: "string list" where
  "searchCategories = [''search'', ''model'', ''vector'', ''opensearch'']"

definition settings_text :: "setting_version list \<Rightarrow> string" where
  "settings_text rows =
     concat (map (\<lambda>r. sv_category r @ '':'' @ itoa (sv_version r) @ [CHR 0x0A])
       (sort_key sv_category (filter (\<lambda>r. sv_category r \<in> set searchCategories) rows)))"

definition searchConfigRevision :: "(string \<Rightarrow> string) \<Rightarrow> setting_version list option \<Rightarrow> string" where
  "searchConfigRevision hash settings =
     (case settings of None \<Rightarrow> ''unavailable'' | Some rows \<Rightarrow> hash (settings_text rows))"

definition cacheKey ::
    "(string \<Rightarrow> string) \<Rightarrow> acl_row list option \<Rightarrow> setting_version list option \<Rightarrow> Principal \<Rightarrow> string \<Rightarrow> string \<Rightarrow> string" where
  "cacheKey hash acl settings p tool raw =
     (let principals = sort (principalACLs p);
          repositories = sort (p_AllowedRepositories p)
      in tool @ ''|'' @ join_with '','' principals @ ''|'' @ join_with '','' repositories
         @ ''|'' @ aclRevision hash acl principals
         @ ''|'' @ searchConfigRevision hash settings @ ''|'' @ raw)"

definition cached :: "time \<Rightarrow> string \<Rightarrow> tool_cache \<Rightarrow> string option \<times> tool_cache" where
  "cached now key cache =
     (case map_of cache key of
        None \<Rightarrow> (None, cache)
      | Some entry \<Rightarrow> (if \<not> now < ce_expires entry then (None, AList.delete key cache)
                       else (Some (ce_text entry), cache)))"

definition deleteExpired :: "time \<Rightarrow> tool_cache \<Rightarrow> tool_cache" where
  "deleteExpired now cache = filter (\<lambda>(key, entry). now < ce_expires entry) cache"

text \<open>One pass over the map, as the loop compares it; the empty key stands for none yet.\<close>

definition victim_step :: "string \<times> time \<Rightarrow> string \<times> cache_entry \<Rightarrow> string \<times> time" where
  "victim_step best item =
     (if fst best = [] \<or> ce_expires (snd item) < snd best
         \<or> (ce_expires (snd item) = snd best \<and> fst item < fst best)
      then (fst item, ce_expires (snd item)) else best)"

definition victim :: "tool_cache \<Rightarrow> string" where
  "victim cache = fst (foldl victim_step ([], zero_time) cache)"

lemma victim_fold: "foldl victim_step best cache \<in> insert best ((\<lambda>(k, e). (k, ce_expires e)) ` set cache)"
proof (induction cache arbitrary: best)
  case (Cons x xs)
  have "victim_step best x = best \<or> victim_step best x = (fst x, ce_expires (snd x))"
    by (simp add: victim_step_def)
  moreover have "(fst x, ce_expires (snd x)) \<in> (\<lambda>(k, e). (k, ce_expires e)) ` set (x # xs)"
    by (cases x) auto
  ultimately show ?case using Cons.IH [of "victim_step best x"] by auto
qed simp

lemma victim_member: "cache \<noteq> [] \<Longrightarrow> victim cache \<in> fst ` set cache"
proof (cases cache)
  case (Cons x xs)
  then have "foldl victim_step ([], zero_time) cache = foldl victim_step (fst x, ce_expires (snd x)) xs"
    by (simp add: victim_step_def)
  with victim_fold [of "(fst x, ce_expires (snd x))" xs] Cons show ?thesis
    by (force simp: victim_def)
qed simp

lemma delete_shorter: "k \<in> fst ` set xs \<Longrightarrow> length (AList.delete k xs) < length xs"
proof -
  assume "k \<in> fst ` set xs"
  then obtain v where "(k, v) \<in> set xs" by auto
  then show ?thesis unfolding AList.delete_eq by (rule length_filter_less) simp
qed

function trimCache :: "nat \<Rightarrow> tool_cache \<Rightarrow> tool_cache" where
  "trimCache limit cache =
     (if limit < length cache then trimCache limit (AList.delete (victim cache) cache) else cache)"
  by pat_completeness auto
termination
proof (relation "measure (\<lambda>(limit, cache). length cache)")
  fix limit and cache :: tool_cache
  assume "limit < length cache"
  then have "victim cache \<in> fst ` set cache" by (intro victim_member) auto
  then show "((limit, AList.delete (victim cache) cache), limit, cache)
      \<in> measure (\<lambda>(limit, cache). length cache)"
    by (simp add: delete_shorter)
qed simp

declare trimCache.simps [simp del]

definition storeCache :: "tool_table \<Rightarrow> time \<Rightarrow> string \<Rightarrow> string \<Rightarrow> string \<Rightarrow> tool_cache \<Rightarrow> tool_cache" where
  "storeCache tools now tool key text cache =
     (case tools tool of
        None \<Rightarrow> cache
      | Some row \<Rightarrow>
          (if tr_cache_seconds row \<le> 0 then cache
           else let c1 = (if maxToolCacheEntries \<le> length cache then deleteExpired now cache else cache);
                    limit = (if map_of c1 key = None then maxToolCacheEntries - 1 else maxToolCacheEntries);
                    c2 = trimCache limit c1
                in AList.update key
                     \<lparr>ce_text = text, ce_expires = now + wrap64 (tr_cache_seconds row * second)\<rparr> c2))"

section \<open>What eviction keeps\<close>

text \<open>The order in which entries leave: by expiry, then by key.\<close>

definition leaves_by :: "string \<times> cache_entry \<Rightarrow> time \<times> string" where
  "leaves_by item = (ce_expires (snd item), fst item)"

definition cache_ok :: "tool_cache \<Rightarrow> bool" where
  "cache_ok cache \<longleftrightarrow> distinct (map fst cache) \<and> [] \<notin> fst ` set cache"

lemma cache_ok_subset:
  "cache_ok cache \<Longrightarrow> cache_ok (filter P cache)"
  by (auto simp: cache_ok_def distinct_map_filter)

lemma cache_ok_delete: "cache_ok cache \<Longrightarrow> cache_ok (AList.delete k cache)"
  unfolding AList.delete_eq by (rule cache_ok_subset)

lemma victim_least:
  assumes "fst best \<noteq> []" "[] \<notin> fst ` set cache"
  shows "let v = foldl victim_step best cache in
    (snd v, fst v) \<le> (snd best, fst best) \<and> (\<forall>item \<in> set cache. (snd v, fst v) \<le> leaves_by item)"
  using assms
proof (induction cache arbitrary: best)
  case (Cons x xs)
  let ?b = "victim_step best x"
  have b: "fst ?b \<noteq> []" using Cons.prems by (auto simp: victim_step_def)
  have "(snd ?b, fst ?b) \<le> (snd best, fst best)" "(snd ?b, fst ?b) \<le> leaves_by x"
    using Cons.prems by (auto simp: victim_step_def leaves_by_def)
  note step = this
  let ?v = "foldl victim_step ?b xs"
  have IH: "(snd ?v, fst ?v) \<le> (snd ?b, fst ?b)" "\<forall>item \<in> set xs. (snd ?v, fst ?v) \<le> leaves_by item"
    using Cons.IH [OF b] Cons.prems(2) by (simp_all add: Let_def)
  have "(snd ?v, fst ?v) \<le> (snd best, fst best)" "(snd ?v, fst ?v) \<le> leaves_by x"
    by (rule order_trans [OF IH(1) step(1)], rule order_trans [OF IH(1) step(2)])
  with IH(2) show ?case unfolding Let_def foldl_Cons list.set ball_simps by blast
qed (simp add: Let_def)

lemma victim_leaves_first:
  assumes "cache_ok cache" "cache \<noteq> []"
  obtains e where "(victim cache, e) \<in> set cache"
    "\<forall>item \<in> set cache. leaves_by (victim cache, e) \<le> leaves_by item"
proof -
  obtain x xs where x: "cache = x # xs" using assms(2) by (cases cache) auto
  let ?v = "foldl victim_step (fst x, ce_expires (snd x)) xs"
  have v: "foldl victim_step ([], zero_time) cache = ?v" by (simp add: x victim_step_def)
  have "?v \<in> (\<lambda>(k, e). (k, ce_expires e)) ` set cache"
    using victim_fold [of "(fst x, ce_expires (snd x))" xs] by (cases x) (auto simp: x)
  then obtain k e where e: "(k, e) \<in> set cache" "?v = (k, ce_expires e)" by auto
  have "fst (fst x, ce_expires (snd x)) \<noteq> []" "[] \<notin> fst ` set xs"
    using assms(1) x by (auto simp: cache_ok_def)
  from victim_least [OF this] have "\<forall>item \<in> set cache. (snd ?v, fst ?v) \<le> leaves_by item"
    by (auto simp: x leaves_by_def Let_def)
  then show ?thesis using that [of e] e v by (auto simp: victim_def leaves_by_def)
qed

lemma trimCache_spec:
  assumes "cache_ok cache"
  shows "cache_ok (trimCache limit cache) \<and> length (trimCache limit cache) \<le> max limit 0
    \<and> set (trimCache limit cache) \<subseteq> set cache
    \<and> (\<forall>gone \<in> set cache - set (trimCache limit cache).
         \<forall>kept \<in> set (trimCache limit cache). leaves_by gone \<le> leaves_by kept)"
  using assms
proof (induction limit cache rule: trimCache.induct)
  case (1 limit cache)
  show ?case
  proof (cases "limit < length cache")
    case False
    then show ?thesis using 1(2) by (simp add: trimCache.simps [of limit cache])
  next
    case True
    let ?c = "AList.delete (victim cache) cache"
    have "cache \<noteq> []" using True by auto
    then obtain e where e: "(victim cache, e) \<in> set cache"
      "\<forall>item \<in> set cache. leaves_by (victim cache, e) \<le> leaves_by item"
      using victim_leaves_first 1(2) by blast
    have sub: "set ?c \<subseteq> set cache" by (auto simp: AList.delete_eq)
    have only: "item = (victim cache, e)" if "item \<in> set cache" "item \<notin> set ?c" for item
    proof -
      have "fst item = victim cache" using that by (auto simp: AList.delete_eq)
      then show ?thesis using that(1) e(1) 1(2) by (cases item) (auto simp: cache_ok_def eq_key_imp_eq_value)
    qed
    from 1(1) [OF True cache_ok_delete [OF 1(2)]] have IH: "cache_ok (trimCache limit ?c)"
      "length (trimCache limit ?c) \<le> max limit 0" "set (trimCache limit ?c) \<subseteq> set ?c"
      "\<forall>gone \<in> set ?c - set (trimCache limit ?c).
         \<forall>kept \<in> set (trimCache limit ?c). leaves_by gone \<le> leaves_by kept" by auto
    have "trimCache limit cache = trimCache limit ?c" using True by (simp add: trimCache.simps [of limit cache])
    then have eq: "trimCache limit cache = trimCache limit ?c" .
    have "leaves_by gone \<le> leaves_by kept"
      if "gone \<in> set cache - set (trimCache limit ?c)" "kept \<in> set (trimCache limit ?c)" for gone kept
    proof (cases "gone \<in> set ?c")
      case True
      then show ?thesis using IH(4) that by blast
    next
      case False
      then have "gone = (victim cache, e)" using only that(1) by blast
      moreover have "kept \<in> set cache" using that(2) IH(3) sub by blast
      ultimately show ?thesis using e(2) by blast
    qed
    moreover have "set (trimCache limit ?c) \<subseteq> set cache" using IH(3) sub by blast
    ultimately show ?thesis unfolding eq using IH(1,2) by blast
  qed
qed

lemma deleteExpired_sub:
  "set (deleteExpired now cache) = {item \<in> set cache. now < ce_expires (snd item)}"
  by (auto simp: deleteExpired_def)

lemma deleteExpired_ok: "cache_ok cache \<Longrightarrow> cache_ok (deleteExpired now cache)"
  unfolding deleteExpired_def by (rule cache_ok_subset)

section \<open>Sessions\<close>

record session_row =
  sr_expires :: time
  sr_last_seen :: time
  sr_client :: string
  sr_version :: string

text \<open>The done channel of a session is closed once: \<open>ss_closed\<close> collects the closed ones.\<close>

record session =
  s_clientName :: string
  s_clientVersion :: string
  s_expires :: time

record session_state =
  ss_rows :: "string \<rightharpoonup> session_row"
  ss_memory :: "string \<rightharpoonup> session"
  ss_closed :: "string set"

definition session_ttl :: duration where
  "session_ttl = 30 * minute"

definition clip :: "string \<Rightarrow> int \<Rightarrow> string" where
  "clip value limit =
     (let v = trim_space value in
      if int (length v) \<le> limit then v else trim_space (runeSafeCut v limit) @ ellipsis)"

text \<open>\<open>i\<close> is the drawn id, \<open>None\<close> if the random source failed; the insert may fail.\<close>

definition newSession ::
    "(string \<Rightarrow> string) \<Rightarrow> bool \<Rightarrow> time \<Rightarrow> string option \<Rightarrow> string \<Rightarrow> string \<Rightarrow> session_state
     \<Rightarrow> string option \<times> session_state" where
  "newSession hash fault now drawn client ver st =
     (case drawn of
        None \<Rightarrow> (None, st)
      | Some i \<Rightarrow>
          (if fault \<or> ss_rows st (hash i) \<noteq> None then (None, st)
           else let gone = {k. case ss_memory st k of None \<Rightarrow> False | Some s \<Rightarrow> s_expires s < now}
             in (Some i, st\<lparr>
               ss_rows := (ss_rows st)(hash i \<mapsto> \<lparr>sr_expires = now + session_ttl, sr_last_seen = now,
                  sr_client = clip client 80, sr_version = clip ver 40\<rparr>),
               ss_memory := ((ss_memory st) |` (- gone))(i \<mapsto> \<lparr>s_clientName = clip client 80,
                  s_clientVersion = clip ver 40, s_expires = now + session_ttl\<rparr>),
               ss_closed := ss_closed st \<union> gone\<rparr>)))"

definition validSession ::
    "(string \<Rightarrow> string) \<Rightarrow> bool \<Rightarrow> time \<Rightarrow> string \<Rightarrow> session_state \<Rightarrow> bool \<times> session_state" where
  "validSession hash fault now i st =
     (case (if fault then None else ss_rows st (hash i)) of
        None \<Rightarrow> (False, st)
      | Some row \<Rightarrow>
          (if \<not> now < sr_expires row then (False, st)
           else (True, st\<lparr>
             ss_rows := (ss_rows st)(hash i \<mapsto> row\<lparr>sr_expires := now + session_ttl, sr_last_seen := now\<rparr>),
             ss_memory := (case ss_memory st i of
                None \<Rightarrow> ss_memory st
              | Some s \<Rightarrow> (ss_memory st)(i \<mapsto> s\<lparr>s_expires := now + session_ttl\<rparr>))\<rparr>)))"

definition sessionDone ::
    "(string \<Rightarrow> string) \<Rightarrow> bool \<Rightarrow> time \<Rightarrow> string \<Rightarrow> session_state \<Rightarrow> bool \<times> session_state" where
  "sessionDone hash fault now i st =
     (let (ok, st') = validSession hash fault now i st in
      if \<not> ok then (False, st')
      else (True, case ss_memory st' i of
        Some s \<Rightarrow> st'
      | None \<Rightarrow> st'\<lparr>ss_memory := (ss_memory st')(i \<mapsto>
          \<lparr>s_clientName = [], s_clientVersion = [], s_expires = now + session_ttl\<rparr>)\<rparr>))"

definition closeSession :: "(string \<Rightarrow> string) \<Rightarrow> bool \<Rightarrow> string \<Rightarrow> session_state \<Rightarrow> session_state" where
  "closeSession hash fault i st =
     (let st' = (if fault then st else st\<lparr>ss_rows := (ss_rows st)(hash i := None)\<rparr>)
      in case ss_memory st' i of
           None \<Rightarrow> st'
         | Some e \<Rightarrow> st'\<lparr>ss_memory := (ss_memory st')(i := None), ss_closed := insert i (ss_closed st')\<rparr>)"

section \<open>Properties\<close>

lemma update_length:
  "length (AList.update k v xs) = (if map_of xs k = None then Suc (length xs) else length xs)"
  by (induction xs) auto

lemma trimCache_short: "length cache \<le> limit \<Longrightarrow> trimCache limit cache = cache"
  by (simp add: trimCache.simps [of limit cache])

lemma set_update_other: "fst item \<noteq> key \<Longrightarrow> item \<in> set (AList.update key e xs) \<longleftrightarrow> item \<in> set xs"
  by (induction xs) auto

lemma set_update_same:
  "distinct (map fst xs) \<Longrightarrow> item \<in> set (AList.update key e xs) \<Longrightarrow> fst item = key \<Longrightarrow> item = (key, e)"
  by (induction xs) (auto simp: rev_image_eqI split: if_splits)

text \<open>The insertion after the purge: \<open>c1\<close> is the cache then, \<open>m\<close> the hard bound.\<close>

lemma trim_update_spec:
  assumes "cache_ok c1" "length c1 \<le> m" "key \<noteq> []" "0 < m"
    "limit = (if map_of c1 key = None then m - 1 else m)"
  shows "cache_ok (AList.update key e (trimCache limit c1))"
    and "length (AList.update key e (trimCache limit c1)) \<le> m"
    and "gone \<in> set c1 \<Longrightarrow> gone \<notin> set (AList.update key e (trimCache limit c1)) \<Longrightarrow>
      kept \<in> set (AList.update key e (trimCache limit c1)) \<Longrightarrow> kept \<noteq> (key, e) \<Longrightarrow>
      fst gone \<noteq> key \<Longrightarrow> leaves_by gone \<le> leaves_by kept"
proof -
  note trim = trimCache_spec [OF assms(1), of limit]
  note last_part = conjunct2 [OF conjunct2 [OF conjunct2 [OF trim]]]
  show "cache_ok (AList.update key e (trimCache limit c1))"
    using trim assms(3) by (auto simp: cache_ok_def distinct_update dom_update)
  then have dist: "distinct (map fst (AList.update key e (trimCache limit c1)))"
    by (simp add: cache_ok_def)
  show "length (AList.update key e (trimCache limit c1)) \<le> m"
  proof (cases "map_of c1 key = None")
    case True
    then have "length (trimCache limit c1) \<le> m - 1" using trim assms(5) by simp
    then show ?thesis using assms(4) by (auto simp: update_length)
  next
    case False
    then have "limit = m" using assms(5) by (simp only: if_False)
    then have "trimCache limit c1 = c1" using assms(2) by (intro trimCache_short) simp
    then show ?thesis using False assms(2) by (auto simp: update_length)
  qed
  assume gone: "gone \<in> set c1" "gone \<notin> set (AList.update key e (trimCache limit c1))"
    and kept: "kept \<in> set (AList.update key e (trimCache limit c1))" "kept \<noteq> (key, e)"
    and other: "fst gone \<noteq> key"
  have "distinct (map fst (trimCache limit c1))" using trim by (simp add: cache_ok_def)
  from set_update_same [OF this kept(1)] kept(2) have "fst kept \<noteq> key" by (rule contrapos_nn [rotated])
  then have "kept \<in> set (trimCache limit c1)" using kept(1) by (simp add: set_update_other)
  moreover have "gone \<notin> set (trimCache limit c1)" using gone(2) other by (simp add: set_update_other)
  ultimately show "leaves_by gone \<le> leaves_by kept" using bspec [OF bspec [OF last_part]] gone(1) by simp
qed

text \<open>
  The cache keeps its hard bound and loses only what expires first. Storing an answer into
  a cache within the bound leaves at most ten thousand entries with distinct keys; the stored
  answer is returned until its time to live has passed; and an entry that was still valid and
  is gone would have expired no later than any entry that is kept.
\<close>

theorem storeCache_bounded:
  assumes "cache_ok cache" "length cache \<le> maxToolCacheEntries" "key \<noteq> []"
    "tools tool = Some row" "0 < tr_cache_seconds row"
  shows "let cache' = storeCache tools now tool key text cache;
             expires = now + wrap64 (tr_cache_seconds row * second)
    in cache_ok cache' \<and> length cache' \<le> maxToolCacheEntries
     \<and> (\<forall>t < expires. fst (cached t key cache') = Some text)
     \<and> (\<forall>gone \<in> set cache - set cache'. \<forall>kept \<in> set cache' - {(key, \<lparr>ce_text = text, ce_expires = expires\<rparr>)}.
          fst gone \<noteq> key \<longrightarrow> now < ce_expires (snd gone) \<longrightarrow> leaves_by gone \<le> leaves_by kept)"
proof -
  define c1 where "c1 = (if maxToolCacheEntries \<le> length cache then deleteExpired now cache else cache)"
  define limit where "limit = (if map_of c1 key = None then maxToolCacheEntries - 1 else maxToolCacheEntries)"
  define e where "e = \<lparr>ce_text = text, ce_expires = now + wrap64 (tr_cache_seconds row * second)\<rparr>"
  have store: "storeCache tools now tool key text cache = AList.update key e (trimCache limit c1)"
    using assms(4,5) unfolding c1_def limit_def e_def storeCache_def by (simp only: option.case Let_def if_not_P not_le refl)
  have ok1: "cache_ok c1" using assms(1) deleteExpired_ok by (simp add: c1_def)
  have "length (deleteExpired now cache) \<le> length cache" by (simp add: deleteExpired_def)
  then have len1: "length c1 \<le> maxToolCacheEntries" using assms(2) by (simp add: c1_def)
  have pos: "0 < maxToolCacheEntries" by (simp add: maxToolCacheEntries_def)
  note spec = trim_update_spec [OF ok1 len1 assms(3) pos limit_def, where e = e]
  have hit: "fst (cached t key (AList.update key e (trimCache limit c1))) = Some text"
    if "t < now + wrap64 (tr_cache_seconds row * second)" for t
    using that by (simp add: cached_def update_conv' e_def)
  have live: "gone \<in> set c1" if "gone \<in> set cache" "now < ce_expires (snd gone)" for gone
    using that by (simp add: c1_def deleteExpired_sub)
  show ?thesis
    unfolding Let_def store e_def [symmetric] using spec hit live by blast
qed

definition key_part :: "string list \<Rightarrow> bool" where
  "key_part ws \<longleftrightarrow> (\<forall>w \<in> set ws. w \<noteq> [] \<and> CHR '','' \<notin> set w \<and> CHR ''|'' \<notin> set w)"

lemma join_inj:
  assumes "key_part ws" "key_part vs" "join_with '','' ws = join_with '','' vs"
  shows "ws = vs"
proof -
  have split: "ws = (if join_with '','' ws = [] then [] else split_on CHR '','' (join_with '','' ws))"
    if "key_part ws" for ws
  proof (cases "ws = []")
    case False
    then have "join_with '','' ws \<noteq> []"
      using that by (cases ws; cases "tl ws") (auto simp: key_part_def)
    then show ?thesis using split_join [of ws "CHR '',''"] that False by (auto simp: key_part_def)
  qed simp
  show ?thesis using split [OF assms(1)] split [OF assms(2)] assms(3) by metis
qed

lemma join_no_bar: "key_part ws \<Longrightarrow> CHR ''|'' \<notin> set (join_with '','' ws)"
  by (induction "'',''" ws rule: join_with.induct) (auto simp: key_part_def)

lemma mark_split:
  assumes "a @ m # b = c @ m # d" "m \<notin> set a" "m \<notin> set c"
  shows "a = c \<and> b = d"
  using assms
proof (induction a arbitrary: c)
  case Nil
  then show ?case by (cases c) auto
next
  case (Cons x a)
  then show ?case by (cases c) auto
qed

text \<open>Texts made of records that end in a mark.\<close>

lemma marked_records:
  assumes "concat (map (\<lambda>r. f r @ [m]) xs) = concat (map (\<lambda>r. f r @ [m]) ys)"
    and "\<And>r. r \<in> set xs \<union> set ys \<Longrightarrow> m \<notin> set (f r)"
    and "\<And>r r'. r \<in> set xs \<Longrightarrow> r' \<in> set ys \<Longrightarrow> f r = f r' \<Longrightarrow> r = r'"
  shows "xs = ys"
  using assms
proof (induction xs arbitrary: ys)
  case (Cons x xs)
  then obtain y ys' where ys: "ys = y # ys'" by (cases ys) auto
  have "f x @ m # concat (map (\<lambda>r. f r @ [m]) xs) = f y @ m # concat (map (\<lambda>r. f r @ [m]) ys')"
    using Cons.prems(1) ys by simp
  then have "f x = f y \<and> concat (map (\<lambda>r. f r @ [m]) xs) = concat (map (\<lambda>r. f r @ [m]) ys')"
    by (rule mark_split) (use Cons.prems(2) ys in auto)
  then show ?case using Cons.IH [of ys'] Cons.prems(2,3) ys by auto
qed (metis (no_types, lifting) Nil_is_append_conv concat.simps(1,2) list.exhaust list.simps(8,9) not_Cons_self2)

lemma itoa_inj: "itoa i = itoa j \<Longrightarrow> i = j"
proof -
  assume eq: "itoa i = itoa j"
  have sign: "CHR ''-'' \<notin> set (itoa_nat n)" for n
    using itoa_nat_digits [of n] is_digit_sign(1) unfolding list_all_iff by blast
  consider "i < 0" "j < 0" | "\<not> i < 0" "\<not> j < 0" | "i < 0" "\<not> j < 0" | "\<not> i < 0" "j < 0" by blast
  then show "i = j"
  proof cases
    case 1
    then have "itoa_nat (nat (- i)) = itoa_nat (nat (- j))" using eq by (simp add: itoa_def)
    then show ?thesis using 1 by (simp add: itoa_nat_inj)
  next
    case 2
    then have "itoa_nat (nat i) = itoa_nat (nat j)" using eq by (simp add: itoa_def)
    then show ?thesis using 2 by (simp add: itoa_nat_inj)
  next
    case 3
    then have "itoa_nat (nat j) = CHR ''-'' # itoa_nat (nat (- i))" using eq by (simp add: itoa_def)
    then show ?thesis using sign [of "nat j"] by simp
  next
    case 4
    then have "itoa_nat (nat i) = CHR ''-'' # itoa_nat (nat (- j))" using eq by (simp add: itoa_def)
    then show ?thesis using sign [of "nat i"] by simp
  qed
qed

lemma itoa_no_mark: "c \<in> {CHR 0x0A, CHR '':''} \<Longrightarrow> c \<notin> set (itoa i)"
proof -
  assume c: "c \<in> {CHR 0x0A, CHR '':''}"
  then have "\<not> is_digit c" by (auto simp: is_digit_def)
  then have "c \<notin> set (itoa_nat n)" for n using itoa_nat_digits [of n] unfolding list_all_iff by blast
  then show ?thesis using c by (auto simp: itoa_def)
qed

text \<open>The columns of the tables hold neither the separator of a record nor that of its fields.\<close>

definition plain_row :: "acl_row \<Rightarrow> bool" where
  "plain_row r \<longleftrightarrow> (\<forall>w \<in> {ac_repo r, ac_principal r, ac_permission r, ac_indexed r}. CHR 0x00 \<notin> set w \<and> CHR 0x0A \<notin> set w)"

definition acl_fields :: "acl_row \<Rightarrow> string" where
  "acl_fields r = ac_repo r @ CHR 0x00 # ac_principal r @ CHR 0x00 # ac_permission r @ CHR 0x00 # ac_indexed r"

lemma acl_fields_inj:
  assumes "plain_row r" "plain_row r'" "acl_fields r = acl_fields r'"
  shows "r = r'"
proof -
  have clean: "CHR 0x00 \<notin> set (ac_repo r)" "CHR 0x00 \<notin> set (ac_repo r')" "CHR 0x00 \<notin> set (ac_principal r)"
    "CHR 0x00 \<notin> set (ac_principal r')" "CHR 0x00 \<notin> set (ac_permission r)" "CHR 0x00 \<notin> set (ac_permission r')"
    using assms(1,2) by (simp_all add: plain_row_def)
  note e1 = mark_split [OF assms(3) [unfolded acl_fields_def] clean(1,2)]
  note e2 = mark_split [OF conjunct2 [OF e1] clean(3,4)]
  note e3 = mark_split [OF conjunct2 [OF e2] clean(5,6)]
  show ?thesis using e1 e2 e3 by (intro acl_row.equality) simp_all
qed

lemma acl_text_inj:
  assumes "\<forall>r \<in> set rows \<union> set rows'. plain_row r" "acl_text ps rows = acl_text ps rows'"
  shows "acl_listed ps rows = acl_listed ps rows'"
proof (rule marked_records [where f = acl_fields and m = "CHR 0x0A"])
  show "concat (map (\<lambda>r. acl_fields r @ [CHR 0x0A]) (acl_listed ps rows)) = concat (map (\<lambda>r. acl_fields r @ [CHR 0x0A]) (acl_listed ps rows'))"
    using assms(2) by (simp add: acl_text_def acl_line_def [abs_def] acl_fields_def)
next
  fix r assume "r \<in> set (acl_listed ps rows) \<union> set (acl_listed ps rows')"
  then have "plain_row r" using assms(1) by (auto simp: acl_listed_def)
  then show "CHR 0x0A \<notin> set (acl_fields r)" by (simp add: acl_fields_def plain_row_def)
next
  fix r r' assume "r \<in> set (acl_listed ps rows)" "r' \<in> set (acl_listed ps rows')" "acl_fields r = acl_fields r'"
  then show "r = r'" using assms(1) by (intro acl_fields_inj) (auto simp: acl_listed_def)
qed

lemma settings_text_inj:
  assumes "settings_text rows = settings_text rows'"
  shows "{r \<in> set rows. sv_category r \<in> set searchCategories} = {r \<in> set rows'. sv_category r \<in> set searchCategories}"
proof -
  define listed where "listed rs = sort_key sv_category (filter (\<lambda>r. sv_category r \<in> set searchCategories) rs)" for rs :: "setting_version list"
  have clean: "CHR '':'' \<notin> set (sv_category r)" "CHR 0x0A \<notin> set (sv_category r)" if "r \<in> set (listed rs)" for r rs
    using that by (auto simp: listed_def searchCategories_def)
  have "listed rows = listed rows'"
  proof (rule marked_records [where f = "\<lambda>r. sv_category r @ CHR '':'' # itoa (sv_version r)" and m = "CHR 0x0A"])
    show "concat (map (\<lambda>r. (sv_category r @ CHR '':'' # itoa (sv_version r)) @ [CHR 0x0A]) (listed rows))
        = concat (map (\<lambda>r. (sv_category r @ CHR '':'' # itoa (sv_version r)) @ [CHR 0x0A]) (listed rows'))"
      using assms by (simp add: settings_text_def listed_def)
  next
    fix r assume "r \<in> set (listed rows) \<union> set (listed rows')"
    then show "CHR 0x0A \<notin> set (sv_category r @ CHR '':'' # itoa (sv_version r))" using clean itoa_no_mark by auto
  next
    fix r r' assume r: "r \<in> set (listed rows)" "r' \<in> set (listed rows')"
      "sv_category r @ CHR '':'' # itoa (sv_version r) = sv_category r' @ CHR '':'' # itoa (sv_version r')"
    note e = mark_split [OF r(3) clean(1) [OF r(1)] clean(1) [OF r(2)]]
    then have "sv_version r = sv_version r'" using itoa_inj by blast
    then show "r = r'" using e by (intro setting_version.equality) simp_all
  qed
  then have "set (listed rows) = set (listed rows')" by simp
  then show ?thesis by (simp add: listed_def)
qed

text \<open>What is assumed of the digest: the two texts at hand do not collide, and it is hexadecimal.\<close>

definition no_collision :: "(string \<Rightarrow> string) \<Rightarrow> string \<Rightarrow> string \<Rightarrow> bool" where
  "no_collision hash s t \<longleftrightarrow> (hash s = hash t \<longrightarrow> s = t)"

text \<open>
  C26: an answer is served from the cache only to a caller with the same access, over the same
  state. Two keys are computed at two moments, over two states of the permission and settings
  tables, by two callers. If the keys are equal, then the tool, the arguments, the
  principals and the repository restrictions are equal, and so are the permissions of these principals
  with the times their repositories were indexed, and the versions of the search settings. (The queries
  succeed, the digests do not collide, tool names hold no vertical bar, and the principals and
  restrictions are non-empty texts with neither bar nor comma.)
\<close>

theorem cacheKey_separates:
  assumes "cacheKey hash (Some acl) (Some settings) p tool raw = cacheKey hash (Some acl') (Some settings') p' tool' raw'"
    and "CHR ''|'' \<notin> set tool" "CHR ''|'' \<notin> set tool'" "\<forall>s. CHR ''|'' \<notin> set (hash s)"
    and "key_part (principalACLs p)" "key_part (principalACLs p')"
    and "key_part (p_AllowedRepositories p)" "key_part (p_AllowedRepositories p')"
    and "\<forall>r \<in> set acl \<union> set acl'. plain_row r"
    and "no_collision hash (acl_text (sort (principalACLs p)) acl) (acl_text (sort (principalACLs p)) acl')"
    and "no_collision hash (settings_text settings) (settings_text settings')"
  shows "tool = tool' \<and> raw = raw' \<and> set (principalACLs p) = set (principalACLs p')
    \<and> set (p_AllowedRepositories p) = set (p_AllowedRepositories p')
    \<and> (principalACLs p \<noteq> [] \<longrightarrow>
         {r \<in> set acl. ac_principal r \<in> set (principalACLs p) \<union> {''*''}} = {r \<in> set acl'. ac_principal r \<in> set (principalACLs p) \<union> {''*''}})
    \<and> {r \<in> set settings. sv_category r \<in> set searchCategories} = {r \<in> set settings'. sv_category r \<in> set searchCategories}"
proof -
  let ?P = "sort (principalACLs p)" and ?P' = "sort (principalACLs p')"
  let ?R = "sort (p_AllowedRepositories p)" and ?R' = "sort (p_AllowedRepositories p')"
  have parts: "key_part ?P" "key_part ?P'" "key_part ?R" "key_part ?R'"
    using assms(5-8) by (simp_all add: key_part_def)
  note bars = join_no_bar [OF parts(1)] join_no_bar [OF parts(2)] join_no_bar [OF parts(3)]
    join_no_bar [OF parts(4)]
  have acl_bar: "CHR ''|'' \<notin> set (aclRevision hash (Some rows) ps)" for rows ps
    using assms(4) by (simp add: aclRevision_def)
  have set_bar: "CHR ''|'' \<notin> set (searchConfigRevision hash (Some rows))" for rows
    using assms(4) by (simp add: searchConfigRevision_def)
  from assms(1) have eq: "tool @ CHR ''|'' # join_with '','' ?P @ CHR ''|'' # join_with '','' ?R
      @ CHR ''|'' # aclRevision hash (Some acl) ?P @ CHR ''|'' # searchConfigRevision hash (Some settings) @ CHR ''|'' # raw
    = tool' @ CHR ''|'' # join_with '','' ?P' @ CHR ''|'' # join_with '','' ?R'
      @ CHR ''|'' # aclRevision hash (Some acl') ?P' @ CHR ''|'' # searchConfigRevision hash (Some settings') @ CHR ''|'' # raw'"
    by (simp add: cacheKey_def Let_def)
  note e1 = mark_split [OF eq assms(2,3)]
  note e2 = mark_split [OF conjunct2 [OF e1] bars(1,2)]
  note e3 = mark_split [OF conjunct2 [OF e2] bars(3,4)]
  note e4 = mark_split [OF conjunct2 [OF e3] acl_bar acl_bar]
  note e5 = mark_split [OF conjunct2 [OF e4] set_bar set_bar]
  have same: "?P = ?P'" "?R = ?R'" using join_inj parts e2 e3 by blast+
  have listed: "{r \<in> set acl. ac_principal r \<in> set (principalACLs p) \<union> {''*''}} = {r \<in> set acl'. ac_principal r \<in> set (principalACLs p) \<union> {''*''}}"
    if "principalACLs p \<noteq> []"
  proof -
    have "hash (acl_text ?P acl) = hash (acl_text ?P acl')"
    proof -
      have ne: "?P \<noteq> []" using that by (metis set_empty set_sort)
      have "aclRevision hash (Some acl) ?P = aclRevision hash (Some acl') ?P" using e4 same(1) by argo
      then show ?thesis unfolding aclRevision_def using ne by simp
    qed
    then have "acl_text ?P acl = acl_text ?P acl'" using assms(10) by (simp add: no_collision_def)
    then have "set (acl_listed ?P acl) = set (acl_listed ?P acl')" using acl_text_inj [OF assms(9)] by simp
    then show ?thesis by (simp add: acl_listed_def disj_commute)
  qed
  have "settings_text settings = settings_text settings'"
    using e5 assms(11) by (simp add: searchConfigRevision_def no_collision_def)
  note config = settings_text_inj [OF this]
  have sets: "set (principalACLs p) = set (principalACLs p')" "set (p_AllowedRepositories p) = set (p_AllowedRepositories p')"
    using same set_sort by metis+
  have outer: "tool = tool'" "raw = raw'" using conjunct1 [OF e1] conjunct2 [OF e5] by blast+
  show ?thesis using sets outer listed config by blast
qed

text \<open>
  Two states a key does not tell apart: a caller with the whole catalogue is not named by the permission
  rows, so a repository that is indexed again leaves the key as it was.
\<close>

lemma unrestricted_key_blind:
  assumes "principalACLs p = [UnrestrictedPrincipal]" "ac_principal r \<notin> {UnrestrictedPrincipal, ''*''}"
  shows "cacheKey hash (Some [r]) settings p tool raw = cacheKey hash (Some [r\<lparr>ac_indexed := later\<rparr>]) settings p tool raw"
proof -
  have "acl_text (sort (principalACLs p)) [r'] = []" if "ac_principal r' = ac_principal r" for r'
    using assms that by (simp add: acl_text_def acl_listed_def)
  then have "aclRevision hash (Some [r]) (sort (principalACLs p)) = aclRevision hash (Some [r\<lparr>ac_indexed := later\<rparr>]) (sort (principalACLs p))"
    unfolding aclRevision_def by simp
  then show ?thesis unfolding cacheKey_def Let_def by (rule arg_cong)
qed

fun uses_valid :: "(string \<Rightarrow> string) \<Rightarrow> string \<Rightarrow> session_state \<Rightarrow> time list \<Rightarrow> bool list" where
  "uses_valid hash i st [] = []"
| "uses_valid hash i st (t # ts) =
     (let (ok, st') = validSession hash False t i st in ok # uses_valid hash i st' ts)"

fun gaps_short :: "time \<Rightarrow> time list \<Rightarrow> bool" where
  "gaps_short t0 [] \<longleftrightarrow> True"
| "gaps_short t0 (t # ts) \<longleftrightarrow> t < t0 + session_ttl \<and> gaps_short t ts"

lemma uses_lapsed:
  "ss_rows st (hash i) = Some row \<Longrightarrow> \<forall>t \<in> set ts. sr_expires row \<le> t \<Longrightarrow>
   uses_valid hash i st ts = map (\<lambda>t. False) ts"
  by (induction ts) (auto simp: validSession_def)

lemma uses_from_row:
  assumes "ss_rows st (hash i) = Some row" "sr_expires row = t0 + session_ttl" "sorted (t0 # ts)"
  shows "uses_valid hash i st ts = map (\<lambda>n. gaps_short t0 (take (Suc n) ts)) [0..<length ts]"
  using assms
proof (induction ts arbitrary: t0 st row)
  case (Cons t ts)
  have upt: "[0..<length (t # ts)] = 0 # map Suc [0..<length ts]"
    by (simp add: map_Suc_upt upt_conv_Cons del: upt_Suc)
  show ?case
  proof (cases "t < sr_expires row")
    case True
    let ?st = "snd (validSession hash False t i st)"
    have row': "ss_rows ?st (hash i) = Some (row\<lparr>sr_expires := t + session_ttl, sr_last_seen := t\<rparr>)"
      and ok: "fst (validSession hash False t i st)"
      using Cons.prems True by (simp_all add: validSession_def)
    have "uses_valid hash i ?st ts = map (\<lambda>n. gaps_short t (take (Suc n) ts)) [0..<length ts]"
      using Cons.IH [OF row', of t] Cons.prems(3) by simp
    then show ?thesis using True ok Cons.prems(2)
      unfolding upt by (simp add: case_prod_unfold comp_def)
  next
    case False
    then have "validSession hash False t i st = (False, st)" using Cons.prems by (simp add: validSession_def)
    moreover have "uses_valid hash i st ts = map (\<lambda>t. False) ts"
      by (rule uses_lapsed [where hash = hash and i = i, OF Cons.prems(1)])
        (use False Cons.prems(3) in auto)
    ultimately show ?thesis using False Cons.prems(2)
      unfolding upt by (simp add: comp_def map_replicate_const)
  qed
qed simp

text \<open>
  A session lives as long as its gaps are short. A session opened at \<open>t0\<close> and then used at
  the times \<open>ts\<close> is valid at a use exactly if no two consecutive uses up to it lie thirty
  minutes or more apart; once it has lapsed it is never valid again.
\<close>

theorem session_lifetime:
  assumes "newSession hash False t0 (Some i) client ver st = (Some i, st1)" "sorted (t0 # ts)"
  shows "uses_valid hash i st1 ts = map (\<lambda>n. gaps_short t0 (take (Suc n) ts)) [0..<length ts]"
proof -
  have "ss_rows st1 (hash i) = Some \<lparr>sr_expires = t0 + session_ttl, sr_last_seen = t0,
      sr_client = clip client 80, sr_version = clip ver 40\<rparr>"
    using assms(1) by (auto simp: newSession_def Let_def split: if_splits)
  from uses_from_row [where hash = hash and i = i, OF this _ assms(2)] show ?thesis by simp
qed

definition demo_principal :: "string list \<Rightarrow> Principal" where
  "demo_principal acls = \<lparr>p_UserID = ''u'', p_ACLPrincipal = ''a'', p_ACLPrincipals = acls, p_Roles = [''user''],
     p_KeyID = ''k'', p_Scopes = [], p_AllowedRepositories = []\<rparr>"

definition demo_tools :: tool_table where
  "demo_tools name = (if name = ''query_docs'' then
     Some \<lparr>tr_enabled = 1, tr_timeout_ms = 30000, tr_max_bytes = 0, tr_cache_seconds = 60\<rparr> else None)"

lemma storeCache_bounded_witness:
  "let cache' = storeCache demo_tools 0 ''query_docs'' ''k'' ''answer'' [(''old'', \<lparr>ce_text = [], ce_expires = 5\<rparr>)]
   in cache_ok cache' \<and> length cache' \<le> maxToolCacheEntries \<and> fst (cached 9 ''k'' cache') = Some ''answer''"
proof -
  have row: "demo_tools ''query_docs'' =
      Some \<lparr>tr_enabled = 1, tr_timeout_ms = 30000, tr_max_bytes = 0, tr_cache_seconds = 60\<rparr>"
    by (simp add: demo_tools_def)
  have "(9::int) < 0 + wrap64 (60 * second)" by (simp add: wrap64_def)
  with storeCache_bounded [of "[(''old'', \<lparr>ce_text = [], ce_expires = 5\<rparr>)]" "''k''" demo_tools
      "''query_docs''" _ 0 "''answer''", OF _ _ _ row]
  show ?thesis by (simp add: cache_ok_def maxToolCacheEntries_def Let_def)
qed

definition demo_acl :: "acl_row list" where
  "demo_acl = [\<lparr>ac_repo = ''r'', ac_principal = ''a'', ac_permission = ''read'', ac_indexed = ''1''\<rparr>]"

definition demo_settings :: "setting_version list" where
  "demo_settings = [\<lparr>sv_category = ''search'', sv_version = 3\<rparr>]"

definition demo_hash :: "string \<Rightarrow> string" where
  "demo_hash s = filter (\<lambda>c. c \<noteq> CHR ''|'') s"

lemma cacheKey_separates_witness:
  "set (principalACLs (demo_principal [''b'', ''a''])) = set (principalACLs (demo_principal [''a'', ''b'']))"
proof -
  have acls: "principalACLs (demo_principal ps) = (if ps = [] then [''a''] else ps)" for ps
    by (simp add: demo_principal_def principalACLs_def WithUnrestricted_def GrantsUnrestrictedSearch_def unrestrictedSearchRoles_def)
  have none: "p_AllowedRepositories (demo_principal ps) = []" for ps by (simp add: demo_principal_def)
  have key: "cacheKey demo_hash (Some demo_acl) (Some demo_settings) (demo_principal [''b'', ''a'']) ''query_docs'' ''{}''
      = cacheKey demo_hash (Some demo_acl) (Some demo_settings) (demo_principal [''a'', ''b'']) ''query_docs'' ''{}''"
    by (simp add: cacheKey_def acls none Let_def)
  show ?thesis
    using cacheKey_separates [OF key]
    by (simp add: acls none demo_hash_def key_part_def demo_acl_def plain_row_def no_collision_def)
qed

lemma session_lifetime_witness:
  "let st1 = snd (newSession (\<lambda>i. i) False 0 (Some ''s'') ''cli'' ''1'' \<lparr>ss_rows = \<lambda>h. None, ss_memory = \<lambda>i. None, ss_closed = {}\<rparr>)
   in uses_valid (\<lambda>i. i) ''s'' st1 [minute, 20 * minute, 60 * minute, 61 * minute] = [True, True, False, False]"
  using session_lifetime [of "\<lambda>i. i" 0 "''s''" "''cli''" "''1''"
      "\<lparr>ss_rows = \<lambda>h. None, ss_memory = \<lambda>i. None, ss_closed = {}\<rparr>" _ "[minute, 20 * minute, 60 * minute, 61 * minute]"]
  by (simp add: newSession_def Let_def session_ttl_def upt_rec)

end
