(* ===== verification/PathMatch.thy ===== *)
theory PathMatch
  imports Prelude
begin

text \<open>
  What \<^verbatim>\<open>internal/search/codeowners.go\<close> uses of Go's standard library beyond the
  prelude: \<^verbatim>\<open>utf8.DecodeRuneInString\<close>, \<^verbatim>\<open>path.Match\<close> with its helpers, and
  \<^verbatim>\<open>path.Ext\<close>. The result of \<open>path_Match\<close> is \<open>None\<close> for \<^verbatim>\<open>ErrBadPattern\<close>. The
  lemmas characterise patterns that are literal and the boundary that stars do not cross.
\<close>

section \<open>Decoding one rune\<close>

definition byte_val :: "char \<Rightarrow> nat" where
  "byte_val c = of_char c"

text \<open>The width and the range of the second byte that a first byte announces.\<close>

definition rune_lead :: "nat \<Rightarrow> nat \<times> nat \<times> nat" where
  "rune_lead b =
     (if 194 \<le> b \<and> b \<le> 223 then (2, 128, 191)
      else if b = 224 then (3, 160, 191)
      else if b = 237 then (3, 128, 159)
      else if 225 \<le> b \<and> b \<le> 239 then (3, 128, 191)
      else if b = 240 then (4, 144, 191)
      else if 241 \<le> b \<and> b \<le> 243 then (4, 128, 191)
      else if b = 244 then (4, 128, 143)
      else (0, 0, 0))"

definition RuneError :: nat where
  "RuneError = 65533"

definition decode_rune :: "string \<Rightarrow> nat \<times> nat" where
  "decode_rune s =
     (if s = [] then (RuneError, 0)
      else let bs = map byte_val s; b0 = bs ! 0; (width, lo, hi) = rune_lead b0 in
        if b0 < 128 then (b0, 1)
        else if width = 0 \<or> length bs < width then (RuneError, 1)
        else if \<not> (lo \<le> bs ! 1 \<and> bs ! 1 \<le> hi) then (RuneError, 1)
        else if \<not> list_all (\<lambda>b. 128 \<le> b \<and> b \<le> 191) (take (width - 2) (drop 2 bs)) then (RuneError, 1)
        else (foldl (\<lambda>r b. 64 * r + b mod 64) (b0 mod (if width = 2 then 32 else if width = 3 then 16 else 8))
                (take (width - 1) (drop 1 bs)), width))"

lemma decode_rune_width: "s \<noteq> [] \<Longrightarrow> 0 < snd (decode_rune s)"
  by (auto simp: decode_rune_def Let_def split: prod.splits)

section \<open>Matching one path\<close>

definition getEsc :: "string \<Rightarrow> (nat \<times> string) option" where
  "getEsc chunk =
     (case chunk of
        [] \<Rightarrow> None
      | c # cs \<Rightarrow>
          (if c = CHR ''-'' \<or> c = CHR '']'' then None
           else let body = (if c = CHR 0x5C then cs else chunk) in
             if body = [] then None
             else let (r, n) = decode_rune body; rest = drop n body in
               if (r = RuneError \<and> n = 1) \<or> rest = [] then None else Some (r, rest)))"

lemma getEsc_shorter: "getEsc chunk = Some (r, rest) \<Longrightarrow> length rest < length chunk \<and> rest \<noteq> []"
  using decode_rune_width [of chunk] decode_rune_width [of "tl chunk"]
  by (cases chunk) (auto simp: getEsc_def Let_def split: if_splits prod.splits)

function class_ranges :: "bool \<Rightarrow> nat \<Rightarrow> bool \<Rightarrow> string \<Rightarrow> (bool \<times> string) option" where
  "class_ranges some r found chunk =
     (if some \<and> chunk \<noteq> [] \<and> hd chunk = CHR '']'' then Some (found, tl chunk)
      else case getEsc chunk of
        None \<Rightarrow> None
      | Some (lo, c1) \<Rightarrow>
          (if hd c1 = CHR ''-'' then
             (case getEsc (tl c1) of
                None \<Rightarrow> None
              | Some (hi, c2) \<Rightarrow> class_ranges True r (found \<or> (lo \<le> r \<and> r \<le> hi)) c2)
           else class_ranges True r (found \<or> lo = r) c1))"
  by pat_completeness auto
termination
proof (relation "measure (\<lambda>(some, r, found, chunk). length chunk)", goal_cases)
  case (2 some r found chunk x2 x y x2a xa ya)
  then have "length y < length chunk" "length ya < length (tl y)" by (auto dest: getEsc_shorter)
  then show ?case by simp
next
  case (3 some r found chunk x2 x y)
  then show ?case by (auto dest: getEsc_shorter)
qed simp

declare class_ranges.simps [simp del]

lemma class_ranges_shorter:
  "class_ranges some r found chunk = Some (m, rest) \<Longrightarrow> length rest < length chunk"
proof (induction some r found chunk rule: class_ranges.induct)
  case (1 some r found chunk)
  show ?case
  proof (cases "some \<and> chunk \<noteq> [] \<and> hd chunk = CHR '']''")
    case True
    then show ?thesis using "1.prems" by (simp add: class_ranges.simps [of _ _ _ chunk] neq_Nil_conv) auto
  next
    case False
    then obtain lo c1 where c1: "getEsc chunk = Some (lo, c1)"
      using "1.prems" by (subst (asm) class_ranges.simps) (auto split: option.splits)
    note short = getEsc_shorter [OF c1]
    show ?thesis
    proof (cases "hd c1 = CHR ''-''")
      case dash: True
      then obtain hi c2 where c2: "getEsc (tl c1) = Some (hi, c2)"
        using "1.prems" False c1 by (subst (asm) class_ranges.simps) (auto split: option.splits)
      have "class_ranges True r (found \<or> (lo \<le> r \<and> r \<le> hi)) c2 = Some (m, rest)"
        using "1.prems" False c1 c2 dash by (subst (asm) class_ranges.simps) simp
      from "1.IH" (1) [OF False c1 refl dash c2 refl this] getEsc_shorter [OF c2] short
      show ?thesis by (simp; linarith)
    next
      case dash: False
      have "class_ranges True r (found \<or> lo = r) c1 = Some (m, rest)"
        using "1.prems" False c1 dash by (subst (asm) class_ranges.simps) simp
      from "1.IH" (2) [OF False c1 refl dash this] short show ?thesis by simp
    qed
  qed
qed

text \<open>\<open>None\<close>: bad pattern; \<open>Some None\<close>: no match; \<open>Some (Some rest)\<close>: what is left.\<close>

function matchChunk :: "bool \<Rightarrow> string \<Rightarrow> string \<Rightarrow> string option option" where
  "matchChunk failed [] s = Some (if failed then None else Some s)"
| "matchChunk failed (c # cs) s =
     (let bad = (failed \<or> s = []); width = snd (decode_rune s) in
      if c = CHR ''['' then
        (let negated = (cs \<noteq> [] \<and> hd cs = CHR ''^'') in
         case class_ranges False (if bad then 0 else fst (decode_rune s)) False (if negated then tl cs else cs) of
           None \<Rightarrow> None
         | Some (m, rest) \<Rightarrow> matchChunk (bad \<or> m = negated) rest (if bad then s else drop width s))
      else if c = CHR ''?'' then
        matchChunk (bad \<or> hd s = CHR ''/'') cs (if bad then s else drop width s)
      else if c = CHR 0x5C then
        (case cs of
           [] \<Rightarrow> None
         | d # ds \<Rightarrow> matchChunk (bad \<or> d \<noteq> hd s) ds (if bad then s else tl s))
      else matchChunk (bad \<or> c \<noteq> hd s) cs (if bad then s else tl s))"
  by pat_completeness auto
termination
  by (relation "measure (\<lambda>(failed, chunk, s). length chunk)")
    (auto dest!: class_ranges_shorter split: if_splits)

fun chunk_end :: "bool \<Rightarrow> string \<Rightarrow> nat" where
  "chunk_end inrange [] = 0"
| "chunk_end inrange (c # cs) =
     (if c = CHR 0x5C then (case cs of [] \<Rightarrow> 1 | d # ds \<Rightarrow> 2 + chunk_end inrange ds)
      else if c = CHR ''['' then 1 + chunk_end True cs
      else if c = CHR '']'' then 1 + chunk_end False cs
      else if c = CHR ''*'' \<and> \<not> inrange then 0
      else 1 + chunk_end inrange cs)"

definition scanChunk :: "string \<Rightarrow> bool \<times> string \<times> string" where
  "scanChunk pattern =
     (let p = dropWhile (\<lambda>c. c = CHR ''*'') pattern; i = chunk_end False p
      in (pattern \<noteq> [] \<and> hd pattern = CHR ''*'', take i p, drop i p))"

fun star_scan :: "string \<Rightarrow> bool \<Rightarrow> string \<Rightarrow> string option option" where
  "star_scan chunk is_last [] = Some None"
| "star_scan chunk is_last (c # cs) =
     (if c = CHR ''/'' then Some None
      else case matchChunk False chunk cs of
        None \<Rightarrow> None
      | Some None \<Rightarrow> star_scan chunk is_last cs
      | Some (Some t) \<Rightarrow> (if is_last \<and> t \<noteq> [] then star_scan chunk is_last cs else Some (Some t)))"

lemma scanChunk_shorter:
  assumes "pattern \<noteq> []"
  shows "length (snd (snd (scanChunk pattern))) < length pattern"
proof (cases "hd pattern = CHR ''*''")
  case True
  then have "length (dropWhile (\<lambda>c. c = CHR ''*'') pattern) < length pattern"
    using assms length_dropWhile_le [of _ "tl pattern"] by (cases pattern) (auto simp: less_Suc_eq_le)
  then show ?thesis by (simp add: scanChunk_def Let_def)
next
  case False
  then obtain c cs where p: "pattern = c # cs" "c \<noteq> CHR ''*''" using assms by (cases pattern) auto
  then have "0 < chunk_end False pattern" by (auto split: list.splits)
  then show ?thesis using p by (simp add: scanChunk_def Let_def)
qed

text \<open>The rest of a pattern that no longer matches is still checked for its form.\<close>

function rest_valid :: "string \<Rightarrow> bool" where
  "rest_valid pattern \<longleftrightarrow>
     (if pattern = [] then True
      else if matchChunk False (fst (snd (scanChunk pattern))) [] = None then False
      else rest_valid (snd (snd (scanChunk pattern))))"
  by pat_completeness auto
termination
  by (relation "measure length") (simp_all add: scanChunk_shorter)

declare rest_valid.simps [simp del]

function path_Match :: "string \<Rightarrow> string \<Rightarrow> bool option" where
  "path_Match pattern name =
     (if pattern = [] then Some (name = [])
      else let star = fst (scanChunk pattern); chunk = fst (snd (scanChunk pattern));
               rest = snd (snd (scanChunk pattern))
        in if star \<and> chunk = [] then Some (CHR ''/'' \<notin> set name)
           else let here = matchChunk False chunk name in
             case here of
               None \<Rightarrow> None
             | Some found \<Rightarrow>
                 (if found \<noteq> None \<and> (the found = [] \<or> rest \<noteq> []) then path_Match rest (the found)
                  else case (if star then star_scan chunk (rest = []) name else Some None) of
                    None \<Rightarrow> None
                  | Some (Some t) \<Rightarrow> path_Match rest t
                  | Some None \<Rightarrow> (if rest_valid rest then Some False else None)))"
  by pat_completeness auto
termination
  by (relation "measure (\<lambda>(pattern, name). length pattern)") (simp_all add: scanChunk_shorter)

declare path_Match.simps [simp del]

text \<open>\<^verbatim>\<open>path.Ext\<close>: from the last dot of the last element, or nothing.\<close>

fun ext_from :: "string \<Rightarrow> string \<Rightarrow> string" where
  "ext_from acc [] = []"
| "ext_from acc (c # cs) =
     (if c = CHR ''/'' then [] else if c = CHR ''.'' then c # acc else ext_from (c # acc) cs)"

definition path_Ext :: "string \<Rightarrow> string" where
  "path_Ext p = ext_from [] (rev p)"

section \<open>Literal patterns\<close>

definition plain :: "string \<Rightarrow> bool" where
  "plain p \<longleftrightarrow> set p \<inter> {CHR ''*'', CHR ''?'', CHR ''['', CHR 0x5C} = {}"

lemma plain_Cons [simp]:
  "plain (c # cs) \<longleftrightarrow> c \<notin> {CHR ''*'', CHR ''?'', CHR ''['', CHR 0x5C} \<and> plain cs"
  by (auto simp: plain_def)

lemma plain_Nil [simp]: "plain []"
  by (simp add: plain_def)

lemma plain_append [simp]: "plain (a @ b) \<longleftrightarrow> plain a \<and> plain b"
  by (auto simp: plain_def)

lemma chunk_end_plain: "plain p \<Longrightarrow> chunk_end inrange p = length p"
  by (induction p arbitrary: inrange) auto

lemma scanChunk_plain: "plain p \<Longrightarrow> scanChunk p = (False, p, [])"
  by (cases p) (auto simp: scanChunk_def Let_def chunk_end_plain)

lemma matchChunk_plain:
  "plain p \<Longrightarrow> matchChunk failed p s =
     Some (if \<not> failed \<and> prefix p s then Some (drop (length p) s) else None)"
proof (induction p arbitrary: failed s)
  case (Cons c p)
  then show ?case by (cases s) auto
qed simp

lemma path_Match_plain:
  assumes "plain p"
  shows "path_Match p name = Some (p = name)"
proof (cases "p = []")
  case True
  then show ?thesis by (auto simp: path_Match.simps)
next
  case False
  have empty: "path_Match [] t = Some (t = [])" for t by (simp add: path_Match.simps)
  have valid: "rest_valid []" by (simp add: rest_valid.simps)
  show ?thesis
    using False empty valid
    by (subst path_Match.simps) (auto simp: scanChunk_plain matchChunk_plain assms prefix_def)
qed

section \<open>Stars and question marks stay inside one segment\<close>

lemma decode_rune_no_ascii:
  assumes "s \<noteq> []" "hd s \<noteq> c" "byte_val c < 128"
  shows "c \<notin> set (take (snd (decode_rune s)) s)"
proof
  assume "c \<in> set (take (snd (decode_rune s)) s)"
  then obtain i where i: "i < snd (decode_rune s)" "i < length s" "s ! i = c"
    by (auto simp: in_set_conv_nth)
  have "i \<noteq> 0" using i assms by (cases i) (simp_all add: hd_conv_nth)
  have small: "byte_val (s ! i) < 128" using i assms(3) by simp
  define bs where "bs = map byte_val s"
  obtain width lo hi where lead: "rune_lead (bs ! 0) = (width, lo, hi)" by (cases "rune_lead (bs ! 0)")
  have lo: "width = 0 \<or> 128 \<le> lo" using lead by (auto simp: rune_lead_def split: if_splits)
  from i(1) \<open>i \<noteq> 0\<close> have wide: "\<not> bs ! 0 < 128" "width \<noteq> 0" "width \<le> length bs" "lo \<le> bs ! 1"
    "list_all (\<lambda>b. 128 \<le> b \<and> b \<le> 191) (take (width - 2) (drop 2 bs))" "i < width"
    using lead assms(1) by (auto simp: decode_rune_def Let_def bs_def [symmetric] split: if_splits)
  have "128 \<le> bs ! i"
  proof (cases "i = 1")
    case True
    then show ?thesis using wide lo by simp
  next
    case False
    then have "Suc (Suc (i - 2)) = i" using \<open>i \<noteq> 0\<close> by simp
    with False have "bs ! i = take (width - 2) (drop 2 bs) ! (i - 2)" "i - 2 < length (take (width - 2) (drop 2 bs))"
      using wide \<open>i \<noteq> 0\<close> by auto
    then show ?thesis using wide(5) by (metis list_all_length)
  qed
  then show False using small i(2) by (simp add: bs_def)
qed

lemma decode_rune_no_slash: "s \<noteq> [] \<Longrightarrow> hd s \<noteq> CHR ''/'' \<Longrightarrow> CHR ''/'' \<notin> set (take (snd (decode_rune s)) s)"
  by (rule decode_rune_no_ascii) (simp_all add: byte_val_def)

lemma matchChunk_no_slash:
  assumes "CHR ''['' \<notin> set chunk" "CHR ''/'' \<notin> set chunk" "matchChunk failed chunk s = Some (Some t)"
  shows "\<not> failed \<and> (\<exists>u. s = u @ t \<and> CHR ''/'' \<notin> set u)"
  using assms
proof (induction failed chunk s rule: matchChunk.induct)
  case (2 failed c cs s)
  have c: "c \<noteq> CHR ''[''" "c \<noteq> CHR ''/''" and cs: "CHR ''['' \<notin> set cs" "CHR ''/'' \<notin> set cs"
    using "2.prems" by auto
  consider (any) "c = CHR ''?''" | (esc) "c = CHR 0x5C" | (lit) "c \<noteq> CHR ''?''" "c \<noteq> CHR 0x5C" by blast
  then show ?case
  proof cases
    case any
    let ?b = "failed \<or> s = []"
    have "matchChunk (?b \<or> hd s = CHR ''/'') cs (if ?b then s else drop (snd (decode_rune s)) s) = Some (Some t)"
      using "2.prems"(3) any by (simp add: Let_def)
    from "2.IH"(2) [OF refl refl c(1) any cs this] obtain u where
      u: "\<not> ?b" "hd s \<noteq> CHR ''/''" "drop (snd (decode_rune s)) s = u @ t" "CHR ''/'' \<notin> set u" by auto
    have "s = (take (snd (decode_rune s)) s @ u) @ t" using u(3) by (metis append.assoc append_take_drop_id)
    moreover have "CHR ''/'' \<notin> set (take (snd (decode_rune s)) s @ u)"
      using decode_rune_no_slash u by auto
    ultimately show ?thesis using u(1) by blast
  next
    case esc
    then obtain d ds where ds: "cs = d # ds" using "2.prems"(3) by (cases cs) (auto simp: Let_def)
    let ?b = "failed \<or> s = []"
    have "matchChunk (?b \<or> d \<noteq> hd s) ds (if ?b then s else tl s) = Some (Some t)"
      using "2.prems"(3) esc ds by (simp add: Let_def)
    moreover have "CHR ''['' \<notin> set ds" "CHR ''/'' \<notin> set ds" using cs ds by auto
    moreover note "2.IH"(3) [OF refl refl c(1) _ esc ds]
    ultimately obtain u where u: "\<not> ?b" "d = hd s" "tl s = u @ t" "CHR ''/'' \<notin> set u" using esc by auto
    then have "s = (d # u) @ t" by (cases s) auto
    moreover have "CHR ''/'' \<notin> set (d # u)" using u cs ds by auto
    ultimately show ?thesis using u(1) by blast
  next
    case lit
    let ?b = "failed \<or> s = []"
    have "matchChunk (?b \<or> c \<noteq> hd s) cs (if ?b then s else tl s) = Some (Some t)"
      using "2.prems"(3) c lit by (simp add: Let_def)
    from "2.IH"(4) [OF refl refl c(1) lit cs this] obtain u where
      u: "\<not> ?b" "c = hd s" "tl s = u @ t" "CHR ''/'' \<notin> set u" by auto
    then have "s = (c # u) @ t" by (cases s) auto
    moreover have "CHR ''/'' \<notin> set (c # u)" using u c by auto
    ultimately show ?thesis using u(1) by blast
  qed
qed (auto split: if_splits)

lemma star_scan_no_slash:
  "CHR ''['' \<notin> set chunk \<Longrightarrow> CHR ''/'' \<notin> set chunk \<Longrightarrow> star_scan chunk fin name = Some (Some t) \<Longrightarrow>
   \<exists>u. name = u @ t \<and> CHR ''/'' \<notin> set u"
proof (induction name)
  case (Cons c cs)
  have c: "c \<noteq> CHR ''/''" using Cons.prems(3) by auto
  have "\<exists>u. cs = u @ t \<and> CHR ''/'' \<notin> set u"
  proof (cases "matchChunk False chunk cs = Some (Some t)")
    case True
    then show ?thesis using matchChunk_no_slash Cons.prems(1,2) by blast
  next
    case False
    then have "star_scan chunk fin cs = Some (Some t)"
      using Cons.prems(3) c by (auto split: option.splits if_splits)
    then show ?thesis using Cons.IH Cons.prems(1,2) by blast
  qed
  then obtain u where "c # cs = (c # u) @ t" "CHR ''/'' \<notin> set (c # u)" using c by auto
  then show ?case by blast
qed simp

lemma scanChunk_subset:
  "set (fst (snd (scanChunk p))) \<subseteq> set p" "set (snd (snd (scanChunk p))) \<subseteq> set p"
  by (auto simp: scanChunk_def Let_def dest!: in_set_takeD in_set_dropD set_dropWhileD)

lemma path_Match_no_slash:
  assumes "CHR ''['' \<notin> set p" "CHR ''/'' \<notin> set p" "path_Match p name = Some True"
  shows "CHR ''/'' \<notin> set name"
  using assms
proof (induction p name rule: path_Match.induct)
  case (1 p name)
  let ?star = "fst (scanChunk p)" and ?chunk = "fst (snd (scanChunk p))" and ?rest = "snd (snd (scanChunk p))"
  have sub: "CHR ''['' \<notin> set ?chunk" "CHR ''/'' \<notin> set ?chunk" "CHR ''['' \<notin> set ?rest" "CHR ''/'' \<notin> set ?rest"
    using scanChunk_subset "1.prems" by blast+
  consider (nil) "p = []" | (trail) "p \<noteq> []" "?star" "?chunk = []" | (go) "p \<noteq> []" "\<not> (?star \<and> ?chunk = [])"
    by blast
  then show ?case
  proof cases
    case nil
    then show ?thesis using "1.prems"(3) by (subst (asm) path_Match.simps) simp
  next
    case trail
    then show ?thesis using "1.prems"(3) by (subst (asm) path_Match.simps) simp
  next
    case go
    then obtain found where here: "matchChunk False ?chunk name = Some found"
      using "1.prems"(3) by (subst (asm) path_Match.simps) (auto simp: Let_def split: option.splits)
    show ?thesis
    proof (cases "found \<noteq> None \<and> (the found = [] \<or> ?rest \<noteq> [])")
      case True
      then obtain t where t: "found = Some t" by auto
      have "path_Match ?rest t = Some True"
        using "1.prems"(3) go here True t by (subst (asm) path_Match.simps) (simp add: Let_def)
      then have "CHR ''/'' \<notin> set t" using "1.IH"(1) [OF go(1) refl refl refl go(2) refl here True] sub t by simp
      then show ?thesis using matchChunk_no_slash [OF sub(1,2)] here t by fastforce
    next
      case False
      then obtain t where t: "(if ?star then star_scan ?chunk (?rest = []) name else Some None) = Some (Some t)"
        and rec: "path_Match ?rest t = Some True"
        using "1.prems"(3) go here
        by (subst (asm) path_Match.simps) (auto simp: Let_def split: option.splits if_splits)
      have "CHR ''/'' \<notin> set t"
        using "1.IH"(2) [OF go(1) refl refl refl go(2) refl here False t refl] sub rec by simp
      then show ?thesis using star_scan_no_slash [OF sub(1,2)] t by (fastforce split: if_splits)
    qed
  qed
qed

end
