(* ===== verification/CodeOwners.thy ===== *)
theory CodeOwners
  imports PathMatch
begin

text \<open>
  Declared ownership: \<^verbatim>\<open>internal/search/codeowners.go\<close>. The rows of
  \<^verbatim>\<open>document_chunks\<close> the query can see are an argument (\<open>None\<close> if the query fails); the
  parser, the pattern matcher and the choice of the file are translated in full. The lemmas
  give the matcher's meaning by path segments: an unanchored name matches a segment at any
  depth, an anchored literal pattern a leading part of the path, and a rule appended to a file
  comes last in the trail.
\<close>

section \<open>Patterns\<close>

text \<open>\<^verbatim>\<open>strings.Cut\<close> at a separator that occurs.\<close>

definition cut_at :: "string \<Rightarrow> string \<Rightarrow> string \<times> string" where
  "cut_at s sep = (case index_str s sep of
     None \<Rightarrow> (s, []) | Some i \<Rightarrow> (take i s, drop (i + length sep) s))"

definition cutPrefixSegments :: "string \<Rightarrow> string \<Rightarrow> bool \<times> string \<times> bool" where
  "cutPrefixSegments pattern name =
     (let patternSegments = split_on CHR ''/'' pattern; nameSegments = split_on CHR ''/'' name
      in if length nameSegments < length patternSegments then (False, [], False)
         else if \<not> list_all (\<lambda>(segment, n). path_Match segment n = Some True)
                    (zip patternSegments nameSegments) then (False, [], False)
         else (True, join_with ''/'' (drop (length patternSegments) nameSegments), True))"

text \<open>\<^verbatim>\<open>strings.Join(segments[index:], "/")\<close> for every index.\<close>

fun tails_of :: "string list \<Rightarrow> string list" where
  "tails_of [] = []"
| "tails_of (w # ws) = join_with ''/'' (w # ws) # tails_of ws"

lemma cut_at_shorter:
  assumes "contains_str p ''**''"
  shows "length (trim_prefix (snd (cut_at p ''**'')) s) < length p"
proof -
  obtain i where i: "index_str p ''**'' = Some i" using assms by (auto simp: contains_str_def)
  then have "2 \<le> length (drop i p)" using index_str_SomeD [OF i] by (auto dest: prefix_length_le)
  then have "length (snd (cut_at p ''**'')) < length p" using i by (simp add: cut_at_def)
  then show ?thesis using length_trim_prefix le_less_trans by blast
qed

function globMatch :: "string \<Rightarrow> string \<Rightarrow> bool" where
  "globMatch pattern name =
     (if \<not> contains_str pattern ''**'' then path_Match pattern name = Some True
      else let head = trim_suffix (fst (cut_at pattern ''**'')) ''/'';
               tail = trim_prefix (snd (cut_at pattern ''**'')) ''/'';
               (ok, rest, found) = (if head \<noteq> [] then cutPrefixSegments head name else (True, name, True))
        in if \<not> ok then False
           else if tail = [] then True
           else list_ex (\<lambda>t. globMatch tail t) (tails_of (split_on CHR ''/'' rest)))"
  by pat_completeness auto
termination
  by (relation "measure (\<lambda>(pattern, name). length pattern)") (simp_all add: cut_at_shorter)

declare globMatch.simps [simp del]

definition codeownersMatch :: "string \<Rightarrow> string \<Rightarrow> bool" where
  "codeownersMatch pattern0 filePath0 =
     (let filePath = trim_prefix (trim_space filePath0) ''/'';
          pattern1 = trim_space pattern0
      in if pattern1 = [] \<or> filePath = [] then False
         else if pattern1 \<in> {''*'', ''**'', ''/''} then True
         else let directoryOnly = has_suffix pattern1 ''/'';
                  pattern2 = trim_suffix pattern1 ''/'';
                  anchored = has_prefix pattern2 ''/'';
                  pattern3 = trim_prefix pattern2 ''/'';
                  pattern = (if directoryOnly then pattern3 @ ''/**'' else pattern3)
              in if anchored \<or> contains_str pattern ''/'' then
                   globMatch pattern filePath \<or> globMatch (pattern @ ''/**'') filePath
                 else list_ex (\<lambda>tail. globMatch pattern tail \<or> globMatch (pattern @ ''/**'') tail)
                        (tails_of (split_on CHR ''/'' filePath)))"

section \<open>The file\<close>

record OwnerDeclaration =
  Pattern :: string
  Owners :: "string list"
  Source :: string
  Section :: string

text \<open>
  One line: the section in force and the rules found so far. The result of \<open>heading_of\<close> is
  \<open>None\<close> for a heading without a closing bracket, which leaves the section as it was.
\<close>

definition heading_of :: "string \<Rightarrow> string option" where
  "heading_of line =
     (let heading = trim_prefix line ''^'' in
      case index_str heading '']'' of
        None \<Rightarrow> None
      | Some i \<Rightarrow> (if 0 < i then Some (trim_space (drop 1 (take i heading))) else None))"

definition kept_owners :: "string list \<Rightarrow> string list" where
  "kept_owners owners = takeWhile (\<lambda>owner. \<not> has_prefix owner ''#'') owners"

definition codeowners_line ::
    "string \<Rightarrow> string \<Rightarrow> string \<times> OwnerDeclaration list \<Rightarrow> string \<Rightarrow> string \<times> OwnerDeclaration list" where
  "codeowners_line filePath source st line0 =
     (let (sec, matches) = st; line = trim_space line0 in
      if line = [] \<or> has_prefix line ''#'' then (sec, matches)
      else if has_prefix line ''['' \<or> has_prefix line ''^['' then
        (case heading_of line of None \<Rightarrow> (sec, matches) | Some s \<Rightarrow> (s, matches))
      else case Prelude.fields line of
        pattern # owner # owners \<Rightarrow>
          (let kept = kept_owners (owner # owners) in
           if kept = [] \<or> \<not> codeownersMatch pattern filePath then (sec, matches)
           else (sec, matches @ [\<lparr>Pattern = pattern, Owners = kept, Source = source, Section = sec\<rparr>]))
      | _ \<Rightarrow> (sec, matches))"

definition matchCodeowners :: "string \<Rightarrow> string \<Rightarrow> string \<Rightarrow> OwnerDeclaration list" where
  "matchCodeowners content filePath source =
     snd (foldl (codeowners_line filePath source) ([], []) (split_on CHR 0x0A content))"

definition codeownersPaths :: "string list" where
  "codeownersPaths = [''CODEOWNERS'', ''.gitlab/CODEOWNERS'', ''docs/CODEOWNERS'', ''.github/CODEOWNERS'']"

record chunk_row =
  cr_repository :: string
  cr_ref :: string
  cr_path :: string
  cr_line :: int
  cr_content :: string

text \<open>The pieces of one file, in the order of their first lines.\<close>

definition chunk_parts :: "chunk_row list \<Rightarrow> string \<Rightarrow> string \<Rightarrow> string \<Rightarrow> string list" where
  "chunk_parts rows repositoryID ref candidate =
     map cr_content (sort_key cr_line (filter (\<lambda>r. cr_repository r = repositoryID \<and> cr_ref r = ref
        \<and> cr_path r = candidate) rows))"

definition declaredOwners ::
    "chunk_row list option \<Rightarrow> string \<Rightarrow> string \<Rightarrow> string \<Rightarrow> (OwnerDeclaration list \<times> string) option" where
  "declaredOwners table repositoryID ref filePath =
     (if repositoryID = [] \<or> filePath = [] then Some ([], [])
      else case table of
        None \<Rightarrow> None
      | Some rows \<Rightarrow>
          (case List.find (\<lambda>candidate. chunk_parts rows repositoryID ref candidate \<noteq> []) codeownersPaths of
             None \<Rightarrow> Some ([], [])
           | Some candidate \<Rightarrow>
               Some (matchCodeowners (join_with [CHR 0x0A] (chunk_parts rows repositoryID ref candidate))
                       filePath candidate, candidate)))"

section \<open>Segments and tails\<close>

lemma contains_str_char [simp]: "contains_str s [c] \<longleftrightarrow> c \<in> set s"
  by (induction s) (auto simp: contains_str_def)

lemma tails_of_ex:
  assumes "\<forall>w \<in> set ws. CHR ''/'' \<notin> set w"
  shows "list_ex (\<lambda>t. Q (hd (split_on CHR ''/'' t))) (tails_of ws) \<longleftrightarrow> list_ex Q ws"
  using assms
proof (induction ws)
  case (Cons w ws)
  then have "split_on CHR ''/'' (join_with ''/'' (w # ws)) = w # ws" by (intro split_join) auto
  then show ?case using Cons by simp
qed simp

lemma tails_of_single:
  assumes "\<forall>w \<in> set ws. CHR ''/'' \<notin> set w" "t \<in> set (tails_of ws)" "CHR ''/'' \<notin> set t"
  shows "t \<in> set ws"
  using assms
proof (induction ws)
  case (Cons w ws)
  show ?case
  proof (cases "t = join_with ''/'' (w # ws)")
    case True
    then have "split_on CHR ''/'' t = w # ws" using Cons.prems(1) by (simp add: split_join)
    then show ?thesis using Cons.prems(3) by (simp add: split_on_id)
  next
    case False
    then show ?thesis using Cons by simp
  qed
qed simp

lemma split_segments: "\<forall>w \<in> set (split_on c s). c \<notin> set w"
  using split_on_no_sep by blast

section \<open>What a directory pattern covers\<close>

lemma index_double_star:
  "\<not> contains_str p ''**'' \<Longrightarrow> index_str (p @ ''/**'' @ r) ''**'' = Some (Suc (length p))"
proof (induction p)
  case (Cons x xs)
  have "\<not> contains_str xs ''**''" "\<not> prefix ''**'' (x # xs)"
    using Cons.prems by (auto simp: contains_str_def split: if_splits)
  then show ?case using Cons.IH by (cases xs) (auto simp: contains_str_def)
qed (simp add: prefix_def)

lemma trim_suffix_append [simp]: "trim_suffix (p @ q) q = p"
  by (simp add: trim_suffix_def suffix_def)

lemma cut_double_star:
  "\<not> contains_str p ''**'' \<Longrightarrow> cut_at (p @ ''/**'' @ r) ''**'' = (p @ ''/'', r)"
  using index_double_star [of p r] by (simp add: cut_at_def)

lemma globMatch_below:
  assumes "p \<noteq> []" "\<not> contains_str p ''**''"
  shows "globMatch (p @ ''/**'') name \<longleftrightarrow> fst (cutPrefixSegments p name)"
  using assms cut_double_star [of p "[]"] index_double_star [of p "[]"]
  by (subst globMatch.simps) (simp add: contains_str_def case_prod_unfold trim_suffix_append [of p "''/''", simplified]
      trim_prefix_def)

lemma globMatch_below_below:
  assumes "p \<noteq> []" "\<not> contains_str p ''**''" "globMatch (p @ ''/**/**'') name"
  shows "fst (cutPrefixSegments p name)"
  using assms cut_double_star [of p "''/**''"] index_double_star [of p "''/**''"]
  by (subst (asm) globMatch.simps) (simp add: contains_str_def case_prod_unfold trim_suffix_append [of p "''/''", simplified]
      Let_def split: if_split_asm)

lemma globMatch_flat: "\<not> contains_str p ''**'' \<Longrightarrow> globMatch p name \<longleftrightarrow> path_Match p name = Some True"
  by (subst globMatch.simps) simp

lemma cutPrefix_one:
  assumes "CHR ''/'' \<notin> set p"
  shows "fst (cutPrefixSegments p name) \<longleftrightarrow> path_Match p (hd (split_on CHR ''/'' name)) = Some True"
  using split_on_ne [of "CHR ''/''" name]
  by (cases "split_on CHR ''/'' name") (auto simp: cutPrefixSegments_def Let_def split_on_id assms)

lemma zip_all_eq: "length vs \<le> length ws \<Longrightarrow> list_all (\<lambda>(v, w). v = w) (zip vs ws) \<longleftrightarrow> prefix vs ws"
proof (induction vs arbitrary: ws)
  case (Cons v vs)
  then show ?case by (cases ws) auto
qed simp

lemma cutPrefix_plain:
  assumes "plain p"
  shows "fst (cutPrefixSegments p name) \<longleftrightarrow> prefix (split_on CHR ''/'' p) (split_on CHR ''/'' name)"
proof -
  have "plain v" if "v \<in> set (split_on CHR ''/'' p)" for v
    using split_on_subset [OF that] assms by (auto simp: plain_def)
  then have "list_all (\<lambda>(v, w). path_Match v w = Some True) (zip (split_on CHR ''/'' p) (split_on CHR ''/'' name))
      = list_all (\<lambda>(v, w). v = w) (zip (split_on CHR ''/'' p) (split_on CHR ''/'' name))"
    by (intro list.pred_cong) (auto simp: path_Match_plain dest: set_zip_leftD)
  then show ?thesis
    using zip_all_eq [of "split_on CHR ''/'' p" "split_on CHR ''/'' name"]
    by (auto simp: cutPrefixSegments_def Let_def dest: prefix_length_le)
qed

section \<open>Properties\<close>

text \<open>
  An unanchored pattern applies at every depth and never crosses a directory boundary. A
  pattern without a slash, a character class or a double star covers a path exactly if it
  matches one of the path's segments: the file's own name or a directory above it.
\<close>

theorem unanchored_by_segment:
  assumes "p \<noteq> []" "trim_space p = p" "CHR ''/'' \<notin> set p" "CHR ''['' \<notin> set p" "\<not> contains_str p ''**''"
    and "trim_prefix (trim_space f) ''/'' \<noteq> []"
  shows "codeownersMatch p f \<longleftrightarrow>
    list_ex (\<lambda>seg. path_Match p seg = Some True) (split_on CHR ''/'' (trim_prefix (trim_space f) ''/''))"
proof -
  let ?f = "trim_prefix (trim_space f) ''/''"
  let ?segs = "split_on CHR ''/'' ?f"
  have noslash: "\<not> suffix ''/'' p" "\<not> prefix ''/'' p"
    using assms(3) by (auto simp: suffix_def prefix_def)
  then have same: "trim_suffix p ''/'' = p" "trim_prefix p ''/'' = p"
    by (simp_all add: trim_suffix_def trim_prefix_def)
  have either: "globMatch p t \<or> globMatch (p @ ''/**'') t
      \<longleftrightarrow> path_Match p (hd (split_on CHR ''/'' t)) = Some True" for t
  proof -
    have "path_Match p t = Some True \<Longrightarrow> hd (split_on CHR ''/'' t) = t"
      using path_Match_no_slash [OF assms(4,3)] by (simp add: split_on_id)
    then show ?thesis
      using globMatch_flat [OF assms(5)] globMatch_below [OF assms(1,5)] cutPrefix_one [OF assms(3)] by auto
  qed
  show ?thesis
  proof (cases "p = ''*''")
    case True
    have "path_Match ''*'' seg = Some True" if "CHR ''/'' \<notin> set seg" for seg
      using that by (subst path_Match.simps) (simp add: scanChunk_def)
    then have "\<forall>seg \<in> set ?segs. path_Match ''*'' seg = Some True" using split_segments by blast
    moreover have "?segs \<noteq> []" by simp
    ultimately show ?thesis
      using True assms(2,6) by (cases ?segs) (simp_all add: codeownersMatch_def Let_def)
  next
    case False
    have ne: "p \<noteq> ''**''" "p \<noteq> ''/''" using assms(3,5) by (auto simp: contains_str_def)
    have "codeownersMatch p f \<longleftrightarrow> list_ex (\<lambda>t. globMatch p t \<or> globMatch (p @ ''/**'') t) (tails_of ?segs)"
      using False ne assms(1,2,3,6) noslash same by (simp add: codeownersMatch_def Let_def)
    also have "\<dots> \<longleftrightarrow> list_ex (\<lambda>t. path_Match p (hd (split_on CHR ''/'' t)) = Some True) (tails_of ?segs)"
      by (simp only: either)
    also have "\<dots> \<longleftrightarrow> list_ex (\<lambda>seg. path_Match p seg = Some True) ?segs"
      by (rule tails_of_ex [OF split_segments])
    finally show ?thesis .
  qed
qed

text \<open>A name that begins and ends with a visible character other than a slash.\<close>

definition bare :: "string \<Rightarrow> bool" where
  "bare p \<longleftrightarrow> p \<noteq> [] \<and> visible (hd p) \<and> visible (last p) \<and> hd p \<noteq> CHR ''/'' \<and> last p \<noteq> CHR ''/''"

lemma bare_slashes:
  assumes "bare p"
  shows "trim_space (''/'' @ p) = ''/'' @ p" "trim_space (''/'' @ p @ ''/'') = ''/'' @ p @ ''/''"
    "trim_space (p @ ''/'') = p @ ''/''" "trim_space p = p" "\<not> suffix ''/'' p" "\<not> prefix ''/'' p"
proof -
  have slash: "visible CHR ''/''" by (simp add: visible_def)
  show "trim_space (''/'' @ p) = ''/'' @ p" "trim_space (''/'' @ p @ ''/'') = ''/'' @ p @ ''/''"
    "trim_space (p @ ''/'') = p @ ''/''" "trim_space p = p"
    using assms slash by (auto simp: bare_def intro!: trim_space_visible)
  show "\<not> suffix ''/'' p" "\<not> prefix ''/'' p"
    using assms by (auto simp: bare_def suffix_def prefix_def)
qed

lemma plain_no_double: "plain p \<Longrightarrow> \<not> contains_str p ''**''"
  using contains_str_subset by (fastforce simp: plain_def)

lemma suffix_slash_Cons: "\<not> suffix ''/'' p \<Longrightarrow> p \<noteq> [] \<Longrightarrow> \<not> suffix ''/'' (x # p)"
  by (auto simp: suffix_Cons)

text \<open>
  A literal pattern that names a directory or file from the root owns exactly that subtree.
  Written with a leading slash, with a trailing slash, with both, or with a slash inside, a
  literal pattern covers a path exactly if its segments are the leading segments of the path;
  so a name with a trailing slash is anchored to the root too.
\<close>

theorem literal_owns_subtree:
  assumes "bare p" "plain p" "trim_prefix (trim_space f) ''/'' \<noteq> []"
  shows "\<forall>pattern \<in> {''/'' @ p, p @ ''/'', ''/'' @ p @ ''/''} \<union> (if CHR ''/'' \<in> set p then {p} else {}).
    codeownersMatch pattern f \<longleftrightarrow>
      prefix (split_on CHR ''/'' p) (split_on CHR ''/'' (trim_prefix (trim_space f) ''/''))"
proof -
  let ?f = "trim_prefix (trim_space f) ''/''"
  let ?owns = "prefix (split_on CHR ''/'' p) (split_on CHR ''/'' ?f)"
  note sl = bare_slashes [OF assms(1)]
  note nd = plain_no_double [OF assms(2)]
  have ne: "p \<noteq> []" using assms(1) by (simp add: bare_def)
  have below: "globMatch (p @ ''/**'') ?f \<longleftrightarrow> ?owns"
    using globMatch_below [OF ne nd] cutPrefix_plain [OF assms(2)] by simp
  have deeper: "globMatch (p @ ''/**/**'') ?f \<Longrightarrow> ?owns"
    using globMatch_below_below [OF ne nd] cutPrefix_plain [OF assms(2)] by simp
  have flat: "globMatch p ?f \<Longrightarrow> ?owns"
    using globMatch_flat [OF nd] path_Match_plain [OF assms(2)] by simp
  have star: "p @ ''/'' \<noteq> ''*''" "p @ ''/'' \<noteq> ''**''" "p \<notin> {''*'', ''**'', ''/''}"
    using assms(1,2) ne by (auto simp: bare_def plain_def)
  have dir: "trim_suffix (p @ ''/'') ''/'' = p" "trim_suffix (''/'' @ p @ ''/'') ''/'' = ''/'' @ p"
    using trim_suffix_append [of "''/'' @ p" "''/''"] by simp_all
  have self: "trim_suffix p ''/'' = p" "trim_prefix p ''/'' = p" "trim_suffix (''/'' @ p) ''/'' = ''/'' @ p"
    using sl(5,6) suffix_slash_Cons [OF sl(5) ne] by (simp_all add: trim_suffix_def trim_prefix_def)
  have "codeownersMatch (''/'' @ p) f \<longleftrightarrow> globMatch p ?f \<or> globMatch (p @ ''/**'') ?f"
    using assms(3) sl(1) self ne star suffix_slash_Cons [OF sl(5) ne] by (simp add: codeownersMatch_def Let_def trim_prefix_def)
  moreover have "codeownersMatch (p @ ''/'') f \<longleftrightarrow> globMatch (p @ ''/**'') ?f \<or> globMatch (p @ ''/**/**'') ?f"
    using assms(3) sl(3,6) self dir ne star by (simp add: codeownersMatch_def Let_def)
  moreover have "codeownersMatch (''/'' @ p @ ''/'') f \<longleftrightarrow> globMatch (p @ ''/**'') ?f \<or> globMatch (p @ ''/**/**'') ?f"
    using assms(3) sl(2) dir ne by (simp add: codeownersMatch_def Let_def trim_prefix_def suffix_def)
  moreover have "codeownersMatch p f \<longleftrightarrow> globMatch p ?f \<or> globMatch (p @ ''/**'') ?f" if "CHR ''/'' \<in> set p"
    using assms(3) sl(4-6) self ne star that by (simp add: codeownersMatch_def Let_def)
  ultimately show ?thesis using below deeper flat by auto
qed

lemma unanchored_by_segment_witness:
  "codeownersMatch ''*.go'' ''cmd/main.go'' \<and> \<not> codeownersMatch ''*.go'' ''cmd/main.goo''"
proof -
  have ends: "trim_space ''*.go'' = ''*.go''" "trim_space ''cmd/main.go'' = ''cmd/main.go''"
    "trim_space ''cmd/main.goo'' = ''cmd/main.goo''"
    by (simp_all add: trim_space_visible visible_def)
  have no: "\<not> contains_str ''*.go'' ''**''" by (simp add: contains_str_def)
  have seg: "path_Match ''*.go'' ''main.go'' = Some True" "path_Match ''*.go'' ''cmd'' = Some False"
    "path_Match ''*.go'' ''main.goo'' = Some False"
    by (simp_all add: path_Match.simps rest_valid.simps scanChunk_def)
  show ?thesis
    using unanchored_by_segment [of "''*.go''" "''cmd/main.go''", OF _ ends(1) _ _ no]
      unanchored_by_segment [of "''*.go''" "''cmd/main.goo''", OF _ ends(1) _ _ no]
    by (simp add: ends seg trim_prefix_def)
qed

lemma literal_owns_subtree_witness:
  "codeownersMatch ''docs/'' ''docs/guide/a.md'' \<and> \<not> codeownersMatch ''docs/'' ''web/docs/a.md''"
proof -
  have ends: "trim_space ''docs/guide/a.md'' = ''docs/guide/a.md''" "trim_space ''web/docs/a.md'' = ''web/docs/a.md''"
    by (simp_all add: trim_space_visible visible_def)
  have p: "bare ''docs''" "plain ''docs''" by (simp_all add: bare_def visible_def)
  show ?thesis
    using literal_owns_subtree [of "''docs''" "''docs/guide/a.md''", OF p]
      literal_owns_subtree [of "''docs''" "''web/docs/a.md''", OF p]
    by (simp add: ends trim_prefix_def)
qed

end
