(* ===== verification/Webhook.thy ===== *)
theory Webhook
  imports JobQueue
begin

text \<open>
  Inbound webhooks: \<^verbatim>\<open>internal/webhook/service.go\<close> and the handler
  \<^verbatim>\<open>internal/app/webhooks.go\<close>. The state is the job queue of theory JobQueue, the rows of
  \<^verbatim>\<open>webhook_events\<close> under their three uniqueness constraints (migrations 001 and 005) and
  the enabled repositories by source and external id. SHA-256, HMAC and \<^verbatim>\<open>json.Unmarshal\<close>
  into the two payload structures are arguments, a statement that fails is a value of
  \<open>fault\<close>, and the database's clock is the process clock.
\<close>

section \<open>Rows and values\<close>

record webhook_event =
  we_id :: string
  we_source :: string
  we_external :: string
  we_repo :: string
  we_type :: string
  we_hash :: string
  we_status :: string
  we_detail :: string
  we_received :: time
  we_processed :: "time option"
  we_duplicates :: int
  we_last_duplicate :: "time option"

record hooks =
  h_queue :: queue
  h_events :: "webhook_event list"
  h_registered :: "string \<times> string \<Rightarrow> string option"

datatype hook_error =
    ErrPayloadUnreadable string
  | ErrRepositoryUnknown
  | ErrSourceUnsupported
  | StatementFailed

definition hook_error_text :: "hook_error \<Rightarrow> string" where
  "hook_error_text e =
     (case e of
        ErrPayloadUnreadable s \<Rightarrow> ''webhook payload is unreadable: '' @ s
      | ErrRepositoryUnknown \<Rightarrow> ''webhook repository is not registered''
      | ErrSourceUnsupported \<Rightarrow> ''unsupported webhook source''
      | StatementFailed \<Rightarrow> ''statement failed'')"

record hook_result =
  EventID :: string
  Duplicate :: bool
  Jobs :: nat

datatype hook_statement =
    FindRepository | BeginTx | InsertEvent | CountDuplicate | InsertJob nat | MarkQueued
  | CommitHook | RecordRejection

type_synonym hook_faults = "hook_statement \<Rightarrow> bool"

text \<open>
  \<open>json_bitbucket\<close> gives the repository id (0 if absent) and the display ids of the changed
  refs, \<open>json_gitlab\<close> the project id and the ref; \<open>None\<close> is a decoding error.
\<close>

record hook_env =
  sha256_hex :: "string \<Rightarrow> string"
  hmac_sha256 :: "string \<Rightarrow> string \<Rightarrow> string"
  json_bitbucket :: "string \<Rightarrow> (int \<times> string list) option"
  json_gitlab :: "string \<Rightarrow> (int \<times> string) option"

section \<open>Reading an event\<close>

definition appendUnique :: "string list \<Rightarrow> string \<Rightarrow> string list" where
  "appendUnique values v = (if v \<in> set values then values else values @ [v])"

definition parse :: "hook_env \<Rightarrow> string \<Rightarrow> string \<Rightarrow> hook_error + string \<times> string list" where
  "parse env sourceType payload =
     (if sourceType = ''bitbucket'' then
        (case json_bitbucket env payload of
           None \<Rightarrow> Inl (ErrPayloadUnreadable ''invalid Bitbucket webhook JSON'')
         | Some (i, displayIDs) \<Rightarrow>
             (if i = 0 then Inl (ErrPayloadUnreadable ''Bitbucket repository ID is missing'')
              else Inr (itoa i, foldl (\<lambda>refs d. if d \<noteq> [] then appendUnique refs d else refs) [] displayIDs)))
      else
        (case json_gitlab env payload of
           None \<Rightarrow> Inl (ErrPayloadUnreadable ''invalid GitLab webhook JSON'')
         | Some (i, r) \<Rightarrow>
             (if i = 0 then Inl (ErrPayloadUnreadable ''GitLab project ID is missing'')
              else let ref = trim_prefix (trim_prefix r ''refs/heads/'') ''refs/tags/''
                   in Inr (itoa i, if ref \<noteq> [] then [ref] else []))))"

definition truncate_runes :: "string \<Rightarrow> nat \<Rightarrow> string" where
  "truncate_runes value limit =
     (if length value \<le> limit then value else take (back_to_rune value limit) value @ ellipsis)"

section \<open>Writing\<close>

text \<open>ON CONFLICT DO NOTHING: the primary key and the two unique indexes.\<close>

definition event_conflict :: "webhook_event \<Rightarrow> webhook_event \<Rightarrow> bool" where
  "event_conflict e f \<longleftrightarrow> we_id e = we_id f
     \<or> (we_source e = we_source f \<and> we_external e = we_external f)
     \<or> (we_source e = we_source f \<and> we_repo e = we_repo f \<and> we_type e = we_type f \<and> we_hash e = we_hash f)"

definition insert_event :: "webhook_event \<Rightarrow> hooks \<Rightarrow> nat \<times> hooks" where
  "insert_event e st =
     (if list_ex (event_conflict e) (h_events st) then (0, st)
      else (1, st\<lparr>h_events := h_events st @ [e]\<rparr>))"

definition reject ::
    "hook_faults \<Rightarrow> time \<Rightarrow> string \<Rightarrow> string \<Rightarrow> string \<Rightarrow> string \<Rightarrow> string \<Rightarrow> string \<Rightarrow> hooks \<Rightarrow> hooks" where
  "reject fault now sourceType eventID eventType payloadHash externalRepo detail st =
     (let i = (if eventID = [] then payloadHash else eventID) in
      if fault RecordRejection then st
      else snd (insert_event \<lparr>we_id = sourceType @ '':'' @ i, we_source = sourceType, we_external = i,
        we_repo = externalRepo, we_type = eventType, we_hash = payloadHash, we_status = ''rejected'',
        we_detail = truncate_runes detail 500, we_received = now, we_processed = Some now,
        we_duplicates = 0, we_last_duplicate = None\<rparr> st))"

definition webhook_job :: "time \<Rightarrow> string \<Rightarrow> string \<Rightarrow> string \<Rightarrow> index_job" where
  "webhook_job now jobID repoID ref = \<lparr>job_id = jobID, job_repo = repoID, job_ref = ref,
     job_status = ''pending'', job_attempts = 0, job_next = now, job_created = now, job_started = None,
     job_completed = None, job_error = [], job_outage = None, job_claimed = []\<rparr>"

text \<open>The loop over the refs; a job id that is taken is an error of the INSERT.\<close>

fun insert_jobs ::
    "hook_faults \<Rightarrow> time \<Rightarrow> string \<Rightarrow> string \<Rightarrow> nat \<Rightarrow> string list \<Rightarrow> index_job list \<Rightarrow> index_job list option" where
  "insert_jobs fault now i repoID n [] js = Some js"
| "insert_jobs fault now i repoID n (ref # refs) js =
     (let jobID = i @ '':'' @ itoa_nat n in
      if fault (InsertJob n) \<or> jobID \<in> job_id ` set js then None
      else insert_jobs fault now i repoID (Suc n) refs (js @ [webhook_job now jobID repoID ref]))"

text \<open>Everything inside the transaction; \<open>None\<close> rolls back.\<close>

definition enqueue_tx ::
    "hook_faults \<Rightarrow> time \<Rightarrow> string \<Rightarrow> string \<Rightarrow> string \<Rightarrow> string \<Rightarrow> string \<Rightarrow> string list \<Rightarrow> hooks
     \<Rightarrow> (hook_result \<times> hooks) option" where
  "enqueue_tx fault now sourceType eventID eventType payloadHash repoID refs0 st =
     (let i = sourceType @ '':'' @ eventID;
          (affected, st1) = insert_event \<lparr>we_id = i, we_source = sourceType, we_external = eventID,
            we_repo = repoID, we_type = eventType, we_hash = payloadHash, we_status = ''received'',
            we_detail = [], we_received = now, we_processed = None, we_duplicates = 0,
            we_last_duplicate = None\<rparr> st
      in if fault InsertEvent then None
         else if affected = 0 then
           (if fault CountDuplicate \<or> fault CommitHook then None
            else Some (\<lparr>EventID = eventID, Duplicate = True, Jobs = 0\<rparr>,
              st1\<lparr>h_events := map (\<lambda>e.
                if we_source e = sourceType \<and> we_repo e = repoID \<and> we_type e = eventType \<and> we_hash e = payloadHash
                then e\<lparr>we_duplicates := we_duplicates e + 1, we_last_duplicate := Some now\<rparr> else e) (h_events st1)\<rparr>))
         else let refs = (if refs0 = [] then [[]] else refs0) in
           case insert_jobs fault now i repoID 0 refs (index_jobs (h_queue st1)) of
             None \<Rightarrow> None
           | Some js \<Rightarrow>
               (if fault MarkQueued \<or> fault CommitHook then None
                else Some (\<lparr>EventID = eventID, Duplicate = False, Jobs = length refs\<rparr>,
                  st1\<lparr>h_queue := (h_queue st1)\<lparr>index_jobs := js\<rparr>,
                      h_events := map (\<lambda>e. if we_id e = i
                        then e\<lparr>we_status := ''queued'', we_processed := Some now\<rparr> else e) (h_events st1)\<rparr>)))"

definition Enqueue ::
    "hook_env \<Rightarrow> hook_faults \<Rightarrow> time \<Rightarrow> string \<Rightarrow> string \<Rightarrow> string \<Rightarrow> string \<Rightarrow> hooks
     \<Rightarrow> (hook_error + hook_result) \<times> hooks" where
  "Enqueue env fault now sourceType eventID0 eventType payload st =
     (if sourceType \<noteq> ''bitbucket'' \<and> sourceType \<noteq> ''gitlab'' then (Inl ErrSourceUnsupported, st)
      else let payloadHash = sha256_hex env payload;
               eventID = (if eventID0 = [] then payloadHash else eventID0)
        in case parse env sourceType payload of
             Inl e \<Rightarrow> (Inl e, reject fault now sourceType eventID eventType payloadHash [] (hook_error_text e) st)
           | Inr (externalRepo, refs) \<Rightarrow>
               (case (if fault FindRepository then None else h_registered st (sourceType, externalRepo)) of
                  None \<Rightarrow> (Inl ErrRepositoryUnknown,
                    reject fault now sourceType eventID eventType payloadHash externalRepo
                      (''this platform has no enabled repository with source id '' @ externalRepo) st)
                | Some repoID \<Rightarrow>
                    (if fault BeginTx then (Inl StatementFailed, st)
                     else case enqueue_tx fault now sourceType eventID eventType payloadHash repoID refs st of
                       None \<Rightarrow> (Inl StatementFailed, st)
                     | Some (r, st') \<Rightarrow> (Inr r, st'))))"

section \<open>The handler\<close>

datatype setting_load = NoRow | LoadFailed | Loaded string

record hook_request =
  rq_path :: string
  rq_header :: "string \<Rightarrow> string"
  rq_body :: "string option"

definition hex_digit :: "char \<Rightarrow> nat option" where
  "hex_digit c = (let n = (of_char c :: nat) in
     if 48 \<le> n \<and> n \<le> 57 then Some (n - 48) else if 97 \<le> n \<and> n \<le> 102 then Some (n - 87)
     else if 65 \<le> n \<and> n \<le> 70 then Some (n - 55) else None)"

fun hex_decode :: "string \<Rightarrow> string option" where
  "hex_decode [] = Some []"
| "hex_decode [c] = None"
| "hex_decode (c # d # cs) =
     (case (hex_digit c, hex_digit d, hex_decode cs) of
        (Some a, Some b, Some s) \<Rightarrow> Some (char_of (16 * a + b) # s)
      | _ \<Rightarrow> None)"

definition signature_valid :: "hook_env \<Rightarrow> string \<Rightarrow> string \<Rightarrow> (string \<Rightarrow> string) \<Rightarrow> string \<Rightarrow> bool" where
  "signature_valid env sourceType secret header payload =
     (if sourceType = ''bitbucket'' then
        hex_decode (trim_prefix (header ''X-Hub-Signature'') ''sha256='') = Some (hmac_sha256 env secret payload)
      else header ''X-Gitlab-Token'' = secret)"

text \<open>The status, the problem code (empty on success) and the result that is written out.\<close>

definition receiveWebhook ::
    "hook_env \<Rightarrow> hook_faults \<Rightarrow> time \<Rightarrow> (string \<Rightarrow> setting_load) \<Rightarrow> hook_request \<Rightarrow> hooks
     \<Rightarrow> (int \<times> string \<times> hook_result option) \<times> hooks" where
  "receiveWebhook env fault now loadSettings r st =
     (let sourceType = trim_prefix (rq_path r) ''/webhooks/'' in
      case loadSettings sourceType of
        NoRow \<Rightarrow> ((503, ''webhook_not_configured'', None), st)
      | LoadFailed \<Rightarrow> ((500, ''webhook_failed'', None), st)
      | Loaded secret \<Rightarrow>
          (if secret = [] then ((503, ''webhook_not_configured'', None), st)
           else case rq_body r of
             None \<Rightarrow> ((400, ''invalid_payload'', None), st)
           | Some payload \<Rightarrow>
               (let eventID = rq_header r (if sourceType = ''bitbucket'' then ''X-Request-Id'' else ''X-Gitlab-Event-UUID'');
                    eventType = rq_header r (if sourceType = ''bitbucket'' then ''X-Event-Key'' else ''X-Gitlab-Event'')
                in if \<not> signature_valid env sourceType secret (rq_header r) payload
                   then ((401, ''invalid_webhook_signature'', None), st)
                   else case Enqueue env fault now sourceType eventID eventType payload st of
                     (Inl (ErrPayloadUnreadable s), st') \<Rightarrow> ((400, ''invalid_payload'', None), st')
                   | (Inl ErrRepositoryUnknown, st') \<Rightarrow> ((404, ''webhook_rejected'', None), st')
                   | (Inl ErrSourceUnsupported, st') \<Rightarrow> ((404, ''webhook_rejected'', None), st')
                   | (Inl StatementFailed, st') \<Rightarrow> ((500, ''webhook_failed'', None), st')
                   | (Inr res, st') \<Rightarrow> ((if Duplicate res then 200 else 202, [], Some res), st'))))"

section \<open>What deliveries keep\<close>

definition event_keys :: "hooks \<Rightarrow> (string \<times> string \<times> string \<times> string) set" where
  "event_keys st = (\<lambda>e. (we_source e, we_repo e, we_type e, we_hash e)) ` set (h_events st)"

lemma insert_event_keys:
  assumes "insert_event e st = (n, st')"
  shows "event_keys st \<subseteq> event_keys st'" "h_registered st' = h_registered st" "h_queue st' = h_queue st"
    "n \<noteq> 0 \<Longrightarrow> h_events st' = h_events st @ [e]" "n = 0 \<Longrightarrow> st' = st"
    "n = 0 \<longleftrightarrow> list_ex (event_conflict e) (h_events st)"
  using assms by (auto simp: insert_event_def event_keys_def split: if_splits)

lemma event_keys_map:
  "(\<And>e. we_source (f e) = we_source e \<and> we_repo (f e) = we_repo e \<and> we_type (f e) = we_type e \<and> we_hash (f e) = we_hash e)
   \<Longrightarrow> h_events st' = map f (h_events st) \<Longrightarrow> event_keys st' = event_keys st"
  by (simp add: event_keys_def image_image)

lemma reject_keeps:
  "event_keys st \<subseteq> event_keys (reject fault now src ev ty hash ext detail st)"
  "h_registered (reject fault now src ev ty hash ext detail st) = h_registered st"
  "h_queue (reject fault now src ev ty hash ext detail st) = h_queue st"
  unfolding reject_def Let_def
  by (auto simp: insert_event_def event_keys_def)

lemma insert_jobs_append:
  assumes "insert_jobs fault now i repo n refs js = Some js'"
  shows "\<exists>new. js' = js @ new \<and> map job_ref new = refs
    \<and> (\<forall>j \<in> set new. job_repo j = repo \<and> job_status j = ''pending'' \<and> job_attempts j = 0 \<and> job_next j = now)
    \<and> job_id ` set new \<inter> job_id ` set js = {} \<and> distinct (map job_id new)"
  using assms
proof (induction fault now i repo n refs js rule: insert_jobs.induct)
  case (2 fault now i repo n ref refs js)
  let ?id = "i @ '':'' @ itoa_nat n"
  let ?j = "webhook_job now ?id repo ref"
  have free: "\<not> (fault (InsertJob n) \<or> ?id \<in> job_id ` set js)"
    and rec: "insert_jobs fault now i repo (Suc n) refs (js @ [?j]) = Some js'"
    using "2.prems" by (auto simp: Let_def split: if_splits)
  from "2.IH" [OF refl free rec] obtain new where
    new: "js' = (js @ [?j]) @ new" "map job_ref new = refs"
      "\<forall>j \<in> set new. job_repo j = repo \<and> job_status j = ''pending'' \<and> job_attempts j = 0 \<and> job_next j = now"
      "job_id ` set new \<inter> job_id ` set (js @ [?j]) = {}" "distinct (map job_id new)" by blast
  have "js' = js @ (?j # new)" "map job_ref (?j # new) = ref # refs"
    "\<forall>j \<in> set (?j # new). job_repo j = repo \<and> job_status j = ''pending'' \<and> job_attempts j = 0 \<and> job_next j = now"
    "job_id ` set (?j # new) \<inter> job_id ` set js = {}" "distinct (map job_id (?j # new))"
    using new free by (auto simp: webhook_job_def)
  then show ?case by (intro exI [of _ "?j # new"] conjI)
qed auto

lemma enqueue_tx_cases:
  assumes "enqueue_tx fault now src ev ty hash repo refs st = Some (r, st')"
  obtains (dup) "Duplicate r" "h_queue st' = h_queue st" "event_keys st' = event_keys st"
      "h_registered st' = h_registered st" "r = \<lparr>EventID = ev, Duplicate = True, Jobs = 0\<rparr>"
  | (fresh) new where "\<not> Duplicate r" "(src, repo, ty, hash) \<notin> event_keys st"
      "event_keys st' = insert (src, repo, ty, hash) (event_keys st)" "h_registered st' = h_registered st"
      "index_jobs (h_queue st') = index_jobs (h_queue st) @ new"
      "map job_ref new = (if refs = [] then [[]] else refs)" "Jobs r = length new"
      "\<forall>j \<in> set new. job_repo j = repo \<and> job_status j = ''pending'' \<and> job_attempts j = 0 \<and> job_next j = now"
      "job_id ` set new \<inter> job_id ` set (index_jobs (h_queue st)) = {}" "distinct (map job_id new)"
proof -
  define e where "e = \<lparr>we_id = src @ '':'' @ ev, we_source = src, we_external = ev,
            we_repo = repo, we_type = ty, we_hash = hash, we_status = ''received'',
            we_detail = [], we_received = now, we_processed = None, we_duplicates = 0,
            we_last_duplicate = None\<rparr>"
  obtain n st1 where ins: "insert_event e st = (n, st1)" by (cases "insert_event e st")
  note keys = insert_event_keys [OF ins]
  note def = assms [unfolded enqueue_tx_def Let_def, folded e_def, unfolded ins split]
  show thesis
  proof (cases "n = 0")
    case True
    with def have r: "r = \<lparr>EventID = ev, Duplicate = True, Jobs = 0\<rparr>"
      and st': "st' = st1\<lparr>h_events := map (\<lambda>e.
                if we_source e = src \<and> we_repo e = repo \<and> we_type e = ty \<and> we_hash e = hash
                then e\<lparr>we_duplicates := we_duplicates e + 1, we_last_duplicate := Some now\<rparr> else e) (h_events st1)\<rparr>"
      by (simp_all split: if_splits)
    have "event_keys st' = event_keys st1"
      by (rule event_keys_map [where st = st1, of "\<lambda>e. if we_source e = src \<and> we_repo e = repo \<and> we_type e = ty \<and> we_hash e = hash
                then e\<lparr>we_duplicates := we_duplicates e + 1, we_last_duplicate := Some now\<rparr> else e"])
        (simp_all add: st')
    then show thesis using dup r st' keys(5) True by simp
  next
    case False
    let ?refs = "if refs = [] then [[]] else refs"
    obtain js where js: "insert_jobs fault now (src @ '':'' @ ev) repo 0 ?refs (index_jobs (h_queue st1)) = Some js"
      using def False by (cases "insert_jobs fault now (src @ '':'' @ ev) repo 0 ?refs (index_jobs (h_queue st1))")
        (simp_all split: if_split_asm)
    have r: "r = \<lparr>EventID = ev, Duplicate = False, Jobs = length ?refs\<rparr>"
      and st': "st' = st1\<lparr>h_queue := (h_queue st1)\<lparr>index_jobs := js\<rparr>,
                      h_events := map (\<lambda>f. if we_id f = src @ '':'' @ ev
                        then f\<lparr>we_status := ''queued'', we_processed := Some now\<rparr> else f) (h_events st1)\<rparr>"
      using def False js by (simp_all split: if_split_asm)
    obtain new where new: "js = index_jobs (h_queue st1) @ new" "map job_ref new = ?refs"
      "\<forall>j \<in> set new. job_repo j = repo \<and> job_status j = ''pending'' \<and> job_attempts j = 0 \<and> job_next j = now"
      "job_id ` set new \<inter> job_id ` set (index_jobs (h_queue st1)) = {}" "distinct (map job_id new)"
      using insert_jobs_append [OF js] by blast
    have "event_keys st' = event_keys st1"
      by (rule event_keys_map [where st = st1, of "\<lambda>f. if we_id f = src @ '':'' @ ev
                        then f\<lparr>we_status := ''queued'', we_processed := Some now\<rparr> else f"])
        (simp_all add: st')
    moreover have "event_keys st1 = insert (src, repo, ty, hash) (event_keys st)"
      using keys(4) [OF False] by (simp add: event_keys_def e_def)
    moreover have "(src, repo, ty, hash) \<notin> event_keys st"
      using keys(6) False by (auto simp: event_keys_def e_def event_conflict_def list_ex_iff)
    moreover have "length ?refs = length new" using new(2) by (metis length_map)
    ultimately show thesis using fresh [of new] r st' new keys(2,3) by simp
  qed
qed

lemma Enqueue_cases:
  assumes "Enqueue env fault now src ev0 ty payload st = (res, st')"
  obtains (none) "h_queue st' = h_queue st" "event_keys st \<subseteq> event_keys st'"
      "h_registered st' = h_registered st" "\<exists>e. res = Inl e"
  | (tx) ext refs repo r where "src = ''bitbucket'' \<or> src = ''gitlab''" "parse env src payload = Inr (ext, refs)"
      "h_registered st (src, ext) = Some repo" "res = Inr r"
      "enqueue_tx fault now src (if ev0 = [] then sha256_hex env payload else ev0) ty (sha256_hex env payload) repo refs st = Some (r, st')"
proof -
  note def = assms [unfolded Enqueue_def Let_def]
  show thesis
  proof (cases "src \<noteq> ''bitbucket'' \<and> src \<noteq> ''gitlab''")
    case True
    then have "res = Inl ErrSourceUnsupported" "st' = st" using def by simp_all
    then show thesis using none by blast
  next
    case src: False
    show thesis
    proof (cases "parse env src payload")
      case (Inl e)
      then show thesis using def src none reject_keeps by (auto split: if_splits)
    next
      case (Inr p)
      obtain ext refs where p: "p = (ext, refs)" by (cases p)
      show thesis
      proof (cases "if fault FindRepository then None else h_registered st (src, ext)")
        case None
        then show thesis using def src Inr p none reject_keeps by (auto split: if_splits)
      next
        case (Some repo)
        let ?tx = "enqueue_tx fault now src (if ev0 = [] then sha256_hex env payload else ev0) ty (sha256_hex env payload) repo refs st"
        show thesis
        proof (cases "fault BeginTx \<or> ?tx = None")
          case True
          then show thesis using def src Inr p Some none by (auto split: if_splits)
        next
          case False
          then obtain r st2 where t: "?tx = Some (r, st2)" by auto
          have "h_registered st (src, ext) = Some repo" using Some by (simp split: if_splits)
          moreover have "res = Inr r" "st' = st2" using def src Inr p Some False t by (simp_all split: if_splits)
          ultimately show thesis using tx src Inr p t by blast
        qed
      qed
    qed
  qed
qed

section \<open>Properties\<close>

text \<open>
  Histories of the receiver: deliveries of any events, with any failing statements, and any
  changes that workers make to the queue meanwhile.
\<close>

inductive deliveries :: "hook_env \<Rightarrow> hooks \<Rightarrow> hooks \<Rightarrow> bool" for env where
  nothing: "deliveries env st st"
| delivery: "deliveries env st st1 \<Longrightarrow>
     deliveries env st (snd (Enqueue env fault now src ev ty payload st1))"
| queue_work: "deliveries env st st1 \<Longrightarrow> deliveries env st (st1\<lparr>h_queue := q\<rparr>)"

lemma Enqueue_keeps:
  "event_keys st \<subseteq> event_keys (snd (Enqueue env fault now src ev ty payload st))
   \<and> h_registered (snd (Enqueue env fault now src ev ty payload st)) = h_registered st"
proof -
  obtain res st' where e: "Enqueue env fault now src ev ty payload st = (res, st')" by force
  from e have "event_keys st \<subseteq> event_keys st' \<and> h_registered st' = h_registered st"
  proof (cases rule: Enqueue_cases)
    case none
    then show ?thesis by simp
  next
    case (tx ext refs repo r)
    from tx(5) show ?thesis by (cases rule: enqueue_tx_cases) auto
  qed
  then show ?thesis by (simp add: e)
qed

lemma deliveries_keep:
  "deliveries env st st' \<Longrightarrow> event_keys st \<subseteq> event_keys st' \<and> h_registered st' = h_registered st"
proof (induction rule: deliveries.induct)
  case (delivery st st1 fault now src ev ty payload)
  then show ?case using Enqueue_keeps [of st1 env fault now src ev ty payload] by auto
qed (simp_all add: event_keys_def)

lemma redelivery:
  assumes "parse env src payload = Inr (ext, refs)" "h_registered st (src, ext) = Some repo"
    "(src, repo, ty, sha256_hex env payload) \<in> event_keys st" "src = ''bitbucket'' \<or> src = ''gitlab''"
  shows "index_jobs (h_queue (snd (Enqueue env fault now src ev ty payload st))) = index_jobs (h_queue st)"
    and "\<forall>s. \<not> fault s \<Longrightarrow> fst (Enqueue env fault now src ev ty payload st) =
      Inr \<lparr>EventID = (if ev = [] then sha256_hex env payload else ev), Duplicate = True, Jobs = 0\<rparr>"
proof -
  let ?hash = "sha256_hex env payload"
  let ?ev = "if ev = [] then ?hash else ev"
  let ?tx = "enqueue_tx fault now src ?ev ty ?hash repo refs st"
  obtain res st' where e: "Enqueue env fault now src ev ty payload st = (res, st')" by force
  have jobs: "index_jobs (h_queue st') = index_jobs (h_queue st)"
    using e
  proof (cases rule: Enqueue_cases)
    case (tx ext' refs' repo' r)
    then have same: "repo' = repo" using assms(1,2) by simp
    from tx(5) show ?thesis
    proof (cases rule: enqueue_tx_cases)
      case (fresh new)
      then show ?thesis using assms(3) same by simp
    qed simp
  qed simp
  then show "index_jobs (h_queue (snd (Enqueue env fault now src ev ty payload st))) = index_jobs (h_queue st)"
    by (simp add: e)
  assume ok: "\<forall>s. \<not> fault s"
  define ent where "ent = \<lparr>we_id = src @ '':'' @ ?ev, we_source = src, we_external = ?ev,
            we_repo = repo, we_type = ty, we_hash = ?hash, we_status = ''received'',
            we_detail = [], we_received = now, we_processed = None, we_duplicates = 0,
            we_last_duplicate = None\<rparr>"
  have "list_ex (event_conflict ent) (h_events st)"
    using assms(3) by (auto simp: event_keys_def list_ex_iff event_conflict_def ent_def)
  then have "insert_event ent st = (0, st)" by (simp add: insert_event_def)
  then obtain st2 where "?tx = Some (\<lparr>EventID = ?ev, Duplicate = True, Jobs = 0\<rparr>, st2)"
    using ok unfolding enqueue_tx_def Let_def ent_def [symmetric] by simp
  then show "fst (Enqueue env fault now src ev ty payload st) = Inr \<lparr>EventID = ?ev, Duplicate = True, Jobs = 0\<rparr>"
    using assms ok by (auto simp: Enqueue_def Let_def)
qed

text \<open>
  C21: an event is turned into work exactly once. A delivery that is accepted and is no
  duplicate appends one pending job per changed ref of its repository (one for the default
  branch if it names none); whatever is delivered and worked off afterwards, delivering the
  same body again under any event id adds no job, and without failures it is answered as a
  duplicate.
\<close>

theorem event_enqueued_once:
  assumes "Enqueue env fault now src ev ty payload st = (Inr r, st1)" "\<not> Duplicate r"
    and "deliveries env st1 st2"
  shows "(\<exists>ext refs repo new. parse env src payload = Inr (ext, refs)
      \<and> h_registered st (src, ext) = Some repo
      \<and> index_jobs (h_queue st1) = index_jobs (h_queue st) @ new
      \<and> map job_ref new = (if refs = [] then [[]] else refs) \<and> Jobs r = length new
      \<and> (\<forall>j \<in> set new. job_repo j = repo \<and> job_status j = ''pending'' \<and> job_next j = now))
    \<and> (let (res, st3) = Enqueue env fault' now' src ev' ty payload st2
      in index_jobs (h_queue st3) = index_jobs (h_queue st2)
       \<and> ((\<forall>s. \<not> fault' s) \<longrightarrow>
            res = Inr \<lparr>EventID = (if ev' = [] then sha256_hex env payload else ev'), Duplicate = True, Jobs = 0\<rparr>))"
proof -
  from assms(1) obtain ext refs repo r' where t: "src = ''bitbucket'' \<or> src = ''gitlab''"
    "parse env src payload = Inr (ext, refs)" "h_registered st (src, ext) = Some repo" "r' = r"
    "enqueue_tx fault now src (if ev = [] then sha256_hex env payload else ev) ty (sha256_hex env payload) repo refs st = Some (r', st1)"
    by (cases rule: Enqueue_cases) auto
  from t(5) obtain new where new: "event_keys st1 = insert (src, repo, ty, sha256_hex env payload) (event_keys st)"
      "h_registered st1 = h_registered st" "index_jobs (h_queue st1) = index_jobs (h_queue st) @ new"
      "map job_ref new = (if refs = [] then [[]] else refs)" "Jobs r = length new"
      "\<forall>j \<in> set new. job_repo j = repo \<and> job_status j = ''pending'' \<and> job_attempts j = 0 \<and> job_next j = now"
    using assms(2) t(4) by (cases rule: enqueue_tx_cases) auto
  then have work: "\<exists>ext refs repo new. parse env src payload = Inr (ext, refs)
      \<and> h_registered st (src, ext) = Some repo
      \<and> index_jobs (h_queue st1) = index_jobs (h_queue st) @ new
      \<and> map job_ref new = (if refs = [] then [[]] else refs) \<and> Jobs r = length new
      \<and> (\<forall>j \<in> set new. job_repo j = repo \<and> job_status j = ''pending'' \<and> job_next j = now)"
    using t(2,3) by (intro exI [of _ ext] exI [of _ refs] exI [of _ repo] exI [of _ new]) simp
  have "h_registered st2 (src, ext) = Some repo" "(src, repo, ty, sha256_hex env payload) \<in> event_keys st2"
    using deliveries_keep [OF assms(3)] new(1,2) t(3) by auto
  note again = redelivery [OF t(2) this t(1), where fault = fault' and now = now' and ev = ev']
  show ?thesis by (rule conjI, rule work) (use again in \<open>simp add: case_prod_unfold\<close>)
qed

text \<open>
  C24: nothing is recorded and no job is queued for a request that is not authenticated. If a
  request changes any table or is answered with success, then the source has a configured
  secret and the request's body carries its signature (Bitbucket) or the request carries the
  secret itself (GitLab).
\<close>

theorem webhook_authenticated:
  assumes "receiveWebhook env fault now load r st = ((code, problem, res), st')"
    and "st' \<noteq> st \<or> code < 300"
  shows "\<exists>secret payload. load (trim_prefix (rq_path r) ''/webhooks/'') = Loaded secret \<and> secret \<noteq> []
    \<and> rq_body r = Some payload
    \<and> signature_valid env (trim_prefix (rq_path r) ''/webhooks/'') secret (rq_header r) payload"
proof (cases "load (trim_prefix (rq_path r) ''/webhooks/'')")
  case (Loaded secret)
  show ?thesis
  proof (cases "secret = [] \<or> rq_body r = None")
    case True
    then have "fst (receiveWebhook env fault now load r st) \<in> {(503, ''webhook_not_configured'', None), (400, ''invalid_payload'', None)}
      \<and> snd (receiveWebhook env fault now load r st) = st"
      using Loaded by (cases "secret = []") (simp_all add: receiveWebhook_def Let_def)
    then show ?thesis using assms by auto
  next
    case False
    then obtain payload where p: "rq_body r = Some payload" "secret \<noteq> []" by auto
    have "signature_valid env (trim_prefix (rq_path r) ''/webhooks/'') secret (rq_header r) payload"
    proof (rule ccontr)
      assume "\<not> ?thesis"
      then show False using assms Loaded p by (simp add: receiveWebhook_def Let_def)
    qed
    then show ?thesis using Loaded p by blast
  qed
qed (use assms in \<open>simp_all add: receiveWebhook_def Let_def\<close>)

text \<open>
  An event that was refused because its repository was not registered is lost. Once the
  repository has been registered, sending the same event again is answered as a duplicate and
  queues no job, because the refusal is stored under the event's id.
\<close>

theorem refused_event_is_lost:
  assumes "src = ''bitbucket'' \<or> src = ''gitlab''" "parse env src payload = Inr (ext, refs)"
    and "h_registered st (src, ext) = None" "\<forall>e \<in> set (h_events st). we_source e \<noteq> src \<and> we_id e \<noteq> src @ '':'' @ ev"
    and "ev \<noteq> []"
  shows "let (refused, st1) = Enqueue env (\<lambda>s. False) now src ev ty payload st;
             st2 = st1\<lparr>h_registered := (h_registered st1)((src, ext) \<mapsto> repo)\<rparr>;
             (again, st3) = Enqueue env (\<lambda>s. False) now' src ev ty payload st2
    in refused = Inl ErrRepositoryUnknown
     \<and> again = Inr \<lparr>EventID = ev, Duplicate = True, Jobs = 0\<rparr> \<and> h_queue st3 = h_queue st"
proof -
  define row where "row = \<lparr>we_id = src @ '':'' @ ev, we_source = src, we_external = ev,
        we_repo = ext, we_type = ty, we_hash = sha256_hex env payload, we_status = ''rejected'',
        we_detail = truncate_runes (''this platform has no enabled repository with source id '' @ ext) 500,
        we_received = now, we_processed = Some now, we_duplicates = 0, we_last_duplicate = None\<rparr>"
  define st1 where "st1 = st\<lparr>h_events := h_events st @ [row]\<rparr>"
  have "\<not> list_ex (event_conflict row) (h_events st)"
    using assms(4) by (auto simp: list_ex_iff event_conflict_def row_def)
  then have ins: "insert_event row st = (1, st1)" by (simp add: insert_event_def st1_def)
  have first: "Enqueue env (\<lambda>s. False) now src ev ty payload st = (Inl ErrRepositoryUnknown, st1)"
    using assms ins unfolding Enqueue_def reject_def Let_def row_def by auto
  define st2 where "st2 = st1\<lparr>h_registered := (h_registered st1)((src, ext) \<mapsto> repo)\<rparr>"
  define ent where "ent = \<lparr>we_id = src @ '':'' @ ev, we_source = src, we_external = ev,
            we_repo = repo, we_type = ty, we_hash = sha256_hex env payload, we_status = ''received'',
            we_detail = [], we_received = now', we_processed = None, we_duplicates = 0,
            we_last_duplicate = None\<rparr>"
  have "list_ex (event_conflict ent) (h_events st2)"
    by (simp add: st2_def st1_def event_conflict_def ent_def row_def)
  then have "insert_event ent st2 = (0, st2)" by (simp add: insert_event_def)
  then have "\<exists>st3. enqueue_tx (\<lambda>s. False) now' src ev ty (sha256_hex env payload) repo refs st2
      = Some (\<lparr>EventID = ev, Duplicate = True, Jobs = 0\<rparr>, st3) \<and> h_queue st3 = h_queue st"
    unfolding enqueue_tx_def Let_def ent_def [symmetric] by (simp add: st2_def st1_def)
  then obtain st3 where "Enqueue env (\<lambda>s. False) now' src ev ty payload st2
      = (Inr \<lparr>EventID = ev, Duplicate = True, Jobs = 0\<rparr>, st3)" "h_queue st3 = h_queue st"
    using assms(1,2,5) by (auto simp: Enqueue_def st2_def)
  then show ?thesis unfolding first Let_def split st2_def [symmetric] by simp
qed

text \<open>
  A database failure is reported as a routing mistake. If the lookup of the repository
  fails, an authenticated event of a registered repository is answered with status 404, which
  the sender does not retry.
\<close>

theorem failed_lookup_reported_unknown:
  assumes "load src = Loaded secret" "secret \<noteq> []" "rq_body r = Some payload" "rq_path r = ''/webhooks/'' @ src"
    and "signature_valid env src secret (rq_header r) payload" "src = ''bitbucket'' \<or> src = ''gitlab''"
    and "parse env src payload = Inr (ext, refs)" "h_registered st (src, ext) = Some repo" "fault FindRepository"
  shows "fst (receiveWebhook env fault now load r st) = (404, ''webhook_rejected'', None)"
proof -
  have "trim_prefix (rq_path r) ''/webhooks/'' = src"
    using assms(4) trim_prefix_append [of "''/webhooks/''" src] by simp
  moreover have "\<exists>st'. Enqueue env fault now src ev ty payload st = (Inl ErrRepositoryUnknown, st')" for ev ty
    using assms(6,7,9) by (auto simp: Enqueue_def Let_def)
  then have "fst (Enqueue env fault now src ev ty payload st) = Inl ErrRepositoryUnknown" for ev ty
    by (metis fst_conv)
  ultimately show ?thesis
    using assms(1-3,5) by (simp add: receiveWebhook_def Let_def case_prod_unfold)
qed

section \<open>Witnesses\<close>

definition demo_hook_env :: hook_env where
  "demo_hook_env = \<lparr>sha256_hex = (\<lambda>p. ''h'' @ p), hmac_sha256 = (\<lambda>k p. k @ p),
     json_bitbucket = (\<lambda>p. None), json_gitlab = (\<lambda>p. Some (7, ''refs/heads/'' @ p))\<rparr>"

definition demo_hooks :: hooks where
  "demo_hooks = \<lparr>h_queue = \<lparr>index_jobs = [], repositories = (\<lambda>i. None), ref_embedding = (\<lambda>i. None), alerts = (\<lambda>i. None)\<rparr>,
     h_events = [], h_registered = (\<lambda>k. if k = (''gitlab'', ''7'') then Some ''gitlab:7'' else None)\<rparr>"

definition demo_request :: hook_request where
  "demo_request = \<lparr>rq_path = ''/webhooks/gitlab'', rq_header = (\<lambda>h. if h = ''X-Gitlab-Token'' then ''s'' else ''e''),
     rq_body = Some ''main''\<rparr>"

lemma itoa_seven: "itoa 7 = ''7''"
  by (simp add: itoa_def itoa_nat.simps)

lemma demo_parse: "parse demo_hook_env ''gitlab'' ''main'' = Inr (''7'', [''main''])"
  by (simp add: parse_def demo_hook_env_def Let_def trim_prefix_def itoa_seven)

lemma event_enqueued_once_witness:
  "let (res1, st1) = Enqueue demo_hook_env (\<lambda>s. False) 5 ''gitlab'' ''e1'' ''push'' ''main'' demo_hooks;
       (res2, st2) = Enqueue demo_hook_env (\<lambda>s. False) 9 ''gitlab'' ''e2'' ''push'' ''main'' st1
   in index_jobs (h_queue st2) = index_jobs (h_queue st1)
    \<and> res2 = Inr \<lparr>EventID = ''e2'', Duplicate = True, Jobs = 0\<rparr>"
proof -
  have "\<exists>st1. Enqueue demo_hook_env (\<lambda>s. False) 5 ''gitlab'' ''e1'' ''push'' ''main'' demo_hooks
      = (Inr \<lparr>EventID = ''e1'', Duplicate = False, Jobs = 1\<rparr>, st1)"
    by (simp add: Enqueue_def demo_parse enqueue_tx_def insert_event_def demo_hooks_def Let_def)
  then obtain st1 where first: "Enqueue demo_hook_env (\<lambda>s. False) 5 ''gitlab'' ''e1'' ''push'' ''main'' demo_hooks
      = (Inr \<lparr>EventID = ''e1'', Duplicate = False, Jobs = 1\<rparr>, st1)" by blast
  have fresh: "\<not> Duplicate \<lparr>EventID = ''e1'', Duplicate = False, Jobs = 1\<rparr>" by simp
  note once = event_enqueued_once [OF first fresh deliveries.nothing, where fault' = "\<lambda>s. False" and now' = 9 and ev' = "''e2''"]
  show ?thesis unfolding first Let_def split using conjunct2 [OF once] by (simp add: case_prod_unfold Let_def)
qed

lemma webhook_authenticated_witness:
  "signature_valid demo_hook_env ''gitlab'' ''s'' (rq_header demo_request) ''main''"
proof -
  have path: "trim_prefix ''/webhooks/gitlab'' ''/webhooks/'' = ''gitlab''" by (simp add: trim_prefix_def)
  have "\<exists>res st'. receiveWebhook demo_hook_env (\<lambda>s. False) 5 (\<lambda>c. Loaded ''s'') demo_request demo_hooks
      = ((202, [], res), st')"
    using demo_parse by (simp add: receiveWebhook_def demo_request_def path signature_valid_def Enqueue_def
        enqueue_tx_def insert_event_def demo_hooks_def Let_def)
  then obtain res st' where "receiveWebhook demo_hook_env (\<lambda>s. False) 5 (\<lambda>c. Loaded ''s'') demo_request demo_hooks
      = ((202, [], res), st')" by blast
  from webhook_authenticated [OF this] show ?thesis by (simp add: demo_request_def path)
qed

lemma refused_event_is_lost_witness:
  "let (refused, st1) = Enqueue demo_hook_env (\<lambda>s. False) 5 ''gitlab'' ''e1'' ''push'' ''main'' (demo_hooks\<lparr>h_registered := (\<lambda>k. None)\<rparr>);
       st2 = st1\<lparr>h_registered := (h_registered st1)((''gitlab'', ''7'') \<mapsto> ''gitlab:7'')\<rparr>;
       (again, st3) = Enqueue demo_hook_env (\<lambda>s. False) 9 ''gitlab'' ''e1'' ''push'' ''main'' st2
   in again = Inr \<lparr>EventID = ''e1'', Duplicate = True, Jobs = 0\<rparr> \<and> index_jobs (h_queue st3) = []"
  using refused_event_is_lost [OF _ demo_parse, of "demo_hooks\<lparr>h_registered := (\<lambda>k. None)\<rparr>" "''e1''"
      5 "''push''" "''gitlab:7''" 9]
  by (simp add: case_prod_unfold Let_def demo_hooks_def)

lemma failed_lookup_reported_unknown_witness:
  "fst (receiveWebhook demo_hook_env (\<lambda>s. s = FindRepository) 5 (\<lambda>c. Loaded ''s'') demo_request demo_hooks)
   = (404, ''webhook_rejected'', None)"
  by (rule failed_lookup_reported_unknown [where src = "''gitlab''" and secret = "''s''", OF _ _ _ _ _ _ demo_parse])
    (simp_all add: demo_request_def signature_valid_def demo_hooks_def)

end
