(* ===== verification/CallTrace.thy ===== *)
theory CallTrace
  imports GoErrors
begin

text \<open>
  The per-call trace: \<^verbatim>\<open>internal/calltrace/calltrace.go\<close>. A nil recorder or span is
  \<open>None\<close>; the mutex makes each operation one step, and the clock readings an operation makes
  are arguments. The lemmas show that a trace keeps the first sixty steps in order, numbers
  them, and says how many it dropped.
\<close>

section \<open>Values\<close>

definition StatusOK :: string where "StatusOK = ''ok''"
definition StatusEmpty :: string where "StatusEmpty = ''empty''"
definition StatusSkipped :: string where "StatusSkipped = ''skipped''"
definition StatusError :: string where "StatusError = ''error''"
definition StatusTimeout :: string where "StatusTimeout = ''timeout''"

record Step =
  Sequence :: int
  Stage :: string
  Target :: string
  Status :: string
  Detail :: string
  Candidates :: int
  Results :: int
  DurationMS :: int
  OffsetMS :: int

definition maxSteps :: nat where
  "maxSteps = 60"

record Recorder =
  rec_start :: time
  rec_steps :: "Step list"
  rec_dropped :: int

record Span =
  sp_stage :: string
  sp_target :: string
  sp_started :: time

text \<open>\<^verbatim>\<open>Duration.Milliseconds\<close>: division towards zero.\<close>

definition milliseconds :: "duration \<Rightarrow> int" where
  "milliseconds d = (if 0 \<le> d then d div millisecond else - ((- d) div millisecond))"

section \<open>Recording\<close>

definition New_recorder :: "time \<Rightarrow> Recorder option" where
  "New_recorder now = Some \<lparr>rec_start = now, rec_steps = [], rec_dropped = 0\<rparr>"

definition add_step :: "Step \<Rightarrow> Recorder \<Rightarrow> Recorder" where
  "add_step s r =
     (if maxSteps \<le> length (rec_steps r) then r\<lparr>rec_dropped := rec_dropped r + 1\<rparr>
      else r\<lparr>rec_steps := rec_steps r @ [s\<lparr>Sequence := int (length (rec_steps r)) + 1\<rparr>]\<rparr>)"

definition Start :: "time \<Rightarrow> Recorder option \<Rightarrow> string \<Rightarrow> string \<Rightarrow> Span option" where
  "Start now r stage target =
     (case r of None \<Rightarrow> None
      | Some _ \<Rightarrow> Some \<lparr>sp_stage = stage, sp_target = target, sp_started = now\<rparr>)"

text \<open>A span keeps a reference to its recorder: ending it updates that recorder.\<close>

definition End ::
    "time \<Rightarrow> Span option \<Rightarrow> string \<Rightarrow> int \<Rightarrow> int \<Rightarrow> string \<Rightarrow> Recorder option \<Rightarrow> Recorder option" where
  "End now sp status candidates results detail r =
     (case (sp, r) of
        (Some s, Some rec) \<Rightarrow>
          Some (add_step \<lparr>Sequence = 0, Stage = sp_stage s, Target = sp_target s, Status = status,
            Detail = detail, Candidates = candidates, Results = results,
            DurationMS = milliseconds (time_sub now (sp_started s)),
            OffsetMS = milliseconds (time_sub (sp_started s) (rec_start rec))\<rparr> rec)
      | _ \<Rightarrow> r)"

definition Fail :: "time \<Rightarrow> Span option \<Rightarrow> go_error option \<Rightarrow> Recorder option \<Rightarrow> Recorder option" where
  "Fail now sp err r =
     (if sp = None then r
      else let status = (case err of None \<Rightarrow> StatusError
                         | Some e \<Rightarrow> (if errors_is e DeadlineExceeded then StatusTimeout else StatusError));
               detail = (case err of None \<Rightarrow> [] | Some e \<Rightarrow> error_message e)
           in End now sp status 0 0 detail r)"

definition Count ::
    "time \<Rightarrow> string \<Rightarrow> string \<Rightarrow> string \<Rightarrow> int \<Rightarrow> int \<Rightarrow> string \<Rightarrow> Recorder option \<Rightarrow> Recorder option" where
  "Count now stage target status candidates results detail r =
     (case r of None \<Rightarrow> None
      | Some rec \<Rightarrow> Some (add_step \<lparr>Sequence = 0, Stage = stage, Target = target, Status = status,
          Detail = detail, Candidates = candidates, Results = results, DurationMS = 0,
          OffsetMS = milliseconds (time_sub now (rec_start rec))\<rparr> rec))"

definition Note :: "time \<Rightarrow> string \<Rightarrow> string \<Rightarrow> string \<Rightarrow> string \<Rightarrow> Recorder option \<Rightarrow> Recorder option" where
  "Note now stage target status detail r =
     (case r of None \<Rightarrow> None
      | Some rec \<Rightarrow> Some (add_step \<lparr>Sequence = 0, Stage = stage, Target = target, Status = status,
          Detail = detail, Candidates = 0, Results = 0, DurationMS = 0,
          OffsetMS = milliseconds (time_sub now (rec_start rec))\<rparr> rec))"

section \<open>Reading\<close>

definition Steps :: "time \<Rightarrow> Recorder option \<Rightarrow> Step list" where
  "Steps now r =
     (case r of
        None \<Rightarrow> []
      | Some rec \<Rightarrow>
          (if 0 < rec_dropped rec then
             rec_steps rec @ [\<lparr>Sequence = int (length (rec_steps rec)) + 1, Stage = ''trace'', Target = [],
               Status = StatusSkipped, Detail = ''step limit reached; further stages were not recorded'',
               Candidates = 0, Results = rec_dropped rec, DurationMS = 0,
               OffsetMS = milliseconds (time_sub now (rec_start rec))\<rparr>]
           else rec_steps rec))"

function itoa_loop :: "int \<Rightarrow> string \<Rightarrow> string" where
  "itoa_loop value digits =
     (if 0 < value then itoa_loop (value div 10) (char_of (nat (48 + value mod 10)) # digits) else digits)"
  by pat_completeness auto
termination
  by (relation "measure (\<lambda>(value, digits). nat value)") auto

declare itoa_loop.simps [simp del]

definition trace_itoa :: "int \<Rightarrow> string" where
  "trace_itoa value = (if value = 0 then ''0'' else itoa_loop value [])"

definition step_label :: "Step \<Rightarrow> string" where
  "step_label s = (if Target s = [] then Stage s else Stage s @ '' '' @ Target s)"

definition Summary :: "Recorder option \<Rightarrow> string" where
  "Summary r =
     (case r of
        None \<Rightarrow> []
      | Some rec \<Rightarrow>
          (case List.find (\<lambda>s. Status s \<in> {StatusError, StatusTimeout}) (rec_steps rec) of
             Some s \<Rightarrow> step_label s @ '': '' @ Status s
           | None \<Rightarrow>
               (case List.find (\<lambda>s. 0 < Candidates s \<and> Results s = 0) (rec_steps rec) of
                  Some s \<Rightarrow> step_label s @ '': '' @ trace_itoa (Candidates s) @ '' candidates, none passed''
                | None \<Rightarrow>
                    (case List.find (\<lambda>s. Status s = StatusEmpty) (rec_steps rec) of
                       Some s \<Rightarrow> step_label s @ '': nothing to work with from here on''
                     | None \<Rightarrow> []))))"

section \<open>Lemmas\<close>

text \<open>The hand-written conversion is the usual decimal one.\<close>

lemma itoa_loop_nat: "0 < n \<Longrightarrow> itoa_loop (int n) digits = itoa_nat n @ digits"
proof (induction n arbitrary: digits rule: less_induct)
  case (less n)
  have "nat (48 + int n mod 10) = 48 + n mod 10" by (simp add: nat_add_distrib nat_mod_distrib)
  then have step: "itoa_loop (int n) digits = itoa_loop (int (n div 10)) (char_of (48 + n mod 10) # digits)"
    using less.prems by (subst itoa_loop.simps) (simp add: zdiv_int)
  show ?case
  proof (cases "n < 10")
    case True
    then have "n div 10 = 0" "n mod 10 = n" by simp_all
    then show ?thesis using True unfolding step
      by (simp add: itoa_nat.simps [of n] itoa_loop.simps [of 0])
  next
    case False
    then have "itoa_loop (int (n div 10)) (char_of (48 + n mod 10) # digits)
        = itoa_nat (n div 10) @ char_of (48 + n mod 10) # digits"
      using less.IH [of "n div 10"] by simp
    then show ?thesis using False unfolding step by (simp add: itoa_nat.simps [of n])
  qed
qed

lemma trace_itoa_decimal: "0 \<le> value \<Longrightarrow> trace_itoa value = itoa value"
  using itoa_loop_nat [of "nat value" "[]"]
  by (cases "value = 0") (simp_all add: trace_itoa_def itoa_def itoa_nat.simps [of 0])

text \<open>The recorder after any steps.\<close>

lemma add_steps:
  "rec_steps (fold add_step ss \<lparr>rec_start = t, rec_steps = [], rec_dropped = 0\<rparr>)
     = map (\<lambda>(n, s). s\<lparr>Sequence := int n + 1\<rparr>) (enumerate 0 (take maxSteps ss))
   \<and> rec_dropped (fold add_step ss \<lparr>rec_start = t, rec_steps = [], rec_dropped = 0\<rparr>)
     = int (length ss - maxSteps)
   \<and> rec_start (fold add_step ss \<lparr>rec_start = t, rec_steps = [], rec_dropped = 0\<rparr>) = t"
proof (induction ss rule: rev_induct)
  case (snoc s ss)
  then show ?case
    by (cases "maxSteps \<le> length ss") (simp_all add: add_step_def enumerate_append_eq min_def of_nat_diff)
qed simp

section \<open>A whole call\<close>

datatype trace_op =
    OpEnd time Span string int int string
  | OpFail time Span "go_error option"
  | OpNote time string string string string
  | OpCount time string string string int int string

fun apply_op :: "trace_op \<Rightarrow> Recorder option \<Rightarrow> Recorder option" where
  "apply_op (OpEnd now s status c n d) r = End now (Some s) status c n d r"
| "apply_op (OpFail now s e) r = Fail now (Some s) e r"
| "apply_op (OpNote now stage target status d) r = Note now stage target status d r"
| "apply_op (OpCount now stage target status c n d) r = Count now stage target status c n d r"

fun op_label :: "trace_op \<Rightarrow> string \<times> string" where
  "op_label (OpEnd now s status c n d) = (sp_stage s, sp_target s)"
| "op_label (OpFail now s e) = (sp_stage s, sp_target s)"
| "op_label (OpNote now stage target status d) = (stage, target)"
| "op_label (OpCount now stage target status c n d) = (stage, target)"

text \<open>The step an operation records in a recorder that was started at \<open>t\<close>.\<close>

definition op_step :: "time \<Rightarrow> trace_op \<Rightarrow> Step" where
  "op_step t op = last (rec_steps (the (apply_op op (New_recorder t))))"

lemma apply_op_step: "apply_op op (Some rec) = Some (add_step (op_step (rec_start rec) op) rec)"
  by (cases op) (simp_all add: End_def Fail_def Note_def Count_def op_step_def New_recorder_def add_step_def
      maxSteps_def Let_def)

lemma op_step_label: "(Stage (op_step t op), Target (op_step t op)) = op_label op"
  by (cases op) (simp_all add: End_def Fail_def Note_def Count_def op_step_def New_recorder_def add_step_def
      maxSteps_def Let_def)

lemma run_ops:
  "fold apply_op ops (New_recorder t) =
     Some (fold add_step (map (op_step t) ops) \<lparr>rec_start = t, rec_steps = [], rec_dropped = 0\<rparr>)"
proof (induction ops rule: rev_induct)
  case (snoc op ops)
  then show ?case using add_steps [of "map (op_step t) ops" t] by (simp add: apply_op_step)
qed (simp add: New_recorder_def)

text \<open>
  A trace is a numbered prefix of what happened, and it says what it leaves out. After any
  operations on a recorder, the steps are numbered from one; the first sixty operations appear
  in order under their stage and target; and if there were more, one marker follows whose
  count is the number of operations that were dropped.
\<close>

theorem trace_is_numbered_prefix:
  "let steps = Steps now (fold apply_op ops (New_recorder t)); kept = min (length ops) maxSteps
   in map Sequence steps = map (\<lambda>n. int n + 1) [0..<length steps]
    \<and> map (\<lambda>s. (Stage s, Target s)) (take kept steps) = map op_label (take maxSteps ops)
    \<and> (if length ops \<le> maxSteps then length steps = length ops
       else length steps = maxSteps + 1 \<and> Stage (last steps) = ''trace'' \<and> Status (last steps) = StatusSkipped
            \<and> Results (last steps) = int (length ops - maxSteps))"
proof -
  let ?rec = "fold add_step (map (op_step t) ops) \<lparr>rec_start = t, rec_steps = [], rec_dropped = 0\<rparr>"
  have steps: "rec_steps ?rec = map (\<lambda>(n, s). s\<lparr>Sequence := int n + 1\<rparr>) (enumerate 0 (take maxSteps (map (op_step t) ops)))"
    and dropped: "rec_dropped ?rec = int (length ops - maxSteps)"
    using add_steps [of "map (op_step t) ops" t] by simp_all
  have len: "length (rec_steps ?rec) = min (length ops) maxSteps" by (simp add: steps)
  have numbers: "map Sequence (rec_steps ?rec) = map (\<lambda>n. int n + 1) [0..<min (length ops) maxSteps]"
    by (simp add: steps comp_def case_prod_unfold enumerate_eq_zip)
      (simp add: list_eq_iff_nth_eq min.commute)
  have labels: "map (\<lambda>s. (Stage s, Target s)) (rec_steps ?rec) = map op_label (take maxSteps ops)"
    by (simp add: list_eq_iff_nth_eq steps nth_enumerate_eq op_step_label)
  show ?thesis
    using len numbers labels dropped unfolding run_ops
    by (auto simp: Steps_def Let_def min_def)
qed

end
