(* ===== verification/Scheduler.thy ===== *)
theory Scheduler
  imports Webhook
begin

text \<open>
  The scheduler: \<^verbatim>\<open>internal/scheduler/scheduler.go\<close>. One run recovers the jobs of expired
  leases, deletes what has expired, applies the retention policy, warns of expiring keys and
  queues a poll of every repository whose index is too old. A table that the scheduler only
  deletes from by a time column is the list of that column; the job queue and the webhook
  events are those of the theories JobQueue and Webhook.
\<close>

section \<open>Policies and tables\<close>

record RetentionPolicy =
  AuditLogDays :: int
  MCPCallDays :: int
  NotificationDays :: int
  WebhookEventDays :: int
  IndexJobDays :: int
  SecurityEventDays :: int
  SettingVersionDays :: int

record NotificationPolicy =
  NotifyEnabled :: bool
  APIKeyExpiryWarningDays :: int

record scheduler =
  interval :: duration
  retention :: "RetentionPolicy option"
  notifications :: "NotificationPolicy option"
  tick_every :: duration

record poll_repo =
  pr_id :: string
  pr_branch :: string
  pr_enabled :: bool
  pr_indexed :: "time option"

record api_key_row =
  ak_id :: string
  ak_user :: string
  ak_name :: string
  ak_prefix :: string
  ak_expires :: "time option"
  ak_revoked :: bool
  ak_disabled :: bool

record notification_row =
  nt_id :: string
  nt_user :: string
  nt_type :: string
  nt_resource :: string
  nt_title :: string
  nt_message :: string
  nt_created :: time

record setting_version =
  sv_category :: string
  sv_version :: int
  sv_created :: time

record tables =
  t_hooks :: hooks
  t_repos :: "poll_repo list"
  t_keys :: "api_key_row list"
  t_notifications :: "notification_row list"
  t_auth_flows :: "time list"
  t_user_sessions :: "time list"
  t_mcp_sessions :: "time list"
  t_recovery_tokens :: "time list"
  t_chunks_staging :: "time list"
  t_symbols_staging :: "time list"
  t_dependencies_staging :: "time list"
  t_ref_changes :: "time list"
  t_usage_buckets :: "time list"
  t_audit_logs :: "time list"
  t_mcp_calls :: "(string \<times> time) list"
  t_mcp_call_steps :: "string list"
  t_security_events :: "time list"
  t_setting_versions :: "setting_version list"
  t_settings :: "string \<Rightarrow> int option"

definition jobs_of :: "tables \<Rightarrow> index_job list" where
  "jobs_of t = index_jobs (h_queue (t_hooks t))"

definition with_jobs :: "tables \<Rightarrow> index_job list \<Rightarrow> tables" where
  "with_jobs t js = t\<lparr>t_hooks := (t_hooks t)\<lparr>h_queue := (h_queue (t_hooks t))\<lparr>index_jobs := js\<rparr>\<rparr>\<rparr>"

datatype sched_statement =
    ExpireLeases | DeleteExpired nat | Retain nat | ReadExpiring | InsertNotice nat
  | ReadStale | InsertPoll nat

type_synonym sched_faults = "sched_statement \<Rightarrow> bool"

definition New_scheduler :: "duration \<Rightarrow> scheduler" where
  "New_scheduler loader = \<lparr>interval = loader, retention = None, notifications = None, tick_every = minute\<rparr>"

definition SetRetentionLoader :: "RetentionPolicy \<Rightarrow> scheduler \<Rightarrow> scheduler" where
  "SetRetentionLoader loader s = s\<lparr>retention := Some loader\<rparr>"

definition SetNotificationLoader :: "NotificationPolicy \<Rightarrow> scheduler \<Rightarrow> scheduler" where
  "SetNotificationLoader loader s = s\<lparr>notifications := Some loader\<rparr>"

section \<open>Recovery and expiry\<close>

definition lease_expired_text :: "index_job \<Rightarrow> string" where
  "lease_expired_text j = ''worker lease expired on ''
     @ (if job_claimed j = [] then ''an unnamed instance'' else job_claimed j)"

definition expire_leases :: "sched_faults \<Rightarrow> time \<Rightarrow> tables \<Rightarrow> tables" where
  "expire_leases fault now t =
     (if fault ExpireLeases then t
      else with_jobs t (map (\<lambda>j. if job_status j = ''running''
              \<and> (case job_started j of None \<Rightarrow> False | Some s \<Rightarrow> s < now - JobLeaseDuration)
            then j\<lparr>job_status := ''pending'', job_next := now, job_error := lease_expired_text j\<rparr> else j)
          (jobs_of t)))"

definition keep_from :: "bool \<Rightarrow> time \<Rightarrow> time list \<Rightarrow> time list" where
  "keep_from failed limit ts = (if failed then ts else filter (\<lambda>t. \<not> t < limit) ts)"

definition delete_expired :: "sched_faults \<Rightarrow> time \<Rightarrow> tables \<Rightarrow> tables" where
  "delete_expired fault now t =
     t\<lparr>t_auth_flows := keep_from (fault (DeleteExpired 0)) now (t_auth_flows t),
       t_user_sessions := keep_from (fault (DeleteExpired 1)) now (t_user_sessions t),
       t_mcp_sessions := keep_from (fault (DeleteExpired 2)) now (t_mcp_sessions t),
       t_recovery_tokens := keep_from (fault (DeleteExpired 3)) now (t_recovery_tokens t),
       t_chunks_staging := keep_from (fault (DeleteExpired 4)) (now - 24 * hour) (t_chunks_staging t),
       t_symbols_staging := keep_from (fault (DeleteExpired 5)) (now - 24 * hour) (t_symbols_staging t),
       t_dependencies_staging := keep_from (fault (DeleteExpired 6)) (now - 24 * hour) (t_dependencies_staging t),
       t_ref_changes := keep_from (fault (DeleteExpired 7)) (now - 30 * 24 * hour) (t_ref_changes t),
       t_usage_buckets := keep_from (fault (DeleteExpired 8)) (now - 48 * hour) (t_usage_buckets t)\<rparr>"

section \<open>Retention\<close>

text \<open>The closure \<^verbatim>\<open>deleteBefore\<close>: \<open>rows\<close> are kept, unless they match and are older.\<close>

definition deleteBefore :: "bool \<Rightarrow> time \<Rightarrow> int \<Rightarrow> ('r \<Rightarrow> bool) \<Rightarrow> ('r \<Rightarrow> time) \<Rightarrow> 'r list \<Rightarrow> 'r list" where
  "deleteBefore failed now days matches at rows =
     (if days \<le> 0 \<or> failed then rows
      else filter (\<lambda>r. \<not> (matches r \<and> at r < now + wrap64 (- (days * 24 * hour)))) rows)"

definition applyRetention :: "sched_faults \<Rightarrow> time \<Rightarrow> RetentionPolicy \<Rightarrow> tables \<Rightarrow> tables" where
  "applyRetention fault now policy t0 =
     (let t1 = t0\<lparr>t_audit_logs := deleteBefore (fault (Retain 0)) now (AuditLogDays policy) (\<lambda>r. True) (\<lambda>r. r) (t_audit_logs t0),
           t_mcp_calls := deleteBefore (fault (Retain 1)) now (MCPCallDays policy) (\<lambda>r. True) snd (t_mcp_calls t0)\<rparr>;
          t2 = (if 0 < MCPCallDays policy \<and> \<not> fault (Retain 2)
                then t1\<lparr>t_mcp_call_steps := filter (\<lambda>c. c \<in> fst ` set (t_mcp_calls t1)) (t_mcp_call_steps t1)\<rparr> else t1);
          t3 = t2\<lparr>t_notifications := deleteBefore (fault (Retain 3)) now (NotificationDays policy) (\<lambda>r. True) nt_created (t_notifications t2),
           t_hooks := (t_hooks t2)\<lparr>h_events := deleteBefore (fault (Retain 4)) now (WebhookEventDays policy) (\<lambda>r. True) we_received (h_events (t_hooks t2))\<rparr>\<rparr>;
          t4 = with_jobs t3 (deleteBefore (fault (Retain 5)) now (IndexJobDays policy)
                 (\<lambda>j. job_status j \<in> {''completed'', ''failed''}) job_created (jobs_of t3))
      in t4\<lparr>t_security_events := deleteBefore (fault (Retain 6)) now (SecurityEventDays policy) (\<lambda>r. True) (\<lambda>r. r) (t_security_events t4),
            t_setting_versions := deleteBefore (fault (Retain 7)) now (SettingVersionDays policy)
              (\<lambda>v. t_settings t4 (sv_category v) \<noteq> Some (sv_version v)) sv_created (t_setting_versions t4)\<rparr>)"

section \<open>Notices of expiring keys\<close>

definition expiring_keys :: "time \<Rightarrow> int \<Rightarrow> api_key_row list \<Rightarrow> api_key_row list" where
  "expiring_keys now days keys =
     filter (\<lambda>k. \<not> ak_revoked k \<and> \<not> ak_disabled k
       \<and> (case ak_expires k of None \<Rightarrow> False
          | Some e \<Rightarrow> now < e \<and> e \<le> now + wrap64 (days * 24 * hour))) keys"

definition expiry_notice :: "(time \<Rightarrow> string) \<Rightarrow> time \<Rightarrow> api_key_row \<Rightarrow> notification_row" where
  "expiry_notice rfc3339 now k = \<lparr>nt_id = ''key-expiry:'' @ ak_id k, nt_user = ak_user k,
     nt_type = ''api_key_expiring'', nt_resource = ak_id k, nt_title = ''MCP API key expires soon'',
     nt_message = ak_name k @ '' ('' @ ak_prefix k @ '') key expires at '' @ rfc3339 (the (ak_expires k)),
     nt_created = now\<rparr>"

text \<open>ON CONFLICT(user\_id, notification\_type, resource\_id) DO NOTHING; a taken id is an error.\<close>

definition insert_notice :: "bool \<Rightarrow> notification_row \<Rightarrow> notification_row list \<Rightarrow> notification_row list" where
  "insert_notice failed n rows =
     (if failed \<or> list_ex (\<lambda>r. (nt_user r = nt_user n \<and> nt_type r = nt_type n \<and> nt_resource r = nt_resource n)
           \<or> nt_id r = nt_id n) rows then rows
      else rows @ [n])"

definition warn_expiring :: "(time \<Rightarrow> string) \<Rightarrow> sched_faults \<Rightarrow> time \<Rightarrow> NotificationPolicy \<Rightarrow> tables \<Rightarrow> tables" where
  "warn_expiring rfc3339 fault now policy t =
     (if NotifyEnabled policy \<and> 0 < APIKeyExpiryWarningDays policy \<and> \<not> fault ReadExpiring then
        t\<lparr>t_notifications := fold (\<lambda>(n, k). insert_notice (fault (InsertNotice n)) (expiry_notice rfc3339 now k))
            (enumerate 0 (expiring_keys now (APIKeyExpiryWarningDays policy) (t_keys t))) (t_notifications t)\<rparr>
      else t)"

section \<open>Polling\<close>

definition open_job :: "string \<Rightarrow> index_job \<Rightarrow> bool" where
  "open_job repo j \<longleftrightarrow> job_repo j = repo \<and> job_status j \<in> {''pending'', ''running''}"

definition stale_repos :: "time \<Rightarrow> tables \<Rightarrow> poll_repo list" where
  "stale_repos before t =
     filter (\<lambda>r. pr_enabled r
       \<and> (case pr_indexed r of None \<Rightarrow> True | Some i \<Rightarrow> i < before)
       \<and> \<not> list_ex (open_job (pr_id r)) (jobs_of t)) (t_repos t)"

definition poll_job :: "time \<Rightarrow> nat \<Rightarrow> poll_repo \<Rightarrow> index_job" where
  "poll_job now n r = webhook_job now (''poll:'' @ itoa now @ '':'' @ itoa_nat n) (pr_id r) (pr_branch r)"

text \<open>The loop over the targets stops at the first INSERT that fails; the earlier ones stay.\<close>

fun insert_polls :: "sched_faults \<Rightarrow> time \<Rightarrow> nat \<Rightarrow> poll_repo list \<Rightarrow> index_job list \<Rightarrow> bool \<times> index_job list" where
  "insert_polls fault now n [] js = (True, js)"
| "insert_polls fault now n (r # rs) js =
     (if fault (InsertPoll n) \<or> job_id (poll_job now n r) \<in> job_id ` set js then (False, js)
      else insert_polls fault now (Suc n) rs (js @ [poll_job now n r]))"

definition effective_interval :: "scheduler \<Rightarrow> duration" where
  "effective_interval s = (if interval s < minute then 30 * minute else interval s)"

text \<open>The result is whether the run ended without an error.\<close>

definition RunOnce_scheduler ::
    "(time \<Rightarrow> string) \<Rightarrow> sched_faults \<Rightarrow> time \<Rightarrow> scheduler \<Rightarrow> tables \<Rightarrow> bool \<times> tables" where
  "RunOnce_scheduler rfc3339 fault now s t0 =
     (let before = now - effective_interval s;
          t1 = delete_expired fault now (expire_leases fault now t0);
          t2 = (case retention s of None \<Rightarrow> t1 | Some policy \<Rightarrow> applyRetention fault now policy t1);
          policy = (case notifications s of None \<Rightarrow> \<lparr>NotifyEnabled = True, APIKeyExpiryWarningDays = 7\<rparr> | Some p \<Rightarrow> p);
          t3 = warn_expiring rfc3339 fault now policy t2
      in if fault ReadStale then (False, t3)
         else let (ok, js) = insert_polls fault now 0 (stale_repos before t3) (jobs_of t3)
              in (ok, with_jobs t3 js))"

section \<open>What a run does to the job queue\<close>

lemma jobs_of_with_jobs [simp]: "jobs_of (with_jobs t js) = js"
  by (simp add: jobs_of_def with_jobs_def)

lemma repos_with_jobs [simp]: "t_repos (with_jobs t js) = t_repos t"
  by (simp add: with_jobs_def)

lemma jobs_of_delete_expired [simp]: "jobs_of (delete_expired fault now t) = jobs_of t"
  "t_repos (delete_expired fault now t) = t_repos t"
  by (simp_all add: delete_expired_def jobs_of_def)

lemma jobs_of_warn_expiring [simp]: "jobs_of (warn_expiring rfc3339 fault now policy t) = jobs_of t"
  "t_repos (warn_expiring rfc3339 fault now policy t) = t_repos t"
  by (simp_all add: warn_expiring_def jobs_of_def)

definition expire_job :: "time \<Rightarrow> index_job \<Rightarrow> index_job" where
  "expire_job now j = (if lapsed now JobLeaseDuration j
     then j\<lparr>job_status := ''pending'', job_next := now, job_error := lease_expired_text j\<rparr> else j)"

lemma jobs_of_expire_leases:
  "jobs_of (expire_leases fault now t) = (if fault ExpireLeases then jobs_of t else map (expire_job now) (jobs_of t))"
  "t_repos (expire_leases fault now t) = t_repos t"
  by (simp_all add: expire_leases_def expire_job_def [abs_def] lapsed_def)

lemma jobs_of_applyRetention:
  "jobs_of (applyRetention fault now policy t) = deleteBefore (fault (Retain 5)) now (IndexJobDays policy)
     (\<lambda>j. job_status j \<in> {''completed'', ''failed''}) job_created (jobs_of t)"
  "t_repos (applyRetention fault now policy t) = t_repos t"
  by (simp_all add: applyRetention_def Let_def jobs_of_def with_jobs_def)

text \<open>The queue just before the polls: rows of lapsed leases are pending, old finished rows are gone.\<close>

definition before_polls :: "sched_faults \<Rightarrow> time \<Rightarrow> scheduler \<Rightarrow> index_job list \<Rightarrow> index_job list" where
  "before_polls fault now s js =
     (let js1 = (if fault ExpireLeases then js else map (expire_job now) js)
      in case retention s of None \<Rightarrow> js1
         | Some policy \<Rightarrow> deleteBefore (fault (Retain 5)) now (IndexJobDays policy)
             (\<lambda>j. job_status j \<in> {''completed'', ''failed''}) job_created js1)"

lemma RunOnce_scheduler_jobs:
  assumes "RunOnce_scheduler rfc3339 fault now s t = (ok, t')"
  shows "\<exists>t3. jobs_of t3 = before_polls fault now s (jobs_of t) \<and> t_repos t3 = t_repos t
    \<and> (if fault ReadStale then \<not> ok \<and> jobs_of t' = jobs_of t3
       else insert_polls fault now 0 (stale_repos (now - effective_interval s) t3) (jobs_of t3) = (ok, jobs_of t'))"
proof -
  define t1 where "t1 = delete_expired fault now (expire_leases fault now t)"
  define t2 where "t2 = (case retention s of None \<Rightarrow> t1 | Some policy \<Rightarrow> applyRetention fault now policy t1)"
  define t3 where "t3 = warn_expiring rfc3339 fault now
    (case notifications s of None \<Rightarrow> \<lparr>NotifyEnabled = True, APIKeyExpiryWarningDays = 7\<rparr> | Some p \<Rightarrow> p) t2"
  have "jobs_of t3 = before_polls fault now s (jobs_of t)" "t_repos t3 = t_repos t"
    by (simp_all add: t1_def t2_def t3_def before_polls_def jobs_of_applyRetention jobs_of_expire_leases Let_def
        split: option.split)
  moreover have "(if fault ReadStale then (False, t3)
      else let (ok, js) = insert_polls fault now 0 (stale_repos (now - effective_interval s) t3) (jobs_of t3)
           in (ok, with_jobs t3 js)) = (ok, t')"
    using assms unfolding RunOnce_scheduler_def Let_def t1_def t2_def t3_def .
  then have "if fault ReadStale then \<not> ok \<and> jobs_of t' = jobs_of t3
       else insert_polls fault now 0 (stale_repos (now - effective_interval s) t3) (jobs_of t3) = (ok, jobs_of t')"
    by (cases "insert_polls fault now 0 (stale_repos (now - effective_interval s) t3) (jobs_of t3)")
      (auto split: if_splits)
  ultimately show ?thesis by blast
qed

lemma poll_job_id: "job_id (poll_job now n r) = ''poll:'' @ itoa now @ '':'' @ itoa_nat n"
  by (simp add: poll_job_def webhook_job_def)

text \<open>The polls are appended in order, all of them unless an INSERT fails.\<close>

lemma insert_polls_append:
  assumes "insert_polls fault now n rs js = (ok, js')"
  shows "\<exists>k \<le> length rs. js' = js @ map (\<lambda>(i, r). poll_job now i r) (enumerate n (take k rs))
    \<and> (ok \<longleftrightarrow> k = length rs)
    \<and> (\<forall>i. n \<le> i \<longrightarrow> i < n + k \<longrightarrow> ''poll:'' @ itoa now @ '':'' @ itoa_nat i \<notin> job_id ` set js)"
  using assms
proof (induction fault now n rs js rule: insert_polls.induct)
  case (2 fault now n r rs js)
  show ?case
  proof (cases "fault (InsertPoll n) \<or> job_id (poll_job now n r) \<in> job_id ` set js")
    case True
    then show ?thesis using "2.prems" by (intro exI [of _ 0]) simp
  next
    case False
    then obtain k where k: "k \<le> length rs"
      "js' = (js @ [poll_job now n r]) @ map (\<lambda>(i, r). poll_job now i r) (enumerate (Suc n) (take k rs))"
      "ok \<longleftrightarrow> k = length rs"
      "\<forall>i. Suc n \<le> i \<longrightarrow> i < Suc n + k \<longrightarrow> ''poll:'' @ itoa now @ '':'' @ itoa_nat i \<notin> job_id ` set (js @ [poll_job now n r])"
      using "2.IH" "2.prems" by auto
    have "''poll:'' @ itoa now @ '':'' @ itoa_nat i \<notin> job_id ` set js" if "n \<le> i" "i < n + Suc k" for i
      using that k(4) False poll_job_id by (cases "i = n") auto
    then show ?thesis using k by (intro exI [of _ "Suc k"]) simp
  qed
qed simp

lemma insert_polls_all:
  assumes "\<forall>i. \<not> fault (InsertPoll i)" "\<forall>i \<ge> n. ''poll:'' @ itoa now @ '':'' @ itoa_nat i \<notin> job_id ` set js"
  shows "fst (insert_polls fault now n rs js)"
  using assms
proof (induction fault now n rs js rule: insert_polls.induct)
  case (2 fault now n r rs js)
  have "\<not> (fault (InsertPoll n) \<or> job_id (poll_job now n r) \<in> job_id ` set js)"
    using "2.prems" poll_job_id by simp
  moreover have "\<forall>i \<ge> Suc n. ''poll:'' @ itoa now @ '':'' @ itoa_nat i \<notin> job_id ` set (js @ [poll_job now n r])"
    using "2.prems"(2) by (auto simp: poll_job_id itoa_nat_inj)
  ultimately show ?case using "2.IH" "2.prems"(1) by simp
qed simp

section \<open>Open jobs\<close>

definition open_count :: "string \<Rightarrow> index_job list \<Rightarrow> nat" where
  "open_count repo js = length (filter (open_job repo) js)"

lemma open_count_none: "open_count repo js = 0 \<longleftrightarrow> \<not> list_ex (open_job repo) js"
  by (auto simp: open_count_def list_ex_iff filter_empty_conv)

lemma open_count_append [simp]: "open_count repo (js @ ks) = open_count repo js + open_count repo ks"
  by (simp add: open_count_def)

lemma open_count_map:
  "(\<And>j. open_job repo (g j) = open_job repo j) \<Longrightarrow> open_count repo (map g js) = open_count repo js"
  by (simp add: open_count_def filter_map comp_def)

lemma open_count_filter:
  "(\<And>j. open_job repo j \<Longrightarrow> P j) \<Longrightarrow> open_count repo (filter P js) = open_count repo js"
  unfolding open_count_def filter_filter by (rule arg_cong [where f = length], rule filter_cong) auto

lemma open_count_before_polls: "open_count repo (before_polls fault now s js) = open_count repo js"
proof -
  have expire: "open_job repo (expire_job now j) = open_job repo j" for j
    by (auto simp: expire_job_def open_job_def lapsed_def)
  have kept: "open_count repo (deleteBefore failed now days (\<lambda>j. job_status j = ''completed'' \<or> job_status j = ''failed'') at js')
      = open_count repo js'" for failed days at js'
    by (auto simp: deleteBefore_def open_job_def intro!: open_count_filter)
  show ?thesis
    by (simp add: before_polls_def Let_def kept open_count_map [of repo "expire_job now", OF expire] split: option.split)
qed

lemma open_count_polls:
  "open_count repo (map (\<lambda>(i, r). poll_job now i r) (enumerate n rs)) = length (filter (\<lambda>r. pr_id r = repo) rs)"
  by (induction rs arbitrary: n) (auto simp: open_count_def poll_job_def webhook_job_def open_job_def)

definition stale :: "time \<Rightarrow> poll_repo \<Rightarrow> bool" where
  "stale before r \<longleftrightarrow> pr_enabled r \<and> (case pr_indexed r of None \<Rightarrow> True | Some i \<Rightarrow> i < before)"

lemma stale_repos_filter:
  "stale_repos before t = filter (\<lambda>r. stale before r \<and> open_count (pr_id r) (jobs_of t) = 0) (t_repos t)"
  unfolding stale_repos_def open_count_none stale_def by (rule filter_cong) auto

lemma filter_key_one:
  "distinct (map pr_id rs) \<Longrightarrow> r \<in> set rs \<Longrightarrow>
   length (filter (\<lambda>x. pr_id x = pr_id r) (filter P rs)) = (if P r then 1 else 0)"
proof (induction rs)
  case (Cons x rs)
  have other: "filter (\<lambda>y. pr_id y = pr_id x) (filter P rs) = []"
    using Cons.prems(1) unfolding filter_filter filter_empty_conv by (auto simp: rev_image_eqI)
  show ?case
  proof (cases "r = x")
    case True
    then show ?thesis using other by simp
  next
    case False
    then have "pr_id x \<noteq> pr_id r" "r \<in> set rs" using Cons.prems by auto
    then show ?thesis using Cons.IH Cons.prems(1) by (cases "P r") simp_all
  qed
qed simp

section \<open>Properties\<close>

text \<open>
  A repository whose index is too old gets a job, and never two. In a run whose reads and
  inserts of the polls succeed, every enabled repository that was never indexed, or not within
  the interval, has exactly one pending or running job more than none afterwards; a repository
  that had open jobs, or needs none, keeps exactly the open jobs it had, whatever the recovery,
  the retention and the other deletions of the run did.
\<close>

theorem polls_stale_once:
  assumes "RunOnce_scheduler rfc3339 fault now s t = (ok, t')"
    and "\<not> fault ReadStale" "\<forall>i. \<not> fault (InsertPoll i)" "distinct (map pr_id (t_repos t))"
    and "\<forall>i. ''poll:'' @ itoa now @ '':'' @ itoa_nat i \<notin> job_id ` set (jobs_of t)"
  shows "ok \<and> (\<forall>r \<in> set (t_repos t). open_count (pr_id r) (jobs_of t') =
    (if stale (now - effective_interval s) r \<and> open_count (pr_id r) (jobs_of t) = 0 then 1
     else open_count (pr_id r) (jobs_of t)))"
proof -
  let ?before = "now - effective_interval s"
  obtain t3 where t3: "jobs_of t3 = before_polls fault now s (jobs_of t)" "t_repos t3 = t_repos t"
    "insert_polls fault now 0 (stale_repos ?before t3) (jobs_of t3) = (ok, jobs_of t')"
    using RunOnce_scheduler_jobs [OF assms(1)] assms(2) by auto
  have "job_id ` set (before_polls fault now s (jobs_of t)) \<subseteq> job_id ` set (jobs_of t)"
  proof -
    have "job_id (expire_job now j) = job_id j" for j by (simp add: expire_job_def)
    then have "job_id ` set (map (expire_job now) js) = job_id ` set js" for js by (simp add: image_image)
    then show ?thesis
      by (auto simp: before_polls_def deleteBefore_def Let_def simp del: set_map split: option.splits)
  qed
  note sub = this [folded t3(1)]
  have free: "\<forall>i \<ge> 0. ''poll:'' @ itoa now @ '':'' @ itoa_nat i \<notin> job_id ` set (jobs_of t3)"
    by (intro allI impI) (rule contra_subsetD [OF sub spec [OF assms(5)]])
  from insert_polls_all [OF assms(3) free, of "stale_repos ?before t3"] have ok: ok using t3(3) by simp
  with insert_polls_append [OF t3(3)] have
    jobs: "jobs_of t' = jobs_of t3 @ map (\<lambda>(i, r). poll_job now i r) (enumerate 0 (stale_repos ?before t3))"
    by auto
  have "open_count (pr_id r) (jobs_of t') =
    (if stale ?before r \<and> open_count (pr_id r) (jobs_of t) = 0 then 1 else open_count (pr_id r) (jobs_of t))"
    if r: "r \<in> set (t_repos t)" for r
  proof -
    have "open_count (pr_id r) (jobs_of t') = open_count (pr_id r) (jobs_of t)
        + length (filter (\<lambda>x. pr_id x = pr_id r) (stale_repos ?before t3))"
      unfolding jobs by (simp add: open_count_polls t3(1) open_count_before_polls)
    also have "length (filter (\<lambda>x. pr_id x = pr_id r) (stale_repos ?before t3))
        = (if stale ?before r \<and> open_count (pr_id r) (jobs_of t) = 0 then 1 else 0)"
      unfolding stale_repos_filter t3(1,2) open_count_before_polls
      using filter_key_one [OF assms(4) r, of "\<lambda>r. stale ?before r \<and> open_count (pr_id r) (jobs_of t) = 0"] by simp
    finally show ?thesis by simp
  qed
  then show ?thesis using ok by simp
qed

text \<open>
  The scheduler and the worker recover the same jobs. Apart from the message they leave,
  the scheduler's recovery and the recovery a worker runs with its default lease put exactly
  the same rows back, with the same next run time and the attempts untouched.
\<close>

theorem expiry_agrees_with_worker:
  "map (\<lambda>j. j\<lparr>job_error := []\<rparr>) (jobs_of (expire_leases (\<lambda>s. False) now t))
   = map (\<lambda>j. j\<lparr>job_error := []\<rparr>)
       (index_jobs (snd (RecoverStaleJobs (\<lambda>s. None) (new_worker who) now (h_queue (t_hooks t)))))"
proof -
  have lease: "effective_lease (new_worker who) = JobLeaseDuration"
    by (simp add: effective_lease_def new_worker_def JobLeaseDuration_def jobTimeout_def)
  show ?thesis
    by (simp add: expire_leases_def RecoverStaleJobs_def update_jobs_def lease jobs_of_def with_jobs_def Let_def)
qed

section \<open>Witness\<close>

definition demo_tables :: tables where
  "demo_tables = \<lparr>t_hooks = demo_hooks, t_repos = [\<lparr>pr_id = ''r1'', pr_branch = ''main'', pr_enabled = True, pr_indexed = None\<rparr>],
     t_keys = [], t_notifications = [], t_auth_flows = [], t_user_sessions = [], t_mcp_sessions = [],
     t_recovery_tokens = [], t_chunks_staging = [], t_symbols_staging = [], t_dependencies_staging = [],
     t_ref_changes = [], t_usage_buckets = [], t_audit_logs = [], t_mcp_calls = [], t_mcp_call_steps = [],
     t_security_events = [], t_setting_versions = [], t_settings = (\<lambda>c. None)\<rparr>"

lemma polls_stale_once_witness:
  "let (ok, t') = RunOnce_scheduler (\<lambda>t. []) (\<lambda>s. False) 0 (New_scheduler hour) demo_tables
   in ok \<and> open_count ''r1'' (jobs_of t') = 1"
proof -
  obtain ok t' where run: "RunOnce_scheduler (\<lambda>t. []) (\<lambda>s. False) 0 (New_scheduler hour) demo_tables = (ok, t')"
    by force
  have "jobs_of demo_tables = []" by (simp add: demo_tables_def jobs_of_def demo_hooks_def)
  with polls_stale_once [OF run] show ?thesis
    unfolding run by (simp add: demo_tables_def stale_def open_count_def)
qed

end
