(* ===== verification/Platform.thy ===== *)
theory Platform
  imports Scheduler
begin

text \<open>
  The job queue shared by everything that runs: any number of workers, the scheduler and the
  webhook receiver, in any interleaving. The abstract specification of a job is its life cycle;
  the lemmas show that every step of the platform refines it and that the lease stays exclusive
  although rows are inserted, recovered and deleted by other components.
\<close>

section \<open>Steps of the platform\<close>

record platform =
  pf_tables :: tables
  pf_held :: "claimed list"
  pf_now :: time

definition sys_of :: "platform \<Rightarrow> system" where
  "sys_of p = \<lparr>sys_queue = h_queue (t_hooks (pf_tables p)), sys_held = pf_held p, sys_now = pf_now p\<rparr>"

definition with_sys :: "platform \<Rightarrow> system \<Rightarrow> platform" where
  "with_sys p s = p\<lparr>pf_tables := (pf_tables p)\<lparr>t_hooks := (t_hooks (pf_tables p))\<lparr>h_queue := sys_queue s\<rparr>\<rparr>,
     pf_held := sys_held s, pf_now := sys_now s\<rparr>"

inductive platform_step :: "worker \<Rightarrow> platform \<Rightarrow> platform \<Rightarrow> bool" for w where
  works: "system_step w (sys_of p) s \<Longrightarrow> platform_step w p (with_sys p s)"
| schedules: "RunOnce_scheduler rfc3339 fault (pf_now p) sched (pf_tables p) = (ok, t) \<Longrightarrow>
     platform_step w p (p\<lparr>pf_tables := t\<rparr>)"
| receives: "receiveWebhook env hfault (pf_now p) load r (t_hooks (pf_tables p)) = (answer, h) \<Longrightarrow>
     platform_step w p (p\<lparr>pf_tables := (pf_tables p)\<lparr>t_hooks := h\<rparr>\<rparr>)"

inductive platform_reachable :: "worker \<Rightarrow> platform \<Rightarrow> platform \<Rightarrow> bool" for w p0 where
  start: "pf_held p0 = [] \<Longrightarrow> job_ids_unique (h_queue (t_hooks (pf_tables p0))) \<Longrightarrow>
     running_started (pf_now p0) (h_queue (t_hooks (pf_tables p0))) \<Longrightarrow> platform_reachable w p0 p0"
| step: "platform_reachable w p0 p \<Longrightarrow> platform_step w p p' \<Longrightarrow> platform_reachable w p0 p'"

abbreviation rows :: "platform \<Rightarrow> index_job list" where
  "rows p \<equiv> jobs_of (pf_tables p)"

lemma sys_of_simps [simp]:
  "index_jobs (sys_queue (sys_of p)) = rows p" "sys_held (sys_of p) = pf_held p" "sys_now (sys_of p) = pf_now p"
  "sys_of (with_sys p s) = s" "jobs_of (pf_tables (with_sys p s)) = index_jobs (sys_queue s)"
  "pf_held (with_sys p s) = sys_held s" "pf_now (with_sys p s) = sys_now s"
  by (simp_all add: sys_of_def with_sys_def jobs_of_def)

section \<open>What each component does to a row\<close>

text \<open>A worker changes the status of a row only by claiming it, giving it back or finishing it.\<close>

definition row_step :: "string \<Rightarrow> string \<Rightarrow> bool" where
  "row_step old new \<longleftrightarrow> new = old \<or> (old = ''pending'' \<and> new = ''running'')
     \<or> (old = ''running'' \<and> new \<noteq> ''running'')"

definition rows_step :: "queue \<Rightarrow> queue \<Rightarrow> bool" where
  "rows_step q q' \<longleftrightarrow> (\<exists>g. index_jobs q' = map g (index_jobs q)
     \<and> (\<forall>j \<in> set (index_jobs q). job_id (g j) = job_id j \<and> row_step (job_status j) (job_status (g j))))"

lemma rows_step_same: "index_jobs q' = index_jobs q \<Longrightarrow> rows_step q q'"
  unfolding rows_step_def by (intro exI [of _ "\<lambda>j. j"]) (simp add: row_step_def)

lemma rows_step_release:
  assumes "release c f q q'" "keeps_identity f" "\<forall>j. job_status (f j) \<noteq> ''running''"
  shows "rows_step q q'"
  unfolding rows_step_def
  using assms by (intro exI [of _ "\<lambda>j. if owned c j then f j else j"])
    (simp add: release_def keeps_identity_def row_step_def owned_def)

lemma rows_step_claim:
  assumes "job_ids_unique q" "claim fault w now q = (Inr (Some c), q')"
  shows "rows_step q q'"
proof -
  obtain j where j: "j \<in> set (index_jobs q)" "due now j" and
    q': "q' = snd (update_jobs (\<lambda>k. job_id k = job_id j)
       (\<lambda>k. k\<lparr>job_status := ''running'', job_attempts := job_attempts k + 1,
              job_started := Some now, job_claimed := w_identity w\<rparr>) q)"
    using claim_cases [OF assms(2)] by blast
  have "job_status k = ''pending''" if "k \<in> set (index_jobs q)" "job_id k = job_id j" for k
    using unique_ids_eq [OF assms(1) that(1) j(1) that(2)] j(2) by (simp add: due_def)
  then show ?thesis
    unfolding rows_step_def q' update_jobs_def
    by (intro exI [of _ "\<lambda>k. if job_id k = job_id j then k\<lparr>job_status := ''running'', job_attempts := job_attempts k + 1,
              job_started := Some now, job_claimed := w_identity w\<rparr> else k"]) (simp add: row_step_def)
qed

lemma rows_step_recover:
  assumes "RecoverStaleJobs fault w now q = (r, q')"
  shows "rows_step q q'"
proof (cases "fault RecoverJobs")
  case (Some e)
  then show ?thesis using assms by (intro rows_step_same) (auto simp: RecoverStaleJobs_def Let_def)
next
  case None
  let ?f = "\<lambda>j. j\<lparr>job_status := ''pending'', job_next := now, job_error :=
    ''Requeued automatically: the previous run stopped without finishing (service restart or stalled source call).''\<rparr>"
  have "index_jobs q' = map (\<lambda>j. if lapsed now (effective_lease w) j then ?f j else j) (index_jobs q)"
    using assms None by (auto simp: RecoverStaleJobs_def update_jobs_def Let_def lapsed_def)
  then show ?thesis
    unfolding rows_step_def
    by (intro exI [of _ "\<lambda>j. if lapsed now (effective_lease w) j then ?f j else j"]) (simp add: row_step_def lapsed_def)
qed

lemma rows_step_warn:
  assumes "recordEmbeddingWarning fault c ref warning q = (r, q')"
  shows "rows_step q q'"
proof -
  obtain f where f: "release c f q q'" "\<And>j. f j = j\<lparr>job_error := job_error (f j)\<rparr>"
    using warn_rows [OF assms] by blast
  have "job_id (f j) = job_id j" "job_status (f j) = job_status j" for j by (subst f(2), simp)+
  then show ?thesis
    unfolding rows_step_def using f(1)
    by (intro exI [of _ "\<lambda>j. if owned c j then f j else j"]) (simp add: release_def row_step_def)
qed

lemma worker_rows:
  assumes "system_step w s s'" "job_ids_unique (sys_queue s)"
  shows "rows_step (sys_queue s) (sys_queue s')"
  using assms
proof (induction rule: system_step.induct)
  case (claims fault who s c q)
  then show ?case using rows_step_claim by simp
next
  case (recovers fault s r q)
  then show ?case using rows_step_recover by simp
next
  case (pauses c s fault reason r q)
  from pauses(2) show ?case
    by (rule pause_release) (auto intro: rows_step_same rows_step_release)
next
  case (warns c s fault ref warning r q)
  then show ?case using rows_step_warn by simp
next
  case (finishes c s env fault err r q)
  from finishes(2) show ?case
    by (rule outcome_release) (auto intro: rows_step_same rows_step_release)
qed (simp_all add: rows_step_same)

lemma rows_step_ids: "rows_step q q' \<Longrightarrow> map job_id (index_jobs q') = map job_id (index_jobs q)"
  by (auto simp: rows_step_def)

lemma worker_claims:
  assumes "system_step w s s'"
  shows "sys_now s \<le> sys_now s' \<and> (\<forall>c \<in> set (sys_held s'). c \<in> set (sys_held s)
    \<or> c_ID c \<in> job_id ` set (index_jobs (sys_queue s)))"
  using assms
proof (induction rule: system_step.induct)
  case (claims fault who s c q)
  from claim_cases [OF claims] obtain j where "j \<in> set (index_jobs (sys_queue s))" "c = claimed_of (sys_now s) j"
    by blast
  then show ?case by (auto simp: claimed_of_def)
qed (auto dest: notin_set_remove1)

text \<open>
  The scheduler and the receiver put lapsed rows back, delete finished rows and append pending
  rows under new ids.
\<close>

definition rows_edit :: "time \<Rightarrow> index_job list \<Rightarrow> index_job list \<Rightarrow> bool" where
  "rows_edit now js js' \<longleftrightarrow> (\<exists>g P new. js' = filter P (map g js) @ new
     \<and> (\<forall>j. job_id (g j) = job_id j \<and> (g j = j \<or> (lapsed now JobLeaseDuration j \<and> job_status (g j) = ''pending'')))
     \<and> (\<forall>j. \<not> P j \<longrightarrow> job_status j \<in> {''completed'', ''failed''})
     \<and> (\<forall>j \<in> set new. job_status j = ''pending'')
     \<and> distinct (map job_id new) \<and> job_id ` set new \<inter> job_id ` set (filter P (map g js)) = {})"

lemma rows_edit_append:
  assumes "js' = js @ new" "\<forall>j \<in> set new. job_status j = ''pending''"
    "distinct (map job_id new)" "job_id ` set new \<inter> job_id ` set js = {}"
  shows "rows_edit now js js'"
  unfolding rows_edit_def
  using assms by (intro exI [of _ "\<lambda>j. j"] exI [of _ "\<lambda>j. True"] exI [of _ new]) simp

lemma receiveWebhook_enqueues:
  assumes "receiveWebhook env fault now load r st = (answer, st')"
  shows "st' = st \<or> (\<exists>src ev ty payload. st' = snd (Enqueue env fault now src ev ty payload st))"
  using assms unfolding receiveWebhook_def Let_def
  by (auto split: setting_load.splits if_splits option.splits prod.splits sum.splits hook_error.splits)
    (metis snd_conv)+

lemma receive_edit:
  assumes "receiveWebhook env fault now load r st = (answer, st')"
  shows "rows_edit now (index_jobs (h_queue st)) (index_jobs (h_queue st'))"
proof -
  have same: "rows_edit now js js" for js by (rule rows_edit_append [of _ _ "[]"]) simp_all
  show ?thesis
  proof (cases "st' = st")
    case True
    then show ?thesis using same by simp
  next
    case False
    then obtain src ev ty payload res where e: "Enqueue env fault now src ev ty payload st = (res, st')"
      using receiveWebhook_enqueues [OF assms] by (metis prod.collapse)
    from e show ?thesis
    proof (cases rule: Enqueue_cases)
      case none
      then show ?thesis using same by simp
    next
      case (tx ext refs repo res')
      from tx(5) show ?thesis
      proof (cases rule: enqueue_tx_cases)
        case dup
        then show ?thesis using same by simp
      next
        case (fresh new)
        then show ?thesis by (intro rows_edit_append [of _ _ new]) simp_all
      qed
    qed
  qed
qed

lemma before_polls_edit:
  obtains g P where "before_polls fault now s js = filter P (map g js)"
    "\<forall>j. job_id (g j) = job_id j \<and> (g j = j \<or> (lapsed now JobLeaseDuration j \<and> job_status (g j) = ''pending''))"
    "\<forall>j. \<not> P j \<longrightarrow> job_status j \<in> {''completed'', ''failed''}"
proof -
  define g where "g = (if fault ExpireLeases then (\<lambda>j. j) else expire_job now)"
  define P :: "index_job \<Rightarrow> bool" where "P = (case retention s of None \<Rightarrow> (\<lambda>j. True) | Some policy \<Rightarrow>
    (if IndexJobDays policy \<le> 0 \<or> fault (Retain 5) then (\<lambda>j. True)
     else (\<lambda>j. \<not> (job_status j \<in> {''completed'', ''failed''} \<and> job_created j < now + wrap64 (- (IndexJobDays policy * 24 * hour))))))"
  have "before_polls fault now s js = filter P (map g js)"
    by (simp add: before_polls_def deleteBefore_def g_def P_def split: option.split)
  moreover have "\<forall>j. job_id (g j) = job_id j \<and> (g j = j \<or> (lapsed now JobLeaseDuration j \<and> job_status (g j) = ''pending''))"
    by (simp add: g_def expire_job_def)
  moreover have "\<forall>j. \<not> P j \<longrightarrow> job_status j \<in> {''completed'', ''failed''}"
    by (auto simp: P_def split: option.splits if_splits)
  ultimately show ?thesis using that by blast
qed

lemma schedule_edit:
  assumes "RunOnce_scheduler rfc3339 fault now s t = (ok, t')"
  shows "rows_edit now (jobs_of t) (jobs_of t')"
proof -
  obtain t3 where t3: "jobs_of t3 = before_polls fault now s (jobs_of t)"
    "if fault ReadStale then \<not> ok \<and> jobs_of t' = jobs_of t3
     else insert_polls fault now 0 (stale_repos (now - effective_interval s) t3) (jobs_of t3) = (ok, jobs_of t')"
    using RunOnce_scheduler_jobs [OF assms] by blast
  obtain g P where edit: "before_polls fault now s (jobs_of t) = filter P (map g (jobs_of t))"
    "\<forall>j. job_id (g j) = job_id j \<and> (g j = j \<or> (lapsed now JobLeaseDuration j \<and> job_status (g j) = ''pending''))"
    "\<forall>j. \<not> P j \<longrightarrow> job_status j \<in> {''completed'', ''failed''}"
    by (rule before_polls_edit)
  have "\<exists>new. jobs_of t' = jobs_of t3 @ new \<and> (\<forall>j \<in> set new. job_status j = ''pending'')
      \<and> distinct (map job_id new) \<and> job_id ` set new \<inter> job_id ` set (jobs_of t3) = {}"
  proof (cases "fault ReadStale")
    case True
    then show ?thesis using t3(2) by (intro exI [of _ "[]"]) simp
  next
    case False
    let ?rs = "stale_repos (now - effective_interval s) t3"
    obtain k where k: "jobs_of t' = jobs_of t3 @ map (\<lambda>(i, r). poll_job now i r) (enumerate 0 (take k ?rs))"
      "\<forall>i < k. ''poll:'' @ itoa now @ '':'' @ itoa_nat i \<notin> job_id ` set (jobs_of t3)" "k \<le> length ?rs"
      using insert_polls_append [of fault now 0 ?rs "jobs_of t3" ok "jobs_of t'"] t3(2) False by auto
    let ?new = "map (\<lambda>(i, r). poll_job now i r) (enumerate 0 (take k ?rs))"
    have ids: "map job_id ?new = map (\<lambda>i. ''poll:'' @ itoa now @ '':'' @ itoa_nat i) [0..<k]"
      using k(3) by (simp add: list_eq_iff_nth_eq nth_enumerate_eq poll_job_id)
    have "distinct (map job_id ?new)" unfolding ids by (simp add: distinct_map inj_on_def itoa_nat_inj)
    moreover have "job_id ` set ?new \<inter> job_id ` set (jobs_of t3) = {}"
    proof -
      have "job_id ` set ?new = set (map job_id ?new)" by (simp only: set_map)
      then show ?thesis unfolding ids using k(2) by auto
    qed
    moreover have "\<forall>j \<in> set ?new. job_status j = ''pending''"
      by (auto simp: poll_job_def webhook_job_def)
    ultimately show ?thesis using k(1) by (intro exI [of _ ?new]) simp
  qed
  then obtain new where "jobs_of t' = filter P (map g (jobs_of t)) @ new" "\<forall>j \<in> set new. job_status j = ''pending''"
    "distinct (map job_id new)" "job_id ` set new \<inter> job_id ` set (filter P (map g (jobs_of t))) = {}"
    using t3(1) edit(1) by auto
  then show ?thesis
    unfolding rows_edit_def using edit(2,3) by (intro exI [of _ g] exI [of _ P] exI [of _ new]) simp
qed

section \<open>The lease, whoever else writes\<close>

text \<open>A claim whose row is gone was made before now, so no later claim can be mistaken for it.\<close>

definition platform_ok :: "platform \<Rightarrow> bool" where
  "platform_ok p \<longleftrightarrow> system_ok (sys_of p)
     \<and> (\<forall>c \<in> set (pf_held p). c_ID c \<notin> job_id ` set (rows p) \<longrightarrow> c_StartedAt c < pf_now p)"

lemma append_keeps_ok:
  assumes ok: "system_ok s" and jobs: "index_jobs q' = index_jobs (sys_queue s) @ new"
    and new: "\<forall>j \<in> set new. job_status j = ''pending''" "distinct (map job_id new)"
      "job_id ` set new \<inter> job_id ` set (index_jobs (sys_queue s)) = {}"
    and gone: "\<forall>c \<in> set (sys_held s). c_ID c \<notin> job_id ` set (index_jobs (sys_queue s)) \<longrightarrow> c_StartedAt c < sys_now s"
  shows "system_ok (s\<lparr>sys_queue := q'\<rparr>)"
proof -
  have "claim_ok (sys_now s) q' c" if c: "c \<in> set (sys_held s)" for c
  proof -
    have old: "claim_ok (sys_now s) (sys_queue s) c" using ok c by (simp add: system_ok_def)
    have "job_status j \<noteq> ''running'' \<and> c_StartedAt c < sys_now s" if "j \<in> set new" "job_id j = c_ID c" for j
    proof -
      have "c_ID c \<in> job_id ` set new" using that by (metis imageI)
      then have "c_ID c \<notin> job_id ` set (index_jobs (sys_queue s))" using new(3) by auto
      then show ?thesis using gone c new(1) that(1) by simp
    qed
    then show ?thesis using old by (auto simp: claim_ok_def jobs)
  qed
  moreover have "running_started (sys_now s) q'"
    using ok new(1) by (auto simp: system_ok_def running_started_def jobs)
  moreover have "job_ids_unique q'"
    using ok new(2,3) by (auto simp: system_ok_def job_ids_unique_def jobs)
  ultimately show ?thesis using ok by (simp add: system_ok_def)
qed

lemma delete_keeps_ok:
  assumes "system_ok s" "index_jobs q' = filter P (index_jobs (sys_queue s))"
  shows "system_ok (s\<lparr>sys_queue := q'\<rparr>)"
  using assms by (auto simp: system_ok_def job_ids_unique_def running_started_def claim_ok_def distinct_map_filter)

lemma deleted_rows_old:
  assumes "system_ok s" "c \<in> set (sys_held s)" "j \<in> set (index_jobs (sys_queue s))" "job_id j = c_ID c"
    "job_status j \<noteq> ''running''"
  shows "c_StartedAt c < sys_now s"
  using assms by (auto simp: system_ok_def claim_ok_def)

lemma edit_keeps_ok:
  assumes ok: "platform_ok p" and edit: "rows_edit (pf_now p) (rows p) (jobs_of t)"
  shows "platform_ok (p\<lparr>pf_tables := t\<rparr>)"
proof -
  let ?s = "sys_of p" and ?q = "h_queue (t_hooks (pf_tables p))"
  obtain g P new where e: "jobs_of t = filter P (map g (rows p)) @ new"
    "\<forall>j. job_id (g j) = job_id j \<and> (g j = j \<or> (lapsed (pf_now p) JobLeaseDuration j \<and> job_status (g j) = ''pending''))"
    "\<forall>j. \<not> P j \<longrightarrow> job_status j \<in> {''completed'', ''failed''}"
    "\<forall>j \<in> set new. job_status j = ''pending''" "distinct (map job_id new)"
    "job_id ` set new \<inter> job_id ` set (filter P (map g (rows p))) = {}"
    using edit unfolding rows_edit_def by (elim exE conjE) blast
  define s1 where "s1 = ?s\<lparr>sys_queue := ?q\<lparr>index_jobs := map g (rows p)\<rparr>\<rparr>"
  define s2 where "s2 = s1\<lparr>sys_queue := ?q\<lparr>index_jobs := filter P (map g (rows p))\<rparr>\<rparr>"
  have lease: "0 < JobLeaseDuration" by (simp add: JobLeaseDuration_def jobTimeout_def)
  have ok1: "system_ok s1"
    unfolding s1_def
  proof (rule requeue_keeps_ok [where g = g and P = "\<lambda>j. g j \<noteq> j"])
    show "system_ok ?s" using ok by (simp add: platform_ok_def)
    show "index_jobs (?q\<lparr>index_jobs := map g (rows p)\<rparr>) = map g (index_jobs (sys_queue ?s))" by simp
    show "job_id (g j) = job_id j" for j using e(2) by simp
    show "g j = j" if "\<not> g j \<noteq> j" for j using that by simp
    show "job_status (g j) = ''pending''" if "g j \<noteq> j" for j using e(2) that by blast
    show "job_status j = ''running'' \<and> (\<exists>t. job_started j = Some t \<and> t < sys_now ?s)" if "g j \<noteq> j" for j
      using e(2) that lapsed_started [OF lease, of "pf_now p" j] by auto
  qed
  have held: "sys_held s1 = pf_held p" "sys_now s1 = pf_now p" "index_jobs (sys_queue s1) = map g (rows p)"
    by (simp_all add: s1_def)
  have gone: "c_StartedAt c < pf_now p"
    if c: "c \<in> set (pf_held p)" "c_ID c \<notin> job_id ` set (filter P (map g (rows p)))" for c
  proof (cases "c_ID c \<in> job_id ` set (map g (rows p))")
    case True
    then obtain j where j: "j \<in> set (map g (rows p))" "job_id j = c_ID c" by (metis imageE)
    have "\<not> P j" using c(2) j by (auto simp: image_iff)
    then have "job_status j \<noteq> ''running''" using e(3) by auto
    then show ?thesis using deleted_rows_old [OF ok1, of c j] j c(1) held by simp
  next
    case False
    then have "c_ID c \<notin> job_id ` set (rows p)" using e(2) by (auto simp: image_image)
    then show ?thesis using ok c(1) by (simp add: platform_ok_def)
  qed
  have ok2: "system_ok s2"
    unfolding s2_def by (rule delete_keeps_ok [OF ok1, where P = P]) (simp add: held)
  have s2: "sys_held s2 = pf_held p" "sys_now s2 = pf_now p" "index_jobs (sys_queue s2) = filter P (map g (rows p))"
    by (simp_all add: s2_def held)
  have "system_ok (s2\<lparr>sys_queue := h_queue (t_hooks t)\<rparr>)"
    by (rule append_keeps_ok [OF ok2, where new = new]) (use e gone in \<open>simp_all add: s2 jobs_of_def [symmetric]\<close>)
  moreover have "s2\<lparr>sys_queue := h_queue (t_hooks t)\<rparr> = sys_of (p\<lparr>pf_tables := t\<rparr>)"
    by (simp add: s2_def s1_def sys_of_def)
  moreover have "c_StartedAt c < pf_now p" if "c \<in> set (pf_held p)" "c_ID c \<notin> job_id ` set (jobs_of t)" for c
    using gone [OF that(1)] that(2) e(1) by auto
  ultimately show ?thesis by (simp add: platform_ok_def)
qed

lemma work_keeps_ok:
  assumes ok: "platform_ok p" and step: "system_step w (sys_of p) s"
  shows "platform_ok (with_sys p s)"
proof -
  have unique: "job_ids_unique (sys_queue (sys_of p))" using ok by (simp add: platform_ok_def system_ok_def)
  have ids: "job_id ` set (index_jobs (sys_queue s)) = job_id ` set (rows p)"
    using rows_step_ids [OF worker_rows [OF step unique]] by (metis set_map sys_of_simps(1))
  have "c_StartedAt c < sys_now s" if "c \<in> set (sys_held s)" "c_ID c \<notin> job_id ` set (rows p)" for c
    using worker_claims [OF step] that ok by (force simp: platform_ok_def)
  then show ?thesis using step_keeps_ok [OF step] ok ids by (simp add: platform_ok_def)
qed

lemma platform_keeps_ok: "platform_step w p p' \<Longrightarrow> platform_ok p \<Longrightarrow> platform_ok p'"
proof (induction rule: platform_step.induct)
  case (works p s)
  then show ?case using work_keeps_ok by blast
next
  case (schedules rfc3339 fault p sched ok t)
  then show ?case using edit_keeps_ok schedule_edit by blast
next
  case (receives env hfault p load r answer h)
  have "rows_edit (pf_now p) (rows p) (jobs_of ((pf_tables p)\<lparr>t_hooks := h\<rparr>))"
    using receive_edit [OF receives(1)] by (simp add: jobs_of_def)
  then show ?case using edit_keeps_ok receives(2) by blast
qed

lemma platform_reachable_ok: "platform_reachable w p0 p \<Longrightarrow> platform_ok p"
proof (induction rule: platform_reachable.induct)
  case start
  then show ?case by (simp add: platform_ok_def system_ok_def sys_of_def)
next
  case (step p p')
  then show ?case using platform_keeps_ok by blast
qed

section \<open>The life cycle of a job\<close>

text \<open>The abstract specification: where a job can be, and how it moves.\<close>

datatype phase = Absent | Waiting | Running | Finished

fun lifecycle :: "phase \<Rightarrow> phase \<Rightarrow> bool" where
  "lifecycle Absent x \<longleftrightarrow> x \<in> {Absent, Waiting}"
| "lifecycle Waiting x \<longleftrightarrow> x \<in> {Waiting, Running}"
| "lifecycle Running x \<longleftrightarrow> x \<noteq> Absent"
| "lifecycle Finished x \<longleftrightarrow> x \<noteq> Running"

lemma lifecycle_refl: "lifecycle x x"
  by (cases x) simp_all

definition status_phase :: "string \<Rightarrow> phase" where
  "status_phase status = (if status = ''pending'' then Waiting else if status = ''running'' then Running else Finished)"

definition phase_of :: "string \<Rightarrow> index_job list \<Rightarrow> phase" where
  "phase_of i js = (case List.find (\<lambda>j. job_id j = i) js of
     None \<Rightarrow> Absent | Some j \<Rightarrow> status_phase (job_status j))"

lemma row_step_lifecycle: "row_step old new \<Longrightarrow> lifecycle (status_phase old) (status_phase new)"
  by (auto simp: row_step_def status_phase_def)

lemma find_id:
  assumes "distinct (map job_id js)" "j \<in> set js"
  shows "List.find (\<lambda>k. job_id k = job_id j) js = Some j"
  using assms
proof (induction js)
  case (Cons x js)
  then show ?case by (cases "x = j") (auto simp: rev_image_eqI)
qed simp

lemma phase_of_member:
  "distinct (map job_id js) \<Longrightarrow> j \<in> set js \<Longrightarrow> phase_of (job_id j) js = status_phase (job_status j)"
  by (simp add: phase_of_def find_id)

lemma phase_of_absent: "i \<notin> job_id ` set js \<Longrightarrow> phase_of i js = Absent"
  by (auto simp: phase_of_def find_None_iff_all image_iff split: option.split dest: find_SomeD)

lemma rows_step_lifecycle:
  assumes "rows_step q q'" "job_ids_unique q"
  shows "lifecycle (phase_of i (index_jobs q)) (phase_of i (index_jobs q'))"
proof (cases "i \<in> job_id ` set (index_jobs q)")
  case True
  then obtain j where j: "j \<in> set (index_jobs q)" "i = job_id j" by auto
  obtain g where g: "index_jobs q' = map g (index_jobs q)" "job_id (g j) = job_id j"
    "row_step (job_status j) (job_status (g j))"
    using assms(1) j(1) by (auto simp: rows_step_def)
  have "distinct (map job_id (index_jobs q'))"
    using rows_step_ids [OF assms(1)] assms(2) by (simp add: job_ids_unique_def)
  moreover have "g j \<in> set (index_jobs q')" using g(1) j(1) by simp
  ultimately have "phase_of (job_id (g j)) (index_jobs q') = status_phase (job_status (g j))"
    by (rule phase_of_member)
  then show ?thesis
    using phase_of_member [of "index_jobs q" j] assms(2) j row_step_lifecycle [OF g(3)] g(2)
    by (simp add: job_ids_unique_def)
next
  case False
  then have "i \<notin> job_id ` set (index_jobs q')"
    using rows_step_ids [OF assms(1)] by (metis set_map)
  then show ?thesis using False by (simp add: phase_of_absent)
qed

lemma rows_edit_lifecycle:
  assumes "rows_edit now js js'" "distinct (map job_id js)" "distinct (map job_id js')"
  shows "lifecycle (phase_of i js) (phase_of i js')"
proof -
  obtain g P new where e: "js' = filter P (map g js) @ new"
    "\<forall>j. job_id (g j) = job_id j \<and> (g j = j \<or> (lapsed now JobLeaseDuration j \<and> job_status (g j) = ''pending''))"
    "\<forall>j. \<not> P j \<longrightarrow> job_status j \<in> {''completed'', ''failed''}" "\<forall>j \<in> set new. job_status j = ''pending''"
    using assms(1) unfolding rows_edit_def by (elim exE conjE) blast
  have fresh: "phase_of i js' = Waiting" if "i \<in> job_id ` set new"
  proof -
    obtain j where "j \<in> set new" "i = job_id j" using \<open>i \<in> job_id ` set new\<close> by auto
    then show ?thesis using phase_of_member [OF assms(3), of j] e(1,4) by (simp add: status_phase_def)
  qed
  have gone: "phase_of i js' = Absent"
    if "i \<notin> job_id ` set new" "\<forall>j \<in> set js. job_id j = i \<longrightarrow> \<not> P (g j)"
    using that e(1,2) by (intro phase_of_absent) auto
  show ?thesis
  proof (cases "i \<in> job_id ` set js")
    case False
    then have "phase_of i js = Absent" by (rule phase_of_absent)
    then show ?thesis using fresh gone False by (cases "i \<in> job_id ` set new") auto
  next
    case True
    then obtain j where j: "j \<in> set js" "i = job_id j" by auto
    have old: "phase_of i js = status_phase (job_status j)"
      using phase_of_member [OF assms(2) j(1)] j(2) by simp
    show ?thesis
    proof (cases "P (g j)")
      case True
      then have "g j \<in> set js'" using e(1) j(1) by simp
      then have new: "phase_of i js' = status_phase (job_status (g j))"
        using phase_of_member [OF assms(3), of "g j"] e(2) j(2) by simp
      have "g j = j \<or> (job_status j = ''running'' \<and> job_status (g j) = ''pending'')"
        using e(2) by (auto simp: lapsed_def)
      then show ?thesis unfolding old new by (elim disjE conjE) (simp_all add: lifecycle_refl status_phase_def)
    next
      case False
      then have "job_status (g j) \<in> {''completed'', ''failed''}" using e(3) by blast
      moreover have "g j = j \<or> job_status (g j) = ''pending''" using e(2) by blast
      ultimately have "g j = j" "job_status j \<in> {''completed'', ''failed''}" by auto
      then have "phase_of i js = Finished" unfolding old by (auto simp: status_phase_def)
      moreover have "\<forall>k \<in> set js. job_id k = i \<longrightarrow> k = j"
        using assms(2) j by (auto simp: distinct_map inj_on_def)
      then have "\<forall>k \<in> set js. job_id k = i \<longrightarrow> \<not> P (g k)" using False by blast
      ultimately show ?thesis using fresh gone by (cases "i \<in> job_id ` set new") auto
    qed
  qed
qed

section \<open>Properties\<close>

text \<open>
  C3: the lease stays exclusive on the whole platform. However the steps of the workers, the
  runs of the scheduler (which recovers, deletes and inserts jobs) and the deliveries of
  webhooks interleave, and whatever statements fail, at most one of the claims held in the
  workers' memories owns a job's row, and its attempt count is the row's.
\<close>

theorem platform_lease_exclusive:
  assumes "platform_reachable w p0 p" "c \<in> set (pf_held p)" "c' \<in> set (pf_held p)"
    "j \<in> set (rows p)" "owned c j" "owned c' j"
  shows "c = c' \<and> job_attempts j = c_Attempts c"
proof -
  have ok: "system_ok (sys_of p)" using platform_reachable_ok [OF assms(1)] by (simp add: platform_ok_def)
  then have "inj_on (\<lambda>c. (c_ID c, c_StartedAt c)) (set (pf_held p))"
    by (simp add: system_ok_def distinct_map)
  moreover have "(c_ID c, c_StartedAt c) = (c_ID c', c_StartedAt c')"
    using assms(5,6) by (simp add: owned_def)
  ultimately have "c = c'" using assms(2,3) by (blast dest: inj_onD)
  moreover have "claim_ok (pf_now p) (sys_queue (sys_of p)) c" using ok assms(2) by (simp add: system_ok_def)
  then have "job_attempts j = c_Attempts c" using assms(4,5) by (auto simp: claim_ok_def owned_def)
  ultimately show ?thesis by simp
qed

text \<open>
  C6: the platform refines the life cycle of a job. In every step from a reachable state, each
  job either stays where it is or moves as the life cycle allows: a waiting job is only ever
  claimed, a running job is given back or finished but never deleted, a finished job is deleted
  or queued anew but never resumed, and an absent job first waits. So no open job is lost.
\<close>

theorem platform_refines_lifecycle:
  assumes "platform_reachable w p0 p" "platform_step w p p'"
  shows "lifecycle (phase_of i (rows p)) (phase_of i (rows p'))"
proof -
  have ok: "platform_ok p" using assms(1) by (rule platform_reachable_ok)
  have ok': "platform_ok p'" using platform_keeps_ok [OF assms(2) ok] .
  have unique: "distinct (map job_id (rows p))" "distinct (map job_id (rows p'))"
    using ok ok' by (simp_all add: platform_ok_def system_ok_def job_ids_unique_def)
  from assms(2) show ?thesis
  proof (cases rule: platform_step.cases)
    case (works s)
    have "job_ids_unique (sys_queue (sys_of p))" using ok by (simp add: platform_ok_def system_ok_def)
    from rows_step_lifecycle [OF worker_rows [OF works(2) this] this] works(1) show ?thesis by simp
  next
    case (schedules rfc3339 fault sched ok t)
    then show ?thesis using rows_edit_lifecycle [OF schedule_edit [OF schedules(2)]] unique by simp
  next
    case (receives env hfault load r answer h)
    have "rows_edit (pf_now p) (rows p) (rows p')"
      using receive_edit [OF receives(2)] receives(1) by (simp add: jobs_of_def)
    then show ?thesis using rows_edit_lifecycle unique by blast
  qed
qed

section \<open>Witnesses\<close>

definition demo_platform :: platform where
  "demo_platform = \<lparr>pf_tables = demo_tables\<lparr>t_hooks := demo_hooks\<lparr>h_queue := demo_queue\<rparr>\<rparr>, pf_held = [], pf_now = 9\<rparr>"

lemma demo_platform_reachable: "platform_reachable (new_worker ''w'') demo_platform demo_platform"
  by (rule platform_reachable.start) (simp_all add: demo_platform_def demo_facts)

lemma platform_lease_exclusive_witness:
  "\<exists>p c j. platform_reachable (new_worker ''w'') demo_platform p \<and> c \<in> set (pf_held p)
     \<and> j \<in> set (rows p) \<and> owned c j \<and> job_attempts j = c_Attempts c"
proof -
  let ?w = "new_worker ''w''\<lparr>w_identity := ''other''\<rparr>" and ?c = "claimed_of 9 (demo_job ''b'' ''pending'')"
  have nofault: "no_faults ClaimJob = None" by (simp add: no_faults_def)
  obtain j1 q1 where claim: "claim no_faults ?w 9 demo_queue = (Inr (Some ?c), q1)"
    "j1 \<in> set (index_jobs q1)" "\<forall>k \<in> set (index_jobs q1). owned ?c k \<longleftrightarrow> k = j1"
    by (rule claim_owner [where fault = no_faults and w = ?w, OF demo_facts(1,3) nofault]) blast
  have sys: "sys_of demo_platform = \<lparr>sys_queue = demo_queue, sys_held = [], sys_now = 9\<rparr>"
    by (simp add: sys_of_def demo_platform_def)
  let ?s = "\<lparr>sys_queue = q1, sys_held = [?c], sys_now = 9\<rparr> :: system"
  have "system_step (new_worker ''w'') (sys_of demo_platform) ?s"
    using system_step.claims [where fault = no_faults and w = "new_worker ''w''" and who = "''other''"
        and s = "sys_of demo_platform" and c = ?c and q = q1] claim(1)
    by (simp add: sys)
  from platform_reachable.step [OF demo_platform_reachable platform_step.works [OF this]]
  have reach: "platform_reachable (new_worker ''w'') demo_platform (with_sys demo_platform ?s)" .
  have j: "?c \<in> set (pf_held (with_sys demo_platform ?s))" "j1 \<in> set (rows (with_sys demo_platform ?s))" "owned ?c j1"
    using claim(2,3) by simp_all
  from platform_lease_exclusive [OF reach j(1) j(1) j(2) j(3) j(3)] reach j show ?thesis by blast
qed

lemma platform_refines_lifecycle_witness:
  "let (ok, t) = RunOnce_scheduler (\<lambda>t. []) (\<lambda>s. False) 9 (New_scheduler hour) (pf_tables demo_platform)
   in lifecycle Waiting (phase_of ''b'' (jobs_of t))"
proof -
  obtain ok t where run:
    "RunOnce_scheduler (\<lambda>t. []) (\<lambda>s. False) (pf_now demo_platform) (New_scheduler hour) (pf_tables demo_platform) = (ok, t)"
    by force
  have "phase_of ''b'' (rows demo_platform) = Waiting"
    by (simp add: demo_platform_def jobs_of_def phase_of_def status_phase_def demo_queue_def demo_job_def)
  with platform_refines_lifecycle [OF demo_platform_reachable platform_step.schedules [OF run], of "''b''"] run
  show ?thesis by (simp add: demo_platform_def)
qed

end
