(* ===== verification/Risk.thy ===== *)
theory Risk
  imports PathMatch GoErrors
begin

text \<open>
  The assessment of a change: \<^verbatim>\<open>internal/search/risk.go\<close> and the index ages of
  \<^verbatim>\<open>internal/search/freshness.go\<close>. The ref comparison and the searches for dependents and
  tests are arguments (\<open>None\<close> is a failed search), and so are the rows of the index states the
  caller may read. The Korean texts are written out in UTF-8. The lemmas give the contract of
  the overall level.
\<close>

section \<open>Texts\<close>

definition txt_no_changes :: string where
  "txt_no_changes =
     bytes [235, 145, 144] @ '' ref '' @ bytes [236, 130, 172, 236, 157, 180, 236, 151, 144, 32,
     236, 139, 172, 235, 179, 188, 32, 236, 136, 152, 236, 164, 128, 236, 157, 152, 32, 235, 179,
     128, 237, 153, 148, 234, 176, 128, 32, 236, 151, 134, 236, 138, 181, 235, 139, 136, 235, 139,
     164] @ ''.''"

definition txt_capped_1 :: string where
  "txt_capped_1 =
     bytes [235, 179, 128, 234, 178, 189, 235, 144, 156, 32, 236, 139, 172, 235, 179, 188] @ '' ''"

definition txt_capped_2 :: string where
  "txt_capped_2 =
     bytes [234, 176, 156, 32, 236, 164, 145] @ '' ''"

definition txt_capped_3 :: string where
  "txt_capped_3 =
     bytes [234, 176, 156, 235, 167, 140, 32, 236, 182, 148, 236, 160, 129, 237, 150, 136, 236,
     138, 181, 235, 139, 136, 235, 139, 164] @ ''. '' @ bytes [235, 130, 152, 235, 168, 184, 236,
     167, 128, 235, 138, 148, 32, 237, 143, 137, 234, 176, 128, 236, 151, 144, 32, 237, 143, 172,
     237, 149, 168, 235, 144, 152, 236, 167, 128, 32, 236, 149, 138, 236, 149, 152, 236, 138, 181,
     235, 139, 136, 235, 139, 164] @ ''.''"

definition txt_symbols :: string where
  "txt_symbols =
     bytes [236, 139, 172, 235, 179, 188] @ '' ''"

definition txt_removed :: string where
  "txt_removed =
     bytes [234, 176, 156, 234, 176, 128, 32, 236, 160, 156, 234, 177, 176, 235, 144, 144, 236,
     138, 181, 235, 139, 136, 235, 139, 164] @ ''. '' @ bytes [236, 157, 180, 235, 165, 188, 32,
     237, 152, 184, 236, 182, 156, 237, 149, 152, 235, 141, 152, 32, 236, 189, 148, 235, 147, 156,
     235, 138, 148, 32, 235, 170, 168, 235, 145, 144, 32, 234, 185, 168, 236, 167, 145, 235, 139,
     136, 235, 139, 164] @ ''.''"

definition txt_resigned :: string where
  "txt_resigned =
     bytes [234, 176, 156, 236, 157, 152, 32, 236, 139, 156, 234, 183, 184, 235, 139, 136, 236,
     178, 152, 234, 176, 128, 32, 235, 176, 148, 235, 128, 140, 236, 151, 136, 236, 138, 181, 235,
     139, 136, 235, 139, 164] @ ''. '' @ bytes [234, 184, 176, 236, 161, 180, 32, 237, 152, 184,
     236, 182, 156, 235, 182, 128, 236, 153, 128, 32, 235, 167, 158, 236, 167, 128, 32, 236, 149,
     138, 236, 157, 132, 32, 236, 136, 152, 32, 236, 158, 136, 236, 138, 181, 235, 139, 136, 235,
     139, 164] @ ''.''"

definition txt_contract_kept :: string where
  "txt_contract_kept =
     bytes [236, 160, 156, 234, 177, 176, 235, 144, 152, 234, 177, 176, 235, 130, 152, 32, 236,
     139, 156, 234, 183, 184, 235, 139, 136, 236, 178, 152, 234, 176, 128, 32, 235, 176, 148, 235,
     128, 144, 32, 236, 139, 172, 235, 179, 188, 236, 157, 180, 32, 236, 151, 134, 236, 138, 181,
     235, 139, 136, 235, 139, 164] @ ''.''"

definition txt_no_consumers :: string where
  "txt_no_consumers =
     bytes [235, 139, 164, 235, 165, 184, 32, 236, 160, 128, 236, 158, 165, 236, 134, 140, 236,
     151, 144, 236, 132, 156, 32, 236, 157, 180, 32, 236, 139, 172, 235, 179, 188, 235, 147, 164,
     236, 157, 132, 32, 236, 176, 184, 236, 161, 176, 237, 149, 152, 235, 138, 148, 32, 236, 131,
     137, 236, 157, 184, 235, 144, 156, 32, 236, 189, 148, 235, 147, 156, 234, 176, 128, 32, 236,
     151, 134, 236, 138, 181, 235, 139, 136, 235, 139, 164] @ ''.''"

definition txt_count_close :: string where
  "txt_count_close =
     bytes [234, 177, 180] @ '')''"

definition txt_consumers_1 :: string where
  "txt_consumers_1 =
     bytes [235, 139, 164, 235, 165, 184, 32, 236, 160, 128, 236, 158, 165, 236, 134, 140] @ '' ''"

definition txt_consumers_2 :: string where
  "txt_consumers_2 =
     bytes [234, 179, 179, 236, 157, 180, 32, 235, 179, 128, 234, 178, 189, 235, 144, 156, 32,
     236, 139, 172, 235, 179, 188, 236, 157, 132, 32, 236, 176, 184, 236, 161, 176, 237, 149, 169,
     235, 139, 136, 235, 139, 164] @ ''.''"

definition txt_changed_symbols :: string where
  "txt_changed_symbols =
     bytes [235, 179, 128, 234, 178, 189, 235, 144, 156, 32, 236, 139, 172, 235, 179, 188] @ '' ''"

definition txt_all_covered :: string where
  "txt_all_covered =
     bytes [234, 176, 156, 32, 235, 170, 168, 235, 145, 144, 32, 236, 157, 180, 235, 165, 188, 32,
     236, 176, 184, 236, 161, 176, 237, 149, 152, 235, 138, 148, 32, 237, 133, 140, 236, 138, 164,
     237, 138, 184, 234, 176, 128, 32, 236, 158, 136, 236, 138, 181, 235, 139, 136, 235, 139,
     164] @ ''.''"

definition txt_none_covered :: string where
  "txt_none_covered =
     bytes [234, 176, 156, 32, 236, 164, 145, 32, 236, 150, 180, 235, 138, 144, 32, 234, 178, 131,
     235, 143, 132, 32, 236, 176, 184, 236, 161, 176, 237, 149, 152, 235, 138, 148, 32, 237, 133,
     140, 236, 138, 164, 237, 138, 184, 234, 176, 128, 32, 236, 151, 134, 236, 138, 181, 235, 139,
     136, 235, 139, 164] @ ''.''"

definition txt_some_1 :: string where
  "txt_some_1 =
     bytes [234, 176, 156, 235, 138, 148, 32, 236, 176, 184, 236, 161, 176, 237, 149, 152, 235,
     138, 148, 32, 237, 133, 140, 236, 138, 164, 237, 138, 184, 234, 176, 128, 32, 236, 151, 134,
     236, 138, 181, 235, 139, 136, 235, 139, 164] @ ''(''"

definition txt_some_2 :: string where
  "txt_some_2 =
     bytes [234, 176, 156, 235, 138, 148, 32, 236, 158, 136, 236, 157, 140] @ '').''"

definition txt_no_judgement :: string where
  "txt_no_judgement =
     bytes [237, 133, 140, 236, 138, 164, 237, 138, 184, 32, 236, 187, 164, 235, 178, 132, 235,
     166, 172, 236, 167, 128, 235, 165, 188, 32, 237, 140, 144, 235, 139, 168, 237, 149, 160, 32,
     235, 179, 128, 234, 178, 189, 236, 157, 180, 32, 236, 151, 134, 236, 138, 181, 235, 139, 136,
     235, 139, 164] @ ''.''"

definition txt_no_schema :: string where
  "txt_no_schema =
     bytes [236, 138, 164, 237, 130, 164, 235, 167, 136, 32, 237, 140, 140, 236, 157, 188, 32,
     235, 179, 128, 234, 178, 189, 236, 157, 180, 32, 236, 151, 134, 236, 138, 181, 235, 139, 136,
     235, 139, 164] @ ''.''"

definition txt_schema_1 :: string where
  "txt_schema_1 =
     bytes [236, 138, 164, 237, 130, 164, 235, 167, 136, 32, 237, 140, 140, 236, 157, 188] @ '' ''"

definition txt_schema_2 :: string where
  "txt_schema_2 =
     bytes [234, 176, 156, 234, 176, 128, 32, 235, 179, 128, 234, 178, 189, 235, 144, 144, 236,
     138, 181, 235, 139, 136, 235, 139, 164] @ ''. '' @ bytes [235, 176, 176, 237, 143, 172, 235,
     165, 188, 32, 235, 144, 152, 235, 143, 140, 235, 160, 164, 235, 143, 132, 32, 236, 138, 164,
     237, 130, 164, 235, 167, 136, 235, 138, 148, 32, 235, 144, 152, 235, 143, 140, 236, 149, 132,
     234, 176, 128, 236, 167, 128, 32, 236, 149, 138, 236, 138, 181, 235, 139, 136, 235, 139,
     164] @ ''.''"

definition txt_stale_1 :: string where
  "txt_stale_1 =
     bytes [236, 131, 137, 236, 157, 184, 236, 157, 180] @ '' ''"

definition txt_stale_2 :: string where
  "txt_stale_2 =
     '' '' @ bytes [236, 160, 132, 32, 234, 178, 131, 236, 158, 133, 235, 139, 136, 235, 139,
     164] @ ''. '' @ bytes [234, 183, 184, 32, 236, 157, 180, 237, 155, 132, 32, 236, 131, 157,
     234, 184, 180, 32, 236, 130, 172, 236, 154, 169, 236, 178, 152, 235, 138, 148, 32, 236, 156,
     132, 32, 235, 170, 169, 235, 161, 157, 236, 151, 144, 32, 236, 151, 134, 236, 138, 181, 235,
     139, 136, 235, 139, 164] @ ''.''"

definition txt_others :: string where
  "txt_others =
     bytes [236, 153, 184] @ '' ''"

definition txt_others_count :: string where
  "txt_others_count =
     bytes [234, 177, 180]"

definition txt_others_places :: string where
  "txt_others_places =
     bytes [234, 179, 179]"

definition txt_arrow :: string where
  "txt_arrow =
     '' '' @ bytes [226, 134, 146] @ '' ''"

definition txt_dash :: string where
  "txt_dash =
     '' '' @ bytes [226, 128, 148] @ '' ''"

definition txt_format_title :: string where
  "txt_format_title =
     ''# '' @ bytes [235, 179, 128, 234, 178, 189, 32, 236, 156, 132, 237, 151, 152, 32, 237, 143,
     137, 234, 176, 128] @ '': ''"

definition txt_format_symbols :: string where
  "txt_format_symbols =
     bytes [236, 139, 172, 235, 179, 188, 32, 235, 179, 128, 234, 178, 189] @ '' ''"

definition txt_format_traced_1 :: string where
  "txt_format_traced_1 =
     '' ('' @ bytes [234, 183, 184, 236, 164, 145] @ '' ''"

definition txt_format_traced_2 :: string where
  "txt_format_traced_2 =
     bytes [234, 177, 180, 32, 236, 182, 148, 236, 160, 129] @ '')''"

definition txt_format_overall :: string where
  "txt_format_overall =
     ''## '' @ bytes [236, 162, 133, 237, 149, 169] @ '': ''"

definition txt_format_reason :: string where
  "txt_format_reason =
     bytes [234, 176, 128, 236, 158, 165, 32, 235, 134, 146, 236, 157, 128, 32, 234, 176, 156,
     235, 179, 132, 32, 237, 149, 173, 235, 170, 169, 236, 157, 132, 32, 234, 183, 184, 235, 140,
     128, 235, 161, 156, 32, 236, 162, 133, 237, 149, 169, 236, 156, 188, 235, 161, 156, 32, 236,
     130, 188, 236, 149, 152, 236, 138, 181, 235, 139, 136, 235, 139, 164] @ ''. '' @ bytes [234,
     176, 128, 236, 164, 145, 32, 237, 149, 169, 236, 130, 176, 236, 157, 180, 32, 236, 149, 132,
     235, 139, 136, 235, 157, 188] @ '', '' @ bytes [237, 149, 173, 235, 170, 169, 32, 237, 149,
     152, 235, 130, 152, 234, 176, 128, 32, 236, 156, 132, 237, 151, 152, 237, 149, 152, 235, 169,
     180, 32, 235, 130, 152, 235, 168, 184, 236, 167, 128, 234, 176, 128, 32, 236, 149, 136, 236,
     160, 132, 237, 149, 180, 235, 143, 132, 32, 236, 156, 132, 237, 151, 152, 237, 149, 152, 234,
     184, 176, 32, 235, 149, 140, 235, 172, 184, 236, 158, 133, 235, 139, 136, 235, 139, 164] @
     ''.''"

definition txt_note_1 :: string where
  "txt_note_1 =
     bytes [236, 131, 137, 236, 157, 184, 236, 157, 180, 32, 236, 152, 164, 235, 158, 152, 235,
     144, 144, 236, 138, 181, 235, 139, 136, 235, 139, 164] @ '': ''"

definition txt_note_2 :: string where
  "txt_note_2 =
     ''. '' @ bytes [236, 157, 180, 32, 235, 139, 181, 235, 179, 128, 236, 157, 128, 32, 234, 183,
     184, 32, 236, 139, 156, 236, 160, 144, 236, 157, 152, 32, 236, 189, 148, 235, 147, 156, 235,
     165, 188, 32, 235, 176, 152, 236, 152, 129, 237, 149, 152, 235, 169, 176] @ '', '' @
     bytes [236, 157, 180, 237, 155, 132, 32, 235, 179, 128, 234, 178, 189, 236, 157, 128, 32,
     237, 143, 172, 237, 149, 168, 235, 144, 152, 236, 167, 128, 32, 236, 149, 138, 236, 149, 152,
     236, 138, 181, 235, 139, 136, 235, 139, 164] @ ''.''"

definition txt_ago :: string where
  "txt_ago =
     bytes [236, 160, 132]"

definition txt_months :: string where
  "txt_months =
     bytes [234, 176, 156, 236, 155, 148]"

definition txt_days :: string where
  "txt_days =
     bytes [236, 157, 188]"

section \<open>Values\<close>

datatype RiskLevel = RiskLow | RiskMedium | RiskHigh

fun level_text :: "RiskLevel \<Rightarrow> string" where
  "level_text RiskLow = ''low''"
| "level_text RiskMedium = ''medium''"
| "level_text RiskHigh = ''high''"

text \<open>The order of attention: low, medium, high.\<close>

fun level_rank :: "RiskLevel \<Rightarrow> nat" where
  "level_rank RiskLow = 0"
| "level_rank RiskMedium = 1"
| "level_rank RiskHigh = 2"

lemma level_rank_inj: "level_rank a = level_rank b \<longleftrightarrow> a = b"
  by (cases a; cases b) simp_all

instantiation RiskLevel :: linorder
begin

definition less_eq_RiskLevel :: "RiskLevel \<Rightarrow> RiskLevel \<Rightarrow> bool" where
  "less_eq_RiskLevel a b \<longleftrightarrow> level_rank a \<le> level_rank b"

definition less_RiskLevel :: "RiskLevel \<Rightarrow> RiskLevel \<Rightarrow> bool" where
  "less_RiskLevel a b \<longleftrightarrow> level_rank a < level_rank b"

instance
  by standard (auto simp: less_eq_RiskLevel_def less_RiskLevel_def level_rank_inj)

end

record RiskFactor =
  rf_Name :: string
  rf_Level :: RiskLevel
  rf_Summary :: string
  rf_Evidence :: "string list"

record RefChange =
  ch_Type :: string
  ch_Name :: string
  ch_Kind :: string
  ch_FilePath :: string
  ch_Before :: string
  ch_After :: string

record RefComparison =
  rc_LibraryID :: string
  rc_BaseRef :: string
  rc_HeadRef :: string
  rc_Changes :: "RefChange list"

record ChangeAssessment =
  ca_LibraryID :: string
  ca_BaseRef :: string
  ca_HeadRef :: string
  ca_Comparison :: RefComparison
  ca_Factors :: "RiskFactor list"
  ca_Level :: RiskLevel
  ca_Assessed :: nat
  ca_Diagnostics :: "string list"

definition maxAssessedSymbols :: nat where
  "maxAssessedSymbols = 25"

definition capped :: "string list \<Rightarrow> nat \<Rightarrow> string list" where
  "capped values limit =
     (if length values \<le> limit then values
      else take limit values @ [txt_others @ itoa_nat (length values - limit) @ txt_others_count])"

section \<open>Ages of the index\<close>

record IndexAge =
  ia_LibraryID :: string
  ia_Ref :: string
  ia_CommitID :: string
  ia_IndexedAt :: time
  ia_Age :: duration

definition staleIndexAfter :: duration where
  "staleIndexAfter = 7 * 24 * hour"

text \<open>The library of an id that may carry a ref behind it.\<close>

definition base_library :: "string \<Rightarrow> string" where
  "base_library i =
     (let body = trim_prefix i ''/'' in
      case last_index_str body ''/'' of
        None \<Rightarrow> i
      | Some index \<Rightarrow>
          (let candidate = ''/'' @ take index body in
           if 0 < index \<and> 2 \<le> count_str candidate ''/'' then candidate else i))"

text \<open>
  \<open>rows\<close> are the states of the refs the caller may read: library, ref, commit and time of the
  index; the query orders them by that time.
\<close>

definition IndexAges ::
    "(string \<times> string \<times> string \<times> time) list option \<Rightarrow> string list \<Rightarrow> string list \<Rightarrow> time \<Rightarrow> IndexAge list option" where
  "IndexAges rows principals libraryIDs now =
     (if principals = [] \<or> libraryIDs = [] then Some []
      else let wanted = map base_library libraryIDs in
        map_option (\<lambda>rs. map (\<lambda>(library, ref, commit, at).
            \<lparr>ia_LibraryID = library, ia_Ref = ref, ia_CommitID = commit, ia_IndexedAt = at,
              ia_Age = max 0 (time_sub now at)\<rparr>)
          (sort_key (\<lambda>(library, ref, commit, at). at) (filter (\<lambda>r. fst r \<in> set wanted) rs))) rows)"

text \<open>\<^verbatim>\<open>int(age.Hours() / 24)\<close>, with the floating-point quotient taken as exact.\<close>

definition humanDays :: "duration \<Rightarrow> string" where
  "humanDays age =
     (let days = age div (24 * hour) in
      if 30 \<le> days then itoa (days div 30) @ txt_months else itoa days @ txt_days)"

text \<open>The loop over the stale indexes, which names three of them.\<close>

fun note_parts :: "nat \<Rightarrow> nat \<Rightarrow> IndexAge list \<Rightarrow> string list" where
  "note_parts named stale [] = []"
| "note_parts named stale (a # ages) =
     (if named = 3 then [txt_others @ itoa_nat (stale - 3) @ txt_others_places]
      else (ia_LibraryID a @ '' '' @ humanDays (ia_Age a) @ txt_ago) # note_parts (Suc named) stale ages)"

definition FreshnessNote :: "IndexAge list \<Rightarrow> string" where
  "FreshnessNote ages =
     (let stale = filter (\<lambda>a. staleIndexAfter \<le> ia_Age a) ages in
      if stale = [] then []
      else txt_note_1 @ join_with '', '' (note_parts 0 (length stale) stale) @ txt_note_2)"

section \<open>Factors\<close>

definition resigned :: "RefChange \<Rightarrow> bool" where
  "resigned c \<longleftrightarrow> ch_Type c = ''modified'' \<and> ch_Before c \<noteq> [] \<and> ch_After c \<noteq> [] \<and> ch_Before c \<noteq> ch_After c"

definition contractFactor :: "RefChange list \<Rightarrow> RiskFactor" where
  "contractFactor changes =
     (let removed = map ch_Name (filter (\<lambda>c. ch_Type c = ''removed'') changes);
          changed = map (\<lambda>c. ch_Name c @ '': '' @ ch_Before c @ txt_arrow @ ch_After c) (filter resigned changes)
      in if 0 < length removed then
           \<lparr>rf_Name = ''api-contract'', rf_Level = RiskHigh,
             rf_Summary = txt_symbols @ itoa_nat (length removed) @ txt_removed, rf_Evidence = capped removed 5\<rparr>
         else if 0 < length changed then
           \<lparr>rf_Name = ''api-contract'', rf_Level = RiskMedium,
             rf_Summary = txt_symbols @ itoa_nat (length changed) @ txt_resigned, rf_Evidence = capped changed 5\<rparr>
         else \<lparr>rf_Name = ''api-contract'', rf_Level = RiskLow, rf_Summary = txt_contract_kept, rf_Evidence = []\<rparr>)"

text \<open>
  The searches: the libraries of the dependents of a symbol, and for each test of a symbol
  whether it references it.
\<close>

record searches =
  find_dependents :: "string \<Rightarrow> string list option"
  find_tests :: "string \<Rightarrow> bool list option"

definition external_libraries :: "searches \<Rightarrow> string \<Rightarrow> RefChange list \<Rightarrow> string list" where
  "external_libraries env libraryID changes =
     concat (map (\<lambda>c. case find_dependents env (ch_Name c) of
        None \<Rightarrow> [] | Some found \<Rightarrow> filter (\<lambda>l. l \<noteq> libraryID) found) changes)"

definition consumerFactor :: "searches \<Rightarrow> string \<Rightarrow> RefChange list \<Rightarrow> RiskFactor" where
  "consumerFactor env libraryID changes =
     (let found = external_libraries env libraryID changes; external = remdups found in
      if external = [] then
        \<lparr>rf_Name = ''cross-repository-consumers'', rf_Level = RiskLow, rf_Summary = txt_no_consumers, rf_Evidence = []\<rparr>
      else
        \<lparr>rf_Name = ''cross-repository-consumers'',
          rf_Level = (if length external = 1 then RiskMedium else RiskHigh),
          rf_Summary = txt_consumers_1 @ itoa_nat (length external) @ txt_consumers_2,
          rf_Evidence = capped (sort (map (\<lambda>l. l @ '' ('' @ itoa_nat (count_list found l) @ txt_count_close) external)) 5\<rparr>)"

text \<open>The changes whose tests could be searched: the covered ones and the uncovered ones.\<close>

definition coverage_step :: "searches \<Rightarrow> nat \<times> string list \<Rightarrow> RefChange \<Rightarrow> nat \<times> string list" where
  "coverage_step env st c =
     (if ch_Type c = ''removed'' then st
      else case find_tests env (ch_Name c) of
        None \<Rightarrow> st
      | Some tests \<Rightarrow>
          (if 0 < length (filter (\<lambda>references. references) tests) then (fst st + 1, snd st)
           else (fst st, snd st @ [ch_Name c])))"

definition coverageFactor :: "searches \<Rightarrow> RefChange list \<Rightarrow> RiskFactor" where
  "coverageFactor env changes =
     (let (covered, uncovered) = foldl (coverage_step env) (0, []) changes in
      if uncovered = [] \<and> 0 < covered then
        \<lparr>rf_Name = ''test-coverage'', rf_Level = RiskLow,
          rf_Summary = txt_changed_symbols @ itoa_nat covered @ txt_all_covered, rf_Evidence = []\<rparr>
      else if covered = 0 \<and> 0 < length uncovered then
        \<lparr>rf_Name = ''test-coverage'', rf_Level = RiskHigh,
          rf_Summary = txt_changed_symbols @ itoa_nat (length uncovered) @ txt_none_covered, rf_Evidence = capped uncovered 5\<rparr>
      else if 0 < length uncovered then
        \<lparr>rf_Name = ''test-coverage'', rf_Level = RiskMedium,
          rf_Summary = txt_changed_symbols @ itoa_nat (length uncovered) @ txt_some_1 @ itoa_nat covered @ txt_some_2,
          rf_Evidence = capped uncovered 5\<rparr>
      else \<lparr>rf_Name = ''test-coverage'', rf_Level = RiskLow, rf_Summary = txt_no_judgement, rf_Evidence = []\<rparr>)"

definition schema_file :: "RefChange \<Rightarrow> bool" where
  "schema_file c \<longleftrightarrow> to_lower (path_Ext (ch_FilePath c)) \<in> {''.sql'', ''.ddl''}"

definition schemaFactor :: "RefChange list \<Rightarrow> RiskFactor" where
  "schemaFactor changes =
     (let files = remdups (map ch_FilePath (filter schema_file changes)) in
      if length files = 0 then
        \<lparr>rf_Name = ''schema'', rf_Level = RiskLow, rf_Summary = txt_no_schema, rf_Evidence = []\<rparr>
      else
        \<lparr>rf_Name = ''schema'', rf_Level = RiskHigh,
          rf_Summary = txt_schema_1 @ itoa_nat (length files) @ txt_schema_2, rf_Evidence = capped (sort files) 5\<rparr>)"

definition freshnessFactor :: "IndexAge list option \<Rightarrow> RiskFactor option" where
  "freshnessFactor ages =
     (case ages of
        None \<Rightarrow> None
      | Some [] \<Rightarrow> None
      | Some (oldest # rest) \<Rightarrow>
          (if ia_Age oldest < staleIndexAfter then None
           else Some \<lparr>rf_Name = ''index-freshness'', rf_Level = RiskMedium,
             rf_Summary = txt_stale_1 @ humanDays (ia_Age oldest) @ txt_stale_2,
             rf_Evidence = [ia_LibraryID oldest @ '' @ '' @ ia_CommitID oldest]\<rparr>))"

section \<open>The assessment\<close>

text \<open>The loop over the factors, which stops at the first high one.\<close>

fun overall :: "RiskLevel \<Rightarrow> RiskFactor list \<Rightarrow> RiskLevel" where
  "overall level [] = level"
| "overall level (f # fs) =
     (if rf_Level f = RiskHigh then RiskHigh
      else overall (if rf_Level f = RiskMedium then RiskMedium else level) fs)"

definition AssessChange ::
    "(string \<Rightarrow> string \<Rightarrow> string \<Rightarrow> string + RefComparison) \<Rightarrow> searches
     \<Rightarrow> (string \<times> string \<times> string \<times> time) list option \<Rightarrow> time
     \<Rightarrow> string list \<Rightarrow> string \<Rightarrow> string \<Rightarrow> string \<Rightarrow> string + ChangeAssessment" where
  "AssessChange compareRefs env states now principals libraryID baseRef headRef =
     (if principals = [] then Inl ''no repository permissions are available for this caller''
      else case compareRefs libraryID baseRef headRef of
        Inl e \<Rightarrow> Inl e
      | Inr comparison \<Rightarrow>
          (let result = \<lparr>ca_LibraryID = rc_LibraryID comparison, ca_BaseRef = rc_BaseRef comparison,
                 ca_HeadRef = rc_HeadRef comparison, ca_Comparison = comparison, ca_Factors = [],
                 ca_Level = RiskLow, ca_Assessed = 0, ca_Diagnostics = []\<rparr>;
               changes = rc_Changes comparison
           in if changes = [] then Inr (result\<lparr>ca_Diagnostics := [txt_no_changes]\<rparr>)
              else let assessed = take maxAssessedSymbols changes;
                       diagnostics = (if maxAssessedSymbols < length changes
                         then [txt_capped_1 @ itoa_nat (length changes) @ txt_capped_2
                               @ itoa_nat maxAssessedSymbols @ txt_capped_3] else []);
                       factors = [contractFactor changes, consumerFactor env (rc_LibraryID comparison) assessed,
                           coverageFactor env assessed, schemaFactor changes]
                         @ (case freshnessFactor (IndexAges states principals [rc_LibraryID comparison] now) of
                              None \<Rightarrow> [] | Some f \<Rightarrow> [f])
                   in Inr (result\<lparr>ca_Assessed := length assessed, ca_Diagnostics := diagnostics,
                             ca_Factors := factors, ca_Level := overall RiskLow factors\<rparr>)))"

text \<open>\<^verbatim>\<open>strings.ToUpper\<close> of a level.\<close>

fun level_upper :: "RiskLevel \<Rightarrow> string" where
  "level_upper RiskLow = ''LOW''"
| "level_upper RiskMedium = ''MEDIUM''"
| "level_upper RiskHigh = ''HIGH''"

definition nl :: string where
  "nl = [CHR 0x0A]"

definition FormatAssessment :: "ChangeAssessment \<Rightarrow> string" where
  "FormatAssessment r =
     (let n = length (rc_Changes (ca_Comparison r));
          head = txt_format_title @ ca_LibraryID r @ '' '' @ ca_BaseRef r @ txt_arrow @ ca_HeadRef r @ nl @ nl
            @ txt_format_symbols @ itoa_nat n @ txt_others_count
            @ (if 0 < ca_Assessed r \<and> ca_Assessed r < n
               then txt_format_traced_1 @ itoa_nat (ca_Assessed r) @ txt_format_traced_2 else []) @ nl @ nl;
          factors = concat (map (\<lambda>f. ''## '' @ rf_Name f @ txt_dash @ level_upper (rf_Level f) @ nl @ nl
              @ rf_Summary f @ nl @ concat (map (\<lambda>e. ''- '' @ e @ nl) (rf_Evidence f)) @ nl) (ca_Factors r));
          verdict = txt_format_overall @ level_upper (ca_Level r) @ nl @ nl @ txt_format_reason @ nl;
          diagnostics = concat (map (\<lambda>d. nl @ ''_'' @ d @ ''_'' @ nl) (ca_Diagnostics r))
      in trim_space (head @ factors @ verdict @ diagnostics) @ nl)"

section \<open>The verdict\<close>

lemma level_max: "level \<le> RiskHigh" "RiskLow \<le> level"
  by (cases level; simp add: less_eq_RiskLevel_def)+

lemma overall_max: "level \<noteq> RiskHigh \<Longrightarrow> overall level fs = fold max (map rf_Level fs) level"
proof (induction fs arbitrary: level)
  case (Cons f fs)
  have high: "fold max ls RiskHigh = RiskHigh" for ls :: "RiskLevel list"
    by (induction ls) (simp_all add: max_absorb2 level_max)
  show ?case
  proof (cases "rf_Level f")
    case RiskHigh
    then show ?thesis using high by (simp add: max_absorb1 level_max)
  next
    case RiskMedium
    then have "max (rf_Level f) level = RiskMedium"
      using Cons.prems by (cases level) (simp_all add: max_def less_eq_RiskLevel_def)
    then show ?thesis using Cons RiskMedium by simp
  next
    case RiskLow
    then have "max (rf_Level f) level = level" by (simp add: max_absorb2 level_max)
    then show ?thesis using Cons RiskLow by simp
  qed
qed simp

lemma overall_Max: "overall RiskLow fs = Max (insert RiskLow (rf_Level ` set fs))"
proof -
  have "fold max ls l = Max (insert l (set ls))" for ls and l :: RiskLevel
    using Max.set_eq_fold [of l ls] by simp
  from this [of "map rf_Level fs" RiskLow] show ?thesis by (simp add: overall_max)
qed

lemma overall_low: "overall RiskLow fs = RiskLow \<longleftrightarrow> (\<forall>f \<in> set fs. rf_Level f = RiskLow)"
proof
  assume low: "overall RiskLow fs = RiskLow"
  have "rf_Level f = RiskLow" if "f \<in> set fs" for f
  proof (rule antisym)
    have "rf_Level f \<le> Max (insert RiskLow (rf_Level ` set fs))" using that by simp
    then show "rf_Level f \<le> RiskLow" using low unfolding overall_Max by simp
  qed (rule level_max(2))
  then show "\<forall>f \<in> set fs. rf_Level f = RiskLow" by blast
next
  assume "\<forall>f \<in> set fs. rf_Level f = RiskLow"
  then have "insert RiskLow (rf_Level ` set fs) = {RiskLow}" by auto
  then show "overall RiskLow fs = RiskLow" unfolding overall_Max by (simp only: Max_singleton)
qed

lemma contract_low:
  "rf_Level (contractFactor changes) = RiskLow \<longleftrightarrow> (\<forall>c \<in> set changes. ch_Type c \<noteq> ''removed'' \<and> \<not> resigned c)"
  by (auto simp: contractFactor_def Let_def filter_empty_conv)

lemma schema_low: "rf_Level (schemaFactor changes) = RiskLow \<longleftrightarrow> (\<forall>c \<in> set changes. \<not> schema_file c)"
  by (auto simp: schemaFactor_def Let_def filter_empty_conv)

lemma consumer_low:
  "rf_Level (consumerFactor env l changes) = RiskLow \<longleftrightarrow>
   (\<forall>c \<in> set changes. \<forall>found. find_dependents env (ch_Name c) = Some found \<longrightarrow> set found \<subseteq> {l})"
proof -
  have "rf_Level (consumerFactor env l changes) = RiskLow \<longleftrightarrow> external_libraries env l changes = []"
    by (simp add: consumerFactor_def Let_def)
  also have "\<dots> \<longleftrightarrow> (\<forall>c \<in> set changes. (case find_dependents env (ch_Name c) of
      None \<Rightarrow> [] | Some found \<Rightarrow> filter (\<lambda>k. k \<noteq> l) found) = [])"
    by (simp add: external_libraries_def)
  also have "\<dots> \<longleftrightarrow> (\<forall>c \<in> set changes. \<forall>found. find_dependents env (ch_Name c) = Some found \<longrightarrow> set found \<subseteq> {l})"
    by (intro ball_cong refl) (auto simp: filter_empty_conv split: option.split)
  finally show ?thesis .
qed

lemma coverage_fold:
  "set (snd (foldl (coverage_step env) st changes)) = set (snd st) \<union>
     ch_Name ` {c \<in> set changes. ch_Type c \<noteq> ''removed'' \<and> (\<exists>tests. find_tests env (ch_Name c) = Some tests \<and> True \<notin> set tests)}"
proof (induction changes arbitrary: st)
  case (Cons c changes)
  have "set (snd (coverage_step env st c)) = set (snd st) \<union>
      ch_Name ` {d \<in> {c}. ch_Type d \<noteq> ''removed'' \<and> (\<exists>tests. find_tests env (ch_Name d) = Some tests \<and> True \<notin> set tests)}"
    by (auto simp: coverage_step_def filter_empty_conv split: option.splits if_splits)
  then show ?case using Cons.IH by auto
qed simp

lemma coverage_low:
  "rf_Level (coverageFactor env changes) = RiskLow \<Longrightarrow> c \<in> set changes \<Longrightarrow> ch_Type c \<noteq> ''removed'' \<Longrightarrow>
   find_tests env (ch_Name c) = Some tests \<Longrightarrow> True \<in> set tests"
  using coverage_fold [of env "(0, [])" changes]
  by (auto simp: coverageFactor_def case_prod_unfold Let_def split: if_splits)

lemma AssessChange_factors:
  assumes "AssessChange compareRefs env states now principals libraryID baseRef headRef = Inr r"
  obtains comparison where "compareRefs libraryID baseRef headRef = Inr comparison" "ca_Comparison r = comparison"
    "ca_Level r = overall RiskLow (ca_Factors r)"
    "rc_Changes comparison \<noteq> [] \<Longrightarrow> {contractFactor (rc_Changes comparison),
       consumerFactor env (rc_LibraryID comparison) (take maxAssessedSymbols (rc_Changes comparison)),
       coverageFactor env (take maxAssessedSymbols (rc_Changes comparison)),
       schemaFactor (rc_Changes comparison)} \<subseteq> set (ca_Factors r)"
proof -
  obtain comparison where c: "compareRefs libraryID baseRef headRef = Inr comparison"
    using assms by (cases "compareRefs libraryID baseRef headRef") (auto simp: AssessChange_def split: if_splits)
  show ?thesis
    by (rule that [OF c]) (use assms c in \<open>auto simp: AssessChange_def Let_def split: if_splits\<close>)
qed

text \<open>
  The overall level is that of the most serious factor, and low if there is none.
\<close>

theorem overall_is_highest:
  assumes "AssessChange compareRefs env states now principals libraryID baseRef headRef = Inr r"
  shows "ca_Level r = Max (insert RiskLow (rf_Level ` set (ca_Factors r)))"
  using AssessChange_factors [OF assms] overall_Max by metis

text \<open>
  A low verdict hides nothing that was found. If a change is assessed as low, then no symbol
  was removed, no signature changed and no schema file was touched anywhere in the comparison;
  and for every symbol that was followed, each search that succeeded found no dependent in
  another library, and found a test that references the symbol.
\<close>

theorem low_verdict_hides_nothing:
  assumes "AssessChange compareRefs env states now principals libraryID baseRef headRef = Inr r"
    and "ca_Level r = RiskLow"
  shows "(\<forall>c \<in> set (rc_Changes (ca_Comparison r)). ch_Type c \<noteq> ''removed'' \<and> \<not> resigned c \<and> \<not> schema_file c)
    \<and> (\<forall>c \<in> set (take maxAssessedSymbols (rc_Changes (ca_Comparison r))).
      (\<forall>found. find_dependents env (ch_Name c) = Some found \<longrightarrow> set found \<subseteq> {rc_LibraryID (ca_Comparison r)})
      \<and> (\<forall>tests. find_tests env (ch_Name c) = Some tests \<longrightarrow> True \<in> set tests))"
proof (cases "rc_Changes (ca_Comparison r) = []")
  case False
  let ?changes = "rc_Changes (ca_Comparison r)" and ?lib = "rc_LibraryID (ca_Comparison r)"
  have factors: "{contractFactor ?changes, consumerFactor env ?lib (take maxAssessedSymbols ?changes),
       coverageFactor env (take maxAssessedSymbols ?changes), schemaFactor ?changes} \<subseteq> set (ca_Factors r)"
    and "overall RiskLow (ca_Factors r) = RiskLow"
    using AssessChange_factors [OF assms(1)] False assms(2) by metis+
  then have low: "rf_Level (contractFactor ?changes) = RiskLow" "rf_Level (schemaFactor ?changes) = RiskLow"
    "rf_Level (consumerFactor env ?lib (take maxAssessedSymbols ?changes)) = RiskLow"
    "rf_Level (coverageFactor env (take maxAssessedSymbols ?changes)) = RiskLow"
    unfolding overall_low by auto
  have kept: "ch_Type c \<noteq> ''removed''" if "c \<in> set (take maxAssessedSymbols ?changes)" for c
    using low(1) in_set_takeD [OF that] unfolding contract_low by blast
  have "\<forall>c \<in> set ?changes. ch_Type c \<noteq> ''removed'' \<and> \<not> resigned c \<and> \<not> schema_file c"
    using low(1,2) unfolding contract_low schema_low by blast
  moreover have "True \<in> set tests" if "c \<in> set (take maxAssessedSymbols ?changes)" "find_tests env (ch_Name c) = Some tests" for c tests
    using coverage_low [OF low(4) that(1) kept [OF that(1)] that(2)] .
  ultimately show ?thesis using low(3) unfolding consumer_low by blast
qed simp

section \<open>Witnesses and a limit\<close>

definition demo_comparison :: RefComparison where
  "demo_comparison = \<lparr>rc_LibraryID = ''/p/r'', rc_BaseRef = ''v1'', rc_HeadRef = ''v2'',
     rc_Changes = [\<lparr>ch_Type = ''added'', ch_Name = ''f'', ch_Kind = ''func'', ch_FilePath = ''a.go'', ch_Before = [], ch_After = ''f()''\<rparr>]\<rparr>"

definition demo_searches :: searches where
  "demo_searches = \<lparr>find_dependents = (\<lambda>s. Some [''/p/r'']), find_tests = (\<lambda>s. Some [True])\<rparr>"

lemma demo_assessment:
  "\<exists>r. AssessChange (\<lambda>l b h. Inr demo_comparison) demo_searches (Some []) 0 [''u''] ''/p/r'' ''v1'' ''v2'' = Inr r
     \<and> ca_Level r = RiskLow \<and> ca_Comparison r = demo_comparison"
  by (simp add: AssessChange_def demo_comparison_def demo_searches_def Let_def contractFactor_def resigned_def
      consumerFactor_def external_libraries_def coverageFactor_def coverage_step_def schemaFactor_def schema_file_def
      path_Ext_def to_lower_def lower_char_def freshnessFactor_def IndexAges_def maxAssessedSymbols_def)

lemma overall_is_highest_witness:
  "\<exists>r. AssessChange (\<lambda>l b h. Inr demo_comparison) demo_searches (Some []) 0 [''u''] ''/p/r'' ''v1'' ''v2'' = Inr r
     \<and> ca_Level r = Max (insert RiskLow (rf_Level ` set (ca_Factors r)))"
  using demo_assessment overall_is_highest by blast

lemma low_verdict_hides_nothing_witness:
  "\<exists>r. AssessChange (\<lambda>l b h. Inr demo_comparison) demo_searches (Some []) 0 [''u''] ''/p/r'' ''v1'' ''v2'' = Inr r
     \<and> (\<forall>c \<in> set (rc_Changes (ca_Comparison r)). ch_Type c \<noteq> ''removed'' \<and> \<not> resigned c \<and> \<not> schema_file c)"
  using demo_assessment low_verdict_hides_nothing by meson

text \<open>An id whose ref contains a slash is not taken back to its library.\<close>

lemma base_library_slash_ref:
  "base_library ''/p/r/main'' = ''/p/r''" "base_library ''/p/r/feature/x'' = ''/p/r/feature''"
  by (simp_all add: base_library_def trim_prefix_def)

text \<open>Failed searches count as searches that found nothing: the factor claims there is no consumer.\<close>

lemma failed_searches_look_safe:
  "(\<forall>s. find_dependents env s = None) \<Longrightarrow> rf_Level (consumerFactor env l changes) = RiskLow
     \<and> rf_Summary (consumerFactor env l changes) = txt_no_consumers"
  by (simp add: consumerFactor_def external_libraries_def Let_def)

end
