(* ===== verification/Recovery.thy ===== *)
theory Recovery
  imports ApiKeys
begin

text \<open>
  Break-glass recovery tokens: \<^verbatim>\<open>internal/recovery/token.go\<close>, with the decoder of Go's
  \<^verbatim>\<open>base64.RawURLEncoding\<close> (the encoder is in theory ApiKeys). HMAC-SHA256, SHA-256 and the
  random bytes are arguments. The decoder is the lenient one the code uses: it skips line
  breaks anywhere in its input and ignores the unused bits of the last digit.
\<close>

section \<open>base64 without padding\<close>

definition base64_alphabet :: string where
  "base64_alphabet = ''ABCDEFGHIJKLMNOPQRSTUVWXYZabcdefghijklmnopqrstuvwxyz0123456789-_''"

definition base64_value :: "char \<Rightarrow> nat option" where
  "base64_value c = index_byte base64_alphabet c"

definition line_break :: "char \<Rightarrow> bool" where
  "line_break c \<longleftrightarrow> c = CHR 0x0A \<or> c = CHR 0x0D"

text \<open>The digits of the input; a byte outside the alphabet is an error.\<close>

fun base64_digits :: "string \<Rightarrow> nat list option" where
  "base64_digits [] = Some []"
| "base64_digits (c # s) =
     (if line_break c then base64_digits s
      else case base64_value c of
        None \<Rightarrow> None
      | Some d \<Rightarrow> map_option ((#) d) (base64_digits s))"

text \<open>The bytes of a sequence of digits; one digit alone at the end is an error.\<close>

fun octets :: "nat list \<Rightarrow> nat list option" where
  "octets [] = Some []"
| "octets [p] = None"
| "octets [p, q] = Some [p * 4 + q div 16]"
| "octets [p, q, r] = Some [p * 4 + q div 16, q mod 16 * 16 + r div 4]"
| "octets (p # q # r # t # ds) =
     map_option ((@) [p * 4 + q div 16, q mod 16 * 16 + r div 4, r mod 4 * 64 + t]) (octets ds)"

definition base64_decode :: "string \<Rightarrow> string option" where
  "base64_decode s = (case base64_digits s of None \<Rightarrow> None | Some ds \<Rightarrow> map_option bytes (octets ds))"

definition base64_encode :: "string \<Rightarrow> string" where
  "base64_encode s = raw_url_base64 (map of_char s)"

section \<open>Tokens\<close>

text \<open>HMAC-SHA256 under a key, and SHA-256.\<close>

record hashes =
  hmac_sha :: "string \<Rightarrow> string \<Rightarrow> string"
  sha_256 :: "string \<Rightarrow> string"

datatype token_error = KeyTooShort | LifetimeRange | NoRandom | InvalidToken | TokenExpired

definition recovery_prefix :: string where
  "recovery_prefix = ''gctx_recovery_''"

definition sign :: "hashes \<Rightarrow> string \<Rightarrow> string \<Rightarrow> string" where
  "sign h pepper payload = hmac_sha h pepper (''git-ctx/admin-recovery/v1'' @ [CHR 0x00] @ payload)"

text \<open>\<^verbatim>\<open>binary.BigEndian\<close> on eight bytes.\<close>

fun big_endian :: "nat \<Rightarrow> nat \<Rightarrow> string" where
  "big_endian 0 v = []"
| "big_endian (Suc n) v = big_endian n (v div 256) @ [char_of (v mod 256)]"

definition from_big_endian :: "string \<Rightarrow> nat" where
  "from_big_endian s = foldl (\<lambda>n c. n * 256 + of_char c) 0 s"

text \<open>
  \<^verbatim>\<open>Time.Unix\<close>, and \<^verbatim>\<open>time.Unix\<close> of an \<^verbatim>\<open>int64\<close>: the seconds are kept since the
  year 1, in 64 bits.
\<close>

definition unix_seconds :: "time \<Rightarrow> int" where
  "unix_seconds t = t div second"

definition year_one :: int where
  "year_one = 62135596800"

definition time_of_unix :: "int \<Rightarrow> time" where
  "time_of_unix s = (wrap64 (s + year_one) - year_one) * second"

definition Generate :: "hashes \<Rightarrow> string option \<Rightarrow> string \<Rightarrow> duration \<Rightarrow> time \<Rightarrow> token_error + string \<times> time" where
  "Generate h random pepper ttl now =
     (if length pepper < 32 then Inl KeyTooShort
      else if ttl < minute \<or> hour < ttl then Inl LifetimeRange
      else let expires = now + ttl in
        case random of
          None \<Rightarrow> Inl NoRandom
        | Some nonce \<Rightarrow>
            (let payload = big_endian 8 (nat (unix_seconds expires mod 2 ^ 64)) @ nonce;
                 encoded = base64_encode payload;
                 signature = sign h pepper encoded
             in Inr (recovery_prefix @ encoded @ ''.'' @ base64_encode signature, expires)))"

definition Verify :: "hashes \<Rightarrow> string \<Rightarrow> string \<Rightarrow> time \<Rightarrow> token_error + string \<times> time" where
  "Verify h token pepper now =
     (if length pepper < 32 \<or> \<not> has_prefix token recovery_prefix then Inl InvalidToken
      else case split_on CHR ''.'' (trim_prefix token recovery_prefix) of
        [encoded, tag] \<Rightarrow>
          (if base64_decode tag \<noteq> Some (sign h pepper encoded) then Inl InvalidToken
           else case base64_decode encoded of
             None \<Rightarrow> Inl InvalidToken
           | Some payload \<Rightarrow>
               (if length payload \<noteq> 40 then Inl InvalidToken
                else let expires = time_of_unix (wrap64 (int (from_big_endian (take 8 payload))))
                     in if \<not> now < expires then Inl TokenExpired
                        else Inr (sha_256 h token, expires)))
      | _ \<Rightarrow> Inl InvalidToken)"

section \<open>The decoder undoes the encoder\<close>

lemma base64_alphabet_distinct: "distinct base64_alphabet"
  by (simp add: base64_alphabet_def)

lemma index_byte_nth: "distinct s \<Longrightarrow> n < length s \<Longrightarrow> index_byte s (s ! n) = Some n"
  by (induction s arbitrary: n) (auto simp: nth_Cons split: nat.splits)

lemma base64_digit_value [simp]: "n < 64 \<Longrightarrow> base64_value (base64_digit n) = Some n"
  unfolding base64_value_def base64_digit_def base64_alphabet_def [symmetric]
  by (rule index_byte_nth [OF base64_alphabet_distinct]) (simp add: base64_alphabet_def)

lemma base64_digit_in: "n < 64 \<Longrightarrow> base64_digit n \<in> set base64_alphabet"
  unfolding base64_digit_def base64_alphabet_def [symmetric]
  by (rule nth_mem) (simp add: base64_alphabet_def)

lemma alphabet_marks: "c \<in> set base64_alphabet \<Longrightarrow> \<not> line_break c \<and> c \<noteq> CHR ''.''"
  by (auto simp: base64_alphabet_def line_break_def)

lemma base64_digits_map [simp]: "\<forall>d \<in> set ds. d < 64 \<Longrightarrow> base64_digits (map base64_digit ds) = Some ds"
  using alphabet_marks base64_digit_in by (induction ds) auto

lemma base64_digits_append:
  "base64_digits (u @ v) = (case base64_digits u of None \<Rightarrow> None | Some a \<Rightarrow> map_option ((@) a) (base64_digits v))"
  by (induction u) (cases "base64_digits v"; auto split: option.splits)+

text \<open>The digits of a byte sequence.\<close>

fun sextets :: "nat list \<Rightarrow> nat list" where
  "sextets [] = []"
| "sextets [a] = [a div 4, a mod 4 * 16]"
| "sextets [a, b] = [a div 4, a mod 4 * 16 + b div 16, b mod 16 * 4]"
| "sextets (a # b # c # rest) =
     [a div 4, a mod 4 * 16 + b div 16, b mod 16 * 4 + c div 64, c mod 64] @ sextets rest"

lemma raw_url_base64_sextets: "raw_url_base64 bs = map base64_digit (sextets bs)"
  by (induction bs rule: sextets.induct) simp_all

lemma sextet_bounds: "a < 256 \<Longrightarrow> b < 256 \<Longrightarrow> c < 256 \<Longrightarrow>
   a div 4 < (64::nat) \<and> a mod 4 * 16 + b div 16 < 64 \<and> b mod 16 * 4 + c div 64 < 64 \<and> c mod 64 < 64"
  by (auto simp: less_mult_imp_div_less)

lemma sextets_bound: "\<forall>b \<in> set bs. b < 256 \<Longrightarrow> \<forall>d \<in> set (sextets bs). d < 64"
proof (induction bs rule: sextets.induct)
  case (2 a) then show ?case using sextet_bounds [of a 0 0] by simp
next
  case (3 a b) then show ?case using sextet_bounds [of a b 0] by simp
next
  case (4 a b c rest) then show ?case using sextet_bounds [of a b c] by simp
qed simp

lemma join_digits:
  "x < n \<Longrightarrow> (m * n + x) div n = m" "x < n \<Longrightarrow> (m * n + x) mod n = (x :: nat)"
  by simp_all

lemma octets_sextets: "\<forall>b \<in> set bs. b < 256 \<Longrightarrow> octets (sextets bs) = Some bs"
proof (induction bs rule: sextets.induct)
  case (3 a b)
  then have "b div 16 < 16" by (auto simp: less_mult_imp_div_less)
  then show ?case by (simp add: join_digits)
next
  case (4 a b c rest)
  then have "b div 16 < 16" "c div 64 < 4" by (auto simp: less_mult_imp_div_less)
  with 4 show ?case by (simp add: join_digits)
qed simp_all

lemma of_char_bound: "\<forall>b \<in> set (map of_char s). b < (256::nat)"
  by auto

theorem base64_round_trip: "base64_decode (base64_encode s) = Some s"
  using sextets_bound [OF of_char_bound] octets_sextets [OF of_char_bound, of s]
  by (simp add: base64_decode_def base64_encode_def raw_url_base64_sextets bytes_def o_def)


lemma base64_encode_no_dot: "CHR ''.'' \<notin> set (base64_encode s)"
proof -
  have "c \<noteq> CHR ''.''" if "c \<in> set (base64_encode s)" for c
    using that sextets_bound [OF of_char_bound, of s] base64_digit_in alphabet_marks
    by (auto simp: base64_encode_def raw_url_base64_sextets)
  then show ?thesis by blast
qed

lemma length_big_endian [simp]: "length (big_endian n v) = n"
  by (induction n arbitrary: v) auto

lemma from_big_endian_snoc [simp]: "from_big_endian (s @ [c]) = from_big_endian s * 256 + of_char c"
  by (simp add: from_big_endian_def)

lemma from_big_endian: "from_big_endian (big_endian n v) = v mod 256 ^ n"
proof (induction n arbitrary: v)
  case (Suc n)
  have "v mod (256 * 256 ^ n) = 256 * (v div 256 mod 256 ^ n) + v mod 256"
    by (rule mod_mult2_eq)
  with Suc show ?case by simp
qed (simp add: from_big_endian_def)

lemma wrap64_mod: "min_int64 \<le> i \<Longrightarrow> i \<le> max_int64 \<Longrightarrow> wrap64 (i mod 2 ^ 64) = i"
  by (simp add: wrap64_def mod_add_left_eq)

lemma time_of_unix_seconds:
  assumes "0 \<le> t" "t < 2 ^ 62 * second"
  shows "time_of_unix (wrap64 (unix_seconds t mod 2 ^ 64)) = t div second * second"
proof -
  have "0 \<le> t div second" "t div second < 2 ^ 62" using assms by (auto simp: div_less_iff_less_mult)
  then show ?thesis by (simp add: time_of_unix_def unix_seconds_def wrap64_mod year_one_def)
qed

text \<open>
  A token is accepted until the whole second of its expiry, and from then on refused as
  expired. The digest it is remembered by is that of its text.
\<close>

theorem generated_token_verifies:
  assumes gen: "Generate h (Some nonce) pepper ttl now = Inr (token, expires)"
    and "length nonce = 32" "0 \<le> now" "now < 2 ^ 61 * second"
  shows "Verify h token pepper later =
    (if later < expires div second * second then Inr (sha_256 h token, expires div second * second)
     else Inl TokenExpired)"
proof -
  define payload where "payload = big_endian 8 (nat (unix_seconds expires mod 2 ^ 64)) @ nonce"
  have pepper: "32 \<le> length pepper" and ttl: "minute \<le> ttl" "ttl \<le> hour" and expires: "expires = now + ttl"
    and token: "token = recovery_prefix @ base64_encode payload @ ''.'' @ base64_encode (sign h pepper (base64_encode payload))"
    using gen unfolding Generate_def payload_def Let_def by (auto split: if_splits)
  have parts: "split_on CHR ''.'' (trim_prefix token recovery_prefix) =
      [base64_encode payload, base64_encode (sign h pepper (base64_encode payload))]"
    by (simp add: token split_on_append split_on_id base64_encode_no_dot)
  have "from_big_endian (take 8 payload) = nat (unix_seconds expires mod 2 ^ 64)"
  proof -
    have "nat (unix_seconds expires mod 2 ^ 64) < 2 ^ 64" by (simp add: nat_less_iff)
    then show ?thesis by (simp add: payload_def from_big_endian)
  qed
  then have "time_of_unix (wrap64 (int (from_big_endian (take 8 payload)))) = expires div second * second"
    using assms(3,4) ttl time_of_unix_seconds [of expires] by (simp add: expires)
  moreover have "length payload = 40" "has_prefix token recovery_prefix"
    using assms(2) by (simp_all add: payload_def token)
  ultimately show ?thesis
    using pepper parts by (simp add: Verify_def base64_round_trip)
qed

text \<open>
  The text of a token is not determined by what it says: a line break inside its signature is
  skipped by the decoder, so the altered text is accepted as well, under a digest of its own.
\<close>

lemma base64_decode_break: "base64_decode (u @ CHR 0x0A # v) = base64_decode (u @ v)"
proof -
  have "base64_digits (CHR 0x0A # v) = base64_digits v" by (simp add: line_break_def)
  then show ?thesis by (simp only: base64_decode_def base64_digits_append)
qed

lemma altered_token_verifies:
  assumes "Verify h (recovery_prefix @ encoded @ ''.'' @ u @ v) pepper now = Inr (d, expires)"
    and "CHR ''.'' \<notin> set encoded" "CHR ''.'' \<notin> set u" "CHR ''.'' \<notin> set v"
  shows "Verify h (recovery_prefix @ encoded @ ''.'' @ u @ CHR 0x0A # v) pepper now =
    Inr (sha_256 h (recovery_prefix @ encoded @ ''.'' @ u @ CHR 0x0A # v), expires)"
  using assms by (auto simp: Verify_def split_on_append split_on_id base64_decode_break Let_def
      split: if_splits option.splits)

definition demo_hashes :: hashes where
  "demo_hashes = \<lparr>hmac_sha = (\<lambda>k m. ''tag''), sha_256 = (\<lambda>s. s)\<rparr>"

definition demo_pepper :: string where
  "demo_pepper = replicate 32 CHR ''k''"

lemma generated_token_verifies_witness:
  "\<exists>token expires. Generate demo_hashes (Some (replicate 32 CHR ''n'')) demo_pepper (5 * minute) (90 * second) = Inr (token, expires)
     \<and> Verify demo_hashes token demo_pepper (100 * second) = Inr (token, 390 * second)
     \<and> Verify demo_hashes token demo_pepper (390 * second) = Inl TokenExpired"
proof -
  obtain token where gen: "Generate demo_hashes (Some (replicate 32 CHR ''n'')) demo_pepper (5 * minute) (90 * second)
      = Inr (token, 390 * second)"
    by (simp add: Generate_def demo_pepper_def Let_def)
  show ?thesis
    using gen generated_token_verifies [OF gen, of "100 * second"] generated_token_verifies [OF gen, of "390 * second"]
    by (auto simp: demo_hashes_def)
qed

end
