(* ===== verification/Accounts.thy ===== *)
theory Accounts
  imports ToolCache Recovery
begin

text \<open>
  Who a request is: \<^verbatim>\<open>internal/app/auth.go\<close>, the attempt limiter and the rejection counter of
  \<^verbatim>\<open>app.go\<close>, the claims of \<^verbatim>\<open>internal/auth/oidc.go\<close> and the account operations of
  \<^verbatim>\<open>adminusers.go\<close>. The tables a login touches are fields of one record \<open>accounts\<close>,
  together with the process's bootstrap token and its two counters. A statement that fails is a
  value of the argument \<open>fault\<close>. URL and address parsing, the random tokens, the verified
  tokens of the identity provider and the hashes are arguments. One operation reads the clock
  once: \<open>now\<close> stands for the readings of \<^verbatim>\<open>time.Now\<close> of one call.
\<close>

section \<open>Requests and replies\<close>

text \<open>\<open>rq_header\<close> is \<^verbatim>\<open>Header.Get\<close>: an absent header is the empty string.\<close>

record request =
  rq_method :: string
  rq_host :: string
  rq_tls :: bool
  rq_remote :: string
  rq_header :: "string \<Rightarrow> string"
  rq_cookie :: "string option"

record url =
  url_Scheme :: string
  url_Host :: string
  url_Path :: string
  url_RawQuery :: string
  url_Fragment :: string
  url_Opaque :: string

text \<open>A session cookie: value, expiry, Secure, and whether SameSite is Strict (else Lax).\<close>

datatype cookie = SessionCookie string time bool bool | DroppedCookie bool

record reply =
  rp_status :: nat
  rp_code :: string
  rp_cookie :: "cookie option"
  rp_to :: string

definition problem :: "nat \<Rightarrow> string \<Rightarrow> reply" where
  "problem status code = \<lparr>rp_status = status, rp_code = code, rp_cookie = None, rp_to = []\<rparr>"

text \<open>The identity a token of the provider stands for.\<close>

record Identity =
  id_Subject :: string
  id_Username :: string
  id_Email :: string
  id_BitbucketUserSlug :: string
  id_GitLabUserID :: string
  id_Roles :: "string list"
  id_Groups :: "string list"
  id_ACLGroups :: "string list"

text \<open>
  \<open>host_of\<close> is the host of \<^verbatim>\<open>net.SplitHostPort\<close>, \<open>addr_text\<close> the text of an
  address, \<open>trusted_cidrs\<close> the setting \<^verbatim>\<open>security.trustedProxyCidrs\<close>. The last fields are
  the identity provider: whether it is configured and its discovery answers, its login
  address, the exchange of a code for an ID token and an access token, and the verification
  of either.
\<close>

record web_env =
  url_Parse :: "string \<Rightarrow> url option"
  host_of :: "string \<Rightarrow> string option"
  addr_text :: "nat \<Rightarrow> string"
  web_keys :: key_env
  web_hashes :: hashes
  recovery_key :: string
  trusted_cidrs :: "string list option"
  oidc_ready :: bool
  oauth_ready :: bool
  auth_code_url :: "string \<Rightarrow> string \<Rightarrow> string"
  exchange_code :: "string \<Rightarrow> string \<Rightarrow> (string \<times> string) option"
  verify_id_token :: "string \<Rightarrow> Identity option"
  verify_access_token :: "string \<Rightarrow> Identity option"
  end_session_url :: "string option"

section \<open>Addresses, transport and redirects\<close>

definition remoteIP :: "web_env \<Rightarrow> string \<Rightarrow> string" where
  "remoteIP env address =
     (case host_of env address of
        Some host \<Rightarrow> trim_chars host ''[]''
      | None \<Rightarrow> trim_chars address ''[]'')"

definition isTrustedProxy :: "web_env \<Rightarrow> string \<Rightarrow> bool" where
  "isTrustedProxy env address =
     (case parse_addr (web_keys env) address of
        None \<Rightarrow> False
      | Some ip \<Rightarrow>
          (case trusted_cidrs env of
             None \<Rightarrow> False
           | Some cidrs \<Rightarrow> list_ex (\<lambda>cidr. case parse_prefix (web_keys env) cidr of
                 None \<Rightarrow> False | Some contains \<Rightarrow> contains ip) cidrs))"

definition first_item :: "string \<Rightarrow> string" where
  "first_item value = trim_space (hd (split_on CHR '','' value))"

definition requestIP :: "web_env \<Rightarrow> request \<Rightarrow> string" where
  "requestIP env r =
     (let remote = remoteIP env (rq_remote r);
          forwarded = first_item (rq_header r ''X-Forwarded-For'')
      in if isTrustedProxy env remote \<and> forwarded \<noteq> [] then
           (case parse_addr (web_keys env) (trim_chars forwarded ''[]'') of
              Some ip \<Rightarrow> addr_text env ip
            | None \<Rightarrow> remote)
         else remote)"

text \<open>\<^verbatim>\<open>strings.EqualFold\<close> on ASCII letters.\<close>

definition equal_fold :: "string \<Rightarrow> string \<Rightarrow> bool" where
  "equal_fold s t \<longleftrightarrow> to_lower s = to_lower t"

definition requestIsSecure :: "request \<Rightarrow> bool" where
  "requestIsSecure r \<longleftrightarrow> rq_tls r
     \<or> equal_fold (first_item (rq_header r ''X-Forwarded-Proto'')) ''https''
     \<or> equal_fold (rq_header r ''X-Forwarded-Ssl'') ''on''"

definition cookieMutationAllowed :: "web_env \<Rightarrow> request \<Rightarrow> bool" where
  "cookieMutationAllowed env r =
     (if rq_method r \<in> {''GET'', ''HEAD'', ''OPTIONS'', ''TRACE''} then True
      else let origin = trim_space (rq_header r ''Origin'') in
        if origin = [] then False
        else case url_Parse env origin of
          None \<Rightarrow> False
        | Some parsed \<Rightarrow>
            (if url_Path parsed \<noteq> [] \<or> url_RawQuery parsed \<noteq> [] \<or> url_Fragment parsed \<noteq> [] then False
             else equal_fold (url_Scheme parsed) (if requestIsSecure r then ''https'' else ''http'')
                  \<and> equal_fold (url_Host parsed) (rq_host r)))"

text \<open>The Origin check of the two token logins.\<close>

definition login_origin_allowed :: "web_env \<Rightarrow> request \<Rightarrow> bool" where
  "login_origin_allowed env r =
     (let origin = rq_header r ''Origin'' in
      origin = [] \<or>
      (case url_Parse env origin of
         None \<Rightarrow> False
       | Some parsed \<Rightarrow> url_Scheme parsed \<in> {''http'', ''https''} \<and> equal_fold (url_Host parsed) (rq_host r)))"

definition control_char :: "char \<Rightarrow> bool" where
  "control_char c \<longleftrightarrow> (of_char c :: nat) < 32 \<or> (of_char c :: nat) = 127"

definition safeReturnTo :: "web_env \<Rightarrow> string \<Rightarrow> string" where
  "safeReturnTo env raw =
     (if raw = [] \<or> \<not> has_prefix raw ''/'' \<or> has_prefix raw ''//'' then ''/''
      else if contains_any raw [CHR 0x5C] then ''/''
      else if list_ex control_char raw then ''/''
      else case url_Parse env raw of
        None \<Rightarrow> ''/''
      | Some parsed \<Rightarrow>
          (if url_Scheme parsed \<noteq> [] \<or> url_Host parsed \<noteq> [] \<or> url_Opaque parsed \<noteq> [] then ''/'' else raw))"

section \<open>Counting attempts\<close>

type_synonym attempt_limiter = "string \<rightharpoonup> time list"

definition credentialAttemptLimit :: nat where
  "credentialAttemptLimit = 10"

definition credentialAttemptWindow :: duration where
  "credentialAttemptWindow = 5 * minute"

definition attempts_of :: "attempt_limiter \<Rightarrow> string \<Rightarrow> time list" where
  "attempts_of l key = (case l key of None \<Rightarrow> [] | Some ats \<Rightarrow> ats)"

definition allow :: "time \<Rightarrow> string \<Rightarrow> nat \<Rightarrow> duration \<Rightarrow> attempt_limiter \<Rightarrow> bool \<times> attempt_limiter" where
  "allow now key limit window l =
     (let kept = filter (\<lambda>at. time_sub now at < window) (attempts_of l key);
          l' = (if length kept = 0 then l(key := None) else l)
      in if limit \<le> length kept then (False, l'(key \<mapsto> kept)) else (True, l'(key \<mapsto> kept @ [now])))"

text \<open>A window of refused keys: its start and its count.\<close>

record rejection_counter =
  next_prune :: time
  windows :: "(string \<times> time \<times> nat) list"

definition trackedAddresses :: nat where
  "trackedAddresses = 4096"

definition sharedRejectionKey :: string where
  "sharedRejectionKey = ''(more addresses than are tracked individually)''"

definition pruned :: "time \<Rightarrow> duration \<Rightarrow> rejection_counter \<Rightarrow> rejection_counter" where
  "pruned now window c =
     (if trackedAddresses \<le> length (windows c) \<and> \<not> now < next_prune c then
        c\<lparr>windows := filter (\<lambda>w. \<not> window \<le> time_sub now (fst (snd w))) (windows c),
          next_prune := now + window div 8\<rparr>
      else c)"

definition count_rejection ::
    "time \<Rightarrow> string \<Rightarrow> duration \<Rightarrow> rejection_counter \<Rightarrow> (nat \<times> bool \<times> string) \<times> rejection_counter" where
  "count_rejection now address window c0 =
     (let c = pruned now window c0;
          tracked = (if map_of (windows c) address = None \<and> trackedAddresses \<le> length (windows c)
                     then sharedRejectionKey else address);
          seen = (case map_of (windows c) tracked of
                    None \<Rightarrow> (now, 0)
                  | Some w \<Rightarrow> (if window \<le> time_sub now (fst w) then (now, 0) else w));
          n = snd seen + 1
      in ((n, n \<in> {1, 10, 100, 1000}, tracked), c\<lparr>windows := AList.update tracked (fst seen, n) (windows c)\<rparr>))"


section \<open>Tables\<close>

record user_row =
  usr_id :: string
  usr_subject :: string
  usr_username :: string
  usr_email :: string
  usr_status :: string
  usr_managed :: bool

record identity_row =
  idn_slug :: string
  idn_gitlab :: string
  idn_groups :: string

record session_row =
  ses_hash :: string
  ses_user :: string
  ses_expires :: time
  ses_seen :: time
  ses_created :: time

record flow_row =
  flw_state :: string
  flw_verifier :: string
  flw_return :: string
  flw_expires :: time

record recovery_row =
  rec_hash :: string
  rec_expires :: time
  rec_used :: time

text \<open>An audit row, without the caller's address and the metadata text.\<close>

record audit_row =
  aud_at :: time
  aud_actor :: string
  aud_action :: string
  aud_resource :: string
  aud_outcome :: string

record accounts =
  acc_users :: "user_row list"
  acc_roles :: "(string \<times> string) list"
  acc_identities :: "string \<rightharpoonup> identity_row"
  acc_sessions :: "session_row list"
  acc_flows :: "flow_row list"
  acc_recovery :: "recovery_row list"
  acc_bootstrap_row :: bool
  acc_keys :: key_store
  acc_audit :: "audit_row list"
  acc_token :: string
  acc_persisted :: bool
  acc_token_path :: bool
  acc_token_file :: bool
  acc_attempts :: attempt_limiter
  acc_rejected :: rejection_counter

text \<open>The statements that can fail.\<close>

datatype account_statement =
    LoadUser | LoadRoles | CountBootstrap | InsertBootstrapUser | InsertSession | LoadSession
  | SeenSession | ExtendSession | DeleteSession | BeginRecovery | InsertRecoveryToken
  | ActivateRecoveryUser | GrantRecoveryRole | DropRecoverySessions | InsertRecoverySession | CommitRecovery
  | InsertFlow | LoadFlow | DeleteFlow | BeginIdentity | UpsertUser | LoadUpserted | UpsertIdentityRow
  | DeleteRoles | InsertRole | CommitIdentity
  | DropBootstrapRow | DropBootstrapSessions | RevokeBootstrapKeys | RemoveTokenFile
  | BeginUser | WriteUser | DropUserSessions | RevokeUserKeys | CommitUser
  | InsertAudit

type_synonym account_faults = "account_statement \<Rightarrow> bool"

definition seeded_roles :: "string list" where
  "seeded_roles = [''platform-admin'', ''security-admin'', ''mcp-admin'', ''source-admin'', ''search-admin'',
     ''auditor'', ''developer'', ''service-account'', ''readonly-operator'']"

text \<open>The row's id is the time in nanoseconds; a second row at the same instant is refused and ignored.\<close>

definition audit :: "account_faults \<Rightarrow> time \<Rightarrow> string \<Rightarrow> string \<Rightarrow> string \<Rightarrow> string \<Rightarrow> accounts \<Rightarrow> accounts" where
  "audit fault now actor action resource outcome st =
     (if fault InsertAudit \<or> list_ex (\<lambda>a. aud_at a = now) (acc_audit st) then st
      else st\<lparr>acc_audit := acc_audit st @ [\<lparr>aud_at = now, aud_actor = actor, aud_action = action,
             aud_resource = resource, aud_outcome = outcome\<rparr>]\<rparr>)"

definition user_of :: "accounts \<Rightarrow> string \<Rightarrow> user_row option" where
  "user_of st uid = List.find (\<lambda>u. usr_id u = uid) (acc_users st)"

definition active_user :: "accounts \<Rightarrow> string \<Rightarrow> user_row option" where
  "active_user st uid = List.find (\<lambda>u. usr_id u = uid \<and> usr_status u = ''active'') (acc_users st)"

definition userRoles :: "account_faults \<Rightarrow> accounts \<Rightarrow> string \<Rightarrow> string list option" where
  "userRoles fault st uid =
     (if fault LoadRoles then None else Some (map snd (filter (\<lambda>r. fst r = uid) (acc_roles st))))"

text \<open>\<^verbatim>\<open>COALESCE\<close> of the left join with the identity row.\<close>

definition identity_of :: "accounts \<Rightarrow> string \<Rightarrow> identity_row" where
  "identity_of st uid =
     (case acc_identities st uid of
        None \<Rightarrow> \<lparr>idn_slug = [], idn_gitlab = [], idn_groups = []\<rparr>
      | Some row \<Rightarrow> row)"

definition splitCSV :: "string \<Rightarrow> string list" where
  "splitCSV value = (if value = [] then [] else split_on CHR '','' value)"

definition add_groups :: "string list \<Rightarrow> string list \<Rightarrow> string list" where
  "add_groups out groups = foldl (\<lambda>out g. if g \<noteq> [] \<and> g \<notin> set out then out @ [g] else out) out groups"

definition sourceACLPrincipals :: "string \<Rightarrow> string \<Rightarrow> string list \<Rightarrow> string list" where
  "sourceACLPrincipals bitbucketSlug gitlabID groups =
     add_groups ((if bitbucketSlug \<noteq> [] then [bitbucketSlug, ''bitbucket:licensed''] else [])
       @ (if gitlabID \<noteq> [] then [''gitlab:'' @ gitlabID, ''gitlab:authenticated''] else [])) groups"

definition aclPrincipals :: "string \<Rightarrow> string list \<Rightarrow> string list" where
  "aclPrincipals primary groups = add_groups (if primary \<noteq> [] then [primary] else []) groups"

definition searchPrincipals :: "Principal \<Rightarrow> string list" where
  "searchPrincipals p = WithUnrestricted (aclPrincipals (p_ACLPrincipal p) (p_ACLPrincipals p)) (p_Roles p)"

definition acl_principal :: "string \<Rightarrow> string \<Rightarrow> string" where
  "acl_principal slug gitlab = (if slug = [] \<and> gitlab \<noteq> [] then ''gitlab:'' @ gitlab else slug)"

definition bootstrap_id :: string where "bootstrap_id = ''bootstrap-admin''"
definition recovery_id :: string where "recovery_id = ''break-glass-admin''"

text \<open>The principal of a stored account.\<close>

definition stored_principal :: "accounts \<Rightarrow> string \<Rightarrow> string list \<Rightarrow> Principal" where
  "stored_principal st uid roles =
     (let i = identity_of st uid in
      \<lparr>p_UserID = uid, p_ACLPrincipal = acl_principal (idn_slug i) (idn_gitlab i),
        p_ACLPrincipals = sourceACLPrincipals (idn_slug i) (idn_gitlab i) (splitCSV (idn_groups i)),
        p_Roles = roles, p_KeyID = [], p_Scopes = [], p_AllowedRepositories = []\<rparr>)"

section \<open>The bootstrap administrator\<close>

definition bootstrapAvailable :: "account_faults \<Rightarrow> accounts \<Rightarrow> bool" where
  "bootstrapAvailable fault st \<longleftrightarrow> acc_token st \<noteq> [] \<and>
     (\<not> acc_persisted st \<or> (\<not> fault CountBootstrap \<and> acc_bootstrap_row st))"

definition validBootstrapToken :: "account_faults \<Rightarrow> accounts \<Rightarrow> string \<Rightarrow> bool" where
  "validBootstrapToken fault st candidate \<longleftrightarrow> acc_token st \<noteq> [] \<and> candidate = acc_token st \<and>
     (\<not> acc_persisted st \<or> (\<not> fault CountBootstrap \<and> acc_bootstrap_row st))"

definition revoke_keys_of :: "time \<Rightarrow> string \<Rightarrow> key_store \<Rightarrow> key_store" where
  "revoke_keys_of now uid ks =
     ks\<lparr>api_keys := map (\<lambda>k. if row_user k = uid \<and> row_revoked k = None then k\<lparr>row_revoked := Some now\<rparr> else k)
          (api_keys ks)\<rparr>"

definition drop_sessions_of :: "string \<Rightarrow> accounts \<Rightarrow> accounts" where
  "drop_sessions_of uid st = st\<lparr>acc_sessions := filter (\<lambda>s. ses_user s \<noteq> uid) (acc_sessions st)\<rparr>"

definition disableBootstrapAdmin :: "account_faults \<Rightarrow> time \<Rightarrow> accounts \<Rightarrow> accounts" where
  "disableBootstrapAdmin fault now st =
     (let st1 = st\<lparr>acc_token := [], acc_token_path := False,
            acc_token_file := acc_token_file st \<and> (acc_token_path st \<longrightarrow> fault RemoveTokenFile)\<rparr>;
          st2 = (if fault DropBootstrapRow then st1 else st1\<lparr>acc_bootstrap_row := False\<rparr>);
          st3 = (if fault DropBootstrapSessions then st2 else drop_sessions_of bootstrap_id st2)
      in if fault RevokeBootstrapKeys then st3
         else st3\<lparr>acc_keys := revoke_keys_of now bootstrap_id (acc_keys st3)\<rparr>)"

text \<open>\<^verbatim>\<open>INSERT INTO users ... ON CONFLICT(id) DO NOTHING\<close>: the subject is unique as well.\<close>

definition insert_bootstrap_user :: "accounts \<Rightarrow> accounts option" where
  "insert_bootstrap_user st =
     (if user_of st bootstrap_id \<noteq> None then Some st
      else if list_ex (\<lambda>u. usr_subject u = bootstrap_id) (acc_users st) then None
      else Some (st\<lparr>acc_users := acc_users st @ [\<lparr>usr_id = bootstrap_id, usr_subject = bootstrap_id,
             usr_username = bootstrap_id, usr_email = [], usr_status = ''active'', usr_managed = False\<rparr>]\<rparr>))"


section \<open>Sessions\<close>

definition browserSessionLifetime :: duration where
  "browserSessionLifetime = 12 * hour"

definition sessionRenewalThreshold :: duration where
  "sessionRenewalThreshold = 2 * hour"

definition sessionHash :: "web_env \<Rightarrow> string \<Rightarrow> string" where
  "sessionHash env raw = sha_256 (web_hashes env) raw"

definition sessionCookie :: "request \<Rightarrow> string \<Rightarrow> time \<Rightarrow> cookie" where
  "sessionCookie r value expires = SessionCookie value expires (requestIsSecure r) False"

definition recoverySessionCookie :: "request \<Rightarrow> string \<Rightarrow> time \<Rightarrow> cookie" where
  "recoverySessionCookie r value expires = SessionCookie value expires (requestIsSecure r) True"

text \<open>The insert checks the primary key and that the user exists.\<close>

definition insert_session :: "time \<Rightarrow> string \<Rightarrow> string \<Rightarrow> time \<Rightarrow> accounts \<Rightarrow> accounts option" where
  "insert_session now h uid expires st =
     (if list_ex (\<lambda>s. ses_hash s = h) (acc_sessions st) \<or> user_of st uid = None then None
      else Some (st\<lparr>acc_sessions := acc_sessions st @
             [\<lparr>ses_hash = h, ses_user = uid, ses_expires = expires, ses_seen = now, ses_created = now\<rparr>]\<rparr>))"

definition update_session :: "string \<Rightarrow> (session_row \<Rightarrow> session_row) \<Rightarrow> accounts \<Rightarrow> accounts" where
  "update_session h f st =
     st\<lparr>acc_sessions := map (\<lambda>s. if ses_hash s = h then f s else s) (acc_sessions st)\<rparr>"

definition sessionPrincipal ::
    "web_env \<Rightarrow> account_faults \<Rightarrow> time \<Rightarrow> string \<Rightarrow> accounts \<Rightarrow> (Principal \<times> time) option \<times> accounts" where
  "sessionPrincipal env fault now raw st =
     (if raw = [] then (None, st)
      else let h = sessionHash env raw in
        case (if fault LoadSession then None else List.find (\<lambda>s. ses_hash s = h) (acc_sessions st)) of
          None \<Rightarrow> (None, st)
        | Some s \<Rightarrow>
            (if active_user st (ses_user s) = None \<or> ses_expires s < now then (None, st)
             else case userRoles fault st (ses_user s) of
               None \<Rightarrow> (None, st)
             | Some roles \<Rightarrow>
                 (if ses_user s = bootstrap_id \<and> \<not> bootstrapAvailable fault st then (None, st)
                  else (Some (stored_principal st (ses_user s)
                          (if ses_user s = bootstrap_id then [''platform-admin''] else roles), ses_expires s),
                        if fault SeenSession then st else update_session h (\<lambda>s. s\<lparr>ses_seen := now\<rparr>) st))))"

definition renewSession ::
    "web_env \<Rightarrow> account_faults \<Rightarrow> time \<Rightarrow> request \<Rightarrow> string \<Rightarrow> Principal \<Rightarrow> time \<Rightarrow> accounts \<Rightarrow> cookie option \<times> accounts" where
  "renewSession env fault now r raw p expires st =
     (if p_UserID p = bootstrap_id \<or> p_UserID p = recovery_id then (None, st)
      else if sessionRenewalThreshold < time_sub expires now then (None, st)
      else let new_expiry = now + browserSessionLifetime in
        if fault ExtendSession then (None, st)
        else (Some (sessionCookie r raw new_expiry),
              update_session (sessionHash env raw) (\<lambda>s. s\<lparr>ses_expires := new_expiry\<rparr>) st))"

section \<open>Identities of the provider\<close>

datatype identity_error = UserDisabled | IdentityFault

text \<open>
  \<^verbatim>\<open>INSERT INTO users ... ON CONFLICT(subject) DO UPDATE\<close>, whose id is the subject: the
  name and the address follow the provider, the status does not. Another row with that id is
  an error.
\<close>

definition upsert_user :: "Identity \<Rightarrow> accounts \<Rightarrow> accounts option" where
  "upsert_user i st =
     (if list_ex (\<lambda>u. usr_subject u = id_Subject i) (acc_users st) then
        Some (st\<lparr>acc_users := map (\<lambda>u. if usr_subject u = id_Subject i
            then u\<lparr>usr_username := id_Username i, usr_email := id_Email i\<rparr> else u) (acc_users st)\<rparr>)
      else if user_of st (id_Subject i) \<noteq> None then None
      else Some (st\<lparr>acc_users := acc_users st @ [\<lparr>usr_id = id_Subject i, usr_subject = id_Subject i,
             usr_username = id_Username i, usr_email = id_Email i, usr_status = ''active'', usr_managed = False\<rparr>]\<rparr>))"

definition insert_roles :: "string \<Rightarrow> string list \<Rightarrow> accounts \<Rightarrow> accounts option" where
  "insert_roles uid roles st =
     (if list_all (\<lambda>r. r \<in> set seeded_roles) roles then
        Some (st\<lparr>acc_roles := foldl (\<lambda>rs r. if (uid, r) \<in> set rs then rs else rs @ [(uid, r)]) (acc_roles st) roles\<rparr>)
      else None)"

definition upsert_tx :: "account_faults \<Rightarrow> Identity \<Rightarrow> accounts \<Rightarrow> (identity_error + string) \<times> accounts" where
  "upsert_tx fault i st =
     (case (if fault UpsertUser then None else upsert_user i st) of
        None \<Rightarrow> (Inl IdentityFault, st)
      | Some st1 \<Rightarrow>
          (case (if fault LoadUpserted then None else List.find (\<lambda>u. usr_subject u = id_Subject i) (acc_users st1)) of
             None \<Rightarrow> (Inl IdentityFault, st)
           | Some u \<Rightarrow>
               (if usr_status u \<noteq> ''active'' then (Inl UserDisabled, st)
                else if fault UpsertIdentityRow then (Inl IdentityFault, st)
                else let uid = usr_id u;
                         st2 = st1\<lparr>acc_identities := (acc_identities st1)(uid \<mapsto>
                           \<lparr>idn_slug = id_BitbucketUserSlug i, idn_gitlab = id_GitLabUserID i,
                             idn_groups = join_with '','' (id_ACLGroups i)\<rparr>)\<rparr>
                  in if usr_managed u then (Inr uid, st2)
                     else if fault DeleteRoles then (Inl IdentityFault, st)
                     else case (if fault InsertRole \<and> id_Roles i \<noteq> [] then None
                                else insert_roles uid (id_Roles i)
                                  (st2\<lparr>acc_roles := filter (\<lambda>r. fst r \<noteq> uid) (acc_roles st2)\<rparr>)) of
                       None \<Rightarrow> (Inl IdentityFault, st)
                     | Some st3 \<Rightarrow> (Inr uid, st3))))"

definition upsertIdentity :: "account_faults \<Rightarrow> Identity \<Rightarrow> accounts \<Rightarrow> (identity_error + string) \<times> accounts" where
  "upsertIdentity fault i st =
     (if fault BeginIdentity then (Inl IdentityFault, st)
      else case upsert_tx fault i st of
        (Inl e, st') \<Rightarrow> (Inl e, st')
      | (Inr uid, st') \<Rightarrow> (if fault CommitIdentity then (Inl IdentityFault, st) else (Inr uid, st')))"


section \<open>The token logins\<close>

definition recoverySessionLifetime :: duration where
  "recoverySessionLifetime = 30 * minute"

text \<open>
  Both logins first check the Origin, then the limiter. \<open>body\<close> is the token of the decoded
  request, \<open>random\<close> the new session's value.
\<close>

definition bootstrapLogin ::
    "web_env \<Rightarrow> account_faults \<Rightarrow> time \<Rightarrow> string option \<Rightarrow> request \<Rightarrow> string option \<Rightarrow> accounts \<Rightarrow> reply \<times> accounts" where
  "bootstrapLogin env fault now random r body st =
     (if \<not> login_origin_allowed env r then (problem 403 ''origin_not_allowed'', st)
      else let (ok, attempts) = allow now (''bootstrap:'' @ requestIP env r)
                 credentialAttemptLimit credentialAttemptWindow (acc_attempts st);
               st1 = st\<lparr>acc_attempts := attempts\<rparr>
      in if \<not> ok then (problem 429 ''too_many_attempts'',
             audit fault now ''anonymous'' ''bootstrap.login'' ''bootstrap'' ''throttled'' st1)
         else if body = None \<or> \<not> validBootstrapToken fault st1 (trim_space (the body)) then
           (problem 401 ''invalid_bootstrap_token'',
             audit fault now ''anonymous'' ''bootstrap.login'' ''bootstrap'' ''failure'' st1)
         else case (if fault InsertBootstrapUser then None else insert_bootstrap_user st1) of
           None \<Rightarrow> (problem 500 ''bootstrap_login_failed'', st1)
         | Some st2 \<Rightarrow>
             (case random of
                None \<Rightarrow> (problem 500 ''bootstrap_login_failed'', st2)
              | Some raw \<Rightarrow>
                  (let expires = now + recoverySessionLifetime in
                   case (if fault InsertSession then None
                         else insert_session now (sessionHash env raw) bootstrap_id expires st2) of
                     None \<Rightarrow> (problem 500 ''bootstrap_login_failed'', st2)
                   | Some st3 \<Rightarrow>
                       (\<lparr>rp_status = 200, rp_code = ''authenticated'',
                          rp_cookie = Some (recoverySessionCookie r raw expires), rp_to = []\<rparr>,
                        audit fault now bootstrap_id ''bootstrap.login'' ''bootstrap'' ''success'' st3))))"

text \<open>\<^verbatim>\<open>INSERT INTO admin_recovery_tokens ... ON CONFLICT DO NOTHING\<close>: the number of rows.\<close>

definition use_recovery_token :: "time \<Rightarrow> string \<Rightarrow> time \<Rightarrow> accounts \<Rightarrow> nat \<times> accounts" where
  "use_recovery_token now h expires st =
     (if list_ex (\<lambda>t. rec_hash t = h) (acc_recovery st) then (0, st)
      else (1, st\<lparr>acc_recovery := acc_recovery st @ [\<lparr>rec_hash = h, rec_expires = expires, rec_used = now\<rparr>]\<rparr>))"

text \<open>The account of the recovery administrator is created or made active again.\<close>

definition activate_recovery_user :: "accounts \<Rightarrow> accounts option" where
  "activate_recovery_user st =
     (if user_of st recovery_id \<noteq> None then
        Some (st\<lparr>acc_users := map (\<lambda>u. if usr_id u = recovery_id then u\<lparr>usr_status := ''active''\<rparr> else u) (acc_users st)\<rparr>)
      else if list_ex (\<lambda>u. usr_subject u = recovery_id) (acc_users st) then None
      else Some (st\<lparr>acc_users := acc_users st @ [\<lparr>usr_id = recovery_id, usr_subject = recovery_id,
             usr_username = recovery_id, usr_email = [], usr_status = ''active'', usr_managed = False\<rparr>]\<rparr>))"

text \<open>The statements after the token was consumed, in the same transaction.\<close>

definition recovery_session ::
    "web_env \<Rightarrow> account_faults \<Rightarrow> time \<Rightarrow> string \<Rightarrow> time \<Rightarrow> accounts \<Rightarrow> accounts option" where
  "recovery_session env fault now raw expires st =
     (case (if fault ActivateRecoveryUser then None else activate_recovery_user st) of
        None \<Rightarrow> None
      | Some st1 \<Rightarrow>
          (if fault GrantRecoveryRole then None
           else case insert_roles recovery_id [''platform-admin''] st1 of
             None \<Rightarrow> None
           | Some st2 \<Rightarrow>
               (if fault DropRecoverySessions \<or> fault InsertRecoverySession then None
                else insert_session now (sessionHash env raw) recovery_id expires (drop_sessions_of recovery_id st2))))"

definition recovery_tx ::
    "web_env \<Rightarrow> account_faults \<Rightarrow> time \<Rightarrow> string \<Rightarrow> request \<Rightarrow> string \<Rightarrow> time \<Rightarrow> accounts \<Rightarrow> reply \<times> accounts" where
  "recovery_tx env fault now raw r tokenHash tokenExpires st =
     (if fault BeginRecovery \<or> fault InsertRecoveryToken then (problem 500 ''recovery_login_failed'', st)
      else case use_recovery_token now tokenHash tokenExpires st of (affected, st1) \<Rightarrow>
        if affected \<noteq> 1 then
          (problem 401 ''invalid_recovery_token'',
           audit fault now ''anonymous'' ''recovery.login'' ''break-glass'' ''failure'' st)
        else let sessionExpires = now + recoverySessionLifetime in
          case recovery_session env fault now raw sessionExpires st1 of
            None \<Rightarrow> (problem 500 ''recovery_login_failed'', st)
          | Some st2 \<Rightarrow>
              (if fault CommitRecovery then (problem 500 ''recovery_login_failed'', st)
               else (\<lparr>rp_status = 200, rp_code = ''authenticated'',
                       rp_cookie = Some (recoverySessionCookie r raw sessionExpires), rp_to = []\<rparr>,
                     audit fault now recovery_id ''recovery.login'' ''break-glass'' ''success'' st2)))"

definition recoveryLogin ::
    "web_env \<Rightarrow> account_faults \<Rightarrow> time \<Rightarrow> string option \<Rightarrow> request \<Rightarrow> string option \<Rightarrow> accounts \<Rightarrow> reply \<times> accounts" where
  "recoveryLogin env fault now random r body st =
     (if \<not> login_origin_allowed env r then (problem 403 ''origin_not_allowed'', st)
      else let (ok, attempts) = allow now (''recovery:'' @ requestIP env r)
                 credentialAttemptLimit credentialAttemptWindow (acc_attempts st);
               st1 = st\<lparr>acc_attempts := attempts\<rparr>
      in if \<not> ok then (problem 429 ''too_many_attempts'',
             audit fault now ''anonymous'' ''recovery.login'' ''break-glass'' ''throttled'' st1)
         else case (case body of None \<Rightarrow> Inl InvalidToken
                    | Some token \<Rightarrow> Verify (web_hashes env) (trim_space token) (recovery_key env) now) of
           Inl e \<Rightarrow> (problem 401 ''invalid_recovery_token'',
             audit fault now ''anonymous'' ''recovery.login'' ''break-glass'' ''failure'' st1)
         | Inr (tokenHash, tokenExpires) \<Rightarrow>
             (case random of
                None \<Rightarrow> (problem 500 ''recovery_login_failed'', st1)
              | Some raw \<Rightarrow> recovery_tx env fault now raw r tokenHash tokenExpires st1))"

section \<open>The login at the provider\<close>

definition login ::
    "web_env \<Rightarrow> account_faults \<Rightarrow> time \<Rightarrow> string option \<Rightarrow> string \<Rightarrow> string \<Rightarrow> accounts \<Rightarrow> reply \<times> accounts" where
  "login env fault now random verifier return_to st =
     (if \<not> oidc_ready env then (problem 503 ''sso_not_configured'', st)
      else if \<not> oauth_ready env then (problem 503 ''sso_unavailable'', st)
      else case random of
        None \<Rightarrow> (problem 500 ''internal_error'', st)
      | Some state \<Rightarrow>
          (if fault InsertFlow \<or> list_ex (\<lambda>f. flw_state f = state) (acc_flows st)
           then (problem 500 ''internal_error'', st)
           else (\<lparr>rp_status = 302, rp_code = [], rp_cookie = None, rp_to = auth_code_url env state verifier\<rparr>,
                 st\<lparr>acc_flows := acc_flows st @ [\<lparr>flw_state = state, flw_verifier = verifier,
                   flw_return = safeReturnTo env return_to, flw_expires = now + 10 * minute\<rparr>]\<rparr>)))"

text \<open>The roles and groups of the access token join those of the ID token.\<close>

definition merged_identity :: "web_env \<Rightarrow> Identity \<Rightarrow> string \<Rightarrow> Identity" where
  "merged_identity env i access =
     (case verify_access_token env access of
        None \<Rightarrow> i
      | Some a \<Rightarrow> i\<lparr>id_Roles := foldl (\<lambda>rs r. if r \<in> set rs then rs else rs @ [r]) (id_Roles i) (id_Roles a),
          id_Groups := (if 0 < length (id_Groups a) then id_Groups a else id_Groups i),
          id_ACLGroups := (if 0 < length (id_ACLGroups a) then id_ACLGroups a else id_ACLGroups i)\<rparr>)"

definition finish_login ::
    "web_env \<Rightarrow> account_faults \<Rightarrow> time \<Rightarrow> string option \<Rightarrow> request \<Rightarrow> Identity \<Rightarrow> string \<Rightarrow> accounts \<Rightarrow> reply \<times> accounts" where
  "finish_login env fault now random r i returnTo st =
     (case upsertIdentity fault i st of
        (Inl UserDisabled, st1) \<Rightarrow> (problem 403 ''user_disabled'', st1)
      | (Inl IdentityFault, st1) \<Rightarrow> (problem 500 ''identity_sync_failed'', st1)
      | (Inr uid, st1) \<Rightarrow>
          (case random of
             None \<Rightarrow> (problem 500 ''internal_error'', st1)
           | Some raw \<Rightarrow>
               (let expiry = now + browserSessionLifetime in
                case (if fault InsertSession then None
                      else insert_session now (sessionHash env raw) uid expiry st1) of
                  None \<Rightarrow> (problem 500 ''internal_error'', st1)
                | Some st2 \<Rightarrow>
                    (let st3 = audit fault now uid ''login'' ''browser'' ''success'' st2 in
                     (\<lparr>rp_status = 302, rp_code = [], rp_cookie = Some (sessionCookie r raw expiry),
                        rp_to = safeReturnTo env returnTo\<rparr>,
                      if ''platform-admin'' \<in> set (id_Roles i) then disableBootstrapAdmin fault now st3 else st3)))))"

text \<open>\<open>state\<close>, \<open>code\<close> and \<open>failed\<close> are the query of the callback.\<close>

definition callback ::
    "web_env \<Rightarrow> account_faults \<Rightarrow> time \<Rightarrow> string option \<Rightarrow> request \<Rightarrow> string \<Rightarrow> string \<Rightarrow> string \<Rightarrow> accounts \<Rightarrow> reply \<times> accounts" where
  "callback env fault now random r state code failed st =
     (if state = [] \<or> code = [] \<or> failed \<noteq> [] then (problem 400 ''login_failed'', st)
      else let flow = (if fault LoadFlow then None else List.find (\<lambda>f. flw_state f = state) (acc_flows st));
               st1 = (if fault DeleteFlow then st
                      else st\<lparr>acc_flows := filter (\<lambda>f. flw_state f \<noteq> state) (acc_flows st)\<rparr>)
      in case flow of
           None \<Rightarrow> (problem 400 ''invalid_login_state'', st1)
         | Some f \<Rightarrow>
             (if flw_expires f < now then (problem 400 ''invalid_login_state'', st1)
              else if \<not> oidc_ready env then (problem 503 ''sso_unavailable'', st1)
              else case exchange_code env code (flw_verifier f) of
                None \<Rightarrow> (problem 401 ''token_exchange_failed'', st1)
              | Some (rawIDToken, access) \<Rightarrow>
                  (if rawIDToken = [] then (problem 401 ''id_token_missing'', st1)
                   else case verify_id_token env rawIDToken of
                     None \<Rightarrow> (problem 401 ''invalid_id_token'', st1)
                   | Some i \<Rightarrow> finish_login env fault now random r (merged_identity env i access) (flw_return f) st1)))"

definition logout :: "web_env \<Rightarrow> account_faults \<Rightarrow> request \<Rightarrow> accounts \<Rightarrow> reply \<times> accounts" where
  "logout env fault r st =
     (if rq_cookie r \<noteq> None \<and> \<not> cookieMutationAllowed env r then (problem 403 ''csrf_check_failed'', st)
      else let st1 = (case rq_cookie r of
                 None \<Rightarrow> st
               | Some raw \<Rightarrow> (if fault DeleteSession then st
                   else st\<lparr>acc_sessions := filter (\<lambda>s. ses_hash s \<noteq> sessionHash env raw) (acc_sessions st)\<rparr>));
               dropped = Some (DroppedCookie (requestIsSecure r))
      in case (if oidc_ready env then end_session_url env else None) of
           Some address \<Rightarrow> (\<lparr>rp_status = 200, rp_code = [], rp_cookie = dropped, rp_to = address\<rparr>, st1)
         | None \<Rightarrow> (\<lparr>rp_status = 204, rp_code = [], rp_cookie = dropped, rp_to = []\<rparr>, st1))"


section \<open>Authentication\<close>

datatype outcome = Refused reply | Admitted Principal "cookie option"

definition recordRejectedKey :: "web_env \<Rightarrow> account_faults \<Rightarrow> time \<Rightarrow> request \<Rightarrow> string \<Rightarrow> accounts \<Rightarrow> accounts" where
  "recordRejectedKey env fault now r raw st =
     (let ((attempts, notable, tracked), c) = count_rejection now (requestIP env r) hour (acc_rejected st);
          st1 = st\<lparr>acc_rejected := c\<rparr>
      in if notable then audit fault now ''anonymous'' ''apikey.auth'' (PrefixOf raw) ''failure'' st1 else st1)"

text \<open>A key is read from two headers, or from a bearer value that has the form of a key.\<close>

definition bearer_value :: "request \<Rightarrow> string" where
  "bearer_value r = trim_prefix (rq_header r ''Authorization'') ''Bearer ''"

definition presented_key :: "request \<Rightarrow> string" where
  "presented_key r =
     (if rq_header r ''CONTEXT7_API_KEY'' \<noteq> [] then rq_header r ''CONTEXT7_API_KEY''
      else if rq_header r ''X-API-Key'' \<noteq> [] then rq_header r ''X-API-Key''
      else let bearer = trim_space (bearer_value r) in if Looks bearer then bearer else [])"

definition authenticate_key ::
    "web_env \<Rightarrow> account_faults \<Rightarrow> faults \<Rightarrow> time \<Rightarrow> request \<Rightarrow> string \<Rightarrow> accounts \<Rightarrow> outcome \<times> accounts" where
  "authenticate_key env fault kfault now r raw st =
     (case AuthenticateRequest (web_keys env) kfault now raw (requestIP env r) (acc_keys st) of
        (Inl e, ks) \<Rightarrow>
          (case e of
             RateLimit wait \<Rightarrow> (Refused (problem 429 ''rate_limit_exceeded''), st\<lparr>acc_keys := ks\<rparr>)
           | _ \<Rightarrow> (Refused (problem 401 ''invalid_token''), recordRejectedKey env fault now r raw (st\<lparr>acc_keys := ks\<rparr>)))
      | (Inr info, ks) \<Rightarrow>
          (let st1 = st\<lparr>acc_keys := ks\<rparr>; uid = info_UserID info;
               roles = (case userRoles fault st1 uid of None \<Rightarrow> [] | Some rs \<Rightarrow> rs)
           in if fault LoadUser \<or> active_user st1 uid = None then (Refused (problem 401 ''invalid_token''), st1)
              else if uid = bootstrap_id \<and> \<not> bootstrapAvailable fault st1 then
                (Refused (problem 401 ''invalid_token''), st1)
              else (Admitted ((stored_principal st1 uid (if uid = bootstrap_id then [''platform-admin''] else roles))
                  \<lparr>p_KeyID := info_KeyID info, p_Scopes := info_Scopes info,
                    p_AllowedRepositories := AllowedRepositories (info_Restrictions info)\<rparr>) None, st1)))"

definition authenticate_bearer ::
    "web_env \<Rightarrow> account_faults \<Rightarrow> string \<Rightarrow> accounts \<Rightarrow> outcome \<times> accounts" where
  "authenticate_bearer env fault token st =
     (if token \<noteq> [] \<and> validBootstrapToken fault st token then
        (Admitted \<lparr>p_UserID = bootstrap_id, p_ACLPrincipal = [], p_ACLPrincipals = [], p_Roles = [''platform-admin''],
            p_KeyID = [], p_Scopes = [], p_AllowedRepositories = []\<rparr> None,
         if fault InsertBootstrapUser then st
         else case insert_bootstrap_user st of None \<Rightarrow> st | Some st1 \<Rightarrow> st1)
      else if token \<noteq> [] then
        (case verify_access_token env token of
           None \<Rightarrow> (Refused (problem 401 ''invalid_token''), st)
         | Some i \<Rightarrow>
             (case upsertIdentity fault i st of
                (Inl e, st1) \<Rightarrow> (Refused (problem 500 ''identity_sync_failed''), st1)
              | (Inr uid, st1) \<Rightarrow>
                  (Admitted \<lparr>p_UserID = uid,
                      p_ACLPrincipal = acl_principal (id_BitbucketUserSlug i) (id_GitLabUserID i),
                      p_ACLPrincipals = sourceACLPrincipals (id_BitbucketUserSlug i) (id_GitLabUserID i) (id_ACLGroups i),
                      p_Roles = id_Roles i, p_KeyID = [], p_Scopes = [], p_AllowedRepositories = []\<rparr> None, st1)))
      else (Refused (problem 401 ''authentication_required''), st))"

definition authenticate ::
    "web_env \<Rightarrow> account_faults \<Rightarrow> faults \<Rightarrow> time \<Rightarrow> request \<Rightarrow> accounts \<Rightarrow> outcome \<times> accounts" where
  "authenticate env fault kfault now r st =
     (let raw = presented_key r in
      if raw \<noteq> [] then authenticate_key env fault kfault now r raw st
      else case (case rq_cookie r of None \<Rightarrow> (None, st) | Some value \<Rightarrow> sessionPrincipal env fault now value st) of
        (Some (p, expires), st1) \<Rightarrow>
          (if \<not> cookieMutationAllowed env r then (Refused (problem 403 ''csrf_check_failed''), st1)
           else let (cookie, st2) = renewSession env fault now r (the (rq_cookie r)) p expires st1
                in (Admitted p cookie, st2))
      | (None, st1) \<Rightarrow> authenticate_bearer env fault (bearer_value r) st1)"

section \<open>Roles\<close>

definition roleAllowed :: "Principal \<Rightarrow> string list \<Rightarrow> bool" where
  "roleAllowed p roles \<longleftrightarrow> HasRole p ''platform-admin'' \<or> list_ex (HasRole p) roles"

definition authorize ::
    "web_env \<Rightarrow> account_faults \<Rightarrow> faults \<Rightarrow> time \<Rightarrow> string list \<Rightarrow> request \<Rightarrow> accounts \<Rightarrow> outcome \<times> accounts" where
  "authorize env fault kfault now roles r st =
     (case authenticate env fault kfault now r st of
        (Refused reply, st1) \<Rightarrow> (Refused reply, st1)
      | (Admitted p cookie, st1) \<Rightarrow>
          (if roleAllowed p roles then (Admitted p cookie, st1)
           else (Refused ((problem 403 ''forbidden'')\<lparr>rp_cookie := cookie\<rparr>), st1)))"

definition settingCategoryRoles :: "string \<Rightarrow> string list" where
  "settingCategoryRoles category =
     (if category \<in> {''bitbucket'', ''gitlab'', ''confluence'', ''jira'', ''index''} then [''source-admin'']
      else if category = ''mcp'' then [''mcp-admin'']
      else if category \<in> {''search'', ''model'', ''opensearch'', ''vector''} then [''search-admin'']
      else if category \<in> {''security'', ''vault''} then [''security-admin'']
      else [])"

definition settingRoleAllowed :: "Principal \<Rightarrow> string \<Rightarrow> bool" where
  "settingRoleAllowed p category \<longleftrightarrow> roleAllowed p (settingCategoryRoles category)"

section \<open>Administering accounts\<close>

record user_input =
  in_Subject :: string
  in_Username :: string
  in_Email :: string
  in_Status :: string
  in_Roles :: "string list"

datatype input_error = FieldsRequired | FieldTooLong | StatusUnknown | RoleUnsupported string

definition validateAdminUserInput :: "user_input \<Rightarrow> bool \<Rightarrow> input_error + user_input" where
  "validateAdminUserInput raw requireSubject =
     (let subject = trim_space (in_Subject raw); username = trim_space (in_Username raw);
          email = trim_space (in_Email raw); status0 = trim_space (in_Status raw);
          status = (if status0 = [] then ''active'' else status0)
      in if username = [] \<or> (requireSubject \<and> subject = []) then Inl FieldsRequired
         else if 200 < length username \<or> 500 < length subject \<or> 320 < length email then Inl FieldTooLong
         else if status \<noteq> ''active'' \<and> status \<noteq> ''disabled'' then Inl StatusUnknown
         else case List.find (\<lambda>r. r \<notin> set seeded_roles) (in_Roles raw) of
           Some r \<Rightarrow> Inl (RoleUnsupported r)
         | None \<Rightarrow>
             (let roles = foldl (\<lambda>rs r. if r \<in> set rs then rs else rs @ [r]) [] (in_Roles raw)
              in Inr \<lparr>in_Subject = subject, in_Username = username, in_Email = email, in_Status = status,
                   in_Roles = (if length roles = 0 then [''developer''] else roles)\<rparr>))"

text \<open>The first statement of the transaction: the insert or the update of the row.\<close>

definition write_user_row :: "string \<Rightarrow> user_input \<Rightarrow> bool \<Rightarrow> accounts \<Rightarrow> accounts option" where
  "write_user_row uid i create st =
     (if create then
        (if list_ex (\<lambda>u. usr_id u = uid \<or> usr_subject u = in_Subject i) (acc_users st) then None
         else Some (st\<lparr>acc_users := acc_users st @ [\<lparr>usr_id = uid, usr_subject = in_Subject i,
                usr_username = in_Username i, usr_email = in_Email i, usr_status = in_Status i, usr_managed = True\<rparr>]\<rparr>))
      else if user_of st uid = None \<or> uid \<in> {bootstrap_id, recovery_id} then None
      else Some (st\<lparr>acc_users := map (\<lambda>u. if usr_id u = uid
             then u\<lparr>usr_username := in_Username i, usr_email := in_Email i, usr_status := in_Status i, usr_managed := True\<rparr>
             else u) (acc_users st)\<rparr>))"

text \<open>The statements that end what a disabled account could still use; a failure is ignored.\<close>

definition end_access :: "account_faults \<Rightarrow> time \<Rightarrow> string \<Rightarrow> accounts \<Rightarrow> accounts" where
  "end_access fault now uid st =
     (let st1 = (if fault DropUserSessions then st else drop_sessions_of uid st)
      in if fault RevokeUserKeys then st1 else st1\<lparr>acc_keys := revoke_keys_of now uid (acc_keys st1)\<rparr>)"

definition writeAdminUser ::
    "account_faults \<Rightarrow> time \<Rightarrow> string \<Rightarrow> user_input \<Rightarrow> bool \<Rightarrow> accounts \<Rightarrow> bool \<times> accounts" where
  "writeAdminUser fault now uid i create st =
     (if fault BeginUser then (False, st)
      else case (if fault WriteUser then None else write_user_row uid i create st) of
        None \<Rightarrow> (False, st)
      | Some st1 \<Rightarrow>
          (if fault DeleteRoles then (False, st)
           else case (if (fault InsertRole \<and> in_Roles i \<noteq> []) \<or> \<not> distinct (in_Roles i) then None
                      else insert_roles uid (in_Roles i) (st1\<lparr>acc_roles := filter (\<lambda>r. fst r \<noteq> uid) (acc_roles st1)\<rparr>)) of
             None \<Rightarrow> (False, st)
           | Some st2 \<Rightarrow>
               (let st3 = (if in_Status i \<noteq> ''active'' then end_access fault now uid st2 else st2)
                in if fault CommitUser then (False, st) else (True, st3))))"

definition createAdminUser ::
    "account_faults \<Rightarrow> time \<Rightarrow> string option \<Rightarrow> Principal \<Rightarrow> user_input option \<Rightarrow> accounts \<Rightarrow> reply \<times> accounts" where
  "createAdminUser fault now random p body st =
     (case (case body of None \<Rightarrow> Inl FieldsRequired | Some raw \<Rightarrow> validateAdminUserInput raw True) of
        Inl e \<Rightarrow> (problem 400 ''invalid_user'', st)
      | Inr i \<Rightarrow>
          (case random of
             None \<Rightarrow> (problem 500 ''internal_error'', st)
           | Some uid \<Rightarrow>
               (case writeAdminUser fault now uid i True st of
                  (False, st1) \<Rightarrow> (problem 409 ''user_create_failed'', st1)
                | (True, st1) \<Rightarrow> (\<lparr>rp_status = 201, rp_code = [], rp_cookie = None, rp_to = uid\<rparr>,
                    audit fault now (p_UserID p) ''user.create'' uid ''success'' st1))))"

definition updateAdminUser ::
    "account_faults \<Rightarrow> time \<Rightarrow> Principal \<Rightarrow> string \<Rightarrow> user_input option \<Rightarrow> accounts \<Rightarrow> reply \<times> accounts" where
  "updateAdminUser fault now p uid body st =
     (case (case body of None \<Rightarrow> Inl FieldsRequired | Some raw \<Rightarrow> validateAdminUserInput raw False) of
        Inl e \<Rightarrow> (problem 400 ''invalid_user'', st)
      | Inr i \<Rightarrow>
          (if uid = [] then (problem 400 ''invalid_user'', st)
           else if uid = p_UserID p \<and> (in_Status i \<noteq> ''active'' \<or> ''platform-admin'' \<notin> set (in_Roles i))
           then (problem 409 ''self_lockout'', st)
           else case writeAdminUser fault now uid i False st of
             (False, st1) \<Rightarrow> (problem 404 ''user_not_found'', st1)
           | (True, st1) \<Rightarrow> (problem 204 [], audit fault now (p_UserID p) ''user.update'' uid ''success'' st1)))"

definition deleteAdminUser ::
    "account_faults \<Rightarrow> time \<Rightarrow> Principal \<Rightarrow> string \<Rightarrow> accounts \<Rightarrow> reply \<times> accounts" where
  "deleteAdminUser fault now p uid st =
     (if uid = [] \<or> uid = p_UserID p then (problem 409 ''self_lockout'', st)
      else if fault BeginUser \<or> fault WriteUser then (problem 500 ''internal_error'', st)
      else if user_of st uid = None \<or> uid \<in> {bootstrap_id, recovery_id} then (problem 404 ''user_not_found'', st)
      else let st1 = st\<lparr>acc_users := map (\<lambda>u. if usr_id u = uid then u\<lparr>usr_status := ''deleted''\<rparr> else u) (acc_users st)\<rparr>;
               st2 = end_access fault now uid st1
      in if fault CommitUser then (problem 500 ''internal_error'', st)
         else (problem 204 [], audit fault now (p_UserID p) ''user.delete'' uid ''success'' st2))"


section \<open>Guards of the other routes\<close>

text \<open>The category is the path value, or the first segment behind the settings prefix.\<close>

definition setting_category :: "string \<Rightarrow> string \<Rightarrow> string" where
  "setting_category path_value path =
     (if path_value \<noteq> [] then path_value
      else hd (split_on CHR ''/'' (trim_prefix path ''/api/v1/admin/settings/'')))"

definition settingsAuthorize ::
    "web_env \<Rightarrow> account_faults \<Rightarrow> faults \<Rightarrow> time \<Rightarrow> string \<Rightarrow> string \<Rightarrow> request \<Rightarrow> accounts \<Rightarrow> outcome \<times> accounts" where
  "settingsAuthorize env fault kfault now path_value path r st =
     (case authenticate env fault kfault now r st of
        (Refused reply, st1) \<Rightarrow> (Refused reply, st1)
      | (Admitted p cookie, st1) \<Rightarrow>
          (if settingRoleAllowed p (setting_category path_value path) then (Admitted p cookie, st1)
           else (Refused ((problem 403 ''insufficient_role'')\<lparr>rp_cookie := cookie\<rparr>), st1)))"

text \<open>
  The MCP endpoint: forwarding headers of an untrusted peer are dropped, the Origin must be one
  of the allowed ones, and the body is limited. \<open>origins\<close> and \<open>max_bytes\<close> are the setting
  \<^verbatim>\<open>mcp\<close>, \<open>public_url\<close> the address of the installation.
\<close>

definition mcp_origins :: "web_env \<Rightarrow> string list \<Rightarrow> string \<Rightarrow> string list" where
  "mcp_origins env origins public_url =
     (let allowed = map (\<lambda>o1. trim_suffix o1 ''/'') origins in
      if length allowed = 0 then
        (case url_Parse env public_url of
           None \<Rightarrow> []
         | Some u \<Rightarrow> (if url_Scheme u \<noteq> [] \<and> url_Host u \<noteq> [] then [url_Scheme u @ ''://'' @ url_Host u] else []))
      else allowed)"

definition mcpAccess ::
    "web_env \<Rightarrow> string list \<Rightarrow> string \<Rightarrow> int option \<Rightarrow> request \<Rightarrow> reply + request \<times> int" where
  "mcpAccess env origins public_url max_bytes r0 =
     (let r = (if isTrustedProxy env (remoteIP env (rq_remote r0)) then r0
               else r0\<lparr>rq_header := (\<lambda>h. if h \<in> {''X-Forwarded-For'', ''X-Real-IP''} then [] else rq_header r0 h)\<rparr>);
          origin = rq_header r ''Origin''
      in if origin \<noteq> [] \<and> \<not> list_ex (\<lambda>item. equal_fold (trim_suffix origin ''/'') item) (mcp_origins env origins public_url)
         then Inl (problem 403 ''origin_not_allowed'')
         else Inr (r, case max_bytes of
             Some n \<Rightarrow> (if 1024 \<le> n \<and> n \<le> 16 * 2 ^ 20 then n else 2 ^ 20)
           | None \<Rightarrow> 2 ^ 20))"

section \<open>The bootstrap token of an installation\<close>

text \<open>AES-GCM under the installation's key: the sealed text starts with the nonce.\<close>

record aead =
  nonce_size :: nat
  seal_text :: "string \<Rightarrow> string \<Rightarrow> string"
  open_text :: "string \<Rightarrow> string \<Rightarrow> string option"

definition open_sealed :: "aead \<Rightarrow> string \<Rightarrow> string option" where
  "open_sealed a sealed =
     (if length sealed < nonce_size a then None else open_text a (take (nonce_size a) sealed) (drop (nonce_size a) sealed))"

datatype bootstrap_statement = ReadBootstrap | CountKeycloak | InsertBootstrap | RereadBootstrap

text \<open>
  \<open>stored\<close> is the sealed row as first read, \<open>raced\<close> the row another instance has written
  by the time of the insert. The results are the token, whether it is kept in the database, and
  the row afterwards; \<open>None\<close> is an error that stops the start.
\<close>

definition loadOrCreateBootstrapToken ::
    "aead \<Rightarrow> (bootstrap_statement \<Rightarrow> bool) \<Rightarrow> bool \<Rightarrow> nat list option \<Rightarrow> string option \<Rightarrow> string option \<Rightarrow> string option
     \<Rightarrow> (string \<times> bool) option \<times> string option" where
  "loadOrCreateBootstrapToken a fault keycloak random nonce stored raced =
     (if fault ReadBootstrap then (None, stored)
      else case stored of
        Some sealed \<Rightarrow> (map_option (\<lambda>t. (t, True)) (open_sealed a sealed), stored)
      | None \<Rightarrow>
          (if fault CountKeycloak then (None, stored)
           else if keycloak then (Some ([], False), stored)
           else case random of None \<Rightarrow> (None, stored) | Some raw \<Rightarrow>
             (case nonce of None \<Rightarrow> (None, stored) | Some n \<Rightarrow>
               (let token = raw_url_base64 raw; sealed = n @ seal_text a n token in
                if fault InsertBootstrap then (None, raced)
                else case raced of
                  None \<Rightarrow> (Some (token, True), Some sealed)
                | Some other \<Rightarrow>
                    (if fault RereadBootstrap then (None, raced)
                     else (map_option (\<lambda>t. (t, True)) (open_sealed a other), raced))))))"

text \<open>Two instances that start on an empty database settle on one token.\<close>

lemma bootstrap_token_shared:
  assumes "loadOrCreateBootstrapToken a fault False (Some raw) (Some n) None None = (Some (t, True), Some sealed)"
    and "\<forall>n t. length n = nonce_size a \<longrightarrow> open_text a n (seal_text a n t) = Some t" "length n = nonce_size a"
    and "\<not> fault' ReadBootstrap" "\<not> fault' CountKeycloak" "\<not> fault' InsertBootstrap" "\<not> fault' RereadBootstrap"
  shows "loadOrCreateBootstrapToken a fault' False (Some raw') (Some n') None (Some sealed) = (Some (t, True), Some sealed)"
    and "loadOrCreateBootstrapToken a fault' False (Some raw') (Some n') (Some sealed) raced = (Some (t, True), Some sealed)"
  using assms by (auto simp: loadOrCreateBootstrapToken_def open_sealed_def Let_def split: if_splits)

end
