(* ===== verification/AccountSteps.thy ===== *)
theory AccountSteps
  imports Accounts
begin

text \<open>
  What holds of the accounts under every order of requests: the operations of theory Accounts as
  the steps of one machine, with the scheduler's purge of expired rows and arbitrary changes of
  the key tables between them.
\<close>

section \<open>Steps\<close>

datatype account_step =
    Serve account_faults faults request
  | BootstrapLogin account_faults "string option" request "string option"
  | RecoveryLogin account_faults "string option" request "string option"
  | StartLogin account_faults "string option" string string
  | Callback account_faults "string option" request string string string
  | Logout account_faults request
  | CreateUser account_faults "string option" Principal "user_input option"
  | UpdateUser account_faults Principal string "user_input option"
  | DeleteUser account_faults Principal string
  | PurgeExpired "nat \<Rightarrow> bool"
  | KeyOperation key_store

text \<open>The scheduler's deletes of \<^verbatim>\<open>auth_flows\<close>, \<^verbatim>\<open>user_sessions\<close> and \<^verbatim>\<open>admin_recovery_tokens\<close>.\<close>

definition purge_expired :: "(nat \<Rightarrow> bool) \<Rightarrow> time \<Rightarrow> accounts \<Rightarrow> accounts" where
  "purge_expired failed now st =
     st\<lparr>acc_flows := (if failed 0 then acc_flows st else filter (\<lambda>f. \<not> flw_expires f < now) (acc_flows st)),
       acc_sessions := (if failed 1 then acc_sessions st else filter (\<lambda>s. \<not> ses_expires s < now) (acc_sessions st)),
       acc_recovery := (if failed 3 then acc_recovery st else filter (\<lambda>t. \<not> rec_expires t < now) (acc_recovery st))\<rparr>"

fun serve_step :: "web_env \<Rightarrow> accounts \<Rightarrow> time \<times> account_step \<Rightarrow> accounts" where
  "serve_step env st (now, Serve fault kfault r) = snd (authenticate env fault kfault now r st)"
| "serve_step env st (now, BootstrapLogin fault random r body) = snd (bootstrapLogin env fault now random r body st)"
| "serve_step env st (now, RecoveryLogin fault random r body) = snd (recoveryLogin env fault now random r body st)"
| "serve_step env st (now, StartLogin fault random verifier to) = snd (login env fault now random verifier to st)"
| "serve_step env st (now, Callback fault random r state code failed) =
     snd (callback env fault now random r state code failed st)"
| "serve_step env st (now, Logout fault r) = snd (logout env fault r st)"
| "serve_step env st (now, CreateUser fault random p body) = snd (createAdminUser fault now random p body st)"
| "serve_step env st (now, UpdateUser fault p uid body) = snd (updateAdminUser fault now p uid body st)"
| "serve_step env st (now, DeleteUser fault p uid) = snd (deleteAdminUser fault now p uid st)"
| "serve_step env st (now, PurgeExpired failed) = purge_expired failed now st"
| "serve_step env st (now, KeyOperation ks) = st\<lparr>acc_keys := ks\<rparr>"

section \<open>What the parts of an operation leave alone\<close>

named_theorems account_frame \<open>fields an operation does not change\<close>

lemma audit_frame [simp, account_frame]:
  "acc_users (audit fault now a b c d st) = acc_users st"
  "acc_sessions (audit fault now a b c d st) = acc_sessions st"
  "acc_recovery (audit fault now a b c d st) = acc_recovery st"
  "acc_attempts (audit fault now a b c d st) = acc_attempts st"
  by (simp_all add: audit_def)

lemma end_access_frame [simp, account_frame]:
  "acc_users (end_access fault now u st) = acc_users st"
  "acc_recovery (end_access fault now u st) = acc_recovery st"
  by (simp_all add: end_access_def drop_sessions_of_def Let_def)

lemma disableBootstrap_frame [simp, account_frame]:
  "acc_users (disableBootstrapAdmin fault now st) = acc_users st"
  "acc_recovery (disableBootstrapAdmin fault now st) = acc_recovery st"
  by (simp_all add: disableBootstrapAdmin_def drop_sessions_of_def Let_def)

lemma recordRejected_frame [simp, account_frame]:
  "acc_users (recordRejectedKey env fault now r raw st) = acc_users st"
  "acc_sessions (recordRejectedKey env fault now r raw st) = acc_sessions st"
  "acc_recovery (recordRejectedKey env fault now r raw st) = acc_recovery st"
  by (simp_all add: recordRejectedKey_def Let_def case_prod_unfold)

lemma update_session_frame [simp, account_frame]:
  "acc_users (update_session h f st) = acc_users st"
  "acc_recovery (update_session h f st) = acc_recovery st"
  by (simp_all add: update_session_def)

lemma purge_frame [simp, account_frame]: "acc_users (purge_expired failed now st) = acc_users st"
  by (simp add: purge_expired_def)

lemma insert_session_frame:
  "insert_session now h u e st = Some st' \<Longrightarrow> acc_users st' = acc_users st \<and> acc_recovery st' = acc_recovery st"
  by (auto simp: insert_session_def split: if_splits)

lemma insert_roles_frame:
  "insert_roles u rs st = Some st' \<Longrightarrow>
     acc_users st' = acc_users st \<and> acc_sessions st' = acc_sessions st \<and> acc_recovery st' = acc_recovery st"
  by (auto simp: insert_roles_def split: if_splits)

lemma renewSession_frame:
  "acc_users (snd (renewSession env fault now r raw p e st)) = acc_users st"
  "acc_recovery (snd (renewSession env fault now r raw p e st)) = acc_recovery st"
  by (simp_all add: renewSession_def Let_def)

lemma sessionPrincipal_frame:
  "acc_users (snd (sessionPrincipal env fault now raw st)) = acc_users st"
  "acc_recovery (snd (sessionPrincipal env fault now raw st)) = acc_recovery st"
  by (simp_all add: sessionPrincipal_def Let_def split: option.split)

lemma authenticate_key_frame:
  "acc_users (snd (authenticate_key env fault kf now r raw st)) = acc_users st"
  "acc_recovery (snd (authenticate_key env fault kf now r raw st)) = acc_recovery st"
  by (simp_all add: authenticate_key_def Let_def split: prod.split sum.split key_error.split)

section \<open>The user table\<close>

text \<open>
  A change of the user table keeps every row's id and status, or appends a row of a new id, or
  is one of the writes of an administrator or of the recovery login.
\<close>

definition standing :: "accounts \<Rightarrow> (string \<times> string) list" where
  "standing st = map (\<lambda>u. (usr_id u, usr_status u)) (acc_users st)"

definition grows :: "accounts \<Rightarrow> accounts \<Rightarrow> bool" where
  "grows st st' \<longleftrightarrow> (\<exists>new. standing st' = standing st @ new \<and> distinct (map fst new)
     \<and> set (map fst new) \<inter> set (map fst (standing st)) = {})"

lemma grows_refl [simp, intro]: "grows st st"
  by (simp add: grows_def)

lemma grows_same: "acc_users st' = acc_users st \<Longrightarrow> grows st st'"
  by (simp add: grows_def standing_def)

lemma user_of_None: "user_of st u = None \<longleftrightarrow> u \<notin> set (map fst (standing st))"
  by (auto simp: user_of_def standing_def find_None_iff)

lemma grows_append:
  "acc_users st' = acc_users st @ [u] \<Longrightarrow> user_of st (usr_id u) = None \<Longrightarrow> grows st st'"
  unfolding user_of_None by (simp add: grows_def standing_def)

lemma grows_map:
  "acc_users st' = map f (acc_users st) \<Longrightarrow> (\<And>u. usr_id (f u) = usr_id u \<and> usr_status (f u) = usr_status u) \<Longrightarrow> grows st st'"
proof -
  assume "acc_users st' = map f (acc_users st)" "\<And>u. usr_id (f u) = usr_id u \<and> usr_status (f u) = usr_status u"
  then have "standing st' = standing st" by (simp add: standing_def)
  then show "grows st st'" by (simp add: grows_def)
qed

lemma grows_insert_bootstrap:
  assumes "insert_bootstrap_user st = Some st'"
  shows "grows st st'"
proof (cases "user_of st bootstrap_id = None")
  case True
  show ?thesis
    by (rule grows_append [where u = "\<lparr>usr_id = bootstrap_id, usr_subject = bootstrap_id,
          usr_username = bootstrap_id, usr_email = [], usr_status = ''active'', usr_managed = False\<rparr>"])
      (use assms True in \<open>auto simp: insert_bootstrap_user_def split: if_splits\<close>)
qed (use assms in \<open>auto simp: insert_bootstrap_user_def\<close>)

lemma grows_upsert_user:
  assumes "upsert_user i st = Some st'"
  shows "grows st st'"
proof (cases "list_ex (\<lambda>u. usr_subject u = id_Subject i) (acc_users st)")
  case True
  then have "acc_users st' = map (\<lambda>u. if usr_subject u = id_Subject i
      then u\<lparr>usr_username := id_Username i, usr_email := id_Email i\<rparr> else u) (acc_users st)"
    using assms by (auto simp: upsert_user_def)
  then show ?thesis by (rule grows_map) simp
next
  case False
  show ?thesis
    by (rule grows_append [where u = "\<lparr>usr_id = id_Subject i, usr_subject = id_Subject i,
             usr_username = id_Username i, usr_email = id_Email i, usr_status = ''active'', usr_managed = False\<rparr>"])
      (use assms False in \<open>auto simp: upsert_user_def split: if_splits\<close>)
qed

lemma grows_upsertIdentity: "grows st (snd (upsertIdentity fault i st))"
proof -
  have "grows st st'" if "upsert_tx fault i st = (res, st')" for res st'
  proof (cases "if fault UpsertUser then None else upsert_user i st")
    case None
    then show ?thesis using that by (simp add: upsert_tx_def)
  next
    case (Some st1)
    then have g: "grows st st1" using grows_upsert_user by (auto split: if_splits)
    have "acc_users st' = acc_users st \<or> acc_users st' = acc_users st1"
      using that Some unfolding upsert_tx_def Let_def
      by (auto split: option.splits if_splits dest: insert_roles_frame)
    with g show ?thesis by (auto simp: grows_def standing_def)
  qed
  then show ?thesis
    by (cases "upsert_tx fault i st") (simp add: upsertIdentity_def split: sum.split)
qed


section \<open>A disabled account\<close>

text \<open>The account exists and is not active; ids are unique.\<close>

definition shut :: "string \<Rightarrow> accounts \<Rightarrow> bool" where
  "shut u st \<longleftrightarrow> distinct (map fst (standing st)) \<and> (\<exists>s. (u, s) \<in> set (standing st) \<and> s \<noteq> ''active'')"

lemma grows_distinct:
  "grows st st' \<Longrightarrow> distinct (map fst (standing st)) \<Longrightarrow> distinct (map fst (standing st'))"
  unfolding grows_def by (elim exE conjE) (simp add: Int_commute)

lemma shut_grows: "shut u st \<Longrightarrow> grows st st' \<Longrightarrow> shut u st'"
  using grows_distinct [of st st'] unfolding shut_def by (auto simp: grows_def)

lemma shut_same: "shut u st \<Longrightarrow> acc_users st' = acc_users st \<Longrightarrow> shut u st'"
  using shut_grows grows_same by blast

definition set_standing :: "string \<Rightarrow> string \<Rightarrow> string \<times> string \<Rightarrow> string \<times> string" where
  "set_standing w s x = (if fst x = w then (w, s) else x)"

lemma fst_set_standing [simp]: "fst (set_standing w s x) = fst x"
  by (simp add: set_standing_def)

lemma shut_write:
  assumes "shut u st" "standing st' = map (set_standing w s) (standing st)" "w = u \<Longrightarrow> s \<noteq> ''active''"
  shows "shut u st'"
proof -
  obtain t where t: "(u, t) \<in> set (standing st)" "t \<noteq> ''active''" using assms(1) by (auto simp: shut_def)
  have "distinct (map fst (standing st'))" using assms(1,2) by (simp add: shut_def o_def)
  moreover have "set_standing w s (u, t) \<in> set (standing st')" using t(1) assms(2) by simp
  moreover have "fst (set_standing w s (u, t)) = u" "snd (set_standing w s (u, t)) \<noteq> ''active''"
    using assms(3) t(2) by (auto simp: set_standing_def)
  ultimately show ?thesis unfolding shut_def by (metis prod.collapse)
qed

lemma shut_opens: "shut u st' \<Longrightarrow> standing st' = map (set_standing w s) (standing st) \<Longrightarrow> distinct (map fst (standing st))"
  by (simp add: shut_def o_def)

lemma standing_status_map:
  "acc_users st' = map (\<lambda>u. if usr_id u = w then f u else u) (acc_users st) \<Longrightarrow>
   (\<And>u. usr_id (f u) = usr_id u \<and> usr_status (f u) = s) \<Longrightarrow>
   standing st' = map (set_standing w s) (standing st)"
  by (auto simp: standing_def set_standing_def)

lemma standing_activate:
  assumes "activate_recovery_user st = Some st'"
  shows "grows st st' \<or> standing st' = map (set_standing recovery_id ''active'') (standing st)"
proof (cases "user_of st recovery_id = None")
  case True
  have "grows st st'"
    by (rule grows_append [where u = "\<lparr>usr_id = recovery_id, usr_subject = recovery_id,
             usr_username = recovery_id, usr_email = [], usr_status = ''active'', usr_managed = False\<rparr>"])
      (use assms True in \<open>auto simp: activate_recovery_user_def split: if_splits\<close>)
  then show ?thesis ..
next
  case False
  have "standing st' = map (set_standing recovery_id ''active'') (standing st)"
    by (rule standing_status_map [where f = "\<lambda>u. u\<lparr>usr_status := ''active''\<rparr>"])
      (use assms False in \<open>auto simp: activate_recovery_user_def\<close>)
  then show ?thesis ..
qed

lemma standing_write_user:
  assumes "write_user_row uid i create st = Some st'"
  shows "if create then grows st st'
    else uid \<noteq> bootstrap_id \<and> uid \<noteq> recovery_id \<and> user_of st uid \<noteq> None
      \<and> standing st' = map (set_standing uid (in_Status i)) (standing st)"
proof (cases create)
  case True
  have "grows st st'"
    by (rule grows_append [where u = "\<lparr>usr_id = uid, usr_subject = in_Subject i,
                usr_username = in_Username i, usr_email = in_Email i, usr_status = in_Status i, usr_managed = True\<rparr>"])
      (use assms True in \<open>auto simp: write_user_row_def user_of_def find_None_iff list_ex_iff split: if_splits\<close>)
  with True show ?thesis by simp
next
  case False
  have "standing st' = map (set_standing uid (in_Status i)) (standing st)"
    by (rule standing_status_map [where f = "\<lambda>u. u\<lparr>usr_username := in_Username i, usr_email := in_Email i,
          usr_status := in_Status i, usr_managed := True\<rparr>"])
      (use assms False in \<open>auto simp: write_user_row_def split: if_splits\<close>)
  moreover have "uid \<noteq> bootstrap_id \<and> uid \<noteq> recovery_id \<and> user_of st uid \<noteq> None"
    using assms False by (auto simp: write_user_row_def split: if_splits)
  ultimately show ?thesis using False by simp
qed

lemma writeAdminUser_standing:
  assumes "writeAdminUser fault now uid i create st = (ok, st')"
  shows "if \<not> ok then st' = st else if create then grows st st'
    else uid \<noteq> bootstrap_id \<and> uid \<noteq> recovery_id \<and> user_of st uid \<noteq> None
      \<and> standing st' = map (set_standing uid (in_Status i)) (standing st)"
proof (cases ok)
  case True
  with assms obtain st1 where st1: "write_user_row uid i create st = Some st1"
    by (auto simp: writeAdminUser_def Let_def split: if_splits option.splits)
  have "acc_users st' = acc_users st1"
    using assms st1 True insert_roles_frame
    by (fastforce simp: writeAdminUser_def Let_def split: if_splits option.splits)
  then have "standing st' = standing st1" by (simp add: standing_def)
  moreover from this have "grows st st' = grows st st1" by (simp only: grows_def)
  ultimately show ?thesis using standing_write_user [OF st1] True by simp
next
  case False
  with assms show ?thesis by (auto simp: writeAdminUser_def Let_def split: if_splits option.splits)
qed


text \<open>The step would put the account in order again.\<close>

fun reactivates :: "string \<Rightarrow> account_step \<Rightarrow> bool" where
  "reactivates u (UpdateUser fault p uid body) \<longleftrightarrow>
     uid = u \<and> body \<noteq> None \<and> trim_space (in_Status (the body)) \<noteq> ''disabled''"
| "reactivates u step \<longleftrightarrow> False"

lemma validated_status:
  "validateAdminUserInput raw req = Inr i \<Longrightarrow>
     in_Status i = (if trim_space (in_Status raw) = [] then ''active'' else trim_space (in_Status raw))
     \<and> (in_Status i = ''active'' \<or> in_Status i = ''disabled'')"
  by (auto simp: validateAdminUserInput_def Let_def split: if_splits option.splits)

lemma updateAdminUser_cases:
  "(acc_users (snd (updateAdminUser fault now p uid body st)) = acc_users st
      \<and> rp_status (fst (updateAdminUser fault now p uid body st)) \<noteq> 204)
   \<or> (\<exists>raw i. body = Some raw \<and> validateAdminUserInput raw False = Inr i
      \<and> rp_status (fst (updateAdminUser fault now p uid body st)) = 204
      \<and> uid \<noteq> bootstrap_id \<and> uid \<noteq> recovery_id \<and> user_of st uid \<noteq> None
      \<and> standing (snd (updateAdminUser fault now p uid body st)) = map (set_standing uid (in_Status i)) (standing st))"
proof (cases "case body of None \<Rightarrow> Inl FieldsRequired | Some raw \<Rightarrow> validateAdminUserInput raw False")
  case (Inl e)
  then show ?thesis by (simp add: updateAdminUser_def problem_def)
next
  case (Inr i)
  then obtain raw where raw: "body = Some raw" "validateAdminUserInput raw False = Inr i"
    by (auto split: option.splits)
  obtain ok st1 where w: "writeAdminUser fault now uid i False st = (ok, st1)" by force
  note s = writeAdminUser_standing [OF w]
  show ?thesis
  proof (cases ok)
    case False
    with s have "st1 = st" by simp
    then show ?thesis using Inr w False by (simp add: updateAdminUser_def problem_def)
  next
    case True
    show ?thesis
    proof (cases "uid = [] \<or> (uid = p_UserID p \<and> (in_Status i \<noteq> ''active'' \<or> ''platform-admin'' \<notin> set (in_Roles i)))")
      case True
      then show ?thesis using Inr by (auto simp: updateAdminUser_def problem_def)
    next
      case False
      then have "updateAdminUser fault now p uid body st
          = (problem 204 [], audit fault now (p_UserID p) ''user.update'' uid ''success'' st1)"
        using Inr w True by (auto simp: updateAdminUser_def)
      then show ?thesis using raw s True by (simp add: problem_def standing_def)
    qed
  qed
qed

lemma deleteAdminUser_cases:
  "(acc_users (snd (deleteAdminUser fault now p uid st)) = acc_users st
      \<and> rp_status (fst (deleteAdminUser fault now p uid st)) \<noteq> 204)
   \<or> (rp_status (fst (deleteAdminUser fault now p uid st)) = 204 \<and> uid \<noteq> bootstrap_id \<and> uid \<noteq> recovery_id
      \<and> user_of st uid \<noteq> None
      \<and> standing (snd (deleteAdminUser fault now p uid st)) = map (set_standing uid ''deleted'') (standing st))"
proof -
  have "standing (st\<lparr>acc_users := map (\<lambda>u. if usr_id u = uid then u\<lparr>usr_status := ''deleted''\<rparr> else u) (acc_users st)\<rparr>)
      = map (set_standing uid ''deleted'') (standing st)"
    by (rule standing_status_map [where f = "\<lambda>u. u\<lparr>usr_status := ''deleted''\<rparr>"]) simp_all
  then show ?thesis
    by (simp add: deleteAdminUser_def Let_def problem_def) (simp add: standing_def)
qed


lemma grows_trans_same: "grows st st1 \<Longrightarrow> acc_users st2 = acc_users st1 \<Longrightarrow> grows st st2"
  by (simp add: grows_def standing_def)

lemma grows_from_same: "grows st1 st2 \<Longrightarrow> acc_users st1 = acc_users st \<Longrightarrow> grows st st2"
  by (simp add: grows_def standing_def)

lemma upsertIdentity_grows: "upsertIdentity fault i st = (res, st') \<Longrightarrow> grows st st'"
  using grows_upsertIdentity [of st fault i] by simp

lemma grows_bearer: "grows st (snd (authenticate_bearer env fault token st))"
  by (auto simp: authenticate_bearer_def split: option.split prod.split sum.split
      intro: upsertIdentity_grows grows_insert_bootstrap)

lemma grows_authenticate: "grows st (snd (authenticate env fault kf now r st))"
proof (cases "presented_key r = []")
  case False
  then show ?thesis by (simp add: authenticate_def grows_same authenticate_key_frame)
next
  case True
  define s where "s = (case rq_cookie r of None \<Rightarrow> (None, st) | Some value \<Rightarrow> sessionPrincipal env fault now value st)"
  have users: "acc_users (snd s) = acc_users st"
    by (simp add: s_def sessionPrincipal_frame split: option.split)
  show ?thesis
  proof (cases "fst s")
    case None
    then have "snd (authenticate env fault kf now r st) = snd (authenticate_bearer env fault (bearer_value r) (snd s))"
      using True unfolding authenticate_def s_def [symmetric] by (cases s) simp
    then show ?thesis using grows_from_same [OF grows_bearer users] by simp
  next
    case (Some pe)
    then obtain p e where pe: "s = (Some (p, e), snd s)" by (cases s; cases pe) simp
    have "acc_users (snd (authenticate env fault kf now r st)) = acc_users (snd s)"
      using True unfolding authenticate_def s_def [symmetric]
      by (subst pe) (simp add: Let_def renewSession_frame split: prod.split,
        metis renewSession_frame(1) snd_conv)
    then show ?thesis using users by (simp add: grows_same)
  qed
qed

lemma grows_bootstrapLogin: "grows st (snd (bootstrapLogin env fault now random r body st))"
proof -
  define l where "l = allow now (''bootstrap:'' @ requestIP env r) credentialAttemptLimit credentialAttemptWindow (acc_attempts st)"
  define st1 where "st1 = st\<lparr>acc_attempts := snd l\<rparr>"
  have same: "grows st st1" by (rule grows_same) (simp add: st1_def)
  have "acc_users (snd (bootstrapLogin env fault now random r body st)) = acc_users st1 \<or>
    (\<exists>st2. insert_bootstrap_user st1 = Some st2 \<and> acc_users (snd (bootstrapLogin env fault now random r body st)) = acc_users st2)"
  proof (cases "insert_bootstrap_user st1")
    case None
    then show ?thesis
      unfolding bootstrapLogin_def Let_def l_def [symmetric] case_prod_unfold st1_def [symmetric]
      by (simp add: st1_def)
  next
    case (Some st2)
    then show ?thesis
      unfolding bootstrapLogin_def Let_def l_def [symmetric] case_prod_unfold st1_def [symmetric]
      by (auto simp: st1_def split: option.split dest: insert_session_frame)
  qed
  then show ?thesis
    using same grows_insert_bootstrap [of st1] by (auto simp: grows_def standing_def st1_def)
qed

lemma grows_finish_login: "grows st (snd (finish_login env fault now random r i to st))"
proof (cases "upsertIdentity fault i st")
  case (Pair res st1)
  then have g: "grows st st1" using grows_upsertIdentity [of st fault i] by simp
  have "acc_users (snd (finish_login env fault now random r i to st)) = acc_users st1"
    using Pair by (auto simp: finish_login_def Let_def split: sum.split identity_error.split option.split dest: insert_session_frame)
  with g show ?thesis by (rule grows_trans_same)
qed

lemma grows_callback: "grows st (snd (callback env fault now random r state code failed st))"
proof -
  define st1 where "st1 = (if fault DeleteFlow then st
      else st\<lparr>acc_flows := filter (\<lambda>f. flw_state f \<noteq> state) (acc_flows st)\<rparr>)"
  have users: "acc_users st1 = acc_users st" by (simp add: st1_def)
  have "grows st (snd (finish_login env fault now random r i to st1))" for i to
    by (rule grows_from_same [OF grows_finish_login users])
  then show ?thesis
    unfolding callback_def Let_def st1_def [symmetric]
    using users by (auto simp: grows_same split: option.split prod.split)
qed

lemma grows_createAdminUser: "grows st (snd (createAdminUser fault now random p body st))"
proof (cases "case body of None \<Rightarrow> Inl FieldsRequired | Some raw \<Rightarrow> validateAdminUserInput raw True")
  case (Inr i)
  have g: "grows st (snd w)" if "w = writeAdminUser fault now uid i True st" for uid w
    using writeAdminUser_standing [of fault now uid i True st "fst w" "snd w"] that by (auto split: if_splits)
  show ?thesis
  proof (cases random)
    case None
    then show ?thesis using Inr by (simp add: createAdminUser_def)
  next
    case (Some uid)
    obtain ok st1 where w: "writeAdminUser fault now uid i True st = (ok, st1)" by force
    have "acc_users (snd (createAdminUser fault now random p body st)) = acc_users st1"
      using Inr Some w by (cases ok) (simp_all add: createAdminUser_def)
    moreover have "grows st st1" using g [OF w [symmetric]] by simp
    ultimately show ?thesis by (blast intro: grows_trans_same)
  qed
qed (simp add: createAdminUser_def)


lemma recovery_session_facts:
  assumes "recovery_session env fault now raw expires st = Some st'"
  shows "(grows st st' \<or> standing st' = map (set_standing recovery_id ''active'') (standing st))
    \<and> acc_recovery st' = acc_recovery st
    \<and> acc_sessions st' = filter (\<lambda>s. ses_user s \<noteq> recovery_id) (acc_sessions st)
        @ [\<lparr>ses_hash = sessionHash env raw, ses_user = recovery_id, ses_expires = expires, ses_seen = now, ses_created = now\<rparr>]
    \<and> sessionHash env raw \<notin> set (map ses_hash (filter (\<lambda>s. ses_user s \<noteq> recovery_id) (acc_sessions st)))"
proof -
  obtain st1 where st1: "activate_recovery_user st = Some st1"
    using assms by (auto simp: recovery_session_def split: option.splits if_splits)
  obtain st2 where st2: "insert_roles recovery_id [''platform-admin''] st1 = Some st2"
    using assms st1 by (auto simp: recovery_session_def split: option.splits if_splits)
  have ins: "insert_session now (sessionHash env raw) recovery_id expires (drop_sessions_of recovery_id st2) = Some st'"
    using assms st1 st2 by (auto simp: recovery_session_def split: if_splits)
  have same: "acc_sessions st1 = acc_sessions st" "acc_recovery st1 = acc_recovery st"
    using st1 by (auto simp: activate_recovery_user_def split: if_splits)
  have "standing st' = standing st1"
    using insert_roles_frame [OF st2] insert_session_frame [OF ins] by (simp add: standing_def drop_sessions_of_def)
  then have "grows st st' \<longleftrightarrow> grows st st1" "standing st' = standing st1" by (simp_all only: grows_def)
  then show ?thesis
    using standing_activate [OF st1] same insert_roles_frame [OF st2] ins
    by (auto simp: insert_session_def drop_sessions_of_def list_ex_iff split: if_splits)
qed

lemma recovery_tx_cases:
  "(rp_status (fst (recovery_tx env fault now raw r h e st)) \<noteq> 200
      \<and> acc_users (snd (recovery_tx env fault now raw r h e st)) = acc_users st
      \<and> acc_sessions (snd (recovery_tx env fault now raw r h e st)) = acc_sessions st
      \<and> acc_recovery (snd (recovery_tx env fault now raw r h e st)) = acc_recovery st)
   \<or> (rp_status (fst (recovery_tx env fault now raw r h e st)) = 200
      \<and> h \<notin> set (map rec_hash (acc_recovery st))
      \<and> (\<exists>st2. recovery_session env fault now raw (now + recoverySessionLifetime)
           (st\<lparr>acc_recovery := acc_recovery st @ [\<lparr>rec_hash = h, rec_expires = e, rec_used = now\<rparr>]\<rparr>) = Some st2
         \<and> snd (recovery_tx env fault now raw r h e st)
             = audit fault now recovery_id ''recovery.login'' ''break-glass'' ''success'' st2))"
proof (cases "fault BeginRecovery \<or> fault InsertRecoveryToken \<or> list_ex (\<lambda>t. rec_hash t = h) (acc_recovery st)")
  case True
  then show ?thesis by (auto simp: recovery_tx_def use_recovery_token_def problem_def)
next
  case False
  define st1 where "st1 = st\<lparr>acc_recovery := acc_recovery st @ [\<lparr>rec_hash = h, rec_expires = e, rec_used = now\<rparr>]\<rparr>"
  have eq: "recovery_tx env fault now raw r h e st =
    (case recovery_session env fault now raw (now + recoverySessionLifetime) st1 of
       None \<Rightarrow> (problem 500 ''recovery_login_failed'', st)
     | Some st2 \<Rightarrow>
         (if fault CommitRecovery then (problem 500 ''recovery_login_failed'', st)
          else (\<lparr>rp_status = 200, rp_code = ''authenticated'',
                  rp_cookie = Some (recoverySessionCookie r raw (now + recoverySessionLifetime)), rp_to = []\<rparr>,
                audit fault now recovery_id ''recovery.login'' ''break-glass'' ''success'' st2)))"
    using False by (simp add: recovery_tx_def use_recovery_token_def st1_def Let_def)
  have "h \<notin> set (map rec_hash (acc_recovery st))" using False by (auto simp: list_ex_iff)
  then show ?thesis
    unfolding eq st1_def [symmetric] by (auto simp: problem_def split: option.split)
qed

text \<open>What a recovery login does: nothing to the tables, or one use of the token's digest.\<close>

lemma recoveryLogin_cases:
  obtains (refused) "rp_status (fst (recoveryLogin env fault now random r body st)) \<noteq> 200"
      "acc_users (snd (recoveryLogin env fault now random r body st)) = acc_users st"
      "acc_sessions (snd (recoveryLogin env fault now random r body st)) = acc_sessions st"
      "acc_recovery (snd (recoveryLogin env fault now random r body st)) = acc_recovery st"
  | (accepted) token h e raw where "rp_status (fst (recoveryLogin env fault now random r body st)) = 200"
      "body = Some token" "random = Some raw"
      "Verify (web_hashes env) (trim_space token) (recovery_key env) now = Inr (h, e)"
      "h \<notin> set (map rec_hash (acc_recovery st))"
      "acc_recovery (snd (recoveryLogin env fault now random r body st))
         = acc_recovery st @ [\<lparr>rec_hash = h, rec_expires = e, rec_used = now\<rparr>]"
      "acc_sessions (snd (recoveryLogin env fault now random r body st))
         = filter (\<lambda>s. ses_user s \<noteq> recovery_id) (acc_sessions st)
           @ [\<lparr>ses_hash = sessionHash env raw, ses_user = recovery_id, ses_expires = now + recoverySessionLifetime,
               ses_seen = now, ses_created = now\<rparr>]"
      "sessionHash env raw \<notin> set (map ses_hash (filter (\<lambda>s. ses_user s \<noteq> recovery_id) (acc_sessions st)))"
      "grows st (snd (recoveryLogin env fault now random r body st))
       \<or> standing (snd (recoveryLogin env fault now random r body st))
           = map (set_standing recovery_id ''active'') (standing st)"
proof -
  define l where "l = allow now (''recovery:'' @ requestIP env r) credentialAttemptLimit credentialAttemptWindow (acc_attempts st)"
  define st1 where "st1 = st\<lparr>acc_attempts := snd l\<rparr>"
  have st1: "acc_users st1 = acc_users st" "acc_sessions st1 = acc_sessions st" "acc_recovery st1 = acc_recovery st"
    by (simp_all add: st1_def)
  note unfold = recoveryLogin_def Let_def l_def [symmetric] case_prod_unfold st1_def [symmetric]
  define v where "v = (case body of None \<Rightarrow> Inl InvalidToken
                    | Some token \<Rightarrow> Verify (web_hashes env) (trim_space token) (recovery_key env) now)"
  show ?thesis
  proof (cases "login_origin_allowed env r \<and> fst l \<and> (\<exists>h e. v = Inr (h, e)) \<and> random \<noteq> None")
    case False
    then have "rp_status (fst (recoveryLogin env fault now random r body st)) \<noteq> 200"
      "acc_users (snd (recoveryLogin env fault now random r body st)) = acc_users st"
      "acc_sessions (snd (recoveryLogin env fault now random r body st)) = acc_sessions st"
      "acc_recovery (snd (recoveryLogin env fault now random r body st)) = acc_recovery st"
      using st1 unfolding unfold v_def [symmetric]
      by (auto simp: problem_def split: sum.split option.split)
    then show ?thesis by (rule refused)
  next
    case True
    then obtain h e raw where v: "v = Inr (h, e)" and raw: "random = Some raw" by auto
    then obtain token where token: "body = Some token"
        "Verify (web_hashes env) (trim_space token) (recovery_key env) now = Inr (h, e)"
      by (auto simp: v_def split: option.splits)
    have eq: "recoveryLogin env fault now random r body st = recovery_tx env fault now raw r h e st1"
      using True v raw unfolding unfold v_def [symmetric] by simp
    from recovery_tx_cases [of env fault now raw r h e st1] show ?thesis
    proof (elim disjE exE conjE)
      assume "rp_status (fst (recovery_tx env fault now raw r h e st1)) \<noteq> 200"
        "acc_users (snd (recovery_tx env fault now raw r h e st1)) = acc_users st1"
        "acc_sessions (snd (recovery_tx env fault now raw r h e st1)) = acc_sessions st1"
        "acc_recovery (snd (recovery_tx env fault now raw r h e st1)) = acc_recovery st1"
      then show ?thesis using refused st1 unfolding eq by simp
    next
      fix st2
      assume ok: "rp_status (fst (recovery_tx env fault now raw r h e st1)) = 200"
        "h \<notin> set (map rec_hash (acc_recovery st1))"
        "recovery_session env fault now raw (now + recoverySessionLifetime)
           (st1\<lparr>acc_recovery := acc_recovery st1 @ [\<lparr>rec_hash = h, rec_expires = e, rec_used = now\<rparr>]\<rparr>) = Some st2"
        "snd (recovery_tx env fault now raw r h e st1)
             = audit fault now recovery_id ''recovery.login'' ''break-glass'' ''success'' st2"
      have "standing (st1\<lparr>acc_recovery := x\<rparr>) = standing st" for x by (simp add: standing_def st1)
      moreover have "standing (audit fault now a b c d s) = standing s" for a b c d s by (simp add: standing_def)
      ultimately show ?thesis
        using recovery_session_facts [OF ok(3)] ok(1,2,4) st1 token raw
        by (intro accepted [of token raw h e]) (simp_all add: eq [unfolded token(1) raw] grows_def)
    qed
  qed
qed


subsection \<open>No request is let in for it\<close>

lemma shut_not_active: "shut u st \<Longrightarrow> (u, ''active'') \<notin> set (standing st)"
  unfolding shut_def by (metis eq_key_imp_eq_value)

lemma shut_active_user: "shut u st \<Longrightarrow> active_user st u = None"
  using shut_not_active [of u st] by (force simp: active_user_def find_None_iff standing_def)

lemma upsertIdentity_active:
  assumes "upsertIdentity fault i st = (Inr uid, st')"
  obtains st1 where "grows st st1" "(uid, ''active'') \<in> set (standing st1)"
proof -
  have tx: "upsert_tx fault i st = (Inr uid, st')"
    using assms by (auto simp: upsertIdentity_def split: if_splits prod.splits sum.splits)
  then obtain st1 where st1: "upsert_user i st = Some st1" "\<not> fault UpsertUser"
    by (auto simp: upsert_tx_def split: option.splits if_splits)
  obtain row where row: "List.find (\<lambda>u. usr_subject u = id_Subject i) (acc_users st1) = Some row"
    "usr_status row = ''active''" "usr_id row = uid"
    using tx st1 by (auto simp: upsert_tx_def Let_def split: option.splits if_splits)
  have "row \<in> set (acc_users st1)" using row(1) find_SomeD by fastforce
  then have "(uid, ''active'') \<in> set (standing st1)" using row(2,3) by (auto simp: standing_def)
  with grows_upsert_user [OF st1(1)] show ?thesis by (rule that)
qed

lemma shut_not_upserted:
  assumes "shut u st" "upsertIdentity fault i st = (Inr uid, st')"
  shows "uid \<noteq> u"
proof (rule upsertIdentity_active [OF assms(2)])
  fix st1
  assume "grows st st1" "(uid, ''active'') \<in> set (standing st1)"
  then show ?thesis using shut_not_active [OF shut_grows [OF assms(1)]] by auto
qed

lemma stored_principal_user [simp]: "p_UserID (stored_principal st uid roles) = uid"
  by (simp add: stored_principal_def Let_def)

lemma sessionPrincipal_SomeD:
  assumes "sessionPrincipal env fault now raw st = (Some (p, e), st')"
  obtains s where "List.find (\<lambda>s. ses_hash s = sessionHash env raw) (acc_sessions st) = Some s"
    "p_UserID p = ses_user s" "e = ses_expires s" "now \<le> ses_expires s" "active_user st (ses_user s) \<noteq> None"
    "ses_user s = bootstrap_id \<Longrightarrow> bootstrapAvailable fault st"
    "st' = st \<or> st' = update_session (sessionHash env raw) (\<lambda>s. s\<lparr>ses_seen := now\<rparr>) st"
proof -
  obtain s where s: "List.find (\<lambda>s. ses_hash s = sessionHash env raw) (acc_sessions st) = Some s" "\<not> fault LoadSession"
    using assms by (auto simp: sessionPrincipal_def Let_def split: if_splits option.splits)
  then show ?thesis
    using assms by (intro that [OF s(1)])
      (auto simp: sessionPrincipal_def Let_def split: if_splits option.splits)
qed

lemma sessionPrincipal_active:
  assumes "sessionPrincipal env fault now raw st = (Some (p, e), st')"
  shows "active_user st (p_UserID p) \<noteq> None"
  by (rule sessionPrincipal_SomeD [OF assms]) simp

lemma active_user_keys [simp]: "active_user (st\<lparr>acc_keys := ks\<rparr>) u = active_user st u"
  by (simp add: active_user_def)

lemma authenticate_key_active:
  assumes "authenticate_key env fault kf now r raw st = (Admitted p c, st')"
  shows "active_user st (p_UserID p) \<noteq> None"
proof (cases "AuthenticateRequest (web_keys env) kf now raw (requestIP env r) (acc_keys st)")
  case (Pair res ks)
  show ?thesis
  proof (cases res)
    case (Inl e)
    then show ?thesis using assms Pair by (cases e) (simp_all add: authenticate_key_def)
  next
    case (Inr info)
    then show ?thesis using assms Pair by (auto simp: authenticate_key_def Let_def split: if_splits)
  qed
qed

lemma shut_not_admitted:
  assumes "shut u st" "u \<noteq> bootstrap_id" "authenticate env fault kf now r st = (Admitted p c, st')"
  shows "p_UserID p \<noteq> u"
proof (cases "presented_key r = []")
  case False
  then have "authenticate_key env fault kf now r (presented_key r) st = (Admitted p c, st')"
    using assms(3) by (simp add: authenticate_def)
  then have "active_user st (p_UserID p) \<noteq> None" by (rule authenticate_key_active)
  then show ?thesis using shut_active_user [OF assms(1)] by metis
next
  case True
  define s where "s = (case rq_cookie r of None \<Rightarrow> (None, st) | Some value \<Rightarrow> sessionPrincipal env fault now value st)"
  have users: "acc_users (snd s) = acc_users st"
    by (simp add: s_def sessionPrincipal_frame split: option.split)
  show ?thesis
  proof (cases "fst s")
    case None
    then have b: "authenticate_bearer env fault (bearer_value r) (snd s) = (Admitted p c, st')"
      using True assms(3) unfolding authenticate_def s_def [symmetric] by (cases s) simp
    have "shut u (snd s)" using shut_same [OF assms(1) users] .
    then show ?thesis
      using b assms(2)
      by (auto simp: authenticate_bearer_def split: if_splits option.splits prod.splits sum.splits
          dest: shut_not_upserted)
  next
    case (Some pe)
    then obtain q e raw where q: "rq_cookie r = Some raw" "sessionPrincipal env fault now raw st = (Some (q, e), snd s)"
      unfolding s_def by (cases "rq_cookie r"; cases pe) (simp_all, metis prod.collapse)
    then have "p = q"
      using True assms(3) by (auto simp: authenticate_def Let_def split: if_splits prod.splits)
    moreover have "active_user st (p_UserID q) \<noteq> None" by (rule sessionPrincipal_active [OF q(2)])
    ultimately show ?thesis using shut_active_user [OF assms(1)] by metis
  qed
qed

lemma shut_step:
  assumes "shut u st" "u \<noteq> recovery_id" "\<not> reactivates u step"
  shows "shut u (serve_step env st (now, step))"
proof (cases step)
  case (Serve fault kf r)
  then show ?thesis using shut_grows [OF assms(1) grows_authenticate] by simp
next
  case (BootstrapLogin fault random r body)
  then show ?thesis using shut_grows [OF assms(1) grows_bootstrapLogin] by simp
next
  case (RecoveryLogin fault random r body)
  then have eq: "serve_step env st (now, step) = snd (recoveryLogin env fault now random r body st)" by simp
  show ?thesis
    unfolding eq
  proof (rule recoveryLogin_cases [of env fault now random r body st])
    assume "acc_users (snd (recoveryLogin env fault now random r body st)) = acc_users st"
    then show "shut u (snd (recoveryLogin env fault now random r body st))" by (rule shut_same [OF assms(1)])
  next
    assume "grows st (snd (recoveryLogin env fault now random r body st))
       \<or> standing (snd (recoveryLogin env fault now random r body st)) = map (set_standing recovery_id ''active'') (standing st)"
    then show "shut u (snd (recoveryLogin env fault now random r body st))"
      using shut_grows [OF assms(1)] shut_write [OF assms(1)] assms(2) by blast
  qed
next
  case (StartLogin fault random verifier to)
  then show ?thesis
    by (auto simp: login_def split: option.split intro: shut_same [OF assms(1)])
next
  case (Callback fault random r state code failed)
  then show ?thesis using shut_grows [OF assms(1) grows_callback] by simp
next
  case (Logout fault r)
  then show ?thesis
    by (auto simp: logout_def Let_def split: option.split intro: shut_same [OF assms(1)])
next
  case (CreateUser fault random p body)
  then show ?thesis using shut_grows [OF assms(1) grows_createAdminUser] by simp
next
  case (UpdateUser fault p uid body)
  from updateAdminUser_cases [of fault now p uid body st] show ?thesis
  proof (elim disjE exE conjE)
    assume "acc_users (snd (updateAdminUser fault now p uid body st)) = acc_users st"
    then show ?thesis using UpdateUser shut_same [OF assms(1)] by simp
  next
    fix raw i
    assume u: "body = Some raw" "validateAdminUserInput raw False = Inr i"
      "standing (snd (updateAdminUser fault now p uid body st)) = map (set_standing uid (in_Status i)) (standing st)"
    have "in_Status i \<noteq> ''active''" if "uid = u"
      using that assms(3) UpdateUser u(1) validated_status [OF u(2)] by auto
    then show ?thesis using UpdateUser shut_write [OF assms(1) u(3)] by simp
  qed
next
  case (DeleteUser fault p uid)
  then show ?thesis
    using deleteAdminUser_cases [of fault now p uid st] shut_same [OF assms(1)] shut_write [OF assms(1)] by auto
next
  case (PurgeExpired failed)
  then show ?thesis using shut_same [OF assms(1)] by simp
next
  case (KeyOperation ks)
  then show ?thesis using shut_same [OF assms(1)] by simp
qed

lemma shut_run:
  "shut u st \<Longrightarrow> u \<noteq> recovery_id \<Longrightarrow> list_all (\<lambda>ts. \<not> reactivates u (snd ts)) steps \<Longrightarrow>
     shut u (foldl (serve_step env) st steps)"
proof (induction steps arbitrary: st)
  case (Cons a steps)
  then have "shut u (serve_step env st (fst a, snd a))" by (intro shut_step) simp_all
  with Cons show ?case by simp
qed simp


text \<open>
  C9: an administrator disables or deletes an account. Whatever requests, logins at the provider,
  token logins, key operations and purges follow, in whatever order and with whatever statements
  failing, no request is let in for that account, until an administrator activates it again.
\<close>

theorem disabled_account_locked_out:
  assumes "distinct (map usr_id (acc_users st))"
    and "rp_status (fst (deleteAdminUser fault now p u st)) = 204 \<and> st1 = snd (deleteAdminUser fault now p u st)
      \<or> rp_status (fst (updateAdminUser fault now p u (Some raw) st)) = 204
        \<and> trim_space (in_Status raw) = ''disabled'' \<and> st1 = snd (updateAdminUser fault now p u (Some raw) st)"
    and "list_all (\<lambda>ts. \<not> reactivates u (snd ts)) steps"
    and "authenticate env fault' kfault later r (foldl (serve_step env) st1 steps) = (Admitted q cookie, st2)"
  shows "p_UserID q \<noteq> u"
proof -
  have ids: "distinct (map fst (standing st))" using assms(1) by (simp add: standing_def o_def)
  have closed: "shut u st1" if "standing st1 = map (set_standing u s) (standing st)" "user_of st u \<noteq> None" "s \<noteq> ''active''" for s
  proof -
    have "u \<in> set (map fst (standing st))" using that(2) unfolding user_of_None by simp
    then obtain t where "(u, t) \<in> set (standing st)" by auto
    then have "set_standing u s (u, t) \<in> set (standing st1)" using that(1) by simp
    then have "(u, s) \<in> set (standing st1)" by (simp add: set_standing_def)
    then show ?thesis using ids that(1,3) by (auto simp: shut_def o_def)
  qed
  have "shut u st1 \<and> u \<noteq> bootstrap_id \<and> u \<noteq> recovery_id"
    using assms(2)
  proof (elim disjE conjE)
    assume "rp_status (fst (deleteAdminUser fault now p u st)) = 204" "st1 = snd (deleteAdminUser fault now p u st)"
    then show ?thesis using deleteAdminUser_cases [of fault now p u st] closed [of "''deleted''"] by auto
  next
    assume u: "rp_status (fst (updateAdminUser fault now p u (Some raw) st)) = 204"
      "trim_space (in_Status raw) = ''disabled''" "st1 = snd (updateAdminUser fault now p u (Some raw) st)"
    from updateAdminUser_cases [of fault now p u "Some raw" st] show ?thesis
    proof (elim disjE exE conjE)
      fix raw' i
      assume i: "Some raw = Some raw'" "validateAdminUserInput raw' False = Inr i" "u \<noteq> bootstrap_id" "u \<noteq> recovery_id"
        "user_of st u \<noteq> None"
        "standing (snd (updateAdminUser fault now p u (Some raw) st)) = map (set_standing u (in_Status i)) (standing st)"
      then have "in_Status i = ''disabled''" using validated_status [OF i(2)] u(2) by simp
      then have "standing st1 = map (set_standing u ''disabled'') (standing st)" using i(6) u(3) by simp
      then show ?thesis using closed [of "''disabled''"] i(3-5) by simp
    qed (use u(1) in simp)
  qed
  then have "shut u (foldl (serve_step env) st1 steps)" "u \<noteq> bootstrap_id"
    using shut_run [OF _ _ assms(3)] by simp_all
  then show ?thesis by (rule shut_not_admitted [OF _ _ assms(4)])
qed


section \<open>A recovery token is used once\<close>

text \<open>The clock does not run backwards along the steps.\<close>

fun in_order :: "time \<Rightarrow> (time \<times> 'a) list \<Rightarrow> bool" where
  "in_order t [] \<longleftrightarrow> True"
| "in_order t (s # steps) \<longleftrightarrow> t \<le> fst s \<and> in_order (fst s) steps"

fun last_time :: "time \<Rightarrow> (time \<times> 'a) list \<Rightarrow> time" where
  "last_time t [] = t"
| "last_time t (s # steps) = last_time (fst s) steps"

lemma Verify_again:
  "Verify h token pepper now = Inr (d, e) \<Longrightarrow> Verify h token pepper later = Inr (d', e') \<Longrightarrow>
     d' = d \<and> e' = e \<and> later < e"
  by (auto simp: Verify_def Let_def split: if_splits list.splits option.splits)

text \<open>The digest is on record, or the token has expired.\<close>

definition spent :: "string \<Rightarrow> time \<Rightarrow> time \<Rightarrow> accounts \<Rightarrow> bool" where
  "spent h e now st \<longleftrightarrow> e \<le> now \<or> (\<exists>t \<in> set (acc_recovery st). rec_hash t = h \<and> rec_expires t = e)"

lemma spent_mono: "spent h e now st \<Longrightarrow> now \<le> later \<Longrightarrow> set (acc_recovery st) \<subseteq> set (acc_recovery st') \<Longrightarrow> spent h e later st'"
  by (auto simp: spent_def)

lemma recovery_upsertIdentity: "acc_recovery (snd (upsertIdentity fault i st)) = acc_recovery st"
proof -
  have "acc_recovery st' = acc_recovery st" if "upsert_tx fault i st = (res, st')" for res st'
    using that by (auto simp: upsert_tx_def Let_def upsert_user_def split: option.splits if_splits dest: insert_roles_frame)
  then show ?thesis by (cases "upsert_tx fault i st") (simp add: upsertIdentity_def split: sum.split)
qed

lemma recovery_insert_bootstrap: "insert_bootstrap_user st = Some st' \<Longrightarrow> acc_recovery st' = acc_recovery st"
  by (auto simp: insert_bootstrap_user_def split: if_splits)

lemma recovery_bearer: "acc_recovery (snd (authenticate_bearer env fault token st)) = acc_recovery st"
proof -
  have "upsertIdentity fault i st = (res, st') \<Longrightarrow> acc_recovery st' = acc_recovery st" for i res st'
    using recovery_upsertIdentity [of fault i st] by simp
  then show ?thesis
    by (auto simp: authenticate_bearer_def split: option.split prod.split sum.split dest: recovery_insert_bootstrap)
qed

text \<open>What authentication does to the tables is what its parts do.\<close>

lemma authenticate_parts:
  obtains (key) "snd (authenticate env fault kf now r st) = snd (authenticate_key env fault kf now r (presented_key r) st)"
  | (session) raw p e st1 where "rq_cookie r = Some raw" "sessionPrincipal env fault now raw st = (Some (p, e), st1)"
      "snd (authenticate env fault kf now r st) = st1
       \<or> snd (authenticate env fault kf now r st) = snd (renewSession env fault now r raw p e st1)"
  | (bearer) st1 where "st1 = st \<or> (\<exists>raw. st1 = snd (sessionPrincipal env fault now raw st))"
      "snd (authenticate env fault kf now r st) = snd (authenticate_bearer env fault (bearer_value r) st1)"
proof (cases "presented_key r = []")
  case False
  then show ?thesis by (intro key) (simp add: authenticate_def)
next
  case True
  define s where "s = (case rq_cookie r of None \<Rightarrow> (None, st) | Some raw \<Rightarrow> sessionPrincipal env fault now raw st)"
  show ?thesis
  proof (cases "fst s")
    case None
    then have "snd (authenticate env fault kf now r st) = snd (authenticate_bearer env fault (bearer_value r) (snd s))"
      using True unfolding authenticate_def s_def [symmetric] by (cases s) simp
    moreover have "snd s = st \<or> (\<exists>raw. snd s = snd (sessionPrincipal env fault now raw st))"
      unfolding s_def by (cases "rq_cookie r") auto
    ultimately show ?thesis by (intro bearer)
  next
    case (Some pe)
    then obtain p e raw where q: "rq_cookie r = Some raw" "sessionPrincipal env fault now raw st = (Some (p, e), snd s)"
      unfolding s_def by (cases "rq_cookie r"; cases pe) (simp_all, metis prod.collapse)
    then show ?thesis
      using True by (intro session [OF q]) (simp add: authenticate_def Let_def split: prod.split)
  qed
qed

lemma recovery_authenticate: "acc_recovery (snd (authenticate env fault kf now r st)) = acc_recovery st"
proof (rule authenticate_parts [of env fault kf now r st])
  assume "snd (authenticate env fault kf now r st) = snd (authenticate_key env fault kf now r (presented_key r) st)"
  then show ?thesis by (simp add: authenticate_key_frame)
next
  fix raw p e st1
  assume "sessionPrincipal env fault now raw st = (Some (p, e), st1)"
    "snd (authenticate env fault kf now r st) = st1
       \<or> snd (authenticate env fault kf now r st) = snd (renewSession env fault now r raw p e st1)"
  then show ?thesis
    using sessionPrincipal_frame(2) [of env fault now raw st] by (auto simp: renewSession_frame)
next
  fix st1
  assume "st1 = st \<or> (\<exists>raw. st1 = snd (sessionPrincipal env fault now raw st))"
    "snd (authenticate env fault kf now r st) = snd (authenticate_bearer env fault (bearer_value r) st1)"
  then show ?thesis by (auto simp: recovery_bearer sessionPrincipal_frame)
qed

lemma recovery_bootstrapLogin: "acc_recovery (snd (bootstrapLogin env fault now random r body st)) = acc_recovery st"
proof -
  define l where "l = allow now (''bootstrap:'' @ requestIP env r) credentialAttemptLimit credentialAttemptWindow (acc_attempts st)"
  define st1 where "st1 = st\<lparr>acc_attempts := snd l\<rparr>"
  have "acc_recovery st1 = acc_recovery st" by (simp add: st1_def)
  then show ?thesis
    unfolding bootstrapLogin_def Let_def l_def [symmetric] case_prod_unfold st1_def [symmetric]
    by (auto split: option.split dest!: insert_session_frame recovery_insert_bootstrap)
qed

lemma recovery_callback: "acc_recovery (snd (callback env fault now random r state code failed st)) = acc_recovery st"
proof -
  have f: "acc_recovery (snd (finish_login env fault now random r i to s)) = acc_recovery s" for i to s
    using recovery_upsertIdentity [of fault i s]
    by (cases "upsertIdentity fault i s")
      (auto simp: finish_login_def Let_def split: sum.split identity_error.split option.split dest: insert_session_frame)
  define st1 where "st1 = (if fault DeleteFlow then st
      else st\<lparr>acc_flows := filter (\<lambda>f. flw_state f \<noteq> state) (acc_flows st)\<rparr>)"
  have "acc_recovery st1 = acc_recovery st" by (simp add: st1_def)
  then show ?thesis
    unfolding callback_def Let_def st1_def [symmetric]
    by (auto simp: f split: option.split prod.split)
qed

lemma recovery_admin:
  "acc_recovery (snd (writeAdminUser fault now uid i create st)) = acc_recovery st"
  "acc_recovery (snd (createAdminUser fault now random p body st)) = acc_recovery st"
  "acc_recovery (snd (updateAdminUser fault now p uid ubody st)) = acc_recovery st"
  "acc_recovery (snd (deleteAdminUser fault now p uid st)) = acc_recovery st"
proof -
  have row: "write_user_row uid i create st = Some st1 \<Longrightarrow> acc_recovery st1 = acc_recovery st" for uid i create st1
    by (auto simp: write_user_row_def split: if_splits)
  show w: "acc_recovery (snd (writeAdminUser fault now uid i create st)) = acc_recovery st" for uid i create
  proof (cases "write_user_row uid i create st")
    case None
    then show ?thesis by (simp add: writeAdminUser_def)
  next
    case (Some st1)
    define s where "s = st1\<lparr>acc_roles := filter (\<lambda>r. fst r \<noteq> uid) (acc_roles st1)\<rparr>"
    have "acc_recovery s = acc_recovery st" using row [OF Some] by (simp add: s_def)
    then have "insert_roles uid (in_Roles i) s = Some st2 \<Longrightarrow> acc_recovery st2 = acc_recovery st" for st2
      using insert_roles_frame [of uid "in_Roles i" s st2] by simp
    then show ?thesis
      using Some unfolding writeAdminUser_def s_def [symmetric]
      by (simp add: s_def [symmetric] Let_def split: option.split)
  qed
  then have w': "writeAdminUser fault now uid i create st = (ok, st') \<Longrightarrow> acc_recovery st' = acc_recovery st" for uid i create ok st'
    by (metis snd_conv)
  show "acc_recovery (snd (createAdminUser fault now random p body st)) = acc_recovery st"
    by (auto simp: createAdminUser_def split: sum.split option.split prod.split bool.split dest: w')
  show "acc_recovery (snd (updateAdminUser fault now p uid ubody st)) = acc_recovery st"
    by (auto simp: updateAdminUser_def split: sum.split option.split prod.split bool.split dest: w')
  show "acc_recovery (snd (deleteAdminUser fault now p uid st)) = acc_recovery st"
    by (simp add: deleteAdminUser_def Let_def)
qed


lemma spent_step:
  assumes "spent h e t st" "t \<le> now"
  shows "spent h e now (serve_step env st (now, step))"
proof (cases step)
  case (RecoveryLogin fault random r body)
  then have eq: "serve_step env st (now, step) = snd (recoveryLogin env fault now random r body st)" by simp
  have "set (acc_recovery st) \<subseteq> set (acc_recovery (snd (recoveryLogin env fault now random r body st)))"
  proof (rule recoveryLogin_cases [of env fault now random r body st])
    fix hash e'
    assume "acc_recovery (snd (recoveryLogin env fault now random r body st))
       = acc_recovery st @ [\<lparr>rec_hash = hash, rec_expires = e', rec_used = now\<rparr>]"
    then show ?thesis by auto
  qed auto
  then show ?thesis unfolding eq by (rule spent_mono [OF assms])
next
  case (PurgeExpired failed)
  then show ?thesis
    using assms by (auto simp: spent_def purge_expired_def)
next
  case (StartLogin fault random verifier to)
  then have "acc_recovery (serve_step env st (now, step)) = acc_recovery st"
    by (simp add: login_def split: option.split)
  then show ?thesis using spent_mono [OF assms] by simp
next
  case (Logout fault r)
  then have "acc_recovery (serve_step env st (now, step)) = acc_recovery st"
    by (simp add: logout_def Let_def split: option.split)
  then show ?thesis using spent_mono [OF assms] by simp
qed (use spent_mono [OF assms] in \<open>simp_all add: recovery_authenticate recovery_bootstrapLogin recovery_callback recovery_admin\<close>)

lemma spent_run:
  "spent h e t st \<Longrightarrow> in_order t steps \<Longrightarrow> spent h e (last_time t steps) (foldl (serve_step env) st steps)"
proof (induction steps arbitrary: t st)
  case (Cons a steps)
  then have "spent h e (fst a) (serve_step env st (fst a, snd a))" by (intro spent_step [OF Cons.prems(1)]) simp
  with Cons show ?case by simp
qed simp

text \<open>
  C10: a break-glass token logs in once. After a login with it, whatever requests, purges of the
  token table and other logins follow, a later login with the same token text is refused.
\<close>

theorem recovery_token_used_once:
  assumes "recoveryLogin env fault now random r (Some token) st = (reply1, st1)" "rp_status reply1 = 200"
    and "in_order now steps" "last_time now steps \<le> later"
    and "trim_space token' = trim_space token"
    and "recoveryLogin env fault' later random' r' (Some token') (foldl (serve_step env) st1 steps) = (reply2, st2)"
  shows "rp_status reply2 \<noteq> 200"
proof
  assume ok: "rp_status reply2 = 200"
  obtain h e where v: "Verify (web_hashes env) (trim_space token) (recovery_key env) now = Inr (h, e)"
    and rec: "acc_recovery st1 = acc_recovery st @ [\<lparr>rec_hash = h, rec_expires = e, rec_used = now\<rparr>]"
    by (rule recoveryLogin_cases [of env fault now random r "Some token" st]) (use assms(1,2) in auto)
  have "spent h e now st1" unfolding spent_def rec by auto
  then have s: "spent h e (last_time now steps) (foldl (serve_step env) st1 steps)" using assms(3) by (rule spent_run)
  obtain h' e' where v': "Verify (web_hashes env) (trim_space token') (recovery_key env) later = Inr (h', e')"
    and fresh: "h' \<notin> set (map rec_hash (acc_recovery (foldl (serve_step env) st1 steps)))"
    by (rule recoveryLogin_cases [of env fault' later random' r' "Some token'" "foldl (serve_step env) st1 steps"])
      (use assms(6) ok in auto)
  have "h' = h" "later < e" using Verify_again [OF v] v' assms(5) by auto
  then show False using s fresh assms(4) by (auto simp: spent_def)
qed


section \<open>Attempts in a window\<close>

text \<open>The times at which the calls for one key were allowed.\<close>

fun allowed_at :: "nat \<Rightarrow> duration \<Rightarrow> string \<Rightarrow> attempt_limiter \<Rightarrow> (time \<times> string) list \<Rightarrow> time list" where
  "allowed_at limit window key l [] = []"
| "allowed_at limit window key l ((now, k) # calls) =
     (if fst (allow now k limit window l) \<and> k = key then [now] else [])
       @ allowed_at limit window key (snd (allow now k limit window l)) calls"

definition within :: "duration \<Rightarrow> time \<Rightarrow> time \<Rightarrow> bool" where
  "within window t a \<longleftrightarrow> t - window < a \<and> a \<le> t"

lemma allow_other: "k \<noteq> key \<Longrightarrow> attempts_of (snd (allow now k limit window l)) key = attempts_of l key"
  by (simp add: allow_def attempts_of_def Let_def)

lemma allow_same:
  "attempts_of (snd (allow now key limit window l)) key =
     filter (\<lambda>a. time_sub now a < window) (attempts_of l key) @ (if fst (allow now key limit window l) then [now] else [])"
  "fst (allow now key limit window l) \<longleftrightarrow> length (filter (\<lambda>a. time_sub now a < window) (attempts_of l key)) < limit"
  by (auto simp: allow_def attempts_of_def Let_def)

lemma allowed_at_late: "in_order t calls \<Longrightarrow> a \<in> set (allowed_at limit window key l calls) \<Longrightarrow> t \<le> a"
proof (induction calls arbitrary: t l)
  case (Cons c calls)
  obtain now k where c: "c = (now, k)" by force
  show ?case
  proof (cases "a \<in> set (allowed_at limit window key (snd (allow now k limit window l)) calls)")
    case True
    then have "now \<le> a" using Cons.IH [of now] Cons.prems(1) c by simp
    then show ?thesis using Cons.prems(1) c by simp
  next
    case False
    then show ?thesis using Cons.prems c by (auto split: if_splits)
  qed
qed simp

text \<open>Splitting a window at a cut: before it only the old entries count, after it none that were dropped.\<close>

lemma window_split:
  assumes old: "length (filter (within window t) old) \<le> limit"
    and new: "length (filter (within window t) (filter (\<lambda>a. now - a < window) old @ rest)) \<le> limit"
    and late: "\<forall>a \<in> set rest. now \<le> a"
  shows "length (filter (within window t) (old @ rest)) \<le> limit"
proof (cases "t < now")
  case True
  then have "filter (within window t) rest = []" using late by (auto simp: within_def filter_empty_conv)
  then show ?thesis using old by simp
next
  case False
  then have "filter (within window t) old = filter (within window t) (filter (\<lambda>a. now - a < window) old)"
    by (auto simp: within_def intro: filter_cong)
  then show ?thesis using new by simp
qed

lemma allowed_at_bounded:
  "in_order t0 calls \<Longrightarrow> 0 \<le> t0 \<Longrightarrow> last_time t0 calls \<le> max_int64 \<Longrightarrow> \<forall>a \<in> set (attempts_of l key). 0 \<le> a \<and> a \<le> t0 \<Longrightarrow>
   (\<And>t. length (filter (within window t) (attempts_of l key)) \<le> limit) \<Longrightarrow>
   length (filter (within window t) (attempts_of l key @ allowed_at limit window key l calls)) \<le> limit"
proof (induction calls arbitrary: t0 l t)
  case (Cons c calls)
  obtain now k where c: "c = (now, k)" by force
  define l' where "l' = snd (allow now k limit window l)"
  have order: "t0 \<le> now" "in_order now calls" using Cons.prems(1) c by simp_all
  have le: "now \<le> max_int64"
  proof -
    have "in_order s cs \<Longrightarrow> s \<le> last_time s cs" for s and cs :: "(time \<times> string) list"
    proof (induction cs arbitrary: s)
      case (Cons x xs)
      then have "fst x \<le> last_time (fst x) xs" "s \<le> fst x" by simp_all
      then show ?case by simp
    qed simp
    from this [OF order(2)] show ?thesis using Cons.prems(3) c by simp
  qed
  show ?case
  proof (cases "k = key")
    case False
    have "attempts_of l' key = attempts_of l key" using allow_other [OF False] by (simp add: l'_def)
    then have "length (filter (within window t) (attempts_of l' key @ allowed_at limit window key l' calls)) \<le> limit"
      using Cons.prems order c by (intro Cons.IH [of now l' t]) auto
    then show ?thesis using False c \<open>attempts_of l' key = attempts_of l key\<close> by (simp add: l'_def)
  next
    case True
    define old where "old = attempts_of l key"
    define ok where "ok \<longleftrightarrow> fst (allow now key limit window l)"
    have sub: "filter (\<lambda>a. time_sub now a < window) old = filter (\<lambda>a. now - a < window) old"
      using Cons.prems(2,4) order le by (intro filter_cong) (auto simp: time_sub_def old_def)
    have l': "attempts_of l' key = filter (\<lambda>a. now - a < window) old @ (if ok then [now] else [])"
      and ok: "ok \<longleftrightarrow> length (filter (\<lambda>a. now - a < window) old) < limit"
      using allow_same [of now key limit window l] sub True by (simp_all add: l'_def old_def ok_def)
    have bound': "length (filter (within window u) (attempts_of l' key)) \<le> limit" for u
    proof (cases ok)
      case True
      have "length (filter (within window u) (attempts_of l' key)) \<le> length (attempts_of l' key)" by simp
      also have "\<dots> \<le> limit" using True ok l' by simp
      finally show ?thesis .
    next
      case False
      have "length (filter (within window u) (filter (\<lambda>a. now - a < window) old)) \<le> length (filter (within window u) old)"
        by (induction old) auto
      also have "\<dots> \<le> limit" unfolding old_def by (rule Cons.prems(5))
      finally show ?thesis using False l' by simp
    qed
    have entries: "\<forall>a \<in> set (attempts_of l' key). 0 \<le> a \<and> a \<le> now"
      using Cons.prems(2,4) order(1) unfolding l' by (auto simp: old_def)
    have "0 \<le> now" "last_time now calls \<le> max_int64" using Cons.prems(2,3) order(1) c by simp_all
    then have new: "length (filter (within window t) (attempts_of l' key @ allowed_at limit window key l' calls)) \<le> limit"
      by (rule Cons.IH [OF order(2) _ _ entries bound'])
    have late: "\<forall>a \<in> set ((if ok then [now] else []) @ allowed_at limit window key l' calls). now \<le> a"
      using allowed_at_late [OF order(2)] by auto
    have "length (filter (within window t) (old @ (if ok then [now] else []) @ allowed_at limit window key l' calls)) \<le> limit"
      using Cons.prems(5) new late unfolding old_def [symmetric] l' append_assoc by (rule window_split)
    then show ?thesis using c True by (simp add: l'_def old_def ok_def)
  qed
qed simp

text \<open>
  Whatever the sequence of logins of all addresses, the limiter never lets more than its
  limit through for one address within any span of one window.
\<close>

theorem attempts_bounded:
  assumes "in_order 0 calls" "last_time 0 calls \<le> max_int64"
  shows "length (filter (within window t) (allowed_at limit window key Map.empty calls)) \<le> limit"
  using allowed_at_bounded [OF assms(1) _ assms(2), of Map.empty key window limit t] by (simp add: attempts_of_def)


section \<open>Cross-site requests\<close>

text \<open>
  C18: a request that carries nothing but a session cookie is let in for a method that changes
  state only if its Origin names the scheme and the host the request was sent to.
\<close>

theorem cookie_needs_same_origin:
  assumes "authenticate env fault kf now r st = (Admitted p c, st')"
    and "presented_key r = []" "bearer_value r = []"
    and "rq_method r \<notin> {''GET'', ''HEAD'', ''OPTIONS'', ''TRACE''}"
  shows "\<exists>u. url_Parse env (trim_space (rq_header r ''Origin'')) = Some u \<and> equal_fold (url_Host u) (rq_host r)
    \<and> equal_fold (url_Scheme u) (if requestIsSecure r then ''https'' else ''http'')
    \<and> url_Path u = [] \<and> url_RawQuery u = [] \<and> url_Fragment u = []"
proof -
  define s where "s = (case rq_cookie r of None \<Rightarrow> (None, st) | Some raw \<Rightarrow> sessionPrincipal env fault now raw st)"
  have "cookieMutationAllowed env r"
  proof (cases "fst s")
    case None
    then have "authenticate_bearer env fault (bearer_value r) (snd s) = (Admitted p c, st')"
      using assms(1,2) unfolding authenticate_def s_def [symmetric] by (cases s) simp
    then show ?thesis using assms(3) by (simp add: authenticate_bearer_def)
  next
    case (Some pe)
    then show ?thesis
      using assms(1,2) unfolding authenticate_def s_def [symmetric]
      by (cases s; cases pe) (auto simp: Let_def split: if_splits)
  qed
  then show ?thesis
    using assms(4) by (auto simp: cookieMutationAllowed_def Let_def split: if_splits option.splits)
qed

section \<open>The two emergency accounts\<close>

abbreviation emergency :: "string set" where
  "emergency \<equiv> {bootstrap_id, recovery_id}"

text \<open>
  Hashes of sessions are unique, a session of an emergency account still has the expiry it was
  created with, and the rows of these accounts are the ones this program inserted.
\<close>

definition own_subject :: "user_row list \<Rightarrow> bool" where
  "own_subject us \<longleftrightarrow> (\<forall>u \<in> set us. usr_id u \<in> emergency \<longrightarrow> usr_subject u = usr_id u)"

definition short_sessions :: "session_row list \<Rightarrow> bool" where
  "short_sessions ss \<longleftrightarrow> distinct (map ses_hash ss)
     \<and> (\<forall>s \<in> set ss. ses_user s \<in> emergency \<longrightarrow> ses_expires s = ses_created s + recoverySessionLifetime)"

definition emergency_ok :: "accounts \<Rightarrow> bool" where
  "emergency_ok st \<longleftrightarrow> own_subject (acc_users st) \<and> short_sessions (acc_sessions st)"

lemma emergency_ok_same:
  "emergency_ok st \<Longrightarrow> acc_users st' = acc_users st \<Longrightarrow> acc_sessions st' = acc_sessions st \<Longrightarrow> emergency_ok st'"
  by (simp add: emergency_ok_def)

lemma short_sessions_filter: "short_sessions ss \<Longrightarrow> short_sessions (filter P ss)"
  by (auto simp: short_sessions_def distinct_map_filter)

lemma short_sessions_snoc:
  "short_sessions ss \<Longrightarrow> \<forall>x \<in> set ss. ses_hash x \<noteq> ses_hash s \<Longrightarrow>
   (ses_user s \<in> emergency \<Longrightarrow> ses_expires s = ses_created s + recoverySessionLifetime) \<Longrightarrow> short_sessions (ss @ [s])"
  by (auto simp: short_sessions_def)

lemma short_sessions_update:
  assumes "short_sessions ss" "\<And>s. ses_hash (f s) = ses_hash s \<and> ses_user (f s) = ses_user s"
    and "\<And>s. s \<in> set ss \<Longrightarrow> ses_hash s = h \<Longrightarrow> ses_user s \<in> emergency \<Longrightarrow>
      ses_expires (f s) = ses_expires s \<and> ses_created (f s) = ses_created s"
  shows "short_sessions (map (\<lambda>s. if ses_hash s = h then f s else s) ss)"
proof -
  have "map ses_hash (map (\<lambda>s. if ses_hash s = h then f s else s) ss) = map ses_hash ss"
    using assms(2) by simp
  then show ?thesis
    using assms unfolding short_sessions_def by (auto simp del: map_map)
qed

lemma emergency_insert_session:
  assumes "emergency_ok st" "insert_session now h u e st = Some st'" "u \<in> emergency \<Longrightarrow> e = now + recoverySessionLifetime"
  shows "emergency_ok st'"
  using assms by (auto simp: insert_session_def emergency_ok_def list_ex_iff split: if_splits
      intro!: short_sessions_snoc)

lemma emergency_drop_sessions: "emergency_ok st \<Longrightarrow> emergency_ok (drop_sessions_of u st)"
  by (simp add: emergency_ok_def drop_sessions_of_def short_sessions_filter)

lemma emergency_audit [simp]: "emergency_ok (audit fault now a b c d st) = emergency_ok st"
  by (simp add: emergency_ok_def)

lemma emergency_disable: "emergency_ok st \<Longrightarrow> emergency_ok (disableBootstrapAdmin fault now st)"
  by (simp add: emergency_ok_def disableBootstrapAdmin_def drop_sessions_of_def short_sessions_filter Let_def)

lemma emergency_end_access: "emergency_ok st \<Longrightarrow> emergency_ok (end_access fault now u st)"
  by (simp add: emergency_ok_def end_access_def drop_sessions_of_def short_sessions_filter Let_def)

lemma emergency_insert_bootstrap: "emergency_ok st \<Longrightarrow> insert_bootstrap_user st = Some st' \<Longrightarrow> emergency_ok st'"
  by (auto simp: insert_bootstrap_user_def emergency_ok_def own_subject_def split: if_splits)

lemma emergency_insert_roles: "emergency_ok st \<Longrightarrow> insert_roles u rs st = Some st' \<Longrightarrow> emergency_ok st'"
  by (rule emergency_ok_same) (simp_all add: insert_roles_frame)

text \<open>A session of an account is only prolonged under its own name.\<close>

lemma emergency_authenticate_session:
  assumes "emergency_ok st" "sessionPrincipal env fault now raw st = (Some (p, e), st1)"
  shows "emergency_ok st1 \<and> emergency_ok (snd (renewSession env fault now r raw p e st1))"
proof -
  define h where "h = sessionHash env raw"
  have seen: "emergency_ok st1"
    using assms by (auto simp: emergency_ok_def update_session_def intro!: short_sessions_update
        elim!: sessionPrincipal_SomeD)
  obtain s where s: "List.find (\<lambda>s. ses_hash s = h) (acc_sessions st) = Some s" "p_UserID p = ses_user s"
    unfolding h_def by (rule sessionPrincipal_SomeD [OF assms(2)]) blast
  have "s \<in> set (acc_sessions st)" "ses_hash s = h" using s(1) find_SomeD by fastforce+
  have users: "ses_user x = p_UserID p" if "x \<in> set (acc_sessions st1)" "ses_hash x = h" for x
  proof -
    have "st1 = st \<or> st1 = update_session h (\<lambda>s. s\<lparr>ses_seen := now\<rparr>) st"
      by (rule sessionPrincipal_SomeD [OF assms(2)]) (simp add: h_def)
    then have "\<exists>y \<in> set (acc_sessions st). x = y \<or> x = y\<lparr>ses_seen := now\<rparr>"
      using that(1) by (auto simp: update_session_def split: if_splits)
    then have "\<exists>y \<in> set (acc_sessions st). ses_hash y = h \<and> ses_user y = ses_user x"
      using that(2) by auto
    then obtain y where y: "y \<in> set (acc_sessions st)" "ses_hash y = h" "ses_user y = ses_user x" by blast
    have "y = s"
      using y(1,2) \<open>s \<in> set (acc_sessions st)\<close> \<open>ses_hash s = h\<close> assms(1)
      by (auto simp: emergency_ok_def short_sessions_def distinct_map dest: inj_onD)
    then show ?thesis using y(3) s(2) by simp
  qed
  have "emergency_ok (snd (renewSession env fault now r raw p e st1))"
  proof (cases "p_UserID p \<in> emergency")
    case True
    then show ?thesis using seen by (auto simp: renewSession_def)
  next
    case False
    have "short_sessions (map (\<lambda>s. if ses_hash s = h then s\<lparr>ses_expires := x\<rparr> else s) (acc_sessions st1))" for x
      using seen users False by (intro short_sessions_update) (auto simp: emergency_ok_def)
    then show ?thesis
      using seen by (simp add: renewSession_def Let_def emergency_ok_def update_session_def h_def)
  qed
  with seen show ?thesis by simp
qed


text \<open>No subject of the provider is the id of an emergency account, nor is a random id.\<close>

definition ordinary_subjects :: "web_env \<Rightarrow> bool" where
  "ordinary_subjects env \<longleftrightarrow>
     (\<forall>t i. verify_id_token env t = Some i \<or> verify_access_token env t = Some i \<longrightarrow> id_Subject i \<notin> emergency)"

fun ordinary_step :: "account_step \<Rightarrow> bool" where
  "ordinary_step (CreateUser fault random p body) \<longleftrightarrow> random \<noteq> Some bootstrap_id \<and> random \<noteq> Some recovery_id"
| "ordinary_step step \<longleftrightarrow> True"

lemma emergency_upsert_user:
  assumes "own_subject (acc_users st)" "id_Subject i \<notin> emergency" "upsert_user i st = Some st1"
  shows "own_subject (acc_users st1) \<and> acc_sessions st1 = acc_sessions st"
  using assms by (auto simp: upsert_user_def own_subject_def split: if_splits)

lemma emergency_upsertIdentity:
  assumes "emergency_ok st" "id_Subject i \<notin> emergency" "upsertIdentity fault i st = (res, st')"
  shows "emergency_ok st' \<and> (\<forall>uid. res = Inr uid \<longrightarrow> uid \<notin> emergency)"
proof -
  have tx: "emergency_ok st' \<and> (\<forall>uid. res = Inr uid \<longrightarrow> uid \<notin> emergency)"
    if tx: "upsert_tx fault i st = (res, st')" for res st'
  proof (cases "if fault UpsertUser then None else upsert_user i st")
    case None
    then show ?thesis using tx assms(1) by (auto simp: upsert_tx_def)
  next
    case (Some st1)
    then have "upsert_user i st = Some st1" by (simp split: if_splits)
    then have st1: "own_subject (acc_users st1)" "acc_sessions st1 = acc_sessions st"
      using emergency_upsert_user [OF _ assms(2)] assms(1) unfolding emergency_ok_def by blast+
    show ?thesis
    proof (cases "if fault LoadUpserted then None else List.find (\<lambda>u. usr_subject u = id_Subject i) (acc_users st1)")
      case None
      then show ?thesis using tx Some assms(1) by (auto simp: upsert_tx_def)
    next
      case row: (Some u)
      then have "List.find (\<lambda>u. usr_subject u = id_Subject i) (acc_users st1) = Some u" by (simp split: if_splits)
      then have "u \<in> set (acc_users st1) \<and> usr_subject u = id_Subject i" by (rule find_SomeD)
      then have uid: "usr_id u \<notin> emergency" using st1(1) assms(2) by (auto simp: own_subject_def)
      have "emergency_ok st' \<and> (res = Inr (usr_id u) \<or> (\<exists>e. res = Inl e))"
        using tx Some row assms(1) st1 unfolding upsert_tx_def Let_def emergency_ok_def
        by (auto split: option.splits if_splits dest!: insert_roles_frame)
      then show ?thesis using uid by auto
    qed
  qed
  show ?thesis
    using assms(1,3) tx by (cases "upsert_tx fault i st") (auto simp: upsertIdentity_def split: if_splits sum.splits)
qed

lemma merged_subject [simp]: "id_Subject (merged_identity env i access) = id_Subject i"
  by (simp add: merged_identity_def split: option.split)

lemma emergency_finish_login:
  assumes "emergency_ok st" "id_Subject i \<notin> emergency"
  shows "emergency_ok (snd (finish_login env fault now random r i to st))"
proof (cases "upsertIdentity fault i st")
  case (Pair res st1)
  note ok = emergency_upsertIdentity [OF assms Pair]
  show ?thesis
  proof (cases res)
    case (Inl e)
    then show ?thesis using Pair ok by (cases e) (simp_all add: finish_login_def)
  next
    case (Inr uid)
    then have uid: "uid \<notin> emergency" using ok by blast
    have "emergency_ok st2" if "insert_session now h uid x st1 = Some st2" for h x st2
      by (rule emergency_insert_session [OF _ that]) (use ok uid in auto)
    then show ?thesis
      using Pair Inr ok by (auto simp: finish_login_def Let_def emergency_disable split: option.split)
  qed
qed

lemma emergency_bearer:
  assumes "ordinary_subjects env" "emergency_ok st"
  shows "emergency_ok (snd (authenticate_bearer env fault token st))"
proof (cases "verify_access_token env token")
  case None
  then show ?thesis
    using assms(2) by (auto simp: authenticate_bearer_def split: option.split dest: emergency_insert_bootstrap)
next
  case (Some i)
  then have "id_Subject i \<notin> emergency" using assms(1) by (auto simp: ordinary_subjects_def)
  then have "emergency_ok st'" if "upsertIdentity fault i st = (res, st')" for res st'
    using emergency_upsertIdentity [OF assms(2) _ that] by blast
  then show ?thesis
    using Some assms(2)
    by (auto simp: authenticate_bearer_def split: option.split prod.split sum.split dest: emergency_insert_bootstrap)
qed

lemma authenticate_key_sessions:
  "acc_sessions (snd (authenticate_key env fault kf now r raw st)) = acc_sessions st"
  by (simp add: authenticate_key_def Let_def split: prod.split sum.split key_error.split)

lemma emergency_authenticate:
  assumes "ordinary_subjects env" "emergency_ok st"
  shows "emergency_ok (snd (authenticate env fault kf now r st))"
proof (rule authenticate_parts [of env fault kf now r st])
  assume "snd (authenticate env fault kf now r st) = snd (authenticate_key env fault kf now r (presented_key r) st)"
  then show ?thesis using assms(2) by (simp add: emergency_ok_def authenticate_key_frame authenticate_key_sessions)
next
  fix raw p e st1
  assume "sessionPrincipal env fault now raw st = (Some (p, e), st1)"
    "snd (authenticate env fault kf now r st) = st1
       \<or> snd (authenticate env fault kf now r st) = snd (renewSession env fault now r raw p e st1)"
  then show ?thesis using emergency_authenticate_session [OF assms(2)] by auto
next
  fix st1
  assume st1: "st1 = st \<or> (\<exists>raw. st1 = snd (sessionPrincipal env fault now raw st))"
    and eq: "snd (authenticate env fault kf now r st) = snd (authenticate_bearer env fault (bearer_value r) st1)"
  have "emergency_ok (snd (sessionPrincipal env fault now raw st))" for raw
  proof (cases "sessionPrincipal env fault now raw st")
    case (Pair res st2)
    show ?thesis
    proof (cases res)
      case None
      then have "st2 = st" using Pair by (auto simp: sessionPrincipal_def Let_def split: if_splits option.splits)
      then show ?thesis using Pair assms(2) by simp
    next
      case (Some pe)
      then obtain p e where "sessionPrincipal env fault now raw st = (Some (p, e), st2)" using Pair by (cases pe) simp
      then show ?thesis using emergency_authenticate_session [OF assms(2)] by (metis snd_conv)
    qed
  qed
  then have "emergency_ok st1" using st1 assms(2) by auto
  then show ?thesis unfolding eq by (rule emergency_bearer [OF assms(1)])
qed


lemma emergency_bootstrapLogin:
  assumes "emergency_ok st"
  shows "emergency_ok (snd (bootstrapLogin env fault now random r body st))"
proof -
  define l where "l = allow now (''bootstrap:'' @ requestIP env r) credentialAttemptLimit credentialAttemptWindow (acc_attempts st)"
  define st1 where "st1 = st\<lparr>acc_attempts := snd l\<rparr>"
  have st1: "emergency_ok st1" by (rule emergency_ok_same [OF assms]) (simp_all add: st1_def)
  have "emergency_ok st3" if "insert_bootstrap_user st1 = Some st2"
      "insert_session now h bootstrap_id (now + recoverySessionLifetime) st2 = Some st3" for h st2 st3
    by (rule emergency_insert_session [OF emergency_insert_bootstrap [OF st1 that(1)] that(2)]) simp
  then show ?thesis
    using assms st1 emergency_insert_bootstrap [OF st1]
    unfolding bootstrapLogin_def Let_def l_def [symmetric] case_prod_unfold st1_def [symmetric]
    by (auto split: option.split)
qed

lemma emergency_activate:
  "own_subject (acc_users st) \<Longrightarrow> activate_recovery_user st = Some st' \<Longrightarrow> own_subject (acc_users st')"
  by (auto simp: activate_recovery_user_def own_subject_def split: if_splits)

lemma emergency_recovery_session:
  assumes "emergency_ok st" "recovery_session env fault now raw (now + recoverySessionLifetime) st = Some st'"
  shows "emergency_ok st'"
proof -
  obtain st1 where st1: "activate_recovery_user st = Some st1"
    using assms(2) by (auto simp: recovery_session_def split: option.splits if_splits)
  obtain st2 where st2: "insert_roles recovery_id [''platform-admin''] st1 = Some st2"
    using assms(2) st1 by (auto simp: recovery_session_def split: option.splits if_splits)
  have ins: "insert_session now (sessionHash env raw) recovery_id (now + recoverySessionLifetime)
      (drop_sessions_of recovery_id st2) = Some st'"
    using assms(2) st1 st2 by (auto simp: recovery_session_def split: if_splits)
  have "acc_sessions st1 = acc_sessions st"
    using st1 by (auto simp: activate_recovery_user_def split: if_splits)
  then have "emergency_ok st1"
    using assms(1) emergency_activate [OF _ st1] by (simp add: emergency_ok_def)
  then have "emergency_ok (drop_sessions_of recovery_id st2)"
    using emergency_insert_roles [OF _ st2] emergency_drop_sessions by blast
  then show ?thesis using ins by (rule emergency_insert_session) simp
qed

lemma emergency_recoveryLogin:
  assumes "emergency_ok st"
  shows "emergency_ok (snd (recoveryLogin env fault now random r body st))"
proof -
  define l where "l = allow now (''recovery:'' @ requestIP env r) credentialAttemptLimit credentialAttemptWindow (acc_attempts st)"
  define st1 where "st1 = st\<lparr>acc_attempts := snd l\<rparr>"
  have st1: "emergency_ok st1" by (rule emergency_ok_same [OF assms]) (simp_all add: st1_def)
  have tx: "emergency_ok (snd (recovery_tx env fault now raw r h e st1))" for raw h e
  proof (cases "rp_status (fst (recovery_tx env fault now raw r h e st1)) = 200")
    case False
    then show ?thesis
      using recovery_tx_cases [of env fault now raw r h e st1] emergency_ok_same [OF st1] by auto
  next
    case True
    define st2 where "st2 = st1\<lparr>acc_recovery := acc_recovery st1 @ [\<lparr>rec_hash = h, rec_expires = e, rec_used = now\<rparr>]\<rparr>"
    have st2: "emergency_ok st2" by (rule emergency_ok_same [OF st1]) (simp_all add: st2_def)
    obtain st3 where "recovery_session env fault now raw (now + recoverySessionLifetime) st2 = Some st3"
      "snd (recovery_tx env fault now raw r h e st1) = audit fault now recovery_id ''recovery.login'' ''break-glass'' ''success'' st3"
      using recovery_tx_cases [of env fault now raw r h e st1] True unfolding st2_def by auto
    then show ?thesis using emergency_recovery_session [OF st2] by simp
  qed
  show ?thesis
    using assms st1 tx
    unfolding recoveryLogin_def Let_def l_def [symmetric] case_prod_unfold st1_def [symmetric]
    by (simp split: sum.split option.split)
qed

lemma emergency_callback:
  assumes "ordinary_subjects env" "emergency_ok st"
  shows "emergency_ok (snd (callback env fault now random r state code failed st))"
proof -
  define st1 where "st1 = (if fault DeleteFlow then st
      else st\<lparr>acc_flows := filter (\<lambda>f. flw_state f \<noteq> state) (acc_flows st)\<rparr>)"
  have st1: "emergency_ok st1" by (rule emergency_ok_same [OF assms(2)]) (simp_all add: st1_def)
  have "emergency_ok (snd (finish_login env fault now random r (merged_identity env i access) to st1))"
    if "verify_id_token env t = Some i" for t i access to
    by (rule emergency_finish_login [OF st1]) (use assms(1) that in \<open>auto simp: ordinary_subjects_def\<close>)
  then show ?thesis
    unfolding callback_def Let_def st1_def [symmetric]
    using st1 assms(2) by (simp split: option.split prod.split)
qed

lemma emergency_write_user_row:
  assumes "own_subject (acc_users st)" "write_user_row uid i create st = Some st'" "create \<Longrightarrow> uid \<notin> emergency"
  shows "own_subject (acc_users st') \<and> acc_sessions st' = acc_sessions st"
  using assms by (auto simp: write_user_row_def own_subject_def split: if_splits)

lemma emergency_writeAdminUser:
  assumes "emergency_ok st" "create \<Longrightarrow> uid \<notin> emergency" "writeAdminUser fault now uid i create st = (ok, st')"
  shows "emergency_ok st'"
proof (cases "write_user_row uid i create st")
  case None
  then show ?thesis using assms(1,3) by (auto simp: writeAdminUser_def split: if_splits)
next
  case (Some st1)
  define s where "s = st1\<lparr>acc_roles := filter (\<lambda>r. fst r \<noteq> uid) (acc_roles st1)\<rparr>"
  have "emergency_ok s"
    using emergency_write_user_row [OF _ Some assms(2)] assms(1) by (simp add: emergency_ok_def s_def)
  then have "emergency_ok s'" if "insert_roles uid (in_Roles i) s = Some s'" for s'
    using that by (rule emergency_insert_roles)
  then show ?thesis
    using Some assms(1,3) unfolding writeAdminUser_def
    by (simp add: s_def [symmetric] Let_def emergency_end_access split: option.splits if_splits) (metis emergency_end_access prod.inject)+
qed

lemma emergency_step:
  assumes "ordinary_subjects env" "emergency_ok st" "ordinary_step step"
  shows "emergency_ok (serve_step env st (now, step))"
proof (cases step)
  case (CreateUser fault random p body)
  have "emergency_ok st'" if "writeAdminUser fault now uid i True st = (ok, st')" "random = Some uid" for uid i ok st'
    by (rule emergency_writeAdminUser [OF assms(2) _ that(1)]) (use that(2) assms(3) CreateUser in auto)
  then show ?thesis
    using CreateUser assms(2) by (auto simp: createAdminUser_def split: sum.split option.split prod.split bool.split)
next
  case (UpdateUser fault p uid body)
  have "emergency_ok st'" if "writeAdminUser fault now uid i False st = (ok, st')" for uid i ok st'
    by (rule emergency_writeAdminUser [OF assms(2) _ that]) simp
  then show ?thesis
    using UpdateUser assms(2) by (auto simp: updateAdminUser_def split: sum.split option.split prod.split bool.split)
next
  case (DeleteUser fault p uid)
  define st1 where "st1 = st\<lparr>acc_users := map (\<lambda>u. if usr_id u = uid then u\<lparr>usr_status := ''deleted''\<rparr> else u) (acc_users st)\<rparr>"
  have "emergency_ok st1" using assms(2) by (auto simp: st1_def emergency_ok_def own_subject_def)
  then show ?thesis
    using DeleteUser assms(2) emergency_end_access unfolding st1_def by (simp add: deleteAdminUser_def Let_def)
next
  case (StartLogin fault random verifier to)
  then show ?thesis using assms(2) by (simp add: login_def emergency_ok_def split: option.split)
next
  case (Logout fault r)
  then show ?thesis
    using assms(2) by (simp add: logout_def Let_def emergency_ok_def short_sessions_filter split: option.split)
next
  case (PurgeExpired failed)
  then show ?thesis using assms(2) by (simp add: purge_expired_def emergency_ok_def short_sessions_filter)
next
  case (KeyOperation ks)
  then show ?thesis using assms(2) by (simp add: emergency_ok_def)
qed (use assms in \<open>simp_all add: emergency_authenticate emergency_bootstrapLogin emergency_recoveryLogin emergency_callback\<close>)

lemma emergency_run:
  "ordinary_subjects env \<Longrightarrow> emergency_ok st \<Longrightarrow> list_all (\<lambda>ts. ordinary_step (snd ts)) steps \<Longrightarrow>
     emergency_ok (foldl (serve_step env) st steps)"
proof (induction steps arbitrary: st)
  case (Cons a steps)
  then have "emergency_ok (serve_step env st (fst a, snd a))" by (intro emergency_step) simp_all
  with Cons show ?case by simp
qed simp

text \<open>
  C39: the bootstrap and the break-glass administrator never keep a session longer than thirty
  minutes, however active it is: after any steps, a cookie that stands for one of them belongs
  to a session that was created at most thirty minutes earlier.
\<close>

theorem emergency_sessions_short:
  assumes "ordinary_subjects env" "emergency_ok st" "list_all (\<lambda>ts. ordinary_step (snd ts)) steps"
    and "sessionPrincipal env fault now raw (foldl (serve_step env) st steps) = (Some (p, e), st')"
    and "p_UserID p \<in> emergency"
  shows "\<exists>s \<in> set (acc_sessions (foldl (serve_step env) st steps)).
    ses_hash s = sessionHash env raw \<and> ses_user s = p_UserID p \<and> now \<le> ses_created s + 30 * minute"
proof -
  let ?st = "foldl (serve_step env) st steps"
  have ok: "emergency_ok ?st" using assms(1-3) by (rule emergency_run)
  obtain s where s: "List.find (\<lambda>s. ses_hash s = sessionHash env raw) (acc_sessions ?st) = Some s"
      "p_UserID p = ses_user s" "now \<le> ses_expires s"
    by (rule sessionPrincipal_SomeD [OF assms(4)]) blast
  then have "s \<in> set (acc_sessions ?st) \<and> ses_hash s = sessionHash env raw" by (auto dest: find_SomeD)
  moreover have "ses_expires s = ses_created s + recoverySessionLifetime"
    using calculation ok s(2) assms(5) by (auto simp: emergency_ok_def short_sessions_def)
  ultimately show ?thesis using s(2,3) by (auto simp: recoverySessionLifetime_def)
qed


section \<open>Witnesses and limits\<close>

definition demo_identity :: Identity where
  "demo_identity = \<lparr>id_Subject = ''alice'', id_Username = ''Alice'', id_Email = [], id_BitbucketUserSlug = [],
     id_GitLabUserID = [], id_Roles = [''developer''], id_Groups = [], id_ACLGroups = [''group:a,b'']\<rparr>"

definition demo_web :: web_env where
  "demo_web = \<lparr>url_Parse = (\<lambda>s. Some \<lparr>url_Scheme = ''http'', url_Host = ''host'', url_Path = [], url_RawQuery = [],
       url_Fragment = [], url_Opaque = []\<rparr>),
     host_of = (\<lambda>s. None), addr_text = (\<lambda>n. []), web_keys = demo_env, web_hashes = demo_hashes,
     recovery_key = demo_pepper, trusted_cidrs = None, oidc_ready = False, oauth_ready = False,
     auth_code_url = (\<lambda>s v. []), exchange_code = (\<lambda>c v. None), verify_id_token = (\<lambda>t. None),
     verify_access_token = (\<lambda>t. if t = ''alice'' then Some demo_identity else None), end_session_url = None\<rparr>"

definition demo_request :: "string \<Rightarrow> string \<Rightarrow> string \<Rightarrow> string option \<Rightarrow> request" where
  "demo_request verb origin token cookie = \<lparr>rq_method = verb, rq_host = ''host'', rq_tls = False, rq_remote = [],
     rq_header = (\<lambda>h. if h = ''Authorization'' then token else if h = ''Origin'' then origin else []),
     rq_cookie = cookie\<rparr>"

definition demo_accounts :: accounts where
  "demo_accounts = \<lparr>acc_users = [\<lparr>usr_id = ''bob'', usr_subject = ''bob'', usr_username = ''Bob'', usr_email = [],
       usr_status = ''active'', usr_managed = True\<rparr>],
     acc_roles = [], acc_identities = Map.empty, acc_sessions = [], acc_flows = [], acc_recovery = [],
     acc_bootstrap_row = False, acc_keys = demo_store, acc_audit = [], acc_token = [], acc_persisted = False,
     acc_token_path = False, acc_token_file = False, acc_attempts = Map.empty,
     acc_rejected = \<lparr>next_prune = zero_time, windows = []\<rparr>\<rparr>"

definition no_account_fault :: account_faults where
  "no_account_fault = (\<lambda>s. False)"

definition demo_admin :: Principal where
  "demo_admin = \<lparr>p_UserID = ''root'', p_ACLPrincipal = [], p_ACLPrincipals = [], p_Roles = [''platform-admin''],
     p_KeyID = [], p_Scopes = [], p_AllowedRepositories = []\<rparr>"

lemmas demo_account_defs = demo_web_def demo_request_def demo_accounts_def demo_identity_def no_account_fault_def
  demo_admin_def

lemma disabled_account_locked_out_witness:
  "\<exists>q st2. authenticate demo_web no_account_fault (\<lambda>s. False) 9 (demo_request ''GET'' [] ''Bearer alice'' None)
       (foldl (serve_step demo_web) (snd (deleteAdminUser no_account_fault 1 demo_admin ''bob'' demo_accounts))
         [(5, PurgeExpired (\<lambda>n. False))]) = (Admitted q None, st2)
     \<and> p_UserID q \<noteq> ''bob''"
proof -
  let ?st = "foldl (serve_step demo_web) (snd (deleteAdminUser no_account_fault 1 demo_admin ''bob'' demo_accounts))
         [(5, PurgeExpired (\<lambda>n. False))]"
  have "\<exists>q st2. authenticate demo_web no_account_fault (\<lambda>s. False) 9 (demo_request ''GET'' [] ''Bearer alice'' None) ?st
      = (Admitted q None, st2)"
    by (simp add: demo_account_defs authenticate_def presented_key_def bearer_value_def trim_prefix_def Looks_def
        PlainPrefix_def trim_space_visible visible_def authenticate_bearer_def validBootstrapToken_def deleteAdminUser_def
        user_of_def bootstrap_id_def recovery_id_def end_access_def drop_sessions_of_def purge_expired_def audit_def
        upsertIdentity_def upsert_tx_def upsert_user_def insert_roles_def seeded_roles_def Let_def)
  then obtain q st2 where auth: "authenticate demo_web no_account_fault (\<lambda>s. False) 9
      (demo_request ''GET'' [] ''Bearer alice'' None) ?st = (Admitted q None, st2)" by blast
  have "p_UserID q \<noteq> ''bob''"
    by (rule disabled_account_locked_out [OF _ _ _ auth, of demo_accounts no_account_fault 1 demo_admin])
      (simp_all add: demo_account_defs deleteAdminUser_def user_of_def bootstrap_id_def recovery_id_def problem_def Let_def)
  with auth show ?thesis by blast
qed


text \<open>A token that expires after 390 seconds, and the same token with a line break in its signature.\<close>

definition demo_payload :: string where
  "demo_payload = base64_encode (big_endian 8 390 @ replicate 32 CHR ''n'')"

definition demo_token :: string where
  "demo_token = recovery_prefix @ demo_payload @ ''.'' @ ''dG'' @ ''Fn''"

definition altered_token :: string where
  "altered_token = recovery_prefix @ demo_payload @ ''.'' @ ''dG'' @ CHR 0x0A # ''Fn''"

lemma demo_token_verifies:
  "Verify demo_hashes demo_token demo_pepper (100 * second) = Inr (demo_token, 390 * second)"
  "Verify demo_hashes demo_token demo_pepper (110 * second) = Inr (demo_token, 390 * second)"
  "Verify demo_hashes altered_token demo_pepper (110 * second) = Inr (altered_token, 390 * second)"
proof -
  have tag: "base64_encode ''tag'' = ''dG'' @ ''Fn''" by (simp add: base64_encode_def base64_digit_def)
  have gen: "Generate demo_hashes (Some (replicate 32 CHR ''n'')) demo_pepper (5 * minute) (90 * second)
      = Inr (demo_token, 390 * second)"
  proof -
    have "nat (unix_seconds (90 * second + 5 * minute) mod 2 ^ 64) = 390" by (simp add: unix_seconds_def)
    moreover have "sign demo_hashes demo_pepper m = ''tag''" for m by (simp add: sign_def demo_hashes_def)
    ultimately show ?thesis
      unfolding Generate_def Let_def demo_token_def demo_payload_def
      by (simp add: demo_pepper_def tag [simplified])
  qed
  show "Verify demo_hashes demo_token demo_pepper (100 * second) = Inr (demo_token, 390 * second)"
    and later: "Verify demo_hashes demo_token demo_pepper (110 * second) = Inr (demo_token, 390 * second)"
    using generated_token_verifies [OF gen, of "100 * second"] generated_token_verifies [OF gen, of "110 * second"]
    by (simp_all add: demo_hashes_def)
  show "Verify demo_hashes altered_token demo_pepper (110 * second) = Inr (altered_token, 390 * second)"
    using altered_token_verifies [OF later [unfolded demo_token_def]] base64_encode_no_dot [of "big_endian 8 390 @ replicate 32 CHR ''n''"]
    unfolding altered_token_def demo_payload_def by (simp add: demo_hashes_def)
qed

lemma demo_tokens_trimmed [simp]: "trim_space demo_token = demo_token" "trim_space altered_token = altered_token"
  by (rule trim_space_visible; simp add: demo_token_def altered_token_def recovery_prefix_def visible_def)+

definition demo_login :: "time \<Rightarrow> string \<Rightarrow> string \<Rightarrow> accounts \<Rightarrow> reply \<times> accounts" where
  "demo_login now raw token st = recoveryLogin demo_web no_account_fault now (Some raw)
     (demo_request ''POST'' [] [] None) (Some token) st"

lemmas recovery_evaluation = demo_login_def recoveryLogin_def recovery_tx_def use_recovery_token_def recovery_session_def
  activate_recovery_user_def insert_roles_def seeded_roles_def insert_session_def drop_sessions_of_def audit_def
  sessionHash_def user_of_def recovery_id_def login_origin_allowed_def requestIP_def remoteIP_def isTrustedProxy_def
  allow_def attempts_of_def credentialAttemptLimit_def credentialAttemptWindow_def trim_chars_def trim_left_def trim_right_def
  demo_hashes_def demo_env_def

lemma demo_login_accepted: "rp_status (fst (demo_login (100 * second) ''s1'' demo_token demo_accounts)) = 200"
  using demo_token_verifies(1)
  by (simp add: recovery_evaluation demo_account_defs Let_def)

text \<open>
  The digest on record is that of the token's text, so the altered text of a token that has
  been used logs in once more.
\<close>

lemma altered_token_logs_in_again:
  "rp_status (fst (demo_login (110 * second) ''s2'' altered_token
     (snd (demo_login (100 * second) ''s1'' demo_token demo_accounts)))) = 200"
proof -
  have "altered_token \<noteq> demo_token" by (simp add: altered_token_def demo_token_def)
  then show ?thesis
    using demo_token_verifies(1,3)
    by (simp add: recovery_evaluation demo_account_defs Let_def time_sub_def)
qed

lemma recovery_token_used_once_witness:
  "rp_status (fst (demo_login (100 * second) ''s1'' demo_token demo_accounts)) = 200 \<and>
   rp_status (fst (demo_login (110 * second) ''s2'' demo_token
     (foldl (serve_step demo_web) (snd (demo_login (100 * second) ''s1'' demo_token demo_accounts))
       [(105 * second, PurgeExpired (\<lambda>n. False))]))) \<noteq> 200"
proof
  show ok: "rp_status (fst (demo_login (100 * second) ''s1'' demo_token demo_accounts)) = 200"
    by (rule demo_login_accepted)
  obtain reply1 st1 where l1: "demo_login (100 * second) ''s1'' demo_token demo_accounts = (reply1, st1)" by force
  show "rp_status (fst (demo_login (110 * second) ''s2'' demo_token
     (foldl (serve_step demo_web) (snd (demo_login (100 * second) ''s1'' demo_token demo_accounts))
       [(105 * second, PurgeExpired (\<lambda>n. False))]))) \<noteq> 200"
    unfolding l1 snd_conv
  proof (rule recovery_token_used_once [OF l1 [unfolded demo_login_def] _ _ _ refl])
    show "rp_status reply1 = 200" using ok l1 by simp
    show "in_order (100 * second) [(105 * second, PurgeExpired (\<lambda>n. False))]" by simp
    show "last_time (100 * second) [(105 * second, PurgeExpired (\<lambda>n. False))] \<le> 110 * second" by simp
  qed (unfold demo_login_def, rule prod.collapse [symmetric])
qed


lemma attempts_bounded_witness:
  "in_order 0 [(1, ''k''), (2, ''k''), (9, ''k'')] \<and>
   allowed_at 1 5 ''k'' Map.empty [(1, ''k''), (2, ''k''), (9, ''k'')] = [1, 9] \<and>
   length (filter (within 5 4) (allowed_at 1 5 ''k'' Map.empty [(1, ''k''), (2, ''k''), (9, ''k'')])) \<le> 1"
  using attempts_bounded [of "[(1, ''k''), (2, ''k''), (9, ''k'')]" 5 4 1 "''k''"]
  by (simp add: allow_def attempts_of_def time_sub_def)

definition demo_session :: accounts where
  "demo_session = demo_accounts\<lparr>acc_sessions := [\<lparr>ses_hash = ''c'', ses_user = ''bob'', ses_expires = 9 * hour, ses_seen = 0, ses_created = 0\<rparr>]\<rparr>"

lemma cookie_needs_same_origin_witness:
  "\<exists>p c st'. authenticate demo_web no_account_fault (\<lambda>s. False) hour (demo_request ''POST'' ''http://host'' [] (Some ''c'')) demo_session
      = (Admitted p c, st')
    \<and> (\<exists>u. url_Parse demo_web (trim_space (rq_header (demo_request ''POST'' ''http://host'' [] (Some ''c'')) ''Origin'')) = Some u
      \<and> equal_fold (url_Host u) ''host'')"
proof -
  let ?r = "demo_request ''POST'' ''http://host'' [] (Some ''c'')"
  have key: "presented_key ?r = []" "bearer_value ?r = []"
    by (simp_all add: demo_request_def presented_key_def bearer_value_def trim_prefix_def Looks_def PlainPrefix_def)
  have secure: "\<not> requestIsSecure ?r"
    by (simp add: requestIsSecure_def demo_request_def first_item_def equal_fold_def to_lower_def)
  have origin: "trim_space ''http://host'' = ''http://host''" by (rule trim_space_visible) (simp_all add: visible_def)
  have allowed: "cookieMutationAllowed demo_web ?r"
    using secure by (simp add: cookieMutationAllowed_def demo_request_def demo_web_def origin equal_fold_def to_lower_def)
  have session: "\<exists>p e st1. sessionPrincipal demo_web no_account_fault hour ''c'' demo_session = (Some (p, e), st1)"
    by (simp add: sessionPrincipal_def sessionHash_def demo_session_def demo_account_defs demo_hashes_def active_user_def
        userRoles_def bootstrap_id_def Let_def)
  have cookie: "rq_cookie ?r = Some ''c''" by (simp add: demo_request_def)
  obtain p e st1 where s: "sessionPrincipal demo_web no_account_fault hour ''c'' demo_session = (Some (p, e), st1)"
    using session by blast
  have auth: "authenticate demo_web no_account_fault (\<lambda>s. False) hour ?r demo_session
      = (Admitted p (fst (renewSession demo_web no_account_fault hour ?r ''c'' p e st1)),
         snd (renewSession demo_web no_account_fault hour ?r ''c'' p e st1))"
    unfolding authenticate_def key(1) cookie by (simp add: s allowed case_prod_unfold Let_def)
  have "rq_method ?r \<notin> {''GET'', ''HEAD'', ''OPTIONS'', ''TRACE''}" "rq_host ?r = ''host''"
    by (simp_all add: demo_request_def)
  then show ?thesis using auth cookie_needs_same_origin [OF auth key] by auto
qed

lemma emergency_sessions_short_witness:
  "\<exists>p e st'. sessionPrincipal demo_web no_account_fault (101 * second) ''s1''
      (foldl (serve_step demo_web) demo_accounts
        [(100 * second, RecoveryLogin no_account_fault (Some ''s1'') (demo_request ''POST'' [] [] None) (Some demo_token))])
      = (Some (p, e), st') \<and> p_UserID p = recovery_id
    \<and> (\<exists>s \<in> set (acc_sessions (foldl (serve_step demo_web) demo_accounts
        [(100 * second, RecoveryLogin no_account_fault (Some ''s1'') (demo_request ''POST'' [] [] None) (Some demo_token))])).
      101 * second \<le> ses_created s + 30 * minute)"
proof -
  let ?steps = "[(100 * second, RecoveryLogin no_account_fault (Some ''s1'') (demo_request ''POST'' [] [] None) (Some demo_token))]"
  have "\<exists>p e st'. sessionPrincipal demo_web no_account_fault (101 * second) ''s1'' (foldl (serve_step demo_web) demo_accounts ?steps)
      = (Some (p, e), st') \<and> p_UserID p = recovery_id"
    using demo_token_verifies(1)
    by (simp add: recovery_evaluation demo_account_defs Let_def sessionPrincipal_def active_user_def userRoles_def
        bootstrap_id_def recoverySessionLifetime_def)
  then obtain p e st' where s: "sessionPrincipal demo_web no_account_fault (101 * second) ''s1''
      (foldl (serve_step demo_web) demo_accounts ?steps) = (Some (p, e), st')" "p_UserID p = recovery_id" by blast
  have "ordinary_subjects demo_web"
    by (simp add: ordinary_subjects_def demo_web_def demo_identity_def bootstrap_id_def recovery_id_def)
  moreover have "emergency_ok demo_accounts"
    by (simp add: emergency_ok_def own_subject_def short_sessions_def demo_accounts_def bootstrap_id_def recovery_id_def)
  ultimately have "\<exists>r \<in> set (acc_sessions (foldl (serve_step demo_web) demo_accounts ?steps)).
      ses_hash r = sessionHash demo_web ''s1'' \<and> ses_user r = p_UserID p \<and> 101 * second \<le> ses_created r + 30 * minute"
    using s(2) by (intro emergency_sessions_short [OF _ _ _ s(1)]) simp_all
  then show ?thesis using s by blast
qed

text \<open>
  The groups of an identity are stored joined with commas and split again: a group of the
  provider whose name contains a comma gives a stored account a second principal of the
  caller's choosing, the one that grants unrestricted search included.
\<close>

lemma group_comma_splits:
  "splitCSV (join_with '','' [''group:x,git-ctx:unrestricted'']) = [''group:x'', UnrestrictedPrincipal]"
  "Unrestricted (searchPrincipals \<lparr>p_UserID = ''u'', p_ACLPrincipal = [],
     p_ACLPrincipals = sourceACLPrincipals [] [] (splitCSV (join_with '','' [''group:x,git-ctx:unrestricted''])),
     p_Roles = [''developer''], p_KeyID = [], p_Scopes = [], p_AllowedRepositories = []\<rparr>)"
  by (simp_all add: splitCSV_def UnrestrictedPrincipal_def Unrestricted_def searchPrincipals_def WithUnrestricted_def
      GrantsUnrestrictedSearch_def unrestrictedSearchRoles_def aclPrincipals_def sourceACLPrincipals_def add_groups_def)


section \<open>The rejection counter stays small\<close>

text \<open>However many addresses probe, one entry more than the tracked addresses is kept.\<close>

definition tracked_ok :: "rejection_counter \<Rightarrow> bool" where
  "tracked_ok c \<longleftrightarrow> length (windows c) \<le> trackedAddresses + (if map_of (windows c) sharedRejectionKey = None then 0 else 1)"

lemma map_of_None_filter: "map_of xs k = None \<Longrightarrow> map_of (filter P xs) k = None"
  by (auto simp: map_of_eq_None_iff)

lemma length_filter_one_less: "x \<in> set xs \<Longrightarrow> \<not> P x \<Longrightarrow> length (filter P xs) < length xs"
  by (rule length_filter_less)

lemma tracked_ok_filter:
  assumes "tracked_ok c"
  shows "tracked_ok (c\<lparr>windows := filter P (windows c), next_prune := t\<rparr>)"
proof (cases "map_of (windows c) sharedRejectionKey")
  case None
  then show ?thesis
    using assms le_trans [OF length_filter_le [of P "windows c"], of trackedAddresses]
    by (simp add: tracked_ok_def map_of_None_filter)
next
  case (Some w)
  show ?thesis
  proof (cases "P (sharedRejectionKey, w)")
    case True
    have "(sharedRejectionKey, w) \<in> set (filter P (windows c))" using Some True by (simp add: map_of_SomeD)
    then obtain u where "map_of (filter P (windows c)) sharedRejectionKey = Some u"
      using weak_map_of_SomeI by fast
    then show ?thesis using assms le_trans [OF length_filter_le [of P "windows c"], of "Suc trackedAddresses"] Some
      by (simp add: tracked_ok_def)
  next
    case False
    then have "length (filter P (windows c)) < length (windows c)"
      using map_of_SomeD [OF Some] by (intro length_filter_less)
    then show ?thesis using assms Some by (auto simp: tracked_ok_def)
  qed
qed

lemma length_update_alist:
  "length (AList.update k v xs) = (if map_of xs k = None then Suc (length xs) else length xs)"
  by (induction xs) auto

lemma rejections_bounded:
  assumes "tracked_ok c"
  shows "tracked_ok (snd (count_rejection now address window c)) \<and>
    length (windows (snd (count_rejection now address window c))) \<le> trackedAddresses + 1"
proof -
  define d where "d = pruned now window c"
  have d: "tracked_ok d" using assms tracked_ok_filter [OF assms] by (simp add: d_def pruned_def)
  define tracked where "tracked = (if map_of (windows d) address = None \<and> trackedAddresses \<le> length (windows d)
                     then sharedRejectionKey else address)"
  obtain v where "windows (snd (count_rejection now address window c)) = AList.update tracked v (windows d)"
    unfolding count_rejection_def Let_def d_def [symmetric] tracked_def [symmetric] by simp
  moreover have "tracked_ok (d\<lparr>windows := AList.update tracked v (windows d)\<rparr>)"
    using d by (auto simp: tracked_ok_def tracked_def length_update_alist update_conv' split: if_splits)
  ultimately have "tracked_ok (snd (count_rejection now address window c))" by (simp add: tracked_ok_def)
  then show ?thesis by (auto simp: tracked_ok_def split: if_splits)
qed

end
