(* ===== verification/Claims.thy ===== *)
theory Claims
  imports Accounts
begin

text \<open>
  The claims of the identity provider: the configuration, its validation and the identity read
  from a verified token, of \<^verbatim>\<open>internal/auth/oidc.go\<close>. The discovery document, the signature
  check and the URL parser are arguments; claims are a JSON object.
\<close>

section \<open>Configuration\<close>

datatype json = JString string | JArray "json list" | JObject "(string \<times> json) list" | JOther

record OIDCConfig =
  oc_IssuerURL :: string
  oc_ClientID :: string
  oc_RedirectURL :: string
  oc_PostLogoutRedirectURL :: string
  oc_Scopes :: "string list"
  oc_UsernameClaim :: string
  oc_EmailClaim :: string
  oc_GroupsClaim :: string
  oc_BitbucketUserSlugClaim :: string
  oc_GitLabUserIDClaim :: string
  oc_RealmRoleMappings :: "(string \<times> string) list"
  oc_ClientRoleMappings :: "(string \<times> string) list"
  oc_BitbucketGroupMappings :: "(string \<times> string) list"
  oc_AllowedClockSkewSeconds :: int
  oc_TimeoutSeconds :: int

definition or_default :: "string \<Rightarrow> string \<Rightarrow> string" where
  "or_default value d = (if value = [] then d else value)"

definition defaults :: "OIDCConfig \<Rightarrow> OIDCConfig" where
  "defaults c = c\<lparr>
     oc_UsernameClaim := or_default (oc_UsernameClaim c) ''preferred_username'',
     oc_EmailClaim := or_default (oc_EmailClaim c) ''email'',
     oc_GroupsClaim := or_default (oc_GroupsClaim c) ''groups'',
     oc_BitbucketUserSlugClaim := or_default (oc_BitbucketUserSlugClaim c) ''bitbucket_user_slug'',
     oc_GitLabUserIDClaim := or_default (oc_GitLabUserIDClaim c) ''gitlab_user_id'',
     oc_Scopes := (if length (oc_Scopes c) = 0 then [''openid'', ''profile'', ''email''] else oc_Scopes c)\<rparr>"

definition PlatformRoles :: "string list" where
  "PlatformRoles = [''platform-admin'', ''security-admin'', ''mcp-admin'', ''source-admin'', ''search-admin'',
     ''auditor'', ''readonly-operator'', ''developer'', ''service-account'']"

definition isPlatformRole :: "string \<Rightarrow> bool" where
  "isPlatformRole role \<longleftrightarrow> role \<in> set PlatformRoles"

record oidc_url =
  ou_Scheme :: string
  ou_Host :: string
  ou_Hostname :: string
  ou_User :: bool
  ou_Fragment :: string

datatype oidc_error =
    IssuerAndClientRequired | NotAbsolute string | HTTPSRequired string | ClockSkewRange | RoleMapping string
  | SubjectMissing | NotConfigured | WrongClient

definition validateOIDCURL :: "(string \<Rightarrow> oidc_url option) \<Rightarrow> string \<Rightarrow> string \<Rightarrow> oidc_error option" where
  "validateOIDCURL parse_url field value =
     (case parse_url (trim_space value) of
        None \<Rightarrow> Some (NotAbsolute field)
      | Some u \<Rightarrow>
          (if ou_Scheme u = [] \<or> ou_Host u = [] \<or> ou_User u \<or> ou_Fragment u \<noteq> [] then Some (NotAbsolute field)
           else if ou_Scheme u \<noteq> ''https'' \<and> ou_Hostname u \<notin> {''localhost'', ''127.0.0.1'', ''::1''}
           then Some (HTTPSRequired field) else None))"

definition mapping_error :: "(string \<times> string) list \<Rightarrow> oidc_error option" where
  "mapping_error mappings = map_option RoleMapping (List.find (\<lambda>t. \<not> isPlatformRole t) (map snd mappings))"

definition validateOIDCFields :: "(string \<Rightarrow> oidc_url option) \<Rightarrow> OIDCConfig \<Rightarrow> oidc_error option" where
  "validateOIDCFields parse_url cfg =
     (if oc_IssuerURL cfg = [] \<or> oc_ClientID cfg = [] then Some IssuerAndClientRequired
      else case validateOIDCURL parse_url ''issuerUrl'' (oc_IssuerURL cfg) of
        Some e \<Rightarrow> Some e
      | None \<Rightarrow>
          (case (if oc_RedirectURL cfg \<noteq> [] then validateOIDCURL parse_url ''redirectUrl'' (oc_RedirectURL cfg) else None) of
             Some e \<Rightarrow> Some e
           | None \<Rightarrow>
               (case (if oc_PostLogoutRedirectURL cfg \<noteq> []
                      then validateOIDCURL parse_url ''postLogoutRedirectUrl'' (oc_PostLogoutRedirectURL cfg) else None) of
                  Some e \<Rightarrow> Some e
                | None \<Rightarrow>
                    (if oc_AllowedClockSkewSeconds cfg < 0 \<or> 300 < oc_AllowedClockSkewSeconds cfg then Some ClockSkewRange
                     else case mapping_error (oc_RealmRoleMappings cfg) of
                       Some e \<Rightarrow> Some e
                     | None \<Rightarrow> mapping_error (oc_ClientRoleMappings cfg)))))"

section \<open>Claims\<close>

definition stringClaim :: "(string \<times> json) list \<Rightarrow> string \<Rightarrow> string" where
  "stringClaim m key = (case map_of m key of Some (JString s) \<Rightarrow> s | _ \<Rightarrow> [])"

definition stringSliceClaim :: "(string \<times> json) list \<Rightarrow> string \<Rightarrow> string list" where
  "stringSliceClaim m key =
     (case map_of m key of
        Some (JArray raw) \<Rightarrow> concat (map (\<lambda>v. case v of JString s \<Rightarrow> [s] | _ \<Rightarrow> []) raw)
      | _ \<Rightarrow> [])"

definition objectClaim :: "(string \<times> json) list \<Rightarrow> string \<Rightarrow> (string \<times> json) list option" where
  "objectClaim m key = (case map_of m key of Some (JObject fs) \<Rightarrow> Some fs | _ \<Rightarrow> None)"

definition lookup_or_empty :: "(string \<times> string) list \<Rightarrow> string \<Rightarrow> string" where
  "lookup_or_empty m key = (case map_of m key of None \<Rightarrow> [] | Some v \<Rightarrow> v)"

text \<open>One role of a token: its mapping, or itself if it is a platform role.\<close>

definition mapped_role :: "(string \<times> string) list \<Rightarrow> string \<Rightarrow> string" where
  "mapped_role mappings role =
     (let mapped = lookup_or_empty mappings role in
      if mapped = [] \<and> isPlatformRole role then role else mapped)"

definition add_role :: "(string \<times> string) list \<Rightarrow> string list \<Rightarrow> string \<Rightarrow> string list" where
  "add_role mappings roles role =
     (let mapped = mapped_role mappings role in
      if mapped \<noteq> [] \<and> mapped \<notin> set roles then roles @ [mapped] else roles)"

definition token_roles :: "OIDCConfig \<Rightarrow> (string \<times> json) list \<Rightarrow> string list" where
  "token_roles cfg claims =
     (let realmRoles = (case objectClaim claims ''realm_access'' of
             None \<Rightarrow> [] | Some access \<Rightarrow> stringSliceClaim access ''roles'');
          roles1 = foldl (add_role (oc_RealmRoleMappings cfg)) [] realmRoles;
          clientRoles = (case objectClaim claims ''resource_access'' of
             None \<Rightarrow> []
           | Some resources \<Rightarrow> (case objectClaim resources (oc_ClientID cfg) of
               None \<Rightarrow> [] | Some client \<Rightarrow> stringSliceClaim client ''roles''));
          roles2 = foldl (add_role (oc_ClientRoleMappings cfg)) roles1 clientRoles
      in if length roles2 = 0 then [''developer''] else roles2)"

definition acl_groups :: "OIDCConfig \<Rightarrow> string list \<Rightarrow> string list" where
  "acl_groups cfg groups =
     concat (map (\<lambda>group.
       let mapped = or_default (lookup_or_empty (oc_BitbucketGroupMappings cfg) group) (trim_chars group ''/'')
       in if mapped \<noteq> [] then [''group:'' @ mapped] else []) groups)"

definition identityFromClaims :: "OIDCConfig \<Rightarrow> string \<Rightarrow> (string \<times> json) list \<Rightarrow> oidc_error + Identity" where
  "identityFromClaims cfg subject claims =
     (let username = stringClaim claims (oc_UsernameClaim cfg);
          groups = stringSliceClaim claims (oc_GroupsClaim cfg)
      in if subject = [] \<or> username = [] then Inl SubjectMissing
         else Inr \<lparr>id_Subject = subject, id_Username = username, id_Email = stringClaim claims (oc_EmailClaim cfg),
                id_BitbucketUserSlug = stringClaim claims (oc_BitbucketUserSlugClaim cfg),
                id_GitLabUserID = stringClaim claims (oc_GitLabUserIDClaim cfg),
                id_Roles = token_roles cfg claims, id_Groups = groups, id_ACLGroups = acl_groups cfg groups\<rparr>)"

text \<open>
  A token whose signature, issuer and lifetime were checked: its subject, its audience and its
  claims. An access token must name the configured client.
\<close>

definition verified_identity ::
    "OIDCConfig \<Rightarrow> bool \<Rightarrow> string \<Rightarrow> string list \<Rightarrow> (string \<times> json) list \<Rightarrow> oidc_error + Identity" where
  "verified_identity cfg0 accessToken subject audience claims =
     (let cfg = defaults cfg0 in
      if oc_IssuerURL cfg = [] \<or> oc_ClientID cfg = [] then Inl NotConfigured
      else if accessToken \<and> stringClaim claims ''azp'' \<noteq> oc_ClientID cfg \<and> oc_ClientID cfg \<notin> set audience
      then Inl WrongClient
      else identityFromClaims cfg subject claims)"

section \<open>Roles\<close>

lemma mapped_role_platform:
  assumes "\<forall>t \<in> set (map snd mappings). isPlatformRole t" "mapped_role mappings role \<noteq> []"
  shows "isPlatformRole (mapped_role mappings role)"
  using assms by (auto simp: mapped_role_def lookup_or_empty_def Let_def split: option.splits if_splits dest!: map_of_SomeD)

lemma add_roles_platform:
  "\<forall>t \<in> set (map snd mappings). isPlatformRole t \<Longrightarrow> \<forall>r \<in> set roles. isPlatformRole r \<Longrightarrow>
   \<forall>r \<in> set (foldl (add_role mappings) roles rs). isPlatformRole r"
proof (induction rs arbitrary: roles)
  case (Cons x xs)
  have "\<forall>r \<in> set (add_role mappings roles x). isPlatformRole r"
    using Cons.prems mapped_role_platform [of mappings x] by (simp add: add_role_def Let_def)
  from Cons.IH [OF Cons.prems(1) this] show ?case by (simp only: foldl_Cons)
qed simp

lemma mapping_error_None: "mapping_error mappings = None \<longleftrightarrow> (\<forall>t \<in> set (map snd mappings). isPlatformRole t)"
  by (auto simp: mapping_error_def find_None_iff)

lemma validated_mappings:
  assumes "validateOIDCFields parse_url cfg = None"
  shows "\<forall>t \<in> set (map snd (oc_RealmRoleMappings cfg)). isPlatformRole t"
    "\<forall>t \<in> set (map snd (oc_ClientRoleMappings cfg)). isPlatformRole t"
proof -
  define issuer where "issuer = validateOIDCURL parse_url ''issuerUrl'' (oc_IssuerURL cfg)"
  define redirect where "redirect = (if oc_RedirectURL cfg \<noteq> [] then validateOIDCURL parse_url ''redirectUrl'' (oc_RedirectURL cfg) else None)"
  define logout where "logout = (if oc_PostLogoutRedirectURL cfg \<noteq> []
                      then validateOIDCURL parse_url ''postLogoutRedirectUrl'' (oc_PostLogoutRedirectURL cfg) else None)"
  note def = assms [unfolded validateOIDCFields_def issuer_def [symmetric] redirect_def [symmetric] logout_def [symmetric]]
  have "issuer = None" "redirect = None" "logout = None" using def by (auto split: if_splits option.splits)
  then have "mapping_error (oc_RealmRoleMappings cfg) = None" "mapping_error (oc_ClientRoleMappings cfg) = None"
    using def by (auto split: if_splits option.splits)
  then show "\<forall>t \<in> set (map snd (oc_RealmRoleMappings cfg)). isPlatformRole t"
    "\<forall>t \<in> set (map snd (oc_ClientRoleMappings cfg)). isPlatformRole t"
    unfolding mapping_error_None by simp_all
qed

lemma platform_seeded: "isPlatformRole r \<Longrightarrow> r \<in> set seeded_roles"
  by (auto simp: isPlatformRole_def PlatformRoles_def seeded_roles_def)

text \<open>
  Under a configuration that passed its validation every role an identity carries is one of
  the platform's roles, all of which the role table has, so no role of a token can make the
  login's transaction fail; and an identity always carries at least one role.
\<close>

theorem identity_roles_known:
  assumes "validateOIDCFields parse_url cfg = None"
    and "verified_identity cfg accessToken subject audience claims = Inr i"
  shows "id_Roles i \<noteq> [] \<and> set (id_Roles i) \<subseteq> set PlatformRoles \<and> insert_roles uid (id_Roles i) st \<noteq> None"
proof -
  have "id_Roles i = token_roles (defaults cfg) claims"
    using assms(2) by (auto simp: verified_identity_def identityFromClaims_def Let_def split: if_splits)
  moreover have "token_roles (defaults cfg) claims \<noteq> []" by (simp add: token_roles_def Let_def)
  moreover have "\<forall>r \<in> set (token_roles (defaults cfg) claims). isPlatformRole r"
  proof -
    have developer: "isPlatformRole ''developer''" by (simp add: isPlatformRole_def PlatformRoles_def)
    have same: "oc_RealmRoleMappings (defaults cfg) = oc_RealmRoleMappings cfg"
      "oc_ClientRoleMappings (defaults cfg) = oc_ClientRoleMappings cfg" by (simp_all add: defaults_def)
    define rs where "rs = foldl (add_role (oc_RealmRoleMappings cfg)) [] (case objectClaim claims ''realm_access'' of
             None \<Rightarrow> [] | Some access \<Rightarrow> stringSliceClaim access ''roles'')"
    have "\<forall>r \<in> set rs. isPlatformRole r"
      unfolding rs_def by (rule add_roles_platform [OF validated_mappings(1) [OF assms(1)]]) simp
    then have "\<forall>r \<in> set (foldl (add_role (oc_ClientRoleMappings cfg)) rs cs). isPlatformRole r" for cs
      by (rule add_roles_platform [OF validated_mappings(2) [OF assms(1)]])
    then show ?thesis
      using developer unfolding token_roles_def Let_def same rs_def [symmetric] by auto
  qed
  ultimately show ?thesis
    using platform_seeded by (auto simp: isPlatformRole_def insert_roles_def list_all_iff)
qed

definition demo_oidc :: OIDCConfig where
  "demo_oidc = \<lparr>oc_IssuerURL = ''i'', oc_ClientID = ''c'', oc_RedirectURL = [], oc_PostLogoutRedirectURL = [], oc_Scopes = [],
     oc_UsernameClaim = [], oc_EmailClaim = [], oc_GroupsClaim = [], oc_BitbucketUserSlugClaim = [],
     oc_GitLabUserIDClaim = [], oc_RealmRoleMappings = [(''ops'', ''source-admin'')], oc_ClientRoleMappings = [],
     oc_BitbucketGroupMappings = [], oc_AllowedClockSkewSeconds = 0, oc_TimeoutSeconds = 0\<rparr>"

definition demo_claims :: "(string \<times> json) list" where
  "demo_claims = [(''azp'', JString ''c''), (''preferred_username'', JString ''ann''),
     (''realm_access'', JObject [(''roles'', JArray [JString ''ops'', JString ''offline'', JString ''auditor'', JOther])])]"

lemma identity_roles_known_witness:
  "\<exists>i. verified_identity demo_oidc True ''s'' [] demo_claims = Inr i \<and> id_Roles i = [''source-admin'', ''auditor'']
     \<and> set (id_Roles i) \<subseteq> set PlatformRoles"
proof -
  let ?parse = "\<lambda>s. Some \<lparr>ou_Scheme = ''https'', ou_Host = ''h'', ou_Hostname = ''h'', ou_User = False, ou_Fragment = []\<rparr>"
  have valid: "validateOIDCFields ?parse demo_oidc = None"
    by (simp add: validateOIDCFields_def validateOIDCURL_def mapping_error_def isPlatformRole_def PlatformRoles_def demo_oidc_def)
  obtain i where i: "verified_identity demo_oidc True ''s'' [] demo_claims = Inr i" "id_Roles i = [''source-admin'', ''auditor'']"
    by (simp add: verified_identity_def defaults_def or_default_def identityFromClaims_def stringClaim_def stringSliceClaim_def
        objectClaim_def token_roles_def add_role_def mapped_role_def lookup_or_empty_def isPlatformRole_def PlatformRoles_def
        demo_oidc_def demo_claims_def Let_def)
  then show ?thesis using identity_roles_known [OF valid i(1)] by blast
qed

end
