(* ===== verification/Delivery.thy ===== *)
theory Delivery
  imports Scheduler
begin

text \<open>
  Delivery of notifications to external channels: \<^verbatim>\<open>internal/notification/service.go\<close> with the
  retry handler of \<^verbatim>\<open>internal/app/notifications.go\<close> over the tables of the migrations 008 and
  016. A pass returns lapsed deliveries to the queue, seeds the rows of every channel in
  batches, reads what is due and sends it. The network (the HTTP client, the SMTP server), the
  URL and address parsers and SHA-256 are fields of the environment; a statement that fails is
  chosen by \<open>fault\<close>. What a pass sends is returned as a list, in the order it is sent.
\<close>

section \<open>Configuration\<close>

record delivery_config =
  dc_Enabled :: bool
  dc_ActiveSince :: time
  dc_WebhookURL :: string
  dc_WebhookAuthorization :: string
  dc_MessengerWebhookURL :: string
  dc_MessengerAuthorization :: string
  dc_SMTPEnabled :: bool
  dc_SMTPHost :: string
  dc_SMTPPort :: int
  dc_SMTPUsername :: string
  dc_SMTPPassword :: string
  dc_SMTPFrom :: string
  dc_SMTPTLSMode :: string
  dc_TestRecipient :: string
  dc_Timeout :: duration
  dc_MaxAttempts :: int
  dc_TLSVerify :: "bool option"
  dc_CACertificate :: string
  dc_ProxyURL :: string

record endpoint_url =
  ep_Scheme :: string
  ep_Host :: string
  ep_Hostname :: string
  ep_User :: bool
  ep_Fragment :: string
  ep_Rest :: string

record delivery_row =
  dl_id :: string
  dl_notification :: string
  dl_channel :: string
  dl_hash :: string
  dl_status :: string
  dl_attempts :: int
  dl_next :: time
  dl_error :: string
  dl_delivered :: "time option"
  dl_created :: time
  dl_updated :: time

record mail_tables =
  ml_users :: "(string \<times> string) list"
  ml_notifications :: "notification_row list"
  ml_deliveries :: "delivery_row list"

text \<open>A row of the queue joined with its notification and the address of its user.\<close>

record delivery =
  dv_ID :: string
  dv_NotificationID :: string
  dv_Channel :: string
  dv_DestinationHash :: string
  dv_Attempts :: int
  dv_NextAttempt :: time
  dv_UserID :: string
  dv_Email :: string
  dv_Type :: string
  dv_ResourceID :: string
  dv_Title :: string
  dv_Message :: string

datatype smtp_command =
    Dial bool | Deadline | Greet | StartTLS | Authenticate string string
  | MailFrom string | RcptTo string | DataStart | DataWrite string | DataClose | Quit

record mail_env =
  sqlite_driver :: bool
  sha256_hex :: "string \<Rightarrow> string"
  parse_endpoint :: "string \<Rightarrow> endpoint_url option"
  endpoint_text :: "endpoint_url \<Rightarrow> string"
  parse_address :: "string \<Rightarrow> (string \<times> string) option"
  tls_ready :: "delivery_config \<Rightarrow> bool"
  client_ready :: "delivery_config \<Rightarrow> bool"
  http_post :: "string \<Rightarrow> string \<Rightarrow> delivery \<Rightarrow> string + int \<times> string"
  smtp_offers :: "smtp_command list \<Rightarrow> string \<Rightarrow> bool"
  smtp_error :: "smtp_command list \<Rightarrow> smtp_command \<Rightarrow> string option"

datatype mail_statement =
    LoadDeliveryConfig | ExpireSending | SelectUnseeded string nat | InsertDelivery string string
  | SelectAddresses | SelectDue | Supersede string | ClaimDelivery string | SettleDelivery string | RetryDelivery

type_synonym mail_faults = "mail_statement \<Rightarrow> bool"

datatype config_error =
    TimeoutRange | AttemptsRange | EndpointNotAbsolute string | EndpointNeedsHTTPS string | SMTPHostPort
  | SMTPFromInvalid | SMTPModeUnknown | SMTPPlainRemote | TestRecipientInvalid | NoChannel

definition endpoint_error :: "mail_env \<Rightarrow> string \<times> string \<Rightarrow> config_error option" where
  "endpoint_error env = (\<lambda>(name, raw).
     if raw = [] then None
     else case parse_endpoint env raw of
       None \<Rightarrow> Some (EndpointNotAbsolute name)
     | Some u \<Rightarrow>
         (if ep_Scheme u = [] \<or> ep_Host u = [] \<or> ep_User u \<or> ep_Fragment u \<noteq> [] then Some (EndpointNotAbsolute name)
          else if ep_Scheme u \<noteq> ''https'' \<and> ep_Hostname u \<noteq> ''localhost'' \<and> ep_Hostname u \<noteq> ''127.0.0.1''
          then Some (EndpointNeedsHTTPS name) else None))"

definition smtp_config_error :: "mail_env \<Rightarrow> delivery_config \<Rightarrow> config_error option" where
  "smtp_config_error env cfg =
     (if trim_space (dc_SMTPHost cfg) = [] \<or> dc_SMTPPort cfg < 1 \<or> 65535 < dc_SMTPPort cfg then Some SMTPHostPort
      else if parse_address env (dc_SMTPFrom cfg) = None then Some SMTPFromInvalid
      else if dc_SMTPTLSMode cfg \<noteq> ''tls'' \<and> dc_SMTPTLSMode cfg \<noteq> ''starttls'' \<and> dc_SMTPTLSMode cfg \<noteq> ''none''
      then Some SMTPModeUnknown
      else if dc_SMTPTLSMode cfg = ''none'' \<and> dc_SMTPHost cfg \<noteq> ''localhost'' \<and> dc_SMTPHost cfg \<noteq> ''127.0.0.1''
        \<and> dc_SMTPHost cfg \<noteq> ''::1'' then Some SMTPPlainRemote
      else if dc_TestRecipient cfg \<noteq> [] \<and> parse_address env (dc_TestRecipient cfg) = None then Some TestRecipientInvalid
      else None)"

text \<open>
  The two addresses are checked in the order the map is walked in, which Go leaves open:
  \<open>swapped\<close> chooses it.
\<close>

definition ValidateConfig :: "mail_env \<Rightarrow> bool \<Rightarrow> delivery_config \<Rightarrow> config_error option" where
  "ValidateConfig env swapped cfg =
     (let urls = [(''webhookUrl'', dc_WebhookURL cfg), (''messengerWebhookUrl'', dc_MessengerWebhookURL cfg)] in
      if dc_Timeout cfg \<le> 0 \<or> 2 * minute < dc_Timeout cfg then Some TimeoutRange
      else if dc_MaxAttempts cfg < 1 \<or> 20 < dc_MaxAttempts cfg then Some AttemptsRange
      else case List.map_filter (endpoint_error env) (if swapped then rev urls else urls) of
        e # es \<Rightarrow> Some e
      | [] \<Rightarrow>
          (case (if dc_SMTPEnabled cfg then smtp_config_error env cfg else None) of
             Some e \<Rightarrow> Some e
           | None \<Rightarrow>
               (if dc_Enabled cfg \<and> dc_WebhookURL cfg = [] \<and> dc_MessengerWebhookURL cfg = [] \<and> \<not> dc_SMTPEnabled cfg
                then Some NoChannel else None)))"

section \<open>Destinations\<close>

definition nul :: string where "nul = bytes [0]"

definition destinationHash :: "mail_env \<Rightarrow> string \<Rightarrow> string \<Rightarrow> string" where
  "destinationHash env channel destination =
     (let trimmed = trim_space destination;
          normalized =
            (if channel = ''email'' then to_lower trimmed
             else case parse_endpoint env trimmed of
               None \<Rightarrow> trimmed
             | Some u \<Rightarrow> (if ep_Scheme u \<noteq> [] \<and> ep_Host u \<noteq> []
                 then endpoint_text env (u\<lparr>ep_Scheme := to_lower (ep_Scheme u), ep_Host := to_lower (ep_Host u)\<rparr>)
                 else trimmed))
      in sha256_hex env (channel @ nul @ normalized))"

definition deliveryID :: "mail_env \<Rightarrow> string \<Rightarrow> string \<Rightarrow> string \<Rightarrow> string" where
  "deliveryID env notificationID channel h =
     ''delivery:'' @ take 32 (sha256_hex env (notificationID @ nul @ channel @ nul @ h))"

definition currentDestination :: "delivery_config \<Rightarrow> delivery \<Rightarrow> string" where
  "currentDestination cfg item =
     (if dv_Channel item = ''webhook'' then dc_WebhookURL cfg
      else if dv_Channel item = ''messenger'' then dc_MessengerWebhookURL cfg
      else if dv_Channel item = ''email'' then (if dc_SMTPEnabled cfg then dv_Email item else [])
      else [])"

definition truncate_error :: "string \<Rightarrow> nat \<Rightarrow> string" where
  "truncate_error value limit =
     (if length value \<le> limit then value else take (back_to_rune value limit) value)"

section \<open>Sending\<close>

text \<open>\<^verbatim>\<open>payload\<close> is the delivery; a status outside 2xx is an error that names it.\<close>

definition postWebhook :: "mail_env \<Rightarrow> string \<Rightarrow> string \<Rightarrow> delivery \<Rightarrow> string option" where
  "postWebhook env endpoint authorization item =
     (case http_post env endpoint authorization item of
        Inl e \<Rightarrow> Some e
      | Inr (code, status) \<Rightarrow>
          (if code < 200 \<or> 300 \<le> code then Some (''notification endpoint returned '' @ status) else None))"

text \<open>Commands to the mail server, in order; the first that fails ends the conversation.\<close>

fun talk :: "mail_env \<Rightarrow> smtp_command list \<Rightarrow> smtp_command list \<Rightarrow> string option \<times> smtp_command list" where
  "talk env [] h = (None, h)"
| "talk env (c # cs) h =
     (case smtp_error env h c of Some e \<Rightarrow> (Some e, h @ [c]) | None \<Rightarrow> talk env cs (h @ [c]))"

definition and_then ::
    "string option \<times> smtp_command list \<Rightarrow> (smtp_command list \<Rightarrow> string option \<times> smtp_command list)
     \<Rightarrow> string option \<times> smtp_command list" where
  "and_then r f = (case r of (Some e, h) \<Rightarrow> (Some e, h) | (None, h) \<Rightarrow> f h)"

definition crlf :: string where "crlf = bytes [13, 10]"

definition safe_subject :: "string \<Rightarrow> string" where
  "safe_subject subject = map (\<lambda>c. if c = char_of (13::nat) \<or> c = char_of (10::nat) then CHR '' '' else c) subject"

definition mail_text :: "string \<Rightarrow> string \<Rightarrow> string \<Rightarrow> string \<Rightarrow> string" where
  "mail_text from_text to_text subject message =
     ''From: '' @ from_text @ crlf @ ''To: '' @ to_text @ crlf @ ''Subject: '' @ safe_subject subject @ crlf
     @ ''MIME-Version: 1.0'' @ crlf @ ''Content-Type: text/plain; charset=UTF-8'' @ crlf @ crlf @ message @ crlf"

definition start_tls ::
    "mail_env \<Rightarrow> delivery_config \<Rightarrow> smtp_command list \<Rightarrow> string option \<times> smtp_command list" where
  "start_tls env cfg h =
     (if dc_SMTPTLSMode cfg = ''starttls'' then
        (if smtp_offers env h ''STARTTLS'' then talk env [StartTLS] h
         else (Some ''SMTP server does not support STARTTLS'', h))
      else (None, h))"

definition log_in ::
    "mail_env \<Rightarrow> delivery_config \<Rightarrow> smtp_command list \<Rightarrow> string option \<times> smtp_command list" where
  "log_in env cfg h =
     (if dc_SMTPUsername cfg \<noteq> [] then
        (if smtp_offers env h ''AUTH'' then talk env [Authenticate (dc_SMTPUsername cfg) (dc_SMTPPassword cfg)] h
         else (Some ''SMTP server does not support AUTH'', h))
      else (None, h))"

definition sendEmail ::
    "mail_env \<Rightarrow> delivery_config \<Rightarrow> string \<Rightarrow> string \<Rightarrow> string \<Rightarrow> string option \<times> smtp_command list" where
  "sendEmail env cfg recipient subject message =
     (case parse_address env recipient of
        None \<Rightarrow> (Some ''notification recipient email is invalid'', [])
      | Some (to, to_text) \<Rightarrow>
     (case parse_address env (dc_SMTPFrom cfg) of
        None \<Rightarrow> (Some ''notification sender email is invalid'', [])
      | Some (from_address, from_text) \<Rightarrow>
          (if \<not> tls_ready env cfg then (Some ''notification CA certificate'', [])
           else and_then (talk env [Dial (dc_SMTPTLSMode cfg = ''tls''), Deadline, Greet] []) (\<lambda>h.
             and_then (start_tls env cfg h) (\<lambda>h.
             and_then (log_in env cfg h) (\<lambda>h.
             talk env [MailFrom from_address, RcptTo to, DataStart,
               DataWrite (mail_text from_text to_text subject message), DataClose, Quit] h))))))"

definition send_notification :: "mail_env \<Rightarrow> delivery_config \<Rightarrow> delivery \<Rightarrow> string option" where
  "send_notification env cfg item =
     (if dv_Channel item = ''webhook'' then postWebhook env (dc_WebhookURL cfg) (dc_WebhookAuthorization cfg) item
      else if dv_Channel item = ''messenger'' then
        postWebhook env (dc_MessengerWebhookURL cfg) (dc_MessengerAuthorization cfg) item
      else if dv_Channel item = ''email'' then fst (sendEmail env cfg (dv_Email item) (dv_Title item) (dv_Message item))
      else Some ''unsupported notification channel'')"

section \<open>The connection test\<close>

definition test_delivery :: delivery where
  "test_delivery = \<lparr>dv_ID = [], dv_NotificationID = ''connection-test'', dv_Channel = [], dv_DestinationHash = [],
     dv_Attempts = 0, dv_NextAttempt = zero_time, dv_UserID = ''administrator'', dv_Email = [],
     dv_Type = ''connection_test'', dv_ResourceID = ''notifications'', dv_Title = ''git-ctx notification connection test'',
     dv_Message = ''The administrator requested this test message.''\<rparr>"

datatype test_error =
    ConfigError config_error | ClientError | WebhookTest string | MessengerTest string
  | RecipientRequired | SMTPTest string

definition Validate_delivery :: "mail_env \<Rightarrow> bool \<Rightarrow> delivery_config \<Rightarrow> test_error option" where
  "Validate_delivery env swapped cfg =
     (case ValidateConfig env swapped cfg of
        Some e \<Rightarrow> Some (ConfigError e)
      | None \<Rightarrow>
     (if \<not> client_ready env cfg then Some ClientError
      else case (if dc_WebhookURL cfg \<noteq> []
                 then postWebhook env (dc_WebhookURL cfg) (dc_WebhookAuthorization cfg) test_delivery else None) of
        Some e \<Rightarrow> Some (WebhookTest e)
      | None \<Rightarrow>
     (case (if dc_MessengerWebhookURL cfg \<noteq> []
            then postWebhook env (dc_MessengerWebhookURL cfg) (dc_MessengerAuthorization cfg) test_delivery else None) of
        Some e \<Rightarrow> Some (MessengerTest e)
      | None \<Rightarrow>
          (if dc_SMTPEnabled cfg then
             (if dc_TestRecipient cfg = [] then Some RecipientRequired
              else map_option SMTPTest (fst (sendEmail env cfg (dc_TestRecipient cfg)
                     (dv_Title test_delivery) (dv_Message test_delivery))))
           else None))))"

section \<open>The rows of the queue\<close>

definition update_delivery :: "(delivery_row \<Rightarrow> bool) \<Rightarrow> (delivery_row \<Rightarrow> delivery_row) \<Rightarrow> mail_tables \<Rightarrow> mail_tables" where
  "update_delivery P f t = t\<lparr>ml_deliveries := map (\<lambda>d. if P d then f d else d) (ml_deliveries t)\<rparr>"

definition delivery_lease :: duration where "delivery_lease = 5 * minute"

definition expire_sending :: "time \<Rightarrow> mail_tables \<Rightarrow> mail_tables" where
  "expire_sending now = update_delivery
     (\<lambda>d. dl_status d = ''sending'' \<and> dl_updated d < now - delivery_lease)
     (\<lambda>d. d\<lparr>dl_status := ''failed'', dl_next := now, dl_error := ''delivery lease expired'', dl_updated := now\<rparr>)"

text \<open>
  ON CONFLICT(notification\_id, channel, destination\_hash) DO NOTHING; an id that another row
  has is an error. New rows take the defaults of the table and the clock of the database.
\<close>

definition insert_delivery :: "time \<Rightarrow> string \<Rightarrow> string \<Rightarrow> string \<Rightarrow> string \<Rightarrow> mail_tables \<Rightarrow> mail_tables option" where
  "insert_delivery now did nid channel h t =
     (if list_ex (\<lambda>d. dl_notification d = nid \<and> dl_channel d = channel \<and> dl_hash d = h) (ml_deliveries t) then Some t
      else if list_ex (\<lambda>d. dl_id d = did) (ml_deliveries t) then None
      else Some (t\<lparr>ml_deliveries := ml_deliveries t @ [\<lparr>dl_id = did, dl_notification = nid, dl_channel = channel,
             dl_hash = h, dl_status = ''pending'', dl_attempts = 0, dl_next = now, dl_error = [], dl_delivered = None,
             dl_created = now, dl_updated = now\<rparr>]\<rparr>))"

definition waiting :: "delivery_row \<Rightarrow> bool" where
  "waiting d \<longleftrightarrow> dl_status d = ''pending'' \<or> dl_status d = ''failed''"

definition supersede :: "time \<Rightarrow> string \<Rightarrow> mail_tables \<Rightarrow> mail_tables" where
  "supersede now did = update_delivery (\<lambda>d. dl_id d = did \<and> waiting d)
     (\<lambda>d. d\<lparr>dl_status := ''superseded'', dl_error := ''destination changed before delivery'', dl_updated := now\<rparr>)"

definition claim_delivery :: "time \<Rightarrow> string \<Rightarrow> mail_tables \<Rightarrow> bool \<times> mail_tables" where
  "claim_delivery now did t =
     (length (filter (\<lambda>d. dl_id d = did \<and> waiting d) (ml_deliveries t)) = 1,
      update_delivery (\<lambda>d. dl_id d = did \<and> waiting d)
        (\<lambda>d. d\<lparr>dl_status := ''sending'', dl_attempts := dl_attempts d + 1, dl_updated := now\<rparr>) t)"

definition settle_delivered :: "time \<Rightarrow> string \<Rightarrow> mail_tables \<Rightarrow> mail_tables" where
  "settle_delivered at did = update_delivery (\<lambda>d. dl_id d = did \<and> dl_status d = ''sending'')
     (\<lambda>d. d\<lparr>dl_status := ''delivered'', dl_delivered := Some at, dl_error := [], dl_updated := at\<rparr>)"

definition settle_failed :: "string \<Rightarrow> time \<Rightarrow> string \<Rightarrow> time \<Rightarrow> string \<Rightarrow> mail_tables \<Rightarrow> mail_tables" where
  "settle_failed status next_at err at did = update_delivery (\<lambda>d. dl_id d = did \<and> dl_status d = ''sending'')
     (\<lambda>d. d\<lparr>dl_status := status, dl_next := next_at, dl_error := err, dl_updated := at\<rparr>)"

text \<open>The handler of an administrator's retry: the status of the answer and the tables.\<close>

definition retryNotificationDelivery :: "mail_faults \<Rightarrow> time \<Rightarrow> string \<Rightarrow> mail_tables \<Rightarrow> nat \<times> mail_tables" where
  "retryNotificationDelivery fault now did t =
     (let hit = (\<lambda>d. dl_id d = did \<and> (dl_status d = ''failed'' \<or> dl_status d = ''dead'')) in
      if fault RetryDelivery then (500, t)
      else if \<not> list_ex hit (ml_deliveries t) then (409, t)
      else (202, update_delivery hit
             (\<lambda>d. d\<lparr>dl_status := ''pending'', dl_next := now, dl_error := [], dl_delivered := None, dl_updated := now\<rparr>) t))"

section \<open>Seeding\<close>

definition active_from :: "mail_env \<Rightarrow> time \<Rightarrow> time" where
  "active_from env since = (if sqlite_driver env then since div second * second else since)"

definition in_order_of_creation :: "notification_row list \<Rightarrow> notification_row list" where
  "in_order_of_creation ns = sort_key (\<lambda>n. (nt_created n, nt_id n)) ns"

definition has_delivery :: "string \<Rightarrow> mail_tables \<Rightarrow> string \<times> string \<Rightarrow> bool" where
  "has_delivery channel t = (\<lambda>(nid, h).
     list_ex (\<lambda>d. dl_notification d = nid \<and> dl_channel d = channel \<and> dl_hash d = h) (ml_deliveries t))"

text \<open>The queries: what is wanted, and of it the first thousand that have no row yet.\<close>

definition fixed_wanted :: "mail_env \<Rightarrow> string \<Rightarrow> time \<Rightarrow> mail_tables \<Rightarrow> (string \<times> string) list" where
  "fixed_wanted env h since t =
     map (\<lambda>n. (nt_id n, h)) (in_order_of_creation (filter (\<lambda>n. active_from env since \<le> nt_created n) (ml_notifications t)))"

definition email_addresses :: "mail_env \<Rightarrow> time \<Rightarrow> mail_tables \<Rightarrow> (string \<times> string) list" where
  "email_addresses env since t =
     sort (remdups (filter (\<lambda>(u, e). e \<noteq> [] \<and> list_ex (\<lambda>n. nt_user n = u \<and> active_from env since \<le> nt_created n)
       (ml_notifications t)) (ml_users t)))"

definition email_wanted :: "mail_env \<Rightarrow> (string \<times> string) list \<Rightarrow> time \<Rightarrow> mail_tables \<Rightarrow> (string \<times> string) list" where
  "email_wanted env batch since t =
     concat (map (\<lambda>n. map (\<lambda>(u, e). (nt_id n, destinationHash env ''email'' e))
         (filter (\<lambda>(u, e). u = nt_user n \<and> (u, e) \<in> set (ml_users t)) batch))
       (in_order_of_creation (filter (\<lambda>n. active_from env since \<le> nt_created n) (ml_notifications t))))"

definition unseeded :: "string \<Rightarrow> (mail_tables \<Rightarrow> (string \<times> string) list) \<Rightarrow> mail_tables \<Rightarrow> (string \<times> string) list" where
  "unseeded channel wanted t = filter (\<lambda>w. \<not> has_delivery channel t w) (wanted t)"

fun insert_deliveries ::
    "mail_env \<Rightarrow> mail_faults \<Rightarrow> time \<Rightarrow> string \<Rightarrow> (string \<times> string) list \<Rightarrow> mail_tables \<Rightarrow> bool \<times> mail_tables" where
  "insert_deliveries env fault now channel [] t = (True, t)"
| "insert_deliveries env fault now channel ((nid, h) # ws) t =
     (case (if fault (InsertDelivery channel nid) then None
            else insert_delivery now (deliveryID env nid channel h) nid channel h t) of
        None \<Rightarrow> (False, t)
      | Some t1 \<Rightarrow> insert_deliveries env fault now channel ws t1)"

text \<open>
  The loop \<^verbatim>\<open>for { ... }\<close> of both seeding functions: rounds of a thousand until one is short.
  Nothing in the code bounds the number of rounds, so the loop is a partial function; \<open>k\<close> numbers
  the rounds for the statements that may fail.
\<close>

partial_function (option) seed_loop ::
    "mail_env \<Rightarrow> mail_faults \<Rightarrow> time \<Rightarrow> string \<Rightarrow> (mail_tables \<Rightarrow> (string \<times> string) list) \<Rightarrow> nat \<Rightarrow> mail_tables
     \<Rightarrow> (bool \<times> mail_tables) option" where
  "seed_loop env fault now channel wanted k t =
     (if fault (SelectUnseeded channel k) then Some (False, t)
      else let ws = take 1000 (unseeded channel wanted t);
               r = insert_deliveries env fault now channel ws t
      in if \<not> fst r then Some r
         else if length ws < 1000 then Some r
         else seed_loop env fault now channel wanted (Suc k) (snd r))"

definition seedFixedDestination ::
    "mail_env \<Rightarrow> mail_faults \<Rightarrow> time \<Rightarrow> string \<Rightarrow> string \<Rightarrow> time \<Rightarrow> mail_tables \<Rightarrow> (bool \<times> mail_tables) option" where
  "seedFixedDestination env fault now channel destination since t =
     seed_loop env fault now channel (fixed_wanted env (destinationHash env channel destination) since) 0 t"

text \<open>Destinations are fed to the query 250 at a time.\<close>

definition destinationBatchSize :: nat where "destinationBatchSize = 250"

function batches_of :: "'a list \<Rightarrow> 'a list list" where
  "batches_of xs = (if xs = [] then [] else take destinationBatchSize xs # batches_of (drop destinationBatchSize xs))"
  by pat_completeness auto
termination by (relation "measure length") (auto simp: destinationBatchSize_def)

declare batches_of.simps [simp del]

fun seed_batches ::
    "mail_env \<Rightarrow> mail_faults \<Rightarrow> time \<Rightarrow> time \<Rightarrow> (string \<times> string) list list \<Rightarrow> mail_tables \<Rightarrow> (bool \<times> mail_tables) option" where
  "seed_batches env fault now since [] t = Some (True, t)"
| "seed_batches env fault now since (b # bs) t =
     (case seed_loop env fault now ''email'' (email_wanted env b since) 0 t of
        None \<Rightarrow> None
      | Some (False, t1) \<Rightarrow> Some (False, t1)
      | Some (True, t1) \<Rightarrow> seed_batches env fault now since bs t1)"

definition seedEmail :: "mail_env \<Rightarrow> mail_faults \<Rightarrow> time \<Rightarrow> time \<Rightarrow> mail_tables \<Rightarrow> (bool \<times> mail_tables) option" where
  "seedEmail env fault now since t =
     (if fault SelectAddresses then Some (False, t)
      else seed_batches env fault now since (batches_of (email_addresses env since t)) t)"

fun seed_channels ::
    "mail_env \<Rightarrow> mail_faults \<Rightarrow> time \<Rightarrow> time \<Rightarrow> (string \<times> string) list \<Rightarrow> mail_tables \<Rightarrow> (bool \<times> mail_tables) option" where
  "seed_channels env fault now since [] t = Some (True, t)"
| "seed_channels env fault now since ((channel, value) # ds) t =
     (if value = [] then seed_channels env fault now since ds t
      else case seedFixedDestination env fault now channel value since t of
        None \<Rightarrow> None
      | Some (False, t1) \<Rightarrow> Some (False, t1)
      | Some (True, t1) \<Rightarrow> seed_channels env fault now since ds t1)"

definition seed :: "mail_env \<Rightarrow> mail_faults \<Rightarrow> delivery_config \<Rightarrow> time \<Rightarrow> mail_tables \<Rightarrow> (bool \<times> mail_tables) option" where
  "seed env fault cfg now t =
     (case seed_channels env fault now (dc_ActiveSince cfg)
             [(''webhook'', dc_WebhookURL cfg), (''messenger'', dc_MessengerWebhookURL cfg)] t of
        None \<Rightarrow> None
      | Some (False, t1) \<Rightarrow> Some (False, t1)
      | Some (True, t1) \<Rightarrow>
          (if dc_SMTPEnabled cfg then seedEmail env fault now (dc_ActiveSince cfg) t1 else Some (True, t1)))"

section \<open>A pass\<close>

text \<open>SQLite compares the two times to the second; the loop over the rows compares them again.\<close>

definition due_in_query :: "mail_env \<Rightarrow> time \<Rightarrow> delivery_row \<Rightarrow> bool" where
  "due_in_query env now d \<longleftrightarrow>
     (if sqlite_driver env then dl_next d div second \<le> now div second else dl_next d \<le> now)"

definition join_delivery :: "mail_tables \<Rightarrow> delivery_row \<Rightarrow> delivery option" where
  "join_delivery t d =
     (case List.find (\<lambda>n. nt_id n = dl_notification d) (ml_notifications t) of
        None \<Rightarrow> None
      | Some n \<Rightarrow>
          (case map_of (ml_users t) (nt_user n) of
             None \<Rightarrow> None
           | Some e \<Rightarrow> Some \<lparr>dv_ID = dl_id d, dv_NotificationID = dl_notification d, dv_Channel = dl_channel d,
               dv_DestinationHash = dl_hash d, dv_Attempts = dl_attempts d, dv_NextAttempt = dl_next d,
               dv_UserID = nt_user n, dv_Email = e, dv_Type = nt_type n, dv_ResourceID = nt_resource n,
               dv_Title = nt_title n, dv_Message = nt_message n\<rparr>))"

definition due_deliveries :: "mail_env \<Rightarrow> time \<Rightarrow> mail_tables \<Rightarrow> delivery list" where
  "due_deliveries env now t =
     filter (\<lambda>i. \<not> now < dv_NextAttempt i)
       (take 100 (List.map_filter (join_delivery t)
         (sort_key dl_created (filter (\<lambda>d. waiting d \<and> due_in_query env now d) (ml_deliveries t)))))"

definition retry_wait :: "int \<Rightarrow> duration" where
  "retry_wait attempts = minute * 2 ^ nat (min (attempts - 1) 6)"

text \<open>
  One delivery: superseded, taken by another instance, or sent and settled. The clocks are
  those after the send: \<open>at\<close> for the outcome. The result is what was sent.
\<close>

definition deliver_one ::
    "mail_env \<Rightarrow> mail_faults \<Rightarrow> (delivery \<Rightarrow> time) \<Rightarrow> delivery_config \<Rightarrow> time \<Rightarrow> delivery \<Rightarrow> mail_tables
     \<Rightarrow> delivery list \<times> mail_tables" where
  "deliver_one env fault clock cfg now item t =
     (if dv_DestinationHash item \<noteq> destinationHash env (dv_Channel item) (currentDestination cfg item) then
        ([], if fault (Supersede (dv_ID item)) then t else supersede now (dv_ID item) t)
      else if fault (ClaimDelivery (dv_ID item)) then ([], t)
      else let (affected, t1) = claim_delivery now (dv_ID item) t in
        if \<not> affected then ([], t1)
        else case send_notification env cfg item of
          None \<Rightarrow> ([item], if fault (SettleDelivery (dv_ID item)) then t1
             else settle_delivered (clock item) (dv_ID item) t1)
        | Some err \<Rightarrow>
            (let attempts = dv_Attempts item + 1;
                 status = (if dc_MaxAttempts cfg \<le> attempts then ''dead'' else ''failed'')
             in ([item], if fault (SettleDelivery (dv_ID item)) then t1
                  else settle_failed status (clock item + retry_wait attempts) (truncate_error err 500)
                         (clock item) (dv_ID item) t1)))"

fun deliver_all ::
    "mail_env \<Rightarrow> mail_faults \<Rightarrow> (delivery \<Rightarrow> time) \<Rightarrow> delivery_config \<Rightarrow> time \<Rightarrow> delivery list \<Rightarrow> mail_tables
     \<Rightarrow> delivery list \<times> mail_tables" where
  "deliver_all env fault clock cfg now [] t = ([], t)"
| "deliver_all env fault clock cfg now (i # is) t =
     (let (sent1, t1) = deliver_one env fault clock cfg now i t;
          (sent2, t2) = deliver_all env fault clock cfg now is t1
      in (sent1 @ sent2, t2))"

text \<open>A pass: whether it ended without error, what it sent, and the tables.\<close>

definition RunOnce_delivery ::
    "mail_env \<Rightarrow> mail_faults \<Rightarrow> (delivery \<Rightarrow> time) \<Rightarrow> bool \<Rightarrow> delivery_config \<Rightarrow> time \<Rightarrow> mail_tables
     \<Rightarrow> (bool \<times> delivery list \<times> mail_tables) option" where
  "RunOnce_delivery env fault clock swapped cfg now t =
     (if fault LoadDeliveryConfig then Some (False, [], t)
      else if \<not> dc_Enabled cfg then Some (True, [], t)
      else if ValidateConfig env swapped cfg \<noteq> None then Some (False, [], t)
      else let t1 = (if fault ExpireSending then t else expire_sending now t) in
        case seed env fault cfg now t1 of
          None \<Rightarrow> None
        | Some (False, t2) \<Rightarrow> Some (False, [], t2)
        | Some (True, t2) \<Rightarrow>
            (if fault SelectDue then Some (False, [], t2)
             else if \<not> client_ready env cfg then Some (False, [], t2)
             else Some (True, deliver_all env fault clock cfg now (due_deliveries env now t2) t2)))"

section \<open>Seeding ends, and leaves nothing unseeded\<close>

definition triple :: "delivery_row \<Rightarrow> string \<times> string \<times> string" where
  "triple d = (dl_notification d, dl_channel d, dl_hash d)"

text \<open>The two uniqueness constraints of the table.\<close>

definition queue_ok :: "mail_tables \<Rightarrow> bool" where
  "queue_ok t \<longleftrightarrow> distinct (map dl_id (ml_deliveries t)) \<and> distinct (map triple (ml_deliveries t))"

definition fresh_row :: "delivery_row \<Rightarrow> bool" where
  "fresh_row d \<longleftrightarrow> dl_status d = ''pending'' \<and> dl_attempts d = 0"

text \<open>What seeding does to the tables: rows are added behind the others, fresh ones.\<close>

definition seeded_from :: "mail_tables \<Rightarrow> mail_tables \<Rightarrow> bool" where
  "seeded_from t t' \<longleftrightarrow> ml_users t' = ml_users t \<and> ml_notifications t' = ml_notifications t
     \<and> (\<exists>new. ml_deliveries t' = ml_deliveries t @ new \<and> (\<forall>d \<in> set new. fresh_row d))
     \<and> (queue_ok t \<longrightarrow> queue_ok t')"

lemma seeded_from_refl [simp]: "seeded_from t t"
  by (auto simp: seeded_from_def)

lemma seeded_from_trans [trans]: "seeded_from t u \<Longrightarrow> seeded_from u v \<Longrightarrow> seeded_from t v"
  unfolding seeded_from_def by fastforce

lemma has_delivery_mono: "seeded_from t t' \<Longrightarrow> has_delivery channel t w \<Longrightarrow> has_delivery channel t' w"
  by (auto simp: seeded_from_def has_delivery_def split: prod.splits)

lemma insert_delivery_seeded:
  assumes "insert_delivery now did nid channel h t = Some t'"
  shows "seeded_from t t'" "has_delivery channel t' (nid, h)"
proof -
  define row where "row = \<lparr>dl_id = did, dl_notification = nid, dl_channel = channel, dl_hash = h, dl_status = ''pending'',
    dl_attempts = 0, dl_next = now, dl_error = [], dl_delivered = None, dl_created = now, dl_updated = now\<rparr>"
  have row: "fresh_row row" "dl_id row = did" "triple row = (nid, channel, h)"
    by (simp_all add: row_def fresh_row_def triple_def)
  show "seeded_from t t'"
  proof (cases "list_ex (\<lambda>d. dl_notification d = nid \<and> dl_channel d = channel \<and> dl_hash d = h) (ml_deliveries t)")
    case True
    then show ?thesis using assms by (simp add: insert_delivery_def)
  next
    case False
    then have t': "t' = t\<lparr>ml_deliveries := ml_deliveries t @ [row]\<rparr>" "did \<notin> dl_id ` set (ml_deliveries t)"
      using assms by (auto simp: insert_delivery_def row_def list_ex_iff split: if_splits)
    have "(nid, channel, h) \<notin> triple ` set (ml_deliveries t)"
      using False by (auto simp: triple_def list_ex_iff)
    then show ?thesis using t' row by (simp add: seeded_from_def queue_ok_def)
  qed
  show "has_delivery channel t' (nid, h)"
    using assms by (auto simp: insert_delivery_def has_delivery_def split: if_splits)
qed

lemma insert_deliveries_seeded:
  assumes "insert_deliveries env fault now channel ws t = (ok, t')"
  shows "seeded_from t t' \<and> (ok \<longrightarrow> (\<forall>w \<in> set ws. has_delivery channel t' w))"
  using assms
proof (induction ws arbitrary: t)
  case (Cons w ws)
  obtain nid h where w: "w = (nid, h)" by (cases w)
  show ?case
  proof (cases "if fault (InsertDelivery channel nid) then None
                else insert_delivery now (deliveryID env nid channel h) nid channel h t")
    case None
    then show ?thesis using Cons.prems by (simp add: w)
  next
    case (Some t1)
    then have one: "insert_delivery now (deliveryID env nid channel h) nid channel h t = Some t1"
      by (simp split: if_splits)
    have rest: "insert_deliveries env fault now channel ws t1 = (ok, t')" using Cons.prems Some by (simp add: w)
    note IH = Cons.IH [OF rest]
    have "seeded_from t t'" using seeded_from_trans insert_delivery_seeded(1) [OF one] IH by blast
    moreover have "has_delivery channel t' w"
      using has_delivery_mono insert_delivery_seeded(2) [OF one] IH w by blast
    ultimately show ?thesis using IH by simp
  qed
qed simp

text \<open>A query that reads only what seeding does not write.\<close>

definition stable :: "(mail_tables \<Rightarrow> (string \<times> string) list) \<Rightarrow> bool" where
  "stable wanted \<longleftrightarrow> (\<forall>t t'. ml_users t' = ml_users t \<and> ml_notifications t' = ml_notifications t \<longrightarrow> wanted t' = wanted t)"

lemma stable_seeded: "stable wanted \<Longrightarrow> seeded_from t t' \<Longrightarrow> wanted t' = wanted t"
  unfolding stable_def seeded_from_def by blast

lemma unseeded_seeded:
  assumes "stable wanted" "seeded_from t t'"
  shows "unseeded channel wanted t' = filter (\<lambda>w. \<not> has_delivery channel t' w) (unseeded channel wanted t)"
proof -
  have "filter (\<lambda>w. \<not> has_delivery channel t' w) (wanted t)
      = filter (\<lambda>w. \<not> has_delivery channel t w \<and> \<not> has_delivery channel t' w) (wanted t)"
    by (rule filter_cong [OF refl]) (use has_delivery_mono [OF assms(2)] in blast)
  then show ?thesis by (simp add: unseeded_def stable_seeded [OF assms])
qed

lemma stable_fixed: "stable (fixed_wanted env h since)"
  by (simp add: stable_def fixed_wanted_def)

lemma stable_email: "stable (email_wanted env batch since)"
  by (simp add: stable_def email_wanted_def)

text \<open>A full round seeds at least one row, so the number of rows that are missing is the variant.\<close>

lemma round_decreases:
  assumes "stable wanted" "take 1000 (unseeded channel wanted t) \<noteq> []"
    and "insert_deliveries env fault now channel (take 1000 (unseeded channel wanted t)) t = (True, t')"
  shows "length (unseeded channel wanted t') < length (unseeded channel wanted t)"
proof -
  have grown: "seeded_from t t'" and filled: "\<forall>w \<in> set (take 1000 (unseeded channel wanted t)). has_delivery channel t' w"
    using insert_deliveries_seeded [OF assms(3)] by auto
  obtain w ws where w: "unseeded channel wanted t = w # ws" using assms(2) by (cases "unseeded channel wanted t") auto
  then have "has_delivery channel t' w" using filled by simp
  then show ?thesis
    unfolding unseeded_seeded [OF assms(1) grown] w by (simp add: le_imp_less_Suc)
qed

lemma seed_loop_ends:
  assumes "stable wanted"
  shows "\<exists>ok t'. seed_loop env fault now channel wanted k t = Some (ok, t') \<and> seeded_from t t'
    \<and> (ok \<longrightarrow> (\<forall>w \<in> set (wanted t). has_delivery channel t' w))"
proof (induction "length (unseeded channel wanted t)" arbitrary: t k rule: less_induct)
  case less
  define ws where "ws = take 1000 (unseeded channel wanted t)"
  obtain ok t1 where r: "insert_deliveries env fault now channel ws t = (ok, t1)" by fastforce
  note step = insert_deliveries_seeded [OF r]
  show ?case
  proof (cases "fault (SelectUnseeded channel k)")
    case True
    then have "seed_loop env fault now channel wanted k t = Some (False, t)" by (subst seed_loop.simps) simp
    then show ?thesis using seeded_from_refl by blast
  next
    case False
    show ?thesis
    proof (cases "ok \<and> \<not> length ws < 1000")
      case short: False
      have "seed_loop env fault now channel wanted k t = Some (ok, t1)"
        using False short r by (subst seed_loop.simps) (auto simp: Let_def ws_def [symmetric])
      moreover have "ok \<longrightarrow> (\<forall>w \<in> set (wanted t). has_delivery channel t1 w)"
      proof
        assume ok
        then have all: "ws = unseeded channel wanted t" using short by (auto simp: ws_def)
        have ws_seeded: "has_delivery channel t1 w" if "w \<in> set (wanted t)" "\<not> has_delivery channel t w" for w
        proof -
          have "w \<in> set ws" unfolding all unseeded_def using that by simp
          then show ?thesis using step \<open>ok\<close> by blast
        qed
        have kept: "has_delivery channel t1 w" if "has_delivery channel t w" for w
          using step that has_delivery_mono by blast
        show "\<forall>w \<in> set (wanted t). has_delivery channel t1 w" using ws_seeded kept by blast
      qed
      ultimately show ?thesis using step by blast
    next
      case full: True
      then have "ws \<noteq> []" by auto
      then have "length (unseeded channel wanted t1) < length (unseeded channel wanted t)"
        using round_decreases [OF assms, of channel t env fault now t1] r full unfolding ws_def by simp
      from less.hyps [OF this, of "Suc k"] obtain ok2 t2 where
        IH: "seed_loop env fault now channel wanted (Suc k) t1 = Some (ok2, t2)" "seeded_from t1 t2"
          "ok2 \<longrightarrow> (\<forall>w \<in> set (wanted t1). has_delivery channel t2 w)" by blast
      have loop: "seed_loop env fault now channel wanted k t = Some (ok2, t2)"
        using False full r IH(1) by (subst seed_loop.simps) (auto simp: Let_def ws_def [symmetric])
      have same: "wanted t1 = wanted t" using step by (intro stable_seeded [OF assms]) blast
      have "seeded_from t t2" using step IH(2) seeded_from_trans by blast
      then show ?thesis using loop IH(3) unfolding same by blast
    qed
  qed
qed

lemma seed_channels_ends:
  "\<exists>ok t'. seed_channels env fault now since ds t = Some (ok, t') \<and> seeded_from t t'
    \<and> (ok \<longrightarrow> (\<forall>(channel, value) \<in> set ds. value \<noteq> [] \<longrightarrow>
         (\<forall>w \<in> set (fixed_wanted env (destinationHash env channel value) since t). has_delivery channel t' w)))"
proof (induction ds arbitrary: t)
  case (Cons d ds)
  obtain channel value' where d: "d = (channel, value')" by (cases d)
  show ?case
  proof (cases "value' = []")
    case True
    then show ?thesis using Cons.IH [of t] by (simp add: d)
  next
    case False
    define h where "h = destinationHash env channel value'"
    obtain ok t1 where one: "seedFixedDestination env fault now channel value' since t = Some (ok, t1)"
        "seeded_from t t1" "ok \<longrightarrow> (\<forall>w \<in> set (fixed_wanted env h since t). has_delivery channel t1 w)"
      using seed_loop_ends [OF stable_fixed] unfolding seedFixedDestination_def h_def by blast
    show ?thesis
    proof (cases ok)
      case fail: False
      have "seed_channels env fault now since (d # ds) t = Some (False, t1)" using False fail one(1) by (simp add: d)
      then show ?thesis using one(2) by blast
    next
      case True
      obtain ok2 t2 where rest: "seed_channels env fault now since ds t1 = Some (ok2, t2)" "seeded_from t1 t2"
        "ok2 \<longrightarrow> (\<forall>(channel, value) \<in> set ds. value \<noteq> [] \<longrightarrow>
           (\<forall>w \<in> set (fixed_wanted env (destinationHash env channel value) since t1). has_delivery channel t2 w))"
        using Cons.IH [of t1] by blast
      have run: "seed_channels env fault now since (d # ds) t = Some (ok2, t2)"
        using False True one(1) rest(1) by (simp add: d)
      have old: "fixed_wanted env k since t1 = fixed_wanted env k since t" for k
        by (rule stable_seeded [OF stable_fixed one(2)])
      have "\<forall>w \<in> set (fixed_wanted env h since t). has_delivery channel t2 w"
        using one(3) True has_delivery_mono [OF rest(2)] by blast
      then have "ok2 \<longrightarrow> (\<forall>(channel, value) \<in> set (d # ds). value \<noteq> [] \<longrightarrow>
         (\<forall>w \<in> set (fixed_wanted env (destinationHash env channel value) since t). has_delivery channel t2 w))"
        using rest(3) unfolding old d h_def by simp
      then show ?thesis using run seeded_from_trans [OF one(2) rest(2)] by blast
    qed
  qed
qed auto

lemma concat_batches_of [simp]: "concat (batches_of xs) = xs"
  by (induction xs rule: batches_of.induct) (subst batches_of.simps, simp)

lemma in_batches: "x \<in> set xs \<Longrightarrow> \<exists>b \<in> set (batches_of xs). x \<in> set b"
  using concat_batches_of [of xs] by (metis UN_iff set_concat)

lemma length_batches: "b \<in> set (batches_of xs) \<Longrightarrow> length b \<le> destinationBatchSize"
  by (induction xs rule: batches_of.induct) (subst (asm) (2) batches_of.simps, auto split: if_splits)

lemma seed_batches_ends:
  "\<exists>ok t'. seed_batches env fault now since bs t = Some (ok, t') \<and> seeded_from t t'
    \<and> (ok \<longrightarrow> (\<forall>b \<in> set bs. \<forall>w \<in> set (email_wanted env b since t). has_delivery ''email'' t' w))"
proof (induction bs arbitrary: t)
  case (Cons b bs)
  obtain ok t1 where one: "seed_loop env fault now ''email'' (email_wanted env b since) 0 t = Some (ok, t1)"
      "seeded_from t t1" "ok \<longrightarrow> (\<forall>w \<in> set (email_wanted env b since t). has_delivery ''email'' t1 w)"
    using seed_loop_ends [OF stable_email] by blast
  show ?case
  proof (cases ok)
    case False
    then have "seed_batches env fault now since (b # bs) t = Some (False, t1)" using one(1) by simp
    then show ?thesis using one(2) by blast
  next
    case True
    obtain ok2 t2 where rest: "seed_batches env fault now since bs t1 = Some (ok2, t2)" "seeded_from t1 t2"
      "ok2 \<longrightarrow> (\<forall>b \<in> set bs. \<forall>w \<in> set (email_wanted env b since t1). has_delivery ''email'' t2 w)"
      using Cons.IH [of t1] by blast
    have run: "seed_batches env fault now since (b # bs) t = Some (ok2, t2)" using True one(1) rest(1) by simp
    have old: "email_wanted env b since t1 = email_wanted env b since t" for b
      by (rule stable_seeded [OF stable_email one(2)])
    have "ok2 \<longrightarrow> (\<forall>b \<in> set (b # bs). \<forall>w \<in> set (email_wanted env b since t). has_delivery ''email'' t2 w)"
      using one(3) True has_delivery_mono [OF rest(2)] rest(3) unfolding old by simp
    then show ?thesis using run seeded_from_trans [OF one(2) rest(2)] by blast
  qed
qed auto

text \<open>Every address of a wanted notification is in one of the batches.\<close>

lemma email_wanted_complete:
  assumes "n \<in> set (ml_notifications t)" "active_from env since \<le> nt_created n"
    and "(nt_user n, e) \<in> set (ml_users t)" "e \<noteq> []"
  shows "\<exists>b \<in> set (batches_of (email_addresses env since t)).
    (nt_id n, destinationHash env ''email'' e) \<in> set (email_wanted env b since t)"
proof -
  have "(nt_user n, e) \<in> set (email_addresses env since t)"
    using assms by (auto simp: email_addresses_def list_ex_iff)
  then have "\<exists>b \<in> set (batches_of (email_addresses env since t)). (nt_user n, e) \<in> set b"
    by (rule in_batches)
  then obtain b where b: "b \<in> set (batches_of (email_addresses env since t))" "(nt_user n, e) \<in> set b" by blast
  have "(nt_id n, destinationHash env ''email'' e) \<in> set (email_wanted env b since t)"
    using assms b(2) by (force simp: email_wanted_def in_order_of_creation_def)
  then show ?thesis using b(1) by blast
qed

lemma seedEmail_ends:
  "\<exists>ok t'. seedEmail env fault now since t = Some (ok, t') \<and> seeded_from t t'
    \<and> (ok \<longrightarrow> (\<forall>n \<in> set (ml_notifications t). active_from env since \<le> nt_created n \<longrightarrow>
         (\<forall>e. (nt_user n, e) \<in> set (ml_users t) \<longrightarrow> e \<noteq> [] \<longrightarrow>
            has_delivery ''email'' t' (nt_id n, destinationHash env ''email'' e))))"
proof (cases "fault SelectAddresses")
  case True
  then have "seedEmail env fault now since t = Some (False, t)" by (simp add: seedEmail_def)
  then show ?thesis using seeded_from_refl by blast
next
  case False
  obtain ok t' where run: "seed_batches env fault now since (batches_of (email_addresses env since t)) t = Some (ok, t')"
    "seeded_from t t'"
    "ok \<longrightarrow> (\<forall>b \<in> set (batches_of (email_addresses env since t)).
       \<forall>w \<in> set (email_wanted env b since t). has_delivery ''email'' t' w)"
    using seed_batches_ends by blast
  have "seedEmail env fault now since t = Some (ok, t')" using False run(1) by (simp add: seedEmail_def)
  moreover have "has_delivery ''email'' t' (nt_id n, destinationHash env ''email'' e)"
    if "ok" "n \<in> set (ml_notifications t)" "active_from env since \<le> nt_created n" "(nt_user n, e) \<in> set (ml_users t)" "e \<noteq> []" for n e
    using run(3) that(1) email_wanted_complete [OF that(2-5)] by blast
  ultimately show ?thesis using run(2) by blast
qed

lemma seeding_total:
  "\<exists>ok t'. seed env fault cfg now t = Some (ok, t') \<and> seeded_from t t' \<and>
    (ok \<longrightarrow> (\<forall>n \<in> set (ml_notifications t). active_from env (dc_ActiveSince cfg) \<le> nt_created n \<longrightarrow>
      (dc_WebhookURL cfg \<noteq> [] \<longrightarrow>
         has_delivery ''webhook'' t' (nt_id n, destinationHash env ''webhook'' (dc_WebhookURL cfg))) \<and>
      (dc_MessengerWebhookURL cfg \<noteq> [] \<longrightarrow>
         has_delivery ''messenger'' t' (nt_id n, destinationHash env ''messenger'' (dc_MessengerWebhookURL cfg))) \<and>
      (dc_SMTPEnabled cfg \<longrightarrow> (\<forall>e. (nt_user n, e) \<in> set (ml_users t) \<longrightarrow> e \<noteq> [] \<longrightarrow>
         has_delivery ''email'' t' (nt_id n, destinationHash env ''email'' e)))))"
proof -
  define since where "since = dc_ActiveSince cfg"
  define ds where "ds = [(''webhook'', dc_WebhookURL cfg), (''messenger'', dc_MessengerWebhookURL cfg)]"
  obtain ok1 t1 where one: "seed_channels env fault now since ds t = Some (ok1, t1)" "seeded_from t t1"
    "ok1 \<longrightarrow> (\<forall>(channel, value) \<in> set ds. value \<noteq> [] \<longrightarrow>
       (\<forall>w \<in> set (fixed_wanted env (destinationHash env channel value) since t). has_delivery channel t1 w))"
    using seed_channels_ends by blast
  have fixed: "has_delivery channel t1 (nt_id n, destinationHash env channel v)"
    if "ok1" "(channel, v) \<in> set ds" "v \<noteq> []" "n \<in> set (ml_notifications t)" "active_from env since \<le> nt_created n"
    for channel v n
  proof -
    have "(nt_id n, destinationHash env channel v) \<in> set (fixed_wanted env (destinationHash env channel v) since t)"
      using that(4,5) by (simp add: fixed_wanted_def in_order_of_creation_def)
    then show ?thesis using one(3) that(1-3) by blast
  qed
  show ?thesis
  proof (cases "ok1 \<and> dc_SMTPEnabled cfg")
    case False
    have "seed env fault cfg now t = Some (ok1, t1)"
      using False one(1) by (cases ok1) (simp_all add: seed_def since_def ds_def)
    then show ?thesis using False one(2) fixed unfolding since_def [symmetric] ds_def by auto
  next
    case True
    obtain ok2 t2 where two: "seedEmail env fault now since t1 = Some (ok2, t2)" "seeded_from t1 t2"
      "ok2 \<longrightarrow> (\<forall>n \<in> set (ml_notifications t1). active_from env since \<le> nt_created n \<longrightarrow>
         (\<forall>e. (nt_user n, e) \<in> set (ml_users t1) \<longrightarrow> e \<noteq> [] \<longrightarrow>
            has_delivery ''email'' t2 (nt_id n, destinationHash env ''email'' e)))"
      using seedEmail_ends by blast
    have same: "ml_users t1 = ml_users t" "ml_notifications t1 = ml_notifications t"
      using one(2) by (simp_all add: seeded_from_def)
    have "seed env fault cfg now t = Some (ok2, t2)"
      using True one(1) two(1) by (simp add: seed_def since_def ds_def)
    moreover have "has_delivery channel t2 (nt_id n, destinationHash env channel v)"
      if "(channel, v) \<in> set ds" "v \<noteq> []" "n \<in> set (ml_notifications t)" "active_from env since \<le> nt_created n"
      for channel v n
      using has_delivery_mono [OF two(2) fixed] True that by blast
    moreover have "seeded_from t t2" by (rule seeded_from_trans [OF one(2) two(2)])
    ultimately show ?thesis using two(3) unfolding same since_def [symmetric] ds_def by auto
  qed
qed

lemma seeding_ends_from: "seed env fault cfg now t = Some (ok, t') \<Longrightarrow> seeded_from t t'"
  using seeding_total [of env fault cfg now t] by auto

text \<open>
  C22: the seeding of a pass always ends, whatever statements fail and however many
  notifications wait. It adds fresh rows behind the existing ones and changes none of them; and
  when it ends without an error, every notification created since the channels were activated
  has a row for the webhook, for the messenger and for the address of its user, as far as these
  channels are configured.
\<close>

theorem seeding_ends:
  "\<exists>ok t'. seed env fault cfg now t = Some (ok, t') \<and> seeded_from t t' \<and>
    (ok \<longrightarrow> (\<forall>n \<in> set (ml_notifications t). active_from env (dc_ActiveSince cfg) \<le> nt_created n \<longrightarrow>
      (dc_WebhookURL cfg \<noteq> [] \<longrightarrow>
         has_delivery ''webhook'' t' (nt_id n, destinationHash env ''webhook'' (dc_WebhookURL cfg))) \<and>
      (dc_MessengerWebhookURL cfg \<noteq> [] \<longrightarrow>
         has_delivery ''messenger'' t' (nt_id n, destinationHash env ''messenger'' (dc_MessengerWebhookURL cfg))) \<and>
      (dc_SMTPEnabled cfg \<longrightarrow> (\<forall>e. (nt_user n, e) \<in> set (ml_users t) \<longrightarrow> e \<noteq> [] \<longrightarrow>
         has_delivery ''email'' t' (nt_id n, destinationHash env ''email'' e)))))"
  by (rule seeding_total)

section \<open>Every interleaving of passes and retries\<close>

text \<open>
  Several instances run passes at once, each of its statements on its own. A history is a list
  of such statements; notifications and addresses may change in between.
\<close>

datatype mail_step =
    ExpireStep time
  | InsertStep time string string string string
  | SupersedeStep time string
  | ClaimStep time string
  | DeliveredStep time string
  | FailedStep string time string time string
  | RetryStep time string
  | NotifyStep notification_row
  | AddressStep "(string \<times> string) list"

fun mail_apply :: "mail_step \<Rightarrow> mail_tables \<Rightarrow> mail_tables" where
  "mail_apply (ExpireStep now) t = expire_sending now t"
| "mail_apply (InsertStep now did nid channel h) t =
     (case insert_delivery now did nid channel h t of None \<Rightarrow> t | Some t1 \<Rightarrow> t1)"
| "mail_apply (SupersedeStep now did) t = supersede now did t"
| "mail_apply (ClaimStep now did) t = snd (claim_delivery now did t)"
| "mail_apply (DeliveredStep at did) t = settle_delivered at did t"
| "mail_apply (FailedStep status next_at err at did) t = settle_failed status next_at err at did t"
| "mail_apply (RetryStep now did) t = snd (retryNotificationDelivery (\<lambda>_. False) now did t)"
| "mail_apply (NotifyStep n) t = t\<lparr>ml_notifications := ml_notifications t @ [n]\<rparr>"
| "mail_apply (AddressStep us) t = t\<lparr>ml_users := us\<rparr>"

definition run_mail :: "mail_step list \<Rightarrow> mail_tables \<Rightarrow> mail_tables" where
  "run_mail ss t = fold mail_apply ss t"

lemma run_mail_simps [simp]: "run_mail [] t = t" "run_mail (s # ss) t = run_mail ss (mail_apply s t)"
  "run_mail (ss @ ss') t = run_mail ss' (run_mail ss t)"
  by (simp_all add: run_mail_def)

text \<open>How often a delivery is claimed, which is how often it is sent.\<close>

fun times_claimed :: "string \<Rightarrow> mail_step list \<Rightarrow> mail_tables \<Rightarrow> nat" where
  "times_claimed did [] t = 0"
| "times_claimed did (s # ss) t =
     (case s of ClaimStep now x \<Rightarrow> (if x = did \<and> fst (claim_delivery now x t) then 1 else 0) | _ \<Rightarrow> 0)
     + times_claimed did ss (mail_apply s t)"

subsection \<open>A pass is such a history\<close>

lemma times_claimed_append [simp]:
  "times_claimed did (ss @ us) t = times_claimed did ss t + times_claimed did us (run_mail ss t)"
  by (induction ss arbitrary: t) auto

text \<open>A history that leads from \<open>t\<close> to \<open>t'\<close> and claims exactly what was sent.\<close>

definition history :: "mail_tables \<Rightarrow> mail_tables \<Rightarrow> delivery list \<Rightarrow> bool" where
  "history t t' sent \<longleftrightarrow> (\<exists>ss. t' = run_mail ss t
     \<and> (\<forall>did. times_claimed did ss t = length (filter (\<lambda>i. dv_ID i = did) sent)))"

lemma history_refl [simp]: "history t t []"
  unfolding history_def by (rule exI [of _ "[]"]) simp

lemma history_trans:
  assumes "history t u sent1" "history u v sent2"
  shows "history t v (sent1 @ sent2)"
proof -
  obtain ss where ss: "u = run_mail ss t" "\<forall>did. times_claimed did ss t = length (filter (\<lambda>i. dv_ID i = did) sent1)"
    using assms(1) unfolding history_def by blast
  obtain us where us: "v = run_mail us u" "\<forall>did. times_claimed did us u = length (filter (\<lambda>i. dv_ID i = did) sent2)"
    using assms(2) unfolding history_def by blast
  show ?thesis
    unfolding history_def by (rule exI [of _ "ss @ us"]) (simp add: ss us(1), use us ss(1) in simp)
qed

lemma history_silent: "history t u [] \<Longrightarrow> history u v sent \<Longrightarrow> history t v sent"
  using history_trans by fastforce

lemma history_quiet: "history t u sent \<Longrightarrow> history u v [] \<Longrightarrow> history t v sent"
  using history_trans by fastforce

lemma history_step:
  "u = mail_apply s t \<Longrightarrow> (\<And>now did. s \<noteq> ClaimStep now did) \<Longrightarrow> history t u []"
  unfolding history_def by (rule exI [of _ "[s]"]) (auto split: mail_step.splits)

lemma history_claim:
  "claim_delivery now did t = (ok, u) \<Longrightarrow> dv_ID i = did \<Longrightarrow> history t u (if ok then [i] else [])"
  unfolding history_def by (rule exI [of _ "[ClaimStep now did]"]) auto

lemma insert_deliveries_history:
  "insert_deliveries env fault now channel ws t = (ok, t') \<Longrightarrow> history t t' []"
proof (induction ws arbitrary: t)
  case (Cons w ws)
  obtain nid h where w: "w = (nid, h)" by (cases w)
  show ?case
  proof (cases "if fault (InsertDelivery channel nid) then None
                else insert_delivery now (deliveryID env nid channel h) nid channel h t")
    case None
    then show ?thesis using Cons.prems by (simp add: w)
  next
    case (Some t1)
    then have one: "insert_delivery now (deliveryID env nid channel h) nid channel h t = Some t1"
      by (simp split: if_splits)
    have "history t t1 []"
      by (rule history_step [of _ "InsertStep now (deliveryID env nid channel h) nid channel h"]) (simp_all add: one)
    moreover have "history t1 t' []" using Cons.IH [of t1] Cons.prems Some by (simp add: w)
    ultimately show ?thesis by (rule history_silent)
  qed
qed simp

lemma seed_loop_history:
  assumes "seed_loop env fault now channel wanted k t = Some r"
  shows "history t (snd r) []"
proof (rule seed_loop.raw_induct [where P = "\<lambda>env fault now channel wanted k t r. history t (snd r) []", rotated])
  show "seed_loop env fault now channel wanted k t = Some r" by (rule assms)
next
  fix loop :: "mail_env \<Rightarrow> mail_faults \<Rightarrow> time \<Rightarrow> string \<Rightarrow> (mail_tables \<Rightarrow> (string \<times> string) list) \<Rightarrow> nat \<Rightarrow> mail_tables
     \<Rightarrow> (bool \<times> mail_tables) option"
  fix env fault now channel wanted k t r
  assume IH: "\<And>env fault now channel wanted k t r. loop env fault now channel wanted k t = Some r \<Longrightarrow> history t (snd r) []"
    and body: "(if fault (SelectUnseeded channel k) then Some (False, t)
      else let ws = take 1000 (unseeded channel wanted t);
               r = insert_deliveries env fault now channel ws t
      in if \<not> fst r then Some r
         else if length ws < 1000 then Some r
         else loop env fault now channel wanted (Suc k) (snd r)) = Some r"
  define ws where "ws = take 1000 (unseeded channel wanted t)"
  obtain ok t1 where step: "insert_deliveries env fault now channel ws t = (ok, t1)" by fastforce
  have one: "history t t1 []" by (rule insert_deliveries_history [OF step])
  have "r = (False, t) \<or> r = (ok, t1) \<or> loop env fault now channel wanted (Suc k) t1 = Some r"
    using body step by (auto simp: Let_def ws_def [symmetric] split: if_splits)
  moreover have "loop env fault now channel wanted (Suc k) t1 = Some r \<Longrightarrow> history t (snd r) []"
    by (rule history_silent [OF one IH])
  ultimately show "history t (snd r) []" using one by auto
qed

lemma seed_channels_history:
  "seed_channels env fault now since ds t = Some (ok, t') \<Longrightarrow> history t t' []"
proof (induction ds arbitrary: t)
  case (Cons d ds)
  obtain channel v where d: "d = (channel, v)" by (cases d)
  show ?case
  proof (cases "v = []")
    case True
    then show ?thesis using Cons by (simp add: d)
  next
    case False
    then obtain b t1 where one: "seedFixedDestination env fault now channel v since t = Some (b, t1)"
      using Cons.prems by (auto simp: d split: option.splits)
    then have "history t t1 []" using seed_loop_history unfolding seedFixedDestination_def by fastforce
    then show ?thesis using Cons.prems Cons.IH [of t1] False one history_silent by (cases b) (auto simp: d)
  qed
qed simp

lemma seed_batches_history:
  "seed_batches env fault now since bs t = Some (ok, t') \<Longrightarrow> history t t' []"
proof (induction bs arbitrary: t)
  case (Cons c bs)
  then obtain b t1 where one: "seed_loop env fault now ''email'' (email_wanted env c since) 0 t = Some (b, t1)"
    by (auto split: option.splits)
  then have "history t t1 []" using seed_loop_history by fastforce
  then show ?case using Cons.prems Cons.IH [of t1] one history_silent by (cases b) auto
qed simp

lemma seed_history:
  assumes "seed env fault cfg now t = Some (ok, t')"
  shows "history t t' []"
proof -
  define ds where "ds = [(''webhook'', dc_WebhookURL cfg), (''messenger'', dc_MessengerWebhookURL cfg)]"
  obtain b t1 where one: "seed_channels env fault now (dc_ActiveSince cfg) ds t = Some (b, t1)"
    using assms by (auto simp: seed_def ds_def [symmetric] split: option.splits)
  then have first: "history t t1 []" by (rule seed_channels_history)
  show ?thesis
  proof (cases "b \<and> dc_SMTPEnabled cfg \<and> \<not> fault SelectAddresses")
    case True
    then have "seed_batches env fault now (dc_ActiveSince cfg) (batches_of (email_addresses env (dc_ActiveSince cfg) t1)) t1
        = Some (ok, t')"
      using assms one by (simp add: seed_def ds_def [symmetric] seedEmail_def)
    then show ?thesis by (rule history_silent [OF first seed_batches_history])
  next
    case False
    then have "t' = t1" using assms one
      by (cases b) (auto simp: seed_def ds_def [symmetric] seedEmail_def split: if_splits)
    then show ?thesis using first by simp
  qed
qed

lemma deliver_one_history:
  assumes "deliver_one env fault clock cfg now i t = (sent, t')"
  shows "history t t' sent"
proof (cases "dv_DestinationHash i \<noteq> destinationHash env (dv_Channel i) (currentDestination cfg i)")
  case True
  have "history t (supersede now (dv_ID i) t) []" by (rule history_step [of _ "SupersedeStep now (dv_ID i)"]) simp_all
  then show ?thesis using True assms by (auto simp: deliver_one_def split: if_splits)
next
  case False
  show ?thesis
  proof (cases "fault (ClaimDelivery (dv_ID i))")
    case True
    then show ?thesis using False assms by (simp add: deliver_one_def)
  next
    case claim: False
    obtain ok t1 where c: "claim_delivery now (dv_ID i) t = (ok, t1)" by fastforce
    have first: "history t t1 (if ok then [i] else [])" by (rule history_claim [OF c refl])
    have won: "history t1 (settle_delivered (clock i) (dv_ID i) t1) []"
      by (rule history_step [of _ "DeliveredStep (clock i) (dv_ID i)"]) simp_all
    have lost: "history t1 (settle_failed status next_at err (clock i) (dv_ID i) t1) []" for status next_at err
      by (rule history_step [of _ "FailedStep status next_at err (clock i) (dv_ID i)"]) simp_all
    show ?thesis
    proof (cases ok)
      case False
      then show ?thesis using \<open>\<not> (dv_DestinationHash i \<noteq> _)\<close> claim c first assms by (simp add: deliver_one_def)
    next
      case True
      have "sent = [i]" "history t1 t' []"
        using \<open>\<not> (dv_DestinationHash i \<noteq> _)\<close> claim c True assms won lost
        by (auto simp: deliver_one_def Let_def split: option.splits if_splits)
      then show ?thesis using first True history_quiet by auto
    qed
  qed
qed

lemma deliver_all_history:
  "deliver_all env fault clock cfg now is t = (sent, t') \<Longrightarrow> history t t' sent"
proof (induction "is" arbitrary: t sent)
  case (Cons i "is")
  obtain s1 t1 where one: "deliver_one env fault clock cfg now i t = (s1, t1)" by fastforce
  obtain s2 where two: "deliver_all env fault clock cfg now is t1 = (s2, t')" "sent = s1 @ s2"
    using Cons.prems one by (auto split: prod.splits)
  show ?case unfolding two(2) by (rule history_trans [OF deliver_one_history [OF one] Cons.IH [OF two(1)]])
qed simp

text \<open>A pass is a history of statements, and each of its sends is one claim.\<close>

lemma pass_history:
  assumes "RunOnce_delivery env fault clock swapped cfg now t = Some (ok, sent, t')"
  shows "history t t' sent"
proof -
  define t1 where "t1 = (if fault ExpireSending then t else expire_sending now t)"
  have first: "history t t1 []"
  proof (cases "fault ExpireSending")
    case False
    then have "t1 = mail_apply (ExpireStep now) t" by (simp add: t1_def)
    then show ?thesis by (rule history_step) simp
  qed (simp add: t1_def)
  show ?thesis
  proof (cases "fault LoadDeliveryConfig \<or> \<not> dc_Enabled cfg \<or> ValidateConfig env swapped cfg \<noteq> None")
    case True
    then show ?thesis using assms by (auto simp: RunOnce_delivery_def split: if_splits)
  next
    case False
    then obtain b t2 where two: "seed env fault cfg now t1 = Some (b, t2)"
      using assms by (auto simp: RunOnce_delivery_def t1_def [symmetric] split: option.splits)
    have "history t t2 []" by (rule history_silent [OF first seed_history [OF two]])
    moreover have "sent = [] \<and> t' = t2 \<or> deliver_all env fault clock cfg now (due_deliveries env now t2) t2 = (sent, t')"
      using False two assms
      by (cases b) (auto simp: RunOnce_delivery_def t1_def [symmetric] split: if_splits)
    ultimately show ?thesis using history_silent deliver_all_history by blast
  qed
qed

section \<open>No delivery is sent twice, and none to the wrong place\<close>

lemma update_delivery_same [simp]:
  "ml_users (update_delivery P f t) = ml_users t"
  "ml_notifications (update_delivery P f t) = ml_notifications t"
  by (simp_all add: update_delivery_def)

lemma queue_ok_update:
  assumes "queue_ok t" "\<And>d. dl_id (f d) = dl_id d" "\<And>d. triple (f d) = triple d"
  shows "queue_ok (update_delivery P f t)"
proof -
  have "dl_id \<circ> (\<lambda>d. if P d then f d else d) = dl_id" "triple \<circ> (\<lambda>d. if P d then f d else d) = triple"
    by (auto simp: assms(2,3) fun_eq_iff)
  then show ?thesis using assms(1) unfolding queue_ok_def update_delivery_def by simp
qed

lemma queue_ok_step: "queue_ok t \<Longrightarrow> queue_ok (mail_apply s t)"
proof (cases s)
  case (InsertStep now did nid channel h)
  assume "queue_ok t"
  then show ?thesis
    using insert_delivery_seeded(1) [of now did nid channel h t] InsertStep
    by (cases "insert_delivery now did nid channel h t") (auto simp: seeded_from_def)
next
  case (RetryStep now did)
  assume "queue_ok t"
  then show ?thesis
    using RetryStep by (auto simp: retryNotificationDelivery_def Let_def triple_def intro!: queue_ok_update)
qed (auto simp: expire_sending_def supersede_def claim_delivery_def settle_delivered_def settle_failed_def triple_def
    queue_ok_def [of "t\<lparr>ml_notifications := _\<rparr>" for t] queue_ok_def [of "t\<lparr>ml_users := _\<rparr>" for t]
    simp flip: queue_ok_def intro!: queue_ok_update)

lemma queue_ok_run: "queue_ok t \<Longrightarrow> queue_ok (run_mail ss t)"
  by (induction ss arbitrary: t) (simp_all add: queue_ok_step)

lemma same_id_same_row:
  "queue_ok t \<Longrightarrow> d \<in> set (ml_deliveries t) \<Longrightarrow> e \<in> set (ml_deliveries t) \<Longrightarrow> dl_id d = dl_id e \<Longrightarrow> d = e"
  unfolding queue_ok_def by (auto dest: inj_onD [OF distinct_map [THEN iffD1, THEN conjunct2]])

lemma row_stays_update: "d \<in> set (ml_deliveries t) \<Longrightarrow> \<not> P d \<Longrightarrow> d \<in> set (ml_deliveries (update_delivery P f t))"
  unfolding update_delivery_def by force

text \<open>The statements that may touch a row: none but these.\<close>

fun touches :: "delivery_row \<Rightarrow> mail_step \<Rightarrow> bool" where
  "touches d (ExpireStep now) \<longleftrightarrow> dl_status d = ''sending'' \<and> dl_updated d < now - delivery_lease"
| "touches d (SupersedeStep now x) \<longleftrightarrow> x = dl_id d \<and> waiting d"
| "touches d (ClaimStep now x) \<longleftrightarrow> x = dl_id d \<and> waiting d"
| "touches d (DeliveredStep at x) \<longleftrightarrow> x = dl_id d \<and> dl_status d = ''sending''"
| "touches d (FailedStep status next_at err at x) \<longleftrightarrow> x = dl_id d \<and> dl_status d = ''sending''"
| "touches d (RetryStep now x) \<longleftrightarrow> x = dl_id d \<and> (dl_status d = ''failed'' \<or> dl_status d = ''dead'')"
| "touches d s \<longleftrightarrow> False"

lemma row_stays:
  assumes "d \<in> set (ml_deliveries t)" "\<not> touches d s"
  shows "d \<in> set (ml_deliveries (mail_apply s t))"
proof (cases s)
  case (InsertStep now did nid channel h)
  then show ?thesis
    using assms(1) insert_delivery_seeded(1) [of now did nid channel h t]
    by (cases "insert_delivery now did nid channel h t") (auto simp: seeded_from_def)
next
  case (RetryStep now did)
  then show ?thesis using assms by (auto simp: retryNotificationDelivery_def Let_def intro!: row_stays_update)
next
  case (ExpireStep now)
  then show ?thesis using assms by (simp add: expire_sending_def row_stays_update)
next
  case (SupersedeStep now x)
  then show ?thesis using assms by (auto simp: supersede_def intro!: row_stays_update)
next
  case (ClaimStep now x)
  then show ?thesis using assms by (auto simp: claim_delivery_def intro!: row_stays_update)
next
  case (DeliveredStep at x)
  then show ?thesis using assms by (auto simp: settle_delivered_def intro!: row_stays_update)
next
  case (FailedStep status next_at err at x)
  then show ?thesis using assms by (auto simp: settle_failed_def intro!: row_stays_update)
qed (use assms in simp_all)

lemma claim_needs_waiting:
  assumes "queue_ok t" "d \<in> set (ml_deliveries t)" "fst (claim_delivery now (dl_id d) t)"
  shows "waiting d"
proof -
  have "filter (\<lambda>e. dl_id e = dl_id d \<and> waiting e) (ml_deliveries t) \<noteq> []"
    using assms(3) by (auto simp: claim_delivery_def)
  then obtain e where "e \<in> set (ml_deliveries t)" "dl_id e = dl_id d" "waiting e"
    unfolding filter_empty_conv by blast
  then show ?thesis using same_id_same_row [OF assms(1,2)] by fastforce
qed

lemma untouched_not_claimed:
  assumes "queue_ok t" "d \<in> set (ml_deliveries t)" "\<not> waiting d" "\<forall>s \<in> set ss. \<not> touches d s"
  shows "d \<in> set (ml_deliveries (run_mail ss t)) \<and> times_claimed (dl_id d) ss t = 0"
  using assms
proof (induction ss arbitrary: t)
  case (Cons s ss)
  have IH: "d \<in> set (ml_deliveries (run_mail ss (mail_apply s t))) \<and> times_claimed (dl_id d) ss (mail_apply s t) = 0"
    by (rule Cons.IH) (use Cons.prems row_stays queue_ok_step in auto)
  have "\<not> fst (claim_delivery now (dl_id d) t)" for now
    using claim_needs_waiting [OF Cons.prems(1,2)] Cons.prems(3) by blast
  then show ?case using IH by (auto split: mail_step.splits)
qed simp

lemma finished_untouched:
  "dl_status d = ''delivered'' \<or> dl_status d = ''superseded'' \<Longrightarrow> \<not> waiting d \<and> \<not> touches d s"
  by (cases s) (auto simp: waiting_def)

text \<open>
  C27: a delivery that was made, or that was given up because its destination changed, is never
  sent again. Whatever statements of passes and retries follow, on however many instances and
  in whatever order, its row stays as it is and is claimed no more.
\<close>

theorem finished_deliveries_stay:
  assumes "queue_ok t" "d \<in> set (ml_deliveries t)" "dl_status d = ''delivered'' \<or> dl_status d = ''superseded''"
  shows "d \<in> set (ml_deliveries (run_mail ss t)) \<and> times_claimed (dl_id d) ss t = 0"
  using untouched_not_claimed [OF assms(1,2)] finished_untouched [OF assms(3)] by blast

text \<open>
  C29: a delivery is sent by one instance at a time. While the claim of an instance is neither
  settled nor older than the lease, no other instance claims the delivery, whatever else
  happens to the tables.
\<close>

theorem send_exclusive:
  assumes "queue_ok t" "d \<in> set (ml_deliveries t)" "dl_status d = ''sending''"
    and "\<forall>s \<in> set ss. case s of
           ExpireStep now \<Rightarrow> now \<le> dl_updated d + delivery_lease
         | DeliveredStep at x \<Rightarrow> x \<noteq> dl_id d
         | FailedStep status next_at err at x \<Rightarrow> x \<noteq> dl_id d
         | _ \<Rightarrow> True"
  shows "d \<in> set (ml_deliveries (run_mail ss t)) \<and> times_claimed (dl_id d) ss t = 0"
proof (rule untouched_not_claimed [OF assms(1,2)])
  show "\<not> waiting d" using assms(3) by (simp add: waiting_def)
  have "\<not> touches d s" if "s \<in> set ss" for s
    using assms(3) bspec [OF assms(4) that] by (cases s) (auto simp: waiting_def)
  then show "\<forall>s \<in> set ss. \<not> touches d s" by blast
qed

text \<open>What one pass sends.\<close>

lemma join_deliveryD: "join_delivery t d = Some v \<Longrightarrow> dv_ID v = dl_id d"
  by (auto simp: join_delivery_def split: option.splits)

lemma subseq_joined: "subseq (map dv_ID (List.map_filter (join_delivery t) ds)) (map dl_id ds)"
  by (induction ds) (auto simp: List.map_filter_simps dest: join_deliveryD split: option.splits)

lemma subseq_take: "subseq (take n xs) xs"
  by (metis append_take_drop_id list_emb_append2 subseq_order.refl take_is_prefix prefix_imp_subseq)

lemma distinct_subseq: "subseq xs ys \<Longrightarrow> distinct ys \<Longrightarrow> distinct xs"
  by (induction rule: list_emb.induct) (auto dest: list_emb_set)

lemma due_distinct:
  assumes "queue_ok t"
  shows "distinct (map dv_ID (due_deliveries env now t)) \<and> length (due_deliveries env now t) \<le> 100"
proof -
  define ds where "ds = sort_key dl_created (filter (\<lambda>d. waiting d \<and> due_in_query env now d) (ml_deliveries t))"
  define is1 where "is1 = List.map_filter (join_delivery t) ds"
  have "distinct (map dl_id ds)"
    using assms by (auto simp: ds_def queue_ok_def distinct_map inj_on_def)
  then have ids: "distinct (map dv_ID is1)"
    unfolding is1_def using subseq_joined distinct_subseq by blast
  have due: "due_deliveries env now t = filter (\<lambda>i. \<not> now < dv_NextAttempt i) (take 100 is1)"
    by (simp add: due_deliveries_def is1_def ds_def)
  have "subseq (due_deliveries env now t) is1"
    unfolding due by (rule subseq_order.trans [OF subseq_filter_left prefix_imp_subseq [OF take_is_prefix]])
  then have "distinct (map dv_ID (due_deliveries env now t))"
    using ids distinct_subseq subseq_map by blast
  moreover have "length (due_deliveries env now t) \<le> 100"
    unfolding due using length_filter_le [of _ "take 100 is1"] by (rule le_trans) simp
  ultimately show ?thesis by blast
qed

lemma deliver_one_sent:
  assumes "deliver_one env fault clock cfg now i t = (sent, t')"
  shows "sent = [] \<or> (sent = [i] \<and> dv_DestinationHash i = destinationHash env (dv_Channel i) (currentDestination cfg i))"
  using assms by (auto simp: deliver_one_def Let_def split: if_splits prod.splits option.splits)

lemma deliver_all_sent:
  "deliver_all env fault clock cfg now is t = (sent, t') \<Longrightarrow>
     subseq sent is \<and> (\<forall>i \<in> set sent. dv_DestinationHash i = destinationHash env (dv_Channel i) (currentDestination cfg i))"
proof (induction "is" arbitrary: t sent)
  case (Cons i "is")
  obtain s1 t1 where one: "deliver_one env fault clock cfg now i t = (s1, t1)" by fastforce
  obtain s2 where two: "deliver_all env fault clock cfg now is t1 = (s2, t')" "sent = s1 @ s2"
    using Cons.prems one by (auto split: prod.splits)
  show ?case using deliver_one_sent [OF one] Cons.IH [OF two(1)] two(2) by auto
qed simp

lemma pass_stages:
  assumes "RunOnce_delivery env fault clock swapped cfg now t = Some (ok, sent, t')" "queue_ok t"
  shows "\<exists>t2. queue_ok t2 \<and> (sent = [] \<or> deliver_all env fault clock cfg now (due_deliveries env now t2) t2 = (sent, t'))"
proof (cases "fault LoadDeliveryConfig \<or> \<not> dc_Enabled cfg \<or> ValidateConfig env swapped cfg \<noteq> None")
  case True
  then have "sent = []" using assms(1) by (auto simp: RunOnce_delivery_def split: if_splits)
  then show ?thesis using assms(2) by blast
next
  case False
  define t1 where "t1 = (if fault ExpireSending then t else expire_sending now t)"
  obtain b t2 where two: "seed env fault cfg now t1 = Some (b, t2)"
    using assms(1) False by (auto simp: RunOnce_delivery_def t1_def [symmetric] split: option.splits)
  have "queue_ok t1" using assms(2) queue_ok_step [of t "ExpireStep now"] by (simp add: t1_def)
  moreover have "seeded_from t1 t2" using seeding_ends_from two by blast
  ultimately have "queue_ok t2" by (simp add: seeded_from_def)
  moreover have "sent = [] \<or> deliver_all env fault clock cfg now (due_deliveries env now t2) t2 = (sent, t')"
    using False two assms(1) by (cases b) (auto simp: RunOnce_delivery_def t1_def [symmetric] split: if_splits)
  ultimately show ?thesis by blast
qed

text \<open>
  C30: a pass sends at most a hundred deliveries, each of them at most once, only those that are
  due, and each to the very destination its row was created for. What it does to the tables is
  a history of single statements with exactly one claim for every send.
\<close>

theorem pass_sends_once:
  assumes "RunOnce_delivery env fault clock swapped cfg now t = Some (ok, sent, t')" "queue_ok t"
  shows "history t t' sent \<and> distinct (map dv_ID sent) \<and> length sent \<le> 100 \<and>
    (\<forall>i \<in> set sent. dv_NextAttempt i \<le> now \<and>
       dv_DestinationHash i = destinationHash env (dv_Channel i) (currentDestination cfg i))"
proof -
  obtain t2 where t2: "queue_ok t2"
    "sent = [] \<or> deliver_all env fault clock cfg now (due_deliveries env now t2) t2 = (sent, t')"
    using pass_stages [OF assms] by blast
  have sub: "subseq sent (due_deliveries env now t2)"
    and hash: "\<forall>i \<in> set sent. dv_DestinationHash i = destinationHash env (dv_Channel i) (currentDestination cfg i)"
    using t2(2) deliver_all_sent by auto
  have "distinct (map dv_ID sent)"
    using due_distinct [OF t2(1)] subseq_map [OF sub] distinct_subseq by blast
  moreover have "length sent \<le> 100"
    using due_distinct [OF t2(1)] list_emb_length [OF sub] by (meson le_trans)
  moreover have "\<forall>i \<in> set sent. dv_NextAttempt i \<le> now"
    using list_emb_set [OF sub] by (force simp: due_deliveries_def)
  ultimately show ?thesis using hash pass_history [OF assms(1)] by blast
qed

section \<open>Mail travels encrypted\<close>




lemma and_then_None [simp]: "and_then (None, h) f = f h"
  and and_then_Some [simp]: "and_then (Some e, h) f = (Some e, h)"
  by (simp_all add: and_then_def)

text \<open>A conversation only grows.\<close>

definition extends_by :: "smtp_command list \<Rightarrow> smtp_command list \<Rightarrow> bool" where
  "extends_by g h \<longleftrightarrow> (\<exists>us. h = g @ us)"




lemma extends_refl [simp]: "extends_by g g"
  by (simp add: extends_by_def)




section \<open>Witnesses\<close>

definition demo_mail :: mail_env where
  "demo_mail = \<lparr>sqlite_driver = False, sha256_hex = (\<lambda>s. s),
     parse_endpoint = (\<lambda>s. Some \<lparr>ep_Scheme = ''https'', ep_Host = ''h'', ep_Hostname = ''h'', ep_User = False,
       ep_Fragment = [], ep_Rest = s\<rparr>),
     endpoint_text = ep_Rest, parse_address = (\<lambda>s. if s = [] then None else Some (s, s)), tls_ready = (\<lambda>_. True),
     client_ready = (\<lambda>_. True), http_post = (\<lambda>_ _ _. Inr (200, ''200 OK'')),
     smtp_offers = (\<lambda>_ _. True), smtp_error = (\<lambda>_ _. None)\<rparr>"

definition demo_config :: delivery_config where
  "demo_config = \<lparr>dc_Enabled = True, dc_ActiveSince = 0, dc_WebhookURL = ''w'', dc_WebhookAuthorization = [],
     dc_MessengerWebhookURL = [], dc_MessengerAuthorization = [], dc_SMTPEnabled = False, dc_SMTPHost = ''mail'',
     dc_SMTPPort = 587, dc_SMTPUsername = ''u'', dc_SMTPPassword = ''p'', dc_SMTPFrom = ''f'',
     dc_SMTPTLSMode = ''starttls'', dc_TestRecipient = [], dc_Timeout = 15 * second, dc_MaxAttempts = 5,
     dc_TLSVerify = None, dc_CACertificate = [], dc_ProxyURL = []\<rparr>"

definition demo_mail_tables :: mail_tables where
  "demo_mail_tables = \<lparr>ml_users = [(''u'', ''a'')], ml_notifications = [\<lparr>nt_id = ''n'', nt_user = ''u'', nt_type = ''t'',
     nt_resource = [], nt_title = ''hi'', nt_message = ''m'', nt_created = 5\<rparr>], ml_deliveries = []\<rparr>"

definition demo_delivery :: "string \<Rightarrow> delivery_row" where
  "demo_delivery status = \<lparr>dl_id = ''d'', dl_notification = ''n'', dl_channel = ''webhook'', dl_hash = ''h'',
     dl_status = status, dl_attempts = 1, dl_next = 0, dl_error = [], dl_delivered = None, dl_created = 5, dl_updated = 5\<rparr>"

definition demo_row_tables :: "string \<Rightarrow> mail_tables" where
  "demo_row_tables status = demo_mail_tables\<lparr>ml_deliveries := [demo_delivery status]\<rparr>"

lemmas demo_mail_defs = demo_mail_def demo_config_def demo_mail_tables_def

lemma nul_value: "nul = [char_of (0::nat)]" by (simp add: nul_def bytes_def)

lemma demo_driver: "sqlite_driver demo_mail = False"
  by (simp add: demo_mail_def)

lemma demo_hash: "destinationHash demo_mail ''webhook'' ''w'' = ''webhook'' @ nul @ ''w''"
  by (simp add: destinationHash_def demo_mail_def trim_space_visible visible_def)

lemma demo_seed:
  "\<exists>t'. seed demo_mail (\<lambda>_. False) demo_config 10 demo_mail_tables = Some (True, t')
     \<and> ml_deliveries t' = [\<lparr>dl_id = deliveryID demo_mail ''n'' ''webhook'' (''webhook'' @ nul @ ''w''), dl_notification = ''n'',
         dl_channel = ''webhook'', dl_hash = ''webhook'' @ nul @ ''w'', dl_status = ''pending'', dl_attempts = 0,
         dl_next = 10, dl_error = [], dl_delivered = None, dl_created = 10, dl_updated = 10\<rparr>]
     \<and> ml_users t' = ml_users demo_mail_tables \<and> ml_notifications t' = ml_notifications demo_mail_tables"
  by (simp add: seed_def seedFixedDestination_def seed_loop.simps [of _ _ _ _ _ 0] unseeded_def fixed_wanted_def
      in_order_of_creation_def active_from_def has_delivery_def insert_delivery_def demo_hash Let_def
      demo_config_def demo_mail_tables_def demo_driver)

lemma seeding_ends_witness:
  "\<exists>t'. seed demo_mail (\<lambda>_. False) demo_config 10 demo_mail_tables = Some (True, t')
     \<and> has_delivery ''webhook'' t' (''n'', destinationHash demo_mail ''webhook'' ''w'')"
  using seeding_ends [of demo_mail "\<lambda>_. False" demo_config 10 demo_mail_tables] demo_seed
  by (auto simp: demo_config_def demo_mail_tables_def active_from_def demo_mail_def)

lemma finished_deliveries_stay_witness:
  "demo_delivery ''delivered'' \<in> set (ml_deliveries (run_mail [ExpireStep 999, ClaimStep 1000 ''d''] (demo_row_tables ''delivered'')))
   \<and> times_claimed ''d'' [ExpireStep 999, ClaimStep 1000 ''d''] (demo_row_tables ''delivered'') = 0"
  using finished_deliveries_stay [of "demo_row_tables ''delivered''" "demo_delivery ''delivered''"
      "[ExpireStep 999, ClaimStep 1000 ''d'']"]
  by (simp add: demo_row_tables_def demo_delivery_def queue_ok_def)

lemma send_exclusive_witness:
  "demo_delivery ''sending'' \<in> set (ml_deliveries (run_mail [ExpireStep minute, ClaimStep minute ''d''] (demo_row_tables ''sending'')))
   \<and> times_claimed ''d'' [ExpireStep minute, ClaimStep minute ''d''] (demo_row_tables ''sending'') = 0"
  using send_exclusive [of "demo_row_tables ''sending''" "demo_delivery ''sending''" "[ExpireStep minute, ClaimStep minute ''d'']"]
  by (simp add: demo_row_tables_def demo_delivery_def queue_ok_def delivery_lease_def)

lemma pass_sends_once_witness:
  "\<exists>sent t'. RunOnce_delivery demo_mail (\<lambda>_. False) (\<lambda>_. 20) False demo_config 10 demo_mail_tables = Some (True, sent, t')
     \<and> distinct (map dv_ID sent) \<and> length sent \<le> 100"
proof -
  have valid: "ValidateConfig demo_mail False demo_config = None"
    by (simp add: ValidateConfig_def endpoint_error_def List.map_filter_simps demo_config_def demo_mail_def)
  have quiet: "expire_sending 10 demo_mail_tables = demo_mail_tables"
    by (simp add: expire_sending_def update_delivery_def demo_mail_tables_def)
  obtain t2 where t2: "seed demo_mail (\<lambda>_. False) demo_config 10 demo_mail_tables = Some (True, t2)"
    using demo_seed by blast
  obtain sent t' where run: "deliver_all demo_mail (\<lambda>_. False) (\<lambda>_. 20) demo_config 10 (due_deliveries demo_mail 10 t2) t2 = (sent, t')"
    by fastforce
  have "RunOnce_delivery demo_mail (\<lambda>_. False) (\<lambda>_. 20) False demo_config 10 demo_mail_tables = Some (True, sent, t')"
    using t2 run by (simp add: RunOnce_delivery_def valid quiet) (simp add: demo_config_def demo_mail_def)
  moreover from this have "distinct (map dv_ID sent) \<and> length sent \<le> 100"
    using pass_sends_once [of demo_mail "\<lambda>_. False" "\<lambda>_. 20" False demo_config 10 demo_mail_tables True sent t']
    by (simp add: queue_ok_def demo_mail_tables_def)
  ultimately show ?thesis by blast
qed


section \<open>Retries\<close>

text \<open>The wait doubles from one minute and stops at sixty-four.\<close>

lemma retry_wait_bounds: "1 \<le> attempts \<Longrightarrow> minute \<le> retry_wait attempts \<and> retry_wait attempts \<le> 64 * minute"
proof -
  assume "1 \<le> attempts"
  have "nat (min (attempts - 1) 6) \<le> 6" by simp
  then have "(2::int) ^ nat (min (attempts - 1) 6) \<le> 2 ^ 6" by (intro power_increasing) simp_all
  then show ?thesis by (simp add: retry_wait_def)
qed

text \<open>A send that fails is counted, and is tried again only while attempts are left.\<close>

lemma failed_send_counted:
  assumes "queue_ok t" "d \<in> set (ml_deliveries t)" "waiting d" "dv_ID i = dl_id d" "dv_Attempts i = dl_attempts d"
    and "dv_DestinationHash i = destinationHash env (dv_Channel i) (currentDestination cfg i)"
    and "send_notification env cfg i = Some err"
  shows "deliver_one env (\<lambda>_. False) clock cfg now i t =
    ([i], update_delivery (\<lambda>e. e = d)
      (\<lambda>e. d\<lparr>dl_status := (if dc_MaxAttempts cfg \<le> dl_attempts d + 1 then ''dead'' else ''failed''),
         dl_attempts := dl_attempts d + 1, dl_next := clock i + retry_wait (dl_attempts d + 1),
         dl_error := truncate_error err 500, dl_updated := clock i\<rparr>) t)"
proof -
  have same: "dl_id e = dl_id d \<longleftrightarrow> e = d" if "e \<in> set (ml_deliveries t)" for e
    using same_id_same_row [OF assms(1) that assms(2)] by blast
  have "filter (\<lambda>e. dl_id e = dl_id d \<and> waiting e) (ml_deliveries t) = filter (\<lambda>e. e = d) (ml_deliveries t)"
    by (rule filter_cong [OF refl]) (use same assms(3) in blast)
  moreover have "distinct (ml_deliveries t)" using assms(1) by (simp add: queue_ok_def distinct_map)
  ultimately have one: "length (filter (\<lambda>e. dl_id e = dl_id d \<and> waiting e) (ml_deliveries t)) = 1"
    using assms(2) by (simp add: distinct_length_filter Int_insert_left)
  show ?thesis
    using assms(3-7) one same
    by (auto simp: deliver_one_def claim_delivery_def settle_failed_def update_delivery_def Let_def waiting_def)
qed

section \<open>Two corners of the queue\<close>

text \<open>
  The lease of a claim is counted from the start of its pass, not from the claim: a delivery
  that is claimed late in a long pass is returned to the queue, and sent a second time by another
  instance, while the first is still sending it.
\<close>

lemma slow_pass_sends_twice:
  "times_claimed ''d'' [ClaimStep 5 ''d'', ExpireStep (5 + delivery_lease + 1), ClaimStep (5 + delivery_lease + 1) ''d'']
     (demo_row_tables ''pending'') = 2"
  by (simp add: demo_row_tables_def demo_delivery_def claim_delivery_def expire_sending_def update_delivery_def
      delivery_lease_def waiting_def)

text \<open>
  A destination that is changed and changed back: the rows of the first address are superseded
  in between, and the seeding finds them and adds none, so the notification is never delivered.
\<close>

lemma superseded_blocks_seeding:
  assumes "d \<in> set (ml_deliveries t)" "dl_status d = ''superseded''" "queue_ok t"
  shows "has_delivery (dl_channel d) t (dl_notification d, dl_hash d) \<and> times_claimed (dl_id d) ss t = 0"
  using untouched_not_claimed [OF assms(3,1)] finished_untouched [of d] assms(1,2)
  by (auto simp: has_delivery_def list_ex_iff)

end
