(* ===== verification/Catalog.thy ===== *)
theory Catalog
  imports ToolCache
begin

text \<open>
  Reading the catalogue: the queries of \<^verbatim>\<open>internal/search/service.go\<close> over repositories, symbols,
  dependencies, files and maps, each limited to what the caller may read, and the test search of
  \<^verbatim>\<open>internal/search/tests.go\<close>. The tables are lists of rows; a join repeats a row for every
  match, as SQL does. What the two database engines do differently (\<open>LOWER\<close>, \<open>LIKE\<close>, the
  collation of a plain \<open>ORDER BY\<close>) is an argument, and so are the statements that fail. The main
  result is that an answer depends on nothing the caller may not read.
\<close>

section \<open>Tables\<close>

record engine =
  lower_sql :: "string \<Rightarrow> string"
  like_sql :: "string \<Rightarrow> string \<Rightarrow> bool"
  collation :: "string \<Rightarrow> string"

record catalog_repo =
  cr_id :: string
  cr_library :: string
  cr_branch :: string
  cr_source :: string
  cr_project :: string
  cr_slug :: string
  cr_enabled :: bool

record symbol_row =
  sy_repo :: string
  sy_ref :: string
  sy_commit :: string
  sy_path :: string
  sy_name :: string
  sy_qualified :: string
  sy_kind :: string
  sy_language :: string
  sy_signature :: string
  sy_documentation :: string
  sy_start :: int
  sy_end :: int
  sy_hash :: string

record dependency_row =
  de_repo :: string
  de_ref :: string
  de_commit :: string
  de_path :: string
  de_from :: string
  de_target :: string
  de_kind :: string
  de_line :: int

record file_row =
  fl_repo :: string
  fl_ref :: string
  fl_path :: string
  fl_base :: string
  fl_commit :: string
  fl_size :: int
  fl_indexed :: int

record content_row =
  ct_repo :: string
  ct_ref :: string
  ct_path :: string
  ct_heading :: string
  ct_start :: int
  ct_end :: int
  ct_content :: string
  ct_hash :: string

record package_row =
  pk_repo :: string
  pk_ref :: string
  pk_ecosystem :: string
  pk_name :: string
  pk_version :: string
  pk_scope :: string

record map_row =
  mp_repo :: string
  mp_ref :: string
  mp_commit :: string
  mp_summary :: string

record catalog =
  c_repos :: "catalog_repo list"
  c_permissions :: "(string \<times> string) list"
  c_symbols :: "symbol_row list"
  c_dependencies :: "dependency_row list"
  c_files :: "file_row list"
  c_contents :: "content_row list"
  c_packages :: "package_row list"
  c_maps :: "map_row list"
  c_refs :: "(string \<times> string) list"

datatype catalog_query =
    CountRegistered | CountReadable | Authorize | QuerySymbols | RepositoryOfLibrary | QueryContents
  | QueryDependencies | QueryRefs | LoadRef string | QueryDependents | QueryMap | CountPackages | QueryPackages
  | QueryFiles | QueryTests | FindFilesQuery | ListingsQuery | ReadFileQuery | ChunksQuery | RefsHolding | LibrariesHolding | CountVisible

type_synonym catalog_faults = "catalog_query \<Rightarrow> bool"

section \<open>Results and errors\<close>

record SymbolResult =
  sr_LibraryID :: string
  sr_Ref :: string
  sr_CommitID :: string
  sr_FilePath :: string
  sr_Name :: string
  sr_QualifiedName :: string
  sr_Kind :: string
  sr_Language :: string
  sr_Signature :: string
  sr_Documentation :: string
  sr_LineStart :: int
  sr_LineEnd :: int
  sr_Content :: string
  sr_ContentHash :: string

record StackEntry =
  se_Ecosystem :: string
  se_Name :: string
  se_Version :: string

record RepositoryMap =
  rm_LibraryID :: string
  rm_Ref :: string
  rm_CommitID :: string
  rm_SummaryJSON :: string
  rm_Conventions :: "string list"
  rm_Stack :: "StackEntry list"
  rm_StackTotal :: nat

record DependencyResult =
  dr_LibraryID :: string
  dr_Ref :: string
  dr_CommitID :: string
  dr_FilePath :: string
  dr_FromSymbol :: string
  dr_Target :: string
  dr_Kind :: string
  dr_LineNumber :: int

record symbol_change =
  sc_Type :: string
  sc_Name :: string
  sc_Kind :: string
  sc_FilePath :: string
  sc_BeforeSignature :: string
  sc_AfterSignature :: string

record ref_comparison =
  rc_LibraryID :: string
  rc_BaseRef :: string
  rc_HeadRef :: string
  rc_Changes :: "symbol_change list"

record ChangeImpact =
  ci_Comparison :: ref_comparison
  ci_Dependents :: "DependencyResult list"

record DependentResult =
  dp_LibraryID :: string
  dp_SourceType :: string
  dp_Ref :: string
  dp_CommitID :: string
  dp_FilePath :: string
  dp_FromSymbol :: string
  dp_Target :: string
  dp_Kind :: string
  dp_LineNumber :: int

record DependentSearch =
  ds_Target :: string
  ds_Dependents :: "DependentResult list"
  ds_Repositories :: "string list"

datatype catalog_error =
    NothingRegistered | NoSourceIdentity | NothingReadable | UnavailableNoun string
  | QueryRequired | SymbolRequired | TargetRequired | LibraryIDForm | QueryFailed
  | DistinctRefsRequired | BothRefsIndexed | RefsUnavailable | MapUnavailable | NoPermissions
  | NoSuchRepository string | OnOtherRef string string "string list" | NotOnDefaultBranch string "string list"
  | InOtherLibraries string "string list" | NotIndexedIn string | NoRepositoryContains

section \<open>Who may read what\<close>

text \<open>
  The clause of \<^verbatim>\<open>repositoryACL\<close>: the permission rows a repository row is joined with. A caller
  with catalogue-wide access gets the one row of an outer join that matches nothing.
\<close>

definition matches_principal :: "string list \<Rightarrow> string \<Rightarrow> bool" where
  "matches_principal principals p \<longleftrightarrow> p \<in> set principals \<or> p = ''*''"

definition repositoryACL :: "string list \<Rightarrow> catalog \<Rightarrow> catalog_repo \<Rightarrow> nat" where
  "repositoryACL principals db r =
     (if Unrestricted principals then 1
      else if principals = [] then 0
      else length (filter (\<lambda>(i, p). i = cr_id r \<and> matches_principal principals p) (c_permissions db)))"

definition readable_repo :: "string list \<Rightarrow> catalog \<Rightarrow> catalog_repo \<Rightarrow> bool" where
  "readable_repo principals db r \<longleftrightarrow> cr_enabled r \<and> 0 < repositoryACL principals db r"

definition splitLibraryID :: "string \<Rightarrow> (string \<times> string) option" where
  "splitLibraryID libraryID =
     (case split_on CHR ''/'' (trim_prefix (trim_space libraryID) ''/'') of
        [a, b] \<Rightarrow> (if a = [] \<or> b = [] then None else Some (''/'' @ a @ ''/'' @ b, []))
      | [a, b, v] \<Rightarrow> (if a = [] \<or> b = [] then None else Some (''/'' @ a @ ''/'' @ b, v))
      | _ \<Rightarrow> None)"

definition systemicReason :: "catalog_faults \<Rightarrow> catalog \<Rightarrow> string list \<Rightarrow> catalog_error option" where
  "systemicReason fault db principals =
     (if fault CountRegistered then None
      else if filter cr_enabled (c_repos db) = [] then Some NothingRegistered
      else if principals = [] then Some NoSourceIdentity
      else if fault CountReadable then None
      else if filter (readable_repo principals db) (c_repos db) = [] then Some NothingReadable
      else None)"

definition unavailable :: "catalog_faults \<Rightarrow> catalog \<Rightarrow> string list \<Rightarrow> string \<Rightarrow> catalog_error" where
  "unavailable fault db principals noun =
     (case systemicReason fault db principals of Some e \<Rightarrow> e | None \<Rightarrow> UnavailableNoun noun)"

definition library_repo :: "string list \<Rightarrow> catalog \<Rightarrow> string \<Rightarrow> catalog_repo option" where
  "library_repo principals db baseID =
     List.find (\<lambda>r. cr_library r = baseID \<and> readable_repo principals db r) (c_repos db)"

definition chosen_ref :: "string \<Rightarrow> string \<Rightarrow> catalog_repo \<Rightarrow> string" where
  "chosen_ref requestedRef version r =
     (if trim_space requestedRef \<noteq> [] then trim_space requestedRef
      else if version \<noteq> [] then version else cr_branch r)"

text \<open>The repository id, the library id without a version, and the ref.\<close>

definition authorizedRepository ::
    "catalog_faults \<Rightarrow> catalog \<Rightarrow> string list \<Rightarrow> string \<Rightarrow> string \<Rightarrow> catalog_error + string \<times> string \<times> string" where
  "authorizedRepository fault db principals libraryID requestedRef =
     (case splitLibraryID libraryID of
        None \<Rightarrow> Inl (unavailable fault db principals ''library'')
      | Some (baseID, version) \<Rightarrow>
          (if principals = [] then Inl (unavailable fault db principals ''library'')
           else case (if fault Authorize then None else library_repo principals db baseID) of
             None \<Rightarrow> Inl (unavailable fault db principals ''library'')
           | Some r \<Rightarrow> Inr (cr_id r, baseID, chosen_ref requestedRef version r)))"

definition within_or :: "int \<Rightarrow> int \<Rightarrow> int \<Rightarrow> nat" where
  "within_or limit most d = nat (if limit < 1 \<or> most < limit then d else limit)"

section \<open>Symbols\<close>

definition symbol_rank :: "engine \<Rightarrow> string \<Rightarrow> symbol_row \<Rightarrow> nat" where
  "symbol_rank e query s =
     (if lower_sql e (sy_name s) = to_lower query then 0
      else if lower_sql e (sy_qualified s) = to_lower query then 1 else 2)"

definition like :: "engine \<Rightarrow> string \<Rightarrow> string \<Rightarrow> bool" where
  "like e pattern text' = like_sql e (lower_sql e text') (lower_sql e pattern)"

definition symbol_matches :: "engine \<Rightarrow> string \<Rightarrow> string \<Rightarrow> string \<Rightarrow> symbol_row \<Rightarrow> bool" where
  "symbol_matches e query ref kind s \<longleftrightarrow>
     (ref = [] \<or> sy_ref s = ref) \<and> (kind = [] \<or> sy_kind s = kind) \<and>
     (let p = ''%'' @ query @ ''%'' in
      like e p (sy_name s) \<or> like e p (sy_qualified s) \<or> like e p (sy_signature s) \<or> like e p (sy_documentation s))"

definition symbol_result :: "catalog_repo \<Rightarrow> symbol_row \<Rightarrow> SymbolResult" where
  "symbol_result r s = \<lparr>sr_LibraryID = cr_library r, sr_Ref = sy_ref s, sr_CommitID = sy_commit s,
     sr_FilePath = sy_path s, sr_Name = sy_name s, sr_QualifiedName = sy_qualified s, sr_Kind = sy_kind s,
     sr_Language = sy_language s, sr_Signature = sy_signature s, sr_Documentation = sy_documentation s,
     sr_LineStart = sy_start s, sr_LineEnd = sy_end s, sr_Content = [], sr_ContentHash = []\<rparr>"

text \<open>The rows of the repositories that satisfy \<open>P\<close>, each with its repository.\<close>

definition join_repo :: "(catalog_repo \<Rightarrow> bool) \<Rightarrow> ('r \<Rightarrow> string) \<Rightarrow> catalog \<Rightarrow> 'r list \<Rightarrow> ('r \<times> catalog_repo) list" where
  "join_repo P repo_of db rows =
     concat (map (\<lambda>x. map (\<lambda>r. (x, r)) (filter (\<lambda>r. cr_id r = repo_of x \<and> P r) (c_repos db))) rows)"

definition symbol_hits ::
    "engine \<Rightarrow> catalog \<Rightarrow> string list \<Rightarrow> string option \<Rightarrow> string \<Rightarrow> string \<Rightarrow> string \<Rightarrow> nat \<Rightarrow> SymbolResult list" where
  "symbol_hits e db principals base ref query kind limit =
     map (\<lambda>(rank, name, path, result). result)
       (take limit (sort_key (\<lambda>(rank, name, path, result). (rank, name, path))
         (remdups (map (\<lambda>(s, r). (symbol_rank e query s, sy_name s, sy_path s, symbol_result r s))
           (join_repo (\<lambda>r. readable_repo principals db r \<and> (case base of None \<Rightarrow> True | Some b \<Rightarrow> cr_library r = b)) sy_repo db
             (filter (symbol_matches e query ref kind) (c_symbols db)))))))"

definition FindSymbols ::
    "engine \<Rightarrow> catalog_faults \<Rightarrow> catalog \<Rightarrow> string list \<Rightarrow> string \<Rightarrow> string \<Rightarrow> string \<Rightarrow> string \<Rightarrow> int
     \<Rightarrow> catalog_error + SymbolResult list" where
  "FindSymbols e fault db principals libraryID ref query0 kind0 limit =
     (let query = trim_space query0; kind = to_lower (trim_space kind0) in
      if query = [] then Inl QueryRequired
      else if principals = [] then Inr []
      else if trim_space libraryID \<noteq> [] then
        (case splitLibraryID libraryID of
           None \<Rightarrow> Inl LibraryIDForm
         | Some (base, version) \<Rightarrow>
             (if fault QuerySymbols then Inl QueryFailed
              else Inr (symbol_hits e db principals (Some base) (if ref = [] then version else ref) query kind
                     (within_or limit 100 20))))
      else if fault QuerySymbols then Inl QueryFailed
      else Inr (symbol_hits e db principals None ref query kind (within_or limit 100 20)))"

definition selected_symbol :: "string \<Rightarrow> SymbolResult list \<Rightarrow> SymbolResult" where
  "selected_symbol symbol results =
     (case List.find (\<lambda>i. to_lower (sr_QualifiedName i) = to_lower symbol \<or> to_lower (sr_Name i) = to_lower symbol) results of
        Some i \<Rightarrow> i | None \<Rightarrow> hd results)"

definition symbol_contents :: "catalog \<Rightarrow> string \<Rightarrow> SymbolResult \<Rightarrow> string list" where
  "symbol_contents db repositoryID s =
     map ct_content (take 5 (sort_key ct_start (filter (\<lambda>c. ct_repo c = repositoryID \<and> ct_ref c = sr_Ref s
       \<and> ct_path c = sr_FilePath s \<and> sr_LineStart s \<le> ct_end c \<and> ct_start c \<le> sr_LineEnd s) (c_contents db))))"

definition SymbolContext ::
    "engine \<Rightarrow> catalog_faults \<Rightarrow> catalog \<Rightarrow> string list \<Rightarrow> string \<Rightarrow> string \<Rightarrow> string \<Rightarrow> catalog_error + SymbolResult" where
  "SymbolContext e fault db principals libraryID ref symbol =
     (case FindSymbols e fault db principals libraryID ref symbol [] 20 of
        Inl err \<Rightarrow> Inl err
      | Inr [] \<Rightarrow> Inl (unavailable fault db principals ''symbol'')
      | Inr results \<Rightarrow>
          (let selected = selected_symbol symbol results in
           case (if fault RepositoryOfLibrary then None
                 else List.find (\<lambda>r. cr_library r = sr_LibraryID selected) (c_repos db)) of
             None \<Rightarrow> Inl (unavailable fault db principals ''symbol'')
           | Some r \<Rightarrow>
               (if fault QueryContents then Inl QueryFailed
                else Inr (selected\<lparr>sr_Content := join_with [newline, newline]
                       (symbol_contents db (cr_id r) selected)\<rparr>))))"

section \<open>Dependencies and refs\<close>

definition touches_symbol :: "engine \<Rightarrow> string \<Rightarrow> dependency_row \<Rightarrow> bool" where
  "touches_symbol e symbol d \<longleftrightarrow>
     (let p = ''%'' @ symbol @ ''%'' in like e p (de_from d) \<or> like e p (de_target d))"

definition names_symbol :: "engine \<Rightarrow> string \<Rightarrow> dependency_row \<Rightarrow> bool" where
  "names_symbol e symbol d \<longleftrightarrow> lower_sql e (de_from d) = lower_sql e symbol \<or> lower_sql e (de_target d) = lower_sql e symbol"

definition TraceDependencies ::
    "engine \<Rightarrow> catalog_faults \<Rightarrow> catalog \<Rightarrow> string list \<Rightarrow> string \<Rightarrow> string \<Rightarrow> string \<Rightarrow> int
     \<Rightarrow> catalog_error + DependencyResult list" where
  "TraceDependencies e fault db principals libraryID ref symbol0 limit =
     (let symbol = trim_space symbol0 in
      if symbol = [] then Inl SymbolRequired
      else case authorizedRepository fault db principals libraryID ref of
        Inl err \<Rightarrow> Inl err
      | Inr (repositoryID, baseID, selectedRef) \<Rightarrow>
          (if fault QueryDependencies then Inl QueryFailed
           else Inr (map (\<lambda>d. \<lparr>dr_LibraryID = baseID, dr_Ref = selectedRef, dr_CommitID = de_commit d,
                  dr_FilePath = de_path d, dr_FromSymbol = de_from d, dr_Target = de_target d, dr_Kind = de_kind d,
                  dr_LineNumber = de_line d\<rparr>)
             (take (within_or limit 200 50)
               (sort_key (\<lambda>d. (if names_symbol e symbol d then 0 else 1 :: nat, collation e (de_path d), de_line d))
                 (filter (\<lambda>d. de_repo d = repositoryID \<and> de_ref d = selectedRef \<and> touches_symbol e symbol d)
                   (c_dependencies db)))))))"

definition nul_char :: string where "nul_char = [CHR 0x00]"

definition ContentHashKey :: "SymbolResult \<Rightarrow> string" where
  "ContentHashKey s =
     (if sr_ContentHash s \<noteq> [] then sr_ContentHash s
      else sr_Signature s @ nul_char @ sr_Documentation s @ nul_char @ itoa (sr_LineStart s) @ nul_char @ itoa (sr_LineEnd s))"

text \<open>The hash of a symbol is that of its chunk, if there is one.\<close>

definition loaded_symbol :: "catalog \<Rightarrow> string \<Rightarrow> symbol_row \<Rightarrow> SymbolResult" where
  "loaded_symbol db baseID s =
     \<lparr>sr_LibraryID = baseID, sr_Ref = sy_ref s, sr_CommitID = sy_commit s,
     sr_FilePath = sy_path s, sr_Name = sy_name s, sr_QualifiedName = sy_qualified s, sr_Kind = sy_kind s,
     sr_Language = sy_language s, sr_Signature = sy_signature s, sr_Documentation = sy_documentation s,
     sr_LineStart = sy_start s, sr_LineEnd = sy_end s, sr_Content = [],
     sr_ContentHash = (case List.find (\<lambda>c. ct_repo c = sy_repo s \<and> ct_ref c = sy_ref s \<and> ct_path c = sy_path s
         \<and> ct_heading c = sy_qualified s \<and> ct_start c = sy_start s) (c_contents db) of
       Some c \<Rightarrow> ct_hash c | None \<Rightarrow> sy_hash s)\<rparr>"

definition symbol_key :: "SymbolResult \<Rightarrow> string \<times> string \<times> string" where
  "symbol_key s = (sr_QualifiedName s, sr_Kind s, sr_FilePath s)"

text \<open>The map of a ref: the last row of a key wins, in the order of the query.\<close>

definition load_ref :: "catalog \<Rightarrow> string \<Rightarrow> string \<Rightarrow> string \<Rightarrow> ((string \<times> string \<times> string) \<times> SymbolResult) list" where
  "load_ref db repositoryID baseID ref =
     fold (\<lambda>s m. AList.update (symbol_key s) s m)
       (map (loaded_symbol db baseID)
         (sort_key (\<lambda>s. (sy_qualified s, sy_path s, sy_start s))
           (filter (\<lambda>s. sy_repo s = repositoryID \<and> sy_ref s = ref) (c_symbols db)))) []"

definition removed_change :: "SymbolResult \<Rightarrow> symbol_change" where
  "removed_change old = \<lparr>sc_Type = ''removed'', sc_Name = sr_QualifiedName old, sc_Kind = sr_Kind old,
     sc_FilePath = sr_FilePath old, sc_BeforeSignature = sr_Signature old, sc_AfterSignature = []\<rparr>"

definition modified_change :: "SymbolResult \<Rightarrow> SymbolResult \<Rightarrow> symbol_change" where
  "modified_change old current = \<lparr>sc_Type = ''modified'', sc_Name = sr_QualifiedName current, sc_Kind = sr_Kind current,
     sc_FilePath = sr_FilePath current, sc_BeforeSignature = sr_Signature old, sc_AfterSignature = sr_Signature current\<rparr>"

definition added_change :: "SymbolResult \<Rightarrow> symbol_change" where
  "added_change current = \<lparr>sc_Type = ''added'', sc_Name = sr_QualifiedName current, sc_Kind = sr_Kind current,
     sc_FilePath = sr_FilePath current, sc_BeforeSignature = [], sc_AfterSignature = sr_Signature current\<rparr>"

text \<open>Two maps compared; the loops over the maps run in an order that the sorting undoes.\<close>

definition ref_changes ::
    "((string \<times> string \<times> string) \<times> SymbolResult) list \<Rightarrow> ((string \<times> string \<times> string) \<times> SymbolResult) list \<Rightarrow> symbol_change list" where
  "ref_changes before after =
     List.map_filter (\<lambda>(key, old). case map_of after key of
         None \<Rightarrow> Some (removed_change old)
       | Some current \<Rightarrow>
           (if ContentHashKey old \<noteq> ContentHashKey current then Some (modified_change old current) else None)) before
     @ List.map_filter (\<lambda>(key, current). if map_of before key = None then Some (added_change current) else None) after"

definition CompareRefs ::
    "catalog_faults \<Rightarrow> catalog \<Rightarrow> string list \<Rightarrow> string \<Rightarrow> string \<Rightarrow> string \<Rightarrow> catalog_error + ref_comparison" where
  "CompareRefs fault db principals libraryID base0 head0 =
     (let baseRef = trim_space base0; headRef = trim_space head0 in
      if baseRef = [] \<or> headRef = [] \<or> baseRef = headRef then Inl DistinctRefsRequired
      else case authorizedRepository fault db principals libraryID baseRef of
        Inl err \<Rightarrow> Inl err
      | Inr (repositoryID, baseID, _) \<Rightarrow>
          (if fault QueryRefs then Inl QueryFailed
           else if length (remdups (filter (\<lambda>r. r = baseRef \<or> r = headRef)
                  (map snd (filter (\<lambda>r. fst r = repositoryID) (c_refs db))))) \<noteq> 2 then Inl BothRefsIndexed
           else if fault (LoadRef baseRef) \<or> fault (LoadRef headRef) then Inl QueryFailed
           else let before = load_ref db repositoryID baseID baseRef; after = load_ref db repositoryID baseID headRef in
             if before = [] \<and> after = [] then Inl RefsUnavailable
             else Inr \<lparr>rc_LibraryID = baseID, rc_BaseRef = baseRef, rc_HeadRef = headRef,
               rc_Changes = sort_key (\<lambda>c. (sc_FilePath c, sc_Name c)) (ref_changes before after)\<rparr>))"

definition dependent_key :: "DependencyResult \<Rightarrow> string \<times> string \<times> string \<times> int" where
  "dependent_key d = (dr_FilePath d, dr_FromSymbol d, dr_Target d, dr_LineNumber d)"

definition add_dependents :: "DependencyResult list \<Rightarrow> DependencyResult list \<Rightarrow> DependencyResult list" where
  "add_dependents results out =
     fold (\<lambda>d out. if dependent_key d \<in> dependent_key ` set out then out else out @ [d]) results out"

fun trace_changes ::
    "(string \<Rightarrow> int \<Rightarrow> catalog_error + DependencyResult list) \<Rightarrow> nat \<Rightarrow> symbol_change list \<Rightarrow> DependencyResult list
     \<Rightarrow> catalog_error + DependencyResult list" where
  "trace_changes trace limit [] out = Inr out"
| "trace_changes trace limit (c # cs) out =
     (if limit \<le> length out then Inr out
      else case trace (sc_Name c) (int (limit - length out)) of
        Inl err \<Rightarrow> Inl err
      | Inr results \<Rightarrow> trace_changes trace limit cs (add_dependents results out))"

definition ChangeImpact ::
    "engine \<Rightarrow> catalog_faults \<Rightarrow> catalog \<Rightarrow> string list \<Rightarrow> string \<Rightarrow> string \<Rightarrow> string \<Rightarrow> int \<Rightarrow> catalog_error + ChangeImpact" where
  "ChangeImpact e fault db principals libraryID baseRef headRef limit =
     (case CompareRefs fault db principals libraryID baseRef headRef of
        Inl err \<Rightarrow> Inl err
      | Inr comparison \<Rightarrow>
          (case trace_changes (TraceDependencies e fault db principals libraryID headRef) (within_or limit 200 100)
                  (rc_Changes comparison) [] of
             Inl err \<Rightarrow> Inl err
           | Inr dependents \<Rightarrow> Inr \<lparr>ci_Comparison = comparison, ci_Dependents = dependents\<rparr>))"

section \<open>Dependents in every repository\<close>

text \<open>A row that several permission rows match is read once for each of them.\<close>

definition dependent_rows ::
    "engine \<Rightarrow> catalog \<Rightarrow> string list \<Rightarrow> string \<Rightarrow> string \<Rightarrow> (dependency_row \<times> catalog_repo) list" where
  "dependent_rows e db principals target sourceType =
     concat (map (\<lambda>(d, r). replicate (repositoryACL principals db r) (d, r))
       (join_repo (\<lambda>r. readable_repo principals db r \<and> (sourceType = [] \<or> cr_source r = sourceType)) de_repo db
         (filter (\<lambda>d. like e (''%'' @ target @ ''%'') (de_target d)) (c_dependencies db))))"

definition dependent_result :: "dependency_row \<times> catalog_repo \<Rightarrow> DependentResult" where
  "dependent_result = (\<lambda>(d, r). \<lparr>dp_LibraryID = cr_library r, dp_SourceType = cr_source r, dp_Ref = de_ref d,
     dp_CommitID = de_commit d, dp_FilePath = de_path d, dp_FromSymbol = de_from d, dp_Target = de_target d,
     dp_Kind = de_kind d, dp_LineNumber = de_line d\<rparr>)"

definition FindDependents ::
    "engine \<Rightarrow> catalog_faults \<Rightarrow> catalog \<Rightarrow> string list \<Rightarrow> string \<Rightarrow> string \<Rightarrow> int \<Rightarrow> catalog_error + DependentSearch" where
  "FindDependents e fault db principals target0 sourceType limit =
     (let target = trim_space target0 in
      if target = [] then Inl TargetRequired
      else if principals = [] then Inr \<lparr>ds_Target = target, ds_Dependents = [], ds_Repositories = []\<rparr>
      else if fault QueryDependents then Inl QueryFailed
      else let items = map dependent_result (take (within_or limit 300 100)
               (sort_key (\<lambda>(d, r). (if lower_sql e (de_target d) = lower_sql e target then 0 else 1 :: nat,
                   collation e (cr_library r), collation e (de_path d), de_line d))
                 (dependent_rows e db principals target sourceType)))
      in Inr \<lparr>ds_Target = target, ds_Dependents = items, ds_Repositories = sort (remdups (map dp_LibraryID items))\<rparr>)"

section \<open>Maps of a repository\<close>

definition conventionFileNames :: "string list" where
  "conventionFileNames = [''agents.md'', ''claude.md'', ''contributing.md'', ''codeowners'', ''readme.md'',
     ''architecture.md'', ''adr.md'', ''conventions.md'', ''style-guide.md'', ''styleguide.md'', ''makefile'',
     ''dockerfile'', ''.editorconfig'', ''.golangci.yml'', ''.golangci.yaml'', ''.eslintrc.json'']"

text \<open>SQL's \<^verbatim>\<open>LENGTH\<close> counts runes.\<close>

definition sql_length :: "string \<Rightarrow> nat" where
  "sql_length s = length (filter rune_start s)"

definition is_convention :: "file_row \<Rightarrow> bool" where
  "is_convention f \<longleftrightarrow> to_lower (fl_base f) \<in> set conventionFileNames \<or> contains_str (to_lower (fl_path f)) ''/adr/''
     \<or> contains_str (to_lower (fl_path f)) ''docs/architecture''"

definition conventionFiles :: "catalog_faults \<Rightarrow> catalog \<Rightarrow> string \<Rightarrow> string \<Rightarrow> string list" where
  "conventionFiles fault db repositoryID ref =
     (if fault QueryFiles then []
      else take 20 (map fl_path (filter is_convention (take 5000
        (sort_key (\<lambda>f. (sql_length (fl_path f), fl_path f))
          (filter (\<lambda>f. fl_repo f = repositoryID \<and> fl_ref f = ref) (c_files db)))))))"

definition stackListLimit :: nat where "stackListLimit = 25"

definition direct_packages :: "catalog \<Rightarrow> string \<Rightarrow> string \<Rightarrow> package_row list" where
  "direct_packages db repositoryID ref =
     filter (\<lambda>p. pk_repo p = repositoryID \<and> pk_ref p = ref \<and> pk_scope p \<noteq> ''resolved'' \<and> pk_scope p \<noteq> ''transitive'')
       (c_packages db)"

definition repositoryStack :: "catalog_faults \<Rightarrow> catalog \<Rightarrow> string \<Rightarrow> string \<Rightarrow> StackEntry list \<times> nat" where
  "repositoryStack fault db repositoryID ref =
     (let total = (if fault CountPackages then 0 else length (direct_packages db repositoryID ref)) in
      if total = 0 then ([], 0)
      else if fault QueryPackages then ([], total)
      else (map (\<lambda>p. \<lparr>se_Ecosystem = pk_ecosystem p, se_Name = pk_name p, se_Version = pk_version p\<rparr>)
              (take stackListLimit (sort_key (\<lambda>p. (pk_ecosystem p, pk_name p)) (direct_packages db repositoryID ref))), total))"

text \<open>The map's own authorisation is that of \<^verbatim>\<open>authorizedRepository\<close>, written out again.\<close>

definition RepositoryMap_of ::
    "catalog_faults \<Rightarrow> catalog \<Rightarrow> string list \<Rightarrow> string \<Rightarrow> string \<Rightarrow> catalog_error + RepositoryMap" where
  "RepositoryMap_of fault db principals libraryID requestedRef =
     (case splitLibraryID libraryID of
        None \<Rightarrow> Inl (unavailable fault db principals ''library'')
      | Some (baseID, version) \<Rightarrow>
          (if principals = [] then Inl (unavailable fault db principals ''library'')
           else case (if fault Authorize then None else library_repo principals db baseID) of
             None \<Rightarrow> Inl (unavailable fault db principals ''library'')
           | Some r \<Rightarrow>
               (let ref = chosen_ref requestedRef version r in
                if fault QueryMap then Inl QueryFailed
                else case List.find (\<lambda>m. mp_repo m = cr_id r \<and> mp_ref m = ref) (c_maps db) of
                  None \<Rightarrow> Inl MapUnavailable
                | Some m \<Rightarrow> Inr \<lparr>rm_LibraryID = baseID, rm_Ref = ref, rm_CommitID = mp_commit m,
                    rm_SummaryJSON = mp_summary m, rm_Conventions = conventionFiles fault db (cr_id r) ref,
                    rm_Stack = fst (repositoryStack fault db (cr_id r) ref),
                    rm_StackTotal = snd (repositoryStack fault db (cr_id r) ref)\<rparr>)))"

section \<open>Why a file was not found\<close>

definition file_rows :: "engine \<Rightarrow> catalog \<Rightarrow> string list \<Rightarrow> string \<Rightarrow> (file_row \<times> catalog_repo) list" where
  "file_rows e db principals filePath =
     join_repo (readable_repo principals db) fl_repo db
       (filter (\<lambda>f. lower_sql e (fl_path f) = lower_sql e filePath) (c_files db))"

definition refsHolding :: "engine \<Rightarrow> catalog_faults \<Rightarrow> catalog \<Rightarrow> string list \<Rightarrow> string \<Rightarrow> string \<Rightarrow> string list option" where
  "refsHolding e fault db principals filePath baseID =
     (if fault RefsHolding then None
      else Some (take 5 (sort_key (collation e) (remdups (map (\<lambda>(f, r). fl_ref f)
        (filter (\<lambda>(f, r). cr_library r = baseID) (file_rows e db principals filePath)))))))"

definition librariesHolding :: "engine \<Rightarrow> catalog_faults \<Rightarrow> catalog \<Rightarrow> string list \<Rightarrow> string \<Rightarrow> string list option" where
  "librariesHolding e fault db principals filePath =
     (if fault LibrariesHolding then None
      else Some (take 5 (sort_key (collation e) (remdups (map (\<lambda>(f, r). cr_library r) (file_rows e db principals filePath))))))"

definition noFileReason ::
    "engine \<Rightarrow> catalog_faults \<Rightarrow> catalog \<Rightarrow> string list \<Rightarrow> string \<Rightarrow> string \<Rightarrow> string \<Rightarrow> catalog_error" where
  "noFileReason e fault db principals filePath libraryID ref =
     (case systemicReason fault db principals of
        Some err \<Rightarrow> err
      | None \<Rightarrow>
          (let elsewhere = (case librariesHolding e fault db principals filePath of None \<Rightarrow> [] | Some ls \<Rightarrow> ls) in
           if libraryID \<noteq> [] then
             (case splitLibraryID libraryID of
                None \<Rightarrow> LibraryIDForm
              | Some (base, _) \<Rightarrow>
                  (if \<not> fault CountVisible \<and> library_repo principals db base = None then NoSuchRepository base
                   else let refs = (case refsHolding e fault db principals filePath base of None \<Rightarrow> [] | Some rs \<Rightarrow> rs) in
                     if refs \<noteq> [] then (if ref \<noteq> [] then OnOtherRef base ref refs else NotOnDefaultBranch base refs)
                     else if elsewhere \<noteq> [] then InOtherLibraries base elsewhere
                     else NotIndexedIn base))
           else if elsewhere \<noteq> [] then NotOnDefaultBranch [] elsewhere
           else NoRepositoryContains))"

section \<open>What a caller can see of the catalogue\<close>

text \<open>
  The part of the tables that belongs to the repositories the caller may read. Of the
  permission rows only those that match the caller are left.
\<close>

definition readable_ids :: "string list \<Rightarrow> catalog \<Rightarrow> string set" where
  "readable_ids principals db = cr_id ` set (filter (readable_repo principals db) (c_repos db))"

definition visible_part :: "string list \<Rightarrow> catalog \<Rightarrow> catalog" where
  "visible_part principals db =
     (let ids = readable_ids principals db in
      \<lparr>c_repos = filter (readable_repo principals db) (c_repos db),
       c_permissions = filter (\<lambda>(i, p). i \<in> ids \<and> matches_principal principals p) (c_permissions db),
       c_symbols = filter (\<lambda>s. sy_repo s \<in> ids) (c_symbols db),
       c_dependencies = filter (\<lambda>d. de_repo d \<in> ids) (c_dependencies db),
       c_files = filter (\<lambda>f. fl_repo f \<in> ids) (c_files db),
       c_contents = filter (\<lambda>c. ct_repo c \<in> ids) (c_contents db),
       c_packages = filter (\<lambda>p. pk_repo p \<in> ids) (c_packages db),
       c_maps = filter (\<lambda>m. mp_repo m \<in> ids) (c_maps db),
       c_refs = filter (\<lambda>r. fst r \<in> ids) (c_refs db)\<rparr>)"

lemma visible_sel:
  "c_repos (visible_part p db) = filter (readable_repo p db) (c_repos db)"
  "c_permissions (visible_part p db) = filter (\<lambda>(i, q). i \<in> readable_ids p db \<and> matches_principal p q) (c_permissions db)"
  "c_symbols (visible_part p db) = filter (\<lambda>s. sy_repo s \<in> readable_ids p db) (c_symbols db)"
  "c_dependencies (visible_part p db) = filter (\<lambda>d. de_repo d \<in> readable_ids p db) (c_dependencies db)"
  "c_files (visible_part p db) = filter (\<lambda>f. fl_repo f \<in> readable_ids p db) (c_files db)"
  "c_contents (visible_part p db) = filter (\<lambda>c. ct_repo c \<in> readable_ids p db) (c_contents db)"
  "c_packages (visible_part p db) = filter (\<lambda>k. pk_repo k \<in> readable_ids p db) (c_packages db)"
  "c_maps (visible_part p db) = filter (\<lambda>m. mp_repo m \<in> readable_ids p db) (c_maps db)"
  "c_refs (visible_part p db) = filter (\<lambda>r. fst r \<in> readable_ids p db) (c_refs db)"
  by (simp_all add: visible_part_def Let_def)

text \<open>Looking for what is among the visible rows finds the same with and without the others.\<close>

lemma filter_absorb: "(\<And>x. P x \<Longrightarrow> Q x) \<Longrightarrow> filter P (filter Q xs) = filter P xs"
  by (induction xs) auto

lemma find_absorb: "(\<And>x. P x \<Longrightarrow> Q x) \<Longrightarrow> List.find P (filter Q xs) = List.find P xs"
  by (induction xs) auto

lemma concat_map_absorb: "(\<And>x. \<not> Q x \<Longrightarrow> f x = []) \<Longrightarrow> concat (map f (filter Q xs)) = concat (map f xs)"
  by (induction xs) auto

lemma acl_visible:
  assumes "r \<in> set (c_repos db)" "readable_repo p db r"
  shows "repositoryACL p (visible_part p db) r = repositoryACL p db r"
proof -
  have "cr_id r \<in> readable_ids p db" using assms by (simp add: readable_ids_def)
  then have "filter (\<lambda>(i, q). i = cr_id r \<and> matches_principal p q) (c_permissions (visible_part p db))
      = filter (\<lambda>(i, q). i = cr_id r \<and> matches_principal p q) (c_permissions db)"
    unfolding visible_sel by (intro filter_absorb) auto
  then show ?thesis by (simp add: repositoryACL_def)
qed

lemma readable_visible:
  "filter (\<lambda>r. R r \<and> readable_repo p (visible_part p db) r) (c_repos (visible_part p db))
     = filter (\<lambda>r. R r \<and> readable_repo p db r) (c_repos db)"
proof -
  have "readable_repo p (visible_part p db) r = readable_repo p db r" if "r \<in> set (c_repos (visible_part p db))" for r
    using that acl_visible [of r db p] by (simp add: visible_sel readable_repo_def)
  then have "filter (\<lambda>r. R r \<and> readable_repo p (visible_part p db) r) (c_repos (visible_part p db))
      = filter (\<lambda>r. R r \<and> readable_repo p db r) (c_repos (visible_part p db))"
    by (intro filter_cong) auto
  then show ?thesis unfolding visible_sel(1) by (auto intro: filter_cong)
qed

lemma library_repo_visible [simp]: "library_repo p (visible_part p db) b = library_repo p db b"
proof -
  have "List.find (\<lambda>r. cr_library r = b \<and> readable_repo p db' r) rs =
      (case filter (\<lambda>r. cr_library r = b \<and> readable_repo p db' r) rs of [] \<Rightarrow> None | r # _ \<Rightarrow> Some r)" for db' rs
    by (induction rs) auto
  then show ?thesis unfolding library_repo_def readable_visible by (simp only: readable_visible)
qed

lemma library_repo_readable:
  "library_repo p db b = Some r \<Longrightarrow> cr_id r \<in> readable_ids p db \<and> cr_library r = b \<and> r \<in> set (c_repos db) \<and> readable_repo p db r"
  by (auto simp: library_repo_def readable_ids_def dest!: find_SomeD)

text \<open>A join that asks for a readable repository sees only visible rows.\<close>

lemma join_visible:
  "join_repo (\<lambda>r. readable_repo p (visible_part p db) r \<and> R r) repo_of (visible_part p db) (filter (\<lambda>x. repo_of x \<in> readable_ids p db) rows)
     = join_repo (\<lambda>r. readable_repo p db r \<and> R r) repo_of db rows"
proof -
  have same: "filter (\<lambda>r. cr_id r = i \<and> readable_repo p (visible_part p db) r \<and> R r) (c_repos (visible_part p db))
      = filter (\<lambda>r. cr_id r = i \<and> readable_repo p db r \<and> R r) (c_repos db)" for i
    using readable_visible [of "\<lambda>r. cr_id r = i \<and> R r" p db] by (simp add: conj_ac)
  have none: "filter (\<lambda>r. cr_id r = i \<and> readable_repo p db r \<and> R r) (c_repos db) = []" if "i \<notin> readable_ids p db" for i
    using that by (auto simp: readable_ids_def filter_empty_conv)
  show ?thesis unfolding join_repo_def same by (rule concat_map_absorb) (simp add: none)
qed

lemma filter_swap: "filter P (filter Q xs) = filter Q (filter P xs)"
  by (simp add: conj_commute)

lemma symbol_hits_visible: "symbol_hits e (visible_part p db) p base ref query kind limit = symbol_hits e db p base ref query kind limit"
  unfolding symbol_hits_def visible_sel(3) filter_swap [of _ "\<lambda>s. sy_repo s \<in> readable_ids p db"] join_visible ..

lemma FindSymbols_visible: "FindSymbols e fault (visible_part p db) p library ref query kind limit = FindSymbols e fault db p library ref query kind limit"
  unfolding FindSymbols_def symbol_hits_visible ..

text \<open>A caller who can read anything is told nothing about the rest by an error either.\<close>

definition reads_something :: "string list \<Rightarrow> catalog \<Rightarrow> bool" where
  "reads_something p db \<longleftrightarrow> filter (readable_repo p db) (c_repos db) \<noteq> []"

lemma unavailable_visible:
  assumes "reads_something p db"
  shows "systemicReason fault (visible_part p db) p = systemicReason fault db p"
    and "unavailable fault (visible_part p db) p noun = unavailable fault db p noun"
proof -
  have "filter cr_enabled (c_repos db) \<noteq> []"
    using assms by (auto simp: reads_something_def readable_repo_def filter_empty_conv)
  moreover have "filter cr_enabled (c_repos (visible_part p db)) \<noteq> []"
    using assms by (auto simp: reads_something_def readable_repo_def filter_empty_conv visible_sel(1))
  moreover have "filter (readable_repo p (visible_part p db)) (c_repos (visible_part p db)) = filter (readable_repo p db) (c_repos db)"
    using readable_visible [of "\<lambda>_. True" p db] by simp
  ultimately show "systemicReason fault (visible_part p db) p = systemicReason fault db p"
    unfolding systemicReason_def by simp
  then show "unavailable fault (visible_part p db) p noun = unavailable fault db p noun" by (simp add: unavailable_def)
qed

lemma authorized_visible:
  "reads_something p db \<Longrightarrow> authorizedRepository fault (visible_part p db) p library ref = authorizedRepository fault db p library ref"
  unfolding authorizedRepository_def library_repo_visible by (simp only: unavailable_visible(2))

lemma authorized_readable:
  "authorizedRepository fault db p library ref = Inr (i, b, r) \<Longrightarrow> i \<in> readable_ids p db"
  using library_repo_readable by (fastforce simp: authorizedRepository_def split: option.splits if_splits)

lemma TraceDependencies_visible:
  assumes "reads_something p db"
  shows "TraceDependencies e fault (visible_part p db) p library ref symbol limit = TraceDependencies e fault db p library ref symbol limit"
proof (cases "authorizedRepository fault db p library ref")
  case (Inl err)
  show ?thesis unfolding TraceDependencies_def authorized_visible [OF assms] Inl sum.case ..
next
  case (Inr a)
  obtain i b r where a: "a = (i, b, r)" by (cases a)
  then have "i \<in> readable_ids p db" using Inr authorized_readable by blast
  then have rows: "filter (\<lambda>d. de_repo d = i \<and> de_ref d = r \<and> touches_symbol e s d) (c_dependencies (visible_part p db))
      = filter (\<lambda>d. de_repo d = i \<and> de_ref d = r \<and> touches_symbol e s d) (c_dependencies db)" for s
    unfolding visible_sel by (intro filter_absorb) auto
  show ?thesis unfolding TraceDependencies_def authorized_visible [OF assms] Inr a sum.case prod.case rows ..
qed

lemma loaded_symbol_visible:
  "sy_repo s \<in> readable_ids p db \<Longrightarrow> loaded_symbol (visible_part p db) b s = loaded_symbol db b s"
  unfolding loaded_symbol_def visible_sel by (subst find_absorb) auto

lemma load_ref_visible:
  assumes "i \<in> readable_ids p db"
  shows "load_ref (visible_part p db) i b ref = load_ref db i b ref"
proof -
  have rows: "filter (\<lambda>s. sy_repo s = i \<and> sy_ref s = ref) (c_symbols (visible_part p db))
      = filter (\<lambda>s. sy_repo s = i \<and> sy_ref s = ref) (c_symbols db)"
    unfolding visible_sel using assms by (intro filter_absorb) auto
  define ss where "ss = sort_key (\<lambda>s. (sy_qualified s, sy_path s, sy_start s))
    (filter (\<lambda>s. sy_repo s = i \<and> sy_ref s = ref) (c_symbols db))"
  have rows': "map (loaded_symbol (visible_part p db) b) ss = map (loaded_symbol db b) ss"
    by (rule map_cong [OF refl], rule loaded_symbol_visible) (use assms in \<open>auto simp: ss_def\<close>)
  show ?thesis unfolding load_ref_def rows ss_def [symmetric] rows' ..
qed

lemma CompareRefs_visible:
  assumes "reads_something p db"
  shows "CompareRefs fault (visible_part p db) p library base head = CompareRefs fault db p library base head"
proof (cases "authorizedRepository fault db p library (trim_space base)")
  case (Inl err)
  show ?thesis unfolding CompareRefs_def authorized_visible [OF assms] Let_def Inl sum.case ..
next
  case (Inr a)
  obtain i b r where a: "a = (i, b, r)" by (cases a)
  then have i: "i \<in> readable_ids p db" using Inr authorized_readable by blast
  then have refs: "filter (\<lambda>r. fst r = i) (c_refs (visible_part p db)) = filter (\<lambda>r. fst r = i) (c_refs db)"
    unfolding visible_sel by (intro filter_absorb) auto
  show ?thesis
    unfolding CompareRefs_def authorized_visible [OF assms] Let_def Inr a sum.case prod.case refs load_ref_visible [OF i] ..
qed

lemma ChangeImpact_visible:
  assumes "reads_something p db"
  shows "ChangeImpact e fault (visible_part p db) p library base head limit = ChangeImpact e fault db p library base head limit"
proof -
  have "TraceDependencies e fault (visible_part p db) p library head = TraceDependencies e fault db p library head"
    by (intro ext TraceDependencies_visible assms)
  then show ?thesis unfolding ChangeImpact_def CompareRefs_visible [OF assms] by (simp only:)
qed

lemma join_repo_in: "(x, r) \<in> set (join_repo P repo_of db rows) \<Longrightarrow> r \<in> set (c_repos db) \<and> P r \<and> cr_id r = repo_of x"
  by (auto simp: join_repo_def)

lemma dependent_rows_visible:
  "dependent_rows e (visible_part p db) p target source = dependent_rows e db p target source"
proof -
  define js where "js = join_repo (\<lambda>r. readable_repo p db r \<and> (source = [] \<or> cr_source r = source)) de_repo db
    (filter (\<lambda>d. like e (''%'' @ target @ ''%'') (de_target d)) (c_dependencies db))"
  have copies: "map (\<lambda>(d, r). replicate (repositoryACL p (visible_part p db) r) (d, r)) js
      = map (\<lambda>(d, r). replicate (repositoryACL p db r) (d, r)) js"
    by (rule map_cong [OF refl]) (use acl_visible in \<open>auto simp: js_def dest: join_repo_in\<close>)
  show ?thesis
    unfolding dependent_rows_def visible_sel(4) filter_swap [of _ "\<lambda>d. de_repo d \<in> readable_ids p db"] join_visible
      js_def [symmetric] copies ..
qed

lemma FindDependents_visible:
  "FindDependents e fault (visible_part p db) p target source limit = FindDependents e fault db p target source limit"
  unfolding FindDependents_def dependent_rows_visible ..

lemma repository_parts_visible:
  assumes "i \<in> readable_ids p db"
  shows "conventionFiles fault (visible_part p db) i ref = conventionFiles fault db i ref"
    and "repositoryStack fault (visible_part p db) i ref = repositoryStack fault db i ref"
    and "List.find (\<lambda>m. mp_repo m = i \<and> mp_ref m = ref) (c_maps (visible_part p db))
       = List.find (\<lambda>m. mp_repo m = i \<and> mp_ref m = ref) (c_maps db)"
proof -
  have "filter (\<lambda>f. fl_repo f = i \<and> fl_ref f = ref) (c_files (visible_part p db))
      = filter (\<lambda>f. fl_repo f = i \<and> fl_ref f = ref) (c_files db)"
    unfolding visible_sel using assms by (intro filter_absorb) auto
  then show "conventionFiles fault (visible_part p db) i ref = conventionFiles fault db i ref"
    by (simp add: conventionFiles_def)
  have packages: "direct_packages (visible_part p db) i ref = direct_packages db i ref"
    unfolding direct_packages_def visible_sel using assms by (intro filter_absorb) auto
  show "repositoryStack fault (visible_part p db) i ref = repositoryStack fault db i ref"
    unfolding repositoryStack_def packages ..
  show "List.find (\<lambda>m. mp_repo m = i \<and> mp_ref m = ref) (c_maps (visible_part p db))
       = List.find (\<lambda>m. mp_repo m = i \<and> mp_ref m = ref) (c_maps db)"
    unfolding visible_sel using assms by (intro find_absorb) auto
qed

lemma RepositoryMap_visible:
  assumes "reads_something p db"
  shows "RepositoryMap_of fault (visible_part p db) p library ref = RepositoryMap_of fault db p library ref"
proof (cases "splitLibraryID library")
  case None
  show ?thesis unfolding RepositoryMap_of_def unavailable_visible(2) [OF assms] None option.case ..
next
  case (Some bv)
  obtain b v where bv: "bv = (b, v)" by (cases bv)
  show ?thesis
  proof (cases "library_repo p db b")
    case None
    show ?thesis unfolding RepositoryMap_of_def unavailable_visible(2) [OF assms] Some bv library_repo_visible
      option.case prod.case None if_cancel ..
  next
    case (Some r)
    then have i: "cr_id r \<in> readable_ids p db" using library_repo_readable by blast
    show ?thesis
    proof (cases "fault Authorize")
      case True
      show ?thesis
        unfolding RepositoryMap_of_def unavailable_visible(2) [OF assms] \<open>splitLibraryID library = Some bv\<close> bv
          option.case prod.case if_P [OF True] ..
    next
      case False
      show ?thesis
        unfolding RepositoryMap_of_def unavailable_visible(2) [OF assms] \<open>splitLibraryID library = Some bv\<close> bv
          library_repo_visible Some option.case prod.case if_not_P [OF False] Let_def repository_parts_visible [OF i] ..
    qed
  qed
qed

lemma file_rows_visible: "file_rows e (visible_part p db) p path = file_rows e db p path"
  unfolding file_rows_def visible_sel(5) filter_swap [of _ "\<lambda>f. fl_repo f \<in> readable_ids p db"]
  by (rule join_visible [of p db "\<lambda>_. True" fl_repo, unfolded simp_thms])

lemma noFileReason_visible:
  assumes "reads_something p db"
  shows "noFileReason e fault (visible_part p db) p path library ref = noFileReason e fault db p path library ref"
  unfolding noFileReason_def unavailable_visible(1) [OF assms] refsHolding_def librariesHolding_def file_rows_visible
    library_repo_visible ..

text \<open>A symbol that was found belongs to a readable repository, and only one repository has its library id.\<close>

lemma symbol_hits_readable:
  assumes "s \<in> set (symbol_hits e db p base ref query kind limit)"
  shows "\<exists>r \<in> set (c_repos db). readable_repo p db r \<and> sr_LibraryID s = cr_library r"
proof -
  obtain row r where "(row, r) \<in> set (join_repo (\<lambda>r. readable_repo p db r \<and>
      (case base of None \<Rightarrow> True | Some b \<Rightarrow> cr_library r = b)) sy_repo db
      (filter (symbol_matches e query ref kind) (c_symbols db)))" "s = symbol_result r row"
    using assms by (auto simp: symbol_hits_def dest!: in_set_takeD)
  then show ?thesis using join_repo_in by (fastforce simp: symbol_result_def)
qed

lemma FindSymbols_readable:
  "FindSymbols e fault db p library ref query kind limit = Inr ss \<Longrightarrow> s \<in> set ss
     \<Longrightarrow> \<exists>r \<in> set (c_repos db). readable_repo p db r \<and> sr_LibraryID s = cr_library r"
  by (auto simp: FindSymbols_def Let_def split: if_splits option.splits dest: symbol_hits_readable)

lemma find_unique_library:
  assumes "distinct (map cr_library (c_repos db))" "r \<in> set (c_repos db)" "cr_library r = b"
  shows "List.find (\<lambda>r. cr_library r = b) (c_repos db) = Some r"
proof -
  have "List.find (\<lambda>r. cr_library r = b) rs = Some r" if "distinct (map cr_library rs)" "r \<in> set rs" for rs
    using that assms(3) by (induction rs) force+
  then show ?thesis using assms(1,2) by blast
qed

lemma selected_symbol_in: "results \<noteq> [] \<Longrightarrow> selected_symbol symbol results \<in> set results"
  by (auto simp: selected_symbol_def split: option.splits dest!: find_SomeD)

lemma SymbolContext_visible:
  assumes "reads_something p db" "distinct (map cr_library (c_repos db))"
  shows "SymbolContext e fault (visible_part p db) p library ref symbol = SymbolContext e fault db p library ref symbol"
proof (cases "FindSymbols e fault db p library ref symbol [] 20")
  case (Inl err)
  then show ?thesis by (simp add: SymbolContext_def FindSymbols_visible)
next
  case (Inr results)
  show ?thesis
  proof (cases "results = []")
    case True
    then show ?thesis using Inr by (simp add: SymbolContext_def FindSymbols_visible unavailable_visible(2) [OF assms(1)])
  next
    case False
    define selected where "selected = selected_symbol symbol results"
    obtain r where r: "r \<in> set (c_repos db)" "readable_repo p db r" "sr_LibraryID selected = cr_library r"
      using FindSymbols_readable [OF Inr selected_symbol_in [OF False, of symbol]] unfolding selected_def by blast
    have found: "List.find (\<lambda>r. cr_library r = sr_LibraryID selected) (c_repos db) = Some r"
      using find_unique_library [OF assms(2) r(1)] r(3) by simp
    have "distinct (map cr_library (c_repos (visible_part p db)))"
      using assms(2) by (simp add: visible_sel distinct_map_filter)
    then have found': "List.find (\<lambda>r. cr_library r = sr_LibraryID selected) (c_repos (visible_part p db)) = Some r"
      using find_unique_library [of "visible_part p db" r] r by (simp add: visible_sel)
    have "cr_id r \<in> readable_ids p db" using r by (simp add: readable_ids_def)
    then have contents: "symbol_contents (visible_part p db) (cr_id r) selected = symbol_contents db (cr_id r) selected"
      unfolding symbol_contents_def visible_sel by (subst filter_absorb) auto
    obtain a as where rs: "results = a # as" using False by (cases results) auto
    show ?thesis
    proof (cases "fault RepositoryOfLibrary")
      case True
      show ?thesis
        unfolding SymbolContext_def FindSymbols_visible Inr rs sum.case list.case Let_def if_P [OF True] option.case
          unavailable_visible(2) [OF assms(1)] ..
    next
      case False
      show ?thesis
        unfolding SymbolContext_def FindSymbols_visible Inr rs sum.case list.case Let_def if_not_P [OF False]
          selected_def [unfolded rs, symmetric] found found' option.case contents ..
    qed
  qed
qed

text \<open>
  C1: an answer depends on nothing that the caller may not read. For a caller who can read at
  least one repository, every catalogue query (errors included) gives the same result as on
  the part of the tables that belongs to the readable repositories; so rows of other
  repositories, whatever they hold, cannot be told from their absence.
\<close>

theorem answers_only_from_readable:
  assumes "reads_something p db" "distinct (map cr_library (c_repos db))"
  shows "FindSymbols e fault (visible_part p db) p library ref query kind limit
           = FindSymbols e fault db p library ref query kind limit \<and>
    SymbolContext e fault (visible_part p db) p library ref query = SymbolContext e fault db p library ref query \<and>
    TraceDependencies e fault (visible_part p db) p library ref query limit
      = TraceDependencies e fault db p library ref query limit \<and>
    CompareRefs fault (visible_part p db) p library ref head = CompareRefs fault db p library ref head \<and>
    ChangeImpact e fault (visible_part p db) p library ref head limit = ChangeImpact e fault db p library ref head limit \<and>
    FindDependents e fault (visible_part p db) p query source limit = FindDependents e fault db p query source limit \<and>
    RepositoryMap_of fault (visible_part p db) p library ref = RepositoryMap_of fault db p library ref \<and>
    noFileReason e fault (visible_part p db) p path library ref = noFileReason e fault db p path library ref"
  by (intro conjI FindSymbols_visible SymbolContext_visible TraceDependencies_visible CompareRefs_visible
      ChangeImpact_visible FindDependents_visible RepositoryMap_visible noFileReason_visible assms)

section \<open>Comparing refs\<close>

definition row_key :: "symbol_row \<Rightarrow> string \<times> string \<times> string" where
  "row_key s = (sy_qualified s, sy_kind s, sy_path s)"

definition change_key :: "symbol_change \<Rightarrow> string \<times> string \<times> string" where
  "change_key c = (sc_Name c, sc_Kind c, sc_FilePath c)"

definition in_ref :: "catalog \<Rightarrow> string \<Rightarrow> string \<Rightarrow> string \<times> string \<times> string \<Rightarrow> bool" where
  "in_ref db i ref key \<longleftrightarrow> (\<exists>s \<in> set (c_symbols db). sy_repo s = i \<and> sy_ref s = ref \<and> row_key s = key)"

lemma symbol_key_loaded [simp]: "symbol_key (loaded_symbol db b s) = row_key s"
  by (simp add: symbol_key_def loaded_symbol_def row_key_def)

lemma fold_update_keys:
  fixes k :: "'s \<Rightarrow> 'k"
  shows "dom (map_of (fold (\<lambda>s m. AList.update (k s) s m) ss m)) = dom (map_of m) \<union> k ` set ss"
  by (induction ss arbitrary: m) (auto simp: update_conv' dom_def)

lemma fold_update_distinct:
  "distinct (map fst m) \<Longrightarrow> distinct (map fst (fold (\<lambda>s m. AList.update (k s) s m) ss m))"
  by (induction ss arbitrary: m) (simp_all add: distinct_update)

lemma fold_update_own_key:
  "\<forall>x s. map_of m x = Some s \<longrightarrow> k s = x \<Longrightarrow>
     \<forall>x s. map_of (fold (\<lambda>s m. AList.update (k s) s m) ss m) x = Some s \<longrightarrow> k s = x"
proof (induction ss arbitrary: m)
  case (Cons t ss)
  have "\<forall>x s. map_of (AList.update (k t) t m) x = Some s \<longrightarrow> k s = x"
  proof (intro allI impI)
    fix x s
    assume "map_of (AList.update (k t) t m) x = Some s"
    then have "(x = k t \<and> s = t) \<or> map_of m x = Some s" by (auto simp: update_conv' split: if_splits)
    then show "k s = x" using Cons.prems by blast
  qed
  from Cons.IH [OF this] show ?case unfolding fold_simps .
qed simp

lemma in_map_filter: "y \<in> set (List.map_filter f xs) \<longleftrightarrow> (\<exists>x \<in> set xs. f x = Some y)"
  by (induction xs) (auto split: option.splits)

lemma load_ref_facts:
  shows "distinct (map fst (load_ref db i b ref))"
    and "map_of (load_ref db i b ref) x = Some s \<Longrightarrow> symbol_key s = x"
    and "(x \<in> dom (map_of (load_ref db i b ref))) = in_ref db i ref x"
proof -
  define ss where "ss = map (loaded_symbol db b) (sort_key (\<lambda>s. (sy_qualified s, sy_path s, sy_start s))
    (filter (\<lambda>s. sy_repo s = i \<and> sy_ref s = ref) (c_symbols db)))"
  have load: "load_ref db i b ref = fold (\<lambda>s m. AList.update (symbol_key s) s m) ss []"
    by (simp add: load_ref_def ss_def)
  show "distinct (map fst (load_ref db i b ref))" unfolding load by (rule fold_update_distinct) simp
  have "\<forall>x s. map_of ([] :: ((string \<times> string \<times> string) \<times> SymbolResult) list) x = Some s \<longrightarrow> symbol_key s = x" by simp
  from fold_update_own_key [OF this, of ss]
  show "map_of (load_ref db i b ref) x = Some s \<Longrightarrow> symbol_key s = x" unfolding load by blast
  have "symbol_key ` set ss = row_key ` {s \<in> set (c_symbols db). sy_repo s = i \<and> sy_ref s = ref}"
    by (simp add: ss_def image_image)
  then show "(x \<in> dom (map_of (load_ref db i b ref))) = in_ref db i ref x"
    unfolding load fold_update_keys by (auto simp: in_ref_def)
qed

lemma change_keys [simp]:
  "change_key (removed_change s) = symbol_key s" "change_key (added_change s) = symbol_key s"
  "change_key (modified_change t s) = symbol_key s"
  "sc_Type (removed_change s) = ''removed''" "sc_Type (added_change s) = ''added''" "sc_Type (modified_change t s) = ''modified''"
  by (simp_all add: change_key_def removed_change_def added_change_def modified_change_def symbol_key_def)

lemma ref_changes_set:
  assumes "distinct (map fst before)" "distinct (map fst after)"
  shows "c \<in> set (ref_changes before after) \<longleftrightarrow>
    (\<exists>x old. map_of before x = Some old \<and> map_of after x = None \<and> c = removed_change old) \<or>
    (\<exists>x old cur. map_of before x = Some old \<and> map_of after x = Some cur \<and> ContentHashKey old \<noteq> ContentHashKey cur
       \<and> c = modified_change old cur) \<or>
    (\<exists>x cur. map_of before x = None \<and> map_of after x = Some cur \<and> c = added_change cur)"
  using assms
  by (fastforce simp: ref_changes_def in_map_filter map_of_eq_Some_iff split: option.splits if_splits)

lemma ref_changes_keys:
  assumes "distinct (map fst before)" "distinct (map fst after)"
  shows "(\<And>x s. map_of before x = Some s \<Longrightarrow> symbol_key s = x) \<Longrightarrow>
      (\<exists>ch \<in> set (ref_changes before after). sc_Type ch = ''removed'' \<and> change_key ch = key)
        \<longleftrightarrow> map_of before key \<noteq> None \<and> map_of after key = None"
    and "(\<And>x s. map_of after x = Some s \<Longrightarrow> symbol_key s = x) \<Longrightarrow>
      (\<exists>ch \<in> set (ref_changes before after). sc_Type ch = ''added'' \<and> change_key ch = key)
        \<longleftrightarrow> map_of before key = None \<and> map_of after key \<noteq> None"
    and "(\<And>x s. map_of after x = Some s \<Longrightarrow> symbol_key s = x) \<Longrightarrow>
      (\<exists>ch \<in> set (ref_changes before after). sc_Type ch = ''modified'' \<and> change_key ch = key)
        \<longrightarrow> map_of before key \<noteq> None \<and> map_of after key \<noteq> None"
proof -
  define R where "R ch \<longleftrightarrow> (\<exists>x old. map_of before x = Some old \<and> map_of after x = None \<and> ch = removed_change old)" for ch
  define M where "M ch \<longleftrightarrow> (\<exists>x old cur. map_of before x = Some old \<and> map_of after x = Some cur
    \<and> ContentHashKey old \<noteq> ContentHashKey cur \<and> ch = modified_change old cur)" for ch
  define A where "A ch \<longleftrightarrow> (\<exists>x cur. map_of before x = None \<and> map_of after x = Some cur \<and> ch = added_change cur)" for ch
  have all: "ch \<in> set (ref_changes before after) \<longleftrightarrow> R ch \<or> M ch \<or> A ch" for ch
    unfolding R_def M_def A_def by (rule ref_changes_set [OF assms])
  have types: "R ch \<Longrightarrow> sc_Type ch = ''removed''" "M ch \<Longrightarrow> sc_Type ch = ''modified''" "A ch \<Longrightarrow> sc_Type ch = ''added''" for ch
    unfolding R_def M_def A_def by (elim exE conjE; simp)+
  have removed: "sc_Type ch = ''removed'' \<and> ch \<in> set (ref_changes before after) \<longleftrightarrow> R ch" for ch
    unfolding all using types by force
  have added: "sc_Type ch = ''added'' \<and> ch \<in> set (ref_changes before after) \<longleftrightarrow> A ch" for ch
    unfolding all using types by force
  have modified: "sc_Type ch = ''modified'' \<and> ch \<in> set (ref_changes before after) \<longleftrightarrow> M ch" for ch
    unfolding all using types by force
  show "(\<exists>ch \<in> set (ref_changes before after). sc_Type ch = ''removed'' \<and> change_key ch = key)
        \<longleftrightarrow> map_of before key \<noteq> None \<and> map_of after key = None" (is "?lhs \<longleftrightarrow> ?rhs")
    if keyed: "\<And>x s. map_of before x = Some s \<Longrightarrow> symbol_key s = x"
  proof
    assume ?lhs
    then obtain ch where "R ch" "change_key ch = key" using removed by blast
    then obtain x old where "map_of before x = Some old" "map_of after x = None" "symbol_key old = key" by (auto simp: R_def)
    then show ?rhs using keyed by (metis option.distinct(1))
  next
    assume ?rhs
    then obtain old where "map_of before key = Some old" "map_of after key = None" by blast
    then have "R (removed_change old)" "change_key (removed_change old) = key"
      unfolding R_def change_keys using keyed by blast+
    then show ?lhs using removed by blast
  qed
  show "(\<exists>ch \<in> set (ref_changes before after). sc_Type ch = ''added'' \<and> change_key ch = key)
        \<longleftrightarrow> map_of before key = None \<and> map_of after key \<noteq> None" (is "?lhs \<longleftrightarrow> ?rhs")
    if keyed: "\<And>x s. map_of after x = Some s \<Longrightarrow> symbol_key s = x"
  proof
    assume ?lhs
    then obtain ch where "A ch" "change_key ch = key" using added by blast
    then obtain x cur where "map_of before x = None" "map_of after x = Some cur" "symbol_key cur = key" by (auto simp: A_def)
    then show ?rhs using keyed by (metis option.distinct(1))
  next
    assume ?rhs
    then obtain cur where "map_of after key = Some cur" "map_of before key = None" by blast
    then have "A (added_change cur)" "change_key (added_change cur) = key"
      unfolding A_def change_keys using keyed by blast+
    then show ?lhs using added by blast
  qed
  show "(\<exists>ch \<in> set (ref_changes before after). sc_Type ch = ''modified'' \<and> change_key ch = key)
        \<longrightarrow> map_of before key \<noteq> None \<and> map_of after key \<noteq> None" (is "?lhs \<longrightarrow> ?rhs")
    if keyed: "\<And>x s. map_of after x = Some s \<Longrightarrow> symbol_key s = x"
  proof
    assume ?lhs
    then obtain ch where "M ch" "change_key ch = key" using modified by blast
    then obtain x old cur where "map_of before x = Some old" "map_of after x = Some cur" "symbol_key cur = key"
      by (auto simp: M_def)
    then show ?rhs using keyed by (metis option.distinct(1))
  qed
qed

text \<open>
  C38: a comparison of two refs misses no symbol and invents none. A symbol (its qualified name,
  kind and file) is reported as removed exactly if only the base ref has it, as added exactly
  if only the head ref has it, and as modified only if both have it; the changes are ordered
  by file and name, and the refs are those of one readable repository.
\<close>

theorem compare_refs_complete:
  assumes "CompareRefs fault db p library base head = Inr c"
  shows "\<exists>i \<in> readable_ids p db. \<forall>key.
    ((\<exists>ch \<in> set (rc_Changes c). sc_Type ch = ''removed'' \<and> change_key ch = key)
       \<longleftrightarrow> in_ref db i (rc_BaseRef c) key \<and> \<not> in_ref db i (rc_HeadRef c) key) \<and>
    ((\<exists>ch \<in> set (rc_Changes c). sc_Type ch = ''added'' \<and> change_key ch = key)
       \<longleftrightarrow> \<not> in_ref db i (rc_BaseRef c) key \<and> in_ref db i (rc_HeadRef c) key) \<and>
    ((\<exists>ch \<in> set (rc_Changes c). sc_Type ch = ''modified'' \<and> change_key ch = key)
       \<longrightarrow> in_ref db i (rc_BaseRef c) key \<and> in_ref db i (rc_HeadRef c) key) \<and>
    sorted (map (\<lambda>ch. (sc_FilePath ch, sc_Name ch)) (rc_Changes c))"
proof -
  obtain i b r0 where auth: "authorizedRepository fault db p library (trim_space base) = Inr (i, b, r0)"
    and c: "c = \<lparr>rc_LibraryID = b, rc_BaseRef = trim_space base, rc_HeadRef = trim_space head,
       rc_Changes = sort_key (\<lambda>c. (sc_FilePath c, sc_Name c))
         (ref_changes (load_ref db i b (trim_space base)) (load_ref db i b (trim_space head)))\<rparr>"
    using assms by (auto simp: CompareRefs_def Let_def split: if_splits sum.splits prod.splits)
  define before where "before = load_ref db i b (trim_space base)"
  define after where "after = load_ref db i b (trim_space head)"
  have changes: "set (rc_Changes c) = set (ref_changes before after)"
    by (simp add: c before_def after_def)
  have d: "distinct (map fst before)" "distinct (map fst after)"
    by (simp_all add: before_def after_def load_ref_facts(1))
  have kb: "map_of before x = Some s \<Longrightarrow> symbol_key s = x" and ka: "map_of after x = Some s \<Longrightarrow> symbol_key s = x" for x s
    unfolding before_def after_def by (rule load_ref_facts(2), assumption)+
  have ib: "in_ref db i (rc_BaseRef c) x \<longleftrightarrow> map_of before x \<noteq> None"
    and ia: "in_ref db i (rc_HeadRef c) x \<longleftrightarrow> map_of after x \<noteq> None" for x
    using load_ref_facts(3) [of x db i b "trim_space base"] load_ref_facts(3) [of x db i b "trim_space head"]
    unfolding c before_def after_def by (simp_all add: domIff)
  have "i \<in> readable_ids p db" using auth authorized_readable by blast
  moreover have "(\<exists>ch \<in> set (rc_Changes c). sc_Type ch = ''removed'' \<and> change_key ch = key)
       \<longleftrightarrow> in_ref db i (rc_BaseRef c) key \<and> \<not> in_ref db i (rc_HeadRef c) key" for key
    unfolding changes ib ia using ref_changes_keys(1) [OF d kb] by simp
  moreover have "(\<exists>ch \<in> set (rc_Changes c). sc_Type ch = ''added'' \<and> change_key ch = key)
       \<longleftrightarrow> \<not> in_ref db i (rc_BaseRef c) key \<and> in_ref db i (rc_HeadRef c) key" for key
    unfolding changes ib ia using ref_changes_keys(2) [OF d ka] by simp
  moreover have "(\<exists>ch \<in> set (rc_Changes c). sc_Type ch = ''modified'' \<and> change_key ch = key)
       \<longrightarrow> in_ref db i (rc_BaseRef c) key \<and> in_ref db i (rc_HeadRef c) key" for key
    unfolding changes ib ia using ref_changes_keys(3) [OF d ka] by simp
  moreover have "sorted (map (\<lambda>ch. (sc_FilePath ch, sc_Name ch)) (rc_Changes c))" by (simp add: c)
  ultimately show ?thesis by blast
qed

section \<open>The impact of a change\<close>

lemma within_or_range: "1 \<le> most \<Longrightarrow> 1 \<le> d \<Longrightarrow> d \<le> most \<Longrightarrow> 1 \<le> within_or limit most d \<and> int (within_or limit most d) \<le> most"
  by (auto simp: within_or_def)

lemma add_dependents_facts:
  assumes "distinct (map dependent_key out)"
  shows "distinct (map dependent_key (add_dependents rs out)) \<and> length (add_dependents rs out) \<le> length out + length rs
    \<and> set (add_dependents rs out) \<subseteq> set out \<union> set rs \<and> dependent_key ` set rs \<subseteq> dependent_key ` set (add_dependents rs out)
    \<and> set out \<subseteq> set (add_dependents rs out)"
  using assms
proof (induction rs arbitrary: out)
  case (Cons r rs)
  define out' where "out' = (if dependent_key r \<in> dependent_key ` set out then out else out @ [r])"
  have step: "add_dependents (r # rs) out = add_dependents rs out'" by (simp add: add_dependents_def out'_def)
  have "distinct (map dependent_key out')" using Cons.prems by (auto simp: out'_def)
  note IH = Cons.IH [OF this]
  have len: "length out' \<le> Suc (length out)" and sub: "set out' \<subseteq> insert r (set out)" "set out \<subseteq> set out'"
    and key: "dependent_key r \<in> dependent_key ` set out'" by (auto simp: out'_def)
  show ?case unfolding step using IH len sub key by (auto intro: order_trans)
qed (simp add: add_dependents_def)

lemma trace_changes_bounded:
  assumes "trace_changes trace limit cs out = Inr ds" "\<forall>n k rs. 1 \<le> k \<longrightarrow> trace n k = Inr rs \<longrightarrow> length rs \<le> nat k"
    and "distinct (map dependent_key out)" "length out \<le> limit"
  shows "distinct (map dependent_key ds) \<and> length ds \<le> limit"
  using assms(1,3,4)
proof (induction cs arbitrary: out)
  case (Cons c cs)
  show ?case
  proof (cases "limit \<le> length out")
    case False
    then obtain rs where rs: "trace (sc_Name c) (int (limit - length out)) = Inr rs"
      and rest: "trace_changes trace limit cs (add_dependents rs out) = Inr ds"
      using Cons.prems(1) by (auto split: sum.splits)
    have "1 \<le> int (limit - length out)" using False by simp
    then have "length rs \<le> limit - length out" using assms(2) rs by fastforce
    then show ?thesis using Cons.IH [OF rest] add_dependents_facts [OF Cons.prems(2), of rs] False by linarith
  qed (use Cons.prems in simp)
qed simp

lemma trace_length:
  assumes "TraceDependencies e fault db p library ref symbol limit = Inr rs" "1 \<le> limit" "limit \<le> 200"
  shows "length rs \<le> nat limit"
proof -
  have "within_or limit 200 50 = nat limit" using assms(2,3) by (simp add: within_or_def)
  then show ?thesis
    using assms(1) by (auto simp: TraceDependencies_def Let_def split: if_splits sum.splits prod.splits)
qed

text \<open>
  The impact of a change lists no dependent twice and never more of them than the limit,
  which is at most two hundred.
\<close>

theorem impact_bounded:
  assumes "ChangeImpact e fault db p library base head limit = Inr impact"
  shows "distinct (map dependent_key (ci_Dependents impact)) \<and>
    length (ci_Dependents impact) \<le> within_or limit 200 100 \<and> within_or limit 200 100 \<le> 200"
proof -
  obtain comparison ds where cs: "trace_changes (TraceDependencies e fault db p library head) (within_or limit 200 100)
      (rc_Changes comparison) [] = Inr ds" "impact = \<lparr>ci_Comparison = comparison, ci_Dependents = ds\<rparr>"
    using assms by (auto simp: ChangeImpact_def split: sum.splits)
  define trace where "trace = (\<lambda>n k. if k \<le> 200 then TraceDependencies e fault db p library head n k else Inr [])"
  have small: "within_or limit 200 100 \<le> 200" using within_or_range [of 200 100 limit] by simp
  have same: "trace_changes (TraceDependencies e fault db p library head) m xs out = trace_changes trace m xs out"
    if "m \<le> 200" for m xs out
    using that by (induction xs arbitrary: out) (auto simp: trace_def split: sum.splits)
  have "\<forall>n k rs. 1 \<le> k \<longrightarrow> trace n k = Inr rs \<longrightarrow> length rs \<le> nat k"
    unfolding trace_def by (auto intro: trace_length)
  then have "distinct (map dependent_key ds) \<and> length ds \<le> within_or limit 200 100"
    using trace_changes_bounded [of trace "within_or limit 200 100" "rc_Changes comparison" "[]" ds] cs(1) same [OF small] by simp
  then show ?thesis using small cs(2) by simp
qed

section \<open>Witnesses and a corner\<close>

definition demo_engine :: engine where
  "demo_engine = \<lparr>lower_sql = to_lower, like_sql = (\<lambda>t p. True), collation = (\<lambda>s. s)\<rparr>"

definition demo_symbol :: "string \<Rightarrow> string \<Rightarrow> symbol_row" where
  "demo_symbol ref name = \<lparr>sy_repo = ''1'', sy_ref = ref, sy_commit = ''c'', sy_path = ''f'', sy_name = name,
     sy_qualified = name, sy_kind = ''k'', sy_language = ''go'', sy_signature = [], sy_documentation = [],
     sy_start = 1, sy_end = 2, sy_hash = ''h''\<rparr>"

definition demo_catalog :: catalog where
  "demo_catalog = \<lparr>c_repos = [\<lparr>cr_id = ''1'', cr_library = ''/p/r'', cr_branch = ''m'', cr_source = ''gitlab'', cr_project = ''p'', cr_slug = ''r'', cr_enabled = True\<rparr>,
       \<lparr>cr_id = ''2'', cr_library = ''/p/s'', cr_branch = ''m'', cr_source = ''gitlab'', cr_project = ''p'', cr_slug = ''r'', cr_enabled = True\<rparr>],
     c_permissions = [(''1'', ''u''), (''1'', ''*'')], c_symbols = [demo_symbol ''m'' ''A'', demo_symbol ''n'' ''B''],
     c_dependencies = [\<lparr>de_repo = ''1'', de_ref = ''n'', de_commit = ''c'', de_path = ''g'', de_from = ''x'', de_target = ''A'',
       de_kind = ''call'', de_line = 3\<rparr>],
     c_files = [], c_contents = [], c_packages = [], c_maps = [], c_refs = [(''1'', ''m''), (''1'', ''n'')]\<rparr>"

lemma demo_split: "splitLibraryID ''/p/r'' = Some (''/p/r'', [])"
  by (simp add: splitLibraryID_def trim_space_visible visible_def trim_prefix_def)

lemma demo_trim [simp]: "trim_space ''m'' = ''m''" "trim_space ''n'' = ''n''" "trim_space ''A'' = ''A''" "trim_space ''B'' = ''B''"
  by (simp_all add: trim_space_visible visible_def)

lemma demo_reads: "reads_something [''u''] demo_catalog" "distinct (map cr_library (c_repos demo_catalog))"
  by (simp_all add: reads_something_def readable_repo_def repositoryACL_def Unrestricted_def UnrestrictedPrincipal_def
      matches_principal_def demo_catalog_def)

lemma demo_authorized: "authorizedRepository (\<lambda>_. False) demo_catalog [''u''] ''/p/r'' r =
    Inr (''1'', ''/p/r'', if trim_space r = [] then ''m'' else trim_space r)"
  by (simp add: authorizedRepository_def demo_split library_repo_def readable_repo_def repositoryACL_def Unrestricted_def
      UnrestrictedPrincipal_def matches_principal_def demo_catalog_def chosen_ref_def)

lemma answers_only_from_readable_witness:
  "FindDependents demo_engine (\<lambda>_. False) (visible_part [''u''] demo_catalog) [''u''] ''A'' [] 10
     = FindDependents demo_engine (\<lambda>_. False) demo_catalog [''u''] ''A'' [] 10"
  using answers_only_from_readable [OF demo_reads, of demo_engine "\<lambda>_. False" "''/p/r''" "''m''" "''A''" "[]" 10 "''n''" "[]" "[]"]
  by blast

lemma demo_load:
  "load_ref demo_catalog ''1'' b ''m'' = [((''A'', ''k'', ''f''), loaded_symbol demo_catalog b (demo_symbol ''m'' ''A''))]"
  "load_ref demo_catalog ''1'' b ''n'' = [((''B'', ''k'', ''f''), loaded_symbol demo_catalog b (demo_symbol ''n'' ''B''))]"
  by (simp_all add: load_ref_def demo_symbol_def row_key_def demo_catalog_def)

lemma demo_compare: "\<exists>c. CompareRefs (\<lambda>_. False) demo_catalog [''u''] ''/p/r'' ''m'' ''n'' = Inr c
    \<and> rc_BaseRef c = ''m'' \<and> rc_HeadRef c = ''n'' \<and> (\<forall>ch \<in> set (rc_Changes c). sc_Name ch \<in> {''A'', ''B''})"
proof -
  have "length (remdups (filter (\<lambda>r. r = ''m'' \<or> r = ''n'') (map snd (filter (\<lambda>r. fst r = ''1'') (c_refs demo_catalog))))) = 2"
    by (simp add: demo_catalog_def)
  then show ?thesis
    by (simp add: CompareRefs_def demo_authorized Let_def demo_load ref_changes_def removed_change_def added_change_def
        loaded_symbol_def demo_symbol_def)
qed

lemma compare_refs_complete_witness:
  "\<exists>c. CompareRefs (\<lambda>_. False) demo_catalog [''u''] ''/p/r'' ''m'' ''n'' = Inr c
     \<and> sorted (map (\<lambda>ch. (sc_FilePath ch, sc_Name ch)) (rc_Changes c))"
  using demo_compare compare_refs_complete by blast

lemma impact_bounded_witness:
  "\<exists>impact. ChangeImpact demo_engine (\<lambda>_. False) demo_catalog [''u''] ''/p/r'' ''m'' ''n'' 0 = Inr impact
     \<and> distinct (map dependent_key (ci_Dependents impact)) \<and> length (ci_Dependents impact) \<le> 100"
proof -
  obtain c where c: "CompareRefs (\<lambda>_. False) demo_catalog [''u''] ''/p/r'' ''m'' ''n'' = Inr c"
    "\<forall>ch \<in> set (rc_Changes c). sc_Name ch \<in> {''A'', ''B''}" using demo_compare by blast
  define trace where "trace = TraceDependencies demo_engine (\<lambda>_. False) demo_catalog [''u''] ''/p/r'' ''n''"
  have "\<exists>rs. trace n k = Inr rs" if "n \<in> {''A'', ''B''}" for n k
    using that by (auto simp: trace_def TraceDependencies_def demo_authorized Let_def)
  then have "\<exists>ds. trace_changes trace m cs out = Inr ds" if "\<forall>ch \<in> set cs. sc_Name ch \<in> {''A'', ''B''}" for m cs out
    using that
  proof (induction cs arbitrary: out)
    case (Cons ch cs)
    then obtain rs where rs: "trace (sc_Name ch) (int (m - length out)) = Inr rs" by fastforce
    obtain ds where ds: "trace_changes trace m cs (add_dependents rs out) = Inr ds" using Cons by fastforce
    show ?case by (cases "m \<le> length out") (simp_all only: trace_changes.simps rs ds sum.case if_True if_False, blast+)
  qed simp
  then obtain ds where "trace_changes trace (within_or 0 200 100) (rc_Changes c) [] = Inr ds" using c(2) by blast
  then have run: "ChangeImpact demo_engine (\<lambda>_. False) demo_catalog [''u''] ''/p/r'' ''m'' ''n'' 0
      = Inr \<lparr>ci_Comparison = c, ci_Dependents = ds\<rparr>"
    using c(1) by (simp add: ChangeImpact_def trace_def)
  have "within_or 0 200 100 = 100" by (simp add: within_or_def)
  then show ?thesis using impact_bounded [OF run] run by fastforce
qed

text \<open>
  The search for dependents joins the permissions without \<^verbatim>\<open>DISTINCT\<close>: a caller whom two
  permission rows of a repository match is given every dependent of it twice, and each of them
  counts against the limit.
\<close>

lemma dependents_repeated:
  "\<exists>d. FindDependents demo_engine (\<lambda>_. False) demo_catalog [''u''] ''A'' [] 10 =
     Inr \<lparr>ds_Target = ''A'', ds_Dependents = [d, d], ds_Repositories = [''/p/r'']\<rparr>"
  by (simp add: FindDependents_def Let_def dependent_rows_def join_repo_def readable_repo_def repositoryACL_def
      Unrestricted_def UnrestrictedPrincipal_def matches_principal_def demo_catalog_def demo_engine_def like_def
      within_or_def dependent_result_def numeral_eq_Suc)

end
