(* ===== verification/Regexp.thy ===== *)
theory Regexp
  imports PathMatch
begin

text \<open>
  What the program uses of Go's package \<^verbatim>\<open>regexp\<close>: patterns as syntax trees over runes, the
  leftmost-first search of \<^verbatim>\<open>FindStringSubmatch\<close>, the repeated search of \<^verbatim>\<open>FindAllStringSubmatch\<close>
  and \<^verbatim>\<open>ReplaceAllStringFunc\<close>. A search is a list of outcomes in the order of preference
  (greedy before short, left alternative before right); the outcome the package reports is the
  first one. The order matters only for which match is found: whether there is one is the
  relation \<open>moves\<close>, a plain reading of the pattern.
\<close>

section \<open>Runes of a text\<close>

type_synonym cell = "nat \<times> string"

lemma cells_progress: "s \<noteq> [] \<Longrightarrow> (r, n) = decode_rune s \<Longrightarrow> length s - n < length s"
  using decode_rune_width [of s] by (metis diff_less length_greater_0_conv snd_conv)

function cells :: "string \<Rightarrow> cell list" where
  "cells s = (if s = [] then [] else
     (let (r, n) = decode_rune s in (r, take n s) # cells (drop n s)))"
  by pat_completeness auto
termination
  by (relation "measure length") (auto simp: cells_progress)

declare cells.simps [simp del]

lemma cells_Nil [simp]: "cells [] = []"
  by (simp add: cells.simps)

definition text_of :: "cell list \<Rightarrow> string" where
  "text_of cs = concat (map snd cs)"

lemma text_of_simps [simp]: "text_of [] = []" "text_of (c # cs) = snd c @ text_of cs"
  "text_of (cs @ ds) = text_of cs @ text_of ds"
  by (simp_all add: text_of_def)

lemma text_of_cells [simp]: "text_of (cells s) = s"
proof (induction s rule: cells.induct)
  case (1 s)
  then show ?case by (subst cells.simps) (auto split: prod.splits)
qed

lemma byte_val_less: "byte_val c < 256"
  by (simp add: byte_val_def)

lemma cells_ascii:
  "byte_val c < 128 \<Longrightarrow> cells (c # s) = (byte_val c, [c]) # cells s"
  by (subst cells.simps) (simp add: decode_rune_def Let_def split: prod.splits)

text \<open>An ASCII byte occurs in a rune only if it is the rune.\<close>

lemma utf8_fold_ge: "a * 64 ^ length bs \<le> foldl (\<lambda>r b. 64 * r + b mod 64) (a :: nat) bs"
proof (induction bs arbitrary: a)
  case (Cons b bs)
  have "a * 64 ^ length (b # bs) \<le> (64 * a + b mod 64) * 64 ^ length bs" by (simp add: algebra_simps)
  also have "\<dots> \<le> foldl (\<lambda>r b. 64 * r + b mod 64) (64 * a + b mod 64) bs" by (rule Cons)
  finally show ?case by simp
qed simp

lemma take_drop_two: "2 \<le> length bs \<Longrightarrow> take (Suc n) (drop (Suc 0) bs) = bs ! 1 # take n (drop 2 bs)"
  by (simp add: Cons_nth_drop_Suc [symmetric] numeral_2_eq_2)

lemma lead_mod:
  assumes "(a::nat) = m * k" "a \<le> b" "b < a + m"
  shows "b mod m = b - a"
proof -
  have "b = (b - a) + m * k" using assms by simp
  then have "b mod m = (b - a) mod m" by (metis mod_mult_self2)
  then show ?thesis using assms by simp
qed

lemma decode_wide:
  assumes "s \<noteq> []" "128 \<le> byte_val (hd s)"
  shows "128 \<le> fst (decode_rune s)"
proof -
  define bs where "bs = map byte_val s"
  obtain width lo hi where lead: "rune_lead (bs ! 0) = (width, lo, hi)" by (cases "rune_lead (bs ! 0)")
  have b0: "\<not> bs ! 0 < 128" using assms by (simp add: bs_def hd_conv_nth)
  define fits where "fits \<longleftrightarrow> \<not> (width = 0 \<or> length bs < width) \<and> lo \<le> bs ! 1 \<and> bs ! 1 \<le> hi \<and>
    list_all (\<lambda>b. 128 \<le> b \<and> b \<le> 191) (take (width - 2) (drop 2 bs))"
  define v where "v = foldl (\<lambda>r b. 64 * r + b mod 64) (bs ! 0 mod (if width = 2 then 32 else if width = 3 then 16 else 8))
    (take (width - 1) (drop 1 bs))"
  have d: "fst (decode_rune s) = (if fits then v else RuneError)"
    using assms(1) b0 lead by (auto simp: decode_rune_def Let_def bs_def [symmetric] fits_def v_def)
  have "128 \<le> v" if fits
  proof -
    have len: "width \<le> length bs" "lo \<le> bs ! 1" "bs ! 1 \<le> hi" "width \<noteq> 0" using that by (auto simp: fits_def)
    consider "width = 2" "194 \<le> bs ! 0" "bs ! 0 \<le> 223" | "width = 3" "bs ! 0 = 224" "lo = 160" "hi = 191"
      | "width = 3" "225 \<le> bs ! 0" "bs ! 0 \<le> 239" | "width = 4" "bs ! 0 = 240" "lo = 144" "hi = 191"
      | "width = 4" "241 \<le> bs ! 0" "bs ! 0 \<le> 244"
      using lead len(4) by (auto simp: rune_lead_def split: if_splits)
    then show ?thesis
    proof cases
      case 1
      then have "2 \<le> bs ! 0 mod 32" "length (take (width - 1) (drop 1 bs)) = 1"
        using len(1) lead_mod [of 192 32 6 "bs ! 0"] by simp_all
      then show ?thesis using utf8_fold_ge [of "bs ! 0 mod 32" "take (width - 1) (drop 1 bs)"] 1(1) unfolding v_def by simp
    next
      case 2
      have "32 \<le> bs ! 1 mod 64" using 2 len lead_mod [of 128 64 2 "bs ! 1"] by simp
      moreover have "width - 1 = Suc 1" using 2(1) by simp
      then have "take (width - 1) (drop 1 bs) = bs ! 1 # take 1 (drop 2 bs)" using take_drop_two [of bs 1] len(1) by simp
      moreover have "length (take 1 (drop 2 bs)) = 1" using len(1) 2(1) by simp
      ultimately show ?thesis using utf8_fold_ge [of "bs ! 1 mod 64" "take 1 (drop 2 bs)"] 2(1,2) unfolding v_def by simp
    next
      case 3
      then have "1 \<le> bs ! 0 mod 16" "length (take (width - 1) (drop 1 bs)) = 2"
        using len(1) lead_mod [of 224 16 14 "bs ! 0"] by simp_all
      then show ?thesis using utf8_fold_ge [of "bs ! 0 mod 16" "take (width - 1) (drop 1 bs)"] 3(1) unfolding v_def by simp
    next
      case 4
      have "16 \<le> bs ! 1 mod 64" using 4 len lead_mod [of 128 64 2 "bs ! 1"] by simp
      moreover have "width - 1 = Suc 2" using 4(1) by simp
      then have "take (width - 1) (drop 1 bs) = bs ! 1 # take 2 (drop 2 bs)" using take_drop_two [of bs 2] len(1) by simp
      moreover have "length (take 2 (drop 2 bs)) = 2" using len(1) 4(1) by simp
      ultimately show ?thesis using utf8_fold_ge [of "bs ! 1 mod 64" "take 2 (drop 2 bs)"] 4(1,2) unfolding v_def by simp
    next
      case 5
      then have "1 \<le> bs ! 0 mod 8" "length (take (width - 1) (drop 1 bs)) = 3"
        using len(1) lead_mod [of 240 8 30 "bs ! 0"] by simp_all
      then show ?thesis using utf8_fold_ge [of "bs ! 0 mod 8" "take (width - 1) (drop 1 bs)"] 5(1) unfolding v_def by simp
    qed
  qed
  then show ?thesis by (simp add: d RuneError_def)
qed

lemma cells_ascii_bytes:
  assumes "(r, t) \<in> set (cells s)" "byte_val c < 128"
  shows "(c \<in> set t \<longleftrightarrow> r = byte_val c) \<and> (r = byte_val c \<longrightarrow> t = [c])"
  using assms(1)
proof (induction s rule: cells.induct)
  case (1 s)
  show ?case
  proof (cases "s = []")
    case False
    obtain r' n where d: "decode_rune s = (r', n)" by (cases "decode_rune s")
    consider "r = r'" "t = take n s" | "(r, t) \<in> set (cells (drop n s))"
      using 1(2) d False by (subst (asm) cells.simps) auto
    then show ?thesis
    proof cases
      case 1
      show ?thesis
      proof (cases "byte_val (hd s) < 128")
        case True
        then obtain b u where [simp]: "s = b # u" and b: "byte_val b < 128" using False by (cases s) auto
        have "r = byte_val b" "t = [b]" using 1 d b by (auto simp: decode_rune_def Let_def split: prod.splits)
        then show ?thesis by (auto simp: byte_val_def)
      next
        case wide: False
        then have "hd s \<noteq> c" using assms(2) by auto
        then have "c \<notin> set t" using decode_rune_no_ascii [OF False _ assms(2)] 1 d by simp
        moreover have "128 \<le> r" using decode_wide [OF False] wide 1 d by simp
        ultimately show ?thesis using assms(2) by simp
      qed
    next
      case 2
      show ?thesis by (rule "1.IH" [OF False d [symmetric] refl 2]) 
    qed
  qed (use 1 in simp)
qed

section \<open>Patterns\<close>

text \<open>
  \<open>Sym\<close> is a rune of a class, \<open>Rep\<close> a repetition (greedy or not), \<open>Grp\<close> a numbered group and
  \<open>Edge\<close> an empty match that depends on the runes on both sides, such as \<^verbatim>\<open>^\<close> or \<^verbatim>\<open>\b\<close>.
\<close>

datatype rx = Sym "nat \<Rightarrow> bool" | Emp | Cat rx rx | Or rx rx | Rep bool rx | Grp nat rx
  | Edge "nat option \<Rightarrow> nat option \<Rightarrow> bool"

type_synonym place = "nat option \<times> cell list"
type_synonym groups = "(nat \<times> string) list"

definition next_rune :: "cell list \<Rightarrow> nat option" where
  "next_rune cs = (case cs of [] \<Rightarrow> None | c # _ \<Rightarrow> Some (fst c))"

definition consumed :: "cell list \<Rightarrow> cell list \<Rightarrow> string" where
  "consumed before after = text_of (take (length before - length after) before)"

function run :: "rx \<Rightarrow> place \<Rightarrow> groups \<Rightarrow> (place \<times> groups) list" where
  "run (Sym P) st g = (case snd st of [] \<Rightarrow> [] | c # cs \<Rightarrow> if P (fst c) then [((Some (fst c), cs), g)] else [])"
| "run Emp st g = [(st, g)]"
| "run (Cat a b) st g = concat (map (\<lambda>(st', g'). run b st' g') (run a st g))"
| "run (Or a b) st g = run a st g @ run b st g"
| "run (Rep greedy a) st g =
     (let more = concat (map (\<lambda>(st', g'). if length (snd st') < length (snd st) then run (Rep greedy a) st' g' else [])
            (run a st g))
      in if greedy then more @ [(st, g)] else (st, g) # more)"
| "run (Grp i a) st g = map (\<lambda>(st', g'). (st', (i, consumed (snd st) (snd st')) # g')) (run a st g)"
| "run (Edge P) st g = (if P (fst st) (next_rune (snd st)) then [(st, g)] else [])"
  by pat_completeness auto
termination
  by (relation "measures [\<lambda>(r, st, g). size r, \<lambda>(r, st, g). length (snd st)]") auto

text \<open>The plain reading: which places a pattern leads to.\<close>

fun moves :: "rx \<Rightarrow> (place \<times> place) set" where
  "moves (Sym P) = {((p, c # cs), (Some (fst c), cs)) | p c cs. P (fst c)}"
| "moves Emp = Id"
| "moves (Cat a b) = moves a O moves b"
| "moves (Or a b) = moves a \<union> moves b"
| "moves (Rep greedy a) = (moves a)\<^sup>*"
| "moves (Grp i a) = moves a"
| "moves (Edge P) = {(st, st) | st. P (fst st) (next_rune (snd st))}"


definition along :: "place \<Rightarrow> place \<Rightarrow> bool" where
  "along st st' \<longleftrightarrow> (\<exists>pre. snd st = pre @ snd st' \<and> fst st' = (if pre = [] then fst st else Some (fst (last pre))))"

lemma along_refl [simp]: "along st st"
  by (simp add: along_def)

lemma along_trans:
  assumes "along a b" "along b c"
  shows "along a c"
proof -
  obtain u v where "snd a = u @ snd b" "fst b = (if u = [] then fst a else Some (fst (last u)))"
      "snd b = v @ snd c" "fst c = (if v = [] then fst b else Some (fst (last v)))"
    using assms unfolding along_def by blast
  then have "snd a = (u @ v) @ snd c" "fst c = (if u @ v = [] then fst a else Some (fst (last (u @ v))))"
    by simp_all
  then show ?thesis unfolding along_def by blast
qed

lemma along_shorter: "along st st' \<Longrightarrow> length (snd st') < length (snd st) \<or> st' = st"
  by (cases st; cases st') (auto simp: along_def)

lemma moves_along: "(st, st') \<in> moves r \<Longrightarrow> along st st'"
proof (induction r arbitrary: st st')
  case (Sym P)
  then obtain c where "snd st = c # snd st'" "fst st' = Some (fst c)" by auto
  then show ?case unfolding along_def by (intro exI [of _ "[c]"]) simp
next
  case (Rep g r)
  from Rep.prems have "(st, st') \<in> (moves r)\<^sup>*" by simp
  then show ?case by (induction rule: rtrancl_induct) (simp, blast intro: along_trans Rep.IH)
next
  case (Cat a b)
  then show ?case by (auto simp del: split_paired_Ex) (blast intro: along_trans)
qed auto

lemma fst_concat: "t \<in> fst ` set (concat (map f xs)) \<longleftrightarrow> (\<exists>x \<in> set xs. t \<in> fst ` set (f x))"
  by force

lemma star_progress:
  "(st, t) \<in> (moves a)\<^sup>* \<longleftrightarrow>
     t = st \<or> (\<exists>u. (st, u) \<in> moves a \<and> length (snd u) < length (snd st) \<and> (u, t) \<in> (moves a)\<^sup>*)"
  (is "_ \<longleftrightarrow> ?R st")
proof
  show "?R st" if "(st, t) \<in> (moves a)\<^sup>*"
    using that
  proof (induction rule: converse_rtrancl_induct)
    case (step y z)
    then show ?case using along_shorter [OF moves_along [OF step(1)]] by blast
  qed simp
qed (blast intro: converse_rtrancl_into_rtrancl)

theorem run_moves: "t \<in> fst ` set (run r st g) \<longleftrightarrow> (st, t) \<in> moves r"
proof (induction r st g arbitrary: t rule: run.induct)
  case (1 P st g)
  then show ?case by (cases st) (auto split: list.splits)
next
  case (3 a b st g)
  have "t \<in> fst ` set (run (Cat a b) st g) \<longleftrightarrow> (\<exists>x \<in> set (run a st g). (fst x, t) \<in> moves b)"
    using 3(2) by (simp only: run.simps fst_concat) (auto simp: case_prod_beta)
  also have "\<dots> \<longleftrightarrow> (\<exists>u. u \<in> fst ` set (run a st g) \<and> (u, t) \<in> moves b)" by blast
  also have "\<dots> \<longleftrightarrow> (st, t) \<in> moves (Cat a b)" by (simp only: 3(1) moves.simps relcomp_unfold mem_Collect_eq) blast
  finally show ?case .
next
  case (5 greedy a st g)
  define more where "more = concat (map (\<lambda>(st', g'). if length (snd st') < length (snd st) then run (Rep greedy a) st' g' else []) (run a st g))"
  have "t \<in> fst ` set more \<longleftrightarrow>
      (\<exists>x \<in> set (run a st g). length (snd (fst x)) < length (snd st) \<and> (fst x, t) \<in> (moves a)\<^sup>*)"
    unfolding more_def fst_concat
  proof (rule bex_cong [OF refl])
    fix x assume x: "x \<in> set (run a st g)"
    obtain u h where [simp]: "x = (u, h)" by (cases x)
    show "t \<in> fst ` set (case x of (st', g') \<Rightarrow> if length (snd st') < length (snd st) then run (Rep greedy a) st' g' else [])
        \<longleftrightarrow> length (snd (fst x)) < length (snd st) \<and> (fst x, t) \<in> (moves a)\<^sup>*"
      using 5(2) [OF x, of u h t] by (cases "length (snd u) < length (snd st)") (simp_all del: run.simps)
  qed
  also have "\<dots> \<longleftrightarrow> (\<exists>u. u \<in> fst ` set (run a st g) \<and> length (snd u) < length (snd st) \<and> (u, t) \<in> (moves a)\<^sup>*)" by blast
  also have "\<dots> \<longleftrightarrow> (\<exists>u. (st, u) \<in> moves a \<and> length (snd u) < length (snd st) \<and> (u, t) \<in> (moves a)\<^sup>*)"
    by (simp only: 5(1))
  finally have "t = st \<or> t \<in> fst ` set more \<longleftrightarrow> (st, t) \<in> (moves a)\<^sup>*"
    by (subst star_progress) blast
  moreover have "run (Rep greedy a) st g = (if greedy then more @ [(st, g)] else (st, g) # more)"
    by (subst run.simps(5)) (simp only: Let_def more_def)
  ultimately show ?case by (auto simp del: run.simps)
next
  case (6 i a st g)
  have "t \<in> fst ` set (run (Grp i a) st g) \<longleftrightarrow> t \<in> fst ` set (run a st g)"
    by (simp add: image_image case_prod_beta)
  then show ?case using 6 by simp
next
  case (4 a b st g)
  then show ?case by (simp only: run.simps set_append image_Un Un_iff moves.simps)
next
  case (7 P st g)
  then show ?case by (cases st) (auto split: if_splits)
qed auto


lemma run_along: "(st', g') \<in> set (run r st g) \<Longrightarrow> along st st'"
  using run_moves [of st' r st g] by (force dest: moves_along)

section \<open>Searching\<close>

record rmatch =
  m_text :: string
  m_groups :: groups

definition group_of :: "rmatch \<Rightarrow> nat \<Rightarrow> string" where
  "group_of m i = (if i = 0 then m_text m else case map_of (m_groups m) i of None \<Rightarrow> [] | Some s \<Rightarrow> s)"

fun find_from :: "rx \<Rightarrow> nat option \<Rightarrow> cell list \<Rightarrow> (cell list \<times> rmatch \<times> place) option" where
  "find_from r p cs =
     (case run r (p, cs) [] of
        (st, g) # _ \<Rightarrow> Some ([], \<lparr>m_text = consumed cs (snd st), m_groups = g\<rparr>, st)
      | [] \<Rightarrow> (case cs of
            [] \<Rightarrow> None
          | c # rest \<Rightarrow> (case find_from r (Some (fst c)) rest of
              None \<Rightarrow> None | Some (skipped, m, st) \<Rightarrow> Some (c # skipped, m, st))))"

declare find_from.simps [simp del] run.simps(5) [simp del]

lemma along_consumed: "along (p, cs) st \<Longrightarrow> cs = take (length cs - length (snd st)) cs @ snd st"
  by (auto simp: along_def)

lemma find_from_split:
  "find_from r p cs = Some (skipped, m, st) \<Longrightarrow> text_of cs = text_of skipped @ m_text m @ text_of (snd st)
     \<and> length skipped + length (snd st) \<le> length cs"
proof (induction r p cs arbitrary: skipped rule: find_from.induct)
  case (1 r p cs)
  show ?case
  proof (cases "run r (p, cs) []")
    case (Cons a as)
    then have a: "a \<in> set (run r (p, cs) [])" by simp
    obtain st' g where [simp]: "a = (st', g)" by (cases a)
    have split: "along (p, cs) st'" using run_along [of st' g r] a by simp
    have same: "skipped = []" "m_text m = consumed cs (snd st')" "st = st'"
      using 1(2) Cons by (auto simp: find_from.simps)
    have "text_of cs = text_of (take (length cs - length (snd st')) cs @ snd st')"
      using along_consumed [OF split] by simp
    moreover have "length (snd st') \<le> length cs" using split by (auto simp: along_def)
    ultimately show ?thesis by (simp add: same consumed_def)
  next
    case Nil
    then obtain c rest where cs: "cs = c # rest" using 1(2) by (auto simp: find_from.simps split: list.splits)
    then obtain skipped' where "find_from r (Some (fst c)) rest = Some (skipped', m, st)" "skipped = c # skipped'"
      using 1(2) Nil by (auto simp: find_from.simps [of r p] split: option.splits)
    then show ?thesis using 1(1) [OF Nil cs] cs by simp
  qed
qed

text \<open>The search on a text, and \<^verbatim>\<open>FindStringSubmatch\<close>.\<close>

definition find_match :: "rx \<Rightarrow> string \<Rightarrow> rmatch option" where
  "find_match r s = map_option (\<lambda>(skipped, m, st). m) (find_from r None (cells s))"

definition match_string :: "rx \<Rightarrow> string \<Rightarrow> bool" where
  "match_string r s \<longleftrightarrow> find_match r s \<noteq> None"

text \<open>
  All matches, with the text skipped before each of them and the text behind the last one. An
  empty match where the search stands moves it by one rune, and does not count if the match
  before ended there.
\<close>

function pieces_from :: "rx \<Rightarrow> bool \<Rightarrow> string \<Rightarrow> place \<Rightarrow> (string \<times> rmatch) list \<times> string" where
  "pieces_from r fresh acc st =
     (case find_from r (fst st) (snd st) of
        None \<Rightarrow> ([], acc @ text_of (snd st))
      | Some (skipped, m, st') \<Rightarrow>
          (if length (snd st') < length (snd st) then
             (let (ps, tail) = pieces_from r False [] st' in ((acc @ text_of skipped, m) # ps, tail))
           else
             (let here = (if fresh then [(acc, m)] else []); left = (if fresh then [] else acc) in
              (case snd st of
                 [] \<Rightarrow> (here, left)
               | c # cs \<Rightarrow> (let (ps, tail) = pieces_from r True (left @ snd c) (Some (fst c), cs) in (here @ ps, tail))))))"
  by pat_completeness auto
termination
  by (relation "measure (\<lambda>(r, fresh, acc, st). length (snd st))") auto

declare pieces_from.simps [simp del]

definition pieces :: "rx \<Rightarrow> string \<Rightarrow> (string \<times> rmatch) list \<times> string" where
  "pieces r s = pieces_from r True [] (None, cells s)"

definition find_all :: "rx \<Rightarrow> string \<Rightarrow> rmatch list" where
  "find_all r s = map snd (fst (pieces r s))"

definition replace_all :: "rx \<Rightarrow> (rmatch \<Rightarrow> string) \<Rightarrow> string \<Rightarrow> string" where
  "replace_all r f s = concat (map (\<lambda>(before, m). before @ f m) (fst (pieces r s))) @ snd (pieces r s)"

text \<open>Where each match begins and ends, as \<^verbatim>\<open>FindAllStringSubmatchIndex\<close> reports it.\<close>

fun spans_from :: "nat \<Rightarrow> (string \<times> rmatch) list \<Rightarrow> (nat \<times> nat \<times> rmatch) list" where
  "spans_from n [] = []"
| "spans_from n ((before, m) # ps) =
     (let from' = n + length before; to = from' + length (m_text m) in (from', to, m) # spans_from to ps)"

definition find_all_index :: "rx \<Rightarrow> string \<Rightarrow> (nat \<times> nat \<times> rmatch) list" where
  "find_all_index r s = spans_from 0 (fst (pieces r s))"


section \<open>What a search leaves of the text\<close>

lemma pieces_text:
  "pieces_from r fresh acc st = (ps, tail) \<Longrightarrow> concat (map (\<lambda>(b, m). b @ m_text m) ps) @ tail = acc @ text_of (snd st)"
proof (induction r fresh acc st arbitrary: ps tail rule: pieces_from.induct)
  case (1 r fresh acc st)
  show ?case
  proof (cases "find_from r (fst st) (snd st)")
    case None
    then show ?thesis using "1.prems" by (simp add: pieces_from.simps [of r])
  next
    case (Some res)
    obtain skipped m st' where res: "res = (skipped, m, st')" by (cases res)
    note found = Some [unfolded res]
    note split = find_from_split [OF found]
    show ?thesis
    proof (cases "length (snd st') < length (snd st)")
      case True
      obtain ps' tail' where rec: "pieces_from r False [] st' = (ps', tail')" by (cases "pieces_from r False [] st'")
      have "ps = (acc @ text_of skipped, m) # ps'" "tail = tail'"
        using "1.prems" found True rec by (simp_all add: pieces_from.simps [of r fresh])
      then show ?thesis using "1.IH"(1) [OF found refl refl True rec] split by simp
    next
      case False
      then have empty: "skipped = []" "text_of (snd st') = text_of (snd st) \<Longrightarrow> m_text m = []"
        using split False by (cases skipped; simp)+
      have full: "length (snd st') = length (snd st)" using split False by simp
      have same: "st' = st"
      proof -
        obtain g where "run r (fst st, snd st) [] \<noteq> []" "fst (hd (run r (fst st, snd st) [])) = st'"
          using found empty(1) by (auto simp: find_from.simps [of r "fst st"] split: list.splits option.splits prod.splits)
        then have "along st st'" using run_along [of st' "snd (hd (run r st []))" r st "[]"]
          by (metis hd_in_set prod.collapse)
        then show ?thesis using full along_shorter by fastforce
      qed
      then have m: "m_text m = []" using empty(2) by simp
      show ?thesis
      proof (cases "snd st")
        case Nil
        then show ?thesis using "1.prems" found False m by (auto simp: pieces_from.simps [of r fresh] split: if_splits)
      next
        case (Cons c cs)
        define left where "left = (if fresh then [] else acc)"
        obtain ps' tail' where rec: "pieces_from r True (left @ snd c) (Some (fst c), cs) = (ps', tail')"
          by (cases "pieces_from r True (left @ snd c) (Some (fst c), cs)")
        have "ps = (if fresh then [(acc, m)] else []) @ ps'" "tail = tail'"
          using "1.prems" found False rec Cons by (auto simp: pieces_from.simps [of r fresh] left_def split: if_splits)
        then show ?thesis using "1.IH"(2) [OF found refl refl False refl left_def Cons rec] m Cons by (simp add: left_def)
      qed
    qed
  qed
qed

lemma pieces_whole: "concat (map (\<lambda>(b, m). b @ m_text m) (fst (pieces r s))) @ snd (pieces r s) = s"
  using pieces_text [of r True "[]" "(None, cells s)"] by (cases "pieces r s") (simp add: pieces_def)

text \<open>
  A replacement that keeps a count of every match it replaces keeps that count of the text.
\<close>

lemma replace_all_count:
  assumes "\<And>m. m \<in> set (find_all r s) \<Longrightarrow> count_list (f m) x = count_list (m_text m) x"
  shows "count_list (replace_all r f s) x = count_list s x"
proof -
  have "count_list (concat (map (\<lambda>(b, m). b @ f m) ps)) x = count_list (concat (map (\<lambda>(b, m). b @ m_text m) ps)) x"
    if "set (map snd ps) \<subseteq> set (find_all r s)" for ps
    using that by (induction ps) (auto simp: assms)
  then have "count_list (replace_all r f s) x
      = count_list (concat (map (\<lambda>(b, m). b @ m_text m) (fst (pieces r s))) @ snd (pieces r s)) x"
    by (simp add: replace_all_def find_all_def)
  then show ?thesis by (simp only: pieces_whole)
qed

lemma replace_all_none: "find_all r s = [] \<Longrightarrow> replace_all r f s = s"
  using pieces_whole [of r s] by (simp add: replace_all_def find_all_def)

lemma replace_all_same: "(\<And>m. m \<in> set (find_all r s) \<Longrightarrow> f m = m_text m) \<Longrightarrow> replace_all r f s = s"
proof -
  assume *: "\<And>m. m \<in> set (find_all r s) \<Longrightarrow> f m = m_text m"
  have "map (\<lambda>(b, m). b @ f m) (fst (pieces r s)) = map (\<lambda>(b, m). b @ m_text m) (fst (pieces r s))"
    using * by (force simp: find_all_def)
  then have "replace_all r f s = concat (map (\<lambda>(b, m). b @ m_text m) (fst (pieces r s))) @ snd (pieces r s)"
    by (simp only: replace_all_def)
  then show ?thesis by (simp only: pieces_whole)
qed


text \<open>Every match found is a walk of the pattern over some part of the text.\<close>

definition walks :: "rx \<Rightarrow> cell list \<Rightarrow> string \<Rightarrow> bool" where
  "walks r cs t \<longleftrightarrow> (\<exists>before st st'. cs = before @ snd st \<and> (st, st') \<in> moves r \<and> t = consumed (snd st) (snd st'))"

lemma walks_prefix: "walks r cs t \<Longrightarrow> walks r (before @ cs) t"
  unfolding walks_def by (metis append.assoc)

lemma find_from_walks:
  "find_from r p cs = Some (skipped, m, st) \<Longrightarrow> walks r cs (m_text m) \<and> (\<exists>before. cs = before @ snd st)"
proof (induction r p cs arbitrary: skipped rule: find_from.induct)
  case (1 r p cs)
  show ?case
  proof (cases "run r (p, cs) []")
    case (Cons a as)
    obtain st' g where [simp]: "a = (st', g)" by (cases a)
    then have a: "st' \<in> fst ` set (run r (p, cs) [])" using Cons by force
    then have walk: "((p, cs), st') \<in> moves r" by (simp add: run_moves)
    have "m_text m = consumed cs (snd st')" "st = st'" using 1(2) Cons by (auto simp: find_from.simps)
    moreover have "\<exists>before. cs = before @ snd st'" using moves_along [OF walk] by (auto simp: along_def)
    ultimately show ?thesis using walk unfolding walks_def by (metis append_Nil snd_conv)
  next
    case Nil
    then obtain c rest where cs: "cs = c # rest" using 1(2) by (auto simp: find_from.simps split: list.splits)
    then obtain skipped' where "find_from r (Some (fst c)) rest = Some (skipped', m, st)"
      using 1(2) Nil by (auto simp: find_from.simps [of r p] split: option.splits)
    then have "walks r rest (m_text m) \<and> (\<exists>before. rest = before @ snd st)" using 1(1) [OF Nil cs] by blast
    then show ?thesis using walks_prefix [of r rest "m_text m" "[c]"] cs by (metis append_Cons append_Nil)
  qed
qed

lemma pieces_walk: "(b, m) \<in> set (fst (pieces_from r fresh acc st)) \<Longrightarrow> walks r (snd st) (m_text m)"
proof (induction r fresh acc st rule: pieces_from.induct)
  case (1 r fresh acc st)
  show ?case
  proof (cases "find_from r (fst st) (snd st)")
    case None
    then show ?thesis using "1.prems" by (simp add: pieces_from.simps [of r])
  next
    case (Some res)
    obtain skipped m' st' where res: "res = (skipped, m', st')" by (cases res)
    note found = Some [unfolded res]
    note walk = find_from_walks [OF found]
    show ?thesis
    proof (cases "length (snd st') < length (snd st)")
      case True
      obtain ps' tail' where rec: "pieces_from r False [] st' = (ps', tail')" by (cases "pieces_from r False [] st'")
      have "m = m' \<or> (b, m) \<in> set ps'"
        using "1.prems" found True rec by (auto simp: pieces_from.simps [of r fresh])
      then show ?thesis using "1.IH"(1) [OF found refl refl True] walk rec walks_prefix by fastforce
    next
      case False
      define left where "left = (if fresh then [] else acc)"
      have "m = m' \<or> (\<exists>c cs. snd st = c # cs \<and> (b, m) \<in> set (fst (pieces_from r True (left @ snd c) (Some (fst c), cs))))"
        using "1.prems" found False
        by (cases "snd st") (auto simp: pieces_from.simps [of r fresh] left_def Let_def split: if_splits prod.splits)
      then show ?thesis
      proof (elim disjE exE conjE)
        fix c cs assume st: "snd st = c # cs" and "(b, m) \<in> set (fst (pieces_from r True (left @ snd c) (Some (fst c), cs)))"
        then have "walks r cs (m_text m)" using "1.IH"(2) [OF found refl refl False refl left_def st] by simp
        then show ?thesis using walks_prefix [of r cs "m_text m" "[c]"] st by simp
      qed (use walk in simp)
    qed
  qed
qed

lemma find_all_walks: "m \<in> set (find_all r s) \<Longrightarrow> walks r (cells s) (m_text m)"
  using pieces_walk [of _ m r True "[]" "(None, cells s)"] by (auto simp: find_all_def pieces_def)

lemma find_match_walks: "find_match r s = Some m \<Longrightarrow> walks r (cells s) (m_text m)"
  by (auto simp: find_match_def dest: find_from_walks)

text \<open>A pattern all of whose classes leave an ASCII byte out never matches a text with it.\<close>

fun avoids :: "nat \<Rightarrow> rx \<Rightarrow> bool" where
  "avoids x (Sym P) \<longleftrightarrow> \<not> P x"
| "avoids x (Cat a b) \<longleftrightarrow> avoids x a \<and> avoids x b"
| "avoids x (Or a b) \<longleftrightarrow> avoids x a \<and> avoids x b"
| "avoids x (Rep g a) \<longleftrightarrow> avoids x a"
| "avoids x (Grp i a) \<longleftrightarrow> avoids x a"
| "avoids x _ \<longleftrightarrow> True"

lemma moves_avoid:
  "(st, st') \<in> moves r \<Longrightarrow> avoids x r \<Longrightarrow> \<exists>pre. snd st = pre @ snd st' \<and> x \<notin> fst ` set pre"
proof (induction r arbitrary: st st')
  case (Cat a b)
  then obtain u where u: "(st, u) \<in> moves a" "(u, st') \<in> moves b" by auto
  obtain p q where "snd st = p @ snd u" "snd u = q @ snd st'" "x \<notin> fst ` set p" "x \<notin> fst ` set q"
    using Cat.IH(1) [OF u(1)] Cat.IH(2) [OF u(2)] Cat.prems(2) by auto
  then show ?case by (intro exI [of _ "p @ q"]) auto
next
  case (Rep g r)
  from Rep.prems(1) have "(st, st') \<in> (moves r)\<^sup>*" by simp
  then show ?case
  proof (induction rule: rtrancl_induct)
    case (step y z)
    then obtain p q where "snd st = p @ snd y" "snd y = q @ snd z" "x \<notin> fst ` set p" "x \<notin> fst ` set q"
      using Rep.IH [OF step(2)] Rep.prems(2) by auto
    then show ?case by (intro exI [of _ "p @ q"]) auto
  qed simp
next
  case (Or a b)
  from Or.prems(1) have "(st, st') \<in> moves a \<or> (st, st') \<in> moves b" by simp
  then show ?case using Or.IH Or.prems(2) by (metis avoids.simps(3))
next
  case (Grp i r)
  then show ?case by simp
qed auto

lemma walks_avoid:
  assumes "walks r (cells s) t" "avoids (byte_val c) r" "byte_val c < 128"
  shows "c \<notin> set t"
proof -
  obtain before st st' where w: "cells s = before @ snd st" "(st, st') \<in> moves r" "t = consumed (snd st) (snd st')"
    using assms(1) by (auto simp: walks_def)
  obtain pre where pre: "snd st = pre @ snd st'" "byte_val c \<notin> fst ` set pre"
    using moves_avoid [OF w(2) assms(2)] by blast
  have "c \<notin> set (snd x)" if "x \<in> set pre" for x
  proof -
    have "x \<in> set (cells s)" using that w(1) pre(1) by simp
    then have "(fst x, snd x) \<in> set (cells s)" by simp
    from cells_ascii_bytes [OF this assms(3)] pre(2) that show ?thesis by force
  qed
  moreover have "t = text_of pre" using w(3) pre(1) by (simp add: consumed_def)
  ultimately show ?thesis by (auto simp: text_of_def)
qed

section \<open>Writing patterns\<close>

definition upper_rune :: "nat \<Rightarrow> bool" where "upper_rune x \<longleftrightarrow> 65 \<le> x \<and> x \<le> 90"
definition lower_rune :: "nat \<Rightarrow> bool" where "lower_rune x \<longleftrightarrow> 97 \<le> x \<and> x \<le> 122"
definition digit_rune :: "nat \<Rightarrow> bool" where "digit_rune x \<longleftrightarrow> 48 \<le> x \<and> x \<le> 57"
definition letter_rune :: "nat \<Rightarrow> bool" where "letter_rune x \<longleftrightarrow> upper_rune x \<or> lower_rune x"
definition alnum_rune :: "nat \<Rightarrow> bool" where "alnum_rune x \<longleftrightarrow> letter_rune x \<or> digit_rune x"

text \<open>\<^verbatim>\<open>\w\<close>, \<^verbatim>\<open>\s\<close> and a set of ASCII characters.\<close>

definition word_rune :: "nat \<Rightarrow> bool" where "word_rune x \<longleftrightarrow> alnum_rune x \<or> x = 95"
definition space_rune :: "nat \<Rightarrow> bool" where "space_rune x \<longleftrightarrow> x = 9 \<or> x = 10 \<or> x = 12 \<or> x = 13 \<or> x = 32"
definition among :: "string \<Rightarrow> nat \<Rightarrow> bool" where "among s x \<longleftrightarrow> x \<in> set (map byte_val s)"

text \<open>
  \<^verbatim>\<open>(?i)\<close>: a class also takes the runes that fold to one of its own; the Kelvin sign folds to
  k and the long s to s.
\<close>

definition folded :: "(nat \<Rightarrow> bool) \<Rightarrow> nat \<Rightarrow> bool" where
  "folded P x \<longleftrightarrow> P x \<or> upper_rune x \<and> P (x + 32) \<or> lower_rune x \<and> P (x - 32)
     \<or> x = 8490 \<and> (P 75 \<or> P 107) \<or> x = 383 \<and> (P 83 \<or> P 115)"

fun seqs :: "rx list \<Rightarrow> rx" where
  "seqs [] = Emp"
| "seqs [r] = r"
| "seqs (r # s # rs) = Cat r (seqs (s # rs))"

fun alts :: "rx list \<Rightarrow> rx" where
  "alts [] = Sym (\<lambda>_. False)"
| "alts [r] = r"
| "alts (r # s # rs) = Or r (alts (s # rs))"

definition lit :: "string \<Rightarrow> rx" where
  "lit s = seqs (map (\<lambda>c. Sym (\<lambda>x. x = byte_val c)) s)"

definition ilit :: "string \<Rightarrow> rx" where
  "ilit s = seqs (map (\<lambda>c. Sym (folded (\<lambda>x. x = byte_val c))) s)"

definition many :: "rx \<Rightarrow> rx" where "many r = Rep True r"
definition some :: "rx \<Rightarrow> rx" where "some r = Cat r (Rep True r)"
definition maybe :: "rx \<Rightarrow> rx" where "maybe r = Or r Emp"

fun exactly :: "nat \<Rightarrow> rx \<Rightarrow> rx" where
  "exactly 0 r = Emp"
| "exactly (Suc n) r = Cat r (exactly n r)"

text \<open>\<^verbatim>\<open>{n,}\<close>, \<^verbatim>\<open>{0,n}\<close> and \<^verbatim>\<open>{0,n}?\<close>.\<close>

definition at_least :: "nat \<Rightarrow> rx \<Rightarrow> rx" where "at_least n r = Cat (exactly n r) (Rep True r)"

fun up_to :: "nat \<Rightarrow> rx \<Rightarrow> rx" where
  "up_to 0 r = Emp"
| "up_to (Suc n) r = Or (Cat r (up_to n r)) Emp"

fun up_to_lazy :: "nat \<Rightarrow> rx \<Rightarrow> rx" where
  "up_to_lazy 0 r = Emp"
| "up_to_lazy (Suc n) r = Or Emp (Cat r (up_to_lazy n r))"

definition text_start :: rx where "text_start = Edge (\<lambda>p n. p = None)"
definition text_end :: rx where "text_end = Edge (\<lambda>p n. n = None)"
definition line_start :: rx where "line_start = Edge (\<lambda>p n. p = None \<or> p = Some 10)"
definition line_end :: rx where "line_end = Edge (\<lambda>p n. n = None \<or> n = Some 10)"

definition word_edge :: rx where
  "word_edge = Edge (\<lambda>p n. (case p of None \<Rightarrow> False | Some x \<Rightarrow> word_rune x) \<noteq> (case n of None \<Rightarrow> False | Some x \<Rightarrow> word_rune x))"

lemma avoids_seqs [simp]: "avoids x (seqs rs) \<longleftrightarrow> list_all (avoids x) rs"
  by (induction rs rule: seqs.induct) auto

lemma avoids_alts [simp]: "avoids x (alts rs) \<longleftrightarrow> list_all (avoids x) rs"
  by (induction rs rule: alts.induct) auto

lemma avoids_exactly: "avoids x r \<Longrightarrow> avoids x (exactly n r)"
  by (induction n) auto

lemma avoids_up_to: "avoids x r \<Longrightarrow> avoids x (up_to n r)" "avoids x r \<Longrightarrow> avoids x (up_to_lazy n r)"
  by (induction n) auto

lemma avoids_shorthands [simp]:
  "avoids x (many r) \<longleftrightarrow> avoids x r" "avoids x (some r) \<longleftrightarrow> avoids x r" "avoids x (maybe r) \<longleftrightarrow> avoids x r"
  "avoids x (lit s) \<longleftrightarrow> \<not> among s x" "avoids x (ilit s) \<longleftrightarrow> list_all (\<lambda>c. \<not> folded (\<lambda>y. y = byte_val c) x) s"
  "avoids x text_start" "avoids x text_end" "avoids x line_start" "avoids x line_end" "avoids x word_edge"
  by (auto simp: many_def some_def maybe_def lit_def ilit_def among_def list_all_iff
      text_start_def text_end_def line_start_def line_end_def word_edge_def)

lemma avoids_at_least [simp]: "avoids x r \<Longrightarrow> avoids x (at_least n r)"
  by (simp add: at_least_def avoids_exactly)


text \<open>Evaluation on concrete texts.\<close>

lemma cells_ascii_text: "list_all (\<lambda>c. byte_val c < 128) s \<Longrightarrow> cells s = map (\<lambda>c. (byte_val c, [c])) s"
  by (induction s) (simp_all add: cells_ascii)

lemma bounded_numeral:
  "exactly (numeral n) r = Cat r (exactly (pred_numeral n) r)"
  "up_to (numeral n) r = Or (Cat r (up_to (pred_numeral n) r)) Emp"
  "up_to_lazy (numeral n) r = Or Emp (Cat r (up_to_lazy (pred_numeral n) r))"
  by (simp_all add: numeral_eq_Suc)

lemmas regexp_eval = bounded_numeral find_match_def match_string_def find_from.simps run.simps(5) cells_ascii_text byte_val_def consumed_def
  next_rune_def many_def some_def maybe_def lit_def ilit_def at_least_def text_start_def text_end_def line_start_def line_end_def
  word_edge_def folded_def upper_rune_def lower_rune_def digit_rune_def letter_rune_def alnum_rune_def word_rune_def
  space_rune_def among_def

lemmas regexp_eval_all = regexp_eval pieces_from.simps pieces_def find_all_def replace_all_def


text \<open>A pattern every match of which uses a given rune.\<close>

fun uses_rune :: "nat \<Rightarrow> rx \<Rightarrow> bool" where
  "uses_rune x (Sym P) \<longleftrightarrow> (\<forall>y. P y \<longrightarrow> y = x)"
| "uses_rune x (Cat a b) \<longleftrightarrow> uses_rune x a \<or> uses_rune x b"
| "uses_rune x (Or a b) \<longleftrightarrow> uses_rune x a \<and> uses_rune x b"
| "uses_rune x (Grp i a) \<longleftrightarrow> uses_rune x a"
| "uses_rune x _ \<longleftrightarrow> False"

lemma moves_use:
  "(st, st') \<in> moves r \<Longrightarrow> uses_rune x r \<Longrightarrow> \<exists>pre. snd st = pre @ snd st' \<and> x \<in> fst ` set pre"
proof (induction r arbitrary: st st')
  case (Sym P)
  then obtain c where "snd st = c # snd st'" "P (fst c)" by auto
  then show ?case using Sym by (intro exI [of _ "[c]"]) auto
next
  case (Cat a b)
  then obtain u where u: "(st, u) \<in> moves a" "(u, st') \<in> moves b" by auto
  obtain p where p: "snd st = p @ snd u" using moves_along [OF u(1)] by (auto simp: along_def)
  obtain q where q: "snd u = q @ snd st'" using moves_along [OF u(2)] by (auto simp: along_def)
  have "x \<in> fst ` set p \<or> x \<in> fst ` set q"
    using Cat.prems(2) Cat.IH(1) [OF u(1)] Cat.IH(2) [OF u(2)] p q by auto
  then show ?case using p q by (intro exI [of _ "p @ q"]) auto
next
  case (Or a b)
  from Or.prems(1) have "(st, st') \<in> moves a \<or> (st, st') \<in> moves b" by simp
  then show ?case using Or.IH Or.prems(2) by (metis uses_rune.simps(3))
qed auto

lemma walks_use:
  assumes "walks r (cells s) t" "uses_rune (byte_val c) r" "byte_val c < 128"
  shows "c \<in> set t"
proof -
  obtain before st st' where w: "cells s = before @ snd st" "(st, st') \<in> moves r" "t = consumed (snd st) (snd st')"
    using assms(1) by (auto simp: walks_def)
  obtain pre where pre: "snd st = pre @ snd st'" "byte_val c \<in> fst ` set pre"
    using moves_use [OF w(2) assms(2)] by blast
  then obtain x where x: "x \<in> set pre" "fst x = byte_val c" by auto
  then have "x \<in> set (cells s)" using w(1) pre(1) by simp
  then have "(fst x, snd x) \<in> set (cells s)" by simp
  from cells_ascii_bytes [OF this assms(3)] x have "c \<in> set (snd x)" by simp
  moreover have "t = text_of pre" using w(3) pre(1) by (simp add: consumed_def)
  ultimately show ?thesis using x by (auto simp: text_of_def)
qed

lemma uses_seqs [simp]: "uses_rune x (seqs rs) \<longleftrightarrow> list_ex (uses_rune x) rs"
  by (induction rs rule: seqs.induct) auto

lemma walks_subset: "walks r (cells s) t \<Longrightarrow> set t \<subseteq> set s"
proof -
  assume "walks r (cells s) t"
  then obtain before st st' where w: "cells s = before @ snd st" "t = consumed (snd st) (snd st')"
    by (auto simp: walks_def)
  have "set (text_of (take n (snd st))) \<subseteq> set (text_of (cells s))" for n
    using w(1) by (auto simp: text_of_def dest: in_set_takeD)
  then show ?thesis using w(2) by (simp add: consumed_def)
qed


section \<open>A search finds a match if there is one\<close>

lemma along_Cons: "along (p, c # cs) st \<longleftrightarrow> st = (p, c # cs) \<or> along (Some (fst c), cs) st"
proof
  assume "along (p, c # cs) st"
  then obtain pre where pre: "c # cs = pre @ snd st" "fst st = (if pre = [] then p else Some (fst (last pre)))"
    by (auto simp: along_def)
  show "st = (p, c # cs) \<or> along (Some (fst c), cs) st"
  proof (cases pre)
    case Nil
    then show ?thesis using pre by (cases st) simp
  next
    case (Cons d ds)
    then show ?thesis using pre unfolding along_def by (intro disjI2 exI [of _ ds]) auto
  qed
next
  assume "st = (p, c # cs) \<or> along (Some (fst c), cs) st"
  then show "along (p, c # cs) st"
  proof
    assume "along (Some (fst c), cs) st"
    moreover have "along (p, c # cs) (Some (fst c), cs)" unfolding along_def by (intro exI [of _ "[c]"]) simp
    ultimately show ?thesis using along_trans by blast
  qed simp
qed

lemma run_some: "run r st g \<noteq> [] \<longleftrightarrow> (\<exists>st'. (st, st') \<in> moves r)"
proof -
  have "run r st g \<noteq> [] \<longleftrightarrow> (\<exists>st'. st' \<in> fst ` set (run r st g))"
    by (simp only: ex_in_conv image_is_empty set_empty)
  then show ?thesis by (simp only: run_moves)
qed

lemma find_from_iff: "find_from r p cs \<noteq> None \<longleftrightarrow> (\<exists>st st'. along (p, cs) st \<and> (st, st') \<in> moves r)"
proof (induction r p cs rule: find_from.induct)
  case (1 r p cs)
  show ?case
  proof (cases "run r (p, cs) []")
    case Nil
    then have none: "\<And>st'. ((p, cs), st') \<notin> moves r" using run_some [of r "(p, cs)" "[]"] by blast
    show ?thesis
    proof (cases cs)
      case Nil
      then show ?thesis using none \<open>run r (p, cs) [] = []\<close>
        by (auto simp: find_from.simps [of r p] along_def)
    next
      case (Cons c rest)
      have "find_from r p cs \<noteq> None \<longleftrightarrow> find_from r (Some (fst c)) rest \<noteq> None"
        using Nil Cons by (simp add: find_from.simps [of r p] split: option.split)
      also have "\<dots> \<longleftrightarrow> (\<exists>st st'. along (Some (fst c), rest) st \<and> (st, st') \<in> moves r)"
        by (rule 1 [OF Nil Cons])
      also have "\<dots> \<longleftrightarrow> (\<exists>st st'. along (p, cs) st \<and> (st, st') \<in> moves r)"
        using none Cons along_Cons [of p c rest] by metis
      finally show ?thesis .
    qed
  next
    case (Cons a as)
    then have "run r (p, cs) [] \<noteq> []" by simp
    then obtain st' where "((p, cs), st') \<in> moves r" unfolding run_some by blast
    moreover have "find_from r p cs \<noteq> None"
      using Cons by (cases a) (simp add: find_from.simps [of r p])
    ultimately show ?thesis using along_refl by blast
  qed
qed

theorem match_string_iff:
  "match_string r s \<longleftrightarrow> (\<exists>st st'. along (None, cells s) st \<and> (st, st') \<in> moves r)"
  by (simp only: match_string_def find_match_def option.map_disc_iff find_from_iff)

section \<open>Lines of a text\<close>

text \<open>An ASCII byte ends the rune before it, so the runes of two texts around it are put together.\<close>

definition decode_bytes :: "nat list \<Rightarrow> nat \<times> nat \<times> nat \<Rightarrow> nat \<times> nat" where
  "decode_bytes bs = (\<lambda>(width, lo, hi).
     if bs ! 0 < 128 then (bs ! 0, 1)
     else if width = 0 \<or> length bs < width then (RuneError, 1)
     else if \<not> (lo \<le> bs ! 1 \<and> bs ! 1 \<le> hi) then (RuneError, 1)
     else if \<not> list_all (\<lambda>b. 128 \<le> b \<and> b \<le> 191) (take (width - 2) (drop 2 bs)) then (RuneError, 1)
     else (foldl (\<lambda>r b. 64 * r + b mod 64) (bs ! 0 mod (if width = 2 then 32 else if width = 3 then 16 else 8))
                (take (width - 1) (drop 1 bs)), width))"

lemma decode_rune_bytes: "s \<noteq> [] \<Longrightarrow> decode_rune s = decode_bytes (map byte_val s) (rune_lead (map byte_val s ! 0))"
  by (simp only: decode_rune_def decode_bytes_def Let_def case_prod_beta if_False)

lemma decode_bytes_short:
  assumes "bs \<noteq> []" "b < 128" "2 \<le> width" "128 \<le> lo" "length bs < width" "\<not> bs ! 0 < 128"
  shows "decode_bytes (bs @ b # cs) (width, lo, hi) = (RuneError, 1)"
proof -
  have b0: "(bs @ b # cs) ! 0 = bs ! 0" using assms(1) by (cases bs) simp_all
  have small: "(bs @ b # cs) ! length bs = b" by simp
  show ?thesis
  proof (cases "length bs = 1")
    case True
    then have "\<not> lo \<le> (bs @ b # cs) ! 1" using small assms(2,4) by simp
    then show ?thesis using b0 assms(6) by (simp add: decode_bytes_def)
  next
    case False
    then have two: "2 \<le> length bs" using assms(1) by (cases bs; cases "tl bs") auto
    then have "length bs - 2 < width - 2" "drop 2 (bs @ b # cs) ! (length bs - 2) = b"
      using assms(5) small by (simp_all add: nth_append)
    moreover have "length bs - 2 < length (drop 2 (bs @ b # cs))" using two by simp
    ultimately have "b \<in> set (take (width - 2) (drop 2 (bs @ b # cs)))"
      by (metis in_set_conv_nth length_take min_less_iff_conj nth_take)
    then have "\<not> list_all (\<lambda>b. 128 \<le> b \<and> b \<le> 191) (take (width - 2) (drop 2 (bs @ b # cs)))"
      using assms(2) unfolding list_all_iff by (meson not_le)
    then show ?thesis using b0 assms(6) unfolding decode_bytes_def by simp
  qed
qed

lemma decode_before_ascii:
  assumes "s \<noteq> []" "byte_val c < 128"
  shows "decode_rune (s @ c # t) = decode_rune s"
proof -
  define bs where "bs = map byte_val s"
  define cs where "cs = map byte_val t"
  have bs: "bs \<noteq> []" "map byte_val (s @ c # t) = bs @ byte_val c # cs" using assms(1) by (simp_all add: bs_def cs_def)
  obtain width lo hi where lead: "rune_lead (bs ! 0) = (width, lo, hi)" by (cases "rune_lead (bs ! 0)")
  have lo: "width = 0 \<or> 128 \<le> lo \<and> 2 \<le> width" using lead by (auto simp: rune_lead_def split: if_splits)
  have b0: "(bs @ byte_val c # cs) ! 0 = bs ! 0" using bs(1) by (cases bs) simp_all
  have "decode_bytes (bs @ byte_val c # cs) (width, lo, hi) = decode_bytes bs (width, lo, hi)"
  proof (cases "bs ! 0 < 128 \<or> width = 0 \<or> width \<le> length bs")
    case True
    have "(bs @ byte_val c # cs) ! 1 = bs ! 1" "take (width - 2) (drop 2 (bs @ byte_val c # cs)) = take (width - 2) (drop 2 bs)"
      "take (width - 1) (drop 1 (bs @ byte_val c # cs)) = take (width - 1) (drop 1 bs)" "\<not> length bs < width"
      if "width \<noteq> 0" "width \<le> length bs"
      using that lo by (simp_all add: nth_append)
    then show ?thesis using True b0 unfolding decode_bytes_def by (auto simp del: drop_append take_append nth_append)
  next
    case False
    then have "decode_bytes bs (width, lo, hi) = (RuneError, 1)" by (simp add: decode_bytes_def)
    moreover have "decode_bytes (bs @ byte_val c # cs) (width, lo, hi) = (RuneError, 1)"
      using decode_bytes_short [OF bs(1) assms(2)] False lo by simp
    ultimately show ?thesis by simp
  qed
  then show ?thesis using assms(1) lead b0 bs(2) by (simp add: decode_rune_bytes bs_def [symmetric])
qed

lemma decode_width_le: "s \<noteq> [] \<Longrightarrow> snd (decode_rune s) \<le> length s"
  by (auto simp: decode_rune_bytes decode_bytes_def Suc_le_eq split: prod.splits if_splits)

lemma cells_append_ascii:
  assumes "byte_val c < 128"
  shows "cells (s @ c # t) = cells s @ (byte_val c, [c]) # cells t"
proof (induction s rule: cells.induct)
  case (1 s)
  show ?case
  proof (cases "s = []")
    case False
    obtain r n where d: "decode_rune s = (r, n)" by (cases "decode_rune s")
    have n: "n \<le> length s" using decode_width_le [OF False] d by simp
    have "cells (s @ c # t) = (r, take n s) # cells (drop n s @ c # t)"
      using decode_before_ascii [OF False assms, of t] d n by (subst cells.simps) simp
    also have "\<dots> = (r, take n s) # cells (drop n s) @ (byte_val c, [c]) # cells t"
      using 1 [OF False d [symmetric] refl] by simp
    finally show ?thesis using False d by (subst (2) cells.simps) simp
  qed (simp add: cells_ascii assms)
qed


section \<open>Where replaced text comes from\<close>

lemma consumed_subset: "along st st' \<Longrightarrow> set (consumed (snd st) (snd st')) \<subseteq> set (text_of (snd st))"
  by (auto simp: consumed_def text_of_def dest: in_set_takeD)

lemma run_groups:
  "(st', g') \<in> set (run r st g) \<Longrightarrow> (i, t) \<in> set g' \<Longrightarrow> (i, t) \<in> set g \<or> set t \<subseteq> set (text_of (snd st))"
proof (induction r st g arbitrary: st' g' rule: run.induct)
  case (1 P st g)
  then show ?case by (auto split: list.splits if_splits)
next
  case (3 a b st g)
  then obtain u h where u: "(u, h) \<in> set (run a st g)" "(st', g') \<in> set (run b u h)" by auto
  have "set (text_of (snd u)) \<subseteq> set (text_of (snd st))" using run_along [OF u(1)] by (auto simp: along_def)
  then show ?case using 3(1) [OF u(1)] 3(2) [OF u(1) refl u(2) 3(4)] by blast
next
  case (5 greedy a st g)
  show ?case
  proof (cases "(st', g') = (st, g)")
    case False
    then obtain u h where u: "(u, h) \<in> set (run a st g)" "length (snd u) < length (snd st)" "(st', g') \<in> set (run (Rep greedy a) u h)"
      using 5(3) by (auto simp: run.simps(5) [of greedy a st] Let_def split: if_splits)
    have "set (text_of (snd u)) \<subseteq> set (text_of (snd st))" using run_along [OF u(1)] by (auto simp: along_def)
    then show ?thesis using 5(1) [OF u(1)] 5(2) [OF u(1) refl u(2,3) 5(4)] by blast
  qed (use 5 in simp)
next
  case (6 j a st g)
  then obtain h where h: "(st', h) \<in> set (run a st g)" "g' = (j, consumed (snd st) (snd st')) # h" by auto
  then show ?case using 6(1) [OF h(1)] 6(3) consumed_subset [OF run_along [OF h(1)]] by auto
next
  case (4 a b st g)
  then have "(st', g') \<in> set (run a st g) \<or> (st', g') \<in> set (run b st g)" by simp
  then show ?case using 4 by blast
qed auto

lemma find_from_groups:
  "find_from r p cs = Some (skipped, m, st) \<Longrightarrow> set (group_of m i) \<subseteq> set (text_of cs)"
proof (induction r p cs arbitrary: skipped rule: find_from.induct)
  case (1 r p cs)
  show ?case
  proof (cases "run r (p, cs) []")
    case (Cons a as)
    then have a: "a \<in> set (run r (p, cs) [])" by simp
    obtain st' g where [simp]: "a = (st', g)" by (cases a)
    have m: "m_text m = consumed cs (snd st')" "m_groups m = g" using 1(2) Cons by (auto simp: find_from.simps)
    have "set t \<subseteq> set (text_of cs)" if "(j, t) \<in> set g" for j t
      using run_groups [of st' g r "(p, cs)" "[]" j t] a that by simp
    moreover have "set (consumed cs (snd st')) \<subseteq> set (text_of cs)"
      using consumed_subset [of "(p, cs)" st'] run_along [of st' g r "(p, cs)" "[]"] a by simp
    ultimately show ?thesis using m map_of_SomeD [of g i]
      by (cases "map_of g i") (simp_all add: group_of_def)
  next
    case Nil
    then obtain c rest where cs: "cs = c # rest" using 1(2) by (auto simp: find_from.simps split: list.splits)
    then obtain skipped' where "find_from r (Some (fst c)) rest = Some (skipped', m, st)"
      using 1(2) Nil by (auto simp: find_from.simps [of r p] split: option.splits)
    then show ?thesis using 1(1) [OF Nil cs] cs by auto
  qed
qed

lemma pieces_groups: "(b, m) \<in> set (fst (pieces_from r fresh acc st)) \<Longrightarrow> set (group_of m i) \<subseteq> set (text_of (snd st))"
proof (induction r fresh acc st rule: pieces_from.induct)
  case (1 r fresh acc st)
  show ?case
  proof (cases "find_from r (fst st) (snd st)")
    case None
    then show ?thesis using "1.prems" by (simp add: pieces_from.simps [of r])
  next
    case (Some res)
    obtain skipped m' st' where res: "res = (skipped, m', st')" by (cases res)
    note found = Some [unfolded res]
    have sub: "set (text_of (snd st')) \<subseteq> set (text_of (snd st))" using find_from_walks [OF found] by auto
    note here = find_from_groups [OF found, of i]
    show ?thesis
    proof (cases "length (snd st') < length (snd st)")
      case True
      obtain ps' tail' where rec: "pieces_from r False [] st' = (ps', tail')" by (cases "pieces_from r False [] st'")
      have "m = m' \<or> (b, m) \<in> set ps'"
        using "1.prems" found True rec by (auto simp: pieces_from.simps [of r fresh])
      then show ?thesis using "1.IH"(1) [OF found refl refl True] rec here sub by auto
    next
      case False
      define left where "left = (if fresh then [] else acc)"
      have "m = m' \<or> (\<exists>c cs. snd st = c # cs \<and> (b, m) \<in> set (fst (pieces_from r True (left @ snd c) (Some (fst c), cs))))"
        using "1.prems" found False
        by (cases "snd st") (auto simp: pieces_from.simps [of r fresh] left_def Let_def split: if_splits prod.splits)
      then show ?thesis
      proof (elim disjE exE conjE)
        fix c cs assume st: "snd st = c # cs" and "(b, m) \<in> set (fst (pieces_from r True (left @ snd c) (Some (fst c), cs)))"
        then have "set (group_of m i) \<subseteq> set (text_of cs)" using "1.IH"(2) [OF found refl refl False refl left_def st] by simp
        then show ?thesis using st by auto
      qed (use here in simp)
    qed
  qed
qed

lemma find_all_groups: "m \<in> set (find_all r s) \<Longrightarrow> set (group_of m i) \<subseteq> set s"
proof -
  assume "m \<in> set (find_all r s)"
  then obtain b where "(b, m) \<in> set (fst (pieces_from r True [] (None, cells s)))" by (auto simp: find_all_def pieces_def)
  then show ?thesis using pieces_groups [of b m r True "[]" "(None, cells s)" i] by simp
qed

lemma replace_all_subset: "set (replace_all r f s) \<subseteq> set s \<union> (\<Union>m \<in> set (find_all r s). set (f m))"
proof -
  have "set (concat (map (\<lambda>(b, m). b @ m_text m) (fst (pieces r s))) @ snd (pieces r s)) \<subseteq> set s"
    by (simp only: pieces_whole)
  moreover have "set (replace_all r f s) \<subseteq>
      set (concat (map (\<lambda>(b, m). b @ m_text m) (fst (pieces r s))) @ snd (pieces r s)) \<union> (\<Union>m \<in> set (find_all r s). set (f m))"
    by (force simp: replace_all_def find_all_def)
  ultimately show ?thesis by blast
qed

end
