(* ===== verification/Sanitize.thy ===== *)
theory Sanitize
  imports Regexp
begin

text \<open>
  Masking credentials before repository content is indexed or returned:
  \<^verbatim>\<open>internal/contentsecurity/sanitize.go\<close>. Each rule is the pattern of the source as a syntax
  tree and the function that rewrites its matches; the rules run one after the other on the
  text the one before left. Which strings have an entropy of 4.2 bits or more per rune is an
  argument, since it is computed with the floating-point logarithm.
\<close>

section \<open>Patterns\<close>

text \<open>\<^verbatim>\<open>[^\S\r\n]\<close>: white space inside a line.\<close>

definition blank :: rx where
  "blank = Sym (\<lambda>x. space_rune x \<and> x \<noteq> 13 \<and> x \<noteq> 10)"

definition spaces :: rx where "spaces = Sym space_rune"

definition none_of :: "string \<Rightarrow> rx" where
  "none_of s = Sym (\<lambda>x. \<not> among s x)"

definition line_break :: string where "line_break = [CHR 0x0D, CHR 0x0A]"
definition dquote :: string where "dquote = [CHR 0x22]"
definition squote :: string where "squote = [CHR 0x27]"

text \<open>\<^verbatim>\<open>[^\s...]\<close>.\<close>

definition nonspace_but :: "string \<Rightarrow> rx" where
  "nonspace_but s = Sym (\<lambda>x. \<not> space_rune x \<and> \<not> among s x)"

definition quote_mark :: rx where "quote_mark = Sym (among (dquote @ squote))"
definition dash_or_underscore :: rx where "dash_or_underscore = maybe (Sym (among ''_-''))"

definition privateKeyRE :: rx where
  "privateKeyRE = seqs [ilit ''-----BEGIN'',
     many (seqs [lit '' '', some (Sym (folded (\<lambda>x. upper_rune x \<or> digit_rune x)))]),
     ilit '' PRIVATE KEY'', maybe (ilit '' BLOCK''), lit ''-----'']"

definition secretNames :: rx where
  "secretNames = alts [
     seqs [ilit ''api'', dash_or_underscore, ilit ''key''], seqs [ilit ''secret'', dash_or_underscore, ilit ''key''],
     seqs [ilit ''client'', dash_or_underscore, ilit ''secret''], seqs [ilit ''access'', dash_or_underscore, ilit ''token''],
     seqs [ilit ''auth'', dash_or_underscore, ilit ''token''], seqs [ilit ''refresh'', dash_or_underscore, ilit ''token''],
     seqs [ilit ''private'', dash_or_underscore, ilit ''token''], ilit ''password'', ilit ''passwd'', ilit ''passphrase'',
     ilit ''credential'', ilit ''token'', ilit ''secret'']"

definition secretAssignmentRE :: rx where
  "secretAssignmentRE = seqs [maybe quote_mark, Grp 1 secretNames, maybe quote_mark, many blank, Sym (among '':=''), many blank,
     alts [seqs [lit dquote, at_least 4 (none_of (dquote @ line_break)), lit dquote],
       seqs [lit squote, at_least 4 (none_of (squote @ line_break)), lit squote],
       at_least 4 (nonspace_but '',;#'')]]"

definition blockScalarSecretRE :: rx where
  "blockScalarSecretRE = seqs [line_start, Grp 1 (many blank), maybe (seqs [lit ''-'', some blank]), maybe quote_mark,
     secretNames, maybe quote_mark, many blank, lit '':'', many blank, Sym (among ''|>''),
     many (Sym (\<lambda>x. among ''-+'' x \<or> digit_rune x)), many blank, maybe (seqs [lit ''#'', many (none_of line_break)]),
     maybe (lit [CHR 0x0D]), line_end]"

definition awsKeyRE :: rx where
  "awsKeyRE = seqs [word_edge, lit ''AKIA'', exactly 16 (Sym (\<lambda>x. upper_rune x \<or> digit_rune x)), word_edge]"

definition token_rune :: rx where "token_rune = Sym (\<lambda>x. alnum_rune x \<or> among ''_-'' x)"
definition alnum :: rx where "alnum = Sym alnum_rune"

definition knownTokenRE :: rx where
  "knownTokenRE = seqs [word_edge, alts [
     seqs [lit ''glpat-'', at_least 20 token_rune],
     seqs [lit ''gh'', Sym (among ''pousr''), lit ''_'', at_least 30 alnum],
     seqs [lit ''github_pat_'', at_least 20 (Sym (\<lambda>x. alnum_rune x \<or> x = 95))],
     seqs [lit ''hvs.'', at_least 20 token_rune],
     seqs [lit ''xox'', Sym (among ''baprs''), lit ''-'', at_least 10 (Sym (\<lambda>x. alnum_rune x \<or> x = 45))],
     seqs [Sym (among ''sr''), lit ''k_'', alts [lit ''live'', lit ''test''], lit ''_'', at_least 16 alnum],
     seqs [lit ''sk-'', maybe (lit ''proj-''), at_least 20 token_rune],
     seqs [lit ''AIza'', exactly 35 token_rune],
     seqs [lit ''SG.'', at_least 16 token_rune, lit ''.'', at_least 16 token_rune],
     seqs [lit ''npm_'', exactly 36 alnum],
     seqs [lit ''eyJ'', at_least 8 token_rune, lit ''.'', at_least 8 token_rune, lit ''.'', at_least 8 token_rune]], word_edge]"

definition credentialURLRE :: rx where
  "credentialURLRE = seqs [word_edge,
     Grp 1 (seqs [Sym (folded lower_rune), many (Sym (folded (\<lambda>x. lower_rune x \<or> digit_rune x \<or> among ''+.-'' x))), lit ''://'']),
     many (nonspace_but (''/:@<>'' @ dquote @ squote)), lit '':'', some (nonspace_but (''/<>'' @ dquote @ squote)), lit ''@'']"

definition oracleDSNRE :: rx where
  "oracleDSNRE = seqs [word_edge, Grp 1 (seqs [ilit ''jdbc:oracle:'', some (Sym (folded lower_rune)), lit '':'']),
     some (nonspace_but (''/@'' @ dquote @ squote)), lit ''/'', some (nonspace_but (''@'' @ dquote @ squote)), lit ''@'']"

definition xmlSecretElementRE :: rx where
  "xmlSecretElementRE = seqs [lit ''<'',
     Grp 1 (seqs [maybe (seqs [some (Sym (folded (\<lambda>x. lower_rune x \<or> digit_rune x \<or> among ''_.-'' x))), lit '':'']),
       alts [ilit ''password'', ilit ''passwd'', ilit ''secret'', ilit ''token'', seqs [ilit ''api'', dash_or_underscore, ilit ''key''],
         seqs [ilit ''client'', dash_or_underscore, ilit ''secret''], ilit ''credential'']]),
     many spaces, lit ''>'', Grp 2 (at_least 4 (none_of (''<'' @ line_break))), lit ''</'']"

definition xmlSecretAttributeRE :: rx where
  "xmlSecretAttributeRE = seqs [
     Grp 1 (seqs [ilit ''name'', many spaces, lit ''='', many spaces, lit dquote, many (none_of (dquote @ line_break)),
       alts [ilit ''password'', ilit ''passwd'', ilit ''secret'', ilit ''token'', ilit ''credential''],
       many (none_of (dquote @ line_break)), lit dquote, some spaces, ilit ''value'', many spaces, lit ''='', many spaces, lit dquote]),
     at_least 4 (none_of (dquote @ line_break)), lit dquote]"

definition curlUserRE :: rx where
  "curlUserRE = seqs [word_edge, ilit ''curl'', word_edge, up_to_lazy 200 (none_of [CHR 0x0A]),
     Grp 1 (alts [seqs [spaces, ilit ''-u'', some spaces], seqs [spaces, ilit ''--user'', some spaces]]),
     some (nonspace_but ('':'' @ dquote @ squote)), lit '':'', some (nonspace_but (dquote @ squote))]"

definition netrcRE :: rx where
  "netrcRE = seqs [word_edge, Grp 1 (seqs [ilit ''login'', some spaces]), some (nonspace_but []),
     Grp 2 (seqs [some spaces, ilit ''password'', some spaces]), at_least 4 (nonspace_but [])]"

definition authorizationHeaderRE :: rx where
  "authorizationHeaderRE = seqs [word_edge,
     Grp 1 (seqs [ilit ''authorization'', many spaces, Sym (among '':=''), many spaces]),
     Grp 2 (alts [ilit ''bearer'', ilit ''basic'', ilit ''token'']), some spaces,
     at_least 8 (nonspace_but (''<>'' @ dquote @ squote))]"

definition entropyCandidateRE :: rx where
  "entropyCandidateRE = at_least 32 (Sym (\<lambda>x. alnum_rune x \<or> among ''+/=_-'' x))"

definition hex_rune :: "nat \<Rightarrow> bool" where
  "hex_rune x \<longleftrightarrow> 97 \<le> x \<and> x \<le> 102 \<or> digit_rune x"

definition commonHashRE :: rx where
  "commonHashRE = seqs [text_start, alts [exactly 40 (Sym (folded hex_rune)), exactly 64 (Sym (folded hex_rune))], text_end]"

section \<open>Block scalars\<close>

definition splitReturn :: "string \<Rightarrow> string \<times> string" where
  "splitReturn line = (if has_suffix line [CHR 0x0D] then (butlast line, [CHR 0x0D]) else (line, []))"

definition blockIndent :: "string \<Rightarrow> nat" where
  "blockIndent line = length line - length (trim_left line [CHR '' '', CHR 0x09])"

definition redacted :: string where "redacted = ''[REDACTED]''"

definition is_header :: "string \<Rightarrow> bool" where
  "is_header line = match_string blockScalarSecretRE (fst (splitReturn line))"

definition blank_line :: "string \<Rightarrow> bool" where
  "blank_line line \<longleftrightarrow> trim_space (fst (splitReturn line)) = []"

definition indent_of :: "string \<Rightarrow> nat" where
  "indent_of line = blockIndent (fst (splitReturn line))"

definition mask_line :: "string \<Rightarrow> string" where
  "mask_line line = take (indent_of line) (fst (splitReturn line)) @ redacted @ snd (splitReturn line)"

text \<open>The body of a block: its lines, the lines behind it, and whether one was masked.\<close>

fun mask_body :: "nat \<Rightarrow> string list \<Rightarrow> string list \<times> string list \<times> bool" where
  "mask_body depth [] = ([], [], False)"
| "mask_body depth (l # ls) =
     (if blank_line l then (let (body, rest, m) = mask_body depth ls in (l # body, rest, m))
      else if indent_of l \<le> depth then ([], l # ls, False)
      else (let (body, rest, m) = mask_body depth ls in (mask_line l # body, rest, True)))"

lemma mask_body_length: "mask_body depth ls = (body, rest, m) \<Longrightarrow> length body + length rest = length ls"
  by (induction ls arbitrary: body rest m) (auto split: if_splits prod.splits)

function mask_lines :: "string list \<Rightarrow> string list \<times> bool" where
  "mask_lines [] = ([], False)"
| "mask_lines (l # ls) =
     (if is_header l then
        (let (body, rest, m) = mask_body (indent_of l) ls; (out, m') = mask_lines rest in (l # body @ out, m \<or> m'))
      else (let (out, m) = mask_lines ls in (l # out, m)))"
  by pat_completeness auto
termination
proof (relation "measure length"; (auto; fail)?)
  fix l :: string and ls body rest :: "string list" and x y m
  assume "x = mask_body (indent_of l) ls" "(body, y) = x" "(rest, m) = y"
  then show "(rest, l # ls) \<in> measure length" using mask_body_length [of "indent_of l" ls body rest m] by simp
qed

definition maskBlockScalars :: "string \<Rightarrow> string \<times> bool" where
  "maskBlockScalars content =
     (if \<not> match_string blockScalarSecretRE content then (content, False)
      else let (out, masked) = mask_lines (split_on (CHR 0x0A) content) in
        if masked then (join_with [CHR 0x0A] out, True) else (content, False))"


section \<open>The rules in their order\<close>

definition stage :: "rx \<Rightarrow> (rmatch \<Rightarrow> string) \<Rightarrow> string \<Rightarrow> string \<times> string \<Rightarrow> string \<times> string" where
  "stage r f label = (\<lambda>(masked, finding). (replace_all r f masked, if find_all r masked = [] then finding else label))"

text \<open>A callback that applies its own pattern again, to the text of the match alone.\<close>

definition again :: "rx \<Rightarrow> (rmatch \<Rightarrow> string) \<Rightarrow> rmatch \<Rightarrow> string" where
  "again r f m = replace_all r f (m_text m)"

text \<open>\<^verbatim>\<open>strings.IndexAny\<close>.\<close>

fun index_where :: "(char \<Rightarrow> bool) \<Rightarrow> string \<Rightarrow> nat option" where
  "index_where P [] = None"
| "index_where P (c # cs) = (if P c then Some 0 else map_option Suc (index_where P cs))"

definition assignment_masked :: "rmatch \<Rightarrow> string" where
  "assignment_masked m =
     (case index_where (\<lambda>c. c \<in> set '':='') (m_text m) of
        None \<Rightarrow> redacted
      | Some at \<Rightarrow> take (at + 1) (m_text m) @ '' '' @ redacted)"

definition mask_assignment :: "string \<times> string \<Rightarrow> string \<times> string" where
  "mask_assignment = stage secretAssignmentRE assignment_masked ''credential_assignment''"

definition mask_aws :: "string \<times> string \<Rightarrow> string \<times> string" where
  "mask_aws = stage awsKeyRE (\<lambda>_. redacted) ''cloud_access_key''"

definition mask_token :: "string \<times> string \<Rightarrow> string \<times> string" where
  "mask_token = stage knownTokenRE (\<lambda>_. redacted) ''known_token''"

definition mask_url :: "string \<times> string \<Rightarrow> string \<times> string" where
  "mask_url = stage credentialURLRE (again credentialURLRE (\<lambda>m. group_of m 1 @ redacted @ ''@'')) ''credential_dsn''"

definition mask_oracle :: "string \<times> string \<Rightarrow> string \<times> string" where
  "mask_oracle = stage oracleDSNRE (again oracleDSNRE (\<lambda>m. group_of m 1 @ redacted @ ''@'')) ''credential_dsn''"

definition mask_element :: "string \<times> string \<Rightarrow> string \<times> string" where
  "mask_element = stage xmlSecretElementRE
     (again xmlSecretElementRE (\<lambda>m. ''<'' @ group_of m 1 @ ''>'' @ redacted @ ''</'')) ''credential_assignment''"

definition mask_attribute :: "string \<times> string \<Rightarrow> string \<times> string" where
  "mask_attribute = stage xmlSecretAttributeRE
     (again xmlSecretAttributeRE (\<lambda>m. group_of m 1 @ redacted @ dquote)) ''credential_assignment''"

definition mask_curl :: "string \<times> string \<Rightarrow> string \<times> string" where
  "mask_curl = stage curlUserRE (again curlUserRE (\<lambda>m. group_of m 1 @ redacted)) ''credential_assignment''"

definition mask_netrc :: "string \<times> string \<Rightarrow> string \<times> string" where
  "mask_netrc = stage netrcRE (again netrcRE (\<lambda>m. group_of m 1 @ redacted @ group_of m 2 @ redacted)) ''credential_assignment''"

definition mask_authorization :: "string \<times> string \<Rightarrow> string \<times> string" where
  "mask_authorization = stage authorizationHeaderRE
     (again authorizationHeaderRE (\<lambda>m. group_of m 1 @ group_of m 2 @ '' '' @ redacted)) ''credential_assignment''"

definition kept_candidate :: "(string \<Rightarrow> bool) \<Rightarrow> string \<Rightarrow> bool" where
  "kept_candidate entropy_high t \<longleftrightarrow> match_string commonHashRE t \<or> \<not> entropy_high t"

definition mask_entropy :: "(string \<Rightarrow> bool) \<Rightarrow> string \<times> string \<Rightarrow> string \<times> string" where
  "mask_entropy entropy_high = (\<lambda>(masked, finding).
     (replace_all entropyCandidateRE
        (\<lambda>m. if kept_candidate entropy_high (m_text m) then m_text m else ''[REDACTED_HIGH_ENTROPY]'') masked,
      if list_ex (\<lambda>m. \<not> kept_candidate entropy_high (m_text m)) (find_all entropyCandidateRE masked)
      then ''high_entropy_secret'' else finding))"

definition mask_blocks :: "string \<Rightarrow> string \<times> string" where
  "mask_blocks content = (case maskBlockScalars content of
     (masked, hidden) \<Rightarrow> (masked, if hidden then ''credential_assignment'' else []))"

definition Sanitize :: "(string \<Rightarrow> bool) \<Rightarrow> string \<Rightarrow> string \<times> string" where
  "Sanitize entropy_high content =
     (if match_string privateKeyRE content then ([], ''private_key'')
      else mask_entropy entropy_high (mask_authorization (mask_netrc (mask_curl (mask_attribute (mask_element
        (mask_oracle (mask_url (mask_token (mask_aws (mask_assignment (mask_blocks content))))))))))))"

section \<open>Block scalars are masked, line by line\<close>

definition in_block :: "nat \<Rightarrow> string \<Rightarrow> bool" where
  "in_block depth line \<longleftrightarrow> blank_line line \<or> depth < indent_of line"

lemma mask_body_facts:
  "mask_body depth ls = (body, rest, m) \<Longrightarrow>
     \<exists>n. length body = n \<and> rest = drop n ls \<and> n \<le> length ls \<and> (\<forall>j < n. in_block depth (ls ! j)) \<and>
       (n < length ls \<longrightarrow> \<not> in_block depth (ls ! n)) \<and>
       (\<forall>j < n. body ! j = (if blank_line (ls ! j) then ls ! j else mask_line (ls ! j))) \<and>
       (m \<longleftrightarrow> (\<exists>j < n. \<not> blank_line (ls ! j)))"
proof (induction ls arbitrary: body rest m)
  case (Cons l ls)
  obtain b r x where rec: "mask_body depth ls = (b, r, x)" by (cases "mask_body depth ls")
  show ?case
  proof (cases "in_block depth l")
    case True
    have parts: "body = (if blank_line l then l else mask_line l) # b" "rest = r" "m \<longleftrightarrow> x \<or> \<not> blank_line l"
      using Cons.prems rec True by (auto simp: in_block_def split: if_splits)
    note ih = Cons.IH [OF rec]
    have *: "(\<forall>j < Suc n. P j) \<longleftrightarrow> P 0 \<and> (\<forall>j < n. P (Suc j))" "(\<exists>j < Suc n. P j) \<longleftrightarrow> P 0 \<or> (\<exists>j < n. P (Suc j))" for n P
      by (auto simp: less_Suc_eq_0_disj)
    show ?thesis
      using ih True unfolding parts by (intro exI [of _ "Suc (length b)"]) (auto simp: *)
  next
    case False
    then show ?thesis using Cons.prems by (auto simp: in_block_def)
  qed
qed simp


lemma header_not_blank: "is_header l \<Longrightarrow> \<not> blank_line l"
proof -
  assume "is_header l"
  then obtain m where m: "find_match blockScalarSecretRE (fst (splitReturn l)) = Some m"
    by (auto simp: is_header_def match_string_def)
  have "uses_rune (byte_val CHR '':'') blockScalarSecretRE" by (simp add: blockScalarSecretRE_def lit_def)
  then have "CHR '':'' \<in> set (m_text m)" using walks_use [OF find_match_walks [OF m]] by (simp add: byte_val_def)
  then have "CHR '':'' \<in> set (fst (splitReturn l))" using walks_subset [OF find_match_walks [OF m]] by blast
  then have "CHR '':'' \<in> set (trim_space (fst (splitReturn l)))" by (intro trim_space_keeps) (simp_all add: visible_def)
  then show ?thesis by (auto simp: blank_line_def)
qed

text \<open>Line \<open>i\<close> is a header and everything behind it up to line \<open>j\<close> belongs to its block.\<close>

definition heads :: "string list \<Rightarrow> nat \<Rightarrow> nat \<Rightarrow> bool" where
  "heads ls i j \<longleftrightarrow> is_header (ls ! i) \<and> (\<forall>k. i < k \<longrightarrow> k \<le> j \<longrightarrow> in_block (indent_of (ls ! i)) (ls ! k))"

lemma heads_shift: "heads (xs @ ls) (length xs + i) (length xs + j) \<longleftrightarrow> heads ls i j"
proof -
  have "(\<forall>k. length xs + i < k \<longrightarrow> k \<le> length xs + j \<longrightarrow> P ((xs @ ls) ! k)) \<longleftrightarrow> (\<forall>k. i < k \<longrightarrow> k \<le> j \<longrightarrow> P (ls ! k))" for P
  proof (intro iffI allI impI)
    fix k assume *: "\<forall>k. length xs + i < k \<longrightarrow> k \<le> length xs + j \<longrightarrow> P ((xs @ ls) ! k)" "i < k" "k \<le> j"
    then show "P (ls ! k)" by (metis add_le_cancel_left add_less_cancel_left nth_append_length_plus)
  next
    fix k assume *: "\<forall>k. i < k \<longrightarrow> k \<le> j \<longrightarrow> P (ls ! k)" "length xs + i < k" "k \<le> length xs + j"
    then obtain k' where "k = length xs + k'" by (metis add_leE le_Suc_ex less_imp_le_nat)
    then show "P ((xs @ ls) ! k)" using * by simp
  qed
  then show ?thesis by (simp add: heads_def)
qed

definition blocks_masked :: "string list \<Rightarrow> string list \<Rightarrow> bool" where
  "blocks_masked ls out \<longleftrightarrow> length out = length ls \<and>
     (\<forall>j < length ls. out ! j = ls ! j \<or> \<not> blank_line (ls ! j) \<and> out ! j = mask_line (ls ! j) \<and> (\<exists>i < j. heads ls i j)) \<and>
     (\<forall>i j. i < j \<longrightarrow> j < length ls \<longrightarrow> heads ls i j \<longrightarrow> \<not> blank_line (ls ! j) \<longrightarrow> out ! j = mask_line (ls ! j))"

text \<open>A text in front whose lines head no block behind it leaves the rest as it was.\<close>

lemma blocks_behind:
  assumes "blocks_masked ls out" "length xs = length ys"
    "\<And>j. j < length xs \<Longrightarrow> ys ! j = xs ! j \<or> \<not> blank_line (xs ! j) \<and> ys ! j = mask_line (xs ! j) \<and> (\<exists>i < j. heads (xs @ ls) i j)"
    "\<And>i j. i < j \<Longrightarrow> j < length xs \<Longrightarrow> heads (xs @ ls) i j \<Longrightarrow> \<not> blank_line (xs ! j) \<Longrightarrow> ys ! j = mask_line (xs ! j)"
    "\<And>i j. i < length xs \<Longrightarrow> length xs \<le> j \<Longrightarrow> j < length (xs @ ls) \<Longrightarrow> \<not> heads (xs @ ls) i j"
  shows "blocks_masked (xs @ ls) (ys @ out)"
proof -
  let ?n = "length xs"
  have first: "(ys @ out) ! j = (xs @ ls) ! j \<or> \<not> blank_line ((xs @ ls) ! j) \<and> (ys @ out) ! j = mask_line ((xs @ ls) ! j)
      \<and> (\<exists>i < j. heads (xs @ ls) i j)" if j: "j < length (xs @ ls)" for j
  proof (cases "j < ?n")
    case True
    then show ?thesis using assms(2,3) by (simp add: nth_append)
  next
    case False
    then obtain d where d: "j = ?n + d" by (metis le_Suc_ex not_less)
    then have "out ! d = ls ! d \<or> \<not> blank_line (ls ! d) \<and> out ! d = mask_line (ls ! d) \<and> (\<exists>i < d. heads ls i d)"
      using assms(1) j unfolding blocks_masked_def by simp
    then show ?thesis
    proof
      assume "out ! d = ls ! d"
      then show ?thesis using d assms(2) by (simp add: nth_append)
    next
      assume *: "\<not> blank_line (ls ! d) \<and> out ! d = mask_line (ls ! d) \<and> (\<exists>i < d. heads ls i d)"
      then obtain i where "i < d" "heads ls i d" by blast
      then have "?n + i < j" "heads (xs @ ls) (?n + i) j" using d heads_shift [of xs ls i d] by simp_all
      then show ?thesis using * d assms(2) by (auto simp: nth_append)
    qed
  qed
  have second: "(ys @ out) ! j = mask_line ((xs @ ls) ! j)"
    if ij: "i < j" "j < length (xs @ ls)" "heads (xs @ ls) i j" "\<not> blank_line ((xs @ ls) ! j)" for i j
  proof (cases "j < ?n")
    case True
    then show ?thesis using assms(2,4) ij by (simp add: nth_append)
  next
    case False
    then have "?n \<le> i" using assms(5) ij by (metis not_less)
    then obtain i' d where d: "i = ?n + i'" "j = ?n + d" using False by (metis le_Suc_ex not_less)
    then have "out ! d = mask_line (ls ! d)"
      using assms(1) ij heads_shift [of xs ls i' d] unfolding blocks_masked_def by simp
    then show ?thesis using d assms(2) by (simp add: nth_append)
  qed
  have "length (ys @ out) = length (xs @ ls)" using assms(1,2) by (simp add: blocks_masked_def)
  with first second show ?thesis unfolding blocks_masked_def by blast
qed

lemma header_block:
  assumes "is_header l" "mask_body (indent_of l) ls = (body, rest, m)" "blocks_masked rest out"
  shows "blocks_masked (l # ls) (l # body @ out)"
proof -
  define n where "n = length body"
  have b: "rest = drop n ls" "n \<le> length ls" "\<And>j. j < n \<Longrightarrow> in_block (indent_of l) (ls ! j)"
    "n < length ls \<Longrightarrow> \<not> in_block (indent_of l) (ls ! n)"
    "\<And>j. j < n \<Longrightarrow> body ! j = (if blank_line (ls ! j) then ls ! j else mask_line (ls ! j))"
    using mask_body_facts [OF assms(2)] n_def by auto
  define xs where "xs = l # take n ls"
  have whole: "l # ls = xs @ rest" "length xs = Suc n" using b(1,2) by (simp_all add: xs_def)
  have at: "(l # ls) ! Suc j = ls ! j" "j < n \<Longrightarrow> xs ! Suc j = ls ! j" for j by (simp_all add: xs_def)
  have top: "heads (l # ls) 0 j" if "j < Suc n" for j
    unfolding heads_def using assms(1) b(3) that by (auto simp: gr0_conv_Suc)
  have depth: "indent_of l \<le> indent_of ((l # ls) ! i)" if "i < Suc n" "is_header ((l # ls) ! i)" for i
  proof (cases i)
    case (Suc i')
    then have "in_block (indent_of l) (ls ! i')" using b(3) that(1) by simp
    then show ?thesis using header_not_blank [OF that(2)] Suc by (simp add: in_block_def)
  qed simp
  have "blocks_masked (xs @ rest) ((l # body) @ out)"
  proof (rule blocks_behind [OF assms(3)])
    fix j assume j: "j < length xs"
    show "(l # body) ! j = xs ! j \<or> \<not> blank_line (xs ! j) \<and> (l # body) ! j = mask_line (xs ! j) \<and> (\<exists>i < j. heads (xs @ rest) i j)"
    proof (cases j)
      case (Suc j')
      then have "(l # body) ! j = (if blank_line (xs ! j) then xs ! j else mask_line (xs ! j))"
        using b(5) [of j'] at(2) [of j'] j whole(2) by simp
      moreover have "0 < j" "heads (xs @ rest) 0 j" using top [of j] j whole Suc by simp_all
      ultimately show ?thesis by auto
    qed (simp add: xs_def)
  next
    fix i j assume "i < j" "j < length xs" "\<not> blank_line (xs ! j)"
    then show "(l # body) ! j = mask_line (xs ! j)"
      using b(5) [of "j - 1"] at(2) [of "j - 1"] whole(2) by (cases j) simp_all
  next
    fix i j assume ij: "i < length xs" "length xs \<le> j" "j < length (xs @ rest)"
    show "\<not> heads (xs @ rest) i j"
    proof
      assume "heads (xs @ rest) i j"
      then have h: "is_header ((l # ls) ! i)" "in_block (indent_of ((l # ls) ! i)) (ls ! n)"
        unfolding heads_def whole(1) [symmetric] using ij whole(2) by (auto dest: spec [of _ "Suc n"])
      have "n < length ls" using ij(2,3) whole(2) b(1,2) by (cases "n = length ls") simp_all
      then have "\<not> blank_line (ls ! n)" "indent_of (ls ! n) \<le> indent_of l" using b(4) by (auto simp: in_block_def)
      then show False using h depth [of i] ij(1) whole(2) by (auto simp: in_block_def)
    qed
  qed (simp add: whole(2) n_def)
  then show ?thesis using whole(1) by simp
qed

lemma mask_lines_blocks: "mask_lines ls = (out, m) \<Longrightarrow> blocks_masked ls out \<and> (\<not> m \<longrightarrow> out = ls)"
proof (induction ls arbitrary: out m rule: mask_lines.induct)
  case (2 l ls)
  show ?case
  proof (cases "is_header l")
    case False
    obtain o' m' where rec: "mask_lines ls = (o', m')" by (cases "mask_lines ls")
    have out: "out = l # o'" "m = m'" using 2(3) rec False by simp_all
    have ih: "blocks_masked ls o'" "\<not> m' \<longrightarrow> o' = ls" using 2(2) [OF False rec] by auto
    have "blocks_masked ([l] @ ls) ([l] @ o')"
      by (rule blocks_behind [OF ih(1)]) (use False in \<open>auto simp: heads_def\<close>)
    then show ?thesis using ih out by simp
  next
    case True
    obtain body rest mb where body: "mask_body (indent_of l) ls = (body, rest, mb)" by (cases "mask_body (indent_of l) ls")
    obtain o' m' where rec: "mask_lines rest = (o', m')" by (cases "mask_lines rest")
    have out: "out = l # body @ o'" "m \<longleftrightarrow> mb \<or> m'" using 2(3) rec True body by simp_all
    have ih: "blocks_masked rest o'" "\<not> m' \<longrightarrow> o' = rest" using 2(1) [OF True body [symmetric] refl refl rec] by auto
    have "out = l # ls" if "\<not> m"
    proof -
      have same: "o' = rest" "\<not> mb" using that out(2) ih(2) by auto
      then have "body @ rest = ls" using mask_body_facts [OF body] by (auto intro!: nth_equalityI simp: nth_append)
      then show ?thesis using out(1) same by simp
    qed
    then show ?thesis using header_block [OF True body ih(1)] out(1) by blast
  qed
qed (simp add: blocks_masked_def)

section \<open>A line that is a header is one in the text\<close>

text \<open>
  What a pattern does on a line it does on the text around it too, as long as its edges hold
  there: in front of the line is the start of the text or a line feed, and behind it a rune of
  which \<open>T\<close> holds.
\<close>

definition prev_ok :: "nat option \<Rightarrow> nat option \<Rightarrow> bool" where
  "prev_ok p p' \<longleftrightarrow> p' = p \<or> p = None \<and> p' = Some 10"

definition next_ok :: "(nat option \<Rightarrow> bool) \<Rightarrow> nat option \<Rightarrow> nat option \<Rightarrow> bool" where
  "next_ok T n n' \<longleftrightarrow> n' = n \<or> n = None \<and> T n'"

fun robust :: "(nat option \<Rightarrow> bool) \<Rightarrow> rx \<Rightarrow> bool" where
  "robust T (Edge P) \<longleftrightarrow> (\<forall>p p' n n'. prev_ok p p' \<longrightarrow> next_ok T n n' \<longrightarrow> P p n \<longrightarrow> P p' n')"
| "robust T (Cat a b) \<longleftrightarrow> robust T a \<and> robust T b"
| "robust T (Or a b) \<longleftrightarrow> robust T a \<and> robust T b"
| "robust T (Rep g a) \<longleftrightarrow> robust T a"
| "robust T (Grp i a) \<longleftrightarrow> robust T a"
| "robust T _ \<longleftrightarrow> True"

lemma robust_seqs [simp]: "robust T (seqs rs) \<longleftrightarrow> list_all (robust T) rs"
  by (induction rs rule: seqs.induct) auto

lemma robust_alts [simp]: "robust T (alts rs) \<longleftrightarrow> list_all (robust T) rs"
  by (induction rs rule: alts.induct) auto

lemma robust_shorthands [simp]:
  "robust T (many r) \<longleftrightarrow> robust T r" "robust T (some r) \<longleftrightarrow> robust T r" "robust T (maybe r) \<longleftrightarrow> robust T r"
  "robust T (lit s)" "robust T (ilit s)" "robust T line_start" "robust (\<lambda>n. n = None \<or> n = Some 10) line_end"
  by (auto simp: many_def some_def maybe_def lit_def ilit_def list_all_iff line_start_def line_end_def prev_ok_def next_ok_def)

lemma next_rune_append: "T (next_rune tail) \<Longrightarrow> next_ok T (next_rune cs) (next_rune (cs @ tail))"
  by (cases cs) (simp_all add: next_ok_def next_rune_def)

lemma moves_embed:
  "(st, st') \<in> moves r \<Longrightarrow> robust T r \<Longrightarrow> T (next_rune tail) \<Longrightarrow> prev_ok (fst st) p \<Longrightarrow>
     \<exists>q. prev_ok (fst st') q \<and> ((p, snd st @ tail), (q, snd st' @ tail)) \<in> moves r"
proof (induction r arbitrary: st st' p)
  case (Sym P)
  then obtain c where "snd st = c # snd st'" "fst st' = Some (fst c)" "P (fst c)" by auto
  then show ?case by (cases c) (auto simp: prev_ok_def)
next
  case (Cat a b)
  then obtain u where u: "(st, u) \<in> moves a" "(u, st') \<in> moves b" by auto
  obtain q where q: "prev_ok (fst u) q" "((p, snd st @ tail), (q, snd u @ tail)) \<in> moves a"
    using Cat.IH(1) [OF u(1)] Cat.prems by auto
  obtain q' where "prev_ok (fst st') q'" "((q, snd u @ tail), (q', snd st' @ tail)) \<in> moves b"
    using Cat.IH(2) [OF u(2)] Cat.prems q(1) by auto
  then show ?case using q(2) by auto
next
  case (Or a b)
  from Or.prems(1) have "(st, st') \<in> moves a \<or> (st, st') \<in> moves b" by simp
  then show ?case
  proof
    assume "(st, st') \<in> moves a"
    from Or.IH(1) [OF this] Or.prems show ?case by auto
  next
    assume "(st, st') \<in> moves b"
    from Or.IH(2) [OF this] Or.prems show ?case by auto
  qed
next
  case (Rep g r)
  from Rep.prems(1) have "(st, st') \<in> (moves r)\<^sup>*" by simp
  then have "\<exists>q. prev_ok (fst st') q \<and> ((p, snd st @ tail), (q, snd st' @ tail)) \<in> (moves r)\<^sup>*"
  proof (induction rule: rtrancl_induct)
    case base
    then show ?case using Rep.prems(4) by blast
  next
    case (step y z)
    then obtain q where q: "prev_ok (fst y) q" "((p, snd st @ tail), (q, snd y @ tail)) \<in> (moves r)\<^sup>*" by blast
    obtain q' where "prev_ok (fst z) q'" "((q, snd y @ tail), (q', snd z @ tail)) \<in> moves r"
      using Rep.IH [OF step(2) _ Rep.prems(3) q(1)] Rep.prems(2) by auto
    then show ?case using q(2) by (meson rtrancl.rtrancl_into_rtrancl)
  qed
  then show ?case by simp
next
  case (Edge P)
  then have "st' = st" "P (fst st) (next_rune (snd st))" by auto
  moreover have "P p (next_rune (snd st @ tail))"
    using Edge.prems calculation next_rune_append [of T tail "snd st"] by simp
  ultimately show ?case using Edge.prems by auto
qed auto

lemma moves_seqs_append: "ys \<noteq> [] \<Longrightarrow> moves (seqs (xs @ ys)) = moves (seqs xs) O moves (seqs ys)"
proof (induction xs rule: seqs.induct)
  case (2 r)
  then show ?case by (cases ys) auto
qed auto

lemma join_with_middle:
  "join_with sep (us @ l # vs) = (if us = [] then [] else join_with sep us @ sep) @ l @ (if vs = [] then [] else sep @ join_with sep vs)"
proof (induction us)
  case Nil
  then show ?case by (cases vs) simp_all
next
  case (Cons u us)
  then show ?case by (cases us) (simp_all add: join_with_Cons)
qed

lemma split_on_member:
  assumes "l \<in> set (split_on c s)"
  shows "\<exists>a b. s = a @ l @ b \<and> (a = [] \<or> last a = c) \<and> (b = [] \<or> hd b = c)"
proof -
  obtain us vs where "split_on c s = us @ l # vs" using assms by (meson split_list)
  then have "s = (if us = [] then [] else join_with [c] us @ [c]) @ l @ (if vs = [] then [] else [c] @ join_with [c] vs)"
    using join_split [of c s] join_with_middle [of "[c]" us l vs] by simp
  then show ?thesis by (intro exI conjI) (assumption, auto)
qed

definition block_front :: "rx list" where
  "block_front = [line_start, Grp 1 (many blank), maybe (seqs [lit ''-'', some blank]), maybe quote_mark,
     secretNames, maybe quote_mark, many blank, lit '':'', many blank, Sym (among ''|>''),
     many (Sym (\<lambda>x. among ''-+'' x \<or> digit_rune x)), many blank, maybe (seqs [lit ''#'', many (none_of line_break)])]"

lemma block_parts: "blockScalarSecretRE = seqs (block_front @ [maybe (lit [CHR 0x0D]), line_end])"
  by (simp add: blockScalarSecretRE_def block_front_def)

lemma block_front_robust: "list_all (robust T) block_front"
  by (simp add: block_front_def secretNames_def dash_or_underscore_def quote_mark_def blank_def none_of_def)

lemma cells_split: "w = [] \<or> byte_val (hd w) < 128 \<Longrightarrow> cells (s @ w) = cells s @ cells w"
  by (cases w) (simp_all add: cells_append_ascii cells_ascii)

lemma cells_split_right: "a = [] \<or> byte_val (last a) < 128 \<Longrightarrow> cells (a @ s) = cells a @ cells s"
  by (cases a rule: rev_cases) (simp_all add: cells_append_ascii cells_ascii)

lemma cr_val: "byte_val (CHR 0x0D) = 13" and one_less_128: "byte_val (CHR 0x0D) < 128"
  by (simp_all add: byte_val_def)

lemma header_in_content:
  assumes l: "l \<in> set (split_on (CHR 0x0A) content)" "is_header l" "\<not> has_suffix l [CHR 0x0D, CHR 0x0D]"
  shows "match_string blockScalarSecretRE content"
proof -
  obtain a b where ab: "content = a @ l @ b" "a = [] \<or> last a = CHR 0x0A" "b = [] \<or> hd b = CHR 0x0A"
    using split_on_member [OF l(1)] by blast
  obtain h w where h: "splitReturn l = (h, w)" by (cases "splitReturn l")
  have lw: "l = h @ w" "w = [] \<or> w = [CHR 0x0D]" "\<not> has_suffix h [CHR 0x0D] \<or> w = []"
    using h l(3) by (auto simp: splitReturn_def suffix_def split: if_splits)
  have edge: "w @ b = [] \<or> byte_val (hd (w @ b)) < 128" using ab(3) lw(2) by (auto simp: byte_val_def)
  have cs: "cells content = cells a @ cells h @ cells (w @ b)"
    using cells_split_right [of a "h @ w @ b"] cells_split [of "w @ b" h] ab edge lw(1) by (auto simp: byte_val_def)
  obtain st st' where m: "along (None, cells h) st" "(st, st') \<in> moves blockScalarSecretRE"
    using l(2) h by (auto simp: is_header_def match_string_iff)
  obtain pre where pre: "cells h = pre @ snd st" "fst st = (if pre = [] then None else Some (fst (last pre)))"
    using m(1) by (auto simp: along_def)
  define p where "p = (if pre @ cells a = [] then None else Some (fst (last (cells a @ pre))))"
  have last_a: "fst (last (cells a)) = 10" if "cells a \<noteq> []"
  proof -
    have "a \<noteq> []" using that by auto
    then have "a = butlast a @ [CHR 0x0A]" using ab(2) by (metis append_butlast_last_id)
    moreover have "cells (butlast a @ [CHR 0x0A]) = cells (butlast a) @ [(10, [CHR 0x0A])]"
      using cells_append_ascii [of "CHR 0x0A" "butlast a" "[]"] by (simp add: byte_val_def)
    ultimately show ?thesis by (metis fst_conv last_snoc)
  qed
  have p: "prev_ok (fst st) p" using pre(2) last_a by (auto simp: p_def prev_ok_def)
  have place: "along (None, cells content) (p, snd st @ cells (w @ b))"
    unfolding along_def using cs pre(1) by (intro exI [of _ "cells a @ pre"]) (auto simp: p_def)
  obtain u v where uv: "(st, u) \<in> moves (seqs block_front)" "(u, v) \<in> moves (maybe (lit [CHR 0x0D]))" "(v, st') \<in> moves line_end"
    using m(2) unfolding block_parts moves_seqs_append [OF list.distinct(2)] by auto
  obtain q where q: "prev_ok (fst u) q" "((p, snd st @ cells (w @ b)), (q, snd u @ cells (w @ b))) \<in> moves (seqs block_front)"
    using moves_embed [OF uv(1), of "\<lambda>_. True" "cells (w @ b)" p] block_front_robust p by auto
  have lf: "CHR 0x0A \<notin> set h" using split_on_no_sep [OF l(1)] lw(1) by auto
  have no10: "10 \<notin> fst ` set (cells h)"
  proof
    assume "10 \<in> fst ` set (cells h)"
    then obtain t where "(10, t) \<in> set (cells h)" by auto
    then have "CHR 0x0A \<in> set t" "t \<in> set (map snd (cells h))"
      using cells_ascii_bytes [of 10 t h "CHR 0x0A"] by (auto simp: byte_val_def image_iff) force
    then have "CHR 0x0A \<in> set (text_of (cells h))" by (auto simp: text_of_def)
    then show False using lf by simp
  qed
  obtain pre' where pre': "cells h = pre' @ snd v"
    using m(1) moves_along [OF uv(1)] moves_along [OF uv(2)] along_trans by (auto simp: along_def)
  have "next_rune (snd v) = None \<or> next_rune (snd v) = Some 10" "st' = v" using uv(3) by (auto simp: line_end_def)
  moreover have "next_rune (snd v) \<noteq> Some 10" using no10 pre' by (cases "snd v") (auto simp: next_rune_def)
  ultimately have v: "snd v = []" by (auto simp: next_rune_def split: list.splits)
  have endb: "next_rune (cells b) = None \<or> next_rune (cells b) = Some 10"
    using ab(3) by (cases b) (auto simp: next_rune_def cells_ascii byte_val_def)
  have "\<exists>x. ((q, snd u @ cells (w @ b)), x) \<in> moves (seqs [maybe (lit [CHR 0x0D]), line_end])"
  proof (cases "w = []")
    case True
    have "robust (\<lambda>n. n = None \<or> n = Some 10) (seqs [maybe (lit [CHR 0x0D]), line_end])" by simp
    moreover have "(u, st') \<in> moves (seqs [maybe (lit [CHR 0x0D]), line_end])" using uv(2,3) by auto
    ultimately have "\<exists>x. ((q, snd u @ cells b), (x, snd st' @ cells b)) \<in> moves (seqs [maybe (lit [CHR 0x0D]), line_end])"
      using moves_embed [of u st' _ "\<lambda>n. n = None \<or> n = Some 10" "cells b" q] endb q(1) by blast
    then show ?thesis unfolding True append_Nil by blast
  next
    case False
    then have w: "w = [CHR 0x0D]" using lw(2) by simp
    have "snd u = []"
    proof (rule ccontr)
      assume "snd u \<noteq> []"
      then obtain c where c: "snd u = [c]" "fst c = 13"
        using uv(2) v by (auto simp: maybe_def lit_def byte_val_def)
      then have "c \<in> set (cells h)" "last (cells h) = c"
        using m(1) moves_along [OF uv(1)] along_trans [of "(None, cells h)" st u] by (auto simp: along_def)
      then have "snd c = [CHR 0x0D]"
        using cells_ascii_bytes [of 13 "snd c" h "CHR 0x0D"] c(2) by (metis cr_val prod.collapse one_less_128)
      moreover have "h = text_of (butlast (cells h) @ [c])"
        using \<open>last (cells h) = c\<close> \<open>c \<in> set (cells h)\<close> by (metis append_butlast_last_id empty_iff list.set(1) text_of_cells)
      ultimately have "has_suffix h [CHR 0x0D]" by (metis suffixI text_of_simps append_Nil2)
      then show False using lw(3) w by simp
    qed
    moreover have "((q, (13, [CHR 0x0D]) # cells b), (Some 13, cells b)) \<in> moves (maybe (lit [CHR 0x0D]))"
      by (simp add: maybe_def lit_def byte_val_def)
    moreover have "((Some 13, cells b), (Some 13, cells b)) \<in> moves line_end" using endb by (simp add: line_end_def)
    ultimately show ?thesis using w by (auto simp: cells_ascii byte_val_def)
  qed
  then have "\<exists>x. ((p, snd st @ cells (w @ b)), x) \<in> moves blockScalarSecretRE"
    using q(2) unfolding block_parts moves_seqs_append [OF list.distinct(2)] by blast
  then show ?thesis using place unfolding match_string_iff by blast
qed


section \<open>Properties\<close>

lemma splitReturn_join: "fst (splitReturn l) @ snd (splitReturn l) = l"
  by (auto simp: splitReturn_def suffix_def)

lemma mask_line_subset: "set (mask_line l) \<subseteq> set l \<union> set redacted"
proof -
  have "set (take n (fst (splitReturn l))) \<union> set (snd (splitReturn l)) \<subseteq> set l" for n
    using splitReturn_join [of l] by (metis Un_mono set_append set_take_subset order_refl)
  then show ?thesis unfolding mask_line_def by (auto dest: in_set_takeD)
qed

lemma blocks_no_feed:
  assumes "blocks_masked ls out" "\<forall>l \<in> set ls. CHR 0x0A \<notin> set l" "o' \<in> set out"
  shows "CHR 0x0A \<notin> set o'"
proof -
  obtain j where "j < length ls" "o' = out ! j" using assms(1,3) by (auto simp: blocks_masked_def in_set_conv_nth)
  then have "o' = ls ! j \<or> o' = mask_line (ls ! j)" "CHR 0x0A \<notin> set (ls ! j)"
    using assms(1,2) by (auto simp: blocks_masked_def)
  then show ?thesis using mask_line_subset [of "ls ! j"] by (auto simp: redacted_def)
qed

lemma blocks_in_place:
  assumes "\<forall>l \<in> set (split_on (CHR 0x0A) content). \<not> has_suffix l [CHR 0x0D, CHR 0x0D]"
  shows "blocks_masked (split_on (CHR 0x0A) content) (split_on (CHR 0x0A) (fst (maskBlockScalars content)))"
proof (cases "match_string blockScalarSecretRE content")
  case False
  then have "\<not> is_header l" if "l \<in> set (split_on (CHR 0x0A) content)" for l
    using header_in_content [OF that] assms that by blast
  then have "\<not> heads (split_on (CHR 0x0A) content) i j" if "i < length (split_on (CHR 0x0A) content)" for i j
    using that by (simp add: heads_def)
  then have "blocks_masked (split_on (CHR 0x0A) content) (split_on (CHR 0x0A) content)"
    unfolding blocks_masked_def by (meson less_trans)
  then show ?thesis using False by (simp add: maskBlockScalars_def)
next
  case True
  obtain out m where out: "mask_lines (split_on (CHR 0x0A) content) = (out, m)" by fastforce
  note masked = mask_lines_blocks [OF out]
  then have "out \<noteq> []" unfolding blocks_masked_def by (metis length_0_conv split_on_ne)
  then have "split_on (CHR 0x0A) (join_with [CHR 0x0A] out) = out"
    using blocks_no_feed masked split_on_no_sep by (intro split_join) blast+
  then show ?thesis using True out masked by (auto simp: maskBlockScalars_def)
qed

text \<open>
  The column at which the key of a line stands: behind the blanks in front, and behind the dash of
  a list item with the blanks that follow it. In YAML the block of a key is what stands deeper than
  the key.
\<close>

definition key_column :: "string \<Rightarrow> nat" where
  "key_column line =
     (case drop (indent_of line) line of
        d # b # behind \<Rightarrow>
          if d = CHR ''-'' \<and> b \<in> {CHR '' '', CHR 0x09}
          then indent_of line + 2 + length (takeWhile (\<lambda>c. c \<in> {CHR '' '', CHR 0x09}) behind)
          else indent_of line
      | _ \<Rightarrow> indent_of line)"

definition is_item :: "string \<Rightarrow> bool" where
  "is_item line \<longleftrightarrow> indent_of line < key_column line"

text \<open>Line \<open>i\<close> gives a block scalar to a credential, and behind it up to line \<open>j\<close> all is deeper than a column.\<close>

definition deeper_than :: "nat \<Rightarrow> string list \<Rightarrow> nat \<Rightarrow> nat \<Rightarrow> bool" where
  "deeper_than column ls i j \<longleftrightarrow> is_header (ls ! i) \<and>
     (\<forall>k. i < k \<longrightarrow> k \<le> j \<longrightarrow> blank_line (ls ! k) \<or> column < indent_of (ls ! k))"

lemma key_behind_indent: "indent_of l \<le> key_column l"
  by (simp add: key_column_def split: list.split)

lemma heads_by_column: "heads ls i j \<longleftrightarrow> deeper_than (indent_of (ls ! i)) ls i j"
  by (simp add: heads_def deeper_than_def in_block_def)

lemma deeper_key_heads: "deeper_than (key_column (ls ! i)) ls i j \<Longrightarrow> heads ls i j"
  unfolding heads_by_column deeper_than_def using key_behind_indent [of "ls ! i"] by (meson le_less_trans)

lemma not_item_column: "\<not> is_item l \<Longrightarrow> key_column l = indent_of l"
  using key_behind_indent [of l] by (simp add: is_item_def)

text \<open>
  C15: the body of every block scalar that is given to a credential field is masked. Masking keeps
  every line of the text in its place. A line with content in the block of such a key, that is,
  deeper than the key with everything between, is replaced by the mark, with its indentation and
  its line ending. Every line that is changed is replaced in this way, and it is in the block of
  such a key or below one that is the first key of a list item: there the code masks what is deeper
  than the dash, the later keys of the item included (\<open>item_siblings_masked\<close>). The one shape left
  out is a line that ends in two carriage returns.
\<close>

theorem block_scalars_masked:
  assumes "\<forall>l \<in> set (split_on (CHR 0x0A) content). \<not> has_suffix l [CHR 0x0D, CHR 0x0D]"
    and "ls = split_on (CHR 0x0A) content" "out = split_on (CHR 0x0A) (fst (maskBlockScalars content))"
  shows "length out = length ls \<and>
     (\<forall>i j. i < j \<longrightarrow> j < length ls \<longrightarrow> deeper_than (key_column (ls ! i)) ls i j \<longrightarrow> \<not> blank_line (ls ! j) \<longrightarrow>
        out ! j = mask_line (ls ! j)) \<and>
     (\<forall>j < length ls. out ! j \<noteq> ls ! j \<longrightarrow> \<not> blank_line (ls ! j) \<and> out ! j = mask_line (ls ! j) \<and>
        (\<exists>i < j. deeper_than (key_column (ls ! i)) ls i j \<or>
           is_item (ls ! i) \<and> deeper_than (indent_of (ls ! i)) ls i j))"
proof -
  have b: "blocks_masked ls out" using blocks_in_place [OF assms(1)] assms(2,3) by simp
  have "deeper_than (key_column (ls ! i)) ls i j \<or> is_item (ls ! i) \<and> deeper_than (indent_of (ls ! i)) ls i j"
    if "heads ls i j" for i j
    using that not_item_column [of "ls ! i"] by (auto simp: heads_by_column)
  then show ?thesis using b deeper_key_heads unfolding blocks_masked_def by meson
qed

text \<open>How many line feeds a text has.\<close>

abbreviation feeds :: "string \<Rightarrow> nat" where
  "feeds s \<equiv> count_list s (CHR 0x0A)"

lemma feeds_none: "feeds s = 0 \<longleftrightarrow> CHR 0x0A \<notin> set s"
  by (auto simp: count_list_0_iff)

lemma feeds_split: "Suc (feeds s) = length (split_on (CHR 0x0A) s)"
proof (induction s)
  case (Cons c s)
  then show ?case by (cases "split_on (CHR 0x0A) s") auto
qed simp

text \<open>Rules whose pattern stays inside a line and whose replacement does too.\<close>

lemma stage_feeds:
  assumes "avoids 10 r" "\<And>m. m \<in> set (find_all r (fst x)) \<Longrightarrow> CHR 0x0A \<notin> set (m_text m) \<Longrightarrow> CHR 0x0A \<notin> set (f m)"
  shows "feeds (fst (stage r f label x)) = feeds (fst x)"
proof -
  have "feeds (f m) = feeds (m_text m)" if "m \<in> set (find_all r (fst x))" for m
  proof -
    have "CHR 0x0A \<notin> set (m_text m)"
      using walks_avoid [OF find_all_walks [OF that], of "CHR 0x0A"] assms(1) by (simp add: byte_val_def)
    then show ?thesis using assms(2) [OF that] feeds_none by simp
  qed
  then show ?thesis by (simp add: stage_def case_prod_beta replace_all_count)
qed

lemma again_no_feed:
  assumes "CHR 0x0A \<notin> set (m_text m)" "\<And>m'. (\<forall>i. CHR 0x0A \<notin> set (group_of m' i)) \<Longrightarrow> CHR 0x0A \<notin> set (f m')"
  shows "CHR 0x0A \<notin> set (again r f m)"
proof -
  have "CHR 0x0A \<notin> set (f m')" if "m' \<in> set (find_all r (m_text m))" for m'
    using assms find_all_groups [OF that] by blast
  then show ?thesis using replace_all_subset [of r f "m_text m"] assms(1) unfolding again_def by blast
qed

lemmas line_patterns = secretAssignmentRE_def secretNames_def dash_or_underscore_def quote_mark_def blank_def none_of_def
  nonspace_but_def awsKeyRE_def knownTokenRE_def token_rune_def alnum_def credentialURLRE_def oracleDSNRE_def entropyCandidateRE_def
  line_break_def

lemma patterns_stay_in_line:
  "avoids 10 secretAssignmentRE" "avoids 10 awsKeyRE" "avoids 10 knownTokenRE" "avoids 10 credentialURLRE" "avoids 10 oracleDSNRE"
  "avoids 10 entropyCandidateRE"
  by (simp_all add: line_patterns avoids_exactly among_def byte_val_def folded_def upper_rune_def lower_rune_def digit_rune_def
      letter_rune_def alnum_rune_def space_rune_def dquote_def squote_def)

lemma assignment_no_feed: "CHR 0x0A \<notin> set (m_text m) \<Longrightarrow> CHR 0x0A \<notin> set (assignment_masked m)"
  by (auto simp: assignment_masked_def redacted_def dest: in_set_takeD split: option.split)

lemma line_stages_feeds [simp]:
  "feeds (fst (mask_assignment x)) = feeds (fst x)" "feeds (fst (mask_aws x)) = feeds (fst x)"
  "feeds (fst (mask_token x)) = feeds (fst x)" "feeds (fst (mask_url x)) = feeds (fst x)"
  "feeds (fst (mask_oracle x)) = feeds (fst x)" "feeds (fst (mask_entropy e x)) = feeds (fst x)"
proof -
  show "feeds (fst (mask_assignment x)) = feeds (fst x)" unfolding mask_assignment_def
    by (rule stage_feeds) (simp_all add: patterns_stay_in_line assignment_no_feed)
  show "feeds (fst (mask_aws x)) = feeds (fst x)" unfolding mask_aws_def
    by (rule stage_feeds) (simp_all add: patterns_stay_in_line redacted_def)
  show "feeds (fst (mask_token x)) = feeds (fst x)" unfolding mask_token_def
    by (rule stage_feeds) (simp_all add: patterns_stay_in_line redacted_def)
  show "feeds (fst (mask_url x)) = feeds (fst x)" unfolding mask_url_def
    by (rule stage_feeds) (simp_all add: patterns_stay_in_line again_no_feed redacted_def)
  show "feeds (fst (mask_oracle x)) = feeds (fst x)" unfolding mask_oracle_def
    by (rule stage_feeds) (simp_all add: patterns_stay_in_line again_no_feed redacted_def)
  have "feeds (if kept_candidate e (m_text m) then m_text m else ''[REDACTED_HIGH_ENTROPY]'') = feeds (m_text m)"
    if "m \<in> set (find_all entropyCandidateRE (fst x))" for m
  proof -
    have "CHR 0x0A \<notin> set (m_text m)"
      using walks_avoid [OF find_all_walks [OF that], of "CHR 0x0A"] patterns_stay_in_line by (simp add: byte_val_def)
    then show ?thesis by (simp add: count_list_0_iff)
  qed
  then show "feeds (fst (mask_entropy e x)) = feeds (fst x)"
    by (simp add: mask_entropy_def case_prod_beta replace_all_count)
qed

lemma mask_lines_length: "length (fst (mask_lines ls)) = length ls"
  using mask_lines_blocks [of ls "fst (mask_lines ls)" "snd (mask_lines ls)"] by (simp add: blocks_masked_def)

lemma blocks_feeds [simp]: "feeds (fst (mask_blocks content)) = feeds content"
proof -
  obtain out m where out: "mask_lines (split_on (CHR 0x0A) content) = (out, m)" by fastforce
  have masked: "blocks_masked (split_on (CHR 0x0A) content) out" using mask_lines_blocks [OF out] by simp
  then have "out \<noteq> []" unfolding blocks_masked_def by (metis length_0_conv split_on_ne)
  then have "split_on (CHR 0x0A) (join_with [CHR 0x0A] out) = out"
    using blocks_no_feed [OF masked] split_on_no_sep by (intro split_join) blast+
  then have "Suc (feeds (join_with [CHR 0x0A] out)) = Suc (feeds content)"
    unfolding feeds_split using masked by (simp add: blocks_masked_def)
  then show ?thesis using out by (auto simp: mask_blocks_def maskBlockScalars_def split: prod.splits)
qed

lemma stage_absent: "\<not> match_string r (fst x) \<Longrightarrow> stage r f label x = x"
proof -
  assume "\<not> match_string r (fst x)"
  then have "pieces r (fst x) = ([], fst x)"
    by (cases "find_from r None (cells (fst x))") (simp_all add: match_string_def find_match_def pieces_def pieces_from.simps [of r True] split: prod.splits)
  then show ?thesis by (cases x) (simp add: stage_def find_all_def replace_all_def)
qed

text \<open>The text as the rules that stay inside a line leave it.\<close>

definition line_rules :: "string \<Rightarrow> string \<times> string" where
  "line_rules content = mask_oracle (mask_url (mask_token (mask_aws (mask_assignment (mask_blocks content)))))"

text \<open>
  Masking keeps the numbering of lines. If no XML element or attribute, no \<^verbatim>\<open>curl -u\<close>, no netrc
  entry and no authorization header holds a credential, a text that is not blocked keeps its
  number of lines, whatever block scalars, assignments, keys, tokens, URLs and random strings
  are masked in it.
\<close>

theorem masking_keeps_lines:
  assumes "\<not> match_string privateKeyRE content"
    "\<And>r. r \<in> {xmlSecretElementRE, xmlSecretAttributeRE, curlUserRE, netrcRE, authorizationHeaderRE} \<Longrightarrow>
       \<not> match_string r (fst (line_rules content))"
  shows "feeds (fst (Sanitize e content)) = feeds content"
proof -
  have "Sanitize e content = mask_entropy e (mask_authorization (mask_netrc (mask_curl (mask_attribute (mask_element (line_rules content))))))"
    using assms(1) by (simp add: Sanitize_def line_rules_def)
  also have "\<dots> = mask_entropy e (line_rules content)"
    using assms(2) unfolding mask_authorization_def mask_netrc_def mask_curl_def mask_attribute_def mask_element_def
    by (simp add: stage_absent)
  finally show ?thesis by (simp add: line_rules_def)
qed

text \<open>
  The rules for XML elements and for authorization headers write the white space between their
  parts back as nothing or as one space, so a line feed in it is lost and every later line of
  the file moves up by one.
\<close>

lemma element_loses_line:
  "fst (mask_element (''<token'' @ [CHR 0x0A] @ ''>abcd</'', [])) = ''<token>[REDACTED]</''"
  by (simp add: mask_element_def stage_def again_def regexp_eval_all xmlSecretElementRE_def dash_or_underscore_def spaces_def
      none_of_def line_break_def redacted_def group_of_def)

lemma header_loses_line:
  "fst (mask_authorization (''authorization:basic'' @ [CHR 0x0A] @ ''abcdefgh'', [])) = ''authorization:basic [REDACTED]''"
  by (simp add: mask_authorization_def stage_def again_def regexp_eval_all authorizationHeaderRE_def spaces_def
      nonspace_but_def dquote_def squote_def redacted_def group_of_def)

text \<open>The rule for curl writes back only what stands around the option: the command in front of it is deleted.\<close>

lemma curl_command_deleted:
  "fst (mask_curl (''curl -u a:b'', [])) = '' -u [REDACTED]''"
  by (simp add: mask_curl_def stage_def again_def regexp_eval_all curlUserRE_def spaces_def none_of_def
      nonspace_but_def dquote_def squote_def redacted_def group_of_def)


text \<open>
  The comment in front of the code counts the body from the key, and leaves the rest of the
  document alone. It counts from the dash, so a key that stands beside the credential is masked.
\<close>

lemma item_siblings_masked:
  "key_column ''- password: |'' = indent_of ''  user: bob''"
  "fst (maskBlockScalars (''- password: |'' @ [CHR 0x0A] @ ''  user: bob'')) = ''- password: |'' @ [CHR 0x0A] @ ''  [REDACTED]''"
proof -
  have whole: "match_string blockScalarSecretRE (''- password: |'' @ [CHR 0x0A] @ ''  user: bob'')"
    by (simp add: regexp_eval line_patterns blockScalarSecretRE_def)
  have head: "is_header ''- password: |''"
    by (simp add: is_header_def splitReturn_def suffix_def regexp_eval line_patterns blockScalarSecretRE_def)
  note cols = indent_of_def splitReturn_def blockIndent_def suffix_def trim_left_def
  have seen: "trim_space ''  user: bob'' \<noteq> []" using trim_space_keeps [of "CHR ''u''" "''  user: bob''"] by (auto simp: visible_def)
  have cols: "indent_of ''- password: |'' = 0" "indent_of ''  user: bob'' = 2" "\<not> blank_line ''  user: bob''"
    "mask_line ''  user: bob'' = ''  [REDACTED]''"
    by (simp_all add: cols mask_line_def redacted_def blank_line_def seen)
  show "key_column ''- password: |'' = indent_of ''  user: bob''"
    unfolding key_column_def cols by simp
  have "mask_lines [''- password: |'', ''  user: bob''] = ([''- password: |'', ''  [REDACTED]''], True)"
    using head cols by simp
  moreover have "split_on (CHR 0x0A) (''- password: |'' @ [CHR 0x0A] @ ''  user: bob'') = [''- password: |'', ''  user: bob'']"
    by simp
  ultimately show "fst (maskBlockScalars (''- password: |'' @ [CHR 0x0A] @ ''  user: bob'')) = ''- password: |'' @ [CHR 0x0A] @ ''  [REDACTED]''"
    using whole unfolding maskBlockScalars_def by simp
qed


section \<open>Witnesses\<close>

lemma token_block:
  "split_on (CHR 0x0A) (''token: |'' @ [CHR 0x0A] @ ''  a'') = [''token: |'', ''  a'']"
  by simp

lemma block_scalars_masked_witness:
  "split_on (CHR 0x0A) (fst (maskBlockScalars (''token: |'' @ [CHR 0x0A] @ ''  a''))) ! 1 = ''  [REDACTED]''"
proof -
  have key: "deeper_than (key_column ([''token: |'', ''  a''] ! 0)) [''token: |'', ''  a''] 0 1"
    by (simp add: deeper_than_def is_header_def key_column_def indent_of_def blank_line_def splitReturn_def blockIndent_def suffix_def
        trim_left_def trim_space_visible visible_def regexp_eval line_patterns blockScalarSecretRE_def less_Suc_eq le_Suc_eq)
  have seen: "trim_space ''  a'' \<noteq> []" using trim_space_keeps [of "CHR ''a''" "''  a''"] by (auto simp: visible_def)
  have body: "\<not> blank_line ([''token: |'', ''  a''] ! 1)" "mask_line ([''token: |'', ''  a''] ! 1) = ''  [REDACTED]''"
    by (simp_all add: mask_line_def indent_of_def splitReturn_def blockIndent_def trim_left_def redacted_def blank_line_def
        seen suffix_def)
  have ends: "\<forall>l \<in> set (split_on (CHR 0x0A) (''token: |'' @ [CHR 0x0A] @ ''  a'')). \<not> has_suffix l [CHR 0x0D, CHR 0x0D]"
    by (simp add: suffix_def)
  show ?thesis
    using block_scalars_masked [OF ends refl refl, THEN conjunct2, THEN conjunct1, unfolded token_block] key body by simp
qed

lemma small_text_unmatched:
  "\<not> match_string privateKeyRE (''a'' @ [CHR 0x0A] @ ''b'')" "\<not> match_string blockScalarSecretRE (''a'' @ [CHR 0x0A] @ ''b'')"
  "\<not> match_string secretAssignmentRE (''a'' @ [CHR 0x0A] @ ''b'')" "\<not> match_string awsKeyRE (''a'' @ [CHR 0x0A] @ ''b'')"
  "\<not> match_string knownTokenRE (''a'' @ [CHR 0x0A] @ ''b'')" "\<not> match_string credentialURLRE (''a'' @ [CHR 0x0A] @ ''b'')"
  "\<not> match_string oracleDSNRE (''a'' @ [CHR 0x0A] @ ''b'')" "\<not> match_string xmlSecretElementRE (''a'' @ [CHR 0x0A] @ ''b'')"
  "\<not> match_string xmlSecretAttributeRE (''a'' @ [CHR 0x0A] @ ''b'')" "\<not> match_string curlUserRE (''a'' @ [CHR 0x0A] @ ''b'')"
  "\<not> match_string netrcRE (''a'' @ [CHR 0x0A] @ ''b'')" "\<not> match_string authorizationHeaderRE (''a'' @ [CHR 0x0A] @ ''b'')"
  by (simp_all add: regexp_eval line_patterns privateKeyRE_def blockScalarSecretRE_def xmlSecretElementRE_def
      xmlSecretAttributeRE_def curlUserRE_def netrcRE_def authorizationHeaderRE_def spaces_def dquote_def squote_def)

lemma masking_keeps_lines_witness: "feeds (fst (Sanitize (\<lambda>_. True) (''a'' @ [CHR 0x0A] @ ''b''))) = feeds (''a'' @ [CHR 0x0A] @ ''b'')"
proof -
  have "line_rules (''a'' @ [CHR 0x0A] @ ''b'') = (''a'' @ [CHR 0x0A] @ ''b'', [])"
    using small_text_unmatched unfolding line_rules_def mask_blocks_def maskBlockScalars_def mask_assignment_def
      mask_aws_def mask_token_def mask_url_def mask_oracle_def by (simp add: stage_absent)
  then show ?thesis using small_text_unmatched by (intro masking_keeps_lines) auto
qed

end
