(* ===== verification/Globs.thy ===== *)
theory Globs
  imports Regexp
begin

text \<open>
  Which paths a file search finds: \<^verbatim>\<open>pathMatcher\<close> of \<^verbatim>\<open>internal/search/service.go\<close>, its globs, its
  scores and the coarse filter it gives the database, and the functions of Go's package
  \<^verbatim>\<open>path\<close>. A glob is translated to a pattern of \<open>Regexp\<close> the way \<^verbatim>\<open>globExpression\<close> writes it, and is
  shown to accept what a shell glob with \<^verbatim>\<open>**\<close> should.
\<close>

section \<open>Paths\<close>

text \<open>\<^verbatim>\<open>path.Base\<close>, \<^verbatim>\<open>path.Clean\<close>, \<^verbatim>\<open>path.Dir\<close> and \<^verbatim>\<open>path.Join\<close> of two names.\<close>

definition after_last_slash :: "string \<Rightarrow> string" where
  "after_last_slash s = rev (takeWhile (\<lambda>c. c \<noteq> CHR ''/'') (rev s))"

definition path_Base :: "string \<Rightarrow> string" where
  "path_Base s =
     (if s = [] then ''.''
      else let u = after_last_slash (trim_right s ''/'') in if u = [] then ''/'' else u)"

definition clean_step :: "bool \<Rightarrow> string list \<Rightarrow> string \<Rightarrow> string list" where
  "clean_step rooted out e =
     (if e = [] \<or> e = ''.'' then out
      else if e = ''..'' then
        (if out \<noteq> [] \<and> last out \<noteq> ''..'' then butlast out else if rooted then out else out @ [e])
      else out @ [e])"

definition path_Clean :: "string \<Rightarrow> string" where
  "path_Clean s =
     (let rooted = has_prefix s ''/''; r = (if rooted then ''/'' else []) @ join_with ''/'' (foldl (clean_step rooted) [] (split_on (CHR ''/'') s))
      in if r = [] then ''.'' else r)"

definition path_Dir :: "string \<Rightarrow> string" where
  "path_Dir s = path_Clean (take (length s - length (after_last_slash s)) s)"

definition path_Join :: "string \<Rightarrow> string \<Rightarrow> string" where
  "path_Join a b =
     (if a = [] \<and> b = [] then []
      else path_Clean (if a = [] then b else if b = [] then a else a @ ''/'' @ b))"

section \<open>Globs\<close>

text \<open>
  The rune class of a bracket expression, copied into the regular expression as it stands. A
  bracket with an escape, a named class or no member before its end is left to the argument
  \<open>other\<close>: \<open>None\<close> if the whole expression is refused.
\<close>

fun class_items :: "nat list \<Rightarrow> (nat \<Rightarrow> bool) option" where
  "class_items [] = Some (\<lambda>_. False)"
| "class_items (lo # d # hi # rest) =
     (if d = 45 then (if hi < lo then None else map_option (\<lambda>P x. lo \<le> x \<and> x \<le> hi \<or> P x) (class_items rest))
      else map_option (\<lambda>P x. x = lo \<or> P x) (class_items (d # hi # rest)))"
| "class_items (lo # rest) = map_option (\<lambda>P x. x = lo \<or> P x) (class_items rest)"

type_synonym brackets = "string \<Rightarrow> (nat \<Rightarrow> bool) option"

definition bracket_class :: "brackets \<Rightarrow> brackets" where
  "bracket_class other t =
     (let body = butlast (tl t); negated = has_prefix body ''^''; items = (if negated then tl body else body)
      in if items = [] \<or> CHR 0x5C \<in> set t \<or> contains_str t ''[:'' then other t
         else if (RuneError, 1) \<in> set (map (\<lambda>c. (fst c, length (snd c))) (cells items)) then None
         else map_option (\<lambda>P x. P x \<noteq> negated) (class_items (map fst (cells items))))"

definition no_slash :: "nat \<Rightarrow> bool" where "no_slash x \<longleftrightarrow> x \<noteq> 47"

definition directories :: rx where "directories = many (Cat (many (Sym no_slash)) (lit ''/''))"
definition anything :: rx where "anything = many (Sym (\<lambda>x. x \<noteq> 10))"

text \<open>
  A literal is one byte of the pattern, converted to a rune: of a letter outside ASCII, each
  byte of its encoding becomes a rune of its own.
\<close>

definition literal :: "char \<Rightarrow> rx" where
  "literal c = Sym (\<lambda>x. x = byte_val c)"

function glob_parts :: "brackets \<Rightarrow> string \<Rightarrow> rx list option" where
  "glob_parts br [] = Some []"
| "glob_parts br (c # cs) =
     (if c = CHR ''*'' then
        (if has_prefix cs ''*/'' then map_option (Cons directories) (glob_parts br (drop 2 cs))
         else if has_prefix cs ''*'' then map_option (Cons anything) (glob_parts br (drop 1 cs))
         else map_option (Cons (many (Sym no_slash))) (glob_parts br cs))
      else if c = CHR ''?'' then map_option (Cons (Sym no_slash)) (glob_parts br cs)
      else if c = CHR ''['' then
        (case index_byte (c # cs) (CHR '']'') of
           None \<Rightarrow> map_option (Cons (literal c)) (glob_parts br cs)
         | Some end' \<Rightarrow>
             (case bracket_class br (take (end' + 1) (c # cs)) of
                None \<Rightarrow> None
              | Some P \<Rightarrow> map_option (Cons (Sym P)) (glob_parts br (drop end' cs))))
      else map_option (Cons (literal c)) (glob_parts br cs))"
  by pat_completeness auto
termination
  by (relation "measure (\<lambda>(br, s). length s)") auto

definition globExpression :: "brackets \<Rightarrow> string \<Rightarrow> rx option" where
  "globExpression br pattern = map_option (\<lambda>parts. seqs (text_start # parts @ [text_end])) (glob_parts br pattern)"

section \<open>The path matcher\<close>

record pathMatcher =
  pm_raw :: string
  pm_lower :: string
  pm_glob :: bool
  pm_fullPath :: bool
  pm_literalRun :: string
  pm_expression :: "rx option"

text \<open>A byte that is not part of a rune is written as the replacement rune.\<close>

definition written_rune :: "cell \<Rightarrow> string" where
  "written_rune c = (if fst c = RuneError then bytes [239, 191, 189] else snd c)"

definition run_step :: "string \<times> string \<Rightarrow> cell \<Rightarrow> string \<times> string" where
  "run_step = (\<lambda>(longest, current) c.
     if among ''*?[]'' (fst c) then (if length longest < length current then current else longest, [])
     else (longest, current @ written_rune c))"

definition longestLiteralRun :: "string \<Rightarrow> string" where
  "longestLiteralRun pattern =
     (let (longest, current) = foldl run_step ([], []) (cells pattern)
      in trim_chars (if length longest < length current then current else longest) ''/'')"

definition newPathMatcher :: "brackets \<Rightarrow> string \<Rightarrow> pathMatcher" where
  "newPathMatcher br pattern =
     (let lower = to_lower (trim_prefix pattern ''./'') in
      \<lparr>pm_raw = pattern, pm_lower = lower, pm_glob = contains_any lower ''*?['',
       pm_fullPath = contains_str (trim_suffix lower ''/'') ''/'',
       pm_literalRun = longestLiteralRun lower,
       pm_expression = (if contains_any lower ''*?['' then globExpression br lower else None)\<rparr>)"

definition sqlLike :: "pathMatcher \<Rightarrow> string" where
  "sqlLike m =
     (let escaped = filter (\<lambda>c. c \<noteq> CHR ''%'' \<and> c \<noteq> CHR ''_'') (pm_literalRun m)
      in if pm_literalRun m = [] \<or> escaped = [] then [] else ''%'' @ escaped @ ''%'')"

text \<open>The tails of a path, each from one of its segments on, the whole path left out.\<close>

definition path_tails :: "string \<Rightarrow> string list" where
  "path_tails value = (let segments = split_on (CHR ''/'') value in map (\<lambda>i. join_with ''/'' (drop i segments)) [1..<length segments])"

definition match_value :: "pathMatcher \<Rightarrow> string \<Rightarrow> nat option" where
  "match_value m value =
     (let base = path_Base value in
      if pm_glob m then
        (case pm_expression m of
           None \<Rightarrow> None
         | Some r \<Rightarrow>
             (if pm_fullPath m then
                (if match_string r value then Some 90
                 else if list_ex (match_string r) (path_tails value) then Some 70 else None)
              else if match_string r base then Some 90 else None))
      else if base = pm_lower m then Some 100
      else if has_prefix base (pm_lower m) then Some 80
      else if pm_fullPath m \<and> contains_str value (pm_lower m) then Some 60
      else if contains_str base (pm_lower m) then Some 40
      else if contains_str value (pm_lower m) then Some 20
      else None)"

definition lowered_path :: "string \<Rightarrow> string" where
  "lowered_path candidate = to_lower (trim_prefix candidate ''./'')"

definition match_path :: "pathMatcher \<Rightarrow> string \<Rightarrow> nat option" where
  "match_path m candidate = match_value m (lowered_path candidate)"


section \<open>What a translated glob accepts\<close>

text \<open>
  What the translated pattern accepts, as a recursion over its text: a star takes any runes of one segment, two
  stars any runes of a line, two stars and a slash any number of whole segments, a question
  mark one rune of a segment, and every other byte the rune of its value.
\<close>

function glob_matches :: "brackets \<Rightarrow> string \<Rightarrow> nat list \<Rightarrow> bool" where
  "glob_matches br [] w \<longleftrightarrow> w = []"
| "glob_matches br (c # cs) w \<longleftrightarrow>
     (if c = CHR ''*'' then
        (if has_prefix cs ''*/'' then
           (\<exists>n \<le> length w. (n = 0 \<or> w ! (n - 1) = 47) \<and> glob_matches br (drop 2 cs) (drop n w))
         else if has_prefix cs ''*'' then (\<exists>n \<le> length w. 10 \<notin> set (take n w) \<and> glob_matches br (drop 1 cs) (drop n w))
         else (\<exists>n \<le> length w. 47 \<notin> set (take n w) \<and> glob_matches br cs (drop n w)))
      else if c = CHR ''?'' then w \<noteq> [] \<and> hd w \<noteq> 47 \<and> glob_matches br cs (tl w)
      else
        (case (if c = CHR ''['' then index_byte (c # cs) (CHR '']'') else None) of
           None \<Rightarrow> w \<noteq> [] \<and> hd w = byte_val c \<and> glob_matches br cs (tl w)
         | Some end' \<Rightarrow>
             (case bracket_class br (take (end' + 1) (c # cs)) of
                None \<Rightarrow> False
              | Some P \<Rightarrow> w \<noteq> [] \<and> P (hd w) \<and> glob_matches br (drop end' cs) (tl w))))"
  by pat_completeness auto
termination
  by (relation "measure (\<lambda>(br, s, w). length s)") auto

declare glob_parts.simps [simp del] glob_matches.simps [simp del]

text \<open>What a pattern consumes, as a condition on the runes alone.\<close>

definition consumes :: "rx \<Rightarrow> (nat list \<Rightarrow> bool) \<Rightarrow> bool" where
  "consumes r K \<longleftrightarrow> (\<forall>st st'. (st, st') \<in> moves r \<longleftrightarrow>
     (\<exists>pre. snd st = pre @ snd st' \<and> fst st' = (if pre = [] then fst st else Some (fst (last pre))) \<and> K (map fst pre)))"

lemma consumesD:
  "consumes r K \<Longrightarrow> (st, st') \<in> moves r \<Longrightarrow>
     \<exists>pre. snd st = pre @ snd st' \<and> fst st' = (if pre = [] then fst st else Some (fst (last pre))) \<and> K (map fst pre)"
  unfolding consumes_def by blast

lemma consumes_move:
  "consumes r K \<Longrightarrow> K (map fst p) \<Longrightarrow> ((a, p @ cs), (if p = [] then a else Some (fst (last p)), cs)) \<in> moves r"
  unfolding consumes_def by auto

lemma consumes_sym: "consumes (Sym P) (\<lambda>w. \<exists>x. w = [x] \<and> P x)"
  unfolding consumes_def
proof (intro allI iffI)
  fix st st' :: place assume "(st, st') \<in> moves (Sym P)"
  then obtain c where "snd st = c # snd st'" "fst st' = Some (fst c)" "P (fst c)" by auto
  then show "\<exists>pre. snd st = pre @ snd st' \<and> fst st' = (if pre = [] then fst st else Some (fst (last pre)))
      \<and> (\<exists>x. map fst pre = [x] \<and> P x)" by (intro exI [of _ "[c]"]) simp
next
  fix st st' :: place
  assume "\<exists>pre. snd st = pre @ snd st' \<and> fst st' = (if pre = [] then fst st else Some (fst (last pre))) \<and> (\<exists>x. map fst pre = [x] \<and> P x)"
  then obtain c where "snd st = c # snd st'" "fst st' = Some (fst c)" "P (fst c)" by (auto simp: map_eq_Cons_conv)
  then show "(st, st') \<in> moves (Sym P)" by (cases st; cases st'; cases c) auto
qed

lemma consumes_cat:
  assumes "consumes a K" "consumes b L"
  shows "consumes (Cat a b) (\<lambda>w. \<exists>u v. w = u @ v \<and> K u \<and> L v)"
  unfolding consumes_def
proof (intro allI iffI)
  fix st st' :: place assume "(st, st') \<in> moves (Cat a b)"
  then obtain m where "(st, m) \<in> moves a" "(m, st') \<in> moves b" by auto
  then obtain p q where "snd st = p @ snd m" "fst m = (if p = [] then fst st else Some (fst (last p)))" "K (map fst p)"
      "snd m = q @ snd st'" "fst st' = (if q = [] then fst m else Some (fst (last q)))" "L (map fst q)"
    using assms unfolding consumes_def by blast
  then show "\<exists>pre. snd st = pre @ snd st' \<and> fst st' = (if pre = [] then fst st else Some (fst (last pre)))
      \<and> (\<exists>u v. map fst pre = u @ v \<and> K u \<and> L v)"
    by (intro exI [of _ "p @ q"] conjI exI [of _ "map fst p"] exI [of _ "map fst q"]) auto
next
  fix st st' :: place
  assume "\<exists>pre. snd st = pre @ snd st' \<and> fst st' = (if pre = [] then fst st else Some (fst (last pre)))
      \<and> (\<exists>u v. map fst pre = u @ v \<and> K u \<and> L v)"
  then obtain p q where pq: "snd st = (p @ q) @ snd st'" "fst st' = (if p @ q = [] then fst st else Some (fst (last (p @ q))))"
      "K (map fst p)" "L (map fst q)"
    by (auto simp: map_eq_append_conv)
  let ?m = "(if p = [] then fst st else Some (fst (last p)), q @ snd st')"
  have "(st, ?m) \<in> moves a" using consumes_move [OF assms(1) pq(3), of "fst st" "q @ snd st'"] pq(1) by (cases st) simp
  moreover have "(?m, st') \<in> moves b"
    using consumes_move [OF assms(2) pq(4), of "fst ?m" "snd st'"] pq(2) by (cases st'; cases "q = []"; cases "p = []") simp_all
  ultimately show "(st, st') \<in> moves (Cat a b)" by auto
qed

lemma consumes_many:
  assumes "consumes r K"
  shows "consumes (many r) (\<lambda>w. \<exists>ws. w = concat ws \<and> list_all K ws)"
  unfolding consumes_def
proof (intro allI iffI)
  fix st st' :: place assume "(st, st') \<in> moves (many r)"
  then have "(st, st') \<in> (moves r)\<^sup>*" by (simp add: many_def)
  then show "\<exists>pre. snd st = pre @ snd st' \<and> fst st' = (if pre = [] then fst st else Some (fst (last pre)))
      \<and> (\<exists>ws. map fst pre = concat ws \<and> list_all K ws)"
  proof (induction rule: rtrancl_induct)
    case base
    then show ?case by (intro exI [of _ "[]"]) (auto intro: exI [of _ "[]"])
  next
    case (step y z)
    then obtain p ws q where "snd st = p @ snd y" "fst y = (if p = [] then fst st else Some (fst (last p)))"
        "map fst p = concat ws" "list_all K ws" "snd y = q @ snd z" "fst z = (if q = [] then fst y else Some (fst (last q)))" "K (map fst q)"
      using assms unfolding consumes_def by blast
    then have "snd st = (p @ q) @ snd z \<and> fst z = (if p @ q = [] then fst st else Some (fst (last (p @ q))))
        \<and> map fst (p @ q) = concat (ws @ [map fst q]) \<and> list_all K (ws @ [map fst q])" by simp
    then show ?case by blast
  qed
next
  fix st st' :: place
  assume "\<exists>pre. snd st = pre @ snd st' \<and> fst st' = (if pre = [] then fst st else Some (fst (last pre)))
      \<and> (\<exists>ws. map fst pre = concat ws \<and> list_all K ws)"
  then obtain pre ws where "snd st = pre @ snd st'" "fst st' = (if pre = [] then fst st else Some (fst (last pre)))"
    "map fst pre = concat ws" "list_all K ws" by blast
  then have "(st, st') \<in> (moves r)\<^sup>*"
  proof (induction ws arbitrary: st pre)
    case Nil
    then show ?case by (cases st; cases st') simp
  next
    case (Cons w ws)
    then obtain p q where pq: "pre = p @ q" "map fst p = w" "map fst q = concat ws" by (auto simp: map_eq_append_conv)
    let ?m = "(if p = [] then fst st else Some (fst (last p)), q @ snd st')"
    have "K (map fst p)" using Cons.prems(4) pq(2) by simp
    then have "(st, ?m) \<in> moves r"
      using consumes_move [OF assms, of p "fst st" "q @ snd st'"] Cons.prems(1) pq(1) by (cases st) simp
    moreover have "(?m, st') \<in> (moves r)\<^sup>*" using Cons.prems pq by (intro Cons.IH [of ?m q]) auto
    ultimately show ?case by (rule converse_rtrancl_into_rtrancl)
  qed
  then show "(st, st') \<in> moves (many r)" by (simp add: many_def)
qed

lemma consumes_cong: "consumes r K \<Longrightarrow> (\<And>w. K w \<longleftrightarrow> L w) \<Longrightarrow> consumes r L"
  by (simp add: consumes_def)

lemma consumes_many_sym: "consumes (many (Sym P)) (list_all P)"
proof (rule consumes_cong [OF consumes_many [OF consumes_sym]])
  fix w
  show "(\<exists>ws. w = concat ws \<and> list_all (\<lambda>v. \<exists>x. v = [x] \<and> P x) ws) \<longleftrightarrow> list_all P w"
  proof
    show "list_all P w" if "\<exists>ws. w = concat ws \<and> list_all (\<lambda>v. \<exists>x. v = [x] \<and> P x) ws"
      using that by (fastforce simp: list_all_iff)
    show "\<exists>ws. w = concat ws \<and> list_all (\<lambda>v. \<exists>x. v = [x] \<and> P x) ws" if "list_all P w"
      using that by (intro exI [of _ "map (\<lambda>x. [x]) w"]) (auto simp: list_all_iff)
  qed
qed

lemma segments_of: "w = [] \<or> last w = x \<Longrightarrow> \<exists>ws. w = concat ws \<and> list_all (\<lambda>v. \<exists>u. v = u @ [x] \<and> x \<notin> set u) ws"
proof (induction w rule: length_induct)
  case (1 w)
  show ?case
  proof (cases "w = []")
    case False
    then have mem: "x \<in> set w" using 1 by (metis last_in_set)
    then obtain u v where uv: "w = u @ x # v" "x \<notin> set u" by (meson split_list_first)
    have "v = [] \<or> last v = x" using 1(2) uv(1) by (cases v) auto
    moreover have "length v < length w" using uv(1) by simp
    ultimately have "\<exists>ws. v = concat ws \<and> list_all (\<lambda>v. \<exists>u. v = u @ [x] \<and> x \<notin> set u) ws" using 1(1) by blast
    then obtain ws where "v = concat ws" "list_all (\<lambda>v. \<exists>u. v = u @ [x] \<and> x \<notin> set u) ws" by blast
    then show ?thesis using uv by (intro exI [of _ "(u @ [x]) # ws"]) auto
  qed (auto intro: exI [of _ "[]"])
qed

lemma consumes_directories: "consumes directories (\<lambda>w. w = [] \<or> last w = 47)"
proof -
  have slash: "consumes (lit ''/'') (\<lambda>w. w = [47])"
    using consumes_cong [OF consumes_sym [of "\<lambda>x. x = 47"], of "\<lambda>w. w = [47]"] by (simp add: lit_def byte_val_def)
  have "consumes directories (\<lambda>w. \<exists>ws. w = concat ws \<and> list_all (\<lambda>v. \<exists>a b. v = a @ b \<and> list_all no_slash a \<and> b = [47]) ws)"
    unfolding directories_def by (intro consumes_many consumes_cat consumes_many_sym slash)
  then show ?thesis
  proof (rule consumes_cong)
    fix w
    have "list_all no_slash a \<longleftrightarrow> 47 \<notin> set a" for a by (auto simp: list_all_iff no_slash_def)
    then have "(\<lambda>v. \<exists>a b. v = a @ b \<and> list_all no_slash a \<and> b = [47]) = (\<lambda>v. \<exists>u. v = u @ [47] \<and> 47 \<notin> set u)"
      by (simp add: fun_eq_iff)
    moreover have "w = [] \<or> last w = 47" if "w = concat ws" "list_all (\<lambda>v. \<exists>u. v = u @ [47] \<and> 47 \<notin> set u) ws" for ws :: "nat list list"
      using that by (cases ws rule: rev_cases) auto
    ultimately show "(\<exists>ws. w = concat ws \<and> list_all (\<lambda>v. \<exists>a b. v = a @ b \<and> list_all no_slash a \<and> b = [47]) ws)
        \<longleftrightarrow> w = [] \<or> last w = 47"
      using segments_of [of w 47] by (metis (no_types, lifting))
  qed
qed


definition ends :: "rx list \<Rightarrow> nat option \<Rightarrow> cell list \<Rightarrow> bool" where
  "ends rs a cs \<longleftrightarrow> (\<exists>q. ((a, cs), (q, [])) \<in> moves (seqs rs))"

lemma moves_Cons: "moves (seqs (r # rs)) = moves r O moves (seqs rs)"
  by (cases rs) simp_all

lemma ends_step: "ends (r # rs) a cs \<longleftrightarrow> (\<exists>u. ((a, cs), u) \<in> moves r \<and> ends rs (fst u) (snd u))"
  unfolding ends_def moves_Cons relcomp_unfold mem_Collect_eq prod.collapse by blast

lemma ends_Cons:
  assumes "consumes r K"
  shows "ends (r # rs) a cs \<longleftrightarrow> (\<exists>n \<le> length cs. K (map fst (take n cs)) \<and>
    ends rs (if take n cs = [] then a else Some (fst (last (take n cs)))) (drop n cs))"
proof -
  have "ends (r # rs) a cs \<longleftrightarrow> (\<exists>u. ((a, cs), u) \<in> moves r \<and> ends rs (fst u) (snd u))" by (rule ends_step)
  also have "\<dots> \<longleftrightarrow> (\<exists>p. \<exists>ds. cs = p @ ds \<and> K (map fst p) \<and> ends rs (if p = [] then a else Some (fst (last p))) ds)"
  proof
    assume "\<exists>u. ((a, cs), u) \<in> moves r \<and> ends rs (fst u) (snd u)"
    then obtain u where u: "((a, cs), u) \<in> moves r" "ends rs (fst u) (snd u)" by blast
    from consumesD [OF assms u(1)] obtain p
      where p: "cs = p @ snd u" "fst u = (if p = [] then a else Some (fst (last p)))" "K (map fst p)"
      unfolding fst_conv snd_conv by blast
    then show "\<exists>p ds. cs = p @ ds \<and> K (map fst p) \<and> ends rs (if p = [] then a else Some (fst (last p))) ds"
      by (intro exI [of _ p] exI [of _ "snd u"]) (simp add: u(2) [unfolded p(2)])
  next
    assume "\<exists>p ds. cs = p @ ds \<and> K (map fst p) \<and> ends rs (if p = [] then a else Some (fst (last p))) ds"
    then obtain p ds where "cs = p @ ds" "K (map fst p)" "ends rs (if p = [] then a else Some (fst (last p))) ds" by blast
    then show "\<exists>u. ((a, cs), u) \<in> moves r \<and> ends rs (fst u) (snd u)"
      using consumes_move [OF assms, of p a ds] by (cases "p = []") auto
  qed
  also have "\<dots> \<longleftrightarrow> (\<exists>n \<le> length cs. K (map fst (take n cs)) \<and>
      ends rs (if take n cs = [] then a else Some (fst (last (take n cs)))) (drop n cs))" (is "_ \<longleftrightarrow> ?R")
  proof
    assume "\<exists>p ds. cs = p @ ds \<and> K (map fst p) \<and> ends rs (if p = [] then a else Some (fst (last p))) ds"
    then obtain p ds where "cs = p @ ds" "K (map fst p)" "ends rs (if p = [] then a else Some (fst (last p))) ds" by blast
    then show ?R by (intro exI [of _ "length p"]) (cases "p = []"; simp)
  qed (metis append_take_drop_id)
  finally show ?thesis .
qed

lemma ends_sym: "ends (Sym P # rs) a cs \<longleftrightarrow> cs \<noteq> [] \<and> P (fst (hd cs)) \<and> ends rs (Some (fst (hd cs))) (tl cs)"
  by (cases cs) (auto simp: ends_step)

lemma ends_many: "ends (many (Sym P) # rs) a cs \<longleftrightarrow> (\<exists>n \<le> length cs. (\<forall>x \<in> set (take n (map fst cs)). P x) \<and>
    ends rs (if take n cs = [] then a else Some (fst (last (take n cs)))) (drop n cs))"
  using ends_Cons [OF consumes_many_sym, of P rs a cs] by (simp add: list_all_iff take_map)

lemma ends_directories: "ends (directories # rs) a cs \<longleftrightarrow> (\<exists>n \<le> length cs. (n = 0 \<or> map fst cs ! (n - 1) = 47) \<and>
    ends rs (if take n cs = [] then a else Some (fst (last (take n cs)))) (drop n cs))"
proof -
  have "(map fst (take n cs) = [] \<or> last (map fst (take n cs)) = 47) \<longleftrightarrow> (n = 0 \<or> map fst cs ! (n - 1) = 47)" if "n \<le> length cs" for n
  proof (cases n)
    case (Suc m)
    then have "take n cs \<noteq> []" "last (take n cs) = cs ! m" using that by (auto simp: take_Suc_conv_app_nth)
    then have "last (map fst (take n cs)) = map fst cs ! m" "take n cs \<noteq> []" using that Suc by (simp_all add: last_map)
    then show ?thesis using Suc by simp
  qed simp
  then show ?thesis unfolding ends_Cons [OF consumes_directories] by (metis (no_types, lifting))
qed

lemma glob_parts_matches:
  "glob_parts br p = Some parts \<Longrightarrow> ends parts a cs \<longleftrightarrow> glob_matches br p (map fst cs)"
proof (induction br p arbitrary: parts a cs rule: glob_parts.induct)
  case (1 br)
  then show ?case by (cases cs) (auto simp: glob_parts.simps glob_matches.simps ends_def)
next
  case (2 br c p)
  consider "c = CHR ''*''" "has_prefix p ''*/''" | "c = CHR ''*''" "\<not> has_prefix p ''*/''" "has_prefix p ''*''"
    | "c = CHR ''*''" "\<not> has_prefix p ''*''" | "c = CHR ''?''" | "c = CHR ''[''" "c \<noteq> CHR ''*''" "c \<noteq> CHR ''?''"
    | "c \<noteq> CHR ''*''" "c \<noteq> CHR ''?''" "c \<noteq> CHR ''[''" by blast
  then show ?case
  proof cases
    case 1
    then obtain rs where "glob_parts br (drop 2 p) = Some rs" "parts = directories # rs"
      using "2.prems" by (auto simp: glob_parts.simps)
    then show ?thesis using 1 "2.IH"(1) by (simp add: ends_directories glob_matches.simps drop_map)
  next
    case 2
    then obtain rs where "glob_parts br (drop 1 p) = Some rs" "parts = anything # rs"
      using "2.prems" by (auto simp: glob_parts.simps)
    then show ?thesis using 2 "2.IH"(2) by (simp add: anything_def ends_many glob_matches.simps drop_map) metis
  next
    case 3
    then have "\<not> has_prefix p ''*/''" by (auto simp: prefix_def)
    then obtain rs where "glob_parts br p = Some rs" "parts = many (Sym no_slash) # rs"
      using "2.prems" 3 by (auto simp: glob_parts.simps)
    then show ?thesis using 3 "2.IH"(3) \<open>\<not> has_prefix p ''*/''\<close>
      by (simp add: ends_many glob_matches.simps drop_map no_slash_def) metis
  next
    case 4
    then obtain rs where "glob_parts br p = Some rs" "parts = Sym no_slash # rs"
      using "2.prems" by (auto simp: glob_parts.simps)
    then show ?thesis using 4 "2.IH"(4) by (cases cs) (auto simp: ends_sym glob_matches.simps no_slash_def)
  next
    case 5
    show ?thesis
    proof (cases "index_byte (c # p) (CHR '']'')")
      case None
      then obtain rs where "glob_parts br p = Some rs" "parts = literal c # rs"
        using "2.prems" 5 by (auto simp: glob_parts.simps)
      then show ?thesis using 5 None "2.IH"(5) by (cases cs) (auto simp: ends_sym glob_matches.simps literal_def)
    next
      case (Some i)
      then obtain P rs where "bracket_class br (take (i + 1) (c # p)) = Some P" "glob_parts br (drop i p) = Some rs" "parts = Sym P # rs"
        using "2.prems" 5 by (auto simp: glob_parts.simps split: option.splits)
      then show ?thesis using 5 Some "2.IH"(6) by (cases cs) (auto simp: ends_sym glob_matches.simps)
    qed
  next
    case 6
    then obtain rs where "glob_parts br p = Some rs" "parts = literal c # rs"
      using "2.prems" by (auto simp: glob_parts.simps)
    then show ?thesis using 6 "2.IH"(7) by (cases cs) (auto simp: ends_sym glob_matches.simps literal_def)
  qed
qed


lemma glob_parts_refused: "glob_parts br p = None \<Longrightarrow> \<not> glob_matches br p w"
proof (induction br p arbitrary: w rule: glob_parts.induct)
  case (2 br c p)
  show ?case
  proof (cases "c = CHR ''*'' \<or> c = CHR ''?''")
    case True
    then show ?thesis using 2 by (auto simp: glob_parts.simps glob_matches.simps split: if_splits)
  next
    case other: False
    show ?thesis
    proof (cases "if c = CHR ''['' then index_byte (c # p) (CHR '']'') else None")
      case None
      then have "glob_parts br p = None" using 2(8) other by (auto simp: glob_parts.simps split: if_splits option.splits)
      then show ?thesis using 2(5,7) other None by (auto simp: glob_matches.simps split: if_splits)
    next
      case (Some i)
      then have c: "c = CHR ''[''" "index_byte (c # p) (CHR '']'') = Some i" by (auto split: if_splits)
      show ?thesis
      proof (cases "bracket_class br (take (i + 1) (c # p))")
        case None
        then show ?thesis using other Some by (simp add: glob_matches.simps)
      next
        case cls: (Some P)
        then have "glob_parts br (drop i p) = None" using 2(8) other c
          by (simp add: glob_parts.simps del: index_byte.simps)
        then have "\<not> glob_matches br (drop i p) v" for v using 2(6) [OF _ _ c cls] other by blast
        then show ?thesis using other Some cls by (simp add: glob_matches.simps)
      qed
    qed
  qed
qed (simp add: glob_parts.simps)

lemma anchored: "match_string (seqs (text_start # parts @ [text_end])) s \<longleftrightarrow> ends parts None (cells s)"
proof -
  have end': "moves (seqs (parts @ [text_end])) = moves (seqs parts) O moves text_end"
  proof (induction parts)
    case (Cons r parts)
    then show ?case by (simp only: append_Cons moves_Cons O_assoc)
  qed simp
  have edges: "(st, st') \<in> moves text_start \<longleftrightarrow> st' = st \<and> fst st = None" "(st, st') \<in> moves text_end \<longleftrightarrow> st' = st \<and> snd st = []"
    for st st' :: place
    by (cases st; cases st'; auto simp: text_start_def text_end_def next_rune_def split: list.splits)+
  have "match_string (seqs (text_start # parts @ [text_end])) s \<longleftrightarrow>
      (\<exists>st st'. along (None, cells s) st \<and> fst st = None \<and> (st, st') \<in> moves (seqs parts) \<and> snd st' = [])"
    unfolding match_string_iff moves_Cons end' relcomp_unfold mem_Collect_eq prod.collapse edges by blast
  also have "\<dots> \<longleftrightarrow> (\<exists>st'. ((None, cells s), st') \<in> moves (seqs parts) \<and> snd st' = [])"
    by (auto simp: along_def split: if_splits)
  finally show ?thesis by (simp add: ends_def)
qed

lemma glob_correct:
  "(case globExpression br p of None \<Rightarrow> False | Some r \<Rightarrow> match_string r s) \<longleftrightarrow> glob_matches br p (map fst (cells s))"
proof (cases "glob_parts br p")
  case None
  then show ?thesis using glob_parts_refused by (simp add: globExpression_def)
next
  case (Some parts)
  then show ?thesis using glob_parts_matches [OF Some, of None "cells s"] anchored [of parts s] by (simp add: globExpression_def)
qed


section \<open>The coarse filter keeps what the matcher accepts\<close>

lemma contains_iff: "contains_str s p \<longleftrightarrow> (\<exists>x y. s = x @ p @ y)"
proof
  assume "contains_str s p"
  then obtain i where i: "index_str s p = Some i" by (auto simp: contains_str_def)
  then obtain y where "drop i s = p @ y" using index_str_SomeD [OF i] by (auto simp: prefix_def)
  then show "\<exists>x y. s = x @ p @ y" using index_str_SomeD [OF i] by (metis append_take_drop_id)
next
  assume "\<exists>x y. s = x @ p @ y"
  then obtain x y where "s = x @ p @ y" by blast
  then show "contains_str s p"
  proof (induction x arbitrary: s)
    case Nil
    then show ?case by (cases s; cases p) (auto simp: contains_str_def)
  next
    case (Cons c x)
    then have "contains_str (x @ p @ y) p" by blast
    then show ?case using Cons.prems by (auto simp: contains_str_def)
  qed
qed

text \<open>A pattern of ASCII bytes without brackets, and the stretches of it without wildcards.\<close>

definition plain_pattern :: "string \<Rightarrow> bool" where
  "plain_pattern p \<longleftrightarrow> (\<forall>c \<in> set p. byte_val c < 128 \<and> c \<noteq> CHR ''['' \<and> c \<noteq> CHR '']'')"

definition wild :: "char \<Rightarrow> bool" where
  "wild c \<longleftrightarrow> c = CHR ''*'' \<or> c = CHR ''?''"

lemma glob_literal:
  "list_all (\<lambda>c. \<not> wild c \<and> c \<noteq> CHR ''['') r \<Longrightarrow> glob_matches br (r @ p) w \<Longrightarrow> \<exists>v. w = map byte_val r @ v \<and> glob_matches br p v"
proof (induction r arbitrary: w)
  case (Cons c r)
  then have "w \<noteq> []" "hd w = byte_val c" "glob_matches br (r @ p) (tl w)"
    by (auto simp: glob_matches.simps wild_def)
  then show ?case using Cons by (cases w) auto
qed simp

lemma glob_token:
  assumes "glob_matches br (c # p) w" "c \<noteq> CHR ''[''"
  shows "\<exists>k u v. w = u @ v \<and> k \<le> 2 \<and> glob_matches br (drop k p) v \<and> (0 < k \<longrightarrow> c = CHR ''*'' \<and> hd p = CHR ''*'')
    \<and> (k = 2 \<longrightarrow> p ! 1 = CHR ''/'') \<and> k \<le> length p"
proof -
  consider "c = CHR ''*''" "has_prefix p ''*/''" | "c = CHR ''*''" "\<not> has_prefix p ''*/''" "has_prefix p ''*''"
    | "c = CHR ''*''" "\<not> has_prefix p ''*/''" "\<not> has_prefix p ''*''" | "c \<noteq> CHR ''*''" by blast
  then show ?thesis
  proof cases
    case 1
    then obtain n where "glob_matches br (drop 2 p) (drop n w)" using assms(1) by (auto simp: glob_matches.simps)
    moreover obtain q where "p = ''*/'' @ q" using 1 by (auto simp: prefix_def)
    ultimately show ?thesis using 1 by (intro exI [of _ 2] exI [of _ "take n w"] exI [of _ "drop n w"]) simp
  next
    case 2
    then obtain n where "glob_matches br (drop 1 p) (drop n w)" using assms(1) by (auto simp: glob_matches.simps)
    moreover obtain q where "p = ''*'' @ q" using 2 by (auto simp: prefix_def)
    ultimately show ?thesis using 2 by (intro exI [of _ 1] exI [of _ "take n w"] exI [of _ "drop n w"]) simp
  next
    case 3
    then obtain n where "glob_matches br p (drop n w)" using assms(1) by (auto simp: glob_matches.simps)
    then show ?thesis by (intro exI [of _ 0] exI [of _ "take n w"] exI [of _ "drop n w"]) simp
  next
    case 4
    then have "glob_matches br p (tl w)" "w \<noteq> []" using assms by (auto simp: glob_matches.simps split: if_splits)
    then show ?thesis by (intro exI [of _ 0] exI [of _ "[hd w]"] exI [of _ "tl w"]) simp
  qed
qed

lemma glob_contains_run:
  "glob_matches br (a @ r @ b) w \<Longrightarrow> CHR ''['' \<notin> set (a @ r @ b) \<Longrightarrow> list_all (\<lambda>c. \<not> wild c) r \<Longrightarrow>
     \<exists>x y. w = x @ map byte_val (dropWhile (\<lambda>c. c = CHR ''/'') r) @ y"
proof (induction a arbitrary: r w rule: length_induct)
  case (1 a)
  have lit: "\<exists>x y. w' = x @ map byte_val (dropWhile (\<lambda>c. c = CHR ''/'') r) @ y"
    if "glob_matches br (r' @ b) w'" "r = d @ r'" "set d \<subseteq> {CHR ''/''}" for d r' w'
  proof -
    note at_run = that(1)
    have "list_all (\<lambda>c. \<not> wild c \<and> c \<noteq> CHR ''['') r'" using 1(3,4) that(2) by (auto simp: list_all_iff)
    then obtain v where "w' = map byte_val r' @ v" using glob_literal [OF _ at_run] by blast
    moreover have "dropWhile (\<lambda>c. c = CHR ''/'') r = dropWhile (\<lambda>c. c = CHR ''/'') r'"
    proof -
      have "\<forall>c \<in> set d. c = CHR ''/''" using that(3) by blast
      then show ?thesis by (simp add: that(2))
    qed
    moreover have "r' = takeWhile (\<lambda>c. c = CHR ''/'') r' @ dropWhile (\<lambda>c. c = CHR ''/'') r'" by simp
    ultimately show ?thesis by (metis append.assoc map_append)
  qed
  show ?case
  proof (cases a)
    case Nil
    then show ?thesis using lit [of r w "[]"] 1(2) by simp
  next
    case (Cons c a')
    obtain k u v where k: "w = u @ v" "k \<le> 2" "glob_matches br (drop k (a' @ r @ b)) v"
        "0 < k \<Longrightarrow> hd (a' @ r @ b) = CHR ''*''" "k = 2 \<Longrightarrow> (a' @ r @ b) ! 1 = CHR ''/''"
      using glob_token [of br c "a' @ r @ b" w] 1(2,3) Cons by auto
    have more: "\<exists>x y. w = x @ map byte_val (dropWhile (\<lambda>c. c = CHR ''/'') r) @ y"
      if "\<exists>x y. v = x @ map byte_val (dropWhile (\<lambda>c. c = CHR ''/'') r) @ y"
      using that k(1) by (metis append.assoc)
    show ?thesis
    proof (cases "k \<le> length a'")
      case True
      then have "glob_matches br (drop k a' @ r @ b) v" using k(3) by simp
      moreover have "CHR ''['' \<notin> set (drop k a' @ r @ b)" using 1(3) Cons by (auto dest: in_set_dropD)
      moreover have "length (drop k a') < length a" using Cons by simp
      ultimately have "\<exists>x y. v = x @ map byte_val (dropWhile (\<lambda>c. c = CHR ''/'') r) @ y"
        using 1(1,4) by blast
      then show ?thesis by (rule more)
    next
      case False
      show ?thesis
      proof (cases "r = []")
        case False
        note short = \<open>\<not> k \<le> length a'\<close>
        have "a' \<noteq> []"
        proof
          assume "a' = []"
          then have "hd r = CHR ''*''" using k(4) short False by simp
          then show False using 1(4) False by (cases r) (auto simp: wild_def)
        qed
        then have "0 < length a'" by simp
        then have a': "length a' = 1" "k = 2" using short k(2) by linarith+
        then obtain e where e: "a' = [e]" by (cases a') auto
        then have "hd r = CHR ''/''" using k(5) a'(2) False by (cases r) auto
        then have r: "r = [CHR ''/''] @ tl r" using False by (cases r) auto
        have "drop k (a' @ r @ b) = tl r @ b" using e a'(2) False by (cases r) auto
        then show ?thesis using lit [OF _ r] k(3) more by simp
      qed auto
    qed
  qed
qed


lemma byte_val_inj: "byte_val c = byte_val d \<longleftrightarrow> c = d"
  by (simp add: byte_val_def)

lemma longest_run:
  assumes "plain_pattern p"
  shows "\<exists>a r b. p = a @ r @ b \<and> list_all (\<lambda>c. \<not> wild c) r \<and> longestLiteralRun p = trim_chars r ''/''"
proof -
  have inv: "plain_pattern q \<Longrightarrow> foldl run_step ([], []) (map (\<lambda>c. (byte_val c, [c])) q) = (l, cur) \<Longrightarrow>
      (\<exists>a b. q = a @ l @ b) \<and> list_all (\<lambda>c. \<not> wild c) l \<and> (\<exists>a. q = a @ cur) \<and> list_all (\<lambda>c. \<not> wild c) cur" for q l cur
  proof (induction q arbitrary: l cur rule: rev_induct)
    case (snoc c q)
    obtain l' cur' where step: "foldl run_step ([], []) (map (\<lambda>c. (byte_val c, [c])) q) = (l', cur')" by fastforce
    have q: "plain_pattern q" "byte_val c < 128" "c \<noteq> CHR ''[''" "c \<noteq> CHR '']''" using snoc.prems(1) by (simp_all add: plain_pattern_def)
    obtain a b a2 where ih: "q = a @ l' @ b" "list_all (\<lambda>c. \<not> wild c) l'" "q = a2 @ cur'" "list_all (\<lambda>c. \<not> wild c) cur'"
      using snoc.IH [OF q(1) step] by blast
    have am: "among ''*?[]'' (byte_val c) \<longleftrightarrow> wild c" using q by (auto simp: among_def wild_def byte_val_inj)
    have wr: "written_rune (byte_val c, [c]) = [c]" using q(2) by (simp add: written_rune_def RuneError_def)
    have res: "(l, cur) = run_step (l', cur') (byte_val c, [c])" using snoc.prems(2) step by simp
    have keep: "q @ [c] = a @ l' @ (b @ [c])" using ih(1) by simp
    have cut: "q @ [c] = a2 @ cur' @ [c]" using ih(3) by simp
    show ?case
    proof (cases "wild c")
      case True
      then have "l = (if length l' < length cur' then cur' else l')" "cur = []" using res am by (simp_all add: run_step_def)
      moreover have "\<exists>a b. q @ [c] = a @ cur' @ b" using cut by blast
      moreover have "\<exists>a b. q @ [c] = a @ l' @ b" using keep by blast
      ultimately show ?thesis using ih(2,4) by simp
    next
      case False
      then have "l = l'" "cur = cur' @ [c]" using res am wr by (simp_all add: run_step_def)
      moreover have "\<exists>a. q @ [c] = a @ cur' @ [c]" using cut by blast
      moreover have "\<exists>a b. q @ [c] = a @ l' @ b" using keep by blast
      ultimately show ?thesis using ih(2,4) False by simp
    qed
  qed simp
  obtain l cur where lc: "foldl run_step ([], []) (cells p) = (l, cur)" by fastforce
  have "cells p = map (\<lambda>c. (byte_val c, [c])) p"
    using assms by (intro cells_ascii_text) (simp add: plain_pattern_def list_all_iff)
  then have facts: "(\<exists>a b. p = a @ l @ b) \<and> list_all (\<lambda>c. \<not> wild c) l \<and> (\<exists>a. p = a @ cur) \<and> list_all (\<lambda>c. \<not> wild c) cur"
    using inv [OF assms] lc by simp
  have "longestLiteralRun p = trim_chars (if length l < length cur then cur else l) ''/''" by (simp add: longestLiteralRun_def lc)
  moreover have "\<exists>a b. p = a @ cur @ b" using facts by (metis append_Nil2)
  ultimately show ?thesis using facts by (cases "length l < length cur") auto
qed

lemma trimmed_infix: "\<exists>x. dropWhile (\<lambda>c. c = CHR ''/'') r = trim_chars r ''/'' @ x"
proof -
  have "trim_chars r ''/'' = rev (dropWhile (\<lambda>c. c = CHR ''/'') (rev (dropWhile (\<lambda>c. c = CHR ''/'') r)))"
    by (simp add: trim_chars_def trim_left_def trim_right_def)
  moreover have "dropWhile (\<lambda>c. c = CHR ''/'') r = rev (dropWhile (\<lambda>c. c = CHR ''/'') (rev (dropWhile (\<lambda>c. c = CHR ''/'') r)))
      @ rev (takeWhile (\<lambda>c. c = CHR ''/'') (rev (dropWhile (\<lambda>c. c = CHR ''/'') r)))"
    by (metis rev_append rev_rev_ident takeWhile_dropWhile_id)
  ultimately show ?thesis by metis
qed

lemma run_in_text:
  assumes "map fst (cells s) = x @ map byte_val l @ y" "list_all (\<lambda>c. byte_val c < 128) l"
  shows "contains_str s l"
proof -
  obtain cx c2 where c2: "cells s = cx @ c2" "map fst c2 = map byte_val l @ y"
    using assms(1) unfolding map_eq_append_conv [of fst "cells s"] by metis
  then obtain cl cy where "c2 = cl @ cy" "map fst cl = map byte_val l"
    unfolding map_eq_append_conv [of fst c2] by metis
  then have c: "cells s = cx @ cl @ cy" "map fst cl = map byte_val l" using c2 by simp_all
  have "text_of cl' = l'" if "set cl' \<subseteq> set (cells s)" "map fst cl' = map byte_val l'" "list_all (\<lambda>c. byte_val c < 128) l'" for cl' l'
    using that
  proof (induction l' arbitrary: cl')
    case (Cons d ds)
    then obtain c cs where cs: "cl' = c # cs" "fst c = byte_val d" "map fst cs = map byte_val ds" by (cases cl') auto
    then have "c \<in> set (cells s)" using Cons.prems(1) by simp
    then have "(fst c, snd c) \<in> set (cells s)" by simp
    then have "snd c = [d]" using cells_ascii_bytes [of "fst c" "snd c" s d] cs(2) Cons.prems(3) by simp
    then show ?case using Cons cs by simp
  qed simp
  from this [of cl l] have "text_of cl = l" using c assms(2) by auto
  then have "s = text_of cx @ l @ text_of cy" using c(1) by (metis text_of_cells text_of_simps(3))
  then show ?thesis unfolding contains_iff by blast
qed

lemma contains_trans: "contains_str s t \<Longrightarrow> contains_str t u \<Longrightarrow> contains_str s u"
  unfolding contains_iff by (metis append.assoc)

lemma contains_self [simp]: "contains_str s s" "contains_str (x @ s) s" "contains_str (s @ y) s"
  unfolding contains_iff by (metis append_Nil append_Nil2)+

lemma join_suffix: "\<exists>x. join_with sep xs = x @ join_with sep (drop i xs)"
proof (induction i arbitrary: xs)
  case (Suc i)
  show ?case
  proof (cases xs)
    case (Cons w ws)
    obtain x where "join_with sep ws = x @ join_with sep (drop i ws)" using Suc by blast
    moreover have "\<exists>y. join_with sep (w # ws) = y @ join_with sep ws" by (cases ws) (auto intro: exI [of _ "w @ sep"])
    ultimately show ?thesis using Cons by (metis append.assoc drop_Suc_Cons)
  qed simp
qed simp

lemma base_infix: "s \<noteq> [] \<Longrightarrow> contains_str s (path_Base s)"
proof -
  assume ne: "s \<noteq> []"
  define t where "t = trim_right s ''/''"
  have s: "s = t @ rev (takeWhile (\<lambda>c. c = CHR ''/'') (rev s))"
    unfolding t_def trim_right_def by (simp add: rev_append [symmetric])
  have u: "\<exists>x. t = x @ after_last_slash t"
    unfolding after_last_slash_def by (metis rev_append rev_rev_ident takeWhile_dropWhile_id)
  show ?thesis
  proof (cases "after_last_slash t = []")
    case True
    have nil: "t = []"
    proof (rule ccontr)
      assume "t \<noteq> []"
      then have "last t \<noteq> CHR ''/''"
        using hd_dropWhile [of "\<lambda>c. c = CHR ''/''" "rev s"] by (simp add: t_def trim_right_def last_rev)
      then have "after_last_slash t \<noteq> []" using \<open>t \<noteq> []\<close>
        by (auto simp: after_last_slash_def takeWhile_eq_Nil_iff hd_rev)
      then show False using True by simp
    qed
    then have "takeWhile (\<lambda>c. c = CHR ''/'') (rev s) \<noteq> []" using ne s by auto
    then have "hd (rev s) = CHR ''/''" by (cases "rev s") (auto split: if_splits)
    then have "CHR ''/'' \<in> set s" using ne by (metis hd_in_set rev_is_Nil_conv set_rev)
    then obtain x y where "s = x @ ''/'' @ y" by (metis append_Cons append_Nil split_list)
    moreover have "path_Base s = ''/''" using ne True by (simp add: path_Base_def t_def [symmetric] Let_def)
    ultimately show ?thesis unfolding contains_iff by metis
  next
    case False
    then have "path_Base s = after_last_slash t" using ne by (simp add: path_Base_def t_def)
    then show ?thesis using s u unfolding contains_iff by (metis append.assoc)
  qed
qed


lemma lowered_plain:
  assumes "\<forall>c \<in> set p. byte_val c < 128 \<and> c \<notin> set ''[]%_''"
  shows "plain_pattern (to_lower p) \<and> (\<forall>c \<in> set (to_lower p). c \<notin> set ''%_'')"
proof -
  have "byte_val (lower_char c) < 128 \<and> lower_char c \<notin> set ''[]%_''" if c: "byte_val c < 128" "c \<notin> set ''[]%_''" for c
  proof (cases "65 \<le> byte_val c \<and> byte_val c \<le> 90")
    case True
    then have v: "byte_val (lower_char c) = byte_val c + 32" by (simp add: lower_char_def byte_val_def)
    moreover have "d \<in> set ''[]%_'' \<Longrightarrow> byte_val d \<in> {91, 93, 37, 95}" for d by (auto simp: byte_val_def)
    ultimately show ?thesis using True by fastforce
  next
    case False
    then have "lower_char c = c" by (auto simp: lower_char_def byte_val_def)
    then show ?thesis using c by simp
  qed
  then show ?thesis using assms by (auto simp: plain_pattern_def to_lower_def)
qed

lemma to_lower_append [simp]: "to_lower (a @ b) = to_lower a @ to_lower b"
  by (simp add: to_lower_def)

lemma matched_contains:
  assumes "match_value (newPathMatcher br pattern) value = Some n" "value \<noteq> []" "plain_pattern (pm_lower (newPathMatcher br pattern))"
  shows "contains_str value (pm_literalRun (newPathMatcher br pattern))"
proof -
  define m where "m = newPathMatcher br pattern"
  define lower where "lower = pm_lower m"
  have m: "pm_literalRun m = longestLiteralRun lower"
    "pm_expression m = (if pm_glob m then globExpression br lower else None)"
    by (simp_all add: m_def lower_def newPathMatcher_def Let_def)
  have plain: "plain_pattern lower" using assms(3) by (simp add: m_def lower_def)
  obtain a r b where r: "lower = a @ r @ b" "list_all (\<lambda>c. \<not> wild c) r" "longestLiteralRun lower = trim_chars r ''/''"
    using longest_run [OF plain] by blast
  obtain x where x: "dropWhile (\<lambda>c. c = CHR ''/'') r = trim_chars r ''/'' @ x" using trimmed_infix by blast
  have r_ascii: "list_all (\<lambda>c. byte_val c < 128) (dropWhile (\<lambda>c. c = CHR ''/'') r)"
    using plain r(1) by (auto simp: plain_pattern_def list_all_iff dest: set_dropWhileD)
  have glob: "contains_str t (longestLiteralRun lower)" if "match_string e t" "globExpression br lower = Some e" for e t
  proof -
    have "glob_matches br lower (map fst (cells t))" using glob_correct [where br = br and p = lower and s = t] that by simp
    moreover have "CHR ''['' \<notin> set (a @ r @ b)" using plain r(1) by (auto simp: plain_pattern_def)
    ultimately obtain u v where "map fst (cells t) = u @ map byte_val (dropWhile (\<lambda>c. c = CHR ''/'') r) @ v"
      using glob_contains_run [where br = br and a = a and r = r and b = b] r by blast
    then have "contains_str t (dropWhile (\<lambda>c. c = CHR ''/'') r)" using run_in_text r_ascii by blast
    then show ?thesis using x r(3) contains_trans contains_self(3) by metis
  qed
  have literal: "contains_str lower (longestLiteralRun lower)"
  proof -
    have "\<exists>u. r = u @ dropWhile (\<lambda>c. c = CHR ''/'') r" by (metis takeWhile_dropWhile_id)
    then obtain u where "r = u @ trim_chars r ''/'' @ x" using x by metis
    then have "lower = (a @ u) @ trim_chars r ''/'' @ (x @ b)" using r(1) by simp
    then show ?thesis unfolding r(3) contains_iff by blast
  qed
  have base: "contains_str value (path_Base value)" by (rule base_infix [OF assms(2)])
  have tails: "contains_str value t" if "t \<in> set (path_tails value)" for t
    using that join_suffix [of "[CHR ''/'']" "split_on (CHR ''/'') value"]
    by (auto simp: path_tails_def Let_def) (metis contains_self(2) join_split)
  show ?thesis
  proof (cases "pm_glob m")
    case True
    then obtain e where e: "globExpression br lower = Some e"
      using assms(1) m(2) by (auto simp: match_value_def Let_def m_def [symmetric] split: option.splits)
    then have "\<exists>t. contains_str value t \<and> match_string e t"
      using assms(1) True m(2) base tails
      by (auto simp: match_value_def Let_def m_def [symmetric] list_ex_iff split: if_splits) (metis contains_self(1))+
    then show ?thesis using glob e contains_trans m(1) m_def by metis
  next
    case False
    then have "contains_str value lower"
      using assms(1) base contains_trans [OF base]
      by (auto simp: match_value_def Let_def m_def [symmetric] lower_def [symmetric] prefix_def split: if_splits)
    then show ?thesis using literal contains_trans m(1) m_def by metis
  qed
qed

section \<open>Shell globs\<close>

text \<open>
  What a developer writes: letters, the wildcards \<^verbatim>\<open>?\<close>, \<^verbatim>\<open>*\<close> and \<^verbatim>\<open>**\<close>, any number of directories
  \<^verbatim>\<open>**/\<close>, and brackets that list characters and ranges of them.
\<close>

datatype glob = Letter char | One | Star | Deep | Dirs | Member "(char \<times> char) list"

definition write_range :: "char \<times> char \<Rightarrow> string" where
  "write_range = (\<lambda>(lo, hi). if lo = hi then [lo] else [lo, CHR ''-'', hi])"

fun write_token :: "glob \<Rightarrow> string" where
  "write_token (Letter c) = [c]"
| "write_token One = ''?''"
| "write_token Star = ''*''"
| "write_token Deep = ''**''"
| "write_token Dirs = ''**/''"
| "write_token (Member ms) = ''['' @ concat (map write_range ms) @ '']''"

definition write_glob :: "glob list \<Rightarrow> string" where
  "write_glob ts = concat (map write_token ts)"

text \<open>
  The names a glob stands for, as sequences of runes: a question mark is one rune of a segment, a
  star any part of a segment, two stars any text, and two stars with a slash a sequence of whole
  segments.
\<close>

fun token_names :: "glob \<Rightarrow> nat list set" where
  "token_names (Letter c) = {[byte_val c]}"
| "token_names One = {[x] | x. x \<noteq> byte_val CHR ''/''}"
| "token_names Star = {w. byte_val CHR ''/'' \<notin> set w}"
| "token_names Deep = UNIV"
| "token_names Dirs = {concat ds | ds. \<forall>d \<in> set ds. \<exists>u. d = u @ [byte_val CHR ''/''] \<and> byte_val CHR ''/'' \<notin> set u}"
| "token_names (Member ms) = {[x] | x. \<exists>(lo, hi) \<in> set ms. byte_val lo \<le> x \<and> x \<le> byte_val hi}"

fun glob_names :: "glob list \<Rightarrow> nat list set" where
  "glob_names [] = {[]}"
| "glob_names (t # ts) = {u @ v | u v. u \<in> token_names t \<and> v \<in> glob_names ts}"

text \<open>
  The texts with one reading only: letters of ASCII that are not written as wildcards, brackets of
  ASCII letters and digits, no star behind a single star, and no slash behind \<^verbatim>\<open>**\<close> that is not
  part of it.
\<close>

definition plain_member :: "char \<times> char \<Rightarrow> bool" where
  "plain_member m \<longleftrightarrow> alnum_rune (byte_val (fst m)) \<and> alnum_rune (byte_val (snd m)) \<and> byte_val (fst m) \<le> byte_val (snd m)"

fun one_reading :: "glob list \<Rightarrow> bool" where
  "one_reading [] \<longleftrightarrow> True"
| "one_reading (t # ts) \<longleftrightarrow> one_reading ts \<and>
     (case t of
        Letter c \<Rightarrow> byte_val c < 128 \<and> c \<notin> {CHR ''*'', CHR ''?'', CHR ''['', CHR 0x0A}
      | Star \<Rightarrow> ts = [] \<or> hd ts \<notin> {Star, Deep, Dirs}
      | Deep \<Rightarrow> ts = [] \<or> hd ts \<noteq> Letter (CHR ''/'')
      | Member ms \<Rightarrow> ms \<noteq> [] \<and> (\<forall>m \<in> set ms. plain_member m)
      | _ \<Rightarrow> True)"

lemma write_glob_simps [simp]: "write_glob [] = []" "write_glob (t # ts) = write_token t @ write_glob ts"
  by (simp_all add: write_glob_def)

lemma names_split: "w \<in> glob_names (t # ts) \<longleftrightarrow> (\<exists>n \<le> length w. take n w \<in> token_names t \<and> drop n w \<in> glob_names ts)"
proof
  assume "w \<in> glob_names (t # ts)"
  then obtain u v where "w = u @ v" "u \<in> token_names t" "v \<in> glob_names ts" by auto
  then show "\<exists>n \<le> length w. take n w \<in> token_names t \<and> drop n w \<in> glob_names ts" by (intro exI [of _ "length u"]) simp
next
  assume "\<exists>n \<le> length w. take n w \<in> token_names t \<and> drop n w \<in> glob_names ts"
  then show "w \<in> glob_names (t # ts)" by (metis (mono_tags, lifting) append_take_drop_id glob_names.simps(2) mem_Collect_eq)
qed

lemma single_name:
  assumes "token_names t = {[x] | x. Q x}"
  shows "w \<in> glob_names (t # ts) \<longleftrightarrow> w \<noteq> [] \<and> Q (hd w) \<and> tl w \<in> glob_names ts"
proof
  assume "w \<in> glob_names (t # ts)"
  then show "w \<noteq> [] \<and> Q (hd w) \<and> tl w \<in> glob_names ts" using assms by auto
next
  assume r: "w \<noteq> [] \<and> Q (hd w) \<and> tl w \<in> glob_names ts"
  then have "[hd w] \<in> token_names t" "w = [hd w] @ tl w" using assms by auto
  then show "w \<in> glob_names (t # ts)" using r unfolding glob_names.simps by blast
qed

lemma dirs_names: "u \<in> token_names Dirs \<longleftrightarrow> u = [] \<or> last u = 47"
proof
  assume "u = [] \<or> last u = 47"
  then show "u \<in> token_names Dirs" using segments_of [of u 47] by (auto simp: list_all_iff byte_val_def)
next
  assume "u \<in> token_names Dirs"
  then obtain ds where ds: "u = concat ds" "\<forall>d \<in> set ds. \<exists>x. d = x @ [47] \<and> 47 \<notin> set x" by (auto simp: byte_val_def)
  then show "u = [] \<or> last u = 47" by (induction ds rule: rev_induct) auto
qed

text \<open>What is written first.\<close>

lemma star_first:
  assumes "one_reading (Star # ts)" shows "\<not> has_prefix (write_glob ts) ''*''"
proof (cases ts)
  case (Cons t rest)
  then show ?thesis using assms by (cases t) (auto simp: prefix_def write_range_def)
qed simp

lemma slash_first:
  assumes "one_reading (Deep # ts)" shows "\<not> has_prefix (write_glob ts) ''/''"
proof (cases ts)
  case (Cons t rest)
  then show ?thesis using assms by (cases t) (auto simp: prefix_def)
qed simp

lemma plain_member_range:
  assumes "plain_member m" "c \<in> set (write_range m)"
  shows "c = CHR ''-'' \<or> alnum_rune (byte_val c)"
  using assms by (auto simp: plain_member_def write_range_def split: prod.splits if_splits)

lemma class_item_first:
  "rest = [] \<or> hd rest \<noteq> 45 \<Longrightarrow> class_items (lo # rest) = map_option (\<lambda>P x. x = lo \<or> P x) (class_items rest)"
  by (cases rest rule: class_items.cases) auto

lemma class_items_members:
  "\<forall>m \<in> set ms. plain_member m \<Longrightarrow>
     \<exists>P. class_items (map byte_val (concat (map write_range ms))) = Some P \<and>
       (\<forall>x. P x \<longleftrightarrow> (\<exists>(lo, hi) \<in> set ms. byte_val lo \<le> x \<and> x \<le> byte_val hi))"
proof (induction ms)
  case (Cons m ms)
  obtain lo hi where m: "m = (lo, hi)" by (cases m)
  obtain P where P: "class_items (map byte_val (concat (map write_range ms))) = Some P"
      "\<forall>x. P x \<longleftrightarrow> (\<exists>(lo, hi) \<in> set ms. byte_val lo \<le> x \<and> x \<le> byte_val hi)" using Cons by auto
  show ?case
  proof (cases "lo = hi")
    case True
    have "concat (map write_range ms) = [] \<or> hd (map byte_val (concat (map write_range ms))) \<noteq> 45"
    proof (cases ms)
      case (Cons k ks)
      then have "plain_member k" using Cons.prems by simp
      then show ?thesis unfolding Cons
        by (auto simp: plain_member_def write_range_def alnum_rune_def letter_rune_def upper_rune_def lower_rune_def digit_rune_def split: prod.splits)
    qed simp
    then have "class_items (map byte_val (concat (map write_range (m # ms)))) = Some (\<lambda>x. x = byte_val lo \<or> P x)"
      using m True P(1) class_item_first [of "map byte_val (concat (map write_range ms))" "byte_val lo"] by (auto simp: write_range_def)
    then show ?thesis using m True P(2) by auto
  next
    case False
    then have "byte_val lo \<le> byte_val hi" using Cons.prems m by (simp add: plain_member_def)
    moreover have "byte_val (CHR ''-'') = 45" by (simp add: byte_val_def)
    ultimately show ?thesis using m False P by (auto simp: write_range_def)
  qed
qed simp

lemma bracket_members:
  assumes "ms \<noteq> []" "\<forall>m \<in> set ms. plain_member m"
  shows "\<exists>P. bracket_class br (write_token (Member ms)) = Some P \<and>
    (\<forall>x. P x \<longleftrightarrow> (\<exists>(lo, hi) \<in> set ms. byte_val lo \<le> x \<and> x \<le> byte_val hi))"
proof -
  define body where "body = concat (map write_range ms)"
  have chars: "c = CHR ''-'' \<or> alnum_rune (byte_val c)" if "c \<in> set body" for c
    using that assms(2) plain_member_range unfolding body_def by fastforce
  then have out: "c \<notin> set body" if "c \<in> {CHR 0x5C, CHR '':'', CHR ''['', CHR '']'', CHR ''^''}" for c
    using that by (force simp: alnum_rune_def letter_rune_def upper_rune_def lower_rune_def digit_rune_def byte_val_def)
  have ascii: "list_all (\<lambda>c. byte_val c < 128) body"
    using chars by (force simp: list_all_iff alnum_rune_def letter_rune_def upper_rune_def lower_rune_def digit_rune_def byte_val_def)
  have ne: "body \<noteq> []" using assms(1) by (cases ms) (auto simp: body_def write_range_def split: prod.splits)
  have t: "write_token (Member ms) = ''['' @ body @ '']''" by (simp add: body_def)
  have parts: "butlast (tl (''['' @ body @ '']'')) = body" by (simp add: butlast_append)
  have hat: "\<not> has_prefix body ''^''" using out [of "CHR ''^''"] by (auto simp: prefix_def)
  have escape: "CHR 0x5C \<notin> set (''['' @ body @ '']'')" using out [of "CHR 0x5C"] by simp
  have named: "\<not> contains_str (''['' @ body @ '']'') ''[:''"
  proof
    assume "contains_str (''['' @ body @ '']'') ''[:''"
    then obtain x y where "''['' @ body @ '']'' = x @ ''[:'' @ y" unfolding contains_iff by blast
    then have "CHR '':'' \<in> set (''['' @ body @ '']'')" by (metis Un_iff append_Cons in_set_conv_decomp set_append)
    then show False using out [of "CHR '':''"] by simp
  qed
  have cells: "cells body = map (\<lambda>c. (byte_val c, [c])) body" by (rule cells_ascii_text [OF ascii])
  then have bad: "(RuneError, 1) \<notin> set (map (\<lambda>c. (fst c, length (snd c))) (cells body))"
    using ascii by (auto simp: RuneError_def list_all_iff)
  have runes: "map fst (cells body) = map byte_val body" using cells by (simp add: comp_def)
  obtain P where P: "class_items (map byte_val body) = Some P"
      "\<forall>x. P x \<longleftrightarrow> (\<exists>(lo, hi) \<in> set ms. byte_val lo \<le> x \<and> x \<le> byte_val hi)"
    using class_items_members [OF assms(2)] body_def by blast
  have "bracket_class br (''['' @ body @ '']'') = Some P"
    unfolding bracket_class_def Let_def parts using hat ne escape named bad runes P(1) by simp
  then show ?thesis unfolding t using P(2) by blast
qed

lemma member_closed:
  assumes "\<forall>m \<in> set ms. plain_member m"
  shows "index_byte (write_token (Member ms) @ q) (CHR '']'') = Some (Suc (length (concat (map write_range ms))))"
proof -
  have "CHR '']'' \<notin> set (''['' @ concat (map write_range ms))"
  proof
    assume "CHR '']'' \<in> set (''['' @ concat (map write_range ms))"
    then obtain m where "plain_member m" "CHR '']'' \<in> set (write_range m)" using assms by auto
    then show False using plain_member_range
      by (fastforce simp: alnum_rune_def letter_rune_def upper_rune_def lower_rune_def digit_rune_def byte_val_def)
  qed
  from index_byte_append [OF this, of q] show ?thesis by simp
qed

lemma glob_reading:
  "one_reading ts \<Longrightarrow> 10 \<notin> set w \<Longrightarrow> glob_matches br (write_glob ts) w \<longleftrightarrow> w \<in> glob_names ts"
proof (induction ts arbitrary: w)
  case Nil
  then show ?case by (simp add: glob_matches.simps)
next
  case (Cons t ts)
  let ?q = "write_glob ts"
  have ih: "glob_matches br ?q v \<longleftrightarrow> v \<in> glob_names ts" if "set v \<subseteq> set w" for v
    using Cons that by auto
  have rest: "glob_matches br ?q (drop n w) \<longleftrightarrow> drop n w \<in> glob_names ts" for n
    by (rule ih) (rule set_drop_subset)
  have tail: "glob_matches br ?q (tl w) \<longleftrightarrow> tl w \<in> glob_names ts" by (rule ih) (cases w; auto)
  show ?case
  proof (cases t)
    case (Letter c)
    then have "c \<noteq> CHR ''*''" "c \<noteq> CHR ''?''" "c \<noteq> CHR ''[''" using Cons.prems(1) by auto
    then show ?thesis using Letter tail by (cases w) (auto simp: glob_matches.simps)
  next
    case One
    have "w \<in> glob_names (t # ts) \<longleftrightarrow> w \<noteq> [] \<and> hd w \<noteq> byte_val (CHR ''/'') \<and> tl w \<in> glob_names ts"
      by (rule single_name) (simp add: One)
    then show ?thesis using tail One by (simp add: glob_matches.simps byte_val_def)
  next
    case Star
    have "\<not> has_prefix ?q ''*''" using star_first Cons.prems(1) Star by simp
    then have "\<not> has_prefix ?q ''*/''" by (auto simp: prefix_def)
    then have "glob_matches br (write_glob (t # ts)) w \<longleftrightarrow> (\<exists>n \<le> length w. 47 \<notin> set (take n w) \<and> drop n w \<in> glob_names ts)"
      using Star \<open>\<not> has_prefix ?q ''*''\<close> rest by (simp add: glob_matches.simps)
    then show ?thesis unfolding names_split Star by (simp add: byte_val_def)
  next
    case Deep
    have "\<not> has_prefix ?q ''/''" using slash_first Cons.prems(1) Deep by simp
    then have two: "\<not> has_prefix (CHR ''*'' # ?q) ''*/''" "has_prefix (CHR ''*'' # ?q) ''*''" by (auto simp: prefix_def)
    have feed: "10 \<notin> set (take n w)" for n using Cons.prems(2) by (auto dest: in_set_takeD)
    have "glob_matches br (write_glob (t # ts)) w \<longleftrightarrow> (\<exists>n \<le> length w. drop n w \<in> glob_names ts)"
      using Deep two rest feed by (simp add: glob_matches.simps)
    then show ?thesis unfolding names_split Deep by simp
  next
    case Dirs
    have at: "take n w = [] \<or> last (take n w) = 47 \<longleftrightarrow> n = 0 \<or> w ! (n - 1) = 47" if "n \<le> length w" for n
    proof (cases n)
      case (Suc k)
      then have "take n w \<noteq> []" "length (take n w) = Suc k" using that by auto
      then have "last (take n w) = w ! k" using Suc last_conv_nth [of "take n w"] by simp
      then show ?thesis using Suc that by auto
    qed simp
    have "glob_matches br (write_glob (t # ts)) w \<longleftrightarrow>
        (\<exists>n \<le> length w. (n = 0 \<or> w ! (n - 1) = 47) \<and> drop n w \<in> glob_names ts)"
      using Dirs rest by (simp add: glob_matches.simps)
    also have "\<dots> \<longleftrightarrow> (\<exists>n \<le> length w. take n w \<in> token_names Dirs \<and> drop n w \<in> glob_names ts)"
      unfolding dirs_names using at by blast
    finally show ?thesis unfolding names_split Dirs .
  next
    case (Member ms)
    have ms: "ms \<noteq> []" "\<forall>m \<in> set ms. plain_member m" using Cons.prems(1) Member by auto
    define body where "body = concat (map write_range ms)"
    have word: "write_glob (t # ts) = CHR ''['' # (body @ '']'' @ ?q)" using Member by (simp add: body_def)
    have close: "index_byte (CHR ''['' # (body @ '']'' @ ?q)) (CHR '']'') = Some (Suc (length body))"
      using member_closed [OF ms(2), of ?q] by (simp add: body_def)
    obtain P where P: "bracket_class br (''['' @ body @ '']'') = Some P"
        "\<forall>x. P x \<longleftrightarrow> (\<exists>(lo, hi) \<in> set ms. byte_val lo \<le> x \<and> x \<le> byte_val hi)"
      using bracket_members [OF ms, of br] by (auto simp: body_def)
    have parts: "take (Suc (length body) + 1) (CHR ''['' # (body @ '']'' @ ?q)) = ''['' @ body @ '']''"
        "drop (Suc (length body)) (body @ '']'' @ ?q) = ?q" by simp_all
    have "glob_matches br (write_glob (t # ts)) w \<longleftrightarrow> w \<noteq> [] \<and> P (hd w) \<and> glob_matches br ?q (tl w)"
      unfolding word glob_matches.simps(2) close using parts P(1) by simp
    moreover have "w \<in> glob_names (t # ts) \<longleftrightarrow>
        w \<noteq> [] \<and> (\<exists>(lo, hi) \<in> set ms. byte_val lo \<le> hd w \<and> hd w \<le> byte_val hi) \<and> tl w \<in> glob_names ts"
      by (rule single_name) (simp add: Member)
    ultimately show ?thesis using tail P(2) by simp
  qed
qed

lemma names_exist: "one_reading ts \<Longrightarrow> \<exists>w. w \<in> glob_names ts \<and> 10 \<notin> set w"
proof (induction ts)
  case (Cons t ts)
  then obtain v where v: "v \<in> glob_names ts" "10 \<notin> set v" by auto
  have "\<exists>u. u \<in> token_names t \<and> 10 \<notin> set u"
  proof (cases t)
    case (Letter c)
    then have "c \<noteq> CHR 0x0A" using Cons.prems by simp
    then have "byte_val c \<noteq> 10" using byte_val_inj [of c "CHR 0x0A"] by (simp add: byte_val_def)
    then show ?thesis using Letter by simp
  next
    case One
    then show ?thesis by (intro exI [of _ "[65]"]) (simp add: byte_val_def)
  next
    case Dirs
    then show ?thesis by (intro exI [of _ "[]"]) (auto simp: dirs_names simp del: token_names.simps)
  next
    case (Member ms)
    then obtain m ms' where m: "ms = m # ms'" "plain_member m" using Cons.prems by (cases ms) auto
    then have "[byte_val (fst m)] \<in> token_names t" using Member by (cases m) (auto simp: plain_member_def)
    moreover have "byte_val (fst m) \<noteq> 10"
      using m(2) by (auto simp: plain_member_def alnum_rune_def letter_rune_def upper_rune_def lower_rune_def digit_rune_def)
    ultimately show ?thesis by (intro exI [of _ "[byte_val (fst m)]"]) simp
  qed (auto intro: exI [of _ "[]"])
  then show ?case using v by (metis (mono_tags, lifting) Un_iff glob_names.simps(2) mem_Collect_eq set_append)
qed simp

lemma prefilter_keeps:
  assumes "\<forall>c \<in> set pattern. byte_val c < 128 \<and> c \<notin> set ''[]%_''"
    "match_path (newPathMatcher br pattern) path = Some n" "lowered_path path \<noteq> []"
  shows "sqlLike (newPathMatcher br pattern) = [] \<or>
    (\<exists>run. sqlLike (newPathMatcher br pattern) = ''%'' @ run @ ''%'' \<and> contains_str (to_lower path) run \<and>
      set run \<subseteq> set (to_lower pattern))"
proof -
  have "\<forall>c \<in> set (trim_prefix pattern ''./''). byte_val c < 128 \<and> c \<notin> set ''[]%_''"
    using assms(1) by (auto simp: trim_prefix_def dest: in_set_dropD)
  then have plain: "plain_pattern (pm_lower (newPathMatcher br pattern))"
      "\<forall>c \<in> set (pm_lower (newPathMatcher br pattern)). c \<notin> set ''%_''"
    using lowered_plain [of "trim_prefix pattern ''./''"] unfolding newPathMatcher_def Let_def pathMatcher.select_convs by blast+
  define run where "run = pm_literalRun (newPathMatcher br pattern)"
  have "contains_str (lowered_path path) run"
    using matched_contains [OF _ assms(3) plain(1)] assms(2) by (simp add: match_path_def run_def)
  moreover have "contains_str (to_lower path) (lowered_path path)"
  proof -
    have "\<exists>x. path = x @ trim_prefix path ''./''" by (metis append_Nil append_take_drop_id trim_prefix_def)
    then show ?thesis unfolding lowered_path_def by (metis contains_self(2) to_lower_append)
  qed
  ultimately have found: "contains_str (to_lower path) run" using contains_trans by blast
  have "run = longestLiteralRun (pm_lower (newPathMatcher br pattern))" by (simp add: run_def newPathMatcher_def Let_def)
  then obtain a r b where "pm_lower (newPathMatcher br pattern) = a @ r @ b" "run = trim_chars r ''/''"
    using longest_run [OF plain(1)] by blast
  moreover obtain x where "dropWhile (\<lambda>c. c = CHR ''/'') r = trim_chars r ''/'' @ x" using trimmed_infix by blast
  then have "set (trim_chars r ''/'') \<subseteq> set (dropWhile (\<lambda>c. c = CHR ''/'') r)" by simp
  then have "set (trim_chars r ''/'') \<subseteq> set r" using set_dropWhileD by fast
  ultimately have sub: "set run \<subseteq> set (pm_lower (newPathMatcher br pattern))" by auto
  have "filter (\<lambda>c. c \<noteq> CHR ''%'' \<and> c \<noteq> CHR ''_'') run = run" using plain(2) sub by (auto simp: filter_id_conv)
  then have "sqlLike (newPathMatcher br pattern) = (if run = [] then [] else ''%'' @ run @ ''%'')"
    by (simp add: sqlLike_def run_def [symmetric])
  moreover have "set (pm_lower (newPathMatcher br pattern)) \<subseteq> set (to_lower pattern)"
    by (auto simp: newPathMatcher_def Let_def to_lower_def trim_prefix_def dest: in_set_dropD)
  ultimately show ?thesis using found sub by auto
qed

section \<open>Properties\<close>

text \<open>
  C32: the translation of a glob to a regular expression is right. A glob that is written with one
  reading is always translated, and the expression \<^verbatim>\<open>globExpression\<close> builds matches a name without
  line feed exactly if the name is one the glob stands for as a shell glob with \<^verbatim>\<open>**\<close>: a question
  mark and a star never cross a slash, \<^verbatim>\<open>**/\<close> is whole directories, a bracket is one of its
  members. Outside of this fragment the code departs from shells: letters outside ASCII are never
  found (\<open>letters_outside_ascii\<close>), and \<^verbatim>\<open>[!a]\<close> is not a negation (\<open>bang_is_a_member\<close>).
\<close>

theorem glob_is_shell_glob:
  assumes "one_reading ts" "10 \<notin> set (map fst (cells s))"
  shows "\<exists>r. globExpression br (write_glob ts) = Some r \<and> (match_string r s \<longleftrightarrow> map fst (cells s) \<in> glob_names ts)"
proof -
  obtain w where "w \<in> glob_names ts" "10 \<notin> set w" using names_exist [OF assms(1)] by blast
  then have "glob_matches br (write_glob ts) w" using glob_reading [OF assms(1)] by simp
  then have "glob_parts br (write_glob ts) \<noteq> None" using glob_parts_refused by blast
  then obtain r where r: "globExpression br (write_glob ts) = Some r" by (auto simp: globExpression_def)
  then have "match_string r s \<longleftrightarrow> map fst (cells s) \<in> glob_names ts"
    using glob_correct [where br = br and p = "write_glob ts" and s = s] glob_reading [OF assms] by simp
  then show ?thesis using r by blast
qed

text \<open>
  The coarse filter the database is given drops no file the precise matcher accepts. For a
  pattern of ASCII characters without brackets, percent signs and underscores, a path that
  \<^verbatim>\<open>match\<close> accepts either meets no filter at all or contains, in lower case, the text the
  \<^verbatim>\<open>LIKE\<close> clause looks for.
\<close>

theorem prefilter_keeps_matches:
  assumes "\<forall>c \<in> set pattern. byte_val c < 128 \<and> c \<notin> set ''[]%_''"
    "match_path (newPathMatcher br pattern) path = Some n" "lowered_path path \<noteq> []"
  shows "sqlLike (newPathMatcher br pattern) = [] \<or>
    (\<exists>run. sqlLike (newPathMatcher br pattern) = ''%'' @ run @ ''%'' \<and> contains_str (to_lower path) run)"
  using prefilter_keeps [OF assms] by blast

section \<open>Witness and corners\<close>

lemmas glob_eval = Let_def newPathMatcher_def match_path_def match_value_def lowered_path_def trim_prefix_def trim_suffix_def to_lower_def
  lower_char_def contains_any_def contains_str_def globExpression_def glob_parts.simps path_Base_def after_last_slash_def
  trim_right_def trim_left_def trim_chars_def longestLiteralRun_def run_step_def sqlLike_def written_rune_def RuneError_def
  directories_def anything_def literal_def no_slash_def

lemma prefilter_keeps_matches_witness:
  "sqlLike (newPathMatcher (\<lambda>_. None) ''*.go'') = [] \<or>
    (\<exists>run. sqlLike (newPathMatcher (\<lambda>_. None) ''*.go'') = ''%'' @ run @ ''%'' \<and> contains_str (to_lower ''a.go'') run)"
  by (rule prefilter_keeps_matches [where n = 90 and path = "''a.go''"]) (simp_all add: glob_eval regexp_eval suffix_def)

lemma glob_is_shell_glob_witness:
  "\<exists>r. globExpression (\<lambda>_. None) (write_glob [Dirs, Star, Letter (CHR ''.''), Member [(CHR ''c'', CHR ''d''), (CHR ''h'', CHR ''h'')]]) = Some r \<and>
     (match_string r ''a/b.h'' \<longleftrightarrow>
        map fst (cells ''a/b.h'') \<in> glob_names [Dirs, Star, Letter (CHR ''.''), Member [(CHR ''c'', CHR ''d''), (CHR ''h'', CHR ''h'')]])"
  by (rule glob_is_shell_glob)
    (simp_all add: plain_member_def alnum_rune_def letter_rune_def upper_rune_def lower_rune_def digit_rune_def byte_val_def cells_ascii_text)

text \<open>A shell reads \<^verbatim>\<open>[!a]\<close> as every character but one. The code finds the one, and the mark.\<close>

lemma bang_is_a_member:
  "match_path (newPathMatcher br ''[!a]'') ''a'' = Some 90" "match_path (newPathMatcher br ''[!a]'') ''b'' = None"
  by (simp_all add: glob_eval regexp_eval among_def suffix_def bracket_class_def)

text \<open>
  The filter takes out \<^verbatim>\<open>_\<close> and \<^verbatim>\<open>%\<close>, which stand for other text in a \<^verbatim>\<open>LIKE\<close> clause, and looks for
  what is left as one piece: a name with an underscore is never found.
\<close>

lemma underscore_dropped:
  "sqlLike (newPathMatcher br ''a_b'') = ''%ab%'' \<and> match_path (newPathMatcher br ''a_b'') ''a_b'' = Some 100
     \<and> \<not> contains_str ''a_b'' ''ab''"
  by (simp add: glob_eval cells_ascii_text byte_val_def among_def suffix_def)

text \<open>The members of a class count as literal text of the pattern, and the filter looks for them.\<close>

lemma class_taken_as_text:
  "sqlLike (newPathMatcher br ''[abc]x'') = ''%abc%'' \<and> match_path (newPathMatcher br ''[abc]x'') ''ax'' = Some 90
     \<and> \<not> contains_str ''ax'' ''abc''"
  by (simp add: glob_eval regexp_eval among_def suffix_def bracket_class_def)

text \<open>
  The bytes of a letter outside ASCII become runes of their own: a glob with a Korean letter
  does not find the file of that name.
\<close>

lemma letters_outside_ascii:
  "match_path (newPathMatcher br ([CHR 0xED, CHR 0x95, CHR 0x9C] @ ''*'')) [CHR 0xED, CHR 0x95, CHR 0x9C] = None"
proof -
  let ?p = "[CHR 0xED, CHR 0x95, CHR 0x9C] @ ''*''" and ?s = "[CHR 0xED, CHR 0x95, CHR 0x9C]"
  define m where "m = newPathMatcher br ?p"
  have cells: "cells ?s = [(54620, ?s)]"
    by (subst cells.simps) (simp add: decode_rune_def rune_lead_def byte_val_def)
  have "\<not> glob_matches br ?p (map fst (cells ?s))"
    unfolding cells by (simp add: glob_matches.simps byte_val_def)
  then have no: "\<not> (case globExpression br ?p of None \<Rightarrow> False | Some r \<Rightarrow> match_string r ?s)"
    using glob_correct [where br = br and p = ?p and s = ?s] by simp
  have m: "pm_glob m" "\<not> pm_fullPath m" "pm_expression m = globExpression br ?p"
    by (simp_all add: m_def newPathMatcher_def Let_def to_lower_def lower_char_def trim_prefix_def trim_suffix_def
        contains_any_def contains_str_def suffix_def)
  have v: "lowered_path ?s = ?s" "path_Base ?s = ?s"
    by (simp_all add: lowered_path_def to_lower_def lower_char_def trim_prefix_def path_Base_def after_last_slash_def
        trim_right_def Let_def)
  show ?thesis using no m unfolding match_path_def match_value_def v m_def [symmetric] Let_def
    by (auto split: option.split)
qed

end
