(* ===== verification/FileSearch.thy ===== *)
theory FileSearch
  imports Catalog Sanitize Globs
begin

text \<open>
  Finding and reading files: \<^verbatim>\<open>FindFiles\<close>, \<^verbatim>\<open>remoteFileListings\<close>, \<^verbatim>\<open>ReadFile\<close> and \<^verbatim>\<open>fileBody\<close> of
  \<^verbatim>\<open>internal/search/service.go\<close>, and the search for tests of \<^verbatim>\<open>internal/search/tests.go\<close>. The
  tables are those of \<open>Catalog\<close>, the patterns those of \<open>Globs\<close>, the masking that of \<open>Sanitize\<close>. What
  the source servers answer is an argument. A statement without an order reads its rows in the
  order of the table. The trace of a call and the report to the circuit breaker are left out.
\<close>

section \<open>Results and arguments\<close>

record FileResult =
  fr_LibraryID :: string
  fr_SourceType :: string
  fr_ProjectKey :: string
  fr_RepositorySlug :: string
  fr_Ref :: string
  fr_Path :: string
  fr_BaseName :: string
  fr_SizeBytes :: int
  fr_ContentIndexed :: bool
  fr_Origin :: string
  fr_score :: nat

record FileSearchResult =
  fs_Pattern :: string
  fs_Files :: "FileResult list"
  fs_Diagnostics :: "string list"

record FileContent =
  fc_LibraryID :: string
  fc_SourceType :: string
  fc_ProjectKey :: string
  fc_RepositorySlug :: string
  fc_Ref :: string
  fc_Path :: string
  fc_CommitID :: string
  fc_Content :: string
  fc_StartLine :: int
  fc_EndLine :: int
  fc_TotalLines :: int
  fc_Origin :: string
  fc_Truncated :: bool
  fc_Redacted :: bool
  fc_Candidates :: "string list"
  fc_Diagnostics :: "string list"

datatype file_error =
    PatternRequired | PathRequired | CatalogError catalog_error | ChooseLibrary string nat
  | CouldNotRead string string string | BlockedPrivateKey string

text \<open>
  The source servers: whether any is configured, the tree of a repository at a ref (\<open>None\<close> for
  any error) and the bytes of a file (or the text of the error), each by source type, project
  and slug.
\<close>

record servers =
  sv_connected :: bool
  sv_tree :: "string \<Rightarrow> string \<Rightarrow> string \<Rightarrow> string \<Rightarrow> (string \<times> int) list option"
  sv_file :: "string \<Rightarrow> string \<Rightarrow> string \<Rightarrow> string \<Rightarrow> string \<Rightarrow> string + string"

section \<open>Finding files\<close>

definition maxRemoteFileListings :: nat where "maxRemoteFileListings = 5"

definition file_scope :: "engine \<Rightarrow> string option \<Rightarrow> string \<Rightarrow> string \<Rightarrow> string \<Rightarrow> catalog_repo \<Rightarrow> bool" where
  "file_scope e base sourceType project repository r \<longleftrightarrow>
     (case base of None \<Rightarrow> True | Some b \<Rightarrow> cr_library r = b) \<and>
     (sourceType = [] \<or> cr_source r = sourceType) \<and>
     (project = [] \<or> lower_sql e (cr_project r) = lower_sql e project) \<and>
     (repository = [] \<or> lower_sql e (cr_slug r) = lower_sql e repository \<or> lower_sql e (cr_library r) = lower_sql e repository)"

text \<open>The library a search is limited to, and the version in its id as the ref if none is given.\<close>

definition library_base :: "string \<Rightarrow> string option" where
  "library_base libraryID = (if libraryID = [] then None else map_option fst (splitLibraryID libraryID))"

definition library_ref :: "string \<Rightarrow> string \<Rightarrow> string" where
  "library_ref libraryID ref =
     (if libraryID = [] \<or> ref \<noteq> [] then ref else case splitLibraryID libraryID of None \<Rightarrow> [] | Some (_, v) \<Rightarrow> v)"

definition ref_wanted :: "string \<Rightarrow> file_row \<times> catalog_repo \<Rightarrow> bool" where
  "ref_wanted ref = (\<lambda>(f, r). if ref \<noteq> [] then fl_ref f = ref else fl_ref f = cr_branch r)"

definition stored_file :: "file_row \<times> catalog_repo \<Rightarrow> FileResult" where
  "stored_file = (\<lambda>(f, r). \<lparr>fr_LibraryID = cr_library r, fr_SourceType = cr_source r, fr_ProjectKey = cr_project r,
     fr_RepositorySlug = cr_slug r, fr_Ref = fl_ref f, fr_Path = fl_path f, fr_BaseName = fl_base f,
     fr_SizeBytes = fl_size f, fr_ContentIndexed = (fl_indexed f = 1), fr_Origin = ''index'', fr_score = 0\<rparr>)"

definition stored_files ::
    "engine \<Rightarrow> catalog \<Rightarrow> string list \<Rightarrow> string \<Rightarrow> (catalog_repo \<Rightarrow> bool) \<Rightarrow> string \<Rightarrow> FileResult list" where
  "stored_files e db principals pattern scope ref =
     map snd (take 2000 (remdups (map (\<lambda>x. (fl_indexed (fst x), stored_file x))
       (filter (ref_wanted ref) (join_repo (\<lambda>r. readable_repo principals db r \<and> scope r) fl_repo db
         (filter (\<lambda>f. pattern = [] \<or> like_sql e (lower_sql e (fl_path f)) pattern) (c_files db)))))))"

definition scored :: "pathMatcher \<Rightarrow> FileResult list \<Rightarrow> FileResult list" where
  "scored m = List.map_filter (\<lambda>f. map_option (\<lambda>n. f\<lparr>fr_score := n\<rparr>) (match_path m (fr_Path f)))"

text \<open>The repositories whose tree is read from their server, because no path of them is stored.\<close>

definition listing_targets ::
    "engine \<Rightarrow> catalog \<Rightarrow> string list \<Rightarrow> (catalog_repo \<Rightarrow> bool) \<Rightarrow> string set \<Rightarrow> catalog_repo list" where
  "listing_targets e db principals scope indexed =
     filter (\<lambda>r. cr_library r \<notin> indexed)
       (take maxRemoteFileListings (sort_key (\<lambda>r. collation e (cr_library r))
         (remdups (filter (\<lambda>r. (scope r \<and> cr_id r \<notin> fl_repo ` set (c_files db)) \<and> readable_repo principals db r) (c_repos db)))))"

definition selected_ref :: "string \<Rightarrow> catalog_repo \<Rightarrow> string" where
  "selected_ref ref r = (if ref \<noteq> [] then ref else if cr_branch r \<noteq> [] then cr_branch r else ''main'')"

definition remote_file :: "catalog_repo \<Rightarrow> string \<Rightarrow> string \<times> int \<Rightarrow> FileResult" where
  "remote_file r ref = (\<lambda>(path, size). \<lparr>fr_LibraryID = cr_library r, fr_SourceType = cr_source r,
     fr_ProjectKey = cr_project r, fr_RepositorySlug = cr_slug r, fr_Ref = ref, fr_Path = path,
     fr_BaseName = to_lower (path_Base path), fr_SizeBytes = size, fr_ContentIndexed = False,
     fr_Origin = ''remote'', fr_score = 0\<rparr>)"

text \<open>The files found so far and the number of trees that were listed.\<close>

fun list_trees ::
    "servers \<Rightarrow> pathMatcher \<Rightarrow> string \<Rightarrow> nat \<Rightarrow> FileResult list \<Rightarrow> nat \<Rightarrow> catalog_repo list \<Rightarrow> FileResult list \<times> nat" where
  "list_trees sv m ref limit out listed [] = (out, listed)"
| "list_trees sv m ref limit out listed (r # rs) =
     (case sv_tree sv (cr_source r) (cr_project r) (cr_slug r) (selected_ref ref r) of
        None \<Rightarrow> list_trees sv m ref limit out listed rs
      | Some files \<Rightarrow>
          (let found = scored m (map (remote_file r (selected_ref ref r)) files);
               all_found = out @ take (limit - length out) found
           in if limit \<le> length all_found then (all_found, Suc listed)
              else list_trees sv m ref limit all_found (Suc listed) rs))"

text \<open>The files and the diagnostic, which is empty if there is none.\<close>

definition remoteFileListings ::
    "engine \<Rightarrow> servers \<Rightarrow> catalog_faults \<Rightarrow> catalog \<Rightarrow> string list \<Rightarrow> pathMatcher \<Rightarrow> (catalog_repo \<Rightarrow> bool) \<Rightarrow> string
     \<Rightarrow> string set \<Rightarrow> nat \<Rightarrow> FileResult list \<times> string" where
  "remoteFileListings e sv fault db principals m scope ref indexed limit =
     (if \<not> sv_connected sv \<or> fault ListingsQuery then ([], [])
      else let (out, listed) = list_trees sv m ref limit [] 0 (listing_targets e db principals scope indexed)
      in if listed = 0 then ([], [])
         else (out, ''remote: listed '' @ itoa (int listed) @ '' repository tree(s) that have no stored file listing yet.''))"

definition no_identity_note :: string where
  "no_identity_note = ''acl: the Keycloak identity has no bitbucket_user_slug or gitlab_user_id claim, so no repository can be authorized.''"

definition index_note :: "nat \<Rightarrow> nat \<Rightarrow> string" where
  "index_note paths repositories = ''index: matched '' @ itoa (int paths) @ '' stored paths across '' @ itoa (int repositories) @ '' repositories.''"

text \<open>By score, then the shorter path, then the library; ties keep their order.\<close>

definition file_order :: "FileResult \<Rightarrow> int \<times> nat \<times> string" where
  "file_order f = (- int (fr_score f), length (fr_Path f), fr_LibraryID f)"

definition found_files ::
    "engine \<Rightarrow> servers \<Rightarrow> catalog_faults \<Rightarrow> catalog \<Rightarrow> string list \<Rightarrow> pathMatcher \<Rightarrow> string \<Rightarrow> (catalog_repo \<Rightarrow> bool) \<Rightarrow> string \<Rightarrow> nat
     \<Rightarrow> FileSearchResult" where
  "found_files e sv fault db principals m pattern scope ref limit =
     (let stored = stored_files e db principals (sqlLike m) scope ref;
          files = scored m stored;
          seen = fr_LibraryID ` set stored;
          (remote, note') = remoteFileListings e sv fault db principals m scope ref seen limit
      in \<lparr>fs_Pattern = pattern, fs_Files = take limit (sort_key file_order (files @ remote)),
           fs_Diagnostics = index_note (length files) (card seen) # (if note' \<noteq> [] then [note'] else [])\<rparr>)"

definition FindFiles ::
    "engine \<Rightarrow> brackets \<Rightarrow> servers \<Rightarrow> catalog_faults \<Rightarrow> catalog \<Rightarrow> string list \<Rightarrow> string \<Rightarrow> string \<Rightarrow> string \<Rightarrow> string \<Rightarrow> string
     \<Rightarrow> string \<Rightarrow> int \<Rightarrow> file_error + FileSearchResult" where
  "FindFiles e br sv fault db principals pattern0 libraryID sourceType project repository ref limit =
     (let pattern = trim_space pattern0; most = within_or limit 200 50; m = newPathMatcher br pattern in
      if pattern = [] then Inl PatternRequired
      else if principals = [] then Inr \<lparr>fs_Pattern = pattern, fs_Files = [], fs_Diagnostics = [no_identity_note]\<rparr>
      else if libraryID \<noteq> [] \<and> splitLibraryID libraryID = None then Inl (CatalogError LibraryIDForm)
      else if fault FindFilesQuery then Inl (CatalogError QueryFailed)
      else Inr (found_files e sv fault db principals m pattern (file_scope e (library_base libraryID) sourceType project repository)
             (library_ref libraryID ref) most))"

section \<open>Reading a file\<close>

definition readFileLineBudget :: int where "readFileLineBudget = 1200"
definition readFileByteBudget :: int where "readFileByteBudget = 196608"

definition cutAtRuneBoundary :: "string \<Rightarrow> int \<Rightarrow> string" where
  "cutAtRuneBoundary value limit =
     (if limit \<le> 0 then []
      else if int (length value) \<le> limit then value
      else take (back_to_rune value (nat limit)) value)"

definition live_note :: string where
  "live_note = ''remote: read live from the source server, so this is the whole file as it stands on that ref.''"

definition fragments_note :: string where
  "fragments_note = ''index: the source could not be read, so this was reassembled from the indexed fragments of the file. ''
     @ ''It is not the whole file '' @ bytes [226, 128, 148] @ '' headings, package declarations, imports and comments outside ''
     @ ''an indexed fragment are not stored '' @ bytes [226, 128, 148]
     @ '' and the line numbers are of the reassembled text, not of the file.''"

text \<open>What the source server answers: the body, or why there is none.\<close>

definition live_body :: "servers \<Rightarrow> catalog_repo \<Rightarrow> string \<Rightarrow> string \<Rightarrow> string + string" where
  "live_body sv r ref path =
     (if \<not> sv_connected sv then Inl ''no source connector is configured''
      else case sv_file sv (cr_source r) (cr_project r) (cr_slug r) ref path of
        Inl problem \<Rightarrow> Inl problem
      | Inr raw \<Rightarrow> (if raw = [] then Inl ''the source returned an empty body'' else Inr raw))"

definition stored_chunks :: "catalog \<Rightarrow> string \<Rightarrow> string \<Rightarrow> string \<Rightarrow> string list" where
  "stored_chunks db repositoryID ref path =
     map ct_content (sort_key ct_start (filter (\<lambda>c. ct_repo c = repositoryID \<and> ct_ref c = ref \<and> ct_path c = path) (c_contents db)))"

text \<open>The text, where it comes from, and the diagnostics.\<close>

definition fileBody ::
    "servers \<Rightarrow> catalog_faults \<Rightarrow> catalog \<Rightarrow> catalog_repo \<Rightarrow> string \<Rightarrow> string \<Rightarrow> bool \<Rightarrow> string \<times> string \<times> string list" where
  "fileBody sv fault db r ref path indexed =
     (case live_body sv r ref path of
        Inr raw \<Rightarrow> (raw, ''remote'', [live_note])
      | Inl problem \<Rightarrow>
          (if \<not> indexed then ([], ''remote'', [''remote: '' @ problem])
           else if \<not> fault ChunksQuery \<and> stored_chunks db (cr_id r) ref path \<noteq> [] then
             (join_with [newline] (stored_chunks db (cr_id r) ref path), ''index'', [''remote: '' @ problem, fragments_note])
           else ([], ''index'', [''remote: '' @ problem, ''index: no stored chunks for this file on this ref.''])))"

definition no_content :: FileContent where
  "no_content = \<lparr>fc_LibraryID = [], fc_SourceType = [], fc_ProjectKey = [], fc_RepositorySlug = [], fc_Ref = [],
     fc_Path = [], fc_CommitID = [], fc_Content = [], fc_StartLine = 0, fc_EndLine = 0, fc_TotalLines = 0,
     fc_Origin = [], fc_Truncated = False, fc_Redacted = False, fc_Candidates = [], fc_Diagnostics = []\<rparr>"

text \<open>The rows of a path: repository, ref, path, commit and whether its content is indexed.\<close>

type_synonym file_match = "catalog_repo \<times> string \<times> string \<times> string \<times> int"

definition file_matches ::
    "engine \<Rightarrow> catalog \<Rightarrow> string list \<Rightarrow> (catalog_repo \<Rightarrow> bool) \<Rightarrow> string \<Rightarrow> string \<Rightarrow> file_match list" where
  "file_matches e db principals scope ref path =
     take 25 (sort_key (\<lambda>(r, ref', _). (collation e (cr_library r), collation e ref'))
       (remdups (map (\<lambda>(f, r). (r, fl_ref f, fl_path f, fl_commit f, fl_indexed f))
         (filter (ref_wanted ref) (join_repo (\<lambda>r. readable_repo principals db r \<and> scope r) fl_repo db
           (filter (\<lambda>f. lower_sql e (fl_path f) = lower_sql e path) (c_files db)))))))"

text \<open>The first and the last line of the answer and whether the line budget cut it.\<close>

definition line_window :: "int \<Rightarrow> int \<Rightarrow> int \<Rightarrow> int \<times> int \<times> bool" where
  "line_window lines_all startLine endLine =
     (let from = (if 0 < startLine then min startLine lines_all else 1);
          to = (if 0 < endLine then min endLine lines_all else lines_all);
          to = (if to < from then from else to)
      in if readFileLineBudget < to - from + 1 then (from, from + readFileLineBudget - 1, True) else (from, to, False))"

definition lines_between :: "string list \<Rightarrow> int \<Rightarrow> int \<Rightarrow> string" where
  "lines_between ls from to = join_with [newline] (take (nat (to - from + 1)) (drop (nat (from - 1)) ls))"

definition crlf :: string where "crlf = [CHR 0x0D, CHR 0x0A]"

definition answer_lines :: "string \<Rightarrow> string list" where
  "answer_lines safe = split_on newline (replace_str crlf [newline] safe)"

definition windowed :: "FileContent \<Rightarrow> string \<Rightarrow> bool \<Rightarrow> int \<Rightarrow> int \<Rightarrow> FileContent" where
  "windowed out safe redacted_value startLine endLine =
     (let ls = answer_lines safe; lines_all = int (length ls); (from, to, short) = line_window lines_all startLine endLine;
          body = lines_between ls from to; long = readFileByteBudget < int (length body)
      in out\<lparr>fc_Redacted := redacted_value, fc_TotalLines := lines_all, fc_Truncated := short \<or> long,
           fc_Content := (if long then cutAtRuneBoundary body readFileByteBudget else body),
           fc_StartLine := from, fc_EndLine := to,
           fc_Diagnostics := fc_Diagnostics out
             @ (if short \<or> long then [''truncated: returned lines '' @ itoa from @ ''-'' @ itoa to @ '' of '' @ itoa lines_all
                  @ ''; request a narrower range with startLine and endLine.''] else [])
             @ (if redacted_value then [''security: a credential-like value was masked before returning this file.''] else [])\<rparr>)"

definition unread_reason :: "string list \<Rightarrow> bool \<Rightarrow> string" where
  "unread_reason diagnostics indexed =
     (let reason = join_with '' '' diagnostics; reason = (if reason = [] then ''no reason was reported.'' else reason)
      in if indexed then reason
         else ''This file is in the ref'' @ [CHR 0x27] @ ''s file listing but its content was never indexed, so it can only be read live. '' @ reason)"

text \<open>The answer to a selected row; the error, if any, comes with what is known of the file.\<close>

definition read_selected ::
    "(string \<Rightarrow> bool) \<Rightarrow> servers \<Rightarrow> catalog_faults \<Rightarrow> catalog \<Rightarrow> string \<Rightarrow> int \<Rightarrow> int \<Rightarrow> file_match
     \<Rightarrow> FileContent \<times> file_error option" where
  "read_selected entropy sv fault db filePath startLine endLine = (\<lambda>(r, ref, path, commit, indexed).
     (let (content, origin, diagnostics) = fileBody sv fault db r ref path (indexed = 1);
          out = no_content\<lparr>fc_LibraryID := cr_library r, fc_SourceType := cr_source r, fc_ProjectKey := cr_project r,
            fc_RepositorySlug := cr_slug r, fc_Ref := ref, fc_Path := path, fc_CommitID := commit,
            fc_Origin := origin, fc_Diagnostics := diagnostics\<rparr>;
          (safe, finding) = Sanitize entropy content
      in if content = [] then (out, Some (CouldNotRead filePath (cr_source r) (unread_reason diagnostics (indexed = 1))))
         else if finding = ''private_key'' \<or> safe = [] then (out, Some (BlockedPrivateKey filePath))
         else (windowed out safe (finding \<noteq> []) startLine endLine, None)))"

definition ReadFile ::
    "engine \<Rightarrow> (string \<Rightarrow> bool) \<Rightarrow> servers \<Rightarrow> catalog_faults \<Rightarrow> catalog \<Rightarrow> string list \<Rightarrow> string \<Rightarrow> string \<Rightarrow> string \<Rightarrow> string
     \<Rightarrow> int \<Rightarrow> int \<Rightarrow> FileContent \<times> file_error option" where
  "ReadFile e entropy sv fault db principals libraryID repository path0 ref startLine endLine =
     (let filePath = trim_prefix (trim_space path0) ''./'' in
      if filePath = [] then (no_content, Some PathRequired)
      else if principals = [] then (no_content, Some (CatalogError (unavailable fault db principals ''file'')))
      else if libraryID \<noteq> [] \<and> splitLibraryID libraryID = None then (no_content, Some (CatalogError LibraryIDForm))
      else if fault ReadFileQuery then (no_content, Some (CatalogError QueryFailed))
      else let ref' = library_ref libraryID ref;
               found = file_matches e db principals (file_scope e (library_base libraryID) [] [] repository) ref' filePath;
               libraries = sort (remdups (map (\<lambda>x. cr_library (fst x)) found))
           in if found = [] then (no_content, Some (CatalogError (noFileReason e fault db principals filePath libraryID ref')))
              else if 1 < length libraries then
                (no_content\<lparr>fc_Path := filePath, fc_Candidates := libraries\<rparr>, Some (ChooseLibrary filePath (length libraries)))
              else read_selected entropy sv fault db filePath startLine endLine (hd found))"

section \<open>Tests of a symbol\<close>

record TestResult =
  te_LibraryID :: string
  te_Ref :: string
  te_FilePath :: string
  te_FromSymbol :: string
  te_LineNumber :: int
  te_Origin :: string

record TestSearch =
  ts_Target :: string
  ts_Tests :: "TestResult list"
  ts_Diagnostics :: "string list"

definition looksLikeTest :: "string \<Rightarrow> bool" where
  "looksLikeTest filePath \<longleftrightarrow>
     (let base = to_lower (path_Base filePath); lower = to_lower filePath in
      list_ex (contains_str base) [''_test.'', ''test.'', ''tests.'', ''.test.'', ''.spec.'', ''_spec.''] \<or>
      list_ex (contains_str lower) [''/test/'', ''/tests/'', ''/spec/'', ''/__tests__/''] \<or>
      has_prefix lower ''test/'' \<or> has_prefix lower ''tests/'')"

text \<open>A library id that cannot be resolved narrows nothing.\<close>

definition tests_scope :: "catalog_faults \<Rightarrow> catalog \<Rightarrow> string list \<Rightarrow> string \<Rightarrow> catalog_repo \<Rightarrow> bool" where
  "tests_scope fault db principals libraryID r \<longleftrightarrow>
     (if trim_space libraryID = [] then True
      else case authorizedRepository fault db principals libraryID [] of
        Inl _ \<Rightarrow> True
      | Inr (_, baseID, _) \<Rightarrow> baseID = [] \<or> cr_library r = baseID)"

definition test_result :: "dependency_row \<times> catalog_repo \<Rightarrow> TestResult" where
  "test_result = (\<lambda>(d, r). \<lparr>te_LibraryID = cr_library r, te_Ref = de_ref d, te_FilePath = de_path d,
     te_FromSymbol = de_from d, te_LineNumber = de_line d, te_Origin = ''references''\<rparr>)"

definition testsReferencing ::
    "engine \<Rightarrow> catalog_faults \<Rightarrow> catalog \<Rightarrow> string list \<Rightarrow> string \<Rightarrow> string \<Rightarrow> nat \<Rightarrow> catalog_error + TestResult list" where
  "testsReferencing e fault db principals symbol libraryID limit =
     (if fault QueryTests then Inl QueryFailed
      else Inr (take limit (filter (\<lambda>t. looksLikeTest (te_FilePath t)) (map test_result
        (take (limit * 20) (sort_key (\<lambda>(d, r). (collation e (cr_library r), collation e (de_path d), de_line d))
          (concat (map (\<lambda>(d, r). replicate (repositoryACL principals db r) (d, r))
            (join_repo (\<lambda>r. readable_repo principals db r \<and> tests_scope fault db principals libraryID r) de_repo db
              (filter (\<lambda>d. lower_sql e (de_target d) = lower_sql e symbol) (c_dependencies db)))))))))))"

definition file_key :: "string \<Rightarrow> string \<Rightarrow> string" where
  "file_key library path = library @ '':'' @ path"

definition nearby_test :: "FileResult \<Rightarrow> TestResult" where
  "nearby_test f = \<lparr>te_LibraryID = fr_LibraryID f, te_Ref = fr_Ref f, te_FilePath = fr_Path f, te_FromSymbol = [],
     te_LineNumber = 0, te_Origin = ''nearby''\<rparr>"

text \<open>The files of one pattern: the keys seen, the tests, and whether the limit was reached.\<close>

fun nearby_files ::
    "nat \<Rightarrow> string list \<Rightarrow> TestResult list \<Rightarrow> FileResult list \<Rightarrow> string list \<times> TestResult list \<times> bool" where
  "nearby_files limit seen out [] = (seen, out, False)"
| "nearby_files limit seen out (f # fs) =
     (let key = file_key (fr_LibraryID f) (fr_Path f) in
      if key \<in> set seen \<or> \<not> looksLikeTest (fr_Path f) then nearby_files limit seen out fs
      else if limit \<le> Suc (length out) then (key # seen, out @ [nearby_test f], True)
      else nearby_files limit (key # seen) (out @ [nearby_test f]) fs)"

fun nearby_patterns ::
    "(string \<Rightarrow> file_error + FileSearchResult) \<Rightarrow> nat \<Rightarrow> string list \<Rightarrow> TestResult list \<Rightarrow> string list \<Rightarrow> TestResult list" where
  "nearby_patterns search limit seen out [] = sort_key te_FilePath out"
| "nearby_patterns search limit seen out (p # ps) =
     (case search p of
        Inl _ \<Rightarrow> nearby_patterns search limit seen out ps
      | Inr found \<Rightarrow>
          (let (seen', out', full) = nearby_files limit seen out (fs_Files found)
           in if full then out' else nearby_patterns search limit seen' out' ps))"

definition nearby_names :: "catalog_error + SymbolResult list \<Rightarrow> string \<Rightarrow> string list" where
  "nearby_names found symbol =
     (symbol @ ''*'') # (case found of Inr [s] \<Rightarrow> [path_Join (path_Dir (sr_FilePath s)) ''*''] | _ \<Rightarrow> [])"

definition testsNearby ::
    "engine \<Rightarrow> brackets \<Rightarrow> servers \<Rightarrow> catalog_faults \<Rightarrow> catalog \<Rightarrow> string list \<Rightarrow> string \<Rightarrow> string \<Rightarrow> string \<Rightarrow> nat
     \<Rightarrow> TestResult list \<Rightarrow> TestResult list" where
  "testsNearby e br sv fault db principals symbol libraryID ref limit already =
     nearby_patterns (\<lambda>p. FindFiles e br sv fault db principals p libraryID [] [] [] ref 100) limit
       (map (\<lambda>t. file_key (te_LibraryID t) (te_FilePath t)) already) []
       (nearby_names (FindSymbols e fault db principals libraryID ref symbol [] 1) symbol)"

definition untested_note :: string where
  "untested_note = bytes [
     236, 157, 180, 32, 236, 139, 172, 235, 179, 188, 236, 157, 132, 32, 236, 176, 184, 236, 161, 176, 237, 149, 152,
     235, 138, 148, 32, 237, 133, 140, 236, 138, 164, 237, 138, 184, 235, 143, 132, 44, 32, 236, 157, 180, 235, 166,
     132, 236, 157, 180, 32, 235, 167, 158, 235, 138, 148, 32, 237, 133, 140, 236, 138, 164, 237, 138, 184, 32, 237,
     140, 140, 236, 157, 188, 235, 143, 132, 32, 236, 176, 190, 236, 167, 128, 32, 235, 170, 187, 237, 150, 136, 236,
     138, 181, 235, 139, 136, 235, 139, 164, 46, 32, 237, 149, 180, 235, 139, 185, 32, 236, 150, 184, 236, 150, 180,
     236, 151, 144, 32, 236, 139, 172, 235, 179, 188, 32, 234, 183, 184, 235, 158, 152, 237, 148, 132, 234, 176, 128,
     32, 236, 151, 134, 234, 177, 176, 235, 130, 152, 32, 237, 133, 140, 236, 138, 164, 237, 138, 184, 234, 176, 128,
     32, 236, 151, 134, 236, 157, 132, 32, 236, 136, 152, 32, 236, 158, 136, 236, 138, 181, 235, 139, 136, 235, 139,
     164, 46]"

definition guessed_note :: string where
  "guessed_note = bytes [
     236, 157, 180, 32, 236, 139, 172, 235, 179, 188, 236, 157, 132, 32, 236, 167, 129, 236, 160, 145, 32, 236, 176,
     184, 236, 161, 176, 237, 149, 152, 235, 138, 148, 32, 237, 133, 140, 236, 138, 164, 237, 138, 184, 235, 138,
     148, 32, 236, 151, 134, 236, 138, 181, 235, 139, 136, 235, 139, 164, 46, 32, 236, 149, 132, 235, 158, 152, 235,
     138, 148, 32, 237, 140, 140, 236, 157, 188, 32, 236, 157, 180, 235, 166, 132, 234, 179, 188, 32, 236, 156, 132,
     236, 185, 152, 235, 161, 156, 32, 236, 182, 148, 236, 160, 149, 237, 149, 156, 32, 234, 178, 131, 236, 157, 180,
     235, 157, 188, 32, 236, 139, 164, 236, 160, 156, 235, 161, 156, 32, 236, 157, 180, 32, 236, 189, 148, 235, 147,
     156, 235, 165, 188, 32, 235, 139, 164, 235, 163, 168, 236, 167, 128, 32, 236, 149, 138, 236, 157, 132, 32, 236,
     136, 152, 32, 236, 158, 136, 236, 138, 181, 235, 139, 136, 235, 139, 164, 46]"

definition FindTests ::
    "engine \<Rightarrow> brackets \<Rightarrow> servers \<Rightarrow> catalog_faults \<Rightarrow> catalog \<Rightarrow> string list \<Rightarrow> string \<Rightarrow> string \<Rightarrow> string \<Rightarrow> int
     \<Rightarrow> catalog_error + TestSearch" where
  "FindTests e br sv fault db principals symbol0 libraryID ref limit =
     (let symbol = trim_space symbol0; most = within_or limit 100 20 in
      if symbol = [] then Inl SymbolRequired
      else if principals = [] then Inl NoPermissions
      else case testsReferencing e fault db principals symbol libraryID most of
        Inl err \<Rightarrow> Inl err
      | Inr referencing \<Rightarrow>
          (let tests = referencing @ (if length referencing < most then
                  testsNearby e br sv fault db principals symbol libraryID ref (most - length referencing) referencing else [])
           in Inr \<lparr>ts_Target = symbol, ts_Tests = tests,
                ts_Diagnostics = (if tests = [] then [untested_note]
                  else if list_ex (\<lambda>t. te_Origin t = ''references'') tests then [] else [guessed_note])\<rparr>))"

definition tests_title :: string where
  "tests_title = bytes [32, 235, 165, 188, 32, 235, 139, 164, 235, 163, 168, 235, 138, 148, 32, 237, 133, 140, 236, 138, 164, 237, 138,
     184]"

definition referencing_title :: string where
  "referencing_title = bytes [
     236, 157, 180, 32, 236, 139, 172, 235, 179, 188, 236, 157, 132, 32, 236, 176, 184, 236, 161, 176, 237, 149, 168,
     32, 40, 236, 157, 152, 236, 161, 180, 236, 132, 177, 32, 234, 183, 184, 235, 158, 152, 237, 148, 132, 32, 237,
     153, 149, 236, 157, 184, 41]"

definition nearby_title :: string where
  "nearby_title = bytes [
     236, 157, 180, 235, 166, 132, 194, 183, 236, 156, 132, 236, 185, 152, 235, 161, 156, 32, 236, 182, 148, 236,
     160, 149, 32, 40, 236, 176, 184, 236, 161, 176, 32, 236, 151, 172, 235, 182, 128, 32, 235, 175, 184, 237, 153,
     149, 236, 157, 184, 41]"

definition test_line :: "TestResult \<Rightarrow> string" where
  "test_line t = ''- `'' @ te_LibraryID t @ ''` '' @ te_FilePath t @ '':'' @ itoa (te_LineNumber t)
     @ (if te_FromSymbol t \<noteq> [] then '' '' @ bytes [226, 128, 148] @ '' '' @ te_FromSymbol t else []) @ [newline]"

definition FormatTests :: "TestSearch \<Rightarrow> string" where
  "FormatTests result =
     (let referencing = filter (\<lambda>t. te_Origin t = ''references'') (ts_Tests result);
          nearby = filter (\<lambda>t. te_Origin t \<noteq> ''references'') (ts_Tests result)
      in trim_space (''# '' @ ts_Target result @ tests_title @ [newline, newline]
           @ (if referencing = [] then []
              else ''## '' @ referencing_title @ [newline, newline] @ concat (map test_line referencing) @ [newline])
           @ (if nearby = [] then []
              else ''## '' @ nearby_title @ [newline, newline]
                @ concat (map (\<lambda>t. ''- `'' @ te_LibraryID t @ ''` '' @ te_FilePath t @ [newline]) nearby) @ [newline])
           @ concat (map (\<lambda>d. ''_'' @ d @ ''_'' @ [newline]) (ts_Diagnostics result))) @ [newline])"

section \<open>Answers depend only on what the caller may read\<close>

lemma stored_files_visible: "stored_files e (visible_part p db) p pattern scope ref = stored_files e db p pattern scope ref"
  unfolding stored_files_def visible_sel(5) filter_swap [of _ "\<lambda>f. fl_repo f \<in> readable_ids p db"] join_visible ..

lemma conj_cong2: "(Q \<Longrightarrow> P = P') \<Longrightarrow> (P \<and> Q) = (P' \<and> Q)"
  by blast

lemma listing_targets_visible: "listing_targets e (visible_part p db) p scope indexed = listing_targets e db p scope indexed"
proof -
  have same: "filter (\<lambda>r. (scope r \<and> cr_id r \<notin> fl_repo ` set (c_files (visible_part p db))) \<and> readable_repo p db r) (c_repos db)
      = filter (\<lambda>r. (scope r \<and> cr_id r \<notin> fl_repo ` set (c_files db)) \<and> readable_repo p db r) (c_repos db)"
  proof (rule filter_cong [OF refl], rule conj_cong2)
    fix r
    assume "r \<in> set (c_repos db)" "readable_repo p db r"
    then have "cr_id r \<in> readable_ids p db" by (simp add: readable_ids_def)
    then show "(scope r \<and> cr_id r \<notin> fl_repo ` set (c_files (visible_part p db))) = (scope r \<and> cr_id r \<notin> fl_repo ` set (c_files db))"
      unfolding visible_sel(5) by auto
  qed
  show ?thesis unfolding listing_targets_def readable_visible same ..
qed

lemma found_files_visible: "found_files e sv fault (visible_part p db) p m pattern scope ref limit = found_files e sv fault db p m pattern scope ref limit"
  unfolding found_files_def stored_files_visible remoteFileListings_def listing_targets_visible ..

lemma FindFiles_visible:
  "FindFiles e br sv fault (visible_part p db) p pattern library source project repository ref limit
     = FindFiles e br sv fault db p pattern library source project repository ref limit"
  unfolding FindFiles_def found_files_visible ..

lemma file_matches_visible: "file_matches e (visible_part p db) p scope ref path = file_matches e db p scope ref path"
  unfolding file_matches_def visible_sel(5) filter_swap [of _ "\<lambda>f. fl_repo f \<in> readable_ids p db"] join_visible ..

lemma file_matches_readable:
  assumes "x \<in> set (file_matches e db p scope ref path)"
  shows "cr_id (fst x) \<in> readable_ids p db"
proof -
  obtain f r where "(f, r) \<in> set (join_repo (\<lambda>r. readable_repo p db r \<and> scope r) fl_repo db
      (filter (\<lambda>f. lower_sql e (fl_path f) = lower_sql e path) (c_files db)))" "fst x = r"
    using assms unfolding file_matches_def by (auto dest!: in_set_takeD)
  then show ?thesis using join_repo_in by (fastforce simp: readable_ids_def)
qed

lemma fileBody_visible:
  "cr_id r \<in> readable_ids p db \<Longrightarrow> fileBody sv fault (visible_part p db) r ref path indexed = fileBody sv fault db r ref path indexed"
proof -
  assume "cr_id r \<in> readable_ids p db"
  then have "stored_chunks (visible_part p db) (cr_id r) ref path = stored_chunks db (cr_id r) ref path"
    unfolding stored_chunks_def visible_sel by (subst filter_absorb) auto
  then show ?thesis by (simp only: fileBody_def)
qed

lemma ReadFile_visible:
  assumes "reads_something p db"
  shows "ReadFile e entropy sv fault (visible_part p db) p library repository path ref from to
    = ReadFile e entropy sv fault db p library repository path ref from to"
proof -
  have selected: "read_selected entropy sv fault (visible_part p db) filePath from to (hd found)
      = read_selected entropy sv fault db filePath from to (hd found)"
    if "found \<noteq> []" "found = file_matches e db p scope ref' filePath" for filePath found scope ref'
  proof -
    obtain r ref'' path' commit indexed where x: "hd found = (r, ref'', path', commit, indexed)" by (cases "hd found")
    have i: "cr_id r \<in> readable_ids p db" using file_matches_readable [of "hd found" e db p scope ref' filePath] that x by simp
    show ?thesis unfolding x read_selected_def prod.case fileBody_visible [OF i] ..
  qed
  show ?thesis
    unfolding ReadFile_def Let_def unavailable_visible(2) [OF assms] file_matches_visible noFileReason_visible [OF assms]
    by (intro if_cong refl, rule selected) auto
qed

lemma testsReferencing_visible:
  assumes "reads_something p db"
  shows "testsReferencing e fault (visible_part p db) p symbol library limit = testsReferencing e fault db p symbol library limit"
proof -
  define js where "js = join_repo (\<lambda>r. readable_repo p db r \<and> tests_scope fault db p library r) de_repo db
    (filter (\<lambda>d. lower_sql e (de_target d) = lower_sql e symbol) (c_dependencies db))"
  have scope: "tests_scope fault (visible_part p db) p library = tests_scope fault db p library"
    by (rule ext) (simp only: tests_scope_def authorized_visible [OF assms])
  have copies: "map (\<lambda>(d, r). replicate (repositoryACL p (visible_part p db) r) (d, r)) js
      = map (\<lambda>(d, r). replicate (repositoryACL p db r) (d, r)) js"
    by (rule map_cong [OF refl]) (use acl_visible in \<open>auto simp: js_def dest: join_repo_in\<close>)
  show ?thesis
    unfolding testsReferencing_def scope visible_sel(4) filter_swap [of _ "\<lambda>d. de_repo d \<in> readable_ids p db"] join_visible
      js_def [symmetric] copies ..
qed

lemma FindTests_visible:
  assumes "reads_something p db"
  shows "FindTests e br sv fault (visible_part p db) p symbol library ref limit = FindTests e br sv fault db p symbol library ref limit"
  unfolding FindTests_def testsReferencing_visible [OF assms] testsNearby_def FindFiles_visible FindSymbols_visible ..

section \<open>What a search finds\<close>

lemma scored_member: "f \<in> set (scored m fs) \<longleftrightarrow> (\<exists>g \<in> set fs. \<exists>n. match_path m (fr_Path g) = Some n \<and> f = g\<lparr>fr_score := n\<rparr>)"
  by (auto simp: scored_def in_map_filter)

lemma list_trees_scored:
  "\<forall>f \<in> set out. match_path m (fr_Path f) = Some (fr_score f) \<and> fr_LibraryID f \<in> L \<Longrightarrow> cr_library ` set rs \<subseteq> L \<Longrightarrow>
     f \<in> set (fst (list_trees sv m ref limit out listed rs)) \<Longrightarrow> match_path m (fr_Path f) = Some (fr_score f) \<and> fr_LibraryID f \<in> L"
proof (induction sv m ref limit out listed rs rule: list_trees.induct)
  case (2 sv m ref limit out listed r rs)
  show ?case
  proof (cases "sv_tree sv (cr_source r) (cr_project r) (cr_slug r) (selected_ref ref r)")
    case None
    then show ?thesis using 2 by simp
  next
    case (Some files)
    define found where "found = scored m (map (remote_file r (selected_ref ref r)) files)"
    define grown where "grown = out @ take (limit - length out) found"
    have "\<forall>f \<in> set found. match_path m (fr_Path f) = Some (fr_score f) \<and> fr_LibraryID f \<in> L"
      using "2.prems"(2) by (auto simp: found_def scored_member remote_file_def)
    then have grown: "\<forall>f \<in> set grown. match_path m (fr_Path f) = Some (fr_score f) \<and> fr_LibraryID f \<in> L"
      using "2.prems"(1) by (auto simp: grown_def dest: in_set_takeD)
    show ?thesis
    proof (cases "limit \<le> length grown")
      case True
      have "list_trees sv m ref limit out listed (r # rs) = (grown, Suc listed)"
        unfolding list_trees.simps(2) Some option.case Let_def found_def [symmetric] grown_def [symmetric] if_P [OF True] ..
      then show ?thesis using "2.prems"(3) grown by simp
    next
      case False
      have "list_trees sv m ref limit out listed (r # rs) = list_trees sv m ref limit grown (Suc listed) rs"
        unfolding list_trees.simps(2) Some option.case Let_def found_def [symmetric] grown_def [symmetric] if_not_P [OF False] ..
      then show ?thesis using "2.IH"(2) [OF Some found_def grown_def False grown] "2.prems"(2,3) by simp
    qed
  qed
qed simp

lemma remote_files_scored:
  assumes "f \<in> set (fst (remoteFileListings e sv fault db p m scope ref seen limit))"
  shows "match_path m (fr_Path f) = Some (fr_score f) \<and> fr_LibraryID f \<in> cr_library ` {r \<in> set (c_repos db). readable_repo p db r \<and> scope r}"
proof -
  define ts where "ts = listing_targets e db p scope seen"
  have "cr_library ` set ts \<subseteq> cr_library ` {r \<in> set (c_repos db). readable_repo p db r \<and> scope r}"
    by (auto simp: ts_def listing_targets_def dest!: in_set_takeD)
  moreover have "f \<in> set (fst (list_trees sv m ref limit [] 0 ts))"
    using assms unfolding remoteFileListings_def ts_def [symmetric]
    by (cases "list_trees sv m ref limit [] 0 ts") (simp split: if_splits)
  ultimately show ?thesis using list_trees_scored [where out = "[]" and rs = ts and f = f and m = m and sv = sv and ref = ref and limit = limit and listed = 0] by simp
qed

lemma stored_files_readable:
  assumes "f \<in> set (stored_files e db p pattern scope ref)"
  shows "fr_LibraryID f \<in> cr_library ` {r \<in> set (c_repos db). readable_repo p db r \<and> scope r}"
proof -
  define rows where "rows = filter (\<lambda>f. pattern = [] \<or> like_sql e (lower_sql e (fl_path f)) pattern) (c_files db)"
  obtain y r where x: "(y, r) \<in> set (join_repo (\<lambda>r. readable_repo p db r \<and> scope r) fl_repo db rows)" "f = stored_file (y, r)"
    using assms by (auto simp: stored_files_def rows_def [symmetric] dest!: in_set_takeD)
  have "fr_LibraryID f = cr_library r" by (simp add: x(2) stored_file_def)
  then show ?thesis using join_repo_in [OF x(1)] by blast
qed

text \<open>
  The database's \<^verbatim>\<open>LIKE\<close>, as documented: a text without wildcards and escapes between two percent
  signs matches every text that contains it, and the lower-cased column contains what the path in
  lower case contains.
\<close>

definition like_finds_text :: "engine \<Rightarrow> bool" where
  "like_finds_text e \<longleftrightarrow> (\<forall>path run. (\<forall>c \<in> set run. byte_val c < 128 \<and> c \<notin> {CHR ''%'', CHR ''_'', CHR 0x5C}) \<longrightarrow>
     contains_str (to_lower path) run \<longrightarrow> like_sql e (lower_sql e path) (''%'' @ run @ ''%''))"

text \<open>A pattern the coarse filter reads as the matcher does: ASCII, no brackets, no characters special to \<^verbatim>\<open>LIKE\<close>.\<close>

definition filter_safe :: "string \<Rightarrow> bool" where
  "filter_safe s \<longleftrightarrow> (\<forall>c \<in> set s. byte_val c < 128 \<and> c \<notin> {CHR ''['', CHR '']'', CHR ''%'', CHR ''_'', CHR 0x5C})"

lemma filter_keeps_row:
  assumes "filter_safe pattern" "like_finds_text e" "match_path (newPathMatcher br pattern) path = Some n" "path \<notin> {[], ''./''}"
  shows "sqlLike (newPathMatcher br pattern) = [] \<or> like_sql e (lower_sql e path) (sqlLike (newPathMatcher br pattern))"
proof -
  have "\<forall>c \<in> set pattern. byte_val c < 128 \<and> c \<notin> set ''[]%_''" using assms(1) by (auto simp: filter_safe_def)
  moreover have "lowered_path path \<noteq> []" using assms(4) by (auto simp: lowered_path_def trim_prefix_def to_lower_def prefix_def)
  ultimately consider "sqlLike (newPathMatcher br pattern) = []"
    | run where "sqlLike (newPathMatcher br pattern) = ''%'' @ run @ ''%''" "contains_str (to_lower path) run"
        "set run \<subseteq> set (to_lower pattern)"
    using prefilter_keeps [OF _ assms(3)] by blast
  then show ?thesis
  proof cases
    case 2
    have "byte_val (lower_char c) < 128 \<and> lower_char c \<notin> {CHR ''%'', CHR ''_'', CHR 0x5C}"
      if c: "byte_val c < 128" "c \<notin> {CHR ''%'', CHR ''_'', CHR 0x5C}" for c
    proof (cases "65 \<le> byte_val c \<and> byte_val c \<le> 90")
      case True
      then have v: "byte_val (lower_char c) = byte_val c + 32" by (simp add: lower_char_def byte_val_def)
      moreover have "d \<in> {CHR ''%'', CHR ''_'', CHR 0x5C} \<Longrightarrow> byte_val d \<in> {37, 95, 92}" for d by (auto simp: byte_val_def)
      ultimately show ?thesis using True by fastforce
    next
      case False
      then have "lower_char c = c" by (auto simp: lower_char_def byte_val_def)
      then show ?thesis using c by simp
    qed
    then have "\<forall>c \<in> set (to_lower pattern). byte_val c < 128 \<and> c \<notin> {CHR ''%'', CHR ''_'', CHR 0x5C}"
      using assms(1) by (auto simp: filter_safe_def to_lower_def)
    then have "\<forall>c \<in> set run. byte_val c < 128 \<and> c \<notin> {CHR ''%'', CHR ''_'', CHR 0x5C}" using 2(3) by blast
    then have "like_sql e (lower_sql e path) (''%'' @ run @ ''%'')" using 2(2) assms(2) unfolding like_finds_text_def by blast
    then show ?thesis unfolding 2(1) by blast
  qed blast
qed

lemma join_repo_filter:
  "join_repo P repo_of db (filter Q rows) = filter (\<lambda>x. Q (fst x)) (join_repo P repo_of db rows)"
  unfolding join_repo_def by (induction rows) auto

lemma stored_files_complete:
  assumes "(f, r) \<in> set (join_repo (\<lambda>r. readable_repo p db r \<and> scope r) fl_repo db (c_files db))" "ref_wanted ref (f, r)"
    and "pattern = [] \<or> like_sql e (lower_sql e (fl_path f)) pattern"
    and "length (filter (ref_wanted ref) (join_repo (\<lambda>r. readable_repo p db r \<and> scope r) fl_repo db (c_files db))) \<le> 2000"
  shows "stored_file (f, r) \<in> set (stored_files e db p pattern scope ref)"
proof -
  define rows where "rows = filter (ref_wanted ref) (join_repo (\<lambda>r. readable_repo p db r \<and> scope r) fl_repo db
    (filter (\<lambda>f. pattern = [] \<or> like_sql e (lower_sql e (fl_path f)) pattern) (c_files db)))"
  have sub: "rows = filter (\<lambda>x. pattern = [] \<or> like_sql e (lower_sql e (fl_path (fst x))) pattern)
      (filter (ref_wanted ref) (join_repo (\<lambda>r. readable_repo p db r \<and> scope r) fl_repo db (c_files db)))"
    unfolding rows_def join_repo_filter filter_filter by (rule filter_cong) auto
  have "length rows \<le> 2000" unfolding sub by (rule le_trans [OF length_filter_le assms(4)])
  then have "length (remdups (map (\<lambda>x. (fl_indexed (fst x), stored_file x)) rows)) \<le> 2000"
    using length_remdups_leq [of "map (\<lambda>x. (fl_indexed (fst x), stored_file x)) rows"] unfolding length_map by (rule le_trans [rotated])
  then have all: "stored_files e db p pattern scope ref = map snd (remdups (map (\<lambda>x. (fl_indexed (fst x), stored_file x)) rows))"
    unfolding stored_files_def rows_def [symmetric] by (simp only: take_all)
  have "(f, r) \<in> set rows" unfolding sub using assms(1-3) by simp
  then have "(fl_indexed f, stored_file (f, r)) \<in> set (map (\<lambda>x. (fl_indexed (fst x), stored_file x)) rows)" by force
  then show ?thesis unfolding all set_map [of snd] set_remdups by (rule rev_image_eqI) simp
qed

text \<open>
  C36: what a file search returns. The answer never has more files than were asked for, and at
  most two hundred; it lists them by falling score; every file matches the pattern with the
  score it is given and lies in a repository the caller may read that fits the filters. And it
  leaves nothing better out: for a pattern without brackets and characters special to \<^verbatim>\<open>LIKE\<close>, every
  row of the file table that the pattern matches, in a readable repository and version that fit the
  filters, is listed with its score, unless the answer is full of files that score as high. (The caller can
  read at most 2000 stored paths there, the limit of the query. For other patterns matches are lost:
  \<open>underscore_dropped\<close>, \<open>class_taken_as_text\<close>.)
\<close>

theorem file_search_sound:
  assumes "FindFiles e br sv fault db p pattern library source project repository ref limit = Inr result"
  defines "m \<equiv> newPathMatcher br (trim_space pattern)"
  defines "scope \<equiv> file_scope e (library_base library) source project repository"
  shows "length (fs_Files result) \<le> within_or limit 200 50 \<and> within_or limit 200 50 \<le> 200 \<and>
    sorted_wrt (\<lambda>f g. fr_score g \<le> fr_score f) (fs_Files result) \<and>
    (\<forall>f \<in> set (fs_Files result). match_path m (fr_Path f) = Some (fr_score f) \<and>
       fr_LibraryID f \<in> cr_library ` {r \<in> set (c_repos db). readable_repo p db r \<and> scope r}) \<and>
    (p \<noteq> [] \<longrightarrow> filter_safe (trim_space pattern) \<longrightarrow> like_finds_text e \<longrightarrow>
     length (filter (ref_wanted (library_ref library ref)) (join_repo (\<lambda>r. readable_repo p db r \<and> scope r) fl_repo db (c_files db))) \<le> 2000 \<longrightarrow>
     (\<forall>f r n. f \<in> set (c_files db) \<longrightarrow> r \<in> set (c_repos db) \<longrightarrow> cr_id r = fl_repo f \<longrightarrow> readable_repo p db r \<longrightarrow> scope r \<longrightarrow>
       ref_wanted (library_ref library ref) (f, r) \<longrightarrow> fl_path f \<notin> {[], ''./''} \<longrightarrow> match_path m (fl_path f) = Some n \<longrightarrow>
       stored_file (f, r)\<lparr>fr_score := n\<rparr> \<in> set (fs_Files result) \<or>
       length (fs_Files result) = within_or limit 200 50 \<and> (\<forall>g \<in> set (fs_Files result). n \<le> fr_score g)))"
    (is "_ \<and> _ \<and> ?sorted \<and> ?right \<and> ?complete")
proof -
  define n where "n = within_or limit 200 50"
  have n: "n \<le> 200" using within_or_range [of 200 50 limit] by (simp add: n_def)
  show ?thesis
  proof (cases "p = []")
    case True
    then have "fs_Files result = []" using assms(1) by (auto simp: FindFiles_def Let_def split: if_splits)
    then show ?thesis using True n by (simp add: n_def [symmetric])
  next
    case False
    define ref' where "ref' = library_ref library ref"
    have result: "result = found_files e sv fault db p m (trim_space pattern) scope ref' n"
      using assms(1) False by (simp add: FindFiles_def Let_def m_def [symmetric] scope_def [symmetric] n_def [symmetric] ref'_def [symmetric] split: if_splits)
    define seen where "seen = fr_LibraryID ` set (stored_files e db p (sqlLike m) scope ref')"
    define stored where "stored = scored m (stored_files e db p (sqlLike m) scope ref')"
    define remote where "remote = fst (remoteFileListings e sv fault db p m scope ref' seen n)"
    define all_files where "all_files = sort_key file_order (stored @ remote)"
    have files: "fs_Files result = take n all_files"
      by (simp add: result found_files_def Let_def all_files_def stored_def remote_def seen_def split: prod.splits)
    have right: "match_path m (fr_Path f) = Some (fr_score f) \<and>
        fr_LibraryID f \<in> cr_library ` {r \<in> set (c_repos db). readable_repo p db r \<and> scope r}" if "f \<in> set all_files" for f
    proof -
      have "f \<in> set stored \<or> f \<in> set remote" using that by (auto simp: all_files_def)
      then show ?thesis
        using remote_files_scored [of f e sv fault db p m scope ref' seen n] stored_files_readable [of _ e db p "sqlLike m" scope ref']
        by (auto simp: stored_def remote_def scored_member)
    qed
    have "sorted (map file_order all_files)" by (simp add: all_files_def)
    then have sorted: "sorted_wrt (\<lambda>f g. fr_score g \<le> fr_score f) all_files"
      unfolding sorted_map by (rule sorted_wrt_mono_rel [rotated]) (auto simp: file_order_def)
    have last_part: "fr_score g \<le> fr_score f" if "f \<in> set (take n all_files)" "g \<in> set (drop n all_files)" for f g
      using sorted that by (metis append_take_drop_id sorted_wrt_append)
    have complete: "g \<in> set (take n all_files) \<or> length (take n all_files) = n \<and> (\<forall>f \<in> set (take n all_files). fr_score g \<le> fr_score f)"
      if "g \<in> set stored" for g
    proof (cases "g \<in> set (drop n all_files)")
      case True
      then have "n < length all_files" by (metis drop_all empty_iff empty_set not_less)
      then show ?thesis using last_part True by simp
    next
      case False
      moreover have "g \<in> set (take n all_files @ drop n all_files)" using that by (simp add: all_files_def)
      ultimately show ?thesis unfolding set_append by blast
    qed
    have "?sorted" unfolding files using sorted by (rule sorted_wrt_take)
    moreover have "?right" unfolding files using right by (blast dest: in_set_takeD)
    moreover have "?complete"
    proof (intro impI allI)
      fix f r k
      assume safe: "filter_safe (trim_space pattern)" "like_finds_text e"
        and few: "length (filter (ref_wanted (library_ref library ref))
          (join_repo (\<lambda>r. readable_repo p db r \<and> scope r) fl_repo db (c_files db))) \<le> 2000"
        and row: "f \<in> set (c_files db)" "r \<in> set (c_repos db)" "cr_id r = fl_repo f" "readable_repo p db r" "scope r"
        and wanted: "ref_wanted (library_ref library ref) (f, r)" and path: "fl_path f \<notin> {[], ''./''}"
        and found: "match_path m (fl_path f) = Some k"
      have joined: "(f, r) \<in> set (join_repo (\<lambda>r. readable_repo p db r \<and> scope r) fl_repo db (c_files db))"
        using row by (auto simp: join_repo_def)
      have "sqlLike m = [] \<or> like_sql e (lower_sql e (fl_path f)) (sqlLike m)"
        using filter_keeps_row [OF safe found [unfolded m_def] path] by (simp add: m_def)
      then have "stored_file (f, r) \<in> set (stored_files e db p (sqlLike m) scope ref')"
        using stored_files_complete [OF joined wanted _ few] by (simp add: ref'_def)
      moreover have "fr_Path (stored_file (f, r)) = fl_path f" by (simp add: stored_file_def)
      ultimately have "stored_file (f, r)\<lparr>fr_score := k\<rparr> \<in> set stored"
        using found unfolding stored_def scored_member by (intro bexI [of _ "stored_file (f, r)"] exI [of _ k]) simp_all
      from complete [OF this] show "stored_file (f, r)\<lparr>fr_score := k\<rparr> \<in> set (fs_Files result) \<or>
          length (fs_Files result) = within_or limit 200 50 \<and> (\<forall>g \<in> set (fs_Files result). k \<le> fr_score g)"
        by (simp add: files n_def [symmetric])
    qed
    ultimately show ?thesis using n by (simp add: files n_def [symmetric])
  qed
qed

section \<open>What a reader gets of a file\<close>

lemma line_window_facts:
  assumes "line_window n s t = (lo, hi, short)" "1 \<le> n"
  shows "1 \<le> lo" "lo \<le> hi" "hi \<le> n" "hi - lo < 1200"
    "\<not> short \<Longrightarrow> lo = (if 0 < s then min s n else 1)" "\<not> short \<Longrightarrow> hi = max lo (if 0 < t then min t n else n)"
  using assms by (auto simp: line_window_def Let_def readFileLineBudget_def split: if_splits)

lemma cutAtRuneBoundary_prefix:
  "prefix (cutAtRuneBoundary v n) v" "0 \<le> n \<Longrightarrow> int (length (cutAtRuneBoundary v n)) \<le> n"
proof -
  have le: "back_to_rune v (nat n) \<le> nat n" by simp
  show "prefix (cutAtRuneBoundary v n) v" by (simp add: cutAtRuneBoundary_def take_is_prefix)
  show "int (length (cutAtRuneBoundary v n)) \<le> n" if "0 \<le> n"
  proof -
    have "int (back_to_rune v (nat n)) \<le> n" using le that by linarith
    then show ?thesis using that by (auto simp: cutAtRuneBoundary_def min_def)
  qed
qed

lemma windowed_facts:
  assumes "out = windowed known safe masked s t"
  defines "ls \<equiv> answer_lines safe"
  shows "1 \<le> fc_StartLine out" "fc_StartLine out \<le> fc_EndLine out" "fc_EndLine out \<le> fc_TotalLines out"
    "fc_TotalLines out = int (length ls)" "fc_EndLine out - fc_StartLine out < 1200" "length (fc_Content out) \<le> 196608"
    "prefix (fc_Content out) (lines_between ls (fc_StartLine out) (fc_EndLine out))"
    "\<not> fc_Truncated out \<Longrightarrow> fc_Content out = lines_between ls (fc_StartLine out) (fc_EndLine out) \<and>
       fc_StartLine out = (if 0 < s then min s (fc_TotalLines out) else 1) \<and>
       fc_EndLine out = max (fc_StartLine out) (if 0 < t then min t (fc_TotalLines out) else fc_TotalLines out)"
proof -
  obtain lo hi short where w: "line_window (int (length ls)) s t = (lo, hi, short)" by (cases "line_window (int (length ls)) s t")
  define body where "body = lines_between ls lo hi"
  have n: "1 \<le> int (length ls)" by (cases ls) (simp_all add: ls_def answer_lines_def)
  define long where "long = (readFileByteBudget < int (length body))"
  have out: "fc_StartLine out = lo" "fc_EndLine out = hi" "fc_TotalLines out = int (length ls)" "fc_Truncated out = (short \<or> long)"
    "fc_Content out = (if long then cutAtRuneBoundary body readFileByteBudget else body)"
    using w unfolding assms(1) windowed_def Let_def ls_def [symmetric] by (simp_all add: body_def long_def)
  show "1 \<le> fc_StartLine out" "fc_StartLine out \<le> fc_EndLine out" "fc_EndLine out \<le> fc_TotalLines out"
    "fc_TotalLines out = int (length ls)" "fc_EndLine out - fc_StartLine out < 1200"
    using line_window_facts(1-4) [OF w n] by (simp_all add: out)
  show "length (fc_Content out) \<le> 196608"
    using cutAtRuneBoundary_prefix(2) [of readFileByteBudget body] by (auto simp: out long_def readFileByteBudget_def)
  show "prefix (fc_Content out) (lines_between ls (fc_StartLine out) (fc_EndLine out))"
    using cutAtRuneBoundary_prefix(1) [of body readFileByteBudget] by (simp add: out body_def [symmetric])
  show "fc_Content out = lines_between ls (fc_StartLine out) (fc_EndLine out) \<and>
       fc_StartLine out = (if 0 < s then min s (fc_TotalLines out) else 1) \<and>
       fc_EndLine out = max (fc_StartLine out) (if 0 < t then min t (fc_TotalLines out) else fc_TotalLines out)"
    if "\<not> fc_Truncated out"
    using that line_window_facts(5,6) [OF w n] by (simp add: out body_def)
qed

lemma read_selected_window:
  assumes "read_selected entropy sv fault db path s t x = (out, None)"
  defines "content \<equiv> fst (fileBody sv fault db (fst x) (fst (snd x)) (fst (snd (snd x))) (snd (snd (snd (snd x))) = 1))"
  shows "\<not> match_string privateKeyRE content" "\<exists>known masked. out = windowed known (fst (Sanitize entropy content)) masked s t"
proof -
  obtain r ref path' commit indexed where x: "x = (r, ref, path', commit, indexed)" by (cases x)
  obtain c origin diagnostics where b: "fileBody sv fault db r ref path' (indexed = 1) = (c, origin, diagnostics)"
    by (cases "fileBody sv fault db r ref path' (indexed = 1)")
  obtain safe finding where s: "Sanitize entropy c = (safe, finding)" by (cases "Sanitize entropy c")
  have c: "content = c" by (simp add: content_def x b)
  define known where "known = no_content\<lparr>fc_LibraryID := cr_library r, fc_SourceType := cr_source r, fc_ProjectKey := cr_project r,
    fc_RepositorySlug := cr_slug r, fc_Ref := ref, fc_Path := path', fc_CommitID := commit, fc_Origin := origin, fc_Diagnostics := diagnostics\<rparr>"
  have run: "(if c = [] then (known, Some (CouldNotRead path (cr_source r) (unread_reason diagnostics (indexed = 1))))
      else if finding = ''private_key'' \<or> safe = [] then (known, Some (BlockedPrivateKey path))
      else (windowed known safe (finding \<noteq> []) s t, None)) = (out, None)"
    using assms(1) unfolding read_selected_def x prod.case b s Let_def known_def by simp
  then have "out = windowed known safe (finding \<noteq> []) s t" "safe \<noteq> []" by (simp_all split: if_splits)
  then show "\<exists>known masked. out = windowed known (fst (Sanitize entropy content)) masked s t" unfolding c s fst_conv by blast
  show "\<not> match_string privateKeyRE content" using \<open>safe \<noteq> []\<close> s by (auto simp: c Sanitize_def split: if_splits)
qed

text \<open>
  C37: what an answer of \<^verbatim>\<open>ReadFile\<close> is. It comes from a row of the path in a repository the caller
  may read, and its text holds no private key block; it is the lines it names of the masked
  text, at most 1200 of them, whole unless the answer says that it was cut, never more than
  192 KiB, and the range that was asked for unless it was cut.
\<close>

theorem read_file_window:
  assumes "ReadFile e entropy sv fault db p library repository path ref s t = (out, None)"
  shows "\<exists>(r, ref', path', commit, indexed) \<in> set (file_matches e db p (file_scope e (library_base library) [] [] repository)
        (library_ref library ref) (trim_prefix (trim_space path) ''./'')). cr_id r \<in> readable_ids p db \<and>
    (let content = fst (fileBody sv fault db r ref' path' (indexed = 1)); ls = answer_lines (fst (Sanitize entropy content)) in
      \<not> match_string privateKeyRE content \<and>
      1 \<le> fc_StartLine out \<and> fc_StartLine out \<le> fc_EndLine out \<and> fc_EndLine out \<le> int (length ls) \<and>
      fc_EndLine out - fc_StartLine out < 1200 \<and> length (fc_Content out) \<le> 196608 \<and>
      prefix (fc_Content out) (lines_between ls (fc_StartLine out) (fc_EndLine out)) \<and>
      (\<not> fc_Truncated out \<longrightarrow> fc_Content out = lines_between ls (fc_StartLine out) (fc_EndLine out) \<and>
        fc_StartLine out = (if 0 < s then min s (int (length ls)) else 1) \<and>
        fc_EndLine out = max (fc_StartLine out) (if 0 < t then min t (int (length ls)) else int (length ls))))"
proof -
  define found where "found = file_matches e db p (file_scope e (library_base library) [] [] repository)
    (library_ref library ref) (trim_prefix (trim_space path) ''./'')"
  have run: "found \<noteq> [] \<and> read_selected entropy sv fault db (trim_prefix (trim_space path) ''./'') s t (hd found) = (out, None)"
    using assms unfolding ReadFile_def Let_def found_def [symmetric] by (simp split: if_splits)
  obtain r ref' path' commit indexed where x: "hd found = (r, ref', path', commit, indexed)" by (cases "hd found")
  define content where "content = fst (fileBody sv fault db r ref' path' (indexed = 1))"
  have member: "(r, ref', path', commit, indexed) \<in> set found" using run x by (metis hd_in_set)
  have "cr_id r \<in> readable_ids p db" using file_matches_readable [OF member [unfolded found_def]] by simp
  moreover obtain known masked where "\<not> match_string privateKeyRE content" "out = windowed known (fst (Sanitize entropy content)) masked s t"
    using read_selected_window [OF conjunct2 [OF run]] unfolding x content_def fst_conv snd_conv by blast
  note facts = this(1) windowed_facts [OF this(2)]
  note facts' = facts [unfolded facts(5)]
  ultimately show ?thesis
    unfolding found_def [symmetric]
    by (intro bexI [OF _ member]) (unfold prod.case Let_def content_def [symmetric], intro conjI impI facts'(1-4,6-8) conjunct1 [OF facts'(9)]
      conjunct1 [OF conjunct2 [OF facts'(9)]] conjunct2 [OF conjunct2 [OF facts'(9)]])
qed

text \<open>
  C7: the answers about files depend on nothing that the caller may not read. For a caller who
  can read at least one repository, the search for files, the reading of a file and the search
  for tests give the same result, errors included, as on the part of the tables that belongs to
  the readable repositories.
\<close>

theorem file_answers_only_from_readable:
  assumes "reads_something p db"
  shows "FindFiles e br sv fault (visible_part p db) p pattern library source project repository ref limit
      = FindFiles e br sv fault db p pattern library source project repository ref limit \<and>
    ReadFile e entropy sv fault (visible_part p db) p library repository path ref from to
      = ReadFile e entropy sv fault db p library repository path ref from to \<and>
    FindTests e br sv fault (visible_part p db) p symbol library ref limit = FindTests e br sv fault db p symbol library ref limit"
  by (intro conjI FindFiles_visible ReadFile_visible FindTests_visible assms)

section \<open>Witnesses and corners\<close>

text \<open>
  Two repositories of a demonstration, each with a file; a caller \<open>u\<close> may read both. The test of
  the second refers to the symbol \<open>A\<close>.
\<close>

definition demo_files :: catalog where
  "demo_files = \<lparr>
     c_repos = [\<lparr>cr_id = ''1'', cr_library = ''/p/r'', cr_branch = ''m'', cr_source = ''gitlab'', cr_project = ''p'', cr_slug = ''r'', cr_enabled = True\<rparr>,
       \<lparr>cr_id = ''2'', cr_library = ''/p/s'', cr_branch = ''m'', cr_source = ''gitlab'', cr_project = ''p'', cr_slug = ''s'', cr_enabled = True\<rparr>],
     c_permissions = [(''1'', ''u''), (''2'', ''u'')], c_symbols = [],
     c_dependencies = [\<lparr>de_repo = ''2'', de_ref = ''m'', de_commit = ''c'', de_path = ''a_test.go'', de_from = ''B'', de_target = ''A'', de_kind = ''call'', de_line = 3\<rparr>],
     c_files = [\<lparr>fl_repo = ''1'', fl_ref = ''m'', fl_path = ''a.go'', fl_base = ''a.go'', fl_commit = ''c'', fl_size = 3, fl_indexed = 1\<rparr>],
     c_contents = [\<lparr>ct_repo = ''1'', ct_ref = ''m'', ct_path = ''a.go'', ct_heading = '''', ct_start = 1, ct_end = 2, ct_content = ''a'' @ [CHR 0x0A] @ ''b'', ct_hash = ''''\<rparr>],
     c_packages = [], c_maps = [], c_refs = []\<rparr>"

definition demo_servers :: servers where
  "demo_servers = \<lparr>sv_connected = False, sv_tree = (\<lambda>_ _ _ _. None), sv_file = (\<lambda>_ _ _ _ _. Inl [])\<rparr>"

lemma demo_files_read: "reads_something [''u''] demo_files"
  by (simp add: reads_something_def demo_files_def readable_repo_def repositoryACL_def matches_principal_def
      Unrestricted_def UnrestrictedPrincipal_def)

lemma file_answers_only_from_readable_witness:
  "FindTests demo_engine (\<lambda>_. None) demo_servers (\<lambda>_. False) (visible_part [''u''] demo_files) [''u''] ''A'' [] [] 5
     = FindTests demo_engine (\<lambda>_. None) demo_servers (\<lambda>_. False) demo_files [''u''] ''A'' [] [] 5"
  using file_answers_only_from_readable [OF demo_files_read] by blast

lemmas demo_eval = Let_def demo_files_def demo_engine_def demo_servers_def join_repo_def readable_repo_def repositoryACL_def
  matches_principal_def Unrestricted_def UnrestrictedPrincipal_def within_or_def

lemma demo_ids: "splitLibraryID ''/p/r'' = Some (''/p/r'', [])" "splitLibraryID ''/p/x'' = Some (''/p/x'', [])"
  "trim_space ''/p/x'' = ''/p/x''" "trim_space ''/p/r'' = ''/p/r''" "trim_space ''*.go'' = ''*.go''" "trim_space ''a.go'' = ''a.go''"
  by (simp_all add: splitLibraryID_def trim_space_visible visible_def trim_prefix_def)

text \<open>A library id the caller may not read, or that does not exist, does not narrow the search for tests.\<close>

lemma demo_scope:
  "tests_scope (\<lambda>_. False) demo_files [''u''] ''/p/x'' = (\<lambda>r. True)"
  "tests_scope (\<lambda>_. False) demo_files [''u''] ''/p/r'' = (\<lambda>r. cr_library r = ''/p/r'')"
  "tests_scope (\<lambda>_. False) demo_files [''u''] [] = (\<lambda>r. True)"
  by (rule ext, simp add: tests_scope_def demo_ids authorizedRepository_def library_repo_def demo_eval)+

lemma demo_is_test: "looksLikeTest ''a_test.go''"
  by (simp add: looksLikeTest_def Let_def to_lower_def lower_char_def contains_str_def path_Base_def after_last_slash_def trim_right_def)

lemma unknown_library_not_narrowed:
  "testsReferencing demo_engine (\<lambda>_. False) demo_files [''u''] ''A'' ''/p/x'' 5 =
     testsReferencing demo_engine (\<lambda>_. False) demo_files [''u''] ''A'' [] 5 \<and>
   testsReferencing demo_engine (\<lambda>_. False) demo_files [''u''] ''A'' ''/p/r'' 5 = Inr [] \<and>
   (\<exists>t. testsReferencing demo_engine (\<lambda>_. False) demo_files [''u''] ''A'' ''/p/x'' 5 = Inr [t] \<and> te_LibraryID t = ''/p/s'')"
  unfolding testsReferencing_def demo_scope by (simp add: demo_eval test_result_def demo_is_test)

lemma demo_match: "match_path (newPathMatcher (\<lambda>_. None) ''*.go'') ''a.go'' = Some 90"
  by (simp add: glob_eval regexp_eval suffix_def)

lemma file_search_sound_witness:
  "\<exists>result. FindFiles demo_engine (\<lambda>_. None) demo_servers (\<lambda>_. False) demo_files [''u''] ''*.go'' [] [] [] [] [] 5 = Inr result
     \<and> length (fs_Files result) = 1 \<and> (\<exists>f \<in> set (fs_Files result). fr_Path f = ''a.go'' \<and> fr_score f = 90)"
proof -
  define m where "m = newPathMatcher (\<lambda>_. None) ''*.go''"
  define stored where "stored = stored_files demo_engine demo_files [''u''] (sqlLike m) (\<lambda>r. True) []"
  have scope: "file_scope demo_engine (library_base []) [] [] [] = (\<lambda>r. True)" by (rule ext) (simp add: file_scope_def library_base_def)
  have "map fr_Path stored = [''a.go'']"
    by (simp add: stored_def stored_files_def demo_eval ref_wanted_def stored_file_def)
  then obtain f where f: "stored = [f]" "fr_Path f = ''a.go''" by auto
  then have one: "scored m stored = [f\<lparr>fr_score := 90\<rparr>]" using demo_match by (simp add: scored_def m_def List.map_filter_def)
  obtain result where run: "FindFiles demo_engine (\<lambda>_. None) demo_servers (\<lambda>_. False) demo_files [''u''] ''*.go'' [] [] [] [] [] 5 = Inr result"
    "result = found_files demo_engine demo_servers (\<lambda>_. False) demo_files [''u''] m ''*.go'' (\<lambda>r. True) [] 5"
    by (simp add: FindFiles_def Let_def demo_ids scope library_ref_def m_def within_or_def)
  have len: "length (fs_Files result) = 1"
    unfolding run(2) found_files_def Let_def stored_def [symmetric] one remoteFileListings_def by (simp add: demo_servers_def)
  have safe: "filter_safe (trim_space ''*.go'')" by (simp add: demo_ids filter_safe_def byte_val_def)
  have like: "like_finds_text demo_engine" by (simp add: like_finds_text_def demo_engine_def)
  have ref: "library_ref [] [] = []" by (simp add: library_ref_def)
  define row where "row = hd (c_files demo_files)"
  define repo where "repo = hd (c_repos demo_files)"
  have few: "length (filter (ref_wanted (library_ref [] [])) (join_repo (\<lambda>r. readable_repo [''u''] demo_files r
      \<and> file_scope demo_engine (library_base []) [] [] [] r) fl_repo demo_files (c_files demo_files))) \<le> 2000"
    unfolding scope ref by (simp add: demo_eval ref_wanted_def)
  have readable: "readable_repo [''u''] demo_files repo" unfolding repo_def by (simp add: demo_eval)
  have stands: "row \<in> set (c_files demo_files)" "repo \<in> set (c_repos demo_files)" "cr_id repo = fl_repo row"
    "file_scope demo_engine (library_base []) [] [] [] repo" "ref_wanted (library_ref [] []) (row, repo)" "fl_path row = ''a.go''"
    unfolding scope ref by (simp_all add: row_def repo_def demo_files_def ref_wanted_def)
  have found: "match_path (newPathMatcher (\<lambda>_. None) (trim_space ''*.go'')) (fl_path row) = Some 90"
    unfolding demo_ids stands(6) by (rule demo_match)
  have path: "fl_path row \<notin> {[], ''./''}" unfolding stands(6) by simp
  note complete = file_search_sound [OF run(1), THEN conjunct2, THEN conjunct2, THEN conjunct2, THEN conjunct2]
  have "stored_file (row, repo)\<lparr>fr_score := 90\<rparr> \<in> set (fs_Files result) \<or> length (fs_Files result) = within_or 5 200 50
      \<and> (\<forall>g \<in> set (fs_Files result). 90 \<le> fr_score g)"
    by (rule complete [rule_format, OF _ safe like few stands(1-3) readable stands(4,5) path found]) simp
  then have "stored_file (row, repo)\<lparr>fr_score := 90\<rparr> \<in> set (fs_Files result)" using len by (auto simp: within_or_def)
  moreover have "fr_Path (stored_file (row, repo)\<lparr>fr_score := 90\<rparr>) = ''a.go''" by (simp add: stored_file_def stands(6))
  ultimately have "\<exists>f \<in> set (fs_Files result). fr_Path f = ''a.go'' \<and> fr_score f = 90"
    by (intro bexI [of _ "stored_file (row, repo)\<lparr>fr_score := 90\<rparr>"]) simp_all
  then show ?thesis using run(1) len by blast
qed

lemma small_text_kept: "Sanitize (\<lambda>_. True) (''a'' @ [CHR 0x0A] @ ''b'') = (''a'' @ [CHR 0x0A] @ ''b'', [])"
proof -
  have none: "\<not> match_string entropyCandidateRE (''a'' @ [CHR 0x0A] @ ''b'')" by (simp add: regexp_eval line_patterns)
  have "mask_entropy (\<lambda>_. True) x = x" if "\<not> match_string entropyCandidateRE (fst x)" for x
  proof -
    have "pieces entropyCandidateRE (fst x) = ([], fst x)"
      using that by (cases "find_from entropyCandidateRE None (cells (fst x))")
        (simp_all add: match_string_def find_match_def pieces_def pieces_from.simps [of entropyCandidateRE True] split: prod.splits)
    then show ?thesis by (cases x) (simp add: mask_entropy_def find_all_def replace_all_def)
  qed
  then show ?thesis
    using small_text_unmatched none unfolding Sanitize_def mask_blocks_def maskBlockScalars_def mask_assignment_def mask_aws_def
      mask_token_def mask_url_def mask_oracle_def mask_authorization_def mask_netrc_def mask_curl_def mask_attribute_def mask_element_def
    by (simp add: stage_absent)
qed

lemma read_file_window_witness:
  "\<exists>out. ReadFile demo_engine (\<lambda>_. True) demo_servers (\<lambda>_. False) demo_files [''u''] [] [] ''a.go'' [] 0 0 = (out, None)
     \<and> 1 \<le> fc_StartLine out \<and> fc_EndLine out - fc_StartLine out < 1200"
proof -
  have scope: "file_scope demo_engine (library_base []) [] [] [] = (\<lambda>r. True)" by (rule ext) (simp add: file_scope_def library_base_def)
  have path: "trim_prefix (trim_space ''a.go'') ''./'' = ''a.go''" by (simp add: demo_ids trim_prefix_def)
  have "map (\<lambda>x. (cr_id (fst x), snd x)) (file_matches demo_engine demo_files [''u''] (\<lambda>r. True) [] ''a.go'')
      = [(''1'', ''m'', ''a.go'', ''c'', 1)]"
    by (simp add: file_matches_def demo_eval ref_wanted_def)
  then obtain r where found: "file_matches demo_engine demo_files [''u''] (\<lambda>r. True) [] ''a.go'' = [(r, ''m'', ''a.go'', ''c'', 1)]" "cr_id r = ''1''"
    by auto
  have body: "\<exists>ds. fileBody demo_servers (\<lambda>_. False) demo_files r ''m'' ''a.go'' True = (''a'' @ [CHR 0x0A] @ ''b'', ''index'', ds)"
    by (simp add: fileBody_def live_body_def demo_servers_def stored_chunks_def demo_files_def found(2))
  have "\<exists>out. read_selected (\<lambda>_. True) demo_servers (\<lambda>_. False) demo_files ''a.go'' 0 0 (r, ''m'', ''a.go'', ''c'', 1) = (out, None)"
    using body small_text_kept unfolding read_selected_def by (auto simp: Let_def)
  then obtain out where "ReadFile demo_engine (\<lambda>_. True) demo_servers (\<lambda>_. False) demo_files [''u''] [] [] ''a.go'' [] 0 0 = (out, None)"
    unfolding ReadFile_def Let_def path scope library_ref_def by (auto simp: found)
  note run = this
  have "1 \<le> fc_StartLine out \<and> fc_EndLine out - fc_StartLine out < 1200"
    using read_file_window [OF run] unfolding Let_def by blast
  then show ?thesis using run by blast
qed

end
