(* ===== verification/ContextPlan.thy ===== *)
theory ContextPlan
  imports Risk FileSearch
begin

text \<open>
  Bundles of context: the change planner of \<^verbatim>\<open>internal/search/contextplan.go\<close> and the context packs of
  \<^verbatim>\<open>internal/search/service.go\<close>. The searches they call are those of \<open>Catalog\<close> and \<open>FileSearch\<close>; the history
  of a file, the hybrid query and the texts of errors are arguments. The share a section may
  claim is a product of floating-point numbers, written out with its rounding. The lemmas give
  the accounting of a bundle and what a restricted API key is given of a pack.
\<close>

section \<open>Bundles\<close>

record ContextSection =
  cs_Name :: string
  cs_Title :: string
  cs_Candidates :: nat
  cs_Included :: nat
  cs_Body :: string
  cs_Note :: string

record ContextBundle =
  cb_Target :: SymbolResult
  cb_Intent :: string
  cb_Plan :: "string list"
  cb_Sections :: "ContextSection list"
  cb_Ambiguous :: "SymbolResult list"
  cb_Diagnostics :: "string list"
  cb_BudgetBytes :: int

record sectionData =
  sd_entries :: "string list"
  sd_note :: string
  sd_separator :: string

text \<open>A share of the budget, a float64 given as mantissa and negative exponent of two.\<close>

record sectionShare =
  sh_name :: string
  sh_title :: string
  sh_share :: "nat \<times> nat"

record commit_entry =
  co_display :: string
  co_date :: string
  co_message :: string
  co_author :: string

datatype plan_error =
    NoPermissionsForCaller | QueryIsRequired | NoSymbolNamed string | NoneResolves "string list" | LibraryDenied
  | PackAndQueryRequired | PackUnavailable catalog_error | PackQueryFailed

text \<open>What the bundles are built from.\<close>

record sources =
  so_engine :: engine
  so_brackets :: brackets
  so_servers :: servers
  so_faults :: catalog_faults
  so_catalog :: catalog
  so_history :: "string list \<Rightarrow> string \<Rightarrow> string \<Rightarrow> string \<Rightarrow> string + commit_entry list"
  so_query :: "string list \<Rightarrow> string \<Rightarrow> string \<Rightarrow> string option"
  so_error :: "catalog_error \<Rightarrow> string"
  so_ages :: "(string \<times> string \<times> string \<times> time) list option"
  so_now :: time

definition no_symbol :: SymbolResult where
  "no_symbol = \<lparr>sr_LibraryID = [], sr_Ref = [], sr_CommitID = [], sr_FilePath = [], sr_Name = [],
    sr_QualifiedName = [],
     sr_Kind = [], sr_Language = [], sr_Signature = [], sr_Documentation = [], sr_LineStart = 0, sr_LineEnd = 0,
     sr_Content = [], sr_ContentHash = []\<rparr>"

definition find_symbols :: "sources \<Rightarrow> string list \<Rightarrow> string \<Rightarrow> string \<Rightarrow> string \<Rightarrow> int \<Rightarrow> catalog_error + SymbolResult list" where
  "find_symbols so principals libraryID ref query limit =
     FindSymbols (so_engine so) (so_faults so) (so_catalog so) principals libraryID ref query [] limit"

section \<open>The target of a question\<close>

definition name_start :: "nat \<Rightarrow> bool" where
  "name_start x \<longleftrightarrow> 65 \<le> x \<and> x \<le> 90 \<or> 97 \<le> x \<and> x \<le> 122 \<or> x = 95"

definition name_part :: "nat \<Rightarrow> bool" where
  "name_part x \<longleftrightarrow> name_start x \<or> 48 \<le> x \<and> x \<le> 57"

definition identifierPattern :: rx where
  "identifierPattern = seqs [Sym name_start, many (Sym name_part),
     many (seqs [Sym (among ''.:''), Sym name_start, many (Sym name_part)])]"

definition questionWords :: "string list" where
  "questionWords = [''the'', ''this'', ''that'', ''what'', ''which'', ''who'', ''how'', ''why'', ''where'', ''when'',
    ''does'', ''do'',
     ''is'', ''are'', ''will'', ''would'', ''should'', ''can'', ''change'', ''changes'', ''changing'', ''impact'',
       ''affect'',
     ''affects'', ''break'', ''breaks'', ''call'', ''calls'', ''use'', ''uses'', ''using'', ''depend'', ''depends'',
     ''me'', ''my'', ''please'', ''tell'', ''show'', ''find'', ''about'', ''for'', ''of'', ''in'', ''on'', ''to'', ''and'']"

definition first_occurrences :: "'a list \<Rightarrow> 'a list" where
  "first_occurrences xs = rev (remdups (rev xs))"

definition candidateIdentifiers :: "string \<Rightarrow> string list" where
  "candidateIdentifiers query =
     sort_key (\<lambda>t. - int (length t)) (first_occurrences
       (filter (\<lambda>t. 3 \<le> length t \<and> to_lower t \<notin> set questionWords) (map m_text (find_all identifierPattern query))))"

text \<open>The target, or the candidates it cannot be told from.\<close>

definition choose_target :: "string \<Rightarrow> SymbolResult list \<Rightarrow> SymbolResult \<times> SymbolResult list" where
  "choose_target candidate found =
     (let exact = filter (\<lambda>s. to_lower (sr_Name s) = to_lower candidate \<or> to_lower (sr_QualifiedName s) = to_lower candidate) found
      in if length exact = 1 then (hd exact, [])
         else if 1 < length exact then (no_symbol, exact)
         else if length found = 1 then (hd found, [])
         else (no_symbol, found))"

fun resolve_candidates ::
    "(string \<Rightarrow> catalog_error + SymbolResult list) \<Rightarrow> string list \<Rightarrow> (SymbolResult \<times> SymbolResult list) option" where
  "resolve_candidates search [] = None"
| "resolve_candidates search (c # cs) =
     (case search c of
        Inl _ \<Rightarrow> resolve_candidates search cs
      | Inr found \<Rightarrow> (if found = [] then resolve_candidates search cs else Some (choose_target c found)))"

definition resolveTarget ::
    "sources \<Rightarrow> string list \<Rightarrow> string \<Rightarrow> string \<Rightarrow> string \<Rightarrow> plan_error + SymbolResult \<times> SymbolResult list" where
  "resolveTarget so principals query libraryID ref =
     (let candidates = candidateIdentifiers query in
      if candidates = [] then Inl (NoSymbolNamed query)
      else case resolve_candidates (\<lambda>c. find_symbols so principals libraryID ref c 20) candidates of
        None \<Rightarrow> Inl (NoneResolves candidates)
      | Some found \<Rightarrow> Inr found)"

section \<open>Fitting a budget\<close>

fun bit_len :: "nat \<Rightarrow> nat" where
  "bit_len n = (if n = 0 then 0 else Suc (bit_len (n div 2)))"

declare bit_len.simps [simp del]

text \<open>The nearest integer with 53 significant bits, ties to even.\<close>

definition round53 :: "nat \<Rightarrow> nat" where
  "round53 p =
     (if p < 2 ^ 53 then p
      else let s = bit_len p - 53; q = p div 2 ^ s; r = p mod 2 ^ s
           in (if 2 ^ s < 2 * r \<or> 2 ^ s = 2 * r \<and> odd q then q + 1 else q) * 2 ^ s)"

text \<open>\<^verbatim>\<open>int(float64(budget)*share)\<close> of a budget that is not negative.\<close>

definition times_share :: "int \<Rightarrow> nat \<times> nat \<Rightarrow> int" where
  "times_share budget = (\<lambda>(m, k). int (round53 (round53 (nat budget) * m) div 2 ^ k))"

definition budgetShare :: "sectionShare list" where
  "budgetShare =
    [\<lparr>sh_name = ''dependents'', sh_title = (bytes [236, 157, 180, 32, 236, 139, 172, 235, 179, 188, 236, 157, 132,
      32, 236, 130, 172, 236, 154, 169, 237, 149, 152, 235, 138, 148, 32, 234, 179, 179, 32, 40, 234, 181, 144, 236, 176,
        168, 32, 236, 160, 128, 236, 158, 165, 236, 134, 140] @ '')''), sh_share = (3152519739159347, 53)\<rparr>,
     \<lparr>sh_name = ''tests'', sh_title = (bytes [234, 180, 128, 235, 160, 168, 32, 237, 133, 140, 236, 138, 164, 237,
       138, 184]), sh_share = (3602879701896397, 54)\<rparr>,
     \<lparr>sh_name = ''symbol'', sh_title = (bytes [235, 140, 128, 236, 131, 129, 32, 236, 139, 172, 235, 179, 188]),
       sh_share = (3602879701896397, 54)\<rparr>,
     \<lparr>sh_name = ''dependencies'', sh_title = (bytes [236, 157, 180, 32, 236, 139, 172, 235, 179, 188, 236, 157,
       180, 32, 236, 157, 152, 236, 161, 180, 237, 149, 152, 235, 138, 148, 32, 234, 178, 131]),
         sh_share = (5404319552844595, 55)\<rparr>,
     \<lparr>sh_name = ''history'', sh_title = (bytes [236, 181, 156, 234, 183, 188, 32, 235, 179, 128, 234, 178, 189,
       32, 236, 157, 180, 235, 160, 165]), sh_share = (3602879701896397, 55)\<rparr>]"

definition packShare :: "sectionShare list" where
  "packShare =
    [\<lparr>sh_name = ''conventions'', sh_title = (bytes [237, 148, 132, 235, 161, 156, 236, 160, 157, 237, 138, 184,
      32, 234, 183, 156, 236, 149, 189]), sh_share = (5404319552844595, 55)\<rparr>,
     \<lparr>sh_name = ''entrypoints'', sh_title = (bytes [236, 167, 132, 236, 158, 133, 236, 160, 144]), sh_share = (1,
       2)\<rparr>,
     \<lparr>sh_name = ''libraries'', sh_title = (bytes [236, 167, 136, 236, 157, 152, 32, 234, 178, 176, 234, 179,
       188]), sh_share = (5404319552844595, 53)\<rparr>]"

definition separator_of :: "sectionData \<Rightarrow> string" where
  "separator_of d = (if sd_separator d = [] then [newline] else sd_separator d)"

definition sd_join :: "sectionData \<Rightarrow> string" where
  "sd_join d = join_with (separator_of d) (sd_entries d)"

fun fitting :: "string \<Rightarrow> int \<Rightarrow> int \<Rightarrow> string list \<Rightarrow> string list \<Rightarrow> string list" where
  "fitting sep allowance used kept [] = kept"
| "fitting sep allowance used kept (entry # entries) =
     (let cost = int (length entry) + (if kept = [] then 0 else int (length sep)) in
      if allowance < used + cost then kept
      else fitting sep allowance (used + cost) (kept @ [entry]) entries)"

definition fitEntries :: "sectionData \<Rightarrow> int \<Rightarrow> string \<times> nat" where
  "fitEntries d allowance =
     (if sd_entries d = [] then ([], 0)
      else if int (length (sd_join d)) \<le> allowance then (sd_join d, length (sd_entries d))
      else let kept = fitting (separator_of d) allowance 0 [] (sd_entries d) in (join_with (separator_of d) kept,
        length kept))"

definition cut_note :: "nat \<Rightarrow> nat \<Rightarrow> string" where
  "cut_note candidates included =
     ('' '' @ bytes [236, 152, 136, 236, 130, 176, 236, 151, 144, 32, 235, 167, 158, 236, 182, 176] @ '' '')
       @ itoa (int candidates) @ (bytes [234, 177, 180, 32, 236, 164, 145] @ '' '') @ itoa (int included) @ (bytes [234,
         177, 180, 235, 167, 140, 32, 237, 143, 172, 237, 149, 168, 237, 150, 136, 236, 138, 181, 235, 139, 136, 235,
           139, 164] @ ''('') @ itoa (int (candidates - included))
       @ (bytes [234, 177, 180, 32, 236, 131, 157, 235, 158, 181] @ '').'')"

fun allocate_from :: "int \<Rightarrow> int \<Rightarrow> sectionShare list \<Rightarrow> (string \<Rightarrow> sectionData) \<Rightarrow> ContextSection list" where
  "allocate_from budget spare [] gathered = []"
| "allocate_from budget spare (share # shares) gathered =
     (let d = gathered (sh_name share); allowance = times_share budget (sh_share share) + spare;
          (body, included) = fitEntries d allowance;
          count = length (sd_entries d)
      in \<lparr>cs_Name = sh_name share, cs_Title = sh_title share, cs_Candidates = count, cs_Included = included,
        cs_Body = body,
           cs_Note = trim_space (if included < count then trim_space (sd_note d
             @ cut_note count included) else sd_note d)\<rparr>
         # allocate_from budget (max 0 (allowance - int (length body))) shares gathered)"

definition allocateShares :: "int \<Rightarrow> sectionShare list \<Rightarrow> (string \<Rightarrow> sectionData) \<Rightarrow> ContextSection list" where
  "allocateShares budget shares gathered = allocate_from budget 0 shares gathered"

definition allocate :: "int \<Rightarrow> (string \<Rightarrow> sectionData) \<Rightarrow> ContextSection list" where
  "allocate budget gathered = allocateShares budget budgetShare gathered"

section \<open>The parts of a change bundle\<close>

definition entries_with :: "string list \<Rightarrow> string \<Rightarrow> sectionData" where
  "entries_with entries note' = \<lparr>sd_entries = entries, sd_note = note', sd_separator = []\<rparr>"

definition failed_note :: "string \<Rightarrow> string" where
  "failed_note reason = (bytes [236, 161, 176, 237, 154, 140, 32, 236, 139, 164, 237, 140, 168] @ '': '') @ reason"

definition dependent_line :: "DependentResult \<Rightarrow> string" where
  "dependent_line d = ''- `'' @ dp_LibraryID d @ ''` '' @ dp_FilePath d @ '':'' @ itoa (dp_LineNumber d) @ ('' ''
    @ bytes [226, 128, 148] @ '' '') @ dp_FromSymbol d
     @ '' ('' @ dp_Kind d @ '')''"

definition gather_dependents :: "sources \<Rightarrow> string list \<Rightarrow> string list \<Rightarrow> SymbolResult \<Rightarrow> sectionData" where
  "gather_dependents so principals allowed target =
     (case FindDependents (so_engine so) (so_faults so) (so_catalog so) principals (sr_Name target) [] 200 of
        Inl err \<Rightarrow> entries_with [] (failed_note (so_error so err))
      | Inr found \<Rightarrow>
          (let ls = map dependent_line (filter (\<lambda>d. LibraryAllowed (dp_LibraryID d) allowed) (ds_Dependents found))
           in entries_with ls (if ls = [] then (bytes [236, 157, 180, 32, 236, 139, 172, 235, 179, 188, 236, 157, 132,
             32, 236, 176, 184, 236, 161, 176, 237, 149, 152, 235, 138, 148, 32, 236, 131, 137, 236, 157, 184, 235, 144,
              156, 32, 236, 189, 148, 235, 147, 156, 234, 176, 128, 32, 236, 151, 134, 236, 138, 181, 235, 139, 136, 235,
              139, 164, 46, 32, 236, 131, 137, 236, 157, 184, 235, 144, 152, 236, 167, 128, 32, 236, 149, 138, 236, 157,
              128, 32, 236, 160, 128, 236, 158, 165, 236, 134, 140, 235, 138, 148, 32, 236, 151, 172, 234, 184, 176, 236,
              151, 144, 32, 235, 130, 152, 237, 131, 128, 235, 130, 152, 236, 167, 128, 32, 236, 149, 138, 236, 138, 181,
              235, 139, 136, 235, 139, 164] @ ''.'') else [])))"

definition dependency_line :: "DependencyResult \<Rightarrow> string" where
  "dependency_line d = ''- '' @ dr_FromSymbol d @ ('' '' @ bytes [226, 134, 146] @ '' `'') @ dr_Target d @ ''` (''
    @ dr_Kind d @ '') '' @ dr_FilePath d @ '':''
     @ itoa (dr_LineNumber d)"

definition gather_dependencies :: "sources \<Rightarrow> string list \<Rightarrow> SymbolResult \<Rightarrow> sectionData" where
  "gather_dependencies so principals target =
     (case TraceDependencies (so_engine so) (so_faults so) (so_catalog so) principals (sr_LibraryID target) (sr_Ref target)
             (if sr_QualifiedName target \<noteq> [] then sr_QualifiedName target else sr_Name target) 100 of
        Inl err \<Rightarrow> entries_with [] (failed_note (so_error so err))
      | Inr deps \<Rightarrow> entries_with (map dependency_line deps) [])"

definition symbol_entry :: "SymbolResult \<Rightarrow> string" where
  "symbol_entry t = ''`'' @ sr_QualifiedName t @ ''` '' @ sr_Kind t @ '' ('' @ sr_Language t @ '')'' @ [newline]
     @ sr_FilePath t @ '':'' @ itoa (sr_LineStart t) @ ''-'' @ itoa (sr_LineEnd t) @ [newline, newline]
     @ trim_space (sr_Signature t) @ [newline, newline] @ trim_space (sr_Documentation t)"

definition testPathPatterns :: "string list" where
  "testPathPatterns = [''*_test.go'', ''*Test.java'', ''*Tests.cs'', ''*_test.py'', ''*.test.ts'', ''*.test.js'',
    ''*.spec.ts'',
     ''*.spec.js'', ''*_spec.rb'']"

fun test_lines :: "string list \<Rightarrow> string list \<Rightarrow> FileResult list \<Rightarrow> string list \<times> string list" where
  "test_lines seen out [] = (seen, out)"
| "test_lines seen out (f # fs) =
     (if fr_Path f \<in> set seen \<or> \<not> looksLikeTest (fr_Path f) then test_lines seen out fs
      else test_lines (fr_Path f # seen) (out @ [''- `'' @ fr_LibraryID f @ ''` '' @ fr_Path f]) fs)"

fun test_patterns ::
    "(string \<Rightarrow> file_error + FileSearchResult) \<Rightarrow> string list \<Rightarrow> string list \<Rightarrow> string list \<Rightarrow> string list" where
  "test_patterns search seen out [] = out"
| "test_patterns search seen out (p # ps) =
     (case search p of
        Inl _ \<Rightarrow> test_patterns search seen out ps
      | Inr found \<Rightarrow> (let (seen',
        out') = test_lines seen out (fs_Files found) in test_patterns search seen' out' ps))"

definition gatherTests :: "sources \<Rightarrow> string list \<Rightarrow> SymbolResult \<Rightarrow> sectionData" where
  "gatherTests so principals target =
     (let stem = trim_suffix (path_Base (sr_FilePath target)) (path_Ext (sr_FilePath target));
          ls = sort (test_patterns (\<lambda>p. FindFiles (so_engine so) (so_brackets so) (so_servers so) (so_faults so) (so_catalog so)
                 principals p (sr_LibraryID target) [] [] [] (sr_Ref target) 100) [] []
                 [stem @ ''*'', sr_Name target @ ''*'', path_Join (path_Dir (sr_FilePath target)) ''*''])
      in if ls = [] then
           entries_with [] ((bytes [236, 157, 180, 32, 236, 160, 128, 236, 158, 165, 236, 134, 140, 236, 151, 144, 236,
             132, 156, 32, 236, 149, 140, 235, 160, 164, 236, 167, 132, 32, 237, 133, 140, 236, 138, 164, 237, 138, 184,
              32, 237, 140, 140, 236, 157, 188, 32, 234, 183, 156, 236, 149, 189] @ ''('')
              @ join_with '', '' (take 3 testPathPatterns)
             @ ('' '' @ bytes [235, 147, 177, 41, 236, 151, 144, 32, 235, 167, 158, 235, 138, 148, 32, 237, 140, 140,
               236, 157, 188, 236, 157, 132, 32, 236, 176, 190, 236, 167, 128, 32, 235, 170, 187, 237, 150, 136, 236,
              138, 181, 235, 139, 136, 235, 139, 164] @ ''.''))
         else entries_with ls [])"

definition firstLine :: "string \<Rightarrow> string" where
  "firstLine v = trim_space (takeWhile (\<lambda>c. c \<noteq> CHR 0x0D \<and> c \<noteq> CHR 0x0A) v)"

definition commit_line :: "commit_entry \<Rightarrow> string" where
  "commit_line c = ''- '' @ co_display c @ '' '' @ co_date c @ ('' '' @ bytes [226, 128, 148] @ '' '')
    @ firstLine (co_message c) @ '' ('' @ co_author c @ '')''"

definition gather_history :: "sources \<Rightarrow> string list \<Rightarrow> SymbolResult \<Rightarrow> sectionData" where
  "gather_history so principals target =
     (case so_history so principals (sr_LibraryID target) (sr_FilePath target) (sr_Ref target) of
        Inl reason \<Rightarrow> entries_with [] (failed_note reason)
      | Inr commits \<Rightarrow> entries_with (map commit_line commits) [])"

text \<open>The library named by a line: what stands between \<^verbatim>\<open>`/\<close> and the next backtick.\<close>

definition named_library :: "string \<Rightarrow> string option" where
  "named_library line =
     (case index_str line ''`/'' of
        None \<Rightarrow> None
      | Some start \<Rightarrow> map_option (\<lambda>end'. take end' (drop (start + 1) line)) (index_str (drop (start + 1) line) ''`''))"

definition bundleLibraries :: "ContextBundle \<Rightarrow> string list" where
  "bundleLibraries b =
     first_occurrences (sr_LibraryID (cb_Target b) #
       List.map_filter named_library (concat (map (\<lambda>s. split_on newline (cs_Body s)) (cb_Sections b))))"

definition change_plan :: "SymbolResult \<Rightarrow> string list" where
  "change_plan t =
    [(bytes [235, 140, 128, 236, 131, 129, 32, 237, 153, 149, 236, 160, 149] @ '': '') @ sr_QualifiedName t @ '' (''
      @ sr_Kind t @ '', '' @ sr_Language t @ '')'' @ ('' '' @ bytes [226, 128, 148] @ '' '') @ sr_LibraryID t @ '' ''
        @ sr_FilePath t,
     (bytes [234, 181, 144, 236, 176, 168, 32, 236, 160, 128, 236, 158, 165, 236, 134, 140, 32, 236, 130, 172, 236, 154,
       169, 236, 178, 152, 32, 236, 161, 176, 237, 154, 140] @ '' (find-dependents)''),
     (bytes [236, 160, 128, 236, 158, 165, 236, 134, 140, 32, 235, 130, 180, 32, 236, 157, 152, 236, 161, 180, 32, 235,
       140, 128, 236, 131, 129, 32, 236, 161, 176, 237, 154, 140] @ '' (trace-dependencies)''),
     (bytes [235, 140, 128, 236, 131, 129, 32, 237, 140, 140, 236, 157, 188, 32, 236, 163, 188, 235, 179, 128, 32, 237,
       133, 140, 236, 138, 164, 237, 138, 184, 32, 237, 131, 144, 236, 131, 137] @ '' (find-file)''),
     (bytes [235, 140, 128, 236, 131, 129, 32, 237, 140, 140, 236, 157, 188, 236, 157, 152, 32, 236, 181, 156, 234, 183,
       188, 32, 235, 179, 128, 234, 178, 189, 32, 236, 157, 180, 235, 160, 165] @ '' (get-file-history)'')]"

definition gathered_change :: "sources \<Rightarrow> string list \<Rightarrow> string list \<Rightarrow> SymbolResult \<Rightarrow> string \<Rightarrow> sectionData" where
  "gathered_change so principals allowed target name =
     (if name = ''dependents'' then gather_dependents so principals allowed target
      else if name = ''dependencies'' then gather_dependencies so principals target
      else if name = ''symbol'' then entries_with [symbol_entry target] []
      else if name = ''tests'' then gatherTests so principals target
      else if name = ''history'' then gather_history so principals target
      else entries_with [] [])"

definition freshness_of :: "sources \<Rightarrow> string list \<Rightarrow> string list \<Rightarrow> string" where
  "freshness_of so principals libraries =
     (case IndexAges (so_ages so) principals libraries (so_now so) of None \<Rightarrow> [] | Some ages \<Rightarrow> FreshnessNote ages)"

definition change_bundle :: "sources \<Rightarrow> string list \<Rightarrow> string list \<Rightarrow> SymbolResult \<Rightarrow> int \<Rightarrow> ContextBundle" where
  "change_bundle so principals allowed target budget =
     (let b = \<lparr>cb_Target = target, cb_Intent = ''change-impact'', cb_Plan = change_plan target,
            cb_Sections = allocate budget (gathered_change so principals allowed target), cb_Ambiguous = [],
            cb_Diagnostics = [], cb_BudgetBytes = budget\<rparr>;
          note' = freshness_of so principals (bundleLibraries b)
      in b\<lparr>cb_Diagnostics := (if note' \<noteq> [] then [note'] else [])\<rparr>)"

definition ambiguous_bundle :: "SymbolResult list \<Rightarrow> int \<Rightarrow> ContextBundle" where
  "ambiguous_bundle ambiguous budget =
     \<lparr>cb_Target = no_symbol, cb_Intent = ''change-impact'', cb_Plan = [], cb_Sections = [], cb_Ambiguous = ambiguous,
      cb_Diagnostics = [itoa (int (length ambiguous))
        @ '' symbols match; name the one you mean with libraryId or a qualified name.''],
      cb_BudgetBytes = budget\<rparr>"

definition BuildChangeContext ::
    "sources \<Rightarrow> string list \<Rightarrow> string list \<Rightarrow> string \<Rightarrow> string \<Rightarrow> string \<Rightarrow> int \<Rightarrow> plan_error + ContextBundle" where
  "BuildChangeContext so principals allowed query libraryID ref budget0 =
     (let budget = (if budget0 < 4000 then 24576 else budget0) in
      if principals = [] then Inl NoPermissionsForCaller
      else if trim_space query = [] then Inl QueryIsRequired
      else case resolveTarget so principals query libraryID ref of
        Inl err \<Rightarrow> Inl err
      | Inr (target, ambiguous0) \<Rightarrow>
          (let ambiguous = (if allowed = [] then ambiguous0 else filter (\<lambda>s. LibraryAllowed (sr_LibraryID s) allowed) ambiguous0) in
           if allowed \<noteq> [] \<and> sr_LibraryID target \<noteq> [] \<and> \<not> LibraryAllowed (sr_LibraryID target) allowed then Inl LibraryDenied
           else if ambiguous \<noteq> [] then Inr (ambiguous_bundle ambiguous budget)
           else Inr (change_bundle so principals allowed target budget)))"

section \<open>Rendering\<close>

text \<open>A section as both bundles print it.\<close>

definition section_text :: "ContextSection \<Rightarrow> string" where
  "section_text s = ''## '' @ cs_Title s @ [newline, newline] @ (if cs_Body s \<noteq> [] then cs_Body s @ [newline] else [])
     @ (if cs_Note s \<noteq> [] then [newline] @ ''_'' @ cs_Note s @ ''_'' @ [newline] else []) @ [newline]"

definition candidate_line :: "SymbolResult \<Rightarrow> string" where
  "candidate_line s = ''- `'' @ sr_QualifiedName s @ ''` '' @ sr_Kind s @ '' ('' @ sr_Language s @ '')'' @ ('' ''
    @ bytes [226, 128, 148] @ '' '') @ sr_LibraryID s @ '' ''
     @ sr_FilePath s @ '':'' @ itoa (sr_LineStart s)"

definition Render :: "ContextBundle \<Rightarrow> string" where
  "Render b =
     (if cb_Ambiguous b \<noteq> [] then
        (''# '' @ bytes [235, 140, 128, 236, 131, 129, 236, 157, 132, 32, 237, 149, 152, 235, 130, 152, 235, 161, 156,
          32, 236, 162, 129, 237, 158, 136, 236, 167, 128, 32, 235, 170, 187, 237, 150, 136, 236, 138, 181, 235, 139,
            136, 235, 139, 164]) @ [newline, newline]
        @ (bytes [236, 152, 129, 237, 150, 165, 32, 235, 178, 148, 236, 156, 132, 235, 138, 148, 32, 235, 140, 128, 236,
          131, 129, 236, 157, 180, 32, 237, 153, 149, 236, 160, 149, 235, 143, 188, 236, 149, 188, 32, 236, 157, 152,
            235, 175, 184, 234, 176, 128, 32, 236, 158, 136, 236, 150, 180, 44, 32, 236, 182, 148, 236, 184, 161, 32,
              235, 140, 128, 236, 139, 160, 32, 237, 155, 132, 235, 179, 180, 235, 165, 188, 32, 235, 143, 140, 235, 160,
              164, 235, 147, 156, 235, 166, 189, 235, 139, 136, 235, 139, 164] @ ''.'') @ [newline, newline]
        @ join_with [newline] (map candidate_line (cb_Ambiguous b))
        @ [newline, newline] @ (''libraryId '' @ bytes [235, 165, 188, 32, 236, 167, 128, 236, 160, 149, 237, 149, 152,
          234, 177, 176, 235, 130, 152, 32, 236, 160, 149, 234, 183, 156, 237, 153, 148, 235, 144, 156, 32, 236, 157,
            180, 235, 166, 132, 236, 156, 188, 235, 161, 156, 32, 235, 139, 164, 236, 139, 156, 32, 236, 154, 148, 236,
              178, 173, 237, 149, 152, 236, 132, 184, 236, 154, 148] @ ''.'')
      else
        trim_space ((''# '' @ bytes [235, 179, 128, 234, 178, 189, 32, 236, 152, 129, 237, 150, 165, 32, 236, 187, 168,
          237, 133, 141, 236, 138, 164, 237, 138, 184] @ '': '') @ sr_QualifiedName (cb_Target b) @ [newline, newline]
          @ (''> '' @ bytes [236, 149, 132, 235, 158, 152, 32, 236, 160, 128, 236, 158, 165, 236, 134, 140, 32, 235, 130,
            180, 236, 154, 169, 236, 157, 128, 32, 236, 167, 128, 236, 139, 156, 234, 176, 128, 32, 236, 149, 132, 235,
              139, 136, 235, 157, 188, 32, 236, 176, 184, 234, 179, 160, 32, 235, 141, 176, 236, 157, 180, 237, 132, 176,
              236, 158, 133, 235, 139, 136, 235, 139, 164] @ ''.'') @ [newline, newline]
          @ (''## '' @ bytes [236, 136, 152, 236, 167, 145, 32, 234, 179, 132, 237, 154, 141]) @ [newline, newline]
          @ concat (map (\<lambda>(i, step). itoa (int i) @ ''. '' @ step
            @ [newline]) (zip [1..<length (cb_Plan b) + 1] (cb_Plan b)))
          @ [newline] @ concat (map section_text (cb_Sections b))
          @ concat (map (\<lambda>d. ''_'' @ d @ ''_'' @ [newline]) (cb_Diagnostics b))) @ [newline])"

definition renderSections :: "ContextSection list \<Rightarrow> string" where
  "renderSections sections =
     trim_space (concat (map section_text (filter (\<lambda>s. cs_Body s \<noteq> [] \<or> cs_Note s \<noteq> []) sections)))"

section \<open>Context packs\<close>

record pack_row =
  pr_id :: string
  pr_slug :: string
  pr_enabled :: int
  pr_name :: string
  pr_description :: string
  pr_purpose :: string
  pr_budget :: int
  pr_conventions :: int

record packItem =
  pi_pack :: string
  pi_position :: int
  pi_libraryID :: string
  pi_ref :: string
  pi_hint :: string

record packEntrypoint =
  pe_pack :: string
  pe_position :: int
  pe_symbol :: string
  pe_libraryID :: string

text \<open>The three tables; \<open>None\<close> is a statement that fails.\<close>

record pack_tables =
  pt_packs :: "pack_row list option"
  pt_items :: "packItem list option"
  pt_entrypoints :: "packEntrypoint list option"

record ContextPackResult =
  px_Slug :: string
  px_Name :: string
  px_Description :: string
  px_Content :: string
  px_Libraries :: "string list"
  px_Purpose :: string
  px_Sections :: "ContextSection list"
  px_BudgetBytes :: int

definition packItems :: "pack_tables \<Rightarrow> string \<Rightarrow> packItem list option" where
  "packItems t packID =
     map_option (\<lambda>rows. sort_key (\<lambda>i. (pi_position i,
       pi_libraryID i)) (filter (\<lambda>i. pi_pack i = packID) rows)) (pt_items t)"

definition packEntrypoints :: "pack_tables \<Rightarrow> string \<Rightarrow> packEntrypoint list option" where
  "packEntrypoints t packID =
     map_option (\<lambda>rows. sort_key (\<lambda>i. (pe_position i,
       pe_symbol i)) (filter (\<lambda>i. pe_pack i = packID) rows)) (pt_entrypoints t)"

definition permitted :: "string list \<Rightarrow> string \<Rightarrow> bool" where
  "permitted allowed libraryID = list_ex (\<lambda>c. to_lower (trim_space c) = to_lower (trim_space libraryID)) allowed"

definition restrictPack ::
    "packItem list \<Rightarrow> packEntrypoint list \<Rightarrow> string list \<Rightarrow> packItem list \<times> packEntrypoint list" where
  "restrictPack items entrypoints allowed =
     (if allowed = [] then (items, entrypoints)
      else (filter (\<lambda>i. permitted allowed (pi_libraryID i)) items,
            filter (\<lambda>p. pe_libraryID p = [] \<or> permitted allowed (pe_libraryID p)) entrypoints))"

definition convention_lines :: "sources \<Rightarrow> string list \<Rightarrow> packItem \<Rightarrow> string list" where
  "convention_lines so principals item =
     (case authorizedRepository (so_faults so) (so_catalog so) principals (pi_libraryID item) (pi_ref item) of
        Inl _ \<Rightarrow> []
      | Inr (repositoryID, _, ref) \<Rightarrow>
          map (\<lambda>file. ''- `'' @ pi_libraryID item @ ''` ''
            @ file) (conventionFiles (so_faults so) (so_catalog so) repositoryID ref))"

definition gatherConventions :: "sources \<Rightarrow> string list \<Rightarrow> packItem list \<Rightarrow> sectionData" where
  "gatherConventions so principals items =
     (let ls = concat (map (convention_lines so principals) items)
      in if ls = [] then entries_with [] (bytes [236, 157, 180, 32, 237, 140, 169, 236, 157, 152, 32, 236, 160, 128, 236,
        158, 165, 236, 134, 140, 236, 151, 144, 236, 132, 156] @ '' README'' @ bytes [194, 183] @ ''CLAUDE.md''
          @ bytes [194, 183] @ ''AGENTS.md'' @ bytes [194, 183] @ ''ADR '' @ bytes [234, 176, 153, 236, 157, 128, 32,
            234, 183, 156, 236, 149, 189, 32, 237, 140, 140, 236, 157, 188, 236, 157, 132, 32, 236, 176, 190, 236, 167,
              128, 32, 235, 170, 187, 237, 150, 136, 236, 138, 181, 235, 139, 136, 235, 139, 164] @ ''.'')
         else entries_with ls [])"

definition entrypoint_line :: "SymbolResult \<Rightarrow> string" where
  "entrypoint_line s = candidate_line s @ [newline] @ ''  '' @ firstLine (sr_Signature s)"

definition entrypoint_found :: "sources \<Rightarrow> string list \<Rightarrow> packEntrypoint \<Rightarrow> SymbolResult option" where
  "entrypoint_found so principals p =
     (case find_symbols so principals (pe_libraryID p) [] (pe_symbol p) 5 of
        Inl _ \<Rightarrow> None
      | Inr [] \<Rightarrow> None
      | Inr (s # _) \<Rightarrow> Some s)"

definition gatherEntrypoints :: "sources \<Rightarrow> string list \<Rightarrow> packEntrypoint list \<Rightarrow> sectionData" where
  "gatherEntrypoints so principals entrypoints =
     (if entrypoints = [] then entries_with [] (bytes [236, 157, 180, 32, 237, 140, 169, 236, 151, 144, 235, 138, 148,
       32, 236, 167, 132, 236, 158, 133, 236, 160, 144, 236, 157, 180, 32, 236, 167, 128, 236, 160, 149, 235, 144, 152,
         236, 167, 128, 32, 236, 149, 138, 236, 149, 152, 236, 138, 181, 235, 139, 136, 235, 139, 164] @ ''.'')
      else let ls = map entrypoint_line (List.map_filter (entrypoint_found so principals) entrypoints);
               missing = map pe_symbol (filter (\<lambda>p. entrypoint_found so principals p = None) entrypoints)
           in entries_with ls (if missing = [] then []
                else (bytes [237, 149, 180, 236, 134, 140, 235, 144, 152, 236, 167, 128, 32, 236, 149, 138, 236, 157,
                  128, 32, 236, 167, 132, 236, 158, 133, 236, 160, 144] @ '': '') @ join_with '', '' missing @ ('' ''
              @ bytes [226, 128, 148, 32, 236, 157, 180, 235, 166, 132, 236, 157, 180, 32, 235, 176, 148, 235, 128, 140,
              236, 151, 136, 234, 177, 176, 235, 130, 152, 32, 236, 131, 137, 236, 157, 184, 235, 144, 152, 236, 167,
              128, 32, 236, 149, 138, 236, 149, 152, 236, 138, 181, 235, 139, 136, 235, 139, 164] @ ''.'')))"

definition item_library :: "packItem \<Rightarrow> string" where
  "item_library i = pi_libraryID i @ (if pi_ref i \<noteq> [] then ''/'' @ pi_ref i else [])"

definition pack_answer :: "sources \<Rightarrow> string list \<Rightarrow> string \<Rightarrow> packItem \<Rightarrow> (string \<times> string) option" where
  "pack_answer so principals query i =
     map_option (\<lambda>content. (item_library i, ''### '' @ item_library i @ [newline, newline] @ content))
       (so_query so principals (item_library i) (query @ (if pi_hint i \<noteq> [] then '' '' @ pi_hint i else [])))"

definition gatherPackLibraries ::
    "sources \<Rightarrow> string list \<Rightarrow> packItem list \<Rightarrow> string \<Rightarrow> sectionData \<times> string list" where
  "gatherPackLibraries so principals items query =
     (let answers = List.map_filter (pack_answer so principals query) items; skipped = length items - length answers
      in (\<lparr>sd_entries = map snd answers,
           sd_note = (if 0 < skipped then itoa (int skipped) @ (bytes [234, 176, 156, 32, 236, 160, 128, 236, 158, 165,
             236, 134, 140, 235, 138, 148, 32, 234, 182, 140, 237, 149, 156, 236, 157, 180, 32, 236, 151, 134, 234, 177,
              176, 235, 130, 152, 32, 236, 131, 137, 236, 157, 184, 235, 144, 152, 236, 167, 128, 32, 236, 149, 138, 236,
              149, 132, 32, 236, 160, 156, 236, 153, 184, 235, 144, 144, 236, 138, 181, 235, 139, 136, 235, 139, 164]
              @ ''.'') else []),
           sd_separator = [newline, newline]\<rparr>, map fst answers))"

definition gathered_pack :: "sectionData \<Rightarrow> sectionData \<Rightarrow> sectionData \<Rightarrow> string \<Rightarrow> sectionData" where
  "gathered_pack conventions entrypoints libraries name =
     (if name = ''conventions'' then conventions
      else if name = ''entrypoints'' then entrypoints
      else if name = ''libraries'' then libraries
      else entries_with [] [])"

definition assembled_pack ::
    "sources \<Rightarrow> string list \<Rightarrow> pack_row \<Rightarrow> packItem list \<Rightarrow> packEntrypoint list \<Rightarrow> string \<Rightarrow> plan_error + ContextPackResult" where
  "assembled_pack so principals row items entrypoints query =
     (let budget = (if pr_budget row < 4000 then 24576 else pr_budget row);
          conventions = (if pr_conventions row = 1 then gatherConventions so principals items
            else entries_with [] (bytes [236, 157, 180, 32, 237, 140, 169, 236, 157, 128, 32, 234, 183, 156, 236, 149,
              189, 32, 237, 140, 140, 236, 157, 188, 32, 236, 136, 152, 236, 167, 145, 236, 157, 132, 32, 235, 129, 132,
              235, 143, 132, 235, 161, 157, 32, 236, 132, 164, 236, 160, 149, 235, 143, 188, 32, 236, 158, 136, 236, 138,
              181, 235, 139, 136, 235, 139, 164] @ ''.''));
          entries = gatherEntrypoints so principals entrypoints;
          (libraries, reached) = gatherPackLibraries so principals items query
      in if reached = [] \<and> sd_entries entries = [] \<and> sd_entries conventions = [] then
           Inl (PackUnavailable (unavailable (so_faults so) (so_catalog so) principals ''context pack''))
         else let sections = allocateShares budget packShare (gathered_pack conventions entries libraries);
                  note' = freshness_of so principals reached
              in Inr \<lparr>px_Slug = pr_slug row, px_Name = pr_name row, px_Description = pr_description row,
                   px_Content = renderSections sections @ (if note' \<noteq> [] then [newline, newline] @ ''_'' @ note'
                     @ ''_'' else []),
                   px_Libraries = reached, px_Purpose = pr_purpose row, px_Sections = sections,
                     px_BudgetBytes = budget\<rparr>)"

definition ContextPackFor ::
    "sources \<Rightarrow> pack_tables \<Rightarrow> string list \<Rightarrow> string list \<Rightarrow> string \<Rightarrow> string \<Rightarrow> plan_error + ContextPackResult" where
  "ContextPackFor so tables principals allowed slug0 query0 =
     (let slug = trim_space slug0; query = trim_space query0;
          missing = Inl (PackUnavailable (unavailable (so_faults so) (so_catalog so) principals ''context pack'')) in
      if slug = [] \<or> query = [] then Inl PackAndQueryRequired
      else if principals = [] then missing
      else case pt_packs tables of
        None \<Rightarrow> missing
      | Some rows \<Rightarrow>
          (case List.find (\<lambda>r. pr_slug r = slug \<and> pr_enabled r = 1) rows of
             None \<Rightarrow> missing
           | Some row \<Rightarrow>
               (case packItems tables (pr_id row) of
                  None \<Rightarrow> Inl PackQueryFailed
                | Some items \<Rightarrow>
                    (case packEntrypoints tables (pr_id row) of
                       None \<Rightarrow> Inl PackQueryFailed
                     | Some entrypoints \<Rightarrow>
                         (let (items', entrypoints') = restrictPack items entrypoints allowed
                          in assembled_pack so principals row items' entrypoints' query)))))"

definition ContextPack :: "sources \<Rightarrow> pack_tables \<Rightarrow> string list \<Rightarrow> string \<Rightarrow> string \<Rightarrow> plan_error + ContextPackResult" where
  "ContextPack so tables principals slug query = ContextPackFor so tables principals [] slug query"

section \<open>The rounding of a share\<close>

lemma bit_len_bounds: "0 < n \<Longrightarrow> 2 ^ (bit_len n - 1) \<le> n \<and> n < 2 ^ bit_len n \<and> 0 < bit_len n"
proof (induction n rule: bit_len.induct)
  case (1 n)
  show ?case
  proof (cases "n div 2 = 0")
    case True
    then have "n = 1" using 1(2) by simp
    moreover have "bit_len (Suc 0) = 1" by (simp add: bit_len.simps [of "Suc 0"] bit_len.simps [of 0])
    ultimately show ?thesis by simp
  next
    case False
    then have h: "2 ^ (bit_len (n div 2) - 1) \<le> n div 2" "n div 2 < 2 ^ bit_len (n div 2)" "0 < bit_len (n div 2)" using 1 by auto
    have "bit_len n = Suc (bit_len (n div 2))" using 1(2) by (simp add: bit_len.simps [of n])
    moreover have "2 * 2 ^ (bit_len (n div 2) - 1) = (2 :: nat) ^ bit_len (n div 2)" using h(3) by (cases "bit_len (n div 2)") auto
    ultimately show ?thesis using h by simp linarith
  qed
qed

text \<open>Rounding adds at most one part in \<open>2 ^ 53\<close>.\<close>

lemma round53_le: "round53 p * 2 ^ 53 \<le> p * 2 ^ 53 + p"
proof (cases "p < 2 ^ 53")
  case False
  then have p: "0 < p" by (cases p) auto
  note b = bit_len_bounds [OF p]
  have long: "53 < bit_len p"
  proof (rule ccontr)
    assume "\<not> 53 < bit_len p"
    then have "(2 :: nat) ^ bit_len p \<le> 2 ^ 53" by (intro power_increasing) auto
    then show False using b False by linarith
  qed
  define s where "s = bit_len p - 53"
  define q where "q = p div 2 ^ s"
  define r where "r = p mod 2 ^ s"
  have p_split: "p = q * 2 ^ s + r" unfolding q_def r_def by (rule div_mult_mod_eq [symmetric])
  have "bit_len p - 1 = 52 + s" using long by (simp add: s_def)
  then have big: "2 ^ 52 * 2 ^ s \<le> p" using b by (simp add: power_add)
  have "2 * (round53 p) \<le> 2 * p + 2 ^ s"
  proof (cases "2 ^ s < 2 * r \<or> 2 ^ s = 2 * r \<and> odd q")
    case True
    then have "round53 p = (q + 1) * 2 ^ s" using False by (simp add: round53_def Let_def s_def [symmetric] q_def [symmetric] r_def [symmetric])
    moreover have "2 ^ s \<le> 2 * r" using True by auto
    ultimately show ?thesis using p_split by simp
  next
    case False': False
    then have "round53 p = q * 2 ^ s" using False by (simp only: round53_def Let_def s_def [symmetric] q_def [symmetric] r_def [symmetric] if_False)
    then show ?thesis using p_split by simp
  qed
  then have "2 * (round53 p) * 2 ^ 52 \<le> 2 * p * 2 ^ 52 + 2 ^ s * 2 ^ 52" by (metis add_mult_distrib mult_le_mono1)
  then show ?thesis using big by (simp add: ac_simps)
qed (simp add: round53_def)

lemma round53_small: "n < 2 ^ 53 \<Longrightarrow> round53 n = n"
  by (simp add: round53_def)

text \<open>A share of \<open>c\<close> twentieths that is at most a little above its decimal value is at most that many twentieths.\<close>

lemma times_share_le:
  assumes "0 \<le> n" "n \<le> 2 ^ 30" "20 * m * (2 ^ 53 + 1) * 2 ^ 30 < (c * 2 ^ 30 + 1) * (2 ^ k * 2 ^ 53 :: nat)"
  shows "20 * times_share n (m, k) \<le> n * int c"
proof -
  define N where "N = nat n"
  have N: "N \<le> 2 ^ 30" "int N = n" using assms(1,2) by (auto simp: N_def nat_le_iff)
  define R where "R = round53 (N * m)"
  define a where "a = R div 2 ^ k"
  have a: "times_share n (m, k) = int a"
    using N(1) by (simp add: times_share_def round53_small N_def [symmetric] R_def a_def)
  have "a * 2 ^ k \<le> R" by (simp add: a_def)
  then have "a * 2 ^ k * 2 ^ 53 \<le> N * m * (2 ^ 53 + 1)"
  proof -
    have "a * 2 ^ k * 2 ^ 53 \<le> R * 2 ^ 53" using \<open>a * 2 ^ k \<le> R\<close> by (rule mult_le_mono1)
    also have "\<dots> \<le> N * m * 2 ^ 53 + N * m" unfolding R_def by (rule round53_le)
    finally show ?thesis by (simp only: distrib_left mult_1_right)
  qed
  then have le: "20 * a * (2 ^ k * 2 ^ 53) * 2 ^ 30 \<le> N * (20 * m * (2 ^ 53 + 1) * 2 ^ 30)"
    by (simp add: algebra_simps)
  show ?thesis
  proof (cases "N = 0")
    case True
    then have "n = 0" using N(2) by simp
    then show ?thesis by (simp add: times_share_def round53_def)
  next
    case False
    have "N * (20 * m * (2 ^ 53 + 1) * 2 ^ 30) < N * ((c * 2 ^ 30 + 1) * (2 ^ k * 2 ^ 53))"
      using False assms(3) by (intro mult_strict_left_mono) auto
    also have "\<dots> \<le> (N * c + 1) * 2 ^ 30 * (2 ^ k * 2 ^ 53)"
    proof -
      have "N * (c * 2 ^ 30 + 1) \<le> (N * c + 1) * 2 ^ 30" using N(1) by (simp add: algebra_simps)
      then have "N * (c * 2 ^ 30 + 1) * (2 ^ k * 2 ^ 53) \<le> (N * c + 1) * 2 ^ 30 * (2 ^ k * 2 ^ 53)" by (rule mult_le_mono1)
      then show ?thesis by (simp only: mult.assoc)
    qed
    finally have "20 * a * (2 ^ k * 2 ^ 53) * 2 ^ 30 < (N * c + 1) * 2 ^ 30 * (2 ^ k * 2 ^ 53)" using le by linarith
    then have "(20 * a) * (2 ^ 30 * (2 ^ k * 2 ^ 53)) < (N * c + 1) * (2 ^ 30 * (2 ^ k * 2 ^ 53))" by (simp only: ac_simps)
    then have "20 * a < N * c + 1" by (metis mult_less_cancel2)
    then have "20 * a \<le> N * c" by simp
    then have "int (20 * a) \<le> int (N * c)" by (simp only: of_nat_le_iff)
    then show ?thesis using a N(2) by simp
  qed
qed

section \<open>The accounting of a bundle\<close>

lemma join_snoc: "kept \<noteq> [] \<Longrightarrow> join_with sep (kept @ [e]) = join_with sep kept @ sep @ e"
proof (induction kept)
  case (Cons a kept)
  then show ?case by (cases "kept = []") (simp_all add: join_with_Cons)
qed simp

lemma fitting_facts:
  "used = int (length (join_with sep kept)) \<Longrightarrow> used \<le> allowance \<Longrightarrow>
   (\<exists>n. n \<le> length entries \<and> fitting sep allowance used kept entries = kept @ take n entries)
   \<and> int (length (join_with sep (fitting sep allowance used kept entries))) \<le> allowance"
proof (induction sep allowance used kept entries rule: fitting.induct)
  case (2 sep allowance used kept entry entries)
  define cost where "cost = int (length entry) + (if kept = [] then 0 else int (length sep))"
  show ?case
  proof (cases "allowance < used + cost")
    case True
    then show ?thesis using 2(2,3) by (auto simp: cost_def [symmetric] Let_def intro!: exI [of _ 0])
  next
    case False
    have "used + cost = int (length (join_with sep (kept @ [entry])))"
      using 2(2) by (cases "kept = []") (simp_all add: cost_def join_snoc)
    then obtain n where n: "n \<le> length entries" "fitting sep allowance (used + cost) (kept
      @ [entry]) entries = kept @ entry # take n entries"
      "int (length (join_with sep (fitting sep allowance (used + cost) (kept @ [entry]) entries))) \<le> allowance"
      using 2(1) [OF cost_def False] False by auto
    then show ?thesis using False by (auto simp: cost_def [symmetric] Let_def intro!: exI [of _ "Suc n"])
  qed
qed auto

lemma fitEntries_facts:
  assumes "0 \<le> allowance"
  shows "int (length (fst (fitEntries d allowance))) \<le> allowance" "snd (fitEntries d allowance) \<le> length (sd_entries d)"
    "fst (fitEntries d allowance) = join_with (separator_of d) (take (snd (fitEntries d allowance)) (sd_entries d))"
proof -
  obtain n where n: "n \<le> length (sd_entries d)" "fitting (separator_of d) allowance 0 [] (sd_entries d) = take n (sd_entries d)"
    "int (length (join_with (separator_of d) (fitting (separator_of d) allowance 0 [] (sd_entries d)))) \<le> allowance"
    using fitting_facts [of 0 "separator_of d" "[]" allowance "sd_entries d"] assms by auto
  show "int (length (fst (fitEntries d allowance))) \<le> allowance" "snd (fitEntries d allowance) \<le> length (sd_entries d)"
    "fst (fitEntries d allowance) = join_with (separator_of d) (take (snd (fitEntries d allowance)) (sd_entries d))"
    using assms n by (auto simp: fitEntries_def Let_def sd_join_def min_def)
qed

definition shares_of :: "int \<Rightarrow> sectionShare list \<Rightarrow> int" where
  "shares_of budget shares = sum_list (map (\<lambda>s. times_share budget (sh_share s)) shares)"

text \<open>A section counts its entries right and prints whole ones, from the first on.\<close>

definition section_honest :: "(string \<Rightarrow> sectionData) \<Rightarrow> ContextSection \<Rightarrow> bool" where
  "section_honest gathered s \<longleftrightarrow>
     (let d = gathered (cs_Name s) in
      cs_Candidates s = length (sd_entries d) \<and> cs_Included s \<le> cs_Candidates s \<and>
      cs_Body s = join_with (separator_of d) (take (cs_Included s) (sd_entries d)) \<and>
      (cs_Included s < cs_Candidates s \<longrightarrow> cs_Note s = trim_space (trim_space (sd_note d
        @ cut_note (cs_Candidates s) (cs_Included s)))))"

lemma allocate_facts:
  assumes "0 \<le> spare"
  shows "map cs_Name (allocate_from budget spare shares gathered) = map sh_name shares \<and>
    (\<forall>s \<in> set (allocate_from budget spare shares gathered). section_honest gathered s) \<and>
    int (sum_list (map (\<lambda>s. length (cs_Body s)) (allocate_from budget spare shares gathered))) \<le> shares_of budget shares + spare"
  using assms
proof (induction shares arbitrary: spare)
  case Nil
  then show ?case by (simp add: shares_of_def)
next
  case (Cons share shares)
  define d where "d = gathered (sh_name share)"
  define allowance where "allowance = times_share budget (sh_share share) + spare"
  obtain body included where fit: "fitEntries d allowance = (body, included)" by (cases "fitEntries d allowance")
  have allowance: "0 \<le> allowance" using Cons.prems by (simp add: allowance_def times_share_def split: prod.splits)
  note f = fitEntries_facts [OF allowance, of d, unfolded fit fst_conv snd_conv]
  define left where "left = max 0 (allowance - int (length body))"
  have left: "left = allowance - int (length body)" "0 \<le> left" using f(1) by (simp_all add: left_def)
  define count where "count = length (sd_entries d)"
  have step: "allocate_from budget spare (share # shares) gathered =
      \<lparr>cs_Name = sh_name share, cs_Title = sh_title share, cs_Candidates = count, cs_Included = included,
        cs_Body = body,
        cs_Note = trim_space (if included < count then trim_space (sd_note d
          @ cut_note count included) else sd_note d)\<rparr>
      # allocate_from budget left shares gathered"
    unfolding allocate_from.simps Let_def d_def [symmetric] allowance_def [symmetric] fit prod.case left_def count_def ..
  have honest: "section_honest gathered \<lparr>cs_Name = sh_name share, cs_Title = sh_title share,
    cs_Candidates = count, cs_Included = included,
      cs_Body = body, cs_Note = trim_space (if included < count then trim_space (sd_note d
        @ cut_note count included) else sd_note d)\<rparr>"
    using f(2,3) by (simp add: section_honest_def Let_def d_def [symmetric] count_def)
  show ?case unfolding step using Cons.IH [OF left(2)] honest left(1) by (simp add: shares_of_def allowance_def)
qed

lemma shares_within:
  assumes "0 \<le> budget" "budget \<le> 2 ^ 30"
  shows "shares_of budget budgetShare \<le> budget" "shares_of budget packShare \<le> budget"
proof -
  note le = times_share_le [OF assms]
  have "20 * times_share budget (3152519739159347, 53) \<le> budget * int 7" "20 * times_share budget (3602879701896397,
    54) \<le> budget * int 4"
    "20 * times_share budget (5404319552844595, 55) \<le> budget * int 3" "20 * times_share budget (3602879701896397,
      55) \<le> budget * int 2"
    "20 * times_share budget (1, 2) \<le> budget * int 5" "20 * times_share budget (5404319552844595,
      53) \<le> budget * int 12"
    by (rule le, simp)+
  then show "shares_of budget budgetShare \<le> budget" "shares_of budget packShare \<le> budget"
    by (simp_all add: shares_of_def budgetShare_def packShare_def)
qed

text \<open>
  C28: a bundle spends no more than its budget and accounts for all it left out. For every budget
  up to a gibibyte, the bodies of all sections together fit the budget, for the change planner
  as for the context packs, although unused room is handed on; the sections are the planned
  ones in their order; and each counts its candidates, prints a leading part of them whole, and
  says how many it dropped if it dropped any.
\<close>

theorem bundle_within_budget:
  assumes "shares = budgetShare \<or> shares = packShare" "0 \<le> budget" "budget \<le> 2 ^ 30"
  shows "int (sum_list (map (\<lambda>s. length (cs_Body s)) (allocateShares budget shares gathered))) \<le> budget \<and>
    map cs_Name (allocateShares budget shares gathered) = map sh_name shares \<and>
    (\<forall>s \<in> set (allocateShares budget shares gathered). section_honest gathered s)"
proof -
  have "shares_of budget shares \<le> budget" using shares_within [OF assms(2,3)] assms(1) by blast
  then show ?thesis using allocate_facts [of 0 budget shares gathered] unfolding allocateShares_def by simp
qed

lemma bundle_within_budget_witness:
  "int (sum_list (map (\<lambda>s. length (cs_Body s)) (allocateShares 4000 budgetShare (\<lambda>_. entries_with [''a'',
    ''b''] [])))) \<le> 4000"
  using bundle_within_budget [of budgetShare 4000 "\<lambda>_. entries_with [''a'', ''b''] []"] by simp

section \<open>A restricted key and a pack\<close>

text \<open>The tables as a restricted key would see them if the other members were not in the pack.\<close>

definition permitted_tables :: "string list \<Rightarrow> pack_tables \<Rightarrow> pack_tables" where
  "permitted_tables allowed t = t\<lparr>
     pt_items := map_option (filter (\<lambda>i. permitted allowed (pi_libraryID i))) (pt_items t),
     pt_entrypoints := map_option (filter (\<lambda>p. pe_libraryID p = [] \<or> permitted allowed (pe_libraryID p))) (pt_entrypoints t)\<rparr>"

lemma sort_filter: "sort_key k (filter P xs) = filter P (sort_key k xs)"
  by (rule filter_sort [symmetric])

lemma permitted_rows:
  "packItems (permitted_tables allowed t) i = map_option (filter (\<lambda>i. permitted allowed (pi_libraryID i))) (packItems t i)"
  "packEntrypoints (permitted_tables allowed t) i
     = map_option (filter (\<lambda>p. pe_libraryID p = [] \<or> permitted allowed (pe_libraryID p))) (packEntrypoints t i)"
  unfolding packItems_def packEntrypoints_def permitted_tables_def
  by (cases "pt_items t", simp_all add: sort_filter conj_commute) (cases "pt_entrypoints t", simp_all add: sort_filter conj_commute)

text \<open>
  To a restricted API key a pack is the pack without the members it may not read. Whatever
  the tables hold, the answer to a key with a list of repositories, its errors and its
  accounting included, is the answer an unrestricted key would get if every member and every
  entrypoint that names another repository were deleted from the pack.
\<close>

theorem restricted_pack_is_smaller_pack:
  assumes "allowed \<noteq> []"
  shows "ContextPackFor so tables p allowed slug query = ContextPack so (permitted_tables allowed tables) p slug query"
proof -
  have packs: "pt_packs (permitted_tables allowed tables) = pt_packs tables" by (simp add: permitted_tables_def)
  have pick: "(case packItems tables i of None \<Rightarrow> Inl PackQueryFailed
      | Some items \<Rightarrow> (case packEntrypoints tables i of None \<Rightarrow> Inl PackQueryFailed
         | Some entrypoints \<Rightarrow> (let (items', entrypoints') = restrictPack items entrypoints allowed
             in assembled_pack so p row items' entrypoints' q)))
    = (case packItems (permitted_tables allowed tables) i of None \<Rightarrow> Inl PackQueryFailed
      | Some items \<Rightarrow> (case packEntrypoints (permitted_tables allowed tables) i of None \<Rightarrow> Inl PackQueryFailed
         | Some entrypoints \<Rightarrow> (let (items', entrypoints') = restrictPack items entrypoints []
             in assembled_pack so p row items' entrypoints' q)))" for i row q
    using assms unfolding permitted_rows
    by (cases "packItems tables i"; cases "packEntrypoints tables i") (simp_all add: restrictPack_def)
  show ?thesis unfolding ContextPack_def ContextPackFor_def Let_def packs pick [unfolded Let_def] ..
qed

section \<open>Corners\<close>

text \<open>
  A demonstration: the symbol \<open>Abc\<close> twice and a test file, all in a repository \<open>/p/s\<close> that the
  key, restricted to \<open>/p/r\<close>, may not open, although its owner may.
\<close>

definition demo_abc :: "string \<Rightarrow> symbol_row" where
  "demo_abc path = \<lparr>sy_repo = ''2'', sy_ref = ''m'', sy_commit = ''c'', sy_path = path, sy_name = ''Abc'',
     sy_qualified = ''Abc'', sy_kind = ''k'', sy_language = ''go'', sy_signature = [], sy_documentation = [],
     sy_start = 1, sy_end = 2, sy_hash = ''h''\<rparr>"

definition demo_secret :: catalog where
  "demo_secret = demo_files\<lparr>c_symbols := [demo_abc ''a'', demo_abc ''b''],
     c_files := [\<lparr>fl_repo = ''2'', fl_ref = ''m'', fl_path = ''x_test.go'', fl_base = ''x_test.go'',
       fl_commit = ''c'', fl_size = 3, fl_indexed = 1\<rparr>]\<rparr>"

definition demo_sources :: sources where
  "demo_sources = \<lparr>so_engine = demo_engine, so_brackets = (\<lambda>_. None), so_servers = demo_servers,
    so_faults = (\<lambda>_. False),
     so_catalog = demo_secret, so_history = (\<lambda>_ _ _ _. Inl []), so_query = (\<lambda>_ _ _. None),
       so_error = (\<lambda>_. []),
     so_ages = None, so_now = 0\<rparr>"

text \<open>
  When every candidate is filtered out for a restricted key, the planner goes on with no target
  at all, and its search for tests then covers every repository the owner of the key may read.
\<close>

lemma no_target_goes_on:
  assumes "resolveTarget so p query library ref = Inr (no_symbol,
    candidates)" "p \<noteq> []" "trim_space query \<noteq> []" "allowed \<noteq> []"
    "\<forall>s \<in> set candidates. \<not> LibraryAllowed (sr_LibraryID s) allowed" "4000 \<le> budget"
  shows "BuildChangeContext so p allowed query library ref budget = Inr (change_bundle so p allowed no_symbol budget)"
proof -
  have "filter (\<lambda>s. LibraryAllowed (sr_LibraryID s) allowed) candidates = []" using assms(5) by (simp add: filter_empty_conv)
  moreover have "sr_LibraryID no_symbol = []" by (simp add: no_symbol_def)
  ultimately show ?thesis using assms unfolding BuildChangeContext_def by simp
qed

lemma demo_abc_id: "candidateIdentifiers ''Abc'' = [''Abc'']"
  by (simp add: candidateIdentifiers_def first_occurrences_def identifierPattern_def regexp_eval_all name_start_def name_part_def
      questionWords_def to_lower_def lower_char_def)

lemma demo_found: "find_symbols demo_sources [''u''] [] [] ''Abc'' 20 = Inr (map (symbol_result (c_repos demo_files ! 1)) [demo_abc ''a'', demo_abc ''b''])"
  by (simp add: find_symbols_def demo_sources_def FindSymbols_def trim_space_visible visible_def symbol_hits_def demo_secret_def
      demo_eval demo_abc_def symbol_matches_def like_def symbol_rank_def symbol_result_def to_lower_def)

lemma demo_resolved: "\<exists>cs. resolveTarget demo_sources [''u''] ''Abc'' [] [] = Inr (no_symbol, cs) \<and> (\<forall>s \<in> set cs. sr_LibraryID s = ''/p/s'')"
  unfolding resolveTarget_def demo_abc_id Let_def
  by (simp add: demo_found choose_target_def symbol_result_def demo_abc_def demo_files_def)

lemma demo_globs:
  "match_path (newPathMatcher (\<lambda>_. None) ''.*'') ''x_test.go'' = None" "match_path (newPathMatcher (\<lambda>_. None) ''*'') ''x_test.go'' = Some 90"
  by (simp_all add: glob_eval regexp_eval suffix_def)

lemma demo_search:
  assumes "trim_space pattern = pattern" "pattern \<noteq> []"
  shows "\<exists>r. FindFiles demo_engine (\<lambda>_. None) demo_servers (\<lambda>_. False) demo_secret [''u''] pattern [] [] [] [] [] 100 = Inr r \<and>
    map (\<lambda>f. (fr_LibraryID f, fr_Path f)) (fs_Files r) =
      (if match_path (newPathMatcher (\<lambda>_. None) pattern) ''x_test.go'' = None then [] else [(''/p/s'', ''x_test.go'')])"
proof -
  define m where "m = newPathMatcher (\<lambda>_. None) pattern"
  have scope: "file_scope demo_engine (library_base []) [] [] [] = (\<lambda>r. True)" by (rule ext) (simp add: file_scope_def library_base_def)
  define stored where "stored = stored_files demo_engine demo_secret [''u''] (sqlLike m) (\<lambda>r. True) []"
  have "map (\<lambda>f. (fr_LibraryID f, fr_Path f)) stored = [(''/p/s'', ''x_test.go'')]"
    by (simp add: stored_def stored_files_def demo_secret_def demo_eval ref_wanted_def stored_file_def)
  then obtain f where f: "stored = [f]" "fr_LibraryID f = ''/p/s''" "fr_Path f = ''x_test.go''" by auto
  define files where "files = fs_Files (found_files demo_engine demo_servers (\<lambda>_. False) demo_secret [''u''] m pattern (\<lambda>r. True) [] 100)"
  have files: "files = take 100 (sort_key file_order (scored m stored))"
    unfolding files_def found_files_def Let_def stored_def [symmetric] remoteFileListings_def by (simp add: demo_servers_def)
  have "map (\<lambda>f. (fr_LibraryID f, fr_Path f)) files = (if match_path m ''x_test.go'' = None then [] else [(''/p/s'', ''x_test.go'')])"
    unfolding files by (cases "match_path m ''x_test.go''") (simp_all add: scored_def List.map_filter_def f)
  then show ?thesis using assms by (simp add: FindFiles_def Let_def scope library_ref_def within_or_def m_def [symmetric] files_def)
qed

lemma demo_tests: "sd_entries (gatherTests demo_sources [''u''] no_symbol) = [''- `/p/s` x_test.go'']"
proof -
  define search where "search = (\<lambda>p. FindFiles demo_engine (\<lambda>_. None) demo_servers (\<lambda>_. False) demo_secret [''u''] p [] [] [] [] [] 100)"
  obtain r1 where r1: "search ''.*'' = Inr r1" "fs_Files r1 = []"
    using demo_search [of "''.*''"] demo_globs by (auto simp: search_def trim_space_visible visible_def)
  obtain r2 f where r2: "search ''*'' = Inr r2" "fs_Files r2 = [f]" "fr_LibraryID f = ''/p/s''" "fr_Path f = ''x_test.go''"
    using demo_search [of "''*''"] demo_globs by (auto simp: search_def trim_space_visible visible_def)
  have "looksLikeTest ''x_test.go''"
    by (simp add: looksLikeTest_def Let_def to_lower_def lower_char_def contains_str_def path_Base_def after_last_slash_def trim_right_def)
  then have "test_patterns search [] [] [''.*'', ''*'', ''*''] = [''- `/p/s` x_test.go'']" by (simp add: r1 r2)
  moreover have "trim_suffix (path_Base []) (path_Ext []) = ''.''" "path_Join (path_Dir []) ''*'' = ''*''"
    by (simp_all add: path_Base_def path_Ext_def trim_suffix_def path_Join_def path_Dir_def path_Clean_def clean_step_def after_last_slash_def Let_def)
  ultimately show ?thesis
    by (simp add: gatherTests_def Let_def no_symbol_def demo_sources_def search_def [symmetric] entries_with_def)
qed

lemma restricted_key_sees_tests:
  "\<exists>b. BuildChangeContext demo_sources [''u''] [''/p/r''] ''Abc'' [] [] 4000 = Inr b \<and>
     cb_Sections b = allocate 4000 (gathered_change demo_sources [''u''] [''/p/r''] no_symbol) \<and>
     sd_entries (gathered_change demo_sources [''u''] [''/p/r''] no_symbol ''tests'') = [''- `/p/s` x_test.go''] \<and>
     \<not> LibraryAllowed ''/p/s'' [''/p/r'']"
proof -
  obtain cs where cs: "resolveTarget demo_sources [''u''] ''Abc'' [] [] = Inr (no_symbol, cs)" "\<forall>s \<in> set cs. sr_LibraryID s = ''/p/s''"
    using demo_resolved by blast
  have no: "\<not> LibraryAllowed ''/p/s'' [''/p/r'']" by (simp add: LibraryAllowed_def to_lower_def lower_char_def trim_prefix_def)
  have "BuildChangeContext demo_sources [''u''] [''/p/r''] ''Abc'' [] [] 4000 = Inr (change_bundle demo_sources [''u''] [''/p/r''] no_symbol 4000)"
    using no_target_goes_on [OF cs(1)] cs(2) no by (simp add: trim_space_visible visible_def)
  then show ?thesis using no demo_tests by (simp add: change_bundle_def Let_def gathered_change_def)
qed

text \<open>An entrypoint that names no library is looked up in every repository, whatever the key allows.\<close>

lemma open_entrypoint_leaks:
  "\<exists>s. entrypoint_found demo_sources [''u''] \<lparr>pe_pack = ''1'', pe_position = 0, pe_symbol = ''Abc'', pe_libraryID = []\<rparr> = Some s
     \<and> sr_LibraryID s = ''/p/s'' \<and> \<not> LibraryAllowed (sr_LibraryID s) [''/p/r'']
     \<and> snd (restrictPack [] [\<lparr>pe_pack = ''1'', pe_position = 0, pe_symbol = ''Abc'', pe_libraryID = []\<rparr>] [''/p/r''])
       = [\<lparr>pe_pack = ''1'', pe_position = 0, pe_symbol = ''Abc'', pe_libraryID = []\<rparr>]"
proof -
  have "find_symbols demo_sources [''u''] [] [] ''Abc'' 5 = Inr (map (symbol_result (c_repos demo_files ! 1)) [demo_abc ''a'', demo_abc ''b''])"
    by (simp add: find_symbols_def demo_sources_def FindSymbols_def trim_space_visible visible_def symbol_hits_def demo_secret_def
        demo_eval demo_abc_def symbol_matches_def like_def symbol_rank_def symbol_result_def to_lower_def)
  then show ?thesis
    by (simp add: entrypoint_found_def restrictPack_def symbol_result_def demo_files_def LibraryAllowed_def to_lower_def lower_char_def trim_prefix_def)
qed

lemma restricted_pack_is_smaller_pack_witness:
  "ContextPackFor demo_sources \<lparr>pt_packs = None, pt_items = None, pt_entrypoints = None\<rparr> [''u''] [''/p/r''] ''s'' ''q'' =
     ContextPack demo_sources (permitted_tables [''/p/r''] \<lparr>pt_packs = None, pt_items = None, pt_entrypoints = None\<rparr>) [''u''] ''s'' ''q''"
  by (rule restricted_pack_is_smaller_pack) simp

end
