(* ===== verification/RegexpGroups.thy ===== *)
theory RegexpGroups
  imports Regexp
begin

text \<open>
  What the groups of a match hold. The text of group \<open>i\<close> is one that a body of \<^verbatim>\<open>Grp i\<close> in the
  pattern walks over; a pattern in which every way leads through the group always sets it.
\<close>

fun bodies :: "nat \<Rightarrow> rx \<Rightarrow> rx list" where
  "bodies i (Cat a b) = bodies i a @ bodies i b"
| "bodies i (Or a b) = bodies i a @ bodies i b"
| "bodies i (Rep greedy a) = bodies i a"
| "bodies i (Grp j a) = (if i = j then [a] else []) @ bodies i a"
| "bodies i _ = []"

fun mandatory :: "nat \<Rightarrow> rx \<Rightarrow> bool" where
  "mandatory i (Cat a b) \<longleftrightarrow> mandatory i a \<or> mandatory i b"
| "mandatory i (Or a b) \<longleftrightarrow> mandatory i a \<and> mandatory i b"
| "mandatory i (Grp j a) \<longleftrightarrow> i = j \<or> mandatory i a"
| "mandatory i _ \<longleftrightarrow> False"

lemma along_before: "along st st' \<Longrightarrow> \<exists>pre. snd st = pre @ snd st'"
  by (auto simp: along_def)

lemma walks_after: "along st u \<Longrightarrow> walks r (snd u) t \<Longrightarrow> walks r (snd st) t"
  using along_before walks_prefix by metis

lemma run_bodies:
  "(st', g') \<in> set (run r st g) \<Longrightarrow> (i, t) \<in> set g' \<Longrightarrow> (i, t) \<in> set g \<or> (\<exists>a \<in> set (bodies i r). walks a (snd st) t)"
proof (induction r st g arbitrary: st' g' rule: run.induct)
  case (1 P st g)
  then show ?case by (auto split: list.splits if_splits)
next
  case (3 a b st g)
  then obtain u h where u: "(u, h) \<in> set (run a st g)" "(st', g') \<in> set (run b u h)" by auto
  show ?case using 3(1) [OF u(1)] 3(2) [OF u(1) refl u(2) 3(4)] walks_after [OF run_along [OF u(1)]] by fastforce
next
  case (4 a b st g)
  then consider "(st', g') \<in> set (run a st g)" | "(st', g') \<in> set (run b st g)" by auto
  then show ?case
  proof cases
    case 1
    then show ?thesis using 4(1) [OF 1 4(4)] by auto
  next
    case 2
    then show ?thesis using 4(2) [OF 2 4(4)] by auto
  qed
next
  case (5 greedy a st g)
  show ?case
  proof (cases "(st', g') = (st, g)")
    case True
    then show ?thesis using 5(4) by simp
  next
    case False
    then obtain u h where u: "(u, h) \<in> set (run a st g)" "length (snd u) < length (snd st)" "(st', g') \<in> set (run (Rep greedy a) u h)"
      using 5(3) by (subst (asm) run.simps(5)) (auto simp: Let_def split: if_splits)
    have "(i, t) \<in> set h \<or> (\<exists>b \<in> set (bodies i a). walks b (snd u) t)"
      using 5(2) [OF u(1) refl u(2) u(3) 5(4)] by simp
    then show ?thesis using 5(1) [OF u(1)] walks_after [OF run_along [OF u(1)]] by fastforce
  qed
next
  case (6 j a st g)
  then obtain u h where u: "(u, h) \<in> set (run a st g)" "st' = u" "g' = (j, consumed (snd st) (snd u)) # h" by auto
  have here: "walks a (snd st) (consumed (snd st) (snd u))"
    unfolding walks_def using run_moves [of u a st g] u(1) by (metis append_Nil image_eqI fst_conv)
  show ?case
  proof (cases "(i, t) = (j, consumed (snd st) (snd u))")
    case True
    then show ?thesis using here by auto
  next
    case False
    then have "(i, t) \<in> set h" using 6(3) u(3) by auto
    then show ?thesis using 6(1) [OF u(1)] by auto
  qed
qed (auto split: if_splits)

lemma run_mandatory: "(st', g') \<in> set (run r st g) \<Longrightarrow> mandatory i r \<or> i \<in> fst ` set g \<Longrightarrow> i \<in> fst ` set g'"
proof (induction r st g arbitrary: st' g' rule: run.induct)
  case (1 P st g)
  then show ?case by (auto split: list.splits if_splits)
next
  case (3 a b st g)
  then obtain u h where u: "(u, h) \<in> set (run a st g)" "(st', g') \<in> set (run b u h)" by auto
  show ?case using 3(1) [OF u(1)] 3(2) [OF u(1) refl u(2)] 3(4) by fastforce
next
  case (4 a b st g)
  then consider "(st', g') \<in> set (run a st g)" | "(st', g') \<in> set (run b st g)" by auto
  then show ?case
  proof cases
    case 1
    show ?thesis by (rule 4(1) [OF 1]) (use 4(4) in auto)
  next
    case 2
    show ?thesis by (rule 4(2) [OF 2]) (use 4(4) in auto)
  qed
next
  case (5 greedy a st g)
  show ?case
  proof (cases "(st', g') = (st, g)")
    case True
    then show ?thesis using 5(4) by simp
  next
    case False
    then obtain u h where u: "(u, h) \<in> set (run a st g)" "length (snd u) < length (snd st)" "(st', g') \<in> set (run (Rep greedy a) u h)"
      using 5(3) by (subst (asm) run.simps(5)) (auto simp: Let_def split: if_splits)
    then show ?thesis using 5(1) [OF u(1)] 5(2) [OF u(1) refl u(2) u(3)] 5(4) by auto
  qed
next
  case (6 j a st g)
  then obtain u h where u: "(u, h) \<in> set (run a st g)" "st' = u" "g' = (j, consumed (snd st) (snd u)) # h" by auto
  show ?case using 6(1) [OF u(1)] 6(3) u(3) by auto
qed (auto split: if_splits)

lemma find_from_body:
  "find_from r p cs = Some (skipped, m, st) \<Longrightarrow>
     (\<forall>(i, t) \<in> set (m_groups m). \<exists>a \<in> set (bodies i r). walks a cs t) \<and> (mandatory j r \<longrightarrow> j \<in> fst ` set (m_groups m))"
proof (induction r p cs arbitrary: skipped rule: find_from.induct)
  case (1 r p cs)
  show ?case
  proof (cases "run r (p, cs) []")
    case (Cons a as)
    then have a: "a \<in> set (run r (p, cs) [])" by simp
    obtain st' g where [simp]: "a = (st', g)" by (cases a)
    have "m_groups m = g" using 1(2) Cons by (auto simp: find_from.simps)
    then show ?thesis using run_bodies [of st' g r "(p, cs)" "[]"] run_mandatory [of st' g r "(p, cs)" "[]" j] a by fastforce
  next
    case Nil
    then obtain c rest where cs: "cs = c # rest" using 1(2) by (auto simp: find_from.simps split: list.splits)
    then obtain skipped' where s: "find_from r (Some (fst c)) rest = Some (skipped', m, st)"
      using 1(2) Nil by (auto simp: find_from.simps [of r p] split: option.splits)
    show ?thesis using 1(1) [OF Nil cs s] walks_prefix [of _ rest _ "[c]"] cs by fastforce
  qed
qed

lemma pieces_body:
  "(b, m) \<in> set (fst (pieces_from r fresh acc st)) \<Longrightarrow>
     (\<forall>(i, t) \<in> set (m_groups m). \<exists>a \<in> set (bodies i r). walks a (snd st) t) \<and> (mandatory j r \<longrightarrow> j \<in> fst ` set (m_groups m))"
proof (induction r fresh acc st rule: pieces_from.induct)
  case (1 r fresh acc st)
  show ?case
  proof (cases "find_from r (fst st) (snd st)")
    case None
    then show ?thesis using "1.prems" by (simp add: pieces_from.simps [of r])
  next
    case (Some res)
    obtain skipped m' st' where res: "res = (skipped, m', st')" by (cases res)
    note found = Some [unfolded res]
    obtain pre where pre: "snd st = pre @ snd st'" using find_from_walks [OF found] by blast
    note here = find_from_body [OF found, of j]
    show ?thesis
    proof (cases "length (snd st') < length (snd st)")
      case True
      have "m = m' \<or> (b, m) \<in> set (fst (pieces_from r False [] st'))"
        using "1.prems" found True by (subst (asm) pieces_from.simps) (auto split: prod.splits)
      then show ?thesis
      proof
        assume "(b, m) \<in> set (fst (pieces_from r False [] st'))"
        from "1.IH"(1) [OF found refl refl True this] pre walks_prefix [of _ "snd st'" _ pre] show ?thesis by fastforce
      qed (use here in simp)
    next
      case False
      show ?thesis
      proof (cases "snd st")
        case Nil
        then show ?thesis using "1.prems" found False here by (subst (asm) pieces_from.simps) (auto split: if_splits)
      next
        case (Cons c cs)
        have "m = m' \<or> (b, m) \<in> set (fst (pieces_from r True ((if fresh then [] else acc) @ snd c) (Some (fst c), cs)))"
          using "1.prems" found False Cons by (subst (asm) pieces_from.simps) (auto simp: Let_def split: prod.splits if_splits)
        then show ?thesis
        proof
          assume "(b, m) \<in> set (fst (pieces_from r True ((if fresh then [] else acc) @ snd c) (Some (fst c), cs)))"
          from "1.IH"(2) [OF found refl refl False refl refl Cons this] Cons walks_prefix [of _ cs _ "[c]"] show ?thesis by fastforce
        qed (use here in simp)
      qed
    qed
  qed
qed

lemma group_in: "i \<in> fst ` set g \<Longrightarrow> (i, case map_of g i of None \<Rightarrow> [] | Some s \<Rightarrow> s) \<in> set g"
  by (cases "map_of g i") (auto simp: map_of_eq_None_iff dest: map_of_SomeD)

text \<open>The group of a mandatory body of every match, found once or repeatedly.\<close>

lemma group_walked:
  assumes "m \<in> set (find_all r s)" "mandatory i r" "i \<noteq> 0"
  shows "\<exists>a \<in> set (bodies i r). walks a (cells s) (group_of m i)"
proof -
  obtain b where "(b, m) \<in> set (fst (pieces_from r True [] (None, cells s)))" using assms(1) by (auto simp: find_all_def pieces_def)
  from pieces_body [OF this, of i] group_in [of i "m_groups m"] assms(2,3) show ?thesis by (auto simp: group_of_def)
qed

lemma match_walked:
  assumes "find_match r s = Some m" "mandatory i r" "i \<noteq> 0"
  shows "\<exists>a \<in> set (bodies i r). walks a (cells s) (group_of m i)"
proof -
  obtain skipped st where "find_from r None (cells s) = Some (skipped, m, st)" using assms(1) by (auto simp: find_match_def)
  from find_from_body [OF this, of i] group_in [of i "m_groups m"] assms(2,3) show ?thesis by (auto simp: group_of_def)
qed

text \<open>Patterns that cannot walk over nothing.\<close>

fun consuming :: "rx \<Rightarrow> bool" where
  "consuming (Sym P) \<longleftrightarrow> True"
| "consuming (Cat a b) \<longleftrightarrow> consuming a \<or> consuming b"
| "consuming (Or a b) \<longleftrightarrow> consuming a \<and> consuming b"
| "consuming (Grp i a) \<longleftrightarrow> consuming a"
| "consuming _ \<longleftrightarrow> False"

lemma consuming_moves: "(st, st') \<in> moves r \<Longrightarrow> consuming r \<Longrightarrow> length (snd st') < length (snd st)"
proof (induction r arbitrary: st st')
  case (Cat a b)
  then obtain u where u: "(st, u) \<in> moves a" "(u, st') \<in> moves b" by auto
  have "length (snd u) \<le> length (snd st)" "length (snd st') \<le> length (snd u)"
    using along_before [OF moves_along [OF u(1)]] along_before [OF moves_along [OF u(2)]] by auto
  then show ?case using Cat.IH(1) [OF u(1)] Cat.IH(2) [OF u(2)] Cat.prems(2) by fastforce
qed auto

lemma cells_text_ne: "c \<in> set (cells s) \<Longrightarrow> snd c \<noteq> []"
proof (induction s rule: cells.induct)
  case (1 s)
  show ?case
  proof (cases "s = []")
    case False
    obtain r n where rn: "decode_rune s = (r, n)" by (cases "decode_rune s")
    then have "take n s \<noteq> []" using decode_rune_width [OF False] False by simp
    then show ?thesis using 1 False rn by (subst (asm) (2) cells.simps) auto
  qed (use 1(2) in simp)
qed

lemma consuming_walks: "walks r (cells s) t \<Longrightarrow> consuming r \<Longrightarrow> t \<noteq> []"
proof -
  assume "walks r (cells s) t" "consuming r"
  then obtain before st st' where w: "cells s = before @ snd st" "(st, st') \<in> moves r" "t = consumed (snd st) (snd st')"
    by (auto simp: walks_def)
  have "take (length (snd st) - length (snd st')) (snd st) \<noteq> []" using consuming_moves [OF w(2) \<open>consuming r\<close>] by auto
  then obtain c where c: "c \<in> set (take (length (snd st) - length (snd st')) (snd st))" by (meson hd_in_set)
  then have "c \<in> set (cells s)" using w(1) in_set_takeD by fastforce
  then have "snd c \<noteq> []" by (rule cells_text_ne)
  then show "t \<noteq> []" using c w(3) by (auto simp: consumed_def text_of_def)
qed

lemma consuming_seqs [simp]: "consuming (seqs rs) \<longleftrightarrow> list_ex consuming rs"
  by (induction rs rule: seqs.induct) auto

lemma consuming_alts [simp]: "consuming (alts rs) \<longleftrightarrow> list_all consuming rs"
  by (induction rs rule: alts.induct) auto

lemma consuming_some [simp]: "consuming (some r) \<longleftrightarrow> consuming r"
  by (simp add: some_def)

lemma consuming_lit [simp]: "consuming (lit s) \<longleftrightarrow> s \<noteq> []" "consuming (ilit s) \<longleftrightarrow> s \<noteq> []"
  by (cases s; simp add: lit_def ilit_def list_ex_iff)+

lemma mandatory_seqs [simp]: "mandatory i (seqs rs) \<longleftrightarrow> list_ex (mandatory i) rs"
  by (induction rs rule: seqs.induct) auto

lemma bodies_seqs [simp]: "set (bodies i (seqs rs)) = (\<Union>r \<in> set rs. set (bodies i r))"
  by (induction rs rule: seqs.induct) auto

lemma bodies_alts [simp]: "set (bodies i (alts rs)) = (\<Union>r \<in> set rs. set (bodies i r))"
  by (induction rs rule: alts.induct) auto

lemma bodies_shorthands [simp]:
  "set (bodies i (many r)) = set (bodies i r)" "set (bodies i (some r)) = set (bodies i r)" "set (bodies i (maybe r)) = set (bodies i r)"
  "bodies i (lit s) = []" "bodies i (ilit s) = []"
proof -
  have no: "bodies i (seqs (map (\<lambda>c. Sym (P c)) s)) = []" for P
    by (induction s rule: induct_list012) auto
  show "set (bodies i (many r)) = set (bodies i r)" "set (bodies i (some r)) = set (bodies i r)" "set (bodies i (maybe r)) = set (bodies i r)"
    "bodies i (lit s) = []" "bodies i (ilit s) = []"
    by (auto simp: many_def some_def maybe_def lit_def ilit_def no)
qed

lemma bodies_edges [simp]: "bodies i text_start = []" "bodies i text_end = []" "bodies i line_start = []" "bodies i line_end = []"
  "bodies i word_edge = []"
  by (simp_all add: text_start_def text_end_def line_start_def line_end_def word_edge_def)

lemma mandatory_shorthands [simp]: "\<not> mandatory i (many r)" "\<not> mandatory i (maybe r)" "mandatory i (some r) \<longleftrightarrow> mandatory i r"
  by (simp_all add: many_def some_def maybe_def)

lemma walks_first:
  assumes "walks (Cat (Sym (\<lambda>x. x = byte_val c)) r) (cells s) t" "byte_val c < 128"
  shows "prefix [c] t"
proof -
  obtain before st st' where w: "cells s = before @ snd st" "(st, st') \<in> moves (Cat (Sym (\<lambda>x. x = byte_val c)) r)"
    "t = consumed (snd st) (snd st')"
    using assms(1) unfolding walks_def by blast
  obtain u where u: "(st, u) \<in> moves (Sym (\<lambda>x. x = byte_val c))" "(u, st') \<in> moves r" using w(2) by auto
  obtain d where d: "snd st = (byte_val c, d) # snd u" using u(1) by (auto intro: prod.exhaust)
  then have "(byte_val c, d) \<in> set (cells s)" using w(1) by simp
  then have "d = [c]" using cells_ascii_bytes [OF _ assms(2)] by blast
  moreover have "length (snd st') \<le> length (snd u)" using along_before [OF moves_along [OF u(2)]] by auto
  ultimately show ?thesis using w(3) d by (simp add: consumed_def Suc_diff_le)
qed

end
