(* ===== verification/Manifest.thy ===== *)
theory Manifest
  imports RegexpGroups Globs
begin

text \<open>
  Dependency manifests: \<^verbatim>\<open>internal/manifest/manifest.go\<close>, every ecosystem it reads, its patterns as syntax
  trees of \<open>Regexp\<close>. The decoder of JSON is an argument, and so is the order in which a map of Go is
  walked, which is that of the decoded lists. The lemmas say what a parsed package may look like
  and that an array of TOML is read back item by item.
\<close>

section \<open>Packages\<close>

record package =
  pkg_Ecosystem :: string
  pkg_Name :: string
  pkg_Version :: string
  pkg_Scope :: string

definition mk_package :: "string \<Rightarrow> string \<Rightarrow> string \<Rightarrow> string \<Rightarrow> package" where
  "mk_package ecosystem name version scope =
     \<lparr>pkg_Ecosystem = ecosystem, pkg_Name = name, pkg_Version = version, pkg_Scope = scope\<rparr>"

section \<open>Which file is a manifest\<close>

text \<open>\<^verbatim>\<open>strings.FieldsFunc\<close> of ASCII separators, \<^verbatim>\<open>strings.CutSuffix\<close> and \<^verbatim>\<open>strings.CutPrefix\<close>.\<close>

fun split_by :: "(char \<Rightarrow> bool) \<Rightarrow> string \<Rightarrow> string list" where
  "split_by P [] = [[]]"
| "split_by P (c # cs) = (if P c then [] # split_by P cs else (case split_by P cs of [] \<Rightarrow> [[c]] | w # ws \<Rightarrow> (c # w) # ws))"

definition fields_func :: "(char \<Rightarrow> bool) \<Rightarrow> string \<Rightarrow> string list" where
  "fields_func P s = filter (\<lambda>w. w \<noteq> []) (split_by P s)"

definition cut_suffix :: "string \<Rightarrow> string \<Rightarrow> string option" where
  "cut_suffix s x = (if has_suffix s x then Some (take (length s - length x) s) else None)"

definition cut_prefix :: "string \<Rightarrow> string \<Rightarrow> string option" where
  "cut_prefix s x = (if has_prefix s x then Some (drop (length x) s) else None)"

fun part_scope :: "string list \<Rightarrow> string" where
  "part_scope [] = ''direct''"
| "part_scope (p # ps) =
     (if p \<in> {''test'', ''tests'', ''testing''} then ''test''
      else if p \<in> {''dev'', ''develop'', ''development'', ''local''} then ''dev''
      else part_scope ps)"

definition requirementsScope :: "string \<Rightarrow> string" where
  "requirementsScope stem = part_scope (fields_func (\<lambda>c. c \<in> set ''-_.'') stem)"

definition requirementsFile :: "string \<Rightarrow> string option" where
  "requirementsFile filePath =
     (let base = to_lower (path_Base filePath) in
      case (case cut_suffix base ''.txt'' of Some stem \<Rightarrow> Some stem | None \<Rightarrow> cut_suffix base ''.in'') of
        None \<Rightarrow> None
      | Some stem \<Rightarrow>
          (if stem = ''requirements'' \<or> has_prefix stem ''requirements-'' \<or> has_prefix stem ''requirements_''
              \<or> has_prefix stem ''requirements.'' \<or> has_suffix stem ''-requirements'' \<or> has_suffix stem ''_requirements''
              \<or> to_lower (path_Base (path_Dir filePath)) = ''requirements''
           then Some (requirementsScope stem) else None))"

definition Recognize :: "string \<Rightarrow> string option" where
  "Recognize filePath =
     (let base = to_lower (path_Base filePath) in
      if base = ''go.mod'' then Some ''go''
      else if base = ''package.json'' then Some ''npm''
      else if base = ''pom.xml'' then Some ''maven''
      else if base = ''build.gradle'' \<or> base = ''build.gradle.kts'' then Some ''gradle''
      else if base = ''pyproject.toml'' then Some ''pypi''
      else if base = ''cargo.toml'' then Some ''cargo''
      else if requirementsFile filePath \<noteq> None then Some ''pypi''
      else None)"

definition MaxManifestBytes :: nat where "MaxManifestBytes = 1048576"

section \<open>go.mod\<close>

definition goRequireLine :: rx where
  "goRequireLine = seqs [text_start, many (Sym space_rune),
     Grp 1 (seqs [some (Sym (\<lambda>x. \<not> (space_rune x \<or> among ''/'' x))), many (seqs [lit ''/'',
     some (Sym (\<lambda>x. \<not> space_rune x))])]), some (Sym space_rune), Grp 2 (seqs [lit ''v'',
     some (Sym (\<lambda>x. \<not> space_rune x))]), Grp 3 (many (Sym (\<lambda>x. x \<noteq> 10))), text_end]"

definition go_package :: "string \<Rightarrow> package list" where
  "go_package line =
     (case find_match goRequireLine line of
        None \<Rightarrow> []
      | Some m \<Rightarrow> [mk_package ''go'' (group_of m 1) (group_of m 2)
          (if contains_str (group_of m 3) ''indirect'' then ''transitive'' else ''direct'')])"

fun go_lines :: "bool \<Rightarrow> string list \<Rightarrow> package list" where
  "go_lines inBlock [] = []"
| "go_lines inBlock (raw # raws) =
     (let line = trim_space raw in
      if line = [] \<or> has_prefix line ''//'' then go_lines inBlock raws
      else if has_prefix line ''require ('' then go_lines True raws
      else if inBlock \<and> line = '')'' then go_lines False raws
      else if has_prefix line ''require '' then go_package (trim_space (trim_prefix line ''require '')) @ go_lines inBlock raws
      else if \<not> inBlock then go_lines inBlock raws
      else go_package line @ go_lines inBlock raws)"

definition parseGoMod :: "string \<Rightarrow> package list" where
  "parseGoMod content = go_lines False (split_on (CHR 0x0A) content)"

section \<open>package.json\<close>

text \<open>The four maps of the document, decoded.\<close>

record package_json =
  pj_Dependencies :: "(string \<times> string) list"
  pj_DevDependencies :: "(string \<times> string) list"
  pj_PeerDependencies :: "(string \<times> string) list"
  pj_OptionalDependencies :: "(string \<times> string) list"

definition npm_packages :: "string \<Rightarrow> (string \<times> string) list \<Rightarrow> package list" where
  "npm_packages scope = map (\<lambda>(name, version). mk_package ''npm'' name version scope)"

definition parsePackageJSON :: "(string \<Rightarrow> package_json option) \<Rightarrow> string \<Rightarrow> package list" where
  "parsePackageJSON decode content =
     (case decode content of
        None \<Rightarrow> []
      | Some d \<Rightarrow> npm_packages ''direct'' (pj_Dependencies d) @ npm_packages ''dev'' (pj_DevDependencies d)
          @ npm_packages ''peer'' (pj_PeerDependencies d) @ npm_packages ''optional'' (pj_OptionalDependencies d))"

section \<open>pom.xml\<close>

definition pomDependency :: rx where
  "pomDependency = seqs [lit ''<dependency>'', Grp 1 (Rep False (Sym (\<lambda>_. True))), lit ''</dependency>'']"

definition pomField :: rx where
  "pomField = seqs [lit ''<'', Grp 1 (alts [lit ''groupId'', lit ''artifactId'', lit ''version'', lit ''scope'',
     lit ''optional'']), lit ''>'', many (Sym space_rune), Grp 2 (Rep False (Sym (\<lambda>_. True))),
     many (Sym space_rune), lit ''</'']"

definition pomProperty :: rx where
  "pomProperty = seqs [lit ''<properties>'', Grp 1 (Rep False (Sym (\<lambda>_. True))), lit ''</properties>'']"

definition pomPropEntry :: rx where
  "pomPropEntry = seqs [lit ''<'', Grp 1 (some (Sym (\<lambda>x. \<not> (space_rune x \<or> among ''/>'' x)))),
     lit ''>'', many (Sym space_rune), Grp 2 (Rep False (Sym (\<lambda>x. \<not> among ''<'' x))),
     many (Sym space_rune), lit ''</'']"

definition pomVariable :: rx where
  "pomVariable = seqs [lit ''${'', Grp 1 (some (Sym (\<lambda>x. \<not> among ''}'' x))), lit ''}'']"

definition pomExclusions :: rx where
  "pomExclusions = seqs [lit ''<exclusions>'', Rep False (Sym (\<lambda>_. True)), lit ''</exclusions>'']"

text \<open>A later entry of a map replaces an earlier one; a missing one reads as empty.\<close>

definition last_entry :: "(string \<times> string) list \<Rightarrow> string \<Rightarrow> string" where
  "last_entry entries key = (case map_of (rev entries) key of None \<Rightarrow> [] | Some v \<Rightarrow> v)"

definition pom_properties :: "string \<Rightarrow> (string \<times> string) list" where
  "pom_properties content =
     (case find_match pomProperty content of
        None \<Rightarrow> []
      | Some block \<Rightarrow> map (\<lambda>e. (group_of e 1, group_of e 2)) (find_all pomPropEntry (group_of block 1)))"

definition pom_fields :: "string \<Rightarrow> (string \<times> string) list" where
  "pom_fields block = map (\<lambda>f. (group_of f 1, group_of f 2)) (find_all pomField (replace_all pomExclusions (\<lambda>_. []) block))"

definition pom_version :: "(string \<times> string) list \<Rightarrow> string \<Rightarrow> string" where
  "pom_version properties declared =
     (let version = replace_all pomVariable (\<lambda>m. last_entry properties (trim_chars (m_text m) ''${}'')) declared
      in if contains_str version ''${'' then [] else version)"

definition pom_scope :: "(string \<times> string) list \<Rightarrow> string" where
  "pom_scope entries =
     (let scope = to_lower (last_entry entries ''scope'') in
      if to_lower (last_entry entries ''optional'') = ''true'' then ''optional''
      else if scope \<in> {'''', ''compile'', ''runtime'', ''provided'', ''system''} then ''direct'' else scope)"

definition pom_package :: "(string \<times> string) list \<Rightarrow> string \<Rightarrow> package list" where
  "pom_package properties block =
     (let entries = pom_fields block; group' = last_entry entries ''groupId''; artifact = last_entry entries ''artifactId'' in
      if artifact = [] then []
      else [mk_package ''maven'' (if group' \<noteq> [] then group' @ '':'' @ artifact else artifact)
              (pom_version properties (last_entry entries ''version'')) (pom_scope entries)])"

definition parsePOM :: "string \<Rightarrow> package list" where
  "parsePOM content =
     concat (map (\<lambda>block. pom_package (pom_properties content) (group_of block 1)) (find_all pomDependency content))"

section \<open>build.gradle\<close>

definition gradleDependency :: rx where
  "gradleDependency = seqs [line_start, many (Sym space_rune), Grp 1 (alts [lit ''implementation'', lit ''api'',
     lit ''compileOnly'', lit ''runtimeOnly'', lit ''testImplementation'', lit ''testCompileOnly'',
     lit ''annotationProcessor'']), many (Sym space_rune), Sym (\<lambda>x. among ''( '' x), many (Sym space_rune),
     Sym (\<lambda>x. among [CHR 0x27, CHR 0x22] x), Grp 2 (some (Sym (\<lambda>x. \<not> among [CHR 0x27,
     CHR 0x22] x))), Sym (\<lambda>x. among [CHR 0x27, CHR 0x22] x)]"

definition gradle_package :: "rmatch \<Rightarrow> package list" where
  "gradle_package m =
     (case split_on (CHR '':'') (group_of m 2) of
        g # a # rest \<Rightarrow> [mk_package ''gradle'' (g @ '':'' @ a) (case rest of [] \<Rightarrow> [] | v # _ \<Rightarrow> v)
          (if has_prefix (group_of m 1) ''test'' then ''test'' else ''direct'')]
      | _ \<Rightarrow> [])"

definition parseGradle :: "string \<Rightarrow> package list" where
  "parseGradle content = concat (map gradle_package (find_all gradleDependency content))"

section \<open>requirements.txt\<close>

definition requirementLine :: rx where
  "requirementLine = seqs [text_start, many (Sym space_rune),
     Grp 1 (some (Sym (\<lambda>x. alnum_rune x \<or> among ''._-'' x))), many (Sym space_rune),
     maybe (seqs [lit ''['', many (Sym (\<lambda>x. \<not> among '']'' x)), lit '']'']), many (Sym space_rune),
     maybe (Grp 2 (alts [lit ''==='', lit ''=='', lit ''>='', lit ''<='', lit ''~='', lit ''!='', lit ''>'',
     lit ''<''])), many (Sym space_rune),
     maybe (Grp 3 (some (Sym (\<lambda>x. alnum_rune x \<or> among ''._*+!-'' x))))]"

definition requirement_package :: "string \<Rightarrow> string \<Rightarrow> package list" where
  "requirement_package scope line =
     (case find_match requirementLine line of
        None \<Rightarrow> []
      | Some m \<Rightarrow>
          (if group_of m 1 = [] then []
           else if group_of m 3 = [] then [mk_package ''pypi'' (group_of m 1) [] scope]
           else if group_of m 2 = [] then []
           else [mk_package ''pypi'' (group_of m 1) (if group_of m 2 \<noteq> ''!='' then trim_space (group_of m 2 @ group_of m 3) else []) scope]))"

definition requirement_line :: "string \<Rightarrow> string \<Rightarrow> package list" where
  "requirement_line scope raw =
     (let line = trim_space raw in
      if line = [] \<or> has_prefix line ''#'' \<or> has_prefix line ''-'' then []
      else requirement_package scope (case index_str line ''#'' of None \<Rightarrow> line | Some at \<Rightarrow> trim_space (take at line)))"

definition parseRequirements :: "string \<Rightarrow> string \<Rightarrow> package list" where
  "parseRequirements content scope = concat (map (requirement_line scope) (split_on (CHR 0x0A) content))"

section \<open>TOML\<close>

definition tomlSection :: rx where
  "tomlSection = seqs [line_start, many (Sym space_rune), lit ''['',
     Grp 1 (some (Sym (\<lambda>x. \<not> among '']'' x))), lit '']'', many (Sym space_rune), line_end]"

definition tomlEntry :: rx where
  "tomlEntry = seqs [line_start, many (Sym space_rune),
     Grp 1 (some (Sym (\<lambda>x. alnum_rune x \<or> among ''._-'' x))), many (Sym space_rune), lit ''='',
     many (Sym space_rune), Grp 2 (some (Sym (\<lambda>x. x \<noteq> 10))), line_end]"

definition tomlVersion :: rx where
  "tomlVersion = seqs [lit ''version'', many (Sym space_rune), lit ''='', many (Sym space_rune), lit [CHR 0x22],
     Grp 1 (some (Sym (\<lambda>x. \<not> among [CHR 0x22] x))), lit [CHR 0x22]]"

definition tomlArrayKey :: rx where
  "tomlArrayKey = seqs [line_start, many (Sym space_rune),
     Grp 1 (some (Sym (\<lambda>x. alnum_rune x \<or> among ''._-'' x))), many (Sym space_rune), lit ''='',
     many (Sym space_rune), lit ''['']"

record tomlSpan =
  sp_name :: string
  sp_body :: string

text \<open>Each header with the text up to the next one.\<close>

fun toml_spans :: "string \<Rightarrow> (nat \<times> nat \<times> rmatch) list \<Rightarrow> tomlSpan list" where
  "toml_spans content [] = []"
| "toml_spans content ((_, to, m) # rest) =
     (let end' = (case rest of [] \<Rightarrow> length content | (from', _, _) # _ \<Rightarrow> from')
      in \<lparr>sp_name = trim_space (group_of m 1), sp_body = drop to (take end' content)\<rparr> # toml_spans content rest)"

definition tomlSections :: "string \<Rightarrow> tomlSpan list" where
  "tomlSections content = toml_spans content (find_all_index tomlSection content)"

definition toml_quoted :: "string \<Rightarrow> string" where
  "toml_quoted v = trim_chars v [CHR 0x22]"

definition toml_version :: "string \<Rightarrow> string" where
  "toml_version v = (case find_match tomlVersion v of None \<Rightarrow> [] | Some m \<Rightarrow> group_of m 1)"

text \<open>The name of an entry and the version it states.\<close>

definition toml_entry :: "rmatch \<Rightarrow> string \<times> string" where
  "toml_entry m =
     (let key = group_of m 1; v = trim_space (group_of m 2) in
      case index_str key ''.'' of
        Some at \<Rightarrow> (take at key, if drop (at + 1) key = ''version'' \<and> has_prefix v [CHR 0x22] then toml_quoted v else [])
      | None \<Rightarrow> (key, if has_prefix v [CHR 0x22] then toml_quoted v else toml_version v))"

text \<open>A name that comes again gives its version to the first entry if that has none.\<close>

definition add_entry :: "string \<Rightarrow> string \<Rightarrow> package list \<Rightarrow> string \<times> string \<Rightarrow> package list" where
  "add_entry ecosystem scope out = (\<lambda>(name, version).
     if name = [] then out
     else if name \<notin> pkg_Name ` set out then out @ [mk_package ecosystem name version scope]
     else map (\<lambda>p. if pkg_Name p = name \<and> pkg_Version p = [] then p\<lparr>pkg_Version := version\<rparr> else p) out)"

definition tomlTable :: "string \<Rightarrow> string \<Rightarrow> string \<Rightarrow> package list" where
  "tomlTable body ecosystem scope =
     foldl (add_entry ecosystem scope) [] (map toml_entry (find_all tomlEntry body))"

definition toml_span_packages :: "string \<Rightarrow> (string \<Rightarrow> string option) \<Rightarrow> tomlSpan \<Rightarrow> package list" where
  "toml_span_packages ecosystem scopeOf span =
     (case scopeOf (sp_name span) of
        Some scope \<Rightarrow> tomlTable (sp_body span) ecosystem scope
      | None \<Rightarrow>
          (case last_index_str (sp_name span) ''.'' of
             None \<Rightarrow> []
           | Some at \<Rightarrow>
               (case scopeOf (take at (sp_name span)) of
                  None \<Rightarrow> []
                | Some scope \<Rightarrow>
                    (let name = trim_chars (drop (at + 1) (sp_name span)) [CHR 0x22, CHR 0x27] in
                     if name = [] then [] else [mk_package ecosystem name (toml_version (sp_body span)) scope]))))"

definition parseTOMLDependencies :: "string \<Rightarrow> string \<Rightarrow> (string \<Rightarrow> string option) \<Rightarrow> package list" where
  "parseTOMLDependencies content ecosystem scopeOf =
     concat (map (toml_span_packages ecosystem scopeOf) (tomlSections content))"

text \<open>The items of an array: the text read so far, the depth of brackets and the quote that is open.\<close>

function toml_items :: "nat \<Rightarrow> char option \<Rightarrow> string \<Rightarrow> string \<Rightarrow> string list" where
  "toml_items depth quote item [] = [item]"
| "toml_items depth quote item (c # cs) =
     (case quote of
        Some q \<Rightarrow>
          (if c = CHR 0x5C \<and> q = CHR 0x22 \<and> cs \<noteq> [] then toml_items depth quote (item @ [c, hd cs]) (tl cs)
           else toml_items depth (if c = q then None else quote) (item @ [c]) cs)
      | None \<Rightarrow>
          (if c = CHR 0x22 \<or> c = CHR 0x27 then toml_items depth (Some c) (item @ [c]) cs
           else if c = CHR ''#'' then toml_items depth None item (dropWhile (\<lambda>x. x \<noteq> CHR 0x0A) cs)
           else if c = CHR ''['' then toml_items (depth + 1) None (if 0 < depth then item @ [c] else item) cs
           else if c = CHR '']'' then (if depth \<le> 1 then [item] else toml_items (depth - 1) None (item @ [c]) cs)
           else if c = CHR '','' \<and> depth = 1 then item # toml_items depth None [] cs
           else toml_items depth None (item @ [c]) cs))"
  by pat_completeness auto
termination
  by (relation "measure (\<lambda>(depth, quote, item, s). length s)") (auto simp: less_Suc_eq_le length_dropWhile_le)

declare toml_items.simps [simp del]

definition tomlArray :: "string \<Rightarrow> nat \<Rightarrow> string list" where
  "tomlArray body open' = toml_items 0 None [] (drop open' body)"

definition cargoScope :: "string \<Rightarrow> string option" where
  "cargoScope section' =
     (let last' = (case last_index_str section' ''.'' of None \<Rightarrow> section' | Some at \<Rightarrow> drop (at + 1) section') in
      if last' = ''dependencies'' then Some ''direct''
      else if last' = ''dev-dependencies'' \<or> last' = ''build-dependencies'' then Some ''dev''
      else None)"

definition parseCargo :: "string \<Rightarrow> package list" where
  "parseCargo content = parseTOMLDependencies content ''cargo'' cargoScope"

section \<open>pyproject.toml\<close>

definition groupScope :: "string \<Rightarrow> string" where
  "groupScope group' = (if to_lower group' = ''test'' then ''test'' else ''dev'')"

definition pyProjectScope :: "string \<Rightarrow> string option" where
  "pyProjectScope section' =
     (if section' = ''project.dependencies'' \<or> section' = ''tool.poetry.dependencies'' then Some ''direct''
      else if section' = ''tool.poetry.dev-dependencies'' then Some ''dev''
      else case cut_prefix section' ''tool.poetry.group.'' of
        None \<Rightarrow> None
      | Some rest \<Rightarrow>
          (case cut_suffix rest ''.dependencies'' of
             None \<Rightarrow> None
           | Some group' \<Rightarrow> (if contains_str group' ''.'' then None else Some (groupScope group'))))"

definition pyArrayScope :: "string \<Rightarrow> string \<Rightarrow> string option" where
  "pyArrayScope section' key =
     (if section' = ''project'' then (if key = ''dependencies'' then Some ''direct'' else None)
      else if section' = ''project.optional-dependencies'' then Some ''optional''
      else if section' = ''dependency-groups'' \<or> section' = ''tool.pdm.dev-dependencies'' then Some (groupScope key)
      else None)"

definition py_array_packages :: "tomlSpan \<Rightarrow> nat \<times> nat \<times> rmatch \<Rightarrow> package list" where
  "py_array_packages span = (\<lambda>(_, to, key).
     case pyArrayScope (sp_name span) (trim_space (group_of key 1)) of
       None \<Rightarrow> []
     | Some scope \<Rightarrow> concat (map (\<lambda>item.
         let requirement = trim_chars (trim_space item) [CHR 0x22, CHR 0x27] in
         if requirement = [] then [] else parseRequirements requirement scope) (tomlArray (sp_body span) (to - 1))))"

definition parsePyProject :: "string \<Rightarrow> package list" where
  "parsePyProject content =
     filter (\<lambda>p. to_lower (pkg_Name p) \<noteq> ''python'')
       (parseTOMLDependencies content ''pypi'' pyProjectScope
        @ concat (map (\<lambda>span. concat (map (py_array_packages span) (find_all_index tomlArrayKey (sp_body span)))) (tomlSections content)))"

section \<open>Any manifest\<close>

definition Parse :: "(string \<Rightarrow> package_json option) \<Rightarrow> string \<Rightarrow> string \<Rightarrow> package list" where
  "Parse decode filePath content =
     (case Recognize filePath of
        None \<Rightarrow> []
      | Some ecosystem \<Rightarrow>
          (if MaxManifestBytes < length content then []
           else if ecosystem = ''go'' then parseGoMod content
           else if ecosystem = ''npm'' then parsePackageJSON decode content
           else if ecosystem = ''maven'' then parsePOM content
           else if ecosystem = ''gradle'' then parseGradle content
           else if ecosystem = ''pypi'' then
             (case requirementsFile filePath of Some scope \<Rightarrow> parseRequirements content scope | None \<Rightarrow> parsePyProject content)
           else if ecosystem = ''cargo'' then parseCargo content
           else []))"

section \<open>What a parsed package looks like\<close>

lemma go_package_facts:
  assumes "q \<in> set (go_package line)"
  shows "pkg_Ecosystem q = ''go'' \<and> pkg_Name q \<noteq> [] \<and> has_prefix (pkg_Version q) ''v'' \<and> pkg_Scope q \<in> {''direct'', ''transitive''}"
proof -
  obtain m where found: "find_match goRequireLine line = Some m"
    using assms by (cases "find_match goRequireLine line") (simp_all add: go_package_def)
  then have m: "q = mk_package ''go'' (group_of m 1) (group_of m 2)
      (if contains_str (group_of m 3) ''indirect'' then ''transitive'' else ''direct'')"
    using assms by (simp add: go_package_def)
  define name_body where "name_body = seqs [some (Sym (\<lambda>x. \<not> (space_rune x \<or> among ''/'' x))), many (seqs [lit ''/'', some (Sym (\<lambda>x. \<not> space_rune x))])]"
  define version_body where "version_body = seqs [lit ''v'', some (Sym (\<lambda>x. \<not> space_rune x))]"
  have "mandatory 1 goRequireLine" "mandatory 2 goRequireLine" "set (bodies 1 goRequireLine) = {name_body}" "set (bodies 2 goRequireLine) = {version_body}"
    by (simp_all add: goRequireLine_def name_body_def version_body_def)
  then have w: "walks name_body (cells line) (group_of m 1)" "walks version_body (cells line) (group_of m 2)"
    using match_walked [OF found, of 1] match_walked [OF found, of 2] by simp_all
  have "group_of m 1 \<noteq> []" by (rule consuming_walks [OF w(1)]) (simp add: name_body_def)
  moreover have "version_body = Cat (Sym (\<lambda>x. x = byte_val (CHR ''v''))) (some (Sym (\<lambda>x. \<not> space_rune x)))"
    by (simp add: version_body_def lit_def)
  then have "has_prefix (group_of m 2) ''v''" using walks_first [of "CHR ''v''"] w(2) by (simp add: byte_val_def)
  ultimately show ?thesis using m by (simp add: mk_package_def)
qed

lemma go_lines_facts:
  "q \<in> set (go_lines inBlock ls) \<Longrightarrow> pkg_Ecosystem q = ''go'' \<and> pkg_Name q \<noteq> [] \<and> has_prefix (pkg_Version q) ''v''
     \<and> pkg_Scope q \<in> {''direct'', ''transitive''}"
proof (induction ls arbitrary: inBlock)
  case (Cons raw ls)
  have "(\<exists>line. q \<in> set (go_package line)) \<or> (\<exists>b. q \<in> set (go_lines b ls))"
    using Cons.prems unfolding go_lines.simps Let_def by (auto split: if_splits)
  then show ?case using Cons.IH go_package_facts by blast
qed simp

lemma pom_facts:
  "q \<in> set (parsePOM content) \<Longrightarrow> pkg_Ecosystem q = ''maven'' \<and> pkg_Name q \<noteq> [] \<and> \<not> contains_str (pkg_Version q) ''${''"
proof -
  assume "q \<in> set (parsePOM content)"
  then obtain ps block where "q \<in> set (pom_package ps block)" by (auto simp: parsePOM_def)
  moreover have "\<not> contains_str (pom_version ps v) ''${''" for v by (simp add: pom_version_def Let_def contains_str_def)
  ultimately show ?thesis by (auto simp: pom_package_def Let_def mk_package_def split: if_splits)
qed

lemma gradle_facts: "q \<in> set (parseGradle content) \<Longrightarrow> pkg_Ecosystem q = ''gradle'' \<and> pkg_Name q \<noteq> []"
proof -
  assume "q \<in> set (parseGradle content)"
  then obtain m where m: "q \<in> set (gradle_package m)" by (auto simp: parseGradle_def)
  show ?thesis
  proof (cases "split_on (CHR '':'') (group_of m 2)")
    case (Cons g rest)
    then show ?thesis using m by (cases rest) (simp_all add: gradle_package_def mk_package_def)
  qed (use m in \<open>simp add: gradle_package_def\<close>)
qed

lemma requirements_facts: "q \<in> set (parseRequirements content scope) \<Longrightarrow> pkg_Ecosystem q = ''pypi'' \<and> pkg_Name q \<noteq> []"
proof -
  assume "q \<in> set (parseRequirements content scope)"
  then obtain line where "q \<in> set (requirement_package scope line)"
    by (auto simp: parseRequirements_def requirement_line_def Let_def split: if_splits option.splits)
  then show ?thesis
    by (cases "find_match requirementLine line") (auto simp: requirement_package_def mk_package_def split: if_splits)
qed

lemma add_entry_facts:
  "\<forall>q \<in> set out. pkg_Ecosystem q = e \<and> pkg_Name q \<noteq> [] \<Longrightarrow> \<forall>q \<in> set (add_entry e scope out x). pkg_Ecosystem q = e \<and> pkg_Name q \<noteq> []"
  by (auto simp: add_entry_def mk_package_def split: prod.splits)

lemma tomlTable_facts: "\<forall>q \<in> set (tomlTable body e scope). pkg_Ecosystem q = e \<and> pkg_Name q \<noteq> []"
proof -
  have "\<forall>q \<in> set (foldl (add_entry e scope) out es). pkg_Ecosystem q = e \<and> pkg_Name q \<noteq> []"
    if "\<forall>q \<in> set out. pkg_Ecosystem q = e \<and> pkg_Name q \<noteq> []" for out es
    using that
  proof (induction es arbitrary: out)
    case (Cons x es)
    from Cons.IH [OF add_entry_facts [OF Cons.prems]] show ?case by simp
  qed simp
  from this [of "[]"] show ?thesis by (simp add: tomlTable_def)
qed

lemma toml_facts: "q \<in> set (parseTOMLDependencies content e scopeOf) \<Longrightarrow> pkg_Ecosystem q = e \<and> pkg_Name q \<noteq> []"
proof -
  assume "q \<in> set (parseTOMLDependencies content e scopeOf)"
  then obtain span where "q \<in> set (toml_span_packages e scopeOf span)" by (auto simp: parseTOMLDependencies_def)
  then show ?thesis
    using tomlTable_facts by (auto simp: toml_span_packages_def mk_package_def Let_def split: option.splits if_splits)
qed

lemma pyproject_facts: "q \<in> set (parsePyProject content) \<Longrightarrow> pkg_Ecosystem q = ''pypi'' \<and> pkg_Name q \<noteq> []"
proof -
  assume "q \<in> set (parsePyProject content)"
  then consider "q \<in> set (parseTOMLDependencies content ''pypi'' pyProjectScope)"
    | span key where "q \<in> set (py_array_packages span key)" by (auto simp: parsePyProject_def)
  then show ?thesis
  proof cases
    case 1
    then show ?thesis by (rule toml_facts)
  next
    case 2
    then obtain r scope where "q \<in> set (parseRequirements r scope)"
      by (auto simp: py_array_packages_def Let_def split: option.splits if_splits)
    then show ?thesis by (rule requirements_facts)
  qed
qed

text \<open>The dependency objects of a decoded \<^verbatim>\<open>package.json\<close>, each with the scope it stands for.\<close>

definition npm_entries :: "package_json \<Rightarrow> (string \<times> string \<times> string) set" where
  "npm_entries d = {''direct''} \<times> set (pj_Dependencies d) \<union> {''dev''} \<times> set (pj_DevDependencies d)
     \<union> {''peer''} \<times> set (pj_PeerDependencies d) \<union> {''optional''} \<times> set (pj_OptionalDependencies d)"

lemma npm_facts:
  assumes "q \<in> set (parsePackageJSON decode content)"
  shows "pkg_Ecosystem q = ''npm'' \<and>
    (\<exists>d. decode content = Some d \<and> (pkg_Scope q, pkg_Name q, pkg_Version q) \<in> npm_entries d)"
proof (cases "decode content")
  case None
  then show ?thesis using assms by (simp add: parsePackageJSON_def)
next
  case (Some d)
  then show ?thesis using assms by (auto simp: parsePackageJSON_def npm_packages_def mk_package_def npm_entries_def)
qed

lemma gradle_scope: "q \<in> set (parseGradle content) \<Longrightarrow> pkg_Scope q \<in> {''test'', ''direct''}"
proof -
  assume "q \<in> set (parseGradle content)"
  then obtain m where m: "q \<in> set (gradle_package m)" by (auto simp: parseGradle_def)
  show ?thesis
  proof (cases "split_on (CHR '':'') (group_of m 2)")
    case (Cons g rest)
    then show ?thesis using m by (cases rest) (simp_all add: gradle_package_def mk_package_def)
  qed (use m in \<open>simp add: gradle_package_def\<close>)
qed

text \<open>
  C35: what a declared package may look like. Every package read from a manifest carries the
  ecosystem its file name stands for. A package of npm is an entry of the decoded file with the
  scope of its object, and every package outside npm has a name. A Go module states a version
  that begins with v and is direct or transitive, a package of Gradle is direct or for tests,
  and no Maven package claims to run at an unresolved placeholder (a Gradle one may:
  \<open>gradle_placeholder_kept\<close>).
\<close>

theorem declared_packages_wellformed:
  assumes "q \<in> set (Parse decode filePath content)"
  shows "Recognize filePath = Some (pkg_Ecosystem q) \<and>
    (pkg_Ecosystem q = ''npm'' \<longrightarrow>
       (\<exists>d. decode content = Some d \<and> (pkg_Scope q, pkg_Name q, pkg_Version q) \<in> npm_entries d)) \<and>
    (pkg_Ecosystem q \<noteq> ''npm'' \<longrightarrow> pkg_Name q \<noteq> []) \<and>
    (pkg_Ecosystem q = ''go'' \<longrightarrow> has_prefix (pkg_Version q) ''v'' \<and> pkg_Scope q \<in> {''direct'', ''transitive''}) \<and>
    (pkg_Ecosystem q = ''gradle'' \<longrightarrow> pkg_Scope q \<in> {''test'', ''direct''}) \<and>
    (pkg_Ecosystem q = ''maven'' \<longrightarrow> \<not> contains_str (pkg_Version q) ''${'')"
proof (cases "Recognize filePath")
  case None
  then show ?thesis using assms by (simp add: Parse_def)
next
  case (Some e)
  have "q \<in> set (if e = ''go'' then parseGoMod content
           else if e = ''npm'' then parsePackageJSON decode content
           else if e = ''maven'' then parsePOM content
           else if e = ''gradle'' then parseGradle content
           else if e = ''pypi'' then
             (case requirementsFile filePath of Some scope \<Rightarrow> parseRequirements content scope | None \<Rightarrow> parsePyProject content)
           else if e = ''cargo'' then parseCargo content
           else [])"
    using assms unfolding Parse_def Some option.case by (auto split: if_splits)
  then show ?thesis
    using Some go_lines_facts [of q False] npm_facts [of q decode content] pom_facts [of q content] gradle_facts [of q content]
      gradle_scope [of q content] requirements_facts [of q content] pyproject_facts [of q content] toml_facts [of q content "''cargo''" cargoScope]
    by (auto simp: parseGoMod_def parseCargo_def split: if_splits option.splits)
qed

lemma declared_packages_wellformed_witness:
  "\<exists>q. q \<in> set (Parse (\<lambda>_. Some \<lparr>pj_Dependencies = [(''a'', ''1'')], pj_DevDependencies = [], pj_PeerDependencies = [],
     pj_OptionalDependencies = []\<rparr>) ''package.json'' []) \<and> Recognize ''package.json'' = Some (pkg_Ecosystem q)"
proof -
  define d where "d = (\<lambda>_ :: string. Some \<lparr>pj_Dependencies = [(''a'', ''1'')], pj_DevDependencies = [], pj_PeerDependencies = [],
     pj_OptionalDependencies = []\<rparr>)"
  have "mk_package ''npm'' ''a'' ''1'' ''direct'' \<in> set (Parse d ''package.json'' [])"
    by (simp add: Parse_def Recognize_def Let_def to_lower_def lower_char_def path_Base_def after_last_slash_def trim_right_def
        parsePackageJSON_def d_def npm_packages_def)
  from declared_packages_wellformed [OF this] this show ?thesis unfolding d_def by blast
qed

text \<open>A version of Gradle that names a property is reported as it stands.\<close>

lemma gradle_placeholder_kept:
  "parseGradle (''api '' @ [CHR 0x22] @ ''g:a:${v}'' @ [CHR 0x22]) = [mk_package ''gradle'' ''g:a'' ''${v}'' ''direct'']"
  by (simp add: parseGradle_def gradle_package_def gradleDependency_def regexp_eval_all group_of_def suffix_def)

section \<open>Arrays of TOML\<close>

text \<open>Text without the marks an array is read by, and items of quoted texts that may hold any of them.\<close>

definition calm :: "string \<Rightarrow> bool" where
  "calm s \<longleftrightarrow> (\<forall>c \<in> set s. c \<notin> {CHR 0x22, CHR 0x27, CHR ''#'', CHR ''['', CHR '']'', CHR '',''})"

definition quoted_item :: "string \<times> string \<times> string \<Rightarrow> string" where
  "quoted_item = (\<lambda>(a, body, b). a @ [CHR 0x22] @ body @ [CHR 0x22] @ b)"

lemma items_calm: "calm a \<Longrightarrow> toml_items 1 None item (a @ s) = toml_items 1 None (item @ a) s"
proof (induction a arbitrary: item)
  case (Cons c a)
  then have "c \<notin> {CHR 0x22, CHR 0x27, CHR ''#'', CHR ''['', CHR '']'', CHR '',''}" "calm a" by (auto simp: calm_def)
  then show ?case using Cons.IH by (subst append_Cons, subst toml_items.simps) simp
qed simp

lemma items_quoted:
  "CHR 0x22 \<notin> set body \<Longrightarrow> CHR 0x5C \<notin> set body \<Longrightarrow>
     toml_items 1 (Some (CHR 0x22)) item (body @ CHR 0x22 # s) = toml_items 1 None (item @ body @ [CHR 0x22]) s"
proof (induction body arbitrary: item)
  case Nil
  then show ?case by (subst append_Nil, subst toml_items.simps) simp
next
  case (Cons c body)
  then show ?case by (subst append_Cons, subst toml_items.simps) auto
qed

lemma items_one:
  assumes "calm a" "calm b" "CHR 0x22 \<notin> set body" "CHR 0x5C \<notin> set body"
  shows "toml_items 1 None [] (quoted_item (a, body, b) @ s) = toml_items 1 None (quoted_item (a, body, b)) s"
proof -
  have "toml_items 1 None a ([CHR 0x22] @ body @ [CHR 0x22] @ b @ s) = toml_items 1 (Some (CHR 0x22)) (a @ [CHR 0x22]) (body @ CHR 0x22 # (b @ s))"
    by (subst append_Cons, subst toml_items.simps) simp
  then show ?thesis
    using items_calm [OF assms(1), of "[]" "[CHR 0x22] @ body @ [CHR 0x22] @ b @ s"] items_quoted [OF assms(3,4), of "a @ [CHR 0x22]" "b @ s"]
      items_calm [OF assms(2), of "a @ [CHR 0x22] @ body @ [CHR 0x22]" s]
    by (simp add: quoted_item_def)
qed

text \<open>
  An array of TOML is read back item by item. Whatever stands in the quotes of the items,
  brackets, commas, number signs and apostrophes included, as long as it is no quote or
  backslash, the items of the array are those it was written from, and what follows the closing
  bracket is not read.
\<close>

theorem toml_array_roundtrip:
  assumes "items \<noteq> []" "\<forall>(a, body, b) \<in> set items. calm a \<and> calm b \<and> CHR 0x22 \<notin> set body \<and> CHR 0x5C \<notin> set body"
  shows "tomlArray (key @ ''['' @ join_with '','' (map quoted_item items) @ '']'' @ rest) (length key) = map quoted_item items"
proof -
  have "toml_items 1 None [] (join_with '','' (map quoted_item items) @ '']'' @ rest) = map quoted_item items"
    using assms
  proof (induction items)
    case (Cons i items)
    obtain a body b where i: "i = (a, body, b)" by (cases i)
    have one: "toml_items 1 None [] (quoted_item i @ s) = toml_items 1 None (quoted_item i) s" for s
      using items_one [of a b body] Cons.prems(2) i by auto
    show ?case
    proof (cases "items = []")
      case True
      then show ?thesis using one by (simp add: toml_items.simps(2))
    next
      case False
      then have "join_with '','' (map quoted_item (i # items)) = quoted_item i @ CHR '','' # join_with '','' (map quoted_item items)"
        by (simp add: join_with_Cons)
      moreover have "toml_items 1 None (quoted_item i) (CHR '','' # s) = quoted_item i # toml_items 1 None [] s" for s
        by (subst toml_items.simps) simp
      ultimately show ?thesis using one Cons False by simp
    qed
  qed simp
  moreover have "toml_items 0 None [] (''['' @ s) = toml_items 1 None [] s" for s by (simp add: toml_items.simps(2))
  ultimately show ?thesis by (simp add: tomlArray_def)
qed

lemma toml_array_roundtrip_witness:
  "tomlArray (''x='' @ ''['' @ join_with '','' (map quoted_item [([], ''black[jupyter]>=23'', []), ('' '', ''a,b#'', [])]) @ '']'' @ ''z'') (length ''x='')
     = map quoted_item [([], ''black[jupyter]>=23'', []), ('' '', ''a,b#'', [])]"
  by (rule toml_array_roundtrip) (simp_all add: calm_def)

end
