(* ===== verification/Lockfile.thy ===== *)
theory Lockfile
  imports Manifest
begin

text \<open>
  Lock files: \<^verbatim>\<open>internal/manifest/lockfile.go\<close>, every format it reads. The decoder of JSON is an
  argument, as in \<open>Manifest\<close>. The lemmas say that a lock file names no resolved package twice,
  which the batched insert of the inventory needs, and which formats break it.
\<close>

section \<open>Which file is a lock file\<close>

definition RecognizeLock :: "string \<Rightarrow> string option" where
  "RecognizeLock filePath =
     (let base = to_lower (path_Base filePath) in
      if base = ''go.sum'' then Some ''go''
      else if base \<in> {''package-lock.json'', ''npm-shrinkwrap.json'', ''yarn.lock'', ''pnpm-lock.yaml''} then Some ''npm''
      else if base = ''cargo.lock'' then Some ''cargo''
      else if base \<in> {''poetry.lock'', ''uv.lock'', ''pdm.lock'', ''pipfile.lock''} then Some ''pypi''
      else None)"

definition MaxLockBytes :: nat where "MaxLockBytes = 8388608"
definition MaxLockPackages :: nat where "MaxLockPackages = 4000"

text \<open>A package is added unless its name and version, joined by a zero byte, were seen.\<close>

type_synonym resolved = "string \<times> string"

definition resolved_key :: "resolved \<Rightarrow> string" where
  "resolved_key = (\<lambda>(name, version). name @ [CHR 0x00] @ version)"

definition add_new :: "resolved list \<Rightarrow> resolved \<Rightarrow> resolved list" where
  "add_new out p = (if resolved_key p \<in> resolved_key ` set out then out else out @ [p])"

definition add_named :: "resolved list \<Rightarrow> resolved \<Rightarrow> resolved list" where
  "add_named out p = (if fst p = [] \<or> snd p = [] then out else add_new out p)"

section \<open>go.sum\<close>

definition sum_line :: "string \<Rightarrow> resolved list" where
  "sum_line line =
     (case Prelude.fields line of
        module' # version # _ # _ \<Rightarrow> [(module', trim_suffix version ''/go.mod'')]
      | _ \<Rightarrow> [])"

definition parseGoSum :: "string \<Rightarrow> resolved list" where
  "parseGoSum content = foldl add_new [] (concat (map sum_line (split_on (CHR 0x0A) content)))"

section \<open>package-lock.json\<close>

text \<open>
  The decoded document: the versions of \<^verbatim>\<open>packages\<close> by path, and the tree of \<^verbatim>\<open>dependencies\<close>, in
  which a node that cannot be decoded is \<open>None\<close>.
\<close>

datatype lock_tree = LockTree "(string \<times> (string \<times> lock_tree) option) list"

record package_lock =
  pl_Packages :: "(string \<times> string) list"
  pl_Dependencies :: lock_tree

definition lock_path :: "string \<times> string \<Rightarrow> resolved list" where
  "lock_path = (\<lambda>(key, version). case last_index_str key ''node_modules/'' of
     None \<Rightarrow> [] | Some at \<Rightarrow> [(drop (at + length ''node_modules/'') key, version)])"

fun lock_walk :: "lock_tree \<Rightarrow> resolved list" where
  "lock_walk (LockTree nodes) =
     concat (map (\<lambda>(name, node). case node of None \<Rightarrow> [] | Some (version, tree) \<Rightarrow> (name, version) # lock_walk tree) nodes)"

definition parsePackageLock :: "(string \<Rightarrow> package_lock option) \<Rightarrow> string \<Rightarrow> resolved list" where
  "parsePackageLock decode content =
     (case decode content of
        None \<Rightarrow> []
      | Some d \<Rightarrow> foldl add_named [] (concat (map lock_path (pl_Packages d)) @ lock_walk (pl_Dependencies d)))"

section \<open>yarn.lock\<close>

definition yarnEntry :: rx where
  "yarnEntry = seqs [line_start, maybe (lit [CHR 0x22]),
     Grp 1 (seqs [Sym (\<lambda>x. \<not> (space_rune x \<or> among [CHR 0x22] x)),
     Rep False (Sym (\<lambda>x. x \<noteq> 10))]), maybe (lit [CHR 0x22]), lit '':'', many (Sym space_rune), line_end]"

definition yarnVersion :: rx where
  "yarnVersion = seqs [line_start, some (Sym space_rune), lit ''version'', maybe (lit '':''), some (Sym space_rune),
     maybe (lit [CHR 0x22]), Grp 1 (some (Sym (\<lambda>x. \<not> (space_rune x \<or> among [CHR 0x22] x)))),
     maybe (lit [CHR 0x22]), many (Sym space_rune), line_end]"

text \<open>The version in the lines of an entry, up to a blank one.\<close>

fun yarn_version_in :: "string list \<Rightarrow> string option" where
  "yarn_version_in [] = None"
| "yarn_version_in (line # rest) =
     (if trim_space line = [] then None
      else case find_match yarnVersion line of
        Some m \<Rightarrow> Some (group_of m 1)
      | None \<Rightarrow> yarn_version_in rest)"

text \<open>The name an entry header gives: the first of its ranges up to its last at sign.\<close>

definition yarn_name :: "string \<Rightarrow> string option" where
  "yarn_name line =
     (case find_match yarnEntry line of
        None \<Rightarrow> None
      | Some header \<Rightarrow>
          (if has_prefix (trim_space line) ''#'' then None
           else let first = trim_chars (trim_space (hd (split_on (CHR '','') (group_of header 1)))) [CHR 0x22]
                in case last_index_str first ''@'' of
                     None \<Rightarrow> None
                   | Some at \<Rightarrow> (if at = 0 then None else Some (take at first))))"

fun yarn_lines :: "string list \<Rightarrow> resolved list" where
  "yarn_lines [] = []"
| "yarn_lines (line # rest) =
     (case yarn_name line of
        None \<Rightarrow> yarn_lines rest
      | Some name \<Rightarrow>
          (case yarn_version_in (take 7 rest) of
             None \<Rightarrow> yarn_lines rest
           | Some version \<Rightarrow> (name, version) # yarn_lines rest))"

definition parseYarnLock :: "string \<Rightarrow> resolved list" where
  "parseYarnLock content = foldl add_new [] (yarn_lines (split_on (CHR 0x0A) content))"

section \<open>pnpm-lock.yaml\<close>

definition pnpmSlashEntry :: rx where
  "pnpmSlashEntry = seqs [line_start, some (Sym space_rune), maybe (lit ''/''), maybe (lit [CHR 0x27]),
     Grp 1 (alts [seqs [lit ''@'', some (Sym (\<lambda>x. \<not> (space_rune x \<or> among [CHR ''/'',
     CHR 0x27] x))), lit ''/'', some (Sym (\<lambda>x. \<not> (space_rune x \<or> among [CHR ''/'', CHR 0x27] x)))],
     seqs [Sym (\<lambda>x. \<not> (space_rune x \<or> among [CHR ''/'', CHR ''@'', CHR 0x27] x)),
     many (Sym (\<lambda>x. \<not> (space_rune x \<or> among [CHR ''/'', CHR 0x27] x)))]]), lit ''/'',
     Grp 2 (seqs [Sym (\<lambda>x. digit_rune x), many (Sym (\<lambda>x. \<not> (space_rune x \<or> among [CHR '':'',
     CHR 0x27, CHR ''(''] x)))]), maybe (seqs [lit ''('', many (Sym (\<lambda>x. \<not> among '')'' x)), lit '')'']),
     maybe (lit [CHR 0x27]), lit '':'']"

definition pnpmAtEntry :: rx where
  "pnpmAtEntry = seqs [line_start, some (Sym space_rune), maybe (lit [CHR 0x27]), Grp 1 (alts [seqs [lit ''@'',
     some (Sym (\<lambda>x. \<not> (space_rune x \<or> among [CHR ''/'', CHR 0x27] x))), lit ''/'',
     some (Sym (\<lambda>x. \<not> (space_rune x \<or> among [CHR ''@'', CHR 0x27, CHR ''('', CHR ''/''] x)))],
     seqs [Sym (\<lambda>x. \<not> (space_rune x \<or> among [CHR ''@'', CHR 0x27, CHR ''('', CHR ''/''] x)),
     many (Sym (\<lambda>x. \<not> (space_rune x \<or> among [CHR ''@'', CHR 0x27, CHR ''('', CHR ''/''] x)))]]),
     lit ''@'', Grp 2 (seqs [Sym (\<lambda>x. digit_rune x),
     many (Sym (\<lambda>x. \<not> (space_rune x \<or> among [CHR '':'', CHR 0x27, CHR ''(''] x)))]),
     maybe (seqs [lit ''('', many (Sym (\<lambda>x. \<not> among '')'' x)), lit '')'']), maybe (lit [CHR 0x27]),
     lit '':'']"

definition pnpm_entry :: "rmatch \<Rightarrow> resolved" where
  "pnpm_entry m =
     (let version = (case index_str (group_of m 2) ''('' of None \<Rightarrow> group_of m 2 | Some at \<Rightarrow> take at (group_of m 2))
      in (group_of m 1, trim_suffix version '':''))"

definition parsePnpmLock :: "string \<Rightarrow> resolved list" where
  "parsePnpmLock content =
     foldl add_named [] (map pnpm_entry (find_all pnpmSlashEntry content @ find_all pnpmAtEntry content))"

section \<open>Pipfile.lock\<close>

text \<open>The two sets of the decoded document.\<close>

definition pipfile_entry :: "string \<times> string \<Rightarrow> resolved list" where
  "pipfile_entry = (\<lambda>(name, pin). let version = trim_prefix pin ''=='' in if version = [] then [] else [(name, version)])"

definition parsePipfileLock :: "(string \<Rightarrow> ((string \<times> string) list \<times> (string \<times> string) list) option) \<Rightarrow> string \<Rightarrow> resolved list" where
  "parsePipfileLock decode content =
     (case decode content of
        None \<Rightarrow> []
      | Some (main_set, develop) \<Rightarrow> foldl add_new [] (concat (map pipfile_entry (main_set @ develop))))"

section \<open>TOML lock files\<close>

definition lockPackageBlock :: rx where
  "lockPackageBlock = seqs [line_start, lit ''[[package]]'', many (Sym space_rune), line_end]"

definition lockName :: rx where
  "lockName = seqs [line_start, lit ''name'', many (Sym space_rune), lit ''='', many (Sym space_rune),
     lit [CHR 0x22], Grp 1 (some (Sym (\<lambda>x. \<not> among [CHR 0x22] x))), lit [CHR 0x22]]"

definition lockVersion :: rx where
  "lockVersion = seqs [line_start, lit ''version'', many (Sym space_rune), lit ''='', many (Sym space_rune),
     lit [CHR 0x22], Grp 1 (some (Sym (\<lambda>x. \<not> among [CHR 0x22] x))), lit [CHR 0x22]]"

text \<open>The text of each block, up to the next one.\<close>

fun lock_blocks :: "string \<Rightarrow> (nat \<times> nat \<times> rmatch) list \<Rightarrow> string list" where
  "lock_blocks content [] = []"
| "lock_blocks content ((_, to, _) # rest) =
     drop to (take (case rest of [] \<Rightarrow> length content | (from', _, _) # _ \<Rightarrow> from') content) # lock_blocks content rest"

definition block_package :: "string \<Rightarrow> resolved list" where
  "block_package block =
     (case (find_match lockName block, find_match lockVersion block) of
        (Some n, Some v) \<Rightarrow> [(group_of n 1, group_of v 1)]
      | _ \<Rightarrow> [])"

definition parseTOMLLock :: "string \<Rightarrow> resolved list" where
  "parseTOMLLock content = concat (map block_package (lock_blocks content (find_all_index lockPackageBlock content)))"

section \<open>Any lock file\<close>

record lock_decoders =
  de_npm :: "string \<Rightarrow> package_lock option"
  de_pipfile :: "string \<Rightarrow> ((string \<times> string) list \<times> (string \<times> string) list) option"

definition lock_packages :: "lock_decoders \<Rightarrow> string \<Rightarrow> string \<Rightarrow> resolved list" where
  "lock_packages decoders base content =
     (if base = ''go.sum'' then parseGoSum content
      else if base = ''package-lock.json'' \<or> base = ''npm-shrinkwrap.json'' then parsePackageLock (de_npm decoders) content
      else if base = ''yarn.lock'' then parseYarnLock content
      else if base = ''pnpm-lock.yaml'' then parsePnpmLock content
      else if base = ''pipfile.lock'' then parsePipfileLock (de_pipfile decoders) content
      else parseTOMLLock content)"

definition ParseLock :: "lock_decoders \<Rightarrow> string \<Rightarrow> string \<Rightarrow> package list" where
  "ParseLock decoders filePath content =
     (case RecognizeLock filePath of
        None \<Rightarrow> []
      | Some ecosystem \<Rightarrow>
          (if MaxLockBytes < length content then []
           else take MaxLockPackages (map (\<lambda>(name, version). mk_package ecosystem name version ''resolved'')
             (lock_packages decoders (to_lower (path_Base filePath)) content))))"

section \<open>No package twice\<close>

lemma add_new_distinct: "distinct (map resolved_key out) \<Longrightarrow> distinct (map resolved_key (foldl add_new out ps))"
proof (induction ps arbitrary: out)
  case (Cons p ps)
  have "distinct (map resolved_key (add_new out p))" using Cons.prems by (auto simp: add_new_def)
  from Cons.IH [OF this] show ?case by simp
qed simp

lemma add_named_distinct: "distinct (map resolved_key out) \<Longrightarrow> distinct (map resolved_key (foldl add_named out ps))"
proof (induction ps arbitrary: out)
  case (Cons p ps)
  have "distinct (map resolved_key (add_named out p))" using Cons.prems by (auto simp: add_new_def add_named_def)
  from Cons.IH [OF this] show ?case by simp
qed simp

text \<open>The columns of the inventory's key that one file decides.\<close>

definition inventory_key :: "package \<Rightarrow> string \<times> string \<times> string" where
  "inventory_key p = (pkg_Ecosystem p, pkg_Name p, pkg_Version p)"

definition toml_lock :: "string \<Rightarrow> bool" where
  "toml_lock filePath \<longleftrightarrow> to_lower (path_Base filePath) \<in> {''cargo.lock'', ''poetry.lock'', ''uv.lock'', ''pdm.lock''}"

lemma lock_packages_distinct:
  assumes "RecognizeLock filePath = Some ecosystem" "\<not> toml_lock filePath"
  shows "distinct (lock_packages decoders (to_lower (path_Base filePath)) content)"
proof -
  define base where "base = to_lower (path_Base filePath)"
  have "base \<in> {''go.sum'', ''package-lock.json'', ''npm-shrinkwrap.json'', ''yarn.lock'', ''pnpm-lock.yaml'', ''pipfile.lock''}"
    using assms by (auto simp: RecognizeLock_def toml_lock_def base_def [symmetric] Let_def split: if_splits)
  then have "distinct (map resolved_key (lock_packages decoders base content))"
  proof -
    note each = add_new_distinct [of "[]", simplified] add_named_distinct [of "[]", simplified]
    have "distinct (map resolved_key (parseGoSum content))" "distinct (map resolved_key (parseYarnLock content))"
      "distinct (map resolved_key (parsePnpmLock content))"
      unfolding parseGoSum_def parseYarnLock_def parsePnpmLock_def by (rule each)+
    moreover have "distinct (map resolved_key (parsePackageLock (de_npm decoders) content))"
      unfolding parsePackageLock_def by (cases "de_npm decoders content") (simp_all add: each del: foldl_append)
    moreover have "distinct (map resolved_key (parsePipfileLock (de_pipfile decoders) content))"
      unfolding parsePipfileLock_def by (cases "de_pipfile decoders content") (simp_all add: each case_prod_unfold del: foldl_append concat_append map_append)
    moreover assume "base \<in> {''go.sum'', ''package-lock.json'', ''npm-shrinkwrap.json'', ''yarn.lock'', ''pnpm-lock.yaml'', ''pipfile.lock''}"
    ultimately show ?thesis unfolding lock_packages_def by (elim insertE emptyE) simp_all
  qed
  then show ?thesis unfolding base_def by (simp add: distinct_map)
qed

text \<open>
  A lock file states each resolved package once. Every package it yields has the file's
  ecosystem and the scope that marks it as resolved, there are at most four thousand of them,
  and, except for the formats of \<^verbatim>\<open>[[package]]\<close> blocks, no two of them agree in ecosystem, name and
  version, so that no statement of the batched insert meets the same row twice.
\<close>

theorem lock_states_each_once:
  shows "length (ParseLock decoders filePath content) \<le> 4000 \<and>
    (\<forall>p \<in> set (ParseLock decoders filePath content). RecognizeLock filePath = Some (pkg_Ecosystem p) \<and> pkg_Scope p = ''resolved'') \<and>
    (toml_lock filePath \<or> distinct (map inventory_key (ParseLock decoders filePath content)))"
proof (cases "RecognizeLock filePath")
  case None
  then show ?thesis by (simp add: ParseLock_def)
next
  case (Some ecosystem)
  define rs where "rs = lock_packages decoders (to_lower (path_Base filePath)) content"
  define ps where "ps = map (\<lambda>(name, version). mk_package ecosystem name version ''resolved'') rs"
  have parsed: "ParseLock decoders filePath content = (if MaxLockBytes < length content then [] else take MaxLockPackages ps)"
    by (simp add: ParseLock_def Some ps_def rs_def)
  have keys: "map inventory_key ps = map (\<lambda>(name, version). (ecosystem, name, version)) rs"
    by (simp add: ps_def inventory_key_def mk_package_def case_prod_unfold)
  have "distinct (map inventory_key (ParseLock decoders filePath content))" if "\<not> toml_lock filePath"
  proof -
    have "distinct rs" unfolding rs_def by (rule lock_packages_distinct [OF Some that])
    then have "distinct (map inventory_key ps)" unfolding keys by (auto simp: distinct_map inj_on_def)
    then show ?thesis unfolding parsed by (simp flip: take_map)
  qed
  moreover have "\<forall>p \<in> set (ParseLock decoders filePath content). ecosystem = pkg_Ecosystem p \<and> pkg_Scope p = ''resolved''"
    unfolding parsed ps_def by (auto simp: mk_package_def dest!: in_set_takeD)
  moreover have "length (ParseLock decoders filePath content) \<le> 4000" unfolding parsed by (simp add: MaxLockPackages_def)
  ultimately show ?thesis using Some by auto
qed

section \<open>Where a statement of the insert meets a row twice\<close>

text \<open>
  A package that \<^verbatim>\<open>package.json\<close> lists for development and as a peer, in the same range, becomes two rows
  with one key; so does a coordinate that a Gradle build uses for its code and for its tests,
  and a package with two sources in a Cargo or uv lock.
\<close>

lemma npm_row_twice:
  "map inventory_key (Parse (\<lambda>_. Some \<lparr>pj_Dependencies = [], pj_DevDependencies = [(''react'', ''18'')],
       pj_PeerDependencies = [(''react'', ''18'')], pj_OptionalDependencies = []\<rparr>) ''package.json'' [])
     = [(''npm'', ''react'', ''18''), (''npm'', ''react'', ''18'')]"
  by (simp add: Parse_def Recognize_def Let_def to_lower_def lower_char_def path_Base_def after_last_slash_def trim_right_def
      parsePackageJSON_def npm_packages_def inventory_key_def mk_package_def)

lemma gradle_row_twice:
  "map inventory_key (parseGradle (''api '' @ [CHR 0x27] @ ''g:a:1'' @ [CHR 0x27, CHR 0x0A] @ ''testCompileOnly '' @ [CHR 0x27] @ ''g:a:1'' @ [CHR 0x27]))
     = [(''gradle'', ''g:a'', ''1''), (''gradle'', ''g:a'', ''1'')]"
  by (simp add: parseGradle_def gradle_package_def gradleDependency_def regexp_eval_all inventory_key_def mk_package_def group_of_def)

lemma lock_row_twice:
  "parseTOMLLock (''[[package]]'' @ [CHR 0x0A] @ ''name='' @ [CHR 0x22] @ ''a'' @ [CHR 0x22, CHR 0x0A] @ ''version='' @ [CHR 0x22] @ ''1'' @ [CHR 0x22, CHR 0x0A]
     @ ''[[package]]'' @ [CHR 0x0A] @ ''name='' @ [CHR 0x22] @ ''a'' @ [CHR 0x22, CHR 0x0A] @ ''version='' @ [CHR 0x22] @ ''1'' @ [CHR 0x22])
     = [(''a'', ''1''), (''a'', ''1'')]"
  by (simp add: parseTOMLLock_def lockPackageBlock_def lockName_def lockVersion_def block_package_def regexp_eval_all find_all_index_def
      group_of_def)

lemma lock_states_each_once_witness:
  "\<exists>p. p \<in> set (ParseLock \<lparr>de_npm = (\<lambda>_. None), de_pipfile = (\<lambda>_. Some ([(''a'', ''==1'')], [(''a'', ''==1'')]))\<rparr> ''pipfile.lock'' [])
     \<and> pkg_Version p = ''1'' \<and> RecognizeLock ''pipfile.lock'' = Some (pkg_Ecosystem p) \<and> pkg_Scope p = ''resolved''"
proof -
  define ds where "ds = \<lparr>de_npm = (\<lambda>_ :: string. None :: package_lock option), de_pipfile = (\<lambda>_ :: string. Some ([(''a'', ''==1'')], [(''a'', ''==1'')]))\<rparr>"
  have "mk_package ''pypi'' ''a'' ''1'' ''resolved'' \<in> set (ParseLock ds ''pipfile.lock'' [])"
    by (simp add: ParseLock_def RecognizeLock_def Let_def to_lower_def lower_char_def path_Base_def after_last_slash_def trim_right_def
        lock_packages_def parsePipfileLock_def ds_def pipfile_entry_def trim_prefix_def add_new_def resolved_key_def MaxLockPackages_def)
  then show ?thesis using lock_states_each_once [of ds "''pipfile.lock''" "[]"] unfolding ds_def
    by (intro exI [of _ "mk_package ''pypi'' ''a'' ''1'' ''resolved''"]) (auto simp: mk_package_def)
qed

end
