(* ===== verification/CodeIntel.thy ===== *)
theory CodeIntel
  imports RegexpGroups Globs
begin

text \<open>
  Symbols and dependencies of source files: \<^verbatim>\<open>internal/codeintel/parser.go\<close> and \<^verbatim>\<open>dependencies.go\<close>. The
  patterns are syntax trees of \<open>Regexp\<close>; the parser of Go files is an argument that returns the
  part of the syntax tree the code reads. The lemmas bound the lines of a symbol and say what the
  list of dependencies may hold.
\<close>

record symbol =
  sym_Name :: string
  sym_QualifiedName :: string
  sym_Kind :: string
  sym_Language :: string
  sym_Signature :: string
  sym_Documentation :: string
  sym_LineStart :: int
  sym_LineEnd :: int

record dependency =
  dep_FromSymbol :: string
  dep_Target :: string
  dep_Kind :: string
  dep_Line :: int

section \<open>Patterns\<close>

definition javaTypeRE :: rx where
  "javaTypeRE = seqs [text_start, many (Sym space_rune), many (alts [lit ''public'', lit ''protected'',
     lit ''private'', lit ''abstract'', lit ''final'', lit ''static'', Sym space_rune]), many (Sym space_rune),
     Grp 1 (alts [lit ''class'', lit ''interface'', lit ''enum'', lit ''record'']), some (Sym space_rune),
     Grp 2 (seqs [Sym (\<lambda>x. letter_rune x \<or> among ''_'' x),
     many (Sym (\<lambda>x. alnum_rune x \<or> among ''_'' x))])]"

definition javaFuncRE :: rx where
  "javaFuncRE = seqs [text_start, many (Sym space_rune), some (alts [lit ''public'', lit ''protected'',
     lit ''private'', lit ''static'', lit ''final'', lit ''abstract'', lit ''synchronized'', lit ''native'',
     Sym space_rune]), some (Sym (\<lambda>x. word_rune x \<or> among ''<>[],.?'' x)), some (Sym space_rune),
     Grp 1 (seqs [Sym (\<lambda>x. letter_rune x \<or> among ''_'' x),
     many (Sym (\<lambda>x. alnum_rune x \<or> among ''_'' x))]), many (Sym space_rune), lit ''('',
     many (Sym (\<lambda>x. \<not> among '';'' x)), lit '')'', many (Sym space_rune), maybe (seqs [lit ''throws'',
     some (Sym (\<lambda>x. \<not> among ''{'' x))]), maybe (lit ''{'')]"

definition tsTypeRE :: rx where
  "tsTypeRE = seqs [text_start, many (Sym space_rune), maybe (seqs [lit ''export'', some (Sym space_rune)]),
     maybe (seqs [lit ''default'', some (Sym space_rune)]), Grp 1 (alts [lit ''class'', lit ''interface'',
     lit ''enum'', lit ''type'']), some (Sym space_rune),
     Grp 2 (seqs [Sym (\<lambda>x. letter_rune x \<or> among ''_$'' x),
     many (Sym (\<lambda>x. alnum_rune x \<or> among ''_$'' x))])]"

definition tsFuncRE :: rx where
  "tsFuncRE = seqs [text_start, many (Sym space_rune), maybe (seqs [lit ''export'', some (Sym space_rune)]),
     maybe (seqs [lit ''default'', some (Sym space_rune)]), maybe (seqs [lit ''async'', some (Sym space_rune)]),
     lit ''function'', some (Sym space_rune), Grp 1 (seqs [Sym (\<lambda>x. letter_rune x \<or> among ''_$'' x),
     many (Sym (\<lambda>x. alnum_rune x \<or> among ''_$'' x))]), many (Sym space_rune), lit ''('']"

definition tsArrowRE :: rx where
  "tsArrowRE = seqs [text_start, many (Sym space_rune), maybe (seqs [lit ''export'', some (Sym space_rune)]),
     lit ''const'', some (Sym space_rune), Grp 1 (seqs [Sym (\<lambda>x. letter_rune x \<or> among ''_$'' x),
     many (Sym (\<lambda>x. alnum_rune x \<or> among ''_$'' x))]), many (Sym space_rune), lit ''='',
     many (Sym space_rune), maybe (seqs [lit ''async'', many (Sym space_rune)]), lit ''('',
     many (Sym (\<lambda>x. \<not> among '')'' x)), lit '')'', many (Sym space_rune), lit ''=>'']"

definition pythonRE :: rx where
  "pythonRE = seqs [text_start, Grp 1 (many (Sym space_rune)), maybe (seqs [lit ''async'', some (Sym space_rune)]),
     Grp 2 (alts [lit ''def'', lit ''class'']), some (Sym space_rune),
     Grp 3 (seqs [Sym (\<lambda>x. letter_rune x \<or> among ''_'' x),
     many (Sym (\<lambda>x. alnum_rune x \<or> among ''_'' x))])]"

definition sqlRE :: rx where
  "sqlRE = seqs [text_start, many (Sym space_rune), ilit ''CREATE'', some (Sym space_rune), maybe (seqs [ilit ''OR'',
     some (Sym space_rune), ilit ''REPLACE'', some (Sym space_rune)]), Grp 1 (alts [ilit ''TABLE'', ilit ''VIEW'',
     ilit ''FUNCTION'', ilit ''PROCEDURE'', ilit ''TRIGGER'']), some (Sym space_rune), maybe (seqs [ilit ''IF'',
     some (Sym space_rune), ilit ''NOT'', some (Sym space_rune), ilit ''EXISTS'', some (Sym space_rune)]),
     Grp 2 (seqs [Sym (folded (\<lambda>x. letter_rune x \<or> among ''_'' x)),
     many (Sym (folded (\<lambda>x. alnum_rune x \<or> among [CHR ''_'', CHR ''.'', CHR ''$'', CHR 0x22] x)))])]"

definition javaImportRE :: rx where
  "javaImportRE = seqs [text_start, many (Sym space_rune), lit ''import'', some (Sym space_rune),
     maybe (seqs [lit ''static'', some (Sym space_rune)]),
     Grp 1 (seqs [Sym (\<lambda>x. letter_rune x \<or> among ''_'' x),
     some (Sym (\<lambda>x. alnum_rune x \<or> among ''_.*'' x))]), many (Sym space_rune), lit '';'']"

definition tsImportRE :: rx where
  "tsImportRE = seqs [text_start, many (Sym space_rune), lit ''import'',
     maybe (seqs [Rep False (Sym (\<lambda>x. space_rune x \<or> \<not> space_rune x)), Sym space_rune, lit ''from'',
     some (Sym space_rune)]), Sym (\<lambda>x. among [CHR 0x22, CHR 0x27] x),
     Grp 1 (some (Sym (\<lambda>x. \<not> among [CHR 0x22, CHR 0x27] x))), Sym (\<lambda>x. among [CHR 0x22,
     CHR 0x27] x)]"

definition tsRequireRE :: rx where
  "tsRequireRE = seqs [lit ''require('', many (Sym space_rune), Sym (\<lambda>x. among [CHR 0x22, CHR 0x27] x),
     Grp 1 (some (Sym (\<lambda>x. \<not> among [CHR 0x22, CHR 0x27] x))), Sym (\<lambda>x. among [CHR 0x22,
     CHR 0x27] x), many (Sym space_rune), lit '')'']"

definition pythonImpRE :: rx where
  "pythonImpRE = seqs [text_start, many (Sym space_rune), lit ''import'', some (Sym space_rune),
     Grp 1 (seqs [Sym (\<lambda>x. letter_rune x \<or> among ''_'' x),
     many (Sym (\<lambda>x. alnum_rune x \<or> among ''_.'' x))])]"

definition pythonFromRE :: rx where
  "pythonFromRE = seqs [text_start, many (Sym space_rune), lit ''from'', some (Sym space_rune),
     Grp 1 (seqs [Sym (\<lambda>x. letter_rune x \<or> among ''_.'' x),
     many (Sym (\<lambda>x. alnum_rune x \<or> among ''_.'' x))]), some (Sym space_rune), lit ''import'',
     some (Sym space_rune)]"

definition sqlRefRE :: rx where
  "sqlRefRE = seqs [word_edge, alts [ilit ''FROM'', ilit ''JOIN'', ilit ''REFERENCES'', ilit ''UPDATE'',
     ilit ''INTO''], some (Sym space_rune),
     Grp 1 (seqs [Sym (folded (\<lambda>x. letter_rune x \<or> among ''_'' x)),
     many (Sym (folded (\<lambda>x. alnum_rune x \<or> among [CHR ''_'', CHR ''.'', CHR ''$'', CHR 0x22] x)))])]"

section \<open>Lines\<close>

definition Language :: "string \<Rightarrow> string" where
  "Language path =
     (let ext = to_lower (path_Ext path) in
      if ext = ''.go'' then ''go''
      else if ext = ''.java'' then ''java''
      else if ext \<in> {''.ts'', ''.tsx'', ''.js'', ''.jsx''} then ''typescript''
      else if ext = ''.py'' then ''python''
      else if ext = ''.sql'' \<or> ext = ''.ddl'' then ''sql''
      else [])"

definition code_lines :: "string \<Rightarrow> string list" where
  "code_lines content = split_on (CHR 0x0A) (replace_str [CHR 0x0D, CHR 0x0A] [CHR 0x0A] content)"

text \<open>The lines from an index on: the depth of braces and whether one was opened.\<close>

fun brace_scan :: "int \<Rightarrow> bool \<Rightarrow> nat \<Rightarrow> string list \<Rightarrow> nat option" where
  "brace_scan depth opened index [] = None"
| "brace_scan depth opened index (line # rest) =
     (let up = depth + int (count_str line ''{''); opened' = (opened \<or> 0 < up); down = up - int (count_str line ''}'') in
      if opened' \<and> down \<le> 0 then Some (index + 1) else brace_scan down opened' (index + 1) rest)"

definition braceEnd :: "string list \<Rightarrow> nat \<Rightarrow> nat" where
  "braceEnd lines start =
     (case brace_scan 0 False start (drop start lines) of Some n \<Rightarrow> n | None \<Rightarrow> min (length lines) (start + 80))"

definition signatureLine :: "string \<Rightarrow> int \<Rightarrow> string" where
  "signatureLine content line =
     (let lines = code_lines content in
      if line < 1 \<or> int (length lines) < line then [] else trim_space (lines ! nat (line - 1)))"

definition normalizeKind :: "string \<Rightarrow> string" where
  "normalizeKind kind = (if to_lower kind = ''record'' \<or> to_lower kind = ''class'' then ''class'' else to_lower kind)"

definition controlKeyword :: "string \<Rightarrow> bool" where
  "controlKeyword name \<longleftrightarrow> name \<in> {''if'', ''for'', ''while'', ''switch'', ''catch''}"

definition leadingSpaces :: "string \<Rightarrow> nat" where
  "leadingSpaces line = length line - length (trim_left line [CHR '' '', CHR 0x09])"

definition line_symbol :: "string list \<Rightarrow> string \<Rightarrow> nat \<Rightarrow> nat \<Rightarrow> string \<Rightarrow> string \<Rightarrow> symbol" where
  "line_symbol lines language index end' name kind =
     \<lparr>sym_Name = name, sym_QualifiedName = name, sym_Kind = kind, sym_Language = language,
      sym_Signature = trim_space (lines ! index), sym_Documentation = [], sym_LineStart = int index + 1, sym_LineEnd = int end'\<rparr>"

text \<open>What a function finds at each line, in order.\<close>

definition each_line :: "(string list \<Rightarrow> nat \<Rightarrow> symbol option) \<Rightarrow> string list \<Rightarrow> symbol list" where
  "each_line f lines = List.map_filter (f lines) [0..<length lines]"

section \<open>Symbols\<close>

definition brace_symbol :: "string \<Rightarrow> rx \<Rightarrow> rx \<Rightarrow> string list \<Rightarrow> nat \<Rightarrow> symbol option" where
  "brace_symbol language typeRE functionRE lines index =
     (case find_match typeRE (lines ! index) of
        Some m \<Rightarrow> Some (line_symbol lines language index (braceEnd lines index) (group_of m 2) (normalizeKind (group_of m 1)))
      | None \<Rightarrow>
          (case find_match functionRE (lines ! index) of
             None \<Rightarrow> None
           | Some m \<Rightarrow>
               (if controlKeyword (group_of m 1) then None
                else Some (line_symbol lines language index (braceEnd lines index) (group_of m 1) ''method''))))"

definition extractBraceLanguage :: "string \<Rightarrow> string \<Rightarrow> rx \<Rightarrow> rx \<Rightarrow> symbol list" where
  "extractBraceLanguage content language typeRE functionRE =
     each_line (brace_symbol language typeRE functionRE) (code_lines content)"

definition arrow_symbol :: "string list \<Rightarrow> nat \<Rightarrow> symbol option" where
  "arrow_symbol lines index =
     map_option (\<lambda>m. line_symbol lines ''typescript'' index (braceEnd lines index) (group_of m 1) ''function'')
       (find_match tsArrowRE (lines ! index))"

definition extractTypeScript :: "string \<Rightarrow> symbol list" where
  "extractTypeScript content =
     map (\<lambda>s. if contains_str (sym_Signature s) ''function '' then s\<lparr>sym_Kind := ''function''\<rparr> else s)
       (extractBraceLanguage content ''typescript'' tsTypeRE tsFuncRE)
     @ each_line arrow_symbol (code_lines content)"

text \<open>The first line after the block whose text is not deeper than its header.\<close>

fun python_end :: "nat \<Rightarrow> nat \<Rightarrow> string list \<Rightarrow> nat" where
  "python_end indent next [] = next"
| "python_end indent next (line # rest) =
     (let trimmed = trim_space line in
      if trimmed = [] \<or> has_prefix trimmed ''#'' then python_end indent (next + 1) rest
      else if leadingSpaces line \<le> indent then next
      else python_end indent (next + 1) rest)"

definition python_symbol :: "string list \<Rightarrow> nat \<Rightarrow> symbol option" where
  "python_symbol lines index =
     map_option (\<lambda>m. let indent = length (group_of m 1) in
         line_symbol lines ''python'' index (python_end indent (index + 1) (drop (index + 1) lines)) (group_of m 3)
           (if group_of m 2 = ''class'' then ''class'' else if 0 < indent then ''method'' else ''function''))
       (find_match pythonRE (lines ! index))"

definition extractPython :: "string \<Rightarrow> symbol list" where
  "extractPython content = each_line python_symbol (code_lines content)"

text \<open>The line that ends a statement, from the line before on.\<close>

fun sql_end :: "nat \<Rightarrow> string \<Rightarrow> string list \<Rightarrow> nat" where
  "sql_end end' line [] = end'"
| "sql_end end' line (next # rest) = (if contains_str line '';'' then end' else sql_end (end' + 1) next rest)"

definition sql_symbol :: "string list \<Rightarrow> nat \<Rightarrow> symbol option" where
  "sql_symbol lines index =
     map_option (\<lambda>m. line_symbol lines ''sql'' index (sql_end (index + 1) (lines ! index) (drop (index + 1) lines))
         (trim_chars (group_of m 2) [CHR 0x22]) (to_lower (group_of m 1)))
       (find_match sqlRE (lines ! index))"

definition extractSQL :: "string \<Rightarrow> symbol list" where
  "extractSQL content = each_line sql_symbol (code_lines content)"

section \<open>Go\<close>

text \<open>The part of a syntax tree the code reads; \<open>OtherExpr\<close> is any other form.\<close>

datatype go_expr = Ident string | StarExpr go_expr | IndexExpr go_expr | IndexListExpr go_expr | SelectorExpr go_expr string | OtherExpr

datatype go_type = StructType | InterfaceType | OtherType

text \<open>
  A position is a line. A function has its receivers and, if it has a body, the calls in it in
  the order \<^verbatim>\<open>ast.Inspect\<close> meets them.
\<close>

record go_func =
  gf_name :: string
  gf_recv :: "go_expr list"
  gf_pos :: int
  gf_end :: int
  gf_doc :: "string option"
  gf_calls :: "(go_expr \<times> int) list option"

record go_spec =
  gs_name :: string
  gs_type :: go_type
  gs_pos :: int

datatype go_decl = FuncDecl go_func | GenDecl "string option" int int "go_spec option list"

text \<open>A file: its imports, \<open>None\<close> for a path that cannot be unquoted, and its declarations.\<close>

record go_file =
  go_imports :: "(string option \<times> int) list"
  go_decls :: "go_decl list"

fun receiverName :: "go_expr \<Rightarrow> string" where
  "receiverName (Ident n) = n"
| "receiverName (StarExpr e) = receiverName e"
| "receiverName (IndexExpr e) = receiverName e"
| "receiverName (IndexListExpr e) = receiverName e"
| "receiverName _ = ''receiver''"

definition commentText :: "string option \<Rightarrow> string" where
  "commentText group' = (case group' of None \<Rightarrow> [] | Some t \<Rightarrow> trim_space t)"

definition func_symbol :: "string \<Rightarrow> go_func \<Rightarrow> symbol" where
  "func_symbol content f =
     \<lparr>sym_Name = gf_name f,
      sym_QualifiedName = (case gf_recv f of [] \<Rightarrow> gf_name f | r # _ \<Rightarrow> receiverName r @ ''.'' @ gf_name f),
      sym_Kind = (if gf_recv f = [] then ''function'' else ''method''), sym_Language = ''go'',
      sym_Signature = signatureLine content (gf_pos f), sym_Documentation = commentText (gf_doc f),
      sym_LineStart = gf_pos f, sym_LineEnd = gf_end f\<rparr>"

definition spec_kind :: "go_type \<Rightarrow> string" where
  "spec_kind t = (case t of StructType \<Rightarrow> ''class'' | InterfaceType \<Rightarrow> ''interface'' | OtherType \<Rightarrow> ''type'')"

fun decl_symbols :: "string \<Rightarrow> go_decl \<Rightarrow> symbol list" where
  "decl_symbols content (FuncDecl f) = [func_symbol content f]"
| "decl_symbols content (GenDecl doc pos end' specs) =
     List.map_filter (map_option (\<lambda>s. \<lparr>sym_Name = gs_name s, sym_QualifiedName = gs_name s, sym_Kind = spec_kind (gs_type s),
       sym_Language = ''go'', sym_Signature = signatureLine content (gs_pos s), sym_Documentation = commentText doc,
       sym_LineStart = pos, sym_LineEnd = end'\<rparr>)) specs"

definition extractGo :: "(string \<Rightarrow> go_file option) \<Rightarrow> string \<Rightarrow> symbol list" where
  "extractGo parse content =
     (case parse content of None \<Rightarrow> [] | Some file \<Rightarrow> concat (map (decl_symbols content) (go_decls file)))"

definition Extract :: "(string \<Rightarrow> go_file option) \<Rightarrow> string \<Rightarrow> string \<Rightarrow> symbol list" where
  "Extract parse path content =
     (let language = Language path in
      if language = ''go'' then extractGo parse content
      else if language = ''java'' then extractBraceLanguage content ''java'' javaTypeRE javaFuncRE
      else if language = ''typescript'' then extractTypeScript content
      else if language = ''python'' then extractPython content
      else if language = ''sql'' then extractSQL content
      else [])"

section \<open>Dependencies\<close>

definition dep_key :: "dependency \<Rightarrow> string" where
  "dep_key d = dep_FromSymbol d @ [CHR 0x00] @ dep_Target d @ [CHR 0x00] @ dep_Kind d @ [CHR 0x00] @ itoa (dep_Line d)"

definition uniqueDependencies :: "dependency list \<Rightarrow> dependency list" where
  "uniqueDependencies input =
     foldl (\<lambda>out d. if dep_Target d = [] \<or> dep_key d \<in> dep_key ` set out then out else out @ [d]) [] input"

definition line_dependencies :: "rx \<Rightarrow> string \<Rightarrow> nat \<times> string \<Rightarrow> dependency list" where
  "line_dependencies pattern kind = (\<lambda>(index, line).
     map (\<lambda>m. \<lparr>dep_FromSymbol = [], dep_Target = trim_chars (group_of m 1) [CHR 0x22], dep_Kind = kind, dep_Line = int index + 1\<rparr>)
       (find_all pattern line))"

definition extractLineDependencies :: "string \<Rightarrow> rx \<Rightarrow> string \<Rightarrow> dependency list" where
  "extractLineDependencies content pattern kind =
     uniqueDependencies (concat (map (line_dependencies pattern kind) (List.enumerate 0 (code_lines content))))"

fun expressionName :: "go_expr \<Rightarrow> string" where
  "expressionName (Ident n) = n"
| "expressionName (SelectorExpr x sel) = (if expressionName x = [] then sel else expressionName x @ ''.'' @ sel)"
| "expressionName (IndexExpr e) = expressionName e"
| "expressionName (IndexListExpr e) = expressionName e"
| "expressionName _ = []"

definition import_dependency :: "string option \<times> int \<Rightarrow> dependency option" where
  "import_dependency = (\<lambda>(target, line).
     map_option (\<lambda>t. \<lparr>dep_FromSymbol = [], dep_Target = t, dep_Kind = ''import'', dep_Line = line\<rparr>) target)"

definition call_dependencies :: "go_func \<Rightarrow> dependency list" where
  "call_dependencies f =
     (let from' = (case gf_recv f of [] \<Rightarrow> gf_name f | r # _ \<Rightarrow> receiverName r @ ''.'' @ gf_name f) in
      case gf_calls f of
        None \<Rightarrow> []
      | Some calls \<Rightarrow> List.map_filter (\<lambda>(e, line).
          if expressionName e \<noteq> [] \<and> expressionName e \<noteq> from'
          then Some \<lparr>dep_FromSymbol = from', dep_Target = expressionName e, dep_Kind = ''call'', dep_Line = line\<rparr> else None) calls)"

definition decl_dependencies :: "go_decl \<Rightarrow> dependency list" where
  "decl_dependencies d = (case d of FuncDecl f \<Rightarrow> call_dependencies f | GenDecl _ _ _ _ \<Rightarrow> [])"

definition extractGoDependencies :: "(string \<Rightarrow> go_file option) \<Rightarrow> string \<Rightarrow> dependency list" where
  "extractGoDependencies parse content =
     (case parse content of
        None \<Rightarrow> []
      | Some file \<Rightarrow> uniqueDependencies (List.map_filter import_dependency (go_imports file)
          @ concat (map decl_dependencies (go_decls file))))"

definition ExtractDependencies :: "(string \<Rightarrow> go_file option) \<Rightarrow> string \<Rightarrow> string \<Rightarrow> dependency list" where
  "ExtractDependencies parse path content =
     (let language = Language path in
      if language = ''go'' then extractGoDependencies parse content
      else if language = ''java'' then extractLineDependencies content javaImportRE ''import''
      else if language = ''typescript'' then
        extractLineDependencies content tsImportRE ''import'' @ extractLineDependencies content tsRequireRE ''import''
      else if language = ''python'' then
        extractLineDependencies content pythonImpRE ''import'' @ extractLineDependencies content pythonFromRE ''import''
      else if language = ''sql'' then extractLineDependencies content sqlRefRE ''data''
      else [])"

section \<open>The lines of a symbol\<close>

lemma brace_scan_bounds: "brace_scan depth opened index ls = Some n \<Longrightarrow> index < n \<and> n \<le> index + length ls"
proof (induction depth opened index ls rule: brace_scan.induct)
  case (2 depth opened index line rest)
  show ?case using 2(2) 2(1) [OF refl refl refl] by (auto simp: Let_def split: if_splits)
qed simp

lemma braceEnd_bounds: "start < length lines \<Longrightarrow> start < braceEnd lines start \<and> braceEnd lines start \<le> length lines"
  by (cases "brace_scan 0 False start (drop start lines)") (auto simp: braceEnd_def dest: brace_scan_bounds)

lemma python_end_bounds: "n \<le> python_end indent n ls \<and> python_end indent n ls \<le> n + length ls"
proof (induction ls arbitrary: n)
  case (Cons line rest)
  show ?case using Cons.IH [of "Suc n"] by (auto simp: Let_def)
qed simp

lemma sql_end_bounds: "end' \<le> sql_end end' line ls \<and> sql_end end' line ls \<le> end' + length ls"
proof (induction ls arbitrary: end' line)
  case (Cons l rest)
  show ?case using Cons.IH [of "Suc end'" l] by auto
qed simp

definition symbol_placed :: "string list \<Rightarrow> symbol \<Rightarrow> bool" where
  "symbol_placed lines s \<longleftrightarrow> 1 \<le> sym_LineStart s \<and> sym_LineStart s \<le> sym_LineEnd s \<and> sym_LineEnd s \<le> int (length lines)
     \<and> sym_Signature s = trim_space (lines ! nat (sym_LineStart s - 1))"

lemma line_symbol_placed: "index < end' \<Longrightarrow> end' \<le> length lines \<Longrightarrow> symbol_placed lines (line_symbol lines language index end' name kind)"
  by (simp add: symbol_placed_def line_symbol_def)

lemma each_line_placed:
  "(\<And>index s. index < length lines \<Longrightarrow> f lines index = Some s \<Longrightarrow> symbol_placed lines s) \<Longrightarrow> s \<in> set (each_line f lines) \<Longrightarrow> symbol_placed lines s"
  by (auto simp: each_line_def List.map_filter_def)

lemma brace_placed: "index < length lines \<Longrightarrow> symbol_placed lines (line_symbol lines language index (braceEnd lines index) name kind)"
  by (rule line_symbol_placed) (simp_all add: braceEnd_bounds)

lemma brace_symbol_placed:
  "index < length lines \<Longrightarrow> brace_symbol language typeRE functionRE lines index = Some s \<Longrightarrow> symbol_placed lines s"
  by (auto simp: brace_symbol_def brace_placed split: option.splits if_splits)

lemma arrow_symbol_placed: "index < length lines \<Longrightarrow> arrow_symbol lines index = Some s \<Longrightarrow> symbol_placed lines s"
  by (auto simp: arrow_symbol_def brace_placed)

lemma python_symbol_placed: "index < length lines \<Longrightarrow> python_symbol lines index = Some s \<Longrightarrow> symbol_placed lines s"
proof -
  assume index: "index < length lines" and "python_symbol lines index = Some s"
  then obtain indent name kind where s: "s = line_symbol lines ''python'' index (python_end indent (index + 1) (drop (index + 1) lines)) name kind"
    unfolding python_symbol_def Let_def by blast
  show "symbol_placed lines s" unfolding s
    by (rule line_symbol_placed) (use index python_end_bounds [of "index + 1" indent "drop (index + 1) lines"] in auto)
qed

lemma sql_symbol_placed: "index < length lines \<Longrightarrow> sql_symbol lines index = Some s \<Longrightarrow> symbol_placed lines s"
proof -
  assume index: "index < length lines" and "sql_symbol lines index = Some s"
  then obtain name kind where s: "s = line_symbol lines ''sql'' index (sql_end (index + 1) (lines ! index) (drop (index + 1) lines)) name kind"
    unfolding sql_symbol_def by blast
  show "symbol_placed lines s" unfolding s
    by (rule line_symbol_placed) (use index sql_end_bounds [of "index + 1" "lines ! index" "drop (index + 1) lines"] in auto)
qed

lemma kind_placed: "symbol_placed lines (s\<lparr>sym_Kind := kind\<rparr>) \<longleftrightarrow> symbol_placed lines s"
  by (simp add: symbol_placed_def)

lemma brace_language_placed:
  "s \<in> set (extractBraceLanguage content language typeRE functionRE) \<Longrightarrow> symbol_placed (code_lines content) s"
  unfolding extractBraceLanguage_def by (rule each_line_placed [OF brace_symbol_placed])

lemma typescript_placed: "s \<in> set (extractTypeScript content) \<Longrightarrow> symbol_placed (code_lines content) s"
  unfolding extractTypeScript_def
  by (auto simp: kind_placed dest: brace_language_placed intro: each_line_placed [OF arrow_symbol_placed])

lemma python_placed: "s \<in> set (extractPython content) \<Longrightarrow> symbol_placed (code_lines content) s"
  unfolding extractPython_def by (rule each_line_placed [OF python_symbol_placed])

lemma sql_placed: "s \<in> set (extractSQL content) \<Longrightarrow> symbol_placed (code_lines content) s"
  unfolding extractSQL_def by (rule each_line_placed [OF sql_symbol_placed])

lemma symbols_placed_any:
  "Language path \<noteq> ''go'' \<Longrightarrow> s \<in> set (Extract parse path content) \<Longrightarrow> symbol_placed (code_lines content) s"
  unfolding Extract_def Let_def
  by (auto dest: brace_language_placed typescript_placed python_placed sql_placed split: if_splits)

text \<open>Outside Go, every symbol found in a file starts at a line of the file, ends at that line or a
  later line of the file, and its signature is the trimmed text of the line it starts at.\<close>

theorem symbols_placed:
  "Language path \<noteq> ''go'' \<Longrightarrow> s \<in> set (Extract parse path content) \<Longrightarrow> symbol_placed (code_lines content) s"
  by (rule symbols_placed_any)

lemma language_of_python: "Language ''a.py'' = ''python''"
  by (simp add: Language_def path_Ext_def to_lower_def lower_char_def Let_def)

lemma replace_absent: "c \<notin> set s \<Longrightarrow> replace_str (c # old) new s = s"
  by (induction s) (simp_all add: replace_str.simps [of "c # old"])

lemma one_code_line: "CHR 0x0A \<notin> set s \<Longrightarrow> CHR 0x0D \<notin> set s \<Longrightarrow> code_lines s = [s]"
  by (simp add: code_lines_def replace_absent split_on_id)

lemma one_python_line:
  "extractPython ''def f():'' =
     [\<lparr>sym_Name = ''f'', sym_QualifiedName = ''f'', sym_Kind = ''function'', sym_Language = ''python'',
       sym_Signature = ''def f():'', sym_Documentation = [], sym_LineStart = 1, sym_LineEnd = 1\<rparr>]"
  by (simp add: extractPython_def each_line_def one_code_line python_symbol_def pythonRE_def regexp_eval group_of_def line_symbol_def List.map_filter_def
      trim_space_visible visible_def)

lemma each_line_ascending:
  "(\<And>index s. f lines index = Some s \<Longrightarrow> sym_LineStart s = int index + 1) \<Longrightarrow>
   sorted_wrt (<) (map sym_LineStart (each_line f lines))"
proof -
  assume start: "\<And>index s. f lines index = Some s \<Longrightarrow> sym_LineStart s = int index + 1"
  have "sorted_wrt (<) (map sym_LineStart (map (\<lambda>x. the (f lines x)) (filter (\<lambda>x. f lines x \<noteq> None) [0..<length lines])))"
    unfolding map_map by (subst sorted_wrt_map, rule sorted_wrt_mono_rel [OF _ sorted_wrt_filter [OF sorted_wrt_upt]]) (auto simp: start)
  then show "sorted_wrt (<) (map sym_LineStart (each_line f lines))" by (simp add: each_line_def List.map_filter_def comp_def)
qed

lemma starts_at [simp]: "sym_LineStart (line_symbol lines language index end' name kind) = int index + 1"
  by (simp add: line_symbol_def)

text \<open>The symbols of a Java, Python or SQL file start at ever later lines, so no two of them are the same
  row of the index, whose key is the name and the line it starts at.\<close>

theorem one_symbol_per_line:
  "Language path \<in> {''java'', ''python'', ''sql''} \<Longrightarrow> sorted_wrt (<) (map sym_LineStart (Extract parse path content))"
  unfolding Extract_def Let_def extractBraceLanguage_def extractPython_def extractSQL_def
  by (elim insertE emptyE; simp; rule each_line_ascending)
    (auto simp: brace_symbol_def python_symbol_def sql_symbol_def Let_def split: option.splits if_splits)

lemma one_symbol_per_line_witness: "sorted_wrt (<) (map sym_LineStart (Extract (\<lambda>_. None) ''a.py'' ''def f():''))"
  by (rule one_symbol_per_line) (simp add: language_of_python)

lemma symbols_placed_witness:
  "symbol_placed [''def f():''] (hd (Extract (\<lambda>_. None) ''a.py'' ''def f():''))"
proof -
  have "symbol_placed (code_lines ''def f():'') (hd (Extract (\<lambda>_. None) ''a.py'' ''def f():''))"
    by (rule symbols_placed [where path = "''a.py''" and parse = "\<lambda>_. None"])
      (simp_all add: language_of_python Extract_def one_python_line)
  then show ?thesis by (simp add: one_code_line)
qed

section \<open>Dependencies stand once\<close>

definition dependencies_once :: "dependency list \<Rightarrow> bool" where
  "dependencies_once ds \<longleftrightarrow> distinct (map dep_key ds) \<and> list_all (\<lambda>d. dep_Target d \<noteq> []) ds"

lemma once_extend:
  "dependencies_once out \<Longrightarrow> dependencies_once (if dep_Target d = [] \<or> dep_key d \<in> dep_key ` set out then out else out @ [d])"
  by (auto simp: dependencies_once_def simp del: list_all_iff)

lemma unique_once: "dependencies_once (uniqueDependencies ds)"
proof -
  have "dependencies_once out \<Longrightarrow> dependencies_once
      (foldl (\<lambda>out d. if dep_Target d = [] \<or> dep_key d \<in> dep_key ` set out then out else out @ [d]) out ds)" for out
    by (induction ds arbitrary: out) (simp_all only: foldl.simps once_extend)
  from this [of "[]"] show ?thesis by (simp add: dependencies_once_def uniqueDependencies_def)
qed

lemma none_once: "dependencies_once []"
  by (simp add: dependencies_once_def)

text \<open>A source file of a language with a single form of import yields each dependency once, and none with
  an empty target.\<close>

theorem dependencies_unique:
  "Language path \<notin> {''typescript'', ''python''} \<Longrightarrow> dependencies_once (ExtractDependencies parse path content)"
  unfolding ExtractDependencies_def Let_def extractLineDependencies_def extractGoDependencies_def
  by (simp add: unique_once none_once split: option.splits)

lemma dependencies_unique_witness: "dependencies_once (ExtractDependencies (\<lambda>_. None) ''a.txt'' ''x'')"
  by (rule dependencies_unique) (simp add: Language_def path_Ext_def to_lower_def lower_char_def Let_def)

text \<open>
  What the patterns take for a symbol or a dependency: a call that is returned is a method for the Java pattern,
  an import for its side effects is no import for the TypeScript pattern, and an import and a require of one
  module on a line give two rows of one key.
\<close>

lemma java_return_is_method:
  "map sym_Name (extractBraceLanguage ''   return foo(x);'' ''java'' javaTypeRE javaFuncRE) = [''foo'']"
  by (simp add: extractBraceLanguage_def each_line_def one_code_line brace_symbol_def javaTypeRE_def javaFuncRE_def regexp_eval group_of_def
      controlKeyword_def line_symbol_def List.map_filter_def)

lemma bare_import_missed: "extractLineDependencies ''import 'm';'' tsImportRE ''import'' = []"
  by (simp add: extractLineDependencies_def one_code_line line_dependencies_def tsImportRE_def regexp_eval_all uniqueDependencies_def)

lemma typescript_row_twice:
  "\<exists>d. extractLineDependencies ''import a from 'm';require('m')'' tsImportRE ''import'' = [d] \<and>
     extractLineDependencies ''import a from 'm';require('m')'' tsRequireRE ''import'' = [d]"
  by (simp add: extractLineDependencies_def one_code_line line_dependencies_def tsImportRE_def tsRequireRE_def regexp_eval_all
     uniqueDependencies_def group_of_def trim_chars_def trim_left_def trim_right_def)

end
