(* ===== verification/Indexer.thy ===== *)
theory Indexer
  imports CodeIntel Lockfile Sanitize "HOL-Library.Multiset"
begin

text \<open>
  What the indexer decides about a file: \<^verbatim>\<open>internal/indexer/indexer.go\<close> without the tables, and the
  library ids of \<^verbatim>\<open>internal/source/source.go\<close>. The policy and its fingerprint, which files it lets in, how
  a file is cut into chunks, the packages of a manifest, the state of the vectors and the map of a
  repository. SHA-256, the letters of Unicode, the decoders of JSON, the parser of Go and the order
  \<^verbatim>\<open>sort.Slice\<close> gives to equal elements are arguments. \<open>None\<close> is a panic. Paths have slashes
  already, as on every system the program is built for.
\<close>

section \<open>The policy\<close>

record Policy =
  IncludeExtensions :: "string list"
  ExcludePrefixes :: "string list"
  MaxFileBytes :: int

text \<open>\<open>sha256_16\<close> and \<open>rules\<close>: the first eight bytes of the digest in hexadecimal, and the revision of the
  masking rules.\<close>

definition policy_Revision :: "(string \<Rightarrow> string) \<Rightarrow> string \<Rightarrow> Policy \<Rightarrow> string" where
  "policy_Revision sha256_16 rules p =
     sha256_16 (join_with '','' (sort (IncludeExtensions p)) @ [CHR 0x00] @ join_with '','' (sort (ExcludePrefixes p)) @ [CHR 0x00]
       @ itoa (MaxFileBytes p) @ [CHR 0x00] @ rules)"

definition PolicyChangedRevision :: string where "PolicyChangedRevision = ''policy-changed''"

definition DefaultPolicy :: Policy where
  "DefaultPolicy =
     \<lparr>IncludeExtensions =
        [''.md'', ''.mdx'', ''.rst'', ''.txt'', ''.adoc'', ''.asciidoc'',
         ''.yaml'', ''.yml'', ''.json'', ''.jsonc'', ''.xml'', ''.toml'', ''.ini'', ''.conf'', ''.cfg'', ''.properties'',
         ''.mod'', ''.gradle'', ''.sbt'', ''.bzl'', ''.cmake'', ''.tf'', ''.tfvars'', ''.proto'', ''.graphql'', ''.gql'',
         ''.go'', ''.java'', ''.kt'', ''.kts'', ''.scala'', ''.groovy'',
         ''.ts'', ''.tsx'', ''.js'', ''.jsx'', ''.mjs'', ''.cjs'', ''.vue'', ''.svelte'',
         ''.py'', ''.rb'', ''.php'', ''.cs'', ''.fs'', ''.rs'', ''.swift'', ''.dart'', ''.lua'', ''.pl'', ''.r'',
         ''.c'', ''.h'', ''.cc'', ''.cpp'', ''.hpp'', ''.hh'', ''.m'', ''.mm'',
         ''.sh'', ''.bash'', ''.zsh'', ''.ps1'', ''.bat'',
         ''.sql'', ''.ddl'', ''.pks'', ''.pkb''],
      ExcludePrefixes = [''node_modules/'', ''vendor/'', ''dist/'', ''build/'', ''target/'', ''.git/'', ''.idea/'', ''secrets/''],
      MaxFileBytes = 1048576\<rparr>"

definition indexableByName :: "string list" where
  "indexableByName = [''dockerfile'', ''containerfile'', ''makefile'', ''jenkinsfile'', ''readme'', ''changelog'', ''codeowners'', ''procfile'']"

text \<open>\<^verbatim>\<open>New\<close>: a policy without extensions is replaced as a whole.\<close>

definition effective_policy :: "Policy \<Rightarrow> Policy" where
  "effective_policy p = (if IncludeExtensions p = [] then DefaultPolicy else p)"

record source_file =
  sf_Path :: string
  sf_Size :: int

definition allowed :: "Policy \<Rightarrow> source_file \<Rightarrow> bool" where
  "allowed policy f =
     (let p = trim_prefix (sf_Path f) ''./'';
          withinSize = (sf_Size f = 0 \<or> sf_Size f \<le> MaxFileBytes policy);
          ext = to_lower (path_Ext p) in
      if list_ex (\<lambda>x. has_prefix p x) (ExcludePrefixes policy) then False
      else if list_ex (\<lambda>x. ext = to_lower (trim_space x)) (IncludeExtensions policy) then withinSize
      else if ext = [] \<and> to_lower (path_Base p) \<in> set indexableByName then withinSize
      else False)"

section \<open>Library ids\<close>

text \<open>\<open>letter\<close>: the runes that \<^verbatim>\<open>unicode.IsLetter\<close> or \<^verbatim>\<open>unicode.IsDigit\<close> accept.\<close>

definition id_rune :: "(nat \<Rightarrow> bool) \<Rightarrow> nat \<Rightarrow> bool" where
  "id_rune letter r \<longleftrightarrow> letter r \<or> among ''._-'' r"

fun id_part :: "(nat \<Rightarrow> bool) \<Rightarrow> bool \<Rightarrow> cell list \<Rightarrow> string" where
  "id_part letter dash [] = []"
| "id_part letter dash ((r, t) # cs) =
     (if id_rune letter r then t @ id_part letter False cs
      else if dash then id_part letter True cs
      else CHR ''-'' # id_part letter True cs)"

definition normalizeIDPart :: "(nat \<Rightarrow> bool) \<Rightarrow> string \<Rightarrow> string" where
  "normalizeIDPart letter v = trim_chars (id_part letter False (cells (to_lower (trim_space v)))) ''-''"

definition source_LibraryID :: "(nat \<Rightarrow> bool) \<Rightarrow> string \<Rightarrow> string \<Rightarrow> string \<Rightarrow> string" where
  "source_LibraryID letter sourceType projectKey slug =
     (let project = normalizeIDPart letter projectKey;
          project = (if sourceType \<noteq> [] \<and> sourceType \<noteq> ''bitbucket'' then normalizeIDPart letter sourceType @ ''~'' @ project else project) in
      ''/'' @ project @ ''/'' @ normalizeIDPart letter slug)"

definition normalize_id :: "(nat \<Rightarrow> bool) \<Rightarrow> string \<Rightarrow> string" where
  "normalize_id letter s = trim_chars (id_part letter False (cells (to_lower (trim_space s)))) ''-''"

definition indexer_LibraryID :: "(nat \<Rightarrow> bool) \<Rightarrow> string \<Rightarrow> string \<Rightarrow> string" where
  "indexer_LibraryID letter projectKey slug = ''/'' @ normalize_id letter projectKey @ ''/'' @ normalize_id letter slug"

definition LibraryIDForSource :: "(nat \<Rightarrow> bool) \<Rightarrow> string \<Rightarrow> string \<Rightarrow> string \<Rightarrow> string" where
  "LibraryIDForSource letter sourceType projectKey slug = source_LibraryID letter sourceType projectKey slug"

section \<open>Chunks\<close>

record chunk =
  ch_Heading :: string
  ch_Content :: string
  ch_Start :: nat
  ch_End :: nat

definition headingRE :: rx where
  "headingRE = seqs [text_start, Grp 1 (Cat (exactly 1 (lit ''#'')) (up_to 5 (lit ''#''))), some (Sym space_rune),
     Grp 2 (Cat (Sym (\<lambda>x. x \<noteq> 10)) (Rep False (Sym (\<lambda>x. x \<noteq> 10)))),
     many (Sym space_rune), text_end]"

definition isCommentLine :: "string \<Rightarrow> bool" where
  "isCommentLine trimmed \<longleftrightarrow> trimmed \<noteq> [] \<and>
     (has_prefix trimmed ''//'' \<or> has_prefix trimmed ''#'' \<or> has_prefix trimmed ''/*'' \<or> has_prefix trimmed ''*''
      \<or> has_prefix trimmed ''--'' \<or> has_prefix trimmed [CHR 0x22, CHR 0x22, CHR 0x22])"

definition mostCommentLines :: nat where "mostCommentLines = 40"

text \<open>The loop at line \<open>n\<close>; the lines from \<open>n + 1\<close> to the declaration are taken.\<close>

fun comment_walk :: "string list \<Rightarrow> nat \<Rightarrow> nat \<Rightarrow> nat option" where
  "comment_walk lines declaration 0 = Some 1"
| "comment_walk lines declaration (Suc n) =
     (if mostCommentLines < declaration - Suc n then Some (Suc (Suc n))
      else if length lines \<le> n then None
      else if isCommentLine (trim_space (lines ! n)) then comment_walk lines declaration n
      else Some (Suc (Suc n)))"

definition commentStart :: "string list \<Rightarrow> nat \<Rightarrow> nat option" where
  "commentStart lines declaration = comment_walk lines declaration (declaration - 1)"

text \<open>The slice of lines \<^verbatim>\<open>[start-1:end]\<close>; it panics out of range.\<close>

definition lines_slice :: "string list \<Rightarrow> nat \<Rightarrow> int \<Rightarrow> string list option" where
  "lines_slice lines start end' =
     (if end' < int start - 1 \<or> int (length lines) < end' then None
      else Some (take (nat end' - (start - 1)) (drop (start - 1) lines)))"

definition symbol_chunk :: "string list \<Rightarrow> symbol \<Rightarrow> chunk option" where
  "symbol_chunk lines s =
     (let end' = min (int (length lines)) (max (sym_LineStart s) (sym_LineEnd s)) in
      case commentStart lines (nat (max 1 (sym_LineStart s))) of
        None \<Rightarrow> None
      | Some start \<Rightarrow>
          map_option (\<lambda>part. \<lparr>ch_Heading = sym_QualifiedName s, ch_Content = trim_space (join_with [CHR 0x0A] part),
              ch_Start = start, ch_End = nat end'\<rparr>) (lines_slice lines start end'))"

definition close_section :: "string \<Rightarrow> nat \<Rightarrow> string list \<Rightarrow> nat \<Rightarrow> chunk list" where
  "close_section heading start body end' =
     (let text = trim_space (join_with [CHR 0x0A] body) in
      if text \<noteq> [] then [\<lparr>ch_Heading = heading, ch_Content = text, ch_Start = start, ch_End = end'\<rparr>] else [])"

fun heading_chunks :: "string \<Rightarrow> nat \<Rightarrow> string list \<Rightarrow> nat \<Rightarrow> string list \<Rightarrow> chunk list" where
  "heading_chunks heading start body n [] = close_section heading start body n"
| "heading_chunks heading start body n (line # rest) =
     (case find_match headingRE line of
        Some m \<Rightarrow> close_section heading start body n @ heading_chunks (group_of m 2) (n + 1) [] (n + 1) rest
      | None \<Rightarrow> heading_chunks heading start (body @ [line]) (n + 1) rest)"

definition parse_chunks :: "(string \<Rightarrow> go_file option) \<Rightarrow> string \<Rightarrow> string \<Rightarrow> chunk list option" where
  "parse_chunks go path content =
     (let lines = code_lines content; symbols = Extract go path content in
      if symbols \<noteq> [] then those (map (symbol_chunk lines) symbols)
      else Some (heading_chunks path 1 [] 0 lines))"

section \<open>Kinds of files and rights\<close>

definition readable_permission :: "string \<Rightarrow> bool" where
  "readable_permission p0 =
     (let p = to_lower p0 in
      p \<in> {''read'', ''write'', ''admin'', ''repo_read'', ''repo_write'', ''repo_admin'', ''project_read'', ''project_write'',
        ''project_admin'', ''sys_admin'', ''reporter'', ''developer'', ''maintainer'', ''owner''} \<or> contains_str p ''read'')"

definition contentType :: "string \<Rightarrow> string" where
  "contentType path =
     (let ext = to_lower (path_Ext path) in
      if ext \<in> {''.md'', ''.mdx'', ''.rst'', ''.txt'', ''.adoc'', ''.asciidoc''} then ''document''
      else if ext \<in> {''.yaml'', ''.yml'', ''.json''} then ''configuration''
      else ''code'')"

definition truncate_text :: "string \<Rightarrow> nat \<Rightarrow> string" where
  "truncate_text s n = (if n < length s then take n s else s)"

definition isKeyFile :: "string \<Rightarrow> bool" where
  "isKeyFile path \<longleftrightarrow> to_lower (path_Base path) \<in>
     {''readme.md'', ''go.mod'', ''pom.xml'', ''build.gradle'', ''package.json'', ''dockerfile'', ''compose.yaml'',
      ''docker-compose.yml'', ''openapi.yaml'', ''openapi.yml'', ''swagger.yaml'', ''chart.yaml'', ''main.go''}"

section \<open>Packages\<close>

definition maxManifestsPerRef :: nat where "maxManifestsPerRef = 60"
definition maxPackagesPerRef :: nat where "maxPackagesPerRef = 20000"
definition packageInsertBatch :: nat where "packageInsertBatch = 200"

record inventoryPackage =
  ip_Package :: package
  ip_ManifestPath :: string

definition appendPackages ::
    "(string \<Rightarrow> package_json option) \<Rightarrow> lock_decoders \<Rightarrow> inventoryPackage list \<Rightarrow> string \<Rightarrow> string \<Rightarrow> inventoryPackage list" where
  "appendPackages decode locks out path content =
     out @ map (\<lambda>item. \<lparr>ip_Package = item, ip_ManifestPath = path\<rparr>)
       (filter (\<lambda>item. trim_space (pkg_Name item) \<noteq> []) (Parse decode path content @ ParseLock locks path content))"

section \<open>The state of the vectors\<close>

definition describeEmbeddingState :: "string \<Rightarrow> nat \<Rightarrow> nat \<Rightarrow> string list \<Rightarrow> string \<times> string" where
  "describeEmbeddingState revision chunks embedded warnings =
     (let message = (if warnings = [] then [] else truncate_text (join_with ''; '' (take 3 warnings)) 1000) in
      if chunks = 0 then (''empty'', message)
      else if revision = ''keyword-only'' then (if message \<noteq> [] then (''degraded'', message) else (''disabled'', []))
      else if message \<noteq> [] then (''degraded'', message)
      else if embedded = chunks then (''ready'', [])
      else if embedded = 0 then (''unavailable'', ''no chunks have embeddings'')
      else (''partial'', itoa_nat embedded @ '' of '' @ itoa_nat chunks @ '' chunks have embeddings''))"

section \<open>The map of a repository\<close>

record repositoryMap =
  map_Languages :: "(string \<times> nat) list"
  map_Symbols :: "(string \<times> nat) list"
  map_Directories :: "string list"
  map_KeyFiles :: "string list"
  map_EntryPoints :: "string list"

text \<open>A row of symbols as the map reads it, and the counters, which \<^verbatim>\<open>json.Marshal\<close> prints by key.\<close>

record map_symbol =
  ms_language :: string
  ms_kind :: string
  ms_qualified :: string
  ms_path :: string
  ms_line :: int

definition counted :: "string list \<Rightarrow> (string \<times> nat) list" where
  "counted xs = map (\<lambda>x. (x, count_list xs x)) (sorted_list_of_set (set xs))"

definition is_entry_point :: "map_symbol \<Rightarrow> bool" where
  "is_entry_point s \<longleftrightarrow> ms_kind s \<in> {''function'', ''method'', ''class'', ''interface''}"

definition point_key :: "map_symbol \<Rightarrow> string \<times> int" where
  "point_key s = (ms_path s, ms_line s)"

definition top_directory :: "string \<Rightarrow> string option" where
  "top_directory path = (let parts = split_on (CHR ''/'') path in if 1 < length parts then Some (hd parts) else None)"

definition repository_map :: "(map_symbol list \<Rightarrow> map_symbol list) \<Rightarrow> map_symbol list \<Rightarrow> string list \<Rightarrow> repositoryMap" where
  "repository_map sort_points symbols paths =
     \<lparr>map_Languages = counted (map ms_language symbols), map_Symbols = counted (map ms_kind symbols),
      map_Directories = sorted_list_of_set (set (List.map_filter top_directory paths)),
      map_KeyFiles = sort (filter isKeyFile paths),
      map_EntryPoints = map (\<lambda>s. ms_path s @ '':'' @ ms_qualified s) (take 50 (sort_points (filter is_entry_point symbols)))\<rparr>"

section \<open>Library ids of different sources\<close>

lemma id_part_chars: "c \<in> set (id_part letter dash cs) \<Longrightarrow> c = CHR ''-'' \<or> (\<exists>r t. (r, t) \<in> set cs \<and> id_rune letter r \<and> c \<in> set t)"
  by (induction letter dash cs rule: id_part.induct) (auto split: if_splits)

lemma trim_chars_subset: "set (trim_chars s cs) \<subseteq> set s"
  unfolding trim_chars_def trim_right_def trim_left_def
  by (metis dual_order.trans set_dropWhileD set_rev subsetI)

lemma normalized_ascii:
  assumes "c \<in> set (normalizeIDPart letter v)" "byte_val c < 128"
  shows "c = CHR ''-'' \<or> id_rune letter (byte_val c)"
proof -
  have "c \<in> set (id_part letter False (cells (to_lower (trim_space v))))"
    using assms(1) trim_chars_subset unfolding normalizeIDPart_def by blast
  from id_part_chars [OF this] show ?thesis using assms(2) cells_ascii_bytes by blast
qed

text \<open>What the ids need of Unicode: its tables take the letters of ASCII, and neither a slash nor a tilde.\<close>

definition plain_letters :: "(nat \<Rightarrow> bool) \<Rightarrow> bool" where
  "plain_letters letter \<longleftrightarrow> list_all letter [97..<123] \<and> \<not> letter 47 \<and> \<not> letter 126"

lemma normalized_no_mark:
  "plain_letters letter \<Longrightarrow> CHR ''~'' \<notin> set (normalizeIDPart letter v) \<and> CHR ''/'' \<notin> set (normalizeIDPart letter v)"
  using normalized_ascii [of "CHR ''~''" letter v] normalized_ascii [of "CHR ''/''" letter v]
  by (auto simp: plain_letters_def id_rune_def among_def byte_val_def)

lemma before_mark: "c \<notin> set a \<Longrightarrow> c \<notin> set a' \<Longrightarrow> a @ c # b = a' @ c # b' \<Longrightarrow> a = a'"
proof -
  assume "c \<notin> set a" "c \<notin> set a'" and eq: "a @ c # b = a' @ c # b'"
  have cut: "c \<notin> set u \<Longrightarrow> takeWhile (\<lambda>x. x \<noteq> c) (u @ c # v) = u" for u v
    by (induction u) auto
  show "a = a'" using cut [of a b] cut [of a' b'] eq \<open>c \<notin> set a\<close> \<open>c \<notin> set a'\<close> by simp
qed

lemma normalized_source:
  assumes "plain_letters letter"
  shows "normalizeIDPart letter ''gitlab'' = ''gitlab''" "normalizeIDPart letter ''confluence'' = ''confluence''"
    "normalizeIDPart letter ''jira'' = ''jira''"
  using assms by (simp_all add: plain_letters_def upt_rec normalizeIDPart_def trim_space_visible visible_def to_lower_def
      lower_char_def cells_ascii byte_val_def id_rune_def trim_chars_def trim_left_def trim_right_def)

definition source_types :: "string set" where
  "source_types = {''bitbucket'', ''gitlab'', ''confluence'', ''jira''}"

text \<open>C20: no two sources share a library id. Whatever the keys and names of their projects, a repository of
  one source and a repository of another are never given the same id.\<close>

theorem library_ids_separate:
  assumes "plain_letters letter" "s \<in> source_types" "s' \<in> source_types"
    "source_LibraryID letter s project slug = source_LibraryID letter s' project' slug'"
  shows "s = s'"
proof -
  note clean = normalized_no_mark [OF assms(1)]
  define mark where "mark = (\<lambda>s. if s = ''bitbucket'' then [] else s @ ''~'')"
  have id: "source_LibraryID letter t p q = ''/'' @ (mark t @ normalizeIDPart letter p) @ CHR ''/'' # normalizeIDPart letter q"
    if "t \<in> source_types" for t p q
    using that unfolding source_types_def source_LibraryID_def mark_def Let_def
    by (elim insertE emptyE) (simp_all add: normalized_source [OF assms(1)])
  have slash: "CHR ''/'' \<notin> set (mark t @ normalizeIDPart letter p)" if "t \<in> source_types" for t p
    using that clean [of p] unfolding source_types_def mark_def by (elim insertE emptyE) simp_all
  have "(mark s @ normalizeIDPart letter project) @ CHR ''/'' # normalizeIDPart letter slug
      = (mark s' @ normalizeIDPart letter project') @ CHR ''/'' # normalizeIDPart letter slug'"
    using assms(4) unfolding id [OF assms(2)] id [OF assms(3)] append_Cons append_Nil list.inject by (rule conjunct2)
  then have parts: "mark s @ normalizeIDPart letter project = mark s' @ normalizeIDPart letter project'"
    by (rule before_mark [OF slash [OF assms(2)] slash [OF assms(3)]])
  have tilde: "mark t @ normalizeIDPart letter p = t @ CHR ''~'' # normalizeIDPart letter p" if "t \<noteq> ''bitbucket''" for t p
    using that by (simp add: mark_def)
  have clear: "CHR ''~'' \<notin> set t" if "t \<in> source_types" for t
    using that unfolding source_types_def by (elim insertE emptyE) simp_all
  show ?thesis
  proof (cases "s = ''bitbucket'' \<or> s' = ''bitbucket''")
    case True
    have "CHR ''~'' \<in> set (mark t @ normalizeIDPart letter p) \<longleftrightarrow> t \<noteq> ''bitbucket''" for t p
      using clean [of p] by (simp add: mark_def)
    then show ?thesis using parts True by metis
  next
    case False
    then have "s @ CHR ''~'' # normalizeIDPart letter project = s' @ CHR ''~'' # normalizeIDPart letter project'"
      using parts tilde by simp
    then show ?thesis by (rule before_mark [OF clear [OF assms(2)] clear [OF assms(3)]])
  qed
qed

lemma library_ids_separate_witness:
  "source_LibraryID (\<lambda>r. 97 \<le> r \<and> r < 123) ''gitlab'' ''a'' ''b'' \<noteq> source_LibraryID (\<lambda>r. 97 \<le> r \<and> r < 123) ''jira'' ''a'' ''b''"
proof
  assume "source_LibraryID (\<lambda>r. 97 \<le> r \<and> r < 123) ''gitlab'' ''a'' ''b'' = source_LibraryID (\<lambda>r. 97 \<le> r \<and> r < 123) ''jira'' ''a'' ''b''"
  from library_ids_separate [OF _ _ _ this] show False by (simp add: plain_letters_def source_types_def list_all_iff)
qed


section \<open>A chunk is the lines it cites\<close>

text \<open>The content is the trimmed text of the lines from the start to the end, without the first one where it is the heading.\<close>

definition chunk_cites :: "string list \<Rightarrow> chunk \<Rightarrow> bool" where
  "chunk_cites lines c \<longleftrightarrow> 1 \<le> ch_Start c \<and> ch_Start c \<le> ch_End c \<and> ch_End c \<le> length lines \<and>
     (\<exists>skipped \<le> 1. ch_Content c = trim_space (join_with [CHR 0x0A]
        (drop (ch_Start c - 1 + skipped) (take (ch_End c) lines))))"

lemma comment_walk_bounds: "comment_walk lines d n = Some start \<Longrightarrow> 1 \<le> start \<and> start \<le> Suc n"
  by (induction lines d n rule: comment_walk.induct) (auto split: if_splits)

lemma comment_walk_total: "n \<le> length lines \<Longrightarrow> \<exists>start. comment_walk lines d n = Some start"
  by (induction n) auto

lemma symbol_chunk_cites:
  assumes "symbol_placed lines s"
  shows "\<exists>c. symbol_chunk lines s = Some c \<and> chunk_cites lines c"
proof -
  define first where "first = nat (sym_LineStart s)"
  define last' where "last' = nat (sym_LineEnd s)"
  have placed: "1 \<le> first" "first \<le> last'" "last' \<le> length lines" "nat (max 1 (sym_LineStart s)) = first"
    "min (int (length lines)) (max (sym_LineStart s) (sym_LineEnd s)) = int last'"
    using assms by (auto simp: symbol_placed_def first_def last'_def)
  have "first - 1 \<le> length lines" using placed(2,3) by linarith
  then obtain start where start: "commentStart lines first = Some start"
    using comment_walk_total unfolding commentStart_def by blast
  then have bounds: "1 \<le> start" "start \<le> first"
    using comment_walk_bounds [of lines first "first - 1" start] placed(1) by (auto simp: commentStart_def)
  then have slice: "lines_slice lines start (int last') = Some (take (last' - (start - 1)) (drop (start - 1) lines))"
    using placed by (simp add: lines_slice_def)
  show ?thesis
    unfolding symbol_chunk_def placed Let_def start option.case slice option.map
    by (rule exI, rule conjI [OF refl]) (use bounds placed in \<open>auto simp: chunk_cites_def drop_take intro: exI [of _ 0]\<close>)
qed

lemma close_section_cites:
  assumes "start \<ge> 1" "skipped \<le> 1" "body = drop (start - 1 + skipped) pre" "c \<in> set (close_section heading start body (length pre))"
  shows "chunk_cites (pre @ rest) c"
proof -
  have c: "c = \<lparr>ch_Heading = heading, ch_Content = trim_space (join_with [CHR 0x0A] body), ch_Start = start, ch_End = length pre\<rparr>"
    and "trim_space (join_with [CHR 0x0A] body) \<noteq> []"
    using assms(4) by (auto simp: close_section_def Let_def split: if_splits)
  then have "body \<noteq> []" by auto
  then have "start - 1 + skipped < length pre" using assms(3) by simp
  then show ?thesis using assms(1-3) by (auto simp: chunk_cites_def c)
qed

lemma heading_chunks_cite:
  "start \<ge> 1 \<Longrightarrow> skipped \<le> 1 \<Longrightarrow> start - 1 + skipped \<le> length pre \<Longrightarrow>
   c \<in> set (heading_chunks heading start (drop (start - 1 + skipped) pre) (length pre) rest) \<Longrightarrow> chunk_cites (pre @ rest) c"
proof (induction rest arbitrary: heading start skipped pre)
  case Nil
  then show ?case using close_section_cites [where rest = "[]"] by auto
next
  case (Cons line rest)
  show ?case
  proof (cases "find_match headingRE line")
    case None
    then have "c \<in> set (heading_chunks heading start (drop (start - 1 + skipped) (pre @ [line])) (length (pre @ [line])) rest)"
      using Cons.prems by simp
    from Cons.IH [OF Cons.prems(1,2) _ this] show ?thesis using Cons.prems(3) by simp
  next
    case (Some m)
    consider "c \<in> set (close_section heading start (drop (start - 1 + skipped) pre) (length pre))"
      | "c \<in> set (heading_chunks (group_of m 2) (Suc (length pre)) (drop (Suc (length pre) - 1 + 1) (pre @ [line])) (length (pre @ [line])) rest)"
      using Cons.prems(4) Some by auto
    then show ?thesis
    proof cases
      case 1
      then show ?thesis using close_section_cites Cons.prems(1,2) by blast
    next
      case 2
      from Cons.IH [OF _ _ _ this] show ?thesis by simp
    qed
  qed
qed

lemma document_chunks_cite: "c \<in> set (heading_chunks path 1 [] 0 lines) \<Longrightarrow> chunk_cites lines c"
  using heading_chunks_cite [of 1 0 "[]" c path lines] by simp

lemma those_all: "(\<And>x. x \<in> set xs \<Longrightarrow> \<exists>y. f x = Some y \<and> P y) \<Longrightarrow> \<exists>ys. those (map f xs) = Some ys \<and> list_all P ys"
proof (induction xs)
  case (Cons x xs)
  then obtain y ys where "f x = Some y" "P y" "those (map f xs) = Some ys" "list_all P ys" by force
  then show ?case by simp
qed simp

text \<open>C25: outside Go, cutting a file never panics, and each chunk cites lines of the file, in order, whose
  trimmed text it is, the line of its heading left out.\<close>

theorem chunks_cite_their_lines:
  assumes "Language path \<noteq> ''go''"
  shows "\<exists>chunks. parse_chunks go path content = Some chunks \<and> list_all (chunk_cites (code_lines content)) chunks"
proof (cases "Extract go path content = []")
  case True
  then show ?thesis using document_chunks_cite by (auto simp: parse_chunks_def Let_def list_all_iff)
next
  case False
  have "symbol_placed (code_lines content) s" if "s \<in> set (Extract go path content)" for s
    using assms that by (rule symbols_placed_any)
  then have "\<exists>chunks. those (map (symbol_chunk (code_lines content)) (Extract go path content)) = Some chunks
      \<and> list_all (chunk_cites (code_lines content)) chunks"
    using symbol_chunk_cites by (intro those_all) blast
  then show ?thesis using False by (simp add: parse_chunks_def Let_def)
qed

lemma chunks_cite_their_lines_witness:
  "\<exists>chunks. parse_chunks (\<lambda>_. None) ''a.py'' ''def f():'' = Some chunks \<and> list_all (chunk_cites [''def f():'']) chunks"
  using chunks_cite_their_lines [of "''a.py''" "\<lambda>_. None" "''def f():''"] by (simp add: language_of_python one_code_line)

section \<open>Go declarations\<close>

text \<open>
  Two types of one group, \<^verbatim>\<open>type ( A struct{}; B struct{} )\<close>, are placed at the lines of the whole group: their
  chunks have one start and one content, and the row of a chunk is keyed by just these. A position
  past the end of the file, which a \<^verbatim>\<open>//line\<close> directive produces, is no line at all.
\<close>

lemma group_makes_one_chunk:
  assumes "symbol_placed lines s" "sym_LineStart t = sym_LineStart s" "sym_LineEnd t = sym_LineEnd s"
  shows "\<exists>c d. symbol_chunk lines s = Some c \<and> symbol_chunk lines t = Some d \<and> ch_Start c = ch_Start d \<and> ch_Content c = ch_Content d"
proof -
  obtain c where c: "symbol_chunk lines s = Some c" using symbol_chunk_cites [OF assms(1)] by blast
  then have "symbol_chunk lines t = Some (c\<lparr>ch_Heading := sym_QualifiedName t\<rparr>)"
    unfolding symbol_chunk_def assms(2,3) Let_def by (auto split: option.splits)
  then show ?thesis using c by simp
qed

lemma line_directive_panics: "int (length lines) + 1 < sym_LineStart s \<Longrightarrow> symbol_chunk lines s = None"
proof -
  assume past: "int (length lines) + 1 < sym_LineStart s"
  define n where "n = nat (sym_LineStart s) - 2"
  have n: "nat (max 1 (sym_LineStart s)) = Suc (Suc n)" "length lines \<le> n" using past by (auto simp: n_def)
  then have "commentStart lines (nat (max 1 (sym_LineStart s))) = None" unfolding n(1) commentStart_def by (simp add: mostCommentLines_def)
  then show "symbol_chunk lines s = None" by (simp add: symbol_chunk_def Let_def)
qed


section \<open>One map for both databases\<close>

text \<open>What \<^verbatim>\<open>sort.Slice\<close> promises: the same elements, in order of path and line.\<close>

definition orders_points :: "(map_symbol list \<Rightarrow> map_symbol list) \<Rightarrow> bool" where
  "orders_points f \<longleftrightarrow> (\<forall>xs. mset (f xs) = mset xs \<and> sorted (map point_key (f xs)))"

lemma counted_mset: "mset xs = mset ys \<Longrightarrow> counted xs = counted ys"
proof -
  assume same: "mset xs = mset ys"
  then have "count_list xs x = count_list ys x" for x using count_mset [of xs x] count_mset [of ys x] by simp
  then show "counted xs = counted ys" unfolding counted_def mset_eq_setD [OF same] by simp
qed

lemma ordered_once:
  assumes "orders_points f" "orders_points g" "mset xs = mset ys" "distinct (map point_key xs)"
  shows "f xs = g ys"
proof -
  have "inj_on point_key (set xs)" using assms(4) by (simp add: distinct_map)
  note sort_key_inj_key_eq [OF _ this]
  moreover have "mset xs = mset (f xs)" "mset xs = mset (g ys)" "sorted (map point_key (f xs))" "sorted (map point_key (g ys))"
    using assms(1-3) unfolding orders_points_def by simp_all
  ultimately have "sort_key point_key xs = f xs" "sort_key point_key xs = g ys" by blast+
  then show ?thesis by (rule trans [OF sym])
qed

text \<open>The map of a repository does not depend on the order in which a database returns its rows. Where the
  entry points stand at different places, any two orders of the rows, and any two sorts, give one map.\<close>

theorem map_independent_of_row_order:
  assumes "orders_points f" "orders_points g" "mset symbols = mset symbols'" "mset paths = mset paths'"
    "distinct (map point_key (filter is_entry_point symbols))"
  shows "repository_map f symbols paths = repository_map g symbols' paths'"
proof -
  have "f (filter is_entry_point symbols) = g (filter is_entry_point symbols')"
    by (rule ordered_once [OF assms(1,2) _ assms(5)]) (simp add: assms(3))
  moreover have "set (List.map_filter top_directory paths) = set (List.map_filter top_directory paths')"
    using mset_eq_setD [OF assms(4)] by (simp add: List.map_filter_def)
  moreover have "sort (filter isKeyFile paths) = sort (filter isKeyFile paths')"
    by (rule properties_for_sort) (simp_all add: assms(4))
  moreover have "mset (map ms_language symbols) = mset (map ms_language symbols')" "mset (map ms_kind symbols) = mset (map ms_kind symbols')"
    using assms(3) by simp_all
  ultimately show ?thesis by (simp add: repository_map_def counted_mset)
qed

lemma map_independent_of_row_order_witness:
  "repository_map (sort_key point_key) [\<lparr>ms_language = ''go'', ms_kind = ''function'', ms_qualified = ''b'', ms_path = ''b'', ms_line = 1\<rparr>,
      \<lparr>ms_language = ''go'', ms_kind = ''function'', ms_qualified = ''a'', ms_path = ''a'', ms_line = 1\<rparr>] [''b'', ''a'']
   = repository_map (sort_key point_key) [\<lparr>ms_language = ''go'', ms_kind = ''function'', ms_qualified = ''a'', ms_path = ''a'', ms_line = 1\<rparr>,
      \<lparr>ms_language = ''go'', ms_kind = ''function'', ms_qualified = ''b'', ms_path = ''b'', ms_line = 1\<rparr>] [''a'', ''b'']"
  by (rule map_independent_of_row_order) (simp_all add: orders_points_def is_entry_point_def point_key_def)


end
