(* ===== verification/IndexRun.thy ===== *)
theory IndexRun
  imports Indexer Catalog "HOL-Library.Word"
begin

text \<open>
  One run of the indexer: \<^verbatim>\<open>syncRef\<close>, \<^verbatim>\<open>syncRepository\<close> and \<^verbatim>\<open>recordFiles\<close> of \<^verbatim>\<open>internal/indexer/indexer.go\<close> and
  what they use of \<^verbatim>\<open>internal/embedding/local.go\<close>. The tables are the fields of \<open>index_db\<close>; the rows of symbols,
  dependencies, files and maps are those the searches of theory Catalog read. A run gathers a
  generation in the staging tables and then publishes it in one transaction: \<open>gather\<close> holds the
  variables of the function while it gathers, \<open>tx_state\<close> the tables inside the transaction. Each
  statement may fail, as \<open>fault\<close> says; the source adapter, the embedding service and the other writers
  between the two parts are arguments.
\<close>

section \<open>Rows and tables\<close>

record doc_chunk =
  dc_id :: string
  dc_repo :: string
  dc_ref :: string
  dc_commit :: string
  dc_path :: string
  dc_start :: nat
  dc_end :: nat
  dc_heading :: string
  dc_type :: string
  dc_content :: string
  dc_hash :: string
  dc_vector :: "string option"
  dc_indexed :: time
  dc_provider :: string
  dc_model :: string
  dc_dimensions :: nat
  dc_revision :: string

record inventory_row =
  iv_repo :: string
  iv_ref :: string
  iv_ecosystem :: string
  iv_name :: string
  iv_lower :: string
  iv_version :: string
  iv_scope :: string
  iv_manifest :: string
  iv_commit :: string

record ref_state =
  rs_repo :: string
  rs_ref :: string
  rs_commit :: string
  rs_indexed :: time
  rs_embedding :: string
  rs_policy :: string
  rs_chunks :: nat
  rs_embedded :: nat
  rs_status :: string
  rs_error :: string

record ref_change_row =
  rg_repo :: string
  rg_ref :: string
  rg_commit :: string
  rg_previous :: string
  rg_path :: string
  rg_action :: string
  rg_deleted :: "string list"

record security_event =
  ev_id :: string
  ev_repo :: string
  ev_ref :: string
  ev_path :: string
  ev_finding :: string
  ev_action :: string

record sync_job =
  sj_id :: string
  sj_repo :: string
  sj_ref :: string
  sj_status :: string
  sj_started :: time
  sj_processed :: nat
  sj_error :: string
  sj_completed :: "time option"

record repository_row =
  re_id :: string
  re_project :: string
  re_slug :: string
  re_name :: string
  re_description :: string
  re_source :: string
  re_external :: string
  re_library :: string
  re_branch :: string
  re_enabled :: bool
  re_indexed :: "time option"

text \<open>Rows of the staging tables carry the generation first; symbols and dependencies carry their id.\<close>

record index_db =
  ix_repositories :: "repository_row list"
  ix_permissions :: "(string \<times> string \<times> string) list"
  ix_chunks :: "doc_chunk list"
  ix_symbols :: "(string \<times> symbol_row) list"
  ix_deps :: "(string \<times> dependency_row) list"
  ix_packages :: "inventory_row list"
  ix_files :: "file_row list"
  ix_states :: "ref_state list"
  ix_changes :: "ref_change_row list"
  ix_maps :: "map_row list"
  ix_events :: "security_event list"
  ix_jobs :: "sync_job list"
  sg_chunks :: "(string \<times> doc_chunk) list"
  sg_symbols :: "(string \<times> string \<times> symbol_row) list"
  sg_deps :: "(string \<times> string \<times> dependency_row) list"
  sg_packages :: "(string \<times> inventory_row) list"

section \<open>Vectors\<close>

text \<open>A vector is the bits of its numbers, as \<^verbatim>\<open>math.Float32bits\<close> gives them.\<close>

type_synonym vector = "32 word list"

definition little_endian :: "32 word \<Rightarrow> string" where
  "little_endian x = map (\<lambda>i. char_of (unat (drop_bit (8 * i) x) mod 256)) [0..<4]"

definition Encode :: "vector \<Rightarrow> string" where
  "Encode v = concat (map little_endian v)"

fun decode_words :: "string \<Rightarrow> vector" where
  "decode_words (a # b # c # d # rest) =
     word_of_nat (of_char a + 256 * of_char b + 65536 * of_char c + 16777216 * of_char d) # decode_words rest"
| "decode_words _ = []"

definition Decode :: "string \<Rightarrow> vector option" where
  "Decode raw = (if length raw mod 4 \<noteq> 0 then None else Some (decode_words raw))"

record Metadata =
  md_Provider :: string
  md_Model :: string
  md_Revision :: string
  md_Dimensions :: nat

definition no_metadata :: Metadata where
  "no_metadata = \<lparr>md_Provider = [], md_Model = [], md_Revision = [], md_Dimensions = 0\<rparr>"

definition metadata_Identity :: "(string \<Rightarrow> string) \<Rightarrow> Metadata \<Rightarrow> string" where
  "metadata_Identity sha256_hex m =
     (if md_Provider m = [] \<or> md_Model m = [] then []
      else ''sha256:'' @ sha256_hex (md_Provider m @ [CHR 0x00] @ md_Model m @ [CHR 0x00] @ md_Revision m))"

text \<open>A provider: one call for many texts or one call per text, and its metadata if it has any.\<close>

datatype embed_api = BatchApi "string list \<Rightarrow> string + vector list" | SingleApi "string \<Rightarrow> string + vector"

record provider =
  pv_api :: embed_api
  pv_metadata :: "Metadata option"

fun embed_each :: "(string \<Rightarrow> string + vector) \<Rightarrow> string list \<Rightarrow> string + vector list" where
  "embed_each api [] = Inr []"
| "embed_each api (t # ts) =
     (case api t of
        Inl e \<Rightarrow> Inl e
      | Inr v \<Rightarrow> (case embed_each api ts of Inl e \<Rightarrow> Inl e | Inr vs \<Rightarrow> Inr (v # vs)))"

definition EmbedAll :: "embed_api \<Rightarrow> string list \<Rightarrow> string + vector list" where
  "EmbedAll api texts =
     (if texts = [] then Inr []
      else case api of BatchApi f \<Rightarrow> f texts | SingleApi f \<Rightarrow> embed_each f texts)"

section \<open>The run's surroundings\<close>

record source_change =
  cg_Path :: string
  cg_OldPath :: string
  cg_Type :: string

record source_permission =
  pm_Principal :: string
  pm_Kind :: string
  pm_Permission :: string

record source_repository =
  so_ID :: int
  so_ProjectKey :: string
  so_Slug :: string
  so_Name :: string
  so_Description :: string
  so_DefaultBranch :: string

record reference =
  rf_Name :: string
  rf_LatestCommit :: string

text \<open>The source adapter; \<open>ad_changes\<close> is \<open>None\<close> for one without a change feed.\<close>

record adapter =
  ad_list :: "string \<Rightarrow> string + source_file list"
  ad_read :: "string \<Rightarrow> string \<Rightarrow> string + string"
  ad_changes :: "(string \<Rightarrow> string \<Rightarrow> string + source_change list) option"
  ad_permissions :: "string + source_permission list"

datatype index_stmt =
    InsertJob | ReadState | ReadLatestChunk | Progress nat | Complete | StageChunk string | StageSymbol string
  | StageDependency string | Reuse string | StagePackages nat | BeginPublish | LockLease | ReadCommit | ReadDeleted string
  | DeleteChunks string | DeleteSymbols string | DeleteDeps string | DeleteFiles string | TouchFiles | UpsertFile string
  | PublishChunks | PublishSymbols | PublishDeps | DeletePackages string | PublishPackages | InsertEvent string
  | ClearChunks | ClearSymbols | ClearDeps | ClearPackages | TouchChunks | TouchSymbols | TouchDeps | CountChunks
  | UpsertState | DeleteChanges | InsertChange string string | ReadMap | UpsertMap | Commit | FailJob
  | UpsertRepository | FindHolder | BeginPermissions | DeletePermissions | InsertPermission string | CommitPermissions | TouchRepository

text \<open>
  \<open>map_walk\<close> is the order in which a Go map is walked, by the place of the loop; \<open>others\<close> what other writers
  commit between gathering and publishing; \<open>postgres\<close> tells the two engines apart.
\<close>

record index_env =
  ie_now :: time
  ie_stamp :: string
  ie_hash :: "string \<Rightarrow> string"
  ie_sha16 :: "string \<Rightarrow> string"
  ie_rules :: string
  ie_letter :: "nat \<Rightarrow> bool"
  ie_entropy :: "string \<Rightarrow> bool"
  ie_go :: "string \<Rightarrow> go_file option"
  ie_npm :: "string \<Rightarrow> package_json option"
  ie_locks :: lock_decoders
  ie_marshal :: "repositoryMap \<Rightarrow> string"
  ie_sort_points :: "map_symbol list \<Rightarrow> map_symbol list"
  ie_policy :: Policy
  ie_embedder :: "provider option"
  ie_required :: bool
  ie_adapter :: adapter
  ie_fault :: "index_stmt \<Rightarrow> string option"
  ie_walk :: "nat \<Rightarrow> string list \<Rightarrow> string list"
  ie_others :: "index_db \<Rightarrow> index_db"
  ie_postgres :: bool

text \<open>The lease of a worker: the id of the job and when it was claimed.\<close>

type_synonym lease = "string \<times> time"

datatype index_error = IndexError string | IndexPanic

text \<open>Steps in order, up to the first that fails.\<close>

fun run_steps :: "('s \<Rightarrow> 'e + 's) list \<Rightarrow> 's \<Rightarrow> 'e + 's" where
  "run_steps [] s = Inr s"
| "run_steps (f # fs) s = (case f s of Inl e \<Rightarrow> Inl e | Inr s' \<Rightarrow> run_steps fs s')"

definition try_step :: "('s \<Rightarrow> 'e + 's) \<Rightarrow> 's \<Rightarrow> 's" where
  "try_step f s = (case f s of Inl e \<Rightarrow> s | Inr s' \<Rightarrow> s')"

definition exec :: "index_env \<Rightarrow> index_stmt \<Rightarrow> ('s \<Rightarrow> 's) \<Rightarrow> 's \<Rightarrow> string + 's" where
  "exec env label act s = (case ie_fault env label of Some e \<Rightarrow> Inl e | None \<Rightarrow> Inr (act s))"

text \<open>An INSERT that a key refuses.\<close>

definition exec_insert :: "index_env \<Rightarrow> index_stmt \<Rightarrow> ('s \<Rightarrow> bool) \<Rightarrow> ('s \<Rightarrow> 's) \<Rightarrow> 's \<Rightarrow> string + 's" where
  "exec_insert env label clash act s =
     (case ie_fault env label of Some e \<Rightarrow> Inl e
      | None \<Rightarrow> (if clash s then Inl ''UNIQUE constraint failed'' else Inr (act s)))"

section \<open>Jobs\<close>

record sync_args =
  sa_repo :: string
  sa_ref :: reference
  sa_track :: bool
  sa_lease :: "lease option"

definition generation :: "index_env \<Rightarrow> sync_args \<Rightarrow> string" where
  "generation env a = sa_repo a @ '':'' @ rf_Name (sa_ref a) @ '':'' @ ie_stamp env"

definition report_job :: "index_env \<Rightarrow> sync_args \<Rightarrow> string option" where
  "report_job env a = (if sa_track a then Some (ie_stamp env) else map_option fst (sa_lease a))"

definition insert_job :: "index_env \<Rightarrow> sync_args \<Rightarrow> index_db \<Rightarrow> string + index_db" where
  "insert_job env a =
     exec_insert env InsertJob (\<lambda>db. ie_stamp env \<in> sj_id ` set (ix_jobs db))
       (\<lambda>db. db\<lparr>ix_jobs := ix_jobs db @ [\<lparr>sj_id = ie_stamp env, sj_repo = sa_repo a, sj_ref = rf_Name (sa_ref a), sj_status = ''running'',
          sj_started = ie_now env, sj_processed = 0, sj_error = [], sj_completed = None\<rparr>]\<rparr>)"

definition running_job :: "sync_args \<Rightarrow> string \<Rightarrow> sync_job \<Rightarrow> bool" where
  "running_job a job j \<longleftrightarrow> sj_id j = job \<and> sj_status j = ''running'' \<and> (sa_track a \<or> Some (sj_started j) = map_option snd (sa_lease a))"

text \<open>An UPDATE of the running job that must find it.\<close>

definition update_running ::
    "index_env \<Rightarrow> sync_args \<Rightarrow> index_stmt \<Rightarrow> string \<Rightarrow> (sync_job \<Rightarrow> sync_job) \<Rightarrow> index_db \<Rightarrow> string + index_db" where
  "update_running env a label job f db =
     (case ie_fault env label of Some e \<Rightarrow> Inl e
      | None \<Rightarrow> (if length (filter (running_job a job) (ix_jobs db)) \<noteq> 1 then Inl ''index job lease changed before progress update''
                 else Inr (db\<lparr>ix_jobs := map (\<lambda>j. if running_job a job j then f j else j) (ix_jobs db)\<rparr>)))"

definition updateProgress :: "index_env \<Rightarrow> sync_args \<Rightarrow> nat \<Rightarrow> index_db \<Rightarrow> string + index_db" where
  "updateProgress env a processed db =
     (case report_job env a of None \<Rightarrow> Inr db
      | Some job \<Rightarrow> update_running env a (Progress processed) job (\<lambda>j. j\<lparr>sj_processed := processed\<rparr>) db)"

definition sync_complete_job :: "index_env \<Rightarrow> sync_args \<Rightarrow> nat \<Rightarrow> string \<Rightarrow> index_db \<Rightarrow> string + index_db" where
  "sync_complete_job env a processed warning db =
     (case report_job env a of None \<Rightarrow> Inr db
      | Some job \<Rightarrow>
          (if \<not> sa_track a then
             update_running env a Complete job (\<lambda>j. j\<lparr>sj_processed := processed, sj_error := truncate_text warning 1000\<rparr>) db
           else exec env Complete (\<lambda>db. db\<lparr>ix_jobs := map (\<lambda>j. if sj_id j = job
             then j\<lparr>sj_status := ''completed'', sj_processed := processed, sj_error := truncate_text warning 1000, sj_completed := Some (ie_now env)\<rparr>
             else j) (ix_jobs db)\<rparr>) db))"

text \<open>\<^verbatim>\<open>fail\<close>: the generation is dropped and a job of the run's own is failed, each statement for itself.\<close>

definition clear_chunks :: "index_env \<Rightarrow> sync_args \<Rightarrow> index_db \<Rightarrow> string + index_db" where
  "clear_chunks env a = exec env ClearChunks (\<lambda>db. db\<lparr>sg_chunks := filter (\<lambda>(g, _). g \<noteq> generation env a) (sg_chunks db)\<rparr>)"

definition clear_symbols :: "index_env \<Rightarrow> sync_args \<Rightarrow> index_db \<Rightarrow> string + index_db" where
  "clear_symbols env a = exec env ClearSymbols (\<lambda>db. db\<lparr>sg_symbols := filter (\<lambda>(g, _). g \<noteq> generation env a) (sg_symbols db)\<rparr>)"

definition clear_deps :: "index_env \<Rightarrow> sync_args \<Rightarrow> index_db \<Rightarrow> string + index_db" where
  "clear_deps env a = exec env ClearDeps (\<lambda>db. db\<lparr>sg_deps := filter (\<lambda>(g, _). g \<noteq> generation env a) (sg_deps db)\<rparr>)"

definition clear_packages :: "index_env \<Rightarrow> sync_args \<Rightarrow> index_db \<Rightarrow> string + index_db" where
  "clear_packages env a = exec env ClearPackages (\<lambda>db. db\<lparr>sg_packages := filter (\<lambda>(g, _). g \<noteq> generation env a) (sg_packages db)\<rparr>)"

definition clear_generation :: "index_env \<Rightarrow> sync_args \<Rightarrow> (index_db \<Rightarrow> string + index_db) list" where
  "clear_generation env a = [clear_chunks env a, clear_symbols env a, clear_deps env a, clear_packages env a]"

definition fail_job :: "index_env \<Rightarrow> sync_args \<Rightarrow> string \<Rightarrow> index_db \<Rightarrow> string + index_db" where
  "fail_job env a e = exec env FailJob (\<lambda>db. if \<not> sa_track a then db else
     db\<lparr>ix_jobs := map (\<lambda>j. if sj_id j = ie_stamp env
        then j\<lparr>sj_status := ''failed'', sj_error := truncate_text e 1000, sj_completed := Some (ie_now env)\<rparr> else j) (ix_jobs db)\<rparr>)"

definition fail_run :: "index_env \<Rightarrow> sync_args \<Rightarrow> index_error \<Rightarrow> index_db \<Rightarrow> index_error option \<times> index_db" where
  "fail_run env a e db =
     (case e of
        IndexPanic \<Rightarrow> (Some IndexPanic, db)
      | IndexError text' \<Rightarrow> (Some e, fold try_step (clear_generation env a @ [fail_job env a text']) db))"

section \<open>Gathering a generation\<close>

record pendingChunk =
  pc_id :: string
  pc_path :: string
  pc_heading :: string
  pc_type :: string
  pc_content :: string
  pc_hash :: string
  pc_start :: nat
  pc_end :: nat
  pc_vector :: "string option"
  pc_text :: string

record gather =
  ga_db :: index_db
  ga_pending :: "pendingChunk list"
  ga_embedder :: "provider option"
  ga_meta :: Metadata
  ga_known :: bool
  ga_revision :: string
  ga_warnings :: "string list"
  ga_processed :: nat
  ga_candidates :: nat
  ga_parsed :: "string list"
  ga_packages :: "inventoryPackage list"
  ga_manifest_warnings :: "string list"
  ga_events :: "security_event list"
  ga_upserts :: "string list"

type_synonym gather_step = "gather \<Rightarrow> (index_error \<times> index_db) + gather"

definition on_db :: "(index_db \<Rightarrow> string + index_db) \<Rightarrow> gather_step" where
  "on_db f g = (case f (ga_db g) of Inl e \<Rightarrow> Inl (IndexError e, ga_db g) | Inr db \<Rightarrow> Inr (g\<lparr>ga_db := db\<rparr>))"

abbreviation nul :: string where "nul \<equiv> [CHR 0x00]"

text \<open>A vector is missing where it has no bytes.\<close>

definition no_vector :: "pendingChunk \<Rightarrow> bool" where
  "no_vector p \<longleftrightarrow> pc_vector p = None \<or> pc_vector p = Some []"

definition missing_positions :: "pendingChunk list \<Rightarrow> nat list" where
  "missing_positions ps = filter (\<lambda>i. no_vector (ps ! i)) [0..<length ps]"

text \<open>The vectors of an answer, one position each; more vectors than positions panic.\<close>

fun give_vectors :: "vector list \<Rightarrow> nat list \<Rightarrow> pendingChunk list \<Rightarrow> pendingChunk list option" where
  "give_vectors [] positions ps = Some ps"
| "give_vectors (v # vs) [] ps = None"
| "give_vectors (v # vs) (i # is) ps = give_vectors vs is (ps[i := (ps ! i)\<lparr>pc_vector := Some (Encode v)\<rparr>])"

definition degrade :: "nat \<Rightarrow> string \<Rightarrow> string \<Rightarrow> gather \<Rightarrow> gather" where
  "degrade n path e g = g\<lparr>ga_warnings := ga_warnings g @ [''embedding disabled for '' @ itoa_nat n @ '' chunk(s) near '' @ path
       @ '' after model error: '' @ truncate_text e 160],
     ga_embedder := None, ga_meta := no_metadata, ga_revision := ''keyword-only'', ga_known := False\<rparr>"

definition embed_pending :: "index_env \<Rightarrow> gather_step" where
  "embed_pending env g =
     (let positions = missing_positions (ga_pending g); texts = map (\<lambda>i. pc_text (ga_pending g ! i)) positions;
          path = pc_path (ga_pending g ! hd positions) in
      case ga_embedder g of
        None \<Rightarrow> Inr g
      | Some p \<Rightarrow>
          (if texts = [] then Inr g
           else case EmbedAll (pv_api p) texts of
             Inl e \<Rightarrow>
               (if ie_required env then
                  Inl (IndexError (''embedding '' @ itoa_nat (length texts) @ '' chunks near '' @ path @ '': '' @ e), ga_db g)
                else Inr (degrade (length texts) path e g))
           | Inr vectors \<Rightarrow>
               (case give_vectors vectors positions (ga_pending g) of
                  None \<Rightarrow> Inl (IndexPanic, ga_db g)
                | Some ps \<Rightarrow> Inr (g\<lparr>ga_pending := ps,
                    ga_meta := (if vectors = [] then ga_meta g else (ga_meta g)\<lparr>md_Dimensions := length (last vectors)\<rparr>)\<rparr>))))"

definition chunk_row_of :: "index_env \<Rightarrow> sync_args \<Rightarrow> gather \<Rightarrow> pendingChunk \<Rightarrow> doc_chunk" where
  "chunk_row_of env a g p =
     \<lparr>dc_id = pc_id p, dc_repo = sa_repo a, dc_ref = rf_Name (sa_ref a), dc_commit = rf_LatestCommit (sa_ref a), dc_path = pc_path p,
      dc_start = pc_start p, dc_end = pc_end p, dc_heading = pc_heading p, dc_type = pc_type p, dc_content = pc_content p,
      dc_hash = pc_hash p, dc_vector = pc_vector p, dc_indexed = ie_now env, dc_provider = md_Provider (ga_meta g),
      dc_model = md_Model (ga_meta g), dc_dimensions = md_Dimensions (ga_meta g), dc_revision = ga_revision g\<rparr>"

definition stage_chunk :: "index_env \<Rightarrow> sync_args \<Rightarrow> pendingChunk \<Rightarrow> gather_step" where
  "stage_chunk env a p g =
     on_db (exec_insert env (StageChunk (pc_id p))
       (\<lambda>db. (generation env a, pc_id p) \<in> (\<lambda>(gen, r). (gen, dc_id r)) ` set (sg_chunks db))
       (\<lambda>db. db\<lparr>sg_chunks := sg_chunks db @ [(generation env a, chunk_row_of env a g p)]\<rparr>)) g"

definition flush_pending :: "index_env \<Rightarrow> sync_args \<Rightarrow> gather_step" where
  "flush_pending env a g =
     (if ga_pending g = [] then Inr g
      else case embed_pending env g of
        Inl e \<Rightarrow> Inl e
      | Inr g1 \<Rightarrow>
          (case run_steps (map (stage_chunk env a) (ga_pending g1)) g1 of
             Inl e \<Rightarrow> Inl e
           | Inr g2 \<Rightarrow> Inr (g2\<lparr>ga_pending := []\<rparr>)))"

subsection \<open>One file\<close>

definition note_manifest :: "index_env \<Rightarrow> string \<Rightarrow> string \<Rightarrow> gather \<Rightarrow> gather" where
  "note_manifest env path content g =
     (if path \<in> set (ga_parsed g) \<or> Recognize path = None \<and> RecognizeLock path = None then g
      else g\<lparr>ga_parsed := ga_parsed g @ [path], ga_packages := appendPackages (ie_npm env) (ie_locks env) (ga_packages g) path content\<rparr>)"

definition symbol_row_of :: "index_env \<Rightarrow> sync_args \<Rightarrow> string \<Rightarrow> string \<Rightarrow> symbol \<Rightarrow> symbol_row" where
  "symbol_row_of env a path content s =
     (let lines = code_lines content; start = min (max 1 (sym_LineStart s)) (int (length lines));
          end' = min (int (length lines)) (max start (sym_LineEnd s)) in
      \<lparr>sy_repo = sa_repo a, sy_ref = rf_Name (sa_ref a), sy_commit = rf_LatestCommit (sa_ref a), sy_path = path, sy_name = sym_Name s,
       sy_qualified = sym_QualifiedName s, sy_kind = sym_Kind s, sy_language = sym_Language s, sy_signature = sym_Signature s,
       sy_documentation = sym_Documentation s, sy_start = sym_LineStart s, sy_end = sym_LineEnd s,
       sy_hash = ie_hash env (trim_space (join_with [CHR 0x0A] (take (nat (end' - start + 1)) (drop (nat (start - 1)) lines))))\<rparr>)"

definition symbol_id :: "index_env \<Rightarrow> sync_args \<Rightarrow> string \<Rightarrow> symbol \<Rightarrow> string" where
  "symbol_id env a path s = ie_hash env (sa_repo a @ nul @ rf_Name (sa_ref a) @ nul @ path @ nul @ sym_QualifiedName s @ nul @ itoa (sym_LineStart s))"

definition stage_symbol :: "index_env \<Rightarrow> sync_args \<Rightarrow> string \<Rightarrow> string \<Rightarrow> symbol \<Rightarrow> gather_step" where
  "stage_symbol env a path content s =
     on_db (exec_insert env (StageSymbol (symbol_id env a path s))
       (\<lambda>db. (generation env a, symbol_id env a path s) \<in> (\<lambda>(gen, i, r). (gen, i)) ` set (sg_symbols db))
       (\<lambda>db. db\<lparr>sg_symbols := sg_symbols db @ [(generation env a, symbol_id env a path s, symbol_row_of env a path content s)]\<rparr>))"

definition dependency_id :: "index_env \<Rightarrow> sync_args \<Rightarrow> string \<Rightarrow> dependency \<Rightarrow> string" where
  "dependency_id env a path d = ie_hash env (sa_repo a @ nul @ rf_Name (sa_ref a) @ nul @ path @ nul @ dep_FromSymbol d @ nul @ dep_Target d
     @ nul @ dep_Kind d @ nul @ itoa (dep_Line d))"

definition dependency_row_of :: "sync_args \<Rightarrow> string \<Rightarrow> dependency \<Rightarrow> dependency_row" where
  "dependency_row_of a path d =
     \<lparr>de_repo = sa_repo a, de_ref = rf_Name (sa_ref a), de_commit = rf_LatestCommit (sa_ref a), de_path = path,
      de_from = dep_FromSymbol d, de_target = dep_Target d, de_kind = dep_Kind d, de_line = dep_Line d\<rparr>"

definition stage_dependency :: "index_env \<Rightarrow> sync_args \<Rightarrow> string \<Rightarrow> dependency \<Rightarrow> gather_step" where
  "stage_dependency env a path d =
     on_db (exec_insert env (StageDependency (dependency_id env a path d))
       (\<lambda>db. (generation env a, dependency_id env a path d) \<in> (\<lambda>(gen, i, r). (gen, i)) ` set (sg_deps db))
       (\<lambda>db. db\<lparr>sg_deps := sg_deps db @ [(generation env a, dependency_id env a path d, dependency_row_of a path d)]\<rparr>))"

definition embeddingBatchSize :: nat where "embeddingBatchSize = 32"
definition indexProgressInterval :: nat where "indexProgressInterval = 25"

definition chunk_id :: "index_env \<Rightarrow> sync_args \<Rightarrow> string \<Rightarrow> chunk \<Rightarrow> string" where
  "chunk_id env a path c =
     ie_hash env (sa_repo a @ nul @ rf_Name (sa_ref a) @ nul @ path @ nul @ itoa (int (ch_Start c)) @ nul @ ch_Content c)"

text \<open>A stored vector of the same text and the same model.\<close>

definition reusable :: "sync_args \<Rightarrow> gather \<Rightarrow> string \<Rightarrow> string \<Rightarrow> doc_chunk \<Rightarrow> bool" where
  "reusable a g heading h r \<longleftrightarrow> dc_repo r = sa_repo a \<and> dc_heading r = heading \<and> dc_hash r = h
     \<and> dc_provider r = md_Provider (ga_meta g) \<and> dc_model r = md_Model (ga_meta g) \<and> dc_revision r = ga_revision g \<and> dc_vector r \<noteq> None"

definition reuse_vector :: "index_env \<Rightarrow> sync_args \<Rightarrow> gather \<Rightarrow> string \<Rightarrow> string \<Rightarrow> string + string option" where
  "reuse_vector env a g heading h =
     (if \<not> ga_known g then Inr None
      else case ie_fault env (Reuse h) of
        Some e \<Rightarrow> Inl e
      | None \<Rightarrow> Inr (Option.bind (List.find (reusable a g heading h) (ix_chunks (ga_db g))) dc_vector))"

definition pending_of :: "index_env \<Rightarrow> sync_args \<Rightarrow> string \<Rightarrow> chunk \<Rightarrow> string option \<Rightarrow> pendingChunk" where
  "pending_of env a path c vector =
     \<lparr>pc_id = chunk_id env a path c, pc_path = path, pc_heading = ch_Heading c, pc_type = contentType path, pc_content = ch_Content c,
      pc_hash = ie_hash env (ch_Content c), pc_start = ch_Start c, pc_end = ch_End c, pc_vector = vector,
      pc_text = ch_Heading c @ [CHR 0x0A] @ ch_Content c\<rparr>"

definition take_chunk :: "index_env \<Rightarrow> sync_args \<Rightarrow> string \<Rightarrow> chunk \<Rightarrow> gather_step" where
  "take_chunk env a path c g =
     (case reuse_vector env a g (ch_Heading c) (ie_hash env (ch_Content c)) of
        Inl e \<Rightarrow> Inl (IndexError e, ga_db g)
      | Inr vector \<Rightarrow>
          (let g1 = g\<lparr>ga_pending := ga_pending g @ [pending_of env a path c vector]\<rparr> in
           if embeddingBatchSize \<le> length (ga_pending g1) then flush_pending env a g1 else Inr g1))"

definition take_chunks :: "index_env \<Rightarrow> sync_args \<Rightarrow> string \<Rightarrow> string \<Rightarrow> gather_step" where
  "take_chunks env a path content g =
     (case parse_chunks (ie_go env) path content of
        None \<Rightarrow> Inl (IndexPanic, ga_db g)
      | Some chunks \<Rightarrow> run_steps (map (take_chunk env a path) chunks) g)"

definition security_event_of :: "index_env \<Rightarrow> sync_args \<Rightarrow> string \<Rightarrow> string \<Rightarrow> string \<Rightarrow> security_event" where
  "security_event_of env a path finding safe =
     \<lparr>ev_id = ie_hash env (sa_repo a @ nul @ rf_Name (sa_ref a) @ nul @ path @ nul @ finding), ev_repo = sa_repo a, ev_ref = rf_Name (sa_ref a),
      ev_path = path, ev_finding = finding, ev_action = (if safe = [] then ''blocked'' else ''redacted'')\<rparr>"

definition index_content :: "index_env \<Rightarrow> sync_args \<Rightarrow> string \<Rightarrow> string \<Rightarrow> gather_step" where
  "index_content env a path safe g =
     (case run_steps (map (stage_symbol env a path safe) (Extract (ie_go env) path safe)
          @ map (stage_dependency env a path) (ExtractDependencies (ie_go env) path safe)
          @ [take_chunks env a path safe]) (note_manifest env path safe g) of
        Inl e \<Rightarrow> Inl e
      | Inr g1 \<Rightarrow> Inr (g1\<lparr>ga_processed := ga_processed g1 + 1, ga_upserts := List.insert path (ga_upserts g1)\<rparr>))"

text \<open>A file the policy lets in: one that cannot be read fails the run, one that is too large is skipped.\<close>

definition index_raw :: "index_env \<Rightarrow> sync_args \<Rightarrow> string \<Rightarrow> string \<Rightarrow> gather_step" where
  "index_raw env a path raw g =
     (if MaxFileBytes (ie_policy env) < int (length raw) then Inr g
      else let (safe, finding) = Sanitize (ie_entropy env) raw;
               g1 = (if finding \<noteq> [] then g\<lparr>ga_events := ga_events g @ [security_event_of env a path finding safe]\<rparr> else g) in
        if finding \<noteq> [] \<and> safe = [] then Inr g1 else index_content env a path safe g1)"

definition snapshot_ref :: "sync_args \<Rightarrow> string" where
  "snapshot_ref a = (if rf_LatestCommit (sa_ref a) = [] then rf_Name (sa_ref a) else rf_LatestCommit (sa_ref a))"

definition publish_progress :: "index_env \<Rightarrow> sync_args \<Rightarrow> gather_step" where
  "publish_progress env a g =
     (if report_job env a \<noteq> None \<and> 0 < ga_processed g \<and> ga_processed g mod indexProgressInterval = 0
      then on_db (updateProgress env a (ga_processed g)) g else Inr g)"

definition index_file :: "index_env \<Rightarrow> sync_args \<Rightarrow> source_file \<Rightarrow> gather_step" where
  "index_file env a file g =
     (if \<not> allowed (ie_policy env) file then Inr g
      else case publish_progress env a (g\<lparr>ga_candidates := ga_candidates g + 1\<rparr>) of
        Inl e \<Rightarrow> Inl e
      | Inr g1 \<Rightarrow>
          (case ad_read (ie_adapter env) (snapshot_ref a) (sf_Path file) of
             Inl e \<Rightarrow> Inl (IndexError (''read '' @ sf_Path file @ '' at '' @ snapshot_ref a @ '': '' @ e), ga_db g1)
           | Inr raw \<Rightarrow> index_raw env a (sf_Path file) raw g1))"

subsection \<open>Manifests and packages\<close>

text \<open>The second pass; once sixty are read no further file is.\<close>

definition extra_manifest :: "index_env \<Rightarrow> sync_args \<Rightarrow> source_file \<Rightarrow> gather \<Rightarrow> gather" where
  "extra_manifest env a file g =
     (let path = sf_Path file; limit = (if RecognizeLock path \<noteq> None then MaxLockBytes else MaxManifestBytes) in
      if maxManifestsPerRef \<le> length (ga_parsed g) \<or> path \<in> set (ga_parsed g)
        \<or> Recognize path = None \<and> RecognizeLock path = None \<or> int limit < sf_Size file then g
      else case ad_read (ie_adapter env) (snapshot_ref a) path of
        Inl e \<Rightarrow> g\<lparr>ga_manifest_warnings := ga_manifest_warnings g @ [''manifest '' @ path @ '': '' @ e]\<rparr>
      | Inr raw \<Rightarrow> note_manifest env path (fst (Sanitize (ie_entropy env) raw)) g)"

definition bound_packages :: "gather \<Rightarrow> gather" where
  "bound_packages g =
     (if maxPackagesPerRef < length (ga_packages g) then
        g\<lparr>ga_manifest_warnings := ga_manifest_warnings g @ [''dependency inventory truncated at '' @ itoa_nat maxPackagesPerRef @ '' declarations''],
          ga_packages := take maxPackagesPerRef (ga_packages g)\<rparr>
      else g)"

definition batches :: "nat \<Rightarrow> 'a list \<Rightarrow> 'a list list" where
  "batches n xs = map (\<lambda>k. take n (drop (k * n) xs)) [0..<(length xs + n - 1) div n]"

definition inventory_row_of :: "sync_args \<Rightarrow> inventoryPackage \<Rightarrow> inventory_row" where
  "inventory_row_of a p =
     \<lparr>iv_repo = sa_repo a, iv_ref = rf_Name (sa_ref a), iv_ecosystem = pkg_Ecosystem (ip_Package p), iv_name = pkg_Name (ip_Package p),
      iv_lower = to_lower (pkg_Name (ip_Package p)), iv_version = pkg_Version (ip_Package p), iv_scope = pkg_Scope (ip_Package p),
      iv_manifest = ip_ManifestPath p, iv_commit = rf_LatestCommit (sa_ref a)\<rparr>"

definition inventory_key :: "inventory_row \<Rightarrow> string \<times> string \<times> string \<times> string \<times> string \<times> string" where
  "inventory_key r = (iv_repo r, iv_ref r, iv_ecosystem r, iv_name r, iv_version r, iv_manifest r)"

definition upsert_package :: "string \<Rightarrow> inventory_row \<Rightarrow> (string \<times> inventory_row) list \<Rightarrow> (string \<times> inventory_row) list" where
  "upsert_package gen r rows =
     (if (gen, inventory_key r) \<in> (\<lambda>(g, x). (g, inventory_key x)) ` set rows then
        map (\<lambda>(g, x). if g = gen \<and> inventory_key x = inventory_key r then (g, x\<lparr>iv_scope := iv_scope r\<rparr>) else (g, x)) rows
      else rows @ [(gen, r)])"

text \<open>One statement writes a batch; Postgres refuses one that would write a row twice.\<close>

definition stage_packages :: "index_env \<Rightarrow> sync_args \<Rightarrow> nat \<times> inventoryPackage list \<Rightarrow> gather_step" where
  "stage_packages env a = (\<lambda>(k, batch).
     on_db (exec_insert env (StagePackages k)
       (\<lambda>db. ie_postgres env \<and> \<not> distinct (map (inventory_key \<circ> inventory_row_of a) batch))
       (\<lambda>db. db\<lparr>sg_packages := fold (upsert_package (generation env a)) (map (inventory_row_of a) batch) (sg_packages db)\<rparr>)))"

definition gather_packages :: "index_env \<Rightarrow> sync_args \<Rightarrow> source_file list \<Rightarrow> gather_step" where
  "gather_packages env a files g =
     (let g1 = bound_packages (fold (extra_manifest env a) files g) in
      run_steps (map (stage_packages env a) (List.enumerate 0 (batches packageInsertBatch (ga_packages g1)))) g1)"

definition gather_files :: "index_env \<Rightarrow> sync_args \<Rightarrow> source_file list \<Rightarrow> gather_step" where
  "gather_files env a files = run_steps (map (index_file env a) files @ [flush_pending env a, gather_packages env a files])"

section \<open>Which files a run reads\<close>

record prior =
  pr_commit :: string
  pr_embedding :: string
  pr_policy :: string

definition latest_commit :: "doc_chunk list \<Rightarrow> string" where
  "latest_commit rows =
     (case rows of [] \<Rightarrow> [] | r # rs \<Rightarrow> dc_commit (fold (\<lambda>x best. if dc_indexed best < dc_indexed x then x else best) rs r))"

definition of_ref :: "sync_args \<Rightarrow> string \<Rightarrow> string \<Rightarrow> bool" where
  "of_ref a repo ref \<longleftrightarrow> repo = sa_repo a \<and> ref = rf_Name (sa_ref a)"

definition ref_chunks :: "sync_args \<Rightarrow> index_db \<Rightarrow> doc_chunk list" where
  "ref_chunks a db = filter (\<lambda>r. of_ref a (dc_repo r) (dc_ref r)) (ix_chunks db)"

definition read_prior :: "index_env \<Rightarrow> sync_args \<Rightarrow> index_db \<Rightarrow> string + prior" where
  "read_prior env a db =
     (case ie_fault env ReadState of
        Some e \<Rightarrow> Inl e
      | None \<Rightarrow>
          (case List.find (\<lambda>s. of_ref a (rs_repo s) (rs_ref s)) (ix_states db) of
             Some s \<Rightarrow> Inr \<lparr>pr_commit = rs_commit s, pr_embedding = rs_embedding s, pr_policy = rs_policy s\<rparr>
           | None \<Rightarrow>
               (case ie_fault env ReadLatestChunk of
                  Some e \<Rightarrow> Inl e
                | None \<Rightarrow> Inr \<lparr>pr_commit = latest_commit (ref_chunks a db), pr_embedding = [], pr_policy = []\<rparr>)))"

definition policy_revision :: "index_env \<Rightarrow> string" where
  "policy_revision env = policy_Revision (ie_sha16 env) (ie_rules env) (ie_policy env)"

definition provider_metadata :: "index_env \<Rightarrow> Metadata option" where
  "provider_metadata env = Option.bind (ie_embedder env) pv_metadata"

definition embedding_revision :: "index_env \<Rightarrow> string" where
  "embedding_revision env =
     (if ie_embedder env = None then ''keyword-only''
      else metadata_Identity (ie_hash env) (case provider_metadata env of None \<Rightarrow> no_metadata | Some m \<Rightarrow> m))"

definition policy_changed :: "index_env \<Rightarrow> prior \<Rightarrow> bool" where
  "policy_changed env p \<longleftrightarrow> pr_policy p \<noteq> [] \<and> pr_policy p \<noteq> policy_revision env"

definition unchanged :: "index_env \<Rightarrow> sync_args \<Rightarrow> prior \<Rightarrow> bool" where
  "unchanged env a p \<longleftrightarrow> pr_commit p \<noteq> [] \<and> pr_commit p = rf_LatestCommit (sa_ref a) \<and> pr_embedding p = embedding_revision env
     \<and> \<not> policy_changed env p"

definition forced_full :: "index_env \<Rightarrow> sync_args \<Rightarrow> prior \<Rightarrow> bool" where
  "forced_full env a p \<longleftrightarrow> pr_commit p = rf_LatestCommit (sa_ref a) \<and> (pr_embedding p \<noteq> embedding_revision env \<or> policy_changed env p)"

text \<open>The paths a list of changes removes and the files it brings, each path once.\<close>

definition change_removed :: "source_change \<Rightarrow> string list \<Rightarrow> string list" where
  "change_removed c removed =
     (let removed1 = (if cg_OldPath c \<noteq> [] then List.insert (cg_OldPath c) removed else removed) in
      if cg_Path c \<noteq> [] then List.insert (cg_Path c) removed1 else removed1)"

definition removed_paths :: "source_change list \<Rightarrow> string list" where
  "removed_paths changes = fold change_removed changes []"

definition brings_file :: "source_change \<Rightarrow> bool" where
  "brings_file c \<longleftrightarrow> \<not> contains_str (to_lower (cg_Type c)) ''delete'' \<and> cg_Path c \<noteq> []"

definition changed_files :: "source_change list \<Rightarrow> source_file list" where
  "changed_files changes =
     map (\<lambda>path. \<lparr>sf_Path = path, sf_Size = 0\<rparr>)
       (rev (fold (\<lambda>c seen. if brings_file c \<and> cg_Path c \<notin> set seen then cg_Path c # seen else seen) changes []))"

definition change_list :: "index_env \<Rightarrow> sync_args \<Rightarrow> prior \<Rightarrow> source_change list option" where
  "change_list env a p =
     (if pr_commit p \<noteq> [] \<and> \<not> forced_full env a p then
        (case ad_changes (ie_adapter env) of
           None \<Rightarrow> None
         | Some feed \<Rightarrow> (case feed (pr_commit p) (rf_LatestCommit (sa_ref a)) of Inl e \<Rightarrow> None | Inr changes \<Rightarrow> Some changes))
      else None)"

text \<open>Whether the run is incremental, the files it looks at and the paths it removes.\<close>

definition choose_files :: "index_env \<Rightarrow> sync_args \<Rightarrow> prior \<Rightarrow> string + bool \<times> source_file list \<times> string list" where
  "choose_files env a p =
     (case change_list env a p of
        Some changes \<Rightarrow> Inr (True, changed_files changes, removed_paths changes)
      | None \<Rightarrow> (case ad_list (ie_adapter env) (snapshot_ref a) of Inl e \<Rightarrow> Inl e | Inr files \<Rightarrow> Inr (False, files, [])))"

definition start_gather :: "index_env \<Rightarrow> index_db \<Rightarrow> gather" where
  "start_gather env db =
     (let m = (case provider_metadata env of None \<Rightarrow> no_metadata | Some m \<Rightarrow> m) in
      \<lparr>ga_db = db, ga_pending = [], ga_embedder = ie_embedder env, ga_meta = m, ga_known = (md_Provider m \<noteq> [] \<and> md_Model m \<noteq> []),
       ga_revision = embedding_revision env, ga_warnings = [], ga_processed = 0, ga_candidates = 0, ga_parsed = [], ga_packages = [],
       ga_manifest_warnings = [], ga_events = [], ga_upserts = []\<rparr>)"

section \<open>Publishing a generation\<close>

text \<open>What the transaction takes from the first part of the run.\<close>

record plan =
  pl_prior :: string
  pl_incremental :: bool
  pl_files :: "source_file list"
  pl_removed :: "string list"
  pl_upserts :: "string list"
  pl_parsed :: "string list"
  pl_events :: "security_event list"
  pl_revision :: string
  pl_warnings :: "string list"

record tx_state =
  tx_db :: index_db
  tx_deleted :: "(string \<times> string list) list"
  tx_total :: nat
  tx_embedded :: nat

type_synonym tx_step = "tx_state \<Rightarrow> string + tx_state"

definition in_tx :: "(index_db \<Rightarrow> string + index_db) \<Rightarrow> tx_step" where
  "in_tx f s = (case f (tx_db s) of Inl e \<Rightarrow> Inl e | Inr db \<Rightarrow> Inr (s\<lparr>tx_db := db\<rparr>))"

text \<open>The conditional update that proves the claim of the worker.\<close>

definition lockJobLease :: "index_env \<Rightarrow> sync_args \<Rightarrow> tx_step" where
  "lockJobLease env a s =
     (case sa_lease a of
        None \<Rightarrow> Inr s
      | Some (job, started) \<Rightarrow>
          (case ie_fault env LockLease of
             Some e \<Rightarrow> Inl e
           | None \<Rightarrow> (if length (filter (\<lambda>j. sj_id j = job \<and> sj_status j = ''running'' \<and> sj_started j = started) (ix_jobs (tx_db s))) \<noteq> 1
                      then Inl ''index job lease changed before generation publish'' else Inr s)))"

definition check_commit :: "index_env \<Rightarrow> sync_args \<Rightarrow> plan \<Rightarrow> tx_step" where
  "check_commit env a p s =
     (case ie_fault env ReadCommit of
        Some e \<Rightarrow> Inl e
      | None \<Rightarrow>
          (case List.find (\<lambda>st. of_ref a (rs_repo st) (rs_ref st)) (ix_states (tx_db s)) of
             None \<Rightarrow> Inr s
           | Some st \<Rightarrow> (if rs_commit st \<noteq> [] \<and> rs_commit st \<noteq> pl_prior p
                         then Inl (''index state changed concurrently from '' @ pl_prior p @ '' to '' @ rs_commit st) else Inr s)))"

definition path_chunk :: "sync_args \<Rightarrow> string \<Rightarrow> doc_chunk \<Rightarrow> bool" where
  "path_chunk a path r \<longleftrightarrow> of_ref a (dc_repo r) (dc_ref r) \<and> dc_path r = path"

definition read_deleted :: "index_env \<Rightarrow> sync_args \<Rightarrow> string \<Rightarrow> tx_step" where
  "read_deleted env a path =
     exec env (ReadDeleted path) (\<lambda>s. s\<lparr>tx_deleted := tx_deleted s @ [(path, sort (map dc_id (filter (path_chunk a path) (ix_chunks (tx_db s)))))]\<rparr>)"

text \<open>The deletions of one path and of a whole ref; \<open>P\<close> picks the paths.\<close>

definition delete_chunks :: "index_env \<Rightarrow> sync_args \<Rightarrow> string \<Rightarrow> (string \<Rightarrow> bool) \<Rightarrow> tx_step" where
  "delete_chunks env a name P =
     in_tx (exec env (DeleteChunks name) (\<lambda>db. db\<lparr>ix_chunks := filter (\<lambda>r. \<not> (of_ref a (dc_repo r) (dc_ref r) \<and> P (dc_path r))) (ix_chunks db)\<rparr>))"

definition delete_symbols :: "index_env \<Rightarrow> sync_args \<Rightarrow> string \<Rightarrow> (string \<Rightarrow> bool) \<Rightarrow> tx_step" where
  "delete_symbols env a name P =
     in_tx (exec env (DeleteSymbols name) (\<lambda>db. db\<lparr>ix_symbols := filter (\<lambda>(i, r). \<not> (of_ref a (sy_repo r) (sy_ref r) \<and> P (sy_path r))) (ix_symbols db)\<rparr>))"

definition delete_deps :: "index_env \<Rightarrow> sync_args \<Rightarrow> string \<Rightarrow> (string \<Rightarrow> bool) \<Rightarrow> tx_step" where
  "delete_deps env a name P =
     in_tx (exec env (DeleteDeps name) (\<lambda>db. db\<lparr>ix_deps := filter (\<lambda>(i, r). \<not> (of_ref a (de_repo r) (de_ref r) \<and> P (de_path r))) (ix_deps db)\<rparr>))"

definition delete_files :: "index_env \<Rightarrow> sync_args \<Rightarrow> string \<Rightarrow> (string \<Rightarrow> bool) \<Rightarrow> tx_step" where
  "delete_files env a name P =
     in_tx (exec env (DeleteFiles name) (\<lambda>db. db\<lparr>ix_files := filter (\<lambda>r. \<not> (of_ref a (fl_repo r) (fl_ref r) \<and> P (fl_path r))) (ix_files db)\<rparr>))"

definition delete_packages :: "index_env \<Rightarrow> sync_args \<Rightarrow> string \<Rightarrow> (string \<Rightarrow> bool) \<Rightarrow> tx_step" where
  "delete_packages env a name P =
     in_tx (exec env (DeletePackages name) (\<lambda>db. db\<lparr>ix_packages := filter (\<lambda>r. \<not> (of_ref a (iv_repo r) (iv_ref r) \<and> P (iv_manifest r))) (ix_packages db)\<rparr>))"

definition delete_path :: "index_env \<Rightarrow> sync_args \<Rightarrow> string \<Rightarrow> tx_step list" where
  "delete_path env a path =
     [read_deleted env a path, delete_chunks env a path (\<lambda>x. x = path), delete_symbols env a path (\<lambda>x. x = path),
      delete_deps env a path (\<lambda>x. x = path)]"

definition delete_ref :: "index_env \<Rightarrow> sync_args \<Rightarrow> tx_step list" where
  "delete_ref env a = [delete_chunks env a [] (\<lambda>_. True), delete_symbols env a [] (\<lambda>_. True), delete_deps env a [] (\<lambda>_. True)]"

definition delete_old :: "index_env \<Rightarrow> sync_args \<Rightarrow> plan \<Rightarrow> tx_step list" where
  "delete_old env a p = (if pl_incremental p then concat (map (delete_path env a) (ie_walk env 0 (pl_removed p))) else delete_ref env a)"

subsection \<open>The listing of files\<close>

definition file_row_of :: "index_env \<Rightarrow> sync_args \<Rightarrow> source_file \<Rightarrow> file_row" where
  "file_row_of env a file =
     (let path = trim_prefix (sf_Path file) ''./'' in
      \<lparr>fl_repo = sa_repo a, fl_ref = rf_Name (sa_ref a), fl_path = path, fl_base = to_lower (path_Base path),
       fl_commit = rf_LatestCommit (sa_ref a), fl_size = sf_Size file, fl_indexed = (if allowed (ie_policy env) file then 1 else 0)\<rparr>)"

definition file_row_key :: "file_row \<Rightarrow> string \<times> string \<times> string" where
  "file_row_key r = (fl_repo r, fl_ref r, fl_path r)"

definition upsert_file :: "file_row \<Rightarrow> file_row list \<Rightarrow> file_row list" where
  "upsert_file r rows =
     (if file_row_key r \<in> file_row_key ` set rows then map (\<lambda>x. if file_row_key x = file_row_key r then r else x) rows else rows @ [r])"

definition record_file :: "index_env \<Rightarrow> sync_args \<Rightarrow> source_file \<Rightarrow> tx_step" where
  "record_file env a file s =
     (if trim_prefix (sf_Path file) ''./'' = [] then Inr s
      else in_tx (exec env (UpsertFile (trim_prefix (sf_Path file) ''./''))
        (\<lambda>db. db\<lparr>ix_files := upsert_file (file_row_of env a file) (ix_files db)\<rparr>)) s)"

definition touch_files :: "index_env \<Rightarrow> sync_args \<Rightarrow> tx_step" where
  "touch_files env a = in_tx (exec env TouchFiles (\<lambda>db. db\<lparr>ix_files :=
     map (\<lambda>r. if of_ref a (fl_repo r) (fl_ref r) then r\<lparr>fl_commit := rf_LatestCommit (sa_ref a)\<rparr> else r) (ix_files db)\<rparr>))"

definition recordFiles :: "index_env \<Rightarrow> sync_args \<Rightarrow> plan \<Rightarrow> tx_step list" where
  "recordFiles env a p =
     (if \<not> pl_incremental p then [delete_files env a [] (\<lambda>_. True)]
      else map (\<lambda>path. delete_files env a path (\<lambda>x. x = path)) (ie_walk env 1 (pl_removed p)) @ [touch_files env a])
     @ map (record_file env a) (pl_files p)"

subsection \<open>From the staging tables\<close>

definition staged :: "index_env \<Rightarrow> sync_args \<Rightarrow> (string \<times> 'r) list \<Rightarrow> 'r list" where
  "staged env a rows = map snd (filter (\<lambda>(g, _). g = generation env a) rows)"

definition publish_chunks :: "index_env \<Rightarrow> sync_args \<Rightarrow> tx_step" where
  "publish_chunks env a = in_tx (exec_insert env PublishChunks
     (\<lambda>db. \<exists>r \<in> set (staged env a (sg_chunks db)). dc_id r \<in> dc_id ` set (ix_chunks db))
     (\<lambda>db. db\<lparr>ix_chunks := ix_chunks db @ staged env a (sg_chunks db)\<rparr>))"

definition publish_symbols :: "index_env \<Rightarrow> sync_args \<Rightarrow> tx_step" where
  "publish_symbols env a = in_tx (exec_insert env PublishSymbols
     (\<lambda>db. \<exists>r \<in> set (staged env a (sg_symbols db)). fst r \<in> fst ` set (ix_symbols db))
     (\<lambda>db. db\<lparr>ix_symbols := ix_symbols db @ staged env a (sg_symbols db)\<rparr>))"

definition publish_deps :: "index_env \<Rightarrow> sync_args \<Rightarrow> tx_step" where
  "publish_deps env a = in_tx (exec_insert env PublishDeps
     (\<lambda>db. \<exists>r \<in> set (staged env a (sg_deps db)). fst r \<in> fst ` set (ix_deps db))
     (\<lambda>db. db\<lparr>ix_deps := ix_deps db @ staged env a (sg_deps db)\<rparr>))"

definition delete_old_packages :: "index_env \<Rightarrow> sync_args \<Rightarrow> plan \<Rightarrow> tx_step list" where
  "delete_old_packages env a p =
     (if pl_incremental p then
        map (\<lambda>path. delete_packages env a path (\<lambda>x. x = path)) (ie_walk env 2 (pl_parsed p))
        @ map (\<lambda>path. delete_packages env a path (\<lambda>x. x = path))
            (filter (\<lambda>path. Recognize path \<noteq> None \<or> RecognizeLock path \<noteq> None) (ie_walk env 3 (pl_removed p)))
      else [delete_packages env a [] (\<lambda>_. True)])"

definition publish_packages :: "index_env \<Rightarrow> sync_args \<Rightarrow> tx_step" where
  "publish_packages env a = in_tx (exec_insert env PublishPackages
     (\<lambda>db. \<exists>r \<in> set (staged env a (sg_packages db)). inventory_key r \<in> inventory_key ` set (ix_packages db))
     (\<lambda>db. db\<lparr>ix_packages := ix_packages db @ staged env a (sg_packages db)\<rparr>))"

definition insert_security_event :: "index_env \<Rightarrow> security_event \<Rightarrow> tx_step" where
  "insert_security_event env e = in_tx (exec env (InsertEvent (ev_id e))
     (\<lambda>db. if ev_id e \<in> ev_id ` set (ix_events db) then db else db\<lparr>ix_events := ix_events db @ [e]\<rparr>))"

definition touch_chunks :: "index_env \<Rightarrow> sync_args \<Rightarrow> tx_step" where
  "touch_chunks env a = in_tx (exec env TouchChunks (\<lambda>db. db\<lparr>ix_chunks := map (\<lambda>r. if of_ref a (dc_repo r) (dc_ref r)
     then r\<lparr>dc_commit := rf_LatestCommit (sa_ref a), dc_indexed := ie_now env\<rparr> else r) (ix_chunks db)\<rparr>))"

definition touch_symbols :: "index_env \<Rightarrow> sync_args \<Rightarrow> tx_step" where
  "touch_symbols env a = in_tx (exec env TouchSymbols (\<lambda>db. db\<lparr>ix_symbols := map (\<lambda>(i, r). if of_ref a (sy_repo r) (sy_ref r)
     then (i, r\<lparr>sy_commit := rf_LatestCommit (sa_ref a)\<rparr>) else (i, r)) (ix_symbols db)\<rparr>))"

definition touch_deps :: "index_env \<Rightarrow> sync_args \<Rightarrow> tx_step" where
  "touch_deps env a = in_tx (exec env TouchDeps (\<lambda>db. db\<lparr>ix_deps := map (\<lambda>(i, r). if of_ref a (de_repo r) (de_ref r)
     then (i, r\<lparr>de_commit := rf_LatestCommit (sa_ref a)\<rparr>) else (i, r)) (ix_deps db)\<rparr>))"

subsection \<open>The state of the ref, its changes and its map\<close>

definition count_chunks :: "index_env \<Rightarrow> sync_args \<Rightarrow> tx_step" where
  "count_chunks env a = exec env CountChunks (\<lambda>s. s\<lparr>tx_total := length (ref_chunks a (tx_db s)),
     tx_embedded := length (filter (\<lambda>r. dc_vector r \<noteq> None) (ref_chunks a (tx_db s)))\<rparr>)"

definition upsert_state :: "index_env \<Rightarrow> sync_args \<Rightarrow> string \<Rightarrow> string list \<Rightarrow> tx_step" where
  "upsert_state env a revision warnings s =
     (let (status, e) = describeEmbeddingState revision (tx_total s) (tx_embedded s) warnings;
          st = \<lparr>rs_repo = sa_repo a, rs_ref = rf_Name (sa_ref a), rs_commit = rf_LatestCommit (sa_ref a), rs_indexed = ie_now env,
            rs_embedding = revision, rs_policy = policy_revision env, rs_chunks = tx_total s, rs_embedded = tx_embedded s,
            rs_status = status, rs_error = e\<rparr> in
      in_tx (exec env UpsertState (\<lambda>db. db\<lparr>ix_states := filter (\<lambda>x. \<not> of_ref a (rs_repo x) (rs_ref x)) (ix_states db) @ [st]\<rparr>)) s)"

definition change_key :: "ref_change_row \<Rightarrow> string \<times> string \<times> string \<times> string \<times> string" where
  "change_key r = (rg_repo r, rg_ref r, rg_commit r, rg_path r, rg_action r)"

definition delete_changes :: "index_env \<Rightarrow> sync_args \<Rightarrow> tx_step" where
  "delete_changes env a = in_tx (exec env DeleteChanges (\<lambda>db. db\<lparr>ix_changes :=
     filter (\<lambda>r. \<not> (of_ref a (rg_repo r) (rg_ref r) \<and> rg_commit r = rf_LatestCommit (sa_ref a))) (ix_changes db)\<rparr>))"

definition insert_change :: "index_env \<Rightarrow> sync_args \<Rightarrow> plan \<Rightarrow> string \<Rightarrow> string \<Rightarrow> tx_step" where
  "insert_change env a p action path s =
     (let r = \<lparr>rg_repo = sa_repo a, rg_ref = rf_Name (sa_ref a), rg_commit = rf_LatestCommit (sa_ref a), rg_previous = pl_prior p,
        rg_path = path, rg_action = action,
        rg_deleted = (if action = ''delete'' then (case map_of (tx_deleted s) path of None \<Rightarrow> [] | Some ids \<Rightarrow> ids) else [])\<rparr> in
      in_tx (exec_insert env (InsertChange action path) (\<lambda>db. change_key r \<in> change_key ` set (ix_changes db))
        (\<lambda>db. db\<lparr>ix_changes := ix_changes db @ [r]\<rparr>)) s)"

definition record_changes :: "index_env \<Rightarrow> sync_args \<Rightarrow> plan \<Rightarrow> tx_step list" where
  "record_changes env a p =
     delete_changes env a #
     (if \<not> pl_incremental p then [insert_change env a p ''full'' []]
      else map (insert_change env a p ''delete'') (ie_walk env 4 (pl_removed p))
        @ map (insert_change env a p ''upsert'') (ie_walk env 5 (pl_upserts p))
        @ (if pl_removed p = [] \<and> pl_upserts p = [] then [insert_change env a p ''noop'' []] else []))"

definition map_symbol_of :: "symbol_row \<Rightarrow> map_symbol" where
  "map_symbol_of r = \<lparr>ms_language = sy_language r, ms_kind = sy_kind r, ms_qualified = sy_qualified r, ms_path = sy_path r, ms_line = sy_start r\<rparr>"

definition ref_map :: "index_env \<Rightarrow> sync_args \<Rightarrow> index_db \<Rightarrow> repositoryMap" where
  "ref_map env a db = repository_map (ie_sort_points env)
     (map (map_symbol_of \<circ> snd) (filter (\<lambda>(i, r). of_ref a (sy_repo r) (sy_ref r)) (ix_symbols db)))
     (remdups (map dc_path (ref_chunks a db)))"

definition refreshRepositoryMap :: "index_env \<Rightarrow> sync_args \<Rightarrow> tx_step list" where
  "refreshRepositoryMap env a =
     [exec env ReadMap (\<lambda>s. s),
      in_tx (exec env UpsertMap (\<lambda>db. db\<lparr>ix_maps := filter (\<lambda>m. \<not> of_ref a (mp_repo m) (mp_ref m)) (ix_maps db)
        @ [\<lparr>mp_repo = sa_repo a, mp_ref = rf_Name (sa_ref a), mp_commit = rf_LatestCommit (sa_ref a), mp_summary = ie_marshal env (ref_map env a db)\<rparr>]\<rparr>))]"

subsection \<open>The transaction\<close>

definition publish_steps :: "index_env \<Rightarrow> sync_args \<Rightarrow> plan \<Rightarrow> tx_step list" where
  "publish_steps env a p =
     [lockJobLease env a, check_commit env a p]
     @ delete_old env a p
     @ recordFiles env a p
     @ [publish_chunks env a, publish_symbols env a, publish_deps env a]
     @ delete_old_packages env a p
     @ [publish_packages env a]
     @ map (insert_security_event env) (pl_events p)
     @ map in_tx (clear_generation env a)
     @ [touch_chunks env a, touch_symbols env a, touch_deps env a, count_chunks env a, upsert_state env a (pl_revision p) (pl_warnings p)]
     @ record_changes env a p
     @ refreshRepositoryMap env a
     @ [exec env Commit (\<lambda>s. s)]"

definition start_tx :: "index_db \<Rightarrow> tx_state" where
  "start_tx db = \<lparr>tx_db = db, tx_deleted = [], tx_total = 0, tx_embedded = 0\<rparr>"

text \<open>A transaction commits all of its steps or none.\<close>

definition transaction :: "index_env \<Rightarrow> tx_step list \<Rightarrow> index_db \<Rightarrow> string + index_db" where
  "transaction env steps db =
     (case ie_fault env BeginPublish of
        Some e \<Rightarrow> Inl e
      | None \<Rightarrow> (case run_steps steps (start_tx db) of Inl e \<Rightarrow> Inl e | Inr s \<Rightarrow> Inr (tx_db s)))"

definition publish :: "index_env \<Rightarrow> sync_args \<Rightarrow> plan \<Rightarrow> index_db \<Rightarrow> string + index_db" where
  "publish env a p = transaction env (publish_steps env a p)"

text \<open>The transaction of a ref that has not moved.\<close>

definition confirm_steps :: "index_env \<Rightarrow> sync_args \<Rightarrow> tx_step list" where
  "confirm_steps env a =
     [lockJobLease env a, count_chunks env a, upsert_state env a (embedding_revision env) []]
     @ refreshRepositoryMap env a @ [exec env Commit (\<lambda>s. s)]"

section \<open>A run over one ref and over a repository\<close>

definition plan_of :: "prior \<Rightarrow> bool \<Rightarrow> source_file list \<Rightarrow> string list \<Rightarrow> gather \<Rightarrow> plan" where
  "plan_of p incremental files removed g =
     \<lparr>pl_prior = pr_commit p, pl_incremental = incremental, pl_files = files, pl_removed = removed, pl_upserts = ga_upserts g,
      pl_parsed = ga_parsed g, pl_events = ga_events g, pl_revision = ga_revision g, pl_warnings = ga_warnings g\<rparr>"

definition run_warning :: "source_file list \<Rightarrow> gather \<Rightarrow> string" where
  "run_warning files g =
     (let warning = join_with ''; '' (take 3 (ga_warnings g));
          warning = (if ga_manifest_warnings g = [] then warning
            else (if warning \<noteq> [] then warning @ ''; '' else warning) @ join_with ''; '' (take 3 (ga_manifest_warnings g))) in
      if ga_candidates g = 0 \<and> files \<noteq> []
      then itoa_nat (length files) @ '' file(s) listed but none matched the index policy; adjust the repository extension policy'' else warning)"

definition finish_run :: "index_env \<Rightarrow> sync_args \<Rightarrow> nat \<Rightarrow> string \<Rightarrow> index_db \<Rightarrow> index_error option \<times> index_db" where
  "finish_run env a processed warning db =
     (case sync_complete_job env a processed warning db of Inl e \<Rightarrow> (Some (IndexError e), db) | Inr db' \<Rightarrow> (None, db'))"

definition confirm_run :: "index_env \<Rightarrow> sync_args \<Rightarrow> index_db \<Rightarrow> index_error option \<times> index_db" where
  "confirm_run env a db =
     (case transaction env (confirm_steps env a) db of
        Inl e \<Rightarrow> fail_run env a (IndexError e) db
      | Inr db' \<Rightarrow> finish_run env a 0 [] db')"

definition gather_run :: "index_env \<Rightarrow> sync_args \<Rightarrow> prior \<Rightarrow> bool \<Rightarrow> source_file list \<Rightarrow> string list \<Rightarrow> index_db \<Rightarrow> index_error option \<times> index_db" where
  "gather_run env a p incremental files removed db =
     (case gather_files env a files (start_gather env db) of
        Inl (e, db1) \<Rightarrow> fail_run env a e db1
      | Inr g \<Rightarrow>
          (let db1 = ie_others env (ga_db g) in
           case publish env a (plan_of p incremental files removed g) db1 of
             Inl e \<Rightarrow> fail_run env a (IndexError e) db1
           | Inr db2 \<Rightarrow> finish_run env a (ga_processed g) (run_warning files g) db2))"

definition sync_prior :: "index_env \<Rightarrow> sync_args \<Rightarrow> index_db \<Rightarrow> index_error option \<times> index_db" where
  "sync_prior env a db =
     (case read_prior env a db of
        Inl e \<Rightarrow> fail_run env a (IndexError e) db
      | Inr p \<Rightarrow>
          (if unchanged env a p then confirm_run env a db
           else case choose_files env a p of
             Inl e \<Rightarrow> fail_run env a (IndexError e) db
           | Inr (incremental, files, removed) \<Rightarrow> gather_run env a p incremental files removed db))"

definition syncRef :: "index_env \<Rightarrow> sync_args \<Rightarrow> index_db \<Rightarrow> index_error option \<times> index_db" where
  "syncRef env a db =
     (if sa_track a then (case insert_job env a db of Inl e \<Rightarrow> (Some (IndexError e), db) | Inr db1 \<Rightarrow> sync_prior env a db1)
      else sync_prior env a db)"

text \<open>\<^verbatim>\<open>syncRepository\<close>: the row of the repository, who may read it, and a run for each ref. \<open>at\<close> gives the clock,
  the job id and the surroundings of each run.\<close>

definition supported_source :: "string \<Rightarrow> bool" where
  "supported_source t \<longleftrightarrow> t \<in> {''bitbucket'', ''gitlab'', ''confluence'', ''jira''}"

definition repository_id :: "string \<Rightarrow> source_repository \<Rightarrow> string" where
  "repository_id sourceType repo = sourceType @ '':'' @ itoa (so_ID repo)"

definition repository_row_of :: "index_env \<Rightarrow> string \<Rightarrow> source_repository \<Rightarrow> repository_row" where
  "repository_row_of env sourceType repo =
     \<lparr>re_id = repository_id sourceType repo, re_project = so_ProjectKey repo, re_slug = so_Slug repo, re_name = so_Name repo,
      re_description = so_Description repo, re_source = sourceType, re_external = itoa (so_ID repo),
      re_library = LibraryIDForSource (ie_letter env) sourceType (so_ProjectKey repo) (so_Slug repo), re_branch = so_DefaultBranch repo,
      re_enabled = True, re_indexed = None\<rparr>"

definition same_path :: "repository_row \<Rightarrow> repository_row \<Rightarrow> bool" where
  "same_path r x \<longleftrightarrow> re_source x = re_source r \<and> re_project x = re_project r \<and> re_slug x = re_slug r"

definition path_taken :: "repository_row \<Rightarrow> index_db \<Rightarrow> bool" where
  "path_taken r db \<longleftrightarrow> list_ex (\<lambda>x. re_id x \<noteq> re_id r \<and>
     (same_path r x \<or> re_library x = re_library r \<and> re_id r \<notin> re_id ` set (ix_repositories db))) (ix_repositories db)"

definition upsert_repository :: "index_env \<Rightarrow> repository_row \<Rightarrow> index_db \<Rightarrow> string + index_db" where
  "upsert_repository env r =
     exec_insert env UpsertRepository (path_taken r)
       (\<lambda>db. db\<lparr>ix_repositories :=
          if re_id r \<in> re_id ` set (ix_repositories db) then
            map (\<lambda>x. if re_id x = re_id r then x\<lparr>re_project := re_project r, re_slug := re_slug r, re_name := re_name r,
                re_description := re_description r, re_branch := re_branch r, re_enabled := True\<rparr> else x) (ix_repositories db)
          else ix_repositories db @ [r]\<rparr>)"

definition taken_text :: "repository_row \<Rightarrow> repository_row \<Rightarrow> string" where
  "taken_text r x = re_project r @ ''/'' @ re_slug r @ '' is already registered as '' @ re_id x @ '' (source id '' @ re_external x
     @ ''), so '' @ re_id r @ '' cannot take that path. The project was renamed, transferred or replaced at the source: disable or remove the stale repository, then index again''"

definition register_repository :: "index_env \<Rightarrow> repository_row \<Rightarrow> index_db \<Rightarrow> string + index_db" where
  "register_repository env r db =
     (case upsert_repository env r db of
        Inr db1 \<Rightarrow> Inr db1
      | Inl e \<Rightarrow>
          (case (if ie_fault env FindHolder = None then List.find (\<lambda>x. same_path r x \<and> re_id x \<noteq> re_id r) (ix_repositories db) else None) of
             Some x \<Rightarrow> Inl (taken_text r x)
           | None \<Rightarrow> Inl e))"

definition permission_principal :: "source_permission \<Rightarrow> string" where
  "permission_principal p =
     (if pm_Kind p = ''group'' then ''group:'' @ trim_prefix (trim_prefix (pm_Principal p) ''group:'') ''/'' else pm_Principal p)"

definition insert_permission :: "index_env \<Rightarrow> string \<Rightarrow> source_permission \<Rightarrow> tx_step" where
  "insert_permission env repoID p s =
     (if \<not> readable_permission (pm_Permission p) then Inr s
      else in_tx (exec env (InsertPermission (permission_principal p)) (\<lambda>db. db\<lparr>ix_permissions :=
        filter (\<lambda>(r, q, _). \<not> (r = repoID \<and> q = permission_principal p)) (ix_permissions db)
          @ [(repoID, permission_principal p, pm_Permission p)]\<rparr>)) s)"

definition permission_steps :: "index_env \<Rightarrow> string \<Rightarrow> source_permission list \<Rightarrow> tx_step list" where
  "permission_steps env repoID perms =
     in_tx (exec env DeletePermissions (\<lambda>db. db\<lparr>ix_permissions := filter (\<lambda>(r, q, _). r \<noteq> repoID) (ix_permissions db)\<rparr>))
     # map (insert_permission env repoID) perms @ [exec env CommitPermissions (\<lambda>s. s)]"

definition replace_permissions :: "index_env \<Rightarrow> string \<Rightarrow> source_permission list \<Rightarrow> index_db \<Rightarrow> string + index_db" where
  "replace_permissions env repoID perms db =
     (case ie_fault env BeginPermissions of
        Some e \<Rightarrow> Inl e
      | None \<Rightarrow> (case run_steps (permission_steps env repoID perms) (start_tx db) of Inl e \<Rightarrow> Inl e | Inr s \<Rightarrow> Inr (tx_db s)))"

fun sync_refs :: "(nat \<Rightarrow> index_env) \<Rightarrow> nat \<Rightarrow> sync_args list \<Rightarrow> index_db \<Rightarrow> index_error option \<times> index_db" where
  "sync_refs at n [] db = (None, db)"
| "sync_refs at n (a # as) db =
     (case syncRef (at n) a db of
        (Some e, db1) \<Rightarrow> (Some e, db1)
      | (None, db1) \<Rightarrow> sync_refs at (n + 1) as db1)"

definition touch_repository :: "index_env \<Rightarrow> string \<Rightarrow> index_db \<Rightarrow> string + index_db" where
  "touch_repository env repoID = exec env TouchRepository (\<lambda>db. db\<lparr>ix_repositories :=
     map (\<lambda>x. if re_id x = repoID then x\<lparr>re_indexed := Some (ie_now env)\<rparr> else x) (ix_repositories db)\<rparr>)"

definition syncRepository ::
    "(nat \<Rightarrow> index_env) \<Rightarrow> string \<Rightarrow> source_repository \<Rightarrow> reference list \<Rightarrow> bool \<Rightarrow> lease option \<Rightarrow> index_db \<Rightarrow> index_error option \<times> index_db" where
  "syncRepository at sourceType repo refs track lease db =
     (let env = at 0; repoID = repository_id sourceType repo in
      if \<not> supported_source sourceType then (Some (IndexError ''unsupported source type''), db)
      else case register_repository env (repository_row_of env sourceType repo) db of
        Inl e \<Rightarrow> (Some (IndexError e), db)
      | Inr db1 \<Rightarrow>
          (case ad_permissions (ie_adapter env) of
             Inl e \<Rightarrow> (Some (IndexError (''permissions: '' @ e)), db1)
           | Inr perms \<Rightarrow>
               (case replace_permissions env repoID perms db1 of
                  Inl e \<Rightarrow> (Some (IndexError e), db1)
                | Inr db2 \<Rightarrow>
                    (case sync_refs at 0 (map (\<lambda>r. \<lparr>sa_repo = repoID, sa_ref = r, sa_track = track, sa_lease = lease\<rparr>) refs) db2 of
                       (Some e, db3) \<Rightarrow> (Some e, db3)
                     | (None, db3) \<Rightarrow> (None, try_step (touch_repository env repoID) db3)))))"

end
