(* ===== verification/IndexPublish.thy ===== *)
theory IndexPublish
  imports IndexRun
begin

text \<open>
  What a run of the indexer does to the tables. The steps of a transaction are shown to keep the
  tables they do not write, which gives the tables after a publication as equations; the loop that
  gathers is shown to stage exactly the chunks of the files it reads.
\<close>

section \<open>Sequences of steps\<close>

lemma run_steps_append:
  "run_steps (xs @ ys) s = (case run_steps xs s of Inl e \<Rightarrow> Inl e | Inr t \<Rightarrow> run_steps ys t)"
  by (induction xs arbitrary: s) (auto split: sum.splits)

lemma run_steps_appendE:
  assumes "run_steps (xs @ ys) s = Inr s'"
  obtains t where "run_steps xs s = Inr t" "run_steps ys t = Inr s'"
  using assms by (auto simp: run_steps_append split: sum.splits)

lemma run_steps_ConsE:
  assumes "run_steps (f # fs) s = Inr s'"
  obtains t where "f s = Inr t" "run_steps fs t = Inr s'"
  using assms by (auto split: sum.splits)

text \<open>A step that leaves a part of the state alone.\<close>

definition keeps :: "('s \<Rightarrow> 'x) \<Rightarrow> ('s \<Rightarrow> 'e + 's) \<Rightarrow> bool" where
  "keeps f step \<longleftrightarrow> (\<forall>s s'. step s = Inr s' \<longrightarrow> f s' = f s)"

named_theorems keeping \<open>which steps keep which tables\<close>

lemma keepsD: "keeps f step \<Longrightarrow> step s = Inr s' \<Longrightarrow> f s' = f s"
  by (simp add: keeps_def)

lemma run_keeps: "list_all (keeps f) steps \<Longrightarrow> run_steps steps s = Inr s' \<Longrightarrow> f s' = f s"
  by (induction steps arbitrary: s) (auto simp: keeps_def split: sum.splits)

lemma exec_Inr: "exec env l act s = Inr s' \<longleftrightarrow> ie_fault env l = None \<and> s' = act s"
  by (auto simp: exec_def split: option.splits)

lemma exec_insert_Inr: "exec_insert env l clash act s = Inr s' \<longleftrightarrow> ie_fault env l = None \<and> \<not> clash s \<and> s' = act s"
  by (auto simp: exec_insert_def split: option.splits)

lemma in_tx_Inr: "in_tx f s = Inr s' \<longleftrightarrow> (\<exists>db. f (tx_db s) = Inr db \<and> s' = s\<lparr>tx_db := db\<rparr>)"
  by (auto simp: in_tx_def split: sum.splits)

lemmas step_Inr = exec_Inr exec_insert_Inr in_tx_Inr

lemma keeps_exec [keeping]: "(\<And>s. f (act s) = f s) \<Longrightarrow> keeps f (exec env l act)"
  by (simp add: keeps_def exec_Inr)

lemma keeps_exec_insert [keeping]: "(\<And>s. f (act s) = f s) \<Longrightarrow> keeps f (exec_insert env l clash act)"
  by (simp add: keeps_def exec_insert_Inr)

section \<open>Which step writes which table\<close>

text \<open>The tables of contents and the staging tables, which most steps of a transaction leave alone.\<close>

definition contents_of :: "tx_state \<Rightarrow> doc_chunk list \<times> (string \<times> symbol_row) list \<times> (string \<times> dependency_row) list" where
  "contents_of s = (ix_chunks (tx_db s), ix_symbols (tx_db s), ix_deps (tx_db s))"

definition staging_of ::
    "tx_state \<Rightarrow> (string \<times> doc_chunk) list \<times> (string \<times> string \<times> symbol_row) list \<times> (string \<times> string \<times> dependency_row) list" where
  "staging_of s = (sg_chunks (tx_db s), sg_symbols (tx_db s), sg_deps (tx_db s))"

lemma contents_eq: "contents_of s' = contents_of s \<longleftrightarrow>
    ix_chunks (tx_db s') = ix_chunks (tx_db s) \<and> ix_symbols (tx_db s') = ix_symbols (tx_db s) \<and> ix_deps (tx_db s') = ix_deps (tx_db s)"
  by (simp add: contents_of_def)

lemma staging_eq: "staging_of s' = staging_of s \<longleftrightarrow>
    sg_chunks (tx_db s') = sg_chunks (tx_db s) \<and> sg_symbols (tx_db s') = sg_symbols (tx_db s) \<and> sg_deps (tx_db s') = sg_deps (tx_db s)"
  by (simp add: staging_of_def)

lemma lock_same: "lockJobLease env a s = Inr s' \<Longrightarrow> s' = s"
  by (auto simp: lockJobLease_def split: option.splits if_splits)

lemma check_same: "check_commit env a p s = Inr s' \<Longrightarrow> s' = s"
  by (auto simp: check_commit_def split: option.splits if_splits)

lemma files_keep: "list_all (keeps contents_of) (recordFiles env a p)" "list_all (keeps staging_of) (recordFiles env a p)"
  by (auto simp: recordFiles_def list_all_iff keeps_def contents_eq staging_eq step_Inr delete_files_def touch_files_def record_file_def
      split: if_splits)

lemma packages_keep: "list_all (keeps contents_of) (delete_old_packages env a p @ [publish_packages env a])"
  by (auto simp: delete_old_packages_def list_all_iff keeps_def contents_eq step_Inr delete_packages_def publish_packages_def split: if_splits)

lemma events_keep: "list_all (keeps contents_of) (map (insert_security_event env) es)"
  by (auto simp: list_all_iff keeps_def contents_eq step_Inr insert_security_event_def split: if_splits)

lemma clear_keep: "list_all (keeps contents_of) (map in_tx (clear_generation env a))"
  by (auto simp: list_all_iff keeps_def contents_eq step_Inr clear_generation_def clear_chunks_def clear_symbols_def clear_deps_def clear_packages_def)

lemma upsert_state_Inr:
  "upsert_state env a revision warnings s = Inr s' \<Longrightarrow>
   \<exists>status e. s' = s\<lparr>tx_db := (tx_db s)\<lparr>ix_states := filter (\<lambda>x. \<not> of_ref a (rs_repo x) (rs_ref x)) (ix_states (tx_db s))
     @ [\<lparr>rs_repo = sa_repo a, rs_ref = rf_Name (sa_ref a), rs_commit = rf_LatestCommit (sa_ref a), rs_indexed = ie_now env,
         rs_embedding = revision, rs_policy = policy_revision env, rs_chunks = tx_total s, rs_embedded = tx_embedded s,
         rs_status = status, rs_error = e\<rparr>]\<rparr>\<rparr>"
  by (auto simp: upsert_state_def step_Inr split: prod.splits)

lemma changes_keep: "list_all (keeps contents_of) (record_changes env a p)"
  by (auto simp: record_changes_def list_all_iff keeps_def contents_eq step_Inr delete_changes_def insert_change_def Let_def split: if_splits)

lemma map_keep: "list_all (keeps contents_of) (refreshRepositoryMap env a @ [exec env Commit (\<lambda>s. s)])"
  by (auto simp: refreshRepositoryMap_def list_all_iff keeps_def contents_eq step_Inr)

section \<open>The tables after a publication\<close>

text \<open>The rows of a ref that a publication replaces, by the path of their file, and the new stamp of those that stay.\<close>

definition replaced :: "sync_args \<Rightarrow> plan \<Rightarrow> string \<Rightarrow> string \<Rightarrow> string \<Rightarrow> bool" where
  "replaced a p repo ref path \<longleftrightarrow> of_ref a repo ref \<and> (pl_incremental p \<longrightarrow> path \<in> set (pl_removed p))"

definition walks_maps :: "index_env \<Rightarrow> bool" where
  "walks_maps env \<longleftrightarrow> (\<forall>n xs. mset (ie_walk env n xs) = mset xs)"

lemma walk_set: "walks_maps env \<Longrightarrow> set (ie_walk env n xs) = set xs"
  by (metis walks_maps_def mset_eq_setD)

definition kept_contents ::
    "sync_args \<Rightarrow> (string \<Rightarrow> bool) \<Rightarrow> tx_state \<Rightarrow> doc_chunk list \<times> (string \<times> symbol_row) list \<times> (string \<times> dependency_row) list" where
  "kept_contents a P s =
     (filter (\<lambda>r. \<not> (of_ref a (dc_repo r) (dc_ref r) \<and> P (dc_path r))) (ix_chunks (tx_db s)),
      filter (\<lambda>(i, r). \<not> (of_ref a (sy_repo r) (sy_ref r) \<and> P (sy_path r))) (ix_symbols (tx_db s)),
      filter (\<lambda>(i, r). \<not> (of_ref a (de_repo r) (de_ref r) \<and> P (de_path r))) (ix_deps (tx_db s)))"

lemma delete_three:
  assumes "run_steps [delete_chunks env a name P, delete_symbols env a name P, delete_deps env a name P] s = Inr s'"
  shows "contents_of s' = kept_contents a P s \<and> staging_of s' = staging_of s"
  using assms by (auto simp: step_Inr delete_chunks_def delete_symbols_def delete_deps_def kept_contents_def contents_of_def staging_of_def
      split: sum.splits)

lemma delete_paths:
  "run_steps (concat (map (delete_path env a) paths)) s = Inr s' \<Longrightarrow>
   contents_of s' = kept_contents a (\<lambda>x. x \<in> set paths) s \<and> staging_of s' = staging_of s"
proof (induction paths arbitrary: s)
  case Nil
  then show ?case by (simp add: kept_contents_def contents_of_def)
next
  case (Cons path paths)
  from Cons.prems obtain s1 where s1: "run_steps (delete_path env a path) s = Inr s1"
    "run_steps (concat (map (delete_path env a) paths)) s1 = Inr s'"
    by (auto elim: run_steps_appendE)
  from s1(1) obtain s0 where s0: "read_deleted env a path s = Inr s0"
    "run_steps [delete_chunks env a path (\<lambda>x. x = path), delete_symbols env a path (\<lambda>x. x = path), delete_deps env a path (\<lambda>x. x = path)] s0 = Inr s1"
    unfolding delete_path_def by (rule run_steps_ConsE)
  have "contents_of s0 = contents_of s" "staging_of s0 = staging_of s"
    using s0(1) by (auto simp: read_deleted_def exec_Inr contents_of_def staging_of_def)
  then have "contents_of s1 = kept_contents a (\<lambda>x. x = path) s" "staging_of s1 = staging_of s"
    using delete_three [OF s0(2)] by (auto simp: kept_contents_def contents_of_def)
  moreover have "contents_of s' = kept_contents a (\<lambda>x. x \<in> set paths) s1" "staging_of s' = staging_of s1"
    using Cons.IH [OF s1(2)] by simp_all
  ultimately show ?case
    by (simp add: kept_contents_def contents_of_def) (intro conjI filter_cong refl; auto)
qed

lemma delete_old_contents:
  assumes "walks_maps env" "run_steps (delete_old env a p) s = Inr s'"
  shows "contents_of s' = kept_contents a (\<lambda>path. pl_incremental p \<longrightarrow> path \<in> set (pl_removed p)) s \<and> staging_of s' = staging_of s"
proof (cases "pl_incremental p")
  case True
  then show ?thesis using assms delete_paths [of env a "ie_walk env 0 (pl_removed p)" s s'] by (simp add: delete_old_def walk_set)
next
  case False
  then show ?thesis using assms(2) delete_three [of env a "[]" "\<lambda>_. True" s s'] by (simp add: delete_old_def delete_ref_def)
qed

text \<open>The states a publication goes through.\<close>

lemma publish_stages:
  assumes "run_steps (publish_steps env a p) s = Inr s'"
  obtains s1 s2 s3 s4 s5 s6 s7 s8 s9 s10 s11 where
    "run_steps (delete_old env a p) s = Inr s1" "contents_of s2 = contents_of s1" "staging_of s2 = staging_of s1"
    "publish_chunks env a s2 = Inr s3" "publish_symbols env a s3 = Inr s4" "publish_deps env a s4 = Inr s5"
    "contents_of s6 = contents_of s5" "touch_chunks env a s6 = Inr s7" "touch_symbols env a s7 = Inr s8" "touch_deps env a s8 = Inr s9"
    "count_chunks env a s9 = Inr s10" "upsert_state env a (pl_revision p) (pl_warnings p) s10 = Inr s11"
    "run_steps (record_changes env a p @ refreshRepositoryMap env a @ [exec env Commit (\<lambda>s. s)]) s11 = Inr s'"
proof -
  define middle where "middle = delete_old_packages env a p @ [publish_packages env a] @ map (insert_security_event env) (pl_events p)
     @ map in_tx (clear_generation env a)"
  define tail where "tail = record_changes env a p @ refreshRepositoryMap env a @ [exec env Commit (\<lambda>s. s)]"
  have "run_steps ([lockJobLease env a, check_commit env a p] @ delete_old env a p @ recordFiles env a p
     @ [publish_chunks env a, publish_symbols env a, publish_deps env a] @ middle
     @ [touch_chunks env a, touch_symbols env a, touch_deps env a, count_chunks env a, upsert_state env a (pl_revision p) (pl_warnings p)]
     @ tail) s = Inr s'"
    using assms unfolding publish_steps_def middle_def tail_def by simp
  then obtain s0 s1 s2 s5 s6 s11 where s0: "run_steps [lockJobLease env a, check_commit env a p] s = Inr s0"
    and s1: "run_steps (delete_old env a p) s0 = Inr s1" and s2: "run_steps (recordFiles env a p) s1 = Inr s2"
    and s5: "run_steps [publish_chunks env a, publish_symbols env a, publish_deps env a] s2 = Inr s5" and s6: "run_steps middle s5 = Inr s6"
    and s11: "run_steps [touch_chunks env a, touch_symbols env a, touch_deps env a, count_chunks env a,
        upsert_state env a (pl_revision p) (pl_warnings p)] s6 = Inr s11" and tail: "run_steps tail s11 = Inr s'"
    by (elim run_steps_appendE)
  have "s0 = s" using s0 by (auto split: sum.splits dest!: lock_same check_same)
  have "list_all (keeps contents_of) middle"
    using packages_keep [of env a p] events_keep clear_keep by (simp add: middle_def)
  then have "contents_of s6 = contents_of s5" using s6 by (rule run_keeps)
  moreover have "contents_of s2 = contents_of s1" "staging_of s2 = staging_of s1"
    using run_keeps [OF files_keep(1) s2] run_keeps [OF files_keep(2) s2] by simp_all
  ultimately show thesis
    using s1 s5 s11 tail that unfolding \<open>s0 = s\<close> tail_def by (auto elim!: run_steps_ConsE simp del: run_steps.simps(2))
qed

definition restamp_chunk :: "index_env \<Rightarrow> sync_args \<Rightarrow> doc_chunk \<Rightarrow> doc_chunk" where
  "restamp_chunk env a r = (if of_ref a (dc_repo r) (dc_ref r)
     then r\<lparr>dc_commit := rf_LatestCommit (sa_ref a), dc_indexed := ie_now env\<rparr> else r)"

definition restamp_symbol :: "sync_args \<Rightarrow> string \<times> symbol_row \<Rightarrow> string \<times> symbol_row" where
  "restamp_symbol a = (\<lambda>(i, r). if of_ref a (sy_repo r) (sy_ref r) then (i, r\<lparr>sy_commit := rf_LatestCommit (sa_ref a)\<rparr>) else (i, r))"

definition restamp_dep :: "sync_args \<Rightarrow> string \<times> dependency_row \<Rightarrow> string \<times> dependency_row" where
  "restamp_dep a = (\<lambda>(i, r). if of_ref a (de_repo r) (de_ref r) then (i, r\<lparr>de_commit := rf_LatestCommit (sa_ref a)\<rparr>) else (i, r))"

lemma tail_keeps:
  "run_steps (record_changes env a p @ refreshRepositoryMap env a @ [exec env Commit (\<lambda>s. s)]) s = Inr s' \<Longrightarrow> contents_of s' = contents_of s"
proof (erule run_keeps [rotated])
  show "list_all (keeps contents_of) (record_changes env a p @ refreshRepositoryMap env a @ [exec env Commit (\<lambda>s. s)])"
    unfolding list_all_append [of _ "record_changes env a p"] by (rule conjI [OF changes_keep map_keep])
qed

text \<open>The contents after the transaction: what is not replaced, then what was staged, of one commit.\<close>

lemma publish_contents:
  assumes "walks_maps env" "run_steps (publish_steps env a p) s = Inr s'"
  shows "contents_of s' =
    (map (restamp_chunk env a) (filter (\<lambda>r. \<not> replaced a p (dc_repo r) (dc_ref r) (dc_path r)) (ix_chunks (tx_db s)) @ staged env a (sg_chunks (tx_db s))),
     map (restamp_symbol a) (filter (\<lambda>(i, r). \<not> replaced a p (sy_repo r) (sy_ref r) (sy_path r)) (ix_symbols (tx_db s)) @ staged env a (sg_symbols (tx_db s))),
     map (restamp_dep a) (filter (\<lambda>(i, r). \<not> replaced a p (de_repo r) (de_ref r) (de_path r)) (ix_deps (tx_db s)) @ staged env a (sg_deps (tx_db s))))"
proof -
  from assms(2) obtain s1 s2 s3 s4 s5 s6 s7 s8 s9 s10 s11 where
    d: "run_steps (delete_old env a p) s = Inr s1" and f: "contents_of s2 = contents_of s1" "staging_of s2 = staging_of s1"
    and pub: "publish_chunks env a s2 = Inr s3" "publish_symbols env a s3 = Inr s4" "publish_deps env a s4 = Inr s5"
    and mid: "contents_of s6 = contents_of s5"
    and touch: "touch_chunks env a s6 = Inr s7" "touch_symbols env a s7 = Inr s8" "touch_deps env a s8 = Inr s9"
    and state: "count_chunks env a s9 = Inr s10" "upsert_state env a (pl_revision p) (pl_warnings p) s10 = Inr s11"
    and tail: "run_steps (record_changes env a p @ refreshRepositoryMap env a @ [exec env Commit (\<lambda>s. s)]) s11 = Inr s'"
    by (rule publish_stages)
  have start: "contents_of s2 = kept_contents a (\<lambda>path. pl_incremental p \<longrightarrow> path \<in> set (pl_removed p)) s" "staging_of s2 = staging_of s"
    using delete_old_contents [OF assms(1) d] f by simp_all
  have published: "contents_of s5 = (ix_chunks (tx_db s2) @ staged env a (sg_chunks (tx_db s2)),
      ix_symbols (tx_db s2) @ staged env a (sg_symbols (tx_db s2)), ix_deps (tx_db s2) @ staged env a (sg_deps (tx_db s2)))"
    using pub by (auto simp: publish_chunks_def publish_symbols_def publish_deps_def step_Inr contents_of_def)
  have touched: "contents_of s9 = (map (restamp_chunk env a) (ix_chunks (tx_db s6)), map (restamp_symbol a) (ix_symbols (tx_db s6)),
      map (restamp_dep a) (ix_deps (tx_db s6)))"
    using touch by (auto simp: touch_chunks_def touch_symbols_def touch_deps_def step_Inr contents_of_def restamp_chunk_def
        restamp_symbol_def restamp_dep_def)
  have "contents_of s11 = contents_of s9"
    using state by (auto simp: count_chunks_def exec_Inr contents_of_def dest!: upsert_state_Inr)
  with tail_keeps [OF tail] touched have "contents_of s' = (map (restamp_chunk env a) (ix_chunks (tx_db s6)),
      map (restamp_symbol a) (ix_symbols (tx_db s6)), map (restamp_dep a) (ix_deps (tx_db s6)))" by simp
  then show ?thesis using mid published start
    by (simp add: contents_of_def kept_contents_def staging_of_def replaced_def)
qed

section \<open>Gathering leaves the index alone\<close>

definition index_tables ::
    "index_db \<Rightarrow> doc_chunk list \<times> (string \<times> symbol_row) list \<times> (string \<times> dependency_row) list \<times> inventory_row list \<times> file_row list
      \<times> ref_state list \<times> ref_change_row list \<times> map_row list \<times> security_event list" where
  "index_tables db = (ix_chunks db, ix_symbols db, ix_deps db, ix_packages db, ix_files db, ix_states db, ix_changes db, ix_maps db, ix_events db)"

definition quiet :: "gather_step \<Rightarrow> bool" where
  "quiet step \<longleftrightarrow> (\<forall>g. case step g of Inl (e, db) \<Rightarrow> index_tables db = index_tables (ga_db g)
     | Inr g' \<Rightarrow> index_tables (ga_db g') = index_tables (ga_db g))"

lemma quietI:
  "(\<And>g e db. step g = Inl (e, db) \<Longrightarrow> index_tables db = index_tables (ga_db g)) \<Longrightarrow>
   (\<And>g g'. step g = Inr g' \<Longrightarrow> index_tables (ga_db g') = index_tables (ga_db g)) \<Longrightarrow> quiet step"
  by (auto simp: quiet_def split: sum.splits)

lemma quietD:
  "quiet step \<Longrightarrow> step g = Inl (e, db) \<Longrightarrow> index_tables db = index_tables (ga_db g)"
  "quiet step \<Longrightarrow> step g = Inr g' \<Longrightarrow> index_tables (ga_db g') = index_tables (ga_db g)"
  by (auto simp: quiet_def dest: spec [of _ g])

lemma quiet_run: "list_all quiet fs \<Longrightarrow> quiet (run_steps fs)"
proof (induction fs)
  case (Cons f fs)
  then have f: "quiet f" and fs: "quiet (run_steps fs)" by simp_all
  show ?case
    by (rule quietI) (auto split: sum.splits dest!: quietD [OF f] quietD [OF fs])
qed (simp add: quiet_def)

lemma quiet_on_db: "(\<And>db db'. f db = Inr db' \<Longrightarrow> index_tables db' = index_tables db) \<Longrightarrow> quiet (on_db f)"
  by (rule quietI) (auto simp: on_db_def split: sum.splits)

lemma quiet_stage_chunk: "quiet (stage_chunk env a p)"
  by (rule quietI) (auto simp: stage_chunk_def on_db_def exec_insert_Inr index_tables_def split: sum.splits)

lemma quiet_stage_symbol: "quiet (stage_symbol env a path content s)"
  unfolding stage_symbol_def by (rule quiet_on_db) (auto simp: exec_insert_Inr index_tables_def)

lemma quiet_stage_dependency: "quiet (stage_dependency env a path d)"
  unfolding stage_dependency_def by (rule quiet_on_db) (auto simp: exec_insert_Inr index_tables_def)

lemma quiet_stage_packages: "quiet (stage_packages env a b)"
  unfolding stage_packages_def by (cases b; simp; rule quiet_on_db) (auto simp: exec_insert_Inr index_tables_def)

lemma embed_pending_same:
  "embed_pending env g = Inl (e, db) \<Longrightarrow> db = ga_db g" "embed_pending env g = Inr g' \<Longrightarrow> ga_db g' = ga_db g"
  by (auto simp: embed_pending_def degrade_def Let_def split: option.splits sum.splits if_splits)

lemma quiet_flush: "quiet (flush_pending env a)"
proof (rule quietI)
  have rows: "quiet (run_steps (map (stage_chunk env a) ps))" for ps
    by (rule quiet_run) (simp add: list_all_iff quiet_stage_chunk)
  show "index_tables db = index_tables (ga_db g)" if "flush_pending env a g = Inl (e, db)" for g e db
    using that by (auto simp: flush_pending_def split: sum.splits if_splits dest!: embed_pending_same quietD [OF rows])
  show "index_tables (ga_db g') = index_tables (ga_db g)" if "flush_pending env a g = Inr g'" for g g'
    using that by (auto simp: flush_pending_def split: sum.splits if_splits dest!: embed_pending_same quietD [OF rows])
qed

lemma quiet_take_chunk: "quiet (take_chunk env a path c)"
  by (rule quietI) (auto simp: take_chunk_def Let_def split: sum.splits if_splits dest: quietD [OF quiet_flush])

lemma quiet_take_chunks: "quiet (take_chunks env a path content)"
proof -
  have "quiet (run_steps (map (take_chunk env a path) cs))" for cs
    by (rule quiet_run) (simp add: list_all_iff quiet_take_chunk)
  then show ?thesis by (intro quietI) (auto simp: take_chunks_def split: option.splits dest: quietD)
qed

lemma note_manifest_db [simp]: "ga_db (note_manifest env path content g) = ga_db g"
  by (simp add: note_manifest_def)

lemma quiet_index_content: "quiet (index_content env a path safe)"
proof -
  have steps: "quiet (run_steps (map (stage_symbol env a path safe) (Extract (ie_go env) path safe)
      @ map (stage_dependency env a path) (ExtractDependencies (ie_go env) path safe) @ [take_chunks env a path safe]))"
    by (rule quiet_run) (simp add: list_all_iff ball_Un quiet_stage_symbol quiet_stage_dependency quiet_take_chunks)
  show ?thesis by (rule quietI) (auto simp: index_content_def split: sum.splits dest: quietD [OF steps])
qed

lemma quiet_index_raw: "quiet (index_raw env a path raw)"
  by (rule quietI) (auto simp: index_raw_def Let_def split: prod.splits if_splits dest: quietD [OF quiet_index_content])

lemma update_running_tables: "update_running env a l job f db = Inr db' \<Longrightarrow> index_tables db' = index_tables db"
  by (auto simp: update_running_def index_tables_def split: option.splits if_splits)

lemma quiet_progress: "quiet (publish_progress env a)"
proof -
  have "quiet (on_db (updateProgress env a n))" for n
    by (rule quiet_on_db) (auto simp: updateProgress_def split: option.splits dest: update_running_tables)
  then show ?thesis by (intro quietI) (auto simp: publish_progress_def split: if_splits dest: quietD)
qed

lemma quiet_index_file: "quiet (index_file env a file)"
proof (rule quietI)
  show "index_tables db = index_tables (ga_db g)" if "index_file env a file g = Inl (e, db)" for g e db
    using that by (auto simp: index_file_def split: sum.splits if_splits dest!: quietD [OF quiet_progress] quietD [OF quiet_index_raw])
  show "index_tables (ga_db g') = index_tables (ga_db g)" if "index_file env a file g = Inr g'" for g g'
    using that by (auto simp: index_file_def split: sum.splits if_splits dest!: quietD [OF quiet_progress] quietD [OF quiet_index_raw])
qed

lemma extra_manifest_db [simp]: "ga_db (extra_manifest env a file g) = ga_db g"
  by (auto simp: extra_manifest_def Let_def split: sum.splits)

lemma extra_manifests_db [simp]: "ga_db (fold (extra_manifest env a) files g) = ga_db g"
  by (induction files arbitrary: g) simp_all

lemma bound_packages_db [simp]: "ga_db (bound_packages g) = ga_db g"
  by (simp add: bound_packages_def)

lemma quiet_gather_packages: "quiet (gather_packages env a files)"
proof -
  have "quiet (run_steps (map (stage_packages env a) bs))" for bs
    by (rule quiet_run) (simp add: list_all_iff quiet_stage_packages)
  note packages = quietD [OF this]
  show ?thesis by (rule quietI) (auto simp: gather_packages_def Let_def dest!: packages)
qed

lemma quiet_gather: "quiet (gather_files env a files)"
  unfolding gather_files_def
  by (rule quiet_run) (simp add: list_all_iff quiet_index_file quiet_flush quiet_gather_packages)

section \<open>Gathering stages the chunks of the files\<close>

text \<open>A chunk without its keys, its vector and its stamps.\<close>

type_synonym chunk_view = "string \<times> string \<times> string \<times> string \<times> nat \<times> nat"

definition chunk_view :: "doc_chunk \<Rightarrow> chunk_view" where
  "chunk_view r = (dc_path r, dc_heading r, dc_type r, dc_content r, dc_start r, dc_end r)"

definition pending_view :: "pendingChunk \<Rightarrow> chunk_view" where
  "pending_view p = (pc_path p, pc_heading p, pc_type p, pc_content p, pc_start p, pc_end p)"

definition view_of :: "string \<Rightarrow> chunk \<Rightarrow> chunk_view" where
  "view_of path c = (path, ch_Heading c, contentType path, ch_Content c, ch_Start c, ch_End c)"

definition gathered :: "index_env \<Rightarrow> sync_args \<Rightarrow> gather \<Rightarrow> chunk_view list" where
  "gathered env a g = map chunk_view (staged env a (sg_chunks (ga_db g))) @ map pending_view (ga_pending g)"

definition gathers :: "index_env \<Rightarrow> sync_args \<Rightarrow> chunk_view list \<Rightarrow> gather_step \<Rightarrow> bool" where
  "gathers env a vs step \<longleftrightarrow> (\<forall>g g'. step g = Inr g' \<longrightarrow> gathered env a g' = gathered env a g @ vs)"

lemma gathersD: "gathers env a vs step \<Longrightarrow> step g = Inr g' \<Longrightarrow> gathered env a g' = gathered env a g @ vs"
  by (simp add: gathers_def)

lemma gathers_append: "gathers env a vs (run_steps fs) \<Longrightarrow> gathers env a ws (run_steps gs) \<Longrightarrow> gathers env a (vs @ ws) (run_steps (fs @ gs))"
  by (auto simp: gathers_def elim!: run_steps_appendE)

lemma gathers_Nil: "gathers env a [] (run_steps [])"
  by (simp add: gathers_def)

lemma gathers_single: "gathers env a vs f \<Longrightarrow> gathers env a vs (run_steps [f])"
  by (auto simp: gathers_def split: sum.splits)

lemma gathers_map: "(\<And>x. x \<in> set xs \<Longrightarrow> gathers env a (v x) (f x)) \<Longrightarrow> gathers env a (concat (map v xs)) (run_steps (map f xs))"
proof (induction xs)
  case (Cons x xs)
  then have "gathers env a (v x) (run_steps [f x])" "gathers env a (concat (map v xs)) (run_steps (map f xs))"
    by (simp_all add: gathers_single del: run_steps.simps)
  from gathers_append [OF this] show ?case unfolding append_Cons append_Nil by (simp del: run_steps.simps(2))
qed (simp add: gathers_Nil [simplified])

lemma gathers_none: "(\<And>x. x \<in> set xs \<Longrightarrow> gathers env a [] (f x)) \<Longrightarrow> gathers env a [] (run_steps (map f xs))"
  using gathers_map [of xs env a "\<lambda>_. []" f] by (simp add: concat_replicate_trivial map_replicate_const)

lemma gathers_on_db: "(\<And>db db'. f db = Inr db' \<Longrightarrow> sg_chunks db' = sg_chunks db) \<Longrightarrow> gathers env a [] (on_db f)"
  by (auto simp: gathers_def on_db_def gathered_def split: sum.splits)

lemma give_vectors_views: "give_vectors vs is ps = Some qs \<Longrightarrow> map pending_view qs = map pending_view ps"
proof (induction vs "is" ps rule: give_vectors.induct)
  case (3 v vs i "is" ps)
  have "map pending_view (ps[i := (ps ! i)\<lparr>pc_vector := Some (Encode v)\<rparr>]) = map pending_view ps"
    by (cases "i < length ps") (simp_all add: map_update pending_view_def list_update_same_conv list_update_beyond)
  then show ?case using 3 by simp
qed simp_all

lemma embed_gathers: "gathers env a [] (embed_pending env)"
  by (auto simp: gathers_def gathered_def embed_pending_def degrade_def Let_def dest: give_vectors_views
      split: option.splits sum.splits if_splits)

lemma stage_chunks_views:
  "run_steps (map (stage_chunk env a) ps) g = Inr g' \<Longrightarrow>
   map chunk_view (staged env a (sg_chunks (ga_db g'))) = map chunk_view (staged env a (sg_chunks (ga_db g))) @ map pending_view ps"
proof (induction ps arbitrary: g)
  case (Cons p ps)
  from Cons.prems obtain g1 where g1: "stage_chunk env a p g = Inr g1" "run_steps (map (stage_chunk env a) ps) g1 = Inr g'"
    by (auto split: sum.splits)
  have "map chunk_view (staged env a (sg_chunks (ga_db g1))) = map chunk_view (staged env a (sg_chunks (ga_db g))) @ [pending_view p]"
    using g1(1) by (auto simp: stage_chunk_def on_db_def exec_insert_Inr staged_def chunk_row_of_def chunk_view_def pending_view_def split: sum.splits)
  then show ?case using Cons.IH [OF g1(2)] by simp
qed simp

lemma flush_gathers: "gathers env a [] (flush_pending env a)"
  unfolding gathers_def
proof (intro allI impI)
  fix g g' assume flushed: "flush_pending env a g = Inr g'"
  show "gathered env a g' = gathered env a g @ []"
  proof (cases "ga_pending g = []")
    case False
    then obtain g1 g2 where g: "embed_pending env g = Inr g1" "run_steps (map (stage_chunk env a) (ga_pending g1)) g1 = Inr g2"
      "g' = g2\<lparr>ga_pending := []\<rparr>"
      using flushed by (auto simp: flush_pending_def split: sum.splits)
    have "gathered env a g1 = gathered env a g" using gathersD [OF embed_gathers g(1)] by simp
    then show ?thesis using stage_chunks_views [OF g(2)] g(3) by (simp add: gathered_def)
  qed (use flushed in \<open>simp add: flush_pending_def\<close>)
qed

lemma flushed_empty: "flush_pending env a g = Inr g' \<Longrightarrow> ga_pending g' = []"
  by (auto simp: flush_pending_def split: sum.splits if_splits)

lemma take_chunk_gathers: "gathers env a [view_of path c] (take_chunk env a path c)"
  unfolding gathers_def
proof (intro allI impI)
  fix g g' assume taken: "take_chunk env a path c g = Inr g'"
  then obtain v where g': "(let g1 = g\<lparr>ga_pending := ga_pending g @ [pending_of env a path c v]\<rparr> in
      if embeddingBatchSize \<le> length (ga_pending g1) then flush_pending env a g1 else Inr g1) = Inr g'"
    by (auto simp: take_chunk_def split: sum.splits)
  have "gathered env a (g\<lparr>ga_pending := ga_pending g @ [pending_of env a path c v]\<rparr>) = gathered env a g @ [view_of path c]"
    by (simp add: gathered_def pending_of_def pending_view_def view_of_def)
  then show "gathered env a g' = gathered env a g @ [view_of path c]"
    using g' gathersD [OF flush_gathers] by (fastforce simp: Let_def split: if_splits)
qed

definition chunk_views :: "index_env \<Rightarrow> string \<Rightarrow> string \<Rightarrow> chunk_view list" where
  "chunk_views env path content = (case parse_chunks (ie_go env) path content of None \<Rightarrow> [] | Some cs \<Rightarrow> map (view_of path) cs)"

lemma take_chunks_gathers: "gathers env a (chunk_views env path content) (take_chunks env a path content)"
proof (cases "parse_chunks (ie_go env) path content")
  case (Some cs)
  have "gathers env a (concat (map (\<lambda>c. [view_of path c]) cs)) (run_steps (map (take_chunk env a path) cs))"
    by (rule gathers_map) (rule take_chunk_gathers)
  then show ?thesis using Some by (simp add: gathers_def take_chunks_def chunk_views_def)
qed (simp add: gathers_def take_chunks_def)

lemma stage_symbol_gathers: "gathers env a [] (stage_symbol env a path content s)"
  unfolding stage_symbol_def by (rule gathers_on_db) (auto simp: exec_insert_Inr)

lemma stage_dependency_gathers: "gathers env a [] (stage_dependency env a path d)"
  unfolding stage_dependency_def by (rule gathers_on_db) (auto simp: exec_insert_Inr)

lemma stage_packages_gathers: "gathers env a [] (stage_packages env a b)"
  unfolding stage_packages_def by (cases b; simp; rule gathers_on_db) (auto simp: exec_insert_Inr)

lemma note_manifest_gathered [simp]: "gathered env a (note_manifest env path content g) = gathered env a g"
  by (simp add: note_manifest_def gathered_def)

lemma index_content_gathers: "gathers env a (chunk_views env path safe) (index_content env a path safe)"
proof -
  have "gathers env a ([] @ [] @ chunk_views env path safe) (run_steps (map (stage_symbol env a path safe) (Extract (ie_go env) path safe)
      @ map (stage_dependency env a path) (ExtractDependencies (ie_go env) path safe) @ [take_chunks env a path safe]))"
    by (intro gathers_append gathers_none gathers_single stage_symbol_gathers stage_dependency_gathers take_chunks_gathers)
  note steps = gathersD [OF this]
  show ?thesis unfolding gathers_def
  proof (intro allI impI)
    fix g g' assume "index_content env a path safe g = Inr g'"
    then obtain g1 where g1: "run_steps (map (stage_symbol env a path safe) (Extract (ie_go env) path safe)
        @ map (stage_dependency env a path) (ExtractDependencies (ie_go env) path safe) @ [take_chunks env a path safe]) (note_manifest env path safe g) = Inr g1"
      and g': "g' = g1\<lparr>ga_processed := ga_processed g1 + 1, ga_upserts := List.insert path (ga_upserts g1)\<rparr>"
      by (auto simp: index_content_def split: sum.splits)
    show "gathered env a g' = gathered env a g @ chunk_views env path safe"
      using steps [OF g1] unfolding g' note_manifest_gathered by (simp add: gathered_def)
  qed
qed

text \<open>The chunks of a file by its text: nothing of one that is too large or holds a private key, else the chunks of its masked text.\<close>

definition raw_views :: "index_env \<Rightarrow> string \<Rightarrow> string \<Rightarrow> chunk_view list" where
  "raw_views env path raw =
     (if MaxFileBytes (ie_policy env) < int (length raw) then []
      else case Sanitize (ie_entropy env) raw of (safe, finding) \<Rightarrow>
        if finding \<noteq> [] \<and> safe = [] then [] else chunk_views env path safe)"

lemma index_raw_gathers: "gathers env a (raw_views env path raw) (index_raw env a path raw)"
  unfolding gathers_def
proof (intro allI impI)
  fix g g' assume raw: "index_raw env a path raw g = Inr g'"
  obtain safe finding where masked: "Sanitize (ie_entropy env) raw = (safe, finding)" by (cases "Sanitize (ie_entropy env) raw")
  have event: "gathered env a (if finding \<noteq> [] then g\<lparr>ga_events := es\<rparr> else g) = gathered env a g" for es
    by (simp add: gathered_def)
  consider "raw_views env path raw = []" "g' = g \<or> g' = g\<lparr>ga_events := ga_events g @ [security_event_of env a path finding safe]\<rparr>"
    | h where "raw_views env path raw = chunk_views env path safe" "gathered env a h = gathered env a g" "index_content env a path safe h = Inr g'"
    using raw event unfolding index_raw_def raw_views_def masked Let_def prod.case by (auto split: if_splits)
  then show "gathered env a g' = gathered env a g @ raw_views env path raw"
    by cases (auto simp: gathered_def dest: gathersD [OF index_content_gathers])
qed

definition file_views :: "index_env \<Rightarrow> sync_args \<Rightarrow> source_file \<Rightarrow> chunk_view list" where
  "file_views env a file =
     (if allowed (ie_policy env) file then
        (case ad_read (ie_adapter env) (snapshot_ref a) (sf_Path file) of Inl e \<Rightarrow> [] | Inr raw \<Rightarrow> raw_views env (sf_Path file) raw)
      else [])"

lemma progress_gathers: "gathers env a [] (publish_progress env a)"
proof -
  have "gathers env a [] (on_db (updateProgress env a n))" for n
    by (rule gathers_on_db) (auto simp: updateProgress_def update_running_def split: option.splits if_splits)
  then show ?thesis by (auto simp: gathers_def publish_progress_def split: if_splits)
qed

lemma index_file_gathers: "gathers env a (file_views env a file) (index_file env a file)"
  unfolding gathers_def
proof (intro allI impI)
  fix g g' assume run: "index_file env a file g = Inr g'"
  show "gathered env a g' = gathered env a g @ file_views env a file"
  proof (cases "allowed (ie_policy env) file")
    case True
    then obtain g1 raw where g1: "publish_progress env a (g\<lparr>ga_candidates := ga_candidates g + 1\<rparr>) = Inr g1"
      and raw: "ad_read (ie_adapter env) (snapshot_ref a) (sf_Path file) = Inr raw" "index_raw env a (sf_Path file) raw g1 = Inr g'"
      using run by (auto simp: index_file_def split: sum.splits)
    have "gathered env a g1 = gathered env a g" using gathersD [OF progress_gathers g1] by (simp add: gathered_def)
    then show ?thesis using gathersD [OF index_raw_gathers raw(2)] True raw(1) by (simp add: file_views_def)
  qed (use run in \<open>simp add: index_file_def file_views_def\<close>)
qed

lemma extra_manifest_gathered [simp]: "gathered env b (extra_manifest env a file g) = gathered env b g"
  by (auto simp: extra_manifest_def Let_def gathered_def note_manifest_def split: sum.splits)

lemma extra_manifests_gathered [simp]: "gathered env b (fold (extra_manifest env a) files g) = gathered env b g"
  by (induction files arbitrary: g) simp_all

lemma bound_packages_gathered [simp]: "gathered env b (bound_packages g) = gathered env b g"
  by (simp add: bound_packages_def gathered_def)

lemma gather_packages_gathers: "gathers env a [] (gather_packages env a files)"
proof -
  have "gathers env a [] (run_steps (map (stage_packages env a) bs))" for bs
    by (rule gathers_none) (rule stage_packages_gathers)
  note packages = gathersD [OF this]
  show ?thesis by (auto simp: gathers_def gather_packages_def Let_def dest!: packages)
qed

lemma pending_extra_manifests: "ga_pending (fold (extra_manifest env a) files g) = ga_pending g"
proof (induction files arbitrary: g)
  case (Cons f files)
  have "ga_pending (extra_manifest env a f g) = ga_pending g"
    by (auto simp: extra_manifest_def Let_def note_manifest_def split: sum.splits)
  then show ?case using Cons by simp
qed simp

lemma pending_stage_packages: "run_steps (map (stage_packages env a) bs) g = Inr g' \<Longrightarrow> ga_pending g' = ga_pending g"
proof (induction bs arbitrary: g)
  case (Cons b bs)
  from Cons.prems obtain g1 where g1: "stage_packages env a b g = Inr g1" "run_steps (map (stage_packages env a) bs) g1 = Inr g'"
    by (auto split: sum.splits)
  have "ga_pending g1 = ga_pending g" using g1(1) by (auto simp: stage_packages_def on_db_def split: sum.splits prod.splits)
  then show ?case using Cons.IH [OF g1(2)] by simp
qed simp

lemma pending_gather_packages: "gather_packages env a files g = Inr g' \<Longrightarrow> ga_pending g' = ga_pending g"
  by (auto simp: gather_packages_def Let_def bound_packages_def pending_extra_manifests dest!: pending_stage_packages split: if_splits)

lemma gather_files_views:
  assumes "gather_files env a files g = Inr g'" "ga_pending g = []" "staged env a (sg_chunks (ga_db g)) = []"
  shows "map chunk_view (staged env a (sg_chunks (ga_db g'))) = concat (map (file_views env a) files)"
proof -
  from assms(1) obtain g1 g2 where g: "run_steps (map (index_file env a) files) g = Inr g1" "flush_pending env a g1 = Inr g2"
    "gather_packages env a files g2 = Inr g'"
    unfolding gather_files_def by (auto elim!: run_steps_appendE split: sum.splits)
  have "gathers env a (concat (map (file_views env a) files)) (run_steps (map (index_file env a) files))"
    by (rule gathers_map) (rule index_file_gathers)
  from gathersD [OF this g(1)] have "gathered env a g1 = concat (map (file_views env a) files)" using assms(2,3) by (simp add: gathered_def)
  then have "gathered env a g' = concat (map (file_views env a) files)"
    using gathersD [OF flush_gathers g(2)] gathersD [OF gather_packages_gathers g(3)] by simp
  moreover have "ga_pending g' = []" using flushed_empty [OF g(2)] pending_gather_packages [OF g(3)] by simp
  ultimately show ?thesis by (simp add: gathered_def)
qed

section \<open>Staged rows belong to the ref\<close>

definition owned :: "index_env \<Rightarrow> sync_args \<Rightarrow> index_db \<Rightarrow> bool" where
  "owned env a db \<longleftrightarrow> list_all (\<lambda>r. of_ref a (dc_repo r) (dc_ref r)) (staged env a (sg_chunks db))
     \<and> list_all (\<lambda>(i, r). of_ref a (sy_repo r) (sy_ref r)) (staged env a (sg_symbols db))
     \<and> list_all (\<lambda>(i, r). of_ref a (de_repo r) (de_ref r)) (staged env a (sg_deps db))"

definition owns :: "index_env \<Rightarrow> sync_args \<Rightarrow> gather_step \<Rightarrow> bool" where
  "owns env a step \<longleftrightarrow> (\<forall>g g'. owned env a (ga_db g) \<longrightarrow> step g = Inr g' \<longrightarrow> owned env a (ga_db g'))"

lemma ownsD: "owns env a step \<Longrightarrow> owned env a (ga_db g) \<Longrightarrow> step g = Inr g' \<Longrightarrow> owned env a (ga_db g')"
  by (auto simp: owns_def)

lemma owns_run: "list_all (owns env a) fs \<Longrightarrow> owns env a (run_steps fs)"
proof (induction fs)
  case (Cons f fs)
  then have f: "owns env a f" and fs: "owns env a (run_steps fs)" by simp_all
  show ?case unfolding owns_def
  proof (intro allI impI)
    fix g g' assume own: "owned env a (ga_db g)" and "run_steps (f # fs) g = Inr g'"
    then obtain g1 where "f g = Inr g1" "run_steps fs g1 = Inr g'" by (elim run_steps_ConsE)
    then show "owned env a (ga_db g')" using ownsD [OF fs ownsD [OF f own]] by blast
  qed
qed (simp add: owns_def)

lemma owns_on_db: "(\<And>db db'. f db = Inr db' \<Longrightarrow> owned env a db \<Longrightarrow> owned env a db') \<Longrightarrow> owns env a (on_db f)"
  by (auto simp: owns_def on_db_def split: sum.splits)

lemma staged_snoc [simp]: "staged env a (rows @ [(generation env a, r)]) = staged env a rows @ [r]"
  by (simp add: staged_def)

lemma of_ref_own [simp]: "of_ref a (sa_repo a) (rf_Name (sa_ref a))"
  by (simp add: of_ref_def)

lemma owned_extend:
  "owned env a db \<Longrightarrow> of_ref a (dc_repo r) (dc_ref r) \<Longrightarrow> owned env a (db\<lparr>sg_chunks := sg_chunks db @ [(generation env a, r)]\<rparr>)"
  "owned env a db \<Longrightarrow> of_ref a (sy_repo y) (sy_ref y) \<Longrightarrow> owned env a (db\<lparr>sg_symbols := sg_symbols db @ [(generation env a, i, y)]\<rparr>)"
  "owned env a db \<Longrightarrow> of_ref a (de_repo d) (de_ref d) \<Longrightarrow> owned env a (db\<lparr>sg_deps := sg_deps db @ [(generation env a, i, d)]\<rparr>)"
  by (simp_all add: owned_def)

lemma owns_stage_chunk: "owns env a (stage_chunk env a p)"
  by (auto simp: owns_def stage_chunk_def on_db_def exec_insert_Inr chunk_row_of_def intro: owned_extend split: sum.splits)

lemma owns_stage_symbol: "owns env a (stage_symbol env a path content s)"
  unfolding stage_symbol_def
  by (rule owns_on_db) (auto simp: exec_insert_Inr symbol_row_of_def Let_def intro: owned_extend)

lemma owns_stage_dependency: "owns env a (stage_dependency env a path d)"
  unfolding stage_dependency_def
  by (rule owns_on_db) (auto simp: exec_insert_Inr dependency_row_of_def intro: owned_extend)

lemma owns_stage_packages: "owns env a (stage_packages env a b)"
  unfolding stage_packages_def by (cases b; simp; rule owns_on_db) (auto simp: exec_insert_Inr owned_def)

lemma owns_flush: "owns env a (flush_pending env a)"
proof -
  have rows: "owns env a (run_steps (map (stage_chunk env a) ps))" for ps
    by (rule owns_run) (simp add: list_all_iff owns_stage_chunk)
  show ?thesis unfolding owns_def
    by (auto simp: flush_pending_def split: sum.splits if_splits dest!: ownsD [OF rows, rotated] embed_pending_same)
qed

lemma owns_take_chunk: "owns env a (take_chunk env a path c)"
  unfolding owns_def by (auto simp: take_chunk_def Let_def split: sum.splits if_splits intro: ownsD [OF owns_flush, rotated])

lemma owns_take_chunks: "owns env a (take_chunks env a path content)"
proof -
  have "owns env a (run_steps (map (take_chunk env a path) cs))" for cs
    by (rule owns_run) (simp add: list_all_iff owns_take_chunk)
  then show ?thesis by (auto simp: owns_def take_chunks_def split: option.splits)
qed

lemma owns_index_content: "owns env a (index_content env a path safe)"
proof -
  have "owns env a (run_steps (map (stage_symbol env a path safe) (Extract (ie_go env) path safe)
      @ map (stage_dependency env a path) (ExtractDependencies (ie_go env) path safe) @ [take_chunks env a path safe]))"
    by (rule owns_run) (simp add: list_all_iff ball_Un owns_stage_symbol owns_stage_dependency owns_take_chunks)
  note steps = ownsD [OF this]
  show ?thesis unfolding owns_def by (auto simp: index_content_def split: sum.splits dest!: steps [rotated])
qed

lemma owns_index_raw: "owns env a (index_raw env a path raw)"
  unfolding owns_def
  by (auto simp: index_raw_def Let_def split: prod.splits if_splits dest: ownsD [OF owns_index_content, rotated])

lemma owns_progress: "owns env a (publish_progress env a)"
proof -
  have "owns env a (on_db (updateProgress env a n))" for n
    by (rule owns_on_db) (auto simp: updateProgress_def update_running_def owned_def split: option.splits if_splits)
  then show ?thesis by (auto simp: owns_def publish_progress_def split: if_splits)
qed

lemma owns_index_file: "owns env a (index_file env a file)"
  unfolding owns_def
  by (auto simp: index_file_def split: sum.splits if_splits dest!: ownsD [OF owns_progress, rotated] intro: ownsD [OF owns_index_raw, rotated])

lemma owns_gather: "owns env a (gather_files env a files)"
proof -
  have "owns env a (run_steps (map (stage_packages env a) bs))" for bs
    by (rule owns_run) (simp add: list_all_iff owns_stage_packages)
  note packages = ownsD [OF this]
  have "owns env a (gather_packages env a files)"
    unfolding owns_def by (auto simp: gather_packages_def Let_def dest!: packages [rotated])
  then show ?thesis unfolding gather_files_def
    by (intro owns_run) (simp add: list_all_iff owns_index_file owns_flush)
qed

end
