(* ===== verification/IndexSample.thy ===== *)
theory IndexSample
  imports IndexRun FileSearch
begin

text \<open>
  A run of the indexer of theory IndexRun on a repository of one file, \<^verbatim>\<open>a.md\<close>, computed step by step: once with
  the listing of the source and once with a change feed. The theorems about runs are applied to it.
\<close>

section \<open>A run on a repository of one file\<close>

definition demo_text :: string where "demo_text = ''a'' @ [CHR 0x0A] @ ''b''"

definition demo_index_env :: "(string \<Rightarrow> string \<Rightarrow> string + source_change list) option \<Rightarrow> index_env" where
  "demo_index_env feed = \<lparr>ie_now = 5, ie_stamp = ''1'', ie_hash = (\<lambda>x. x), ie_sha16 = (\<lambda>x. x), ie_rules = ''r'', ie_letter = (\<lambda>_. True),
     ie_entropy = (\<lambda>_. True), ie_go = (\<lambda>_. None), ie_npm = (\<lambda>_. None), ie_locks = \<lparr>de_npm = (\<lambda>_. None), de_pipfile = (\<lambda>_. None)\<rparr>,
     ie_marshal = (\<lambda>_. ''{}''), ie_sort_points = (\<lambda>xs. xs), ie_policy = \<lparr>IncludeExtensions = [''.md''], ExcludePrefixes = [], MaxFileBytes = 9\<rparr>,
     ie_embedder = None, ie_required = False,
     ie_adapter = \<lparr>ad_list = (\<lambda>_. Inr [\<lparr>sf_Path = ''a.md'', sf_Size = 3\<rparr>]), ad_read = (\<lambda>_ _. Inr demo_text), ad_changes = feed, ad_permissions = Inr []\<rparr>,
     ie_fault = (\<lambda>_. None), ie_walk = (\<lambda>_ xs. xs), ie_others = (\<lambda>db. db), ie_postgres = False\<rparr>"

definition demo_sync :: sync_args where
  "demo_sync = \<lparr>sa_repo = ''r'', sa_ref = \<lparr>rf_Name = ''m'', rf_LatestCommit = ''c2''\<rparr>, sa_track = False, sa_lease = None\<rparr>"

definition demo_index :: index_db where
  "demo_index = \<lparr>ix_repositories = [], ix_permissions = [], ix_chunks = [], ix_symbols = [], ix_deps = [], ix_packages = [], ix_files = [],
     ix_states = [\<lparr>rs_repo = ''r'', rs_ref = ''m'', rs_commit = ''c1'', rs_indexed = 1, rs_embedding = ''keyword-only'', rs_policy = [],
       rs_chunks = 0, rs_embedded = 0, rs_status = ''empty'', rs_error = []\<rparr>], ix_changes = [], ix_maps = [], ix_events = [], ix_jobs = [],
     sg_chunks = [], sg_symbols = [], sg_deps = [], sg_packages = []\<rparr>"

lemma demo_chunks:
  "parse_chunks (\<lambda>_. None) ''a.md'' demo_text = Some [\<lparr>ch_Heading = ''a.md'', ch_Content = demo_text, ch_Start = 1, ch_End = 2\<rparr>]"
proof -
  have "Language ''a.md'' = []" by (simp add: Language_def path_Ext_def to_lower_def lower_char_def Let_def)
  moreover have "code_lines demo_text = [''a'', ''b'']" by (simp add: code_lines_def demo_text_def replace_str.simps)
  moreover have "find_match headingRE ''a'' = None" "find_match headingRE ''b'' = None" by (simp_all add: headingRE_def regexp_eval)
  moreover have "trim_space demo_text = demo_text" by (simp add: demo_text_def trim_space_visible visible_def)
  ultimately show ?thesis by (simp add: parse_chunks_def Extract_def close_section_def Let_def demo_text_def)
qed

lemma demo_base: "path_Base ''a.md'' = ''a.md''"
  by (simp add: path_Base_def after_last_slash_def trim_right_def)

lemma demo_language: "Language ''a.md'' = []" "Recognize ''a.md'' = None" "RecognizeLock ''a.md'' = None" "contentType ''a.md'' = ''document''"
  by (simp_all add: Language_def path_Ext_def to_lower_def lower_char_def Let_def Recognize_def RecognizeLock_def demo_base requirementsFile_def
      cut_suffix_def contentType_def suffix_to_prefix)

lemma demo_masked: "Sanitize (\<lambda>_. True) demo_text = (demo_text, [])"
  unfolding demo_text_def by (rule small_text_kept)

lemma demo_allowed: "allowed \<lparr>IncludeExtensions = [''.md''], ExcludePrefixes = [], MaxFileBytes = 9\<rparr> \<lparr>sf_Path = ''a.md'', sf_Size = n\<rparr> = (n = 0 \<or> n \<le> 9)"
  by (simp add: allowed_def path_Ext_def to_lower_def lower_char_def trim_prefix_def trim_space_visible visible_def Let_def)

lemma demo_env:
  "ie_now (demo_index_env feed) = 5" "ie_stamp (demo_index_env feed) = ''1''" "ie_hash (demo_index_env feed) = (\<lambda>x. x)"
  "ie_entropy (demo_index_env feed) = (\<lambda>_. True)" "ie_go (demo_index_env feed) = (\<lambda>_. None)" "ie_embedder (demo_index_env feed) = None"
  "ie_policy (demo_index_env feed) = \<lparr>IncludeExtensions = [''.md''], ExcludePrefixes = [], MaxFileBytes = 9\<rparr>"
  "ad_list (ie_adapter (demo_index_env feed)) = (\<lambda>_. Inr [\<lparr>sf_Path = ''a.md'', sf_Size = 3\<rparr>])"
  "ad_read (ie_adapter (demo_index_env feed)) = (\<lambda>_ _. Inr demo_text)" "ad_changes (ie_adapter (demo_index_env feed)) = feed"
  "ie_fault (demo_index_env feed) = (\<lambda>_. None)" "ie_walk (demo_index_env feed) = (\<lambda>_ xs. xs)" "ie_others (demo_index_env feed) = (\<lambda>db. db)"
  by (simp_all add: demo_index_env_def)

lemma demo_args:
  "sa_repo demo_sync = ''r''" "sa_ref demo_sync = \<lparr>rf_Name = ''m'', rf_LatestCommit = ''c2''\<rparr>" "sa_track demo_sync = False" "sa_lease demo_sync = None"
  "snapshot_ref demo_sync = ''c2''" "report_job env demo_sync = None" "of_ref demo_sync repo ref = (repo = ''r'' \<and> ref = ''m'')"
  by (simp_all add: demo_sync_def snapshot_ref_def report_job_def of_ref_def)

lemma demo_prior: "read_prior (demo_index_env feed) demo_sync demo_index = Inr \<lparr>pr_commit = ''c1'', pr_embedding = ''keyword-only'', pr_policy = []\<rparr>"
  by (simp add: read_prior_def demo_env demo_args demo_index_def)

lemma demo_moved: "\<not> unchanged (demo_index_env feed) demo_sync \<lparr>pr_commit = ''c1'', pr_embedding = ''keyword-only'', pr_policy = []\<rparr>"
  by (simp add: unchanged_def demo_args)

definition demo_pending :: pendingChunk where
  "demo_pending = pending_of (demo_index_env None) demo_sync ''a.md'' \<lparr>ch_Heading = ''a.md'', ch_Content = demo_text, ch_Start = 1, ch_End = 2\<rparr> None"

definition demo_row :: doc_chunk where
  "demo_row = \<lparr>dc_id = pc_id demo_pending, dc_repo = ''r'', dc_ref = ''m'', dc_commit = ''c2'', dc_path = ''a.md'', dc_start = 1, dc_end = 2,
     dc_heading = ''a.md'', dc_type = ''document'', dc_content = demo_text, dc_hash = demo_text, dc_vector = None, dc_indexed = 5,
     dc_provider = [], dc_model = [], dc_dimensions = 0, dc_revision = ''keyword-only''\<rparr>"

definition demo_staged :: index_db where
  "demo_staged = demo_index\<lparr>sg_chunks := [(''r:m:1'', demo_row)]\<rparr>"

definition demo_gathered :: gather where
  "demo_gathered = \<lparr>ga_db = demo_staged, ga_pending = [], ga_embedder = None, ga_meta = no_metadata, ga_known = False, ga_revision = ''keyword-only'',
     ga_warnings = [], ga_processed = 1, ga_candidates = 1, ga_parsed = [], ga_packages = [], ga_manifest_warnings = [], ga_events = [],
     ga_upserts = [''a.md'']\<rparr>"

lemma demo_length: "length demo_text = 3"
  by (simp add: demo_text_def)

lemma demo_extract: "Extract go ''a.md'' t = []" "ExtractDependencies go ''a.md'' t = []"
  by (simp_all add: Extract_def ExtractDependencies_def demo_language)

lemma demo_start: "start_gather (demo_index_env feed) demo_index = \<lparr>ga_db = demo_index, ga_pending = [], ga_embedder = None, ga_meta = no_metadata, ga_known = False,
     ga_revision = ''keyword-only'', ga_warnings = [], ga_processed = 0, ga_candidates = 0, ga_parsed = [], ga_packages = [],
     ga_manifest_warnings = [], ga_events = [], ga_upserts = []\<rparr>"
  by (simp add: start_gather_def provider_metadata_def embedding_revision_def demo_env no_metadata_def)

lemma demo_pending_any: "pending_of (demo_index_env feed) demo_sync ''a.md'' \<lparr>ch_Heading = ''a.md'', ch_Content = demo_text, ch_Start = 1, ch_End = 2\<rparr> None
    = demo_pending"
  by (simp add: demo_pending_def pending_of_def chunk_id_def demo_env demo_args)

lemma demo_take: "take_chunks (demo_index_env feed) demo_sync ''a.md'' demo_text g = Inr (g\<lparr>ga_pending := [demo_pending]\<rparr>)"
  if "\<not> ga_known g" "ga_pending g = []"
  using that by (simp add: take_chunks_def take_chunk_def demo_env demo_chunks reuse_vector_def demo_pending_any embeddingBatchSize_def Let_def del: One_nat_def)

lemma demo_file:
  "index_file (demo_index_env feed) demo_sync \<lparr>sf_Path = ''a.md'', sf_Size = n\<rparr> g
    = Inr (g\<lparr>ga_pending := [demo_pending], ga_candidates := ga_candidates g + 1, ga_processed := ga_processed g + 1, ga_upserts := List.insert ''a.md'' (ga_upserts g)\<rparr>)"
  if "n = 0 \<or> n \<le> 9" "\<not> ga_known g" "ga_pending g = []"
  using that by (simp add: index_file_def demo_env demo_args demo_allowed publish_progress_def index_raw_def demo_masked demo_length
      index_content_def demo_extract demo_take note_manifest_def demo_language)

lemma demo_flush:
  "flush_pending (demo_index_env feed) demo_sync g = Inr (g\<lparr>ga_pending := [], ga_db := demo_staged\<rparr>)"
  if "ga_pending g = [demo_pending]" "ga_embedder g = None" "ga_db g = demo_index" "ga_meta g = no_metadata" "ga_revision g = ''keyword-only''"
proof -
  have row: "chunk_row_of (demo_index_env feed) demo_sync g demo_pending = demo_row"
    using that by (simp add: chunk_row_of_def demo_row_def demo_pending_def pending_of_def demo_env demo_args no_metadata_def demo_language)
  have "pc_id demo_pending = dc_id demo_row" by (simp add: demo_row_def)
  then show ?thesis using that
    by (simp add: flush_pending_def embed_pending_def stage_chunk_def on_db_def exec_insert_def demo_env row generation_def demo_args
        demo_staged_def) (simp add: demo_index_def)
qed

lemma demo_packages: "gather_packages (demo_index_env feed) demo_sync [\<lparr>sf_Path = ''a.md'', sf_Size = n\<rparr>] g = Inr g" if "ga_packages g = []"
  using that by (simp add: gather_packages_def extra_manifest_def bound_packages_def batches_def demo_language packageInsertBatch_def)

lemma demo_gather:
  "gather_files (demo_index_env feed) demo_sync [\<lparr>sf_Path = ''a.md'', sf_Size = n\<rparr>] (start_gather (demo_index_env feed) demo_index) = Inr demo_gathered"
  if "n = 0 \<or> n \<le> 9"
  using that by (simp add: gather_files_def demo_start demo_file demo_flush demo_packages demo_gathered_def)

definition demo_plan :: "bool \<Rightarrow> int \<Rightarrow> string list \<Rightarrow> plan" where
  "demo_plan incremental n removed = plan_of \<lparr>pr_commit = ''c1'', pr_embedding = ''keyword-only'', pr_policy = []\<rparr> incremental
     [\<lparr>sf_Path = ''a.md'', sf_Size = n\<rparr>] removed demo_gathered"

lemmas publish_eval = publish_def transaction_def publish_steps_def lockJobLease_def check_commit_def delete_old_def delete_path_def delete_ref_def
  read_deleted_def delete_chunks_def delete_symbols_def delete_deps_def delete_files_def delete_packages_def recordFiles_def touch_files_def
  record_file_def publish_chunks_def publish_symbols_def publish_deps_def delete_old_packages_def publish_packages_def
  clear_generation_def clear_chunks_def clear_symbols_def clear_deps_def clear_packages_def touch_chunks_def touch_symbols_def touch_deps_def
  count_chunks_def record_changes_def delete_changes_def insert_change_def refreshRepositoryMap_def in_tx_def exec_def exec_insert_def

lemma demo_full: "\<exists>db'. publish (demo_index_env feed) demo_sync (demo_plan False n []) demo_staged = Inr db'"
  by (simp add: publish_eval demo_plan_def plan_of_def demo_gathered_def demo_env demo_args start_tx_def demo_staged_def demo_index_def
      upsert_state_def trim_prefix_def Let_def staged_def generation_def split: prod.split)

lemma demo_incremental: "\<exists>db'. publish (demo_index_env feed) demo_sync (demo_plan True n [''a.md'']) demo_staged = Inr db'"
  by (simp add: publish_eval demo_plan_def plan_of_def demo_gathered_def demo_env demo_args start_tx_def demo_staged_def demo_index_def
      upsert_state_def trim_prefix_def Let_def staged_def generation_def demo_language IndexRun.change_key_def split: prod.split)

lemma demo_complete: "sync_complete_job env demo_sync k w db = Inr db"
  by (simp add: sync_complete_job_def demo_args)

lemma demo_choice:
  "choose_files (demo_index_env None) demo_sync \<lparr>pr_commit = ''c1'', pr_embedding = ''keyword-only'', pr_policy = []\<rparr>
    = Inr (False, [\<lparr>sf_Path = ''a.md'', sf_Size = 3\<rparr>], [])"
  by (simp add: choose_files_def change_list_def demo_env demo_args)

lemma demo_run_full: "\<exists>db'. syncRef (demo_index_env None) demo_sync demo_index = (None, db')"
proof -
  let ?env = "demo_index_env None"
  let ?p = "\<lparr>pr_commit = ''c1'', pr_embedding = ''keyword-only'', pr_policy = []\<rparr>"
  note choice = demo_choice
  obtain db' where db': "publish ?env demo_sync (demo_plan False 3 []) demo_staged = Inr db'" using demo_full by blast
  have "ga_db demo_gathered = demo_staged" by (simp add: demo_gathered_def)
  with db' have "gather_run ?env demo_sync ?p False [\<lparr>sf_Path = ''a.md'', sf_Size = 3\<rparr>] [] demo_index = (None, db')"
    by (simp add: gather_run_def demo_gather demo_env demo_plan_def finish_run_def demo_complete)
  with choice show ?thesis by (simp add: syncRef_def sync_prior_def demo_args demo_prior demo_moved)
qed

definition demo_feed :: "(string \<Rightarrow> string \<Rightarrow> string + source_change list) option" where
  "demo_feed = Some (\<lambda>_ _. Inr [\<lparr>cg_Path = ''a.md'', cg_OldPath = [], cg_Type = ''ADD''\<rparr>])"

lemma demo_changes:
  "change_list (demo_index_env demo_feed) demo_sync \<lparr>pr_commit = ''c1'', pr_embedding = ''keyword-only'', pr_policy = []\<rparr>
    = Some [\<lparr>cg_Path = ''a.md'', cg_OldPath = [], cg_Type = ''ADD''\<rparr>]"
  by (simp add: change_list_def forced_full_def demo_env demo_args demo_feed_def)

lemma demo_changed:
  "changed_files [\<lparr>cg_Path = ''a.md'', cg_OldPath = [], cg_Type = ''ADD''\<rparr>] = [\<lparr>sf_Path = ''a.md'', sf_Size = 0\<rparr>]"
  "removed_paths [\<lparr>cg_Path = ''a.md'', cg_OldPath = [], cg_Type = ''ADD''\<rparr>] = [''a.md'']"
  by (simp_all add: changed_files_def removed_paths_def change_removed_def brings_file_def contains_str_def to_lower_def lower_char_def)

lemma demo_run_incremental: "\<exists>db'. syncRef (demo_index_env demo_feed) demo_sync demo_index = (None, db')"
proof -
  let ?env = "demo_index_env demo_feed"
  let ?p = "\<lparr>pr_commit = ''c1'', pr_embedding = ''keyword-only'', pr_policy = []\<rparr>"
  have choice: "choose_files ?env demo_sync ?p = Inr (True, [\<lparr>sf_Path = ''a.md'', sf_Size = 0\<rparr>], [''a.md''])"
    by (simp add: choose_files_def demo_changes demo_changed)
  obtain db' where db': "publish ?env demo_sync (demo_plan True 0 [''a.md'']) demo_staged = Inr db'" using demo_incremental by blast
  have "ga_db demo_gathered = demo_staged" by (simp add: demo_gathered_def)
  with db' have "gather_run ?env demo_sync ?p True [\<lparr>sf_Path = ''a.md'', sf_Size = 0\<rparr>] [''a.md''] demo_index = (None, db')"
    by (simp add: gather_run_def demo_gather demo_env demo_plan_def finish_run_def demo_complete)
  with choice show ?thesis by (simp add: syncRef_def sync_prior_def demo_args demo_prior demo_moved)
qed

end
