(* ===== verification/IndexGuarantees.thy ===== *)
theory IndexGuarantees
  imports IndexPublish IndexSample
begin

text \<open>
  What a run of the indexer guarantees: a full run leaves exactly the chunks of the files it read, an
  incremental run leaves the chunks of the new snapshot when the change feed tells the truth, the
  other refs are untouched, nothing is published without the lease and the expected commit, and a
  run that does not commit leaves the index as it was.
\<close>

section \<open>A run in parts\<close>

text \<open>No row is staged under the generation yet, and nobody else stages rows under it or writes the index meanwhile.\<close>

definition generation_free :: "index_env \<Rightarrow> sync_args \<Rightarrow> index_db \<Rightarrow> bool" where
  "generation_free env a db \<longleftrightarrow> staged env a (sg_chunks db) = [] \<and> staged env a (sg_symbols db) = [] \<and> staged env a (sg_deps db) = []"

definition undisturbed :: "index_env \<Rightarrow> bool" where
  "undisturbed env \<longleftrightarrow> (\<forall>db. index_tables (ie_others env db) = index_tables db \<and> sg_chunks (ie_others env db) = sg_chunks db
     \<and> sg_symbols (ie_others env db) = sg_symbols db \<and> sg_deps (ie_others env db) = sg_deps db)"

lemma demo_free: "generation_free (demo_index_env feed) demo_sync demo_index" "undisturbed (demo_index_env feed)" "walks_maps (demo_index_env feed)"
  by (simp_all add: generation_free_def undisturbed_def walks_maps_def demo_env demo_args demo_index_def staged_def)

lemma demo_views:
  "file_views (demo_index_env feed) demo_sync \<lparr>sf_Path = ''a.md'', sf_Size = 3\<rparr> = [(''a.md'', ''a.md'', ''document'', demo_text, 1, 2)]"
  by (simp add: file_views_def demo_env demo_allowed raw_views_def demo_length demo_masked chunk_views_def demo_chunks view_of_def demo_language)

lemma finish_keeps: "finish_run env a n w db = (r, db') \<Longrightarrow> index_tables db' = index_tables db"
  by (auto simp: finish_run_def sync_complete_job_def exec_Inr index_tables_def dest: update_running_tables
      split: sum.splits option.splits if_splits)

lemma publish_run:
  "publish env a p db = Inr db' \<Longrightarrow> \<exists>s. run_steps (publish_steps env a p) (start_tx db) = Inr s \<and> db' = tx_db s"
  by (auto simp: publish_def transaction_def split: option.splits sum.splits)

lemma gather_run_success:
  assumes "gather_run env a p incremental files removed db = (None, db')"
  obtains g s where "gather_files env a files (start_gather env db) = Inr g"
    "run_steps (publish_steps env a (plan_of p incremental files removed g)) (start_tx (ie_others env (ga_db g))) = Inr s"
    "index_tables db' = index_tables (tx_db s)"
proof -
  obtain g where g: "gather_files env a files (start_gather env db) = Inr g"
    using assms by (auto simp: gather_run_def fail_run_def split: sum.splits index_error.splits)
  then obtain db2 where db2: "publish env a (plan_of p incremental files removed g) (ie_others env (ga_db g)) = Inr db2"
    "finish_run env a (ga_processed g) (run_warning files g) db2 = (None, db')"
    using assms by (auto simp: gather_run_def fail_run_def Let_def split: sum.splits)
  then show thesis using publish_run [OF db2(1)] finish_keeps [OF db2(2)] g that by auto
qed

lemma start_gather_simps [simp]: "ga_db (start_gather env db) = db" "ga_pending (start_gather env db) = []"
  by (simp_all add: start_gather_def Let_def)

lemma free_owned: "generation_free env a db \<Longrightarrow> owned env a db"
  by (simp add: generation_free_def owned_def)

text \<open>The chunks of the ref after a run that succeeds: those it does not replace, then those of the files it read.\<close>

lemma restamp_view [simp]: "chunk_view (restamp_chunk env a r) = chunk_view r"
  by (simp add: restamp_chunk_def chunk_view_def)

lemma restamp_views [simp]: "chunk_view \<circ> restamp_chunk env a = chunk_view"
  by (rule ext) simp

lemma restamp_ref [simp]: "of_ref a (dc_repo (restamp_chunk env a r)) (dc_ref (restamp_chunk env a r)) = of_ref a (dc_repo r) (dc_ref r)"
  by (simp add: restamp_chunk_def)

lemma filter_restamp: "filter (\<lambda>r. of_ref a (dc_repo r) (dc_ref r)) (map (restamp_chunk env a) rs)
    = map (restamp_chunk env a) (filter (\<lambda>r. of_ref a (dc_repo r) (dc_ref r)) rs)"
  by (induction rs) simp_all

lemma run_chunks:
  assumes "walks_maps env" "generation_free env a db" "undisturbed env" "gather_run env a p incremental files removed db = (None, db')"
  shows "map chunk_view (ref_chunks a db') =
     map chunk_view (filter (\<lambda>r. incremental \<and> dc_path r \<notin> set removed) (ref_chunks a db)) @ concat (map (file_views env a) files)"
proof -
  from assms(4) obtain g s where g: "gather_files env a files (start_gather env db) = Inr g"
    and s: "run_steps (publish_steps env a (plan_of p incremental files removed g)) (start_tx (ie_others env (ga_db g))) = Inr s"
    and db': "index_tables db' = index_tables (tx_db s)" by (rule gather_run_success)
  define db1 where "db1 = ie_others env (ga_db g)"
  have staged': "staged env a (sg_chunks db1) = staged env a (sg_chunks (ga_db g))" and "index_tables db1 = index_tables (ga_db g)"
    using assms(3) unfolding undisturbed_def db1_def by simp_all
  moreover have "index_tables (ga_db g) = index_tables db" using quietD(2) [OF quiet_gather g] by simp
  ultimately have old: "ix_chunks db1 = ix_chunks db" by (simp add: index_tables_def)
  have "owned env a (ga_db g)" using ownsD [OF owns_gather _ g] free_owned [OF assms(2)] by simp
  then have own: "filter (\<lambda>r. of_ref a (dc_repo r) (dc_ref r)) (staged env a (sg_chunks db1)) = staged env a (sg_chunks db1)"
    unfolding staged' owned_def by (simp add: filter_id_conv list_all_iff)
  have views: "map chunk_view (staged env a (sg_chunks db1)) = concat (map (file_views env a) files)"
    unfolding staged' using gather_files_views [OF g] assms(2) by (simp add: generation_free_def)
  define kept where "kept = filter (\<lambda>r. \<not> replaced a (plan_of p incremental files removed g) (dc_repo r) (dc_ref r) (dc_path r)) (ix_chunks db)"
  have "ix_chunks db' = map (restamp_chunk env a) (kept @ staged env a (sg_chunks db1))"
    using publish_contents [OF assms(1) s] db' unfolding kept_def old [symmetric] db1_def
    by (simp add: contents_of_def start_tx_def index_tables_def)
  moreover have "filter (\<lambda>r. of_ref a (dc_repo r) (dc_ref r)) kept = filter (\<lambda>r. incremental \<and> dc_path r \<notin> set removed) (ref_chunks a db)"
    unfolding kept_def ref_chunks_def filter_filter by (rule filter_cong) (auto simp: replaced_def plan_of_def)
  ultimately have "ref_chunks a db' = map (restamp_chunk env a) (filter (\<lambda>r. incremental \<and> dc_path r \<notin> set removed) (ref_chunks a db)
      @ staged env a (sg_chunks db1))"
    unfolding ref_chunks_def by (simp only: filter_restamp filter_append own)
  then show ?thesis using views by simp
qed

text \<open>A run as a whole: the job it may insert does not matter to what it reads.\<close>

lemma insert_job_keeps:
  "insert_job env a db = Inr db1 \<Longrightarrow> index_tables db1 = index_tables db \<and> sg_chunks db1 = sg_chunks db \<and> sg_symbols db1 = sg_symbols db
     \<and> sg_deps db1 = sg_deps db"
  by (auto simp: insert_job_def exec_insert_Inr index_tables_def)

lemma read_prior_keeps: "index_tables db1 = index_tables db \<Longrightarrow> read_prior env a db1 = read_prior env a db"
proof -
  assume "index_tables db1 = index_tables db"
  then have same: "ix_states db1 = ix_states db" "ref_chunks a db1 = ref_chunks a db" by (simp_all add: index_tables_def ref_chunks_def)
  show "read_prior env a db1 = read_prior env a db" unfolding read_prior_def same ..
qed

lemma sync_gather_run:
  assumes "syncRef env a db = (r, db')" "read_prior env a db = Inr p" "\<not> unchanged env a p" "choose_files env a p = Inr (incremental, files, removed)"
    "r = None"
  obtains db1 where "gather_run env a p incremental files removed db1 = (None, db')" "index_tables db1 = index_tables db"
    "sg_chunks db1 = sg_chunks db" "sg_symbols db1 = sg_symbols db" "sg_deps db1 = sg_deps db"
proof (cases "sa_track a")
  case True
  then obtain db1 where db1: "insert_job env a db = Inr db1" "sync_prior env a db1 = (r, db')"
    using assms(1,5) by (auto simp: syncRef_def split: sum.splits)
  moreover have "read_prior env a db1 = Inr p" using insert_job_keeps [OF db1(1)] read_prior_keeps assms(2) by metis
  ultimately show thesis using assms(3-5) that insert_job_keeps [OF db1(1)] by (simp add: sync_prior_def)
next
  case False
  then show thesis using assms that by (simp add: syncRef_def sync_prior_def)
qed

section \<open>A full run\<close>

lemma full_run_views:
  assumes "walks_maps env" "generation_free env a db" "undisturbed env" "syncRef env a db = (None, db')"
    "read_prior env a db = Inr p" "\<not> unchanged env a p" "choose_files env a p = Inr (False, files, [])"
  shows "map chunk_view (ref_chunks a db') = concat (map (file_views env a) files)"
proof -
  from sync_gather_run [OF assms(4-7) refl] obtain db1 where db1: "gather_run env a p False files [] db1 = (None, db')"
    "sg_chunks db1 = sg_chunks db" "sg_symbols db1 = sg_symbols db" "sg_deps db1 = sg_deps db" by metis
  then have "generation_free env a db1" using assms(2) by (simp add: generation_free_def)
  from run_chunks [OF assms(1) this assms(3) db1(1)] show ?thesis by simp
qed

text \<open>C4: a full run indexes the snapshot. After a run that reads the whole listing and succeeds, the chunks of
  the ref are those of the listed files, in order: of each file the policy lets in that is small enough and
  holds no private key, the chunks of its masked text; nothing older is left.\<close>

theorem full_run_indexes_snapshot:
  assumes "walks_maps env" "generation_free env a db" "undisturbed env" "syncRef env a db = (None, db')"
    "read_prior env a db = Inr p" "\<not> unchanged env a p" "choose_files env a p = Inr (False, files, [])"
  shows "map chunk_view (ref_chunks a db') = concat (map (file_views env a) files)"
  using assms by (rule full_run_views)

theorem full_run_indexes_snapshot_witness:
  "\<exists>db'. syncRef (demo_index_env None) demo_sync demo_index = (None, db')
     \<and> map chunk_view (ref_chunks demo_sync db') = [(''a.md'', ''a.md'', ''document'', demo_text, 1, 2)]"
proof -
  obtain db' where run: "syncRef (demo_index_env None) demo_sync demo_index = (None, db')" using demo_run_full by blast
  from full_run_indexes_snapshot [OF demo_free(3,1,2) run demo_prior demo_moved demo_choice] run show ?thesis by (simp add: demo_views)
qed

lemma case_option_views:
  assumes "v \<in> set (case x of None \<Rightarrow> [] | Some cs \<Rightarrow> map f cs)"
  obtains cs c where "x = Some cs" "c \<in> set cs" "v = f c"
  using assms by (cases x) auto

text \<open>C16: only masked text is published. The content of every chunk of a ref after a full run is the content
  of a chunk of a file's masked text; a file that holds a private key has none.\<close>

theorem published_text_is_masked:
  assumes "walks_maps env" "generation_free env a db" "undisturbed env" "syncRef env a db = (None, db')"
    "read_prior env a db = Inr p" "\<not> unchanged env a p" "choose_files env a p = Inr (False, files, [])" "r \<in> set (ref_chunks a db')"
  shows "\<exists>raw cs. ad_read (ie_adapter env) (snapshot_ref a) (dc_path r) = Inr raw
     \<and> parse_chunks (ie_go env) (dc_path r) (fst (Sanitize (ie_entropy env) raw)) = Some cs \<and> dc_content r \<in> ch_Content ` set cs
     \<and> \<not> match_string privateKeyRE raw"
proof -
  note full_run_views [OF assms(1-7)]
  moreover have "chunk_view r \<in> set (map chunk_view (ref_chunks a db'))" using assms(8) by (simp only: set_map imageI)
  ultimately have "chunk_view r \<in> set (concat (map (file_views env a) files))" by (simp only:)
  then obtain f where f: "chunk_view r \<in> set (file_views env a f)" by auto
  then obtain raw where raw: "ad_read (ie_adapter env) (snapshot_ref a) (sf_Path f) = Inr raw" "chunk_view r \<in> set (raw_views env (sf_Path f) raw)"
    unfolding file_views_def by (cases "allowed (ie_policy env) f"; cases "ad_read (ie_adapter env) (snapshot_ref a) (sf_Path f)") auto
  have key: "\<not> match_string privateKeyRE raw"
  proof
    assume "match_string privateKeyRE raw"
    then have "Sanitize (ie_entropy env) raw = ([], ''private_key'')" by (simp add: Sanitize_def)
    then show False using raw(2) by (simp add: raw_views_def split: if_splits)
  qed
  from raw(2) have "chunk_view r \<in> set (chunk_views env (sf_Path f) (fst (Sanitize (ie_entropy env) raw)))"
    unfolding raw_views_def by (cases "Sanitize (ie_entropy env) raw") (auto split: if_splits)
  then obtain cs c where cs: "parse_chunks (ie_go env) (sf_Path f) (fst (Sanitize (ie_entropy env) raw)) = Some cs" "c \<in> set cs"
    and c: "chunk_view r = view_of (sf_Path f) c"
    unfolding chunk_views_def by (elim case_option_views)
  from c have "dc_path r = sf_Path f" "dc_content r = ch_Content c" unfolding chunk_view_def view_of_def prod.inject by blast+
  then show ?thesis using raw(1) cs key by (intro exI [of _ raw] exI [of _ cs]) simp
qed

theorem published_text_is_masked_witness:
  "\<exists>db' r raw cs. syncRef (demo_index_env None) demo_sync demo_index = (None, db') \<and> r \<in> set (ref_chunks demo_sync db')
     \<and> parse_chunks (\<lambda>_. None) (dc_path r) (fst (Sanitize (\<lambda>_. True) raw)) = Some cs \<and> dc_content r \<in> ch_Content ` set cs"
proof -
  obtain db' where run: "syncRef (demo_index_env None) demo_sync demo_index = (None, db')" using demo_run_full by blast
  note hyps = demo_free(3,1,2) run demo_prior demo_moved demo_choice
  have "map chunk_view (ref_chunks demo_sync db') = [(''a.md'', ''a.md'', ''document'', demo_text, 1, 2)]"
    using full_run_views [OF hyps] by (simp add: demo_views)
  then obtain r where r: "r \<in> set (ref_chunks demo_sync db')" by (cases "ref_chunks demo_sync db'") auto
  from published_text_is_masked [OF hyps r] run r show ?thesis by (auto simp: demo_env)
qed

section \<open>An incremental run\<close>

text \<open>A snapshot is the list of its paths and texts. An index of a snapshot holds the chunks of its files.\<close>

definition path_views :: "index_env \<Rightarrow> string \<Rightarrow> string \<Rightarrow> chunk_view list" where
  "path_views env path raw = (if allowed (ie_policy env) \<lparr>sf_Path = path, sf_Size = 0\<rparr> then raw_views env path raw else [])"

definition snapshot_views :: "index_env \<Rightarrow> (string \<times> string) list \<Rightarrow> chunk_view list" where
  "snapshot_views env snap = concat (map (\<lambda>(path, raw). path_views env path raw) snap)"

definition index_of :: "index_env \<Rightarrow> sync_args \<Rightarrow> (string \<times> string) list \<Rightarrow> index_db \<Rightarrow> bool" where
  "index_of env a snap db \<longleftrightarrow> mset (map chunk_view (ref_chunks a db)) = mset (snapshot_views env snap)"

text \<open>
  What a change feed says of two snapshots. A change is an addition, a modification, a deletion or a
  move; a deletion ends its path, a move its old path, and every other change brings its path. A path
  that no change ends or brings is as it was; of the others those exist that a change brings, and the
  source answers with their new text.
\<close>

definition deletes :: "source_change \<Rightarrow> bool" where
  "deletes c \<longleftrightarrow> to_lower (cg_Type c) \<in> {''delete'', ''deleted''}"

definition moves :: "source_change \<Rightarrow> bool" where
  "moves c \<longleftrightarrow> to_lower (cg_Type c) \<in> {''move'', ''renamed''}"

definition plain_change :: "source_change \<Rightarrow> bool" where
  "plain_change c \<longleftrightarrow> cg_Path c \<noteq> []
     \<and> (deletes c \<or> moves c \<or> to_lower (cg_Type c) \<in> {''add'', ''added'', ''modify'', ''modified''})
     \<and> (if moves c then cg_OldPath c \<noteq> [] else cg_OldPath c \<in> {[], cg_Path c})"

definition ended :: "source_change list \<Rightarrow> string set" where
  "ended changes = {cg_Path c | c. c \<in> set changes \<and> deletes c} \<union> {cg_OldPath c | c. c \<in> set changes \<and> moves c}"

definition brought :: "source_change list \<Rightarrow> string set" where
  "brought changes = {cg_Path c | c. c \<in> set changes \<and> \<not> deletes c}"

definition describes_changes :: "index_env \<Rightarrow> sync_args \<Rightarrow> source_change list \<Rightarrow> (string \<times> string) list \<Rightarrow> (string \<times> string) list \<Rightarrow> bool" where
  "describes_changes env a changes old new \<longleftrightarrow> list_all plain_change changes \<and> distinct (map fst old) \<and> distinct (map fst new)
     \<and> {x \<in> set old. fst x \<notin> ended changes \<union> brought changes} = {x \<in> set new. fst x \<notin> ended changes \<union> brought changes}
     \<and> brought changes \<subseteq> fst ` set new \<and> (ended changes - brought changes) \<inter> fst ` set new = {}
     \<and> list_all (\<lambda>(path, raw). path \<in> brought changes \<longrightarrow> ad_read (ie_adapter env) (snapshot_ref a) path = Inr raw) new"

text \<open>What the code makes of the feed: the paths it removes and the files it reads again.\<close>

lemma removed_fold:
  "set (fold change_removed changes acc) = set acc \<union> {x. x \<noteq> [] \<and> (\<exists>c \<in> set changes. x = cg_Path c \<or> x = cg_OldPath c)}"
proof (induction changes arbitrary: acc)
  case (Cons c changes)
  have "set (change_removed c acc) = set acc \<union> {x. x \<noteq> [] \<and> (x = cg_Path c \<or> x = cg_OldPath c)}"
    by (auto simp: change_removed_def Let_def)
  then show ?case using Cons.IH [of "change_removed c acc"] by auto
qed simp

lemma delete_types:
  "contains_str ''delete'' ''delete''" "contains_str ''deleted'' ''delete''" "\<not> contains_str ''move'' ''delete''"
  "\<not> contains_str ''renamed'' ''delete''" "\<not> contains_str ''add'' ''delete''" "\<not> contains_str ''added'' ''delete''"
  "\<not> contains_str ''modify'' ''delete''" "\<not> contains_str ''modified'' ''delete''"
  by (simp_all add: contains_str_def)

lemma plain_brings: "plain_change c \<Longrightarrow> brings_file c \<longleftrightarrow> \<not> deletes c"
  using delete_types by (auto simp: plain_change_def brings_file_def deletes_def moves_def)

lemma removed_set:
  assumes "list_all plain_change changes"
  shows "set (removed_paths changes) = ended changes \<union> brought changes"
proof -
  have plain: "plain_change c" if "c \<in> set changes" for c using assms that by (simp add: list_all_iff)
  have "{x. x \<noteq> [] \<and> (\<exists>c \<in> set changes. x = cg_Path c \<or> x = cg_OldPath c)} = ended changes \<union> brought changes" (is "?named = _")
  proof (intro equalityI subsetI)
    fix x assume "x \<in> ?named"
    then obtain c where c: "c \<in> set changes" "x \<noteq> []" "x = cg_Path c \<or> x = cg_OldPath c" by auto
    show "x \<in> ended changes \<union> brought changes"
      using plain [OF c(1)] c by (cases "deletes c"; cases "moves c") (auto simp: plain_change_def ended_def brought_def)
  next
    fix x assume "x \<in> ended changes \<union> brought changes"
    then show "x \<in> ?named" using plain by (auto simp: ended_def brought_def plain_change_def)
  qed
  then show ?thesis by (simp add: removed_paths_def removed_fold)
qed

lemma changed_fold_set:
  "set (fold (\<lambda>c seen. if brings_file c \<and> cg_Path c \<notin> set seen then cg_Path c # seen else seen) changes seen)
     = set seen \<union> {cg_Path c | c. c \<in> set changes \<and> brings_file c}"
  by (induction changes arbitrary: seen) auto

lemma changed_set:
  assumes "list_all plain_change changes"
  shows "sf_Path ` set (changed_files changes) = brought changes"
proof -
  have "{cg_Path c | c. c \<in> set changes \<and> brings_file c} = brought changes"
    using assms plain_brings by (auto simp: brought_def list_all_iff)
  then show ?thesis by (simp add: changed_files_def image_image changed_fold_set)
qed

definition reads_changes :: "index_env \<Rightarrow> sync_args \<Rightarrow> source_change list \<Rightarrow> (string \<times> string) list \<Rightarrow> (string \<times> string) list \<Rightarrow> bool" where
  "reads_changes env a changes old new \<longleftrightarrow> distinct (map fst old) \<and> distinct (map fst new)
     \<and> {x \<in> set old. fst x \<notin> set (removed_paths changes)} = {x \<in> set new. fst x \<notin> set (removed_paths changes)}
     \<and> {path \<in> fst ` set new. path \<in> set (removed_paths changes)} = sf_Path ` set (changed_files changes)
     \<and> list_all (\<lambda>(path, raw). path \<in> set (removed_paths changes) \<longrightarrow> ad_read (ie_adapter env) (snapshot_ref a) path = Inr raw) new"

lemma described_is_read:
  assumes "describes_changes env a changes old new"
  shows "reads_changes env a changes old new"
proof -
  have plain: "list_all plain_change changes" using assms by (simp add: describes_changes_def)
  have "{path \<in> fst ` set new. path \<in> ended changes \<union> brought changes} = brought changes"
    using assms unfolding describes_changes_def by blast
  moreover have "path \<in> brought changes" if "(path, raw) \<in> set new" "path \<in> ended changes \<union> brought changes" for path raw
    using assms that unfolding describes_changes_def by force
  ultimately show ?thesis using assms unfolding reads_changes_def removed_set [OF plain] changed_set [OF plain]
    by (fastforce simp: describes_changes_def list_all_iff)
qed

lemma raw_views_path: "v \<in> set (raw_views env path raw) \<Longrightarrow> fst v = path"
  by (auto simp: raw_views_def chunk_views_def view_of_def split: if_splits prod.splits option.splits)

lemma path_views_path: "v \<in> set (path_views env path raw) \<Longrightarrow> fst v = path"
  by (auto simp: path_views_def dest: raw_views_path split: if_splits)

lemma view_path [simp]: "fst (chunk_view r) = dc_path r"
  by (simp add: chunk_view_def)

lemma snapshot_views_filter:
  "filter (\<lambda>v. P (fst v)) (snapshot_views env snap) = snapshot_views env (filter (\<lambda>x. P (fst x)) snap)"
proof (induction snap)
  case (Cons x snap)
  have "filter (\<lambda>v. P (fst v)) (path_views env (fst x) (snd x)) = (if P (fst x) then path_views env (fst x) (snd x) else [])"
    by (auto simp: filter_id_conv filter_empty_conv dest: path_views_path)
  then show ?case using Cons by (simp add: snapshot_views_def case_prod_beta)
qed (simp add: snapshot_views_def)

lemma snapshot_views_mset: "mset xs = mset ys \<Longrightarrow> mset (snapshot_views env xs) = mset (snapshot_views env ys)"
proof -
  have "mset (snapshot_views env zs) = \<Sum>\<^sub># (image_mset (\<lambda>(path, raw). mset (path_views env path raw)) (mset zs))" for zs
    by (induction zs) (auto simp: snapshot_views_def)
  then show "mset xs = mset ys \<Longrightarrow> mset (snapshot_views env xs) = mset (snapshot_views env ys)" by simp
qed

lemma snapshot_views_split:
  "mset (snapshot_views env snap) = mset (snapshot_views env (filter (\<lambda>x. P (fst x)) snap)) + mset (snapshot_views env (filter (\<lambda>x. \<not> P (fst x)) snap))"
  by (induction snap) (auto simp: snapshot_views_def)

lemma distinct_same_set: "distinct xs \<Longrightarrow> distinct ys \<Longrightarrow> set xs = set ys \<Longrightarrow> mset xs = mset ys"
  by (metis set_eq_iff_mset_eq_distinct)

lemma changed_fold_distinct:
  "distinct seen \<Longrightarrow> distinct (fold (\<lambda>c seen. if brings_file c \<and> cg_Path c \<notin> set seen then cg_Path c # seen else seen) changes seen)"
  by (induction changes arbitrary: seen) auto

lemma changed_files_distinct: "distinct (map sf_Path (changed_files changes))" "f \<in> set (changed_files changes) \<Longrightarrow> sf_Size f = 0"
  using changed_fold_distinct [of "[]" changes] by (auto simp: changed_files_def comp_def)

lemma distinct_filter_fst: "distinct (map fst xs) \<Longrightarrow> distinct (filter P xs)"
  by (simp add: distinct_map)

lemma changed_views:
  assumes "reads_changes env a changes old new"
  shows "mset (concat (map (file_views env a) (changed_files changes)))
    = mset (snapshot_views env (filter (\<lambda>x. fst x \<in> set (removed_paths changes)) new))"
proof -
  define text_of' where "text_of' = (\<lambda>f :: source_file. the (map_of new (sf_Path f)))"
  define again where "again = map (\<lambda>f. (sf_Path f, text_of' f)) (changed_files changes)"
  have new: "distinct (map fst new)" using assms by (simp add: reads_changes_def)
  have mem: "sf_Path f \<in> set (removed_paths changes) \<and> (sf_Path f, text_of' f) \<in> set new" if "f \<in> set (changed_files changes)" for f
  proof -
    have "sf_Path f \<in> {path \<in> fst ` set new. path \<in> set (removed_paths changes)}"
      using assms that by (auto simp: reads_changes_def)
    then show ?thesis using new by (auto simp: text_of'_def)
  qed
  have "file_views env a f = path_views env (sf_Path f) (text_of' f)" if "f \<in> set (changed_files changes)" for f
  proof -
    have "ad_read (ie_adapter env) (snapshot_ref a) (sf_Path f) = Inr (text_of' f)"
      using assms mem [OF that] by (auto simp: reads_changes_def list_all_iff)
    moreover have "f = \<lparr>sf_Path = sf_Path f, sf_Size = 0\<rparr>" using changed_files_distinct(2) [OF that] by (cases f) simp
    ultimately show ?thesis by (simp add: file_views_def path_views_def)
  qed
  then have "concat (map (file_views env a) (changed_files changes)) = snapshot_views env again"
    unfolding snapshot_views_def again_def by (simp add: comp_def cong: map_cong)
  moreover have "set again = {x \<in> set new. fst x \<in> set (removed_paths changes)}"
  proof (intro equalityI subsetI)
    fix x assume "x \<in> {x \<in> set new. fst x \<in> set (removed_paths changes)}"
    then have x: "x \<in> set new" "fst x \<in> sf_Path ` set (changed_files changes)"
      using assms by (auto simp: reads_changes_def)
    then obtain f where f: "f \<in> set (changed_files changes)" "fst x = sf_Path f" by auto
    have "map_of new (fst x) = Some (snd x)" using x(1) new by (intro map_of_is_SomeI) simp_all
    then have "snd x = text_of' f" using f(2) by (simp add: text_of'_def)
    then have "x = (sf_Path f, text_of' f)" using f(2) by (cases x) simp
    then show "x \<in> set again" using f(1) unfolding again_def set_map by (rule image_eqI)
  qed (use mem in \<open>auto simp: again_def\<close>)
  moreover have "distinct again" using changed_files_distinct(1) [of changes] by (auto simp: again_def distinct_map inj_on_def)
  ultimately show ?thesis
    by (simp only:) (intro snapshot_views_mset distinct_same_set distinct_filter_fst new; simp)
qed

text \<open>C2: an incremental run is as good as a full one. If the index of a ref was that of the old snapshot under
  the policy in force, and the change feed describes what has changed since, then after an incremental
  run that succeeds it is the index of the new snapshot: no chunk is missing, stale or doubled.\<close>

theorem incremental_run_follows_changes:
  assumes "walks_maps env" "generation_free env a db" "undisturbed env" "syncRef env a db = (None, db')"
    "read_prior env a db = Inr p" "\<not> unchanged env a p" "change_list env a p = Some changes"
    "describes_changes env a changes old new" "index_of env a old db"
  shows "index_of env a new db'"
proof -
  note read = described_is_read [OF assms(8)]
  have choice: "choose_files env a p = Inr (True, changed_files changes, removed_paths changes)" using assms(7) by (simp add: choose_files_def)
  from sync_gather_run [OF assms(4-6) choice refl] obtain db1 where
    run: "gather_run env a p True (changed_files changes) (removed_paths changes) db1 = (None, db')" and same: "index_tables db1 = index_tables db"
    "sg_chunks db1 = sg_chunks db" "sg_symbols db1 = sg_symbols db" "sg_deps db1 = sg_deps db" by metis
  define R where "R = set (removed_paths changes)"
  have "generation_free env a db1" "ref_chunks a db1 = ref_chunks a db"
    using assms(2) same by (simp_all add: generation_free_def ref_chunks_def index_tables_def)
  then have after: "map chunk_view (ref_chunks a db') = map chunk_view (filter (\<lambda>r. dc_path r \<notin> R) (ref_chunks a db))
      @ concat (map (file_views env a) (changed_files changes))"
    using run_chunks [OF assms(1) _ assms(3) run] by (simp add: R_def)
  have "map chunk_view (filter (\<lambda>r. dc_path r \<notin> R) (ref_chunks a db)) = filter (\<lambda>v. fst v \<notin> R) (map chunk_view (ref_chunks a db))"
    by (simp add: filter_map comp_def)
  then have "mset (map chunk_view (filter (\<lambda>r. dc_path r \<notin> R) (ref_chunks a db))) = mset (filter (\<lambda>v. fst v \<notin> R) (snapshot_views env old))"
    using assms(9) by (simp add: index_of_def)
  also have "\<dots> = mset (snapshot_views env (filter (\<lambda>x. fst x \<notin> R) old))" by (simp only: snapshot_views_filter [of "\<lambda>x. x \<notin> R"])
  also have "\<dots> = mset (snapshot_views env (filter (\<lambda>x. fst x \<notin> R) new))"
    using read by (intro snapshot_views_mset distinct_same_set) (auto simp: reads_changes_def R_def intro: distinct_filter_fst)
  finally show ?thesis
    using after changed_views [OF read] snapshot_views_split [of env new "\<lambda>x. x \<in> R"] by (simp add: index_of_def R_def)
qed

lemma lower_add: "to_lower ''ADD'' = ''add''"
  by code_simp

theorem incremental_run_follows_changes_witness:
  "\<exists>db'. syncRef (demo_index_env demo_feed) demo_sync demo_index = (None, db')
     \<and> index_of (demo_index_env demo_feed) demo_sync [(''a.md'', demo_text)] db'"
proof -
  obtain db' where run: "syncRef (demo_index_env demo_feed) demo_sync demo_index = (None, db')" using demo_run_incremental by blast
  have "describes_changes (demo_index_env demo_feed) demo_sync [\<lparr>cg_Path = ''a.md'', cg_OldPath = [], cg_Type = ''ADD''\<rparr>] [] [(''a.md'', demo_text)]"
    by (simp add: describes_changes_def plain_change_def deletes_def moves_def ended_def brought_def lower_add demo_env)
  moreover have "index_of (demo_index_env demo_feed) demo_sync [] demo_index" by (simp add: index_of_def snapshot_views_def ref_chunks_def demo_index_def)
  ultimately show ?thesis
    using run incremental_run_follows_changes [OF demo_free(3,1,2) run demo_prior demo_moved demo_changes] by blast
qed

section \<open>Who may publish, and all or nothing\<close>

definition may_publish :: "sync_args \<Rightarrow> string \<Rightarrow> index_db \<Rightarrow> bool" where
  "may_publish a prior_commit db \<longleftrightarrow>
     (case sa_lease a of None \<Rightarrow> True
      | Some (job, started) \<Rightarrow> list_ex (\<lambda>j. sj_id j = job \<and> sj_status j = ''running'' \<and> sj_started j = started) (ix_jobs db))
     \<and> (case List.find (\<lambda>st. of_ref a (rs_repo st) (rs_ref st)) (ix_states db) of None \<Rightarrow> True
        | Some st \<Rightarrow> rs_commit st = [] \<or> rs_commit st = prior_commit)"

lemma lock_held:
  "lockJobLease env a s = Inr s' \<Longrightarrow> case sa_lease a of None \<Rightarrow> True
     | Some (job, started) \<Rightarrow> list_ex (\<lambda>j. sj_id j = job \<and> sj_status j = ''running'' \<and> sj_started j = started) (ix_jobs (tx_db s))"
proof -
  assume locked: "lockJobLease env a s = Inr s'"
  show ?thesis
  proof (cases "sa_lease a")
    case (Some l)
    obtain job started where l: "l = (job, started)" by (cases l)
    have "length (filter (\<lambda>j. sj_id j = job \<and> sj_status j = ''running'' \<and> sj_started j = started) (ix_jobs (tx_db s))) = 1"
      using locked Some l by (auto simp: lockJobLease_def split: option.splits if_splits)
    then have "filter (\<lambda>j. sj_id j = job \<and> sj_status j = ''running'' \<and> sj_started j = started) (ix_jobs (tx_db s)) \<noteq> []" by auto
    then show ?thesis using Some l by (auto simp: filter_empty_conv list_ex_iff)
  qed simp
qed

lemma commit_checked:
  "check_commit env a p s = Inr s' \<Longrightarrow> case List.find (\<lambda>st. of_ref a (rs_repo st) (rs_ref st)) (ix_states (tx_db s)) of None \<Rightarrow> True
     | Some st \<Rightarrow> rs_commit st = [] \<or> rs_commit st = pl_prior p"
  by (auto simp: check_commit_def split: option.splits if_splits)

text \<open>C13: no generation is published on top of another. A publication commits only while the job of the worker is
  still its own running claim and the ref is still at the commit the run started from.\<close>

theorem publishes_only_when_current: "publish env a p db = Inr db' \<Longrightarrow> may_publish a (pl_prior p) db"
proof -
  assume "publish env a p db = Inr db'"
  then obtain s where s: "run_steps (publish_steps env a p) (start_tx db) = Inr s" using publish_run by blast
  then have "run_steps (lockJobLease env a # check_commit env a p # (delete_old env a p @ recordFiles env a p
     @ [publish_chunks env a, publish_symbols env a, publish_deps env a] @ delete_old_packages env a p @ [publish_packages env a]
     @ map (insert_security_event env) (pl_events p) @ map in_tx (clear_generation env a)
     @ [touch_chunks env a, touch_symbols env a, touch_deps env a, count_chunks env a, upsert_state env a (pl_revision p) (pl_warnings p)]
     @ record_changes env a p @ refreshRepositoryMap env a @ [exec env Commit (\<lambda>s. s)])) (start_tx db) = Inr s"
    unfolding publish_steps_def by simp
  then obtain s1 s2 where steps: "lockJobLease env a (start_tx db) = Inr s1" "check_commit env a p s1 = Inr s2" by (elim run_steps_ConsE)
  moreover have "s1 = start_tx db" using steps(1) by (rule lock_same)
  ultimately show "may_publish a (pl_prior p) db"
    using lock_held [of env a "start_tx db"] commit_checked [of env a p "start_tx db"] unfolding may_publish_def
    by (auto simp: start_tx_def split: option.splits)
qed

theorem publishes_only_when_current_witness:
  "\<exists>db'. publish (demo_index_env None) demo_sync (demo_plan False 3 []) demo_staged = Inr db' \<and> may_publish demo_sync ''c1'' demo_staged"
proof -
  obtain db' where run: "publish (demo_index_env None) demo_sync (demo_plan False 3 []) demo_staged = Inr db'" using demo_full by blast
  from publishes_only_when_current [OF this] run show ?thesis by (simp add: demo_plan_def plan_of_def)
qed

text \<open>The ref as a run that commits leaves it: one state, which tells the commit and counts the chunks, all of that commit.\<close>

definition settled :: "sync_args \<Rightarrow> index_db \<Rightarrow> bool" where
  "settled a db \<longleftrightarrow>
     (case filter (\<lambda>st. of_ref a (rs_repo st) (rs_ref st)) (ix_states db) of
        [st] \<Rightarrow> rs_commit st = rf_LatestCommit (sa_ref a) \<and> rs_chunks st = length (ref_chunks a db)
          \<and> rs_embedded st = length (filter (\<lambda>r. dc_vector r \<noteq> None) (ref_chunks a db))
      | _ \<Rightarrow> False)"

definition states_of :: "tx_state \<Rightarrow> ref_state list" where
  "states_of s = ix_states (tx_db s)"

lemma changes_keep_states: "list_all (keeps states_of) (record_changes env a p)"
  by (auto simp: record_changes_def list_all_iff keeps_def states_of_def step_Inr delete_changes_def insert_change_def Let_def split: if_splits)

lemma map_keep_states: "list_all (keeps states_of) (refreshRepositoryMap env a @ [exec env Commit (\<lambda>s. s)])"
  by (auto simp: refreshRepositoryMap_def list_all_iff keeps_def states_of_def step_Inr)

lemma other_states_gone: "filter P (filter (\<lambda>x. \<not> P x) xs) = []"
  by (simp add: filter_empty_conv)

lemma counted_settled:
  assumes "count_chunks env a s = Inr s1" "upsert_state env a revision warnings s1 = Inr s2"
    "ix_states db = ix_states (tx_db s2)" "ix_chunks db = ix_chunks (tx_db s)"
  shows "settled a db"
proof -
  have s1: "s1 = s\<lparr>tx_total := length (ref_chunks a (tx_db s)), tx_embedded := length (filter (\<lambda>r. dc_vector r \<noteq> None) (ref_chunks a (tx_db s)))\<rparr>"
    using assms(1) by (simp add: count_chunks_def exec_Inr)
  have same: "ref_chunks a db = ref_chunks a (tx_db s)" using assms(4) by (simp add: ref_chunks_def)
  from upsert_state_Inr [OF assms(2)] obtain status e where s2: "ix_states db = filter (\<lambda>x. \<not> of_ref a (rs_repo x) (rs_ref x)) (ix_states (tx_db s1))
     @ [\<lparr>rs_repo = sa_repo a, rs_ref = rf_Name (sa_ref a), rs_commit = rf_LatestCommit (sa_ref a), rs_indexed = ie_now env,
         rs_embedding = revision, rs_policy = policy_revision env, rs_chunks = tx_total s1, rs_embedded = tx_embedded s1,
         rs_status = status, rs_error = e\<rparr>]"
    using assms(3) by auto
  show ?thesis unfolding settled_def s2 filter_append other_states_gone same s1 by simp
qed

lemma publish_settles: "run_steps (publish_steps env a p) s = Inr s' \<Longrightarrow> settled a (tx_db s')"
proof (erule publish_stages)
  fix s9 s10 s11
  assume count: "count_chunks env a s9 = Inr s10" and state: "upsert_state env a (pl_revision p) (pl_warnings p) s10 = Inr s11"
    and tail: "run_steps (record_changes env a p @ refreshRepositoryMap env a @ [exec env Commit (\<lambda>s. s)]) s11 = Inr s'"
  have "list_all (keeps states_of) (record_changes env a p @ refreshRepositoryMap env a @ [exec env Commit (\<lambda>s. s)])"
    unfolding list_all_append [of _ "record_changes env a p"] by (rule conjI [OF changes_keep_states map_keep_states])
  from run_keeps [OF this tail] have "ix_states (tx_db s') = ix_states (tx_db s11)" by (simp add: states_of_def)
  moreover have "contents_of s' = contents_of s9"
    using tail_keeps [OF tail] count state by (auto simp: count_chunks_def exec_Inr contents_of_def dest!: upsert_state_Inr)
  ultimately show "settled a (tx_db s')" using count state by (intro counted_settled) (simp_all add: contents_of_def)
qed

lemma confirm_settles: "run_steps (confirm_steps env a) s = Inr s' \<Longrightarrow> settled a (tx_db s')"
proof -
  assume "run_steps (confirm_steps env a) s = Inr s'"
  then obtain s0 s1 s2 where s: "lockJobLease env a s = Inr s0" "count_chunks env a s0 = Inr s1" "upsert_state env a (embedding_revision env) [] s1 = Inr s2"
    and tail: "run_steps (refreshRepositoryMap env a @ [exec env Commit (\<lambda>s. s)]) s2 = Inr s'"
    unfolding confirm_steps_def append_Cons append_Nil by (elim run_steps_ConsE)
  have "ix_states (tx_db s') = ix_states (tx_db s2)" "contents_of s' = contents_of s2"
    using run_keeps [OF map_keep_states tail] run_keeps [OF map_keep tail] by (simp_all add: states_of_def)
  moreover have "contents_of s2 = contents_of s0" using s(2,3) by (auto simp: count_chunks_def exec_Inr contents_of_def dest!: upsert_state_Inr)
  ultimately show "settled a (tx_db s')" using s(2,3) by (intro counted_settled) (simp_all add: contents_of_def)
qed

lemma clear_tables: "f \<in> set (clear_generation env a) \<Longrightarrow> index_tables (try_step f db) = index_tables db"
  by (auto simp: clear_generation_def clear_chunks_def clear_symbols_def clear_deps_def clear_packages_def try_step_def exec_def index_tables_def
      split: sum.splits option.splits)

lemma fail_tables: "fail_run env a e db = (r, db') \<Longrightarrow> index_tables db' = index_tables db \<and> r \<noteq> None"
proof -
  assume failed: "fail_run env a e db = (r, db')"
  have "index_tables (fold try_step fs db) = index_tables db" if "\<And>f db. f \<in> set fs \<Longrightarrow> index_tables (try_step f db) = index_tables db" for fs db
    using that by (induction fs arbitrary: db) simp_all
  moreover have "index_tables (try_step (fail_job env a t) db) = index_tables db" for t db
    by (auto simp: fail_job_def try_step_def exec_def index_tables_def split: sum.splits option.splits)
  ultimately have "index_tables (fold try_step (clear_generation env a @ [fail_job env a t]) db) = index_tables db" for t
    using clear_tables by fastforce
  then show ?thesis using failed by (auto simp: fail_run_def split: index_error.splits)
qed

lemma settled_tables: "index_tables db' = index_tables db \<Longrightarrow> settled a db' = settled a db"
proof -
  assume "index_tables db' = index_tables db"
  then have same: "ix_states db' = ix_states db" "ref_chunks a db' = ref_chunks a db" by (simp_all add: index_tables_def ref_chunks_def)
  show "settled a db' = settled a db" unfolding settled_def same ..
qed

text \<open>How a run can end: without a commit, by confirming a ref that has not moved, or by publishing.\<close>

lemma finish_pair: "\<exists>r db'. finish_run env a n w db = (r, db') \<and> index_tables db' = index_tables db"
  using finish_keeps [of env a n w db] by (cases "finish_run env a n w db") auto

lemma gather_cases:
  assumes "gather_run env a p i files removed db = (r, db')" "undisturbed env"
  obtains "index_tables db' = index_tables db"
  | g s where "gather_files env a files (start_gather env db) = Inr g"
    "run_steps (publish_steps env a (plan_of p i files removed g)) (start_tx (ie_others env (ga_db g))) = Inr s"
    "index_tables db' = index_tables (tx_db s)"
proof (cases "gather_files env a files (start_gather env db)")
  case (Inl ed)
  then have "index_tables (snd ed) = index_tables db" using quietD(1) [OF quiet_gather] by (cases ed) fastforce
  then show thesis using assms(1) Inl fail_tables that(1) by (cases ed) (fastforce simp: gather_run_def)
next
  case (Inr g)
  have same: "index_tables (ie_others env (ga_db g)) = index_tables db"
    using quietD(2) [OF quiet_gather Inr] assms(2) by (simp add: undisturbed_def)
  show thesis
  proof (cases "publish env a (plan_of p i files removed g) (ie_others env (ga_db g))")
    case (Inl e)
    then show thesis using assms(1) \<open>gather_files env a files (start_gather env db) = Inr g\<close> same fail_tables that(1)
      by (fastforce simp: gather_run_def Let_def)
  next
    case (Inr d)
    have "finish_run env a (ga_processed g) (run_warning files g) d = (r, db')"
      using assms(1) Inr \<open>gather_files env a files (start_gather env db) = Inr g\<close> by (simp add: gather_run_def Let_def)
    then show thesis using publish_run [OF Inr] \<open>gather_files env a files (start_gather env db) = Inr g\<close> that(2) finish_keeps by blast
  qed
qed

lemma confirm_cases:
  assumes "confirm_run env a db = (r, db')"
  obtains "index_tables db' = index_tables db"
  | s where "run_steps (confirm_steps env a) (start_tx db) = Inr s" "index_tables db' = index_tables (tx_db s)"
proof (cases "transaction env (confirm_steps env a) db")
  case (Inl e)
  then show thesis using assms fail_tables that(1) by (fastforce simp: confirm_run_def)
next
  case (Inr d)
  then obtain s where "run_steps (confirm_steps env a) (start_tx db) = Inr s" "d = tx_db s" by (auto simp: transaction_def split: option.splits sum.splits)
  moreover have "finish_run env a 0 [] d = (r, db')" using assms Inr by (simp add: confirm_run_def)
  ultimately show thesis using that(2) finish_keeps by blast
qed

lemma sync_cases:
  assumes "syncRef env a db = (r, db')" "undisturbed env"
  obtains "index_tables db' = index_tables db"
  | d s where "index_tables d = index_tables db" "run_steps (confirm_steps env a) (start_tx d) = Inr s" "index_tables db' = index_tables (tx_db s)"
  | d p i files removed g s where "index_tables d = index_tables db" "generation_free env a db \<Longrightarrow> generation_free env a d"
    "gather_files env a files (start_gather env d) = Inr g"
    "run_steps (publish_steps env a (plan_of p i files removed g)) (start_tx (ie_others env (ga_db g))) = Inr s"
    "index_tables db' = index_tables (tx_db s)"
proof -
  note same = that(1) and confirmed = that(2) and published = that(3)
  have prior: thesis if d: "sync_prior env a d = (r, db')" "index_tables d = index_tables db" "generation_free env a db \<Longrightarrow> generation_free env a d" for d
  proof -
    consider e where "fail_run env a (IndexError e) d = (r, db')" | "confirm_run env a d = (r, db')"
      | p i files removed where "gather_run env a p i files removed d = (r, db')"
      using d(1) unfolding sync_prior_def by (auto split: sum.splits if_splits prod.splits)
    then show thesis
    proof cases
      case 1
      then show thesis using fail_tables d(2) same by metis
    next
      case 2
      then show thesis using d(2) same confirmed by (elim confirm_cases) simp_all
    next
      case 3
      then show thesis using assms(2)
      proof (rule gather_cases)
        assume "index_tables db' = index_tables d"
        then show thesis using d(2) same by simp
      next
        fix g s assume "gather_files env a files (start_gather env d) = Inr g"
          "run_steps (publish_steps env a (plan_of p i files removed g)) (start_tx (ie_others env (ga_db g))) = Inr s"
          "index_tables db' = index_tables (tx_db s)"
        then show thesis using d(2,3) by (intro published) simp_all
      qed
    qed
  qed
  show thesis
  proof (cases "sa_track a")
    case True
    then show thesis
    proof (cases "insert_job env a db")
      case (Inr d)
      from insert_job_keeps [OF Inr] True Inr assms(1) show thesis by (intro prior [of d]) (simp_all add: syncRef_def generation_free_def)
    qed (use True assms(1) same in \<open>simp add: syncRef_def\<close>)
  next
    case False
    then show thesis using assms(1) by (intro prior [of db]) (simp_all add: syncRef_def)
  qed
qed

text \<open>C5: a run is all or nothing. Whatever statement fails, whatever the source, the embedding service or the
  parsers do, a run either leaves every table of the index as it was, or leaves the ref settled: one
  state with the new commit that counts the chunks and the vectors of the ref as they are.\<close>

theorem run_is_all_or_nothing:
  assumes "undisturbed env" "syncRef env a db = (r, db')"
  shows "index_tables db' = index_tables db \<or> settled a db'"
  using assms(2,1)
proof (rule sync_cases)
  fix d s assume "run_steps (confirm_steps env a) (start_tx d) = Inr s" "index_tables db' = index_tables (tx_db s)"
  then show ?thesis using confirm_settles settled_tables by blast
next
  fix d p i files removed g s
  assume "run_steps (publish_steps env a (plan_of p i files removed g)) (start_tx (ie_others env (ga_db g))) = Inr s"
    "index_tables db' = index_tables (tx_db s)"
  then show ?thesis using publish_settles settled_tables by blast
qed simp

theorem run_is_all_or_nothing_witness:
  "\<exists>db'. syncRef (demo_index_env None) demo_sync demo_index = (None, db') \<and> (index_tables db' = index_tables demo_index \<or> settled demo_sync db')"
proof -
  obtain db' where run: "syncRef (demo_index_env None) demo_sync demo_index = (None, db')" using demo_run_full by blast
  from run_is_all_or_nothing [OF demo_free(2) run] run show ?thesis by blast
qed

section \<open>Other refs\<close>

definition foreign :: "sync_args \<Rightarrow> index_db \<Rightarrow> doc_chunk list \<times> (string \<times> symbol_row) list \<times> (string \<times> dependency_row) list" where
  "foreign a db = (filter (\<lambda>r. \<not> of_ref a (dc_repo r) (dc_ref r)) (ix_chunks db),
     filter (\<lambda>(i, r). \<not> of_ref a (sy_repo r) (sy_ref r)) (ix_symbols db), filter (\<lambda>(i, r). \<not> of_ref a (de_repo r) (de_ref r)) (ix_deps db))"

lemma foreign_tables: "index_tables db' = index_tables db \<Longrightarrow> foreign a db' = foreign a db"
  by (simp add: foreign_def index_tables_def)

lemma filter_map_fixed: "(\<And>x. P (f x) = P x) \<Longrightarrow> (\<And>x. P x \<Longrightarrow> f x = x) \<Longrightarrow> filter P (map f xs) = filter P xs"
  by (induction xs) auto

lemma foreign_restamp:
  "filter (\<lambda>r. \<not> of_ref a (dc_repo r) (dc_ref r)) (map (restamp_chunk env a) rs) = filter (\<lambda>r. \<not> of_ref a (dc_repo r) (dc_ref r)) rs"
  "filter (\<lambda>(i, r). \<not> of_ref a (sy_repo r) (sy_ref r)) (map (restamp_symbol a) ys) = filter (\<lambda>(i, r). \<not> of_ref a (sy_repo r) (sy_ref r)) ys"
  "filter (\<lambda>(i, r). \<not> of_ref a (de_repo r) (de_ref r)) (map (restamp_dep a) ds) = filter (\<lambda>(i, r). \<not> of_ref a (de_repo r) (de_ref r)) ds"
  by (rule filter_map_fixed; auto simp: restamp_chunk_def restamp_symbol_def restamp_dep_def)+

lemma publish_foreign:
  assumes "walks_maps env" "owned env a db" "run_steps (publish_steps env a p) (start_tx db) = Inr s"
  shows "foreign a (tx_db s) = foreign a db"
proof -
  have none: "filter (\<lambda>r. \<not> of_ref a (dc_repo r) (dc_ref r)) (staged env a (sg_chunks db)) = []"
    "filter (\<lambda>(i, r). \<not> of_ref a (sy_repo r) (sy_ref r)) (staged env a (sg_symbols db)) = []"
    "filter (\<lambda>(i, r). \<not> of_ref a (de_repo r) (de_ref r)) (staged env a (sg_deps db)) = []"
    using assms(2) by (auto simp: owned_def list_all_iff filter_empty_conv)
  have kept: "filter (\<lambda>r. \<not> of_ref a (dc_repo r) (dc_ref r)) (filter (\<lambda>r. \<not> replaced a p (dc_repo r) (dc_ref r) (dc_path r)) rs)
      = filter (\<lambda>r. \<not> of_ref a (dc_repo r) (dc_ref r)) rs"
    "filter (\<lambda>(i, r). \<not> of_ref a (sy_repo r) (sy_ref r)) (filter (\<lambda>(i, r). \<not> replaced a p (sy_repo r) (sy_ref r) (sy_path r)) ys)
      = filter (\<lambda>(i, r). \<not> of_ref a (sy_repo r) (sy_ref r)) ys"
    "filter (\<lambda>(i, r). \<not> of_ref a (de_repo r) (de_ref r)) (filter (\<lambda>(i, r). \<not> replaced a p (de_repo r) (de_ref r) (de_path r)) ds)
      = filter (\<lambda>(i, r). \<not> of_ref a (de_repo r) (de_ref r)) ds" for rs ys ds
    unfolding filter_filter by (rule filter_cong; auto simp: replaced_def)+
  show ?thesis using publish_contents [OF assms(1,3)]
    unfolding contents_of_def start_tx_def foreign_def prod.inject
    by (simp only: tx_state.simps foreign_restamp filter_append none kept append_Nil2 simp_thms)
qed

text \<open>C11: a run touches its own ref only. However it ends, the chunks, symbols and dependencies of every other ref
  and every other repository are the ones that were there.\<close>

theorem other_refs_untouched:
  assumes "undisturbed env" "walks_maps env" "generation_free env a db" "syncRef env a db = (r, db')"
  shows "foreign a db' = foreign a db"
  using assms(4,1)
proof (rule sync_cases)
  fix d s assume d: "index_tables d = index_tables db" "run_steps (confirm_steps env a) (start_tx d) = Inr s" "index_tables db' = index_tables (tx_db s)"
  then obtain s0 s1 s2 where s: "lockJobLease env a (start_tx d) = Inr s0" "count_chunks env a s0 = Inr s1" "upsert_state env a (embedding_revision env) [] s1 = Inr s2"
    and tail: "run_steps (refreshRepositoryMap env a @ [exec env Commit (\<lambda>s. s)]) s2 = Inr s"
    unfolding confirm_steps_def append_Cons append_Nil by (elim run_steps_ConsE)
  have "contents_of s = contents_of s2" using run_keeps [OF map_keep tail] .
  also have "\<dots> = contents_of s0" using s(2,3) by (auto simp: count_chunks_def exec_Inr contents_of_def dest!: upsert_state_Inr)
  also have "s0 = start_tx d" using s(1) by (rule lock_same)
  finally have "foreign a (tx_db s) = foreign a d" by (simp add: contents_of_def foreign_def start_tx_def)
  then show ?thesis using foreign_tables d(1,3) by metis
next
  fix d p i files removed g s
  assume d: "index_tables d = index_tables db" "generation_free env a db \<Longrightarrow> generation_free env a d"
    "gather_files env a files (start_gather env d) = Inr g"
    "run_steps (publish_steps env a (plan_of p i files removed g)) (start_tx (ie_others env (ga_db g))) = Inr s"
    "index_tables db' = index_tables (tx_db s)"
  have "owned env a (ga_db g)" using ownsD [OF owns_gather _ d(3)] free_owned [OF d(2) [OF assms(3)]] by simp
  then have "owned env a (ie_others env (ga_db g))" using assms(1) by (simp add: undisturbed_def owned_def)
  from publish_foreign [OF assms(2) this d(4)] have "foreign a (tx_db s) = foreign a (ie_others env (ga_db g))" .
  moreover have "index_tables (ie_others env (ga_db g)) = index_tables d"
    using quietD(2) [OF quiet_gather d(3)] assms(1) by (simp add: undisturbed_def)
  ultimately show ?thesis using foreign_tables d(1,5) by metis
next
  assume "index_tables db' = index_tables db"
  then show ?thesis by (rule foreign_tables)
qed

theorem other_refs_untouched_witness:
  "\<exists>db'. syncRef (demo_index_env None) demo_sync demo_index = (None, db') \<and> foreign demo_sync db' = foreign demo_sync demo_index"
proof -
  obtain db' where run: "syncRef (demo_index_env None) demo_sync demo_index = (None, db')" using demo_run_full by blast
  from other_refs_untouched [OF demo_free(2,3,1) run] run show ?thesis by blast
qed

section \<open>What the checks do not catch\<close>

text \<open>
  A full run is forced only when the commit has not moved. If the policy, the masking rules or the
  embedding model changed and the commit moved as well, the run is incremental: the files it does not
  name keep the chunks of the old policy, and the state of the ref says they are of the new one.
\<close>

lemma moved_commit_never_full:
  "pr_commit p \<noteq> rf_LatestCommit (sa_ref a) \<Longrightarrow> \<not> forced_full env a p"
  by (simp add: forced_full_def)

lemma policy_change_lost:
  assumes "walks_maps env" "generation_free env a db" "undisturbed env" "syncRef env a db = (None, db')"
    "read_prior env a db = Inr p" "\<not> unchanged env a p" "change_list env a p = Some changes"
    "r \<in> set (ref_chunks a db)" "dc_path r \<notin> set (removed_paths changes)"
  shows "chunk_view r \<in> set (map chunk_view (ref_chunks a db'))"
proof -
  have choice: "choose_files env a p = Inr (True, changed_files changes, removed_paths changes)" using assms(7) by (simp add: choose_files_def)
  from sync_gather_run [OF assms(4-6) choice refl] obtain db1 where
    run: "gather_run env a p True (changed_files changes) (removed_paths changes) db1 = (None, db')" and same: "index_tables db1 = index_tables db"
    "sg_chunks db1 = sg_chunks db" "sg_symbols db1 = sg_symbols db" "sg_deps db1 = sg_deps db" by metis
  then have "generation_free env a db1" "ref_chunks a db1 = ref_chunks a db"
    using assms(2) by (simp_all add: generation_free_def ref_chunks_def index_tables_def)
  then show ?thesis using run_chunks [OF assms(1) _ assms(3) run] assms(8,9) by (simp only:) simp
qed

text \<open>
  A copy, which Bitbucket reports with the path it was copied from, is read as a move: the file that was copied
  has no chunks after the run although it is still there.
\<close>

lemma copied_source_lost:
  assumes "walks_maps env" "generation_free env a db" "undisturbed env" "syncRef env a db = (None, db')"
    "read_prior env a db = Inr p" "\<not> unchanged env a p" "change_list env a p = Some changes"
    "c \<in> set changes" "cg_OldPath c \<noteq> []" "cg_OldPath c \<notin> sf_Path ` set (changed_files changes)"
  shows "cg_OldPath c \<notin> dc_path ` set (ref_chunks a db')"
proof
  assume "cg_OldPath c \<in> dc_path ` set (ref_chunks a db')"
  then have found: "cg_OldPath c \<in> fst ` set (map chunk_view (ref_chunks a db'))" by (simp add: image_image)
  have choice: "choose_files env a p = Inr (True, changed_files changes, removed_paths changes)" using assms(7) by (simp add: choose_files_def)
  from sync_gather_run [OF assms(4-6) choice refl] obtain db1 where
    run: "gather_run env a p True (changed_files changes) (removed_paths changes) db1 = (None, db')" and same: "index_tables db1 = index_tables db"
    "sg_chunks db1 = sg_chunks db" "sg_symbols db1 = sg_symbols db" "sg_deps db1 = sg_deps db" by metis
  have "generation_free env a db1" using assms(2) same by (simp add: generation_free_def)
  from run_chunks [OF assms(1) this assms(3) run]
  have after: "map chunk_view (ref_chunks a db') = map chunk_view (filter (\<lambda>r. dc_path r \<notin> set (removed_paths changes)) (ref_chunks a db1))
      @ concat (map (file_views env a) (changed_files changes))" by simp
  have removed: "cg_OldPath c \<in> set (removed_paths changes)" using assms(8,9) by (auto simp: removed_paths_def removed_fold)
  have "fst v = sf_Path f" if "v \<in> set (file_views env a f)" for v f
    using that by (cases "allowed (ie_policy env) f"; cases "ad_read (ie_adapter env) (snapshot_ref a) (sf_Path f)")
      (simp_all add: file_views_def raw_views_path)
  then show False using found removed assms(10) unfolding after by (auto simp: image_iff)
qed

text \<open>Two chunks of one generation with one id, such as those of a group of Go types, fail the run.\<close>

lemma doubled_chunk_fails:
  "\<not> distinct (map pc_id ps) \<Longrightarrow> \<exists>e. run_steps (map (stage_chunk env a) ps) g = Inl e"
proof -
  have once: "distinct (map pc_id ps) \<and> (\<forall>p \<in> set ps. (generation env a, pc_id p) \<notin> (\<lambda>(gen, r). (gen, dc_id r)) ` set (sg_chunks (ga_db g)))"
    if "run_steps (map (stage_chunk env a) ps) g = Inr g'" for ps g g'
    using that
  proof (induction ps arbitrary: g)
    case (Cons p ps)
    from Cons.prems obtain g1 where g1: "stage_chunk env a p g = Inr g1" "run_steps (map (stage_chunk env a) ps) g1 = Inr g'"
      by (auto split: sum.splits)
    from g1(1) have p: "(generation env a, pc_id p) \<notin> (\<lambda>(gen, r). (gen, dc_id r)) ` set (sg_chunks (ga_db g))"
      and after: "sg_chunks (ga_db g1) = sg_chunks (ga_db g) @ [(generation env a, chunk_row_of env a g p)]"
      by (auto simp: stage_chunk_def on_db_def exec_insert_Inr split: sum.splits)
    have "dc_id (chunk_row_of env a g p) = pc_id p" by (simp add: chunk_row_of_def)
    then show ?case using Cons.IH [OF g1(2)] p unfolding after by (auto simp: image_Un)
  qed simp
  assume "\<not> distinct (map pc_id ps)"
  then show ?thesis using once by (cases "run_steps (map (stage_chunk env a) ps) g") auto
qed

end
