(* ===== verification/DocQuery.thy ===== *)
theory DocQuery
  imports IndexRun Breaker JobQueue
begin

text \<open>
  The answer to a documentation query: \<^verbatim>\<open>Query\<close> of \<^verbatim>\<open>internal/search/service.go\<close> with \<^verbatim>\<open>safeSourceHits\<close>,
  \<^verbatim>\<open>assembleSourceQueryResults\<close>, \<^verbatim>\<open>rankBy\<close>,
    and \<^verbatim>\<open>Tokens\<close> and \<^verbatim>\<open>Cosine\<close> of \<^verbatim>\<open>internal/embedding/local.go\<close>. It reads the
  chunks and the states of refs that theory IndexRun writes and the catalogue of theory Catalog. A
  float64 is its bits, so that the comparisons are those of the machine; the four operations, the
  logarithm and the printing of a percentage are arguments, as are Unicode's letters, the full-text index, the
  search engine, the vector database, the models and the source. What the code reports to the breaker
  and to the metrics is a list of events beside the answer.
\<close>

section \<open>Floating-point numbers\<close>

type_synonym float64 = "64 word"

definition float_negative :: "float64 \<Rightarrow> bool" where
  "float_negative x \<longleftrightarrow> 2 ^ 63 \<le> uint x"

definition float_magnitude :: "float64 \<Rightarrow> int" where
  "float_magnitude x = uint x mod 2 ^ 63"

definition is_nan :: "float64 \<Rightarrow> bool" where
  "is_nan x \<longleftrightarrow> 0x7FF0000000000000 < float_magnitude x"

text \<open>The order of the numbers: by magnitude, negative ones backwards, both zeros alike.\<close>

definition float_key :: "float64 \<Rightarrow> int" where
  "float_key x = (if float_negative x then - float_magnitude x else float_magnitude x)"

definition float_less :: "float64 \<Rightarrow> float64 \<Rightarrow> bool" where
  "float_less a b \<longleftrightarrow> \<not> is_nan a \<and> \<not> is_nan b \<and> float_key a < float_key b"

definition float_differs :: "float64 \<Rightarrow> float64 \<Rightarrow> bool" where
  "float_differs a b \<longleftrightarrow> is_nan a \<or> is_nan b \<or> float_key a \<noteq> float_key b"

text \<open>\<^verbatim>\<open>math.Max(0, x)\<close>.\<close>

definition at_least_zero :: "float64 \<Rightarrow> float64" where
  "at_least_zero x = (if is_nan x then 0x7FF8000000000001 else if float_less 0 x then x else 0)"

record arith =
  fl_add :: "float64 \<Rightarrow> float64 \<Rightarrow> float64"
  fl_mul :: "float64 \<Rightarrow> float64 \<Rightarrow> float64"
  fl_div :: "float64 \<Rightarrow> float64 \<Rightarrow> float64"
  fl_log :: "float64 \<Rightarrow> float64"
  fl_int :: "int \<Rightarrow> float64"
  fl_mul32 :: "32 word \<Rightarrow> 32 word \<Rightarrow> 32 word"
  fl_widen :: "32 word \<Rightarrow> float64"
  fl_percent :: "float64 \<Rightarrow> string"

section \<open>Tokens, vectors and ranking\<close>

definition token_rune :: "(nat \<Rightarrow> bool) \<Rightarrow> nat \<Rightarrow> bool" where
  "token_rune letter r \<longleftrightarrow> letter r \<or> among ''_./:-'' r"

text \<open>The runs of runes of the class, longest first match from the left.\<close>

fun token_runs :: "(nat \<Rightarrow> bool) \<Rightarrow> cell list \<Rightarrow> cell list list" where
  "token_runs letter [] = []"
| "token_runs letter (c # cs) =
     (if \<not> token_rune letter (fst c) then token_runs letter cs
      else case token_runs letter cs of
        [] \<Rightarrow> [[c]]
      | r # rs \<Rightarrow> (if cs \<noteq> [] \<and> token_rune letter (fst (hd cs)) then (c # r) # rs else [c] # r # rs))"

definition Tokens :: "(nat \<Rightarrow> bool) \<Rightarrow> (string \<Rightarrow> string) \<Rightarrow> string \<Rightarrow> string list" where
  "Tokens letter lower t = map text_of (filter (\<lambda>r. 1 < length r) (token_runs letter (cells (lower t))))"

definition unique :: "string list \<Rightarrow> string list" where
  "unique values = rev (remdups (rev values))"

definition Cosine :: "arith \<Rightarrow> vector \<Rightarrow> vector \<Rightarrow> float64" where
  "Cosine m a b =
     (if a = [] \<or> length a \<noteq> length b then 0
      else foldl (\<lambda>dot (x, y). fl_add m dot (fl_widen m (fl_mul32 m x y))) 0 (zip a b))"

definition stored_vector :: "string option \<Rightarrow> vector" where
  "stored_vector v = (case v of None \<Rightarrow> [] | Some raw \<Rightarrow> (case Decode raw of None \<Rightarrow> [] | Some xs \<Rightarrow> xs))"

text \<open>
  \<^verbatim>\<open>sort.SliceStable\<close>: each item moves left past the items it comes before. For a comparison that is an order
  this is what the blocks and merges of the library give as well.
\<close>

fun sift :: "('a \<Rightarrow> 'a \<Rightarrow> bool) \<Rightarrow> 'a \<Rightarrow> 'a list \<Rightarrow> 'a list" where
  "sift lt x [] = [x]"
| "sift lt x (y # ys) = (if lt x y then y # sift lt x ys else x # y # ys)"

definition stable_sort :: "('a \<Rightarrow> 'a \<Rightarrow> bool) \<Rightarrow> 'a list \<Rightarrow> 'a list" where
  "stable_sort lt xs = rev (foldl (\<lambda>acc x. sift lt x acc) [] xs)"

definition ranks_before :: "('a \<Rightarrow> float64) \<Rightarrow> ('a \<Rightarrow> string) \<Rightarrow> 'a \<Rightarrow> 'a \<Rightarrow> bool" where
  "ranks_before score identity a b \<longleftrightarrow>
     (if float_differs (score a) (score b) then float_less (score b) (score a) else identity a < identity b)"

definition rankBy :: "('a \<Rightarrow> float64) \<Rightarrow> ('a \<Rightarrow> string) \<Rightarrow> 'a list \<Rightarrow> 'a list" where
  "rankBy score identity xs = stable_sort (ranks_before score identity) xs"

section \<open>The surroundings of a query\<close>

record search_config =
  cf_KeywordWeight :: float64
  cf_VectorWeight :: float64
  cf_FinalK :: int
  cf_CandidateLimit :: int
  cf_RerankLimit :: int
  cf_SourceQuery :: bool
  cf_Mode :: string
  cf_Revision :: string
  cf_MinimumCoverage :: float64

record query_result =
  qr_Path :: string
  qr_Snippet :: string
  qr_CommitID :: string
  qr_LineStart :: int
  qr_LineEnd :: int

datatype remote_error = ErrSourcePaused | RefUnsupported string | GlobalUnsupported string | SourceError go_error

fun remote_message :: "remote_error \<Rightarrow> string" where
  "remote_message ErrSourcePaused = ''source integration is paused after repeated failures''"
| "remote_message (RefUnsupported t) = t"
| "remote_message (GlobalUnsupported t) = t"
| "remote_message (SourceError e) = error_message e"

fun remote_status :: "remote_error \<Rightarrow> int" where
  "remote_status (SourceError e) = StatusOf e"
| "remote_status _ = 0"

definition not_asked :: "remote_error \<Rightarrow> bool" where
  "not_asked e \<longleftrightarrow> (case e of ErrSourcePaused \<Rightarrow> True | SourceError g \<Rightarrow> errors_is g ErrNotConfigured | _ \<Rightarrow> False)"

definition says_nothing :: "remote_error \<Rightarrow> bool" where
  "says_nothing e \<longleftrightarrow> (case e of GlobalUnsupported _ \<Rightarrow> True | RefUnsupported _ \<Rightarrow> True
     | SourceError g \<Rightarrow> errors_is g ErrNotConfigured \<or> IsNotFound g | ErrSourcePaused \<Rightarrow> False)"

datatype vector_error = VectorNotConfigured | VectorError string

datatype query_event = BreakerTold string "remote_error option" | FallbackTold string

datatype query_stmt = ReadCoverage | ProbeFullText | ReadCandidates | ReadHit string | ReadNeighbours string

text \<open>A searcher of a source: project, repository, ref, query and limit.\<close>

type_synonym searcher = "string \<Rightarrow> string \<Rightarrow> string \<Rightarrow> string \<Rightarrow> int \<Rightarrow> remote_error + query_result list"
type_synonym candidates = "(string \<times> float64) list"

text \<open>
  An optional part is \<open>None\<close> when it is not installed: the search engine, the vector database, the reranker, the
  source loader, the breakers. The catalogue's own faults are those of theory Catalog.
\<close>

record query_env =
  qe_math :: arith
  qe_letter :: "nat \<Rightarrow> bool"
  qe_lower :: "string \<Rightarrow> string"
  qe_quote :: "string \<Rightarrow> string"
  qe_engine :: engine
  qe_catalog_fault :: catalog_faults
  qe_fault :: "query_stmt \<Rightarrow> string option"
  qe_config :: search_config
  qe_keyword :: "(string \<Rightarrow> string \<Rightarrow> string list \<Rightarrow> string \<Rightarrow> int \<Rightarrow> candidates option) option"
  qe_vector :: "(string \<Rightarrow> string \<Rightarrow> string \<Rightarrow> int \<Rightarrow> vector_error + candidates) option"
  qe_embedder :: "string + (string \<Rightarrow> string + vector) option"
  qe_reranker :: "(string \<Rightarrow> string list \<Rightarrow> string + float64 list) option"
  qe_sources :: "(string \<Rightarrow> remote_error + searcher option) option"
  qe_allow :: "string \<Rightarrow> bool"
  qe_breakers :: bool
  qe_fulltext :: "string list \<Rightarrow> (doc_chunk \<Rightarrow> bool) option"
  qe_entropy :: "string \<Rightarrow> bool"

record query_db =
  qd_catalog :: catalog
  qd_name :: "string \<Rightarrow> string"
  qd_chunks :: "doc_chunk list"
  qd_states :: "ref_state list"

datatype query_error =
    QueryForm | QueryUnavailable catalog_error | AuthorizeFailed | StoreFailed string
  | RequiredCoverage string | RequiredEmbedding string | CodeSearchFailed string string string remote_error

text \<open>The repository a query is about.\<close>

record target =
  tg_repo :: string
  tg_name :: string
  tg_default :: string
  tg_source :: string
  tg_project :: string
  tg_slug :: string
  tg_base :: string
  tg_ref :: string

definition of_target :: "target \<Rightarrow> string \<Rightarrow> string \<Rightarrow> bool" where
  "of_target tg repo ref \<longleftrightarrow> repo = tg_repo tg \<and> ref = tg_ref tg"

definition target_chunks :: "target \<Rightarrow> query_db \<Rightarrow> doc_chunk list" where
  "target_chunks tg db = filter (\<lambda>r. of_target tg (dc_repo r) (dc_ref r)) (qd_chunks db)"

section \<open>The configuration a query runs under\<close>

definition UsesEmbeddings :: "search_config \<Rightarrow> bool" where
  "UsesEmbeddings c \<longleftrightarrow> NormalizeRetrievalMode (cf_Mode c) \<noteq> ''keyword-only'' \<and> float_less 0 (cf_VectorWeight c)"

definition RequiresEmbeddings :: "search_config \<Rightarrow> bool" where
  "RequiresEmbeddings c \<longleftrightarrow> NormalizeRetrievalMode (cf_Mode c) = ''hybrid-required''"

text \<open>1, 0.35 and 0.18 as float64.\<close>

abbreviation float_one :: float64 where "float_one \<equiv> 0x3FF0000000000000"
abbreviation float_35 :: float64 where "float_35 \<equiv> 0x3FD6666666666666"
abbreviation float_18 :: float64 where "float_18 \<equiv> 0x3FC70A3D70A3D70A"

definition clamp_config :: "search_config \<Rightarrow> search_config" where
  "clamp_config c0 =
     (let c1 = (if float_less (cf_KeywordWeight c0) 0 then c0\<lparr>cf_KeywordWeight := float_one\<rparr> else c0);
          c2 = (if float_less (cf_VectorWeight c1) 0 then c1\<lparr>cf_VectorWeight := float_35\<rparr> else c1);
          c3 = (if cf_FinalK c2 < 1 \<or> 50 < cf_FinalK c2 then c2\<lparr>cf_FinalK := 8\<rparr> else c2);
          c4 = (if cf_CandidateLimit c3 < 10 \<or> 20000 < cf_CandidateLimit c3 then c3\<lparr>cf_CandidateLimit := 5000\<rparr> else c3);
          c5 = (if cf_RerankLimit c4 < 1 \<or> 100 < cf_RerankLimit c4 then c4\<lparr>cf_RerankLimit := 30\<rparr> else c4) in
      if \<not> UsesEmbeddings c5 then c5\<lparr>cf_VectorWeight := 0, cf_SourceQuery := True\<rparr> else c5)"

definition coverage_percent :: "arith \<Rightarrow> nat \<Rightarrow> nat \<Rightarrow> float64" where
  "coverage_percent m total' embedded =
     (if total' = 0 then 0 else fl_div m (fl_mul m (fl_int m (int embedded)) 0x4059000000000000) (fl_int m (int total')))"

definition coverage_message :: "arith \<Rightarrow> float64 \<Rightarrow> float64 \<Rightarrow> string" where
  "coverage_message m percent minimum =
     ''Embedding coverage '' @ fl_percent m percent @ ''% is below the configured '' @ fl_percent m minimum @ ''% minimum.''"

definition keyword_notice :: string where
  "keyword_notice = '' This answer used keyword/source-query retrieval only.''"

text \<open>The state of the ref, none when there is no row; \<open>Inl\<close> when it cannot be read.\<close>

definition read_coverage :: "query_env \<Rightarrow> target \<Rightarrow> query_db \<Rightarrow> string + nat \<times> nat \<times> string" where
  "read_coverage env tg db =
     (case qe_fault env ReadCoverage of
        Some e \<Rightarrow> Inl e
      | None \<Rightarrow> (case List.find (\<lambda>s. of_target tg (rs_repo s) (rs_ref s)) (qd_states db) of
          None \<Rightarrow> Inr (0, 0, []) | Some s \<Rightarrow> Inr (rs_chunks s, rs_embedded s, rs_embedding s)))"

text \<open>The configuration and the notice after the check of the coverage.\<close>

definition check_coverage ::
    "query_env \<Rightarrow> search_config \<Rightarrow> target \<Rightarrow> query_db \<Rightarrow> query_event list \<times> (query_error + search_config \<times> string)" where
  "check_coverage env c tg db =
     (if \<not> (UsesEmbeddings c \<and> float_less 0 (cf_MinimumCoverage c)) then ([], Inr (c, []))
      else case read_coverage env tg db of
        Inl e \<Rightarrow> ([], Inr (c, []))
      | Inr (total', embedded0, revision) \<Rightarrow>
          (let mismatch = (cf_Revision c \<noteq> [] \<and> revision \<noteq> cf_Revision c);
               embedded = (if mismatch then 0 else embedded0); percent = coverage_percent (qe_math env) total' embedded in
           if \<not> (total' = 0 \<or> float_less percent (cf_MinimumCoverage c)) then ([], Inr (c, []))
           else let base = coverage_message (qe_math env) percent (cf_MinimumCoverage c);
                    message = (if mismatch then ''Indexed embeddings were produced by a different model revision. ''
                      @ base else base) in
             if RequiresEmbeddings c then ([], Inl (RequiredCoverage (qe_lower env message)))
             else ([FallbackTold (if mismatch then ''embedding-revision-mismatch'' else ''coverage-below-threshold'')],
                   Inr (c\<lparr>cf_VectorWeight := 0, cf_SourceQuery := True\<rparr>, message @ keyword_notice))))"

section \<open>Asking the source\<close>

definition source_phrases :: "string list" where
  "source_phrases = [(bytes [236, 134, 140, 236, 138, 164, 32, 234, 178, 128, 236, 131, 137, 237, 149, 180, 32, 236, 164,
    152]), (bytes [236, 134, 140, 236, 138, 164, 32, 234, 178, 128, 236, 131, 137, 237, 149, 180, 236, 164, 152]),
      (bytes [236, 134, 140, 236, 138, 164, 32, 234, 178, 128, 236, 131, 137, 237, 149, 180]), (bytes [236, 134, 140,
        236, 138, 164, 32, 234, 178, 128, 236, 131, 137]),
     (bytes [236, 189, 148, 235, 147, 156, 32, 234, 178, 128, 236, 131, 137, 237, 149, 180, 32, 236, 164, 152]),
       (bytes [236, 189, 148, 235, 147, 156, 32, 234, 178, 128, 236, 131, 137, 237, 149, 180, 236, 164, 152]),
         (bytes [236, 189, 148, 235, 147, 156, 32, 234, 178, 128, 236, 131, 137, 237, 149, 180]), (bytes [236, 189, 148,
           235, 147, 156, 32, 234, 178, 128, 236, 131, 137]),
     (bytes [234, 178, 128, 236, 131, 137, 237, 149, 180, 32, 236, 164, 152]), (bytes [234, 178, 128, 236, 131, 137, 237,
       149, 180, 236, 164, 152]), (bytes [234, 178, 128, 236, 131, 137, 237, 149, 180]), (bytes [236, 176, 190, 236, 149,
         132, 32, 236, 164, 152]), (bytes [236, 176, 190, 236, 149, 132, 236, 164, 152])]"

definition NormalizeSourceQuery :: "string \<Rightarrow> string" where
  "NormalizeSourceQuery query =
     (let normalized = fold (\<lambda>suffix' q. trim_space (trim_suffix q suffix')) source_phrases (trim_space query) in
      if normalized = [] then trim_space query else normalized)"

definition tell_breaker :: "query_env \<Rightarrow> string \<Rightarrow> remote_error option \<Rightarrow> query_event list" where
  "tell_breaker env sourceType e =
     (if \<not> qe_breakers env then []
      else [BreakerTold sourceType (case e of None \<Rightarrow> None | Some x \<Rightarrow> if says_nothing x then None else Some x)])"

definition remoteSource ::
    "query_env \<Rightarrow> string \<Rightarrow> query_event list \<times> (remote_error + searcher option)" where
  "remoteSource env sourceType =
     (case qe_sources env of
        None \<Rightarrow> ([], Inl (SourceError (Plain ''no source connector is configured'')))
      | Some load \<Rightarrow>
          (if qe_breakers env \<and> \<not> qe_allow env sourceType then ([], Inl ErrSourcePaused)
           else case load sourceType of
             Inl e \<Rightarrow> (tell_breaker env sourceType (Some e), Inl e)
           | Inr adapter \<Rightarrow> ([], Inr adapter)))"

text \<open>The chunk nearest to a hit, and at most two others of the file within three lines.\<close>

definition overlaps :: "int \<Rightarrow> int \<Rightarrow> doc_chunk \<Rightarrow> bool" where
  "overlaps from' to' r \<longleftrightarrow> from' \<le> int (dc_end r) \<and> int (dc_start r) \<le> to'"

definition nearest_chunk :: "query_env \<Rightarrow> target \<Rightarrow> query_db \<Rightarrow> string \<Rightarrow> int \<Rightarrow> int \<Rightarrow> doc_chunk option" where
  "nearest_chunk env tg db path lineStart lineEnd =
     (if qe_fault env (ReadHit path) \<noteq> None then None
      else case sort_key (\<lambda>r. (if overlaps lineStart lineEnd r then 0 else 1 :: nat,
        \<bar>int (dc_start r) - lineStart\<bar>))
             (filter (\<lambda>r. dc_path r = path) (target_chunks tg db)) of
        [] \<Rightarrow> None | r # _ \<Rightarrow> Some r)"

definition neighbours :: "query_env \<Rightarrow> target \<Rightarrow> query_db \<Rightarrow> doc_chunk \<Rightarrow> doc_chunk list" where
  "neighbours env tg db r =
     (let rows = filter (\<lambda>x. dc_path x = dc_path r) (target_chunks tg db) in
      case List.find (\<lambda>x. dc_start x = dc_start r) rows of
        None \<Rightarrow> []
      | Some same \<Rightarrow> take 2 (sort_key dc_start (filter (\<lambda>x. dc_id x \<noteq> dc_id same
          \<and> int (dc_start x) \<le> int (dc_end r) + 3 \<and> max 1 (int (dc_start r) - 3) \<le> int (dc_end x)) rows)))"

definition join_neighbours :: "query_env \<Rightarrow> target \<Rightarrow> query_db \<Rightarrow> doc_chunk \<Rightarrow> query_result" where
  "join_neighbours env tg db r =
     (let all' = (if qe_fault env (ReadNeighbours (dc_path r)) \<noteq> None then [r] else sort_key dc_start (r # neighbours env tg db r)) in
      \<lparr>qr_Path = dc_path r, qr_Snippet = join_with [CHR 0x0A, CHR 0x0A] (map dc_content all'),
        qr_CommitID = dc_commit r,
       qr_LineStart = Min (int ` dc_start ` set all'), qr_LineEnd = Max (int ` dc_end ` set all')\<rparr>)"

text \<open>A hit the index does not know is masked and cut; one that holds a private key is dropped.\<close>

definition mask_hit :: "query_env \<Rightarrow> target \<Rightarrow> query_result \<Rightarrow> int \<Rightarrow> int \<Rightarrow> query_result option" where
  "mask_hit env tg hit lineStart lineEnd =
     (let (snippet, finding) = Sanitize (qe_entropy env) (trim_space (qr_Snippet hit)) in
      if finding = ''private_key'' \<or> snippet = [] then None
      else Some (hit\<lparr>qr_Snippet := truncate_text snippet 16000, qr_LineStart := lineStart, qr_LineEnd := lineEnd,
        qr_CommitID := (if qr_CommitID hit = [] then tg_ref tg else qr_CommitID hit)\<rparr>))"

definition safe_hit :: "query_env \<Rightarrow> target \<Rightarrow> query_db \<Rightarrow> query_result \<Rightarrow> query_result option" where
  "safe_hit env tg db hit =
     (let lineStart = max 1 (qr_LineStart hit); lineEnd = max lineStart (qr_LineEnd hit) in
      case nearest_chunk env tg db (qr_Path hit) lineStart lineEnd of
        None \<Rightarrow> mask_hit env tg hit lineStart lineEnd
      | Some r \<Rightarrow> Some (join_neighbours env tg db r))"

fun safe_hits :: "query_env \<Rightarrow> target \<Rightarrow> query_db \<Rightarrow> nat \<Rightarrow> query_result list \<Rightarrow> query_result list \<Rightarrow> query_result list" where
  "safe_hits env tg db limit [] out = out"
| "safe_hits env tg db limit (hit # hits) out =
     (if qr_Path hit = [] \<or> qr_Path hit \<in> qr_Path ` set out then safe_hits env tg db limit hits out
      else case safe_hit env tg db hit of
        None \<Rightarrow> safe_hits env tg db limit hits out
      | Some safe \<Rightarrow> (if length (out @ [safe]) = limit then out
        @ [safe] else safe_hits env tg db limit hits (out @ [safe])))"

definition safeSourceHits :: "query_env \<Rightarrow> target \<Rightarrow> query_db \<Rightarrow> query_result list \<Rightarrow> nat \<Rightarrow> query_result list" where
  "safeSourceHits env tg db remote limit = safe_hits env tg db limit remote []"

text \<open>Bitbucket indexes only default branches: for another ref it is not asked.\<close>

definition ref_limitation :: "(string \<Rightarrow> string) \<Rightarrow> target \<Rightarrow> remote_error option" where
  "ref_limitation quote tg =
     (if tg_source tg = ''bitbucket'' \<and> tg_ref tg \<noteq> tg_default tg then
        Some (RefUnsupported (''source code search does not support the requested ref: Bitbucket indexes only the default branch ''
          @ quote (tg_default tg) @ '', not '' @ quote (tg_ref tg)))
      else None)"

type_synonym remote_answer = "query_result list \<times> remote_error option"

definition remote_documents ::
    "query_env \<Rightarrow> search_config \<Rightarrow> target \<Rightarrow> query_db \<Rightarrow> string \<Rightarrow> query_event list \<times> remote_answer" where
  "remote_documents env c tg db query =
     (case ref_limitation (qe_quote env) tg of
        Some e \<Rightarrow> ([], [], Some e)
      | None \<Rightarrow>
          (if qe_sources env = None then ([], [], None)
           else case remoteSource env (tg_source tg) of
             (events, Inl e) \<Rightarrow> (events, [], Some e)
           | (events, Inr None) \<Rightarrow> (events, [], None)
           | (events, Inr (Some search)) \<Rightarrow>
               (case search (tg_project tg) (tg_slug tg) (tg_ref tg) (NormalizeSourceQuery query) (cf_FinalK c) of
                  Inl e \<Rightarrow> (events @ tell_breaker env (tg_source tg) (Some e), [], Some e)
                | Inr hits \<Rightarrow> (events @ tell_breaker env (tg_source tg) None,
                  safeSourceHits env tg db hits (nat (cf_FinalK c)), None))))"

section \<open>Candidates of the index\<close>

text \<open>A notice about an external part, cut for the answer.\<close>

definition clipText :: "string \<Rightarrow> nat \<Rightarrow> string" where
  "clipText value' limit = (if length value' \<le> limit then value' else take (back_to_rune value' limit) value'
    @ ellipsis)"

definition keyword_candidates :: "query_env \<Rightarrow> search_config \<Rightarrow> target \<Rightarrow> string list \<Rightarrow> string \<Rightarrow> candidates" where
  "keyword_candidates env c tg principals query =
     (case qe_keyword env of
        None \<Rightarrow> []
      | Some load \<Rightarrow>
          (case load (tg_repo tg) (tg_ref tg) principals query (cf_CandidateLimit c) of
             None \<Rightarrow> [] | Some cs \<Rightarrow> filter (\<lambda>(i, _). i \<noteq> []) cs))"

text \<open>The vector database: its candidates, the ids it adds and what is said about it.\<close>

definition new_ids :: "string list \<Rightarrow> string list \<Rightarrow> string list" where
  "new_ids known ids = fold (\<lambda>i acc. if i \<in> set known \<or> i \<in> set acc then acc else acc @ [i]) ids []"

definition vector_failed_note :: "string \<Rightarrow> string" where
  "vector_failed_note e = (bytes [236, 153, 184, 235, 182, 128, 32, 235, 178, 161, 237, 132, 176, 32, 235, 141, 176, 236,
    157, 180, 237, 132, 176, 235, 178, 160, 236, 157, 180, 236, 138, 164, 235, 165, 188, 32, 236, 161, 176, 237, 154,
      140, 237, 149, 152, 236, 167, 128, 32, 235, 170, 187, 237, 149, 180, 32, 236, 131, 137, 236, 157, 184, 235, 144,
        156, 32, 236, 158, 132, 235, 178, 160, 235, 148, 169, 235, 167, 140, 32, 236, 130, 172, 236, 154, 169, 237, 150,
          136, 236, 138, 181, 235, 139, 136, 235, 139, 164, 46, 32, 237, 130, 164, 236, 155, 140, 235, 147, 156, 234,
            176, 128, 32, 234, 178, 185, 236, 185, 152, 236, 167, 128, 32, 236, 149, 138, 235, 138, 148, 32, 237, 155,
              132, 235, 179, 180, 235, 138, 148, 32, 236, 157, 180, 32, 235, 139, 181, 236, 151, 144, 32, 236, 151, 134,
              236, 138, 181, 235, 139, 136, 235, 139, 164] @ '': '') @ clipText e 160"

definition vector_used_note :: "nat \<Rightarrow> nat \<Rightarrow> string" where
  "vector_used_note found added =
     (bytes [236, 153, 184, 235, 182, 128, 32, 235, 178, 161, 237, 132, 176, 32, 235, 141, 176, 236, 157, 180, 237, 132,
       176, 235, 178, 160, 236, 157, 180, 236, 138, 164, 236, 151, 144, 236, 132, 156, 32, 237, 155, 132, 235, 179,
         180] @ '' '') @ itoa_nat found @ (bytes [234, 177, 180, 236, 157, 132, 32, 236, 161, 176, 237, 154, 140, 237,
           150, 136, 234, 179, 160, 44, 32, 234, 183, 184, 32, 236, 164, 145] @ '' '') @ itoa_nat added @ (bytes [234,
             177, 180, 236, 157, 128, 32, 237, 130, 164, 236, 155, 140, 235, 147, 156, 235, 161, 156, 235, 138, 148, 32,
              235, 130, 152, 236, 152, 164, 236, 167, 128, 32, 236, 149, 138, 235, 141, 152, 32, 234, 178, 131, 236, 158,
              133, 235, 139, 136, 235, 139, 164] @ ''.'')"

definition vector_candidates ::
    "query_env \<Rightarrow> search_config \<Rightarrow> target \<Rightarrow> string \<Rightarrow> string list \<Rightarrow> candidates \<times> string list \<times> string" where
  "vector_candidates env c tg query keywordIDs =
     (case qe_vector env of
        None \<Rightarrow> ([], [], [])
      | Some load \<Rightarrow>
          (if \<not> float_less 0 (cf_VectorWeight c) then ([], [], [])
           else case load (tg_repo tg) (tg_ref tg) query (cf_RerankLimit c * 2) of
             Inl VectorNotConfigured \<Rightarrow> ([], [], [])
           | Inl (VectorError e) \<Rightarrow> ([], [], vector_failed_note e)
           | Inr cs \<Rightarrow>
               (if cs = [] then ([], [], [])
                else let known = filter (\<lambda>(i, _). i \<noteq> []) cs; added = new_ids keywordIDs (map fst known) in
                  (known, added, vector_used_note (length cs) (length added)))))"

text \<open>The statement that picks the rows: by id, by the full-text index, by substrings, or all of the ref.\<close>

definition substring_match :: "engine \<Rightarrow> string list \<Rightarrow> doc_chunk \<Rightarrow> bool" where
  "substring_match e terms r \<longleftrightarrow>
     list_ex (\<lambda>term. like_sql e (lower_sql e (dc_heading r @ '' '' @ dc_content r)) (''%'' @ term
       @ ''%'')) (take 5 terms)"

definition fulltext_clause :: "query_env \<Rightarrow> target \<Rightarrow> query_db \<Rightarrow> string list \<Rightarrow> (doc_chunk \<Rightarrow> bool) option" where
  "fulltext_clause env tg db terms =
     (case qe_fulltext env terms of
        None \<Rightarrow> None
      | Some clause \<Rightarrow> (if qe_fault env ProbeFullText = None \<and> filter clause (target_chunks tg db) \<noteq> [] then Some clause else None))"

definition row_clause :: "query_env \<Rightarrow> target \<Rightarrow> query_db \<Rightarrow> string list \<Rightarrow> string list \<Rightarrow> doc_chunk \<Rightarrow> bool" where
  "row_clause env tg db ids terms =
     (if ids \<noteq> [] then (\<lambda>r. dc_id r \<in> set ids)
      else if terms \<noteq> [] then
        (case fulltext_clause env tg db terms of Some clause \<Rightarrow> clause | None \<Rightarrow> substring_match (qe_engine env) terms)
      else (\<lambda>_. True))"

definition candidate_rows :: "query_env \<Rightarrow> search_config \<Rightarrow> target \<Rightarrow> query_db \<Rightarrow> string list \<Rightarrow> string list \<Rightarrow> string + doc_chunk list" where
  "candidate_rows env c tg db ids terms =
     (case qe_fault env ReadCandidates of
        Some e \<Rightarrow> Inl e
      | None \<Rightarrow> Inr (take (nat (cf_CandidateLimit c)) (filter (row_clause env tg db ids terms) (target_chunks tg db))))"

section \<open>Scores\<close>

definition row_tokens :: "query_env \<Rightarrow> doc_chunk \<Rightarrow> string list" where
  "row_tokens env r = Tokens (qe_letter env) (qe_lower env) (dc_heading r @ '' '' @ dc_content r)"

text \<open>The corpus of a query: how many rows, how many tokens in all, and the rows a term occurs in.\<close>

definition total_length :: "query_env \<Rightarrow> doc_chunk list \<Rightarrow> nat" where
  "total_length env rows = sum_list (map (\<lambda>r. length (row_tokens env r)) rows)"

definition document_frequency :: "query_env \<Rightarrow> doc_chunk list \<Rightarrow> string \<Rightarrow> nat" where
  "document_frequency env rows term = length (filter (\<lambda>r. term \<in> set (row_tokens env r)) rows)"

definition average_length :: "query_env \<Rightarrow> doc_chunk list \<Rightarrow> float64" where
  "average_length env rows = fl_div (qe_math env) (fl_int (qe_math env) (int (total_length env rows))) (fl_int (qe_math env) (max 1 (int (length rows))))"

definition term_score :: "arith \<Rightarrow> nat \<Rightarrow> nat \<Rightarrow> float64 \<Rightarrow> nat \<Rightarrow> nat \<Rightarrow> float64" where
  "term_score m n df average len frequency =
     (let f = fl_int m (int frequency); half = 0x3FE0000000000000;
          idf = fl_log m (fl_add m float_one (fl_div m (fl_add m (fl_int m (int n - int df)) half) (fl_add m (fl_int m (int df)) half)));
          lengthNorm = fl_add m 0x3FD0000000000000 (fl_div m (fl_mul m 0x3FE8000000000000 (fl_int m (int len))) average) in
      fl_div m (fl_mul m idf (fl_mul m f 0x400199999999999A)) (fl_add m f (fl_mul m 0x3FF3333333333333 lengthNorm)))"

definition bm25 :: "query_env \<Rightarrow> doc_chunk list \<Rightarrow> string list \<Rightarrow> doc_chunk \<Rightarrow> float64" where
  "bm25 env rows terms r =
     foldl (\<lambda>score term.
         (let frequency = length (filter (\<lambda>t. t = term) (row_tokens env r)) in
          if frequency = 0 then score
          else fl_add (qe_math env) score (term_score (qe_math env) (length rows) (document_frequency env rows term)
            (average_length env rows) (length (row_tokens env r)) frequency)))
       0 terms"

text \<open>The last score a list of candidates gives an id.\<close>

definition given_score :: "candidates \<Rightarrow> string \<Rightarrow> float64 option" where
  "given_score cs i = map_of (rev cs) i"

record scored =
  sd_row :: doc_chunk
  sd_score :: float64

definition vector_score :: "query_env \<Rightarrow> search_config \<Rightarrow> vector \<Rightarrow> candidates \<Rightarrow> doc_chunk \<Rightarrow> float64" where
  "vector_score env c queryVector external r =
     (if float_less 0 (cf_VectorWeight c) \<and> (cf_Revision c = [] \<or> dc_revision r = cf_Revision c) then
        (case given_score external (dc_id r) of Some s \<Rightarrow> s | None \<Rightarrow> Cosine (qe_math env) queryVector (stored_vector (dc_vector r)))
      else 0)"

definition keyword_score :: "query_env \<Rightarrow> doc_chunk list \<Rightarrow> string list \<Rightarrow> candidates \<Rightarrow> doc_chunk \<Rightarrow> float64" where
  "keyword_score env rows terms given r = (case given_score given (dc_id r) of Some s \<Rightarrow> s | None \<Rightarrow> bm25 env rows terms r)"

definition score_rows ::
    "query_env \<Rightarrow> search_config \<Rightarrow> string list \<Rightarrow> candidates \<Rightarrow> vector \<Rightarrow> candidates \<Rightarrow> doc_chunk list \<Rightarrow> scored list" where
  "score_rows env c terms given queryVector external rows =
     concat (map (\<lambda>r. let k = keyword_score env rows terms given r; v = vector_score env c queryVector external r; m = qe_math env in
        if float_less 0 k \<or> float_less float_18 v
        then [\<lparr>sd_row = r,
          sd_score = fl_add m (fl_mul m (cf_KeywordWeight c) k) (fl_mul m (cf_VectorWeight c) (at_least_zero v))\<rparr>] else []) rows)"

definition row_identity :: "scored \<Rightarrow> string" where
  "row_identity h = dc_path (sd_row h) @ [CHR 0x00] @ itoa_nat (dc_start (sd_row h))"

text \<open>The reranker gives the first rows new scores; the others keep their place.\<close>

definition rerank_failed_note :: "string \<Rightarrow> string" where
  "rerank_failed_note e = (bytes [236, 158, 172, 236, 136, 156, 236, 156, 132, 32, 235, 170, 168, 235, 141, 184, 236,
    157, 132, 32, 237, 152, 184, 236, 182, 156, 237, 149, 152, 236, 167, 128, 32, 235, 170, 187, 237, 149, 180, 32, 234,
      178, 128, 236, 131, 137, 32, 236, 160, 144, 236, 136, 152, 32, 236, 136, 156, 236, 132, 156, 32, 234, 183, 184,
        235, 140, 128, 235, 161, 156, 236, 158, 133, 235, 139, 136, 235, 139, 164] @ '': '') @ clipText e 160"

definition rerank_count_note :: "nat \<Rightarrow> nat \<Rightarrow> string" where
  "rerank_count_note limit given = (bytes [236, 158, 172, 236, 136, 156, 236, 156, 132, 32, 235, 170, 168, 235, 141, 184,
    236, 157, 180] @ '' '') @ itoa_nat limit @ (bytes [234, 176, 156, 32, 235, 172, 184, 236, 132, 156, 236, 151, 144]
      @ '' '') @ itoa_nat given @ (bytes [234, 176, 156, 32, 236, 160, 144, 236, 136, 152, 235, 165, 188, 32, 235, 143,
        140, 235, 160, 164, 236, 164, 152, 32, 236, 136, 156, 236, 132, 156, 235, 165, 188, 32, 235, 176, 148, 234, 190,
          184, 236, 167, 128, 32, 236, 149, 138, 236, 149, 152, 236, 138, 181, 235, 139, 136, 235, 139, 164] @ ''.'')"

definition reranked_note :: "nat \<Rightarrow> string" where
  "reranked_note limit = (bytes [236, 131, 129, 236, 156, 132] @ '' '') @ itoa_nat limit @ (bytes [234, 177, 180, 236,
    157, 128, 32, 236, 158, 172, 236, 136, 156, 236, 156, 132, 32, 235, 170, 168, 235, 141, 184, 32, 236, 160, 144, 236,
      136, 152, 235, 161, 156, 32, 236, 160, 149, 235, 160, 172, 237, 150, 136, 236, 138, 181, 235, 139, 136, 235, 139,
        164] @ ''.'')"

definition rerank_rows :: "query_env \<Rightarrow> search_config \<Rightarrow> string \<Rightarrow> scored list \<Rightarrow> scored list \<times> string" where
  "rerank_rows env c query hits =
     (case qe_reranker env of
        None \<Rightarrow> (hits, [])
      | Some rerank \<Rightarrow>
          (if hits = [] then (hits, [])
           else let limit = min (length hits) (nat (cf_RerankLimit c));
                    documents = map (\<lambda>h. dc_heading (sd_row h) @ [CHR 0x0A]
                      @ dc_content (sd_row h)) (take limit hits) in
             case rerank query documents of
               Inl e \<Rightarrow> (hits, rerank_failed_note e)
             | Inr scores \<Rightarrow>
                 (if length scores \<noteq> limit then (hits, rerank_count_note limit (length scores))
                  else (rankBy sd_score row_identity (map (\<lambda>(h,
                    s). h\<lparr>sd_score := s\<rparr>) (zip (take limit hits) scores)) @ drop limit hits,
                        reranked_note limit))))"

section \<open>The query's own vector\<close>

text \<open>The configuration, the vector, the external scores and the notice that the scores are computed with.\<close>

definition embed_query ::
    "query_env \<Rightarrow> search_config \<Rightarrow> string \<Rightarrow> candidates \<Rightarrow> string
     \<Rightarrow> query_event list \<times> (query_error + search_config \<times> vector \<times> candidates \<times> string)" where
  "embed_query env c query external notice =
     (if \<not> float_less 0 (cf_VectorWeight c) then ([], Inr (c, [], external, notice))
      else let (reason, answer) =
                 (case qe_embedder env of
                    Inl e \<Rightarrow> (''provider-unavailable'', Inl e)
                  | Inr None \<Rightarrow> (''provider-unavailable'', Inr [])
                  | Inr (Some model) \<Rightarrow> (''query-embedding-failed'', model query)) in
        case answer of
          Inl e \<Rightarrow>
            (if RequiresEmbeddings c then ([], Inl (RequiredEmbedding e))
             else ([FallbackTold reason], Inr (c\<lparr>cf_VectorWeight := 0\<rparr>, [], [],
               ''Embedding retrieval was unavailable, so this answer used keyword/source-query retrieval only.'')))
        | Inr v \<Rightarrow>
            (if v \<noteq> [] then ([], Inr (c, v, external, notice))
             else if RequiresEmbeddings c then ([], Inl (RequiredEmbedding ''embedding provider returned an empty vector''))
             else ([FallbackTold reason], Inr (c\<lparr>cf_VectorWeight := 0\<rparr>, [], [],
               ''Embedding retrieval was unavailable, so this answer used keyword/source-query retrieval only.''))))"

section \<open>The answer as text\<close>

definition newline2 :: string where "newline2 = [CHR 0x0A, CHR 0x0A]"

definition section_text :: "string \<Rightarrow> string \<Rightarrow> string \<Rightarrow> string \<Rightarrow> string \<Rightarrow> string \<Rightarrow> int \<Rightarrow> int \<Rightarrow> string" where
  "section_text heading content scheme location commit path from' to' =
     ''## '' @ heading @ newline2 @ content @ newline2 @ ''Source: `'' @ scheme @ ''://'' @ location @ ''@'' @ commit
       @ ''/'' @ path
       @ ''#L'' @ itoa from' @ ''-L'' @ itoa to' @ ''`'' @ newline2"

definition source_section :: "string \<Rightarrow> string \<Rightarrow> string \<Rightarrow> query_result \<Rightarrow> string" where
  "source_section sourceType location ref hit =
     (let commit = (if qr_CommitID hit = [] then ref else qr_CommitID hit);
          snippet0 = truncate_text (trim_space (qr_Snippet hit)) 16000;
          snippet = (if snippet0 = [] then ''Matched by the repository source query API.'' else snippet0) in
      section_text (qr_Path hit) snippet sourceType location commit (qr_Path hit) (max 1 (qr_LineStart hit))
        (max (max 1 (qr_LineStart hit)) (qr_LineEnd hit)))"

definition failover_notice :: "string \<Rightarrow> string \<Rightarrow> string" where
  "failover_notice sourceType ref =
     ''> Served live from the '' @ sourceType @ '' code search API because ref `'' @ ref
       @ ''` has no local index yet. The repository may still be indexing; line ranges come from the remote match.''
         @ newline2"

definition assembleSourceQueryResults :: "target \<Rightarrow> query_result list \<Rightarrow> bool \<Rightarrow> string" where
  "assembleSourceQueryResults tg hits failover =
     ''# '' @ tg_name tg @ '' (`'' @ tg_base tg @ ''`)'' @ newline2
     @ (if failover then failover_notice (tg_source tg) (tg_ref tg) else [])
     @ concat (map (source_section (tg_source tg) (tg_project tg @ ''/'' @ tg_slug tg) (tg_ref tg)) hits)"

definition quoted_line :: "string \<Rightarrow> string" where
  "quoted_line t = ''> '' @ t @ newline2"

definition live_notice :: "target \<Rightarrow> remote_error \<Rightarrow> string" where
  "live_notice tg e =
     (case e of
        RefUnsupported _ \<Rightarrow> quoted_line (''Bitbucket code search indexes only the default branch; this answer used locally indexed content for `''
          @ tg_ref tg @ ''`.'')
      | _ \<Rightarrow> (if 0 < remote_status e
          then quoted_line (''Live '' @ tg_source tg @ '' code search was unavailable (HTTP '' @ itoa (remote_status e)
            @ ''); this answer used locally indexed content.'')
          else quoted_line (''Live '' @ tg_source tg
            @ '' code search was unavailable; this answer used locally indexed content.'')))"

definition chunk_section :: "target \<Rightarrow> scored \<Rightarrow> string" where
  "chunk_section tg h =
     section_text (dc_heading (sd_row h)) (dc_content (sd_row h)) (tg_source tg) (trim_prefix (tg_base tg) ''/'') (dc_commit (sd_row h))
       (dc_path (sd_row h)) (int (dc_start (sd_row h))) (int (dc_end (sd_row h)))"

definition render_hits ::
    "target \<Rightarrow> search_config \<Rightarrow> remote_error option \<Rightarrow> string \<Rightarrow> string \<Rightarrow> string \<Rightarrow> scored list \<Rightarrow> string" where
  "render_hits tg c remote vectorNote rerankNote notice hits =
     ''# '' @ tg_name tg @ newline2
     @ (case remote of None \<Rightarrow> [] | Some e \<Rightarrow> live_notice tg e)
     @ (if vectorNote \<noteq> [] then quoted_line vectorNote else [])
     @ (if rerankNote \<noteq> [] then quoted_line rerankNote else [])
     @ (if notice \<noteq> [] then quoted_line notice
        else if cf_Mode c = ''keyword-only''
        then quoted_line ''Embedding use is disabled by the administrator; this answer used keyword/source-query retrieval.'' else [])
     @ concat (map (chunk_section tg) hits)"

definition no_match_text :: "target \<Rightarrow> remote_error option \<Rightarrow> string" where
  "no_match_text tg remote =
     ''No indexed documentation matched the query in '' @ tg_name tg @ '' at '' @ tg_ref tg
     @ ''. The repository may still be indexing; try `search-code` with the same term, another term, or another version.''
     @ (case remote of
          Some e \<Rightarrow> newline2 @ ''> The '' @ tg_source tg
            @ '' code search API was not asked as a fallback: '' @ remote_message e
            @ ''. What is above comes from the index alone.''
        | None \<Rightarrow> '' The '' @ tg_source tg @ '' code search API returned nothing for it either.'')"

section \<open>The query\<close>

text \<open>What the index alone gives: the hits in order and the notes about them.\<close>

record local_answer =
  la_hits :: "scored list"
  la_vector_note :: string
  la_rerank_note :: string
  la_notice :: string

definition query_index ::
    "query_env \<Rightarrow> search_config \<Rightarrow> target \<Rightarrow> query_db \<Rightarrow> string list \<Rightarrow> string \<Rightarrow> string \<Rightarrow> query_event list \<times> (query_error + local_answer)" where
  "query_index env c tg db principals query notice0 =
     (let terms = unique (Tokens (qe_letter env) (qe_lower env) query);
          given = keyword_candidates env c tg principals query;
          (external0, added, vectorNote) = vector_candidates env c tg query (map fst given) in
      case candidate_rows env c tg db (map fst given @ added) terms of
        Inl e \<Rightarrow> ([], Inl (StoreFailed e))
      | Inr rows \<Rightarrow>
          (case embed_query env c query external0 notice0 of
             (events, Inl e) \<Rightarrow> (events, Inl e)
           | (events, Inr (c1, queryVector, external, notice)) \<Rightarrow>
               (let ranked = rankBy sd_score row_identity (score_rows env c1 terms given queryVector external rows);
                    (hits, rerankNote) = rerank_rows env c1 query ranked in
                (events, Inr \<lparr>la_hits = take (nat (cf_FinalK c1)) hits, la_vector_note = vectorNote,
                  la_rerank_note = rerankNote, la_notice = notice\<rparr>))))"

text \<open>The source when the index has nothing.\<close>

definition fail_over :: "target \<Rightarrow> remote_answer \<Rightarrow> query_error + string" where
  "fail_over tg = (\<lambda>(hits, remote).
     if hits \<noteq> [] then Inr (assembleSourceQueryResults tg hits True)
     else case remote of
       Some e \<Rightarrow> (if not_asked e then Inr (no_match_text tg remote) else Inl (CodeSearchFailed (tg_source tg) (tg_base tg) (tg_ref tg) e))
     | None \<Rightarrow> Inr (no_match_text tg None))"

text \<open>\<open>asked\<close> is the answer of the source when it has been asked first.\<close>

definition answer_from_index ::
    "query_env \<Rightarrow> search_config \<Rightarrow> target \<Rightarrow> query_db \<Rightarrow> string list \<Rightarrow> string \<Rightarrow> string \<Rightarrow> remote_answer option
     \<Rightarrow> query_event list \<times> (query_error + string)" where
  "answer_from_index env c tg db principals query notice asked =
     (case query_index env c tg db principals query notice of
        (events, Inl e) \<Rightarrow> (events, Inl e)
      | (events, Inr found) \<Rightarrow>
          (if la_hits found = [] then
             (case asked of
                Some answer \<Rightarrow> (events, fail_over tg answer)
              | None \<Rightarrow> (let (more, answer) = remote_documents env c tg db query in (events @ more,
                fail_over tg answer)))
           else (events, Inr (render_hits tg c (case asked of Some (_,
             e) \<Rightarrow> e | None \<Rightarrow> ref_limitation (qe_quote env) tg)
             (la_vector_note found) (la_rerank_note found) (la_notice found) (la_hits found)))))"

definition answer_query ::
    "query_env \<Rightarrow> search_config \<Rightarrow> target \<Rightarrow> query_db \<Rightarrow> string list \<Rightarrow> string \<Rightarrow> string \<Rightarrow> query_event list \<times> (query_error + string)" where
  "answer_query env c tg db principals query notice =
     (if \<not> cf_SourceQuery c then answer_from_index env c tg db principals query notice None
      else let (events, hits, remote) = remote_documents env c tg db query in
        if hits \<noteq> [] then
          (events, Inr (assembleSourceQueryResults tg hits False
            @ (if notice \<noteq> [] then [CHR 0x0A] @ ''> Retrieval notice: '' @ notice @ [CHR 0x0A] else [])))
        else let (more, answer) = answer_from_index env c tg db principals query notice (Some (hits,
          remote)) in (events @ more, answer))"

definition query_parts :: "string \<Rightarrow> (string \<times> string option) option" where
  "query_parts libraryID =
     (case split_on CHR ''/'' (trim_prefix libraryID ''/'') of
        [a, b] \<Rightarrow> Some (''/'' @ a @ ''/'' @ b, None)
      | [a, b, v] \<Rightarrow> Some (''/'' @ a @ ''/'' @ b, Some v)
      | _ \<Rightarrow> None)"

definition target_of :: "query_db \<Rightarrow> catalog_repo \<Rightarrow> string \<Rightarrow> string option \<Rightarrow> target" where
  "target_of db r baseID version =
     \<lparr>tg_repo = cr_id r, tg_name = qd_name db (cr_id r), tg_default = cr_branch r, tg_source = cr_source r,
       tg_project = cr_project r,
      tg_slug = cr_slug r, tg_base = baseID,
        tg_ref = (case version of None \<Rightarrow> cr_branch r | Some v \<Rightarrow> v)\<rparr>"

definition query_target ::
    "query_env \<Rightarrow> target \<Rightarrow> query_db \<Rightarrow> string list \<Rightarrow> string \<Rightarrow> query_event list \<times> (query_error + string)" where
  "query_target env tg db principals query =
     (case check_coverage env (clamp_config (qe_config env)) tg db of
        (events, Inl e) \<Rightarrow> (events, Inl e)
      | (events, Inr (c, notice)) \<Rightarrow>
          (let (more, answer) = answer_query env c tg db principals query notice in (events @ more, answer)))"

definition Query ::
    "query_env \<Rightarrow> query_db \<Rightarrow> string list \<Rightarrow> string \<Rightarrow> string \<Rightarrow> query_event list \<times> (query_error + string)" where
  "Query env db principals libraryID query =
     (case query_parts libraryID of
        None \<Rightarrow> ([], Inl QueryForm)
      | Some (baseID, version) \<Rightarrow>
          (if trim_space query = [] then ([], Inl QueryForm)
           else if principals = [] then ([],
             Inl (QueryUnavailable (unavailable (qe_catalog_fault env) (qd_catalog db) principals ''library'')))
           else if qe_catalog_fault env Authorize then ([], Inl AuthorizeFailed)
           else case library_repo principals (qd_catalog db) baseID of
             None \<Rightarrow> ([],
               Inl (QueryUnavailable (unavailable (qe_catalog_fault env) (qd_catalog db) principals ''library'')))
           | Some r \<Rightarrow>
               query_target env (target_of db r baseID version) db principals query))"

end
