(* ===== verification/QueryGuarantees.thy ===== *)
theory QueryGuarantees
  imports DocQuery FileSearch
begin

text \<open>
  What a documentation query guarantees: it answers as if the rows of repositories the caller may not read did
  not exist, what it cites is what the index holds or masked text of the source, its ranking does
  not depend on the order of rows, and the retrieval mode is kept.
\<close>

section \<open>Ranking\<close>

lemma sift_mset: "mset (sift lt x acc) = add_mset x (mset acc)"
  by (induction acc) auto

lemma sift_set: "set (sift lt x acc) = insert x (set acc)"
  by (induction acc) auto

lemma sift_falling:
  assumes "\<And>y. y \<in> set acc \<Longrightarrow> lt x y \<longleftrightarrow> key x < (key y :: 'k :: linorder)" "sorted_wrt (\<lambda>a b. key b \<le> key a) acc"
  shows "sorted_wrt (\<lambda>a b. key b \<le> key a) (sift lt x acc)"
  using assms by (induction acc) (auto simp: sift_set intro: order_trans)

lemma sift_class:
  assumes "\<And>y. y \<in> set acc \<Longrightarrow> lt x y \<longleftrightarrow> key x < (key y :: 'k :: linorder)"
  shows "filter (\<lambda>z. key z = k) (sift lt x acc) = filter (\<lambda>z. key z = k) (x # acc)"
  using assms by (induction acc) auto

text \<open>A comparison that is the order of a key sorts by the key.\<close>

lemma stable_sort_key:
  assumes "\<And>x y. x \<in> set xs \<Longrightarrow> y \<in> set xs \<Longrightarrow> lt x y \<longleftrightarrow> key x < (key y :: 'k :: linorder)"
  shows "stable_sort lt xs = sort_key key xs"
proof -
  have part: "mset acc = mset ys \<and> sorted_wrt (\<lambda>a b. key b \<le> key a) acc
      \<and> (\<forall>k. filter (\<lambda>z. key z = k) acc = rev (filter (\<lambda>z. key z = k) ys))"
    if "acc = foldl (\<lambda>acc x. sift lt x acc) [] ys" "set ys \<subseteq> set xs" for acc ys
    using that
  proof (induction ys arbitrary: acc rule: rev_induct)
    case (snoc y ys)
    define prev where "prev = foldl (\<lambda>acc x. sift lt x acc) [] ys"
    have IH: "mset prev = mset ys" "sorted_wrt (\<lambda>a b. key b \<le> key a) prev"
      "\<And>k. filter (\<lambda>z. key z = k) prev = rev (filter (\<lambda>z. key z = k) ys)"
      using snoc.IH [OF prev_def] snoc.prems(2) by auto
    have "set prev \<subseteq> set xs" using IH(1) snoc.prems(2) by (auto dest: mset_eq_setD)
    then have lt: "\<And>z. z \<in> set prev \<Longrightarrow> lt y z \<longleftrightarrow> key y < key z" using assms snoc.prems(2) by auto
    have acc: "acc = sift lt y prev" using snoc.prems(1) by (simp add: prev_def)
    show ?case unfolding acc using sift_falling [where key = key and lt = lt, OF lt IH(2)] sift_class [where key = key and lt = lt, OF lt] IH(1,3)
      by (simp add: sift_mset)
  qed simp
  define acc where "acc = foldl (\<lambda>acc x. sift lt x acc) [] xs"
  note whole = part [OF acc_def order_refl]
  have "sort_key key xs = rev acc"
  proof (rule properties_for_sort_key)
    show "mset (rev acc) = mset xs" using whole by simp
    show "filter (\<lambda>x. key k = key x) (rev acc) = filter (\<lambda>x. key k = key x) xs" if "k \<in> set (rev acc)" for k
      using whole by (simp add: rev_filter [symmetric] eq_commute [of "key k"])
    show "sorted (map key (rev acc))" using whole by (simp add: sorted_map sorted_wrt_rev)
  qed
  then show ?thesis by (simp add: stable_sort_def acc_def)
qed

definition rank_key :: "('a \<Rightarrow> float64) \<Rightarrow> ('a \<Rightarrow> string) \<Rightarrow> 'a \<Rightarrow> int \<times> string" where
  "rank_key score identity x = (- float_key (score x), identity x)"

lemma ranks_before_key:
  "\<not> is_nan (score a) \<Longrightarrow> \<not> is_nan (score b) \<Longrightarrow>
     ranks_before score identity a b \<longleftrightarrow> rank_key score identity a < rank_key score identity b"
  by (auto simp: ranks_before_def rank_key_def float_differs_def float_less_def)

lemma rankBy_sorts:
  assumes "list_all (\<lambda>x. \<not> is_nan (score x)) xs"
  shows "rankBy score identity xs = sort_key (rank_key score identity) xs"
  unfolding rankBy_def using assms by (intro stable_sort_key ranks_before_key) (auto simp: list_all_iff)

lemma rankBy_mset: "mset (rankBy score identity xs) = mset xs"
proof -
  have "mset (foldl (\<lambda>acc x. sift lt x acc) ys xs) = mset ys + mset xs" for lt and ys xs :: "'a list"
    by (induction xs arbitrary: ys) (auto simp: sift_mset)
  then show ?thesis by (simp add: rankBy_def stable_sort_def)
qed

lemma rankBy_set [simp]: "set (rankBy score identity xs) = set xs" "length (rankBy score identity xs) = length xs"
  using rankBy_mset [of score identity xs] by (auto dest: mset_eq_setD mset_eq_length)

lemma sort_key_permuted:
  assumes "mset xs = mset ys" "inj_on key (set xs)"
  shows "sort_key (key :: 'a \<Rightarrow> 'k :: linorder) xs = sort_key key ys"
proof -
  have mapped: "map key (sort_key key zs) = sort (map key zs)" for zs
    by (rule properties_for_sort [symmetric]) simp_all
  have "mset (map key xs) = mset (map key ys)" using assms(1) by simp
  then have "sort (map key xs) = sort (map key ys)" by (metis properties_for_sort mset_sort sorted_sort)
  then have "map key (sort_key key xs) = map key (sort_key key ys)" by (simp only: mapped)
  moreover have "set (sort_key key ys) = set xs" using mset_eq_setD [OF assms(1)] by simp
  ultimately show ?thesis using assms(2) by (intro map_inj_on [of key]) simp_all
qed

text \<open>A permutation of the rows permutes the scores and nothing else.\<close>

lemma corpus_permuted:
  assumes "mset rows = mset rows'"
  shows "bm25 env rows terms r = bm25 env rows' terms r"
proof -
  have "total_length env rows = total_length env rows'"
    unfolding total_length_def by (metis assms mset_map sum_mset_sum_list)
  moreover have "document_frequency env rows term = document_frequency env rows' term" for "term"
    unfolding document_frequency_def by (metis assms mset_filter size_mset)
  moreover have "length rows = length rows'" by (rule mset_eq_length [OF assms])
  ultimately show ?thesis unfolding bm25_def average_length_def by (simp only:)
qed

lemma score_rows_mset:
  assumes "mset rows = mset rows'"
  shows "mset (score_rows env c terms given v external rows) = mset (score_rows env c terms given v external rows')"
proof -
  have same: "keyword_score env rows terms given r = keyword_score env rows' terms given r" for r
    unfolding keyword_score_def corpus_permuted [OF assms] ..
  have concat': "mset (concat (map f xs)) = \<Sum>\<^sub># (image_mset (mset \<circ> f) (mset xs))" for f :: "doc_chunk \<Rightarrow> scored list" and xs
    by (induction xs) auto
  show ?thesis unfolding score_rows_def same concat' assms ..
qed

lemma score_rows_row:
  "h \<in> set (score_rows env c terms given v external rows) \<Longrightarrow> sd_row h \<in> set rows"
  by (auto simp: score_rows_def Let_def split: if_splits)

lemma score_rows_inj:
  "h \<in> set (score_rows env c terms given v external rows) \<Longrightarrow> h' \<in> set (score_rows env c terms given v external rows) \<Longrightarrow>
     sd_row h = sd_row h' \<Longrightarrow> h = h'"
  by (auto simp: score_rows_def Let_def split: if_splits)

definition row_name :: "doc_chunk \<Rightarrow> string" where
  "row_name r = dc_path r @ [CHR 0x00] @ itoa_nat (dc_start r)"

text \<open>The ranking is the same on both database engines. Whatever the order in which the rows are read, the
  hits are ranked alike, as long as no two of the rows start at one line of one file and no score is
  not a number.\<close>

theorem ranking_independent_of_row_order:
  assumes "mset rows = mset rows'" "distinct (map row_name rows)"
    "list_all (\<lambda>h. \<not> is_nan (sd_score h)) (score_rows env c terms given v external rows)"
  shows "rankBy sd_score row_identity (score_rows env c terms given v external rows)
       = rankBy sd_score row_identity (score_rows env c terms given v external rows')"
proof -
  define hs hs' where "hs = score_rows env c terms given v external rows" and "hs' = score_rows env c terms given v external rows'"
  have hs: "mset hs = mset hs'" unfolding hs_def hs'_def by (rule score_rows_mset [OF assms(1)])
  have numbers: "list_all (\<lambda>h. \<not> is_nan (sd_score h)) hs'" "list_all (\<lambda>h. \<not> is_nan (sd_score h)) hs"
    using assms(3) mset_eq_setD [OF hs] by (simp_all add: hs_def list_all_iff)
  have "inj_on (rank_key sd_score row_identity) (set hs)"
  proof (rule inj_onI)
    fix h h' assume h: "h \<in> set hs" "h' \<in> set hs" "rank_key sd_score row_identity h = rank_key sd_score row_identity h'"
    then have "row_name (sd_row h) = row_name (sd_row h')" by (simp add: rank_key_def row_identity_def row_name_def)
    moreover have "sd_row h \<in> set rows" "sd_row h' \<in> set rows" using h(1,2) score_rows_row unfolding hs_def by blast+
    ultimately have "sd_row h = sd_row h'" using assms(2) by (auto simp: distinct_map inj_on_def)
    then show "h = h'" using h(1,2) score_rows_inj unfolding hs_def by blast
  qed
  then have "sort_key (rank_key sd_score row_identity) hs = sort_key (rank_key sd_score row_identity) hs'" by (rule sort_key_permuted [OF hs])
  then show ?thesis using rankBy_sorts [OF numbers(1)] rankBy_sorts [OF numbers(2)] unfolding hs_def hs'_def by simp
qed

section \<open>Only what the caller may read\<close>

text \<open>The part of the tables that belongs to repositories the caller may read.\<close>

definition visible_query :: "string list \<Rightarrow> query_db \<Rightarrow> query_db" where
  "visible_query principals db =
     (let ids = readable_ids principals (qd_catalog db) in
      \<lparr>qd_catalog = visible_part principals (qd_catalog db), qd_name = (\<lambda>i. if i \<in> ids then qd_name db i else []),
       qd_chunks = filter (\<lambda>r. dc_repo r \<in> ids) (qd_chunks db), qd_states = filter (\<lambda>s. rs_repo s \<in> ids) (qd_states db)\<rparr>)"

text \<open>Two databases that hold the same of one repository at one ref.\<close>

definition same_target :: "target \<Rightarrow> query_db \<Rightarrow> query_db \<Rightarrow> bool" where
  "same_target tg db db' \<longleftrightarrow> target_chunks tg db = target_chunks tg db'
     \<and> List.find (\<lambda>s. of_target tg (rs_repo s) (rs_ref s)) (qd_states db) = List.find (\<lambda>s. of_target tg (rs_repo s) (rs_ref s)) (qd_states db')"

lemma visible_target:
  assumes "tg_repo tg \<in> readable_ids principals (qd_catalog db)"
  shows "same_target tg (visible_query principals db) db"
  using assms unfolding same_target_def visible_query_def target_chunks_def Let_def
  by (simp add: of_target_def) (intro conjI filter_cong find_absorb refl; auto)

lemma safe_hits_target:
  assumes "same_target tg db db'"
  shows "safe_hits env tg db limit hits out = safe_hits env tg db' limit hits out"
proof -
  have same: "target_chunks tg db = target_chunks tg db'" using assms by (simp add: same_target_def)
  have "safe_hit env tg db hit = safe_hit env tg db' hit" for hit
    unfolding safe_hit_def nearest_chunk_def join_neighbours_def neighbours_def same ..
  then show ?thesis by (induction hits arbitrary: out) (auto split: option.split)
qed

lemma answer_target:
  assumes "same_target tg db db'"
  shows "answer_query env c tg db principals query notice = answer_query env c tg db' principals query notice"
    and "query_target env tg db principals query = query_target env tg db' principals query"
proof -
  have same: "target_chunks tg db = target_chunks tg db'" and state: "List.find (\<lambda>s. of_target tg (rs_repo s) (rs_ref s)) (qd_states db)
      = List.find (\<lambda>s. of_target tg (rs_repo s) (rs_ref s)) (qd_states db')" using assms by (simp_all add: same_target_def)
  have hits: "remote_documents env c tg db query = remote_documents env c tg db' query" for c
    unfolding remote_documents_def safeSourceHits_def safe_hits_target [OF assms] ..
  have index: "query_index env c tg db principals query notice = query_index env c tg db' principals query notice" for c notice
    unfolding query_index_def candidate_rows_def row_clause_def fulltext_clause_def same ..
  have answer: "answer_query env c tg db principals query notice = answer_query env c tg db' principals query notice" for c notice
    unfolding answer_query_def answer_from_index_def hits index ..
  then show "answer_query env c tg db principals query notice = answer_query env c tg db' principals query notice" .
  show "query_target env tg db principals query = query_target env tg db' principals query"
    unfolding query_target_def check_coverage_def read_coverage_def state answer ..
qed

text \<open>C8: a query answers only from what the caller may read. To a caller who can read anything, the answer, the
  errors and what is reported are those of a database without the rows of the other repositories,
  whatever the search engine, the vector database, the models and the source answer.\<close>

theorem query_only_from_readable:
  assumes "reads_something principals (qd_catalog db)"
  shows "Query env (visible_query principals db) principals libraryID query = Query env db principals libraryID query"
proof -
  have catalog: "qd_catalog (visible_query principals db) = visible_part principals (qd_catalog db)" by (simp add: visible_query_def Let_def)
  have unavailable': "unavailable (qe_catalog_fault env) (visible_part principals (qd_catalog db)) principals noun
      = unavailable (qe_catalog_fault env) (qd_catalog db) principals noun" for noun
    by (rule unavailable_visible(2) [OF assms])
  show ?thesis
  proof (cases "query_parts libraryID")
    case (Some parts)
    obtain baseID version where parts: "parts = (baseID, version)" by (cases parts)
    show ?thesis
    proof (cases "library_repo principals (qd_catalog db) baseID")
      case None
      then show ?thesis unfolding Query_def catalog unavailable' library_repo_visible using Some parts by simp
    next
      case (Some r)
      then have readable: "cr_id r \<in> readable_ids principals (qd_catalog db)" by (simp add: library_repo_readable)
      then have tg: "target_of (visible_query principals db) r baseID version = target_of db r baseID version"
        by (simp add: target_of_def visible_query_def Let_def)
      have same: "same_target (target_of db r baseID version) (visible_query principals db) db"
        by (rule visible_target) (simp add: target_of_def readable)
      show ?thesis unfolding Query_def catalog unavailable' library_repo_visible \<open>query_parts libraryID = _\<close> parts
        using Some tg answer_target [OF same] by (simp only: option.case prod.case Let_def)
    qed
  qed (simp add: Query_def)
qed

section \<open>What an answer cites\<close>

text \<open>A hit whose text is put together from chunks of its file, and one whose text is masked.\<close>

definition from_index :: "target \<Rightarrow> query_db \<Rightarrow> query_result \<Rightarrow> bool" where
  "from_index tg db hit \<longleftrightarrow> (\<exists>rs. rs \<noteq> [] \<and> set rs \<subseteq> {r \<in> set (target_chunks tg db). dc_path r = qr_Path hit}
     \<and> qr_Snippet hit = join_with [CHR 0x0A, CHR 0x0A] (map dc_content rs))"

definition from_source :: "query_env \<Rightarrow> query_result \<Rightarrow> bool" where
  "from_source env hit \<longleftrightarrow> (\<exists>raw. \<not> match_string privateKeyRE raw \<and> qr_Snippet hit = truncate_text (fst (Sanitize (qe_entropy env) raw)) 16000)"

lemma safe_hit_honest:
  assumes "safe_hit env tg db hit = Some safe"
  shows "qr_Path safe = qr_Path hit" "from_index tg db safe \<or> from_source env safe"
proof -
  define lineStart where "lineStart = max 1 (qr_LineStart hit)"
  define lineEnd where "lineEnd = max lineStart (qr_LineEnd hit)"
  have both: "qr_Path safe = qr_Path hit \<and> (from_index tg db safe \<or> from_source env safe)"
  proof (cases "nearest_chunk env tg db (qr_Path hit) lineStart lineEnd")
    case None
    then have m: "mask_hit env tg hit lineStart lineEnd = Some safe"
      using assms by (simp add: safe_hit_def lineStart_def lineEnd_def Let_def)
    obtain snippet finding where san: "Sanitize (qe_entropy env) (trim_space (qr_Snippet hit)) = (snippet, finding)"
      by (cases "Sanitize (qe_entropy env) (trim_space (qr_Snippet hit))")
    then have "snippet \<noteq> []" and safe: "qr_Path safe = qr_Path hit" "qr_Snippet safe = truncate_text snippet 16000"
      using m by (auto simp: mask_hit_def split: if_splits)
    then have "\<not> match_string privateKeyRE (trim_space (qr_Snippet hit))" using san by (auto simp: Sanitize_def split: if_splits)
    then show ?thesis using safe san unfolding from_source_def by (metis fst_conv)
  next
    case (Some r)
    then have safe: "safe = join_neighbours env tg db r"
      using assms by (simp add: safe_hit_def lineStart_def lineEnd_def Let_def)
    define rank where "rank = (\<lambda>r. (if overlaps lineStart lineEnd r then 0 else 1 :: nat, \<bar>int (dc_start r) - lineStart\<bar>))"
    obtain rest where "sort_key rank (filter (\<lambda>r. dc_path r = qr_Path hit) (target_chunks tg db)) = r # rest"
      using Some unfolding nearest_chunk_def rank_def by (auto split: if_splits list.splits)
    then have "r \<in> set (sort_key rank (filter (\<lambda>r. dc_path r = qr_Path hit) (target_chunks tg db)))" by simp
    then have r: "r \<in> set (target_chunks tg db)" "dc_path r = qr_Path hit" by auto
    have near: "set (neighbours env tg db r) \<subseteq> {x \<in> set (target_chunks tg db). dc_path x = dc_path r}"
      unfolding neighbours_def Let_def by (auto split: option.splits dest!: in_set_takeD)
    define rows where "rows = (if qe_fault env (ReadNeighbours (dc_path r)) \<noteq> None then [r] else sort_key dc_start (r # neighbours env tg db r))"
    have "set rows \<subseteq> insert r (set (neighbours env tg db r))" unfolding rows_def by (auto simp: set_insort_key)
    then have "set rows \<subseteq> {x \<in> set (target_chunks tg db). dc_path x = qr_Path hit}" using r near by auto
    moreover have "rows \<noteq> []" by (simp add: rows_def insort_not_Nil)
    moreover have "qr_Path safe = qr_Path hit" "qr_Snippet safe = join_with [CHR 0x0A, CHR 0x0A] (map dc_content rows)"
      using r(2) by (simp_all add: safe join_neighbours_def rows_def Let_def)
    ultimately show ?thesis unfolding from_index_def by metis
  qed
  then show "qr_Path safe = qr_Path hit" "from_index tg db safe \<or> from_source env safe" by blast+
qed

definition honest_hits :: "query_env \<Rightarrow> target \<Rightarrow> query_db \<Rightarrow> nat \<Rightarrow> query_result list \<Rightarrow> bool" where
  "honest_hits env tg db limit hits \<longleftrightarrow> length hits \<le> limit \<and> distinct (map qr_Path hits)
     \<and> list_all (\<lambda>h. from_index tg db h \<or> from_source env h) hits"

lemma safe_hits_honest:
  "length out < limit \<Longrightarrow> honest_hits env tg db limit out \<Longrightarrow> honest_hits env tg db limit (safe_hits env tg db limit hits out)"
proof (induction hits arbitrary: out)
  case (Cons hit hits)
  show ?case
  proof (cases "qr_Path hit = [] \<or> qr_Path hit \<in> qr_Path ` set out")
    case False
    show ?thesis
    proof (cases "safe_hit env tg db hit")
      case (Some safe)
      note safe = safe_hit_honest [OF Some]
      have "honest_hits env tg db limit (out @ [safe])" using Cons.prems safe False by (auto simp: honest_hits_def)
      then show ?thesis using Cons.IH [of "out @ [safe]"] Cons.prems(1) False Some by auto
    qed (use Cons False in auto)
  qed (use Cons in auto)
qed simp

lemma clamped_limit: "1 \<le> cf_FinalK (clamp_config c) \<and> cf_FinalK (clamp_config c) \<le> 50"
  by (auto simp: clamp_config_def Let_def)

lemma remote_honest:
  assumes "1 \<le> cf_FinalK c" "remote_documents env c tg db query = (events, hits, e)"
  shows "honest_hits env tg db (nat (cf_FinalK c)) hits"
proof -
  have none: "honest_hits env tg db n []" for n by (simp add: honest_hits_def)
  have "honest_hits env tg db (nat (cf_FinalK c)) (safeSourceHits env tg db hs (nat (cf_FinalK c)))" for hs
    unfolding safeSourceHits_def using assms(1) none by (intro safe_hits_honest) auto
  then show ?thesis using assms(2) none unfolding remote_documents_def
    by (auto split: option.splits if_splits prod.splits sum.splits)
qed

text \<open>The three forms of an answer.\<close>

definition source_answer :: "query_env \<Rightarrow> target \<Rightarrow> query_db \<Rightarrow> nat \<Rightarrow> string \<Rightarrow> bool" where
  "source_answer env tg db limit t \<longleftrightarrow>
     (\<exists>hits failover notice. t = assembleSourceQueryResults tg hits failover @ notice \<and> hits \<noteq> [] \<and> honest_hits env tg db limit hits)"

definition index_answer :: "target \<Rightarrow> query_db \<Rightarrow> nat \<Rightarrow> string \<Rightarrow> bool" where
  "index_answer tg db limit t \<longleftrightarrow>
     (\<exists>c remote n1 n2 n3 hits. t = render_hits tg c remote n1 n2 n3 hits \<and> hits \<noteq> [] \<and> length hits \<le> limit
       \<and> sd_row ` set hits \<subseteq> set (target_chunks tg db))"

definition no_answer :: "target \<Rightarrow> string \<Rightarrow> bool" where
  "no_answer tg t \<longleftrightarrow> (\<exists>remote. t = no_match_text tg remote)"

lemma embed_query_config: "embed_query env c query external notice = (events, Inr (c1, v, external1, notice1)) \<Longrightarrow> cf_FinalK c1 = cf_FinalK c"
  by (auto simp: embed_query_def Let_def split: if_splits sum.splits option.splits prod.splits)

lemma rerank_rows_set:
  assumes "rerank_rows env c query hits = (hits', note)"
  shows "sd_row ` set hits' = sd_row ` set hits"
proof (cases "hits' = hits")
  case False
  then obtain limit scores where h: "hits' = rankBy sd_score row_identity (map (\<lambda>(h, s). h\<lparr>sd_score := s\<rparr>) (zip (take limit hits) scores)) @ drop limit hits"
      "length scores = limit" "limit \<le> length hits"
    using assms unfolding rerank_rows_def Let_def by (auto split: option.splits if_splits sum.splits)
  have "sd_row ` (\<lambda>(h, s). h\<lparr>sd_score := s\<rparr>) ` set (zip (take limit hits) scores) = sd_row ` fst ` set (zip (take limit hits) scores)"
    by (force simp: image_image)
  also have "fst ` set (zip (take limit hits) scores) = set (take limit hits)"
    using h(2,3) by (metis length_take list.set_map map_fst_zip min.absorb2)
  finally show ?thesis unfolding h(1) by (simp add: image_Un) (metis append_take_drop_id image_Un set_append)
qed simp

lemma query_index_hits:
  assumes "query_index env c tg db principals query notice = (events, Inr found)"
  shows "length (la_hits found) \<le> nat (cf_FinalK c)" "sd_row ` set (la_hits found) \<subseteq> set (target_chunks tg db)"
proof -
  define terms where "terms = unique (Tokens (qe_letter env) (qe_lower env) query)"
  define given where "given = keyword_candidates env c tg principals query"
  obtain external0 added vectorNote where v: "vector_candidates env c tg query (map fst given) = (external0, added, vectorNote)"
    by (cases "vector_candidates env c tg query (map fst given)")
  obtain rows where rows: "candidate_rows env c tg db (map fst given @ added) terms = Inr rows"
    using assms v by (cases "candidate_rows env c tg db (map fst given @ added) terms")
      (auto simp: query_index_def Let_def terms_def [symmetric] given_def [symmetric])
  obtain c1 qv external notice1 where e: "embed_query env c query external0 notice = (events, Inr (c1, qv, external, notice1))"
    using assms v rows by (auto simp: query_index_def Let_def terms_def [symmetric] given_def [symmetric] split: prod.splits sum.splits)
  define ranked where "ranked = rankBy sd_score row_identity (score_rows env c1 terms given qv external rows)"
  obtain hits said where h: "rerank_rows env c1 query ranked = (hits, said)" by (cases "rerank_rows env c1 query ranked")
  have found: "la_hits found = take (nat (cf_FinalK c1)) hits"
    using assms v rows e h by (auto simp: query_index_def Let_def terms_def [symmetric] given_def [symmetric] ranked_def [symmetric])
  then show "length (la_hits found) \<le> nat (cf_FinalK c)" using embed_query_config [OF e] by simp
  have "sd_row ` set ranked \<subseteq> set rows" unfolding ranked_def using score_rows_row by auto
  moreover have "set rows \<subseteq> set (target_chunks tg db)"
    using rows by (auto simp: candidate_rows_def split: option.splits dest!: in_set_takeD)
  ultimately have "sd_row ` set hits \<subseteq> set (target_chunks tg db)" unfolding rerank_rows_set [OF h] by (rule subset_trans)
  moreover have "set (la_hits found) \<subseteq> set hits" unfolding found by (rule set_take_subset)
  ultimately show "sd_row ` set (la_hits found) \<subseteq> set (target_chunks tg db)" by (meson image_mono subset_trans)
qed

lemma fail_over_shape:
  assumes "honest_hits env tg db limit hits" "fail_over tg (hits, e) = Inr t"
  shows "source_answer env tg db limit t \<or> no_answer tg t"
proof (cases "hits = []")
  case False
  then have "t = assembleSourceQueryResults tg hits True @ []" using assms(2) by (simp add: fail_over_def)
  then show ?thesis using assms(1) False unfolding source_answer_def by blast
next
  case True
  then have "t = no_match_text tg e" using assms(2) by (auto simp: fail_over_def split: option.splits if_splits)
  then show ?thesis unfolding no_answer_def by blast
qed

lemma answer_from_index_shape:
  assumes "1 \<le> cf_FinalK c" "answer_from_index env c tg db principals query notice asked = (events, Inr t)"
    "case asked of None \<Rightarrow> True | Some (hits, e) \<Rightarrow> hits = []"
  shows "source_answer env tg db (nat (cf_FinalK c)) t \<or> index_answer tg db (nat (cf_FinalK c)) t \<or> no_answer tg t"
proof -
  obtain ev found where q: "query_index env c tg db principals query notice = (ev, Inr found)"
    using assms(2) unfolding answer_from_index_def by (auto split: prod.splits sum.splits)
  note hits = query_index_hits [OF q]
  show ?thesis
  proof (cases "la_hits found = []")
    case False
    obtain remote where "t = render_hits tg c remote (la_vector_note found) (la_rerank_note found) (la_notice found) (la_hits found)"
      using assms(2) q False unfolding answer_from_index_def by auto
    then show ?thesis using hits False unfolding index_answer_def by blast
  next
    case True
    have "\<exists>hits e. honest_hits env tg db (nat (cf_FinalK c)) hits \<and> fail_over tg (hits, e) = Inr t"
    proof (cases asked)
      case None
      obtain ev2 hits e where r: "remote_documents env c tg db query = (ev2, hits, e)" by (cases "remote_documents env c tg db query") auto
      then have "fail_over tg (hits, e) = Inr t" using assms(2) q True None unfolding answer_from_index_def by simp
      then show ?thesis using remote_honest [OF assms(1) r] by blast
    next
      case (Some answer)
      then obtain e where "asked = Some ([], e)" using assms(3) by (cases answer) auto
      then have "fail_over tg ([], e) = Inr t" using assms(2) q True unfolding answer_from_index_def by simp
      moreover have "honest_hits env tg db (nat (cf_FinalK c)) []" by (simp add: honest_hits_def)
      ultimately show ?thesis by blast
    qed
    then show ?thesis using fail_over_shape by blast
  qed
qed

lemma answer_query_shape:
  assumes "1 \<le> cf_FinalK c" "answer_query env c tg db principals query notice = (events, Inr t)"
  shows "source_answer env tg db (nat (cf_FinalK c)) t \<or> index_answer tg db (nat (cf_FinalK c)) t \<or> no_answer tg t"
proof (cases "cf_SourceQuery c")
  case False
  then show ?thesis using assms answer_from_index_shape [of c env tg db principals query notice None] unfolding answer_query_def by simp
next
  case True
  obtain ev hits e where r: "remote_documents env c tg db query = (ev, hits, e)" by (cases "remote_documents env c tg db query") auto
  show ?thesis
  proof (cases "hits = []")
    case False
    then obtain tail where "t = assembleSourceQueryResults tg hits False @ tail" using assms(2) r True unfolding answer_query_def by auto
    then show ?thesis using remote_honest [OF assms(1) r] False unfolding source_answer_def by blast
  next
    case empty: True
    then obtain ev2 where "answer_from_index env c tg db principals query notice (Some ([], e)) = (ev2, Inr t)"
      using assms(2) r True unfolding answer_query_def by (auto split: prod.splits)
    from answer_from_index_shape [OF assms(1) this] show ?thesis by simp
  qed
qed

lemma check_coverage_config:
  "check_coverage env c tg db = (events, Inr (c', notice)) \<Longrightarrow> cf_FinalK c' = cf_FinalK c"
  by (auto simp: check_coverage_def Let_def split: if_splits sum.splits prod.splits)

text \<open>An answer cites only what is there. Every answer is about one repository the caller may read and either says
  that nothing matched, or is at most as many sections as configured: chunks of that repository at that
  ref, or hits of the source, each path once, whose text is that of the file's chunks or masked.\<close>

theorem answers_cite_what_is_there:
  assumes "Query env db principals libraryID query = (events, Inr t)"
  shows "\<exists>baseID version r. query_parts libraryID = Some (baseID, version) \<and> library_repo principals (qd_catalog db) baseID = Some r
     \<and> (let tg = target_of db r baseID version; limit = nat (cf_FinalK (clamp_config (qe_config env))) in
          limit \<le> 50 \<and> (source_answer env tg db limit t \<or> index_answer tg db limit t \<or> no_answer tg t))"
proof -
  obtain baseID version where parts: "query_parts libraryID = Some (baseID, version)"
    using assms unfolding Query_def by (auto split: option.splits)
  obtain r where r: "library_repo principals (qd_catalog db) baseID = Some r"
    using assms parts unfolding Query_def by (auto split: if_splits option.splits)
  define tg where "tg = target_of db r baseID version"
  define c0 where "c0 = clamp_config (qe_config env)"
  have step: "query_target env tg db principals query = (events, Inr t)"
    using assms parts r unfolding Query_def tg_def by (simp split: if_splits)
  then obtain ev c notice where cov: "check_coverage env c0 tg db = (ev, Inr (c, notice))"
    unfolding query_target_def c0_def by (auto split: prod.splits sum.splits)
  then obtain more where answer: "answer_query env c tg db principals query notice = (more, Inr t)"
    using step unfolding query_target_def c0_def by (auto split: prod.splits)
  have k: "cf_FinalK c = cf_FinalK c0" by (rule check_coverage_config [OF cov])
  have limit: "1 \<le> cf_FinalK c0" "cf_FinalK c0 \<le> 50" using clamped_limit [of "qe_config env"] by (simp_all add: c0_def)
  from answer_query_shape [OF _ answer] have "source_answer env tg db (nat (cf_FinalK c0)) t \<or> index_answer tg db (nat (cf_FinalK c0)) t \<or> no_answer tg t"
    using k limit by simp
  then show ?thesis using parts r limit unfolding tg_def c0_def by (auto simp: Let_def)
qed

section \<open>The retrieval mode is kept\<close>

lemma zero_not_less [simp]: "\<not> float_less 0 0"
  by (simp add: float_less_def)

lemma safe_hits_models:
  "safe_hits (env\<lparr>qe_embedder := e, qe_vector := v\<rparr>) tg db limit hits out = safe_hits env tg db limit hits out"
proof -
  let ?env = "env\<lparr>qe_embedder := e, qe_vector := v\<rparr>"
  have near: "nearest_chunk ?env tg db = nearest_chunk env tg db" by (intro ext) (simp add: nearest_chunk_def)
  have masked: "mask_hit ?env tg = mask_hit env tg" by (intro ext) (simp add: mask_hit_def)
  have joined: "join_neighbours ?env tg db = join_neighbours env tg db" by (intro ext) (simp add: join_neighbours_def neighbours_def)
  have "safe_hit ?env tg db hit = safe_hit env tg db hit" for hit unfolding safe_hit_def near masked joined ..
  then show ?thesis by (induction hits arbitrary: out) (auto split: option.split)
qed

lemma remote_models:
  "remote_documents (env\<lparr>qe_embedder := e, qe_vector := v\<rparr>) c tg db query = remote_documents env c tg db query"
proof -
  let ?env = "env\<lparr>qe_embedder := e, qe_vector := v\<rparr>"
  have told: "tell_breaker ?env = tell_breaker env" by (intro ext) (simp add: tell_breaker_def)
  have same: "qe_sources ?env = qe_sources env" "qe_breakers ?env = qe_breakers env" "qe_allow ?env = qe_allow env" "qe_quote ?env = qe_quote env"
    by simp_all
  have loaded: "remoteSource ?env = remoteSource env" unfolding remoteSource_def told same ..
  show ?thesis unfolding remote_documents_def safeSourceHits_def safe_hits_models loaded told same ..
qed

text \<open>Without a weight for vectors, neither the model nor the vector database is asked.\<close>

lemma index_without_vectors:
  assumes "\<not> float_less 0 (cf_VectorWeight c)"
  shows "query_index (env\<lparr>qe_embedder := e, qe_vector := v\<rparr>) c tg db principals query notice = query_index env c tg db principals query notice"
proof -
  let ?env = "env\<lparr>qe_embedder := e, qe_vector := v\<rparr>"
  have none: "vector_candidates any_env c tg query ids = ([], [], [])" for any_env ids
    using assms by (simp add: vector_candidates_def split: option.split)
  have embedded: "embed_query any_env c query external n = ([], Inr (c, [], external, n))" for any_env external n
    using assms by (simp add: embed_query_def)
  have rows: "candidate_rows ?env c tg db ids terms = candidate_rows env c tg db ids terms" for ids terms
  proof -
    have sel: "qe_fulltext ?env = qe_fulltext env" "qe_fault ?env = qe_fault env" "qe_engine ?env = qe_engine env" by simp_all
    have clause: "row_clause ?env = row_clause env" by (intro ext) (simp only: row_clause_def fulltext_clause_def sel)
    show ?thesis unfolding candidate_rows_def clause by simp
  qed
  have tokens: "row_tokens ?env = row_tokens env" by (rule ext) (simp add: row_tokens_def)
  have math: "qe_math ?env = qe_math env" by simp
  have bm: "bm25 ?env = bm25 env"
    by (intro ext) (simp only: bm25_def term_score_def document_frequency_def average_length_def total_length_def tokens math)
  have scores: "score_rows ?env = score_rows env"
    by (intro ext) (simp only: score_rows_def keyword_score_def vector_score_def bm math)
  have reranker: "qe_reranker ?env = qe_reranker env" by simp
  have reranked: "rerank_rows ?env = rerank_rows env" by (intro ext) (simp only: rerank_rows_def reranker)
  have words: "qe_letter ?env = qe_letter env" "qe_lower ?env = qe_lower env" by simp_all
  have given: "keyword_candidates ?env c tg principals query = keyword_candidates env c tg principals query" by (simp add: keyword_candidates_def)
  show ?thesis unfolding query_index_def none embedded rows scores reranked given words by simp
qed

lemma query_without_vectors:
  assumes "\<not> float_less 0 (cf_VectorWeight (clamp_config (qe_config env)))"
  shows "Query (env\<lparr>qe_embedder := e, qe_vector := v\<rparr>) db principals libraryID query = Query env db principals libraryID query"
proof -
  let ?env = "env\<lparr>qe_embedder := e, qe_vector := v\<rparr>" and ?c = "clamp_config (qe_config env)"
  have cov: "check_coverage any_env ?c tg db = ([], Inr (?c, []))" for any_env tg
    using assms by (simp add: check_coverage_def UsesEmbeddings_def)
  have from_index': "answer_from_index ?env ?c tg db principals query notice asked = answer_from_index env ?c tg db principals query notice asked"
    for tg notice asked
  proof -
    have q: "qe_quote ?env = qe_quote env" by simp
    show ?thesis unfolding answer_from_index_def index_without_vectors [OF assms] remote_models q ..
  qed
  have "answer_query ?env ?c tg db principals query notice = answer_query env ?c tg db principals query notice" for tg notice
    unfolding answer_query_def from_index' remote_models ..
  then have "query_target ?env tg db principals query = query_target env tg db principals query" for tg
    unfolding query_target_def by (simp add: cov)
  moreover have "qe_catalog_fault ?env = qe_catalog_fault env" by simp
  ultimately show ?thesis unfolding Query_def by (simp only:)
qed

lemma unused_weight: "\<not> UsesEmbeddings (clamp_config c) \<Longrightarrow> \<not> float_less 0 (cf_VectorWeight (clamp_config c))"
  by (auto simp: clamp_config_def Let_def UsesEmbeddings_def split: if_splits)

lemma clamped_mode [simp]: "cf_Mode (clamp_config c) = cf_Mode c"
  by (simp add: clamp_config_def Let_def)

text \<open>In keyword-only mode no text leaves for a model. The answer, the errors and the reports of a query do not
  depend on the embedding model or the vector database: neither is asked.\<close>

theorem keyword_only_asks_no_model:
  assumes "NormalizeRetrievalMode (cf_Mode (qe_config env)) = ''keyword-only''"
  shows "Query (env\<lparr>qe_embedder := e, qe_vector := v\<rparr>) db principals libraryID query = Query env db principals libraryID query"
  using assms by (intro query_without_vectors unused_weight) (simp add: UsesEmbeddings_def)

text \<open>The settings accept a required mode with no weight for vectors; then a query asks no model either, and no notice says so.\<close>

lemma required_without_weight_is_lexical:
  assumes "cf_VectorWeight (qe_config env) = 0"
  shows "Query (env\<lparr>qe_embedder := e, qe_vector := v\<rparr>) db principals libraryID query = Query env db principals libraryID query"
proof -
  have "cf_VectorWeight (clamp_config (qe_config env)) = 0" using assms by (auto simp: clamp_config_def Let_def)
  then show ?thesis by (intro query_without_vectors) simp
qed

definition no_query_vector :: "query_env \<Rightarrow> string \<Rightarrow> bool" where
  "no_query_vector env query \<longleftrightarrow>
     (case qe_embedder env of Inl _ \<Rightarrow> True | Inr None \<Rightarrow> True
      | Inr (Some model) \<Rightarrow> (case model query of Inl _ \<Rightarrow> True | Inr v \<Rightarrow> v = []))"

lemma embed_query_required:
  assumes "float_less 0 (cf_VectorWeight c)" "RequiresEmbeddings c" "no_query_vector env query"
  shows "\<exists>e. embed_query env c query external notice = ([], Inl e)"
  using assms by (auto simp: embed_query_def no_query_vector_def split: sum.splits option.splits)

text \<open>A required model is never done without. In hybrid-required mode, with a weight for vectors and unless the
  source is asked first, a query whose vector cannot be computed is an error, never an answer from
  keywords alone.\<close>

theorem required_model_is_required:
  assumes "no_query_vector env query" "RequiresEmbeddings (clamp_config (qe_config env))" "UsesEmbeddings (clamp_config (qe_config env))"
    "\<not> cf_SourceQuery (clamp_config (qe_config env))"
  shows "\<exists>events e. Query env db principals libraryID query = (events, Inl e)"
proof -
  define c where "c = clamp_config (qe_config env)"
  have weight: "float_less 0 (cf_VectorWeight c)" using assms(3) by (simp add: c_def UsesEmbeddings_def)
  have index: "\<exists>events e. query_index env c tg db principals query notice = (events, Inl e)" for tg notice
  proof -
    define terms where "terms = unique (Tokens (qe_letter env) (qe_lower env) query)"
    define given where "given = keyword_candidates env c tg principals query"
    obtain external0 added vectorNote where v: "vector_candidates env c tg query (map fst given) = (external0, added, vectorNote)"
      by (cases "vector_candidates env c tg query (map fst given)")
    show ?thesis
    proof (cases "candidate_rows env c tg db (map fst given @ added) terms")
      case (Inl e)
      then show ?thesis using v by (simp add: query_index_def Let_def terms_def given_def)
    next
      case (Inr rows)
      obtain e where "embed_query env c query external0 notice = ([], Inl e)"
        using embed_query_required [OF weight _ assms(1)] assms(2) by (auto simp: c_def)
      then show ?thesis using v Inr by (simp add: query_index_def Let_def terms_def given_def)
    qed
  qed
  have target: "\<exists>events e. query_target env tg db principals query = (events, Inl e)" for tg
  proof (cases "check_coverage env c tg db")
    case (Pair events checked)
    show ?thesis
    proof (cases checked)
      case (Inr good)
      then obtain notice where "check_coverage env c tg db = (events, Inr (c, notice))"
        using Pair assms(2) by (auto simp: check_coverage_def c_def Let_def split: if_splits sum.splits prod.splits)
      moreover obtain ev e where "query_index env c tg db principals query notice = (ev, Inl e)" using index by blast
      ultimately show ?thesis using assms(4)
        by (simp add: query_target_def c_def answer_query_def answer_from_index_def)
    qed (use Pair in \<open>simp add: query_target_def c_def\<close>)
  qed
  show ?thesis unfolding Query_def using target by (auto split: option.split)
qed

section \<open>Witnesses\<close>

text \<open>One chunk of a repository, a search engine that names it, and an arithmetic that is not looked at.\<close>

definition query_chunk :: "string \<Rightarrow> nat \<Rightarrow> doc_chunk" where
  "query_chunk i start = \<lparr>dc_id = i, dc_repo = ''1'', dc_ref = ''m'', dc_commit = ''c'', dc_path = ''a.md'', dc_start = start,
     dc_end = start, dc_heading = ''H'', dc_type = ''doc'', dc_content = ''text'', dc_hash = [], dc_vector = None, dc_indexed = 0,
     dc_provider = [], dc_model = [], dc_dimensions = 0, dc_revision = []\<rparr>"

definition query_tables :: query_db where
  "query_tables = \<lparr>qd_catalog = demo_files, qd_name = (\<lambda>_. ''R''), qd_chunks = [query_chunk ''k'' 1], qd_states = []\<rparr>"

definition demo_arith :: arith where
  "demo_arith = \<lparr>fl_add = (\<lambda>_ _. 5), fl_mul = (\<lambda>_ _. 5), fl_div = (\<lambda>_ _. 5), fl_log = (\<lambda>_. 5), fl_int = (\<lambda>_. 5),
     fl_mul32 = (\<lambda>_ _. 5), fl_widen = (\<lambda>_. 5), fl_percent = (\<lambda>_. ''5'')\<rparr>"

definition demo_query_config :: "string \<Rightarrow> search_config" where
  "demo_query_config mode = \<lparr>cf_KeywordWeight = float_one, cf_VectorWeight = float_one, cf_FinalK = 8, cf_CandidateLimit = 100,
     cf_RerankLimit = 30, cf_SourceQuery = False, cf_Mode = mode, cf_Revision = [], cf_MinimumCoverage = 0\<rparr>"

definition demo_query_env :: "string \<Rightarrow> query_env" where
  "demo_query_env mode = \<lparr>qe_math = demo_arith, qe_letter = (\<lambda>_. True), qe_lower = to_lower, qe_quote = (\<lambda>s. s),
     qe_engine = demo_engine, qe_catalog_fault = (\<lambda>_. False), qe_fault = (\<lambda>_. None), qe_config = demo_query_config mode,
     qe_keyword = Some (\<lambda>_ _ _ _ _. Some [(''k'', float_one)]), qe_vector = None, qe_embedder = Inr None, qe_reranker = None,
     qe_sources = None, qe_allow = (\<lambda>_. True), qe_breakers = False, qe_fulltext = (\<lambda>_. None), qe_entropy = (\<lambda>_. False)\<rparr>"

lemma ranking_independent_of_row_order_witness:
  "rankBy sd_score row_identity (score_rows (demo_query_env ''keyword-only'') (demo_query_config []) [] [(''k'', float_one), (''l'', float_one)] [] []
       [query_chunk ''k'' 1, query_chunk ''l'' 2])
   = rankBy sd_score row_identity (score_rows (demo_query_env ''keyword-only'') (demo_query_config []) [] [(''k'', float_one), (''l'', float_one)] [] []
       [query_chunk ''l'' 2, query_chunk ''k'' 1])"
proof (rule ranking_independent_of_row_order)
  show "mset [query_chunk ''k'' 1, query_chunk ''l'' 2] = mset [query_chunk ''l'' 2, query_chunk ''k'' 1]" by simp
  show "distinct (map row_name [query_chunk ''k'' 1, query_chunk ''l'' 2])"
    by (simp add: row_name_def query_chunk_def itoa_nat_inj)
  show "list_all (\<lambda>h. \<not> is_nan (sd_score h)) (score_rows (demo_query_env ''keyword-only'') (demo_query_config []) []
      [(''k'', float_one), (''l'', float_one)] [] [] [query_chunk ''k'' 1, query_chunk ''l'' 2])"
    by (simp add: score_rows_def demo_query_env_def demo_arith_def Let_def is_nan_def float_magnitude_def)
qed

lemma query_only_from_readable_witness:
  "Query (demo_query_env ''keyword-only'') (visible_query [''u''] query_tables) [''u''] ''/p/r'' ''q''
     = Query (demo_query_env ''keyword-only'') query_tables [''u''] ''/p/r'' ''q''"
  by (rule query_only_from_readable) (simp add: query_tables_def demo_files_read)

lemma demo_modes: "NormalizeRetrievalMode ''keyword-only'' = ''keyword-only''" "NormalizeRetrievalMode ''hybrid-required'' = ''hybrid-required''"
  by (simp_all add: NormalizeRetrievalMode_def Let_def trim_space_visible visible_def to_lower_def lower_char_def)

lemma keyword_only_asks_no_model_witness:
  "Query (demo_query_env ''keyword-only''\<lparr>qe_embedder := Inl ''down'', qe_vector := None\<rparr>) query_tables [''u''] ''/p/r'' ''q''
     = Query (demo_query_env ''keyword-only'') query_tables [''u''] ''/p/r'' ''q''"
  by (rule keyword_only_asks_no_model) (simp add: demo_query_env_def demo_query_config_def demo_modes)

lemma float_one_positive: "float_less 0 float_one"
  by (simp add: float_less_def is_nan_def float_key_def float_magnitude_def float_negative_def)

lemma float_one_not_negative: "\<not> float_less float_one 0"
  by (simp add: float_less_def is_nan_def float_key_def float_magnitude_def float_negative_def)

lemma demo_clamped:
  "clamp_config (demo_query_config ''hybrid-required'') = demo_query_config ''hybrid-required''"
  "clamp_config (demo_query_config ''keyword-only'') = (demo_query_config ''keyword-only'')\<lparr>cf_VectorWeight := 0, cf_SourceQuery := True\<rparr>"
  by (simp_all add: clamp_config_def demo_query_config_def Let_def UsesEmbeddings_def demo_modes float_one_positive float_one_not_negative)

lemma required_model_is_required_witness:
  "\<exists>events e. Query (demo_query_env ''hybrid-required'') query_tables [''u''] ''/p/r'' ''q'' = (events, Inl e)"
proof (rule required_model_is_required)
  show "no_query_vector (demo_query_env ''hybrid-required'') ''q''" by (simp add: no_query_vector_def demo_query_env_def)
  have config: "clamp_config (qe_config (demo_query_env ''hybrid-required'')) = demo_query_config ''hybrid-required''"
    by (simp add: demo_query_env_def demo_clamped)
  show "RequiresEmbeddings (clamp_config (qe_config (demo_query_env ''hybrid-required'')))"
    unfolding config by (simp add: RequiresEmbeddings_def demo_query_config_def demo_modes)
  show "UsesEmbeddings (clamp_config (qe_config (demo_query_env ''hybrid-required'')))"
    unfolding config by (simp add: UsesEmbeddings_def demo_query_config_def demo_modes float_one_positive)
  show "\<not> cf_SourceQuery (clamp_config (qe_config (demo_query_env ''hybrid-required'')))"
    unfolding config by (simp add: demo_query_config_def)
qed

lemma demo_query_answers:
  "\<exists>t. Query (demo_query_env ''keyword-only'') query_tables [''u''] ''/p/r'' ''q'' = ([], Inr t)"
proof -
  let ?env = "demo_query_env ''keyword-only''" and ?c = "(demo_query_config ''keyword-only'')\<lparr>cf_VectorWeight := 0, cf_SourceQuery := True\<rparr>"
  have config: "clamp_config (qe_config ?env) = ?c" by (simp add: demo_query_env_def demo_clamped)
  have parts: "query_parts ''/p/r'' = Some (''/p/r'', None)" by (simp add: query_parts_def trim_prefix_def)
  have catalog: "qd_catalog query_tables = demo_files" by (simp add: query_tables_def)
  obtain r where r: "library_repo [''u''] demo_files ''/p/r'' = Some r" "cr_id r = ''1''" "cr_branch r = ''m''" "cr_source r = ''gitlab''"
    by (simp add: library_repo_def demo_eval)
  define tg where "tg = target_of query_tables r ''/p/r'' None"
  have tg: "tg_repo tg = ''1''" "tg_ref tg = ''m''" "tg_source tg = ''gitlab''" by (simp_all add: tg_def target_of_def r)
  have chunks: "target_chunks tg query_tables = [query_chunk ''k'' 1]"
    by (simp add: target_chunks_def of_target_def tg query_tables_def query_chunk_def)
  have coverage: "check_coverage ?env ?c tg query_tables = ([], Inr (?c, []))"
    by (simp add: check_coverage_def UsesEmbeddings_def demo_query_config_def demo_modes)
  have remote: "remote_documents ?env ?c tg query_tables ''q'' = ([], [], None)"
    by (simp add: remote_documents_def ref_limitation_def tg demo_query_env_def)
  have given: "keyword_candidates ?env ?c tg [''u''] ''q'' = [(''k'', float_one)]" by (simp add: keyword_candidates_def demo_query_env_def)
  have vectors: "vector_candidates ?env ?c tg ''q'' ids = ([], [], [])" for ids by (simp add: vector_candidates_def demo_query_env_def)
  have rows: "candidate_rows ?env ?c tg query_tables [''k''] terms = Inr [query_chunk ''k'' 1]" for terms
    by (simp add: candidate_rows_def row_clause_def chunks query_chunk_def demo_query_env_def demo_query_config_def)
  have vector: "embed_query ?env ?c ''q'' external notice = ([], Inr (?c, [], external, notice))" for external notice
    by (simp add: embed_query_def)
  have scored: "score_rows ?env ?c terms [(''k'', float_one)] [] external [query_chunk ''k'' 1] = [\<lparr>sd_row = query_chunk ''k'' 1, sd_score = 5\<rparr>]"
    for terms external
    by (simp add: score_rows_def keyword_score_def given_score_def query_chunk_def demo_query_env_def demo_arith_def Let_def float_one_positive)
  have ranked: "rankBy sd_score row_identity [h] = [h]" for h by (simp add: rankBy_def stable_sort_def)
  have plain: "rerank_rows ?env ?c ''q'' hits = (hits, [])" for hits by (simp add: rerank_rows_def demo_query_env_def)
  have ids: "map fst [(''k'', float_one)] @ [] = [''k'']" by simp
  have index: "query_index ?env ?c tg query_tables [''u''] ''q'' [] = ([], Inr \<lparr>la_hits = take (nat (cf_FinalK ?c))
      [\<lparr>sd_row = query_chunk ''k'' 1, sd_score = 5\<rparr>], la_vector_note = [], la_rerank_note = [], la_notice = []\<rparr>)"
    unfolding query_index_def Let_def given vectors prod.case ids rows sum.case vector scored ranked plain ..
  have "\<exists>t. answer_from_index ?env ?c tg query_tables [''u''] ''q'' [] (Some ([], None)) = ([], Inr t)"
    unfolding answer_from_index_def index by (simp add: demo_query_config_def)
  then obtain t where t: "answer_from_index ?env ?c tg query_tables [''u''] ''q'' [] (Some ([], None)) = ([], Inr t)" by blast
  have on: "cf_SourceQuery ?c" by simp
  have "answer_query ?env ?c tg query_tables [''u''] ''q'' [] = ([], Inr t)"
    unfolding answer_query_def Let_def remote prod.case t using on by simp
  then have target: "query_target ?env tg query_tables [''u''] ''q'' = ([], Inr t)"
    unfolding query_target_def config coverage by simp
  have allowed: "\<not> qe_catalog_fault ?env Authorize" by (simp add: demo_query_env_def)
  have asked: "trim_space ''q'' \<noteq> []" using trim_space_keeps [of "CHR ''q''" "''q''"] by (auto simp: visible_def)
  have "Query ?env query_tables [''u''] ''/p/r'' ''q'' = ([], Inr t)"
    unfolding Query_def parts option.case prod.case catalog r(1) tg_def [symmetric] target using allowed asked by simp
  then show ?thesis by blast
qed

lemma answers_cite_what_is_there_witness:
  "\<exists>t baseID version r. query_parts ''/p/r'' = Some (baseID, version) \<and> library_repo [''u''] (qd_catalog query_tables) baseID = Some r
     \<and> (let tg = target_of query_tables r baseID version; env = demo_query_env ''keyword-only'';
            limit = nat (cf_FinalK (clamp_config (qe_config env))) in
          limit \<le> 50 \<and> (source_answer env tg query_tables limit t \<or> index_answer tg query_tables limit t \<or> no_answer tg t))"
proof -
  obtain t where t: "Query (demo_query_env ''keyword-only'') query_tables [''u''] ''/p/r'' ''q'' = ([], Inr t)"
    using demo_query_answers by blast
  show ?thesis using answers_cite_what_is_there [OF t] unfolding Let_def by blast
qed

end
