(* ===== verification/Spec2Isabelle.thy ===== *)
theory Spec2Isabelle
  imports Versions Breaker NetClient ResponseBudget ApiKeys JobQueue ToolCache CodeOwners Webhook CallTrace Scheduler Platform Risk
    Recovery Accounts AccountSteps Claims Delivery Catalog Sanitize Globs FileSearch ContextPlan Manifest Lockfile CodeIntel Indexer IndexRun IndexPublish IndexSample IndexGuarantees DocQuery QueryGuarantees
begin

text \<open>
  A verification library for git-ctx, a server that indexes source repositories and documents and
  answers questions about them over the Model Context Protocol (the Go program under \<^verbatim>\<open>src/\<close>).
  Paths below are relative to \<^verbatim>\<open>src/\<close>.

  \<^bold>\<open>The program and how its parts meet.\<close> A scheduler (\<^verbatim>\<open>internal/scheduler\<close>) and webhooks
  (\<^verbatim>\<open>internal/webhook\<close>) put jobs into the table \<^verbatim>\<open>index_jobs\<close>; workers (\<^verbatim>\<open>internal/worker\<close>) claim them under a lease
  and run the indexer (\<^verbatim>\<open>internal/indexer\<close>) over a source adapter, behind a circuit breaker for each
  source (\<^verbatim>\<open>internal/source/transport.go\<close>). The indexer masks credentials (\<^verbatim>\<open>internal/contentsecurity\<close>), cuts files into
  chunks and symbols (\<^verbatim>\<open>internal/codeintel\<close>), reads manifests and lock files (\<^verbatim>\<open>internal/manifest\<close>) and publishes a
  generation of a ref in one transaction. The search service (\<^verbatim>\<open>internal/search\<close>) answers from these tables under the
  permissions of the caller; the MCP layer (\<^verbatim>\<open>internal/mcp\<close>) caches, cuts and audits the answers.
  Accounts, API keys, sessions and recovery tokens (\<^verbatim>\<open>internal/app\<close>, \<^verbatim>\<open>internal/apikey\<close>, \<^verbatim>\<open>internal/auth\<close>,
  \<^verbatim>\<open>internal/recovery\<close>) decide who the caller is, and notifications (\<^verbatim>\<open>internal/notification\<close>) are delivered from an outbox.

  \<^bold>\<open>Conventions.\<close> A Go string is a list of bytes; a time is a number of nanoseconds; an integer is unbounded where
  the code cannot overflow and wrapped to 64 bits where it can; a float64 of the ranking is its 64 bits, with the
  operations of the machine as arguments. A table of the database is a list of records, a statement a function
  on it; an \<^verbatim>\<open>ORDER BY\<close> is a stable sort, and the order in which rows come otherwise is that of the list. A query or an
  insert that can fail takes a fault, so every error branch is a branch of the model. An error is the left
  of a sum. What the repository does not contain (the database engine's \<^verbatim>\<open>LIKE\<close> and collation, SHA-256,
  AES, JSON, the Go parser, the source APIs, the models, Unicode's tables) is an argument of the definitions that use
  it, and what is assumed of it is a named hypothesis. A method under a mutex is one step.

  \<^bold>\<open>Theories and the code they model.\<close>

    \<^item> Prelude: what the sources use of Go's \<^verbatim>\<open>strings\<close>, \<^verbatim>\<open>strconv\<close> and \<^verbatim>\<open>unicode/utf8\<close>, with the facts all theories share
      (collections \<^verbatim>\<open>go_string\<close> and \<^verbatim>\<open>invariants\<close>).
    \<^item> Versions: \<^verbatim>\<open>internal/manifest/version.go\<close>. The comparisons are interpretations of the locale \<open>three_way\<close>; a version
      is a preorder of the library.
    \<^item> GoErrors, NetClient: error chains, \<^verbatim>\<open>internal/netclient\<close>. Breaker: \<^verbatim>\<open>internal/source/transport.go\<close>; the locale \<open>source_health\<close> is
      what the worker relies on, interpreted on the registry of breakers.
    \<^item> ResponseBudget: \<^verbatim>\<open>internal/mcp/budget.go\<close>. ToolCache: \<^verbatim>\<open>internal/mcp/cache.go\<close>, \<^verbatim>\<open>session.go\<close>, \<^verbatim>\<open>policy.go\<close> and the principal of a request.
      ToolCatalog, CallTrace: \<^verbatim>\<open>internal/toolcatalog\<close>, \<^verbatim>\<open>internal/calltrace\<close>.
    \<^item> ApiKeys: \<^verbatim>\<open>internal/apikey/service.go\<close> (locale \<open>row_invariant\<close>, interpreted on the invariants of the key table). Recovery, Accounts, AccountSteps,
      Claims: \<^verbatim>\<open>internal/recovery/token.go\<close>, \<^verbatim>\<open>internal/app/auth.go\<close>, \<^verbatim>\<open>adminusers.go\<close>, \<^verbatim>\<open>httpx.go\<close> and \<^verbatim>\<open>internal/auth/oidc.go\<close>; AccountSteps is the machine of
      all requests.
    \<^item> JobQueue, Webhook, Scheduler: \<^verbatim>\<open>internal/worker/worker.go\<close>, \<^verbatim>\<open>internal/webhook/service.go\<close>, \<^verbatim>\<open>internal/scheduler/scheduler.go\<close>; Platform puts any number of them on one
      queue. Delivery: \<^verbatim>\<open>internal/notification/service.go\<close>.
    \<^item> Regexp, RegexpGroups: a matcher for the patterns of the program, written as syntax trees, with Go's preference for
      alternatives; what a pattern can match is a relation (\<open>moves\<close>) shown to agree with the matcher. Sanitize: \<^verbatim>\<open>internal/contentsecurity/sanitize.go\<close>.
      PathMatch, Globs, CodeOwners: \<^verbatim>\<open>path.Match\<close>, the path matcher of the file search, \<^verbatim>\<open>internal/search/codeowners.go\<close>.
    \<^item> Catalog, FileSearch, ContextPlan, Risk: the queries over symbols, dependencies, refs and files of \<^verbatim>\<open>internal/search/service.go\<close>, \<^verbatim>\<open>tests.go\<close>,
      \<^verbatim>\<open>contextplan.go\<close>, \<^verbatim>\<open>risk.go\<close>, \<^verbatim>\<open>freshness.go\<close>. DocQuery: \<^verbatim>\<open>Query\<close> of \<^verbatim>\<open>service.go\<close>, the hybrid search of chunks; QueryGuarantees: what holds of it.
    \<^item> Manifest, Lockfile, CodeIntel, Indexer: \<^verbatim>\<open>internal/manifest\<close>, \<^verbatim>\<open>internal/codeintel\<close> and the parts of \<^verbatim>\<open>internal/indexer/indexer.go\<close> that touch no table.
    \<^item> IndexRun: a run of the indexer on the tables, its transactions and error paths. IndexPublish: the tables after a publication as
      equations. IndexGuarantees: what a run guarantees. IndexSample: a repository the hypotheses hold for.

  \<^bold>\<open>What the lemmas show.\<close>

    \<^item> Access: answers of the catalogue, of the file search and of documentation queries are those over the
      caller's part of the tables (\<open>answers_only_from_readable\<close>, \<open>file_answers_only_from_readable\<close>, \<open>query_only_from_readable\<close>); equal cache keys mean equal
      access over equal states (\<open>cacheKey_separates\<close>); disabled accounts, revoked keys and used recovery tokens stay out under every history of requests.
    \<^item> The queue: the lease of a job is exclusive and every step refines an abstract life cycle, whatever the
      interleaving of workers, scheduler and webhooks; failures are accounted for; a breaker opens at its
      threshold and lets a caller through again in time.
    \<^item> The index: a full run leaves the chunks of the masked files of the snapshot, an incremental run those of the new
      snapshot when the feed accounts for the changes, nothing is published without lease and expected commit, and a run is all or nothing.
    \<^item> Texts: block scalars of credentials are masked line by line; globs of an unambiguous syntax
      accept what the shell glob stands for; chunks cite their lines; a cut answer keeps its notice outside fences; a context bundle keeps its budget.
    \<^item> Deliveries: a pass sends each due row once, finished rows stay, mail with credentials is encrypted.

  A specification that is not a copy of the code stands beside the theorem that uses it, for example
  \<open>describes_changes\<close> (change feeds), \<open>key_column\<close> (blocks of YAML), \<open>glob_names\<close> (shell globs), \<open>visible_part\<close> (access) and the life cycle of
  Platform. Lemmas that record a defect of the code, such as \<open>copied_source_lost\<close>, \<open>item_siblings_masked\<close>, \<open>unrestricted_key_blind\<close> or \<open>underscore_dropped\<close>,
  stand behind the definitions they are about.

  \<^bold>\<open>Loops and bounds.\<close> Every loop of the model is a recursion with a termination proof, on the length of
  what is left to read or on a number of retries the code fixes; no fuel is used. The one loop that ends only if
  its statements make progress, the seeding of deliveries, is a partial function, and its end is a theorem.

  \<^bold>\<open>What is not modelled.\<close> HTTP handlers and JSON-RPC plumbing, the clients of the source servers, search engines, vector databases and
  models, the store and its migrations, backup, secrets, telemetry and configuration: I/O, third-party protocols or glue over the modelled parts. The live
  source fan-out, the semantic search over the whole catalogue and the reports on dependencies, ownership, architecture and
  health are not modelled either. The model of the regular expressions covers the patterns the modelled files use; brackets of a
  file glob with escapes or named classes are an argument.
\<close>

end
